(* ===== verification/Prelude.thy ===== *)
theory Prelude
  imports Main "HOL-Library.Sublist"
begin

text \<open>
  Shared vocabulary of the development: fixed-width unsigned counters as naturals with the
  wrap-around written out, the arithmetic of ring indices (a window of consecutive positions
  taken modulo a capacity), and the list lemmas on bounded queues that several components use.

  The named collections:
  \<^item> \<open>wrap_simps\<close>: equations that remove a wrap-around under its no-overflow side condition;
  \<^item> \<open>cyber_inv\<close>: the definitions of the components' invariants;
  \<^item> \<open>cyber_defs\<close>: the one-line accessors of the components.
\<close>

named_theorems wrap_simps
named_theorems cyber_inv
named_theorems cyber_defs

section \<open>Unsigned 64-bit counters\<close>

text \<open>
  A \<open>uint64_t\<close> is a natural below \<open>two64\<close>. The constant stays folded, so that the
  simplifier never carries the twenty-digit numeral around; \<open>two64_def\<close> unfolds it where
  a closed term has to be evaluated.
\<close>

definition two64 :: nat where
  "two64 = 2 ^ 64"

definition u64_add :: "nat \<Rightarrow> nat \<Rightarrow> nat" where
  "u64_add a b = (a + b) mod two64"

definition u64_sub :: "nat \<Rightarrow> nat \<Rightarrow> nat" where
  "u64_sub a b = (a + (two64 - b mod two64)) mod two64"

lemma two64_gt_0 [simp]: "0 < two64"
  by (simp add: two64_def)

lemma two64_gt [simp]: "numeral k < (2::nat) ^ 64 \<Longrightarrow> numeral k < two64"
  by (simp add: two64_def)

lemma one_lt_two64 [simp]: "Suc 0 < two64"
  by (simp add: two64_def)

lemma u64_add_nowrap [wrap_simps]: "a + b < two64 \<Longrightarrow> u64_add a b = a + b"
  by (simp add: u64_add_def)

lemma u64_add_lt [simp]: "u64_add a b < two64"
  by (simp add: u64_add_def)

lemma u64_sub_ge [wrap_simps]:
  assumes "b \<le> a" and "a < two64"
  shows "u64_sub a b = a - b"
proof -
  have "a + (two64 - b mod two64) = (a - b) + two64"
    using assms by simp
  then have "u64_sub a b = ((a - b) + two64) mod two64"
    by (simp only: u64_sub_def)
  also have "\<dots> = (a - b) mod two64" by (rule mod_add_self2)
  also have "\<dots> = a - b" using assms by simp
  finally show ?thesis .
qed

lemma u64_sub_lt [simp]: "u64_sub a b < two64"
  by (simp add: u64_sub_def)

lemma u64_sub_self [simp]: "a < two64 \<Longrightarrow> u64_sub a a = 0"
  by (simp add: u64_sub_ge)

section \<open>Ring indices\<close>

text \<open>
  Positions of a window of at most \<open>n\<close> consecutive numbers have pairwise different residues
  modulo \<open>n\<close>: the fact every ring buffer of the program rests on.
\<close>

lemma mod_window_inj:
  fixes a i j n :: nat
  assumes "i mod n = j mod n" and "a \<le> i" "i < a + n" and "a \<le> j" "j < a + n"
  shows "i = j"
proof -
  have *: "x = y" if "x \<le> y" "x mod n = y mod n" "a \<le> x" "y < a + n" for x y
  proof -
    have "n dvd y - x" using that by (metis mod_eq_dvd_iff_nat)
    moreover have "y - x < n" using that by linarith
    ultimately have "y - x = 0" by (metis dvd_imp_le leD gr0I)
    with that show ?thesis by simp
  qed
  show ?thesis using * [of i j] * [of j i] assms by (cases "i \<le> j") auto
qed

lemma mod_window_neq:
  fixes i j n :: nat
  assumes "i < j" and "j < i + n"
  shows "i mod n \<noteq> j mod n"
  using mod_window_inj [of i n j i] assms by auto

text \<open>The integer division form of an index, as the code writes it, is the remainder.\<close>

lemma minus_div_mult_nat: "(x::nat) - (x div n) * n = x mod n"
  by (simp add: minus_div_mult_eq_mod)

text \<open>Reading a window of positions out of a ring.\<close>

definition ring_slice :: "'a list \<Rightarrow> nat \<Rightarrow> nat \<Rightarrow> 'a list" where
  "ring_slice buf lo hi = map (\<lambda>i. buf ! (i mod length buf)) [lo..<hi]"

lemma length_ring_slice [simp]: "length (ring_slice buf lo hi) = hi - lo"
  by (simp add: ring_slice_def)

lemma ring_slice_empty [simp]: "hi \<le> lo \<Longrightarrow> ring_slice buf lo hi = []"
  by (simp add: ring_slice_def)

lemma ring_slice_nth [simp]:
  "k < hi - lo \<Longrightarrow> ring_slice buf lo hi ! k = buf ! ((lo + k) mod length buf)"
  by (simp add: ring_slice_def)

lemma ring_slice_Cons:
  "lo < hi \<Longrightarrow> ring_slice buf lo hi = buf ! (lo mod length buf) # ring_slice buf (Suc lo) hi"
  by (simp add: ring_slice_def upt_conv_Cons)

lemma ring_slice_drop: "drop k (ring_slice buf lo hi) = ring_slice buf (lo + k) hi"
  by (simp add: ring_slice_def drop_map add.commute)

lemma ring_slice_take: "k \<le> hi - lo \<Longrightarrow> take k (ring_slice buf lo hi) = ring_slice buf lo (lo + k)"
  by (cases "k = 0") (simp_all add: ring_slice_def take_map take_upt)

text \<open>The window may be named from any representative of its start.\<close>

lemma ring_slice_mod:
  "ring_slice buf (lo mod length buf) (lo mod length buf + k) = ring_slice buf lo (lo + k)"
  by (intro nth_equalityI) (simp_all add: mod_add_left_eq)

text \<open>A window that stays inside the buffer, and one that wraps once.\<close>

lemma ring_slice_inside:
  "hi \<le> length buf \<Longrightarrow> ring_slice buf lo hi = map ((!) buf) [lo..<hi]"
  by (simp add: ring_slice_def)

lemma ring_slice_wrap:
  assumes "lo \<le> length buf" and "length buf \<le> hi" and "hi \<le> 2 * length buf"
  shows "ring_slice buf lo hi = map ((!) buf) [lo..<length buf] @ map ((!) buf) [0..<hi - length buf]"
proof -
  have "[lo..<hi] = [lo..<length buf] @ [length buf..<hi]"
    using assms by (metis upt_add_eq_append le_add_diff_inverse)
  moreover have "[length buf..<hi] = map (\<lambda>i. i + length buf) [0..<hi - length buf]"
    using assms by (simp add: map_add_upt)
  ultimately show ?thesis using assms by (simp add: ring_slice_def)
qed

text \<open>Writing the position just behind the window extends it and disturbs nothing in it.\<close>

lemma ring_slice_push:
  assumes "lo \<le> hi" and "hi - lo < length buf"
  shows "ring_slice (buf[hi mod length buf := x]) lo (Suc hi) = ring_slice buf lo hi @ [x]"
proof -
  have "buf[hi mod length buf := x] ! (i mod length buf) = buf ! (i mod length buf)"
    if "lo \<le> i" "i < hi" for i
  proof -
    have "hi < i + length buf" using that assms by linarith
    then show ?thesis
      using mod_window_neq [of i hi "length buf"] that by (simp add: nth_list_update)
  qed
  moreover have "hi mod length buf < length buf"
    using assms by (intro mod_less_divisor) auto
  ultimately show ?thesis
    using assms by (simp add: ring_slice_def)
qed

lemma ring_slice_update_outside:
  assumes "hi \<le> p" and "p < lo + length buf"
  shows "ring_slice (buf[p mod length buf := x]) lo hi = ring_slice buf lo hi"
proof -
  have "buf[p mod length buf := x] ! (i mod length buf) = buf ! (i mod length buf)"
    if "lo \<le> i" "i < hi" for i
    using mod_window_neq [of i p "length buf"] that assms by (simp add: nth_list_update)
  then show ?thesis by (simp add: ring_slice_def)
qed

section \<open>Keeping the last elements of a list\<close>

definition last_n :: "nat \<Rightarrow> 'a list \<Rightarrow> 'a list" where
  "last_n n xs = drop (length xs - n) xs"

lemma length_last_n [simp]: "length (last_n n xs) = min n (length xs)"
  by (auto simp: last_n_def)

lemma last_n_0 [simp]: "last_n 0 xs = []"
  by (simp add: last_n_def)

lemma last_n_all [simp]: "length xs \<le> n \<Longrightarrow> last_n n xs = xs"
  by (simp add: last_n_def)

lemma last_n_snoc: "last_n n (last_n n xs @ [x]) = last_n n (xs @ [x])"
proof (cases "length xs < n")
  case True
  then show ?thesis by simp
next
  case False
  then have "Suc (length xs - n) = Suc (length xs) - n" by simp
  with False show ?thesis
    by (cases n) (simp_all add: last_n_def Suc_diff_Suc)
qed

lemma last_n_append: "last_n n (last_n n xs @ ys) = last_n n (xs @ ys)"
proof (induction ys rule: rev_induct)
  case (snoc y ys)
  then show ?case by (metis append_assoc last_n_snoc)
qed (simp add: last_n_def)

lemma suffix_last_n: "suffix (last_n n xs) xs"
  by (simp add: last_n_def suffix_drop)

lemma last_last_n: "xs \<noteq> [] \<Longrightarrow> 0 < n \<Longrightarrow> last (last_n n xs) = last xs"
  by (simp add: last_n_def last_drop)

lemma last_n_drop1:
  "length xs = n \<Longrightarrow> last_n n (xs @ [x]) = drop 1 (xs @ [x])"
  by (simp add: last_n_def)

lemma set_last_n: "set (last_n n xs) \<subseteq> set xs"
  by (simp add: last_n_def set_drop_subset)

section \<open>Lists updated by index\<close>

text \<open>Reading inside the list, wherever the update went.\<close>

lemma nth_update_read: "k < length xs \<Longrightarrow> xs[i := v] ! k = (if i = k then v else xs ! k)"
  by (cases "i = k") auto

section \<open>Lists used as associative containers\<close>

lemma find_None_iff_filter: "List.find P xs = None \<longleftrightarrow> filter P xs = []"
  by (auto simp: find_None_iff filter_empty_conv)

lemma find_Some_hd_filter: "List.find P xs = Some x \<Longrightarrow> filter P xs \<noteq> [] \<and> hd (filter P xs) = x"
  by (induction xs) (auto split: if_splits)

lemma map_of_eq_filter: "map_of xs k = map_option snd (List.find (\<lambda>p. fst p = k) xs)"
  by (induction xs) auto

lemma count_list_distinct: "distinct xs \<Longrightarrow> count_list xs a = (if a \<in> set xs then 1 else 0)"
  by (induction xs) auto

end
