(* ===== verification/Cache_Buffer.thy ===== *)
theory Cache_Buffer
  imports Prelude
begin

text \<open>
  \<open>cyber/data/cache_buffer.h\<close> and \<open>cyber/data/channel_buffer.h\<close>: the per-reader ring of
  messages behind every channel. A \<open>CacheBuffer\<close> of user size \<open>n\<close> owns \<open>n + 1\<close> slots;
  positions are counted from 1 and never reset, a slot is the position modulo the capacity.
  A fusion callback, once installed, replaces the ring write; its captured state is the extra
  state component \<open>'s\<close>. Every operation runs under the buffer's mutex, so it is one atomic
  function. \<open>ChannelBuffer\<close> adds the reader side: fetching by a position the reader keeps.
\<close>

section \<open>CacheBuffer\<close>

record ('a, 's) CacheBuffer =
  cb_head :: nat
  cb_tail :: nat
  cb_capacity :: nat
  cb_buffer :: "'a list"
  cb_fusion_callback :: "('a \<Rightarrow> 's \<Rightarrow> 's) option"

text \<open>\<open>dflt\<close> is the value-initialised element that \<open>cb_buffer.resize\<close> fills in.\<close>

definition CacheBuffer_ctor :: "'a \<Rightarrow> nat \<Rightarrow> ('a, 's) CacheBuffer" where
  "CacheBuffer_ctor dflt sz =
     (let capacity = u64_add sz 1 in
      \<lparr>cb_head = 0, cb_tail = 0, cb_capacity = capacity, cb_buffer = replicate capacity dflt,
       cb_fusion_callback = None\<rparr>)"

definition CacheBuffer_copy :: "('a, 's) CacheBuffer \<Rightarrow> ('a, 's) CacheBuffer" where
  "CacheBuffer_copy rhs =
     \<lparr>cb_head = cb_head rhs, cb_tail = cb_tail rhs, cb_capacity = cb_capacity rhs, cb_buffer = cb_buffer rhs,
      cb_fusion_callback = cb_fusion_callback rhs\<rparr>"

definition CacheBuffer_GetIndex :: "('a, 's) CacheBuffer \<Rightarrow> nat \<Rightarrow> nat" where
  "CacheBuffer_GetIndex b pos = pos mod cb_capacity b"

definition CacheBuffer_at :: "('a, 's) CacheBuffer \<Rightarrow> nat \<Rightarrow> 'a" where
  "CacheBuffer_at b pos = cb_buffer b ! CacheBuffer_GetIndex b pos"

definition CacheBuffer_Head :: "('a, 's) CacheBuffer \<Rightarrow> nat" where
  "CacheBuffer_Head b = u64_add (cb_head b) 1"

definition CacheBuffer_Tail :: "('a, 's) CacheBuffer \<Rightarrow> nat" where
  "CacheBuffer_Tail b = cb_tail b"

definition CacheBuffer_Size :: "('a, 's) CacheBuffer \<Rightarrow> nat" where
  "CacheBuffer_Size b = u64_sub (cb_tail b) (cb_head b)"

definition CacheBuffer_Front :: "('a, 's) CacheBuffer \<Rightarrow> 'a" where
  "CacheBuffer_Front b = cb_buffer b ! CacheBuffer_GetIndex b (u64_add (cb_head b) 1)"

definition CacheBuffer_Back :: "('a, 's) CacheBuffer \<Rightarrow> 'a" where
  "CacheBuffer_Back b = cb_buffer b ! CacheBuffer_GetIndex b (cb_tail b)"

definition CacheBuffer_Empty :: "('a, 's) CacheBuffer \<Rightarrow> bool" where
  "CacheBuffer_Empty b \<longleftrightarrow> cb_tail b = 0"

definition CacheBuffer_Full :: "('a, 's) CacheBuffer \<Rightarrow> bool" where
  "CacheBuffer_Full b \<longleftrightarrow> u64_sub (cb_capacity b) 1 = u64_sub (cb_tail b) (cb_head b)"

definition CacheBuffer_SetFusionCallback ::
    "('a \<Rightarrow> 's \<Rightarrow> 's) \<Rightarrow> ('a, 's) CacheBuffer \<Rightarrow> ('a, 's) CacheBuffer" where
  "CacheBuffer_SetFusionCallback cb b = b\<lparr>cb_fusion_callback := Some cb\<rparr>"

definition CacheBuffer_Fill ::
    "'a \<Rightarrow> ('a, 's) CacheBuffer \<times> 's \<Rightarrow> ('a, 's) CacheBuffer \<times> 's" where
  "CacheBuffer_Fill v = (\<lambda>(b, s).
     (case cb_fusion_callback b of
        Some cb \<Rightarrow> (b, cb v s)
      | None \<Rightarrow>
          if CacheBuffer_Full b then
            (b\<lparr>cb_buffer := (cb_buffer b)[CacheBuffer_GetIndex b (cb_head b) := v],
               cb_head := u64_add (cb_head b) 1, cb_tail := u64_add (cb_tail b) 1\<rparr>, s)
          else
            (b\<lparr>cb_buffer := (cb_buffer b)[CacheBuffer_GetIndex b (u64_add (cb_tail b) 1) := v],
               cb_tail := u64_add (cb_tail b) 1\<rparr>, s)))"

section \<open>ChannelBuffer\<close>

text \<open>
  The reader's position is an in/out argument in the code; \<open>None\<close> is the returned
  \<open>false\<close>, which leaves the position alone.
\<close>

definition ChannelBuffer_Fetch :: "('a, 's) CacheBuffer \<Rightarrow> nat \<Rightarrow> (nat \<times> 'a) option" where
  "ChannelBuffer_Fetch b index =
     (if CacheBuffer_Empty b then None
      else if index = 0 then
        (let index' = CacheBuffer_Tail b in Some (index', CacheBuffer_at b index'))
      else if index = u64_add (CacheBuffer_Tail b) 1 then None
      else if index < CacheBuffer_Head b then
        (let index' = CacheBuffer_Tail b in Some (index', CacheBuffer_at b index'))
      else Some (index, CacheBuffer_at b index))"

definition ChannelBuffer_Latest :: "('a, 's) CacheBuffer \<Rightarrow> 'a option" where
  "ChannelBuffer_Latest b =
     (if CacheBuffer_Empty b then None else Some (CacheBuffer_Back b))"

function FetchMulti_loop :: "('a, 's) CacheBuffer \<Rightarrow> nat \<Rightarrow> 'a list \<Rightarrow> 'a list" where
  "FetchMulti_loop b index vec =
     (if index \<le> CacheBuffer_Tail b
      then FetchMulti_loop b (index + 1) (vec @ [CacheBuffer_at b index]) else vec)"
  by pat_completeness auto
termination
  by (relation "measure (\<lambda>(b, index, vec). CacheBuffer_Tail b + 1 - index)") auto

declare FetchMulti_loop.simps [simp del]

definition ChannelBuffer_FetchMulti ::
    "('a, 's) CacheBuffer \<Rightarrow> nat \<Rightarrow> 'a list \<Rightarrow> 'a list option" where
  "ChannelBuffer_FetchMulti b fetch_size vec =
     (if CacheBuffer_Empty b then None
      else let num = min (CacheBuffer_Size b) fetch_size in
        Some (FetchMulti_loop b (u64_add (u64_sub (CacheBuffer_Tail b) num) 1) vec))"

lemmas CacheBuffer_accessors [cyber_defs] =
  CacheBuffer_GetIndex_def CacheBuffer_at_def CacheBuffer_Head_def CacheBuffer_Tail_def
  CacheBuffer_Size_def CacheBuffer_Front_def CacheBuffer_Back_def CacheBuffer_Empty_def
  CacheBuffer_Full_def

section \<open>Invariant and contents\<close>

definition CacheBuffer_inv :: "('a, 's) CacheBuffer \<Rightarrow> bool" where
  [cyber_inv]: "CacheBuffer_inv b \<longleftrightarrow>
     0 < cb_capacity b \<and> cb_capacity b < two64 \<and> length (cb_buffer b) = cb_capacity b \<and>
     cb_head b \<le> cb_tail b \<and> cb_tail b - cb_head b \<le> cb_capacity b - 1 \<and> cb_tail b < two64"

text \<open>The messages a reader can still fetch, oldest first.\<close>

definition CacheBuffer_contents :: "('a, 's) CacheBuffer \<Rightarrow> 'a list" where
  "CacheBuffer_contents b = ring_slice (cb_buffer b) (Suc (cb_head b)) (Suc (cb_tail b))"

lemma CacheBuffer_Full_iff:
  "CacheBuffer_inv b \<Longrightarrow> CacheBuffer_Full b \<longleftrightarrow> cb_tail b - cb_head b = cb_capacity b - 1"
  by (auto simp: cyber_inv cyber_defs wrap_simps)

lemma length_contents [simp]: "length (CacheBuffer_contents b) = cb_tail b - cb_head b"
  by (simp add: CacheBuffer_contents_def)

lemma CacheBuffer_ctor_inv:
  "sz + 1 < two64 \<Longrightarrow> CacheBuffer_inv (CacheBuffer_ctor dflt sz)"
  by (simp add: cyber_inv CacheBuffer_ctor_def wrap_simps)

lemma CacheBuffer_ctor_contents [simp]:
  "CacheBuffer_contents (CacheBuffer_ctor dflt sz) = []"
  by (simp add: CacheBuffer_contents_def CacheBuffer_ctor_def Let_def)

text \<open>
  Without a callback both branches of \<open>Fill\<close> write the slot of position \<open>cb_tail + 1\<close>:
  on a full ring \<open>cb_head\<close> and \<open>cb_tail + 1\<close> share their slot.
\<close>

lemma Fill_full_slot:
  assumes "CacheBuffer_inv b" and "CacheBuffer_Full b"
  shows "cb_head b mod cb_capacity b = Suc (cb_tail b) mod cb_capacity b"
proof -
  from assms have "Suc (cb_tail b) = cb_head b + cb_capacity b"
    by (auto simp: CacheBuffer_Full_iff cyber_inv)
  then show ?thesis by simp
qed

lemma Fill_no_callback:
  assumes "CacheBuffer_inv b" and "cb_fusion_callback b = None" and "Suc (cb_tail b) < two64"
  shows "CacheBuffer_Fill v (b, s) =
    (b\<lparr>cb_buffer := (cb_buffer b)[Suc (cb_tail b) mod cb_capacity b := v],
       cb_head := (if CacheBuffer_Full b then Suc (cb_head b) else cb_head b),
       cb_tail := Suc (cb_tail b)\<rparr>, s)"
  using assms Fill_full_slot [of b]
  by (auto simp: CacheBuffer_Fill_def CacheBuffer_GetIndex_def wrap_simps cyber_inv)

lemma Fill_inv:
  assumes "CacheBuffer_inv b" and "Suc (cb_tail b) < two64"
  shows "CacheBuffer_inv (fst (CacheBuffer_Fill v (b, s)))"
proof (cases "cb_fusion_callback b")
  case None
  show ?thesis
    using assms CacheBuffer_Full_iff [OF assms(1)]
    by (auto simp: Fill_no_callback [OF assms(1) None assms(2)] cyber_inv)
next
  case (Some cb)
  with assms show ?thesis by (simp add: CacheBuffer_Fill_def)
qed

lemma Fill_contents:
  assumes inv: "CacheBuffer_inv b" and cb: "cb_fusion_callback b = None"
    and bound: "Suc (cb_tail b) < two64"
  shows "CacheBuffer_contents (fst (CacheBuffer_Fill v (b, s))) =
    last_n (cb_capacity b - 1) (CacheBuffer_contents b @ [v])"
proof -
  let ?buf = "(cb_buffer b)[Suc (cb_tail b) mod cb_capacity b := v]"
  have cap: "length (cb_buffer b) = cb_capacity b" using inv by (simp add: cyber_inv)
  have push: "ring_slice ?buf (Suc (cb_head b)) (Suc (Suc (cb_tail b))) =
      CacheBuffer_contents b @ [v]"
    using ring_slice_push [of "Suc (cb_head b)" "Suc (cb_tail b)" "cb_buffer b" v] inv
    by (auto simp: cap CacheBuffer_contents_def cyber_inv)
  show ?thesis
  proof (cases "CacheBuffer_Full b")
    case True
    then have "length (CacheBuffer_contents b) = cb_capacity b - 1"
      using inv by (simp add: CacheBuffer_Full_iff)
    then have "last_n (cb_capacity b - 1) (CacheBuffer_contents b @ [v]) =
        drop 1 (CacheBuffer_contents b @ [v])"
      by (rule last_n_drop1)
    also have "\<dots> = ring_slice ?buf (Suc (Suc (cb_head b))) (Suc (Suc (cb_tail b)))"
      using arg_cong [OF push, of "drop 1"] by (simp add: ring_slice_drop)
    finally show ?thesis
      using True by (simp add: Fill_no_callback [OF inv cb bound] CacheBuffer_contents_def)
  next
    case False
    then have "length (CacheBuffer_contents b @ [v]) \<le> cb_capacity b - 1"
      using inv by (auto simp: CacheBuffer_Full_iff cyber_inv)
    with False show ?thesis
      using push by (simp add: Fill_no_callback [OF inv cb bound] CacheBuffer_contents_def)
  qed
qed

section \<open>The buffer as a window on the stream of all messages\<close>

text \<open>
  \<open>stream_of b ms\<close>: the ring \<open>b\<close> has received the messages \<open>ms\<close> so far. The last
  \<open>capacity\<close> of them are still readable at their own positions, and \<open>head_\<close> trails the
  tail by the user size.
\<close>

definition stream_of :: "('a, 's) CacheBuffer \<Rightarrow> 'a list \<Rightarrow> bool" where
  "stream_of b ms \<longleftrightarrow>
     CacheBuffer_inv b \<and> cb_fusion_callback b = None \<and> cb_tail b = length ms \<and>
     cb_head b = length ms - (cb_capacity b - 1) \<and>
     (\<forall>i < length ms. length ms \<le> i + cb_capacity b \<longrightarrow> CacheBuffer_at b (Suc i) = ms ! i)"

lemma stream_of_inv: "stream_of b ms \<Longrightarrow> CacheBuffer_inv b"
  by (simp add: stream_of_def)

lemma stream_of_ctor: "sz + 1 < two64 \<Longrightarrow> stream_of (CacheBuffer_ctor dflt sz) []"
  using CacheBuffer_ctor_inv [of sz dflt]
  by (simp add: stream_of_def CacheBuffer_ctor_def Let_def)

lemma stream_of_Fill:
  assumes st: "stream_of b ms" and bound: "length ms + 1 < two64"
  shows "stream_of (fst (CacheBuffer_Fill v (b, s))) (ms @ [v])"
proof -
  from st have inv: "CacheBuffer_inv b" and cb: "cb_fusion_callback b = None"
    and tail: "cb_tail b = length ms" and head: "cb_head b = length ms - (cb_capacity b - 1)"
    and old: "\<And>i. i < length ms \<Longrightarrow> length ms \<le> i + cb_capacity b \<Longrightarrow>
      CacheBuffer_at b (Suc i) = ms ! i"
    by (auto simp: stream_of_def)
  have lt: "Suc (cb_tail b) < two64" using bound tail by simp
  have cap: "0 < cb_capacity b" "length (cb_buffer b) = cb_capacity b"
    using inv by (auto simp: cyber_inv)
  let ?b = "fst (CacheBuffer_Fill v (b, s))"
  have eq: "?b = b\<lparr>cb_buffer := (cb_buffer b)[Suc (length ms) mod cb_capacity b := v],
       cb_head := (if CacheBuffer_Full b then Suc (cb_head b) else cb_head b),
       cb_tail := Suc (length ms)\<rparr>"
    by (simp add: Fill_no_callback [OF inv cb lt] tail)
  have at: "CacheBuffer_at ?b (Suc i) = (ms @ [v]) ! i"
    if "i < Suc (length ms)" "Suc (length ms) \<le> i + cb_capacity b" for i
  proof (cases "i = length ms")
    case True
    with cap show ?thesis by (simp add: eq cyber_defs)
  next
    case False
    then have "Suc i mod cb_capacity b \<noteq> Suc (length ms) mod cb_capacity b"
      using that mod_window_neq [of "Suc i" "Suc (length ms)" "cb_capacity b"] by auto
    with False that old [of i] show ?thesis
      by (simp add: eq cyber_defs nth_append)
  qed
  have "CacheBuffer_Full b \<longleftrightarrow> cb_capacity b - 1 \<le> length ms"
    using CacheBuffer_Full_iff [OF inv] inv by (auto simp: tail head cyber_inv)
  then have "cb_head ?b = length (ms @ [v]) - (cb_capacity b - 1)"
    using cap by (auto simp: eq head)
  then show ?thesis
    using Fill_inv [OF inv lt, of v s] at cb by (simp add: stream_of_def eq)
qed

lemma stream_of_contents:
  assumes "stream_of b ms"
  shows "CacheBuffer_contents b = last_n (cb_capacity b - 1) ms"
proof (rule nth_equalityI)
  show "length (CacheBuffer_contents b) = length (last_n (cb_capacity b - 1) ms)"
    using assms by (auto simp: stream_of_def)
  fix k assume "k < length (CacheBuffer_contents b)"
  then have k: "k < length ms - cb_head b" using assms by (simp add: stream_of_def)
  have cap: "length (cb_buffer b) = cb_capacity b" "0 < cb_capacity b"
    and hd: "cb_head b = length ms - (cb_capacity b - 1)"
    using assms by (auto simp: stream_of_def cyber_inv)
  have "CacheBuffer_at b (Suc (cb_head b + k)) = ms ! (cb_head b + k)"
    using assms k cap unfolding stream_of_def by simp
  then show "CacheBuffer_contents b ! k = last_n (cb_capacity b - 1) ms ! k"
    using assms k cap
    by (simp add: CacheBuffer_contents_def cyber_defs last_n_def stream_of_def)
qed

text \<open>The four outcomes of \<open>Fetch\<close> in terms of the stream.\<close>

lemma Fetch_stream:
  assumes st: "stream_of b ms" and bound: "length ms + 1 < two64"
  shows "ChannelBuffer_Fetch b index =
    (if ms = [] \<or> index = Suc (length ms) then None
     else if index = 0 \<or> index \<le> cb_head b then Some (length ms, last ms)
     else Some (index, CacheBuffer_at b index))"
proof -
  have "CacheBuffer_at b (length ms) = last ms" if "ms \<noteq> []"
  proof -
    from that obtain k where k: "length ms = Suc k" by (cases ms) auto
    have "0 < cb_capacity b" using st by (simp add: stream_of_def cyber_inv)
    then have "CacheBuffer_at b (Suc k) = ms ! k" using st k by (simp add: stream_of_def)
    then show ?thesis using that k by (simp add: last_conv_nth)
  qed
  moreover have "cb_head b < two64" "cb_head b \<le> length ms" "cb_tail b = length ms"
    using st by (auto simp: stream_of_def cyber_inv)
  ultimately show ?thesis
    using bound
    by (auto simp: ChannelBuffer_Fetch_def CacheBuffer_Empty_def CacheBuffer_Head_def
        CacheBuffer_Tail_def wrap_simps Let_def)
qed

lemma Fetch_stream_Some:
  assumes "stream_of b ms" and "length ms + 1 < two64" and "index \<le> Suc (length ms)"
    and "ChannelBuffer_Fetch b index = Some (index', m)"
  shows "0 < index' \<and> index \<le> index' \<and> index' \<le> length ms \<and> m = ms ! (index' - 1)"
proof -
  have *: "CacheBuffer_at b index = ms ! (index - 1)"
    if "cb_head b < index" "index \<le> length ms"
  proof -
    from that obtain i where i: "index = Suc i" by (cases index) auto
    have "0 < cb_capacity b" "cb_head b = length ms - (cb_capacity b - 1)"
      using assms(1) by (auto simp: stream_of_def cyber_inv)
    then have "length ms \<le> i + cb_capacity b" "i < length ms" using that i by auto
    then show ?thesis using assms(1) i by (simp add: stream_of_def)
  qed
  have ne: "ms \<noteq> []" "index \<noteq> Suc (length ms)"
    using assms(4) by (auto simp: Fetch_stream [OF assms(1,2)] split: if_splits)
  then have le: "index \<le> length ms" using assms(3) by simp
  show ?thesis
  proof (cases "index = 0 \<or> index \<le> cb_head b")
    case True
    then have "index' = length ms" "m = last ms"
      using assms(4) ne by (auto simp: Fetch_stream [OF assms(1,2)] split: if_splits)
    with ne le show ?thesis by (auto simp: last_conv_nth)
  next
    case False
    then have "index' = index" "m = CacheBuffer_at b index"
      using assms(4) ne by (auto simp: Fetch_stream [OF assms(1,2)] split: if_splits)
    with False le * show ?thesis by auto
  qed
qed

section \<open>The reader's interface\<close>

text \<open>
  What a reader relies on: a source represents the stream of everything written to it, a write
  appends, and a fetch at a position not beyond the end yields the stream's element at some
  position not before it. A reader that always goes on behind what it fetched then sees a
  subsequence of the stream.
\<close>

locale stream_source =
  fixes fill :: "'a \<Rightarrow> 'b \<Rightarrow> 'b"
    and fetch :: "'b \<Rightarrow> nat \<Rightarrow> (nat \<times> 'a) option"
    and rep :: "'b \<Rightarrow> 'a list \<Rightarrow> bool"
  assumes rep_fill: "rep b ms \<Longrightarrow> length ms + 1 < two64 \<Longrightarrow> rep (fill m b) (ms @ [m])"
    and fetch_rep: "rep b ms \<Longrightarrow> length ms + 1 < two64 \<Longrightarrow> index \<le> Suc (length ms) \<Longrightarrow>
      fetch b index = Some (index', m) \<Longrightarrow>
      0 < index' \<and> index \<le> index' \<and> index' \<le> length ms \<and> m = ms ! (index' - 1)"
begin

definition reader_inv :: "'b \<Rightarrow> 'a list \<Rightarrow> nat \<Rightarrow> 'a list \<Rightarrow> bool" where
  "reader_inv b ms index got \<longleftrightarrow>
     rep b ms \<and> index \<le> Suc (length ms) \<and> subseq got (take (index - 1) ms)"

lemma reader_inv_start: "rep b [] \<Longrightarrow> reader_inv b [] 0 []"
  by (simp add: reader_inv_def)

lemma reader_inv_fill:
  assumes "reader_inv b ms index got" and "length ms + 1 < two64"
  shows "reader_inv (fill m b) (ms @ [m]) index got"
  using assms by (auto simp: reader_inv_def rep_fill)

lemma reader_inv_fetch:
  assumes inv: "reader_inv b ms index got" and "length ms + 1 < two64"
    and "fetch b index = Some (index', m)"
  shows "reader_inv b ms (Suc index') (got @ [m]) \<and> Suc index' < two64"
proof -
  have i: "0 < index'" "index \<le> index'" "index' \<le> length ms" "m = ms ! (index' - 1)"
    using fetch_rep [OF _ assms(2) _ assms(3)] inv by (auto simp: reader_inv_def)
  then have "take index' ms = take (index' - 1) ms @ [m]"
    by (metis Suc_pred' less_le_trans lessI take_Suc_conv_app_nth)
  moreover have "prefix (take (index - 1) ms) (take (index' - 1) ms)"
    using i(2) by (metis diff_le_mono min.absorb1 take_is_prefix take_take)
  then have "subseq got (take (index' - 1) ms)"
    using inv by (meson prefix_imp_subseq reader_inv_def subseq_order.trans)
  ultimately show ?thesis
    using inv i assms(2) by (simp add: reader_inv_def subseq_append_le_same_iff list_emb_append_mono)
qed

lemma reader_inv_subseq: "reader_inv b ms index got \<Longrightarrow> subseq got ms"
  by (meson prefix_imp_subseq reader_inv_def subseq_order.trans take_is_prefix)

end

text \<open>The ring without a callback is such a source.\<close>

definition CacheBuffer_push :: "'a \<Rightarrow> ('a, unit) CacheBuffer \<Rightarrow> ('a, unit) CacheBuffer" where
  "CacheBuffer_push v b = fst (CacheBuffer_Fill v (b, ()))"

interpretation cbs: stream_source CacheBuffer_push ChannelBuffer_Fetch stream_of
proof unfold_locales
  fix b :: "('a, unit) CacheBuffer" and ms m
  assume "stream_of b ms" "length ms + 1 < two64"
  then show "stream_of (CacheBuffer_push m b) (ms @ [m])"
    unfolding CacheBuffer_push_def by (rule stream_of_Fill)
qed (rule Fetch_stream_Some)

section \<open>Reading several messages\<close>

lemma FetchMulti_loop_eq:
  "FetchMulti_loop b index vec =
     vec @ map (CacheBuffer_at b) [index..<Suc (CacheBuffer_Tail b)]"
proof (induction b index vec rule: FetchMulti_loop.induct)
  case (1 b index vec)
  show ?case
  proof (cases "index \<le> CacheBuffer_Tail b")
    case True
    with "1.IH" show ?thesis
      by (simp add: FetchMulti_loop.simps [of b index vec] upt_conv_Cons del: upt_Suc)
  next
    case False
    then show ?thesis by (simp add: FetchMulti_loop.simps [of b index vec])
  qed
qed

lemma at_window_contents:
  assumes "CacheBuffer_inv b" and "n \<le> cb_tail b - cb_head b"
  shows "map (CacheBuffer_at b) [Suc (cb_tail b) - n..<Suc (cb_tail b)] =
    last_n n (CacheBuffer_contents b)"
proof -
  have "cb_head b \<le> cb_tail b" "length (cb_buffer b) = cb_capacity b"
    using assms by (auto simp: cyber_inv)
  then have "last_n n (CacheBuffer_contents b) =
      ring_slice (cb_buffer b) (Suc (cb_tail b) - n) (Suc (cb_tail b))"
    using assms(2)
    by (simp add: last_n_def CacheBuffer_contents_def ring_slice_drop Suc_diff_le)
  then show ?thesis
    using \<open>length (cb_buffer b) = cb_capacity b\<close> by (simp add: ring_slice_def cyber_defs)
qed

section \<open>Properties\<close>

fun Fill_all :: "'a list \<Rightarrow> ('a, 's) CacheBuffer \<times> 's \<Rightarrow> ('a, 's) CacheBuffer \<times> 's" where
  "Fill_all [] bs = bs"
| "Fill_all (v # vs) bs = Fill_all vs (CacheBuffer_Fill v bs)"

lemma stream_of_Fill_all:
  "stream_of b ms \<Longrightarrow> length ms + length vs < two64 \<Longrightarrow>
     stream_of (fst (Fill_all vs (b, s))) (ms @ vs)"
proof (induction vs arbitrary: b s ms)
  case Nil
  then show ?case by simp
next
  case (Cons v vs)
  obtain b' s' where f: "CacheBuffer_Fill v (b, s) = (b', s')" by fastforce
  have "stream_of b' (ms @ [v])" using stream_of_Fill [of b ms v s] Cons.prems f by simp
  then show ?case using Cons.IH [of b' "ms @ [v]" s'] Cons.prems f by simp
qed

lemma Fill_capacity: "cb_capacity (fst (CacheBuffer_Fill v bs)) = cb_capacity (fst bs)"
  by (cases bs) (simp add: CacheBuffer_Fill_def split: option.splits)

lemma Fill_all_capacity: "cb_capacity (fst (Fill_all vs bs)) = cb_capacity (fst bs)"
  by (induction vs arbitrary: bs) (simp_all add: Fill_capacity)

text \<open>
  C31: a cache buffer created for \<open>n\<close> messages and filled with any sequence holds exactly
  the last \<open>n\<close> of them, in arrival order; nothing is lost before the ring is full, and a full
  ring drops exactly the oldest message per write.
\<close>

theorem cache_buffer_keeps_last:
  assumes "n + 1 < two64" and "length ms < two64"
  shows "CacheBuffer_contents (fst (Fill_all ms (CacheBuffer_ctor dflt n, s))) = last_n n ms"
proof -
  let ?b = "fst (Fill_all ms (CacheBuffer_ctor dflt n, s))"
  have "stream_of ?b ([] @ ms)"
    using assms by (intro stream_of_Fill_all stream_of_ctor) simp_all
  moreover have "cb_capacity ?b = n + 1"
    using assms by (simp add: Fill_all_capacity CacheBuffer_ctor_def wrap_simps)
  ultimately show ?thesis using stream_of_contents [of ?b ms] by simp
qed

theorem cache_buffer_keeps_last_witness:
  "CacheBuffer_contents (fst (Fill_all [1, 2, 3::int] (CacheBuffer_ctor 0 2, ()))) = [2, 3]"
proof -
  have "(2::nat) + 1 < two64" "length [1, 2, 3::int] < two64" by (simp_all add: two64_def)
  from cache_buffer_keeps_last [OF this, of 0 "()"] show ?thesis
    by (simp add: last_n_def)
qed

text \<open>
  \<open>FetchMulti\<close> appends to the caller's vector the newest \<open>fetch_size\<close> messages (all
  of them when fewer are held), oldest first.
\<close>

theorem FetchMulti_last:
  assumes "CacheBuffer_inv b" and "\<not> CacheBuffer_Empty b" and "Suc (cb_tail b) < two64"
  shows "ChannelBuffer_FetchMulti b fetch_size vec =
    Some (vec @ last_n fetch_size (CacheBuffer_contents b))"
proof -
  let ?num = "min (cb_tail b - cb_head b) fetch_size"
  have sz: "CacheBuffer_Size b = cb_tail b - cb_head b" and "cb_head b \<le> cb_tail b"
    using assms by (auto simp: CacheBuffer_Size_def cyber_inv wrap_simps)
  moreover have "u64_add (u64_sub (cb_tail b) ?num) 1 = Suc (cb_tail b) - ?num"
    using assms by (auto simp: wrap_simps cyber_inv Suc_diff_le min_def)
  moreover have "last_n ?num (CacheBuffer_contents b) = last_n fetch_size (CacheBuffer_contents b)"
    by (auto simp: last_n_def min_def)
  ultimately show ?thesis
    using assms(2) at_window_contents [OF assms(1), of ?num]
    by (simp add: ChannelBuffer_FetchMulti_def FetchMulti_loop_eq CacheBuffer_Tail_def Let_def
        del: upt_Suc)
qed

theorem FetchMulti_last_witness:
  "ChannelBuffer_FetchMulti
     \<lparr>cb_head = 1, cb_tail = 3, cb_capacity = 3, cb_buffer = [30, 10, 20::int],
      cb_fusion_callback = None :: (int \<Rightarrow> unit \<Rightarrow> unit) option\<rparr> 1 [7] = Some [7, 30]"
proof -
  let ?b = "\<lparr>cb_head = 1, cb_tail = 3, cb_capacity = 3, cb_buffer = [30, 10, 20::int],
      cb_fusion_callback = None :: (int \<Rightarrow> unit \<Rightarrow> unit) option\<rparr>"
  have "CacheBuffer_inv ?b" "\<not> CacheBuffer_Empty ?b" "Suc (cb_tail ?b) < two64"
    by (simp_all add: cyber_inv CacheBuffer_Empty_def two64_def)
  from FetchMulti_last [OF this, of 1 "[7]"] show ?thesis
    by (simp add: last_n_def CacheBuffer_contents_def ring_slice_def upt_rec)
qed

end
