(* ===== verification/Hash_Map.thy ===== *)
theory Hash_Map
  imports Prelude
begin

unbundle bit_operations_syntax

text \<open>
  \<open>cyber/base/atomic_hash_map.h\<close>: the lock-free fixed-size hash map that holds the buffers
  and notifiers of every channel. A bucket is a chain of entries behind a dummy head, sorted by
  key; entries are never removed, so an entry is identified by its key and a \<open>next\<close> pointer
  by the key it points to (\<open>None\<close> is the null pointer; as a predecessor, \<open>None\<close> is the
  dummy head). The value stored in an entry is its \<open>value_ptr\<close>.

  An insertion reads the chain, then publishes with one compare-and-swap. \<open>Bucket_Insert_iter\<close>
  is one round of its retry loop with both moments explicit: \<open>seen\<close> is the chain that
  \<open>Find\<close> walked, \<open>cur\<close> the chain at the compare-and-swap, possibly changed by other
  threads in between; the round fails (\<open>None\<close>) when the swapped pointer has changed.
\<close>

type_synonym ('k, 'v) chain = "('k \<times> 'v) list"

section \<open>Buckets\<close>

fun Bucket_Has :: "'k::linorder \<Rightarrow> ('k, 'v) chain \<Rightarrow> bool" where
  "Bucket_Has key [] = False"
| "Bucket_Has key ((k, v) # rest) = (if k < key then Bucket_Has key rest else k = key)"

text \<open>\<open>Find\<close> yields the result flag, the predecessor and the target entry.\<close>

fun Bucket_Find_loop ::
    "'k::linorder \<Rightarrow> 'k option \<Rightarrow> ('k, 'v) chain \<Rightarrow> bool \<times> 'k option \<times> 'k option" where
  "Bucket_Find_loop key prev [] = (False, prev, None)"
| "Bucket_Find_loop key prev ((k, v) # rest) =
     (if k = key then (True, prev, Some k)
      else if key < k then (False, prev, Some k)
      else Bucket_Find_loop key (Some k) rest)"

definition Bucket_Find ::
    "'k::linorder \<Rightarrow> ('k, 'v) chain \<Rightarrow> bool \<times> 'k option \<times> 'k option" where
  "Bucket_Find key chain = Bucket_Find_loop key None chain"

definition Bucket_Get :: "'k::linorder \<Rightarrow> ('k, 'v) chain \<Rightarrow> 'v option" where
  "Bucket_Get key chain =
     (case Bucket_Find key chain of
        (True, _, Some target) \<Rightarrow> map_of chain target
      | _ \<Rightarrow> None)"

text \<open>Following and setting \<open>next\<close> and \<open>value_ptr\<close> of an entry.\<close>

fun next_of :: "'k option \<Rightarrow> ('k, 'v) chain \<Rightarrow> 'k option" where
  "next_of None chain = (case chain of [] \<Rightarrow> None | e # _ \<Rightarrow> Some (fst e))"
| "next_of (Some p) [] = None"
| "next_of (Some p) (e # rest) = (if fst e = p then next_of None rest else next_of (Some p) rest)"

fun insert_after :: "'k option \<Rightarrow> 'k \<times> 'v \<Rightarrow> ('k, 'v) chain \<Rightarrow> ('k, 'v) chain" where
  "insert_after None x chain = x # chain"
| "insert_after (Some p) x [] = []"
| "insert_after (Some p) x (e # rest) =
     (if fst e = p then e # x # rest else e # insert_after (Some p) x rest)"

fun set_value_ptr :: "'k \<Rightarrow> 'v \<Rightarrow> ('k, 'v) chain \<Rightarrow> ('k, 'v) chain" where
  "set_value_ptr key v [] = []"
| "set_value_ptr key v (e # rest) =
     (if fst e = key then (key, v) # rest else e # set_value_ptr key v rest)"

definition Bucket_Insert_iter ::
    "'k::linorder \<Rightarrow> 'v \<Rightarrow> ('k, 'v) chain \<Rightarrow> ('k, 'v) chain \<Rightarrow> ('k, 'v) chain option" where
  "Bucket_Insert_iter key value seen cur =
     (case Bucket_Find key seen of
        (found, prev, target) \<Rightarrow>
          if found then
            (if map_of cur key = map_of seen key
             then Some (set_value_ptr key value cur) else None)
          else
            (if next_of prev cur = target
             then Some (insert_after prev (key, value) cur) else None))"

text \<open>
  The retry loop over the rounds that the interleaving produces; \<open>None\<close> means that every
  one of the given rounds lost its race.
\<close>

fun Bucket_Insert_loop ::
    "'k::linorder \<Rightarrow> 'v \<Rightarrow> (('k, 'v) chain \<times> ('k, 'v) chain) list \<Rightarrow> ('k, 'v) chain option" where
  "Bucket_Insert_loop key value [] = None"
| "Bucket_Insert_loop key value ((seen, cur) # rounds) =
     (case Bucket_Insert_iter key value seen cur of
        Some chain \<Rightarrow> Some chain
      | None \<Rightarrow> Bucket_Insert_loop key value rounds)"

text \<open>An insertion that runs alone; the lemma \<open>Bucket_Insert_alone\<close> shows that it returns.\<close>

definition Bucket_Insert :: "'k::linorder \<Rightarrow> 'v \<Rightarrow> ('k, 'v) chain \<Rightarrow> ('k, 'v) chain" where
  "Bucket_Insert key value chain = the (Bucket_Insert_loop key value [(chain, chain)])"

text \<open>\<open>Insert(key)\<close> allocates a value-initialised \<open>V()\<close>, the parameter \<open>dflt\<close>.\<close>

definition Bucket_Insert_key :: "'v \<Rightarrow> 'k::linorder \<Rightarrow> ('k, 'v) chain \<Rightarrow> ('k, 'v) chain" where
  "Bucket_Insert_key dflt key chain = the (Bucket_Insert_loop key dflt [(chain, chain)])"

section \<open>The map\<close>

record 'v AtomicHashMap =
  hm_table :: "(nat, 'v) chain list"
  hm_capacity :: nat
  hm_mode_num :: nat

definition AtomicHashMap_ctor :: "nat \<Rightarrow> 'v AtomicHashMap" where
  "AtomicHashMap_ctor table_size =
     \<lparr>hm_table = replicate table_size [], hm_capacity = table_size,
      hm_mode_num = table_size - 1\<rparr>"

definition AtomicHashMap_index :: "nat \<Rightarrow> 'v AtomicHashMap \<Rightarrow> nat" where
  "AtomicHashMap_index key m = key AND hm_mode_num m"

definition AtomicHashMap_Has :: "'v AtomicHashMap \<Rightarrow> nat \<Rightarrow> bool" where
  "AtomicHashMap_Has m key = Bucket_Has key (hm_table m ! AtomicHashMap_index key m)"

definition AtomicHashMap_Get :: "'v AtomicHashMap \<Rightarrow> nat \<Rightarrow> 'v option" where
  "AtomicHashMap_Get m key = Bucket_Get key (hm_table m ! AtomicHashMap_index key m)"

definition AtomicHashMap_Set :: "nat \<Rightarrow> 'v \<Rightarrow> 'v AtomicHashMap \<Rightarrow> 'v AtomicHashMap" where
  "AtomicHashMap_Set key value m =
     (let index = AtomicHashMap_index key m in
      m\<lparr>hm_table := (hm_table m)[index := Bucket_Insert key value (hm_table m ! index)]\<rparr>)"

definition AtomicHashMap_Set_key :: "'v \<Rightarrow> nat \<Rightarrow> 'v AtomicHashMap \<Rightarrow> 'v AtomicHashMap" where
  "AtomicHashMap_Set_key dflt key m =
     (let index = AtomicHashMap_index key m in
      m\<lparr>hm_table := (hm_table m)[index := Bucket_Insert_key dflt key (hm_table m ! index)]\<rparr>)"

text \<open>
  Callers of \<open>Get(key, V** )\<close> change the value in place through the pointer they receive;
  this is that assignment, a no-op where \<open>Get\<close> returned \<open>false\<close>.
\<close>

definition AtomicHashMap_assign_through ::
    "nat \<Rightarrow> ('v \<Rightarrow> 'v) \<Rightarrow> 'v AtomicHashMap \<Rightarrow> 'v AtomicHashMap" where
  "AtomicHashMap_assign_through key f m =
     (case AtomicHashMap_Get m key of
        None \<Rightarrow> m
      | Some v \<Rightarrow>
          (let index = AtomicHashMap_index key m in
           m\<lparr>hm_table := (hm_table m)[index := set_value_ptr key (f v) (hm_table m ! index)]\<rparr>))"

section \<open>Chains sorted by key\<close>

definition chain_sorted :: "('k::linorder, 'v) chain \<Rightarrow> bool" where
  "chain_sorted chain \<longleftrightarrow> sorted_wrt (<) (map fst chain)"

lemma chain_sorted_simps [simp]:
  "chain_sorted []"
  "chain_sorted ((k, v) # rest) \<longleftrightarrow> (\<forall>k' \<in> fst ` set rest. k < k') \<and> chain_sorted rest"
  by (auto simp: chain_sorted_def)

lemma map_of_below: "\<forall>k' \<in> fst ` set chain. k < k' \<Longrightarrow> map_of chain (k::'k::linorder) = None"
  by (meson map_of_eq_None_iff order_less_irrefl)

lemma chain_gt_notin: "\<forall>k' \<in> fst ` set chain. (k::'k::linorder) < k' \<Longrightarrow> (k, v) \<notin> set chain"
  by force

lemma Bucket_Has_iff: "chain_sorted chain \<Longrightarrow> Bucket_Has key chain \<longleftrightarrow> key \<in> dom (map_of chain)"
proof (induction key chain rule: Bucket_Has.induct)
  case (2 key k v rest)
  show ?case
  proof (cases "k < key")
    case True
    with 2 show ?thesis by (auto split: if_splits)
  next
    case False
    have "map_of rest key = None" if "key < k"
      using "2.prems" that by (intro map_of_below) auto
    with False show ?thesis by (auto simp: dom_def)
  qed
qed simp

text \<open>What \<open>Find\<close> reports: the flag is membership, the target the first key not below.\<close>

lemma Bucket_Find_loop_spec:
  assumes "chain_sorted chain"
  shows "Bucket_Find_loop key prev chain =
    (key \<in> fst ` set chain,
     (case filter (\<lambda>k. k < key) (map fst chain) of [] \<Rightarrow> prev | ks \<Rightarrow> Some (last ks)),
     (case filter (\<lambda>k. key \<le> k) (map fst chain) of [] \<Rightarrow> None | k # _ \<Rightarrow> Some k))"
  using assms
proof (induction key prev chain rule: Bucket_Find_loop.induct)
  case (2 key prev k v rest)
  have rest: "filter (\<lambda>x. x < key) (map fst rest) = []" if "key \<le> k"
    using "2.prems" that by (auto simp: filter_empty_conv)
  show ?case
  proof (cases "k < key")
    case True
    with 2 show ?thesis by (auto split: list.splits)
  next
    case False
    then have "key \<notin> fst ` set rest" using "2.prems" by force
    with False rest show ?thesis by (auto simp: not_less)
  qed
qed simp

lemma Bucket_Get_eq: "chain_sorted chain \<Longrightarrow> Bucket_Get key chain = map_of chain key"
proof -
  assume s: "chain_sorted chain"
  have *: "\<exists>ks. filter (\<lambda>k. key \<le> k) (map fst chain) = key # ks"
    if "key \<in> fst ` set chain" using s that
  proof (induction chain)
    case (Cons e rest)
    obtain k v where e: "e = (k, v)" by fastforce
    show ?case
    proof (cases "key = k")
      case False
      with Cons e have "key \<in> fst ` set rest" by auto
      moreover from this Cons e have "k < key" by auto
      ultimately show ?thesis using Cons e by auto
    qed (simp add: e)
  qed simp
  show ?thesis
  proof (cases "key \<in> fst ` set chain")
    case True
    with * s show ?thesis by (auto simp: Bucket_Get_def Bucket_Find_def Bucket_Find_loop_spec)
  next
    case False
    then have "map_of chain key = None" by (simp add: map_of_eq_None_iff)
    with False s show ?thesis
      by (simp add: Bucket_Get_def Bucket_Find_def Bucket_Find_loop_spec)
  qed
qed

section \<open>The reference update\<close>

text \<open>The sequential specification of an insertion: update or insert at the sorted place.\<close>

fun upd_chain :: "'k::linorder \<Rightarrow> 'v \<Rightarrow> ('k, 'v) chain \<Rightarrow> ('k, 'v) chain" where
  "upd_chain key v [] = [(key, v)]"
| "upd_chain key v ((k, w) # rest) =
     (if key < k then (key, v) # (k, w) # rest
      else if k = key then (key, v) # rest
      else (k, w) # upd_chain key v rest)"

lemma keys_upd_chain [simp]: "fst ` set (upd_chain key v chain) = insert key (fst ` set chain)"
  by (induction key v chain rule: upd_chain.induct) auto

lemma upd_chain_sorted: "chain_sorted chain \<Longrightarrow> chain_sorted (upd_chain key v chain)"
  by (induction key v chain rule: upd_chain.induct) auto

lemma map_of_upd_chain: "map_of (upd_chain key v chain) = (map_of chain)(key \<mapsto> v)"
  by (induction key v chain rule: upd_chain.induct) auto

lemma set_value_ptr_upd:
  "chain_sorted chain \<Longrightarrow> key \<in> fst ` set chain \<Longrightarrow>
     set_value_ptr key v chain = upd_chain key v chain"
  by (induction key v chain rule: upd_chain.induct) auto

text \<open>
  The compare-and-swap argument: when \<open>prev\<close> lies below the key and its successor does not,
  linking a new entry behind \<open>prev\<close> is the sorted insertion, whatever else the chain holds.
\<close>

lemma insert_after_upd:
  assumes "chain_sorted cur"
    and "case prev of None \<Rightarrow> True | Some p \<Rightarrow> p < key \<and> p \<in> fst ` set cur"
    and "case next_of prev cur of None \<Rightarrow> True | Some t \<Rightarrow> key < t"
  shows "insert_after prev (key, v) cur = upd_chain key v cur"
proof (cases prev)
  case None
  with assms(3) show ?thesis by (cases cur) auto
next
  case (Some p)
  have "p < key" "p \<in> fst ` set cur" using assms(2) Some by auto
  with assms(1,3) show ?thesis unfolding Some
  proof (induction cur)
    case (Cons e rest)
    obtain k w where e: "e = (k, w)" by fastforce
    show ?case
    proof (cases "k = p")
      case True
      have "(key, v) # rest = upd_chain key v rest"
        using Cons.prems True e by (cases rest) auto
      with True e Cons.prems show ?thesis by auto
    next
      case False
      then have "p \<in> fst ` set rest" using Cons.prems e by auto
      moreover from this have "k < p" using Cons.prems e by auto
      ultimately show ?thesis using Cons e False by auto
    qed
  qed simp
qed

lemma Bucket_Find_miss:
  assumes "chain_sorted seen" and "Bucket_Find key seen = (False, prev, target)"
  shows "case prev of None \<Rightarrow> True | Some p \<Rightarrow> p < key \<and> p \<in> fst ` set seen"
    and "case target of None \<Rightarrow> True | Some t \<Rightarrow> key < t"
proof -
  let ?lo = "filter (\<lambda>k. k < key) (map fst seen)" and ?hi = "filter (\<lambda>k. key \<le> k) (map fst seen)"
  from assms have miss: "key \<notin> fst ` set seen"
    and p: "prev = (case ?lo of [] \<Rightarrow> None | ks \<Rightarrow> Some (last ks))"
    and t: "target = (case ?hi of [] \<Rightarrow> None | k # _ \<Rightarrow> Some k)"
    by (auto simp: Bucket_Find_def Bucket_Find_loop_spec)
  have "last ?lo \<in> set ?lo" if "?lo \<noteq> []" using that by (rule last_in_set)
  then show "case prev of None \<Rightarrow> True | Some p \<Rightarrow> p < key \<and> p \<in> fst ` set seen"
    by (auto simp: p split: list.splits)
  show "case target of None \<Rightarrow> True | Some t \<Rightarrow> key < t"
  proof (cases ?hi)
    case (Cons k ks)
    then have "k \<in> set ?hi" by simp
    then have "key \<le> k" and "k \<in> fst ` set seen" by auto
    with miss have "key < k" by (metis le_neq_trans)
    with Cons t show ?thesis by simp
  qed (simp add: t)
qed

text \<open>A round that wins its race performs the reference update on the chain as it is then.\<close>

lemma Insert_iter_linear:
  assumes "chain_sorted seen" and "chain_sorted cur" and "fst ` set seen \<subseteq> fst ` set cur"
    and "Bucket_Insert_iter key v seen cur = Some chain"
  shows "chain = upd_chain key v cur"
proof -
  obtain found prev target where f: "Bucket_Find key seen = (found, prev, target)"
    by (metis prod_cases3)
  show ?thesis
  proof (cases found)
    case True
    then have "key \<in> fst ` set cur"
      using f assms(1,3) by (auto simp: Bucket_Find_def Bucket_Find_loop_spec)
    with True show ?thesis
      using assms f by (auto simp: Bucket_Insert_iter_def set_value_ptr_upd split: if_splits)
  next
    case False
    with assms f have "next_of prev cur = target" and "chain = insert_after prev (key, v) cur"
      by (auto simp: Bucket_Insert_iter_def split: if_splits)
    moreover have "insert_after prev (key, v) cur = upd_chain key v cur"
      using Bucket_Find_miss [OF assms(1), of key prev target] False f calculation(1) assms(2,3)
      by (intro insert_after_upd) (auto split: option.splits)
    ultimately show ?thesis by simp
  qed
qed

lemma Find_miss_next:
  "chain_sorted chain \<Longrightarrow> Bucket_Find_loop key prev chain = (False, p, t) \<Longrightarrow>
     (p = prev \<and> t = next_of None chain) \<or>
     (p \<noteq> prev \<and> p \<in> Some ` fst ` set chain \<and> t = next_of p chain) \<or>
     (p = prev \<and> p \<in> Some ` fst ` set chain)"
proof (induction key prev chain rule: Bucket_Find_loop.induct)
  case (2 key prev k v rest)
  show ?case
  proof (cases "k < key")
    case True
    then have "Bucket_Find_loop key (Some k) rest = (False, p, t)"
      using "2.prems"(2) by (simp split: if_splits)
    then have IH: "(p = Some k \<and> t = next_of None rest) \<or>
       (p \<noteq> Some k \<and> p \<in> Some ` fst ` set rest \<and> t = next_of p rest) \<or>
       (p = Some k \<and> p \<in> Some ` fst ` set rest)"
      using "2.IH" "2.prems"(1) True by auto
    have "k \<notin> fst ` set rest" using "2.prems" by force
    with IH show ?thesis by auto
  next
    case False
    with 2 show ?thesis by (auto split: if_splits)
  qed
qed simp

lemma Insert_iter_alone:
  assumes "chain_sorted chain"
  shows "Bucket_Insert_iter key v chain chain = Some (upd_chain key v chain)"
proof -
  obtain found prev target where f: "Bucket_Find key chain = (found, prev, target)"
    by (metis prod_cases3)
  have "next_of prev chain = target" if "\<not> found"
    using Find_miss_next [of chain key None prev target] f that assms
    by (auto simp: Bucket_Find_def)
  then have "\<exists>chain'. Bucket_Insert_iter key v chain chain = Some chain'"
    using f by (simp add: Bucket_Insert_iter_def)
  with Insert_iter_linear [OF assms assms] show ?thesis by auto
qed

lemma Bucket_Insert_alone: "chain_sorted chain \<Longrightarrow> Bucket_Insert key v chain = upd_chain key v chain"
  by (simp add: Bucket_Insert_def Insert_iter_alone)

lemma AtomicHashMap_Set_key_eq: "AtomicHashMap_Set_key dflt key m = AtomicHashMap_Set key dflt m"
  by (simp add: AtomicHashMap_Set_key_def AtomicHashMap_Set_def Bucket_Insert_key_def
      Bucket_Insert_def)

section \<open>Invariant and laws of the map\<close>

text \<open>
  \<open>TableSize\<close> is a power of two (the template's \<open>enable_if\<close>), so \<open>key & mode_num_\<close> is the
  remainder; every chain is sorted and holds only keys of its own bucket.
\<close>

definition AtomicHashMap_inv :: "'v AtomicHashMap \<Rightarrow> bool" where
  "AtomicHashMap_inv m \<longleftrightarrow>
     (\<exists>n. hm_capacity m = 2 ^ n) \<and> hm_mode_num m = hm_capacity m - 1 \<and>
     length (hm_table m) = hm_capacity m \<and> (\<forall>chain \<in> set (hm_table m). chain_sorted chain)"

lemma AtomicHashMap_index_mod:
  "AtomicHashMap_inv m \<Longrightarrow> AtomicHashMap_index key m = key mod hm_capacity m"
  by (auto simp: AtomicHashMap_inv_def AtomicHashMap_index_def take_bit_eq_mask
      mask_eq_exp_minus_1 simp flip: take_bit_eq_mod)

lemma AtomicHashMap_index_lt:
  "AtomicHashMap_inv m \<Longrightarrow> AtomicHashMap_index key m < length (hm_table m)"
  by (auto simp: AtomicHashMap_index_mod) (auto simp: AtomicHashMap_inv_def)

lemma AtomicHashMap_bucket_sorted:
  "AtomicHashMap_inv m \<Longrightarrow> chain_sorted (hm_table m ! AtomicHashMap_index key m)"
  using AtomicHashMap_index_lt [of m key] by (auto simp: AtomicHashMap_inv_def)

lemma AtomicHashMap_inv_ctor: "AtomicHashMap_inv (AtomicHashMap_ctor (2 ^ n))"
  by (auto simp: AtomicHashMap_inv_def AtomicHashMap_ctor_def)

lemma AtomicHashMap_Get_ctor [simp]:
  "AtomicHashMap_Get (AtomicHashMap_ctor (2 ^ n) :: 'v AtomicHashMap) key = None"
proof -
  let ?m = "AtomicHashMap_ctor (2 ^ n) :: 'v AtomicHashMap"
  have "AtomicHashMap_index key ?m < length (hm_table ?m)"
    by (rule AtomicHashMap_index_lt [OF AtomicHashMap_inv_ctor])
  then have "hm_table ?m ! AtomicHashMap_index key ?m = []"
    by (simp add: AtomicHashMap_ctor_def)
  then show ?thesis by (simp add: AtomicHashMap_Get_def Bucket_Get_eq)
qed

lemma AtomicHashMap_Get_eq:
  "AtomicHashMap_inv m \<Longrightarrow>
     AtomicHashMap_Get m key = map_of (hm_table m ! AtomicHashMap_index key m) key"
  by (simp add: AtomicHashMap_Get_def Bucket_Get_eq AtomicHashMap_bucket_sorted)

lemma AtomicHashMap_Set_eq:
  "AtomicHashMap_inv m \<Longrightarrow> AtomicHashMap_Set key v m =
     m\<lparr>hm_table := (hm_table m)[AtomicHashMap_index key m :=
          upd_chain key v (hm_table m ! AtomicHashMap_index key m)]\<rparr>"
  by (simp add: AtomicHashMap_Set_def Bucket_Insert_alone AtomicHashMap_bucket_sorted Let_def)

lemma AtomicHashMap_inv_Set:
  assumes "AtomicHashMap_inv m" shows "AtomicHashMap_inv (AtomicHashMap_Set key v m)"
proof -
  have "chain_sorted (upd_chain key v (hm_table m ! AtomicHashMap_index key m))"
    using AtomicHashMap_bucket_sorted [OF assms] by (rule upd_chain_sorted)
  then show ?thesis using assms set_update_subset_insert
    by (fastforce simp: AtomicHashMap_Set_eq AtomicHashMap_inv_def)
qed

lemma AtomicHashMap_Get_Set:
  assumes "AtomicHashMap_inv m"
  shows "AtomicHashMap_Get (AtomicHashMap_Set key v m) key' =
     (if key' = key then Some v else AtomicHashMap_Get m key')"
proof -
  have "AtomicHashMap_index key' (AtomicHashMap_Set key v m) = AtomicHashMap_index key' m"
    by (simp add: AtomicHashMap_index_def AtomicHashMap_Set_def Let_def)
  then show ?thesis
    using AtomicHashMap_index_lt [OF assms]
    by (auto simp: AtomicHashMap_Get_eq assms AtomicHashMap_inv_Set)
       (auto simp: AtomicHashMap_Set_eq assms map_of_upd_chain nth_list_update)
qed

lemma AtomicHashMap_Has_eq:
  "AtomicHashMap_inv m \<Longrightarrow> AtomicHashMap_Has m key \<longleftrightarrow> AtomicHashMap_Get m key \<noteq> None"
  by (simp add: AtomicHashMap_Get_eq AtomicHashMap_Has_def Bucket_Has_iff
      AtomicHashMap_bucket_sorted dom_def)

lemma AtomicHashMap_assign_through_eq:
  assumes "AtomicHashMap_inv m"
  shows "AtomicHashMap_assign_through key f m =
     (case AtomicHashMap_Get m key of None \<Rightarrow> m | Some v \<Rightarrow> AtomicHashMap_Set key (f v) m)"
proof (cases "AtomicHashMap_Get m key")
  case (Some v)
  then have "key \<in> fst ` set (hm_table m ! AtomicHashMap_index key m)"
    using assms by (metis AtomicHashMap_Get_eq map_of_eq_None_iff option.distinct(1))
  with Some assms show ?thesis
    by (simp add: AtomicHashMap_assign_through_def AtomicHashMap_Set_eq set_value_ptr_upd
        AtomicHashMap_bucket_sorted Let_def)
qed (simp add: AtomicHashMap_assign_through_def)

section \<open>The interface its clients rely on\<close>

text \<open>
  What the dispatcher, the notifier and the routing tables of the program use of the map: an
  empty map, \<open>Get\<close>, \<open>Set\<close> and the update through the pointer that \<open>Get\<close> hands out.
\<close>

locale kv_map =
  fixes get :: "'m \<Rightarrow> nat \<Rightarrow> 'v option"
    and put :: "nat \<Rightarrow> 'v \<Rightarrow> 'm \<Rightarrow> 'm"
    and assign :: "nat \<Rightarrow> ('v \<Rightarrow> 'v) \<Rightarrow> 'm \<Rightarrow> 'm"
    and inv :: "'m \<Rightarrow> bool"
  assumes inv_put: "inv m \<Longrightarrow> inv (put k v m)"
    and get_put: "inv m \<Longrightarrow> get (put k v m) k' = (if k' = k then Some v else get m k')"
    and assign_put: "inv m \<Longrightarrow>
      assign k f m = (case get m k of None \<Rightarrow> m | Some v \<Rightarrow> put k (f v) m)"
begin

lemma inv_assign: "inv m \<Longrightarrow> inv (assign k f m)"
  by (simp add: assign_put inv_put split: option.split)

lemma get_assign:
  "inv m \<Longrightarrow> get (assign k f m) k' = (if k' = k then map_option f (get m k) else get m k')"
  by (simp add: assign_put get_put split: option.split)

text \<open>The registration pattern of the clients: append to the key's list, creating it first.\<close>

definition register :: "nat \<Rightarrow> ('v \<Rightarrow> 'v) \<Rightarrow> 'v \<Rightarrow> 'm \<Rightarrow> 'm" where
  "register k f new m = (if get m k = None then put k new m else assign k f m)"

lemma inv_register: "inv m \<Longrightarrow> inv (register k f new m)"
  by (simp add: register_def inv_put inv_assign)

lemma get_register:
  "inv m \<Longrightarrow> get (register k f new m) k' =
     (if k' = k then Some (case get m k of None \<Rightarrow> new | Some v \<Rightarrow> f v) else get m k')"
  by (auto simp: register_def get_put get_assign split: option.split)

end

interpretation ahm: kv_map AtomicHashMap_Get AtomicHashMap_Set AtomicHashMap_assign_through
    AtomicHashMap_inv
  by unfold_locales
    (simp_all add: AtomicHashMap_inv_Set AtomicHashMap_Get_Set AtomicHashMap_assign_through_eq)

section \<open>Properties\<close>

text \<open>
  C20: A round of the lock-free insertion that wins its compare-and-swap performs exactly the
  sequential sorted insert-or-update on the chain as it is at that moment, even though it
  searched an older chain: whatever entries other threads linked in between are kept.
\<close>

theorem Bucket_Insert_linearizable:
  assumes "chain_sorted seen" and "chain_sorted cur" and "fst ` set seen \<subseteq> fst ` set cur"
    and "Bucket_Insert_iter key v seen cur = Some chain"
  shows "chain_sorted chain \<and> map_of chain = (map_of cur)(key \<mapsto> v)"
  using Insert_iter_linear [OF assms] assms(2) by (simp add: upd_chain_sorted map_of_upd_chain)

theorem Bucket_Insert_linearizable_witness:
  "map_of [(1, ''a''), (3::nat, ''c''), (5, ''e''), (9, ''z'')] =
     (map_of [(1, ''a''), (5, ''e''), (9, ''z'')])(3 \<mapsto> ''c'')"
  using Bucket_Insert_linearizable
    [of "[(1, ''a''), (5, ''e'')]" "[(1, ''a''), (5, ''e''), (9, ''z'')]" "3::nat" "''c''"
      "[(1, ''a''), (3, ''c''), (5, ''e''), (9, ''z'')]"]
  by (simp add: Bucket_Insert_iter_def Bucket_Find_def)

text \<open>
  The hash map is a map: after \<open>Set(key, value)\<close> the key yields the value, every other
  key yields what it yielded before, \<open>Has\<close> agrees with \<open>Get\<close>, and the table's invariant
  (power-of-two size, sorted chains) is kept.
\<close>

theorem AtomicHashMap_Set_Get:
  assumes "AtomicHashMap_inv m"
  shows "AtomicHashMap_inv (AtomicHashMap_Set key v m) \<and>
     AtomicHashMap_Get (AtomicHashMap_Set key v m) key' =
       (if key' = key then Some v else AtomicHashMap_Get m key') \<and>
     AtomicHashMap_Has (AtomicHashMap_Set key v m) key' =
       (key' = key \<or> AtomicHashMap_Has m key')"
  using assms by (simp add: AtomicHashMap_inv_Set AtomicHashMap_Get_Set AtomicHashMap_Has_eq)

theorem AtomicHashMap_Set_Get_witness:
  "AtomicHashMap_Get (AtomicHashMap_Set 131 ''x'' (AtomicHashMap_ctor 128)) 131 = Some ''x''"
  using AtomicHashMap_Set_Get [OF AtomicHashMap_inv_ctor [of 7], of 131 "''x''" 131] by simp

end
