(* ===== verification/Data_Visitor.thy ===== *)
theory Data_Visitor
  imports Cache_Buffer Hash_Map
begin

text \<open>
  \<open>cyber/data\<close>: how a message travels from a channel to the readers of a process.
  \<^item> \<open>DataNotifier\<close> (\<open>data_notifier.h\<close>) and \<open>DataDispatcher\<close> (\<open>data_dispatcher.h\<close>):
    the two singletons that map a channel to its notifiers and to its buffers. Buffers are
    shared objects: \<open>dd_heap\<close> maps an address to the buffer living there, \<open>None\<close> when the
    last strong reference is gone, so that locking the \<open>weak_ptr\<close> fails.
  \<^item> \<open>AllLatest\<close> (\<open>fusion/all_latest.h\<close>): the fusion of a main channel with the latest
    message of one to three others, for the three arities of the template.
  \<^item> \<open>DataVisitor\<close> (\<open>data_visitor.h\<close>, \<open>data_visitor_base.h\<close>): the reader, which keeps the
    index of the next message to fetch.
\<close>

section \<open>DataNotifier\<close>

text \<open>
  \<open>dn_callback\<close> gives the callback of the notifier at an address, \<open>None\<close> while none is
  registered; a null \<open>shared_ptr\<close> in the vector is \<open>None\<close>. Calling the callbacks is observed
  as the list of those called.
\<close>

record 'c DataNotifier =
  dn_notifies_map :: "nat option list AtomicHashMap"
  dn_callback :: "nat \<Rightarrow> 'c option"

definition DataNotifier_ctor :: "'c DataNotifier" where
  "DataNotifier_ctor = \<lparr>dn_notifies_map = AtomicHashMap_ctor 128, dn_callback = (\<lambda>_. None)\<rparr>"

definition DataNotifier_AddNotifier ::
    "nat \<Rightarrow> nat option \<Rightarrow> 'c DataNotifier \<Rightarrow> 'c DataNotifier" where
  "DataNotifier_AddNotifier channel_id notifier dn =
     (case AtomicHashMap_Get (dn_notifies_map dn) channel_id of
        Some notifies \<Rightarrow>
          dn\<lparr>dn_notifies_map :=
            AtomicHashMap_assign_through channel_id (\<lambda>ns. ns @ [notifier]) (dn_notifies_map dn)\<rparr>
      | None \<Rightarrow>
          dn\<lparr>dn_notifies_map := AtomicHashMap_Set channel_id [notifier] (dn_notifies_map dn)\<rparr>)"

fun Notify_loop :: "(nat \<Rightarrow> 'c option) \<Rightarrow> nat option list \<Rightarrow> 'c list" where
  "Notify_loop callback [] = []"
| "Notify_loop callback (None # ns) = Notify_loop callback ns"
| "Notify_loop callback (Some n # ns) =
     (case callback n of None \<Rightarrow> [] | Some c \<Rightarrow> [c]) @ Notify_loop callback ns"

definition DataNotifier_Notify :: "nat \<Rightarrow> 'c DataNotifier \<Rightarrow> bool \<times> 'c list" where
  "DataNotifier_Notify channel_id dn =
     (case AtomicHashMap_Get (dn_notifies_map dn) channel_id of
        Some notifies \<Rightarrow> (True, Notify_loop (dn_callback dn) notifies)
      | None \<Rightarrow> (False, []))"

text \<open>\<open>DataVisitorBase::RegisterNotifyCallback\<close> on the visitor's own notifier.\<close>

definition RegisterNotifyCallback :: "nat \<Rightarrow> 'c \<Rightarrow> 'c DataNotifier \<Rightarrow> 'c DataNotifier" where
  "RegisterNotifyCallback notifier callback dn =
     dn\<lparr>dn_callback := (dn_callback dn)(notifier \<mapsto> callback)\<rparr>"

section \<open>DataDispatcher\<close>

record ('a, 's) DataDispatcher =
  dd_buffers_map :: "nat list AtomicHashMap"
  dd_heap :: "nat \<Rightarrow> (('a, 's) CacheBuffer \<times> 's) option"

definition DataDispatcher_AddBuffer ::
    "nat \<Rightarrow> nat \<Rightarrow> ('a, 's) DataDispatcher \<Rightarrow> ('a, 's) DataDispatcher" where
  "DataDispatcher_AddBuffer channel_id buffer dd =
     (case AtomicHashMap_Get (dd_buffers_map dd) channel_id of
        Some buffers \<Rightarrow>
          dd\<lparr>dd_buffers_map :=
            AtomicHashMap_assign_through channel_id (\<lambda>bs. bs @ [buffer]) (dd_buffers_map dd)\<rparr>
      | None \<Rightarrow>
          dd\<lparr>dd_buffers_map := AtomicHashMap_Set channel_id [buffer] (dd_buffers_map dd)\<rparr>)"

fun Dispatch_loop ::
    "'a \<Rightarrow> nat list \<Rightarrow> (nat \<Rightarrow> (('a, 's) CacheBuffer \<times> 's) option) \<Rightarrow>
       nat \<Rightarrow> (('a, 's) CacheBuffer \<times> 's) option" where
  "Dispatch_loop msg [] heap = heap"
| "Dispatch_loop msg (wptr # buffers) heap =
     (case heap wptr of
        None \<Rightarrow> Dispatch_loop msg buffers heap
      | Some b \<Rightarrow> Dispatch_loop msg buffers (heap(wptr \<mapsto> CacheBuffer_Fill msg b)))"

definition DataDispatcher_Dispatch ::
    "bool \<Rightarrow> nat \<Rightarrow> 'a \<Rightarrow> 'c DataNotifier \<Rightarrow> ('a, 's) DataDispatcher \<Rightarrow>
       (bool \<times> 'c list) \<times> ('a, 's) DataDispatcher" where
  "DataDispatcher_Dispatch is_shutdown channel_id msg dn dd =
     (if is_shutdown then ((False, []), dd)
      else case AtomicHashMap_Get (dd_buffers_map dd) channel_id of
        None \<Rightarrow> ((False, []), dd)
      | Some buffers \<Rightarrow>
          (DataNotifier_Notify channel_id dn,
           dd\<lparr>dd_heap := Dispatch_loop msg buffers (dd_heap dd)\<rparr>))"

section \<open>AllLatest\<close>



definition latest_m1_m2 :: "('b, unit) CacheBuffer \<times> ('c, unit) CacheBuffer \<Rightarrow> ('b \<times> 'c) option" where
  "latest_m1_m2 = (\<lambda>(b1, b2).
     (case ChannelBuffer_Latest b1 of None \<Rightarrow> None
      | Some m1 \<Rightarrow> (case ChannelBuffer_Latest b2 of None \<Rightarrow> None | Some m2 \<Rightarrow> Some (m1, m2))))"

definition latest_m1_m2_m3 ::
    "('b, unit) CacheBuffer \<times> ('c, unit) CacheBuffer \<times> ('d, unit) CacheBuffer \<Rightarrow>
       ('b \<times> 'c \<times> 'd) option" where
  "latest_m1_m2_m3 = (\<lambda>(b1, b2, b3).
     (case ChannelBuffer_Latest b1 of None \<Rightarrow> None
      | Some m1 \<Rightarrow> (case ChannelBuffer_Latest b2 of None \<Rightarrow> None
        | Some m2 \<Rightarrow> (case ChannelBuffer_Latest b3 of None \<Rightarrow> None
          | Some m3 \<Rightarrow> Some (m1, m2, m3)))))"




section \<open>DataVisitor\<close>

text \<open>The one-channel visitor.\<close>

record 'a DataVisitor =
  dv_next_msg_index :: nat
  dv_buffer :: "('a, unit) CacheBuffer"

definition DataVisitor_ctor :: "'a \<Rightarrow> nat \<Rightarrow> 'a DataVisitor" where
  "DataVisitor_ctor dflt queue_size =
     \<lparr>dv_next_msg_index = 0, dv_buffer = CacheBuffer_ctor dflt queue_size\<rparr>"

definition DataVisitor_TryFetch :: "'a DataVisitor \<Rightarrow> 'a option \<times> 'a DataVisitor" where
  "DataVisitor_TryFetch dv =
     (case ChannelBuffer_Fetch (dv_buffer dv) (dv_next_msg_index dv) of
        Some (index, m) \<Rightarrow> (Some m, dv\<lparr>dv_next_msg_index := u64_add index 1\<rparr>)
      | None \<Rightarrow> (None, dv))"






text \<open>
  The registrations of the constructor: a new buffer at the address \<open>buffer\<close> joins the
  channel's buffers in the dispatcher, the visitor's notifier (at the address \<open>notifier\<close>,
  without a callback yet) the channel's notifiers. A visitor of several channels adds a buffer
  per channel and notifies on the main one.
\<close>

definition DataVisitor_AddBuffer ::
    "'a \<Rightarrow> 's \<Rightarrow> nat \<Rightarrow> nat \<Rightarrow> nat \<Rightarrow> ('a, 's) DataDispatcher \<Rightarrow> ('a, 's) DataDispatcher" where
  "DataVisitor_AddBuffer dflt s buffer channel_id queue_size dd =
     DataDispatcher_AddBuffer channel_id buffer
       (dd\<lparr>dd_heap := (dd_heap dd)(buffer \<mapsto> (CacheBuffer_ctor dflt queue_size, s))\<rparr>)"

definition DataVisitor_register ::
    "'a \<Rightarrow> nat \<Rightarrow> nat \<Rightarrow> nat \<Rightarrow> nat \<Rightarrow> ('a, unit) DataDispatcher \<times> 'c DataNotifier \<Rightarrow>
       ('a, unit) DataDispatcher \<times> 'c DataNotifier" where
  "DataVisitor_register dflt buffer notifier channel_id queue_size = (\<lambda>(dd, dn).
     (DataVisitor_AddBuffer dflt () buffer channel_id queue_size dd,
      DataNotifier_AddNotifier channel_id (Some notifier)
        (dn\<lparr>dn_callback := (dn_callback dn)(notifier := None)\<rparr>)))"

section \<open>Runs of a visitor\<close>

text \<open>
  The dispatcher fills and the reader fetches, each under the buffer's mutex: an execution is
  an arbitrary sequence of these events. \<open>visit\<close> returns the final visitor and the messages
  fetched.
\<close>

datatype ('a, 'o) visit_event = Arrive 'a | Others "'o \<Rightarrow> 'o" | TryFetch

fun arrivals :: "('a, 'o) visit_event list \<Rightarrow> 'a list" where
  "arrivals [] = []"
| "arrivals (Arrive m # evs) = m # arrivals evs"
| "arrivals (_ # evs) = arrivals evs"

fun visit :: "('a, 'o) visit_event list \<Rightarrow> 'a DataVisitor \<Rightarrow> 'a list \<times> 'a DataVisitor" where
  "visit [] dv = ([], dv)"
| "visit (Arrive m # evs) dv = visit evs (dv\<lparr>dv_buffer := CacheBuffer_push m (dv_buffer dv)\<rparr>)"
| "visit (Others f # evs) dv = visit evs dv"
| "visit (TryFetch # evs) dv =
     (case DataVisitor_TryFetch dv of (r, dv') \<Rightarrow>
        (case visit evs dv' of (got, dv'') \<Rightarrow>
           ((case r of None \<Rightarrow> got | Some m \<Rightarrow> m # got), dv'')))"



section \<open>Laws of the dispatcher and the notifier\<close>

lemma AddNotifier_register:
  "dn_notifies_map (DataNotifier_AddNotifier channel_id n dn) =
     ahm.register channel_id (\<lambda>ns. ns @ [n]) [n] (dn_notifies_map dn)"
  by (simp add: DataNotifier_AddNotifier_def ahm.register_def split: option.split)

lemma AddBuffer_register:
  "dd_buffers_map (DataDispatcher_AddBuffer channel_id b dd) =
     ahm.register channel_id (\<lambda>bs. bs @ [b]) [b] (dd_buffers_map dd)"
  by (simp add: DataDispatcher_AddBuffer_def ahm.register_def split: option.split)

definition buffers_of :: "('a, 's) DataDispatcher \<Rightarrow> nat \<Rightarrow> nat list" where
  "buffers_of dd channel_id = (case AtomicHashMap_Get (dd_buffers_map dd) channel_id of
     None \<Rightarrow> [] | Some bs \<Rightarrow> bs)"

lemma buffers_of_AddBuffer:
  "AtomicHashMap_inv (dd_buffers_map dd) \<Longrightarrow>
     buffers_of (DataDispatcher_AddBuffer channel_id b dd) ch =
       (if ch = channel_id then buffers_of dd ch @ [b] else buffers_of dd ch)"
  by (simp add: buffers_of_def AddBuffer_register ahm.get_register split: option.split)

lemma Dispatch_loop_eq:
  "Dispatch_loop msg buffers heap a =
     map_option (CacheBuffer_Fill msg ^^ count_list buffers a) (heap a)"
  by (induction buffers arbitrary: heap)
    (auto simp: funpow_swap1 option.map_comp comp_def option.map_id0 split: option.split)

section \<open>Laws of the visitors\<close>

lemma visit_subseq:
  assumes "cbs.reader_inv (dv_buffer dv) ms (dv_next_msg_index dv) got"
    and "length ms + length (arrivals evs) + 1 < two64"
  shows "subseq (got @ fst (visit evs dv)) (ms @ arrivals evs)"
  using assms
proof (induction evs dv arbitrary: ms got rule: visit.induct)
  case (1 dv)
  then show ?case using cbs.reader_inv_subseq by auto
next
  case (2 m evs dv)
  then show ?case
    using cbs.reader_inv_fill [OF "2.prems"(1), of m]
      "2.IH" [of "ms @ [m]" got] by simp
next
  case (4 evs dv)
  show ?case
  proof (cases "ChannelBuffer_Fetch (dv_buffer dv) (dv_next_msg_index dv)")
    case None
    with 4 show ?thesis by (simp add: DataVisitor_TryFetch_def split: prod.split)
  next
    case (Some im)
    obtain i m where im: "im = (i, m)" by fastforce
    have f: "cbs.reader_inv (dv_buffer dv) ms (Suc i) (got @ [m])" "Suc i < two64"
      using cbs.reader_inv_fetch [OF "4.prems"(1) _ Some [unfolded im]] "4.prems"(2) by auto
    let ?dv = "dv\<lparr>dv_next_msg_index := Suc i\<rparr>"
    have tf: "DataVisitor_TryFetch dv = (Some m, ?dv)"
      using Some im f(2) by (simp add: DataVisitor_TryFetch_def wrap_simps)
    have "subseq ((got @ [m]) @ fst (visit evs ?dv)) (ms @ arrivals evs)"
      using "4.IH" [OF tf [symmetric], of ms "got @ [m]"] f(1) "4.prems"(2) by simp
    with tf show ?thesis by (auto split: prod.split)
  qed
qed simp




section \<open>Properties\<close>

text \<open>
  C1: Every execution of a one-channel reader, however message arrivals and \<open>TryFetch\<close> calls
  interleave and however often the ring overruns it, delivers a subsequence of the messages that
  arrived: nothing is delivered twice, out of order, or that was not sent.
\<close>

theorem visitor_delivers_subsequence:
  assumes "queue_size + 1 < two64" and "length (arrivals evs) + 1 < two64"
  shows "subseq (fst (visit evs (DataVisitor_ctor dflt queue_size))) (arrivals evs)"
  using assms visit_subseq [of "DataVisitor_ctor dflt queue_size" "[]" "[]" evs]
    cbs.reader_inv_start [OF stream_of_ctor [OF assms(1)], of dflt]
  by (simp add: DataVisitor_ctor_def)

theorem visitor_delivers_subsequence_witness:
  "subseq (fst (visit [Arrive 1, TryFetch, Arrive 2, Arrive 3, Arrive 4, TryFetch, TryFetch,
      Arrive (5::int)] (DataVisitor_ctor 0 2))) [1, 2, 3, 4, 5]"
proof -
  let ?evs = "[Arrive 1, TryFetch, Arrive 2, Arrive 3, Arrive 4, TryFetch, TryFetch,
      Arrive (5::int)]"
  have "(2::nat) + 1 < two64" "length (arrivals ?evs) + 1 < two64" by (simp_all add: two64_def)
  from visitor_delivers_subsequence [OF this, of 0] show ?thesis by simp
qed



text \<open>
  A reader that is at most the queue size behind misses nothing: when its next index lies
  inside the ring, \<open>TryFetch\<close> delivers exactly the next message of the stream and moves on by
  one; when it has read everything, \<open>TryFetch\<close> fails and changes nothing.
\<close>

theorem TryFetch_next_message:
  assumes "stream_of (dv_buffer dv) ms" and "length ms + 1 < two64"
    and "dv_next_msg_index dv = Suc k" and "length ms \<le> k + (cb_capacity (dv_buffer dv) - 1)"
    and "k \<le> length ms"
  shows "DataVisitor_TryFetch dv =
    (if k < length ms then (Some (ms ! k), dv\<lparr>dv_next_msg_index := k + 2\<rparr>) else (None, dv))"
proof (cases "k < length ms")
  case True
  have "cb_head (dv_buffer dv) \<le> k"
    using assms(1,4) by (simp add: stream_of_def)
  then have "ChannelBuffer_Fetch (dv_buffer dv) (Suc k) =
      Some (Suc k, CacheBuffer_at (dv_buffer dv) (Suc k))"
    using True by (auto simp: Fetch_stream [OF assms(1,2)])
  moreover have "CacheBuffer_at (dv_buffer dv) (Suc k) = ms ! k"
    using assms(1,4) True by (simp add: stream_of_def)
  ultimately show ?thesis
    using True assms(2,3) by (simp add: DataVisitor_TryFetch_def wrap_simps)
next
  case False
  with assms(5) have "ChannelBuffer_Fetch (dv_buffer dv) (Suc k) = None"
    by (simp add: Fetch_stream [OF assms(1,2)])
  with False assms(3) show ?thesis by (simp add: DataVisitor_TryFetch_def)
qed

theorem TryFetch_next_message_witness:
  "DataVisitor_TryFetch \<lparr>dv_next_msg_index = 1,
       dv_buffer = CacheBuffer_push (7::int) (CacheBuffer_ctor 0 2)\<rparr> =
     (Some 7, \<lparr>dv_next_msg_index = 2,
       dv_buffer = CacheBuffer_push 7 (CacheBuffer_ctor 0 2)\<rparr>)"
proof -
  let ?dv = "\<lparr>dv_next_msg_index = 1, dv_buffer = CacheBuffer_push (7::int) (CacheBuffer_ctor 0 2)\<rparr>"
  have "stream_of (CacheBuffer_ctor (0::int) 2 :: (int, unit) CacheBuffer) []"
    by (rule stream_of_ctor) (simp add: two64_def)
  then have "stream_of (dv_buffer ?dv) ([] @ [7])"
    using cbs.rep_fill [of "CacheBuffer_ctor (0::int) 2" "[]" 7] by (simp add: two64_def)
  moreover have "cb_capacity (dv_buffer ?dv) = 3"
    by (simp add: CacheBuffer_push_def Fill_capacity CacheBuffer_ctor_def u64_add_def two64_def)
  ultimately show ?thesis
    using TryFetch_next_message [of ?dv "[7]" 0] by (simp add: two64_def)
qed

text \<open>
  Dispatching on a channel writes the message once per registration into every live buffer
  of that channel and into nothing else, then calls the channel's notifiers in registration
  order; a channel without buffers, or a shut-down process, changes nothing and reports failure.
\<close>

theorem Dispatch_reaches_all:
  "DataDispatcher_Dispatch is_shutdown channel_id msg dn dd =
    (if is_shutdown \<or> AtomicHashMap_Get (dd_buffers_map dd) channel_id = None
     then ((False, []), dd)
     else (DataNotifier_Notify channel_id dn,
       dd\<lparr>dd_heap := (\<lambda>a. map_option
         (CacheBuffer_Fill msg ^^ count_list (buffers_of dd channel_id) a) (dd_heap dd a))\<rparr>))"
  by (auto simp: DataDispatcher_Dispatch_def buffers_of_def Dispatch_loop_eq fun_eq_iff
      split: option.split)

text \<open>
  Registration is exact: after \<open>AddNotifier(channel, n)\<close> a notification of that channel
  runs what it ran before followed by \<open>n\<close>'s callback, and other channels are unaffected.
\<close>

theorem AddNotifier_Notify:
  assumes "AtomicHashMap_inv (dn_notifies_map dn)"
  shows "DataNotifier_Notify ch (DataNotifier_AddNotifier channel_id (Some n) dn) =
    (if ch = channel_id
     then (True, snd (DataNotifier_Notify ch dn) @
             (case dn_callback dn n of None \<Rightarrow> [] | Some c \<Rightarrow> [c]))
     else DataNotifier_Notify ch dn)"
proof -
  have cb: "dn_callback (DataNotifier_AddNotifier channel_id (Some n) dn) = dn_callback dn"
    by (simp add: DataNotifier_AddNotifier_def split: option.split)
  have app: "Notify_loop f (xs @ ys) = Notify_loop f xs @ Notify_loop f ys"
    for f :: "nat \<Rightarrow> 'a option" and xs ys
    by (induction f xs rule: Notify_loop.induct) auto
  show ?thesis
    by (auto simp: DataNotifier_Notify_def cb AddNotifier_register ahm.get_register assms app
        split: option.split)
qed

theorem AddNotifier_Notify_witness:
  "DataNotifier_Notify 5 (DataNotifier_AddNotifier 5 (Some 1)
     (RegisterNotifyCallback 1 ''cb'' DataNotifier_ctor)) = (True, [''cb''])"
proof -
  let ?dn = "RegisterNotifyCallback 1 ''cb'' DataNotifier_ctor"
  have m: "dn_notifies_map ?dn = AtomicHashMap_ctor (2 ^ 7)"
    by (simp add: RegisterNotifyCallback_def DataNotifier_ctor_def)
  then have "AtomicHashMap_inv (dn_notifies_map ?dn)"
    by (simp only: AtomicHashMap_inv_ctor)
  moreover have "DataNotifier_Notify 5 ?dn = (False, [])"
    by (simp only: DataNotifier_Notify_def m AtomicHashMap_Get_ctor) simp
  ultimately show ?thesis
    using AddNotifier_Notify [of ?dn 5 5 1] by (simp add: RegisterNotifyCallback_def)
qed

text \<open>
  A reader that joins a channel gets its messages: after its constructor has registered a
  fresh buffer, a dispatch on that channel succeeds and fills the buffer exactly once, with the
  message dispatched; the readers that were there before get it as well.
\<close>

theorem new_reader_gets_messages:
  assumes "AtomicHashMap_inv (dd_buffers_map dd)" and "AtomicHashMap_inv (dn_notifies_map dn)"
    and "buffer \<notin> set (buffers_of dd channel_id)"
    and "DataVisitor_register dflt buffer notifier channel_id queue_size (dd, dn) = (dd', dn')"
    and "DataDispatcher_Dispatch False channel_id msg dn' dd' = ((ok, calls), dd'')"
  shows "ok \<and>
    dd_heap dd'' buffer = Some (CacheBuffer_Fill msg (CacheBuffer_ctor dflt queue_size, ())) \<and>
    (\<forall>a. a \<noteq> buffer \<longrightarrow> dd_heap dd'' a = map_option
       (CacheBuffer_Fill msg ^^ count_list (buffers_of dd channel_id) a) (dd_heap dd a))"
proof -
  let ?dd = "dd\<lparr>dd_heap := (dd_heap dd)(buffer \<mapsto> (CacheBuffer_ctor dflt queue_size, ()))\<rparr>"
  have dd': "dd' = DataDispatcher_AddBuffer channel_id buffer ?dd"
    and dn': "dn' = DataNotifier_AddNotifier channel_id (Some notifier)
        (dn\<lparr>dn_callback := (dn_callback dn)(notifier := None)\<rparr>)"
    using assms(4) by (auto simp: DataVisitor_register_def DataVisitor_AddBuffer_def)
  have bufs: "AtomicHashMap_Get (dd_buffers_map dd') channel_id =
      Some (buffers_of dd channel_id @ [buffer])"
    using assms(1)
    by (simp add: dd' AddBuffer_register ahm.get_register buffers_of_def split: option.split)
  have heap: "dd_heap dd' = (dd_heap dd)(buffer \<mapsto> (CacheBuffer_ctor dflt queue_size, ()))"
    by (simp add: dd' DataDispatcher_AddBuffer_def split: option.split)
  have "fst (DataNotifier_Notify channel_id dn')"
    using assms(2) by (simp add: dn' DataNotifier_Notify_def AddNotifier_register ahm.get_register)
  then have ok and dd'': "dd_heap dd'' =
      Dispatch_loop msg (buffers_of dd channel_id @ [buffer]) (dd_heap dd')"
    using assms(5) by (auto simp: DataDispatcher_Dispatch_def bufs)
  moreover have "count_list (buffers_of dd channel_id @ [buffer]) buffer = 1"
    using assms(3) by (simp add: count_list_0_iff)
  ultimately show ?thesis by (simp add: Dispatch_loop_eq fun_eq_iff heap)
qed

theorem new_reader_gets_messages_witness:
  "\<exists>dd'' calls dd' dn'.
     DataVisitor_register (0::int) 9 1 5 2
       (\<lparr>dd_buffers_map = AtomicHashMap_ctor 128, dd_heap = (\<lambda>_. None)\<rparr>,
        DataNotifier_ctor :: string DataNotifier) = (dd', dn') \<and>
     DataDispatcher_Dispatch False 5 7 dn' dd' = ((True, calls), dd'') \<and>
     dd_heap dd'' 9 = Some (CacheBuffer_Fill 7 (CacheBuffer_ctor 0 2, ()))"
proof -
  let ?dd = "\<lparr>dd_buffers_map = AtomicHashMap_ctor 128, dd_heap = (\<lambda>_. None)\<rparr>
    :: (int, unit) DataDispatcher"
  let ?dn = "DataNotifier_ctor :: string DataNotifier"
  have *: "AtomicHashMap_ctor 128 = AtomicHashMap_ctor (2 ^ 7)" by simp
  have "AtomicHashMap_inv (dd_buffers_map ?dd)"
    by (simp only: * AtomicHashMap_inv_ctor DataDispatcher.select_convs)
  moreover have "AtomicHashMap_inv (dn_notifies_map ?dn)"
    by (simp only: DataNotifier_ctor_def * AtomicHashMap_inv_ctor DataNotifier.select_convs)
  moreover have "9 \<notin> set (buffers_of ?dd 5)"
    by (simp only: buffers_of_def * AtomicHashMap_Get_ctor DataDispatcher.select_convs) simp
  moreover obtain dd' dn' where r: "DataVisitor_register 0 9 1 5 2 (?dd, ?dn) = (dd', dn')"
    by fastforce
  moreover obtain ok calls dd'' where d:
    "DataDispatcher_Dispatch False 5 7 dn' dd' = ((ok, calls), dd'')"
    by (metis prod.exhaust)
  ultimately have "ok \<and> dd_heap dd'' 9 = Some (CacheBuffer_Fill 7 (CacheBuffer_ctor 0 2, ()))"
    using new_reader_gets_messages [of ?dd ?dn 9 5 0 1 2 dd' dn' 7 ok calls dd''] by blast
  moreover from this have "ok = True" by simp
  ultimately show ?thesis using r d by (intro exI conjI) simp_all
qed

end
