(* ===== verification/Timing_Wheel.thy ===== *)
theory Timing_Wheel
  imports Prelude
begin

unbundle bit_operations_syntax

text \<open>
  \<open>cyber/timer\<close>: the two-level timing wheel and the timers on it. The buckets hold weak
  pointers, modelled as addresses into \<open>tw_tasks\<close> (\<open>None\<close>: the task has been destroyed).
  The tick thread's loop body is split where other threads can come in between:
  \<open>TimingWheel_Tick\<close> fires a bucket, \<open>TickFunc_advance\<close> moves the indices and cascades.
  Firing posts the task's callback with \<open>cyber::Async\<close>; it is observed as the list of
  addresses posted. Times are in milliseconds, the resolution is two.
\<close>

section \<open>TimerTask and TimingWheel\<close>

record TimerTask =
  tt_timer_id :: nat
  tt_interval_ms :: nat
  tt_remainder_interval_ms :: nat
  tt_next_fire_duration_ms :: nat
  tt_accumulated_error_ns :: int
  tt_last_execute_time_ns :: nat

definition TimerTask_ctor :: "nat \<Rightarrow> TimerTask" where
  "TimerTask_ctor timer_id =
     \<lparr>tt_timer_id = timer_id, tt_interval_ms = 0, tt_remainder_interval_ms = 0,
      tt_next_fire_duration_ms = 0, tt_accumulated_error_ns = 0, tt_last_execute_time_ns = 0\<rparr>"

type_synonym TimerBucket = "nat list"

definition WORK_WHEEL_SIZE :: nat where "WORK_WHEEL_SIZE = 512"

definition ASSISTANT_WHEEL_SIZE :: nat where "ASSISTANT_WHEEL_SIZE = 64"

definition TIMER_RESOLUTION_MS :: nat where "TIMER_RESOLUTION_MS = 2"

definition TIMER_MAX_INTERVAL_MS :: nat where
  "TIMER_MAX_INTERVAL_MS = WORK_WHEEL_SIZE * ASSISTANT_WHEEL_SIZE * TIMER_RESOLUTION_MS"

record TimingWheel =
  tw_running :: bool
  tw_tick_count :: nat
  tw_work_wheel :: "TimerBucket list"
  tw_assistant_wheel :: "TimerBucket list"
  tw_current_work_wheel_index :: nat
  tw_current_assistant_wheel_index :: nat
  tw_tasks :: "nat \<Rightarrow> TimerTask option"

definition TimingWheel_ctor :: TimingWheel where
  "TimingWheel_ctor =
     \<lparr>tw_running = False, tw_tick_count = 0, tw_work_wheel = replicate WORK_WHEEL_SIZE [],
      tw_assistant_wheel = replicate ASSISTANT_WHEEL_SIZE [], tw_current_work_wheel_index = 0,
      tw_current_assistant_wheel_index = 0, tw_tasks = (\<lambda>_. None)\<rparr>"

definition GetWorkWheelIndex :: "nat \<Rightarrow> nat" where
  "GetWorkWheelIndex index = index AND (WORK_WHEEL_SIZE - 1)"

definition GetAssistantWheelIndex :: "nat \<Rightarrow> nat" where
  "GetAssistantWheelIndex index = index AND (ASSISTANT_WHEEL_SIZE - 1)"

definition TimerBucket_AddTask :: "nat \<Rightarrow> TimerBucket \<Rightarrow> TimerBucket" where
  "TimerBucket_AddTask task task_list = task_list @ [task]"

definition TimingWheel_Start :: "TimingWheel \<Rightarrow> TimingWheel" where
  "TimingWheel_Start tw = (if \<not> tw_running tw then tw\<lparr>tw_running := True\<rparr> else tw)"

definition TimingWheel_Shutdown :: "TimingWheel \<Rightarrow> TimingWheel" where
  "TimingWheel_Shutdown tw = (if tw_running tw then tw\<lparr>tw_running := False\<rparr> else tw)"

text \<open>The erase loop over a bucket posts the live tasks and leaves the bucket empty.\<close>

fun Tick_loop :: "(nat \<Rightarrow> TimerTask option) \<Rightarrow> TimerBucket \<Rightarrow> nat list \<Rightarrow> nat list \<times> TimerBucket" where
  "Tick_loop tasks [] posted = (posted, [])"
| "Tick_loop tasks (ite # rest) posted =
     Tick_loop tasks rest (if tasks ite = None then posted else posted @ [ite])"

definition TimingWheel_Tick :: "TimingWheel \<Rightarrow> nat list \<times> TimingWheel" where
  "TimingWheel_Tick tw =
     (let i = tw_current_work_wheel_index tw in
      case Tick_loop (tw_tasks tw) (tw_work_wheel tw ! i) [] of
        (posted, bucket) \<Rightarrow> (posted, tw\<lparr>tw_work_wheel := (tw_work_wheel tw)[i := bucket]\<rparr>))"

text \<open>
  \<open>ceil(next_fire_duration_ms / 2)\<close> in \<open>double\<close> is exact for durations below \<open>2\<^sup>5\<^sup>3\<close>.
  A null task cannot occur: callers pass the pointer they hold.
\<close>

definition fire_ticks :: "TimerTask \<Rightarrow> nat" where
  "fire_ticks task = (tt_next_fire_duration_ms task + TIMER_RESOLUTION_MS - 1) div TIMER_RESOLUTION_MS"

definition TimingWheel_AddTask_at :: "nat \<Rightarrow> nat \<Rightarrow> TimingWheel \<Rightarrow> TimingWheel" where
  "TimingWheel_AddTask_at a current_work_wheel_index tw0 =
     (let tw = (if \<not> tw_running tw0 then TimingWheel_Start tw0 else tw0) in
      case tw_tasks tw a of
        None \<Rightarrow> tw
      | Some task \<Rightarrow>
          (let work_wheel_index = current_work_wheel_index + fire_ticks task in
           if work_wheel_index \<ge> WORK_WHEEL_SIZE then
             (let real_work_wheel_index = GetWorkWheelIndex work_wheel_index;
                  tw' = tw\<lparr>tw_tasks := (tw_tasks tw)
                    (a \<mapsto> task\<lparr>tt_remainder_interval_ms := real_work_wheel_index\<rparr>)\<rparr>;
                  assistant_ticks = work_wheel_index div WORK_WHEEL_SIZE in
              if assistant_ticks = 1 \<and> real_work_wheel_index < tw_current_work_wheel_index tw then
                tw'\<lparr>tw_work_wheel := (tw_work_wheel tw')[real_work_wheel_index :=
                   TimerBucket_AddTask a (tw_work_wheel tw' ! real_work_wheel_index)]\<rparr>
              else
                (let assistant_wheel_index =
                       GetAssistantWheelIndex (tw_current_assistant_wheel_index tw + assistant_ticks) in
                 tw'\<lparr>tw_assistant_wheel := (tw_assistant_wheel tw')[assistant_wheel_index :=
                   TimerBucket_AddTask a (tw_assistant_wheel tw' ! assistant_wheel_index)]\<rparr>))
           else
             tw\<lparr>tw_work_wheel := (tw_work_wheel tw)[work_wheel_index :=
                TimerBucket_AddTask a (tw_work_wheel tw ! work_wheel_index)]\<rparr>))"

definition TimingWheel_AddTask :: "nat \<Rightarrow> TimingWheel \<Rightarrow> TimingWheel" where
  "TimingWheel_AddTask a tw = TimingWheel_AddTask_at a (tw_current_work_wheel_index tw) tw"

fun Cascade_loop ::
    "(nat \<Rightarrow> TimerTask option) \<Rightarrow> TimerBucket \<Rightarrow> TimerBucket list \<Rightarrow> TimerBucket list \<times> TimerBucket"
where
  "Cascade_loop tasks [] work_wheel = (work_wheel, [])"
| "Cascade_loop tasks (ite # rest) work_wheel =
     (case tasks ite of
        None \<Rightarrow> Cascade_loop tasks rest work_wheel
      | Some task \<Rightarrow>
          (let r = tt_remainder_interval_ms task in
           Cascade_loop tasks rest
             (work_wheel[r := TimerBucket_AddTask ite (work_wheel ! r)])))"

definition TimingWheel_Cascade :: "nat \<Rightarrow> TimingWheel \<Rightarrow> TimingWheel" where
  "TimingWheel_Cascade assistant_wheel_index tw =
     (case Cascade_loop (tw_tasks tw) (tw_assistant_wheel tw ! assistant_wheel_index)
             (tw_work_wheel tw) of
        (work_wheel, bucket) \<Rightarrow>
          tw\<lparr>tw_work_wheel := work_wheel,
             tw_assistant_wheel := (tw_assistant_wheel tw)[assistant_wheel_index := bucket]\<rparr>)"

definition TickFunc_advance :: "TimingWheel \<Rightarrow> TimingWheel" where
  "TickFunc_advance tw =
     (let tw1 = tw\<lparr>tw_tick_count := u64_add (tw_tick_count tw) 1,
                   tw_current_work_wheel_index :=
                     GetWorkWheelIndex (tw_current_work_wheel_index tw + 1)\<rparr> in
      if tw_current_work_wheel_index tw1 = 0 then
        (let tw2 = tw1\<lparr>tw_current_assistant_wheel_index :=
                         GetAssistantWheelIndex (tw_current_assistant_wheel_index tw1 + 1)\<rparr> in
         TimingWheel_Cascade (tw_current_assistant_wheel_index tw2) tw2)
      else tw1)"

text \<open>From one \<open>Tick\<close> to the next: the rest of a loop body and the start of the following.\<close>

definition TickFunc_round :: "TimingWheel \<Rightarrow> nat list \<times> TimingWheel" where
  "TickFunc_round tw = TimingWheel_Tick (TickFunc_advance tw)"

text \<open>
  Executions: the tick thread goes round, other threads add tasks. The result lists what each
  round posted.
\<close>

datatype wheel_event = Round | Add nat

fun wheel_run :: "wheel_event list \<Rightarrow> TimingWheel \<Rightarrow> nat list list \<times> TimingWheel" where
  "wheel_run [] tw = ([], tw)"
| "wheel_run (Round # evs) tw =
     (case TickFunc_round tw of (posted, tw') \<Rightarrow>
        (case wheel_run evs tw' of (fired, tw'') \<Rightarrow> (posted # fired, tw'')))"
| "wheel_run (Add a # evs) tw = wheel_run evs (TimingWheel_AddTask a tw)"

section \<open>Index arithmetic\<close>

lemma GetWorkWheelIndex_mod [simp]: "GetWorkWheelIndex i = i mod 512"
proof -
  have "i AND 511 = i AND mask 9" by (simp add: mask_eq_exp_minus_1)
  also have "\<dots> = i mod 512" by (simp flip: take_bit_eq_mask add: take_bit_eq_mod)
  finally show ?thesis by (simp add: GetWorkWheelIndex_def WORK_WHEEL_SIZE_def)
qed

lemma GetAssistantWheelIndex_mod [simp]: "GetAssistantWheelIndex i = i mod 64"
proof -
  have "i AND 63 = i AND mask 6" by (simp add: mask_eq_exp_minus_1)
  also have "\<dots> = i mod 64" by (simp flip: take_bit_eq_mask add: take_bit_eq_mod)
  finally show ?thesis by (simp add: GetAssistantWheelIndex_def ASSISTANT_WHEEL_SIZE_def)
qed

lemma fire_ticks_eq: "fire_ticks task = (tt_next_fire_duration_ms task + 1) div 2"
  by (simp add: fire_ticks_def TIMER_RESOLUTION_MS_def)

section \<open>Where a task is, and when it is due\<close>

definition wheel_inv :: "TimingWheel \<Rightarrow> bool" where
  [cyber_inv]: "wheel_inv tw \<longleftrightarrow>
     length (tw_work_wheel tw) = 512 \<and> length (tw_assistant_wheel tw) = 64 \<and>
     tw_current_work_wheel_index tw < 512 \<and> tw_current_assistant_wheel_index tw < 64"

text \<open>
  \<open>due tw a n\<close>: the live task \<open>a\<close> is in exactly one bucket, the one that makes it fire
  when the work index has advanced \<open>n\<close> more times: in the work wheel, or in the assistant
  wheel with the work-wheel slot noted in the task. \<open>absent tw a\<close>: it is in no bucket.
\<close>

definition absent :: "TimingWheel \<Rightarrow> nat \<Rightarrow> bool" where
  "absent tw a \<longleftrightarrow> (\<forall>i < 512. a \<notin> set (tw_work_wheel tw ! i)) \<and>
     (\<forall>j < 64. a \<notin> set (tw_assistant_wheel tw ! j))"

definition in_work :: "TimingWheel \<Rightarrow> nat \<Rightarrow> nat \<Rightarrow> bool" where
  "in_work tw a k \<longleftrightarrow>
     (\<forall>i < 512. count_list (tw_work_wheel tw ! i) a = (if i = k then 1 else 0)) \<and>
     (\<forall>j < 64. a \<notin> set (tw_assistant_wheel tw ! j))"

definition in_assistant :: "TimingWheel \<Rightarrow> nat \<Rightarrow> nat \<Rightarrow> bool" where
  "in_assistant tw a k \<longleftrightarrow>
     (\<forall>i < 512. a \<notin> set (tw_work_wheel tw ! i)) \<and>
     (\<forall>j < 64. count_list (tw_assistant_wheel tw ! j) a = (if j = k then 1 else 0))"

definition due :: "TimingWheel \<Rightarrow> nat \<Rightarrow> nat \<Rightarrow> bool" where
  "due tw a n \<longleftrightarrow>
     (\<exists>task. tw_tasks tw a = Some task \<and>
       (n < 512 \<and> in_work tw a ((tw_current_work_wheel_index tw + n) mod 512) \<or>
        (let s = tw_current_work_wheel_index tw + n in
         1 \<le> s div 512 \<and> s div 512 \<le> 64 \<and> tt_remainder_interval_ms task = s mod 512 \<and>
         in_assistant tw a ((tw_current_assistant_wheel_index tw + s div 512) mod 64))))"

lemma Tick_loop_eq:
  "Tick_loop tasks bucket posted = (posted @ filter (\<lambda>a. tasks a \<noteq> None) bucket, [])"
  by (induction tasks bucket posted rule: Tick_loop.induct) auto

lemma Tick_eq:
  "TimingWheel_Tick tw =
     (filter (\<lambda>a. tw_tasks tw a \<noteq> None) (tw_work_wheel tw ! tw_current_work_wheel_index tw),
      tw\<lparr>tw_work_wheel := (tw_work_wheel tw)[tw_current_work_wheel_index tw := []]\<rparr>)"
  by (simp add: TimingWheel_Tick_def Tick_loop_eq Let_def)

lemma count_filter_live: "P a \<Longrightarrow> count_list (filter P xs) a = count_list xs a"
  by (induction xs) auto

text \<open>\<open>Tick\<close>: a task due now is posted once and is then in no bucket; any other stays.\<close>

lemma Tick_due_0:
  assumes "wheel_inv tw" and "due tw a 0"
  shows "count_list (fst (TimingWheel_Tick tw)) a = 1 \<and> absent (snd (TimingWheel_Tick tw)) a"
proof -
  let ?c = "tw_current_work_wheel_index tw"
  have c: "?c < 512" using assms(1) by (simp add: cyber_inv)
  then have "?c div 512 = 0" by simp
  with assms(2) c have live: "tw_tasks tw a \<noteq> None" and w: "in_work tw a ?c"
    by (auto simp: due_def Let_def)
  have "count_list (fst (TimingWheel_Tick tw)) a = count_list (tw_work_wheel tw ! ?c) a"
    using live by (simp add: Tick_eq count_filter_live)
  moreover have "absent (snd (TimingWheel_Tick tw)) a"
    using w c assms(1)
    by (auto simp: Tick_eq absent_def in_work_def cyber_inv nth_update_read count_list_0_iff
        split: if_splits)
  ultimately show ?thesis using w c by (simp add: in_work_def)
qed

lemma Tick_due_Suc:
  assumes "wheel_inv tw" and "due tw a (Suc n)"
  shows "a \<notin> set (fst (TimingWheel_Tick tw)) \<and> due (snd (TimingWheel_Tick tw)) a (Suc n)"
proof -
  let ?c = "tw_current_work_wheel_index tw"
  have c: "?c < 512" "length (tw_work_wheel tw) = 512" using assms(1) by (auto simp: cyber_inv)
  obtain task where t: "tw_tasks tw a = Some task" using assms(2) by (auto simp: due_def)
  consider (work) "Suc n < 512" "in_work tw a ((?c + Suc n) mod 512)"
    | (assistant) "1 \<le> (?c + Suc n) div 512" "(?c + Suc n) div 512 \<le> 64"
        "tt_remainder_interval_ms task = (?c + Suc n) mod 512"
        "in_assistant tw a ((tw_current_assistant_wheel_index tw + (?c + Suc n) div 512) mod 64)"
    using assms(2) t unfolding due_def Let_def by auto
  then show ?thesis
  proof cases
    case work
    then have "(?c + Suc n) mod 512 \<noteq> ?c" using mod_window_neq [of ?c "?c + Suc n" 512] c by auto
    then have "a \<notin> set (tw_work_wheel tw ! ?c)" using work c
      by (auto simp: in_work_def count_list_0_iff)
    moreover have "in_work (snd (TimingWheel_Tick tw)) a ((?c + Suc n) mod 512)"
      using work c \<open>(?c + Suc n) mod 512 \<noteq> ?c\<close> by (auto simp: Tick_eq in_work_def nth_update_read)
    ultimately show ?thesis using t work(1) by (simp add: Tick_eq due_def)
  next
    case assistant
    then have "in_assistant (snd (TimingWheel_Tick tw)) a
        ((tw_current_assistant_wheel_index tw + (?c + Suc n) div 512) mod 64)"
      and "a \<notin> set (tw_work_wheel tw ! ?c)"
      using c by (auto simp: in_assistant_def Tick_eq nth_update_read)
    then show ?thesis using t assistant by (simp add: Tick_eq due_def Let_def)
  qed
qed

lemma Tick_absent:
  assumes "wheel_inv tw" and "absent tw a"
  shows "a \<notin> set (fst (TimingWheel_Tick tw)) \<and> absent (snd (TimingWheel_Tick tw)) a"
  using assms by (auto simp: Tick_eq absent_def cyber_inv nth_update_read)

lemma Tick_inv: "wheel_inv tw \<Longrightarrow> wheel_inv (snd (TimingWheel_Tick tw))"
  by (simp add: Tick_eq cyber_inv)

text \<open>Cascading: each live task of the bucket moves to the slot it noted.\<close>

lemma Cascade_loop_length [simp]:
  "length (fst (Cascade_loop tasks bucket work)) = length work"
  by (induction tasks bucket work rule: Cascade_loop.induct) (auto simp: Let_def split: option.split)

lemma Cascade_loop_bucket [simp]: "snd (Cascade_loop tasks bucket work) = []"
  by (induction tasks bucket work rule: Cascade_loop.induct) (auto simp: Let_def split: option.split)

lemma Cascade_loop_count:
  assumes "i < length work"
  shows "count_list (fst (Cascade_loop tasks bucket work) ! i) a =
    count_list (work ! i) a +
      (case tasks a of None \<Rightarrow> 0
       | Some task \<Rightarrow> if tt_remainder_interval_ms task = i then count_list bucket a else 0)"
  using assms
  by (induction tasks bucket work rule: Cascade_loop.induct)
    (auto simp: Let_def TimerBucket_AddTask_def nth_update_read split: option.split)

lemma Cascade_eq:
  "TimingWheel_Cascade j tw =
     tw\<lparr>tw_work_wheel := fst (Cascade_loop (tw_tasks tw) (tw_assistant_wheel tw ! j) (tw_work_wheel tw)),
        tw_assistant_wheel := (tw_assistant_wheel tw)[j := []]\<rparr>"
proof -
  obtain w b where wb:
    "Cascade_loop (tw_tasks tw) (tw_assistant_wheel tw ! j) (tw_work_wheel tw) = (w, b)" by fastforce
  then have "b = []" using Cascade_loop_bucket by (metis snd_conv)
  with wb show ?thesis by (simp add: TimingWheel_Cascade_def)
qed

lemma notin_set_count: "a \<notin> set xs \<longleftrightarrow> count_list xs a = 0"
  by (simp add: count_list_0_iff)

lemma Cascade_other:
  assumes "wheel_inv tw" and "a \<notin> set (tw_assistant_wheel tw ! j)"
  shows "\<forall>i < 512. count_list (tw_work_wheel (TimingWheel_Cascade j tw) ! i) a =
      count_list (tw_work_wheel tw ! i) a"
    and "\<forall>k < 64. count_list (tw_assistant_wheel (TimingWheel_Cascade j tw) ! k) a =
      count_list (tw_assistant_wheel tw ! k) a"
  using assms
  by (auto simp: Cascade_eq Cascade_loop_count cyber_inv nth_update_read notin_set_count
      split: option.split)

text \<open>Advancing the index by one brings every due time one closer.\<close>

lemma advance_inv: "wheel_inv tw \<Longrightarrow> wheel_inv (TickFunc_advance tw)"
  by (auto simp: TickFunc_advance_def Let_def cyber_inv Cascade_eq)

lemma advance_tasks [simp]: "tw_tasks (TickFunc_advance tw) = tw_tasks tw"
  by (simp add: TickFunc_advance_def Let_def Cascade_eq)

lemma advance_nowrap:
  assumes "tw_current_work_wheel_index tw + 1 < 512"
  shows "TickFunc_advance tw = tw\<lparr>tw_tick_count := u64_add (tw_tick_count tw) 1,
     tw_current_work_wheel_index := tw_current_work_wheel_index tw + 1\<rparr>"
  using assms by (simp add: TickFunc_advance_def Let_def)

lemma advance_wrap:
  assumes "tw_current_work_wheel_index tw = 511"
  shows "TickFunc_advance tw =
    (let j = (tw_current_assistant_wheel_index tw + 1) mod 64 in
     TimingWheel_Cascade j (tw\<lparr>tw_tick_count := u64_add (tw_tick_count tw) 1,
       tw_current_work_wheel_index := 0, tw_current_assistant_wheel_index := j\<rparr>))"
  using assms by (simp add: TickFunc_advance_def Let_def)

lemma due_cases:
  assumes "due tw a n" and "tw_tasks tw a = Some task"
  obtains
    (work) "n < 512" "in_work tw a ((tw_current_work_wheel_index tw + n) mod 512)"
  | (assistant) "1 \<le> (tw_current_work_wheel_index tw + n) div 512"
      "(tw_current_work_wheel_index tw + n) div 512 \<le> 64"
      "tt_remainder_interval_ms task = (tw_current_work_wheel_index tw + n) mod 512"
      "in_assistant tw a
         ((tw_current_assistant_wheel_index tw + (tw_current_work_wheel_index tw + n) div 512) mod 64)"
  using assms unfolding due_def Let_def by auto

lemma due_workI:
  "tw_tasks tw a = Some task \<Longrightarrow> n < 512 \<Longrightarrow>
     in_work tw a ((tw_current_work_wheel_index tw + n) mod 512) \<Longrightarrow> due tw a n"
  by (simp add: due_def)

lemma due_assistantI:
  "tw_tasks tw a = Some task \<Longrightarrow> tw_current_work_wheel_index tw + n = s \<Longrightarrow>
     1 \<le> s div 512 \<Longrightarrow> s div 512 \<le> 64 \<Longrightarrow> tt_remainder_interval_ms task = s mod 512 \<Longrightarrow>
     in_assistant tw a ((tw_current_assistant_wheel_index tw + s div 512) mod 64) \<Longrightarrow> due tw a n"
  by (auto simp: due_def Let_def)

lemma due_live: "due tw a n \<Longrightarrow> \<exists>task. tw_tasks tw a = Some task"
  by (auto simp: due_def)

text \<open>The wrap of the work index, with the task still in the assistant wheel.\<close>

lemma wrap_assistant_due:
  assumes inv: "wheel_inv tw" and c: "tw_current_work_wheel_index tw = 511"
    and live: "tw_tasks tw a = Some task"
    and t: "(511 + Suc n) div 512 = t" "1 \<le> t" "t \<le> 64"
    and r: "tt_remainder_interval_ms task = (511 + Suc n) mod 512"
    and asst: "in_assistant tw a ((tw_current_assistant_wheel_index tw + t) mod 64)"
  shows "due (TickFunc_advance tw) a n"
proof -
  let ?g = "tw_current_assistant_wheel_index tw"
  let ?j = "(?g + 1) mod 64"
  let ?tw = "tw\<lparr>tw_tick_count := u64_add (tw_tick_count tw) 1,
       tw_current_work_wheel_index := 0, tw_current_assistant_wheel_index := ?j\<rparr>"
  have adv: "TickFunc_advance tw = TimingWheel_Cascade ?j ?tw"
    using advance_wrap [OF c] by (simp add: Let_def)
  have inv': "wheel_inv ?tw" using inv by (simp add: cyber_inv)
  have n: "n div 512 = t - 1" using t by auto
  have r': "tt_remainder_interval_ms task = n mod 512" using r by simp
  show ?thesis
  proof (cases "t = 1")
    case True
    then have n512: "n < 512" using n by simp
    have w0: "\<And>i. i < 512 \<Longrightarrow> count_list (tw_work_wheel tw ! i) a = 0"
      using asst by (simp add: in_assistant_def notin_set_count)
    have a1: "\<And>j. j < 64 \<Longrightarrow> count_list (tw_assistant_wheel tw ! j) a = (if j = ?j then 1 else 0)"
      using asst True by (simp add: in_assistant_def)
    have rn: "tt_remainder_interval_ms task = n" using r' n512 by simp
    have len: "length (tw_work_wheel tw) = 512" "length (tw_assistant_wheel tw) = 64"
      using inv by (simp_all add: cyber_inv)
    have "\<forall>i < 512. count_list (tw_work_wheel (TimingWheel_Cascade ?j ?tw) ! i) a =
        (if i = n then 1 else 0)"
      by (simp add: Cascade_eq Cascade_loop_count len w0 a1 live rn)
    moreover have "\<forall>j < 64. a \<notin> set (tw_assistant_wheel (TimingWheel_Cascade ?j ?tw) ! j)"
      by (simp add: Cascade_eq len nth_update_read a1 notin_set_count)
    ultimately have "in_work (TimingWheel_Cascade ?j ?tw) a n" by (simp add: in_work_def)
    then show ?thesis using n512 live by (simp add: adv due_def Cascade_eq)
  next
    case False
    have ne: "?j \<noteq> (?g + t) mod 64"
      using False t mod_window_neq [of "?g + 1" "?g + t" 64] by auto
    then have "a \<notin> set (tw_assistant_wheel ?tw ! ?j)"
      using asst by (simp add: in_assistant_def notin_set_count)
    note other = Cascade_other [OF inv' this]
    have "in_assistant (TimingWheel_Cascade ?j ?tw) a ((?g + t) mod 64)"
      using asst other by (simp add: in_assistant_def notin_set_count)
    moreover have "(?j + n div 512) mod 64 = (?g + t) mod 64"
    proof -
      have "(?j + n div 512) mod 64 = (?g + 1 + (t - 1)) mod 64"
        by (simp only: n mod_add_left_eq)
      also have "?g + 1 + (t - 1) = ?g + t" using t(2) by simp
      finally show ?thesis .
    qed
    ultimately have "in_assistant (TimingWheel_Cascade ?j ?tw) a ((?j + n div 512) mod 64)"
      by (simp only:)
    moreover have "1 \<le> n div 512" "n div 512 \<le> 64" using False t(2,3) n by simp_all
    ultimately show ?thesis
      unfolding adv using live r' by (intro due_assistantI [of _ _ task _ n]) (simp_all add: Cascade_eq)
  qed
qed

lemma wrap_work_due:
  assumes inv: "wheel_inv tw" and c: "tw_current_work_wheel_index tw = 511"
    and live: "tw_tasks tw a = Some task"
    and w: "Suc n < 512" "in_work tw a ((511 + Suc n) mod 512)"
  shows "due (TickFunc_advance tw) a n"
proof -
  let ?j = "(tw_current_assistant_wheel_index tw + 1) mod 64"
  let ?tw = "tw\<lparr>tw_tick_count := u64_add (tw_tick_count tw) 1,
       tw_current_work_wheel_index := 0, tw_current_assistant_wheel_index := ?j\<rparr>"
  have "TickFunc_advance tw = TimingWheel_Cascade ?j ?tw"
    using advance_wrap [OF c] by (simp add: Let_def)
  moreover have inv': "wheel_inv ?tw" using inv by (simp add: cyber_inv)
  moreover have "a \<notin> set (tw_assistant_wheel ?tw ! ?j)" using w by (simp add: in_work_def)
  note other = Cascade_other [OF inv' this]
  have "in_work (TimingWheel_Cascade ?j ?tw) a n"
    using w other by (simp add: in_work_def notin_set_count)
  ultimately show ?thesis using w(1) live by (simp add: due_def Cascade_eq)
qed

lemma advance_due:
  assumes inv: "wheel_inv tw" and d: "due tw a (Suc n)"
  shows "due (TickFunc_advance tw) a n"
proof -
  obtain task where live: "tw_tasks tw a = Some task" using due_live [OF d] by blast
  show ?thesis
  proof (cases "tw_current_work_wheel_index tw + 1 < 512")
    case True
    then show ?thesis using d live
      by (auto simp: advance_nowrap due_def Let_def in_work_def in_assistant_def)
  next
    case False
    then have c: "tw_current_work_wheel_index tw = 511" using inv by (simp add: cyber_inv)
    from d live show ?thesis
    proof (cases rule: due_cases)
      case work
      then show ?thesis using wrap_work_due [OF inv c live] c by simp
    next
      case assistant
      then show ?thesis using wrap_assistant_due [OF inv c live refl] c by simp
    qed
  qed
qed

lemma advance_absent:
  assumes inv: "wheel_inv tw" and "absent tw a"
  shows "absent (TickFunc_advance tw) a"
proof (cases "tw_current_work_wheel_index tw + 1 < 512")
  case True
  then show ?thesis using assms by (simp add: advance_nowrap absent_def)
next
  case False
  then have c: "tw_current_work_wheel_index tw = 511" using inv by (simp add: cyber_inv)
  show ?thesis using assms
    by (auto simp: advance_wrap [OF c] Let_def absent_def Cascade_eq notin_set_count
        Cascade_loop_count cyber_inv nth_update_read split: option.split)
qed

section \<open>Adding a task\<close>

lemma AddTask_inv: "wheel_inv tw \<Longrightarrow> wheel_inv (TimingWheel_AddTask a tw)"
  by (simp add: TimingWheel_AddTask_def TimingWheel_AddTask_at_def TimingWheel_Start_def Let_def
      cyber_inv split: option.split)

text \<open>Adding one task leaves every other where it is.\<close>

lemma AddTask_frame:
  assumes "wheel_inv tw" and "a \<noteq> b"
  shows "tw_tasks (TimingWheel_AddTask b tw) a = tw_tasks tw a"
    and "i < 512 \<Longrightarrow> count_list (tw_work_wheel (TimingWheel_AddTask b tw) ! i) a =
      count_list (tw_work_wheel tw ! i) a"
    and "j < 64 \<Longrightarrow> count_list (tw_assistant_wheel (TimingWheel_AddTask b tw) ! j) a =
      count_list (tw_assistant_wheel tw ! j) a"
    and "tw_current_work_wheel_index (TimingWheel_AddTask b tw) = tw_current_work_wheel_index tw"
    and "tw_current_assistant_wheel_index (TimingWheel_AddTask b tw) =
      tw_current_assistant_wheel_index tw"
  using assms
  by (simp_all add: TimingWheel_AddTask_def TimingWheel_AddTask_at_def TimingWheel_Start_def
      Let_def cyber_inv TimerBucket_AddTask_def nth_update_read split: option.split)

lemma AddTask_indices:
  "tw_current_work_wheel_index (TimingWheel_AddTask b tw) = tw_current_work_wheel_index tw"
  "tw_current_assistant_wheel_index (TimingWheel_AddTask b tw) = tw_current_assistant_wheel_index tw"
  by (simp_all add: TimingWheel_AddTask_def TimingWheel_AddTask_at_def TimingWheel_Start_def
      Let_def split: option.split)

lemma AddTask_task:
  "tw_tasks tw a = Some task \<Longrightarrow>
     tw_tasks (TimingWheel_AddTask a tw) a =
       Some (let s = tw_current_work_wheel_index tw + fire_ticks task in
             if s \<ge> 512 then task\<lparr>tt_remainder_interval_ms := s mod 512\<rparr> else task)"
  by (simp add: TimingWheel_AddTask_def TimingWheel_AddTask_at_def TimingWheel_Start_def
      Let_def WORK_WHEEL_SIZE_def)

lemma AddTask_far:
  assumes "tw_tasks tw a = Some task" and "tw_current_work_wheel_index tw + fire_ticks task = s"
    and "512 \<le> s"
  shows "tw_work_wheel (TimingWheel_AddTask a tw) =
      (if s div 512 = 1 \<and> s mod 512 < tw_current_work_wheel_index tw
       then (tw_work_wheel tw)[s mod 512 := tw_work_wheel tw ! (s mod 512) @ [a]]
       else tw_work_wheel tw)"
    and "tw_assistant_wheel (TimingWheel_AddTask a tw) =
      (if s div 512 = 1 \<and> s mod 512 < tw_current_work_wheel_index tw then tw_assistant_wheel tw
       else let j = (tw_current_assistant_wheel_index tw + s div 512) mod 64 in
         (tw_assistant_wheel tw)[j := tw_assistant_wheel tw ! j @ [a]])"
  using assms
  by (simp_all add: TimingWheel_AddTask_def TimingWheel_AddTask_at_def TimingWheel_Start_def
      Let_def WORK_WHEEL_SIZE_def TimerBucket_AddTask_def)

lemma AddTask_other_due:
  assumes "wheel_inv tw" and "a \<noteq> b" and "due tw a n"
  shows "due (TimingWheel_AddTask b tw) a n"
  using assms(3) AddTask_frame [OF assms(1,2)]
  by (simp add: due_def in_work_def in_assistant_def notin_set_count Let_def)

lemma AddTask_other_absent:
  assumes "wheel_inv tw" and "a \<noteq> b" and "absent tw a"
  shows "absent (TimingWheel_AddTask b tw) a"
  using assms(3) AddTask_frame [OF assms(1,2)] by (simp add: absent_def notin_set_count)

text \<open>The task added is due after its duration, rounded up to whole ticks.\<close>

lemma AddTask_due:
  assumes inv: "wheel_inv tw" and live: "tw_tasks tw a = Some task" and abs: "absent tw a"
    and n: "1 \<le> fire_ticks task" "fire_ticks task \<le> 32768"
  shows "due (TimingWheel_AddTask a tw) a (fire_ticks task)"
proof -
  let ?c = "tw_current_work_wheel_index tw" and ?n = "fire_ticks task"
  let ?s = "?c + ?n"
  let ?tw = "TimingWheel_AddTask a tw"
  have c: "?c < 512" "length (tw_work_wheel tw) = 512" "length (tw_assistant_wheel tw) = 64"
    using inv by (auto simp: cyber_inv)
  have w0: "\<And>i. i < 512 \<Longrightarrow> count_list (tw_work_wheel tw ! i) a = 0"
    and a0: "\<And>j. j < 64 \<Longrightarrow> count_list (tw_assistant_wheel tw ! j) a = 0"
    using abs by (simp_all add: absent_def notin_set_count)
  note add = TimingWheel_AddTask_def TimingWheel_AddTask_at_def TimingWheel_Start_def Let_def
    live WORK_WHEEL_SIZE_def TimerBucket_AddTask_def
  consider (near) "?s < 512" | (wrapped) "?s \<ge> 512" "?s div 512 = 1" "?s mod 512 < ?c"
    | (far) "?s \<ge> 512" "\<not> (?s div 512 = 1 \<and> ?s mod 512 < ?c)" by linarith
  then show ?thesis
  proof cases
    case near
    then have "in_work ?tw a ?s"
      by (simp add: add in_work_def c nth_update_read w0 a0 notin_set_count)
    with near show ?thesis
      by (intro due_workI [OF AddTask_task [OF live]]) (simp_all add: AddTask_indices)
  next
    case wrapped
    define r where "r = ?s mod 512"
    have "r < 512" by (simp add: r_def)
    have "tw_work_wheel ?tw = (tw_work_wheel tw)[r := tw_work_wheel tw ! r @ [a]]"
      "tw_assistant_wheel ?tw = tw_assistant_wheel tw"
      using AddTask_far [OF live refl wrapped(1)] wrapped(2,3) unfolding r_def by simp_all
    then have "in_work ?tw a r"
      using \<open>r < 512\<close> by (simp add: in_work_def c nth_update_read w0 a0 notin_set_count)
    then have "in_work ?tw a (?s mod 512)" by (simp only: r_def)
    moreover have "?n < 512" using wrapped div_mult_mod_eq [of ?s 512] by linarith
    ultimately show ?thesis
      by (intro due_workI [OF AddTask_task [OF live]]) (simp_all add: AddTask_indices)
  next
    case far
    define j where "j = (tw_current_assistant_wheel_index tw + ?s div 512) mod 64"
    have "j < 64" by (simp add: j_def)
    have "tw_work_wheel ?tw = tw_work_wheel tw"
      "tw_assistant_wheel ?tw = (tw_assistant_wheel tw)[j := tw_assistant_wheel tw ! j @ [a]]"
      using AddTask_far [OF live refl far(1)]
      unfolding j_def Let_def if_not_P [OF far(2)] by simp_all
    then have "in_assistant ?tw a j"
      using \<open>j < 64\<close> by (simp add: in_assistant_def c nth_update_read w0 a0 notin_set_count)
    then have "in_assistant ?tw a ((tw_current_assistant_wheel_index tw + ?s div 512) mod 64)"
      by (simp only: j_def)
    moreover have "1 \<le> ?s div 512" "?s div 512 \<le> 64" using far(1) c n by linarith+
    ultimately show ?thesis using far(1)
      by (intro due_assistantI [OF AddTask_task [OF live], of _ ?s])
        (simp_all add: AddTask_indices)
  qed
qed

section \<open>Executions\<close>

lemma round_due_Suc_Suc:
  assumes "wheel_inv tw" and "due tw a (Suc (Suc n))"
  shows "a \<notin> set (fst (TickFunc_round tw)) \<and> due (snd (TickFunc_round tw)) a (Suc n)"
  unfolding TickFunc_round_def using assms by (intro Tick_due_Suc advance_inv advance_due)

lemma round_due_1:
  assumes "wheel_inv tw" and "due tw a (Suc 0)"
  shows "count_list (fst (TickFunc_round tw)) a = 1 \<and> absent (snd (TickFunc_round tw)) a"
  unfolding TickFunc_round_def using assms by (intro Tick_due_0 advance_inv advance_due)

lemma round_absent:
  assumes "wheel_inv tw" and "absent tw a"
  shows "a \<notin> set (fst (TickFunc_round tw)) \<and> absent (snd (TickFunc_round tw)) a"
  unfolding TickFunc_round_def using assms by (intro Tick_absent advance_inv advance_absent)

lemma round_inv: "wheel_inv tw \<Longrightarrow> wheel_inv (snd (TickFunc_round tw))"
  by (simp add: TickFunc_round_def Tick_inv advance_inv)

lemma wheel_run_absent:
  assumes "wheel_inv tw" and "absent tw a" and "Add a \<notin> set evs"
  shows "\<forall>posted \<in> set (fst (wheel_run evs tw)). a \<notin> set posted"
  using assms
proof (induction evs tw rule: wheel_run.induct)
  case (2 evs tw)
  obtain posted tw' where r: "TickFunc_round tw = (posted, tw')" by fastforce
  show ?case using "2.IH" [OF r [symmetric]] round_absent [OF "2.prems"(1,2)]
      round_inv [OF "2.prems"(1)] "2.prems"(3) r by (auto split: prod.split)
next
  case (3 b evs tw)
  then show ?case using AddTask_inv AddTask_other_absent by auto
qed simp

lemma wheel_run_due:
  assumes "wheel_inv tw" and "due tw a (Suc n)" and "Add a \<notin> set evs"
    and "i < length (fst (wheel_run evs tw))"
  shows "count_list (fst (wheel_run evs tw) ! i) a = (if i = n then 1 else 0)"
  using assms
proof (induction evs tw arbitrary: n i rule: wheel_run.induct)
  case (2 evs tw)
  obtain posted tw' where r: "TickFunc_round tw = (posted, tw')" by fastforce
  obtain fired tw'' where f: "wheel_run evs tw' = (fired, tw'')" by fastforce
  have run: "fst (wheel_run (Round # evs) tw) = posted # fired" by (simp add: r f)
  have inv: "wheel_inv tw'" using round_inv [OF "2.prems"(1)] r by simp
  have evs: "Add a \<notin> set evs" using "2.prems"(3) by simp
  show ?case
  proof (cases n)
    case 0
    then have "count_list posted a = 1" "absent tw' a"
      using round_due_1 [of tw a] "2.prems" r by auto
    moreover from this have "\<forall>p \<in> set fired. count_list p a = 0"
      using wheel_run_absent [OF inv _ evs] f by (simp add: notin_set_count)
    ultimately show ?thesis using 0 "2.prems"(4) unfolding run by (cases i) auto
  next
    case (Suc m)
    then have "count_list posted a = 0" "due tw' a (Suc m)"
      using round_due_Suc_Suc [of tw a m] "2.prems" r by (auto simp: notin_set_count)
    then show ?thesis
      using "2.IH" [OF r [symmetric] inv, of m] evs f Suc "2.prems"(4) unfolding run
      by (cases i) auto
  qed
next
  case (3 b evs tw)
  then show ?case using AddTask_inv AddTask_other_due by auto
qed simp

section \<open>Timer\<close>

text \<open>
  \<open>timer.cc\<close>. A timer owns the strong reference to its task: \<open>Stop\<close> drops it, which
  destroys the task at its address. The address is the timer's id, fresh per timer.
\<close>

record TimerOption =
  to_period :: nat
  to_oneshot :: bool

record Timer =
  ti_timer_id :: nat
  ti_timer_opt :: TimerOption
  ti_task :: "nat option"
  ti_started :: bool

definition Timer_ctor :: "nat \<Rightarrow> TimerOption \<Rightarrow> Timer" where
  "Timer_ctor timer_id opt =
     \<lparr>ti_timer_id = timer_id, ti_timer_opt = opt, ti_task = None, ti_started = False\<rparr>"

definition Timer_SetTimerOption :: "TimerOption \<Rightarrow> Timer \<Rightarrow> Timer" where
  "Timer_SetTimerOption opt t = t\<lparr>ti_timer_opt := opt\<rparr>"

definition Timer_InitTimerTask :: "Timer \<times> TimingWheel \<Rightarrow> bool \<times> Timer \<times> TimingWheel" where
  "Timer_InitTimerTask = (\<lambda>(t, tw).
     (if to_period (ti_timer_opt t) = 0 then (False, t, tw)
      else if to_period (ti_timer_opt t) \<ge> TIMER_MAX_INTERVAL_MS then (False, t, tw)
      else
        (let period = to_period (ti_timer_opt t);
             task = (TimerTask_ctor (ti_timer_id t))\<lparr>tt_interval_ms := period,
                      tt_next_fire_duration_ms := period\<rparr> in
         (True, t\<lparr>ti_task := Some (ti_timer_id t)\<rparr>,
          tw\<lparr>tw_tasks := (tw_tasks tw)(ti_timer_id t \<mapsto> task)\<rparr>))))"

definition Timer_Start :: "bool \<Rightarrow> Timer \<times> TimingWheel \<Rightarrow> Timer \<times> TimingWheel" where
  "Timer_Start is_reality_mode = (\<lambda>(t, tw).
     (if \<not> is_reality_mode then (t, tw)
      else if \<not> ti_started t then
        (case Timer_InitTimerTask (t\<lparr>ti_started := True\<rparr>, tw) of
           (True, t', tw') \<Rightarrow> (t', TimingWheel_AddTask (ti_timer_id t') tw')
         | (False, t', tw') \<Rightarrow> (t', tw'))
      else (t, tw)))"

definition Timer_Stop :: "Timer \<times> TimingWheel \<Rightarrow> Timer \<times> TimingWheel" where
  "Timer_Stop = (\<lambda>(t, tw).
     (if ti_started t \<and> ti_task t \<noteq> None
      then (t\<lparr>ti_started := False, ti_task := None\<rparr>,
            tw\<lparr>tw_tasks := (tw_tasks tw)(the (ti_task t) := None)\<rparr>)
      else (t\<lparr>ti_started := False\<rparr>, tw)))"

text \<open>
  The callback of a periodic task: run, measure, and reschedule. \<open>u64\<close> and \<open>s64\<close> are the
  conversions to 64-bit unsigned and signed; \<open>llround_ms\<close> is \<open>llround(x / 1e6)\<close>, half away
  from zero. The clock readings \<open>start\<close> and \<open>end\<close> around the user's callback are inputs.
\<close>

definition u64 :: "int \<Rightarrow> int" where
  "u64 x = x mod 2 ^ 64"

definition s64 :: "int \<Rightarrow> int" where
  "s64 x = (x + 2 ^ 63) mod 2 ^ 64 - 2 ^ 63"

definition llround_ms :: "int \<Rightarrow> int" where
  "llround_ms x = (if 0 \<le> x then (x + 500000) div 1000000 else - ((- x + 500000) div 1000000))"

definition Timer_periodic_update :: "int \<Rightarrow> int \<Rightarrow> TimerTask \<Rightarrow> TimerTask" where
  "Timer_periodic_update start end task =
     (let execute_time_ns = u64 (end - start);
          execute_time_ms = llround_ms execute_time_ns;
          interval = int (tt_interval_ms task);
          task1 = (if tt_last_execute_time_ns task = 0
                   then task\<lparr>tt_last_execute_time_ns := nat start\<rparr>
                   else task\<lparr>tt_accumulated_error_ns := s64 (tt_accumulated_error_ns task +
                     (start - int (tt_last_execute_time_ns task) - interval * 1000000))\<rparr>);
          task2 = task1\<lparr>tt_last_execute_time_ns := nat start\<rparr> in
      if execute_time_ms \<ge> interval
      then task2\<lparr>tt_next_fire_duration_ms := TIMER_RESOLUTION_MS\<rparr>
      else
        (let accumulated_error_ms = llround_ms (tt_accumulated_error_ns task2) in
         if s64 (interval - execute_time_ms - int TIMER_RESOLUTION_MS) \<ge> accumulated_error_ms
         then task2\<lparr>tt_next_fire_duration_ms :=
                nat (u64 (interval - execute_time_ms - accumulated_error_ms))\<rparr>
         else task2\<lparr>tt_next_fire_duration_ms := TIMER_RESOLUTION_MS\<rparr>))"

definition Timer_periodic_callback ::
    "int \<Rightarrow> int \<Rightarrow> nat \<Rightarrow> TimingWheel \<Rightarrow> bool \<times> TimingWheel" where
  "Timer_periodic_callback start end a tw =
     (case tw_tasks tw a of
        None \<Rightarrow> (False, tw)
      | Some task \<Rightarrow>
          (True, TimingWheel_AddTask a
             (tw\<lparr>tw_tasks := (tw_tasks tw)(a \<mapsto> Timer_periodic_update start end task)\<rparr>)))"

definition Timer_oneshot_callback :: "nat \<Rightarrow> TimingWheel \<Rightarrow> bool" where
  "Timer_oneshot_callback a tw \<longleftrightarrow> tw_tasks tw a \<noteq> None"

lemma s64_small: "- (2 ^ 63) \<le> x \<Longrightarrow> x < 2 ^ 63 \<Longrightarrow> s64 x = x"
  by (simp add: s64_def)

lemma u64_small: "0 \<le> x \<Longrightarrow> x < 2 ^ 64 \<Longrightarrow> u64 x = x"
  by (simp add: u64_def)

lemma s64_range: "- (2 ^ 63) \<le> s64 x \<and> s64 x < 2 ^ 63"
proof -
  have "0 \<le> (x + 2 ^ 63) mod 2 ^ 64" "(x + 2 ^ 63) mod 2 ^ 64 < 2 ^ 64"
    by (simp_all add: pos_mod_bound)
  then show ?thesis by (simp add: s64_def)
qed

lemma llround_ms_ge0: "0 \<le> x \<Longrightarrow> 0 \<le> llround_ms x"
  by (simp add: llround_ms_def)

lemma llround_ms_lower: "- (2 ^ 63) \<le> x \<Longrightarrow> - (2 ^ 62) \<le> llround_ms x"
  using zdiv_mono1 [of "- x + 500000" "2 ^ 63 + 500000" 1000000]
    llround_ms_ge0 [of x] by (cases "0 \<le> x") (simp_all add: llround_ms_def)

text \<open>The task a destroyed timer leaves behind is never posted again.\<close>

lemma AddTask_dead: "tw_tasks tw a = None \<Longrightarrow> tw_tasks (TimingWheel_AddTask b tw) a = None"
  by (auto simp: TimingWheel_AddTask_def TimingWheel_AddTask_at_def TimingWheel_Start_def Let_def
      split: option.split)

lemma wheel_run_dead:
  assumes "tw_tasks tw a = None"
  shows "\<forall>posted \<in> set (fst (wheel_run evs tw)). a \<notin> set posted"
  using assms
proof (induction evs tw rule: wheel_run.induct)
  case (2 evs tw)
  obtain posted tw' where r: "TickFunc_round tw = (posted, tw')" by fastforce
  then have "a \<notin> set posted" "tw_tasks tw' a = None"
    using "2.prems" by (auto simp: TickFunc_round_def Tick_eq)
  with "2.IH" [OF r [symmetric]] r show ?case by (auto split: prod.split)
next
  case (3 b evs tw)
  then show ?case using AddTask_dead by auto
qed simp

lemma periodic_update_next_fire:
  assumes "tt_interval_ms task < 2 ^ 32"
    and "- (2 ^ 63) \<le> tt_accumulated_error_ns task" "tt_accumulated_error_ns task < 2 ^ 63"
  shows "2 \<le> tt_next_fire_duration_ms (Timer_periodic_update start end task)"
proof -
  let ?I = "int (tt_interval_ms task)" and ?E = "llround_ms (u64 (end - start))"
  have E: "0 \<le> ?E" by (simp add: llround_ms_ge0 u64_def)
  have ok: "2 \<le> nat (u64 (?I - ?E - llround_ms x))"
    if "\<not> ?I \<le> ?E" "llround_ms x \<le> s64 (?I - ?E - 2)" "- (2 ^ 63) \<le> x" for x
  proof -
    have "s64 (?I - ?E - 2) = ?I - ?E - 2"
      using that(1) E assms(1) by (intro s64_small) auto
    moreover have "- (2 ^ 62) \<le> llround_ms x" by (rule llround_ms_lower) fact
    ultimately have "2 \<le> ?I - ?E - llround_ms x" "?I - ?E - llround_ms x < 2 ^ 64"
      using that(2) E assms(1) by auto
    then show ?thesis by (simp add: u64_small)
  qed
  show ?thesis
    using ok assms(2) s64_range
    by (auto simp: Timer_periodic_update_def Let_def TIMER_RESOLUTION_MS_def)
qed

section \<open>Properties\<close>



text \<open>
  Starting a timer whose period the code accepts (0 < period < 65536 ms) schedules
  its task so that the first call happens in exactly the \<open>\<lceil>period / 2\<rceil>\<close>-th round; a period
  of zero or of at least 65536 ms leaves the wheel untouched.
\<close>

theorem Timer_Start_schedules:
  assumes "wheel_inv tw" and "absent tw (ti_timer_id t)" and "\<not> ti_started t"
    and "Timer_Start True (t, tw) = (t', tw')"
  shows "if 0 < to_period (ti_timer_opt t) \<and> to_period (ti_timer_opt t) < 65536
    then \<forall>evs i. Add (ti_timer_id t) \<notin> set evs \<longrightarrow> i < length (fst (wheel_run evs tw')) \<longrightarrow>
      count_list (fst (wheel_run evs tw') ! i) (ti_timer_id t) =
        (if i + 1 = (to_period (ti_timer_opt t) + 1) div 2 then 1 else 0)
    else tw' = tw \<and> ti_task t' = ti_task t"
proof -
  let ?a = "ti_timer_id t" and ?p = "to_period (ti_timer_opt t)"
  let ?task = "(TimerTask_ctor ?a)\<lparr>tt_interval_ms := ?p, tt_next_fire_duration_ms := ?p\<rparr>"
  let ?tw = "tw\<lparr>tw_tasks := (tw_tasks tw)(?a \<mapsto> ?task)\<rparr>"
  have max: "TIMER_MAX_INTERVAL_MS = 65536"
    by (simp add: TIMER_MAX_INTERVAL_MS_def WORK_WHEEL_SIZE_def ASSISTANT_WHEEL_SIZE_def
        TIMER_RESOLUTION_MS_def)
  show ?thesis
  proof (cases "0 < ?p \<and> ?p < 65536")
    case True
    then have tw': "tw' = TimingWheel_AddTask ?a ?tw"
      using assms(3,4) by (simp add: Timer_Start_def Timer_InitTimerTask_def max Let_def)
    have n: "fire_ticks ?task = Suc ((?p + 1) div 2 - 1)" "fire_ticks ?task \<le> 32768"
      using True by (auto simp: fire_ticks_eq)
    have inv: "wheel_inv ?tw" "absent ?tw ?a" using assms(1,2) by (auto simp: cyber_inv absent_def)
    have "due tw' ?a (fire_ticks ?task)"
      unfolding tw' using n by (intro AddTask_due inv) auto
    then have "due tw' ?a (Suc ((?p + 1) div 2 - 1))" by (simp only: n(1))
    from wheel_run_due [OF _ this] AddTask_inv [OF inv(1), of ?a] True show ?thesis
      by (auto simp: tw')
  next
    case False
    then show ?thesis
      using assms(3,4) by (auto simp: Timer_Start_def Timer_InitTimerTask_def max)
  qed
qed

theorem Timer_Start_schedules_witness:
  "count_list (fst (wheel_run [Round] (snd (Timer_Start True
     (Timer_ctor 3 \<lparr>to_period = 2, to_oneshot = True\<rparr>, TimingWheel_ctor)))) ! 0) 3 = 1"
proof -
  let ?t = "Timer_ctor 3 \<lparr>to_period = 2, to_oneshot = True\<rparr>"
  have "wheel_inv TimingWheel_ctor"
    by (simp add: cyber_inv TimingWheel_ctor_def WORK_WHEEL_SIZE_def ASSISTANT_WHEEL_SIZE_def)
  moreover have "absent TimingWheel_ctor (ti_timer_id ?t)"
    by (simp add: absent_def TimingWheel_ctor_def WORK_WHEEL_SIZE_def ASSISTANT_WHEEL_SIZE_def)
  moreover have "\<not> ti_started ?t" by (simp add: Timer_ctor_def)
  ultimately have "\<forall>evs i. Add 3 \<notin> set evs \<longrightarrow>
      i < length (fst (wheel_run evs (snd (Timer_Start True (?t, TimingWheel_ctor))))) \<longrightarrow>
      count_list (fst (wheel_run evs (snd (Timer_Start True (?t, TimingWheel_ctor)))) ! i) 3 =
        (if i + 1 = 1 then 1 else 0)"
    using Timer_Start_schedules [of TimingWheel_ctor ?t, OF _ _ _ surjective_pairing]
    by (simp add: Timer_ctor_def)
  from this [rule_format, of "[Round]" 0] show ?thesis
    by (simp split: prod.split)
qed

text \<open>
  A stopped timer is silent: once \<open>Stop\<close> has dropped the task, no later round posts it,
  even when its address is still in a bucket, and even when a pending callback re-adds it.
\<close>

theorem stopped_timer_never_fires:
  assumes "ti_task t = Some a" and "ti_started t" and "Timer_Stop (t, tw) = (t', tw')"
    and "posted \<in> set (fst (wheel_run evs tw'))"
  shows "a \<notin> set posted"
proof -
  have "tw_tasks tw' a = None" using assms(1-3) by (auto simp: Timer_Stop_def)
  then show ?thesis using wheel_run_dead assms(4) by blast
qed

theorem stopped_timer_never_fires_witness:
  "3 \<notin> set (fst (wheel_run [Round] (snd (Timer_Stop (Timer_Start True
     (Timer_ctor 3 \<lparr>to_period = 2, to_oneshot = True\<rparr>, TimingWheel_ctor))))) ! 0)"
proof -
  define p where "p = Timer_Start True
     (Timer_ctor 3 \<lparr>to_period = 2, to_oneshot = True\<rparr>, TimingWheel_ctor)"
  have "ti_task (fst p) = Some 3" "ti_started (fst p)"
    by (simp_all add: p_def Timer_Start_def Timer_ctor_def Timer_InitTimerTask_def Let_def
        TIMER_MAX_INTERVAL_MS_def WORK_WHEEL_SIZE_def ASSISTANT_WHEEL_SIZE_def
        TIMER_RESOLUTION_MS_def)
  moreover have "Timer_Stop (fst p, snd p) = (fst (Timer_Stop p), snd (Timer_Stop p))" by simp
  moreover have "fst (wheel_run [Round] (snd (Timer_Stop p))) ! 0
      \<in> set (fst (wheel_run [Round] (snd (Timer_Stop p))))"
    by (simp split: prod.split)
  ultimately show ?thesis
    unfolding p_def by (rule stopped_timer_never_fires)
qed

text \<open>
  However long the user's callback ran and however large the accumulated error is, in
  either direction, a periodic task that reschedules itself asks for at least one resolution
  step (2 ms): it can never land in the bucket being fired, which would delay it by a whole
  turn of the wheel.
\<close>

theorem periodic_reschedule_ge_resolution:
  assumes "tt_interval_ms task < 2 ^ 32"
    and "- (2 ^ 63) \<le> tt_accumulated_error_ns task" and "tt_accumulated_error_ns task < 2 ^ 63"
  shows "TIMER_RESOLUTION_MS \<le> tt_next_fire_duration_ms (Timer_periodic_update start end task) \<and>
    1 \<le> fire_ticks (Timer_periodic_update start end task)"
  using periodic_update_next_fire [OF assms, of start "end"]
  by (simp add: fire_ticks_eq TIMER_RESOLUTION_MS_def)

theorem periodic_reschedule_ge_resolution_witness:
  "TIMER_RESOLUTION_MS \<le> tt_next_fire_duration_ms
     (Timer_periodic_update 5000000 4000000 ((TimerTask_ctor 1)\<lparr>tt_interval_ms := 10\<rparr>))"
  using periodic_reschedule_ge_resolution [of "(TimerTask_ctor 1)\<lparr>tt_interval_ms := 10\<rparr>"]
  by (simp add: TimerTask_ctor_def)

end
