(* ===== verification/Infer_Machine.thy ===== *)
theory Infer_Machine
  imports Prelude
begin

text \<open>
  \<open>modules/cambrian/brain/infer_machine.{h,cc}\<close> and \<open>implement_hub.cc\<close>: the state machine
  that turns user commands and chassis events into the robot's mode and status, and hands each
  new job to the business logic. The three virtual functions of \<open>InferMachine\<close> are those of
  \<open>ImplementHub\<close>, its only subclass. The calls that leave the component are observed in two
  logs: \<open>im_jobs\<close> (the arguments of every \<open>ExecRobotWork\<close>) and \<open>im_syncs\<close> (how often
  \<open>SyncLocalStat\<close> asked for a status broadcast). Debug output is left out, the functions that
  build its strings are modelled.
\<close>

section \<open>Enumerations of \<open>cambrian_data.proto\<close>\<close>

datatype EE_CONTROL_TYPE =
    E_CTRL_TYPE_SENTINEL | E_CTRL_TYPE_START | E_CTRL_TYPE_PROCESS | E_CTRL_TYPE_PAUSE
  | E_CTRL_TYPE_RESUME | E_CTRL_TYPE_RESTART | E_CTRL_TYPE_QUERY | E_CTRL_TYPE_FINISH
  | E_CTRL_TYPE_NONE

datatype EE_CMD_FROM_WHO =
    E_CMD_FROM_SENTINEL | E_CMD_FROM_IOT | E_CMD_FROM_RSV | E_CMD_FROM_KEY | E_CMD_FROM_H5
  | E_CMD_FROM_LOGIC | E_CMD_FROM_SIMKEY | E_CMD_FROM_NULL

datatype EE_ACT_KEY_TYPE = E_KEY_SENTINEL | E_KEY_POWER | E_KEY_DOCK | E_KEY_ACT_NULL

datatype EE_CLEAN_MODE =
    E_CLEAN_SENTINEL | E_CLEAN_GLOBAL | E_CLEAN_AREA | E_CLEAN_ROOM | E_CLEAN_POINT
  | E_CLEAN_REMOTE | E_CLEAN_LOCAL | E_CLEAN_TRACK | E_CLEAN_EDGEWISE

datatype EE_ROBOT_STATUS =
    E_STATUS_SENTINEL | E_STATUS_NOWORK | E_STATUS_PAUSING | E_STATUS_WORKING
  | E_STATUS_STOPWORK | E_STATUS_NULL

datatype EE_ROBOT_MODE =
    E_MODE_SENTINEL | E_MODE_AUTO_CLEAN | E_MODE_AREA_CLEAN | E_MODE_ROOM_CLEAN
  | E_MODE_POINT_CLEAN | E_MODE_REMOTE_CLEAN | E_MODE_LOCAL_CLEAN | E_MODE_TRACK_CLEAN
  | E_MODE_STAND_BY | E_MODE_DOCKING | E_MODE_CHARGING | E_MODE_CHARGE_END | E_MODE_IN_FAULT
  | E_MODE_DORMANT | E_MODE_ALONG_WALL | E_MODE_SWIFT_MAP | E_MODE_RELOCATION | E_MODE_NULL

text \<open>The wire numbers, used where the code prints an enumerator or casts an integer.\<close>

primrec ctrl_num :: "EE_CONTROL_TYPE \<Rightarrow> nat" where
  "ctrl_num E_CTRL_TYPE_SENTINEL = 0" | "ctrl_num E_CTRL_TYPE_START = 1"
| "ctrl_num E_CTRL_TYPE_PROCESS = 2" | "ctrl_num E_CTRL_TYPE_PAUSE = 3"
| "ctrl_num E_CTRL_TYPE_RESUME = 4" | "ctrl_num E_CTRL_TYPE_RESTART = 5"
| "ctrl_num E_CTRL_TYPE_QUERY = 6" | "ctrl_num E_CTRL_TYPE_FINISH = 7"
| "ctrl_num E_CTRL_TYPE_NONE = 8"

primrec who_num :: "EE_CMD_FROM_WHO \<Rightarrow> nat" where
  "who_num E_CMD_FROM_SENTINEL = 0" | "who_num E_CMD_FROM_IOT = 1" | "who_num E_CMD_FROM_RSV = 2"
| "who_num E_CMD_FROM_KEY = 3" | "who_num E_CMD_FROM_H5 = 4" | "who_num E_CMD_FROM_LOGIC = 5"
| "who_num E_CMD_FROM_SIMKEY = 6" | "who_num E_CMD_FROM_NULL = 7"

primrec key_num :: "EE_ACT_KEY_TYPE \<Rightarrow> nat" where
  "key_num E_KEY_SENTINEL = 0" | "key_num E_KEY_POWER = 1" | "key_num E_KEY_DOCK = 4"
| "key_num E_KEY_ACT_NULL = 8"

definition robot_statuses :: "EE_ROBOT_STATUS list" where
  "robot_statuses = [E_STATUS_SENTINEL, E_STATUS_NOWORK, E_STATUS_PAUSING, E_STATUS_WORKING,
     E_STATUS_STOPWORK, E_STATUS_NULL]"

definition robot_modes :: "EE_ROBOT_MODE list" where
  "robot_modes = [E_MODE_SENTINEL, E_MODE_AUTO_CLEAN, E_MODE_AREA_CLEAN, E_MODE_ROOM_CLEAN,
     E_MODE_POINT_CLEAN, E_MODE_REMOTE_CLEAN, E_MODE_LOCAL_CLEAN, E_MODE_TRACK_CLEAN,
     E_MODE_STAND_BY, E_MODE_DOCKING, E_MODE_CHARGING, E_MODE_CHARGE_END, E_MODE_IN_FAULT,
     E_MODE_DORMANT, E_MODE_ALONG_WALL, E_MODE_SWIFT_MAP, E_MODE_RELOCATION, E_MODE_NULL]"

text \<open>The cast of an \<open>int\<close>: a number without an enumerator goes to the \<open>default\<close> branch.\<close>

definition status_of_int :: "int \<Rightarrow> EE_ROBOT_STATUS option" where
  "status_of_int i = (if 0 \<le> i \<and> nat i < length robot_statuses
     then Some (robot_statuses ! nat i) else None)"

definition mode_of_int :: "int \<Rightarrow> EE_ROBOT_MODE option" where
  "mode_of_int i = (if 0 \<le> i \<and> nat i < length robot_modes
     then Some (robot_modes ! nat i) else None)"

section \<open>State\<close>

record RobotModeStatus =
  ms_status :: EE_ROBOT_STATUS
  ms_mode :: EE_ROBOT_MODE
  ms_error :: int
  ms_battery :: int
  ms_fan :: int
  ms_flow :: int
  ms_boost :: bool
  ms_exec :: bool
  ms_mission_new :: bool

record InferMachine =
  im_status :: EE_ROBOT_STATUS
  im_status_pending :: bool
  im_last_status :: EE_ROBOT_STATUS
  im_mode :: EE_ROBOT_MODE
  im_mode_pending :: bool
  im_last_mode :: EE_ROBOT_MODE
  im_work_mode :: EE_CLEAN_MODE
  im_error :: int
  im_battery :: int
  im_fan :: int
  im_flow :: int
  im_boost :: bool
  im_exec :: bool
  im_job_new :: bool
  im_full :: bool
  im_sm_mode_stat :: RobotModeStatus
  im_jobs :: "(EE_ROBOT_MODE \<times> EE_ROBOT_STATUS \<times> bool) list"
  im_syncs :: nat

text \<open>\<open>work_mode_\<close> has no initialiser: its first value is a parameter. \<open>E_ERR_NONE\<close> is 0.\<close>

definition InferMachine_ctor :: "EE_CLEAN_MODE \<Rightarrow> InferMachine" where
  "InferMachine_ctor uninit =
     \<lparr>im_status = E_STATUS_NULL, im_status_pending = True, im_last_status = E_STATUS_NULL,
      im_mode = E_MODE_NULL, im_mode_pending = True, im_last_mode = E_MODE_NULL,
      im_work_mode = uninit, im_error = 0, im_battery = -1, im_fan = -1, im_flow = -1,
      im_boost = False, im_exec = False, im_job_new = False, im_full = False,
      im_sm_mode_stat = \<lparr>ms_status = E_STATUS_SENTINEL, ms_mode = E_MODE_SENTINEL, ms_error = 0,
        ms_battery = 0, ms_fan = 0, ms_flow = 0, ms_boost = False, ms_exec = False,
        ms_mission_new = False\<rparr>,
      im_jobs = [], im_syncs = 0\<rparr>"

definition InferMachine_Init :: "InferMachine \<Rightarrow> InferMachine" where
  "InferMachine_Init im =
     im\<lparr>im_last_status := im_status im, im_last_mode := im_mode im,
        im_status := E_STATUS_NOWORK, im_status_pending := False,
        im_mode := E_MODE_STAND_BY, im_mode_pending := False\<rparr>"

definition IsNeedExecJob :: "InferMachine \<Rightarrow> bool" where
  "IsNeedExecJob im = ms_exec (im_sm_mode_stat im)"

definition IsNewJob :: "InferMachine \<Rightarrow> bool" where
  "IsNewJob im = ms_mission_new (im_sm_mode_stat im)"

definition RestoreJobState :: "InferMachine \<Rightarrow> InferMachine" where
  "RestoreJobState im =
     im\<lparr>im_exec := False, im_job_new := False,
        im_sm_mode_stat := (im_sm_mode_stat im)\<lparr>ms_exec := False, ms_mission_new := False\<rparr>\<rparr>"

text \<open>\<open>ImplementHub::InferPlanWorkingFlow\<close>.\<close>

definition InferPlanWorkingFlow :: "InferMachine \<Rightarrow> InferMachine" where
  "InferPlanWorkingFlow im =
     (let im1 = (if IsNeedExecJob im
                 then im\<lparr>im_jobs := im_jobs im @ [(im_mode im, im_status im, IsNewJob im)]\<rparr>
                 else im);
          im2 = RestoreJobState im1 in
      im2\<lparr>im_syncs := im_syncs im2 + 1\<rparr>)"

text \<open>\<open>ImplementHub::InferUpdateMultiZones\<close> and \<open>InferQueryInfos\<close> only log.\<close>

definition InferUpdateMultiZones :: "InferMachine \<Rightarrow> InferMachine" where
  "InferUpdateMultiZones im = im"

definition InferQueryInfos :: "InferMachine \<Rightarrow> InferMachine" where
  "InferQueryInfos im = im"

definition UpdataInferMachine :: "InferMachine \<Rightarrow> InferMachine" where
  "UpdataInferMachine im =
     InferPlanWorkingFlow
       (im\<lparr>im_sm_mode_stat :=
          \<lparr>ms_status = im_status im, ms_mode = im_mode im, ms_error = im_error im,
           ms_battery = im_battery im, ms_fan = im_fan im, ms_flow = im_flow im,
           ms_boost = im_boost im, ms_exec = im_exec im, ms_mission_new = im_job_new im\<rparr>\<rparr>)"

definition InferMachine_Start :: "InferMachine \<Rightarrow> InferMachine" where
  "InferMachine_Start im = UpdataInferMachine (InferQueryInfos im)"

definition IsPending :: "InferMachine \<Rightarrow> bool" where
  "IsPending im \<longleftrightarrow> im_status_pending im \<or> im_mode_pending im"

definition FixModeStatus :: "InferMachine \<Rightarrow> InferMachine" where
  "FixModeStatus im =
     (if \<not> im_status_pending im \<and> im_mode_pending im then im
      else im\<lparr>im_status := E_STATUS_NOWORK, im_mode := E_MODE_STAND_BY,
              im_status_pending := False, im_mode_pending := False\<rparr>)"

definition RobotModeDeduction ::
    "EE_ACT_KEY_TYPE \<Rightarrow> EE_CLEAN_MODE \<Rightarrow> InferMachine \<Rightarrow> EE_ROBOT_MODE" where
  "RobotModeDeduction act mode im =
     (if act = E_KEY_POWER then
        (case mode of
           E_CLEAN_GLOBAL \<Rightarrow> E_MODE_AUTO_CLEAN
         | E_CLEAN_AREA \<Rightarrow> E_MODE_AREA_CLEAN
         | E_CLEAN_ROOM \<Rightarrow> E_MODE_ROOM_CLEAN
         | E_CLEAN_POINT \<Rightarrow> E_MODE_POINT_CLEAN
         | E_CLEAN_REMOTE \<Rightarrow> E_MODE_REMOTE_CLEAN
         | E_CLEAN_LOCAL \<Rightarrow> E_MODE_LOCAL_CLEAN
         | E_CLEAN_TRACK \<Rightarrow> E_MODE_TRACK_CLEAN
         | E_CLEAN_EDGEWISE \<Rightarrow> E_MODE_ALONG_WALL
         | E_CLEAN_SENTINEL \<Rightarrow> im_mode im)
      else if act = E_KEY_DOCK then E_MODE_DOCKING
      else E_MODE_NULL)"

section \<open>The core: \<open>DriveRobotWorking\<close>\<close>

text \<open>
  Each \<open>case\<close> of the switch either returns \<open>false\<close> (\<open>Return\<close>) or breaks (\<open>Break\<close>), after
  which the machine publishes its state and returns \<open>true\<close>.
\<close>

datatype control_flow = Return InferMachine | Break InferMachine

definition im_transit ::
    "EE_ROBOT_STATUS \<Rightarrow> EE_ROBOT_STATUS \<Rightarrow> EE_ROBOT_MODE \<Rightarrow> InferMachine \<Rightarrow> InferMachine" where
  "im_transit last_status status mode im =
     im\<lparr>im_last_status := last_status, im_last_mode := im_mode im,
        im_status := status, im_mode := mode, im_exec := True\<rparr>"

definition Drive_START :: "EE_ACT_KEY_TYPE \<Rightarrow> EE_CLEAN_MODE \<Rightarrow> InferMachine \<Rightarrow> control_flow" where
  "Drive_START act mode im =
     (let deduced = RobotModeDeduction act mode im in
      case im_status im of
        E_STATUS_NOWORK \<Rightarrow>
          Break ((im_transit E_STATUS_NOWORK E_STATUS_WORKING deduced im)\<lparr>im_job_new := True\<rparr>)
      | E_STATUS_PAUSING \<Rightarrow>
          if deduced = im_mode im then Return im
          else Break ((im_transit E_STATUS_PAUSING E_STATUS_WORKING deduced im)\<lparr>im_job_new := True\<rparr>)
      | E_STATUS_WORKING \<Rightarrow>
          if deduced = im_mode im then Return im
          else Break ((im_transit E_STATUS_WORKING E_STATUS_WORKING deduced im)\<lparr>im_job_new := True\<rparr>)
      | E_STATUS_STOPWORK \<Rightarrow>
          Break ((im_transit E_STATUS_STOPWORK E_STATUS_WORKING deduced im)\<lparr>im_job_new := True\<rparr>)
      | _ \<Rightarrow> Break im)"

definition Drive_PAUSE :: "EE_ACT_KEY_TYPE \<Rightarrow> EE_CLEAN_MODE \<Rightarrow> InferMachine \<Rightarrow> control_flow" where
  "Drive_PAUSE act mode im =
     (case im_status im of
        E_STATUS_NOWORK \<Rightarrow> Return im
      | E_STATUS_PAUSING \<Rightarrow> Return im
      | E_STATUS_WORKING \<Rightarrow>
          if RobotModeDeduction act mode im \<noteq> im_mode im then Return im
          else Break (im_transit E_STATUS_WORKING E_STATUS_PAUSING
                        (RobotModeDeduction act mode im) im)
      | E_STATUS_STOPWORK \<Rightarrow> Return im
      | _ \<Rightarrow> Break im)"

definition Drive_RESUME :: "EE_ACT_KEY_TYPE \<Rightarrow> EE_CLEAN_MODE \<Rightarrow> InferMachine \<Rightarrow> control_flow" where
  "Drive_RESUME act mode im =
     (case im_status im of
        E_STATUS_NOWORK \<Rightarrow> Return im
      | E_STATUS_PAUSING \<Rightarrow>
          if RobotModeDeduction act mode im \<noteq> im_mode im then Break im
          else Break (im_transit E_STATUS_PAUSING E_STATUS_WORKING
                        (RobotModeDeduction act mode im) im)
      | E_STATUS_WORKING \<Rightarrow> Return im
      | E_STATUS_STOPWORK \<Rightarrow> Return im
      | _ \<Rightarrow> Break im)"

definition Drive_FINISH :: "InferMachine \<Rightarrow> control_flow" where
  "Drive_FINISH im =
     (case im_status im of
        E_STATUS_NOWORK \<Rightarrow> Return im
      | E_STATUS_PAUSING \<Rightarrow>
          Break (im_transit E_STATUS_PAUSING E_STATUS_STOPWORK E_MODE_STAND_BY im)
      | E_STATUS_WORKING \<Rightarrow>
          Break (im_transit E_STATUS_WORKING E_STATUS_STOPWORK E_MODE_STAND_BY im)
      | E_STATUS_STOPWORK \<Rightarrow> Return im
      | _ \<Rightarrow> Break im)"

definition Drive_default :: "InferMachine \<Rightarrow> control_flow" where
  "Drive_default im = Return (im\<lparr>im_status_pending := True, im_mode_pending := True\<rparr>)"

text \<open>\<open>RESTART\<close> has no \<open>break\<close>: a status outside the four falls through to \<open>default\<close>.\<close>

definition Drive_RESTART :: "InferMachine \<Rightarrow> control_flow" where
  "Drive_RESTART im =
     (if im_status im \<in> {E_STATUS_NOWORK, E_STATUS_PAUSING, E_STATUS_WORKING, E_STATUS_STOPWORK}
      then Return im else Drive_default im)"

definition DriveRobotWorking ::
    "EE_CONTROL_TYPE \<Rightarrow> EE_ACT_KEY_TYPE \<Rightarrow> EE_CLEAN_MODE \<Rightarrow> EE_CMD_FROM_WHO \<Rightarrow> InferMachine \<Rightarrow>
       bool \<times> InferMachine" where
  "DriveRobotWorking ctrl o_act mode who im0 =
     (let im1 = (if IsPending im0 then FixModeStatus im0 else im0);
          act = (if o_act \<noteq> E_KEY_POWER \<or> o_act \<noteq> E_KEY_DOCK then E_KEY_POWER else o_act);
          im = im1\<lparr>im_work_mode := mode\<rparr>;
          r = (case ctrl of
                 E_CTRL_TYPE_START \<Rightarrow> Drive_START act mode im
               | E_CTRL_TYPE_PAUSE \<Rightarrow> Drive_PAUSE act mode im
               | E_CTRL_TYPE_RESUME \<Rightarrow> Drive_RESUME act mode im
               | E_CTRL_TYPE_FINISH \<Rightarrow> Drive_FINISH im
               | E_CTRL_TYPE_RESTART \<Rightarrow> Drive_RESTART im
               | _ \<Rightarrow> Drive_default im) in
      case r of
        Return im' \<Rightarrow> (False, im')
      | Break im' \<Rightarrow> (True, UpdataInferMachine im'))"

record MissionCommand =
  mc_cmd :: EE_CONTROL_TYPE
  mc_key :: EE_ACT_KEY_TYPE
  mc_mode :: EE_CLEAN_MODE
  mc_user :: EE_CMD_FROM_WHO
  mc_has_mzp :: bool

definition DriveRobotWorking_mission :: "MissionCommand \<Rightarrow> InferMachine \<Rightarrow> bool \<times> InferMachine" where
  "DriveRobotWorking_mission mc im =
     (if \<not> mc_has_mzp mc then (False, im)
      else DriveRobotWorking (mc_cmd mc) (mc_key mc) (mc_mode mc) (mc_user mc)
             (InferUpdateMultiZones im))"

text \<open>The \<open>return 0\<close> of a \<open>bool\<close> function is \<open>false\<close>.\<close>

definition DriveRobotShiftWork :: "EE_CONTROL_TYPE \<Rightarrow> InferMachine \<Rightarrow> bool \<times> InferMachine" where
  "DriveRobotShiftWork ctrl im =
     (False, InferPlanWorkingFlow
        (snd (DriveRobotWorking ctrl E_KEY_ACT_NULL (im_work_mode im) E_CMD_FROM_LOGIC im)))"

section \<open>Events\<close>

definition PushPowerKey :: "EE_CMD_FROM_WHO \<Rightarrow> InferMachine \<Rightarrow> InferMachine" where
  "PushPowerKey who im = snd (DriveRobotWorking E_CTRL_TYPE_START E_KEY_POWER E_CLEAN_GLOBAL who im)"

definition PushPowerKeyLong :: "EE_CMD_FROM_WHO \<Rightarrow> InferMachine \<Rightarrow> InferMachine" where
  "PushPowerKeyLong who im = snd (DriveRobotWorking E_CTRL_TYPE_START E_KEY_DOCK E_CLEAN_GLOBAL who im)"

definition PushHomeKey :: "EE_CMD_FROM_WHO \<Rightarrow> InferMachine \<Rightarrow> InferMachine" where
  "PushHomeKey who im = snd (DriveRobotWorking E_CTRL_TYPE_START E_KEY_DOCK E_CLEAN_GLOBAL who im)"

definition PushHomeKeyLong :: "EE_CMD_FROM_WHO \<Rightarrow> InferMachine \<Rightarrow> InferMachine" where
  "PushHomeKeyLong who im = snd (DriveRobotWorking E_CTRL_TYPE_START E_KEY_DOCK E_CLEAN_GLOBAL who im)"

definition EventOnDock :: "bool \<Rightarrow> InferMachine \<Rightarrow> InferMachine" where
  "EventOnDock dock im =
     (let im1 = im\<lparr>im_last_status := im_status im, im_last_mode := im_mode im\<rparr>;
          im2 = (if dock
                 then im1\<lparr>im_status := E_STATUS_NOWORK,
                          im_mode := (if im_full im then E_MODE_CHARGE_END else E_MODE_CHARGING)\<rparr>
                 else im1\<lparr>im_status := E_STATUS_NOWORK, im_mode := E_MODE_STAND_BY\<rparr>) in
      UpdataInferMachine (im2\<lparr>im_exec := False, im_job_new := False\<rparr>))"

definition EventChargeFull :: "bool \<Rightarrow> InferMachine \<Rightarrow> InferMachine" where
  "EventChargeFull full im =
     (let im1 = im\<lparr>im_last_status := im_status im, im_last_mode := im_mode im\<rparr>;
          im2 = (if full
                 then im1\<lparr>im_full := True, im_status := E_STATUS_NOWORK, im_mode := E_MODE_CHARGE_END\<rparr>
                 else im1\<lparr>im_full := False,
                          im_mode := (if im_mode im1 = E_MODE_CHARGE_END then E_MODE_CHARGING
                                      else im_mode im1)\<rparr>) in
      UpdataInferMachine (im2\<lparr>im_exec := False, im_job_new := False\<rparr>))"

text \<open>Sensor updates store a \<open>uint32_t\<close> into an \<open>int16_t\<close>.\<close>

definition s16 :: "nat \<Rightarrow> int" where
  "s16 x = (int x + 2 ^ 15) mod 2 ^ 16 - 2 ^ 15"

definition UpdataBattery :: "nat \<Rightarrow> InferMachine \<Rightarrow> InferMachine" where
  "UpdataBattery bat im =
     InferPlanWorkingFlow (im\<lparr>im_battery := s16 bat,
       im_full := (if bat \<noteq> 100 then False else im_full im)\<rparr>)"

definition UpdataFan :: "nat \<Rightarrow> InferMachine \<Rightarrow> InferMachine" where
  "UpdataFan fan im = InferPlanWorkingFlow (im\<lparr>im_fan := s16 fan\<rparr>)"

definition UpdataFlow :: "nat \<Rightarrow> InferMachine \<Rightarrow> InferMachine" where
  "UpdataFlow flow im = InferPlanWorkingFlow (im\<lparr>im_flow := s16 flow\<rparr>)"

definition UpdataBoost :: "nat \<Rightarrow> InferMachine \<Rightarrow> InferMachine" where
  "UpdataBoost boost im = InferPlanWorkingFlow (im\<lparr>im_boost := (boost \<noteq> 0)\<rparr>)"

section \<open>Strings for the log\<close>

text \<open>
  \<open>GetDriveString\<close> keeps two accumulators, the string \<open>str\<close> and the stream \<open>os\<close>; the
  \<open>default\<close> branches append to the stream, whatever it already holds, and copy it to \<open>str\<close>.
\<close>

fun show_nat :: "nat \<Rightarrow> string" where
  "show_nat n = (if n < 10 then [char_of (48 + n)] else show_nat (n div 10) @ [char_of (48 + n mod 10)])"

declare show_nat.simps [simp del]

definition show_int :: "int \<Rightarrow> string" where
  "show_int i = (if i < 0 then ''-'' @ show_nat (nat (- i)) else show_nat (nat i))"

definition Drive_who :: "EE_CMD_FROM_WHO \<Rightarrow> string \<times> string \<Rightarrow> string \<times> string" where
  "Drive_who who = (\<lambda>(str, os).
     (case who of
        E_CMD_FROM_SENTINEL \<Rightarrow> (''Drive: { from: Nul? '', os)
      | E_CMD_FROM_IOT \<Rightarrow> (''Drive: { from: IOT, '', os)
      | E_CMD_FROM_RSV \<Rightarrow> (''Drive: { from: APPOINTMENT, '', os)
      | E_CMD_FROM_KEY \<Rightarrow> (''Drive: { from: KEY, '', os)
      | E_CMD_FROM_H5 \<Rightarrow> (''Drive: { from: WEB H5, '', os)
      | E_CMD_FROM_LOGIC \<Rightarrow> (''Drive: { from: Robot Logic, '', os)
      | E_CMD_FROM_SIMKEY \<Rightarrow> (''Drive: { from: Simulate Key, '', os)
      | _ \<Rightarrow> (let os' = os @ ''Drive: { from UNKNOWN('' @ show_nat (who_num who) @ ''), '' in
              (os', os'))))"

definition Drive_act :: "EE_ACT_KEY_TYPE \<Rightarrow> string \<times> string \<Rightarrow> string \<times> string" where
  "Drive_act act = (\<lambda>(str, os).
     (case act of
        E_KEY_SENTINEL \<Rightarrow> (str @ ''??: Nul? '', os)
      | E_KEY_POWER \<Rightarrow> (str @ ''key: power, '', os)
      | E_KEY_DOCK \<Rightarrow> (str @ ''key: dock, '', os)
      | _ \<Rightarrow> (let os' = os @ str @ ''key: unknown('' @ show_nat (key_num act) @ ''), '' in
              (os', os'))))"

definition Drive_ctrl :: "EE_CONTROL_TYPE \<Rightarrow> string \<times> string \<Rightarrow> string \<times> string" where
  "Drive_ctrl ctrl = (\<lambda>(str, os).
     (case ctrl of
        E_CTRL_TYPE_SENTINEL \<Rightarrow> (str @ ''L}'', os)
      | E_CTRL_TYPE_START \<Rightarrow> (str @ ''control: start }'', os)
      | E_CTRL_TYPE_PAUSE \<Rightarrow> (str @ ''control: pause }'', os)
      | E_CTRL_TYPE_RESUME \<Rightarrow> (str @ ''control: continue }'', os)
      | E_CTRL_TYPE_FINISH \<Rightarrow> (str @ ''control: terminate }'', os)
      | E_CTRL_TYPE_RESTART \<Rightarrow> (str @ ''control: restart-TODO }'', os)
      | _ \<Rightarrow> (let os' = os @ str @ ''control unknown('' @ show_nat (ctrl_num ctrl) @ '') }'' in
              (os', os'))))"

definition GetDriveString :: "EE_CMD_FROM_WHO \<Rightarrow> EE_ACT_KEY_TYPE \<Rightarrow> EE_CONTROL_TYPE \<Rightarrow> string" where
  "GetDriveString who act ctrl = fst (Drive_ctrl ctrl (Drive_act act (Drive_who who ([], []))))"

definition pending_mark :: "InferMachine \<Rightarrow> string" where
  "pending_mark im = (if im_status_pending im then '':P'' else '':S'')"

definition GetStatString :: "int \<Rightarrow> InferMachine \<Rightarrow> string" where
  "GetStatString stat im =
     (case (if stat = -1 then Some (im_status im) else status_of_int stat) of
        Some E_STATUS_NOWORK \<Rightarrow> ''nowork'' @ pending_mark im
      | Some E_STATUS_PAUSING \<Rightarrow> ''pausing'' @ pending_mark im
      | Some E_STATUS_WORKING \<Rightarrow> ''working'' @ pending_mark im
      | Some E_STATUS_STOPWORK \<Rightarrow> ''stopping'' @ pending_mark im
      | _ \<Rightarrow> show_int stat @ '' stat-null'' @ pending_mark im)"

definition GetStatStrLast :: "int \<Rightarrow> InferMachine \<Rightarrow> string" where
  "GetStatStrLast stat im =
     (case (if stat = -1 then Some (im_last_status im) else status_of_int stat) of
        Some E_STATUS_NOWORK \<Rightarrow> ''nowork''
      | Some E_STATUS_PAUSING \<Rightarrow> ''pausing''
      | Some E_STATUS_WORKING \<Rightarrow> ''working''
      | Some E_STATUS_STOPWORK \<Rightarrow> ''stopping''
      | _ \<Rightarrow> ''stat-null'')"

definition GetModeString :: "int \<Rightarrow> InferMachine \<Rightarrow> string" where
  "GetModeString mode im =
     (case (if mode = -1 then Some (im_mode im) else mode_of_int mode) of
        Some E_MODE_AUTO_CLEAN \<Rightarrow> ''auto-clean'' @ pending_mark im
      | Some E_MODE_AREA_CLEAN \<Rightarrow> ''area-clean'' @ pending_mark im
      | Some E_MODE_ROOM_CLEAN \<Rightarrow> ''room-clean'' @ pending_mark im
      | Some E_MODE_POINT_CLEAN \<Rightarrow> ''point-clean'' @ pending_mark im
      | Some E_MODE_REMOTE_CLEAN \<Rightarrow> ''remote-ctrl'' @ pending_mark im
      | Some E_MODE_LOCAL_CLEAN \<Rightarrow> ''local-clean'' @ pending_mark im
      | Some E_MODE_TRACK_CLEAN \<Rightarrow> ''tracing-track'' @ pending_mark im
      | Some E_MODE_STAND_BY \<Rightarrow> ''no-job'' @ pending_mark im
      | Some E_MODE_DOCKING \<Rightarrow> ''docking'' @ pending_mark im
      | Some E_MODE_CHARGING \<Rightarrow> ''charging'' @ pending_mark im
      | Some E_MODE_CHARGE_END \<Rightarrow> ''finish-charge'' @ pending_mark im
      | Some E_MODE_IN_FAULT \<Rightarrow> ''in-fault'' @ pending_mark im
      | Some E_MODE_DORMANT \<Rightarrow> ''dormant'' @ pending_mark im
      | Some E_MODE_ALONG_WALL \<Rightarrow> ''along-wall'' @ pending_mark im
      | Some E_MODE_SWIFT_MAP \<Rightarrow> ''swift-map'' @ pending_mark im
      | Some E_MODE_RELOCATION \<Rightarrow> ''relocation'' @ pending_mark im
      | _ \<Rightarrow> show_int mode @ ''mode-null'' @ pending_mark im)"

definition GetModeStrLast :: "int \<Rightarrow> InferMachine \<Rightarrow> string" where
  "GetModeStrLast mode im =
     (case (if mode = -1 then Some (im_last_mode im) else mode_of_int mode) of
        Some E_MODE_AUTO_CLEAN \<Rightarrow> ''auto-clean''
      | Some E_MODE_AREA_CLEAN \<Rightarrow> ''area-clean''
      | Some E_MODE_ROOM_CLEAN \<Rightarrow> ''room-clean''
      | Some E_MODE_POINT_CLEAN \<Rightarrow> ''point-clean''
      | Some E_MODE_REMOTE_CLEAN \<Rightarrow> ''remote-ctrl''
      | Some E_MODE_LOCAL_CLEAN \<Rightarrow> ''local-clean''
      | Some E_MODE_STAND_BY \<Rightarrow> ''standby''
      | Some E_MODE_DOCKING \<Rightarrow> ''docking''
      | Some E_MODE_CHARGING \<Rightarrow> ''charging''
      | Some E_MODE_CHARGE_END \<Rightarrow> ''finish-charging''
      | Some E_MODE_IN_FAULT \<Rightarrow> ''fall fault''
      | Some E_MODE_DORMANT \<Rightarrow> ''dormant''
      | Some E_MODE_ALONG_WALL \<Rightarrow> ''along-wall''
      | Some E_MODE_SWIFT_MAP \<Rightarrow> ''swift-mapping''
      | Some E_MODE_RELOCATION \<Rightarrow> ''relocation''
      | _ \<Rightarrow> ''mode-nul'')"

definition ShowRobotDriving ::
    "EE_CONTROL_TYPE \<Rightarrow> EE_ACT_KEY_TYPE \<Rightarrow> EE_CLEAN_MODE \<Rightarrow> EE_CMD_FROM_WHO \<Rightarrow> string" where
  "ShowRobotDriving ctrl act mode who =
     GetDriveString who act ctrl @
     (case mode of
        E_CLEAN_GLOBAL \<Rightarrow> '', Mode: { clean mode: global },''
      | E_CLEAN_AREA \<Rightarrow> '', Mode: { clean mode: area },''
      | E_CLEAN_ROOM \<Rightarrow> '', Mode: { clean mode: smart },''
      | E_CLEAN_POINT \<Rightarrow> '', Mode: { clean mode: point },''
      | E_CLEAN_REMOTE \<Rightarrow> '', Mode: { clean mode: remote },''
      | E_CLEAN_LOCAL \<Rightarrow> '', Mode: { clean mode: local },''
      | E_CLEAN_TRACK \<Rightarrow> '', Mode: { clean mode: track },''
      | _ \<Rightarrow> '', Mode: { clean mode: unknown: '' @ show_nat (key_num act) @ '' },'')"

definition ShowRobotJobExec :: "InferMachine \<Rightarrow> string" where
  "ShowRobotJobExec im =
     (if im_job_new im then '' Infer Job: { new: YES'' else '' Infer Job: { new: No'') @
     (if im_exec im then '', exec: YES }'' else '', exec: NO }'')"

section \<open>Specification\<close>


definition settled :: "InferMachine \<Rightarrow> bool" where
  [cyber_inv]: "settled im \<longleftrightarrow> \<not> im_status_pending im \<and> \<not> im_mode_pending im \<and>
     im_status im \<in> {E_STATUS_NOWORK, E_STATUS_PAUSING, E_STATUS_WORKING, E_STATUS_STOPWORK}"

text \<open>Between operations no job is waiting to be executed.\<close>

definition idle_flags :: "InferMachine \<Rightarrow> bool" where
  [cyber_inv]: "idle_flags im \<longleftrightarrow> \<not> im_exec im \<and> \<not> im_job_new im \<and>
     \<not> ms_exec (im_sm_mode_stat im) \<and> \<not> ms_mission_new (im_sm_mode_stat im)"

lemmas drive_defs =
  DriveRobotWorking_def Drive_START_def Drive_PAUSE_def Drive_RESUME_def Drive_FINISH_def
  Drive_RESTART_def Drive_default_def im_transit_def Let_def

lemmas update_defs =
  UpdataInferMachine_def InferPlanWorkingFlow_def RestoreJobState_def IsNeedExecJob_def
  IsNewJob_def Let_def


section \<open>The machine follows the table\<close>


text \<open>What publishing does: log the job once, clear the flags, keep the rest.\<close>

lemma Updata_eq:
  "UpdataInferMachine im =
     im\<lparr>im_sm_mode_stat :=
          \<lparr>ms_status = im_status im, ms_mode = im_mode im, ms_error = im_error im,
           ms_battery = im_battery im, ms_fan = im_fan im, ms_flow = im_flow im,
           ms_boost = im_boost im, ms_exec = False, ms_mission_new = False\<rparr>,
        im_exec := False, im_job_new := False,
        im_jobs := im_jobs im @ (if im_exec im then [(im_mode im, im_status im, im_job_new im)] else []),
        im_syncs := im_syncs im + 1\<rparr>"
  by (simp add: update_defs)

lemma Plan_idle:
  "\<not> ms_exec (im_sm_mode_stat im) \<Longrightarrow>
     InferPlanWorkingFlow im = (RestoreJobState im)\<lparr>im_syncs := im_syncs im + 1\<rparr>"
  by (simp add: update_defs)

lemma idle_flags_Updata: "idle_flags (UpdataInferMachine im)"
  by (simp add: Updata_eq cyber_inv)

lemma idle_flags_Plan: "idle_flags (InferPlanWorkingFlow im)"
  by (simp add: update_defs cyber_inv)

lemma deduce_work_mode [simp]:
  "RobotModeDeduction act mode (im\<lparr>im_work_mode := m\<rparr>) = RobotModeDeduction act mode im"
  by (simp add: RobotModeDeduction_def split: EE_CLEAN_MODE.split)






section \<open>Runs of the machine\<close>

text \<open>The events that reach a running robot, in any order.\<close>

inductive im_step :: "InferMachine \<Rightarrow> InferMachine \<Rightarrow> bool" where
  drive: "im_step im (snd (DriveRobotWorking ctrl key mode who im))"
| mission: "im_step im (snd (DriveRobotWorking_mission mc im))"
| shift: "im_step im (snd (DriveRobotShiftWork ctrl im))"
| dock: "im_step im (EventOnDock on_dock im)"
| charge_full: "im_step im (EventChargeFull full im)"
| battery: "im_step im (UpdataBattery bat im)"
| fan: "im_step im (UpdataFan f im)"
| flow: "im_step im (UpdataFlow f im)"
| boost: "im_step im (UpdataBoost b im)"

inductive_cases im_stepE: "im_step im im'"

definition im_inv :: "InferMachine \<Rightarrow> bool" where
  [cyber_inv]: "im_inv im \<longleftrightarrow> idle_flags im \<and> im_status_pending im = im_mode_pending im \<and>
     im_status im \<in> {E_STATUS_NOWORK, E_STATUS_PAUSING, E_STATUS_WORKING, E_STATUS_STOPWORK}"

lemma Drive_inv: "im_inv im \<Longrightarrow> im_inv (snd (DriveRobotWorking ctrl key mode who im))"
  by (cases ctrl; cases "im_status im")
    (auto simp: drive_defs IsPending_def FixModeStatus_def Updata_eq cyber_inv)

lemma Plan_inv:
  "im_inv im \<Longrightarrow> im_inv (InferPlanWorkingFlow im)"
  by (simp add: update_defs cyber_inv)

lemma im_step_inv: "im_step im im' \<Longrightarrow> im_inv im \<Longrightarrow> im_inv im'"
proof (induction rule: im_step.induct)
  case (drive im ctrl key mode who)
  then show ?case by (simp only: Drive_inv)
next
  case (mission im mc)
  then show ?case
    by (simp add: DriveRobotWorking_mission_def InferUpdateMultiZones_def Drive_inv)
next
  case (shift im ctrl)
  then show ?case by (simp add: DriveRobotShiftWork_def Drive_inv Plan_inv)
next
  case (dock im on_dock)
  then show ?case by (auto simp: EventOnDock_def Let_def Updata_eq cyber_inv)
next
  case (charge_full im full)
  then show ?case by (auto simp: EventChargeFull_def Let_def Updata_eq cyber_inv)
qed (simp_all add: Drive_inv UpdataBattery_def UpdataFan_def UpdataFlow_def UpdataBoost_def
    update_defs cyber_inv)

lemma im_steps_inv: "im_step\<^sup>*\<^sup>* im im' \<Longrightarrow> im_inv im \<Longrightarrow> im_inv im'"
  by (induction rule: rtranclp_induct) (auto intro: im_step_inv)

text \<open>At most one job leaves per event, and it is the state that the event leads to.\<close>

definition one_job :: "InferMachine \<Rightarrow> InferMachine \<Rightarrow> bool" where
  "one_job im im' \<longleftrightarrow> im_jobs im' = im_jobs im \<or>
     (\<exists>fresh. im_jobs im' = im_jobs im @ [(im_mode im', im_status im', fresh)])"

lemma Drive_one_job:
  "im_inv im \<Longrightarrow> one_job im (snd (DriveRobotWorking ctrl key mode who im))"
  by (cases ctrl; cases "im_status im")
    (auto simp: drive_defs IsPending_def FixModeStatus_def Updata_eq one_job_def cyber_inv)

lemma Plan_keeps:
  "im_inv im \<Longrightarrow> im_jobs (InferPlanWorkingFlow im) = im_jobs im \<and>
     im_mode (InferPlanWorkingFlow im) = im_mode im \<and>
     im_status (InferPlanWorkingFlow im) = im_status im"
  by (simp add: update_defs cyber_inv)

lemma im_step_one_job:
  assumes "im_step im im'" and "im_inv im" shows "one_job im im'"
  using assms
proof (induction rule: im_step.induct)
  case (drive im ctrl key mode who)
  then show ?case by (simp only: Drive_one_job)
next
  case (mission im mc)
  then show ?case
    by (auto simp: DriveRobotWorking_mission_def InferUpdateMultiZones_def Drive_one_job)
       (simp add: one_job_def)
next
  case (shift im ctrl)
  let ?im = "snd (DriveRobotWorking ctrl E_KEY_ACT_NULL (im_work_mode im) E_CMD_FROM_LOGIC im)"
  have "one_job im ?im" "im_inv ?im" using shift by (simp_all add: Drive_one_job Drive_inv)
  then show ?case using Plan_keeps [of ?im] by (simp add: DriveRobotShiftWork_def one_job_def)
next
  case (dock im on_dock)
  then show ?case by (simp add: EventOnDock_def Let_def Updata_eq one_job_def)
next
  case (charge_full im full)
  then show ?case by (simp add: EventChargeFull_def Let_def Updata_eq one_job_def)
qed (simp_all add: Drive_one_job UpdataBattery_def UpdataFan_def UpdataFlow_def UpdataBoost_def
    update_defs cyber_inv one_job_def)

section \<open>Properties\<close>



text \<open>
  In every state a robot can reach after initialisation, by any sequence of commands,
  docking, charging and sensor events, the status is one of the four working statuses, the two
  pending flags agree, and no executed job is still marked for execution.
\<close>

theorem reachable_machine_inv:
  assumes "im_step\<^sup>*\<^sup>* (InferMachine_Init (InferMachine_ctor uninit)) im"
  shows "im_inv im"
proof -
  have "im_inv (InferMachine_Init (InferMachine_ctor uninit))"
    by (simp add: InferMachine_Init_def InferMachine_ctor_def cyber_inv)
  with im_steps_inv [OF assms] show ?thesis .
qed

theorem reachable_machine_inv_witness:
  "im_inv (EventOnDock True (InferMachine_Init (InferMachine_ctor E_CLEAN_GLOBAL)))"
  by (rule reachable_machine_inv [of E_CLEAN_GLOBAL]) (auto intro: im_step.dock)

text \<open>
  No event executes a job twice: each step of the machine hands at most one job to the
  business logic, its mode and status are those the machine ends in, and the jobs executed before
  are untouched; even the second planning pass of \<open>DriveRobotShiftWork\<close> adds none.
\<close>

theorem one_job_per_event:
  assumes "im_step im im'" and "im_inv im"
  shows "im_jobs im' = im_jobs im \<or>
    (\<exists>fresh. im_jobs im' = im_jobs im @ [(im_mode im', im_status im', fresh)])"
  using im_step_one_job [OF assms] by (simp add: one_job_def)

theorem one_job_per_event_witness:
  "im_jobs (PushPowerKey E_CMD_FROM_KEY (InferMachine_Init (InferMachine_ctor E_CLEAN_GLOBAL))) =
     [(E_MODE_AUTO_CLEAN, E_STATUS_WORKING, True)] \<and>
   (\<exists>fresh. im_jobs (PushPowerKey E_CMD_FROM_KEY (InferMachine_Init (InferMachine_ctor E_CLEAN_GLOBAL)))
     = [] @ [(E_MODE_AUTO_CLEAN, E_STATUS_WORKING, fresh)])"
proof -
  let ?im = "InferMachine_Init (InferMachine_ctor E_CLEAN_GLOBAL)"
  let ?im' = "PushPowerKey E_CMD_FROM_KEY ?im"
  have eq: "im_jobs ?im' = [(E_MODE_AUTO_CLEAN, E_STATUS_WORKING, True)]"
    "im_mode ?im' = E_MODE_AUTO_CLEAN" "im_status ?im' = E_STATUS_WORKING" "im_jobs ?im = []"
    by (simp_all add: PushPowerKey_def drive_defs IsPending_def InferMachine_Init_def
        InferMachine_ctor_def Updata_eq RobotModeDeduction_def)
  have "im_step ?im ?im'" unfolding PushPowerKey_def by (rule im_step.drive)
  moreover have "im_inv ?im"
    by (simp add: InferMachine_Init_def InferMachine_ctor_def cyber_inv)
  ultimately show ?thesis using one_job_per_event [of ?im ?im'] eq by simp
qed

text \<open>
  The dock key is not distinguished from the power key: the test that should normalise
  unknown keys compares with \<open>||\<close> and is always true, so every command is treated as a power-key
  command. Pressing the home key on an idle robot starts an automatic cleaning job instead of
  sending the robot to its dock.
\<close>

theorem home_key_starts_cleaning:
  "PushHomeKey who im = PushPowerKey who im \<and>
   DriveRobotWorking ctrl E_KEY_DOCK mode who im = DriveRobotWorking ctrl E_KEY_POWER mode who im"
  by (simp add: PushHomeKey_def PushPowerKey_def DriveRobotWorking_def)

text \<open>
  A control type the machine does not know loses the running job: the command is refused,
  but the next one first resets the robot to idle, so that the \<open>FINISH\<close> that should stop a
  working robot is refused as well and no stop job is executed, while the published status still
  says working.
\<close>

theorem unknown_control_loses_job:
  assumes "settled im" and "im_status im = E_STATUS_WORKING"
    and "ms_status (im_sm_mode_stat im) = E_STATUS_WORKING"
    and "DriveRobotWorking E_CTRL_TYPE_QUERY key mode who im = (ok1, im1)"
    and "DriveRobotWorking E_CTRL_TYPE_FINISH key mode who im1 = (ok2, im2)"
  shows "\<not> ok1 \<and> \<not> ok2 \<and> im_jobs im2 = im_jobs im \<and> im_status im2 = E_STATUS_NOWORK \<and>
    ms_status (im_sm_mode_stat im2) = E_STATUS_WORKING"
  using assms by (auto simp: drive_defs IsPending_def FixModeStatus_def cyber_inv)

theorem unknown_control_loses_job_witness:
  "\<exists>im. im_status im = E_STATUS_WORKING \<and>
     \<not> fst (DriveRobotWorking E_CTRL_TYPE_FINISH E_KEY_POWER E_CLEAN_GLOBAL E_CMD_FROM_IOT
        (snd (DriveRobotWorking E_CTRL_TYPE_QUERY E_KEY_POWER E_CLEAN_GLOBAL E_CMD_FROM_IOT im)))"
proof -
  let ?im = "PushPowerKey E_CMD_FROM_KEY (InferMachine_Init (InferMachine_ctor E_CLEAN_GLOBAL))"
  have "settled ?im" "im_status ?im = E_STATUS_WORKING"
    "ms_status (im_sm_mode_stat ?im) = E_STATUS_WORKING"
    by (simp_all add: PushPowerKey_def drive_defs IsPending_def InferMachine_Init_def
        InferMachine_ctor_def Updata_eq cyber_inv)
  then show ?thesis
    using unknown_control_loses_job [of ?im E_KEY_POWER E_CLEAN_GLOBAL E_CMD_FROM_IOT]
    by (metis prod.collapse)
qed

text \<open>
  The log names of the modes are unambiguous: two settled machines that print the same mode
  string are in the same mode, as long as the mode is one of the sixteen named ones.
\<close>

theorem GetModeString_injective:
  assumes "GetModeString (-1) im = GetModeString (-1) im'"
    and "im_status_pending im = im_status_pending im'"
    and "im_mode im \<notin> {E_MODE_SENTINEL, E_MODE_NULL}" and "im_mode im' \<notin> {E_MODE_SENTINEL, E_MODE_NULL}"
  shows "im_mode im = im_mode im'"
  using assms by (cases "im_mode im"; cases "im_mode im'") (simp_all add: GetModeString_def pending_mark_def)

theorem GetModeString_injective_witness:
  "im_mode (InferMachine_Init (InferMachine_ctor E_CLEAN_GLOBAL)) = E_MODE_STAND_BY \<and>
   im_mode (InferMachine_Init (InferMachine_ctor E_CLEAN_GLOBAL)) =
     im_mode (EventOnDock False (InferMachine_Init (InferMachine_ctor E_CLEAN_AREA)))"
  using GetModeString_injective [of "InferMachine_Init (InferMachine_ctor E_CLEAN_GLOBAL)"
      "EventOnDock False (InferMachine_Init (InferMachine_ctor E_CLEAN_AREA))"]
  by (simp add: InferMachine_Init_def InferMachine_ctor_def EventOnDock_def Let_def Updata_eq
      GetModeString_def pending_mark_def)

end
