(* ===== verification/Topology_Graph.thy ===== *)
theory Topology_Graph
  imports Prelude "HOL-Library.AList"
begin

text \<open>
  \<open>cyber/service_discovery/container/graph.{h,cc}\<close>: the graph of nodes (vertices) connected
  by channels (edge values). An edge arrives in halves: a writer inserts its outgoing half, a
  reader its incoming half; the graph keeps both halves per channel (\<open>edges_\<close>) and the
  complete edges as adjacency sets (\<open>list_\<close>). Every public operation holds the graph's lock.

  An \<open>unordered_map\<close> is an association list; its \<open>operator[]\<close> is written out, with the
  insertion of an empty value for a missing key.
\<close>

section \<open>Vertices and edges\<close>

type_synonym Vertice = string

definition Vertice_IsDummy :: "Vertice \<Rightarrow> bool" where
  "Vertice_IsDummy v \<longleftrightarrow> v = []"

definition Vertice_GetKey :: "Vertice \<Rightarrow> string" where
  "Vertice_GetKey v = v"

record Edge =
  e_src :: Vertice
  e_dst :: Vertice
  e_value :: string

definition Edge_IsValid :: "Edge \<Rightarrow> bool" where
  "Edge_IsValid e =
     (if e_value e = [] then False
      else if Vertice_IsDummy (e_src e) \<and> Vertice_IsDummy (e_dst e) then False
      else True)"

definition Edge_GetKey :: "Edge \<Rightarrow> string" where
  "Edge_GetKey e = e_value e @ ''_'' @ Vertice_GetKey (e_dst e)"

section \<open>The graph\<close>

datatype FlowDirection = UNREACHABLE | UPSTREAM | DOWNSTREAM

type_synonym VerticeSet = "(string \<times> Vertice) list"

record RelatedVertices =
  rv_src :: VerticeSet
  rv_dst :: VerticeSet

record Graph =
  g_edges :: "string \<Rightarrow> RelatedVertices option"
  g_list :: "(string \<times> VerticeSet) list"

definition Graph_ctor :: Graph where
  "Graph_ctor = \<lparr>g_edges = (\<lambda>_. None), g_list = []\<rparr>"

text \<open>Reading \<open>edges_[e_v]\<close> and \<open>list_[k]\<close>.\<close>

definition edges_at :: "Graph \<Rightarrow> string \<Rightarrow> RelatedVertices" where
  "edges_at g v = (case g_edges g v of Some rv \<Rightarrow> rv | None \<Rightarrow> \<lparr>rv_src = [], rv_dst = []\<rparr>)"

definition list_at :: "(string \<times> VerticeSet) list \<Rightarrow> string \<Rightarrow> VerticeSet" where
  "list_at l k = (case map_of l k of Some vs \<Rightarrow> vs | None \<Rightarrow> [])"

definition InsertCompleteEdge :: "Edge \<Rightarrow> (string \<times> VerticeSet) list \<Rightarrow> (string \<times> VerticeSet) list" where
  "InsertCompleteEdge e l =
     (let src_v_k = Vertice_GetKey (e_src e);
          l1 = (if map_of l src_v_k = None then AList.update src_v_k [] l else l);
          dst_v_k = Vertice_GetKey (e_dst e);
          l2 = (if map_of l1 dst_v_k = None then AList.update dst_v_k [] l1 else l1) in
      AList.update src_v_k (AList.update (Edge_GetKey e) (e_dst e) (list_at l2 src_v_k)) l2)"

definition DeleteCompleteEdge :: "Edge \<Rightarrow> (string \<times> VerticeSet) list \<Rightarrow> (string \<times> VerticeSet) list" where
  "DeleteCompleteEdge e l =
     (let src_v_k = Vertice_GetKey (e_src e) in
      AList.update src_v_k (AList.delete (Edge_GetKey e) (list_at l src_v_k)) l)"

definition InsertOutgoingEdge :: "Edge \<Rightarrow> Graph \<Rightarrow> Graph" where
  "InsertOutgoingEdge e g =
     (let e_v = e_value e; rv = edges_at g e_v; v_k = Vertice_GetKey (e_src e) in
      if map_of (rv_src rv) v_k \<noteq> None then g
      else
        let rv' = rv\<lparr>rv_src := AList.update v_k (e_src e) (rv_src rv)\<rparr> in
        g\<lparr>g_edges := (g_edges g)(e_v \<mapsto> rv'),
          g_list := fold (\<lambda>item. InsertCompleteEdge
             \<lparr>e_src = e_src e, e_dst = snd item, e_value = e_v\<rparr>) (rv_dst rv') (g_list g)\<rparr>)"

definition InsertIncomingEdge :: "Edge \<Rightarrow> Graph \<Rightarrow> Graph" where
  "InsertIncomingEdge e g =
     (let e_v = e_value e; rv = edges_at g e_v; v_k = Vertice_GetKey (e_dst e) in
      if map_of (rv_dst rv) v_k \<noteq> None then g
      else
        let rv' = rv\<lparr>rv_dst := AList.update v_k (e_dst e) (rv_dst rv)\<rparr> in
        g\<lparr>g_edges := (g_edges g)(e_v \<mapsto> rv'),
          g_list := fold (\<lambda>item. InsertCompleteEdge
             \<lparr>e_src = snd item, e_dst = e_dst e, e_value = e_v\<rparr>) (rv_src rv') (g_list g)\<rparr>)"

definition DeleteOutgoingEdge :: "Edge \<Rightarrow> Graph \<Rightarrow> Graph" where
  "DeleteOutgoingEdge e g =
     (let e_v = e_value e; rv = edges_at g e_v; v_k = Vertice_GetKey (e_src e) in
      if map_of (rv_src rv) v_k = None then g
      else
        let rv' = rv\<lparr>rv_src := AList.delete v_k (rv_src rv)\<rparr> in
        g\<lparr>g_edges := (g_edges g)(e_v \<mapsto> rv'),
          g_list := fold (\<lambda>item. DeleteCompleteEdge
             \<lparr>e_src = e_src e, e_dst = snd item, e_value = e_v\<rparr>) (rv_dst rv') (g_list g)\<rparr>)"

definition DeleteIncomingEdge :: "Edge \<Rightarrow> Graph \<Rightarrow> Graph" where
  "DeleteIncomingEdge e g =
     (let e_v = e_value e; rv = edges_at g e_v; v_k = Vertice_GetKey (e_dst e) in
      if map_of (rv_dst rv) v_k = None then g
      else
        let rv' = rv\<lparr>rv_dst := AList.delete v_k (rv_dst rv)\<rparr> in
        g\<lparr>g_edges := (g_edges g)(e_v \<mapsto> rv'),
          g_list := fold (\<lambda>item. DeleteCompleteEdge
             \<lparr>e_src = snd item, e_dst = e_dst e, e_value = e_v\<rparr>) (rv_src rv') (g_list g)\<rparr>)"

definition Graph_Insert :: "Edge \<Rightarrow> Graph \<Rightarrow> Graph" where
  "Graph_Insert e g =
     (if \<not> Edge_IsValid e then g
      else
        let g1 = (if g_edges g (e_value e) = None
                  then g\<lparr>g_edges := (g_edges g)(e_value e \<mapsto> \<lparr>rv_src = [], rv_dst = []\<rparr>)\<rparr> else g);
            g2 = (if \<not> Vertice_IsDummy (e_src e) then InsertOutgoingEdge e g1 else g1) in
        if \<not> Vertice_IsDummy (e_dst e) then InsertIncomingEdge e g2 else g2)"

definition Graph_Delete :: "Edge \<Rightarrow> Graph \<Rightarrow> Graph" where
  "Graph_Delete e g =
     (if \<not> Edge_IsValid e then g
      else if g_edges g (e_value e) = None then g
      else
        let g1 = (if \<not> Vertice_IsDummy (e_src e) then DeleteOutgoingEdge e g else g) in
        if \<not> Vertice_IsDummy (e_dst e) then DeleteIncomingEdge e g1 else g1)"

definition Graph_GetNumOfEdge :: "Graph \<Rightarrow> nat" where
  "Graph_GetNumOfEdge g = sum_list (map (\<lambda>item. length (snd item)) (g_list g)) mod 2 ^ 32"

definition traverse_universe :: "(string \<times> VerticeSet) list \<Rightarrow> Vertice list \<Rightarrow> Vertice set" where
  "traverse_universe l unvisited = set unvisited \<union> (\<Union>vs \<in> snd ` set l. snd ` set vs)"

lemma finite_traverse_universe [simp]: "finite (traverse_universe l q)"
  by (auto simp: traverse_universe_def)

lemma list_at_universe: "snd ` set (list_at l k) \<subseteq> (\<Union>vs \<in> snd ` set l. snd ` set vs)"
proof (cases "map_of l k")
  case (Some vs)
  then have "(k, vs) \<in> set l" by (rule map_of_SomeD)
  with Some show ?thesis by (force simp: list_at_def)
qed (simp add: list_at_def)

text \<open>
  The breadth-first loop of \<open>LevelTraverse\<close>: \<open>visited\<close> lists the keys marked true. A key
  that \<open>list_[...]\<close> would insert has no neighbours, so the traversal reads it as empty.
\<close>

function LevelTraverse_loop ::
    "(string \<times> VerticeSet) list \<Rightarrow> Vertice \<Rightarrow> string list \<Rightarrow> Vertice list \<Rightarrow> string list" where
  "LevelTraverse_loop l target visited [] = visited"
| "LevelTraverse_loop l target visited (cur # unvisited) =
     (if Vertice_GetKey cur \<in> set visited then LevelTraverse_loop l target visited unvisited
      else if cur = target then Vertice_GetKey cur # visited
      else LevelTraverse_loop l target (Vertice_GetKey cur # visited)
             (unvisited @ map snd (list_at l (Vertice_GetKey cur))))"
  by pat_completeness auto

termination
proof (relation "measures [\<lambda>(l, target, visited, q). card (traverse_universe l q - set visited),
    \<lambda>(l, target, visited, q). length q]", goal_cases)
  case (2 l target visited cur q)
  have "traverse_universe l q - set visited \<subseteq> traverse_universe l (cur # q) - set visited"
    by (auto simp: traverse_universe_def)
  then have "card (traverse_universe l q - set visited)
      \<le> card (traverse_universe l (cur # q) - set visited)"
    by (intro card_mono) auto
  then show ?case by auto
next
  case (3 l target visited cur q)
  have "traverse_universe l (q @ map snd (list_at l cur)) \<subseteq> traverse_universe l (cur # q)"
    using list_at_universe [of l cur] by (auto simp: traverse_universe_def)
  moreover have "cur \<in> traverse_universe l (cur # q) - set visited"
    using 3 by (auto simp: traverse_universe_def Vertice_GetKey_def)
  ultimately have "traverse_universe l (q @ map snd (list_at l cur)) - set (cur # visited)
      \<subset> traverse_universe l (cur # q) - set visited"
    by auto
  then have "card (traverse_universe l (q @ map snd (list_at l cur)) - set (cur # visited))
      < card (traverse_universe l (cur # q) - set visited)"
    by (intro psubset_card_mono) auto
  then show ?case by (simp add: Vertice_GetKey_def)
qed simp

definition LevelTraverse :: "(string \<times> VerticeSet) list \<Rightarrow> Vertice \<Rightarrow> Vertice \<Rightarrow> bool" where
  "LevelTraverse l start target \<longleftrightarrow>
     Vertice_GetKey target \<in> set (LevelTraverse_loop l target [] [start])"

definition Graph_GetDirectionOf :: "Vertice \<Rightarrow> Vertice \<Rightarrow> Graph \<Rightarrow> FlowDirection" where
  "Graph_GetDirectionOf lhs rhs g =
     (if Vertice_IsDummy lhs \<or> Vertice_IsDummy rhs then UNREACHABLE
      else if map_of (g_list g) (Vertice_GetKey lhs) = None
           \<or> map_of (g_list g) (Vertice_GetKey rhs) = None then UNREACHABLE
      else if LevelTraverse (g_list g) lhs rhs then UPSTREAM
      else if LevelTraverse (g_list g) rhs lhs then DOWNSTREAM
      else UNREACHABLE)"

lemmas vertice_simps [simp] = Vertice_GetKey_def Vertice_IsDummy_def

section \<open>The traversal decides reachability\<close>

definition adj :: "(string \<times> VerticeSet) list \<Rightarrow> (Vertice \<times> Vertice) set" where
  "adj l = {(u, v). v \<in> snd ` set (list_at l u)}"

lemma leave_visited:
  assumes "(u, v) \<in> r\<^sup>*" and "u \<in> V" and "v \<notin> V" and "\<And>x y. x \<in> V \<Longrightarrow> (x, y) \<in> r \<Longrightarrow> y \<in> V \<union> Q"
  shows "\<exists>x \<in> Q. (x, v) \<in> r\<^sup>*"
  using assms(1-3)
proof (induction rule: converse_rtrancl_induct)
  case (step y z)
  then show ?case using assms(4) [of y z] by blast
qed simp

lemma LevelTraverse_loop_iff:
  assumes "target \<notin> set visited"
    and "\<And>u v. u \<in> set visited \<Longrightarrow> (u, v) \<in> adj l \<Longrightarrow> v \<in> set visited \<union> set unvisited"
  shows "target \<in> set (LevelTraverse_loop l target visited unvisited) \<longleftrightarrow>
    (\<exists>x \<in> set unvisited. (x, target) \<in> (adj l)\<^sup>*)"
  using assms
proof (induction l target visited unvisited rule: LevelTraverse_loop.induct)
  case (1 l target visited)
  then show ?case by simp
next
  case (2 l target visited cur q)
  consider (seen) "cur \<in> set visited" | (found) "cur \<notin> set visited" "cur = target"
    | (expand) "cur \<notin> set visited" "cur \<noteq> target" by blast
  then show ?case
  proof cases
    case seen
    have closed: "\<And>u v. u \<in> set visited \<Longrightarrow> (u, v) \<in> adj l \<Longrightarrow> v \<in> set visited \<union> set q"
      using "2.prems"(2) seen by fastforce
    then have "(\<exists>x \<in> set (cur # q). (x, target) \<in> (adj l)\<^sup>*) \<longleftrightarrow> (\<exists>x \<in> set q. (x, target) \<in> (adj l)\<^sup>*)"
      using leave_visited [of cur target "adj l" "set visited" "set q"] seen "2.prems"(1) by auto
    with seen "2.IH"(1) "2.prems"(1) closed show ?thesis by simp
  next
    case found
    then show ?thesis by auto
  next
    case expand
    let ?q = "q @ map snd (list_at l cur)"
    have "\<And>u v. u \<in> set (cur # visited) \<Longrightarrow> (u, v) \<in> adj l \<Longrightarrow> v \<in> set (cur # visited) \<union> set ?q"
      using "2.prems"(2) by (fastforce simp: adj_def)
    then have IH: "target \<in> set (LevelTraverse_loop l target (cur # visited) ?q) \<longleftrightarrow>
        (\<exists>x \<in> set ?q. (x, target) \<in> (adj l)\<^sup>*)"
      using "2.IH"(2) "2.prems"(1) expand by simp
    have "(cur, target) \<in> (adj l)\<^sup>* \<longleftrightarrow> (\<exists>x \<in> snd ` set (list_at l cur). (x, target) \<in> (adj l)\<^sup>*)"
      using expand by (auto simp: adj_def elim: converse_rtranclE intro: converse_rtrancl_into_rtrancl)
    with IH expand show ?thesis by auto
  qed
qed

lemma LevelTraverse_iff: "LevelTraverse l start target \<longleftrightarrow> (start, target) \<in> (adj l)\<^sup>*"
  using LevelTraverse_loop_iff [of target "[]" l "[start]"] by (simp add: LevelTraverse_def)

section \<open>Complete edges\<close>

text \<open>\<open>edge l s k\<close>: the destination stored under the edge key \<open>k\<close> of the vertex \<open>s\<close>.\<close>

definition edge :: "(string \<times> VerticeSet) list \<Rightarrow> string \<Rightarrow> string \<Rightarrow> Vertice option" where
  "edge l s k = map_of (list_at l s) k"

definition edge_key :: "string \<Rightarrow> Vertice \<Rightarrow> string" where
  "edge_key v d = v @ ''_'' @ d"

lemma edge_key_inj: "edge_key v d = edge_key v d' \<longleftrightarrow> d = d'"
  by (simp add: edge_key_def)

text \<open>Between channels the key is ambiguous, unless vertex names contain no underscore.\<close>

lemma edge_key_unique:
  assumes "edge_key v d = edge_key v' d'" and "CHR ''_'' \<notin> set d" and "CHR ''_'' \<notin> set d'"
  shows "v = v' \<and> d = d'"
proof -
  have *: "rev d @ [CHR ''_''] @ rev v = rev d' @ [CHR ''_''] @ rev v'"
    using arg_cong [OF assms(1), of rev] by (simp add: edge_key_def)
  have "takeWhile (\<lambda>c. c \<noteq> CHR ''_'') (rev x @ [CHR ''_''] @ y) = rev x"
    if "CHR ''_'' \<notin> set x" for x y
    using that by (subst takeWhile_append2) auto
  from this [OF assms(2), of "rev v"] this [OF assms(3), of "rev v'"] have "rev d = rev d'"
    unfolding * by simp
  with * show ?thesis by simp
qed

lemma list_at_update: "list_at (AList.update k vs l) k' = (if k' = k then vs else list_at l k')"
  by (simp add: list_at_def update_conv')

lemma list_at_touch:
  "list_at (if map_of l k = None then AList.update k [] l else l) k' = list_at l k'"
  by (auto simp: list_at_def update_conv')

lemma edge_InsertComplete:
  "edge (InsertCompleteEdge e l) s k =
     (if s = e_src e \<and> k = edge_key (e_value e) (e_dst e) then Some (e_dst e) else edge l s k)"
  by (simp add: edge_def InsertCompleteEdge_def Let_def list_at_update list_at_touch update_conv'
      Edge_GetKey_def edge_key_def)

lemma edge_DeleteComplete:
  "edge (DeleteCompleteEdge e l) s k =
     (if s = e_src e \<and> k = edge_key (e_value e) (e_dst e) then None else edge l s k)"
  by (simp add: edge_def DeleteCompleteEdge_def Let_def list_at_update delete_conv'
      Edge_GetKey_def edge_key_def)

lemma keys_InsertComplete:
  "fst ` set (InsertCompleteEdge e l) = fst ` set l \<union> {e_src e, e_dst e}"
  by (auto simp: InsertCompleteEdge_def Let_def dom_update map_of_eq_None_iff)

lemma keys_DeleteComplete:
  "fst ` set (DeleteCompleteEdge e l) = fst ` set l \<union> {e_src e}"
  by (auto simp: DeleteCompleteEdge_def Let_def dom_update)

text \<open>The four loops over a set of related vertices.\<close>

lemma edge_insert_out:
  "edge (fold (\<lambda>d. InsertCompleteEdge \<lparr>e_src = s, e_dst = d, e_value = v\<rparr>) ds l) s' k =
     (if s' = s \<and> (\<exists>d \<in> set ds. k = edge_key v d) then Some (drop (length v + 1) k)
      else edge l s' k)"
  by (induction ds rule: rev_induct) (auto simp: edge_InsertComplete edge_key_def)

lemma edge_insert_in:
  "edge (fold (\<lambda>s. InsertCompleteEdge \<lparr>e_src = s, e_dst = d, e_value = v\<rparr>) ss l) s' k =
     (if s' \<in> set ss \<and> k = edge_key v d then Some d else edge l s' k)"
  by (induction ss rule: rev_induct) (auto simp: edge_InsertComplete)

lemma edge_delete_out:
  "edge (fold (\<lambda>d. DeleteCompleteEdge \<lparr>e_src = s, e_dst = d, e_value = v\<rparr>) ds l) s' k =
     (if s' = s \<and> (\<exists>d \<in> set ds. k = edge_key v d) then None else edge l s' k)"
  by (induction ds rule: rev_induct) (auto simp: edge_DeleteComplete)

lemma edge_delete_in:
  "edge (fold (\<lambda>s. DeleteCompleteEdge \<lparr>e_src = s, e_dst = d, e_value = v\<rparr>) ss l) s' k =
     (if s' \<in> set ss \<and> k = edge_key v d then None else edge l s' k)"
  by (induction ss rule: rev_induct) (auto simp: edge_DeleteComplete)

lemma keys_fold_insert:
  "fst ` set (fold (\<lambda>x. InsertCompleteEdge (f x)) xs l) =
     fst ` set l \<union> (\<Union>x \<in> set xs. {e_src (f x), e_dst (f x)})"
  by (induction xs arbitrary: l) (auto simp: keys_InsertComplete)

lemma keys_fold_delete:
  "fst ` set l \<subseteq> fst ` set (fold (\<lambda>x. DeleteCompleteEdge (f x)) xs l)"
proof (induction xs arbitrary: l)
  case (Cons x xs)
  have "fst ` set l \<subseteq> fst ` set (DeleteCompleteEdge (f x) l)" by (auto simp: keys_DeleteComplete)
  also have "\<dots> \<subseteq> fst ` set (fold (\<lambda>x. DeleteCompleteEdge (f x)) xs (DeleteCompleteEdge (f x) l))"
    by (rule Cons.IH)
  finally show ?case by simp
qed simp

section \<open>Refinement to the channel relation\<close>

text \<open>
  The abstract graph: for every channel the set of nodes that write it and the set of nodes
  that read it. Node \<open>s\<close> leads to node \<open>d\<close> when some channel has \<open>s\<close> among its writers
  and \<open>d\<close> among its readers.
\<close>

type_synonym channels = "(string \<Rightarrow> Vertice set) \<times> (string \<Rightarrow> Vertice set)"

definition leads_to :: "channels \<Rightarrow> (Vertice \<times> Vertice) set" where
  "leads_to c = {(s, d). \<exists>v. s \<in> fst c v \<and> d \<in> snd c v}"

definition ch_insert :: "Edge \<Rightarrow> channels \<Rightarrow> channels" where
  "ch_insert e c =
     (if \<not> Edge_IsValid e then c
      else ((fst c)(e_value e := fst c (e_value e) \<union> ({e_src e} - {[]})),
            (snd c)(e_value e := snd c (e_value e) \<union> ({e_dst e} - {[]}))))"

definition ch_delete :: "Edge \<Rightarrow> channels \<Rightarrow> channels" where
  "ch_delete e c =
     (if \<not> Edge_IsValid e then c
      else ((fst c)(e_value e := fst c (e_value e) - {e_src e}),
            (snd c)(e_value e := snd c (e_value e) - {e_dst e})))"

definition Graph_abs :: "Graph \<Rightarrow> channels" where
  "Graph_abs g = ((\<lambda>v. fst ` set (rv_src (edges_at g v))), (\<lambda>v. fst ` set (rv_dst (edges_at g v))))"

text \<open>
  The invariant: sets are keyed by the vertices themselves, dummies are never stored, the
  complete edges are exactly the writer-reader pairs of the channels, and both ends of an edge
  have an entry in \<open>list_\<close>. \<open>plain_names\<close> is the condition on the names of readers.
\<close>

definition pairs ::
    "(string \<Rightarrow> Vertice set) \<Rightarrow> (string \<Rightarrow> Vertice set) \<Rightarrow> (string \<times> string \<times> Vertice) set" where
  "pairs W R = {(s, k, d). \<exists>v. s \<in> W v \<and> d \<in> R v \<and> k = edge_key v d}"

definition edges_match ::
    "(string \<times> VerticeSet) list \<Rightarrow> (string \<Rightarrow> Vertice set) \<Rightarrow> (string \<Rightarrow> Vertice set) \<Rightarrow> bool" where
  "edges_match l W R \<longleftrightarrow>
     (\<forall>s k d. edge l s k = Some d \<longleftrightarrow> (s, k, d) \<in> pairs W R) \<and>
     (\<forall>s k d. (s, k, d) \<in> pairs W R \<longrightarrow> s \<in> fst ` set l \<and> d \<in> fst ` set l)"

definition plain_names :: "(string \<Rightarrow> Vertice set) \<Rightarrow> bool" where
  "plain_names R \<longleftrightarrow> (\<forall>v. \<forall>d \<in> R v. CHR ''_'' \<notin> set d)"

definition keyed :: "VerticeSet \<Rightarrow> bool" where
  "keyed vs \<longleftrightarrow> (\<forall>p \<in> set vs. snd p = fst p \<and> fst p \<noteq> [])"

definition Graph_inv :: "Graph \<Rightarrow> bool" where
  [cyber_inv]: "Graph_inv g \<longleftrightarrow>
     (\<forall>v. keyed (rv_src (edges_at g v)) \<and> keyed (rv_dst (edges_at g v))) \<and>
     edges_match (g_list g) (fst (Graph_abs g)) (snd (Graph_abs g))"

lemma plain_unique:
  "plain_names R \<Longrightarrow> d \<in> R v \<Longrightarrow> d' \<in> R v' \<Longrightarrow> edge_key v d = edge_key v' d' \<Longrightarrow> v = v' \<and> d = d'"
  unfolding plain_names_def using edge_key_unique by blast

lemma keyed_map_snd: "keyed vs \<Longrightarrow> set (map snd vs) = fst ` set vs"
  by (force simp: keyed_def)

lemma edges_matchI:
  assumes "\<And>s k d. edge l s k = Some d \<longleftrightarrow> (s, k, d) \<in> pairs W R"
    and "\<And>s k d. (s, k, d) \<in> pairs W R \<Longrightarrow> s \<in> fst ` set l \<and> d \<in> fst ` set l"
  shows "edges_match l W R"
  using assms unfolding edges_match_def by blast

lemma edges_matchD:
  "edges_match l W R \<Longrightarrow> edge l s k = Some d \<longleftrightarrow> (s, k, d) \<in> pairs W R"
  "edges_match l W R \<Longrightarrow> (s, k, d) \<in> pairs W R \<Longrightarrow> s \<in> fst ` set l \<and> d \<in> fst ` set l"
  unfolding edges_match_def by blast+

text \<open>Adding or removing a writer or a reader of a channel, on the set of complete edges.\<close>

lemma pairsI: "s \<in> W v \<Longrightarrow> d \<in> R v \<Longrightarrow> k = edge_key v d \<Longrightarrow> (s, k, d) \<in> pairs W R"
  unfolding pairs_def by blast

lemma pairsE:
  assumes "(s, k, d) \<in> pairs W R"
  obtains v where "s \<in> W v" and "d \<in> R v" and "k = edge_key v d"
  using assms unfolding pairs_def by blast

lemma pairs_add_writer:
  "(s', k, d) \<in> pairs (W(v := insert s (W v))) R \<longleftrightarrow>
     (s', k, d) \<in> pairs W R \<or> s' = s \<and> d \<in> R v \<and> k = edge_key v d" (is "?L \<longleftrightarrow> ?R")
proof
  assume ?L
  then obtain u where "s' \<in> (W(v := insert s (W v))) u" "d \<in> R u" "k = edge_key u d" by (rule pairsE)
  then show ?R by (cases "u = v") (auto intro: pairsI)
next
  assume ?R
  then show ?L by (auto elim!: pairsE intro: pairsI [of _ _ v] pairsI)
qed

lemma pairs_add_reader:
  "(s, k, d) \<in> pairs W (R(v := insert d0 (R v))) \<longleftrightarrow>
     (s, k, d) \<in> pairs W R \<or> s \<in> W v \<and> d = d0 \<and> k = edge_key v d0" (is "?L \<longleftrightarrow> ?R")
proof
  assume ?L
  then obtain u where "s \<in> W u" "d \<in> (R(v := insert d0 (R v))) u" "k = edge_key u d" by (rule pairsE)
  then show ?R by (cases "u = v"; cases "d = d0") (auto intro: pairsI)
next
  assume ?R
  then show ?L by (auto elim!: pairsE intro: pairsI [of _ _ v] pairsI)
qed

lemma pairs_del_writer:
  assumes "plain_names R"
  shows "(s', k, d) \<in> pairs (W(v := W v - {s})) R \<longleftrightarrow>
     (s', k, d) \<in> pairs W R \<and> \<not> (s' = s \<and> (\<exists>d0 \<in> R v. k = edge_key v d0))" (is "?L \<longleftrightarrow> ?R")
proof
  assume ?L
  then obtain u where u: "s' \<in> (W(v := W v - {s})) u" "d \<in> R u" "k = edge_key u d" by (rule pairsE)
  then have "s' \<in> W u" by (simp split: if_splits)
  moreover have False if "s' = s" "d0 \<in> R v" "k = edge_key v d0" for d0
    using u that plain_unique [OF assms that(2) u(2)] by (simp split: if_splits)
  ultimately show ?R using u by (blast intro: pairsI)
next
  assume R: ?R
  then obtain u where u: "s' \<in> W u" "d \<in> R u" "k = edge_key u d" by (blast elim: pairsE)
  with R have "s' \<in> (W(v := W v - {s})) u" by (cases "u = v") auto
  with u show ?L by (blast intro: pairsI)
qed

lemma pairs_del_reader:
  assumes "plain_names R" and "d0 \<in> R v"
  shows "(s, k, d) \<in> pairs W (R(v := R v - {d0})) \<longleftrightarrow>
     (s, k, d) \<in> pairs W R \<and> \<not> (s \<in> W v \<and> k = edge_key v d0)" (is "?L \<longleftrightarrow> ?R")
proof
  assume ?L
  then obtain u where u: "s \<in> W u" "d \<in> (R(v := R v - {d0})) u" "k = edge_key u d" by (rule pairsE)
  then have "d \<in> R u" by (simp split: if_splits)
  moreover have False if "k = edge_key v d0"
    using u that plain_unique [OF assms \<open>d \<in> R u\<close>] by (simp split: if_splits)
  ultimately show ?R using u by (blast intro: pairsI)
next
  assume R: ?R
  then obtain u where u: "s \<in> W u" "d \<in> R u" "k = edge_key u d" by (blast elim: pairsE)
  with R have "d \<in> (R(v := R v - {d0})) u" by (cases "u = v") auto
  with u show ?L by (blast intro: pairsI)
qed

lemma pairs_key_unique:
  assumes "plain_names R" and "(s, edge_key v d0, d) \<in> pairs W R" and "d0 \<in> R v"
  shows "d = d0"
proof -
  from assms(2) obtain u where "d \<in> R u" "edge_key v d0 = edge_key u d" by (rule pairsE)
  with plain_unique [OF assms(1,3)] show ?thesis by simp
qed

text \<open>Each loop re-establishes the match for the changed channel.\<close>

lemma match_insert_out:
  assumes match: "edges_match l W R" and plain: "plain_names R" and ds: "set ds = R v"
  shows "edges_match (fold (\<lambda>d. InsertCompleteEdge \<lparr>e_src = s, e_dst = d, e_value = v\<rparr>) ds l)
    (W(v := insert s (W v))) R" (is "edges_match ?l _ _")
proof (rule edges_matchI)
  fix s' k d
  show "edge ?l s' k = Some d \<longleftrightarrow> (s', k, d) \<in> pairs (W(v := insert s (W v))) R"
  proof (cases "s' = s \<and> (\<exists>d0 \<in> R v. k = edge_key v d0)")
    case True
    then obtain d0 where d0: "d0 \<in> R v" "k = edge_key v d0" by blast
    then have "edge ?l s' k = Some d0"
      using True ds by (simp add: edge_insert_out edge_key_def)
    moreover have "(s', k, d) \<in> pairs (W(v := insert s (W v))) R \<longleftrightarrow> d = d0"
      unfolding pairs_add_writer using pairs_key_unique [OF plain, of s' v d0 d W] d0 True
      by (auto simp: edge_key_inj)
    ultimately show ?thesis by auto
  next
    case False
    then have "edge ?l s' k = edge l s' k" using ds by (auto simp: edge_insert_out)
    with False show ?thesis unfolding pairs_add_writer using edges_matchD(1) [OF match] by auto
  qed
next
  fix s' k d assume "(s', k, d) \<in> pairs (W(v := insert s (W v))) R"
  then show "s' \<in> fst ` set ?l \<and> d \<in> fst ` set ?l"
    unfolding pairs_add_writer keys_fold_insert using edges_matchD(2) [OF match] ds by auto
qed

lemma match_insert_in:
  assumes match: "edges_match l W R" and plain: "plain_names (R(v := insert d0 (R v)))"
    and ss: "set ss = W v"
  shows "edges_match (fold (\<lambda>s. InsertCompleteEdge \<lparr>e_src = s, e_dst = d0, e_value = v\<rparr>) ss l)
    W (R(v := insert d0 (R v)))" (is "edges_match ?l _ _")
proof (rule edges_matchI)
  fix s k d
  show "edge ?l s k = Some d \<longleftrightarrow> (s, k, d) \<in> pairs W (R(v := insert d0 (R v)))"
  proof (cases "s \<in> W v \<and> k = edge_key v d0")
    case True
    then have "edge ?l s k = Some d0" using ss by (simp add: edge_insert_in)
    moreover have "(s, k, d) \<in> pairs W (R(v := insert d0 (R v))) \<longleftrightarrow> d = d0"
      using pairs_key_unique [OF plain, of s v d0 d W] True pairs_add_reader [of s k d W R v d0]
      by auto
    ultimately show ?thesis by auto
  next
    case False
    then have "edge ?l s k = edge l s k" using ss by (auto simp: edge_insert_in)
    with False show ?thesis unfolding pairs_add_reader using edges_matchD(1) [OF match] by auto
  qed
next
  fix s k d assume "(s, k, d) \<in> pairs W (R(v := insert d0 (R v)))"
  then show "s \<in> fst ` set ?l \<and> d \<in> fst ` set ?l"
    unfolding pairs_add_reader keys_fold_insert using edges_matchD(2) [OF match] ss by auto
qed

lemma match_delete_out:
  assumes match: "edges_match l W R" and plain: "plain_names R" and ds: "set ds = R v"
  shows "edges_match (fold (\<lambda>d. DeleteCompleteEdge \<lparr>e_src = s, e_dst = d, e_value = v\<rparr>) ds l)
    (W(v := W v - {s})) R" (is "edges_match ?l _ _")
proof (rule edges_matchI)
  show "edge ?l s' k = Some d \<longleftrightarrow> (s', k, d) \<in> pairs (W(v := W v - {s})) R" for s' k d
    unfolding pairs_del_writer [OF plain] edge_delete_out ds
    using edges_matchD(1) [OF match, of s' k d] by auto
  show "s' \<in> fst ` set ?l \<and> d \<in> fst ` set ?l" if "(s', k, d) \<in> pairs (W(v := W v - {s})) R" for s' k d
  proof -
    have "(s', k, d) \<in> pairs W R" using that unfolding pairs_del_writer [OF plain] by (rule conjunct1)
    from edges_matchD(2) [OF match this] show ?thesis
      using keys_fold_delete [of l "\<lambda>d. \<lparr>e_src = s, e_dst = d, e_value = v\<rparr>" ds] by (meson subsetD)
  qed
qed

lemma match_delete_in:
  assumes match: "edges_match l W R" and plain: "plain_names R" "d0 \<in> R v" and ss: "set ss = W v"
  shows "edges_match (fold (\<lambda>s. DeleteCompleteEdge \<lparr>e_src = s, e_dst = d0, e_value = v\<rparr>) ss l)
    W (R(v := R v - {d0}))" (is "edges_match ?l _ _")
proof (rule edges_matchI)
  show "edge ?l s k = Some d \<longleftrightarrow> (s, k, d) \<in> pairs W (R(v := R v - {d0}))" for s k d
    unfolding pairs_del_reader [OF plain] edge_delete_in ss
    using edges_matchD(1) [OF match, of s k d] by auto
  show "s \<in> fst ` set ?l \<and> d \<in> fst ` set ?l" if "(s, k, d) \<in> pairs W (R(v := R v - {d0}))" for s k d
  proof -
    have "(s, k, d) \<in> pairs W R" using that unfolding pairs_del_reader [OF plain] by (rule conjunct1)
    from edges_matchD(2) [OF match this] show ?thesis
      using keys_fold_delete [of l "\<lambda>s. \<lparr>e_src = s, e_dst = d0, e_value = v\<rparr>" ss] by (meson subsetD)
  qed
qed

section \<open>The operations refine the channel relation\<close>

lemma edges_at_upd:
  "edges_at (g\<lparr>g_edges := (g_edges g)(v \<mapsto> rv), g_list := l\<rparr>) u = (if u = v then rv else edges_at g u)"
  by (simp add: edges_at_def)

lemma fold_snd: "fold (\<lambda>p. f (snd p)) ps = fold f (map snd ps)"
  by (simp add: fold_map comp_def)

lemma keyed_update: "keyed vs \<Longrightarrow> x \<noteq> [] \<Longrightarrow> keyed (AList.update x x vs)"
  using set_update_subset_insert by (induction vs) (auto simp: keyed_def)

lemma keyed_delete: "keyed vs \<Longrightarrow> keyed (AList.delete x vs)"
  by (auto simp: keyed_def AList.delete_eq)

lemma keys_delete: "fst ` set (AList.delete k l) = fst ` set l - {k}"
  by (force simp: AList.delete_eq)

lemma InsertOutgoing_refines:
  assumes inv: "Graph_inv g" and plain: "plain_names (snd (Graph_abs g))" and "e_src e \<noteq> []"
  shows "Graph_inv (InsertOutgoingEdge e g)"
    and "Graph_abs (InsertOutgoingEdge e g) =
      ((fst (Graph_abs g))(e_value e := insert (e_src e) (fst (Graph_abs g) (e_value e))),
       snd (Graph_abs g))"
proof -
  let ?v = "e_value e" and ?s = "e_src e" and ?W = "fst (Graph_abs g)" and ?R = "snd (Graph_abs g)"
  let ?rv = "edges_at g ?v"
  let ?g = "InsertOutgoingEdge e g"
  have keyed: "keyed (rv_src (edges_at g v))" "keyed (rv_dst (edges_at g v))" for v
    using inv by (simp_all add: Graph_inv_def)
  show abs: "Graph_abs ?g = (?W(?v := insert ?s (?W ?v)), ?R)"
    by (auto simp: InsertOutgoingEdge_def Let_def Graph_abs_def edges_at_upd fun_eq_iff
        dom_update map_of_eq_None_iff insert_absorb)
  have "edges_match (g_list ?g) (?W(?v := insert ?s (?W ?v))) ?R"
  proof (cases "map_of (rv_src ?rv) ?s")
    case None
    have "set (map snd (rv_dst ?rv)) = ?R ?v"
      using keyed_map_snd [OF keyed(2), of ?v] by (simp add: Graph_abs_def)
    from match_insert_out [OF _ plain this, of "g_list g" ?W ?s] inv None show ?thesis
      by (simp add: InsertOutgoingEdge_def Let_def fold_map comp_def Graph_inv_def)
  next
    case (Some x)
    then have "?s \<in> ?W ?v" by (force simp: Graph_abs_def dest: map_of_SomeD)
    with Some inv show ?thesis
      by (simp add: InsertOutgoingEdge_def Let_def Graph_inv_def insert_absorb)
  qed
  moreover have "keyed (rv_src (edges_at ?g v)) \<and> keyed (rv_dst (edges_at ?g v))" for v
    using keyed assms(3)
    by (simp add: InsertOutgoingEdge_def Let_def edges_at_upd keyed_update)
  ultimately show "Graph_inv ?g" by (simp add: Graph_inv_def abs)
qed

lemma InsertIncoming_refines:
  assumes inv: "Graph_inv g" and plain: "plain_names (snd (Graph_abs g))" and "e_dst e \<noteq> []"
    and "CHR ''_'' \<notin> set (e_dst e)"
  shows "Graph_inv (InsertIncomingEdge e g)"
    and "Graph_abs (InsertIncomingEdge e g) =
      (fst (Graph_abs g),
       (snd (Graph_abs g))(e_value e := insert (e_dst e) (snd (Graph_abs g) (e_value e))))"
proof -
  let ?v = "e_value e" and ?d = "e_dst e" and ?W = "fst (Graph_abs g)" and ?R = "snd (Graph_abs g)"
  let ?rv = "edges_at g ?v"
  let ?g = "InsertIncomingEdge e g"
  have keyed: "keyed (rv_src (edges_at g v))" "keyed (rv_dst (edges_at g v))" for v
    using inv by (simp_all add: Graph_inv_def)
  show abs: "Graph_abs ?g = (?W, ?R(?v := insert ?d (?R ?v)))"
    by (auto simp: InsertIncomingEdge_def Let_def Graph_abs_def edges_at_upd fun_eq_iff
        dom_update map_of_eq_None_iff insert_absorb)
  have plain': "plain_names (?R(?v := insert ?d (?R ?v)))"
    using plain assms(4) by (auto simp: plain_names_def)
  have "edges_match (g_list ?g) ?W (?R(?v := insert ?d (?R ?v)))"
  proof (cases "map_of (rv_dst ?rv) ?d")
    case None
    have "set (map snd (rv_src ?rv)) = ?W ?v"
      using keyed_map_snd [OF keyed(1), of ?v] by (simp add: Graph_abs_def)
    from match_insert_in [of "g_list g" ?W ?R ?v ?d, OF _ plain' this] inv None show ?thesis
      by (simp add: InsertIncomingEdge_def Let_def fold_map comp_def Graph_inv_def)
  next
    case (Some x)
    then have "?d \<in> ?R ?v" by (force simp: Graph_abs_def dest: map_of_SomeD)
    with Some inv show ?thesis
      by (simp add: InsertIncomingEdge_def Let_def Graph_inv_def insert_absorb)
  qed
  moreover have "keyed (rv_src (edges_at ?g v)) \<and> keyed (rv_dst (edges_at ?g v))" for v
    using keyed assms(3)
    by (simp add: InsertIncomingEdge_def Let_def edges_at_upd keyed_update)
  ultimately show "Graph_inv ?g" by (simp add: Graph_inv_def abs)
qed

lemma DeleteOutgoing_refines:
  assumes inv: "Graph_inv g" and plain: "plain_names (snd (Graph_abs g))"
  shows "Graph_inv (DeleteOutgoingEdge e g)"
    and "Graph_abs (DeleteOutgoingEdge e g) =
      ((fst (Graph_abs g))(e_value e := fst (Graph_abs g) (e_value e) - {e_src e}),
       snd (Graph_abs g))"
proof -
  let ?v = "e_value e" and ?s = "e_src e" and ?W = "fst (Graph_abs g)" and ?R = "snd (Graph_abs g)"
  let ?rv = "edges_at g ?v"
  let ?g = "DeleteOutgoingEdge e g"
  have keyed: "keyed (rv_src (edges_at g v))" "keyed (rv_dst (edges_at g v))" for v
    using inv by (simp_all add: Graph_inv_def)
  show abs: "Graph_abs ?g = (?W(?v := ?W ?v - {?s}), ?R)"
    by (auto simp: DeleteOutgoingEdge_def Let_def Graph_abs_def edges_at_upd fun_eq_iff
        keys_delete map_of_eq_None_iff)
  have "edges_match (g_list ?g) (?W(?v := ?W ?v - {?s})) ?R"
  proof (cases "map_of (rv_src ?rv) ?s")
    case (Some x)
    have "set (map snd (rv_dst ?rv)) = ?R ?v"
      using keyed_map_snd [OF keyed(2), of ?v] by (simp add: Graph_abs_def)
    from match_delete_out [OF _ plain this, of "g_list g" ?W ?s] inv Some show ?thesis
      by (simp add: DeleteOutgoingEdge_def Let_def fold_map comp_def Graph_inv_def)
  next
    case None
    then have "?s \<notin> ?W ?v" by (simp add: Graph_abs_def map_of_eq_None_iff)
    with None inv show ?thesis
      by (simp add: DeleteOutgoingEdge_def Let_def Graph_inv_def)
  qed
  moreover have "keyed (rv_src (edges_at ?g v)) \<and> keyed (rv_dst (edges_at ?g v))" for v
    using keyed by (simp add: DeleteOutgoingEdge_def Let_def edges_at_upd keyed_delete)
  ultimately show "Graph_inv ?g" by (simp add: Graph_inv_def abs)
qed

lemma DeleteIncoming_refines:
  assumes inv: "Graph_inv g" and plain: "plain_names (snd (Graph_abs g))"
  shows "Graph_inv (DeleteIncomingEdge e g)"
    and "Graph_abs (DeleteIncomingEdge e g) =
      (fst (Graph_abs g),
       (snd (Graph_abs g))(e_value e := snd (Graph_abs g) (e_value e) - {e_dst e}))"
proof -
  let ?v = "e_value e" and ?d = "e_dst e" and ?W = "fst (Graph_abs g)" and ?R = "snd (Graph_abs g)"
  let ?rv = "edges_at g ?v"
  let ?g = "DeleteIncomingEdge e g"
  have keyed: "keyed (rv_src (edges_at g v))" "keyed (rv_dst (edges_at g v))" for v
    using inv by (simp_all add: Graph_inv_def)
  show abs: "Graph_abs ?g = (?W, ?R(?v := ?R ?v - {?d}))"
    by (auto simp: DeleteIncomingEdge_def Let_def Graph_abs_def edges_at_upd fun_eq_iff
        keys_delete map_of_eq_None_iff)
  have "edges_match (g_list ?g) ?W (?R(?v := ?R ?v - {?d}))"
  proof (cases "map_of (rv_dst ?rv) ?d")
    case (Some x)
    then have d: "?d \<in> ?R ?v" by (force simp: Graph_abs_def dest: map_of_SomeD)
    have "set (map snd (rv_src ?rv)) = ?W ?v"
      using keyed_map_snd [OF keyed(1), of ?v] by (simp add: Graph_abs_def)
    from match_delete_in [of "g_list g" ?W ?R ?d ?v, OF _ plain d this] inv Some show ?thesis
      by (simp add: DeleteIncomingEdge_def Let_def fold_map comp_def Graph_inv_def)
  next
    case None
    then have "?d \<notin> ?R ?v" by (simp add: Graph_abs_def map_of_eq_None_iff)
    with None inv show ?thesis
      by (simp add: DeleteIncomingEdge_def Let_def Graph_inv_def)
  qed
  moreover have "keyed (rv_src (edges_at ?g v)) \<and> keyed (rv_dst (edges_at ?g v))" for v
    using keyed by (simp add: DeleteIncomingEdge_def Let_def edges_at_upd keyed_delete)
  ultimately show "Graph_inv ?g" by (simp add: Graph_inv_def abs)
qed

lemma edges_at_touch:
  "edges_at (if g_edges g v = None then g\<lparr>g_edges := (g_edges g)(v \<mapsto> \<lparr>rv_src = [], rv_dst = []\<rparr>)\<rparr>
     else g) u = edges_at g u"
  by (simp add: edges_at_def)

lemma Graph_Insert_refines:
  assumes inv: "Graph_inv g" and plain: "plain_names (snd (Graph_abs g))" "CHR ''_'' \<notin> set (e_dst e)"
  shows "Graph_inv (Graph_Insert e g) \<and> Graph_abs (Graph_Insert e g) = ch_insert e (Graph_abs g)"
proof (cases "Edge_IsValid e")
  case True
  define g1 where "g1 = (if g_edges g (e_value e) = None
    then g\<lparr>g_edges := (g_edges g)(e_value e \<mapsto> \<lparr>rv_src = [], rv_dst = []\<rparr>)\<rparr> else g)"
  have g1: "edges_at g1 = edges_at g" "g_list g1 = g_list g"
    unfolding g1_def by (simp_all add: fun_eq_iff edges_at_touch)
  then have abs1: "Graph_abs g1 = Graph_abs g" and inv1: "Graph_inv g1"
    using inv by (simp_all add: Graph_abs_def Graph_inv_def)
  define g2 where "g2 = (if e_src e \<noteq> [] then InsertOutgoingEdge e g1 else g1)"
  have abs2: "Graph_abs g2 =
      ((fst (Graph_abs g))(e_value e := fst (Graph_abs g) (e_value e) \<union> ({e_src e} - {[]})),
       snd (Graph_abs g))" and inv2: "Graph_inv g2"
    using InsertOutgoing_refines [OF inv1, of e] plain(1) inv1 by (auto simp: g2_def abs1)
  have "Graph_Insert e g = (if e_dst e \<noteq> [] then InsertIncomingEdge e g2 else g2)"
    using True by (simp add: Graph_Insert_def Let_def g1_def g2_def)
  then show ?thesis
    using InsertIncoming_refines [OF inv2, of e] plain inv2 True by (auto simp: abs2 ch_insert_def)
next
  case False
  then show ?thesis using inv by (simp add: Graph_Insert_def ch_insert_def)
qed

lemma Graph_Delete_refines:
  assumes inv: "Graph_inv g" and plain: "plain_names (snd (Graph_abs g))"
  shows "Graph_inv (Graph_Delete e g) \<and> Graph_abs (Graph_Delete e g) = ch_delete e (Graph_abs g)"
proof (cases "Edge_IsValid e \<and> g_edges g (e_value e) \<noteq> None")
  case True
  define g1 where "g1 = (if e_src e \<noteq> [] then DeleteOutgoingEdge e g else g)"
  have nd: "[] \<notin> fst (Graph_abs g) v" "[] \<notin> snd (Graph_abs g) v" for v
    using inv by (force simp: Graph_inv_def keyed_def Graph_abs_def)+
  have abs1: "Graph_abs g1 =
      ((fst (Graph_abs g))(e_value e := fst (Graph_abs g) (e_value e) - {e_src e}),
       snd (Graph_abs g))" and inv1: "Graph_inv g1"
    using DeleteOutgoing_refines [OF inv plain, of e] inv nd(1) by (auto simp: g1_def)
  have "Graph_Delete e g = (if e_dst e \<noteq> [] then DeleteIncomingEdge e g1 else g1)"
    using True by (auto simp: Graph_Delete_def Let_def g1_def)
  then show ?thesis
    using DeleteIncoming_refines [OF inv1, of e] plain inv1 True nd(2)
    by (auto simp: abs1 ch_delete_def)
next
  case False
  have "Graph_abs g = ch_delete e (Graph_abs g)" if "g_edges g (e_value e) = None"
    using that by (auto simp: ch_delete_def Graph_abs_def edges_at_def fun_eq_iff)
  with False show ?thesis using inv by (auto simp: Graph_Delete_def ch_delete_def)
qed

text \<open>Any history of insertions and deletions.\<close>

datatype graph_op = Ins Edge | Del Edge

fun graph_run :: "graph_op list \<Rightarrow> Graph \<Rightarrow> Graph" where
  "graph_run [] g = g"
| "graph_run (Ins e # ops) g = graph_run ops (Graph_Insert e g)"
| "graph_run (Del e # ops) g = graph_run ops (Graph_Delete e g)"

fun ch_run :: "graph_op list \<Rightarrow> channels \<Rightarrow> channels" where
  "ch_run [] c = c"
| "ch_run (Ins e # ops) c = ch_run ops (ch_insert e c)"
| "ch_run (Del e # ops) c = ch_run ops (ch_delete e c)"

fun plain_ops :: "graph_op list \<Rightarrow> bool" where
  "plain_ops [] = True"
| "plain_ops (Ins e # ops) = (CHR ''_'' \<notin> set (e_dst e) \<and> plain_ops ops)"
| "plain_ops (Del e # ops) = plain_ops ops"

lemma plain_ch_insert:
  "plain_names (snd c) \<Longrightarrow> CHR ''_'' \<notin> set (e_dst e) \<Longrightarrow> plain_names (snd (ch_insert e c))"
  by (auto simp: plain_names_def ch_insert_def)

lemma plain_ch_delete: "plain_names (snd c) \<Longrightarrow> plain_names (snd (ch_delete e c))"
  by (auto simp: plain_names_def ch_delete_def)

lemma graph_run_refines:
  assumes "Graph_inv g" and "plain_names (snd (Graph_abs g))" and "plain_ops ops"
  shows "Graph_inv (graph_run ops g) \<and> Graph_abs (graph_run ops g) = ch_run ops (Graph_abs g)"
  using assms
proof (induction ops g rule: graph_run.induct)
  case (2 e ops g)
  then show ?case using Graph_Insert_refines [of g e] plain_ch_insert by simp
next
  case (3 e ops g)
  then show ?case using Graph_Delete_refines [of g e] plain_ch_delete by simp
qed simp

lemma Graph_inv_ctor: "Graph_inv Graph_ctor"
  by (simp add: Graph_inv_def edges_match_def pairs_def Graph_abs_def edges_at_def edge_def
      list_at_def Graph_ctor_def keyed_def)

text \<open>The adjacency sets never hold a key twice, whatever the names.\<close>

definition sets_distinct :: "(string \<times> VerticeSet) list \<Rightarrow> bool" where
  "sets_distinct l \<longleftrightarrow> (\<forall>s. distinct (map fst (list_at l s)))"

lemma sets_distinct_InsertComplete: "sets_distinct l \<Longrightarrow> sets_distinct (InsertCompleteEdge e l)"
  by (simp add: sets_distinct_def InsertCompleteEdge_def Let_def list_at_update list_at_touch
      distinct_update)

lemma sets_distinct_DeleteComplete: "sets_distinct l \<Longrightarrow> sets_distinct (DeleteCompleteEdge e l)"
  by (simp add: sets_distinct_def DeleteCompleteEdge_def Let_def list_at_update distinct_delete)

lemma sets_distinct_fold:
  "sets_distinct l \<Longrightarrow> sets_distinct (fold (\<lambda>x. InsertCompleteEdge (f x)) xs l)"
  "sets_distinct l \<Longrightarrow> sets_distinct (fold (\<lambda>x. DeleteCompleteEdge (f x)) xs l)"
  by (induction xs arbitrary: l)
    (simp_all add: sets_distinct_InsertComplete sets_distinct_DeleteComplete)

lemma sets_distinct_run: "sets_distinct (g_list g) \<Longrightarrow> sets_distinct (g_list (graph_run ops g))"
proof (induction ops g rule: graph_run.induct)
  case (2 e ops g)
  have "sets_distinct (g_list (Graph_Insert e g))"
    using "2.prems" by (simp add: Graph_Insert_def InsertOutgoingEdge_def InsertIncomingEdge_def
        Let_def sets_distinct_fold)
  with "2.IH" show ?case by simp
next
  case (3 e ops g)
  have "sets_distinct (g_list (Graph_Delete e g))"
    using "3.prems" by (simp add: Graph_Delete_def DeleteOutgoingEdge_def DeleteIncomingEdge_def
        Let_def sets_distinct_fold)
  with "3.IH" show ?case by simp
qed simp

lemma adj_eq_leads_to:
  assumes "Graph_inv g" and "sets_distinct (g_list g)"
  shows "adj (g_list g) = leads_to (Graph_abs g)"
proof -
  have m: "edges_match (g_list g) (fst (Graph_abs g)) (snd (Graph_abs g))"
    using assms by (simp add: Graph_inv_def)
  have "(u, v) \<in> adj (g_list g) \<longleftrightarrow> (u, v) \<in> leads_to (Graph_abs g)" for u v
  proof -
    have "(u, v) \<in> adj (g_list g) \<longleftrightarrow> (\<exists>k. (k, v) \<in> set (list_at (g_list g) u))"
      by (force simp: adj_def)
    also have "\<dots> \<longleftrightarrow> (\<exists>k. edge (g_list g) u k = Some v)"
      using assms(2) by (simp add: edge_def sets_distinct_def)
    also have "\<dots> \<longleftrightarrow> (\<exists>k. (u, k, v) \<in> pairs (fst (Graph_abs g)) (snd (Graph_abs g)))"
      by (simp only: edges_matchD(1) [OF m])
    also have "\<dots> \<longleftrightarrow> (u, v) \<in> leads_to (Graph_abs g)"
      by (simp add: leads_to_def pairs_def)
    finally show ?thesis .
  qed
  then show ?thesis by auto
qed

lemma known_of_leads_to:
  assumes "Graph_inv g" and "(u, v) \<in> (leads_to (Graph_abs g))\<^sup>+"
  shows "map_of (g_list g) u \<noteq> None \<and> map_of (g_list g) v \<noteq> None"
proof -
  have "x \<in> fst ` set (g_list g) \<and> y \<in> fst ` set (g_list g)" if "(x, y) \<in> leads_to (Graph_abs g)" for x y
  proof -
    from that obtain w where "x \<in> fst (Graph_abs g) w" "y \<in> snd (Graph_abs g) w"
      by (auto simp: leads_to_def)
    then have "(x, edge_key w y, y) \<in> pairs (fst (Graph_abs g)) (snd (Graph_abs g))"
      by (rule pairsI) simp
    with assms(1) show ?thesis unfolding Graph_inv_def by (blast dest: edges_matchD(2))
  qed
  moreover obtain z where "(u, z) \<in> leads_to (Graph_abs g)" using assms(2) by (blast dest: tranclD)
  moreover obtain z where "(z, v) \<in> leads_to (Graph_abs g)" using assms(2) by (blast dest: tranclD2)
  ultimately show ?thesis by (metis map_of_eq_None_iff)
qed

text \<open>The direction after a history, from the channels alone.\<close>

lemma GetDirectionOf_run:
  assumes "plain_ops ops" and "lhs \<noteq> []" and "rhs \<noteq> []" and "lhs \<noteq> rhs"
  shows "Graph_GetDirectionOf lhs rhs (graph_run ops Graph_ctor) =
    (let r = leads_to (ch_run ops (\<lambda>_. {}, \<lambda>_. {})) in
     if (lhs, rhs) \<in> r\<^sup>+ then UPSTREAM else if (rhs, lhs) \<in> r\<^sup>+ then DOWNSTREAM else UNREACHABLE)"
proof -
  let ?g = "graph_run ops Graph_ctor"
  have abs0: "Graph_abs Graph_ctor = (\<lambda>_. {}, \<lambda>_. {})"
    by (simp add: Graph_abs_def edges_at_def Graph_ctor_def)
  then have "plain_names (snd (Graph_abs Graph_ctor))" by (simp add: plain_names_def)
  from graph_run_refines [OF Graph_inv_ctor this assms(1)]
  have inv: "Graph_inv ?g" and abs: "Graph_abs ?g = ch_run ops (\<lambda>_. {}, \<lambda>_. {})"
    by (simp_all add: abs0)
  have "sets_distinct (g_list Graph_ctor)"
    by (simp add: sets_distinct_def list_at_def Graph_ctor_def)
  then have "adj (g_list ?g) = leads_to (Graph_abs ?g)"
    by (intro adj_eq_leads_to inv sets_distinct_run)
  then have lt: "LevelTraverse (g_list ?g) u v \<longleftrightarrow> (u, v) \<in> (leads_to (Graph_abs ?g))\<^sup>+" if "u \<noteq> v" for u v
    using that by (simp add: LevelTraverse_iff rtrancl_eq_or_trancl)
  show ?thesis
    using assms(2-4) known_of_leads_to [OF inv, of lhs rhs] known_of_leads_to [OF inv, of rhs lhs]
    by (auto simp: Graph_GetDirectionOf_def lt Let_def simp flip: abs)
qed

section \<open>Properties\<close>

text \<open>
  C40: The breadth-first traversal terminates on every graph, cyclic ones included, and reports
  the end as visited exactly when it is reachable from the start.
\<close>

theorem LevelTraverse_reachable:
  "LevelTraverse l start target \<longleftrightarrow> (start, target) \<in> {(u, v). v \<in> snd ` set (list_at l u)}\<^sup>*"
  using LevelTraverse_iff [of l start target] by (simp add: adj_def)

text \<open>
  C19: After any history of insertions and deletions of edges and half edges, the graph answers
  by the channels alone: for two different nodes the direction is UPSTREAM exactly when a chain of
  channels leads from the first to the second, DOWNSTREAM when there is only a chain back, and
  UNREACHABLE otherwise; deleted writers and readers leave no trace. Names of reading nodes must
  not contain an underscore.
\<close>

theorem GetDirectionOf_history:
  assumes "plain_ops ops" and "lhs \<noteq> []" and "rhs \<noteq> []" and "lhs \<noteq> rhs"
  shows "Graph_GetDirectionOf lhs rhs (graph_run ops Graph_ctor) =
    (let r = leads_to (ch_run ops (\<lambda>_. {}, \<lambda>_. {})) in
     if (lhs, rhs) \<in> r\<^sup>+ then UPSTREAM else if (rhs, lhs) \<in> r\<^sup>+ then DOWNSTREAM else UNREACHABLE)"
  using assms by (rule GetDirectionOf_run)

theorem GetDirectionOf_history_witness:
  "\<exists>ops. Graph_GetDirectionOf ''a'' ''c'' (graph_run ops Graph_ctor) = UPSTREAM"
proof -
  let ?ops = "[Ins \<lparr>e_src = ''a'', e_dst = [], e_value = ''ch''\<rparr>,
    Ins \<lparr>e_src = [], e_dst = ''c'', e_value = ''ch''\<rparr>]"
  have "(''a'', ''c'') \<in> leads_to (ch_run ?ops (\<lambda>_. {}, \<lambda>_. {}))"
    by (auto simp: leads_to_def ch_insert_def Edge_IsValid_def)
  then have "Graph_GetDirectionOf ''a'' ''c'' (graph_run ?ops Graph_ctor) = UPSTREAM"
    using GetDirectionOf_history [of ?ops "''a''" "''c''"] by (auto simp: Let_def)
  then show ?thesis by blast
qed

text \<open>
  The key of a complete edge is ambiguous: channel \<open>a\<close> to node \<open>b_c\<close> and channel
  \<open>a_b\<close> to node \<open>c\<close> of the same writer share the key \<open>a_b_c\<close>. The second insertion
  overwrites the first, so the node \<open>b_c\<close>, which reads a channel the writer writes, is
  reported as unreachable from it.
\<close>

theorem edge_key_collision_loses_edge:
  "Graph_GetDirectionOf ''w'' ''b_c'' (graph_run
     [Ins \<lparr>e_src = ''w'', e_dst = ''b_c'', e_value = ''a''\<rparr>,
      Ins \<lparr>e_src = ''w'', e_dst = ''c'', e_value = ''a_b''\<rparr>] Graph_ctor) = UNREACHABLE"
  by (simp add: Graph_Insert_def Edge_IsValid_def InsertOutgoingEdge_def InsertIncomingEdge_def
      edges_at_def Graph_ctor_def InsertCompleteEdge_def Edge_GetKey_def list_at_def Let_def
      Graph_GetDirectionOf_def LevelTraverse_def)

end
