(* ===== verification/Circular_Buffer.thy ===== *)
theory Circular_Buffer
  imports Prelude
begin

text \<open>
  \<open>modules/chassis/parser/circular_buffer.h\<close>: the byte ring between a chassis device's receive
  thread and its parser. Operations run under the buffer's mutex; where the code waits on a
  condition variable (at most 20 ms) it gives the mutex up, and \<open>env\<close> is what the other
  threads made of the buffer by the time the wait ends, with or without the awaited condition.
  A failed \<open>ACHECK\<close> aborts the process: the operation then returns \<open>None\<close>. Indices and
  lengths are non-negative, the free count is an \<open>int\<close> because the code can drive it below
  zero. Notifications of waiters are left out.
\<close>

section \<open>State\<close>

record 'a CircularBuffer =
  cf_data :: "'a list"
  cf_is_closed :: bool
  cf_head :: nat
  cf_tail :: nat
  cf_capacity_cbuf :: nat
  cf_capacity_free :: int
  cf_statistic_len :: nat
  cf_statistic_len_last :: nat
  cf_check_cnt :: int

definition CircularBuffer_ctor :: "'a \<Rightarrow> nat \<Rightarrow> 'a CircularBuffer" where
  "CircularBuffer_ctor dflt s =
     \<lparr>cf_data = replicate s dflt, cf_is_closed = True, cf_head = 0, cf_tail = 0,
      cf_capacity_cbuf = s, cf_capacity_free = int s, cf_statistic_len = 0,
      cf_statistic_len_last = 0, cf_check_cnt = 0\<rparr>"

definition CircularBuffer_Open :: "'a CircularBuffer \<Rightarrow> 'a CircularBuffer" where
  "CircularBuffer_Open b = (if cf_is_closed b then b\<lparr>cf_is_closed := False\<rparr> else b)"

definition CircularBuffer_Close :: "'a CircularBuffer \<Rightarrow> 'a CircularBuffer" where
  "CircularBuffer_Close b = (if \<not> cf_is_closed b then b\<lparr>cf_is_closed := True\<rparr> else b)"

definition CircularBuffer_SetCapacity :: "'a \<Rightarrow> nat \<Rightarrow> 'a CircularBuffer \<Rightarrow> 'a CircularBuffer" where
  "CircularBuffer_SetCapacity dflt s b =
     b\<lparr>cf_data := take s (cf_data b) @ replicate (s - length (cf_data b)) dflt,
       cf_capacity_cbuf := s, cf_capacity_free := int s, cf_head := 0, cf_tail := 0\<rparr>"

definition CircularBuffer_IsEmpty :: "'a CircularBuffer \<Rightarrow> bool" where
  "CircularBuffer_IsEmpty b \<longleftrightarrow> cf_capacity_free b = int (cf_capacity_cbuf b)"

definition CircularBuffer_IsFull :: "'a CircularBuffer \<Rightarrow> bool" where
  "CircularBuffer_IsFull b \<longleftrightarrow> cf_capacity_free b = 0"

definition CircularBuffer_IsClosed :: "'a CircularBuffer \<Rightarrow> bool" where
  "CircularBuffer_IsClosed b = cf_is_closed b"

definition CircularBuffer_CbufSize :: "'a CircularBuffer \<Rightarrow> int" where
  "CircularBuffer_CbufSize b = int (cf_capacity_cbuf b) - cf_capacity_free b"

section \<open>Core loops\<close>

text \<open>The copy loops of \<open>ReadCore\<close>: successive positions of \<open>p\<close> from the given indices.\<close>

fun copy_out :: "'a list \<Rightarrow> nat list \<Rightarrow> nat \<Rightarrow> 'a list \<Rightarrow> 'a list" where
  "copy_out data [] cursor p = p"
| "copy_out data (j # js) cursor p = copy_out data js (cursor + 1) (p[cursor := data ! j])"

definition ReadCore :: "'a list \<Rightarrow> nat \<Rightarrow> 'a CircularBuffer \<Rightarrow> (bool \<times> 'a list) option" where
  "ReadCore p len b =
     (if cf_is_closed b then Some (True, p)
      else if \<not> (length (cf_data b) \<ge> len \<or> cf_capacity_cbuf b \<ge> len) then None
      else
        let tail = cf_tail b; cap = cf_capacity_cbuf b; data = cf_data b in
        if tail < cf_head b then Some (True, copy_out data [tail..<tail + len] 0 p)
        else if tail + len \<le> cap then Some (True, copy_out data [tail..<tail + len] 0 p)
        else
          let p1 = copy_out data [tail..<cap] 0 p in
          Some (True, copy_out data [0..<len + tail - cap] (cap - tail) p1))"

fun WriteCore_loop :: "'a list \<Rightarrow> 'a CircularBuffer \<Rightarrow> 'a CircularBuffer" where
  "WriteCore_loop [] b = b"
| "WriteCore_loop (v # vals) b =
     WriteCore_loop vals
       (b\<lparr>cf_data := (cf_data b)[cf_head b := v],
          cf_head := (cf_head b + 1) mod cf_capacity_cbuf b,
          cf_capacity_free := cf_capacity_free b - 1\<rparr>)"

definition WriteCore :: "'a list \<Rightarrow> 'a CircularBuffer \<Rightarrow> (bool \<times> 'a CircularBuffer) option" where
  "WriteCore vals b =
     (if cf_is_closed b then Some (True, b)
      else if \<not> (length vals > 0 \<and> length vals \<le> cf_capacity_cbuf b) then None
      else Some (True, WriteCore_loop vals
             (b\<lparr>cf_statistic_len := cf_statistic_len b + length vals\<rparr>)))"

text \<open>\<open>Restore(len)\<close>; both reset branches empty the buffer.\<close>

definition CircularBuffer_Restore :: "int \<Rightarrow> 'a CircularBuffer \<Rightarrow> bool \<times> 'a CircularBuffer" where
  "CircularBuffer_Restore len b =
     (let have = CircularBuffer_CbufSize b;
          reset = b\<lparr>cf_tail := 0, cf_head := 0, cf_capacity_free := int (cf_capacity_cbuf b)\<rparr> in
      if len = have + 1 then (True, reset)
      else if len > have then (False, reset)
      else (True, b\<lparr>cf_tail := nat ((int (cf_tail b) + len) mod int (cf_capacity_cbuf b)),
                    cf_capacity_free := cf_capacity_free b + len\<rparr>))"

definition CircularBuffer_Restore_all :: "'a CircularBuffer \<Rightarrow> bool \<times> 'a CircularBuffer" where
  "CircularBuffer_Restore_all b = CircularBuffer_Restore (CircularBuffer_CbufSize b) b"

section \<open>Public operations\<close>

definition CircularBuffer_Push1 ::
    "('a CircularBuffer \<Rightarrow> 'a CircularBuffer) \<Rightarrow> 'a \<Rightarrow> 'a CircularBuffer \<Rightarrow>
       (bool \<times> 'a CircularBuffer) option" where
  "CircularBuffer_Push1 env val b =
     (if cf_is_closed b then Some (False, b)
      else WriteCore [val] (if cf_capacity_free b < 1 then env b else b))"

text \<open>
  With too little space the code first drops the oldest elements, then waits for the condition
  that is then already true, so the wait returns at once.
\<close>

definition CircularBuffer_Push ::
    "('a CircularBuffer \<Rightarrow> 'a CircularBuffer) \<Rightarrow> 'a list \<Rightarrow> 'a CircularBuffer \<Rightarrow>
       (bool \<times> 'a CircularBuffer) option" where
  "CircularBuffer_Push env vals b =
     (if cf_is_closed b then Some (False, b)
      else
        let len = int (length vals);
            b1 = (if cf_capacity_free b < len
                  then (let b' = snd (CircularBuffer_Restore (len - cf_capacity_free b) b) in
                        if cf_capacity_free b' \<ge> len then b' else env b')
                  else b) in
        WriteCore vals b1)"

text \<open>The reads return the flag, the caller's vector and the buffer.\<close>

definition CircularBuffer_Read ::
    "('a CircularBuffer \<Rightarrow> 'a CircularBuffer) \<Rightarrow> 'a list \<Rightarrow> 'a CircularBuffer \<Rightarrow>
       (bool \<times> 'a list \<times> 'a CircularBuffer) option" where
  "CircularBuffer_Read env p b =
     (if cf_is_closed b then Some (True, p, b)
      else
        let b1 = (if CircularBuffer_CbufSize b = 0 then env b else b) in
        case ReadCore p (nat (CircularBuffer_CbufSize b1)) b1 of
          None \<Rightarrow> None
        | Some (False, p') \<Rightarrow> Some (False, p', b1)
        | Some (True, p') \<Rightarrow>
            Some (True, p', b1\<lparr>cf_tail := cf_head b1,
                               cf_capacity_free := int (cf_capacity_cbuf b1)\<rparr>))"

definition CircularBuffer_Read_len ::
    "('a CircularBuffer \<Rightarrow> 'a CircularBuffer) \<Rightarrow> 'a list \<Rightarrow> nat \<Rightarrow> 'a CircularBuffer \<Rightarrow>
       (bool \<times> 'a list \<times> 'a CircularBuffer) option" where
  "CircularBuffer_Read_len env p len b =
     (if cf_is_closed b then Some (True, p, b)
      else
        let b1 = (if CircularBuffer_CbufSize b < int len then env b else b) in
        case ReadCore p len b1 of
          None \<Rightarrow> None
        | Some (False, p') \<Rightarrow> Some (False, p', b1)
        | Some (True, p') \<Rightarrow>
            Some (True, p', b1\<lparr>cf_tail := (cf_tail b1 + len) mod cf_capacity_cbuf b1,
                               cf_capacity_free := cf_capacity_free b1 + int len\<rparr>))"

text \<open>
  The safe reads leave the data in place. The wait condition of the first (\<open>>= 0\<close>) always
  holds, so it never waits; the second tests the result of \<open>ReadCore\<close> the wrong way round.
\<close>

definition CircularBuffer_ReadSafely ::
    "'a list \<Rightarrow> 'a CircularBuffer \<Rightarrow> (bool \<times> 'a list \<times> 'a CircularBuffer) option" where
  "CircularBuffer_ReadSafely p b =
     (if cf_is_closed b then Some (True, p, b)
      else case ReadCore p (nat (CircularBuffer_CbufSize b)) b of
          None \<Rightarrow> None
        | Some (ok, p') \<Rightarrow> Some (ok, p', b))"

definition CircularBuffer_ReadSafely_len ::
    "('a CircularBuffer \<Rightarrow> 'a CircularBuffer) \<Rightarrow> 'a list \<Rightarrow> nat \<Rightarrow> 'a CircularBuffer \<Rightarrow>
       (bool \<times> 'a list \<times> 'a CircularBuffer) option" where
  "CircularBuffer_ReadSafely_len env p len b =
     (if cf_is_closed b then Some (True, p, b)
      else
        let b1 = (if CircularBuffer_CbufSize b < int len then env b else b) in
        case ReadCore p len b1 of
          None \<Rightarrow> None
        | Some (ok, p') \<Rightarrow> Some (if ok then False else True, p', b1))"

definition CircularBuffer_CheckCbuf :: "'a CircularBuffer \<Rightarrow> bool \<times> 'a CircularBuffer" where
  "CircularBuffer_CheckCbuf b =
     (let b' = b\<lparr>cf_check_cnt := cf_check_cnt b + 1,
                 cf_statistic_len_last := cf_statistic_len b\<rparr> in
      if cf_statistic_len b = cf_statistic_len_last b then (True, b') else (False, b'))"

section \<open>Invariant and contents\<close>

definition cbuf_have :: "'a CircularBuffer \<Rightarrow> nat" where
  "cbuf_have b = nat (CircularBuffer_CbufSize b)"

definition cbuf_inv :: "'a CircularBuffer \<Rightarrow> bool" where
  [cyber_inv]: "cbuf_inv b \<longleftrightarrow>
     0 < cf_capacity_cbuf b \<and> length (cf_data b) = cf_capacity_cbuf b \<and>
     cf_head b < cf_capacity_cbuf b \<and> cf_tail b < cf_capacity_cbuf b \<and>
     0 \<le> cf_capacity_free b \<and> cf_capacity_free b \<le> int (cf_capacity_cbuf b) \<and>
     (cf_tail b + cbuf_have b) mod cf_capacity_cbuf b = cf_head b"

definition cbuf_contents :: "'a CircularBuffer \<Rightarrow> 'a list" where
  "cbuf_contents b = ring_slice (cf_data b) (cf_tail b) (cf_tail b + cbuf_have b)"

lemma length_cbuf_contents [simp]: "length (cbuf_contents b) = cbuf_have b"
  by (simp add: cbuf_contents_def)

lemma cbuf_inv_ctor: "0 < s \<Longrightarrow> cbuf_inv (CircularBuffer_ctor dflt s)"
  by (simp add: cyber_inv CircularBuffer_ctor_def cbuf_have_def CircularBuffer_CbufSize_def)

lemma cbuf_inv_Open: "cbuf_inv b \<Longrightarrow> cbuf_inv (CircularBuffer_Open b)"
  by (simp add: cyber_inv CircularBuffer_Open_def cbuf_have_def CircularBuffer_CbufSize_def)

lemma cbuf_have_int: "cbuf_inv b \<Longrightarrow> int (cbuf_have b) = int (cf_capacity_cbuf b) - cf_capacity_free b"
  by (simp add: cbuf_have_def CircularBuffer_CbufSize_def cyber_inv)

text \<open>One written element.\<close>

lemma write_one:
  fixes v :: 'a
  assumes inv: "cbuf_inv b" and free: "1 \<le> cf_capacity_free b"
  defines "b' \<equiv> b\<lparr>cf_data := (cf_data b)[cf_head b := v],
    cf_head := (cf_head b + 1) mod cf_capacity_cbuf b, cf_capacity_free := cf_capacity_free b - 1\<rparr>"
  shows "cbuf_inv b' \<and> cbuf_contents b' = cbuf_contents b @ [v] \<and>
    cf_capacity_free b' = cf_capacity_free b - 1 \<and> cf_capacity_cbuf b' = cf_capacity_cbuf b"
proof -
  let ?n = "cf_capacity_cbuf b" and ?lo = "cf_tail b" and ?hi = "cf_tail b + cbuf_have b"
  have len: "length (cf_data b) = ?n" and hd: "?hi mod ?n = cf_head b" and n: "0 < ?n"
    using inv by (auto simp: cyber_inv)
  have "cf_capacity_free b \<le> int ?n" using inv by (simp add: cyber_inv)
  then have have': "cbuf_have b' = Suc (cbuf_have b)"
    by (simp add: b'_def cbuf_have_def CircularBuffer_CbufSize_def nat_diff_distrib' Suc_nat_eq_nat_zadd1)
  have "?hi - ?lo < length (cf_data b)"
    using cbuf_have_int [OF inv] free by (simp add: len)
  from ring_slice_push [OF _ this, of v]
  have "cbuf_contents b' = cbuf_contents b @ [v]"
    unfolding cbuf_contents_def have' by (simp add: b'_def hd len)
  moreover have "(cf_tail b + Suc (cbuf_have b)) mod ?n = (cf_head b + 1) mod ?n"
    using hd by (metis add_Suc_right mod_Suc_eq Suc_eq_plus1)
  then have "cbuf_inv b'"
    using inv free n have' by (simp add: b'_def cyber_inv)
  ultimately show ?thesis by (simp add: b'_def)
qed

lemma WriteCore_loop_spec:
  assumes "cbuf_inv b" and "int (length vals) \<le> cf_capacity_free b"
  shows "cbuf_inv (WriteCore_loop vals b) \<and>
    cbuf_contents (WriteCore_loop vals b) = cbuf_contents b @ vals"
  using assms
proof (induction vals arbitrary: b)
  case (Cons v vals)
  have "1 \<le> cf_capacity_free b" using Cons.prems(2) by simp
  from write_one [OF Cons.prems(1) this, of v] Cons show ?case by simp
qed simp

lemma WriteCore_spec:
  assumes "cbuf_inv b" and "\<not> cf_is_closed b" and "vals \<noteq> []"
    and "int (length vals) \<le> cf_capacity_free b"
  shows "\<exists>b'. WriteCore vals b = Some (True, b') \<and> cbuf_inv b' \<and>
    cbuf_contents b' = cbuf_contents b @ vals"
proof -
  let ?b = "b\<lparr>cf_statistic_len := cf_statistic_len b + length vals\<rparr>"
  have same: "cbuf_inv ?b" "cbuf_contents ?b = cbuf_contents b"
    using assms(1)
    by (simp_all add: cyber_inv cbuf_contents_def cbuf_have_def CircularBuffer_CbufSize_def)
  have "length vals \<le> cf_capacity_cbuf b" using assms(1,4) by (simp add: cyber_inv)
  then show ?thesis
    using WriteCore_loop_spec [OF same(1), of vals] same(2) assms by (simp add: WriteCore_def)
qed

text \<open>Dropping the oldest elements.\<close>

lemma drop_oldest:
  assumes inv: "cbuf_inv b" and "k \<le> cbuf_have b"
  defines "b' \<equiv> b\<lparr>cf_tail := (cf_tail b + k) mod cf_capacity_cbuf b,
    cf_capacity_free := cf_capacity_free b + int k\<rparr>"
  shows "cbuf_inv b' \<and> cbuf_contents b' = drop k (cbuf_contents b)"
proof -
  let ?n = "cf_capacity_cbuf b"
  have len: "length (cf_data b) = ?n" using inv by (simp add: cyber_inv)
  have have': "cbuf_have b' = cbuf_have b - k"
    using cbuf_have_int [OF inv] assms(2)
    by (simp add: b'_def cbuf_have_def CircularBuffer_CbufSize_def)
  have "((cf_tail b + k) mod ?n + (cbuf_have b - k)) mod ?n = (cf_tail b + cbuf_have b) mod ?n"
  proof -
    have "((cf_tail b + k) mod ?n + (cbuf_have b - k)) mod ?n = (cf_tail b + k + (cbuf_have b - k)) mod ?n"
      by (rule mod_add_left_eq)
    also have "cf_tail b + k + (cbuf_have b - k) = cf_tail b + cbuf_have b" using assms(2) by simp
    finally show ?thesis .
  qed
  then have "cbuf_inv b'"
    using inv have' cbuf_have_int [OF inv] assms(2) by (simp add: b'_def cyber_inv)
  moreover have "cbuf_contents b' =
      ring_slice (cf_data b) (cf_tail b + k) (cf_tail b + k + (cbuf_have b - k))"
    using ring_slice_mod [of "cf_data b" "cf_tail b + k" "cbuf_have b - k"]
    by (simp add: cbuf_contents_def have' len) (simp add: b'_def)
  ultimately show ?thesis
    using assms(2) by (simp add: cbuf_contents_def ring_slice_drop)
qed

lemma Restore_drop:
  assumes inv: "cbuf_inv b" and "k \<le> cbuf_have b"
  shows "CircularBuffer_Restore (int k) b =
    (True, b\<lparr>cf_tail := (cf_tail b + k) mod cf_capacity_cbuf b,
       cf_capacity_free := cf_capacity_free b + int k\<rparr>)"
proof -
  have "int k \<le> CircularBuffer_CbufSize b"
    using cbuf_have_int [OF inv] assms(2) by (simp add: CircularBuffer_CbufSize_def)
  moreover have "nat ((int (cf_tail b) + int k) mod int (cf_capacity_cbuf b)) =
      (cf_tail b + k) mod cf_capacity_cbuf b"
    by (metis nat_int of_nat_add of_nat_mod)
  ultimately show ?thesis by (simp add: CircularBuffer_Restore_def Let_def)
qed

text \<open>What the copy loops leave in the caller's vector.\<close>

lemma copy_out_eq:
  "cursor + length js \<le> length p \<Longrightarrow>
     copy_out data js cursor p = take cursor p @ map ((!) data) js @ drop (cursor + length js) p"
proof (induction data js cursor p rule: copy_out.induct)
  case (2 data j js cursor p)
  have "take (Suc cursor) (p[cursor := data ! j]) = take cursor p @ [data ! j]"
    using "2.prems" by (simp add: take_Suc_conv_app_nth)
  with 2 show ?case by simp
qed simp

lemma ReadCore_spec:
  assumes inv: "cbuf_inv b" and "\<not> cf_is_closed b" and len: "len \<le> cbuf_have b" "len \<le> length p"
  shows "ReadCore p len b = Some (True, take len (cbuf_contents b) @ drop len p)"
proof -
  let ?t = "cf_tail b" and ?n = "cf_capacity_cbuf b" and ?d = "cf_data b"
  have n: "length ?d = ?n" "?t < ?n" "cf_head b < ?n" using inv by (auto simp: cyber_inv)
  have hn: "cbuf_have b \<le> ?n" using inv cbuf_have_int [OF inv] by (simp add: cyber_inv)
  have cont: "take len (cbuf_contents b) = ring_slice ?d ?t (?t + len)"
    using len by (simp add: cbuf_contents_def ring_slice_take)
  have inside: "?t + len \<le> ?n" if "?t < cf_head b"
  proof (rule ccontr)
    assume "\<not> ?thesis"
    then have "(?t + cbuf_have b) mod ?n = ?t + cbuf_have b - ?n"
      using len n hn by (simp add: mod_if)
    moreover have "(?t + cbuf_have b) mod ?n = cf_head b" using inv by (simp add: cyber_inv)
    ultimately show False using that n hn by linarith
  qed
  show ?thesis
  proof (cases "?t + len \<le> ?n")
    case True
    then have "copy_out ?d [?t..<?t + len] 0 p = take len (cbuf_contents b) @ drop len p"
      using len(2) n by (simp add: cont ring_slice_inside copy_out_eq)
    with True len hn n assms(2) show ?thesis by (simp add: ReadCore_def Let_def)
  next
    case False
    let ?js = "[?t..<?n]" and ?ks = "[0..<len + ?t - ?n]"
    have wrap: "take len (cbuf_contents b) = map ((!) ?d) ?js @ map ((!) ?d) ?ks"
      using ring_slice_wrap [of ?t ?d "?t + len"] False n len hn by (simp add: cont add.commute)
    have "copy_out ?d ?js 0 p = map ((!) ?d) ?js @ drop (?n - ?t) p"
      using len False n by (simp add: copy_out_eq)
    then have "copy_out ?d ?ks (?n - ?t) (copy_out ?d ?js 0 p) =
        take len (cbuf_contents b) @ drop len p"
      using len False n by (simp add: copy_out_eq wrap)
    with False inside len hn n assms(2) show ?thesis by (auto simp: ReadCore_def Let_def)
  qed
qed

section \<open>The buffer as a queue of its contents\<close>

text \<open>What a reader of the buffer relies on: the operations as functions of the contents.\<close>

lemma Push_fits:
  assumes "cbuf_inv b" and "\<not> cf_is_closed b" and "vals \<noteq> []" and "cbuf_have b + length vals \<le> cf_capacity_cbuf b"
  obtains b' where "CircularBuffer_Push env vals b = Some (True, b')" and "cbuf_inv b'" and "cbuf_contents b' = cbuf_contents b @ vals"
    and "\<not> cf_is_closed b'" and "cf_capacity_cbuf b' = cf_capacity_cbuf b"
proof -
  have free: "int (length vals) \<le> cf_capacity_free b" using cbuf_have_int [OF assms(1)] assms(4) by linarith
  then have "CircularBuffer_Push env vals b = WriteCore vals b" using assms(2) by (simp add: CircularBuffer_Push_def)
  moreover obtain b' where b': "WriteCore vals b = Some (True, b')" "cbuf_inv b'" "cbuf_contents b' = cbuf_contents b @ vals"
    using WriteCore_spec [OF assms(1-3) free] by blast
  moreover have "cf_is_closed (WriteCore_loop xs c) = cf_is_closed c \<and> cf_capacity_cbuf (WriteCore_loop xs c) = cf_capacity_cbuf c" for xs and c :: "'a CircularBuffer"
    by (induction xs arbitrary: c) simp_all
  then have "\<not> cf_is_closed b'" "cf_capacity_cbuf b' = cf_capacity_cbuf b"
    using b'(1) assms(2) by (auto simp: WriteCore_def split: if_splits)
  ultimately show ?thesis using that by simp
qed

lemma ReadSafely_contents:
  assumes "cbuf_inv b" and "\<not> cf_is_closed b" and "length p = cbuf_have b"
  shows "CircularBuffer_ReadSafely p b = Some (True, cbuf_contents b, b)"
proof -
  have "ReadCore p (cbuf_have b) b = Some (True, cbuf_contents b)"
    using ReadCore_spec [OF assms(1,2), of "cbuf_have b" p] assms(3) by simp
  then show ?thesis using assms(2) by (simp add: CircularBuffer_ReadSafely_def flip: cbuf_have_def)
qed

lemma Restore_contents:
  assumes "cbuf_inv b" and "k \<le> cbuf_have b"
  defines "b' \<equiv> snd (CircularBuffer_Restore (int k) b)"
  shows "cbuf_inv b'" and "cbuf_contents b' = drop k (cbuf_contents b)" and "cf_is_closed b' = cf_is_closed b"
    and "cf_capacity_cbuf b' = cf_capacity_cbuf b"
  using drop_oldest [OF assms(1,2)] by (simp_all add: b'_def Restore_drop [OF assms(1,2)])

section \<open>Properties\<close>

text \<open>
  C27: Pushing a block of at most the capacity into an open buffer always succeeds and keeps the
  newest data: the contents become the last \<open>capacity\<close> elements of the old contents followed by
  the block, in order, whatever other threads do meanwhile; the ring's invariant is kept.
\<close>

theorem Push_keeps_newest:
  assumes "cbuf_inv b" and "\<not> cf_is_closed b" and "vals \<noteq> []"
    and "length vals \<le> cf_capacity_cbuf b"
  shows "\<exists>b'. CircularBuffer_Push env vals b = Some (True, b') \<and> cbuf_inv b' \<and>
    cbuf_contents b' = last_n (cf_capacity_cbuf b) (cbuf_contents b @ vals)"
proof -
  note have_int = cbuf_have_int [OF assms(1)]
  show ?thesis
  proof (cases "cf_capacity_free b < int (length vals)")
    case True
    let ?k = "nat (int (length vals) - cf_capacity_free b)"
    let ?b = "b\<lparr>cf_tail := (cf_tail b + ?k) mod cf_capacity_cbuf b,
       cf_capacity_free := cf_capacity_free b + int ?k\<rparr>"
    have k: "?k \<le> cbuf_have b" "int ?k = int (length vals) - cf_capacity_free b"
      using True assms(4) have_int by auto
    have inv: "cbuf_inv ?b" and cont: "cbuf_contents ?b = drop ?k (cbuf_contents b)"
      using drop_oldest [OF assms(1) k(1)] by simp_all
    have "CircularBuffer_Push env vals b = WriteCore vals ?b"
      using Restore_drop [OF assms(1) k(1)] True assms(2) k(2)
      by (simp add: CircularBuffer_Push_def Let_def)
    moreover have "drop ?k (cbuf_contents b) @ vals =
        last_n (cf_capacity_cbuf b) (cbuf_contents b @ vals)"
    proof -
      have "length (cbuf_contents b @ vals) - cf_capacity_cbuf b = ?k"
        using True have_int assms(1) by (simp add: cyber_inv)
      then show ?thesis using k(1) by (simp add: last_n_def)
    qed
    ultimately show ?thesis
      using WriteCore_spec [OF inv _ assms(3)] assms(2) k(2) cont by auto
  next
    case False
    then have "CircularBuffer_Push env vals b = WriteCore vals b"
      using assms(2) by (simp add: CircularBuffer_Push_def)
    moreover have "last_n (cf_capacity_cbuf b) (cbuf_contents b @ vals) = cbuf_contents b @ vals"
      using False have_int by simp
    ultimately show ?thesis using WriteCore_spec [OF assms(1-3)] False by auto
  qed
qed

theorem Push_keeps_newest_witness:
  "\<exists>b'. CircularBuffer_Push id [1, 2] (CircularBuffer_Open (CircularBuffer_ctor (0::int) 3)) =
     Some (True, b') \<and> cbuf_contents b' = [1, 2]"
  using Push_keeps_newest [of "CircularBuffer_Open (CircularBuffer_ctor (0::int) 3)" "[1, 2]" id]
    cbuf_inv_Open [OF cbuf_inv_ctor, of 3 "0::int"]
  by (auto simp: CircularBuffer_Open_def CircularBuffer_ctor_def last_n_def cbuf_contents_def
      cbuf_have_def CircularBuffer_CbufSize_def)

text \<open>
  Reading \<open>len\<close> elements that are there hands out the oldest \<open>len\<close>, in order, into the
  first \<open>len\<close> places of the caller's vector and removes exactly them; the rest of the vector,
  the remaining contents and the invariant are kept.
\<close>

theorem Read_len_oldest:
  assumes "cbuf_inv b" and "\<not> cf_is_closed b" and "len \<le> cbuf_have b" and "len \<le> length p"
  shows "\<exists>b'. CircularBuffer_Read_len env p len b =
      Some (True, take len (cbuf_contents b) @ drop len p, b') \<and>
    cbuf_inv b' \<and> cbuf_contents b' = drop len (cbuf_contents b)"
proof -
  have "\<not> CircularBuffer_CbufSize b < int len"
    using cbuf_have_int [OF assms(1)] assms(3) by (simp add: CircularBuffer_CbufSize_def)
  then show ?thesis
    using ReadCore_spec [OF assms] drop_oldest [OF assms(1,3)] assms(2)
    by (simp add: CircularBuffer_Read_len_def)
qed

theorem Read_len_oldest_witness:
  "\<exists>b'. CircularBuffer_Read_len id [9, 9]  1
     \<lparr>cf_data = [3, 7, 5::int], cf_is_closed = False, cf_head = Suc 0, cf_tail = 2,
      cf_capacity_cbuf = 3, cf_capacity_free = 1, cf_statistic_len = 0,
      cf_statistic_len_last = 0, cf_check_cnt = 0\<rparr> = Some (True, [5, 9], b') \<and>
     cbuf_contents b' = [3]"
proof -
  let ?b = "\<lparr>cf_data = [3, 7, 5::int], cf_is_closed = False, cf_head = Suc 0, cf_tail = 2,
      cf_capacity_cbuf = 3, cf_capacity_free = 1, cf_statistic_len = 0,
      cf_statistic_len_last = 0, cf_check_cnt = 0\<rparr>"
  have h: "cbuf_have ?b = 2" by (simp add: cbuf_have_def CircularBuffer_CbufSize_def)
  have "cbuf_inv ?b" by (simp add: cyber_inv cbuf_have_def CircularBuffer_CbufSize_def)
  moreover have "cbuf_contents ?b = [5, 3]"
    by (simp add: cbuf_contents_def h ring_slice_def upt_rec)
  ultimately show ?thesis
    using Read_len_oldest [of ?b 1 "[9, 9]" id] by (auto simp: h)
qed

text \<open>
  \<open>Read\<close> without a length drains the buffer: it hands out all the contents, in order, and
  leaves an empty buffer that still satisfies the invariant.
\<close>

theorem Read_drains:
  assumes "cbuf_inv b" and "\<not> cf_is_closed b" and "0 < cbuf_have b" and "cbuf_have b \<le> length p"
  shows "\<exists>b'. CircularBuffer_Read env p b =
      Some (True, cbuf_contents b @ drop (cbuf_have b) p, b') \<and>
    cbuf_inv b' \<and> cbuf_contents b' = [] \<and> CircularBuffer_IsEmpty b'"
proof -
  have "CircularBuffer_CbufSize b \<noteq> 0" using assms(3) by (auto simp: cbuf_have_def)
  moreover have "ReadCore p (nat (CircularBuffer_CbufSize b)) b =
      Some (True, cbuf_contents b @ drop (cbuf_have b) p)"
    using ReadCore_spec [OF assms(1,2) order_refl assms(4)] by (simp add: cbuf_have_def)
  ultimately show ?thesis
    using assms(1,2)
    by (simp add: CircularBuffer_Read_def cyber_inv cbuf_have_def CircularBuffer_CbufSize_def
        cbuf_contents_def CircularBuffer_IsEmpty_def)
qed

theorem Read_drains_witness:
  "\<exists>b'. CircularBuffer_Read id [9, 9, 9]
     \<lparr>cf_data = [3, 7, 5::int], cf_is_closed = False, cf_head = Suc 0, cf_tail = 2,
      cf_capacity_cbuf = 3, cf_capacity_free = 1, cf_statistic_len = 0,
      cf_statistic_len_last = 0, cf_check_cnt = 0\<rparr> = Some (True, [5, 3, 9], b') \<and>
     CircularBuffer_IsEmpty b'"
proof -
  let ?b = "\<lparr>cf_data = [3, 7, 5::int], cf_is_closed = False, cf_head = Suc 0, cf_tail = 2,
      cf_capacity_cbuf = 3, cf_capacity_free = 1, cf_statistic_len = 0,
      cf_statistic_len_last = 0, cf_check_cnt = 0\<rparr>"
  have h: "cbuf_have ?b = 2" by (simp add: cbuf_have_def CircularBuffer_CbufSize_def)
  have "cbuf_inv ?b" by (simp add: cyber_inv cbuf_have_def CircularBuffer_CbufSize_def)
  moreover have "cbuf_contents ?b = [5, 3]"
    by (simp add: cbuf_contents_def h ring_slice_def upt_rec)
  ultimately show ?thesis using Read_drains [of ?b "[9, 9, 9]" id] by (auto simp: h)
qed

text \<open>
  A single-element push on a full buffer from which nobody reads during the 20 ms wait
  reports success but breaks the ring: it overwrites the oldest element without moving the tail
  and drives the free count to \<open>-1\<close>, so the buffer then claims one element more than it has
  room for.
\<close>

theorem Push1_full_breaks_ring:
  assumes "cbuf_inv b" and "\<not> cf_is_closed b" and "CircularBuffer_IsFull b"
  shows "\<exists>b'. CircularBuffer_Push1 id v b = Some (True, b') \<and> \<not> cbuf_inv b' \<and>
    CircularBuffer_CbufSize b' = int (cf_capacity_cbuf b') + 1"
  using assms
  by (simp add: CircularBuffer_Push1_def WriteCore_def CircularBuffer_IsFull_def cyber_inv
      CircularBuffer_CbufSize_def)

theorem Push1_full_breaks_ring_witness:
  "\<exists>b'. CircularBuffer_Push1 id 4
     \<lparr>cf_data = [3, 7::int], cf_is_closed = False, cf_head = Suc 0, cf_tail = Suc 0,
      cf_capacity_cbuf = 2, cf_capacity_free = 0, cf_statistic_len = 0,
      cf_statistic_len_last = 0, cf_check_cnt = 0\<rparr> = Some (True, b') \<and> \<not> cbuf_inv b'"
  using Push1_full_breaks_ring [of "\<lparr>cf_data = [3, 7::int], cf_is_closed = False, cf_head = Suc 0,
      cf_tail = Suc 0, cf_capacity_cbuf = 2, cf_capacity_free = 0, cf_statistic_len = 0,
      cf_statistic_len_last = 0, cf_check_cnt = 0\<rparr>" 4]
  by (auto simp: CircularBuffer_IsFull_def cyber_inv cbuf_have_def CircularBuffer_CbufSize_def)

text \<open>
  \<open>ReadSafely(p, len)\<close> reports failure exactly when it succeeded: the requested data are
  copied out and \<open>false\<close> is returned.
\<close>

theorem ReadSafely_len_inverted:
  assumes "cbuf_inv b" and "\<not> cf_is_closed b" and "len \<le> cbuf_have b" and "len \<le> length p"
  shows "CircularBuffer_ReadSafely_len env p len b =
    Some (False, take len (cbuf_contents b) @ drop len p, b)"
proof -
  have "\<not> CircularBuffer_CbufSize b < int len"
    using cbuf_have_int [OF assms(1)] assms(3) by (simp add: CircularBuffer_CbufSize_def)
  then show ?thesis
    using ReadCore_spec [OF assms] assms(2) by (simp add: CircularBuffer_ReadSafely_len_def)
qed

theorem ReadSafely_len_inverted_witness:
  "CircularBuffer_ReadSafely_len id [9] 1
     \<lparr>cf_data = [3, 7::int], cf_is_closed = False, cf_head = Suc 0, cf_tail = 0,
      cf_capacity_cbuf = 2, cf_capacity_free = 1, cf_statistic_len = 0,
      cf_statistic_len_last = 0, cf_check_cnt = 0\<rparr> =
   Some (False, [3], \<lparr>cf_data = [3, 7::int], cf_is_closed = False, cf_head = Suc 0, cf_tail = 0,
      cf_capacity_cbuf = 2, cf_capacity_free = 1, cf_statistic_len = 0,
      cf_statistic_len_last = 0, cf_check_cnt = 0\<rparr>)"
  using ReadSafely_len_inverted [of "\<lparr>cf_data = [3, 7::int], cf_is_closed = False, cf_head = Suc 0,
      cf_tail = 0, cf_capacity_cbuf = 2, cf_capacity_free = 1, cf_statistic_len = 0,
      cf_statistic_len_last = 0, cf_check_cnt = 0\<rparr>" 1 "[9]" id]
  by (simp add: cyber_inv cbuf_have_def CircularBuffer_CbufSize_def cbuf_contents_def ring_slice_def)

end
