(* ===== verification/Warehouse.thy ===== *)
theory Warehouse
  imports Prelude "HOL-Library.AList"
begin

text \<open>
  \<open>cyber/service_discovery\<close>: the roles that take part in the topology (\<open>role/role.{h,cc}\<close>)
  and the two containers that hold them, with one role per key
  (\<open>container/single_value_warehouse.cc\<close>) or several (\<open>container/multi_value_warehouse.cc\<close>).
  Both implement \<open>WarehouseBase\<close>; the locale \<open>warehouse\<close> is that interface with its laws.
  Every operation holds the warehouse's lock. Output pointers are never null; a vector that is
  appended to is an argument and a result.
\<close>

section \<open>Roles\<close>

text \<open>Optional protobuf fields: reading an unset field yields the default.\<close>

record RoleAttributes =
  ra_host_name :: "string option"
  ra_process_id :: "int option"
  ra_node_id :: "nat option"
  ra_channel_id :: "nat option"
  ra_service_id :: "nat option"
  ra_id :: "nat option"
  ra_node_name :: "string option"
  ra_channel_name :: "string option"
  ra_message_type :: "string option"
  ra_proto_desc :: "string option"
  ra_service_name :: "string option"

definition pb_get :: "'a \<Rightarrow> 'a option \<Rightarrow> 'a" where
  "pb_get dflt field = (case field of Some x \<Rightarrow> x | None \<Rightarrow> dflt)"

definition pb_matches :: "'a \<Rightarrow> 'a option \<Rightarrow> 'a option \<Rightarrow> bool" where
  "pb_matches dflt target mine \<longleftrightarrow> \<not> (target \<noteq> None \<and> pb_get dflt target \<noteq> pb_get dflt mine)"

datatype RoleKind = RoleNode | RoleWriter | RoleServer

record Role =
  ro_kind :: RoleKind
  ro_attributes :: RoleAttributes
  ro_timestamp_ns :: nat

definition RoleBase_Match :: "RoleAttributes \<Rightarrow> Role \<Rightarrow> bool" where
  "RoleBase_Match target_attr r =
     (if \<not> pb_matches 0 (ra_node_id target_attr) (ra_node_id (ro_attributes r)) then False
      else if \<not> pb_matches 0 (ra_process_id target_attr) (ra_process_id (ro_attributes r)) then False
      else if \<not> pb_matches [] (ra_host_name target_attr) (ra_host_name (ro_attributes r)) then False
      else True)"

definition RoleWriter_Match :: "RoleAttributes \<Rightarrow> Role \<Rightarrow> bool" where
  "RoleWriter_Match target_attr r =
     (if \<not> pb_matches 0 (ra_channel_id target_attr) (ra_channel_id (ro_attributes r)) then False
      else if \<not> pb_matches 0 (ra_id target_attr) (ra_id (ro_attributes r)) then False
      else RoleBase_Match target_attr r)"

definition RoleServer_Match :: "RoleAttributes \<Rightarrow> Role \<Rightarrow> bool" where
  "RoleServer_Match target_attr r =
     (if \<not> pb_matches 0 (ra_service_id target_attr) (ra_service_id (ro_attributes r)) then False
      else RoleBase_Match target_attr r)"

text \<open>The virtual call.\<close>

definition Role_Match :: "RoleAttributes \<Rightarrow> Role \<Rightarrow> bool" where
  "Role_Match target_attr r =
     (case ro_kind r of
        RoleNode \<Rightarrow> RoleBase_Match target_attr r
      | RoleWriter \<Rightarrow> RoleWriter_Match target_attr r
      | RoleServer \<Rightarrow> RoleServer_Match target_attr r)"

definition Role_IsEarlierThan :: "Role \<Rightarrow> Role \<Rightarrow> bool" where
  "Role_IsEarlierThan r other \<longleftrightarrow> ro_timestamp_ns r < ro_timestamp_ns other"

lemma Role_Match_self: "Role_Match (ro_attributes r) r"
  by (simp add: Role_Match_def RoleBase_Match_def RoleWriter_Match_def RoleServer_Match_def
      pb_matches_def split: RoleKind.split)

section \<open>Loops shared by the containers\<close>

text \<open>The erase loop, the first match and the collecting loop over a range of items.\<close>

type_synonym role_map = "(nat \<times> Role) list"

fun erase_loop :: "(nat \<times> Role \<Rightarrow> bool) \<Rightarrow> role_map \<Rightarrow> role_map" where
  "erase_loop P [] = []"
| "erase_loop P (it # rest) = (if P it then erase_loop P rest else it # erase_loop P rest)"

fun first_loop :: "(nat \<times> Role \<Rightarrow> bool) \<Rightarrow> role_map \<Rightarrow> Role option" where
  "first_loop P [] = None"
| "first_loop P (item # rest) = (if P item then Some (snd item) else first_loop P rest)"

fun collect_loop :: "(nat \<times> Role \<Rightarrow> bool) \<Rightarrow> (Role \<Rightarrow> 'b) \<Rightarrow> role_map \<Rightarrow> bool \<times> 'b list \<Rightarrow> bool \<times> 'b list"
where
  "collect_loop P f [] (found, out) = (found, out)"
| "collect_loop P f (item # rest) (found, out) =
     collect_loop P f rest (if P item then (True, out @ [f (snd item)]) else (found, out))"

lemma erase_loop_filter: "erase_loop P rs = filter (\<lambda>it. \<not> P it) rs"
  by (induction rs) auto

lemma first_loop_find: "first_loop P rs = map_option snd (List.find P rs)"
  by (induction rs) auto

lemma collect_loop_filter:
  "collect_loop P f rs (found, out) =
     (found \<or> filter P rs \<noteq> [], out @ map (\<lambda>it. f (snd it)) (filter P rs))"
  by (induction rs arbitrary: found out) auto

section \<open>SingleValueWarehouse\<close>

definition Single_Add :: "nat \<Rightarrow> Role \<Rightarrow> bool \<Rightarrow> role_map \<Rightarrow> bool \<times> role_map" where
  "Single_Add key role ignore_if_exist roles =
     (if \<not> ignore_if_exist \<and> map_of roles key \<noteq> None then (False, roles)
      else (True, AList.update key role roles))"

definition Single_Clear :: "role_map \<Rightarrow> role_map" where
  "Single_Clear roles = []"

definition Single_Size :: "role_map \<Rightarrow> nat" where
  "Single_Size roles = length roles"

definition Single_Remove_key :: "nat \<Rightarrow> role_map \<Rightarrow> role_map" where
  "Single_Remove_key key roles = AList.delete key roles"

definition Single_Remove_role :: "nat \<Rightarrow> Role \<Rightarrow> role_map \<Rightarrow> role_map" where
  "Single_Remove_role key role roles =
     (case map_of roles key of
        None \<Rightarrow> roles
      | Some r \<Rightarrow> if \<not> Role_Match (ro_attributes role) r then roles else AList.delete key roles)"

definition Single_Remove_attr :: "RoleAttributes \<Rightarrow> role_map \<Rightarrow> role_map" where
  "Single_Remove_attr target_attr roles = erase_loop (\<lambda>it. Role_Match target_attr (snd it)) roles"

definition Single_Search_key_role :: "nat \<Rightarrow> role_map \<Rightarrow> Role option" where
  "Single_Search_key_role key roles = map_of roles key"

definition Single_Search_key :: "nat \<Rightarrow> role_map \<Rightarrow> bool" where
  "Single_Search_key key roles \<longleftrightarrow> Single_Search_key_role key roles \<noteq> None"

definition Single_Search_key_attr :: "nat \<Rightarrow> role_map \<Rightarrow> RoleAttributes option" where
  "Single_Search_key_attr key roles =
     (case Single_Search_key_role key roles of None \<Rightarrow> None | Some r \<Rightarrow> Some (ro_attributes r))"

definition Single_Search_key_roles :: "nat \<Rightarrow> role_map \<Rightarrow> Role list \<Rightarrow> bool \<times> Role list" where
  "Single_Search_key_roles key roles out =
     (case Single_Search_key_role key roles of None \<Rightarrow> (False, out) | Some r \<Rightarrow> (True, out @ [r]))"

definition Single_Search_key_attrs ::
    "nat \<Rightarrow> role_map \<Rightarrow> RoleAttributes list \<Rightarrow> bool \<times> RoleAttributes list" where
  "Single_Search_key_attrs key roles out =
     (case Single_Search_key_role key roles of
        None \<Rightarrow> (False, out) | Some r \<Rightarrow> (True, out @ [ro_attributes r]))"

definition Single_Search_target_role :: "RoleAttributes \<Rightarrow> role_map \<Rightarrow> Role option" where
  "Single_Search_target_role target_attr roles =
     first_loop (\<lambda>it. Role_Match target_attr (snd it)) roles"

definition Single_Search_target :: "RoleAttributes \<Rightarrow> role_map \<Rightarrow> bool" where
  "Single_Search_target target_attr roles \<longleftrightarrow> Single_Search_target_role target_attr roles \<noteq> None"

definition Single_Search_target_attr :: "RoleAttributes \<Rightarrow> role_map \<Rightarrow> RoleAttributes option" where
  "Single_Search_target_attr target_attr roles =
     (case Single_Search_target_role target_attr roles of
        None \<Rightarrow> None | Some r \<Rightarrow> Some (ro_attributes r))"

definition Single_Search_target_roles ::
    "RoleAttributes \<Rightarrow> role_map \<Rightarrow> Role list \<Rightarrow> bool \<times> Role list" where
  "Single_Search_target_roles target_attr roles out =
     collect_loop (\<lambda>it. Role_Match target_attr (snd it)) id roles (False, out)"

definition Single_Search_target_attrs ::
    "RoleAttributes \<Rightarrow> role_map \<Rightarrow> RoleAttributes list \<Rightarrow> bool \<times> RoleAttributes list" where
  "Single_Search_target_attrs target_attr roles out =
     collect_loop (\<lambda>it. Role_Match target_attr (snd it)) ro_attributes roles (False, out)"

definition Single_GetAllRoles :: "role_map \<Rightarrow> Role list \<Rightarrow> Role list" where
  "Single_GetAllRoles roles out = out @ map snd roles"

definition Single_GetAllRoles_attrs :: "role_map \<Rightarrow> RoleAttributes list \<Rightarrow> RoleAttributes list" where
  "Single_GetAllRoles_attrs roles out = out @ map (\<lambda>item. ro_attributes (snd item)) roles"

section \<open>MultiValueWarehouse\<close>

definition Multi_Add :: "nat \<Rightarrow> Role \<Rightarrow> bool \<Rightarrow> role_map \<Rightarrow> bool \<times> role_map" where
  "Multi_Add key role ignore_if_exist roles =
     (if \<not> ignore_if_exist \<and> map_of roles key \<noteq> None then (False, roles)
      else (True, roles @ [(key, role)]))"

definition Multi_Clear :: "role_map \<Rightarrow> role_map" where
  "Multi_Clear roles = []"

definition Multi_Size :: "role_map \<Rightarrow> nat" where
  "Multi_Size roles = length roles"

definition Multi_Remove_key :: "nat \<Rightarrow> role_map \<Rightarrow> role_map" where
  "Multi_Remove_key key roles = AList.delete key roles"

definition Multi_Remove_role :: "nat \<Rightarrow> Role \<Rightarrow> role_map \<Rightarrow> role_map" where
  "Multi_Remove_role key role roles =
     erase_loop (\<lambda>it. fst it = key \<and> Role_Match (ro_attributes role) (snd it)) roles"

definition Multi_Remove_attr :: "RoleAttributes \<Rightarrow> role_map \<Rightarrow> role_map" where
  "Multi_Remove_attr target_attr roles = erase_loop (\<lambda>it. Role_Match target_attr (snd it)) roles"

definition Multi_Search_key_role :: "nat \<Rightarrow> role_map \<Rightarrow> Role option" where
  "Multi_Search_key_role key roles = map_of roles key"

definition Multi_Search_key :: "nat \<Rightarrow> role_map \<Rightarrow> bool" where
  "Multi_Search_key key roles \<longleftrightarrow> Multi_Search_key_role key roles \<noteq> None"

definition Multi_Search_key_attr :: "nat \<Rightarrow> role_map \<Rightarrow> RoleAttributes option" where
  "Multi_Search_key_attr key roles =
     (case Multi_Search_key_role key roles of None \<Rightarrow> None | Some r \<Rightarrow> Some (ro_attributes r))"

definition Multi_Search_key_roles :: "nat \<Rightarrow> role_map \<Rightarrow> Role list \<Rightarrow> bool \<times> Role list" where
  "Multi_Search_key_roles key roles out = collect_loop (\<lambda>it. fst it = key) id roles (False, out)"

definition Multi_Search_key_attrs ::
    "nat \<Rightarrow> role_map \<Rightarrow> RoleAttributes list \<Rightarrow> bool \<times> RoleAttributes list" where
  "Multi_Search_key_attrs key roles out =
     collect_loop (\<lambda>it. fst it = key) ro_attributes roles (False, out)"

definition Multi_Search_target_role :: "RoleAttributes \<Rightarrow> role_map \<Rightarrow> Role option" where
  "Multi_Search_target_role target_attr roles =
     first_loop (\<lambda>it. Role_Match target_attr (snd it)) roles"

definition Multi_Search_target :: "RoleAttributes \<Rightarrow> role_map \<Rightarrow> bool" where
  "Multi_Search_target target_attr roles \<longleftrightarrow> Multi_Search_target_role target_attr roles \<noteq> None"

definition Multi_Search_target_attr :: "RoleAttributes \<Rightarrow> role_map \<Rightarrow> RoleAttributes option" where
  "Multi_Search_target_attr target_attr roles =
     (case Multi_Search_target_role target_attr roles of
        None \<Rightarrow> None | Some r \<Rightarrow> Some (ro_attributes r))"

definition Multi_Search_target_roles ::
    "RoleAttributes \<Rightarrow> role_map \<Rightarrow> Role list \<Rightarrow> bool \<times> Role list" where
  "Multi_Search_target_roles target_attr roles out =
     collect_loop (\<lambda>it. Role_Match target_attr (snd it)) id roles (False, out)"

definition Multi_Search_target_attrs ::
    "RoleAttributes \<Rightarrow> role_map \<Rightarrow> RoleAttributes list \<Rightarrow> bool \<times> RoleAttributes list" where
  "Multi_Search_target_attrs target_attr roles out =
     collect_loop (\<lambda>it. Role_Match target_attr (snd it)) ro_attributes roles (False, out)"

definition Multi_GetAllRoles :: "role_map \<Rightarrow> Role list \<Rightarrow> Role list" where
  "Multi_GetAllRoles roles out = out @ map snd roles"

definition Multi_GetAllRoles_attrs :: "role_map \<Rightarrow> RoleAttributes list \<Rightarrow> RoleAttributes list" where
  "Multi_GetAllRoles_attrs roles out = out @ map (\<lambda>item. ro_attributes (snd item)) roles"

section \<open>The interface \<open>WarehouseBase\<close>\<close>

text \<open>
  \<open>held w k\<close> is the list of roles stored under a key. The laws say what the operations do to
  it; the lemmas are what the topology managers rely on, for either container.
\<close>

locale warehouse =
  fixes inv :: "role_map \<Rightarrow> bool"
    and add :: "nat \<Rightarrow> Role \<Rightarrow> bool \<Rightarrow> role_map \<Rightarrow> bool \<times> role_map"
    and remove_key :: "nat \<Rightarrow> role_map \<Rightarrow> role_map"
    and remove_role :: "nat \<Rightarrow> Role \<Rightarrow> role_map \<Rightarrow> role_map"
    and remove_attr :: "RoleAttributes \<Rightarrow> role_map \<Rightarrow> role_map"
    and search_key :: "nat \<Rightarrow> role_map \<Rightarrow> Role option"
    and search_keys :: "nat \<Rightarrow> role_map \<Rightarrow> Role list \<Rightarrow> bool \<times> Role list"
    and search_target :: "RoleAttributes \<Rightarrow> role_map \<Rightarrow> Role option"
    and search_targets :: "RoleAttributes \<Rightarrow> role_map \<Rightarrow> Role list \<Rightarrow> bool \<times> Role list"
  assumes inv_add: "inv w \<Longrightarrow> inv (snd (add k r ign w))"
    and inv_remove: "inv w \<Longrightarrow> inv (remove_key k w)" "inv w \<Longrightarrow> inv (remove_role k r w)"
      "inv w \<Longrightarrow> inv (remove_attr t w)"
    and add_refused: "inv w \<Longrightarrow> fst (add k r ign w) \<longleftrightarrow> ign \<or> search_key k w = None"
    and add_refused_same: "inv w \<Longrightarrow> \<not> fst (add k r ign w) \<Longrightarrow> snd (add k r ign w) = w"
    and add_holds: "inv w \<Longrightarrow> fst (add k r ign w) \<Longrightarrow> (k, r) \<in> set (snd (add k r ign w))"
    and add_other: "inv w \<Longrightarrow> k' \<noteq> k \<Longrightarrow>
      filter (\<lambda>it. fst it = k') (snd (add k r ign w)) = filter (\<lambda>it. fst it = k') w"
    and remove_key_set: "inv w \<Longrightarrow> set (remove_key k w) = {it \<in> set w. fst it \<noteq> k}"
    and remove_role_set: "inv w \<Longrightarrow> set (remove_role k r w) =
      {it \<in> set w. \<not> (fst it = k \<and> Role_Match (ro_attributes r) (snd it))}"
    and remove_attr_set: "inv w \<Longrightarrow> set (remove_attr t w) = {it \<in> set w. \<not> Role_Match t (snd it)}"
    and search_key_eq: "inv w \<Longrightarrow> search_key k w = map_of w k"
    and search_keys_eq: "inv w \<Longrightarrow> search_keys k w out =
      (\<exists>r. (k, r) \<in> set w, out @ map snd (filter (\<lambda>it. fst it = k) w))"
    and search_target_eq: "inv w \<Longrightarrow>
      search_target t w = map_option snd (List.find (\<lambda>it. Role_Match t (snd it)) w)"
    and search_targets_eq: "inv w \<Longrightarrow> search_targets t w out =
      (\<exists>it \<in> set w. Role_Match t (snd it), out @ map snd (filter (\<lambda>it. Role_Match t (snd it)) w))"
begin

text \<open>A role that joins is found by its key and by its own attributes.\<close>

lemma add_found:
  assumes "inv w" and "add k r True w = (ok, w')"
  shows "ok \<and> search_key k w' \<noteq> None \<and> search_target (ro_attributes r) w' \<noteq> None \<and>
    r \<in> set (snd (search_keys k w' []))"
proof -
  have ok: ok and inv': "inv w'" and mem: "(k, r) \<in> set w'"
    using add_refused [of w k r True] add_holds [of w k r True] inv_add [of w k r True] assms by auto
  have "search_key k w' \<noteq> None"
    using mem by (metis inv' search_key_eq map_of_eq_None_iff fst_conv image_eqI)
  moreover have "search_target (ro_attributes r) w' \<noteq> None"
    using mem Role_Match_self [of r] by (auto simp: search_target_eq inv' find_None_iff)
  moreover have "r \<in> set (snd (search_keys k w' []))"
    using mem by (force simp: search_keys_eq inv')
  ultimately show ?thesis using ok by blast
qed

text \<open>A role that leaves is not found any more, and nobody else is affected.\<close>

lemma remove_role_gone:
  assumes "inv w"
  shows "(k, r) \<notin> set (remove_role k r w) \<and>
    (k' \<noteq> k \<longrightarrow> ((k', r') \<in> set (remove_role k r w) \<longleftrightarrow> (k', r') \<in> set w))"
  using Role_Match_self [of r] by (auto simp: remove_role_set assms)

lemma remove_attr_gone:
  assumes "inv w"
  shows "search_target t (remove_attr t w) = None \<and>
    (\<not> Role_Match t r \<longrightarrow> ((k, r) \<in> set (remove_attr t w) \<longleftrightarrow> (k, r) \<in> set w))"
  by (auto simp: search_target_eq inv_remove assms find_None_iff remove_attr_set)

lemma search_targets_iff:
  assumes "inv w"
  shows "fst (search_targets t w out) \<longleftrightarrow> search_target t w \<noteq> None"
  by (simp add: search_targets_eq search_target_eq assms find_None_iff Bex_def)

end

definition single_inv :: "role_map \<Rightarrow> bool" where
  "single_inv w \<longleftrightarrow> distinct (map fst w)"

lemma distinct_erase: "distinct (map fst w) \<Longrightarrow> distinct (map fst (filter P w))"
  by (induction w) auto

lemma filter_key_single:
  "single_inv w \<Longrightarrow> map snd (filter (\<lambda>it. fst it = k) w) =
     (case map_of w k of None \<Rightarrow> [] | Some r \<Rightarrow> [r])"
proof (induction w)
  case (Cons it w)
  obtain k' r where it: "it = (k', r)" by (cases it)
  have "k' \<notin> fst ` set w" using Cons.prems it by (simp add: single_inv_def)
  then have none: "map_of w k' = None" by (simp add: map_of_eq_None_iff)
  have "single_inv w" using Cons.prems by (simp add: single_inv_def)
  with Cons.IH none it show ?case by (cases "k' = k") auto
qed (simp add: single_inv_def)

lemma filter_update_other:
  "k' \<noteq> k \<Longrightarrow> filter (\<lambda>it. fst it = k') (AList.update k r w) = filter (\<lambda>it. fst it = k') w"
  by (induction w) auto

lemma set_delete: "set (AList.delete k w) = {it \<in> set w. fst it \<noteq> k}"
  by (auto simp: AList.delete_eq)

lemma key_mem_map_of: "(\<exists>r. (k, r) \<in> set w) \<longleftrightarrow> map_of w k \<noteq> None"
  by (metis map_of_SomeD map_of_eq_None_iff fst_conv image_eqI not_None_eq)

interpretation single: warehouse single_inv Single_Add Single_Remove_key Single_Remove_role
    Single_Remove_attr Single_Search_key_role Single_Search_key_roles Single_Search_target_role
    Single_Search_target_roles
proof (unfold_locales, goal_cases)
  case (1 w k r ign)
  then show ?case by (simp add: Single_Add_def single_inv_def distinct_update)
next
  case (2 w k)
  then show ?case by (simp add: Single_Remove_key_def single_inv_def distinct_delete)
next
  case (3 w k r)
  then show ?case by (simp add: Single_Remove_role_def single_inv_def distinct_delete split: option.split)
next
  case (4 w t)
  then show ?case
    by (simp add: Single_Remove_attr_def single_inv_def erase_loop_filter distinct_erase)
next
  case (5 w k r ign)
  show ?case by (simp add: Single_Add_def Single_Search_key_role_def)
next
  case (6 w k r ign)
  then show ?case by (simp add: Single_Add_def split: if_splits)
next
  case (7 w k r ign)
  then have "map_of (snd (Single_Add k r ign w)) k = Some r"
    by (auto simp: Single_Add_def update_conv')
  then show ?case by (rule map_of_SomeD)
next
  case (8 w k' k r ign)
  then show ?case by (simp add: Single_Add_def filter_update_other)
next
  case (9 w k)
  show ?case by (simp add: Single_Remove_key_def set_delete)
next
  case (10 w k r)
  show ?case
  proof (cases "map_of w k")
    case None
    then have "\<forall>it \<in> set w. fst it \<noteq> k" by (auto simp: map_of_eq_None_iff)
    with None show ?thesis by (auto simp: Single_Remove_role_def)
  next
    case (Some r')
    then have "(k, x) \<in> set w \<longleftrightarrow> x = r'" for x
      using 10 by (metis single_inv_def Some_eq_map_of_iff option.inject)
    with Some show ?thesis by (auto simp: Single_Remove_role_def set_delete)
  qed
next
  case (11 w t)
  show ?case by (auto simp: Single_Remove_attr_def erase_loop_filter)
next
  case (12 w k)
  show ?case by (simp add: Single_Search_key_role_def)
next
  case (13 w k out)
  then show ?case
    by (simp add: Single_Search_key_roles_def Single_Search_key_role_def filter_key_single
        key_mem_map_of split: option.split)
next
  case (14 w t)
  show ?case by (simp add: Single_Search_target_role_def first_loop_find)
next
  case (15 w t out)
  show ?case by (auto simp: Single_Search_target_roles_def collect_loop_filter filter_empty_conv)
qed

interpretation multi: warehouse "\<lambda>_. True" Multi_Add Multi_Remove_key Multi_Remove_role
    Multi_Remove_attr Multi_Search_key_role Multi_Search_key_roles Multi_Search_target_role
    Multi_Search_target_roles
proof (unfold_locales, goal_cases)
  case (5 w k r ign)
  show ?case by (simp add: Multi_Add_def Multi_Search_key_role_def)
next
  case (6 w k r ign)
  then show ?case by (simp add: Multi_Add_def split: if_splits)
next
  case (7 w k r ign)
  then show ?case by (auto simp: Multi_Add_def)
next
  case (8 w k' k r ign)
  then show ?case by (simp add: Multi_Add_def)
next
  case (9 w k)
  show ?case by (simp add: Multi_Remove_key_def set_delete)
next
  case (10 w k r)
  show ?case by (auto simp: Multi_Remove_role_def erase_loop_filter)
next
  case (11 w t)
  show ?case by (auto simp: Multi_Remove_attr_def erase_loop_filter)
next
  case (12 w k)
  show ?case by (simp add: Multi_Search_key_role_def)
next
  case (13 w k out)
  have "(\<exists>r. (k, r) \<in> set w) \<longleftrightarrow> filter (\<lambda>it. fst it = k) w \<noteq> []"
    by (force simp: filter_empty_conv)
  then show ?case by (simp add: Multi_Search_key_roles_def collect_loop_filter)
next
  case (14 w t)
  show ?case by (simp add: Multi_Search_target_role_def first_loop_find)
next
  case (15 w t out)
  show ?case by (auto simp: Multi_Search_target_roles_def collect_loop_filter filter_empty_conv)
qed simp_all

section \<open>Properties\<close>

text \<open>
  In either warehouse a role that joins with \<open>ignore_if_exist\<close> is accepted and is then
  found by its key, by its own attributes, and among all roles of its key.
\<close>

theorem warehouse_add_found:
  assumes "single_inv w" and "Single_Add k r True w = (ok, w')" and "Multi_Add k r True w = (ok2, w2)"
  shows "(ok \<and> Single_Search_key k w' \<and> Single_Search_target (ro_attributes r) w' \<and>
      r \<in> set (snd (Single_Search_key_roles k w' []))) \<and>
    (ok2 \<and> Multi_Search_key k w2 \<and> Multi_Search_target (ro_attributes r) w2 \<and>
      r \<in> set (snd (Multi_Search_key_roles k w2 [])))"
  using single.add_found [OF assms(1,2)] multi.add_found [OF TrueI assms(3)]
  unfolding Single_Search_key_def Single_Search_target_def Multi_Search_key_def Multi_Search_target_def
  by blast

definition example_role :: "nat \<Rightarrow> Role" where
  "example_role node = \<lparr>ro_kind = RoleNode, ro_attributes = \<lparr>ra_host_name = Some ''host'',
     ra_process_id = Some 7, ra_node_id = Some node, ra_channel_id = None, ra_service_id = None,
     ra_id = None, ra_node_name = None, ra_channel_name = None, ra_message_type = None, ra_proto_desc = None,
     ra_service_name = None\<rparr>, ro_timestamp_ns = 0\<rparr>"

theorem warehouse_add_found_witness:
  "Single_Search_key 3 (snd (Single_Add 3 (example_role 1) True [])) \<and>
   Multi_Search_key 3 (snd (Multi_Add 3 (example_role 1) True []))"
proof -
  have "single_inv []" by (simp add: single_inv_def)
  from warehouse_add_found [OF this surjective_pairing surjective_pairing, of 3 "example_role 1"]
  show ?thesis by simp
qed

text \<open>
  Removing a role under its key takes it away and leaves the roles of all other keys alone;
  removing by attributes takes away exactly the matching roles, so that a search for the same
  attributes fails afterwards. Both containers behave so.
\<close>

theorem warehouse_remove_exact:
  assumes "single_inv w"
  shows "(k, r) \<notin> set (Single_Remove_role k r w) \<and> (k, r) \<notin> set (Multi_Remove_role k r w) \<and>
    \<not> Single_Search_target t (Single_Remove_attr t w) \<and> \<not> Multi_Search_target t (Multi_Remove_attr t w) \<and>
    set (Single_Remove_attr t w) = {it \<in> set w. \<not> Role_Match t (snd it)} \<and>
    set (Multi_Remove_attr t w) = {it \<in> set w. \<not> Role_Match t (snd it)} \<and>
    {it \<in> set (Single_Remove_role k r w). fst it \<noteq> k} = {it \<in> set w. fst it \<noteq> k} \<and>
    {it \<in> set (Multi_Remove_role k r w). fst it \<noteq> k} = {it \<in> set w. fst it \<noteq> k}"
  using single.remove_role_gone [OF assms, of k r] multi.remove_role_gone [OF TrueI, of k r]
    single.remove_attr_gone [OF assms, of t] multi.remove_attr_gone [OF TrueI, of t]
    single.remove_attr_set [OF assms] multi.remove_attr_set [OF TrueI]
  by (auto simp: Single_Search_target_def Multi_Search_target_def)

theorem warehouse_remove_exact_witness:
  "\<not> Single_Search_target (ro_attributes (example_role 1))
      (Single_Remove_attr (ro_attributes (example_role 1)) [(3, example_role 1), (4, example_role 2)])"
proof -
  have "single_inv [(3, example_role 1), (4, example_role 2)]" by (simp add: single_inv_def)
  from warehouse_remove_exact [OF this] show ?thesis by blast
qed

end
