(* ===== verification/RW_Locks.thy ===== *)
theory RW_Locks
  imports Prelude
begin

text \<open>
  The three reader-writer locks of the framework: \<open>cyber/base/atomic_rw_lock.h\<close>,
  \<open>cyber/base/reentrant_rw_lock.h\<close> and the try-lock of a shared-memory block,
  \<open>cyber/transport/shm/block.cc\<close>. All of them encode the state in one atomic counter:
  positive for readers, negative for a writer. Each lock is a step relation: a step is one
  atomic access of one thread, and the program counter of a thread carries its local variables.
  A weak compare-and-swap may fail spuriously. Counting retries only decides when a thread yields
  the processor and is left out.

  \<open>rw_trans\<close> is the abstract protocol on the counter and the sets of holders, \<open>rw_ok\<close> its
  invariant. The locale \<open>rw_lock\<close> says that a concrete lock refines the protocol; mutual
  exclusion is proved there once and instantiated for each lock.
\<close>

section \<open>The protocol\<close>

type_synonym tid = nat

type_synonym rw_view = "int \<times> tid set \<times> tid set"

definition rw_ok :: "bool \<Rightarrow> rw_view \<Rightarrow> bool" where
  "rw_ok exact v = (case v of (num, readers, writers) \<Rightarrow>
     finite readers \<and>
     (if writers = {} then num = int (card readers) \<or> (\<not> exact \<and> num < 0 \<and> readers = {})
      else num < 0 \<and> readers = {} \<and> (\<exists>t. writers = {t})))"

inductive rw_trans :: "bool \<Rightarrow> rw_view \<Rightarrow> rw_view \<Rightarrow> bool" for exact where
  stutter: "rw_trans exact v v"
| read_lock: "0 \<le> num \<Longrightarrow> t \<notin> R \<Longrightarrow> rw_trans exact (num, R, W) (num + 1, insert t R, W)"
| read_unlock: "t \<in> R \<Longrightarrow> rw_trans exact (num, R, W) (num - 1, R - {t}, W)"
| write_lock: "num = 0 \<Longrightarrow> num' < 0 \<Longrightarrow> rw_trans exact (num, R, W) (num', R, insert t W)"
| write_nested: "num < 0 \<Longrightarrow> num' < 0 \<Longrightarrow> W \<noteq> {} \<Longrightarrow> rw_trans exact (num, R, W) (num', R, W)"
| write_unlock: "t \<in> W \<Longrightarrow> num' \<le> 0 \<Longrightarrow> exact \<longrightarrow> num' = 0 \<Longrightarrow>
    rw_trans exact (num, R, W) (num', R, W - {t})"

lemma rw_ok_cases:
  assumes "rw_ok exact (num, R, W)"
  obtains (free) "W = {}" "num = int (card R)" "finite R"
  | (leaked) "W = {}" "num < 0" "R = {}" "\<not> exact"
  | (written) t where "W = {t}" "num < 0" "R = {}"
  using assms by (auto simp: rw_ok_def split: if_splits)

lemma rw_trans_ok: "rw_trans exact v v' \<Longrightarrow> rw_ok exact v \<Longrightarrow> rw_ok exact v'"
proof (induction rule: rw_trans.induct)
  case (read_lock num t R W)
  from read_lock(3) show ?case
    by (cases rule: rw_ok_cases) (use read_lock in \<open>auto simp: rw_ok_def\<close>)
next
  case (read_unlock t R num W)
  from read_unlock(2) show ?case
  proof (cases rule: rw_ok_cases)
    case free
    moreover from this read_unlock(1) have "0 < card R" by (auto simp: card_gt_0_iff)
    ultimately show ?thesis using read_unlock(1) by (simp add: rw_ok_def)
  qed (use read_unlock(1) in auto)
next
  case (write_lock num num' R W t)
  from write_lock(3) show ?case
    by (cases rule: rw_ok_cases) (use write_lock in \<open>auto simp: rw_ok_def\<close>)
next
  case (write_nested num num' W R)
  from write_nested(4) show ?case
    by (cases rule: rw_ok_cases) (use write_nested in \<open>auto simp: rw_ok_def\<close>)
next
  case (write_unlock t W num' num R)
  from write_unlock(4) show ?case
    by (cases rule: rw_ok_cases) (use write_unlock in \<open>auto simp: rw_ok_def\<close>)
qed

section \<open>The interface of a lock\<close>

locale rw_lock =
  fixes exact :: bool
    and step :: "'s \<Rightarrow> 's \<Rightarrow> bool"
    and view :: "'s \<Rightarrow> rw_view"
    and local_inv :: "'s \<Rightarrow> bool"
    and init :: 's
  assumes init_ok: "rw_ok exact (view init)" "local_inv init"
    and refines: "rw_ok exact (view s) \<Longrightarrow> local_inv s \<Longrightarrow> step s s' \<Longrightarrow>
      rw_trans exact (view s) (view s') \<and> local_inv s'"
begin

lemma reachable_ok: "step\<^sup>*\<^sup>* init s \<Longrightarrow> rw_ok exact (view s) \<and> local_inv s"
proof (induction rule: rtranclp_induct)
  case (step y z)
  then show ?case using refines rw_trans_ok by blast
qed (simp add: init_ok)

lemma mutual_exclusion:
  assumes "step\<^sup>*\<^sup>* init s" and "view s = (num, readers, writers)"
  shows "writers = {} \<or> (readers = {} \<and> (\<exists>t. writers = {t}))"
  using reachable_ok [OF assms(1)] by (auto simp: rw_ok_def assms(2) split: if_splits)

end

text \<open>A lock that never leaks: without a writer the counter is the number of readers.\<close>

locale rw_lock_exact = rw_lock True step view local_inv init
  for step :: "'s \<Rightarrow> 's \<Rightarrow> bool" and view local_inv init
begin

lemma counter_counts:
  assumes "step\<^sup>*\<^sup>* init s" and "view s = (num, readers, writers)"
  shows "(num = 0 \<longleftrightarrow> readers = {} \<and> writers = {}) \<and> (0 \<le> num \<longrightarrow> num = int (card readers))"
  using reachable_ok [OF assms(1)] by (auto simp: rw_ok_def assms(2) split: if_splits)

end

section \<open>AtomicRWLock\<close>

definition RW_LOCK_FREE :: int where "RW_LOCK_FREE = 0"

definition WRITE_EXCLUSIVE :: int where "WRITE_EXCLUSIVE = -1"

datatype rw_pc =
    Idle
  | R_check int
  | R_cas int
  | Reading
  | W_cas
  | W_got
  | Writing

record AtomicRWLock =
  rw_lock_num :: int
  rw_write_lock_wait_num :: nat
  rw_write_first :: bool
  rw_pcs :: "tid \<Rightarrow> rw_pc"

definition AtomicRWLock_ctor :: "bool \<Rightarrow> AtomicRWLock" where
  "AtomicRWLock_ctor write_first =
     \<lparr>rw_lock_num = 0, rw_write_lock_wait_num = 0, rw_write_first = write_first,
      rw_pcs = (\<lambda>_. Idle)\<rparr>"

definition rw_goto :: "tid \<Rightarrow> rw_pc \<Rightarrow> AtomicRWLock \<Rightarrow> AtomicRWLock" where
  "rw_goto t pc s = s\<lparr>rw_pcs := (rw_pcs s)(t := pc)\<rparr>"

text \<open>\<open>ReadLock\<close>: load, inner wait loop, compare-and-swap.\<close>

inductive ReadLock_step :: "tid \<Rightarrow> AtomicRWLock \<Rightarrow> AtomicRWLock \<Rightarrow> bool" for t s where
  r_load: "rw_pcs s t = Idle \<Longrightarrow> ReadLock_step t s (rw_goto t (R_check (rw_lock_num s)) s)"
| r_wait: "rw_pcs s t = R_check n \<Longrightarrow>
    n < RW_LOCK_FREE \<or> (rw_write_first s \<and> rw_write_lock_wait_num s > 0) \<Longrightarrow>
    ReadLock_step t s (rw_goto t (R_check (rw_lock_num s)) s)"
| r_pass: "rw_pcs s t = R_check n \<Longrightarrow>
    \<not> (n < RW_LOCK_FREE \<or> (rw_write_first s \<and> rw_write_lock_wait_num s > 0)) \<Longrightarrow>
    ReadLock_step t s (rw_goto t (R_cas n) s)"
| r_cas: "rw_pcs s t = R_cas n \<Longrightarrow> rw_lock_num s = n \<Longrightarrow>
    ReadLock_step t s (rw_goto t Reading (s\<lparr>rw_lock_num := n + 1\<rparr>))"
| r_cas_fail: "rw_pcs s t = R_cas n \<Longrightarrow>
    ReadLock_step t s (rw_goto t (R_check (rw_lock_num s)) s)"

inductive WriteLock_step :: "tid \<Rightarrow> AtomicRWLock \<Rightarrow> AtomicRWLock \<Rightarrow> bool" for t s where
  w_announce: "rw_pcs s t = Idle \<Longrightarrow> WriteLock_step t s
    (rw_goto t W_cas (s\<lparr>rw_write_lock_wait_num := rw_write_lock_wait_num s + 1\<rparr>))"
| w_cas: "rw_pcs s t = W_cas \<Longrightarrow> rw_lock_num s = RW_LOCK_FREE \<Longrightarrow>
    WriteLock_step t s (rw_goto t W_got (s\<lparr>rw_lock_num := WRITE_EXCLUSIVE\<rparr>))"
| w_cas_fail: "rw_pcs s t = W_cas \<Longrightarrow> WriteLock_step t s s"
| w_settle: "rw_pcs s t = W_got \<Longrightarrow> WriteLock_step t s
    (rw_goto t Writing (s\<lparr>rw_write_lock_wait_num := rw_write_lock_wait_num s - 1\<rparr>))"

inductive Unlock_step :: "tid \<Rightarrow> AtomicRWLock \<Rightarrow> AtomicRWLock \<Rightarrow> bool" for t s where
  u_read: "rw_pcs s t = Reading \<Longrightarrow>
    Unlock_step t s (rw_goto t Idle (s\<lparr>rw_lock_num := rw_lock_num s - 1\<rparr>))"
| u_write: "rw_pcs s t = Writing \<Longrightarrow>
    Unlock_step t s (rw_goto t Idle (s\<lparr>rw_lock_num := rw_lock_num s + 1\<rparr>))"

definition AtomicRWLock_step :: "AtomicRWLock \<Rightarrow> AtomicRWLock \<Rightarrow> bool" where
  "AtomicRWLock_step s s' \<longleftrightarrow>
     (\<exists>t. ReadLock_step t s s' \<or> WriteLock_step t s s' \<or> Unlock_step t s s')"

definition rw_readers :: "AtomicRWLock \<Rightarrow> tid set" where
  "rw_readers s = {t. rw_pcs s t = Reading}"

definition rw_writers :: "AtomicRWLock \<Rightarrow> tid set" where
  "rw_writers s = {t. rw_pcs s t \<in> {W_got, Writing}}"

definition rw_waiting :: "AtomicRWLock \<Rightarrow> tid set" where
  "rw_waiting s = {t. rw_pcs s t \<in> {W_cas, W_got}}"

definition rw_view :: "AtomicRWLock \<Rightarrow> rw_view" where
  "rw_view s = (rw_lock_num s, rw_readers s, rw_writers s)"

definition rw_local :: "AtomicRWLock \<Rightarrow> bool" where
  "rw_local s \<longleftrightarrow>
     -1 \<le> rw_lock_num s \<and> (\<forall>t n. rw_pcs s t = R_cas n \<longrightarrow> 0 \<le> n) \<and>
     finite (rw_waiting s) \<and> rw_write_lock_wait_num s = card (rw_waiting s)"

lemma rw_view_goto:
  "rw_view (rw_goto t pc s) = (rw_lock_num s,
     if pc = Reading then insert t (rw_readers s) else rw_readers s - {t},
     if pc \<in> {W_got, Writing} then insert t (rw_writers s) else rw_writers s - {t})"
  by (auto simp: rw_view_def rw_goto_def rw_readers_def rw_writers_def)

lemma rw_waiting_goto:
  "rw_waiting (rw_goto t pc s) =
     (if pc \<in> {W_cas, W_got} then insert t (rw_waiting s) else rw_waiting s - {t})"
  by (auto simp: rw_goto_def rw_waiting_def)

lemma rw_sets_num [simp]:
  "rw_readers (s\<lparr>rw_lock_num := n\<rparr>) = rw_readers s"
  "rw_writers (s\<lparr>rw_lock_num := n\<rparr>) = rw_writers s"
  "rw_waiting (s\<lparr>rw_lock_num := n\<rparr>) = rw_waiting s"
  "rw_readers (s\<lparr>rw_write_lock_wait_num := k\<rparr>) = rw_readers s"
  "rw_writers (s\<lparr>rw_write_lock_wait_num := k\<rparr>) = rw_writers s"
  "rw_waiting (s\<lparr>rw_write_lock_wait_num := k\<rparr>) = rw_waiting s"
  by (simp_all add: rw_readers_def rw_writers_def rw_waiting_def)

lemma rw_member:
  "t \<in> rw_readers s \<longleftrightarrow> rw_pcs s t = Reading"
  "t \<in> rw_writers s \<longleftrightarrow> rw_pcs s t = W_got \<or> rw_pcs s t = Writing"
  "t \<in> rw_waiting s \<longleftrightarrow> rw_pcs s t = W_cas \<or> rw_pcs s t = W_got"
  by (auto simp: rw_readers_def rw_writers_def rw_waiting_def)

lemma rw_goto_fields [simp]:
  "rw_lock_num (rw_goto t pc s) = rw_lock_num s"
  "rw_write_lock_wait_num (rw_goto t pc s) = rw_write_lock_wait_num s"
  "rw_pcs (rw_goto t pc s) = (rw_pcs s)(t := pc)"
  by (simp_all add: rw_goto_def)

lemmas rw_step_simps = rw_local_def rw_waiting_goto rw_member insert_absorb card_insert_if
  RW_LOCK_FREE_def WRITE_EXCLUSIVE_def

lemma rw_trans_keep:
  assumes "rw_pcs s t \<notin> {Reading, W_got, Writing}" and "pc \<notin> {Reading, W_got, Writing}"
    and "rw_lock_num s' = rw_lock_num s" and "rw_pcs s' = rw_pcs s"
  shows "rw_trans True (rw_view s) (rw_view (rw_goto t pc s'))"
proof -
  have "rw_view (rw_goto t pc s') = rw_view s"
    using assms by (auto simp: rw_view_def rw_readers_def rw_writers_def)
  then show ?thesis by (simp add: rw_trans.stutter)
qed

lemma ReadLock_step_refines:
  assumes "ReadLock_step t s s'" and "rw_local s"
  shows "rw_trans True (rw_view s) (rw_view s') \<and> rw_local s'"
  using assms
proof (induction rule: ReadLock_step.induct)
  case (r_cas n)
  then have "rw_view (rw_goto t Reading (s\<lparr>rw_lock_num := n + 1\<rparr>)) =
      (n + 1, insert t (rw_readers s), rw_writers s)"
    by (auto simp: rw_view_goto rw_member)
  moreover have "rw_trans True (rw_view s) (n + 1, insert t (rw_readers s), rw_writers s)"
    using r_cas by (auto simp: rw_view_def rw_member rw_local_def intro!: rw_trans.read_lock)
  moreover have "rw_local (rw_goto t Reading (s\<lparr>rw_lock_num := n + 1\<rparr>))"
    using r_cas by (auto simp: rw_step_simps)
  ultimately show ?case by simp
qed (auto simp: rw_step_simps intro!: rw_trans_keep intro: rw_trans.stutter)

lemma WriteLock_step_refines:
  assumes "WriteLock_step t s s'" and "rw_ok True (rw_view s)" and "rw_local s"
  shows "rw_trans True (rw_view s) (rw_view s') \<and> rw_local s'"
  using assms
proof (induction rule: WriteLock_step.induct)
  case w_cas
  then have "rw_view (rw_goto t W_got (s\<lparr>rw_lock_num := WRITE_EXCLUSIVE\<rparr>)) =
      (-1, rw_readers s, insert t (rw_writers s))"
    by (auto simp: rw_view_goto rw_member WRITE_EXCLUSIVE_def)
  moreover have "rw_trans True (rw_view s) (-1, rw_readers s, insert t (rw_writers s))"
    using w_cas by (auto simp: rw_view_def RW_LOCK_FREE_def intro!: rw_trans.write_lock)
  moreover have "rw_local (rw_goto t W_got (s\<lparr>rw_lock_num := WRITE_EXCLUSIVE\<rparr>))"
    using w_cas by (auto simp: rw_step_simps)
  ultimately show ?case by simp
next
  case w_settle
  then have "rw_view (rw_goto t Writing (s\<lparr>rw_write_lock_wait_num := rw_write_lock_wait_num s - 1\<rparr>)) = rw_view s"
    by (auto simp: rw_view_def rw_readers_def rw_writers_def)
  moreover have "rw_local (rw_goto t Writing (s\<lparr>rw_write_lock_wait_num := rw_write_lock_wait_num s - 1\<rparr>))"
    using w_settle by (auto simp: rw_step_simps)
  ultimately show ?case by (simp add: rw_trans.stutter)
qed (auto simp: rw_step_simps intro!: rw_trans_keep intro: rw_trans.stutter)

lemma Unlock_step_refines:
  assumes "Unlock_step t s s'" and "rw_ok True (rw_view s)" and "rw_local s"
  shows "rw_trans True (rw_view s) (rw_view s') \<and> rw_local s'"
  using assms
proof (induction rule: Unlock_step.induct)
  case u_read
  then have "0 < card (rw_readers s)" and "rw_lock_num s = int (card (rw_readers s))"
    by (auto simp: rw_ok_def rw_view_def card_gt_0_iff rw_member split: if_splits)
  then have "rw_local (rw_goto t Idle (s\<lparr>rw_lock_num := rw_lock_num s - 1\<rparr>))"
    using u_read by (auto simp: rw_step_simps)
  moreover have "rw_view (rw_goto t Idle (s\<lparr>rw_lock_num := rw_lock_num s - 1\<rparr>)) =
      (rw_lock_num s - 1, rw_readers s - {t}, rw_writers s)"
    using u_read by (auto simp: rw_view_goto rw_member)
  moreover have "rw_trans True (rw_view s) (rw_lock_num s - 1, rw_readers s - {t}, rw_writers s)"
    using u_read by (auto simp: rw_view_def rw_member intro!: rw_trans.read_unlock)
  ultimately show ?case by simp
next
  case u_write
  then have num: "rw_lock_num s = -1"
    by (auto simp: rw_ok_def rw_view_def rw_member rw_local_def split: if_splits)
  have "rw_local (rw_goto t Idle (s\<lparr>rw_lock_num := rw_lock_num s + 1\<rparr>))"
    using u_write by (auto simp: rw_step_simps)
  moreover have "rw_view (rw_goto t Idle (s\<lparr>rw_lock_num := rw_lock_num s + 1\<rparr>)) =
      (0, rw_readers s, rw_writers s - {t})"
    using u_write by (auto simp: rw_view_goto rw_member num)
  moreover have "rw_trans True (rw_view s) (0, rw_readers s, rw_writers s - {t})"
    using u_write by (auto simp: rw_view_def rw_member intro!: rw_trans.write_unlock)
  ultimately show ?case by simp
qed

interpretation atomic: rw_lock_exact AtomicRWLock_step rw_view rw_local "AtomicRWLock_ctor write_first"
  for write_first
proof unfold_locales
  show "rw_ok True (rw_view (AtomicRWLock_ctor write_first))"
    by (simp add: rw_ok_def rw_view_def rw_readers_def rw_writers_def AtomicRWLock_ctor_def)
  show "rw_local (AtomicRWLock_ctor write_first)"
    by (simp add: rw_local_def rw_waiting_def AtomicRWLock_ctor_def)
next
  fix s s'
  assume "rw_ok True (rw_view s)" and "rw_local s" and "AtomicRWLock_step s s'"
  then show "rw_trans True (rw_view s) (rw_view s') \<and> rw_local s'"
    unfolding AtomicRWLock_step_def
    using ReadLock_step_refines WriteLock_step_refines Unlock_step_refines by blast
qed

section \<open>The try-lock of a shared-memory block\<close>

text \<open>\<open>transport/shm/block.cc\<close>. A refused attempt returns false and leaves the thread idle.\<close>

definition kMaxTryLockTimes :: nat where "kMaxTryLockTimes = 5"

datatype blk_pc =
    B_Idle
  | B_cas int nat
  | B_load nat
  | B_Reading
  | B_Writing

record Block_lock =
  blk_lock_num :: int
  blk_pcs :: "tid \<Rightarrow> blk_pc"

definition Block_ctor :: Block_lock where
  "Block_ctor = \<lparr>blk_lock_num = 0, blk_pcs = (\<lambda>_. B_Idle)\<rparr>"

definition blk_set :: "tid \<Rightarrow> blk_pc \<Rightarrow> int \<Rightarrow> Block_lock \<Rightarrow> Block_lock" where
  "blk_set t pc n s = s\<lparr>blk_lock_num := n, blk_pcs := (blk_pcs s)(t := pc)\<rparr>"

inductive TryLockForWrite_step :: "tid \<Rightarrow> Block_lock \<Rightarrow> Block_lock \<Rightarrow> bool" for t s where
  b_write: "blk_pcs s t = B_Idle \<Longrightarrow> blk_lock_num s = RW_LOCK_FREE \<Longrightarrow>
    TryLockForWrite_step t s (blk_set t B_Writing WRITE_EXCLUSIVE s)"
| b_write_false: "blk_pcs s t = B_Idle \<Longrightarrow> TryLockForWrite_step t s s"

inductive TryLockForRead_step :: "tid \<Rightarrow> Block_lock \<Rightarrow> Block_lock \<Rightarrow> bool" for t s where
  b_enter: "blk_pcs s t = B_Idle \<Longrightarrow>
    TryLockForRead_step t s
      (blk_set t (if blk_lock_num s < RW_LOCK_FREE then B_Idle else B_cas (blk_lock_num s) 0)
        (blk_lock_num s) s)"
| b_cas: "blk_pcs s t = B_cas n k \<Longrightarrow> blk_lock_num s = n \<Longrightarrow>
    TryLockForRead_step t s (blk_set t B_Reading (n + 1) s)"
| b_cas_fail: "blk_pcs s t = B_cas n k \<Longrightarrow>
    TryLockForRead_step t s
      (blk_set t (if k + 1 = kMaxTryLockTimes then B_Idle else B_load (k + 1)) (blk_lock_num s) s)"
| b_reload: "blk_pcs s t = B_load k \<Longrightarrow>
    TryLockForRead_step t s
      (blk_set t (if blk_lock_num s < RW_LOCK_FREE then B_Idle else B_cas (blk_lock_num s) k)
        (blk_lock_num s) s)"

inductive Release_step :: "tid \<Rightarrow> Block_lock \<Rightarrow> Block_lock \<Rightarrow> bool" for t s where
  b_release_write: "blk_pcs s t = B_Writing \<Longrightarrow>
    Release_step t s (blk_set t B_Idle (blk_lock_num s + 1) s)"
| b_release_read: "blk_pcs s t = B_Reading \<Longrightarrow>
    Release_step t s (blk_set t B_Idle (blk_lock_num s - 1) s)"

definition Block_step :: "Block_lock \<Rightarrow> Block_lock \<Rightarrow> bool" where
  "Block_step s s' \<longleftrightarrow>
     (\<exists>t. TryLockForWrite_step t s s' \<or> TryLockForRead_step t s s' \<or> Release_step t s s')"

definition blk_view :: "Block_lock \<Rightarrow> rw_view" where
  "blk_view s = (blk_lock_num s, {t. blk_pcs s t = B_Reading}, {t. blk_pcs s t = B_Writing})"

definition blk_local :: "Block_lock \<Rightarrow> bool" where
  "blk_local s \<longleftrightarrow> -1 \<le> blk_lock_num s \<and>
     (\<forall>t n k. blk_pcs s t = B_cas n k \<longrightarrow> 0 \<le> n \<and> k < kMaxTryLockTimes) \<and>
     (\<forall>t k. blk_pcs s t = B_load k \<longrightarrow> k < kMaxTryLockTimes)"

lemma blk_view_set:
  "blk_view (blk_set t pc n s) = (n,
     if pc = B_Reading then insert t {u. blk_pcs s u = B_Reading} else {u. blk_pcs s u = B_Reading} - {t},
     if pc = B_Writing then insert t {u. blk_pcs s u = B_Writing} else {u. blk_pcs s u = B_Writing} - {t})"
  by (auto simp: blk_view_def blk_set_def)

lemma blk_keep:
  assumes "blk_pcs s t \<notin> {B_Reading, B_Writing}" and "pc \<notin> {B_Reading, B_Writing}"
  shows "rw_trans True (blk_view s) (blk_view (blk_set t pc (blk_lock_num s) s))"
proof -
  have "blk_view (blk_set t pc (blk_lock_num s) s) = blk_view s"
    using assms by (auto simp: blk_view_def blk_set_def)
  then show ?thesis by (simp add: rw_trans.stutter)
qed

lemma blk_local_set:
  assumes "blk_local s" and "-1 \<le> n"
    and "\<And>m k. pc = B_cas m k \<Longrightarrow> 0 \<le> m \<and> k < kMaxTryLockTimes"
    and "\<And>k. pc = B_load k \<Longrightarrow> k < kMaxTryLockTimes"
  shows "blk_local (blk_set t pc n s)"
  using assms by (auto simp: blk_local_def blk_set_def)

lemma TryLock_refines:
  assumes "TryLockForWrite_step t s s' \<or> TryLockForRead_step t s s'" and "blk_local s"
  shows "rw_trans True (blk_view s) (blk_view s') \<and> blk_local s'"
  using assms(1)
proof
  assume "TryLockForWrite_step t s s'"
  then show ?thesis
  proof cases
    case b_write
    have "rw_trans True (blk_view s) (blk_view s')"
      using b_write by (simp add: blk_view_set WRITE_EXCLUSIVE_def RW_LOCK_FREE_def)
        (simp add: blk_view_def rw_trans.write_lock)
    then show ?thesis using b_write assms(2) by (auto simp: WRITE_EXCLUSIVE_def intro!: blk_local_set)
  qed (use assms(2) in \<open>auto intro: rw_trans.stutter\<close>)
next
  assume "TryLockForRead_step t s s'"
  then show ?thesis
  proof cases
    case (b_cas n k)
    have "0 \<le> n" using b_cas assms(2) by (auto simp: blk_local_def)
    moreover from this have "rw_trans True (blk_view s) (blk_view s')"
      using b_cas by (simp add: blk_view_set) (simp add: blk_view_def rw_trans.read_lock)
    ultimately show ?thesis using b_cas assms(2) by (auto intro!: blk_local_set)
  next
    case (b_cas_fail n k)
    then have "k < kMaxTryLockTimes" using assms(2) by (auto simp: blk_local_def)
    with b_cas_fail assms(2) show ?thesis
      by (auto intro!: blk_keep blk_local_set intro: Suc_lessI simp: blk_local_def [of s] split: if_splits)
  next
    case (b_reload k)
    then have "k < kMaxTryLockTimes" using assms(2) by (auto simp: blk_local_def)
    with b_reload assms(2) show ?thesis
      by (auto intro!: blk_keep blk_local_set simp: blk_local_def [of s] RW_LOCK_FREE_def split: if_splits)
  next
    case b_enter
    with assms(2) show ?thesis
      by (auto intro!: blk_keep blk_local_set
          simp: blk_local_def [of s] RW_LOCK_FREE_def kMaxTryLockTimes_def split: if_splits)
  qed
qed

lemma Release_refines:
  assumes "Release_step t s s'" and "blk_local s" and "rw_ok True (blk_view s)"
  shows "rw_trans True (blk_view s) (blk_view s') \<and> blk_local s'"
  using assms(1)
proof cases
  case b_release_write
  then have num: "blk_lock_num s = -1"
    using assms(2,3) by (auto simp: rw_ok_def blk_view_def blk_local_def split: if_splits)
  then have "rw_trans True (blk_view s) (blk_view s')"
    using b_release_write by (simp add: blk_view_set) (simp add: blk_view_def rw_trans.write_unlock)
  then show ?thesis using b_release_write assms(2) num by (auto intro!: blk_local_set)
next
  case b_release_read
  then have "0 < card {u. blk_pcs s u = B_Reading}"
    and "blk_lock_num s = int (card {u. blk_pcs s u = B_Reading})"
    using assms(3) by (auto simp: rw_ok_def blk_view_def card_gt_0_iff split: if_splits)
  moreover have "rw_trans True (blk_view s) (blk_view s')"
    using b_release_read by (simp add: blk_view_set) (simp add: blk_view_def rw_trans.read_unlock)
  ultimately show ?thesis using b_release_read assms(2) by (auto intro!: blk_local_set)
qed

interpretation block: rw_lock_exact Block_step blk_view blk_local Block_ctor
proof unfold_locales
  show "rw_ok True (blk_view Block_ctor)" and "blk_local Block_ctor"
    by (simp_all add: rw_ok_def blk_view_def blk_local_def Block_ctor_def)
next
  fix s s'
  assume "rw_ok True (blk_view s)" and "blk_local s" and "Block_step s s'"
  then show "rw_trans True (blk_view s) (blk_view s') \<and> blk_local s'"
    unfolding Block_step_def using TryLock_refines Release_refines by blast
qed

text \<open>A read attempt is wait-free: a measure of its own program counter drops with each of its
  steps, whatever the other threads do in between.\<close>

fun blk_measure :: "blk_pc \<Rightarrow> nat" where
  "blk_measure (B_cas n k) = 2 * (kMaxTryLockTimes - k)"
| "blk_measure (B_load k) = 2 * (kMaxTryLockTimes - k) + 1"
| "blk_measure _ = 0"

lemma TryLockForRead_measure:
  assumes "TryLockForRead_step t s s'" and "blk_local s" and "blk_pcs s t \<noteq> B_Idle"
  shows "blk_measure (blk_pcs s' t) < blk_measure (blk_pcs s t)"
  using assms(1)
proof cases
  case (b_cas_fail n k)
  then have "k < kMaxTryLockTimes" using assms(2) by (auto simp: blk_local_def)
  with b_cas_fail show ?thesis by (auto simp: blk_set_def)
next
  case (b_cas n k)
  then have "k < kMaxTryLockTimes" using assms(2) by (auto simp: blk_local_def)
  with b_cas show ?thesis by (auto simp: blk_set_def)
qed (use assms in \<open>auto simp: blk_set_def\<close>)

lemma Block_step_other:
  assumes "TryLockForWrite_step u s s' \<or> TryLockForRead_step u s s' \<or> Release_step u s s'" and "u \<noteq> t"
  shows "blk_pcs s' t = blk_pcs s t"
  using assms
  by (auto elim!: TryLockForWrite_step.cases TryLockForRead_step.cases Release_step.cases simp: blk_set_def)

section \<open>ReentrantRWLock\<close>

text \<open>
  \<open>cyber/base/reentrant_rw_lock.h\<close>. The lock is only reached through scoped guards, so a thread
  holds a stack of them. A writer may nest both kinds of lock; a plain reader does not lock again
  before it has released. \<open>write_thread_id_\<close> is not atomic in the source; its accesses are
  interleaved here as if it were, which is the most favourable reading.
\<close>

datatype guard = G_Read | G_Write

datatype re_pc =
    E_Run "guard list"
  | E_R_check "guard list" int
  | E_R_cas "guard list" int
  | E_W_cas "guard list"
  | E_W_got "guard list"
  | E_W_set "guard list"
  | E_W_clear "guard list"

fun re_held :: "re_pc \<Rightarrow> guard list" where
  "re_held (E_Run h) = h"
| "re_held (E_R_check h n) = h"
| "re_held (E_R_cas h n) = h"
| "re_held (E_W_cas h) = h"
| "re_held (E_W_got h) = h"
| "re_held (E_W_set h) = h"
| "re_held (E_W_clear h) = h"

record ReentrantRWLock =
  write_thread_id :: "tid option"
  re_write_lock_wait_num :: nat
  re_lock_num :: int
  re_write_first :: bool
  re_pcs :: "tid \<Rightarrow> re_pc"

definition ReentrantRWLock_ctor :: "bool \<Rightarrow> ReentrantRWLock" where
  "ReentrantRWLock_ctor write_first =
     \<lparr>write_thread_id = None, re_write_lock_wait_num = 0, re_lock_num = 0,
      re_write_first = write_first, re_pcs = (\<lambda>_. E_Run [])\<rparr>"

definition re_goto :: "tid \<Rightarrow> re_pc \<Rightarrow> ReentrantRWLock \<Rightarrow> ReentrantRWLock" where
  "re_goto t pc s = s\<lparr>re_pcs := (re_pcs s)(t := pc)\<rparr>"

definition re_wait :: "ReentrantRWLock \<Rightarrow> int \<Rightarrow> bool" where
  "re_wait s n \<longleftrightarrow> n < RW_LOCK_FREE \<or> (re_write_first s \<and> re_write_lock_wait_num s > 0)"

inductive re_ReadLock_step :: "tid \<Rightarrow> ReentrantRWLock \<Rightarrow> ReentrantRWLock \<Rightarrow> bool" for t s where
  er_own: "re_pcs s t = E_Run h \<Longrightarrow> h \<noteq> [G_Read] \<Longrightarrow> write_thread_id s = Some t \<Longrightarrow>
    re_ReadLock_step t s (re_goto t (E_Run (G_Read # h)) s)"
| er_load: "re_pcs s t = E_Run h \<Longrightarrow> h \<noteq> [G_Read] \<Longrightarrow> write_thread_id s \<noteq> Some t \<Longrightarrow>
    re_ReadLock_step t s (re_goto t (E_R_check h (re_lock_num s)) s)"
| er_wait: "re_pcs s t = E_R_check h n \<Longrightarrow> re_wait s n \<Longrightarrow>
    re_ReadLock_step t s (re_goto t (E_R_check h (re_lock_num s)) s)"
| er_pass: "re_pcs s t = E_R_check h n \<Longrightarrow> \<not> re_wait s n \<Longrightarrow>
    re_ReadLock_step t s (re_goto t (E_R_cas h n) s)"
| er_cas: "re_pcs s t = E_R_cas h n \<Longrightarrow> re_lock_num s = n \<Longrightarrow>
    re_ReadLock_step t s (re_goto t (E_Run (G_Read # h)) (s\<lparr>re_lock_num := n + 1\<rparr>))"
| er_cas_fail: "re_pcs s t = E_R_cas h n \<Longrightarrow>
    re_ReadLock_step t s (re_goto t (E_R_check h (re_lock_num s)) s)"

inductive re_WriteLock_step :: "tid \<Rightarrow> ReentrantRWLock \<Rightarrow> ReentrantRWLock \<Rightarrow> bool" for t s where
  ew_own: "re_pcs s t = E_Run h \<Longrightarrow> h \<noteq> [G_Read] \<Longrightarrow> write_thread_id s = Some t \<Longrightarrow>
    re_WriteLock_step t s
      (re_goto t (E_Run (G_Write # h)) (s\<lparr>re_lock_num := re_lock_num s - 1\<rparr>))"
| ew_announce: "re_pcs s t = E_Run h \<Longrightarrow> h \<noteq> [G_Read] \<Longrightarrow> write_thread_id s \<noteq> Some t \<Longrightarrow>
    re_WriteLock_step t s
      (re_goto t (E_W_cas h) (s\<lparr>re_write_lock_wait_num := re_write_lock_wait_num s + 1\<rparr>))"
| ew_cas: "re_pcs s t = E_W_cas h \<Longrightarrow> re_lock_num s = RW_LOCK_FREE \<Longrightarrow>
    re_WriteLock_step t s (re_goto t (E_W_got (G_Write # h)) (s\<lparr>re_lock_num := WRITE_EXCLUSIVE\<rparr>))"
| ew_cas_fail: "re_pcs s t = E_W_cas h \<Longrightarrow> re_WriteLock_step t s s"
| ew_set: "re_pcs s t = E_W_got h \<Longrightarrow>
    re_WriteLock_step t s (re_goto t (E_W_set h) (s\<lparr>write_thread_id := Some t\<rparr>))"
| ew_settle: "re_pcs s t = E_W_set h \<Longrightarrow>
    re_WriteLock_step t s
      (re_goto t (E_Run h) (s\<lparr>re_write_lock_wait_num := re_write_lock_wait_num s - 1\<rparr>))"

inductive re_Unlock_step :: "tid \<Rightarrow> ReentrantRWLock \<Rightarrow> ReentrantRWLock \<Rightarrow> bool" for t s where
  eu_read_own: "re_pcs s t = E_Run (G_Read # h) \<Longrightarrow> write_thread_id s = Some t \<Longrightarrow>
    re_Unlock_step t s (re_goto t (E_Run h) s)"
| eu_read: "re_pcs s t = E_Run (G_Read # h) \<Longrightarrow> write_thread_id s \<noteq> Some t \<Longrightarrow>
    re_Unlock_step t s (re_goto t (E_Run h) (s\<lparr>re_lock_num := re_lock_num s - 1\<rparr>))"
| eu_write: "re_pcs s t = E_Run (G_Write # h) \<Longrightarrow>
    re_Unlock_step t s
      (re_goto t (if re_lock_num s = WRITE_EXCLUSIVE then E_W_clear h else E_Run h)
        (s\<lparr>re_lock_num := re_lock_num s + 1\<rparr>))"
| eu_clear: "re_pcs s t = E_W_clear h \<Longrightarrow>
    re_Unlock_step t s (re_goto t (E_Run h) (s\<lparr>write_thread_id := None\<rparr>))"

definition ReentrantRWLock_step :: "ReentrantRWLock \<Rightarrow> ReentrantRWLock \<Rightarrow> bool" where
  "ReentrantRWLock_step s s' \<longleftrightarrow>
     (\<exists>t. re_ReadLock_step t s s' \<or> re_WriteLock_step t s s' \<or> re_Unlock_step t s s')"

definition re_readers :: "ReentrantRWLock \<Rightarrow> tid set" where
  "re_readers s = {t. re_held (re_pcs s t) = [G_Read]}"

definition re_writers :: "ReentrantRWLock \<Rightarrow> tid set" where
  "re_writers s = {t. G_Write \<in> set (re_held (re_pcs s t))}"

definition re_view :: "ReentrantRWLock \<Rightarrow> rw_view" where
  "re_view s = (re_lock_num s, re_readers s, re_writers s)"

abbreviation write_depth :: "guard list \<Rightarrow> int" where
  "write_depth h \<equiv> int (count_list h G_Write)"

text \<open>What holds of one thread: \<open>own\<close> says that \<open>write_thread_id_\<close> names it.\<close>

definition guards_ok :: "guard list \<Rightarrow> bool" where
  "guards_ok h \<longleftrightarrow> h = [] \<or> h = [G_Read] \<or> last h = G_Write"

definition re_pc_ok :: "int \<Rightarrow> bool \<Rightarrow> re_pc \<Rightarrow> bool" where
  "re_pc_ok num own pc \<longleftrightarrow>
     guards_ok (re_held pc) \<and>
     (G_Write \<in> set (re_held pc) \<longrightarrow> num \<le> - write_depth (re_held pc)) \<and>
     (own \<longrightarrow> (if G_Write \<in> set (re_held pc) then num = - write_depth (re_held pc)
               else pc = E_W_clear [])) \<and>
     (case pc of
        E_R_check h n \<Rightarrow> h \<noteq> [G_Read] \<and> (G_Write \<in> set h \<longrightarrow> n < 0)
      | E_R_cas h n \<Rightarrow> h = [] \<and> 0 \<le> n
      | E_W_cas h \<Rightarrow> h \<noteq> [G_Read]
      | E_W_got h \<Rightarrow> h = [G_Write] \<and> num = -1
      | E_W_set h \<Rightarrow> h = [G_Write]
      | E_W_clear h \<Rightarrow> h = []
      | _ \<Rightarrow> True)"

definition re_waiting :: "ReentrantRWLock \<Rightarrow> tid set" where
  "re_waiting s = {t. case re_pcs s t of E_W_cas _ \<Rightarrow> True | E_W_got _ \<Rightarrow> True
                                      | E_W_set _ \<Rightarrow> True | _ \<Rightarrow> False}"

definition re_local :: "ReentrantRWLock \<Rightarrow> bool" where
  "re_local s \<longleftrightarrow>
     (\<forall>t. re_pc_ok (re_lock_num s) (write_thread_id s = Some t) (re_pcs s t)) \<and>
     finite (re_waiting s) \<and> re_write_lock_wait_num s = card (re_waiting s)"

lemma write_depth_pos: "G_Write \<in> set h \<longleftrightarrow> 0 < write_depth h"
  by (induction h) auto

lemma guards_ok_last: "guards_ok h \<Longrightarrow> h \<noteq> [] \<Longrightarrow> h \<noteq> [G_Read] \<Longrightarrow> G_Write \<in> set h"
  by (metis guards_ok_def last_in_set)

lemma guards_ok_tl: "guards_ok (g # h) \<Longrightarrow> guards_ok h"
  by (auto simp: guards_ok_def split: if_splits)

lemma guards_ok_cons: "guards_ok h \<Longrightarrow> h \<noteq> [G_Read] \<Longrightarrow> guards_ok (g # h)"
  by (cases g) (auto simp: guards_ok_def)

lemma guards_ok_under_write: "guards_ok (G_Write # h) \<Longrightarrow> h \<noteq> [] \<Longrightarrow> G_Write \<in> set h"
  by (metis guards_ok_def last_ConsR last_in_set list.distinct(1) list.inject guard.distinct(1))

lemma re_pc_ok_other:
  assumes "re_pc_ok num own pc" and "own' \<longrightarrow> own"
    and "num' = num \<or> G_Write \<notin> set (re_held pc)"
  shows "re_pc_ok num' own' pc"
  using assms by (cases pc) (auto simp: re_pc_ok_def)

lemma re_local_step:
  assumes "re_local s"
    and "re_pc_ok (re_lock_num s') (write_thread_id s' = Some t) (re_pcs s' t)"
    and "\<And>u. u \<noteq> t \<Longrightarrow> re_pcs s' u = re_pcs s u \<and> (write_thread_id s' = Some u \<longrightarrow> write_thread_id s = Some u)"
    and "re_lock_num s' = re_lock_num s \<or> re_writers s - {t} = {}"
    and "finite (re_waiting s')" and "re_write_lock_wait_num s' = card (re_waiting s')"
  shows "re_local s'"
proof -
  have "re_pc_ok (re_lock_num s') (write_thread_id s' = Some u) (re_pcs s' u)" for u
  proof (cases "u = t")
    case False
    then have "re_lock_num s' = re_lock_num s \<or> G_Write \<notin> set (re_held (re_pcs s u))"
      using assms(4) by (auto simp: re_writers_def)
    with False assms(1,3) show ?thesis
      by (auto simp: re_local_def intro: re_pc_ok_other)
  qed (use assms(2) in simp)
  with assms(5,6) show ?thesis by (simp add: re_local_def)
qed

lemma re_goto_fields [simp]:
  "re_lock_num (re_goto t pc s) = re_lock_num s"
  "re_write_lock_wait_num (re_goto t pc s) = re_write_lock_wait_num s"
  "write_thread_id (re_goto t pc s) = write_thread_id s"
  "re_pcs (re_goto t pc s) = (re_pcs s)(t := pc)"
  by (simp_all add: re_goto_def)

definition is_waiting :: "re_pc \<Rightarrow> bool" where
  "is_waiting pc = (case pc of E_W_cas _ \<Rightarrow> True | E_W_got _ \<Rightarrow> True | E_W_set _ \<Rightarrow> True | _ \<Rightarrow> False)"

lemma re_sets_step:
  assumes "re_pcs s' = (re_pcs s)(t := pc)"
  shows "re_readers s' = (if re_held pc = [G_Read] then insert t (re_readers s) else re_readers s - {t})"
    and "re_writers s' = (if G_Write \<in> set (re_held pc) then insert t (re_writers s) else re_writers s - {t})"
    and "re_waiting s' = (if is_waiting pc then insert t (re_waiting s) else re_waiting s - {t})"
  using assms by (auto simp: re_readers_def re_writers_def re_waiting_def is_waiting_def)

lemma re_member:
  "t \<in> re_readers s \<longleftrightarrow> re_held (re_pcs s t) = [G_Read]"
  "t \<in> re_writers s \<longleftrightarrow> G_Write \<in> set (re_held (re_pcs s t))"
  "t \<in> re_waiting s \<longleftrightarrow> is_waiting (re_pcs s t)"
  by (auto simp: re_readers_def re_writers_def re_waiting_def is_waiting_def)

lemma re_others:
  assumes "rw_ok False (re_view s)"
  shows "0 \<le> re_lock_num s \<Longrightarrow> re_writers s = {}"
    and "t \<in> re_readers s \<Longrightarrow> re_writers s = {}"
    and "t \<in> re_writers s \<Longrightarrow> re_writers s = {t} \<and> re_lock_num s < 0"
  using assms by (auto simp: rw_ok_def re_view_def split: if_splits)

lemma re_local_goto:
  assumes "re_local s" and pcs: "re_pcs s' = (re_pcs s)(t := pc)"
    and "re_pc_ok (re_lock_num s') (write_thread_id s' = Some t) pc"
    and "\<And>u. u \<noteq> t \<Longrightarrow> write_thread_id s' = Some u \<Longrightarrow> write_thread_id s = Some u"
    and "re_lock_num s' = re_lock_num s \<or> re_writers s - {t} = {}"
    and "re_write_lock_wait_num s' + of_bool (is_waiting (re_pcs s t)) =
      re_write_lock_wait_num s + of_bool (is_waiting pc)"
  shows "re_local s'"
proof (rule re_local_step [of s s' t])
  have "finite (re_waiting s)" and "re_write_lock_wait_num s = card (re_waiting s)"
    using assms(1) by (auto simp: re_local_def)
  moreover have "is_waiting (re_pcs s t) \<Longrightarrow> 0 < card (re_waiting s)"
    using calculation by (auto simp: card_gt_0_iff re_member)
  ultimately show "re_write_lock_wait_num s' = card (re_waiting s')"
    using assms(6) by (auto simp: re_sets_step [OF pcs] re_member insert_absorb card_insert_if split: if_splits)
  show "finite (re_waiting s')"
    using assms(1) by (simp add: re_local_def re_sets_step [OF pcs])
qed (use assms in auto)

lemma re_local_thread: "re_local s \<Longrightarrow> re_pcs s t = pc \<Longrightarrow> re_pc_ok (re_lock_num s) (write_thread_id s = Some t) pc"
  by (auto simp: re_local_def)

text \<open>A step that changes neither the counter nor the role of its thread.\<close>

lemma re_quiet:
  assumes "re_local s" and pcs: "re_pcs s' = (re_pcs s)(t := pc)"
    and "re_pc_ok (re_lock_num s) (write_thread_id s' = Some t) pc"
    and "\<And>u. u \<noteq> t \<Longrightarrow> write_thread_id s' = Some u \<Longrightarrow> write_thread_id s = Some u"
    and num: "re_lock_num s' = re_lock_num s"
    and "re_write_lock_wait_num s' + of_bool (is_waiting (re_pcs s t)) =
      re_write_lock_wait_num s + of_bool (is_waiting pc)"
    and held: "re_held pc = re_held (re_pcs s t) \<or>
      G_Write \<in> set (re_held pc) \<and> G_Write \<in> set (re_held (re_pcs s t))"
  shows "rw_trans False (re_view s) (re_view s') \<and> re_local s'"
proof
  have "re_view s' = re_view s"
    using held by (auto simp: re_view_def num re_readers_def re_writers_def pcs)
  then show "rw_trans False (re_view s) (re_view s')" by (simp add: rw_trans.stutter)
  show "re_local s'" by (rule re_local_goto [OF assms(1) pcs]) (use assms in auto)
qed

lemmas re_ok_simps = re_pc_ok_def is_waiting_def re_member

lemma re_ReadLock_refines:
  assumes "re_ReadLock_step t s s'" and ok: "rw_ok False (re_view s)" and loc: "re_local s"
  shows "rw_trans False (re_view s) (re_view s') \<and> re_local s'"
  using assms(1)
proof cases
  case (er_own h)
  with re_local_thread [OF loc er_own(2)] guards_ok_cons [of h G_Read] show ?thesis
    by (intro re_quiet [OF loc, of _ t "E_Run (G_Read # h)"]) (auto simp: re_ok_simps split: if_splits)
next
  case (er_load h)
  with re_local_thread [OF loc er_load(2)] re_others(3) [OF ok, of t] show ?thesis
    by (intro re_quiet [OF loc, of _ t "E_R_check h (re_lock_num s)"]) (auto simp: re_ok_simps)
next
  case (er_wait h n)
  with re_local_thread [OF loc er_wait(2)] re_others(3) [OF ok, of t] show ?thesis
    by (intro re_quiet [OF loc, of _ t "E_R_check h (re_lock_num s)"])
      (auto simp: re_ok_simps split: if_splits)
next
  case (er_pass h n)
  with re_local_thread [OF loc er_pass(2)] guards_ok_last [of h] show ?thesis
    by (intro re_quiet [OF loc, of _ t "E_R_cas h n"])
      (auto simp: re_ok_simps re_wait_def RW_LOCK_FREE_def split: if_splits)
next
  case (er_cas h n)
  with re_local_thread [OF loc er_cas(2)]
  have h: "h = []" "0 \<le> n" "write_thread_id s \<noteq> Some t" by (auto simp: re_pc_ok_def)
  have "re_view s' = (n + 1, insert t (re_readers s), re_writers s)"
    using er_cas h by (auto simp: re_view_def re_readers_def re_writers_def)
  then have "rw_trans False (re_view s) (re_view s')"
    using er_cas h by (auto simp: re_view_def re_member intro!: rw_trans.read_lock)
  moreover have "re_local s'"
    using er_cas h re_others(1) [OF ok]
    by (intro re_local_goto [OF loc, of _ t "E_Run [G_Read]"]) (auto simp: re_ok_simps guards_ok_def)
  ultimately show ?thesis by simp
next
  case (er_cas_fail h n)
  with re_local_thread [OF loc er_cas_fail(2)] show ?thesis
    by (intro re_quiet [OF loc, of _ t "E_R_check h (re_lock_num s)"]) (auto simp: re_ok_simps)
qed

lemma re_WriteLock_refines:
  assumes "re_WriteLock_step t s s'" and ok: "rw_ok False (re_view s)" and loc: "re_local s"
  shows "rw_trans False (re_view s) (re_view s') \<and> re_local s'"
  using assms(1)
proof cases
  case (ew_own h)
  with re_local_thread [OF loc ew_own(2)]
  have h: "G_Write \<in> set h" "guards_ok h" "re_lock_num s = - write_depth h"
    by (auto simp: re_pc_ok_def split: if_splits)
  then have "re_view s' = (re_lock_num s - 1, re_readers s, re_writers s)"
    using ew_own by (auto simp: re_view_def re_readers_def re_writers_def)
  moreover have "re_lock_num s < 0" and "re_writers s = {t}"
    using re_others(3) [OF ok, of t] h ew_own by (auto simp: re_member)
  ultimately have "rw_trans False (re_view s) (re_view s')"
    by (auto simp: re_view_def intro!: rw_trans.write_nested)
  moreover have "re_local s'"
    using ew_own h \<open>re_writers s = {t}\<close> guards_ok_cons [of h G_Write]
    by (intro re_local_goto [OF loc, of _ t "E_Run (G_Write # h)"]) (auto simp: re_ok_simps)
  ultimately show ?thesis by simp
next
  case (ew_announce h)
  with re_local_thread [OF loc ew_announce(2)] show ?thesis
    by (intro re_quiet [OF loc, of _ t "E_W_cas h"]) (auto simp: re_ok_simps)
next
  case (ew_cas h)
  with re_local_thread [OF loc ew_cas(2)] guards_ok_last [of h]
  have h: "h = []" "write_thread_id s \<noteq> Some t"
    by (auto simp: re_pc_ok_def RW_LOCK_FREE_def write_depth_pos split: if_splits)
  then have "re_view s' = (-1, re_readers s, insert t (re_writers s))"
    using ew_cas by (auto simp: re_view_def re_readers_def re_writers_def WRITE_EXCLUSIVE_def)
  then have "rw_trans False (re_view s) (re_view s')"
    using ew_cas by (auto simp: re_view_def RW_LOCK_FREE_def intro!: rw_trans.write_lock)
  moreover have "re_local s'"
    using ew_cas h re_others(1) [OF ok]
    by (intro re_local_goto [OF loc, of _ t "E_W_got [G_Write]"])
      (auto simp: re_ok_simps guards_ok_def RW_LOCK_FREE_def WRITE_EXCLUSIVE_def)
  ultimately show ?thesis by simp
next
  case (ew_cas_fail h)
  then show ?thesis using loc by (simp add: rw_trans.stutter)
next
  case (ew_set h)
  with re_local_thread [OF loc ew_set(2)] show ?thesis
    by (intro re_quiet [OF loc, of _ t "E_W_set h"]) (auto simp: re_ok_simps)
next
  case (ew_settle h)
  have "t \<in> re_waiting s" using ew_settle by (simp add: re_ok_simps)
  then have "0 < re_write_lock_wait_num s" using loc by (auto simp: re_local_def card_gt_0_iff)
  with re_local_thread [OF loc ew_settle(2)] ew_settle show ?thesis
    by (intro re_quiet [OF loc, of _ t "E_Run h"]) (auto simp: re_ok_simps)
qed

lemma re_ReadUnlock_refines:
  assumes eu_read: "s' = re_goto t (E_Run h) (s\<lparr>re_lock_num := re_lock_num s - 1\<rparr>)"
      "re_pcs s t = E_Run (G_Read # h)" "write_thread_id s \<noteq> Some t"
    and ok: "rw_ok False (re_view s)" and loc: "re_local s"
  shows "rw_trans False (re_view s) (re_view s') \<and> re_local s'"
proof -
  note thread = re_local_thread [OF loc eu_read(2)]
  show ?thesis
  proof (cases "h = []")
    case True
    then have "re_view s' = (re_lock_num s - 1, re_readers s - {t}, re_writers s)"
      using eu_read by (auto simp: re_view_def re_readers_def re_writers_def)
    then have "rw_trans False (re_view s) (re_view s')"
      using eu_read True by (auto simp: re_view_def re_member intro!: rw_trans.read_unlock)
    moreover have "re_local s'"
      using eu_read True re_others(2) [OF ok, of t]
      by (intro re_local_goto [OF loc, of _ t "E_Run []"]) (auto simp: re_ok_simps guards_ok_def)
    ultimately show ?thesis by simp
  next
    case False
    then have w: "G_Write \<in> set h" "guards_ok h"
      using thread guards_ok_tl [of G_Read h] guards_ok_last [of "G_Read # h"] by (auto simp: re_pc_ok_def)
    then have "re_writers s = {t}" "re_lock_num s < 0"
      using re_others(3) [OF ok, of t] eu_read by (auto simp: re_member)
    moreover have "re_view s' = (re_lock_num s - 1, re_readers s, re_writers s)"
      using eu_read w False by (auto simp: re_view_def re_readers_def re_writers_def)
    ultimately have "rw_trans False (re_view s) (re_view s')"
      by (auto simp: re_view_def intro!: rw_trans.write_nested)
    moreover have "re_local s'"
      using eu_read w thread \<open>re_writers s = {t}\<close>
      by (intro re_local_goto [OF loc, of _ t "E_Run h"]) (auto simp: re_ok_simps)
    ultimately show ?thesis by simp
  qed
qed

lemma re_WriteUnlock_refines:
  assumes eu_write: "s' = re_goto t (if re_lock_num s = WRITE_EXCLUSIVE then E_W_clear h else E_Run h)
        (s\<lparr>re_lock_num := re_lock_num s + 1\<rparr>)"
      "re_pcs s t = E_Run (G_Write # h)"
    and ok: "rw_ok False (re_view s)" and loc: "re_local s"
  shows "rw_trans False (re_view s) (re_view s') \<and> re_local s'"
proof -
  note thread = re_local_thread [OF loc eu_write(2)]
  have w: "re_writers s = {t}" "re_lock_num s < 0"
    using re_others(3) [OF ok, of t] eu_write by (auto simp: re_member)
  show ?thesis
  proof (cases "h = []")
    case True
    then have "re_view s' = (re_lock_num s + 1, re_readers s, re_writers s - {t})"
      using eu_write by (auto simp: re_view_def re_readers_def re_writers_def)
    then have "rw_trans False (re_view s) (re_view s')"
      using w rw_trans.write_unlock [of t "re_writers s" "re_lock_num s + 1" False] by (simp add: re_view_def)
    moreover have "re_local s'"
      using eu_write True w thread
      by (intro re_local_goto [OF loc, of _ t "if re_lock_num s = WRITE_EXCLUSIVE then E_W_clear h else E_Run h"])
        (auto simp: re_ok_simps guards_ok_def WRITE_EXCLUSIVE_def)
    ultimately show ?thesis by simp
  next
    case False
    then have h: "G_Write \<in> set h" "guards_ok h"
      using thread guards_ok_under_write [of h] guards_ok_tl [of G_Write h] by (auto simp: re_pc_ok_def)
    then have "0 < write_depth h" by (simp add: write_depth_pos)
    then have num: "re_lock_num s + 1 < 0" using thread by (simp add: re_pc_ok_def)
    have "re_view s' = (re_lock_num s + 1, re_readers s, re_writers s)"
      using eu_write h by (auto simp: re_view_def re_readers_def re_writers_def)
    then have "rw_trans False (re_view s) (re_view s')"
      using w num by (auto simp: re_view_def intro!: rw_trans.write_nested)
    moreover have "re_local s'"
      using eu_write h w num thread
      by (intro re_local_goto [OF loc, of _ t "E_Run h"]) (auto simp: re_ok_simps WRITE_EXCLUSIVE_def)
    ultimately show ?thesis by simp
  qed
qed

lemma re_Unlock_refines:
  assumes "re_Unlock_step t s s'" and ok: "rw_ok False (re_view s)" and loc: "re_local s"
  shows "rw_trans False (re_view s) (re_view s') \<and> re_local s'"
  using assms(1)
proof cases
  case (eu_read_own h)
  with re_local_thread [OF loc eu_read_own(2)] guards_ok_tl [of G_Read h] show ?thesis
    by (intro re_quiet [OF loc, of _ t "E_Run h"]) (auto simp: re_ok_simps split: if_splits)
next
  case (eu_read h)
  then show ?thesis by (rule re_ReadUnlock_refines [OF _ _ _ ok loc])
next
  case (eu_write h)
  then show ?thesis by (rule re_WriteUnlock_refines [OF _ _ ok loc])
next
  case (eu_clear h)
  with re_local_thread [OF loc eu_clear(2)] show ?thesis
    by (intro re_quiet [OF loc, of _ t "E_Run h"]) (auto simp: re_ok_simps)
qed

interpretation reentrant: rw_lock False ReentrantRWLock_step re_view re_local
  "ReentrantRWLock_ctor write_first" for write_first
proof unfold_locales
  show "rw_ok False (re_view (ReentrantRWLock_ctor write_first))"
    by (simp add: rw_ok_def re_view_def re_readers_def re_writers_def ReentrantRWLock_ctor_def)
  show "re_local (ReentrantRWLock_ctor write_first)"
    by (simp add: re_local_def re_pc_ok_def re_waiting_def guards_ok_def ReentrantRWLock_ctor_def)
next
  fix s s'
  assume "rw_ok False (re_view s)" and "re_local s" and "ReentrantRWLock_step s s'"
  then show "rw_trans False (re_view s) (re_view s') \<and> re_local s'"
    unfolding ReentrantRWLock_step_def
    using re_ReadLock_refines re_WriteLock_refines re_Unlock_refines by blast
qed

section \<open>Properties of the locks\<close>

text \<open>
  C23: whatever the interleaving, an \<open>AtomicRWLock\<close> never has a writer together with a reader or a
  second writer, the counter is the number of readers when nobody writes, and it is zero exactly
  when the lock is free.
\<close>

theorem AtomicRWLock_exclusion:
  assumes "AtomicRWLock_step\<^sup>*\<^sup>* (AtomicRWLock_ctor write_first) s"
  shows "(rw_writers s = {} \<or> (rw_readers s = {} \<and> (\<exists>t. rw_writers s = {t}))) \<and>
    (rw_lock_num s = 0 \<longleftrightarrow> rw_readers s = {} \<and> rw_writers s = {}) \<and>
    (0 \<le> rw_lock_num s \<longrightarrow> rw_lock_num s = int (card (rw_readers s)))"
  using atomic.mutual_exclusion [OF assms rw_view_def] atomic.counter_counts [OF assms rw_view_def] by blast

definition rw_two_readers :: AtomicRWLock where
  "rw_two_readers = \<lparr>rw_lock_num = 2, rw_write_lock_wait_num = 0, rw_write_first = True,
     rw_pcs = (\<lambda>_. Idle)(0 := Reading, 1 := Reading)\<rparr>"

lemma rw_reader_enters:
  assumes "rw_pcs s t = Idle" and "0 \<le> rw_lock_num s" and "rw_write_lock_wait_num s = 0"
  shows "AtomicRWLock_step\<^sup>*\<^sup>* s (rw_goto t Reading (s\<lparr>rw_lock_num := rw_lock_num s + 1\<rparr>))"
proof -
  let ?a = "rw_goto t (R_check (rw_lock_num s)) s"
  let ?b = "rw_goto t (R_cas (rw_lock_num s)) ?a"
  have "AtomicRWLock_step s ?a"
    using assms by (auto simp: AtomicRWLock_step_def intro: ReadLock_step.intros)
  moreover have "AtomicRWLock_step ?a ?b"
    using assms unfolding AtomicRWLock_step_def
    by (intro exI [of _ t] disjI1 ReadLock_step.r_pass [of ?a]) (auto simp: rw_goto_def RW_LOCK_FREE_def)
  moreover have "AtomicRWLock_step ?b (rw_goto t Reading (?b\<lparr>rw_lock_num := rw_lock_num s + 1\<rparr>))"
    using assms unfolding AtomicRWLock_step_def
    by (intro exI [of _ t] disjI1 ReadLock_step.r_cas [of ?b]) (auto simp: rw_goto_def)
  moreover have "rw_goto t Reading (?b\<lparr>rw_lock_num := rw_lock_num s + 1\<rparr>) =
      rw_goto t Reading (s\<lparr>rw_lock_num := rw_lock_num s + 1\<rparr>)"
    by (simp add: rw_goto_def)
  ultimately show ?thesis by (metis (no_types, lifting) rtranclp.simps)
qed

lemma rw_two_readers_reachable:
  "AtomicRWLock_step\<^sup>*\<^sup>* (AtomicRWLock_ctor True) rw_two_readers"
proof -
  let ?i = "AtomicRWLock_ctor True"
  let ?a = "rw_goto 0 Reading (?i\<lparr>rw_lock_num := rw_lock_num ?i + 1\<rparr>)"
  have "AtomicRWLock_step\<^sup>*\<^sup>* ?i ?a"
    by (rule rw_reader_enters) (simp_all add: AtomicRWLock_ctor_def)
  moreover have "AtomicRWLock_step\<^sup>*\<^sup>* ?a (rw_goto 1 Reading (?a\<lparr>rw_lock_num := rw_lock_num ?a + 1\<rparr>))"
    by (rule rw_reader_enters) (simp_all add: AtomicRWLock_ctor_def rw_goto_def)
  moreover have "rw_goto 1 Reading (?a\<lparr>rw_lock_num := rw_lock_num ?a + 1\<rparr>) = rw_two_readers"
    by (simp add: rw_goto_def rw_two_readers_def AtomicRWLock_ctor_def)
  ultimately show ?thesis by (metis rtranclp_trans)
qed

lemma AtomicRWLock_exclusion_witness:
  "rw_lock_num rw_two_readers = 2 \<and> rw_lock_num rw_two_readers = int (card (rw_readers rw_two_readers))"
  using AtomicRWLock_exclusion [OF rw_two_readers_reachable] by (simp add: rw_two_readers_def)

lemma blk_excl:
  assumes "Block_step\<^sup>*\<^sup>* Block_ctor s" and "blk_pcs s t = B_Writing"
  shows "blk_pcs s u \<noteq> B_Reading \<and> (blk_pcs s u = B_Writing \<longrightarrow> u = t)"
proof -
  let ?R = "{v. blk_pcs s v = B_Reading}" and ?W = "{v. blk_pcs s v = B_Writing}"
  have "?W = {} \<or> (?R = {} \<and> (\<exists>v. ?W = {v}))"
    by (rule block.mutual_exclusion [OF assms(1) blk_view_def])
  moreover have "t \<in> ?W" using assms(2) by simp
  ultimately obtain v where "?R = {}" and "?W = {v}" by (metis empty_iff)
  then have "u \<notin> ?R" and "u \<in> ?W \<Longrightarrow> u = v" and "t = v" using \<open>t \<in> ?W\<close> by simp_all
  then show ?thesis by simp
qed

text \<open>
  C24: the try-lock of a shared-memory block keeps the same promise: a block is never written
  while it is read or written by another.
\<close>

theorem Block_exclusion:
  assumes "Block_step\<^sup>*\<^sup>* Block_ctor s"
    and "blk_pcs s t = B_Writing" and "blk_pcs s u \<in> {B_Reading, B_Writing}"
  shows "u = t \<and> blk_lock_num s < 0"
proof -
  have "blk_pcs s u = B_Reading \<Longrightarrow> False" and "blk_pcs s u = B_Writing \<Longrightarrow> u = t"
    using blk_excl [OF assms(1,2), of u] by auto
  moreover have "blk_lock_num s < 0"
    using block.reachable_ok [OF assms(1)] assms(2) by (auto simp: rw_ok_def blk_view_def split: if_splits)
  ultimately show ?thesis using assms(3) by auto
qed

lemma Block_exclusion_witness:
  "let s = blk_set 3 B_Writing WRITE_EXCLUSIVE Block_ctor in blk_lock_num s < 0"
proof -
  let ?s = "blk_set 3 B_Writing WRITE_EXCLUSIVE Block_ctor"
  have "TryLockForWrite_step 3 Block_ctor ?s"
    by (rule b_write) (simp_all add: Block_ctor_def RW_LOCK_FREE_def)
  then have "Block_step\<^sup>*\<^sup>* Block_ctor ?s" unfolding Block_step_def by blast
  from Block_exclusion [OF this, of 3 3] show ?thesis by (simp add: blk_set_def Let_def)
qed

text \<open>
  \<open>Block::TryLockForRead\<close> is wait-free. An attempt in progress always has a next step, every step
  of its own brings it closer to returning by a measure that starts at ten, and no step of
  another thread moves it back.
\<close>

theorem TryLockForRead_wait_free:
  assumes "Block_step\<^sup>*\<^sup>* Block_ctor s" and "blk_pcs s t \<notin> {B_Idle, B_Reading, B_Writing}"
  shows "(\<exists>s'. TryLockForRead_step t s s') \<and>
    (\<forall>s'. TryLockForRead_step t s s' \<longrightarrow>
       blk_measure (blk_pcs s' t) < blk_measure (blk_pcs s t)) \<and>
    (\<forall>u s'. u \<noteq> t \<longrightarrow> TryLockForWrite_step u s s' \<or> TryLockForRead_step u s s' \<or> Release_step u s s' \<longrightarrow>
       blk_pcs s' t = blk_pcs s t) \<and>
    blk_measure (blk_pcs s t) \<le> 11"
proof -
  have loc: "blk_local s" using block.reachable_ok [OF assms(1)] by simp
  have "\<exists>s'. TryLockForRead_step t s s'"
    using assms(2) by (cases "blk_pcs s t") (auto intro: TryLockForRead_step.intros)
  moreover have "blk_measure (blk_pcs s t) \<le> 11"
    by (cases "blk_pcs s t") (auto simp: kMaxTryLockTimes_def)
  ultimately show ?thesis
    using TryLockForRead_measure [OF _ loc, of t] Block_step_other [of _ s _ t] assms(2) by blast
qed

lemma TryLockForRead_wait_free_witness:
  "let s = blk_set 3 (B_cas 0 0) 0 Block_ctor in
     (\<exists>s'. TryLockForRead_step 3 s s') \<and> blk_measure (blk_pcs s 3) \<le> 11"
proof -
  let ?s = "blk_set 3 (B_cas 0 0) 0 Block_ctor"
  have "TryLockForRead_step 3 Block_ctor ?s"
    using b_enter [of Block_ctor 3] by (simp add: Block_ctor_def RW_LOCK_FREE_def)
  then have "Block_step\<^sup>*\<^sup>* Block_ctor ?s" unfolding Block_step_def by blast
  from TryLockForRead_wait_free [OF this, of 3] show ?thesis by (simp add: blk_set_def Let_def)
qed

text \<open>
  \<open>ReentrantRWLock\<close> excludes as well, nested guards included: whenever a thread holds a write
  guard, no other thread holds any guard.
\<close>

theorem ReentrantRWLock_exclusion:
  assumes "ReentrantRWLock_step\<^sup>*\<^sup>* (ReentrantRWLock_ctor write_first) s"
    and "G_Write \<in> set (re_held (re_pcs s t))" and "re_held (re_pcs s u) \<noteq> []"
  shows "u = t"
proof -
  have "t \<in> re_writers s" using assms(2) by (simp add: re_member)
  then have excl: "re_readers s = {} \<and> re_writers s = {t}"
    using reentrant.mutual_exclusion [OF assms(1) re_view_def] by auto
  have "guards_ok (re_held (re_pcs s u))"
    using reentrant.reachable_ok [OF assms(1)] by (simp add: re_local_def re_pc_ok_def)
  then have "u \<in> re_readers s \<or> u \<in> re_writers s"
    using guards_ok_last assms(3) by (auto simp: re_member)
  with excl show ?thesis by blast
qed

definition re_st :: "tid option \<Rightarrow> nat \<Rightarrow> int \<Rightarrow> re_pc \<Rightarrow> re_pc \<Rightarrow> ReentrantRWLock" where
  "re_st i w n a b = \<lparr>write_thread_id = i, re_write_lock_wait_num = w, re_lock_num = n,
     re_write_first = True, re_pcs = (\<lambda>_. E_Run [])(0 := a, 1 := b)\<rparr>"

lemma re_star:
  "re_ReadLock_step t s s' \<or> re_WriteLock_step t s s' \<or> re_Unlock_step t s s' \<Longrightarrow> ReentrantRWLock_step\<^sup>*\<^sup>* s s'"
  unfolding ReentrantRWLock_step_def by blast

lemma re_pcs_st [simp]: "re_pcs (re_st i w n a b) 0 = a" "re_pcs (re_st i w n a b) (Suc 0) = b"
  by (simp_all add: re_st_def)

lemma re_goto_st [simp]:
  "re_goto 0 pc (re_st i w n a b) = re_st i w n pc b"
  "re_goto (Suc 0) pc (re_st i w n a b) = re_st i w n a pc"
  by (auto simp: re_goto_def re_st_def fun_upd_twist)

lemma re_st_fields [simp]:
  "write_thread_id (re_st i w n a b) = i" "re_lock_num (re_st i w n a b) = n"
  "re_write_lock_wait_num (re_st i w n a b) = w"
  "(re_st i w n a b)\<lparr>re_lock_num := n'\<rparr> = re_st i w n' a b"
  "(re_st i w n a b)\<lparr>write_thread_id := i'\<rparr> = re_st i' w n a b"
  "(re_st i w n a b)\<lparr>re_write_lock_wait_num := w'\<rparr> = re_st i w' n a b"
  by (simp_all add: re_st_def)

lemmas re_step_simps = RW_LOCK_FREE_def WRITE_EXCLUSIVE_def

lemma re_first_writer: "ReentrantRWLock_step\<^sup>*\<^sup>* (re_st None 0 0 (E_Run []) (E_Run []))
    (re_st (Some 0) 0 0 (E_W_clear []) (E_Run []))"
proof -
  have "ReentrantRWLock_step\<^sup>*\<^sup>* (re_st None 0 0 (E_Run []) (E_Run []))
      (re_st None 1 0 (E_W_cas []) (E_Run []))"
    using ew_announce [of "re_st None 0 0 (E_Run []) (E_Run [])" 0 "[]"]
    by (intro re_star [of 0]) (simp add: re_step_simps)
  also have "ReentrantRWLock_step\<^sup>*\<^sup>* (re_st None 1 0 (E_W_cas []) (E_Run []))
      (re_st None 1 (-1) (E_W_got [G_Write]) (E_Run []))"
    using ew_cas [of "re_st None 1 0 (E_W_cas []) (E_Run [])" 0 "[]"]
    by (intro re_star [of 0]) (simp add: re_step_simps)
  also have "ReentrantRWLock_step\<^sup>*\<^sup>* (re_st None 1 (-1) (E_W_got [G_Write]) (E_Run []))
      (re_st (Some 0) 1 (-1) (E_W_set [G_Write]) (E_Run []))"
    using ew_set [of "re_st None 1 (-1) (E_W_got [G_Write]) (E_Run [])" 0 "[G_Write]"]
    by (intro re_star [of 0]) (simp add: re_step_simps)
  also have "ReentrantRWLock_step\<^sup>*\<^sup>* (re_st (Some 0) 1 (-1) (E_W_set [G_Write]) (E_Run []))
      (re_st (Some 0) 0 (-1) (E_Run [G_Write]) (E_Run []))"
    using ew_settle [of "re_st (Some 0) 1 (-1) (E_W_set [G_Write]) (E_Run [])" 0 "[G_Write]"]
    by (intro re_star [of 0]) (simp add: re_step_simps)
  also have "ReentrantRWLock_step\<^sup>*\<^sup>* (re_st (Some 0) 0 (-1) (E_Run [G_Write]) (E_Run []))
      (re_st (Some 0) 0 0 (E_W_clear []) (E_Run []))"
    using eu_write [of "re_st (Some 0) 0 (-1) (E_Run [G_Write]) (E_Run [])" 0 "[]"]
    by (intro re_star [of 0]) (simp add: re_step_simps)
  finally show ?thesis .
qed

lemma re_second_writer: "ReentrantRWLock_step\<^sup>*\<^sup>* (re_st (Some 0) 0 0 (E_W_clear []) (E_Run []))
    (re_st None 0 (-1) (E_Run []) (E_Run []))"
proof -
  have "ReentrantRWLock_step\<^sup>*\<^sup>* (re_st (Some 0) 0 0 (E_W_clear []) (E_Run []))
      (re_st (Some 0) 1 0 (E_W_clear []) (E_W_cas []))"
    using ew_announce [of "re_st (Some 0) 0 0 (E_W_clear []) (E_Run [])" 1 "[]"]
    by (intro re_star [of 1]) (simp add: re_step_simps)
  also have "ReentrantRWLock_step\<^sup>*\<^sup>* (re_st (Some 0) 1 0 (E_W_clear []) (E_W_cas []))
      (re_st (Some 0) 1 (-1) (E_W_clear []) (E_W_got [G_Write]))"
    using ew_cas [of "re_st (Some 0) 1 0 (E_W_clear []) (E_W_cas [])" 1 "[]"]
    by (intro re_star [of 1]) (simp add: re_step_simps)
  also have "ReentrantRWLock_step\<^sup>*\<^sup>* (re_st (Some 0) 1 (-1) (E_W_clear []) (E_W_got [G_Write]))
      (re_st (Some 1) 1 (-1) (E_W_clear []) (E_W_set [G_Write]))"
    using ew_set [of "re_st (Some 0) 1 (-1) (E_W_clear []) (E_W_got [G_Write])" 1 "[G_Write]"]
    by (intro re_star [of 1]) (simp add: re_step_simps)
  also have "ReentrantRWLock_step\<^sup>*\<^sup>* (re_st (Some 1) 1 (-1) (E_W_clear []) (E_W_set [G_Write]))
      (re_st (Some 1) 0 (-1) (E_W_clear []) (E_Run [G_Write]))"
    using ew_settle [of "re_st (Some 1) 1 (-1) (E_W_clear []) (E_W_set [G_Write])" 1 "[G_Write]"]
    by (intro re_star [of 1]) (simp add: re_step_simps)
  also have "ReentrantRWLock_step\<^sup>*\<^sup>* (re_st (Some 1) 0 (-1) (E_W_clear []) (E_Run [G_Write]))
      (re_st (Some 1) 0 (-1) (E_W_clear []) (E_Run [G_Read, G_Write]))"
    using er_own [of "re_st (Some 1) 0 (-1) (E_W_clear []) (E_Run [G_Write])" 1 "[G_Write]"]
    by (intro re_star [of 1]) (simp add: re_step_simps)
  also have "ReentrantRWLock_step\<^sup>*\<^sup>* (re_st (Some 1) 0 (-1) (E_W_clear []) (E_Run [G_Read, G_Write]))
      (re_st None 0 (-1) (E_Run []) (E_Run [G_Read, G_Write]))"
    using eu_clear [of "re_st (Some 1) 0 (-1) (E_W_clear []) (E_Run [G_Read, G_Write])" 0 "[]"]
    by (intro re_star [of 0]) (simp add: re_step_simps)
  also have "ReentrantRWLock_step\<^sup>*\<^sup>* (re_st None 0 (-1) (E_Run []) (E_Run [G_Read, G_Write]))
      (re_st None 0 (-2) (E_Run []) (E_Run [G_Write]))"
    using eu_read [of "re_st None 0 (-1) (E_Run []) (E_Run [G_Read, G_Write])" 1 "[G_Write]"]
    by (intro re_star [of 1]) (simp add: re_step_simps)
  also have "ReentrantRWLock_step\<^sup>*\<^sup>* (re_st None 0 (-2) (E_Run []) (E_Run [G_Write]))
      (re_st None 0 (-1) (E_Run []) (E_Run []))"
    using eu_write [of "re_st None 0 (-2) (E_Run []) (E_Run [G_Write])" 1 "[]"]
    by (intro re_star [of 1]) (simp add: re_step_simps)
  finally show ?thesis .
qed

lemma re_ctor_st: "ReentrantRWLock_ctor True = re_st None 0 0 (E_Run []) (E_Run [])"
  by (auto simp: ReentrantRWLock_ctor_def re_st_def)

lemma re_two_steps: "ReentrantRWLock_step\<^sup>*\<^sup>* (re_st None 0 0 (E_Run []) (E_Run []))
    (re_st None 1 (-1) (E_W_got [G_Write]) (E_Run []))"
proof -
  have "ReentrantRWLock_step\<^sup>*\<^sup>* (re_st None 0 0 (E_Run []) (E_Run [])) (re_st None 1 0 (E_W_cas []) (E_Run []))"
    using ew_announce [of "re_st None 0 0 (E_Run []) (E_Run [])" 0 "[]"]
    by (intro re_star [of 0]) (simp add: re_step_simps)
  also have "ReentrantRWLock_step\<^sup>*\<^sup>* (re_st None 1 0 (E_W_cas []) (E_Run [])) (re_st None 1 (-1) (E_W_got [G_Write]) (E_Run []))"
    using ew_cas [of "re_st None 1 0 (E_W_cas []) (E_Run [])" 0 "[]"]
    by (intro re_star [of 0]) (simp add: re_step_simps)
  finally show ?thesis .
qed

text \<open>The states after the leak: the counter is negative, nobody is named as the writer, and every
  thread is idle or waits.\<close>

fun pc_stuck :: "re_pc \<Rightarrow> bool" where
  "pc_stuck (E_Run h) = (h = [])"
| "pc_stuck (E_R_check h n) = (h = [] \<and> n < 0)"
| "pc_stuck (E_W_cas h) = (h = [])"
| "pc_stuck _ = False"

definition re_stuck :: "ReentrantRWLock \<Rightarrow> bool" where
  "re_stuck s \<longleftrightarrow> re_lock_num s = -1 \<and> write_thread_id s = None \<and> (\<forall>t. pc_stuck (re_pcs s t))"

lemma pc_stuck_held: "pc_stuck pc \<Longrightarrow> re_held pc = []"
  by (cases pc) auto

lemma re_stuck_step:
  assumes "ReentrantRWLock_step s s'" and "re_stuck s"
  shows "re_stuck s'"
proof -
  obtain t where "re_ReadLock_step t s s' \<or> re_WriteLock_step t s s' \<or> re_Unlock_step t s s'"
    using assms(1) by (auto simp: ReentrantRWLock_step_def)
  moreover have "\<forall>pc. re_pcs s t = pc \<longrightarrow> pc_stuck pc" using assms(2) by (simp add: re_stuck_def)
  ultimately show ?thesis
    using assms(2)
    by (elim disjE re_ReadLock_step.cases re_WriteLock_step.cases re_Unlock_step.cases)
      (simp_all add: re_stuck_def re_wait_def RW_LOCK_FREE_def)
qed

lemma ReentrantRWLock_exclusion_witness:
  "let s = re_st None 1 (-1) (E_W_got [G_Write]) (E_Run []) in re_held (re_pcs s 7) = []"
proof -
  let ?s = "re_st None 1 (-1) (E_W_got [G_Write]) (E_Run [])"
  have "ReentrantRWLock_step\<^sup>*\<^sup>* (ReentrantRWLock_ctor True) ?s"
    using re_two_steps by (simp add: re_ctor_st)
  from ReentrantRWLock_exclusion [OF this, of 0 7] show ?thesis by (auto simp: Let_def)
qed

text \<open>
  The unlock of \<open>ReentrantRWLock\<close> is not atomic: \<open>WriteUnlock\<close> first frees the counter and then
  clears \<open>write_thread_id_\<close>, by which time the next writer may have stored its own id. The late
  store erases it, the next writer's nested read guard is released on the slow path, and the
  counter stays negative: no thread holds or requests anything, and yet no thread can ever acquire
  the lock again.
\<close>

theorem ReentrantRWLock_leaks:
  "\<exists>s. ReentrantRWLock_step\<^sup>*\<^sup>* (ReentrantRWLock_ctor True) s \<and> (\<forall>t. re_pcs s t = E_Run []) \<and>
     re_lock_num s = -1 \<and>
     (\<forall>s'. ReentrantRWLock_step\<^sup>*\<^sup>* s s' \<longrightarrow> (\<forall>t. re_held (re_pcs s' t) = []))"
proof -
  let ?s = "re_st None 0 (-1) (E_Run []) (E_Run [])"
  have "ReentrantRWLock_step\<^sup>*\<^sup>* (ReentrantRWLock_ctor True) ?s"
    using re_first_writer re_second_writer by (simp add: re_ctor_st)
  moreover have "re_pcs ?s t = E_Run []" for t by (simp add: re_st_def)
  moreover have "re_stuck s'" if "ReentrantRWLock_step\<^sup>*\<^sup>* ?s s'" for s'
    using that by induction (simp_all add: re_stuck_step, simp add: re_stuck_def re_st_def)
  then have "\<forall>s'. ReentrantRWLock_step\<^sup>*\<^sup>* ?s s' \<longrightarrow> (\<forall>t. re_held (re_pcs s' t) = [])"
    by (simp add: re_stuck_def pc_stuck_held)
  ultimately show ?thesis by (intro exI [of _ ?s]) simp
qed

lemma ReentrantRWLock_leaks_witness:
  "\<exists>s. ReentrantRWLock_step\<^sup>*\<^sup>* (ReentrantRWLock_ctor True) s \<and> re_lock_num s = -1 \<and>
     re_writers s = {} \<and> re_readers s = {}"
  using ReentrantRWLock_leaks by (auto simp: re_writers_def re_readers_def)

end
