(* ===== verification/Bounded_Queue.thy ===== *)
theory Bounded_Queue
  imports Prelude
begin

text \<open>
  The lock-free bounded queue \<open>cyber/base/bounded_queue.h\<close> with the wait strategies of
  \<open>cyber/base/wait_strategy.h\<close>. Any number of threads run \<open>Enqueue\<close>, \<open>Dequeue\<close> and their waiting
  variants; a step is one atomic access of one thread, and the program counter of a thread carries
  its local variables. The copy of an element into or out of the pool is one step. The counters
  are natural numbers: \<open>uint64_t\<close> wraps after 2 to the 64 operations. \<open>bq_in\<close> and \<open>bq_out\<close> are
  ghost logs of the elements in the order of the successful compare-and-swap on \<open>tail_\<close> and on
  \<open>head_\<close>.
\<close>

section \<open>State\<close>

datatype WaitStrategy = BlockWait | SleepWait nat | YieldWait | BusySpinWait | TimeoutBlockWait nat

fun EmptyWait_may_timeout :: "WaitStrategy \<Rightarrow> bool" where
  "EmptyWait_may_timeout (TimeoutBlockWait _) = True"
| "EmptyWait_may_timeout _ = False"

datatype 'a bq_op = Op_Enqueue bool 'a | Op_Dequeue bool

fun op_waits :: "'a bq_op \<Rightarrow> bool" where
  "op_waits (Op_Enqueue w _) = w"
| "op_waits (Op_Dequeue w) = w"

datatype 'a bq_pc =
    Q_Idle
  | Q_Start "'a bq_op"
  | Q_Full bool 'a nat
  | Q_TailCas bool 'a nat
  | Q_Store 'a nat
  | Q_Commit nat
  | Q_Empty bool nat
  | Q_Read bool nat
  | Q_HeadCas bool nat 'a
  | Q_Wait "'a bq_op"
  | Q_Ret bool

record 'a BoundedQueue =
  bq_head :: nat
  bq_tail :: nat
  bq_commit :: nat
  bq_pool_size :: nat
  bq_pool :: "'a list"
  bq_wait_strategy :: WaitStrategy
  bq_break_all_wait :: bool
  bq_pcs :: "nat \<Rightarrow> 'a bq_pc"
  bq_in :: "'a list"
  bq_out :: "'a list"

definition BoundedQueue_Init :: "'a \<Rightarrow> nat \<Rightarrow> WaitStrategy \<Rightarrow> 'a BoundedQueue" where
  "BoundedQueue_Init dflt sz strategy =
     \<lparr>bq_head = 0, bq_tail = 1, bq_commit = 1, bq_pool_size = sz + 2,
      bq_pool = replicate (sz + 2) dflt, bq_wait_strategy = strategy, bq_break_all_wait = False,
      bq_pcs = (\<lambda>_. Q_Idle), bq_in = [], bq_out = []\<rparr>"

definition BoundedQueue_GetIndex :: "'a BoundedQueue \<Rightarrow> nat \<Rightarrow> nat" where
  "BoundedQueue_GetIndex s num = num - (num div bq_pool_size s) * bq_pool_size s"

definition BoundedQueue_Size :: "'a BoundedQueue \<Rightarrow> nat" where
  "BoundedQueue_Size s = bq_tail s - bq_head s - 1"

definition BoundedQueue_Empty :: "'a BoundedQueue \<Rightarrow> bool" where
  "BoundedQueue_Empty s \<longleftrightarrow> BoundedQueue_Size s = 0"

definition BoundedQueue_SetWaitStrategy :: "WaitStrategy \<Rightarrow> 'a BoundedQueue \<Rightarrow> 'a BoundedQueue" where
  "BoundedQueue_SetWaitStrategy w s = s\<lparr>bq_wait_strategy := w\<rparr>"

definition BoundedQueue_BreakAllWait :: "'a BoundedQueue \<Rightarrow> 'a BoundedQueue" where
  "BoundedQueue_BreakAllWait s = s\<lparr>bq_break_all_wait := True\<rparr>"

definition bq_goto :: "nat \<Rightarrow> 'a bq_pc \<Rightarrow> 'a BoundedQueue \<Rightarrow> 'a BoundedQueue" where
  "bq_goto t pc s = s\<lparr>bq_pcs := (bq_pcs s)(t := pc)\<rparr>"

text \<open>What a failed attempt returns to: the loop of \<open>WaitEnqueue\<close> and \<open>WaitDequeue\<close>, or the caller.\<close>

definition bq_failed :: "'a bq_op \<Rightarrow> 'a bq_pc" where
  "bq_failed op = (if op_waits op then Q_Wait op else Q_Ret False)"

section \<open>Steps\<close>

inductive BoundedQueue_Enqueue :: "nat \<Rightarrow> 'a BoundedQueue \<Rightarrow> 'a BoundedQueue \<Rightarrow> bool" for t s where
  e_load: "bq_pcs s t = Q_Start (Op_Enqueue w x) \<Longrightarrow> \<not> (w \<and> bq_break_all_wait s) \<Longrightarrow>
    BoundedQueue_Enqueue t s (bq_goto t (Q_Full w x (bq_tail s)) s)"
| e_full: "bq_pcs s t = Q_Full w x old_tail \<Longrightarrow>
    BoundedQueue_GetIndex s (old_tail + 1) = BoundedQueue_GetIndex s (bq_head s) \<Longrightarrow>
    BoundedQueue_Enqueue t s (bq_goto t (bq_failed (Op_Enqueue w x)) s)"
| e_room: "bq_pcs s t = Q_Full w x old_tail \<Longrightarrow>
    BoundedQueue_GetIndex s (old_tail + 1) \<noteq> BoundedQueue_GetIndex s (bq_head s) \<Longrightarrow>
    BoundedQueue_Enqueue t s (bq_goto t (Q_TailCas w x old_tail) s)"
| e_cas: "bq_pcs s t = Q_TailCas w x old_tail \<Longrightarrow> bq_tail s = old_tail \<Longrightarrow>
    BoundedQueue_Enqueue t s
      (bq_goto t (Q_Store x old_tail) (s\<lparr>bq_tail := old_tail + 1, bq_in := bq_in s @ [x]\<rparr>))"
| e_cas_fail: "bq_pcs s t = Q_TailCas w x old_tail \<Longrightarrow>
    BoundedQueue_Enqueue t s (bq_goto t (Q_Full w x (bq_tail s)) s)"
| e_store: "bq_pcs s t = Q_Store x old_tail \<Longrightarrow>
    BoundedQueue_Enqueue t s
      (bq_goto t (Q_Commit old_tail) (s\<lparr>bq_pool := (bq_pool s)[BoundedQueue_GetIndex s old_tail := x]\<rparr>))"
| e_commit: "bq_pcs s t = Q_Commit old_tail \<Longrightarrow> bq_commit s = old_tail \<Longrightarrow>
    BoundedQueue_Enqueue t s (bq_goto t (Q_Ret True) (s\<lparr>bq_commit := old_tail + 1\<rparr>))"
| e_commit_fail: "bq_pcs s t = Q_Commit old_tail \<Longrightarrow> BoundedQueue_Enqueue t s s"

inductive BoundedQueue_Dequeue :: "nat \<Rightarrow> 'a BoundedQueue \<Rightarrow> 'a BoundedQueue \<Rightarrow> bool" for t s where
  d_load: "bq_pcs s t = Q_Start (Op_Dequeue w) \<Longrightarrow> \<not> (w \<and> bq_break_all_wait s) \<Longrightarrow>
    BoundedQueue_Dequeue t s (bq_goto t (Q_Empty w (bq_head s)) s)"
| d_empty: "bq_pcs s t = Q_Empty w old_head \<Longrightarrow> old_head + 1 = bq_commit s \<Longrightarrow>
    BoundedQueue_Dequeue t s (bq_goto t (bq_failed (Op_Dequeue w)) s)"
| d_some: "bq_pcs s t = Q_Empty w old_head \<Longrightarrow> old_head + 1 \<noteq> bq_commit s \<Longrightarrow>
    BoundedQueue_Dequeue t s (bq_goto t (Q_Read w old_head) s)"
| d_read: "bq_pcs s t = Q_Read w old_head \<Longrightarrow>
    BoundedQueue_Dequeue t s
      (bq_goto t (Q_HeadCas w old_head (bq_pool s ! BoundedQueue_GetIndex s (old_head + 1))) s)"
| d_cas: "bq_pcs s t = Q_HeadCas w old_head v \<Longrightarrow> bq_head s = old_head \<Longrightarrow>
    BoundedQueue_Dequeue t s
      (bq_goto t (Q_Ret True) (s\<lparr>bq_head := old_head + 1, bq_out := bq_out s @ [v]\<rparr>))"
| d_cas_fail: "bq_pcs s t = Q_HeadCas w old_head v \<Longrightarrow>
    BoundedQueue_Dequeue t s (bq_goto t (Q_Empty w (bq_head s)) s)"

text \<open>The waiting loops: leave when broken, wait after a failure, try again or time out.\<close>

inductive BoundedQueue_Wait :: "nat \<Rightarrow> 'a BoundedQueue \<Rightarrow> 'a BoundedQueue \<Rightarrow> bool" for t s where
  q_broken: "bq_pcs s t = Q_Start op \<Longrightarrow> op_waits op \<Longrightarrow> bq_break_all_wait s \<Longrightarrow>
    BoundedQueue_Wait t s (bq_goto t (Q_Ret False) s)"
| q_again: "bq_pcs s t = Q_Wait op \<Longrightarrow> BoundedQueue_Wait t s (bq_goto t (Q_Start op) s)"
| q_timeout: "bq_pcs s t = Q_Wait op \<Longrightarrow> EmptyWait_may_timeout (bq_wait_strategy s) \<Longrightarrow>
    BoundedQueue_Wait t s (bq_goto t (Q_Ret False) s)"

inductive BoundedQueue_client :: "nat \<Rightarrow> 'a BoundedQueue \<Rightarrow> 'a BoundedQueue \<Rightarrow> bool" for t s where
  c_call: "bq_pcs s t = Q_Idle \<Longrightarrow> BoundedQueue_client t s (bq_goto t (Q_Start op) s)"
| c_return: "bq_pcs s t = Q_Ret r \<Longrightarrow> BoundedQueue_client t s (bq_goto t Q_Idle s)"
| c_break: "bq_pcs s t = Q_Idle \<Longrightarrow> BoundedQueue_client t s (BoundedQueue_BreakAllWait s)"
| c_strategy: "bq_pcs s t = Q_Idle \<Longrightarrow>
    BoundedQueue_client t s (BoundedQueue_SetWaitStrategy strategy s)"

definition BoundedQueue_step :: "'a BoundedQueue \<Rightarrow> 'a BoundedQueue \<Rightarrow> bool" where
  "BoundedQueue_step s s' \<longleftrightarrow>
     (\<exists>t. BoundedQueue_Enqueue t s s' \<or> BoundedQueue_Dequeue t s s' \<or> BoundedQueue_Wait t s s' \<or>
          BoundedQueue_client t s s')"

section \<open>Invariant\<close>

text \<open>The position a thread has reserved and not yet committed.\<close>

fun bq_claim :: "'a bq_pc \<Rightarrow> nat option" where
  "bq_claim (Q_Store x p) = Some p"
| "bq_claim (Q_Commit p) = Some p"
| "bq_claim _ = None"

abbreviation bq_slot :: "'a BoundedQueue \<Rightarrow> nat \<Rightarrow> 'a" where
  "bq_slot s p \<equiv> bq_pool s ! (p mod bq_pool_size s)"

definition bq_shape :: "'a BoundedQueue \<Rightarrow> bool" where
  "bq_shape s \<longleftrightarrow>
     2 \<le> bq_pool_size s \<and> length (bq_pool s) = bq_pool_size s \<and>
     bq_head s < bq_commit s \<and> bq_commit s \<le> bq_tail s \<and> bq_tail s < bq_head s + bq_pool_size s \<and>
     length (bq_in s) = bq_tail s - 1 \<and> bq_out s = take (bq_head s) (bq_in s) \<and>
     (\<forall>p. bq_head s < p \<longrightarrow> p < bq_commit s \<longrightarrow> bq_slot s p = bq_in s ! (p - 1))"

fun bq_pc_ok :: "'a BoundedQueue \<Rightarrow> 'a bq_pc \<Rightarrow> bool" where
  "bq_pc_ok s (Q_Full w x p) = (p \<le> bq_tail s)"
| "bq_pc_ok s (Q_TailCas w x p) =
     (p \<le> bq_tail s \<and> (p = bq_tail s \<longrightarrow> p + 1 < bq_head s + bq_pool_size s))"
| "bq_pc_ok s (Q_Store x p) = (bq_commit s \<le> p \<and> p < bq_tail s \<and> bq_in s ! (p - 1) = x)"
| "bq_pc_ok s (Q_Commit p) =
     (bq_commit s \<le> p \<and> p < bq_tail s \<and> bq_slot s p = bq_in s ! (p - 1))"
| "bq_pc_ok s (Q_Empty w h) = (h \<le> bq_head s)"
| "bq_pc_ok s (Q_Read w h) = (h \<le> bq_head s \<and> (h = bq_head s \<longrightarrow> h + 1 < bq_commit s))"
| "bq_pc_ok s (Q_HeadCas w h v) =
     (h \<le> bq_head s \<and> (h = bq_head s \<longrightarrow> h + 1 < bq_commit s \<and> v = bq_in s ! h))"
| "bq_pc_ok s _ = True"

definition bq_inv :: "'a BoundedQueue \<Rightarrow> bool" where
  "bq_inv s \<longleftrightarrow> bq_shape s \<and> (\<forall>t. bq_pc_ok s (bq_pcs s t)) \<and>
     (\<forall>t u p. bq_claim (bq_pcs s t) = Some p \<longrightarrow> bq_claim (bq_pcs s u) = Some p \<longrightarrow> t = u) \<and>
     (\<forall>p. bq_commit s \<le> p \<longrightarrow> p < bq_tail s \<longrightarrow> (\<exists>t. bq_claim (bq_pcs s t) = Some p))"

lemma GetIndex_mod [simp]: "BoundedQueue_GetIndex s n = n mod bq_pool_size s"
  by (simp add: BoundedQueue_GetIndex_def modulo_nat_def)

lemma bq_goto_fields [simp]:
  "bq_head (bq_goto t pc s) = bq_head s" "bq_tail (bq_goto t pc s) = bq_tail s"
  "bq_commit (bq_goto t pc s) = bq_commit s" "bq_pool_size (bq_goto t pc s) = bq_pool_size s"
  "bq_pool (bq_goto t pc s) = bq_pool s" "bq_in (bq_goto t pc s) = bq_in s"
  "bq_out (bq_goto t pc s) = bq_out s" "bq_pcs (bq_goto t pc s) = (bq_pcs s)(t := pc)"
  by (simp_all add: bq_goto_def)

lemma mod_window_distinct:
  fixes p q n :: nat
  assumes "p mod n = q mod n" and "p < q + n" and "q < p + n"
  shows "p = q"
  using assms mod_window_neq [of p q n] mod_window_neq [of q p n] by (metis linorder_neqE_nat)

lemma bq_goto_ok [simp]:
  "bq_shape (bq_goto t pc s) = bq_shape s" "bq_pc_ok (bq_goto t pc s) q = bq_pc_ok s q"
  by (simp add: bq_shape_def) (cases q; simp)

text \<open>A step that only moves its thread and keeps its claim.\<close>

lemma bq_inv_goto:
  assumes inv: "bq_inv s" and "bq_pc_ok s pc" and claim: "bq_claim pc = bq_claim (bq_pcs s t)"
  shows "bq_inv (bq_goto t pc s)"
proof -
  have "bq_claim (bq_pcs (bq_goto t pc s) u) = bq_claim (bq_pcs s u)" for u using claim by simp
  moreover have "bq_pc_ok s (bq_pcs (bq_goto t pc s) u)" for u
    using inv assms(2) by (simp add: bq_inv_def)
  ultimately show ?thesis using inv unfolding bq_inv_def by simp
qed

lemma bq_inv_thread: "bq_inv s \<Longrightarrow> bq_pcs s t = pc \<Longrightarrow> bq_pc_ok s pc"
  by (auto simp: bq_inv_def)

lemma bq_unique:
  "bq_inv s \<Longrightarrow> bq_claim (bq_pcs s t) = Some p \<Longrightarrow> bq_claim (bq_pcs s u) = Some p \<Longrightarrow> t = u"
  unfolding bq_inv_def by blast

lemma bq_claimed: "bq_inv s \<Longrightarrow> bq_commit s \<le> p \<Longrightarrow> p < bq_tail s \<Longrightarrow> \<exists>t. bq_claim (bq_pcs s t) = Some p"
  unfolding bq_inv_def by blast

lemma bq_invI:
  assumes "bq_shape s" and "\<And>t. bq_pc_ok s (bq_pcs s t)"
    and "\<And>t u p. bq_claim (bq_pcs s t) = Some p \<Longrightarrow> bq_claim (bq_pcs s u) = Some p \<Longrightarrow> t = u"
    and "\<And>p. bq_commit s \<le> p \<Longrightarrow> p < bq_tail s \<Longrightarrow> \<exists>t. bq_claim (bq_pcs s t) = Some p"
  shows "bq_inv s"
  using assms unfolding bq_inv_def by blast

lemma bq_claim_range:
  assumes "bq_inv s" and "bq_claim (bq_pcs s t) = Some p"
  shows "bq_commit s \<le> p \<and> p < bq_tail s"
  using bq_inv_thread [OF assms(1) refl, of t] assms(2) by (cases "bq_pcs s t") auto

text \<open>Reserving a position.\<close>

lemma bq_inv_e_cas:
  assumes inv: "bq_inv s" and pc: "bq_pcs s t = Q_TailCas w x (bq_tail s)"
  shows "bq_inv (bq_goto t (Q_Store x (bq_tail s)) (s\<lparr>bq_tail := bq_tail s + 1, bq_in := bq_in s @ [x]\<rparr>))"
    (is "bq_inv ?s'")
proof (rule bq_invI)
  have room: "bq_tail s + 1 < bq_head s + bq_pool_size s" using bq_inv_thread [OF inv pc] by simp
  have shape: "bq_shape s" using inv by (simp add: bq_inv_def)
  then have len: "length (bq_in s) = bq_tail s - 1" "0 < bq_commit s" "bq_commit s \<le> bq_tail s"
    "bq_head s < bq_tail s" by (auto simp: bq_shape_def)
  then have old: "p < bq_tail s \<Longrightarrow> (bq_in s @ [x]) ! (p - 1) = bq_in s ! (p - 1)" if "0 < p" for p
    using that diff_less_mono [of p "bq_tail s" 1] by (auto simp: nth_append)
  show "bq_shape ?s'" using shape room old by (auto simp: bq_shape_def)
  show "bq_pc_ok ?s' (bq_pcs ?s' u)" for u
  proof (cases "u = t")
    case False
    then show ?thesis using bq_inv_thread [OF inv refl, of u] len old
      by (cases "bq_pcs s u") (auto simp: nth_append)
  qed (use len in \<open>auto simp: nth_append\<close>)
  show "u = v" if "bq_claim (bq_pcs ?s' u) = Some p" "bq_claim (bq_pcs ?s' v) = Some p" for u v p
    using that bq_claim_range [OF inv, of _ p] bq_unique [OF inv, of u p v] by (auto split: if_splits)
  show "\<exists>u. bq_claim (bq_pcs ?s' u) = Some p" if r: "bq_commit ?s' \<le> p" "p < bq_tail ?s'" for p
  proof (cases "p = bq_tail s")
    case False
    then obtain u where "bq_claim (bq_pcs s u) = Some p" using bq_claimed [OF inv, of p] r by auto
    moreover from this have "u \<noteq> t" using pc by auto
    ultimately show ?thesis by (intro exI [of _ u]) simp
  qed (auto intro!: exI [of _ t])
qed

text \<open>Writing a reserved slot touches no other position of the window.\<close>

lemma bq_slot_other:
  assumes "bq_shape s" and "bq_head s < p" and "p < bq_tail s" and "bq_head s < q" and "q < bq_tail s"
    and "p \<noteq> q"
  shows "(bq_pool s)[p mod bq_pool_size s := x] ! (q mod bq_pool_size s) = bq_slot s q"
proof -
  have "p mod bq_pool_size s \<noteq> q mod bq_pool_size s"
    using mod_window_distinct [of p "bq_pool_size s" q] assms by (auto simp: bq_shape_def)
  then show ?thesis by simp
qed

lemma bq_inv_e_store:
  assumes inv: "bq_inv s" and pc: "bq_pcs s t = Q_Store x p"
  shows "bq_inv (bq_goto t (Q_Commit p) (s\<lparr>bq_pool := (bq_pool s)[p mod bq_pool_size s := x]\<rparr>))"
    (is "bq_inv ?s'")
proof (rule bq_invI)
  have p: "bq_commit s \<le> p" "p < bq_tail s" "bq_in s ! (p - 1) = x" using bq_inv_thread [OF inv pc] by auto
  have shape: "bq_shape s" using inv by (simp add: bq_inv_def)
  then have len: "bq_head s < bq_commit s" "bq_commit s \<le> bq_tail s" "length (bq_pool s) = bq_pool_size s"
    "0 < bq_pool_size s" by (auto simp: bq_shape_def)
  have other: "(bq_pool s)[p mod bq_pool_size s := x] ! (q mod bq_pool_size s) = bq_slot s q"
    if "bq_head s < q" "q < bq_tail s" "p \<noteq> q" for q
    using bq_slot_other [OF shape] that p len by auto
  show "bq_shape ?s'" using shape other p by (auto simp: bq_shape_def)
  show "bq_pc_ok ?s' (bq_pcs ?s' u)" for u
  proof (cases "u = t")
    case False
    then have "bq_claim (bq_pcs s u) \<noteq> Some p" using bq_unique [OF inv, of t p u] pc by auto
    then show ?thesis using False bq_inv_thread [OF inv refl, of u] other len
      by (cases "bq_pcs s u") auto
  qed (use p len in auto)
  have same: "bq_claim (bq_pcs ?s' u) = bq_claim (bq_pcs s u)" for u using pc by simp
  show "u = v" if "bq_claim (bq_pcs ?s' u) = Some q" "bq_claim (bq_pcs ?s' v) = Some q" for u v q
    using that bq_unique [OF inv, of u q v] unfolding same by blast
  show "\<exists>u. bq_claim (bq_pcs ?s' u) = Some q" if "bq_commit ?s' \<le> q" "q < bq_tail ?s'" for q
    using that bq_claimed [OF inv, of q] unfolding same by simp
qed

lemma bq_inv_e_commit:
  assumes inv: "bq_inv s" and pc: "bq_pcs s t = Q_Commit (bq_commit s)"
  shows "bq_inv (bq_goto t (Q_Ret True) (s\<lparr>bq_commit := bq_commit s + 1\<rparr>))" (is "bq_inv ?s'")
proof (rule bq_invI)
  have p: "bq_commit s < bq_tail s" "bq_slot s (bq_commit s) = bq_in s ! (bq_commit s - 1)"
    using bq_inv_thread [OF inv pc] by auto
  have shape: "bq_shape s" using inv by (simp add: bq_inv_def)
  then show "bq_shape ?s'" using p by (auto simp: bq_shape_def less_Suc_eq)
  have mine: "bq_claim (bq_pcs s u) \<noteq> Some (bq_commit s)" if "u \<noteq> t" for u
    using that bq_unique [OF inv, of t "bq_commit s" u] pc by auto
  show "bq_pc_ok ?s' (bq_pcs ?s' u)" for u
  proof (cases "u = t")
    case False
    then show ?thesis using bq_inv_thread [OF inv refl, of u] mine [OF False]
      by (cases "bq_pcs s u") auto
  qed simp
  show "u = v" if "bq_claim (bq_pcs ?s' u) = Some q" "bq_claim (bq_pcs ?s' v) = Some q" for u v q
    using that bq_unique [OF inv, of u q v] by (auto split: if_splits)
  show "\<exists>u. bq_claim (bq_pcs ?s' u) = Some q" if q: "bq_commit ?s' \<le> q" "q < bq_tail ?s'" for q
  proof -
    obtain u where "bq_claim (bq_pcs s u) = Some q" using bq_claimed [OF inv, of q] q by auto
    moreover from this have "u \<noteq> t" using pc q by auto
    ultimately show ?thesis by (intro exI [of _ u]) simp
  qed
qed

lemma bq_inv_d_cas:
  assumes inv: "bq_inv s" and pc: "bq_pcs s t = Q_HeadCas w (bq_head s) v"
  shows "bq_inv (bq_goto t (Q_Ret True) (s\<lparr>bq_head := bq_head s + 1, bq_out := bq_out s @ [v]\<rparr>))"
    (is "bq_inv ?s'")
proof (rule bq_invI)
  have h: "bq_head s + 1 < bq_commit s" "v = bq_in s ! bq_head s" using bq_inv_thread [OF inv pc] by auto
  have shape: "bq_shape s" using inv by (simp add: bq_inv_def)
  then have "bq_head s < length (bq_in s)" using h by (auto simp: bq_shape_def)
  then show "bq_shape ?s'" using shape h by (auto simp: bq_shape_def take_Suc_conv_app_nth)
  show "bq_pc_ok ?s' (bq_pcs ?s' u)" for u
  proof (cases "u = t")
    case False
    then show ?thesis using bq_inv_thread [OF inv refl, of u] by (cases "bq_pcs s u") auto
  qed simp
  have same: "bq_claim (bq_pcs ?s' u) = bq_claim (bq_pcs s u)" for u using pc by simp
  show "u = v'" if "bq_claim (bq_pcs ?s' u) = Some q" "bq_claim (bq_pcs ?s' v') = Some q" for u v' q
    using that bq_unique [OF inv, of u q v'] unfolding same by blast
  show "\<exists>u. bq_claim (bq_pcs ?s' u) = Some q" if "bq_commit ?s' \<le> q" "q < bq_tail ?s'" for q
    using that bq_claimed [OF inv, of q] unfolding same by simp
qed

lemma bq_inv_Enqueue:
  assumes "BoundedQueue_Enqueue t s s'" and inv: "bq_inv s"
  shows "bq_inv s'"
  using assms(1)
proof cases
  case (e_room w x old_tail)
  have "bq_shape s" using inv by (simp add: bq_inv_def)
  then have "bq_tail s < bq_head s + bq_pool_size s" by (simp add: bq_shape_def)
  moreover have "old_tail = bq_tail s \<Longrightarrow> bq_tail s + 1 \<noteq> bq_head s + bq_pool_size s"
    using e_room(3) by auto
  ultimately show ?thesis
    using e_room bq_inv_thread [OF inv e_room(2)] by (auto intro!: bq_inv_goto [OF inv])
next
  case (e_cas w x old_tail)
  then show ?thesis using bq_inv_e_cas [OF inv] by simp
next
  case (e_store x old_tail)
  then show ?thesis using bq_inv_e_store [OF inv] by simp
next
  case (e_commit old_tail)
  then show ?thesis using bq_inv_e_commit [OF inv] by simp
qed (use inv in \<open>auto intro!: bq_inv_goto simp: bq_failed_def\<close>)

lemma bq_inv_Dequeue:
  assumes "BoundedQueue_Dequeue t s s'" and inv: "bq_inv s"
  shows "bq_inv s'"
  using assms(1)
proof cases
  case (d_some w old_head)
  have "bq_head s < bq_commit s" using inv by (simp add: bq_inv_def bq_shape_def)
  then show ?thesis
    using d_some bq_inv_thread [OF inv d_some(2)] by (auto intro!: bq_inv_goto [OF inv])
next
  case (d_read w old_head)
  have "bq_shape s" using inv by (simp add: bq_inv_def)
  then have "bq_head s + 1 < bq_commit s \<Longrightarrow> bq_slot s (bq_head s + 1) = bq_in s ! bq_head s"
    by (simp add: bq_shape_def)
  then show ?thesis
    using d_read bq_inv_thread [OF inv d_read(2)] by (auto intro!: bq_inv_goto [OF inv])
next
  case (d_cas w old_head v)
  then show ?thesis using bq_inv_d_cas [OF inv] by simp
qed (use inv in \<open>auto intro!: bq_inv_goto simp: bq_failed_def\<close>)

lemma bq_inv_fields:
  assumes "bq_inv s" and "bq_pcs s' = bq_pcs s" and "bq_head s' = bq_head s" and "bq_tail s' = bq_tail s"
    and "bq_commit s' = bq_commit s" and "bq_pool_size s' = bq_pool_size s" and "bq_pool s' = bq_pool s"
    and "bq_in s' = bq_in s" and "bq_out s' = bq_out s"
  shows "bq_inv s'"
proof (rule bq_invI)
  show "bq_shape s'" using assms by (simp add: bq_inv_def bq_shape_def)
  show "bq_pc_ok s' (bq_pcs s' t)" for t
    using bq_inv_thread [OF assms(1) refl, of t] assms(2-) by (cases "bq_pcs s t") auto
qed (use assms bq_unique [OF assms(1)] bq_claimed [OF assms(1)] in auto)

lemma bq_inv_other:
  "BoundedQueue_Wait t s s' \<Longrightarrow> bq_inv s \<Longrightarrow> bq_inv s'"
  "BoundedQueue_client t s s' \<Longrightarrow> bq_inv s \<Longrightarrow> bq_inv s'"
proof -
  show "BoundedQueue_Wait t s s' \<Longrightarrow> bq_inv s \<Longrightarrow> bq_inv s'"
    by (auto elim!: BoundedQueue_Wait.cases intro!: bq_inv_goto)
  show "BoundedQueue_client t s s' \<Longrightarrow> bq_inv s \<Longrightarrow> bq_inv s'"
    by (erule BoundedQueue_client.cases)
      (auto intro!: bq_inv_goto intro: bq_inv_fields
        simp: BoundedQueue_BreakAllWait_def BoundedQueue_SetWaitStrategy_def)
qed

lemma bq_inv_init: "bq_inv (BoundedQueue_Init dflt sz strategy)"
  by (auto simp: bq_inv_def bq_shape_def BoundedQueue_Init_def)

lemma bq_inv_step: "BoundedQueue_step s s' \<Longrightarrow> bq_inv s \<Longrightarrow> bq_inv s'"
  unfolding BoundedQueue_step_def using bq_inv_Enqueue bq_inv_Dequeue bq_inv_other by blast

lemma bq_inv_reachable:
  "BoundedQueue_step\<^sup>*\<^sup>* (BoundedQueue_Init dflt sz strategy) s \<Longrightarrow> bq_inv s"
  by (induction rule: rtranclp_induct) (auto simp: bq_inv_init intro: bq_inv_step)

lemma bq_pool_size_step: "BoundedQueue_step s s' \<Longrightarrow> bq_pool_size s' = bq_pool_size s"
  unfolding BoundedQueue_step_def
  by (auto elim!: BoundedQueue_Enqueue.cases BoundedQueue_Dequeue.cases BoundedQueue_Wait.cases
      BoundedQueue_client.cases simp: BoundedQueue_BreakAllWait_def BoundedQueue_SetWaitStrategy_def)

lemma bq_pool_size_reachable:
  "BoundedQueue_step\<^sup>*\<^sup>* (BoundedQueue_Init dflt sz strategy) s \<Longrightarrow> bq_pool_size s = sz + 2"
  by (induction rule: rtranclp_induct) (auto simp: bq_pool_size_step, simp add: BoundedQueue_Init_def)

section \<open>A call that runs alone\<close>

lemma bq_star:
  "BoundedQueue_Enqueue t s s' \<or> BoundedQueue_Dequeue t s s' \<or> BoundedQueue_Wait t s s' \<or>
     BoundedQueue_client t s s' \<Longrightarrow> BoundedQueue_step\<^sup>*\<^sup>* s s'"
  unfolding BoundedQueue_step_def by blast

lemma bq_goto_goto [simp]: "bq_goto t a (bq_goto t b s) = bq_goto t a s"
  by (simp add: bq_goto_def)

lemma bq_goto_upd [simp]:
  "(bq_goto t a s)\<lparr>bq_tail := n\<rparr> = bq_goto t a (s\<lparr>bq_tail := n\<rparr>)"
  "(bq_goto t a s)\<lparr>bq_head := n\<rparr> = bq_goto t a (s\<lparr>bq_head := n\<rparr>)"
  "(bq_goto t a s)\<lparr>bq_commit := n\<rparr> = bq_goto t a (s\<lparr>bq_commit := n\<rparr>)"
  "(bq_goto t a s)\<lparr>bq_pool := xs\<rparr> = bq_goto t a (s\<lparr>bq_pool := xs\<rparr>)"
  "(bq_goto t a s)\<lparr>bq_in := xs\<rparr> = bq_goto t a (s\<lparr>bq_in := xs\<rparr>)"
  "(bq_goto t a s)\<lparr>bq_out := xs\<rparr> = bq_goto t a (s\<lparr>bq_out := xs\<rparr>)"
  by (simp_all add: bq_goto_def)

lemma bq_goto_same [simp]: "bq_pcs s t = a \<Longrightarrow> bq_goto t a s = s"
  by (auto simp: bq_goto_def)

definition bq_enqueued :: "'a \<Rightarrow> 'a BoundedQueue \<Rightarrow> 'a BoundedQueue" where
  "bq_enqueued x s = s\<lparr>bq_tail := bq_tail s + 1, bq_in := bq_in s @ [x],
     bq_pool := (bq_pool s)[bq_tail s mod bq_pool_size s := x], bq_commit := bq_tail s + 1\<rparr>"

definition bq_dequeued :: "'a BoundedQueue \<Rightarrow> 'a BoundedQueue" where
  "bq_dequeued s = s\<lparr>bq_head := bq_head s + 1, bq_out := bq_out s @ [bq_slot s (bq_head s + 1)]\<rparr>"

lemma Enqueue_alone:
  assumes idle: "bq_pcs s t = Q_Idle" and "bq_commit s = bq_tail s"
    and "(bq_tail s + 1) mod bq_pool_size s \<noteq> bq_head s mod bq_pool_size s"
  shows "BoundedQueue_step\<^sup>*\<^sup>* s (bq_enqueued x s)"
proof -
  let ?p = "bq_tail s"
  let ?s1 = "s\<lparr>bq_tail := ?p + 1, bq_in := bq_in s @ [x]\<rparr>"
  let ?s2 = "?s1\<lparr>bq_pool := (bq_pool s)[?p mod bq_pool_size s := x]\<rparr>"
  have a1: "BoundedQueue_step\<^sup>*\<^sup>* s (bq_goto t (Q_Start (Op_Enqueue False x)) s)"
    using c_call [OF idle] by (intro bq_star [of t]) blast
  have a2: "BoundedQueue_step\<^sup>*\<^sup>* (bq_goto t (Q_Start (Op_Enqueue False x)) s) (bq_goto t (Q_Full False x ?p) s)"
    using e_load [of "bq_goto t (Q_Start (Op_Enqueue False x)) s" t] by (intro bq_star [of t]) auto
  have a3: "BoundedQueue_step\<^sup>*\<^sup>* (bq_goto t (Q_Full False x ?p) s) (bq_goto t (Q_TailCas False x ?p) s)"
    using e_room [of "bq_goto t (Q_Full False x ?p) s" t] assms(3) by (intro bq_star [of t]) auto
  have a4: "BoundedQueue_step\<^sup>*\<^sup>* (bq_goto t (Q_TailCas False x ?p) s) (bq_goto t (Q_Store x ?p) ?s1)"
    using e_cas [of "bq_goto t (Q_TailCas False x ?p) s" t] by (intro bq_star [of t]) auto
  have a5: "BoundedQueue_step\<^sup>*\<^sup>* (bq_goto t (Q_Store x ?p) ?s1) (bq_goto t (Q_Commit ?p) ?s2)"
    using e_store [of "bq_goto t (Q_Store x ?p) ?s1" t] by (intro bq_star [of t]) auto
  have a6: "BoundedQueue_step\<^sup>*\<^sup>* (bq_goto t (Q_Commit ?p) ?s2) (bq_goto t (Q_Ret True) (?s2\<lparr>bq_commit := ?p + 1\<rparr>))"
    using e_commit [of "bq_goto t (Q_Commit ?p) ?s2" t] assms(2) by (intro bq_star [of t]) auto
  have a7: "BoundedQueue_step\<^sup>*\<^sup>* (bq_goto t (Q_Ret True) (?s2\<lparr>bq_commit := ?p + 1\<rparr>)) (bq_enqueued x s)"
    using c_return [of "bq_goto t (Q_Ret True) (?s2\<lparr>bq_commit := ?p + 1\<rparr>)" t] idle
    by (intro bq_star [of t]) (auto simp: bq_enqueued_def)
  show ?thesis by (rule rtranclp_trans [OF a1 rtranclp_trans [OF a2 rtranclp_trans [OF a3 rtranclp_trans [OF a4 rtranclp_trans [OF a5 rtranclp_trans [OF a6 a7]]]]]])
qed

lemma Dequeue_alone:
  assumes idle: "bq_pcs s t = Q_Idle" and "bq_head s + 1 \<noteq> bq_commit s"
  shows "BoundedQueue_step\<^sup>*\<^sup>* s (bq_dequeued s)"
proof -
  let ?h = "bq_head s" and ?v = "bq_slot s (bq_head s + 1)"
  have a1: "BoundedQueue_step\<^sup>*\<^sup>* s (bq_goto t (Q_Start (Op_Dequeue False)) s)"
    using c_call [OF idle] by (intro bq_star [of t]) blast
  have a2: "BoundedQueue_step\<^sup>*\<^sup>* (bq_goto t (Q_Start (Op_Dequeue False)) s) (bq_goto t (Q_Empty False ?h) s)"
    using d_load [of "bq_goto t (Q_Start (Op_Dequeue False)) s" t] by (intro bq_star [of t]) auto
  have a3: "BoundedQueue_step\<^sup>*\<^sup>* (bq_goto t (Q_Empty False ?h) s) (bq_goto t (Q_Read False ?h) s)"
    using d_some [of "bq_goto t (Q_Empty False ?h) s" t] assms(2) by (intro bq_star [of t]) auto
  have a4: "BoundedQueue_step\<^sup>*\<^sup>* (bq_goto t (Q_Read False ?h) s) (bq_goto t (Q_HeadCas False ?h ?v) s)"
    using d_read [of "bq_goto t (Q_Read False ?h) s" t] by (intro bq_star [of t]) auto
  have a5: "BoundedQueue_step\<^sup>*\<^sup>* (bq_goto t (Q_HeadCas False ?h ?v) s)
      (bq_goto t (Q_Ret True) (s\<lparr>bq_head := ?h + 1, bq_out := bq_out s @ [?v]\<rparr>))"
    using d_cas [of "bq_goto t (Q_HeadCas False ?h ?v) s" t] by (intro bq_star [of t]) auto
  have a6: "BoundedQueue_step\<^sup>*\<^sup>* (bq_goto t (Q_Ret True) (s\<lparr>bq_head := ?h + 1, bq_out := bq_out s @ [?v]\<rparr>))
      (bq_dequeued s)"
    using c_return [of "bq_goto t (Q_Ret True) (s\<lparr>bq_head := ?h + 1, bq_out := bq_out s @ [?v]\<rparr>)" t] idle
    by (intro bq_star [of t]) (auto simp: bq_dequeued_def)
  show ?thesis by (rule rtranclp_trans [OF a1 rtranclp_trans [OF a2 rtranclp_trans [OF a3 rtranclp_trans [OF a4 rtranclp_trans [OF a5 a6]]]]])
qed

section \<open>Properties of the queue\<close>

text \<open>
  C25: in every reachable interleaving, what was taken out of a \<open>BoundedQueue\<close> is a prefix of what
  was put in, in the order in which positions were reserved: nothing is lost, duplicated, torn or
  reordered. The rest is what \<open>Size\<close> counts, and it never exceeds the size given to \<open>Init\<close>.
\<close>

theorem BoundedQueue_fifo:
  assumes "BoundedQueue_step\<^sup>*\<^sup>* (BoundedQueue_Init dflt sz strategy) s"
  shows "\<exists>pending. bq_in s = bq_out s @ pending \<and> length pending = BoundedQueue_Size s \<and>
    BoundedQueue_Size s \<le> sz"
proof -
  have shape: "bq_shape s" using bq_inv_reachable [OF assms] by (simp add: bq_inv_def)
  then have "bq_in s = bq_out s @ drop (bq_head s) (bq_in s)" by (simp add: bq_shape_def)
  moreover have "length (drop (bq_head s) (bq_in s)) = BoundedQueue_Size s"
    using shape by (auto simp: bq_shape_def BoundedQueue_Size_def)
  moreover have "BoundedQueue_Size s \<le> sz"
    using shape bq_pool_size_reachable [OF assms] by (auto simp: bq_shape_def BoundedQueue_Size_def)
  ultimately show ?thesis by blast
qed

definition bq_example :: "nat BoundedQueue" where
  "bq_example = bq_dequeued (bq_enqueued 8 (bq_enqueued 7 (BoundedQueue_Init 0 2 BlockWait)))"

lemma bq_example_reachable: "BoundedQueue_step\<^sup>*\<^sup>* (BoundedQueue_Init 0 2 BlockWait) bq_example"
proof -
  let ?i = "BoundedQueue_Init (0 :: nat) 2 BlockWait"
  have "BoundedQueue_step\<^sup>*\<^sup>* ?i (bq_enqueued 7 ?i)"
    by (rule Enqueue_alone [of _ 0]) (simp_all add: BoundedQueue_Init_def)
  also have "BoundedQueue_step\<^sup>*\<^sup>* (bq_enqueued 7 ?i) (bq_enqueued 8 (bq_enqueued 7 ?i))"
    by (rule Enqueue_alone [of _ 0]) (simp_all add: BoundedQueue_Init_def bq_enqueued_def)
  also have "BoundedQueue_step\<^sup>*\<^sup>* (bq_enqueued 8 (bq_enqueued 7 ?i)) bq_example"
    unfolding bq_example_def
    by (rule Dequeue_alone [of _ 0]) (simp_all add: BoundedQueue_Init_def bq_enqueued_def)
  finally show ?thesis .
qed

lemma BoundedQueue_fifo_witness:
  "bq_out bq_example = [7] \<and>
     (\<exists>pending. bq_in bq_example = bq_out bq_example @ pending \<and> length pending = BoundedQueue_Size bq_example)"
  using BoundedQueue_fifo [OF bq_example_reachable]
  by (auto simp: bq_example_def bq_dequeued_def bq_enqueued_def BoundedQueue_Init_def)

text \<open>
  The tests of \<open>Enqueue\<close> and \<open>Dequeue\<close> are exact on current counters: with the tail and head it
  has just read, \<open>Enqueue\<close> refuses if and only if \<open>Size\<close> has reached the size given to \<open>Init\<close>; and when no
  element is half-written, \<open>Dequeue\<close> refuses if and only if the queue is empty.
\<close>

theorem BoundedQueue_tests_exact:
  assumes "BoundedQueue_step\<^sup>*\<^sup>* (BoundedQueue_Init dflt sz strategy) s"
  shows "(BoundedQueue_GetIndex s (bq_tail s + 1) = BoundedQueue_GetIndex s (bq_head s) \<longleftrightarrow>
      BoundedQueue_Size s = sz) \<and>
    ((\<forall>t. bq_claim (bq_pcs s t) = None) \<longrightarrow> (bq_head s + 1 = bq_commit s \<longleftrightarrow> BoundedQueue_Empty s))"
proof
  have inv: "bq_inv s" by (rule bq_inv_reachable [OF assms])
  then have shape: "bq_head s < bq_commit s" "bq_commit s \<le> bq_tail s" "bq_tail s < bq_head s + (sz + 2)"
    using bq_pool_size_reachable [OF assms] by (auto simp: bq_inv_def bq_shape_def)
  have "(bq_tail s + 1) mod (sz + 2) = bq_head s mod (sz + 2) \<longleftrightarrow> bq_tail s + 1 = bq_head s + (sz + 2)"
  proof
    assume "(bq_tail s + 1) mod (sz + 2) = bq_head s mod (sz + 2)"
    then have "\<not> bq_tail s + 1 < bq_head s + (sz + 2)"
      using mod_window_distinct [of "bq_tail s + 1" "sz + 2" "bq_head s"] shape by auto
    with shape show "bq_tail s + 1 = bq_head s + (sz + 2)" by simp
  next
    assume "bq_tail s + 1 = bq_head s + (sz + 2)"
    then show "(bq_tail s + 1) mod (sz + 2) = bq_head s mod (sz + 2)" by (simp only: mod_add_self2)
  qed
  then show "BoundedQueue_GetIndex s (bq_tail s + 1) = BoundedQueue_GetIndex s (bq_head s) \<longleftrightarrow>
      BoundedQueue_Size s = sz"
    using shape by (auto simp: BoundedQueue_Size_def bq_pool_size_reachable [OF assms])
  show "(\<forall>t. bq_claim (bq_pcs s t) = None) \<longrightarrow> (bq_head s + 1 = bq_commit s \<longleftrightarrow> BoundedQueue_Empty s)"
  proof
    assume none: "\<forall>t. bq_claim (bq_pcs s t) = None"
    then have "\<not> bq_commit s < bq_tail s" using bq_claimed [OF inv, of "bq_commit s"] by auto
    with shape show "bq_head s + 1 = bq_commit s \<longleftrightarrow> BoundedQueue_Empty s"
      by (auto simp: BoundedQueue_Empty_def BoundedQueue_Size_def)
  qed
qed

lemma BoundedQueue_tests_exact_witness:
  "BoundedQueue_Size bq_example = 1 \<and>
     BoundedQueue_GetIndex bq_example (bq_tail bq_example + 1) \<noteq> BoundedQueue_GetIndex bq_example (bq_head bq_example)"
proof -
  have "BoundedQueue_Size bq_example = 1"
    by (simp add: bq_example_def bq_dequeued_def bq_enqueued_def BoundedQueue_Init_def BoundedQueue_Size_def)
  with BoundedQueue_tests_exact [OF bq_example_reachable] show ?thesis by simp
qed

text \<open>
  On a stale tail the full test of \<open>Enqueue\<close> is wrong. \<open>GetIndex(new_tail) == GetIndex(head_)\<close> also
  holds when the head has caught up with the tail that the thread read before it was delayed, so
  \<open>Enqueue\<close> can return false on an empty queue, whatever its size.
\<close>

theorem Enqueue_fails_on_empty_queue:
  "\<exists>s s'. BoundedQueue_step\<^sup>*\<^sup>* (BoundedQueue_Init dflt (Suc sz) strategy) s \<and> BoundedQueue_Empty s \<and>
     bq_pcs s = (\<lambda>_. Q_Idle)(0 := Q_Full False dflt 1) \<and> BoundedQueue_Enqueue 0 s s' \<and> bq_pcs s' 0 = Q_Ret False"
proof -
  let ?i = "BoundedQueue_Init dflt (Suc sz) strategy"
  let ?a = "bq_goto 0 (Q_Full False dflt 1) ?i"
  let ?b = "bq_enqueued dflt ?a"
  let ?c = "bq_dequeued ?b"
  let ?d = "bq_enqueued dflt ?c"
  let ?s = "bq_dequeued ?d"
  have idle: "bq_pcs ?i 0 = Q_Idle" by (simp add: BoundedQueue_Init_def)
  have a0: "BoundedQueue_step\<^sup>*\<^sup>* ?i (bq_goto 0 (Q_Start (Op_Enqueue False dflt)) ?i)"
    using c_call [OF idle] by (intro bq_star [of 0]) blast
  have a1: "BoundedQueue_step\<^sup>*\<^sup>* (bq_goto 0 (Q_Start (Op_Enqueue False dflt)) ?i) ?a"
    using e_load [of "bq_goto 0 (Q_Start (Op_Enqueue False dflt)) ?i" 0]
    by (intro bq_star [of 0]) (auto simp: BoundedQueue_Init_def)
  have a2: "BoundedQueue_step\<^sup>*\<^sup>* ?a ?b"
    by (rule Enqueue_alone [of _ 1]) (simp_all add: BoundedQueue_Init_def)
  have a3: "BoundedQueue_step\<^sup>*\<^sup>* ?b ?c"
    by (rule Dequeue_alone [of _ 1]) (simp_all add: BoundedQueue_Init_def bq_enqueued_def)
  have a4: "BoundedQueue_step\<^sup>*\<^sup>* ?c ?d"
    by (rule Enqueue_alone [of _ 1])
      (simp_all add: BoundedQueue_Init_def bq_enqueued_def bq_dequeued_def mod_Suc)
  have a5: "BoundedQueue_step\<^sup>*\<^sup>* ?d ?s"
    by (rule Dequeue_alone [of _ 1]) (simp_all add: BoundedQueue_Init_def bq_enqueued_def bq_dequeued_def)
  have "BoundedQueue_step\<^sup>*\<^sup>* ?i ?s"
    by (rule rtranclp_trans [OF a0 rtranclp_trans [OF a1 rtranclp_trans [OF a2 rtranclp_trans [OF a3
      rtranclp_trans [OF a4 a5]]]]])
  moreover have "BoundedQueue_Empty ?s"
    by (simp add: BoundedQueue_Empty_def BoundedQueue_Size_def BoundedQueue_Init_def bq_enqueued_def bq_dequeued_def)
  moreover have "bq_pcs ?s = (\<lambda>_. Q_Idle)(0 := Q_Full False dflt 1)"
    by (simp add: BoundedQueue_Init_def bq_enqueued_def bq_dequeued_def)
  moreover have "BoundedQueue_Enqueue 0 ?s (bq_goto 0 (bq_failed (Op_Enqueue False dflt)) ?s)"
    by (rule e_full [of _ _ _ _ 1]) (simp_all add: BoundedQueue_Init_def bq_enqueued_def bq_dequeued_def)
  ultimately show ?thesis
    by (intro exI [of _ ?s] exI [of _ "bq_goto 0 (bq_failed (Op_Enqueue False dflt)) ?s"])
      (simp add: bq_failed_def)
qed

end
