(* ===== verification/Blocker.thy ===== *)
theory Blocker
  imports Prelude
begin

text \<open>
  \<open>cyber/blocker\<close>, the in-process channel of the simulation mode, and
  \<open>cyber/transport/message/history.h\<close>, the cache a transmitter replays to late readers. Both keep the
  newest messages up to a depth; the locale \<open>depth_queue\<close> is their common contract.

  A callback is an opaque value, and \<open>Notify\<close> returns the calls it makes. The callback map is an
  association list; its order stands for the unspecified order of \<open>std::unordered_map\<close>. The
  channel map of \<open>BlockerManager\<close> holds blockers of different message types; the dynamic cast is a
  comparison of type tags. Every operation is atomic under its mutex.
\<close>

section \<open>Queues of bounded depth\<close>

locale depth_queue =
  fixes add :: "'m \<Rightarrow> 's \<Rightarrow> 's"
    and contents :: "'s \<Rightarrow> 'm list"
    and depth :: "'s \<Rightarrow> nat"
    and ready :: "'s \<Rightarrow> bool"
  assumes add_contents: "ready s \<Longrightarrow> contents (add m s) = last_n (depth s) (contents s @ [m])"
    and add_depth: "ready s \<Longrightarrow> depth (add m s) = depth s"
    and add_ready: "ready s \<Longrightarrow> ready (add m s)"
    and ready_bound: "ready s \<Longrightarrow> length (contents s) \<le> depth s"
begin

lemma add_all:
  "ready s \<Longrightarrow> contents (fold add ms s) = last_n (depth s) (contents s @ ms) \<and>
     depth (fold add ms s) = depth s \<and> ready (fold add ms s)"
proof (induction ms arbitrary: s)
  case Nil
  then show ?case using ready_bound [of s] by (simp add: last_n_all)
next
  case (Cons m ms)
  have "last_n (depth s) (last_n (depth s) (contents s @ [m]) @ ms) = last_n (depth s) (contents s @ m # ms)"
    by (simp add: last_n_append)
  with Cons show ?case by (simp add: add_contents add_depth add_ready)
qed

lemma newest_is_last:
  assumes "ready s" and "0 < depth s" and "ms \<noteq> []"
  shows "contents (fold add ms s) \<noteq> [] \<and> last (contents (fold add ms s)) = last ms"
proof -
  have "contents (fold add ms s) = last_n (depth s) (contents s @ ms)" using add_all [OF assms(1)] by simp
  moreover have "last_n (depth s) (contents s @ ms) \<noteq> []"
    using assms(2,3) by (simp flip: length_greater_0_conv)
  ultimately show ?thesis using last_last_n [of "contents s @ ms" "depth s"] assms(2,3) by auto
qed

end

section \<open>Blocker\<close>

record BlockerAttr =
  ba_capacity :: nat
  ba_channel_name :: string

definition BlockerAttr_channel :: "string \<Rightarrow> BlockerAttr" where
  "BlockerAttr_channel channel = \<lparr>ba_capacity = 10, ba_channel_name = channel\<rparr>"

definition BlockerAttr_ctor :: "nat \<Rightarrow> string \<Rightarrow> BlockerAttr" where
  "BlockerAttr_ctor cap channel = \<lparr>ba_capacity = cap, ba_channel_name = channel\<rparr>"

record ('m, 'c) Blocker =
  bl_attr :: BlockerAttr
  bl_observed_msg_queue :: "'m list"
  bl_published_msg_queue :: "'m list"
  bl_published_callbacks :: "(string \<times> 'c) list"
  bl_dummy_msg :: 'm

definition Blocker_ctor :: "'m \<Rightarrow> BlockerAttr \<Rightarrow> ('m, 'c) Blocker" where
  "Blocker_ctor dummy attr =
     \<lparr>bl_attr = attr, bl_observed_msg_queue = [], bl_published_msg_queue = [],
      bl_published_callbacks = [], bl_dummy_msg = dummy\<rparr>"

function pop_back_loop :: "nat \<Rightarrow> 'm list \<Rightarrow> 'm list" where
  "pop_back_loop capacity q = (if length q > capacity then pop_back_loop capacity (butlast q) else q)"
  by pat_completeness auto
termination by (relation "measure (\<lambda>(_, q). length q)") auto

declare pop_back_loop.simps [simp del]

definition Blocker_Enqueue :: "'m \<Rightarrow> ('m, 'c) Blocker \<Rightarrow> ('m, 'c) Blocker" where
  "Blocker_Enqueue m b =
     (if ba_capacity (bl_attr b) = 0 then b
      else b\<lparr>bl_published_msg_queue :=
               pop_back_loop (ba_capacity (bl_attr b)) (m # bl_published_msg_queue b)\<rparr>)"

definition Blocker_Notify :: "'m \<Rightarrow> ('m, 'c) Blocker \<Rightarrow> ('c \<times> 'm) list" where
  "Blocker_Notify m b = map (\<lambda>item. (snd item, m)) (bl_published_callbacks b)"

definition Blocker_Publish :: "'m \<Rightarrow> ('m, 'c) Blocker \<Rightarrow> ('c \<times> 'm) list \<times> ('m, 'c) Blocker" where
  "Blocker_Publish m b = (let b' = Blocker_Enqueue m b in (Blocker_Notify m b', b'))"

definition Blocker_Reset :: "('m, 'c) Blocker \<Rightarrow> ('m, 'c) Blocker" where
  "Blocker_Reset b = b\<lparr>bl_observed_msg_queue := [], bl_published_msg_queue := [],
     bl_published_callbacks := []\<rparr>"

definition Blocker_ClearObserved :: "('m, 'c) Blocker \<Rightarrow> ('m, 'c) Blocker" where
  "Blocker_ClearObserved b = b\<lparr>bl_observed_msg_queue := []\<rparr>"

definition Blocker_ClearPublished :: "('m, 'c) Blocker \<Rightarrow> ('m, 'c) Blocker" where
  "Blocker_ClearPublished b = b\<lparr>bl_published_msg_queue := []\<rparr>"

definition Blocker_Observe :: "('m, 'c) Blocker \<Rightarrow> ('m, 'c) Blocker" where
  "Blocker_Observe b = b\<lparr>bl_observed_msg_queue := bl_published_msg_queue b\<rparr>"

definition Blocker_IsObservedEmpty :: "('m, 'c) Blocker \<Rightarrow> bool" where
  "Blocker_IsObservedEmpty b \<longleftrightarrow> bl_observed_msg_queue b = []"

definition Blocker_IsPublishedEmpty :: "('m, 'c) Blocker \<Rightarrow> bool" where
  "Blocker_IsPublishedEmpty b \<longleftrightarrow> bl_published_msg_queue b = []"

definition Blocker_Subscribe :: "string \<Rightarrow> 'c \<Rightarrow> ('m, 'c) Blocker \<Rightarrow> bool \<times> ('m, 'c) Blocker" where
  "Blocker_Subscribe callback_id callback b =
     (if map_of (bl_published_callbacks b) callback_id \<noteq> None then (False, b)
      else (True, b\<lparr>bl_published_callbacks := bl_published_callbacks b @ [(callback_id, callback)]\<rparr>))"

definition Blocker_Unsubscribe :: "string \<Rightarrow> ('m, 'c) Blocker \<Rightarrow> bool \<times> ('m, 'c) Blocker" where
  "Blocker_Unsubscribe callback_id b =
     (map_of (bl_published_callbacks b) callback_id \<noteq> None,
      b\<lparr>bl_published_callbacks := filter (\<lambda>item. fst item \<noteq> callback_id) (bl_published_callbacks b)\<rparr>)"

definition Blocker_GetLatestObserved :: "('m, 'c) Blocker \<Rightarrow> 'm" where
  "Blocker_GetLatestObserved b =
     (if bl_observed_msg_queue b = [] then bl_dummy_msg b else hd (bl_observed_msg_queue b))"

definition Blocker_GetLatestObservedPtr :: "('m, 'c) Blocker \<Rightarrow> 'm option" where
  "Blocker_GetLatestObservedPtr b =
     (if bl_observed_msg_queue b = [] then None else Some (hd (bl_observed_msg_queue b)))"

definition Blocker_GetOldestObservedPtr :: "('m, 'c) Blocker \<Rightarrow> 'm option" where
  "Blocker_GetOldestObservedPtr b =
     (if bl_observed_msg_queue b = [] then None else Some (last (bl_observed_msg_queue b)))"

definition Blocker_GetLatestPublishedPtr :: "('m, 'c) Blocker \<Rightarrow> 'm option" where
  "Blocker_GetLatestPublishedPtr b =
     (if bl_published_msg_queue b = [] then None else Some (hd (bl_published_msg_queue b)))"

definition Blocker_set_capacity :: "nat \<Rightarrow> ('m, 'c) Blocker \<Rightarrow> ('m, 'c) Blocker" where
  "Blocker_set_capacity capacity b =
     b\<lparr>bl_attr := (bl_attr b)\<lparr>ba_capacity := capacity\<rparr>,
       bl_published_msg_queue := pop_back_loop capacity (bl_published_msg_queue b)\<rparr>"

section \<open>BlockerManager\<close>

type_synonym type_tag = nat

type_synonym ('m, 'c) BlockerManager = "string \<rightharpoonup> type_tag \<times> ('m, 'c) Blocker"

definition GetBlocker :: "type_tag \<Rightarrow> string \<Rightarrow> ('m, 'c) BlockerManager \<Rightarrow> ('m, 'c) Blocker option" where
  "GetBlocker T channel_name blockers =
     (case blockers channel_name of
        Some (T', b) \<Rightarrow> if T' = T then Some b else None
      | None \<Rightarrow> None)"

definition GetOrCreateBlocker ::
    "type_tag \<Rightarrow> 'm \<Rightarrow> BlockerAttr \<Rightarrow> ('m, 'c) BlockerManager \<Rightarrow>
       ('m, 'c) Blocker option \<times> ('m, 'c) BlockerManager" where
  "GetOrCreateBlocker T dummy attr blockers =
     (case blockers (ba_channel_name attr) of
        Some (T', b) \<Rightarrow> (if T' = T then Some b else None, blockers)
      | None \<Rightarrow> (let b = Blocker_ctor dummy attr in
                 (Some b, blockers(ba_channel_name attr \<mapsto> (T, b)))))"

definition BlockerManager_Publish ::
    "type_tag \<Rightarrow> 'm \<Rightarrow> string \<Rightarrow> 'm \<Rightarrow> ('m, 'c) BlockerManager \<Rightarrow>
       bool \<times> ('c \<times> 'm) list \<times> ('m, 'c) BlockerManager" where
  "BlockerManager_Publish T dummy channel_name m blockers =
     (case GetOrCreateBlocker T dummy (BlockerAttr_channel channel_name) blockers of
        (None, mg) \<Rightarrow> (False, [], mg)
      | (Some b, mg) \<Rightarrow>
          (case Blocker_Publish m b of (calls, b') \<Rightarrow> (True, calls, mg(channel_name \<mapsto> (T, b')))))"

definition BlockerManager_Subscribe ::
    "type_tag \<Rightarrow> 'm \<Rightarrow> string \<Rightarrow> nat \<Rightarrow> string \<Rightarrow> 'c \<Rightarrow> ('m, 'c) BlockerManager \<Rightarrow>
       bool \<times> ('m, 'c) BlockerManager" where
  "BlockerManager_Subscribe T dummy channel_name capacity callback_id callback blockers =
     (case GetOrCreateBlocker T dummy (BlockerAttr_ctor capacity channel_name) blockers of
        (None, mg) \<Rightarrow> (False, mg)
      | (Some b, mg) \<Rightarrow>
          (case Blocker_Subscribe callback_id callback b of
             (ok, b') \<Rightarrow> (ok, mg(channel_name \<mapsto> (T, b')))))"

definition BlockerManager_Unsubscribe ::
    "type_tag \<Rightarrow> string \<Rightarrow> string \<Rightarrow> ('m, 'c) BlockerManager \<Rightarrow> bool \<times> ('m, 'c) BlockerManager" where
  "BlockerManager_Unsubscribe T channel_name callback_id blockers =
     (case GetBlocker T channel_name blockers of
        None \<Rightarrow> (False, blockers)
      | Some b \<Rightarrow>
          (case Blocker_Unsubscribe callback_id b of
             (ok, b') \<Rightarrow> (ok, blockers(channel_name \<mapsto> (T, b')))))"

definition BlockerManager_Observe :: "('m, 'c) BlockerManager \<Rightarrow> ('m, 'c) BlockerManager" where
  "BlockerManager_Observe blockers =
     (\<lambda>ch. map_option (\<lambda>(T, b). (T, Blocker_Observe b)) (blockers ch))"

definition BlockerManager_Reset :: "('m, 'c) BlockerManager \<Rightarrow> ('m, 'c) BlockerManager" where
  "BlockerManager_Reset blockers =
     (let reset = (\<lambda>ch. map_option (\<lambda>(T, b). (T, Blocker_Reset b)) (blockers ch)) in
      reset |` {})"

section \<open>IntraReader and IntraWriter\<close>

text \<open>The attributes of the role that the code reads, and the flag of the base class.\<close>

record 'c IntraReader =
  ir_init :: bool
  ir_channel_name :: string
  ir_depth :: nat
  ir_node_name :: string
  ir_OnMessage :: 'c

definition IntraReader_Init ::
    "type_tag \<Rightarrow> 'm \<Rightarrow> 'c IntraReader \<times> ('m, 'c) BlockerManager \<Rightarrow>
       bool \<times> 'c IntraReader \<times> ('m, 'c) BlockerManager" where
  "IntraReader_Init T dummy = (\<lambda>(r, mg).
     if ir_init r then (True, r, mg)
     else (case BlockerManager_Subscribe T dummy (ir_channel_name r) (ir_depth r) (ir_node_name r)
                  (ir_OnMessage r) mg of
             (ok, mg') \<Rightarrow> (ok, r\<lparr>ir_init := True\<rparr>, mg')))"

definition IntraReader_Shutdown ::
    "type_tag \<Rightarrow> 'c IntraReader \<times> ('m, 'c) BlockerManager \<Rightarrow> 'c IntraReader \<times> ('m, 'c) BlockerManager" where
  "IntraReader_Shutdown T = (\<lambda>(r, mg).
     if \<not> ir_init r then (r, mg)
     else (r\<lparr>ir_init := False\<rparr>,
           snd (BlockerManager_Unsubscribe T (ir_channel_name r) (ir_node_name r) mg)))"

definition with_blocker ::
    "type_tag \<Rightarrow> (('m, 'c) Blocker \<Rightarrow> ('m, 'c) Blocker) \<Rightarrow> 'c IntraReader \<Rightarrow> ('m, 'c) BlockerManager \<Rightarrow>
       ('m, 'c) BlockerManager" where
  "with_blocker T f r mg =
     (case GetBlocker T (ir_channel_name r) mg of
        None \<Rightarrow> mg
      | Some b \<Rightarrow> mg(ir_channel_name r \<mapsto> (T, f b)))"

definition IntraReader_ClearData :: "type_tag \<Rightarrow> 'c IntraReader \<Rightarrow> ('m, 'c) BlockerManager \<Rightarrow> ('m, 'c) BlockerManager" where
  "IntraReader_ClearData T = with_blocker T (\<lambda>b. Blocker_ClearPublished (Blocker_ClearObserved b))"

definition IntraReader_Observe :: "type_tag \<Rightarrow> 'c IntraReader \<Rightarrow> ('m, 'c) BlockerManager \<Rightarrow> ('m, 'c) BlockerManager" where
  "IntraReader_Observe T = with_blocker T Blocker_Observe"

definition IntraReader_Empty :: "type_tag \<Rightarrow> 'c IntraReader \<Rightarrow> ('m, 'c) BlockerManager \<Rightarrow> bool" where
  "IntraReader_Empty T r mg =
     (case GetBlocker T (ir_channel_name r) mg of Some b \<Rightarrow> Blocker_IsObservedEmpty b | None \<Rightarrow> True)"

definition IntraReader_HasReceived :: "type_tag \<Rightarrow> 'c IntraReader \<Rightarrow> ('m, 'c) BlockerManager \<Rightarrow> bool" where
  "IntraReader_HasReceived T r mg =
     (case GetBlocker T (ir_channel_name r) mg of Some b \<Rightarrow> \<not> Blocker_IsPublishedEmpty b | None \<Rightarrow> False)"

definition IntraReader_Enqueue ::
    "type_tag \<Rightarrow> 'm \<Rightarrow> 'm \<Rightarrow> 'c IntraReader \<Rightarrow> ('m, 'c) BlockerManager \<Rightarrow> ('c \<times> 'm) list \<times> ('m, 'c) BlockerManager" where
  "IntraReader_Enqueue T dummy m r mg = snd (BlockerManager_Publish T dummy (ir_channel_name r) m mg)"

definition IntraReader_SetHistoryDepth ::
    "type_tag \<Rightarrow> nat \<Rightarrow> 'c IntraReader \<Rightarrow> ('m, 'c) BlockerManager \<Rightarrow> ('m, 'c) BlockerManager" where
  "IntraReader_SetHistoryDepth T depth = with_blocker T (Blocker_set_capacity depth)"

definition IntraReader_GetHistoryDepth :: "type_tag \<Rightarrow> 'c IntraReader \<Rightarrow> ('m, 'c) BlockerManager \<Rightarrow> nat" where
  "IntraReader_GetHistoryDepth T r mg =
     (case GetBlocker T (ir_channel_name r) mg of
        Some b \<Rightarrow> ba_capacity (bl_attr b) mod 2 ^ 32
      | None \<Rightarrow> 0)"

definition IntraReader_GetLatestObserved :: "type_tag \<Rightarrow> 'c IntraReader \<Rightarrow> ('m, 'c) BlockerManager \<Rightarrow> 'm option" where
  "IntraReader_GetLatestObserved T r mg =
     (case GetBlocker T (ir_channel_name r) mg of Some b \<Rightarrow> Blocker_GetLatestObservedPtr b | None \<Rightarrow> None)"

definition IntraReader_GetOldestObserved :: "type_tag \<Rightarrow> 'c IntraReader \<Rightarrow> ('m, 'c) BlockerManager \<Rightarrow> 'm option" where
  "IntraReader_GetOldestObserved T r mg =
     (case GetBlocker T (ir_channel_name r) mg of Some b \<Rightarrow> Blocker_GetOldestObservedPtr b | None \<Rightarrow> None)"

text \<open>\<open>Begin\<close> to \<open>End\<close>: the messages iterated over; \<open>ACHECK\<close> aborts without a blocker.\<close>

definition IntraReader_Iterate :: "type_tag \<Rightarrow> 'c IntraReader \<Rightarrow> ('m, 'c) BlockerManager \<Rightarrow> 'm list option" where
  "IntraReader_Iterate T r mg = map_option bl_observed_msg_queue (GetBlocker T (ir_channel_name r) mg)"

record IntraWriter =
  iw_init :: bool
  iw_channel_name :: string

definition IntraWriter_Init ::
    "type_tag \<Rightarrow> 'm \<Rightarrow> IntraWriter \<times> ('m, 'c) BlockerManager \<Rightarrow> bool \<times> IntraWriter \<times> ('m, 'c) BlockerManager" where
  "IntraWriter_Init T dummy = (\<lambda>(w, mg).
     if iw_init w then (True, w, mg)
     else (True, w\<lparr>iw_init := True\<rparr>,
           snd (GetOrCreateBlocker T dummy (BlockerAttr_channel (iw_channel_name w)) mg)))"

definition IntraWriter_Shutdown :: "IntraWriter \<Rightarrow> IntraWriter" where
  "IntraWriter_Shutdown w = (if \<not> iw_init w then w else w\<lparr>iw_init := False\<rparr>)"

definition IntraWriter_Write ::
    "type_tag \<Rightarrow> 'm \<Rightarrow> 'm \<Rightarrow> IntraWriter \<Rightarrow> ('m, 'c) BlockerManager \<Rightarrow>
       bool \<times> ('c \<times> 'm) list \<times> ('m, 'c) BlockerManager" where
  "IntraWriter_Write T dummy m w mg =
     (if \<not> iw_init w then (False, [], mg)
      else BlockerManager_Publish T dummy (iw_channel_name w) m mg)"

section \<open>History\<close>

datatype QosHistoryPolicy = HISTORY_SYSTEM_DEFAULT | HISTORY_KEEP_LAST | HISTORY_KEEP_ALL

record HistoryAttributes =
  ha_history_policy :: QosHistoryPolicy
  ha_depth :: nat

record ('m, 'i) History =
  hi_enabled :: bool
  hi_depth :: nat
  hi_max_depth :: nat
  hi_msgs :: "('m \<times> 'i) list"

text \<open>The argument is \<open>max_history_depth\<close> of the global configuration, if it has one.\<close>

definition History_ctor :: "nat option \<Rightarrow> HistoryAttributes \<Rightarrow> ('m, 'i) History" where
  "History_ctor resource_limit attr =
     (let max_depth = (case resource_limit of Some d \<Rightarrow> d | None \<Rightarrow> 1000) in
      \<lparr>hi_enabled = False,
       hi_depth = (if ha_history_policy attr = HISTORY_KEEP_ALL then max_depth
                   else if ha_depth attr > max_depth then max_depth else ha_depth attr),
       hi_max_depth = max_depth, hi_msgs = []\<rparr>)"

function pop_front_loop :: "nat \<Rightarrow> 'a list \<Rightarrow> 'a list" where
  "pop_front_loop depth q = (if length q > depth then pop_front_loop depth (tl q) else q)"
  by pat_completeness auto
termination by (relation "measure (\<lambda>(_, q). length q)") auto

declare pop_front_loop.simps [simp del]

definition History_Enable :: "('m, 'i) History \<Rightarrow> ('m, 'i) History" where
  "History_Enable h = h\<lparr>hi_enabled := True\<rparr>"

definition History_Disable :: "('m, 'i) History \<Rightarrow> ('m, 'i) History" where
  "History_Disable h = h\<lparr>hi_enabled := False\<rparr>"

definition History_Add :: "'m \<times> 'i \<Rightarrow> ('m, 'i) History \<Rightarrow> ('m, 'i) History" where
  "History_Add m h =
     (if \<not> hi_enabled h then h
      else h\<lparr>hi_msgs := pop_front_loop (hi_depth h) (hi_msgs h @ [m])\<rparr>)"

definition History_Clear :: "('m, 'i) History \<Rightarrow> ('m, 'i) History" where
  "History_Clear h = h\<lparr>hi_msgs := []\<rparr>"

definition History_GetCachedMessage :: "('m \<times> 'i) list \<Rightarrow> ('m, 'i) History \<Rightarrow> ('m \<times> 'i) list" where
  "History_GetCachedMessage msgs h = hi_msgs h @ msgs"

definition History_GetSize :: "('m, 'i) History \<Rightarrow> nat" where
  "History_GetSize h = length (hi_msgs h)"

section \<open>Both are queues of bounded depth\<close>

lemma pop_back_loop_take: "pop_back_loop n q = take n q"
proof (induction n q rule: pop_back_loop.induct)
  case (1 n q)
  then show ?case by (subst pop_back_loop.simps) (auto simp: take_butlast)
qed

lemma pop_front_loop_last_n: "pop_front_loop n q = last_n n q"
proof (induction n q rule: pop_front_loop.induct)
  case (1 n q)
  then show ?case by (subst pop_front_loop.simps) (auto simp: last_n_def Suc_diff_Suc simp flip: drop_Suc)
qed

definition blocker_contents :: "('m, 'c) Blocker \<Rightarrow> 'm list" where
  "blocker_contents b = rev (bl_published_msg_queue b)"

definition blocker_ready :: "('m, 'c) Blocker \<Rightarrow> bool" where
  "blocker_ready b \<longleftrightarrow> length (bl_published_msg_queue b) \<le> ba_capacity (bl_attr b)"

definition history_ready :: "('m, 'i) History \<Rightarrow> bool" where
  "history_ready h \<longleftrightarrow> hi_enabled h \<and> length (hi_msgs h) \<le> hi_depth h"

interpretation blocker: depth_queue Blocker_Enqueue blocker_contents "\<lambda>b. ba_capacity (bl_attr b)" blocker_ready
proof unfold_locales
  fix b :: "('m, 'c) Blocker" and m :: 'm
  assume ready: "blocker_ready b"
  show "blocker_contents (Blocker_Enqueue m b) = last_n (ba_capacity (bl_attr b)) (blocker_contents b @ [m])"
    using ready by (auto simp: Blocker_Enqueue_def blocker_contents_def blocker_ready_def pop_back_loop_take
        last_n_def rev_take simp del: take_Cons')
  show "ba_capacity (bl_attr (Blocker_Enqueue m b)) = ba_capacity (bl_attr b)"
    by (simp add: Blocker_Enqueue_def)
  show "blocker_ready (Blocker_Enqueue m b)"
    using ready by (auto simp: Blocker_Enqueue_def blocker_ready_def pop_back_loop_take)
  show "length (blocker_contents b) \<le> ba_capacity (bl_attr b)"
    using ready by (simp add: blocker_ready_def blocker_contents_def)
qed

interpretation history: depth_queue History_Add hi_msgs hi_depth history_ready
  by unfold_locales (auto simp: History_Add_def history_ready_def pop_front_loop_last_n)

section \<open>The in-process channel as a whole\<close>

fun write_all :: "type_tag \<Rightarrow> 'm \<Rightarrow> IntraWriter \<Rightarrow> 'm list \<Rightarrow> ('m, 'c) BlockerManager \<Rightarrow>
    ('c \<times> 'm) list \<times> ('m, 'c) BlockerManager" where
  "write_all T dummy w [] mg = ([], mg)"
| "write_all T dummy w (m # ms) mg =
     (case IntraWriter_Write T dummy m w mg of (_, calls, mg') \<Rightarrow>
        (case write_all T dummy w ms mg' of (calls', mg'') \<Rightarrow> (calls @ calls', mg'')))"

lemma Enqueue_callbacks [simp]:
  "bl_published_callbacks (Blocker_Enqueue m b) = bl_published_callbacks b"
  "bl_attr (Blocker_Enqueue m b) = bl_attr b"
  by (simp_all add: Blocker_Enqueue_def)

lemma Write_existing:
  assumes "mg (iw_channel_name w) = Some (T, b)" and "iw_init w"
  shows "IntraWriter_Write T dummy m w mg =
    (True, Blocker_Notify m b, mg(iw_channel_name w \<mapsto> (T, Blocker_Enqueue m b)))"
  using assms by (simp add: IntraWriter_Write_def BlockerManager_Publish_def GetOrCreateBlocker_def
      BlockerAttr_channel_def Blocker_Publish_def Blocker_Notify_def Let_def)

lemma write_all_existing:
  assumes "mg (iw_channel_name w) = Some (T, b)" and "iw_init w"
  shows "write_all T dummy w ms mg =
    (concat (map (\<lambda>m. Blocker_Notify m b) ms), mg(iw_channel_name w \<mapsto> (T, fold Blocker_Enqueue ms b)))"
  using assms
proof (induction ms arbitrary: mg b)
  case Nil
  then show ?case by auto
next
  case (Cons m ms)
  have "Blocker_Notify k (Blocker_Enqueue m b) = Blocker_Notify k b" for k
    by (simp add: Blocker_Notify_def)
  with Cons show ?case by (simp add: Write_existing fun_eq_iff)
qed

lemma Subscribe_fresh:
  "mg ch = None \<Longrightarrow> BlockerManager_Subscribe T dummy ch cap cid cb mg =
     (True, mg(ch \<mapsto> (T, (Blocker_ctor dummy (BlockerAttr_ctor cap ch))\<lparr>bl_published_callbacks := [(cid, cb)]\<rparr>)))"
  by (simp add: BlockerManager_Subscribe_def GetOrCreateBlocker_def BlockerAttr_ctor_def Let_def
      Blocker_Subscribe_def Blocker_ctor_def)

section \<open>Properties\<close>

text \<open>
  An in-process channel delivers. A reader of depth \<open>d\<close> that initialises on a fresh channel is
  called once for each message a writer then writes, in order; after \<open>Observe\<close> it sees exactly the
  newest \<open>d\<close> messages, newest first, the latest being the last one written and the oldest the
  first of those retained.
\<close>

theorem intra_channel_delivers:
  fixes mg :: "('m, 'c) BlockerManager"
  assumes "\<not> ir_init r" and "\<not> iw_init w" and "iw_channel_name w = ir_channel_name r"
    and "mg (ir_channel_name r) = None" and "0 < ir_depth r" and "ms \<noteq> []"
    and "IntraReader_Init T dummy (r, mg) = (ok, r', mg1)"
    and "IntraWriter_Init T dummy (w, mg1) = (ok', w', mg2)"
    and "write_all T dummy w' ms mg2 = (calls, mg3)"
  shows "ok \<and> ok' \<and> calls = map (\<lambda>m. (ir_OnMessage r, m)) ms \<and>
    IntraReader_Iterate T r' (IntraReader_Observe T r' mg3) = Some (rev (last_n (ir_depth r) ms)) \<and>
    IntraReader_GetLatestObserved T r' (IntraReader_Observe T r' mg3) = Some (last ms) \<and>
    IntraReader_GetOldestObserved T r' (IntraReader_Observe T r' mg3) = Some (hd (last_n (ir_depth r) ms))"
proof -
  let ?ch = "ir_channel_name r"
  let ?b = "(Blocker_ctor dummy (BlockerAttr_ctor (ir_depth r) ?ch))
    \<lparr>bl_published_callbacks := [(ir_node_name r, ir_OnMessage r)]\<rparr> :: ('m, 'c) Blocker"
  let ?B = "fold Blocker_Enqueue ms ?b"
  have one: "ok" "r' = r\<lparr>ir_init := True\<rparr>" "mg1 = mg(?ch \<mapsto> (T, ?b))"
    using assms(1,4,7) by (auto simp: IntraReader_Init_def Subscribe_fresh)
  have two: "ok'" "w' = w\<lparr>iw_init := True\<rparr>" "mg2 = mg1"
    using assms(2,3,8) one by (auto simp: IntraWriter_Init_def GetOrCreateBlocker_def BlockerAttr_channel_def)
  have three: "calls = concat (map (\<lambda>m. Blocker_Notify m ?b) ms)" "mg3 = mg2(?ch \<mapsto> (T, ?B))"
    using write_all_existing [of mg2 w' T ?b dummy ms] assms(3,9) one two by auto
  have ready: "blocker_ready ?b" by (simp add: blocker_ready_def Blocker_ctor_def)
  have q: "bl_published_msg_queue ?B = rev (last_n (ir_depth r) ms)"
    using blocker.add_all [OF ready, of ms]
    by (simp add: blocker_contents_def Blocker_ctor_def BlockerAttr_ctor_def rev_swap)
  have "last_n (ir_depth r) ms \<noteq> []" using assms(5,6) by (simp flip: length_greater_0_conv)
  moreover have "calls = map (\<lambda>m. (ir_OnMessage r, m)) ms"
    unfolding three(1) by (induction ms) (simp_all add: Blocker_Notify_def)
  ultimately show ?thesis using one(1) two(1) assms(5,6)
    by (simp add: one(2) three(2) q IntraReader_Iterate_def IntraReader_Observe_def with_blocker_def GetBlocker_def
        Blocker_Observe_def IntraReader_GetLatestObserved_def IntraReader_GetOldestObserved_def
        Blocker_GetLatestObservedPtr_def Blocker_GetOldestObservedPtr_def hd_rev last_rev last_last_n)
qed

lemma intra_channel_delivers_witness:
  "let r = \<lparr>ir_init = False, ir_channel_name = ''c'', ir_depth = 2, ir_node_name = ''n'', ir_OnMessage = ()\<rparr>;
       w = \<lparr>iw_init = False, iw_channel_name = ''c''\<rparr>;
       mg1 = snd (snd (IntraReader_Init 1 (0 :: int) (r, Map.empty)));
       mg2 = snd (snd (IntraWriter_Init 1 0 (w, mg1)))
   in fst (write_all 1 0 (w\<lparr>iw_init := True\<rparr>) [7, 8, 9] mg2) = [((), 7), ((), 8), ((), 9)]"
proof -
  let ?r = "\<lparr>ir_init = False, ir_channel_name = ''c'', ir_depth = 2, ir_node_name = ''n'', ir_OnMessage = ()\<rparr>"
  let ?w = "\<lparr>iw_init = False, iw_channel_name = ''c''\<rparr>"
  obtain ok r' mg1 where 1: "IntraReader_Init 1 (0 :: int) (?r, Map.empty) = (ok, r', mg1)"
    by (metis prod_cases3)
  obtain ok' w' mg2 where 2: "IntraWriter_Init 1 0 (?w, mg1) = (ok', w', mg2)"
    by (metis prod_cases3)
  have w: "w' = ?w\<lparr>iw_init := True\<rparr>" using 2 by (simp add: IntraWriter_Init_def)
  obtain calls mg3 where 3: "write_all 1 0 w' [7, 8, 9] mg2 = (calls, mg3)"
    by (metis surj_pair)
  have "calls = [((), 7), ((), 8), ((), 9)]"
    using intra_channel_delivers [OF _ _ _ _ _ _ 1 2 3] by simp
  then show ?thesis using 1 2 3 w by (simp add: Let_def)
qed

text \<open>
  The history of a transmitter. Its depth is never above the configured maximum; while enabled it
  holds exactly the newest messages up to its depth, oldest first, and while disabled it keeps
  nothing new.
\<close>

theorem History_keeps_newest:
  "hi_depth (History_ctor limit attr) \<le> (case limit of Some d \<Rightarrow> d | None \<Rightarrow> 1000) \<and>
   History_GetCachedMessage [] (fold History_Add ms (History_Enable (History_ctor limit attr))) =
     last_n (hi_depth (History_ctor limit attr)) ms \<and>
   fold History_Add ms (History_Disable h) = History_Disable h"
proof (intro conjI)
  show "hi_depth (History_ctor limit attr) \<le> (case limit of Some d \<Rightarrow> d | None \<Rightarrow> 1000)"
    by (auto simp: History_ctor_def Let_def)
  let ?h = "History_Enable (History_ctor limit attr)"
  have "history_ready ?h" by (simp add: history_ready_def History_Enable_def History_ctor_def Let_def)
  from history.add_all [OF this, of ms]
  show "History_GetCachedMessage [] (fold History_Add ms ?h) = last_n (hi_depth (History_ctor limit attr)) ms"
    by (simp add: History_GetCachedMessage_def History_Enable_def History_ctor_def Let_def)
  show "fold History_Add ms (History_Disable h) = History_Disable h"
    by (induction ms) (simp_all add: History_Add_def History_Disable_def)
qed

text \<open>
  Callbacks are keyed by node name only. When a second reader of a channel carries the same node
  name (\<open>Node\<close> refuses a second reader of its own, but two nodes may share a name), its \<open>Init\<close>
  returns false but leaves it marked as initialised; shutting it down, which its destructor does,
  removes the callback of the first reader, which then misses every later message although it is
  still initialised.
\<close>

theorem second_reader_unsubscribes_first:
  fixes mg :: "('m, 'c) BlockerManager"
  assumes "\<not> ir_init r1" and "\<not> ir_init r2" and "ir_channel_name r2 = ir_channel_name r1"
    and "ir_node_name r2 = ir_node_name r1" and "mg (ir_channel_name r1) = None"
    and "IntraReader_Init T dummy (r1, mg) = (ok1, r1', mg1)"
    and "IntraReader_Init T dummy (r2, mg1) = (ok2, r2', mg2)"
    and "IntraReader_Shutdown T (r2', mg2) = (r2'', mg3)"
    and "iw_init w" and "iw_channel_name w = ir_channel_name r1"
  shows "ok1 \<and> \<not> ok2 \<and> ir_init r1' \<and> fst (write_all T dummy w ms mg3) = []"
proof -
  let ?ch = "ir_channel_name r1"
  let ?c = "Blocker_ctor dummy (BlockerAttr_ctor (ir_depth r1) ?ch) :: ('m, 'c) Blocker"
  let ?b = "?c\<lparr>bl_published_callbacks := [(ir_node_name r1, ir_OnMessage r1)]\<rparr>"
  have one: "ok1" "r1' = r1\<lparr>ir_init := True\<rparr>" "mg1 = mg(?ch \<mapsto> (T, ?b))"
    using assms(1,5,6) by (auto simp: IntraReader_Init_def Subscribe_fresh)
  have two: "\<not> ok2" "r2' = r2\<lparr>ir_init := True\<rparr>" "mg2 ?ch = Some (T, ?b)"
    using assms(2,3,4,7) one by (auto simp: IntraReader_Init_def BlockerManager_Subscribe_def
        GetOrCreateBlocker_def BlockerAttr_ctor_def Blocker_Subscribe_def)
  have three: "mg3 ?ch = Some (T, ?c)"
    using assms(3,4,8) two by (auto simp: IntraReader_Shutdown_def BlockerManager_Unsubscribe_def
        GetBlocker_def Blocker_Unsubscribe_def Blocker_ctor_def)
  then have "fst (write_all T dummy w ms mg3) = []"
    using write_all_existing [of mg3 w T ?c dummy ms] assms(9,10)
    by (simp add: Blocker_Notify_def Blocker_ctor_def)
  with one two show ?thesis by simp
qed

lemma second_reader_unsubscribes_first_witness:
  "let r = \<lparr>ir_init = False, ir_channel_name = ''c'', ir_depth = 2, ir_node_name = ''n'', ir_OnMessage = ()\<rparr>;
       w = \<lparr>iw_init = True, iw_channel_name = ''c''\<rparr>;
       mg1 = snd (snd (IntraReader_Init 1 (0 :: int) (r, Map.empty)));
       mg2 = snd (snd (IntraReader_Init 1 0 (r, mg1)))
   in fst (write_all 1 0 w [7] mg1) = [((), 7)] \<and>
      fst (write_all 1 0 w [7] (snd (IntraReader_Shutdown 1 (r\<lparr>ir_init := True\<rparr>, mg2)))) = []"
proof -
  let ?r = "\<lparr>ir_init = False, ir_channel_name = ''c'', ir_depth = 2, ir_node_name = ''n'', ir_OnMessage = ()\<rparr>"
  let ?w = "\<lparr>iw_init = True, iw_channel_name = ''c''\<rparr>"
  obtain ok r' mg1 where 1: "IntraReader_Init 1 (0 :: int) (?r, Map.empty) = (ok, r', mg1)"
    by (metis prod_cases3)
  obtain ok2 r2 mg2 where 2: "IntraReader_Init 1 0 (?r, mg1) = (ok2, r2, mg2)"
    by (metis prod_cases3)
  have r2: "r2 = ?r\<lparr>ir_init := True\<rparr>" using 2 by (auto simp: IntraReader_Init_def split: prod.splits)
  obtain r3 mg3 where 3: "IntraReader_Shutdown 1 (r2, mg2) = (r3, mg3)" by (metis surj_pair)
  have "fst (write_all 1 0 ?w [7] mg3) = []"
    using second_reader_unsubscribes_first [OF _ _ _ _ _ 1 2 3, of ?w "[7]"] by simp
  moreover have "fst (write_all 1 0 ?w [7] mg1) = [((), 7)]"
    using 1 by (auto simp: IntraReader_Init_def Subscribe_fresh Write_existing Blocker_Notify_def)
  ultimately show ?thesis using 1 2 3 r2 by (simp add: Let_def)
qed

text \<open>The depth of a reader only counts if the reader creates the blocker: after a writer's \<open>Init\<close>
  the channel keeps the default of ten messages, whatever the reader asks for.\<close>

lemma writer_first_fixes_depth:
  assumes "\<not> iw_init w" and "\<not> ir_init r" and "iw_channel_name w = ir_channel_name r"
    and "mg (ir_channel_name r) = None"
    and "IntraWriter_Init T dummy (w, mg) = (ok, w', mg1)"
    and "IntraReader_Init T dummy (r, mg1) = (ok', r', mg2)"
  shows "ok \<and> ok' \<and> IntraReader_GetHistoryDepth T r' mg2 = 10"
  using assms by (auto simp: IntraWriter_Init_def IntraReader_Init_def BlockerManager_Subscribe_def
      GetOrCreateBlocker_def BlockerAttr_channel_def BlockerAttr_ctor_def Blocker_Subscribe_def Blocker_ctor_def
      IntraReader_GetHistoryDepth_def GetBlocker_def Let_def)

end
