(* ===== verification/Shm_Wire.thy ===== *)
theory Shm_Wire
  imports Prelude
begin

text \<open>
  What two processes exchange beside the payload of a message: \<open>transport/common/identity\<close>,
  \<open>transport/message/message_info\<close> (stored behind the message in its block) and
  \<open>transport/shm/readable_info\<close> (which block of which channel is ready), with their byte encodings;
  and \<open>transport/shm/condition_notifier\<close>, the ring in shared memory through which a writer announces
  readable blocks.

  A byte is a natural number below 256. The code copies integers in the order of the host, taken as
  little-endian. \<open>common::Hash\<close> is \<open>std::hash\<close> and a parameter.
\<close>

section \<open>Integers as bytes\<close>

type_synonym bytes = "nat list"

fun le_bytes :: "nat \<Rightarrow> nat \<Rightarrow> bytes" where
  "le_bytes 0 v = []"
| "le_bytes (Suc n) v = v mod 256 # le_bytes n (v div 256)"

fun le_value :: "bytes \<Rightarrow> nat" where
  "le_value [] = 0"
| "le_value (b # bs) = b + 256 * le_value bs"

lemma length_le_bytes [simp]: "length (le_bytes n v) = n"
  by (induction n arbitrary: v) auto

lemma le_value_bytes [simp]: "v < 256 ^ n \<Longrightarrow> le_value (le_bytes n v) = v"
proof (induction n arbitrary: v)
  case (Suc n)
  then have "v div 256 < 256 ^ n" by (simp add: less_mult_imp_div_less mult.commute)
  with Suc show ?case by simp
qed simp

section \<open>Identity\<close>

definition ID_SIZE :: nat where "ID_SIZE = 8"

record Identity =
  id_data :: bytes
  id_hash_value :: nat

text \<open>\<open>Identity(false)\<close>: all zeros and no hash.\<close>

definition Identity_zero :: Identity where
  "Identity_zero = \<lparr>id_data = replicate ID_SIZE 0, id_hash_value = 0\<rparr>"

text \<open>\<open>Identity(true)\<close> with the bytes of the generated uuid.\<close>

definition Identity_generate :: "(bytes \<Rightarrow> nat) \<Rightarrow> bytes \<Rightarrow> Identity" where
  "Identity_generate hash uuid = \<lparr>id_data = take ID_SIZE uuid, id_hash_value = hash (take ID_SIZE uuid)\<rparr>"

definition Identity_eq :: "Identity \<Rightarrow> Identity \<Rightarrow> bool" where
  "Identity_eq a b \<longleftrightarrow> id_data a = id_data b"

text \<open>\<open>set_data(ptr)\<close> copies \<open>ID_SIZE\<close> bytes from where \<open>ptr\<close> points and updates the hash.\<close>

definition Identity_set_data :: "(bytes \<Rightarrow> nat) \<Rightarrow> bytes \<Rightarrow> Identity \<Rightarrow> Identity" where
  "Identity_set_data hash ptr i = i\<lparr>id_data := take ID_SIZE ptr, id_hash_value := hash (take ID_SIZE ptr)\<rparr>"

section \<open>MessageInfo\<close>

record MessageInfo =
  mi_sender_id :: Identity
  mi_channel_id :: nat
  mi_seq_num :: nat
  mi_spare_id :: Identity

definition MessageInfo_kSize :: nat where "MessageInfo_kSize = 2 * ID_SIZE + 8"

definition MessageInfo_ctor :: MessageInfo where
  "MessageInfo_ctor = \<lparr>mi_sender_id = Identity_zero, mi_channel_id = 0, mi_seq_num = 0,
     mi_spare_id = Identity_zero\<rparr>"

definition MessageInfo_eq :: "MessageInfo \<Rightarrow> MessageInfo \<Rightarrow> bool" where
  "MessageInfo_eq a b \<longleftrightarrow>
     Identity_eq (mi_sender_id a) (mi_sender_id b) \<and> mi_channel_id a = mi_channel_id b \<and>
     mi_seq_num a = mi_seq_num b \<and> Identity_eq (mi_spare_id a) (mi_spare_id b)"

definition MessageInfo_SerializeTo :: "MessageInfo \<Rightarrow> bytes" where
  "MessageInfo_SerializeTo i =
     take ID_SIZE (id_data (mi_sender_id i)) @ le_bytes 8 (mi_seq_num i) @
     take ID_SIZE (id_data (mi_spare_id i))"

text \<open>The overload that writes to a buffer of \<open>len\<close> bytes at \<open>dst\<close>.\<close>

definition MessageInfo_SerializeTo_buf :: "MessageInfo \<Rightarrow> bytes \<Rightarrow> nat \<Rightarrow> bool \<times> bytes" where
  "MessageInfo_SerializeTo_buf i dst len =
     (if len < MessageInfo_kSize then (False, dst)
      else (True, MessageInfo_SerializeTo i @ drop MessageInfo_kSize dst))"

definition MessageInfo_DeserializeFrom ::
    "(bytes \<Rightarrow> nat) \<Rightarrow> bytes \<Rightarrow> MessageInfo \<Rightarrow> bool \<times> MessageInfo" where
  "MessageInfo_DeserializeFrom hash src i =
     (if length src \<noteq> MessageInfo_kSize then (False, i)
      else (True,
        i\<lparr>mi_sender_id := Identity_set_data hash src (mi_sender_id i),
          mi_seq_num := le_value (take 8 (drop ID_SIZE src)),
          mi_spare_id := Identity_set_data hash (drop (ID_SIZE + 8) src) (mi_spare_id i)\<rparr>))"

definition MessageInfo_wf :: "MessageInfo \<Rightarrow> bool" where
  "MessageInfo_wf i \<longleftrightarrow> length (id_data (mi_sender_id i)) = ID_SIZE \<and>
     length (id_data (mi_spare_id i)) = ID_SIZE \<and> mi_seq_num i < 2 ^ 64"

section \<open>ReadableInfo\<close>

record ReadableInfo =
  ri_host_id :: nat
  ri_block_index :: nat
  ri_channel_id :: nat

definition ReadableInfo_kSize :: nat where "ReadableInfo_kSize = 8 * 2 + 4"

definition ReadableInfo_ctor :: ReadableInfo where
  "ReadableInfo_ctor = \<lparr>ri_host_id = 0, ri_block_index = 0, ri_channel_id = 0\<rparr>"

definition ReadableInfo_SerializeTo :: "ReadableInfo \<Rightarrow> bytes" where
  "ReadableInfo_SerializeTo r =
     le_bytes 8 (ri_host_id r) @ le_bytes 4 (ri_block_index r) @ le_bytes 8 (ri_channel_id r)"

definition ReadableInfo_DeserializeFrom :: "bytes \<Rightarrow> ReadableInfo \<Rightarrow> bool \<times> ReadableInfo" where
  "ReadableInfo_DeserializeFrom src r =
     (if length src \<noteq> ReadableInfo_kSize then (False, r)
      else (True, \<lparr>ri_host_id = le_value (take 8 src), ri_block_index = le_value (take 4 (drop 8 src)),
                   ri_channel_id = le_value (take 8 (drop 12 src))\<rparr>))"

definition ReadableInfo_wf :: "ReadableInfo \<Rightarrow> bool" where
  "ReadableInfo_wf r \<longleftrightarrow> ri_host_id r < 2 ^ 64 \<and> ri_block_index r < 2 ^ 32 \<and> ri_channel_id r < 2 ^ 64"

lemma length_MessageInfo_SerializeTo:
  "MessageInfo_wf i \<Longrightarrow> length (MessageInfo_SerializeTo i) = MessageInfo_kSize"
  by (simp add: MessageInfo_wf_def MessageInfo_SerializeTo_def MessageInfo_kSize_def)

lemma MessageInfo_Deserialize_Serialize:
  assumes "MessageInfo_wf i"
  shows "MessageInfo_DeserializeFrom hash (MessageInfo_SerializeTo i) j =
    (True, j\<lparr>mi_sender_id := \<lparr>id_data = id_data (mi_sender_id i), id_hash_value = hash (id_data (mi_sender_id i))\<rparr>,
             mi_seq_num := mi_seq_num i,
             mi_spare_id := \<lparr>id_data = id_data (mi_spare_id i), id_hash_value = hash (id_data (mi_spare_id i))\<rparr>\<rparr>)"
proof -
  have "le_value (le_bytes 8 (mi_seq_num i)) = mi_seq_num i"
    using assms by (intro le_value_bytes) (simp add: MessageInfo_wf_def)
  then show ?thesis
    using assms length_MessageInfo_SerializeTo [OF assms]
    by (simp add: MessageInfo_DeserializeFrom_def MessageInfo_wf_def Identity_set_data_def)
      (simp add: MessageInfo_SerializeTo_def ID_SIZE_def)
qed

lemma ReadableInfo_Deserialize_Serialize:
  assumes "ReadableInfo_wf r"
  shows "ReadableInfo_DeserializeFrom (ReadableInfo_SerializeTo r) r0 = (True, r)"
proof -
  have "le_value (le_bytes 8 (ri_host_id r)) = ri_host_id r" "le_value (le_bytes 4 (ri_block_index r)) = ri_block_index r"
    "le_value (le_bytes 8 (ri_channel_id r)) = ri_channel_id r"
    using assms by (auto simp: ReadableInfo_wf_def intro!: le_value_bytes)
  then show ?thesis
    by (simp add: ReadableInfo_DeserializeFrom_def ReadableInfo_SerializeTo_def ReadableInfo_kSize_def)
qed

section \<open>ConditionNotifier\<close>

text \<open>
  The indicator lives in shared memory; \<open>next_seq_\<close> and \<open>is_shutdown_\<close> belong to one process.
  Opening, attaching and removing the segment are system calls and not modelled.
\<close>

definition kBufLength :: nat where "kBufLength = 4096"

record Indicator =
  in_next_seq :: nat
  in_infos :: "nat \<Rightarrow> ReadableInfo"
  in_seqs :: "nat \<Rightarrow> nat"

definition Indicator_ctor :: Indicator where
  "Indicator_ctor = \<lparr>in_next_seq = 0, in_infos = (\<lambda>_. ReadableInfo_ctor), in_seqs = (\<lambda>_. 0)\<rparr>"

record ConditionNotifier =
  cn_next_seq :: nat
  cn_is_shutdown :: bool

definition ConditionNotifier_ctor :: "Indicator option \<Rightarrow> ConditionNotifier" where
  "ConditionNotifier_ctor opened =
     (case opened of
        None \<Rightarrow> \<lparr>cn_next_seq = 0, cn_is_shutdown = True\<rparr>
      | Some ind \<Rightarrow> \<lparr>cn_next_seq = in_next_seq ind, cn_is_shutdown = False\<rparr>)"

definition ConditionNotifier_Shutdown :: "ConditionNotifier \<Rightarrow> ConditionNotifier" where
  "ConditionNotifier_Shutdown cn = cn\<lparr>cn_is_shutdown := True\<rparr>"

text \<open>\<open>Notify\<close> is three accesses to the shared memory: reserve a number, store, stamp.\<close>

definition Notify_reserve :: "Indicator \<Rightarrow> nat \<times> Indicator" where
  "Notify_reserve ind = (in_next_seq ind, ind\<lparr>in_next_seq := u64_add (in_next_seq ind) 1\<rparr>)"

definition Notify_store :: "ReadableInfo \<Rightarrow> nat \<Rightarrow> Indicator \<Rightarrow> Indicator" where
  "Notify_store info seq ind = ind\<lparr>in_infos := (in_infos ind)(seq mod kBufLength := info)\<rparr>"

definition Notify_stamp :: "nat \<Rightarrow> Indicator \<Rightarrow> Indicator" where
  "Notify_stamp seq ind = ind\<lparr>in_seqs := (in_seqs ind)(seq mod kBufLength := seq)\<rparr>"

definition ConditionNotifier_Notify ::
    "ReadableInfo \<Rightarrow> ConditionNotifier \<times> Indicator \<Rightarrow> bool \<times> Indicator" where
  "ConditionNotifier_Notify info = (\<lambda>(cn, ind).
     if cn_is_shutdown cn then (False, ind)
     else (case Notify_reserve ind of
             (seq, ind1) \<Rightarrow> (True, Notify_stamp seq (Notify_store info seq ind1))))"

text \<open>One round of the loop in \<open>Listen\<close>: the info and the new \<open>next_seq_\<close>, if there is something.\<close>

definition Listen_poll :: "Indicator \<Rightarrow> nat \<Rightarrow> (ReadableInfo \<times> nat) option" where
  "Listen_poll ind next_seq =
     (if in_next_seq ind \<noteq> next_seq then
        (let idx = next_seq mod kBufLength; actual_seq = in_seqs ind idx in
         if actual_seq \<ge> next_seq then Some (in_infos ind idx, u64_add actual_seq 1) else None)
      else None)"

text \<open>
  The loop: round \<open>i\<close> finds the shared memory and the shutdown flag as \<open>env i\<close> says. It ends because
  each round takes 50 microseconds off the timeout.
\<close>

function Listen_loop :: "(nat \<Rightarrow> bool \<times> Indicator) \<Rightarrow> nat \<Rightarrow> int \<Rightarrow> nat \<Rightarrow> (ReadableInfo \<times> nat) option" where
  "Listen_loop env i timeout_us next_seq =
     (if fst (env i) then None
      else (case Listen_poll (snd (env i)) next_seq of
              Some r \<Rightarrow> Some r
            | None \<Rightarrow> if timeout_us > 0 then Listen_loop env (Suc i) (timeout_us - 50) next_seq else None))"
  by pat_completeness auto
termination by (relation "measure (\<lambda>(_, _, timeout_us, _). nat timeout_us)") auto

declare Listen_loop.simps [simp del]

definition ConditionNotifier_Listen ::
    "int \<Rightarrow> (nat \<Rightarrow> bool \<times> Indicator) \<Rightarrow> ConditionNotifier \<Rightarrow> ReadableInfo option \<times> ConditionNotifier" where
  "ConditionNotifier_Listen timeout_ms env cn =
     (if cn_is_shutdown cn then (None, cn)
      else (case Listen_loop env 0 (timeout_ms * 1000) (cn_next_seq cn) of
              Some (info, next_seq) \<Rightarrow> (Some info, cn\<lparr>cn_next_seq := next_seq\<rparr>)
            | None \<Rightarrow> (None, cn)))"

definition notified :: "ReadableInfo list \<Rightarrow> Indicator" where
  "notified infos =
     fold (\<lambda>info ind. snd (ConditionNotifier_Notify info (\<lparr>cn_next_seq = 0, cn_is_shutdown = False\<rparr>, ind)))
       infos Indicator_ctor"

text \<open>After a history of notifications the ring holds the last \<open>kBufLength\<close> of them.\<close>

lemma notified_ring:
  assumes "length infos < two64"
  shows "in_next_seq (notified infos) = length infos \<and>
    (\<forall>i < length infos. length infos \<le> i + kBufLength \<longrightarrow>
       in_infos (notified infos) (i mod kBufLength) = infos ! i \<and>
       in_seqs (notified infos) (i mod kBufLength) = i)"
  using assms
proof (induction infos rule: rev_induct)
  case Nil
  then show ?case by (simp add: notified_def Indicator_ctor_def)
next
  case (snoc x xs)
  let ?n = "length xs"
  have ind: "notified (xs @ [x]) = Notify_stamp ?n (Notify_store x ?n (snd (Notify_reserve (notified xs))))"
    using snoc by (simp add: notified_def ConditionNotifier_Notify_def Notify_reserve_def)
  have nxt: "in_next_seq (notified (xs @ [x])) = length (xs @ [x])"
    using snoc by (simp add: ind Notify_stamp_def Notify_store_def Notify_reserve_def wrap_simps)
  have slot: "in_infos (notified (xs @ [x])) (i mod kBufLength) = (xs @ [x]) ! i \<and>
      in_seqs (notified (xs @ [x])) (i mod kBufLength) = i"
    if i: "i < length (xs @ [x])" "length (xs @ [x]) \<le> i + kBufLength" for i
  proof (cases "i = ?n")
    case True
    then show ?thesis by (simp add: ind Notify_stamp_def Notify_store_def)
  next
    case False
    then have "i mod kBufLength \<noteq> ?n mod kBufLength"
      using i mod_window_neq [of i ?n kBufLength] by auto
    then show ?thesis using False i snoc by (simp add: ind Notify_stamp_def Notify_store_def Notify_reserve_def nth_append)
  qed
  show ?case using nxt slot by blast
qed

section \<open>Properties\<close>

text \<open>
  The message info survives the trip through shared memory except for its channel id. Decoding
  the 24 bytes that were written to a block succeeds and restores sender, sequence number and
  spare id; the channel id stays what the receiver had, so the result compares equal to the
  original exactly when the receiver already knew the channel.
\<close>

theorem MessageInfo_roundtrip:
  assumes "MessageInfo_wf i" and "MessageInfo_SerializeTo_buf i dst MessageInfo_kSize = (ok, written)"
  shows "ok \<and> (\<exists>j'. MessageInfo_DeserializeFrom hash (take MessageInfo_kSize written) j = (True, j') \<and>
      mi_seq_num j' = mi_seq_num i \<and> Identity_eq (mi_sender_id j') (mi_sender_id i) \<and>
      Identity_eq (mi_spare_id j') (mi_spare_id i) \<and>
      (MessageInfo_eq j' i \<longleftrightarrow> mi_channel_id j = mi_channel_id i))"
  using assms length_MessageInfo_SerializeTo [OF assms(1)]
  by (auto simp: MessageInfo_Deserialize_Serialize MessageInfo_eq_def Identity_eq_def
      MessageInfo_SerializeTo_buf_def)

definition mi_example :: MessageInfo where
  "mi_example = \<lparr>mi_sender_id = \<lparr>id_data = [1, 2, 3, 4, 5, 6, 7, 8], id_hash_value = 9\<rparr>,
     mi_channel_id = 77, mi_seq_num = 300, mi_spare_id = Identity_zero\<rparr>"

lemma MessageInfo_roundtrip_witness:
  "\<exists>j. MessageInfo_DeserializeFrom (\<lambda>_. 0) (MessageInfo_SerializeTo mi_example) MessageInfo_ctor = (True, j) \<and>
     mi_seq_num j = 300 \<and> \<not> MessageInfo_eq j mi_example"
proof -
  have wf: "MessageInfo_wf mi_example"
    by (simp add: MessageInfo_wf_def mi_example_def ID_SIZE_def Identity_zero_def)
  have "MessageInfo_SerializeTo_buf mi_example [] MessageInfo_kSize = (True, MessageInfo_SerializeTo mi_example)"
    by (simp add: MessageInfo_SerializeTo_buf_def)
  from MessageInfo_roundtrip [OF wf this, of "\<lambda>_. 0" MessageInfo_ctor] show ?thesis
    using length_MessageInfo_SerializeTo [OF wf] by (auto simp: mi_example_def MessageInfo_ctor_def)
qed

text \<open>
  What a listener receives. When the listener stands at number \<open>n\<close> of a history of
  notifications, one round of \<open>Listen\<close> returns exactly the newest notification that shares the ring
  slot of \<open>n\<close>, and the listener goes on behind it. So a listener at most \<open>kBufLength\<close> behind gets the
  very next notification, nothing is invented or reordered, and one that falls further behind
  jumps by whole turns of the ring; with nothing new it waits until its timeout.
\<close>

theorem Listen_history:
  assumes "length infos + 1 < two64" and "n \<le> length infos"
  shows "Listen_poll (notified infos) n =
    (if n = length infos then None
     else let k = n + kBufLength * ((length infos - 1 - n) div kBufLength) in Some (infos ! k, k + 1))"
proof (cases "n = length infos")
  case True
  then show ?thesis using notified_ring [of infos] assms(1) by (simp add: Listen_poll_def)
next
  case False
  define k where "k = n + kBufLength * ((length infos - 1 - n) div kBufLength)"
  have turn: "k mod kBufLength = n mod kBufLength" by (simp add: k_def)
  have "kBufLength * ((length infos - 1 - n) div kBufLength) \<le> length infos - 1 - n" by simp
  moreover have "length infos - 1 - n < kBufLength * ((length infos - 1 - n) div kBufLength) + kBufLength"
    using mod_less_divisor [of kBufLength "length infos - 1 - n"] mult_div_mod_eq [of kBufLength "length infos - 1 - n"]
    by (simp add: kBufLength_def)
  ultimately have k: "k < length infos" "length infos \<le> k + kBufLength" "n \<le> k"
    using False assms(2) unfolding k_def by linarith+
  then have "in_infos (notified infos) (n mod kBufLength) = infos ! k"
    and "in_seqs (notified infos) (n mod kBufLength) = k"
    using notified_ring [of infos] assms(1) turn by auto
  moreover have "u64_add k 1 = k + 1" using k(1) assms(1) by (simp add: wrap_simps)
  ultimately show ?thesis
    using notified_ring [of infos] assms(1) k(3) False by (simp add: Listen_poll_def k_def Let_def)
qed

lemma Listen_history_witness:
  "Listen_poll (notified [ReadableInfo_ctor, \<lparr>ri_host_id = 1, ri_block_index = 2, ri_channel_id = 3\<rparr>]) 1 =
     Some (\<lparr>ri_host_id = 1, ri_block_index = 2, ri_channel_id = 3\<rparr>, 2)"
  using Listen_history [of "[ReadableInfo_ctor, \<lparr>ri_host_id = 1, ri_block_index = 2, ri_channel_id = 3\<rparr>]" 1]
  by (simp add: two64_def kBufLength_def)

text \<open>
  The stamps of a fresh ring are zero, which is also the number of the first notification: a
  listener that polls between the reservation and the store of the first notification accepts a slot that was
  never written.
\<close>

lemma first_Listen_reads_unwritten:
  "Listen_poll (snd (Notify_reserve Indicator_ctor)) 0 = Some (ReadableInfo_ctor, 1)"
  by (simp add: Listen_poll_def Notify_reserve_def Indicator_ctor_def u64_add_def two64_def kBufLength_def)

text \<open>A listener that is \<open>kBufLength + 1\<close> behind skips the whole ring, although all but one of the
  skipped notifications are still stored in it.\<close>

lemma Listen_skips_stored:
  assumes "length infos = n + kBufLength + 1" and "length infos + 1 < two64"
  shows "Listen_poll (notified infos) n = Some (infos ! (n + kBufLength), n + kBufLength + 1) \<and>
    (\<forall>i. n < i \<and> i < length infos \<longrightarrow> in_infos (notified infos) (i mod kBufLength) = infos ! i)"
  using Listen_history [of infos n] notified_ring [of infos] assms by (auto simp: Let_def kBufLength_def)

end
