(* ===== verification/Shm_Segment.thy ===== *)
theory Shm_Segment
  imports Shm_Wire
begin

text \<open>
  The shared-memory transport: \<open>transport/shm/shm_conf\<close> (size classes), \<open>state.h\<close>, \<open>segment.cc\<close>,
  \<open>xsi_segment.cc\<close>, the write path of \<open>transmitter/shm_transmitter.h\<close> and the read path of
  \<open>dispatcher/shm_dispatcher.cc\<close>.

  The System V calls are parameters, the fields of \<open>shm_api\<close>; \<open>shm_api_ok\<close> states what their manual
  pages promise and the code relies on. A segment is one shared object: the \<open>State\<close> and the blocks with
  their buffers. Undefined behaviour (a null pointer, a block or buffer index out of range) is the
  result \<open>None\<close>; so is a search for a free block that never ends. Calls run one at a time here: the
  interleavings on the lock of one block are in \<open>RW_Locks\<close>.
\<close>

section \<open>ShmConf\<close>

record ShmConf =
  sc_ceiling_msg_size :: nat
  sc_block_buf_size :: nat
  sc_block_num :: nat
  sc_managed_shm_size :: nat

definition EXTRA_SIZE :: nat where "EXTRA_SIZE = 1024 * 4"
definition STATE_SIZE :: nat where "STATE_SIZE = 1024"
definition BLOCK_SIZE :: nat where "BLOCK_SIZE = 1024"
definition MESSAGE_INFO_SIZE :: nat where "MESSAGE_INFO_SIZE = 1024"
definition MESSAGE_SIZE_16K :: nat where "MESSAGE_SIZE_16K = 1024 * 16"
definition MESSAGE_SIZE_128K :: nat where "MESSAGE_SIZE_128K = 1024 * 128"
definition MESSAGE_SIZE_1M :: nat where "MESSAGE_SIZE_1M = 1024 * 1024"
definition MESSAGE_SIZE_8M :: nat where "MESSAGE_SIZE_8M = 1024 * 1024 * 8"
definition MESSAGE_SIZE_16M :: nat where "MESSAGE_SIZE_16M = 1024 * 1024 * 16"
definition MESSAGE_SIZE_MORE :: nat where "MESSAGE_SIZE_MORE = 1024 * 1024 * 32"

lemmas message_sizes = MESSAGE_SIZE_16K_def MESSAGE_SIZE_128K_def MESSAGE_SIZE_1M_def
  MESSAGE_SIZE_8M_def MESSAGE_SIZE_16M_def MESSAGE_SIZE_MORE_def

definition GetCeilingMessageSize :: "nat \<Rightarrow> nat" where
  "GetCeilingMessageSize real_msg_size =
     (if real_msg_size \<le> MESSAGE_SIZE_16K then MESSAGE_SIZE_16K
      else if real_msg_size \<le> MESSAGE_SIZE_128K then MESSAGE_SIZE_128K
      else if real_msg_size \<le> MESSAGE_SIZE_1M then MESSAGE_SIZE_1M
      else if real_msg_size \<le> MESSAGE_SIZE_8M then MESSAGE_SIZE_8M
      else if real_msg_size \<le> MESSAGE_SIZE_16M then MESSAGE_SIZE_16M
      else MESSAGE_SIZE_MORE)"

definition GetBlockBufSize :: "nat \<Rightarrow> nat" where
  "GetBlockBufSize ceiling_msg_size = ceiling_msg_size + MESSAGE_INFO_SIZE"

definition GetBlockNum :: "nat \<Rightarrow> nat" where
  "GetBlockNum ceiling_msg_size =
     (if ceiling_msg_size = MESSAGE_SIZE_16K then 512
      else if ceiling_msg_size = MESSAGE_SIZE_128K then 128
      else if ceiling_msg_size = MESSAGE_SIZE_1M then 64
      else if ceiling_msg_size = MESSAGE_SIZE_8M then 32
      else if ceiling_msg_size = MESSAGE_SIZE_16M then 16
      else if ceiling_msg_size = MESSAGE_SIZE_MORE then 8
      else 0)"

definition ShmConf_Update :: "nat \<Rightarrow> ShmConf" where
  "ShmConf_Update real_msg_size =
     (let ceiling = GetCeilingMessageSize real_msg_size;
          buf = GetBlockBufSize ceiling;
          num = GetBlockNum ceiling in
      \<lparr>sc_ceiling_msg_size = ceiling, sc_block_buf_size = buf, sc_block_num = num,
       sc_managed_shm_size = EXTRA_SIZE + STATE_SIZE + (BLOCK_SIZE + buf) * num\<rparr>)"

definition ShmConf_ctor :: ShmConf where
  "ShmConf_ctor = ShmConf_Update MESSAGE_SIZE_16K"

section \<open>State, blocks and the shared object\<close>

record State =
  st_need_remap :: bool
  st_seq :: nat
  st_reference_count :: nat
  st_ceiling_msg_size :: nat

definition State_ctor :: "nat \<Rightarrow> State" where
  "State_ctor ceiling = \<lparr>st_need_remap = False, st_seq = 0, st_reference_count = 0,
     st_ceiling_msg_size = ceiling\<rparr>"

definition DecreaseReferenceCounts :: "State \<Rightarrow> State" where
  "DecreaseReferenceCounts st =
     (if st_reference_count st = 0 then st else st\<lparr>st_reference_count := st_reference_count st - 1\<rparr>)"

definition IncreaseReferenceCounts :: "State \<Rightarrow> State" where
  "IncreaseReferenceCounts st = st\<lparr>st_reference_count := (st_reference_count st + 1) mod 2 ^ 32\<rparr>"

definition FetchAddSeq :: "nat \<Rightarrow> State \<Rightarrow> nat \<times> State" where
  "FetchAddSeq diff st = (st_seq st, st\<lparr>st_seq := (st_seq st + diff) mod 2 ^ 32\<rparr>)"

record Block =
  bk_lock_num :: int
  bk_msg_size :: nat
  bk_msg_info_size :: nat
  bk_buf :: bytes

definition Block_new :: "nat \<Rightarrow> Block" where
  "Block_new buf_size = \<lparr>bk_lock_num = 0, bk_msg_size = 0, bk_msg_info_size = 0, bk_buf = replicate buf_size 0\<rparr>"

text \<open>The lock operations of a block when nothing interferes.\<close>

definition Block_TryLockForWrite :: "Block \<Rightarrow> Block option" where
  "Block_TryLockForWrite b = (if bk_lock_num b = 0 then Some (b\<lparr>bk_lock_num := -1\<rparr>) else None)"

definition Block_TryLockForRead :: "Block \<Rightarrow> Block option" where
  "Block_TryLockForRead b =
     (if bk_lock_num b < 0 then None else Some (b\<lparr>bk_lock_num := bk_lock_num b + 1\<rparr>))"

definition Block_ReleaseWriteLock :: "Block \<Rightarrow> Block" where
  "Block_ReleaseWriteLock b = b\<lparr>bk_lock_num := bk_lock_num b + 1\<rparr>"

definition Block_ReleaseReadLock :: "Block \<Rightarrow> Block" where
  "Block_ReleaseReadLock b = b\<lparr>bk_lock_num := bk_lock_num b - 1\<rparr>"

record ShmObj =
  so_state :: State
  so_blocks :: "Block list"

datatype errno = EEXIST | EINVAL | EOTHER

text \<open>\<open>shmget\<close> with creation, \<open>shmget\<close> of an existing key, whether \<open>shmat\<close> succeeds, \<open>shmctl(IPC_RMID)\<close>,
  and access to the memory of a segment.\<close>

record 'os shm_api =
  api_create :: "nat \<Rightarrow> nat \<Rightarrow> 'os \<Rightarrow> (errno + nat) \<times> 'os"
  api_open :: "nat \<Rightarrow> 'os \<Rightarrow> nat option"
  api_attach :: "nat \<Rightarrow> 'os \<Rightarrow> bool"
  api_rmid :: "nat \<Rightarrow> 'os \<Rightarrow> bool \<times> 'os"
  api_load :: "nat \<Rightarrow> 'os \<Rightarrow> ShmObj"
  api_store :: "nat \<Rightarrow> ShmObj \<Rightarrow> 'os \<Rightarrow> 'os"

section \<open>XsiSegment\<close>

text \<open>\<open>sg_state\<close> is the segment that \<open>state_\<close> and \<open>blocks_\<close> point into, \<open>None\<close> when they are null.\<close>

record Segment =
  sg_init :: bool
  sg_conf :: ShmConf
  sg_key :: nat
  sg_state :: "nat option"

definition Segment_ctor :: "nat \<Rightarrow> Segment" where
  "Segment_ctor channel_id = \<lparr>sg_init = False, sg_conf = ShmConf_ctor, sg_key = channel_id, sg_state = None\<rparr>"

definition XsiSegment_Reset :: "Segment \<Rightarrow> Segment" where
  "XsiSegment_Reset sg = sg\<lparr>sg_state := None\<rparr>"

definition XsiSegment_Remove :: "'os shm_api \<Rightarrow> Segment \<Rightarrow> 'os \<Rightarrow> bool \<times> 'os" where
  "XsiSegment_Remove api sg os =
     (case api_open api (sg_key sg) os of
        None \<Rightarrow> (False, os)
      | Some shmid \<Rightarrow> api_rmid api shmid os)"

definition attach_segment :: "'os shm_api \<Rightarrow> nat \<Rightarrow> Segment \<Rightarrow> 'os \<Rightarrow> bool \<times> Segment \<times> 'os" where
  "attach_segment api shmid sg os =
     (let obj = api_load api shmid os in
      (True,
       sg\<lparr>sg_state := Some shmid, sg_conf := ShmConf_Update (st_ceiling_msg_size (so_state obj)), sg_init := True\<rparr>,
       api_store api shmid (obj\<lparr>so_state := IncreaseReferenceCounts (so_state obj)\<rparr>) os))"

definition XsiSegment_OpenOnly :: "'os shm_api \<Rightarrow> Segment \<times> 'os \<Rightarrow> bool \<times> Segment \<times> 'os" where
  "XsiSegment_OpenOnly api = (\<lambda>(sg, os).
     if sg_init sg then (True, sg, os)
     else (case api_open api (sg_key sg) os of
             None \<Rightarrow> (False, sg, os)
           | Some shmid \<Rightarrow>
               if \<not> api_attach api shmid os then (False, sg, os) else attach_segment api shmid sg os))"

text \<open>The creation loop with the tries that are left: the new segment, or how it failed.\<close>

datatype create_result = Created nat | Exists | Failed

fun create_loop :: "'os shm_api \<Rightarrow> nat \<Rightarrow> Segment \<times> 'os \<Rightarrow> create_result \<times> Segment \<times> 'os" where
  "create_loop api 0 (sg, os) = (Failed, sg, os)"
| "create_loop api (Suc n) (sg, os) =
     (case api_create api (sg_key sg) (sc_managed_shm_size (sg_conf sg)) os of
        (Inr shmid, os') \<Rightarrow> (Created shmid, sg, os')
      | (Inl e, os') \<Rightarrow>
          (case e of
             EINVAL \<Rightarrow> create_loop api n (XsiSegment_Reset sg, snd (XsiSegment_Remove api (XsiSegment_Reset sg) os'))
           | EEXIST \<Rightarrow> (Exists, sg, os')
           | EOTHER \<Rightarrow> (Failed, sg, os')))"

definition ShmObj_new :: "ShmConf \<Rightarrow> ShmObj" where
  "ShmObj_new conf =
     (let conf' = ShmConf_Update (sc_ceiling_msg_size conf) in
      \<lparr>so_state = State_ctor (sc_ceiling_msg_size conf),
       so_blocks = replicate (sc_block_num conf') (Block_new (sc_block_buf_size conf'))\<rparr>)"

definition XsiSegment_OpenOrCreate :: "'os shm_api \<Rightarrow> Segment \<times> 'os \<Rightarrow> bool \<times> Segment \<times> 'os" where
  "XsiSegment_OpenOrCreate api = (\<lambda>(sg0, os0).
     if sg_init sg0 then (True, sg0, os0)
     else (case create_loop api 2 (sg0, os0) of
             (Failed, sg, os) \<Rightarrow> (False, sg, os)
           | (Exists, sg, os) \<Rightarrow> XsiSegment_OpenOnly api (sg, os)
           | (Created shmid, sg, os) \<Rightarrow>
               if \<not> api_attach api shmid os then (False, sg, snd (api_rmid api shmid os))
               else attach_segment api shmid sg (api_store api shmid (ShmObj_new (sg_conf sg)) os)))"

section \<open>Segment\<close>

definition Segment_Remap :: "'os shm_api \<Rightarrow> Segment \<times> 'os \<Rightarrow> bool \<times> Segment \<times> 'os" where
  "Segment_Remap api = (\<lambda>(sg, os).
     XsiSegment_OpenOnly api (XsiSegment_Reset (sg\<lparr>sg_init := False\<rparr>), os))"

definition Segment_Recreate :: "'os shm_api \<Rightarrow> nat \<Rightarrow> Segment \<times> 'os \<Rightarrow> (bool \<times> Segment \<times> 'os) option" where
  "Segment_Recreate api msg_size = (\<lambda>(sg, os).
     (case sg_state sg of
        None \<Rightarrow> None
      | Some shmid \<Rightarrow>
          (let obj = api_load api shmid os;
               os1 = api_store api shmid (obj\<lparr>so_state := (so_state obj)\<lparr>st_need_remap := True\<rparr>\<rparr>) os;
               sg1 = XsiSegment_Reset (sg\<lparr>sg_init := False\<rparr>);
               os2 = snd (XsiSegment_Remove api sg1 os1) in
           Some (XsiSegment_OpenOrCreate api (sg1\<lparr>sg_conf := ShmConf_Update msg_size\<rparr>, os2)))))"

definition Segment_Destroy :: "'os shm_api \<Rightarrow> Segment \<times> 'os \<Rightarrow> (bool \<times> Segment \<times> 'os) option" where
  "Segment_Destroy api = (\<lambda>(sg, os).
     if \<not> sg_init sg then Some (True, sg, os)
     else (case sg_state sg of
             None \<Rightarrow> None
           | Some shmid \<Rightarrow>
               (let obj = api_load api shmid os;
                    st = DecreaseReferenceCounts (so_state obj);
                    os1 = api_store api shmid (obj\<lparr>so_state := st\<rparr>) os;
                    sg1 = sg\<lparr>sg_init := False\<rparr> in
                if st_reference_count st = 0
                then (case XsiSegment_Remove api sg1 os1 of (ok, os2) \<Rightarrow> Some (ok, sg1, os2))
                else Some (True, sg1, os1))))"

partial_function (option) GetNextWritableBlockIndex :: "nat \<Rightarrow> ShmObj \<Rightarrow> (nat \<times> ShmObj) option" where
  "GetNextWritableBlockIndex block_num obj =
     (let (seq, st) = FetchAddSeq 1 (so_state obj);
          try_idx = seq mod block_num;
          obj1 = obj\<lparr>so_state := st\<rparr> in
      if try_idx \<ge> length (so_blocks obj) then None
      else (case Block_TryLockForWrite (so_blocks obj ! try_idx) of
              Some b \<Rightarrow> Some (try_idx, obj1\<lparr>so_blocks := (so_blocks obj)[try_idx := b]\<rparr>)
            | None \<Rightarrow> GetNextWritableBlockIndex block_num obj1))"

text \<open>The result: undefined, or whether a block was acquired and which.\<close>

definition Segment_AcquireBlockToWrite ::
    "'os shm_api \<Rightarrow> nat \<Rightarrow> Segment \<times> 'os \<Rightarrow> (nat option \<times> Segment \<times> 'os) option" where
  "Segment_AcquireBlockToWrite api msg_size so =
     (case XsiSegment_OpenOrCreate api so of
        (False, sg, os) \<Rightarrow> Some (None, sg, os)
      | (True, sg, os) \<Rightarrow>
          (case sg_state sg of
             None \<Rightarrow> None
           | Some shmid \<Rightarrow>
               (let (result, sg1, os1) =
                      (if st_need_remap (so_state (api_load api shmid os)) then Segment_Remap api (sg, os)
                       else (True, sg, os)) in
                case (if msg_size > sc_ceiling_msg_size (sg_conf sg1)
                      then Segment_Recreate api msg_size (sg1, os1) else Some (result, sg1, os1)) of
                  None \<Rightarrow> None
                | Some (False, sg2, os2) \<Rightarrow> Some (None, sg2, os2)
                | Some (True, sg2, os2) \<Rightarrow>
                    (case sg_state sg2 of
                       None \<Rightarrow> None
                     | Some shmid2 \<Rightarrow>
                         (case GetNextWritableBlockIndex (sc_block_num (sg_conf sg2)) (api_load api shmid2 os2) of
                            None \<Rightarrow> None
                          | Some (index, obj) \<Rightarrow> Some (Some index, sg2, api_store api shmid2 obj os2))))))"

definition update_block ::
    "'os shm_api \<Rightarrow> nat \<Rightarrow> (Block \<Rightarrow> Block) \<Rightarrow> Segment \<times> 'os \<Rightarrow> (Segment \<times> 'os) option" where
  "update_block api index f = (\<lambda>(sg, os).
     (case sg_state sg of
        None \<Rightarrow> None
      | Some shmid \<Rightarrow>
          (let obj = api_load api shmid os in
           if index \<ge> length (so_blocks obj) then None
           else Some (sg, api_store api shmid
                  (obj\<lparr>so_blocks := (so_blocks obj)[index := f (so_blocks obj ! index)]\<rparr>) os))))"

definition Segment_ReleaseWrittenBlock ::
    "'os shm_api \<Rightarrow> nat \<Rightarrow> Segment \<times> 'os \<Rightarrow> (Segment \<times> 'os) option" where
  "Segment_ReleaseWrittenBlock api index = (\<lambda>(sg, os).
     if index \<ge> sc_block_num (sg_conf sg) then Some (sg, os)
     else update_block api index Block_ReleaseWriteLock (sg, os))"

definition Segment_ReleaseReadBlock ::
    "'os shm_api \<Rightarrow> nat \<Rightarrow> Segment \<times> 'os \<Rightarrow> (Segment \<times> 'os) option" where
  "Segment_ReleaseReadBlock api index = (\<lambda>(sg, os).
     if index \<ge> sc_block_num (sg_conf sg) then Some (sg, os)
     else update_block api index Block_ReleaseReadLock (sg, os))"

definition Segment_AcquireBlockToRead ::
    "'os shm_api \<Rightarrow> nat \<Rightarrow> Segment \<times> 'os \<Rightarrow> (bool \<times> Segment \<times> 'os) option" where
  "Segment_AcquireBlockToRead api index so =
     (case XsiSegment_OpenOnly api so of
        (False, sg, os) \<Rightarrow> Some (False, sg, os)
      | (True, sg, os) \<Rightarrow>
          if index \<ge> sc_block_num (sg_conf sg) then Some (False, sg, os)
          else (case sg_state sg of
             None \<Rightarrow> None
           | Some shmid \<Rightarrow>
               (let (result, sg1, os1) =
                      (if st_need_remap (so_state (api_load api shmid os)) then Segment_Remap api (sg, os)
                       else (True, sg, os)) in
                if \<not> result then Some (False, sg1, os1)
                else (case sg_state sg1 of
                        None \<Rightarrow> None
                      | Some shmid1 \<Rightarrow>
                          (let obj = api_load api shmid1 os1 in
                           if index \<ge> length (so_blocks obj) then None
                           else (case Block_TryLockForRead (so_blocks obj ! index) of
                                   None \<Rightarrow> Some (False, sg1, os1)
                                 | Some b \<Rightarrow> Some (True, sg1, api_store api shmid1
                                     (obj\<lparr>so_blocks := (so_blocks obj)[index := b]\<rparr>) os1)))))))"

section \<open>Writing and reading a message\<close>

definition buf_write :: "nat \<Rightarrow> bytes \<Rightarrow> bytes \<Rightarrow> bytes option" where
  "buf_write off bs buf =
     (if off + length bs > length buf then None else Some (take off buf @ bs @ drop (off + length bs) buf))"

text \<open>
  \<open>Transmit\<close> between acquiring and releasing the block: the serialized message, its size, the message
  info behind it. \<open>ser\<close> is what \<open>SerializeToArray\<close> writes, \<open>None\<close> when it fails.
\<close>

definition write_block :: "bytes \<Rightarrow> MessageInfo \<Rightarrow> Block \<Rightarrow> Block option" where
  "write_block data msg_info b =
     (case buf_write 0 data (bk_buf b) of
        None \<Rightarrow> None
      | Some buf1 \<Rightarrow>
          (case buf_write (length data) (MessageInfo_SerializeTo msg_info) buf1 of
             None \<Rightarrow> None
           | Some buf2 \<Rightarrow>
               Some (b\<lparr>bk_buf := buf2, bk_msg_size := length data, bk_msg_info_size := MessageInfo_kSize\<rparr>)))"

definition ShmTransmitter_Transmit ::
    "'os shm_api \<Rightarrow> bool \<Rightarrow> nat \<Rightarrow> bytes option \<Rightarrow> MessageInfo \<Rightarrow> nat \<Rightarrow>
       ConditionNotifier \<times> Indicator \<Rightarrow> Segment \<times> 'os \<Rightarrow> (bool \<times> Indicator \<times> Segment \<times> 'os) option" where
  "ShmTransmitter_Transmit api enabled msg_size ser msg_info host_id = (\<lambda>(cn, ind) so.
     if \<not> enabled then Some (False, ind, so)
     else (case Segment_AcquireBlockToWrite api msg_size so of
             None \<Rightarrow> None
           | Some (None, so1) \<Rightarrow> Some (False, ind, so1)
           | Some (Some index, sg1, os1) \<Rightarrow>
               (case ser of
                  None \<Rightarrow>
                    (case Segment_ReleaseWrittenBlock api index (sg1, os1) of
                       None \<Rightarrow> None
                     | Some so2 \<Rightarrow> Some (False, ind, so2))
                | Some data \<Rightarrow>
                    (case sg_state sg1 of
                       None \<Rightarrow> None
                     | Some shmid \<Rightarrow>
                         (case write_block data msg_info (so_blocks (api_load api shmid os1) ! index) of
                            None \<Rightarrow> None
                          | Some b \<Rightarrow>
                              (case update_block api index (\<lambda>_. b) (sg1, os1) of
                                 None \<Rightarrow> None
                               | Some so2 \<Rightarrow>
                                   (case Segment_ReleaseWrittenBlock api index so2 of
                                      None \<Rightarrow> None
                                    | Some so3 \<Rightarrow>
                                        (case ConditionNotifier_Notify
                                                \<lparr>ri_host_id = host_id, ri_block_index = index,
                                                 ri_channel_id = sg_key sg1\<rparr> (cn, ind) of
                                           (ok, ind') \<Rightarrow> Some (ok, ind', so3)))))))))"

text \<open>\<open>ReadMessage\<close>: what it hands to \<open>OnMessage\<close>, if anything.\<close>

definition ShmDispatcher_ReadMessage ::
    "'os shm_api \<Rightarrow> (bytes \<Rightarrow> nat) \<Rightarrow> nat \<Rightarrow> Segment \<times> 'os \<Rightarrow>
       ((bytes \<times> MessageInfo) option \<times> Segment \<times> 'os) option" where
  "ShmDispatcher_ReadMessage api hash block_index so =
     (case Segment_AcquireBlockToRead api block_index so of
        None \<Rightarrow> None
      | Some (False, so1) \<Rightarrow> Some (None, so1)
      | Some (True, sg1, os1) \<Rightarrow>
          (case sg_state sg1 of
             None \<Rightarrow> None
           | Some shmid \<Rightarrow>
               (let b = so_blocks (api_load api shmid os1) ! block_index;
                    (ok, msg_info) = MessageInfo_DeserializeFrom hash
                      (take (bk_msg_info_size b) (drop (bk_msg_size b) (bk_buf b))) MessageInfo_ctor in
                case Segment_ReleaseReadBlock api block_index (sg1, os1) of
                  None \<Rightarrow> None
                | Some so2 \<Rightarrow>
                    Some (if ok then Some (take (bk_msg_size b) (bk_buf b), msg_info) else None, so2))))"

section \<open>Size classes\<close>

lemma GetCeiling_idem: "GetCeilingMessageSize (GetCeilingMessageSize m) = GetCeilingMessageSize m"
  by (simp add: GetCeilingMessageSize_def message_sizes)

lemma ShmConf_Update_idem: "ShmConf_Update (GetCeilingMessageSize m) = ShmConf_Update m"
  by (simp add: ShmConf_Update_def GetCeiling_idem)

lemma GetBlockNum_cases:
  "GetBlockNum (GetCeilingMessageSize m) \<in> {512, 128, 64, 32, 16, 8}"
  by (simp add: GetBlockNum_def GetCeilingMessageSize_def message_sizes)

lemma GetBlockNum_dvd: "GetBlockNum (GetCeilingMessageSize m) dvd 2 ^ 32"
  and GetBlockNum_pos: "0 < GetBlockNum (GetCeilingMessageSize m)"
  using GetBlockNum_cases [of m] by auto

section \<open>Searching a free block\<close>

definition seq_advanced :: "nat \<Rightarrow> ShmObj \<Rightarrow> ShmObj" where
  "seq_advanced k obj = obj\<lparr>so_state := (so_state obj)\<lparr>st_seq := (st_seq (so_state obj) + k) mod 2 ^ 32\<rparr>\<rparr>"

lemma GetNext_unfold:
  assumes "length (so_blocks obj) = n" and "0 < n"
  shows "GetNextWritableBlockIndex n obj =
    (let i = st_seq (so_state obj) mod n in
     if bk_lock_num (so_blocks obj ! i) = 0
     then Some (i, (seq_advanced 1 obj)\<lparr>so_blocks := (so_blocks obj)[i := (so_blocks obj ! i)\<lparr>bk_lock_num := -1\<rparr>]\<rparr>)
     else GetNextWritableBlockIndex n (seq_advanced 1 obj))"
proof -
  have "\<not> length (so_blocks obj) \<le> st_seq (so_state obj) mod n" using assms by (simp add: not_le)
  then show ?thesis
    by (subst GetNextWritableBlockIndex.simps)
      (simp add: FetchAddSeq_def Block_TryLockForWrite_def seq_advanced_def Let_def)
qed

text \<open>
  The search tries the blocks in turn: it returns the first free one at or after the current
  sequence number, and it returns as soon as there is one.
\<close>

lemma GetNext_finds:
  assumes "length (so_blocks obj) = n" and "0 < n" and "n dvd 2 ^ 32"
    and "bk_lock_num (so_blocks obj ! ((st_seq (so_state obj) + d) mod n)) = 0"
  shows "\<exists>i k. i < n \<and> bk_lock_num (so_blocks obj ! i) = 0 \<and>
    GetNextWritableBlockIndex n obj =
      Some (i, (seq_advanced k obj)\<lparr>so_blocks := (so_blocks obj)[i := (so_blocks obj ! i)\<lparr>bk_lock_num := -1\<rparr>]\<rparr>)"
  using assms
proof (induction d arbitrary: obj)
  case 0
  then show ?case
    by - (rule exI [of _ "st_seq (so_state obj) mod n"], rule exI [of _ 1], simp add: GetNext_unfold Let_def)
next
  case (Suc d)
  let ?i = "st_seq (so_state obj) mod n" and ?obj = "seq_advanced 1 obj"
  have same: "so_blocks ?obj = so_blocks obj" by (simp add: seq_advanced_def)
  show ?case
  proof (cases "bk_lock_num (so_blocks obj ! ?i) = 0")
    case True
    then show ?thesis using Suc.prems
      by - (rule exI [of _ ?i], rule exI [of _ 1], simp add: GetNext_unfold Let_def)
  next
    case False
    have "(st_seq (so_state ?obj) + d) mod n = ((st_seq (so_state obj) + 1) mod 2 ^ 32 mod n + d) mod n"
      by (simp add: seq_advanced_def mod_add_left_eq)
    also have "\<dots> = (st_seq (so_state obj) + Suc d) mod n"
      using Suc.prems(3) by (simp add: mod_mod_cancel mod_add_left_eq)
    finally have "bk_lock_num (so_blocks ?obj ! ((st_seq (so_state ?obj) + d) mod n)) = 0"
      using Suc.prems(4) same by simp
    then obtain i k where "i < n" "bk_lock_num (so_blocks obj ! i) = 0"
      "GetNextWritableBlockIndex n ?obj =
        Some (i, (seq_advanced k ?obj)\<lparr>so_blocks := (so_blocks obj)[i := (so_blocks obj ! i)\<lparr>bk_lock_num := -1\<rparr>]\<rparr>)"
      using Suc.IH [of ?obj] Suc.prems same by auto
    moreover have "seq_advanced k ?obj = seq_advanced (k + 1) obj"
      by (simp add: seq_advanced_def mod_add_left_eq mod_add_right_eq add.assoc add.commute)
    ultimately show ?thesis using False Suc.prems by (auto simp: GetNext_unfold Let_def)
  qed
qed

lemma GetNext_total:
  assumes "length (so_blocks obj) = n" and "n dvd 2 ^ 32" and "f < n" and "bk_lock_num (so_blocks obj ! f) = 0"
  shows "\<exists>i k. i < n \<and> bk_lock_num (so_blocks obj ! i) = 0 \<and>
    GetNextWritableBlockIndex n obj =
      Some (i, (seq_advanced k obj)\<lparr>so_blocks := (so_blocks obj)[i := (so_blocks obj ! i)\<lparr>bk_lock_num := -1\<rparr>]\<rparr>)"
proof -
  let ?q = "st_seq (so_state obj)"
  have "(?q + (f + (n - ?q mod n))) mod n = f"
  proof -
    have "?q mod n < n" using assms(3) by simp
    then have "?q + (f + (n - ?q mod n)) = f + n * (?q div n) + n"
      using mult_div_mod_eq [of n ?q] by linarith
    then show ?thesis using assms(3) by simp
  qed
  then show ?thesis using GetNext_finds [of obj n "f + (n - ?q mod n)"] assms by simp
qed

section \<open>Attached segments\<close>

definition shm_api_ok :: "'os shm_api \<Rightarrow> bool" where
  "shm_api_ok api \<longleftrightarrow>
     (\<forall>shmid obj os. api_load api shmid (api_store api shmid obj os) = obj) \<and>
     (\<forall>shmid other obj os. other \<noteq> shmid \<longrightarrow>
        api_load api other (api_store api shmid obj os) = api_load api other os) \<and>
     (\<forall>key shmid obj os. api_open api key (api_store api shmid obj os) = api_open api key os) \<and>
     (\<forall>other shmid obj os. api_attach api other (api_store api shmid obj os) = api_attach api other os)"

lemma api_load_store [simp]: "shm_api_ok api \<Longrightarrow> api_load api shmid (api_store api shmid obj os) = obj"
  by (simp add: shm_api_ok_def)

text \<open>A segment object that agrees with the state it is attached to.\<close>

definition attached :: "'os shm_api \<Rightarrow> nat \<Rightarrow> Segment \<Rightarrow> 'os \<Rightarrow> bool" where
  "attached api shmid sg os \<longleftrightarrow>
     sg_init sg \<and> sg_state sg = Some shmid \<and>
     (let obj = api_load api shmid os in
      \<not> st_need_remap (so_state obj) \<and> sg_conf sg = ShmConf_Update (st_ceiling_msg_size (so_state obj)) \<and>
      length (so_blocks obj) = sc_block_num (sg_conf sg) \<and>
      (\<forall>i < length (so_blocks obj). length (bk_buf (so_blocks obj ! i)) = sc_block_buf_size (sg_conf sg)))"

lemma Update_fields:
  "sc_block_num (ShmConf_Update m) = GetBlockNum (GetCeilingMessageSize m)"
  "sc_block_buf_size (ShmConf_Update m) = GetCeilingMessageSize m + MESSAGE_INFO_SIZE"
  "sc_ceiling_msg_size (ShmConf_Update m) = GetCeilingMessageSize m"
  by (simp_all add: ShmConf_Update_def GetBlockBufSize_def Let_def)

definition written :: "bytes \<Rightarrow> MessageInfo \<Rightarrow> Block \<Rightarrow> Block" where
  "written data msg_info b =
     b\<lparr>bk_buf := data @ MessageInfo_SerializeTo msg_info @ drop (length data + MessageInfo_kSize) (bk_buf b),
       bk_msg_size := length data, bk_msg_info_size := MessageInfo_kSize\<rparr>"

lemma write_block_written:
  assumes "MessageInfo_wf msg_info" and "length data + MessageInfo_kSize \<le> length (bk_buf b)"
  shows "write_block data msg_info b = Some (written data msg_info b)"
  using assms length_MessageInfo_SerializeTo [OF assms(1)]
  by (simp add: write_block_def buf_write_def written_def add.commute)

lemma AcquireBlockToWrite_attached:
  assumes "attached api shmid sg os" and "msg_size \<le> sc_ceiling_msg_size (sg_conf sg)"
    and "f < length (so_blocks (api_load api shmid os))" and "bk_lock_num (so_blocks (api_load api shmid os) ! f) = 0"
  obtains i k where "i < sc_block_num (sg_conf sg)" and "bk_lock_num (so_blocks (api_load api shmid os) ! i) = 0"
    and "Segment_AcquireBlockToWrite api msg_size (sg, os) = Some (Some i, sg, api_store api shmid
      (let obj = api_load api shmid os in (seq_advanced k obj)
        \<lparr>so_blocks := (so_blocks obj)[i := (so_blocks obj ! i)\<lparr>bk_lock_num := -1\<rparr>]\<rparr>) os)"
proof -
  let ?obj = "api_load api shmid os"
  have att: "sg_init sg" "sg_state sg = Some shmid" "\<not> st_need_remap (so_state ?obj)"
    "length (so_blocks ?obj) = sc_block_num (sg_conf sg)"
    "sg_conf sg = ShmConf_Update (st_ceiling_msg_size (so_state ?obj))"
    using assms(1) by (simp_all add: attached_def Let_def)
  have "sc_block_num (sg_conf sg) dvd 2 ^ 32" by (subst att(5)) (simp only: Update_fields GetBlockNum_dvd)
  then obtain i k where i: "i < sc_block_num (sg_conf sg)" "bk_lock_num (so_blocks ?obj ! i) = 0"
    "GetNextWritableBlockIndex (sc_block_num (sg_conf sg)) ?obj =
      Some (i, (seq_advanced k ?obj)\<lparr>so_blocks := (so_blocks ?obj)[i := (so_blocks ?obj ! i)\<lparr>bk_lock_num := -1\<rparr>]\<rparr>)"
    using GetNext_total [OF att(4), of f] assms(3,4) att(4) by auto
  show ?thesis
    by (rule that [OF i(1,2)])
      (use att assms(2) i(3) in \<open>simp add: Segment_AcquireBlockToWrite_def XsiSegment_OpenOrCreate_def Let_def\<close>)
qed

text \<open>The object after a transmission into block \<open>i\<close>.\<close>

definition transmitted :: "bytes \<Rightarrow> MessageInfo \<Rightarrow> nat \<Rightarrow> nat \<Rightarrow> ShmObj \<Rightarrow> ShmObj" where
  "transmitted data msg_info i k obj =
     (seq_advanced k obj)\<lparr>so_blocks := (so_blocks obj)[i := (written data msg_info (so_blocks obj ! i))\<lparr>bk_lock_num := 0\<rparr>]\<rparr>"

lemma update_block_store:
  assumes "shm_api_ok api" and "sg_state sg = Some shmid" and "i < length (so_blocks obj)"
  shows "update_block api i g (sg, api_store api shmid obj os) =
    Some (sg, api_store api shmid (obj\<lparr>so_blocks := (so_blocks obj)[i := g (so_blocks obj ! i)]\<rparr>)
      (api_store api shmid obj os))"
  using assms by (simp add: update_block_def Let_def)

lemma Transmit_attached:
  assumes api: "shm_api_ok api" and att: "attached api shmid sg os" and wf: "MessageInfo_wf msg_info"
    and size: "length data \<le> sc_ceiling_msg_size (sg_conf sg)"
    and free: "f < length (so_blocks (api_load api shmid os))" "bk_lock_num (so_blocks (api_load api shmid os) ! f) = 0"
    and live: "\<not> cn_is_shutdown cn"
  obtains i k os' where "i < sc_block_num (sg_conf sg)"
    and "ShmTransmitter_Transmit api True (length data) (Some data) msg_info host (cn, ind) (sg, os) =
      Some (True, snd (ConditionNotifier_Notify
        \<lparr>ri_host_id = host, ri_block_index = i, ri_channel_id = sg_key sg\<rparr> (cn, ind)), sg, os')"
    and "api_load api shmid os' = transmitted data msg_info i k (api_load api shmid os)"
proof -
  let ?obj = "api_load api shmid os"
  obtain i k where i: "i < sc_block_num (sg_conf sg)" "bk_lock_num (so_blocks ?obj ! i) = 0"
    and acq: "Segment_AcquireBlockToWrite api (length data) (sg, os) = Some (Some i, sg, api_store api shmid
      (let obj = ?obj in (seq_advanced k obj)
        \<lparr>so_blocks := (so_blocks obj)[i := (so_blocks obj ! i)\<lparr>bk_lock_num := -1\<rparr>]\<rparr>) os)"
    by (rule AcquireBlockToWrite_attached [OF att size free])
  define obj1 where "obj1 = (seq_advanced k ?obj)
    \<lparr>so_blocks := (so_blocks ?obj)[i := (so_blocks ?obj ! i)\<lparr>bk_lock_num := -1\<rparr>]\<rparr>"
  have seg: "sg_state sg = Some shmid" "length (so_blocks ?obj) = sc_block_num (sg_conf sg)"
    and buf: "length (bk_buf (so_blocks ?obj ! i)) = sc_block_buf_size (sg_conf sg)"
    and conf: "sg_conf sg = ShmConf_Update (st_ceiling_msg_size (so_state ?obj))"
    using att i(1) by (simp_all add: attached_def Let_def)
  have at_i: "so_blocks obj1 ! i = (so_blocks ?obj ! i)\<lparr>bk_lock_num := -1\<rparr>" "i < length (so_blocks obj1)"
    using i(1) seg(2) by (simp_all add: obj1_def)
  have "length data + MessageInfo_kSize \<le> sc_block_buf_size (sg_conf sg)"
    using size by (subst conf) (subst (asm) conf, simp add: Update_fields MessageInfo_kSize_def ID_SIZE_def MESSAGE_INFO_SIZE_def)
  then have wr: "write_block data msg_info (so_blocks obj1 ! i) = Some (written data msg_info (so_blocks obj1 ! i))"
    using buf at_i by (intro write_block_written [OF wf]) simp
  define obj2 where "obj2 = obj1\<lparr>so_blocks := (so_blocks obj1)[i := written data msg_info (so_blocks obj1 ! i)]\<rparr>"
  define obj3 where "obj3 = obj2\<lparr>so_blocks := (so_blocks obj2)[i := Block_ReleaseWriteLock (so_blocks obj2 ! i)]\<rparr>"
  let ?os1 = "api_store api shmid obj1 os"
  let ?os2 = "api_store api shmid obj2 ?os1"
  let ?os3 = "api_store api shmid obj3 ?os2"
  have upd: "update_block api i (\<lambda>_. written data msg_info (so_blocks obj1 ! i)) (sg, ?os1) = Some (sg, ?os2)"
    using update_block_store [OF api seg(1) at_i(2)] by (simp add: obj2_def)
  have "i < length (so_blocks obj2)" using at_i(2) by (simp add: obj2_def)
  then have rel: "Segment_ReleaseWrittenBlock api i (sg, ?os2) = Some (sg, ?os3)"
    using update_block_store [OF api seg(1)] i(1) by (simp add: Segment_ReleaseWrittenBlock_def obj3_def)
  have "obj3 = transmitted data msg_info i k ?obj"
    using at_i by (simp add: obj3_def obj2_def transmitted_def Block_ReleaseWriteLock_def written_def obj1_def seq_advanced_def)
  then have final: "api_load api shmid ?os3 = transmitted data msg_info i k ?obj" using api by simp
  have acq': "Segment_AcquireBlockToWrite api (length data) (sg, os) = Some (Some i, sg, ?os1)"
    using acq by (simp add: obj1_def Let_def)
  show ?thesis
    by (rule that [OF i(1) _ final])
      (use api live in \<open>simp add: ShmTransmitter_Transmit_def acq' seg(1) wr upd rel ConditionNotifier_Notify_def split: prod.splits\<close>)
qed

lemma ReadMessage_written:
  assumes api: "shm_api_ok api" and seg: "sg_init sg" "sg_state sg = Some shmid" "i < sc_block_num (sg_conf sg)"
    and obj: "\<not> st_need_remap (so_state (api_load api shmid os))" "i < length (so_blocks (api_load api shmid os))"
    and blk: "so_blocks (api_load api shmid os) ! i = (written data msg_info b)\<lparr>bk_lock_num := 0\<rparr>"
    and wf: "MessageInfo_wf msg_info"
  shows "\<exists>info' os'. ShmDispatcher_ReadMessage api hash i (sg, os) = Some (Some (data, info'), sg, os') \<and>
    MessageInfo_DeserializeFrom hash (MessageInfo_SerializeTo msg_info) MessageInfo_ctor = (True, info')"
proof -
  let ?obj = "api_load api shmid os"
  let ?b = "(written data msg_info b)\<lparr>bk_lock_num := 1\<rparr>"
  let ?obj1 = "?obj\<lparr>so_blocks := (so_blocks ?obj)[i := ?b]\<rparr>"
  let ?os1 = "api_store api shmid ?obj1 os"
  have acq: "Segment_AcquireBlockToRead api i (sg, os) = Some (True, sg, ?os1)"
    using seg obj blk
    by (simp add: Segment_AcquireBlockToRead_def XsiSegment_OpenOnly_def Let_def Block_TryLockForRead_def)
  have rd: "so_blocks (api_load api shmid ?os1) ! i = ?b" using api obj(2) by simp
  have "take MessageInfo_kSize (drop (length data) (bk_buf ?b)) = MessageInfo_SerializeTo msg_info"
    using length_MessageInfo_SerializeTo [OF wf] by (simp add: written_def)
  moreover have "bk_msg_size ?b = length data" "bk_msg_info_size ?b = MessageInfo_kSize" "take (length data) (bk_buf ?b) = data"
    by (simp_all add: written_def)
  moreover have "\<exists>so2. Segment_ReleaseReadBlock api i (sg, ?os1) = Some (sg, so2)"
    using update_block_store [OF api seg(2), of i ?obj1] seg(3) obj(2) by (simp add: Segment_ReleaseReadBlock_def)
  ultimately show ?thesis
    using MessageInfo_Deserialize_Serialize [OF wf, of hash MessageInfo_ctor] acq rd seg(2)
    by (auto simp: ShmDispatcher_ReadMessage_def Let_def)
qed

lemma Listen_after_Notify:
  assumes "\<not> cn_is_shutdown cn" and "in_next_seq ind + 1 < two64"
  shows "Listen_poll (snd (ConditionNotifier_Notify info (cn, ind))) (in_next_seq ind) =
    Some (info, in_next_seq ind + 1)"
  using assms by (simp add: Listen_poll_def ConditionNotifier_Notify_def Notify_reserve_def Notify_store_def
      Notify_stamp_def wrap_simps)

section \<open>Properties\<close>

text \<open>
  C4: a message sent over shared memory arrives. When writer and reader are attached to one segment
  with a free block and the message is within the segment's size class, \<open>Transmit\<close> succeeds, a
  listener that was up to date is told the block, and reading that block delivers exactly the
  bytes that were sent, with the sender, sequence number and spare id of the message info.
\<close>

theorem transmit_then_read:
  assumes "shm_api_ok api" and "attached api shmid w os" and "attached api shmid r os"
    and "MessageInfo_wf msg_info" and "length data \<le> sc_ceiling_msg_size (sg_conf w)"
    and "f < length (so_blocks (api_load api shmid os))" and "bk_lock_num (so_blocks (api_load api shmid os) ! f) = 0"
    and "\<not> cn_is_shutdown cn" and "in_next_seq ind + 1 < two64"
  shows "\<exists>i ind' os' info' os''.
    ShmTransmitter_Transmit api True (length data) (Some data) msg_info host (cn, ind) (w, os) =
      Some (True, ind', w, os') \<and>
    Listen_poll ind' (in_next_seq ind) =
      Some (\<lparr>ri_host_id = host, ri_block_index = i, ri_channel_id = sg_key w\<rparr>, in_next_seq ind + 1) \<and>
    ShmDispatcher_ReadMessage api hash i (r, os') = Some (Some (data, info'), r, os'') \<and>
    mi_seq_num info' = mi_seq_num msg_info \<and> Identity_eq (mi_sender_id info') (mi_sender_id msg_info) \<and>
    Identity_eq (mi_spare_id info') (mi_spare_id msg_info)"
proof -
  let ?obj = "api_load api shmid os"
  obtain i k os' where i: "i < sc_block_num (sg_conf w)"
    and tr: "ShmTransmitter_Transmit api True (length data) (Some data) msg_info host (cn, ind) (w, os) =
      Some (True, snd (ConditionNotifier_Notify
        \<lparr>ri_host_id = host, ri_block_index = i, ri_channel_id = sg_key w\<rparr> (cn, ind)), w, os')"
    and ld: "api_load api shmid os' = transmitted data msg_info i k ?obj"
    by (rule Transmit_attached [OF assms(1,2,4-8)])
  have "length (so_blocks ?obj) = sc_block_num (sg_conf w)"
    using assms(2) by (simp only: attached_def Let_def)
  moreover have seg: "sg_init r" "sg_state r = Some shmid" "\<not> st_need_remap (so_state ?obj)"
    "length (so_blocks ?obj) = sc_block_num (sg_conf r)"
    using assms(3) unfolding attached_def Let_def by blast+
  ultimately have ir: "i < sc_block_num (sg_conf r)" "i < length (so_blocks ?obj)" using i by simp_all
  obtain info' os'' where "ShmDispatcher_ReadMessage api hash i (r, os') = Some (Some (data, info'), r, os'')"
    and "MessageInfo_DeserializeFrom hash (MessageInfo_SerializeTo msg_info) MessageInfo_ctor = (True, info')"
    using ReadMessage_written [OF assms(1) seg(1,2) ir(1), of os' data msg_info "so_blocks ?obj ! i" hash] seg(3) ir(2) assms(4)
    by (auto simp: ld transmitted_def seq_advanced_def)
  moreover from this(2) have "mi_seq_num info' = mi_seq_num msg_info"
    "id_data (mi_sender_id info') = id_data (mi_sender_id msg_info)"
    "id_data (mi_spare_id info') = id_data (mi_spare_id msg_info)"
    by (auto simp: MessageInfo_Deserialize_Serialize [OF assms(4)])
  moreover note tr Listen_after_Notify [OF assms(8,9)]
  ultimately show ?thesis unfolding Identity_eq_def by blast
qed

text \<open>
  C34: the size classes. The block chosen for a message of \<open>m\<close> bytes holds the message with its info
  exactly when \<open>m\<close> is at most 32 MB and 1000 bytes: larger messages still get the 32 MB class, so the
  write overruns the block. Up to 32 MB the class is also an upper bound of the message and the number of
  blocks is a positive divisor of the range of the sequence number, so that the search wraps evenly.
\<close>

theorem size_class_fits:
  "(m + MessageInfo_kSize \<le> sc_block_buf_size (ShmConf_Update m) \<longleftrightarrow> m \<le> MESSAGE_SIZE_MORE + 1000) \<and>
   (m \<le> sc_ceiling_msg_size (ShmConf_Update m) \<longleftrightarrow> m \<le> MESSAGE_SIZE_MORE) \<and>
   0 < sc_block_num (ShmConf_Update m) \<and> sc_block_num (ShmConf_Update m) dvd 2 ^ 32"
proof (intro conjI)
  show "0 < sc_block_num (ShmConf_Update m)" and "sc_block_num (ShmConf_Update m) dvd 2 ^ 32"
    by (simp_all only: Update_fields GetBlockNum_pos GetBlockNum_dvd)
  show "m \<le> sc_ceiling_msg_size (ShmConf_Update m) \<longleftrightarrow> m \<le> MESSAGE_SIZE_MORE"
    unfolding Update_fields GetCeilingMessageSize_def message_sizes by simp
  show "m + MessageInfo_kSize \<le> sc_block_buf_size (ShmConf_Update m) \<longleftrightarrow> m \<le> MESSAGE_SIZE_MORE + 1000"
    unfolding Update_fields GetCeilingMessageSize_def message_sizes MessageInfo_kSize_def ID_SIZE_def MESSAGE_INFO_SIZE_def
    by simp
qed

text \<open>
  \<open>AcquireBlockToRead\<close> tests the block index against the configuration it had before it remaps. A
  reader that is told a block of the old segment, and finds that a writer has meanwhile recreated the segment with
  fewer blocks, indexes past the end of the new block array.
\<close>

theorem stale_index_out_of_range:
  assumes "shm_api_ok api" and "sg_init sg" and "sg_state sg = Some old"
    and "index < sc_block_num (sg_conf sg)" and "st_need_remap (so_state (api_load api old os))"
    and "api_open api (sg_key sg) os = Some new" and "api_attach api new os"
    and "length (so_blocks (api_load api new os)) \<le> index"
  shows "Segment_AcquireBlockToRead api index (sg, os) = None"
  using assms by (simp add: Segment_AcquireBlockToRead_def XsiSegment_OpenOnly_def Segment_Remap_def
      XsiSegment_Reset_def attach_segment_def Let_def)

text \<open>A writer whose remapping fails and whose message needs a larger class reads through the null
  \<open>state_\<close>.\<close>

lemma failed_remap_null_state:
  assumes "sg_init sg" and "sg_state sg = Some old" and "st_need_remap (so_state (api_load api old os))"
    and "api_open api (sg_key sg) os = None" and "sc_ceiling_msg_size (sg_conf sg) < msg_size"
  shows "Segment_AcquireBlockToWrite api msg_size (sg, os) = None"
  using assms by (simp add: Segment_AcquireBlockToWrite_def XsiSegment_OpenOrCreate_def XsiSegment_OpenOnly_def
      Segment_Remap_def XsiSegment_Reset_def Segment_Recreate_def Let_def)

section \<open>An instance of the system calls\<close>

text \<open>Keys, segments and the next free identifier; segments stay attached after their key is removed.\<close>

type_synonym mem_os = "(nat \<rightharpoonup> nat) \<times> (nat \<Rightarrow> ShmObj) \<times> nat"

definition mem_api :: "mem_os shm_api" where
  "mem_api =
     \<lparr>api_create = (\<lambda>key size (ks, m, n).
        if ks key = None then (Inr n, (ks(key \<mapsto> n), m, n + 1)) else (Inl EEXIST, (ks, m, n))),
      api_open = (\<lambda>key (ks, m, n). ks key),
      api_attach = (\<lambda>_ _. True),
      api_rmid = (\<lambda>shmid (ks, m, n). (True, (\<lambda>k. if ks k = Some shmid then None else ks k, m, n))),
      api_load = (\<lambda>shmid (ks, m, n). m shmid),
      api_store = (\<lambda>shmid obj (ks, m, n). (ks, m(shmid := obj), n))\<rparr>"

lemma mem_api_ok: "shm_api_ok mem_api"
  by (auto simp: shm_api_ok_def mem_api_def)

definition conf16 :: ShmConf where "conf16 = ShmConf_Update MESSAGE_SIZE_16K"

definition seg16 :: Segment where
  "seg16 = \<lparr>sg_init = True, sg_conf = conf16, sg_key = 5, sg_state = Some 0\<rparr>"

definition mem16 :: mem_os where
  "mem16 = ([5 \<mapsto> 0], (\<lambda>_. ShmObj_new conf16), 1)"

lemma conf16_fields: "sc_ceiling_msg_size conf16 = 16384" "sc_block_num conf16 = 512"
  "sc_block_buf_size conf16 = 17408" "ShmConf_Update 16384 = conf16"
  by (simp_all add: conf16_def ShmConf_Update_def GetCeilingMessageSize_def GetBlockNum_def GetBlockBufSize_def
      message_sizes MESSAGE_INFO_SIZE_def)

lemma mem16_load: "api_load mem_api 0 mem16 = ShmObj_new conf16"
  by (simp add: mem_api_def mem16_def)

lemma new16: "so_blocks (ShmObj_new conf16) = replicate 512 (Block_new 17408)"
    "so_state (ShmObj_new conf16) = State_ctor 16384"
  by (simp_all add: ShmObj_new_def conf16_fields)

lemma attached16: "attached mem_api 0 seg16 mem16"
  unfolding attached_def mem16_load new16 Let_def
  by (simp add: seg16_def State_ctor_def conf16_fields Block_new_def)

lemma transmit_then_read_witness:
  "\<exists>i ind' os' info' os''.
    ShmTransmitter_Transmit mem_api True (length [1, 2, 3 :: nat]) (Some [1, 2, 3]) mi_example 9
      (\<lparr>cn_next_seq = 0, cn_is_shutdown = False\<rparr>, Indicator_ctor) (seg16, mem16) = Some (True, ind', seg16, os') \<and>
    ShmDispatcher_ReadMessage mem_api (\<lambda>_. 0) i (seg16, os') = Some (Some ([1, 2, 3], info'), seg16, os'') \<and>
    mi_seq_num info' = 300"
proof -
  have wf: "MessageInfo_wf mi_example"
    by (simp add: MessageInfo_wf_def mi_example_def ID_SIZE_def Identity_zero_def)
  have size: "length [1, 2, 3 :: nat] \<le> sc_ceiling_msg_size (sg_conf seg16)" by (simp add: seg16_def conf16_fields)
  have free: "0 < length (so_blocks (api_load mem_api 0 mem16))"
    "bk_lock_num (so_blocks (api_load mem_api 0 mem16) ! 0) = 0"
    by (simp_all add: mem16_load new16 Block_new_def)
  have live: "\<not> cn_is_shutdown \<lparr>cn_next_seq = 0, cn_is_shutdown = False\<rparr>" by simp
  have room: "in_next_seq Indicator_ctor + 1 < two64" by (simp add: Indicator_ctor_def two64_def)
  have "mi_seq_num mi_example = 300" by (simp add: mi_example_def)
  with transmit_then_read [OF mem_api_ok attached16 attached16 wf size free live room, of 9 "\<lambda>_. 0"]
  show ?thesis by (elim exE conjE) (intro exI conjI, assumption+, simp)
qed

text \<open>The reader still knows 512 blocks; the writer has recreated the segment for a message of 20 MB.\<close>

definition mem_recreated :: mem_os where
  "mem_recreated = ([5 \<mapsto> 1],
     (\<lambda>_. ShmObj_new (ShmConf_Update 20971520))
       (0 := (ShmObj_new conf16)\<lparr>so_state := (State_ctor 16384)\<lparr>st_need_remap := True\<rparr>\<rparr>), 2)"

lemma recreated_num: "sc_block_num (ShmConf_Update 20971520) = 8"
  "ShmConf_Update (sc_ceiling_msg_size (ShmConf_Update 20971520)) = ShmConf_Update 20971520"
  by (simp_all add: ShmConf_Update_def GetCeilingMessageSize_def GetBlockNum_def message_sizes Let_def)

lemma stale_index_out_of_range_witness:
  "Segment_AcquireBlockToRead mem_api 300 (seg16, mem_recreated) = None"
proof (rule stale_index_out_of_range [of mem_api seg16 0 300 mem_recreated 1])
  show "shm_api_ok mem_api" by (rule mem_api_ok)
  show "300 < sc_block_num (sg_conf seg16)" by (simp add: seg16_def conf16_fields)
  show "length (so_blocks (api_load mem_api 1 mem_recreated)) \<le> 300"
    by (simp add: mem_api_def mem_recreated_def ShmObj_new_def Let_def recreated_num)
qed (simp_all add: seg16_def mem_api_def mem_recreated_def)

end
