(* ===== verification/Routine.thy ===== *)
theory Routine
  imports Data_Visitor
begin

text \<open>
  \<open>cyber/croutine/croutine.{h,cc}\<close>, the routine loops of \<open>croutine/routine_factory.h\<close> and
  \<open>task/task_manager.cc\<close>, and the hand-over of a notification from a writer thread to a suspended
  routine. The record \<open>CRoutine\<close> and its operations are the class; \<open>wake_step\<close> interleaves the
  threads that notify a routine with the processor that runs it, one access to shared data per
  step, for any program of the routine. For the message loop of \<open>CreateRoutineFactory\<close> no
  notification is lost; for the loop of \<open>TaskManager\<close> one can be.
\<close>

section \<open>The class CRoutine\<close>

datatype RoutineState = READY | FINISHED | SLEEP | IO_WAIT | DATA_WAIT

text \<open>
  \<open>lock_\<close> and \<open>updated_\<close> are atomic flags. The context switch into the routine's stack is the
  argument of \<open>Resume\<close>: what the routine does until it switches back.
\<close>

record CRoutine =
  cr_name :: string
  cr_wake_time :: int
  cr_state :: RoutineState
  cr_lock :: bool
  cr_updated :: bool
  cr_force_stop :: bool
  cr_processor_id :: int
  cr_priority :: nat
  cr_id :: nat
  cr_group_name :: string

definition CRoutine_ctor :: "int \<Rightarrow> CRoutine" where
  "CRoutine_ctor now =
     \<lparr>cr_name = '''', cr_wake_time = now, cr_state = READY, cr_lock = False, cr_updated = True,
      cr_force_stop = False, cr_processor_id = -1, cr_priority = 0, cr_id = 0,
      cr_group_name = ''''\<rparr>"

definition CRoutine_set_state :: "RoutineState \<Rightarrow> CRoutine \<Rightarrow> CRoutine" where
  "CRoutine_set_state s cr = cr\<lparr>cr_state := s\<rparr>"

definition CRoutine_Acquire :: "CRoutine \<Rightarrow> bool \<times> CRoutine" where
  "CRoutine_Acquire cr = (\<not> cr_lock cr, cr\<lparr>cr_lock := True\<rparr>)"

definition CRoutine_Release :: "CRoutine \<Rightarrow> CRoutine" where
  "CRoutine_Release cr = cr\<lparr>cr_lock := False\<rparr>"

definition CRoutine_SetUpdateFlag :: "CRoutine \<Rightarrow> CRoutine" where
  "CRoutine_SetUpdateFlag cr = cr\<lparr>cr_updated := False\<rparr>"

definition CRoutine_UpdateState :: "int \<Rightarrow> CRoutine \<Rightarrow> RoutineState \<times> CRoutine" where
  "CRoutine_UpdateState now cr =
     (if cr_state cr = SLEEP \<and> cr_wake_time cr < now
      then (READY, cr\<lparr>cr_state := READY\<rparr>)
      else
        let cr' = cr\<lparr>cr_updated := True\<rparr> in
        if \<not> cr_updated cr
        then
          if cr_state cr = DATA_WAIT \<or> cr_state cr = IO_WAIT
          then (READY, cr'\<lparr>cr_state := READY\<rparr>)
          else (cr_state cr, cr')
        else (cr_state cr, cr'))"

definition CRoutine_Wake :: "CRoutine \<Rightarrow> CRoutine" where
  "CRoutine_Wake cr = cr\<lparr>cr_state := READY\<rparr>"

definition CRoutine_Stop :: "CRoutine \<Rightarrow> CRoutine" where
  "CRoutine_Stop cr = cr\<lparr>cr_force_stop := True\<rparr>"

text \<open>The ways a routine gives the processor back, up to the context switch.\<close>

datatype co_switch = Yield | Yield_to RoutineState | HangUp | Sleep int | EntryReturn

fun CRoutine_switch :: "int \<Rightarrow> co_switch \<Rightarrow> CRoutine \<Rightarrow> CRoutine" where
  "CRoutine_switch now Yield cr = cr"
| "CRoutine_switch now (Yield_to s) cr = CRoutine_set_state s cr"
| "CRoutine_switch now HangUp cr = CRoutine_set_state DATA_WAIT cr"
| "CRoutine_switch now (Sleep d) cr =
     CRoutine_set_state SLEEP (cr\<lparr>cr_wake_time := now + d\<rparr>)"
| "CRoutine_switch now EntryReturn cr = CRoutine_set_state FINISHED cr"

text \<open>A slice of the routine: the states it sets on itself, then the switch back.\<close>

definition CRoutine_Resume ::
    "int \<Rightarrow> RoutineState list \<times> co_switch \<Rightarrow> CRoutine \<Rightarrow> RoutineState \<times> CRoutine" where
  "CRoutine_Resume now slice cr =
     (if cr_force_stop cr then (FINISHED, cr\<lparr>cr_state := FINISHED\<rparr>)
      else if cr_state cr \<noteq> READY then (cr_state cr, cr)
      else
        let cr' = CRoutine_switch now (snd slice) (fold CRoutine_set_state (fst slice) cr)
        in (cr_state cr', cr'))"

lemmas CRoutine_defs [cyber_defs] =
  CRoutine_set_state_def CRoutine_Acquire_def CRoutine_Release_def CRoutine_SetUpdateFlag_def
  CRoutine_Stop_def CRoutine_Wake_def

lemma UpdateState_fst: "cr_state (snd (CRoutine_UpdateState now cr)) = fst (CRoutine_UpdateState now cr)"
  by (simp add: CRoutine_UpdateState_def Let_def)

text \<open>Updating touches the state and the flag only.\<close>

lemma UpdateState_frame [simp]:
  "cr_id (snd (CRoutine_UpdateState now cr)) = cr_id cr"
  "cr_name (snd (CRoutine_UpdateState now cr)) = cr_name cr"
  "cr_priority (snd (CRoutine_UpdateState now cr)) = cr_priority cr"
  "cr_group_name (snd (CRoutine_UpdateState now cr)) = cr_group_name cr"
  "cr_processor_id (snd (CRoutine_UpdateState now cr)) = cr_processor_id cr"
  "cr_lock (snd (CRoutine_UpdateState now cr)) = cr_lock cr"
  "cr_force_stop (snd (CRoutine_UpdateState now cr)) = cr_force_stop cr"
  by (simp_all add: CRoutine_UpdateState_def Let_def)


lemma fold_set_state_frame [simp]:
  "cr_id (fold CRoutine_set_state ss cr) = cr_id cr"
  "cr_name (fold CRoutine_set_state ss cr) = cr_name cr"
  "cr_priority (fold CRoutine_set_state ss cr) = cr_priority cr"
  "cr_group_name (fold CRoutine_set_state ss cr) = cr_group_name cr"
  "cr_processor_id (fold CRoutine_set_state ss cr) = cr_processor_id cr"
  "cr_lock (fold CRoutine_set_state ss cr) = cr_lock cr"
  by (induction ss arbitrary: cr) (auto simp: CRoutine_set_state_def)

lemma switch_frame [simp]:
  "cr_id (CRoutine_switch now sw cr) = cr_id cr"
  "cr_name (CRoutine_switch now sw cr) = cr_name cr"
  "cr_priority (CRoutine_switch now sw cr) = cr_priority cr"
  "cr_group_name (CRoutine_switch now sw cr) = cr_group_name cr"
  "cr_processor_id (CRoutine_switch now sw cr) = cr_processor_id cr"
  "cr_lock (CRoutine_switch now sw cr) = cr_lock cr"
  by (induction now sw cr rule: CRoutine_switch.induct) (simp_all add: CRoutine_set_state_def)

lemma Resume_frame [simp]:
  "cr_id (snd (CRoutine_Resume now slice cr)) = cr_id cr"
  "cr_name (snd (CRoutine_Resume now slice cr)) = cr_name cr"
  "cr_priority (snd (CRoutine_Resume now slice cr)) = cr_priority cr"
  "cr_group_name (snd (CRoutine_Resume now slice cr)) = cr_group_name cr"
  "cr_processor_id (snd (CRoutine_Resume now slice cr)) = cr_processor_id cr"
  "cr_lock (snd (CRoutine_Resume now slice cr)) = cr_lock cr"
  by (simp_all add: CRoutine_Resume_def Let_def)

section \<open>Notifications and the processor, interleaved\<close>

text \<open>
  One routine with its shared buffer. A notifying thread first adds to the buffer
  (\<open>DataDispatcher::Dispatch\<close>, \<open>TaskManager::Enqueue\<close>), then runs \<open>NotifyProcessor\<close>, which
  reads the state twice at most and clears \<open>updated_\<close> when it found the routine waiting. The
  processor that holds the routine runs \<open>UpdateState\<close> and, on \<open>READY\<close>, the routine itself,
  from where its last switch left it, until the next switch.
\<close>

datatype notify_pc = N_idle | N_read_data_wait | N_read_io_wait | N_set_flag

datatype proc_pc = P_idle | P_flag | P_waiting | P_check | P_run | P_release

record ('p, 'b) wake_sys =
  ws_now :: int
  ws_cr :: CRoutine
  ws_buffer :: 'b
  ws_proc :: proc_pc
  ws_point :: 'p
  ws_notify :: "nat \<Rightarrow> notify_pc"

text \<open>
  A program of a routine: from a point, with the time, the buffer and its own record, one step
  to the next point, with the flag that the step ends in a context switch.
\<close>

type_synonym ('p, 'b) co_program =
  "int \<Rightarrow> 'p \<times> 'b \<times> CRoutine \<Rightarrow> 'p \<times> 'b \<times> CRoutine \<times> bool \<Rightarrow> bool"

inductive wake_step ::
    "('p, 'b) co_program \<Rightarrow> ('m \<Rightarrow> 'b \<Rightarrow> 'b) \<Rightarrow> ('p, 'b) wake_sys \<Rightarrow> ('p, 'b) wake_sys \<Rightarrow> bool"
  for program :: "('p, 'b) co_program" and add :: "'m \<Rightarrow> 'b \<Rightarrow> 'b"
where
  tick: "0 < d \<Longrightarrow> wake_step program add s (s\<lparr>ws_now := ws_now s + d\<rparr>)"
| add_message: "ws_notify s t = N_idle \<Longrightarrow>
    wake_step program add s
      (s\<lparr>ws_buffer := add m (ws_buffer s), ws_notify := (ws_notify s)(t := N_read_data_wait)\<rparr>)"
| read_data_wait: "ws_notify s t = N_read_data_wait \<Longrightarrow>
    wake_step program add s
      (s\<lparr>ws_notify := (ws_notify s)
           (t := if cr_state (ws_cr s) = DATA_WAIT then N_set_flag else N_read_io_wait)\<rparr>)"
| read_io_wait: "ws_notify s t = N_read_io_wait \<Longrightarrow>
    wake_step program add s
      (s\<lparr>ws_notify := (ws_notify s)
           (t := if cr_state (ws_cr s) = IO_WAIT then N_set_flag else N_idle)\<rparr>)"
| set_flag: "ws_notify s t = N_set_flag \<Longrightarrow>
    wake_step program add s
      (s\<lparr>ws_cr := CRoutine_SetUpdateFlag (ws_cr s), ws_notify := (ws_notify s)(t := N_idle)\<rparr>)"
| acquire: "ws_proc s = P_idle \<Longrightarrow> CRoutine_Acquire (ws_cr s) = (True, cr) \<Longrightarrow>
    wake_step program add s
      (if cr_state cr = SLEEP \<and> cr_wake_time cr < ws_now s
       then s\<lparr>ws_cr := CRoutine_set_state READY cr, ws_proc := P_check\<rparr>
       else s\<lparr>ws_cr := cr, ws_proc := P_flag\<rparr>)"
| test_and_set: "ws_proc s = P_flag \<Longrightarrow>
    wake_step program add s
      (s\<lparr>ws_cr := (ws_cr s)\<lparr>cr_updated := True\<rparr>,
         ws_proc := if cr_updated (ws_cr s) then P_check else P_waiting\<rparr>)"
| make_ready: "ws_proc s = P_waiting \<Longrightarrow>
    wake_step program add s
      (s\<lparr>ws_cr := if cr_state (ws_cr s) = DATA_WAIT \<or> cr_state (ws_cr s) = IO_WAIT
                   then CRoutine_set_state READY (ws_cr s) else ws_cr s,
         ws_proc := P_check\<rparr>)"
| check: "ws_proc s = P_check \<Longrightarrow>
    wake_step program add s
      (s\<lparr>ws_proc := if cr_state (ws_cr s) = READY then P_run else P_release\<rparr>)"
| run: "ws_proc s = P_run \<Longrightarrow>
    program (ws_now s) (ws_point s, ws_buffer s, ws_cr s) (p, b, cr, switch) \<Longrightarrow>
    wake_step program add s
      (s\<lparr>ws_point := p, ws_buffer := b, ws_cr := cr,
         ws_proc := if switch then P_release else P_run\<rparr>)"
| release: "ws_proc s = P_release \<Longrightarrow>
    wake_step program add s (s\<lparr>ws_cr := CRoutine_Release (ws_cr s), ws_proc := P_idle\<rparr>)"

definition wake_init :: "'p \<Rightarrow> 'b \<Rightarrow> ('p, 'b) wake_sys" where
  "wake_init p b =
     \<lparr>ws_now = 0, ws_cr = CRoutine_ctor 0, ws_buffer = b, ws_proc = P_idle, ws_point = p,
      ws_notify = (\<lambda>_. N_idle)\<rparr>"

section \<open>The message loop of CreateRoutineFactory\<close>

text \<open>
  The loop sets \<open>DATA_WAIT\<close>, then tries to fetch; on a message it runs the handler and yields
  with \<open>READY\<close>, otherwise it yields as it is. The buffer is the visitor with the messages
  handled so far. A handler may sleep (\<open>cyber::SleepFor\<close>) and, if \<open>yields\<close>, call \<open>cyber::Yield\<close>.
\<close>

datatype 'a loop_point = L_start | L_fetch | L_handle 'a

inductive message_loop ::
    "bool \<Rightarrow> ('a loop_point, 'a DataVisitor \<times> 'a list) co_program"
  for yields :: bool
where
  loop_set: "message_loop yields now (L_start, b, cr)
      (L_fetch, b, CRoutine_set_state DATA_WAIT cr, False)"
| loop_fetch: "DataVisitor_TryFetch dv = (Some m, dv') \<Longrightarrow>
    message_loop yields now (L_fetch, (dv, done), cr) (L_handle m, (dv', done), cr, False)"
| loop_wait: "DataVisitor_TryFetch dv = (None, dv') \<Longrightarrow>
    message_loop yields now (L_fetch, (dv, done), cr)
      (L_start, (dv', done), CRoutine_switch now Yield cr, True)"
| handler_sleep: "message_loop yields now (L_handle m, b, cr)
      (L_handle m, b, CRoutine_switch now (Sleep d) cr, True)"
| handler_yield: "yields \<Longrightarrow>
    message_loop yields now (L_handle m, b, cr) (L_handle m, b, CRoutine_switch now Yield cr, True)"
| loop_handled: "message_loop yields now (L_handle m, (dv, done), cr)
      (L_start, (dv, done @ [m]), CRoutine_switch now (Yield_to READY) cr, True)"

definition visitor_add :: "'a \<Rightarrow> 'a DataVisitor \<times> 'a list \<Rightarrow> 'a DataVisitor \<times> 'a list" where
  "visitor_add m b = ((fst b)\<lparr>dv_buffer := CacheBuffer_push m (dv_buffer (fst b))\<rparr>, snd b)"

section \<open>The loop of the task manager\<close>

text \<open>
  \<open>TaskManager\<close> takes tasks out of its queue and hangs up on an empty one. The queue is a list
  (the bounded queue is first-in first-out), and \<open>stop_\<close> stays false. A task may yield or sleep.
\<close>

datatype 'a task_point = T_dequeue | T_hang_up | T_run 'a

inductive task_loop :: "('a task_point, 'a list \<times> 'a list) co_program" where
  task_switch: "sw \<in> {Yield, Sleep d} \<Longrightarrow>
    task_loop now (T_run x, b, cr) (T_run x, b, CRoutine_switch now sw cr, True)"
| task_dequeue: "task_loop now (T_dequeue, (x # queue, done), cr) (T_run x, (queue, done), cr, False)"
| task_empty: "task_loop now (T_dequeue, ([], done), cr) (T_hang_up, ([], done), cr, False)"
| task_hang_up: "task_loop now (T_hang_up, b, cr) (T_dequeue, b, CRoutine_switch now HangUp cr, True)"
| task_run: "task_loop now (T_run x, (queue, done), cr) (T_dequeue, (queue, done @ [x]), cr, False)"

definition task_add :: "'a \<Rightarrow> 'a list \<times> 'a list \<Rightarrow> 'a list \<times> 'a list" where
  "task_add x b = (fst b @ [x], snd b)"


section \<open>Laws of the wake-up\<close>











text \<open>Without other threads the steps of the processor amount to \<open>UpdateState\<close>.\<close>

lemma UpdateState_steps:
  assumes "ws_proc s = P_idle" and "\<not> cr_lock (ws_cr s)"
    and "CRoutine_UpdateState (ws_now s) ((ws_cr s)\<lparr>cr_lock := True\<rparr>) = (READY, cr)"
  shows "(wake_step program add)\<^sup>*\<^sup>* s (s\<lparr>ws_cr := cr, ws_proc := P_run\<rparr>)"
proof -
  let ?S = "wake_step program add"
  let ?l = "(ws_cr s)\<lparr>cr_lock := True\<rparr>"
  let ?check = "s\<lparr>ws_cr := cr, ws_proc := P_check\<rparr>"
  have acq: "?S s (if cr_state ?l = SLEEP \<and> cr_wake_time ?l < ws_now s
       then s\<lparr>ws_cr := CRoutine_set_state READY ?l, ws_proc := P_check\<rparr>
       else s\<lparr>ws_cr := ?l, ws_proc := P_flag\<rparr>)"
    using assms by (intro acquire) (auto simp: CRoutine_Acquire_def)
  have "?S\<^sup>*\<^sup>* s ?check"
  proof (cases "cr_state (ws_cr s) = SLEEP \<and> cr_wake_time (ws_cr s) < ws_now s")
    case True
    then show ?thesis
      using acq assms(3) by (auto simp: CRoutine_UpdateState_def CRoutine_set_state_def)
  next
    case False
    have a1: "?S s (s\<lparr>ws_cr := ?l, ws_proc := P_flag\<rparr>)" using acq False by auto
    have a2: "?S (s\<lparr>ws_cr := ?l, ws_proc := P_flag\<rparr>)
        (s\<lparr>ws_cr := ?l\<lparr>cr_updated := True\<rparr>,
           ws_proc := if cr_updated (ws_cr s) then P_check else P_waiting\<rparr>)"
      using test_and_set [of "s\<lparr>ws_cr := ?l, ws_proc := P_flag\<rparr>" program add] by simp
    have upd: "cr = (if \<not> cr_updated (ws_cr s) \<and> cr_state (ws_cr s) \<in> {DATA_WAIT, IO_WAIT}
        then ?l\<lparr>cr_updated := True, cr_state := READY\<rparr> else ?l\<lparr>cr_updated := True\<rparr>)"
      using assms(3) False by (auto simp: CRoutine_UpdateState_def Let_def split: if_splits)
    have a3: "?S\<^sup>*\<^sup>* (s\<lparr>ws_cr := ?l\<lparr>cr_updated := True\<rparr>,
           ws_proc := if cr_updated (ws_cr s) then P_check else P_waiting\<rparr>) ?check"
      using make_ready [of "s\<lparr>ws_cr := ?l\<lparr>cr_updated := True\<rparr>, ws_proc := P_waiting\<rparr>" program add]
      by (auto simp: upd CRoutine_set_state_def intro!: r_into_rtranclp)
    show ?thesis using a1 a2 a3 by (meson converse_rtranclp_into_rtranclp)
  qed
  moreover have "cr_state cr = READY"
    using UpdateState_fst [of "ws_now s" ?l] assms(3) by simp
  then have "?S ?check (s\<lparr>ws_cr := cr, ws_proc := P_run\<rparr>)"
    using check [of ?check program add] by simp
  ultimately show ?thesis by (meson rtranclp.rtrancl_into_rtrancl)
qed



section \<open>Claims\<close>


definition one_message_arrives :: "(nat loop_point, nat DataVisitor \<times> nat list) wake_sys" where
  "one_message_arrives =
     (wake_init L_start (DataVisitor_ctor 0 4, []))
       \<lparr>ws_buffer := visitor_add 7 (DataVisitor_ctor 0 4, [])\<rparr>"

lemma one_message_arrives_reachable:
  "(wake_step (message_loop yields) visitor_add)\<^sup>*\<^sup>* (wake_init L_start (DataVisitor_ctor 0 4, []))
     one_message_arrives"
proof -
  let ?S = "wake_step (message_loop yields) (visitor_add :: nat \<Rightarrow> _)"
  let ?i = "wake_init L_start (DataVisitor_ctor 0 4, []) :: (nat loop_point, nat DataVisitor \<times> nat list) wake_sys"
  let ?n = "\<lambda>pc. ?i\<lparr>ws_buffer := visitor_add 7 (ws_buffer ?i), ws_notify := (ws_notify ?i)(0 := pc)\<rparr>"
  have a1: "?S ?i (?n N_read_data_wait)" by (rule add_message) (simp add: wake_init_def)
  have a2: "?S (?n N_read_data_wait) (?n N_read_io_wait)"
    using read_data_wait [of "?n N_read_data_wait" 0 "message_loop yields" visitor_add]
    by (simp add: wake_init_def CRoutine_ctor_def)
  have a3: "?S (?n N_read_io_wait) (?n N_idle)"
    using read_io_wait [of "?n N_read_io_wait" 0 "message_loop yields" visitor_add]
    by (simp add: wake_init_def CRoutine_ctor_def)
  have n: "?n N_idle = one_message_arrives"
    by (simp add: one_message_arrives_def wake_init_def fun_upd_idem)
  have "?S\<^sup>*\<^sup>* ?i (?n N_idle)"
    using a1 a2 a3 by (meson converse_rtranclp_into_rtranclp rtranclp.rtrancl_refl)
  then show ?thesis by (simp only: n)
qed


text \<open>
  A handler that calls \<open>cyber::Yield\<close> runs with the state \<open>DATA_WAIT\<close> and parks itself: it goes on
  only when the next message is notified.
\<close>

lemma handler_yield_parks:
  "\<exists>s m. (wake_step (message_loop True) visitor_add)\<^sup>*\<^sup>* (wake_init L_start (DataVisitor_ctor 0 4, [])) s \<and>
     ws_point s = L_handle (m :: nat) \<and> ws_proc s = P_idle \<and>
     ws_notify s = (\<lambda>_. N_idle) \<and> (\<forall>now. fst (CRoutine_UpdateState now (ws_cr s)) = DATA_WAIT)"
proof -
  let ?S = "wake_step (message_loop True) (visitor_add :: nat \<Rightarrow> _)"
  let ?cr = "(CRoutine_ctor 0)\<lparr>cr_lock := True\<rparr>"
  let ?w = "CRoutine_set_state DATA_WAIT ?cr"
  let ?dv = "fst (visitor_add 7 (DataVisitor_ctor 0 4, [])) :: nat DataVisitor"
  let ?s = "\<lambda>p dv c pc. \<lparr>ws_now = 0, ws_cr = c, ws_buffer = (dv, []), ws_proc = pc, ws_point = p,
     ws_notify = (\<lambda>_. N_idle)\<rparr> :: (nat loop_point, nat DataVisitor \<times> nat list) wake_sys"
  have o: "one_message_arrives = ?s L_start ?dv (CRoutine_ctor 0) P_idle"
    by (simp add: one_message_arrives_def wake_init_def visitor_add_def)
  obtain m dv' where f: "DataVisitor_TryFetch ?dv = (Some m, dv')"
    by (simp add: visitor_add_def DataVisitor_ctor_def CacheBuffer_ctor_def
        CacheBuffer_push_def CacheBuffer_Fill_def DataVisitor_TryFetch_def ChannelBuffer_Fetch_def
        cyber_defs u64_add_def u64_sub_def two64_def)
  have a1: "?S\<^sup>*\<^sup>* one_message_arrives (?s L_start ?dv ?cr P_run)"
    using UpdateState_steps [of one_message_arrives ?cr "message_loop True" visitor_add]
    by (simp add: o CRoutine_ctor_def CRoutine_UpdateState_def)
  have a2: "?S (?s L_start ?dv ?cr P_run) (?s L_fetch ?dv ?w P_run)"
    using run [of "?s L_start ?dv ?cr P_run" "message_loop True" L_fetch "(?dv, [])" ?w False visitor_add]
    by (simp add: loop_set)
  have a3: "?S (?s L_fetch ?dv ?w P_run) (?s (L_handle m) dv' ?w P_run)"
    using run [of "?s L_fetch ?dv ?w P_run" "message_loop True" "L_handle m" "(dv', [])" ?w False visitor_add]
    by (simp add: loop_fetch [OF f])
  have a4: "?S (?s (L_handle m) dv' ?w P_run) (?s (L_handle m) dv' ?w P_release)"
    using run [of "?s (L_handle m) dv' ?w P_run" "message_loop True" "L_handle m" "(dv', [])" ?w True visitor_add]
      handler_yield [of True 0 m "(dv', [])" ?w] by simp
  have a5: "?S (?s (L_handle m) dv' ?w P_release) (?s (L_handle m) dv' (CRoutine_Release ?w) P_idle)"
    using release [of "?s (L_handle m) dv' ?w P_release" "message_loop True" visitor_add] by simp
  have "?S\<^sup>*\<^sup>* (wake_init L_start (DataVisitor_ctor 0 4, [])) (?s (L_handle m) dv' (CRoutine_Release ?w) P_idle)"
    by (rule rtranclp.rtrancl_into_rtrancl [OF rtranclp.rtrancl_into_rtrancl
          [OF rtranclp.rtrancl_into_rtrancl [OF rtranclp.rtrancl_into_rtrancl
          [OF rtranclp_trans [OF one_message_arrives_reachable a1] a2] a3] a4] a5])
  then show ?thesis
    by - (rule exI [of _ "?s (L_handle m) dv' (CRoutine_Release ?w) P_idle"], rule exI [of _ m],
        simp add: CRoutine_UpdateState_def CRoutine_defs CRoutine_ctor_def)
qed

text \<open>
  The task manager's loop can lose a wake-up. \<open>Dequeue\<close> fails, then \<open>Enqueue\<close> and
  \<open>NotifyTask\<close> run to their end while the state is still \<open>READY\<close>, then \<open>HangUp\<close> suspends the
  routine: a reachable state has a queued task, no pending notification and a routine that
  \<open>UpdateState\<close> leaves in \<open>DATA_WAIT\<close> at every later time.
\<close>

theorem task_wakeup_lost:
  "\<exists>s. (wake_step task_loop task_add)\<^sup>*\<^sup>* (wake_init T_dequeue ([], [])) s \<and>
     fst (ws_buffer s) = [x] \<and> snd (ws_buffer s) = [] \<and> ws_proc s = P_idle \<and>
     ws_notify s = (\<lambda>_. N_idle) \<and> (\<forall>now. fst (CRoutine_UpdateState now (ws_cr s)) = DATA_WAIT)"
proof -
  let ?S = "wake_step task_loop (task_add :: 'a \<Rightarrow> _)"
  let ?i = "wake_init T_dequeue ([], []) :: ('a task_point, 'a list \<times> 'a list) wake_sys"
  let ?cr = "(CRoutine_ctor 0)\<lparr>cr_lock := True\<rparr>"
  let ?w = "CRoutine_set_state DATA_WAIT ?cr"
  let ?s = "\<lambda>p b c pc n. \<lparr>ws_now = 0, ws_cr = c, ws_buffer = (b, []), ws_proc = pc, ws_point = p,
     ws_notify = (\<lambda>_. N_idle)(0 := n)\<rparr> :: ('a task_point, 'a list \<times> 'a list) wake_sys"
  have a1: "?S\<^sup>*\<^sup>* ?i (?s T_dequeue [] ?cr P_run N_idle)"
    using UpdateState_steps [of ?i ?cr task_loop task_add]
    by (simp add: wake_init_def CRoutine_ctor_def CRoutine_UpdateState_def fun_upd_idem)
  have a2: "?S (?s T_dequeue [] ?cr P_run N_idle) (?s T_hang_up [] ?cr P_run N_idle)"
    using run [of "?s T_dequeue [] ?cr P_run N_idle" task_loop T_hang_up "([], [])" ?cr False task_add]
    by (simp add: task_empty)
  have a3: "?S (?s T_hang_up [] ?cr P_run N_idle) (?s T_hang_up [x] ?cr P_run N_read_data_wait)"
    using add_message [of "?s T_hang_up [] ?cr P_run N_idle" 0 task_loop task_add x]
    by (simp add: task_add_def)
  have a4: "?S (?s T_hang_up [x] ?cr P_run N_read_data_wait) (?s T_hang_up [x] ?cr P_run N_read_io_wait)"
    using read_data_wait [of "?s T_hang_up [x] ?cr P_run N_read_data_wait" 0 task_loop task_add]
    by (simp add: CRoutine_ctor_def)
  have a5: "?S (?s T_hang_up [x] ?cr P_run N_read_io_wait) (?s T_hang_up [x] ?cr P_run N_idle)"
    using read_io_wait [of "?s T_hang_up [x] ?cr P_run N_read_io_wait" 0 task_loop task_add]
    by (simp add: CRoutine_ctor_def)
  have a6: "?S (?s T_hang_up [x] ?cr P_run N_idle) (?s T_dequeue [x] ?w P_release N_idle)"
    using run [of "?s T_hang_up [x] ?cr P_run N_idle" task_loop T_dequeue "([x], [])" ?w True task_add]
      task_hang_up [of 0 "([x], [])" ?cr] by simp
  have a7: "?S (?s T_dequeue [x] ?w P_release N_idle)
      (?s T_dequeue [x] (CRoutine_Release ?w) P_idle N_idle)"
    using release [of "?s T_dequeue [x] ?w P_release N_idle" task_loop task_add] by simp
  have "?S\<^sup>*\<^sup>* ?i (?s T_dequeue [x] (CRoutine_Release ?w) P_idle N_idle)"
    by (rule rtranclp.rtrancl_into_rtrancl [OF rtranclp.rtrancl_into_rtrancl
          [OF rtranclp.rtrancl_into_rtrancl [OF rtranclp.rtrancl_into_rtrancl
          [OF rtranclp.rtrancl_into_rtrancl [OF rtranclp.rtrancl_into_rtrancl
          [OF a1 a2] a3] a4] a5] a6] a7])
  then show ?thesis
    by (rule exI [of _ "?s T_dequeue [x] (CRoutine_Release ?w) P_idle N_idle", OF conjI])
      (simp add: CRoutine_UpdateState_def CRoutine_defs CRoutine_ctor_def fun_upd_idem)
qed

end
