(* ===== verification/Global_Data.thy ===== *)
theory Global_Data
  imports Prelude "HOL-Library.Sublist"
begin

text \<open>
  \<open>cyber/common/global_data.{h,cc}\<close>: the identifiers of nodes, channels, services and tasks, the host
  address and the mode flags. Each of the four tables is an \<open>AtomicHashMap\<close>, here a finite map (the
  theory \<open>Hash_Map\<close> shows that it behaves as one). \<open>std::hash\<close> is the parameter \<open>hash\<close>. The locale
  \<open>name_registry\<close> holds what registration promises; all four tables are instances.
\<close>

section \<open>Definitions\<close>

datatype RunMode = MODE_REALITY | MODE_SIMULATION

datatype ClockMode = MODE_CYBER | MODE_MOCK

record GlobalData =
  gd_host_ip :: string
  gd_process_group :: string
  gd_component_nums :: int
  gd_sched_name :: string
  gd_run_mode :: RunMode
  gd_clock_mode :: ClockMode
  gd_node_id_map :: "nat \<rightharpoonup> string"
  gd_channel_id_map :: "nat \<rightharpoonup> string"
  gd_service_id_map :: "nat \<rightharpoonup> string"
  gd_task_id_map :: "nat \<rightharpoonup> string"

definition GlobalData_ctor :: "string \<Rightarrow> string \<Rightarrow> RunMode \<Rightarrow> ClockMode \<Rightarrow> GlobalData" where
  "GlobalData_ctor host_ip process_group run_mode clock_mode =
     \<lparr>gd_host_ip = host_ip, gd_process_group = process_group, gd_component_nums = 0,
      gd_sched_name = ''CYBER_DEFAULT'', gd_run_mode = run_mode, gd_clock_mode = clock_mode,
      gd_node_id_map = Map.empty, gd_channel_id_map = Map.empty, gd_service_id_map = Map.empty,
      gd_task_id_map = Map.empty\<rparr>"

definition GlobalData_EnableSimulationMode :: "GlobalData \<Rightarrow> GlobalData" where
  "GlobalData_EnableSimulationMode g = g\<lparr>gd_run_mode := MODE_SIMULATION\<rparr>"

definition GlobalData_DisableSimulationMode :: "GlobalData \<Rightarrow> GlobalData" where
  "GlobalData_DisableSimulationMode g = g\<lparr>gd_run_mode := MODE_REALITY\<rparr>"

definition GlobalData_IsRealityMode :: "GlobalData \<Rightarrow> bool" where
  "GlobalData_IsRealityMode g \<longleftrightarrow> gd_run_mode g = MODE_REALITY"

definition GlobalData_IsMockTimeMode :: "GlobalData \<Rightarrow> bool" where
  "GlobalData_IsMockTimeMode g \<longleftrightarrow> gd_clock_mode g = MODE_MOCK"

text \<open>
  \<open>InitHostInfo\<close>: the value of \<open>CYBER_IP\<close>, and the answer of \<open>getifaddrs\<close> with the numeric host of
  each address, absent where the address is null, not IPv4 or cannot be printed.
\<close>

fun first_non_loopback :: "string \<Rightarrow> string option list \<Rightarrow> string" where
  "first_non_loopback ip [] = ip"
| "first_non_loopback ip (None # addrs) = first_non_loopback ip addrs"
| "first_non_loopback ip (Some a # addrs) =
     (if take 3 a \<noteq> ''127'' then a else first_non_loopback ip addrs)"

definition InitHostInfo :: "string option \<Rightarrow> string option list option \<Rightarrow> string" where
  "InitHostInfo ip_env ifaddrs =
     (let host_ip = ''127.0.0.1'' in
      case ip_env of
        Some e \<Rightarrow>
          if take 3 e \<noteq> ''127'' then e
          else (case ifaddrs of None \<Rightarrow> host_ip | Some addrs \<Rightarrow> first_non_loopback host_ip addrs)
      | None \<Rightarrow>
          (case ifaddrs of None \<Rightarrow> host_ip | Some addrs \<Rightarrow> first_non_loopback host_ip addrs))"

definition GenerateHashId :: "(string \<Rightarrow> nat) \<Rightarrow> string \<Rightarrow> nat" where
  "GenerateHashId hash name = hash name"

text \<open>The search of the \<open>Register\<close> functions; it goes on while the identifier has another name.\<close>

partial_function (option) Register_loop :: "(nat \<rightharpoonup> string) \<Rightarrow> string \<Rightarrow> nat \<Rightarrow> nat option" where
  "Register_loop id_map name uid =
     (case id_map uid of
        None \<Rightarrow> Some uid
      | Some n \<Rightarrow> if name = n then Some uid else Register_loop id_map name (u64_add uid 1))"

definition RegisterNode :: "(string \<Rightarrow> nat) \<Rightarrow> string \<Rightarrow> GlobalData \<Rightarrow> (nat \<times> GlobalData) option" where
  "RegisterNode hash node_name g =
     (case Register_loop (gd_node_id_map g) node_name (hash node_name) of
        None \<Rightarrow> None
      | Some uid \<Rightarrow> Some (uid, g\<lparr>gd_node_id_map := (gd_node_id_map g)(uid \<mapsto> node_name)\<rparr>))"

definition RegisterChannel :: "(string \<Rightarrow> nat) \<Rightarrow> string \<Rightarrow> GlobalData \<Rightarrow> (nat \<times> GlobalData) option" where
  "RegisterChannel hash channel g =
     (case Register_loop (gd_channel_id_map g) channel (hash channel) of
        None \<Rightarrow> None
      | Some uid \<Rightarrow> Some (uid, g\<lparr>gd_channel_id_map := (gd_channel_id_map g)(uid \<mapsto> channel)\<rparr>))"

definition RegisterService :: "(string \<Rightarrow> nat) \<Rightarrow> string \<Rightarrow> GlobalData \<Rightarrow> (nat \<times> GlobalData) option" where
  "RegisterService hash service g =
     (case Register_loop (gd_service_id_map g) service (hash service) of
        None \<Rightarrow> None
      | Some uid \<Rightarrow> Some (uid, g\<lparr>gd_service_id_map := (gd_service_id_map g)(uid \<mapsto> service)\<rparr>))"

definition RegisterTaskName :: "(string \<Rightarrow> nat) \<Rightarrow> string \<Rightarrow> GlobalData \<Rightarrow> (nat \<times> GlobalData) option" where
  "RegisterTaskName hash task_name g =
     (case Register_loop (gd_task_id_map g) task_name (hash task_name) of
        None \<Rightarrow> None
      | Some uid \<Rightarrow> Some (uid, g\<lparr>gd_task_id_map := (gd_task_id_map g)(uid \<mapsto> task_name)\<rparr>))"

definition GetNodeById :: "nat \<Rightarrow> GlobalData \<Rightarrow> string" where
  "GetNodeById uid g = (case gd_node_id_map g uid of Some n \<Rightarrow> n | None \<Rightarrow> '''')"

definition GetChannelById :: "nat \<Rightarrow> GlobalData \<Rightarrow> string" where
  "GetChannelById uid g = (case gd_channel_id_map g uid of Some n \<Rightarrow> n | None \<Rightarrow> '''')"

definition GetServiceById :: "nat \<Rightarrow> GlobalData \<Rightarrow> string" where
  "GetServiceById uid g = (case gd_service_id_map g uid of Some n \<Rightarrow> n | None \<Rightarrow> '''')"

definition GetTaskNameById :: "nat \<Rightarrow> GlobalData \<Rightarrow> string" where
  "GetTaskNameById uid g = (case gd_task_id_map g uid of Some n \<Rightarrow> n | None \<Rightarrow> '''')"

section \<open>Laws of the search\<close>

lemmas Register_loop_induct = Register_loop.raw_induct [rotated, consumes 1, case_names step]

lemma Register_loop_Some:
  "Register_loop m name i = Some uid \<Longrightarrow> m uid = None \<or> m uid = Some name"
proof (induction rule: Register_loop_induct)
  case (step loop m name i uid)
  then show ?case by (auto split: option.splits if_splits)
qed

text \<open>Entries added elsewhere do not move a name once it has an identifier.\<close>

lemma Register_loop_stable:
  "Register_loop m name i = Some uid \<Longrightarrow> m \<subseteq>\<^sub>m m' \<Longrightarrow> m' uid = Some name \<Longrightarrow>
    Register_loop m' name i = Some uid"
proof (induction rule: Register_loop_induct)
  case (step loop m name i uid)
  show ?case
  proof (cases "m i")
    case None
    then have "i = uid" using step(2) by simp
    then show ?thesis using step by (subst Register_loop.simps) simp
  next
    case (Some n)
    then have "m' i = Some n" using \<open>m \<subseteq>\<^sub>m m'\<close> by (metis domI map_le_def)
    then show ?thesis using step Some by (subst Register_loop.simps) (auto split: if_splits)
  qed
qed

text \<open>The search returns when an identifier is free: it visits every residue.\<close>

lemma Register_loop_returns_after:
  assumes "m ((i + k) mod two64) = None" and "i < two64"
  shows "\<exists>uid. Register_loop m name i = Some uid"
  using assms
proof (induction k arbitrary: i)
  case 0
  then show ?case by (subst Register_loop.simps) simp
next
  case (Suc k)
  have "m ((u64_add i 1 + k) mod two64) = None"
    using Suc.prems(1) by (simp add: u64_add_def mod_add_left_eq)
  from Suc.IH [OF this u64_add_lt] show ?case
    by (subst Register_loop.simps) (auto split: option.split)
qed

lemma Register_loop_returns:
  assumes "m uid = None" and "uid < two64" and "i < two64"
  shows "\<exists>uid. Register_loop m name i = Some uid"
proof (rule Register_loop_returns_after [OF _ assms(3)])
  have "i + (two64 + uid - i) = two64 + uid" using assms by simp
  then show "m ((i + (two64 + uid - i)) mod two64) = None" using assms by simp
qed

section \<open>The contract of a registry\<close>

locale name_registry =
  fixes table :: "'g \<Rightarrow> nat \<rightharpoonup> string"
    and register :: "string \<Rightarrow> 'g \<Rightarrow> (nat \<times> 'g) option"
    and start :: "string \<Rightarrow> nat"
  assumes reg_id: "map_option fst (register name g) = Register_loop (table g) name (start name)"
    and reg_table: "register name g = Some (uid, g') \<Longrightarrow> table g' = (table g)(uid \<mapsto> name)"
begin

lemma reg_loop: "register name g = Some (uid, g') \<Longrightarrow> Register_loop (table g) name (start name) = Some uid"
  using reg_id [of name g] by simp

lemma reg_extends: "register name g = Some (uid, g') \<Longrightarrow> table g \<subseteq>\<^sub>m table g'"
  using Register_loop_Some [OF reg_loop] reg_table by (fastforce simp: map_le_def)

inductive registrations :: "'g \<Rightarrow> 'g \<Rightarrow> bool" where
  none: "registrations g g"
| more: "registrations g g' \<Longrightarrow> register name g' = Some (uid, g'') \<Longrightarrow> registrations g g''"

lemma registrations_extend: "registrations g g' \<Longrightarrow> table g \<subseteq>\<^sub>m table g'"
  by (induction rule: registrations.induct) (auto intro: map_le_trans reg_extends)

text \<open>A name keeps its identifier, and the identifier its name, whatever is registered later.\<close>

lemma registered_stable:
  assumes "register name g = Some (uid, g')" and "registrations g' g''"
  shows "table g'' uid = Some name \<and> map_option fst (register name g'') = Some uid"
proof -
  have le: "table g' \<subseteq>\<^sub>m table g''" by (rule registrations_extend [OF assms(2)])
  then have known: "table g'' uid = Some name"
    using reg_table [OF assms(1)] by (auto simp: map_le_def)
  moreover have "table g \<subseteq>\<^sub>m table g''"
    using reg_extends [OF assms(1)] le by (rule map_le_trans)
  ultimately show ?thesis
    using Register_loop_stable [OF reg_loop [OF assms(1)]] reg_id by simp
qed

lemma register_returns:
  assumes "table g uid = None" and "uid < two64" and "start name < two64"
  shows "\<exists>uid g'. register name g = Some (uid, g')"
  using Register_loop_returns [of "table g" uid "start name" name] assms reg_id [of name g] by auto

end

interpretation node_ids: name_registry gd_node_id_map "RegisterNode hash" hash for hash
  by unfold_locales (auto simp: RegisterNode_def split: option.splits)

interpretation channel_ids: name_registry gd_channel_id_map "RegisterChannel hash" hash for hash
  by unfold_locales (auto simp: RegisterChannel_def split: option.splits)

interpretation service_ids: name_registry gd_service_id_map "RegisterService hash" hash for hash
  by unfold_locales (auto simp: RegisterService_def split: option.splits)

interpretation task_ids: name_registry gd_task_id_map "RegisterTaskName hash" hash for hash
  by unfold_locales (auto simp: RegisterTaskName_def split: option.splits)

section \<open>Claims\<close>

text \<open>
  Task identifiers. If some identifier is free, \<open>RegisterTaskName\<close> returns; after any later
  registrations its identifier still reads back as the name, and registering the name again returns the same
  identifier. Two names never share one.
\<close>

theorem RegisterTaskName_roundtrip:
  assumes "gd_task_id_map g free = None" and "free < two64" and "hash name < two64"
  shows "\<exists>uid g'. RegisterTaskName hash name g = Some (uid, g') \<and>
    (\<forall>g''. task_ids.registrations hash g' g'' \<longrightarrow>
       GetTaskNameById uid g'' = name \<and> map_option fst (RegisterTaskName hash name g'') = Some uid \<and>
       (\<forall>other g3. other \<noteq> name \<longrightarrow> RegisterTaskName hash other g'' \<noteq> Some (uid, g3)))"
proof -
  obtain uid g' where r: "RegisterTaskName hash name g = Some (uid, g')"
    using task_ids.register_returns [OF assms(1,2), of hash name] assms(3) by auto
  have "GetTaskNameById uid g'' = name \<and> map_option fst (RegisterTaskName hash name g'') = Some uid \<and>
      (\<forall>other g3. other \<noteq> name \<longrightarrow> RegisterTaskName hash other g'' \<noteq> Some (uid, g3))"
    if "task_ids.registrations hash g' g''" for g''
    using task_ids.registered_stable [OF r that] Register_loop_Some [OF task_ids.reg_loop]
    by (fastforce simp: GetTaskNameById_def)
  with r show ?thesis by blast
qed

text \<open>Two names with the same hash, as the search of the registry handles them.\<close>

definition colliding_hash :: "string \<Rightarrow> nat" where
  "colliding_hash name = 5"

theorem RegisterTaskName_roundtrip_witness:
  "\<exists>uid g'. RegisterTaskName colliding_hash ''b''
      ((GlobalData_ctor ''10.0.0.1'' ''grp'' MODE_REALITY MODE_CYBER)\<lparr>gd_task_id_map := [5 \<mapsto> ''a'']\<rparr>) =
      Some (uid, g') \<and> GetTaskNameById uid g' = ''b''"
  using RegisterTaskName_roundtrip [of "(GlobalData_ctor ''10.0.0.1'' ''grp'' MODE_REALITY MODE_CYBER)
      \<lparr>gd_task_id_map := [5 \<mapsto> ''a'']\<rparr>" 0 colliding_hash "''b''"]
  by (auto simp: colliding_hash_def two64_def intro: task_ids.registrations.none)

text \<open>The chosen host address is a loopback address only when no other one was offered.\<close>

lemma InitHostInfo_not_loopback:
  assumes "take 3 (InitHostInfo ip_env ifaddrs) = ''127''"
  shows "(\<forall>e. ip_env = Some e \<longrightarrow> take 3 e = ''127'') \<and>
    (\<forall>addrs a. ifaddrs = Some addrs \<longrightarrow> Some a \<in> set addrs \<longrightarrow> take 3 a = ''127'')"
proof -
  have "take 3 a = ''127''" if "take 3 (first_non_loopback ip addrs) = ''127''" "Some a \<in> set addrs"
    for ip addrs a
    using that by (induction ip addrs rule: first_non_loopback.induct) (auto split: if_splits)
  then show ?thesis
    using assms by (auto simp: InitHostInfo_def Let_def split: option.splits if_splits)
qed

end
