(* ===== verification/Task_Scheduler.thy ===== *)
theory Task_Scheduler
  imports Routine Global_Data
begin

text \<open>
  \<open>cyber/scheduler\<close>: the two processor contexts, the processor loop, and the schedulers
  \<open>SchedulerClassic\<close> and \<open>SchedulerChoreography\<close>. Routines live on a heap, the queues hold their
  addresses. Both schedulers extend the record \<open>Scheduler\<close> of the base class; the static members of
  \<open>ClassicContext\<close> are part of it. Thread affinity and priorities are system calls and left out.
  The locale \<open>priority_context\<close> is the contract of \<open>NextRoutine\<close>, interpreted on both contexts.
\<close>

section \<open>State\<close>

definition MAX_PRIO :: nat where
  "MAX_PRIO = 20"

definition DEFAULT_GROUP_NAME :: string where
  "DEFAULT_GROUP_NAME = ''default_grp''"

type_synonym cr_heap = "nat \<Rightarrow> CRoutine"

text \<open>
  A context of the pool names its group. The queue of a \<open>ChoreographyContext\<close> is a multimap with
  the greatest key first, equal keys in the order of insertion.
\<close>

datatype ProcessorContext =
  ClassicContext (ctx_stop: bool) (ctx_group: string)
| ChoreographyContext (ctx_stop: bool) (ctx_notify: int) (ctx_queue: "(nat \<times> nat) list")

record Scheduler =
  sd_stop :: bool
  sd_global :: GlobalData
  sd_id_cr :: "nat \<rightharpoonup> nat"
  sd_heap :: cr_heap
  sd_fresh :: nat
  sd_proc_num :: nat
  sd_task_pool_size :: nat
  sd_pctxs :: "ProcessorContext list"
  sd_cr_group :: "string \<Rightarrow> nat \<Rightarrow> nat list"
  sd_notify_grp :: "string \<Rightarrow> int"

text \<open>Configured tasks: priority and group, or priority and processor.\<close>

record SchedulerClassic = Scheduler +
  sc_cr_confs :: "string \<rightharpoonup> nat \<times> string"
  sc_groups :: "(string \<times> nat) list"

record SchedulerChoreography = Scheduler +
  sy_cr_confs :: "string \<rightharpoonup> nat \<times> int option"

text \<open>An operation returns, spins on a flag that another thread holds, or throws.\<close>

datatype 'a outcome = Returned 'a | Spinning | Threw

definition sd_update :: "nat \<Rightarrow> (CRoutine \<Rightarrow> CRoutine) \<Rightarrow> 'z Scheduler_scheme \<Rightarrow> 'z Scheduler_scheme" where
  "sd_update a f sd = sd\<lparr>sd_heap := (sd_heap sd)(a := f (sd_heap sd a))\<rparr>"

section \<open>Contexts\<close>

text \<open>The body of both \<open>NextRoutine\<close> loops over one queue.\<close>

fun try_next :: "int \<Rightarrow> nat list \<Rightarrow> cr_heap \<Rightarrow> nat option \<times> cr_heap" where
  "try_next now [] h = (None, h)"
| "try_next now (a # queue) h =
     (case CRoutine_Acquire (h a) of
        (False, cr) \<Rightarrow> try_next now queue (h(a := cr))
      | (True, cr) \<Rightarrow>
          (case CRoutine_UpdateState now cr of (st, cr') \<Rightarrow>
             if st = READY then (Some a, h(a := cr'))
             else try_next now queue (h(a := CRoutine_Release cr'))))"

fun classic_scan :: "int \<Rightarrow> nat \<Rightarrow> (nat \<Rightarrow> nat list) \<Rightarrow> cr_heap \<Rightarrow> nat option \<times> cr_heap" where
  "classic_scan now 0 rq h = (None, h)"
| "classic_scan now (Suc i) rq h =
     (case try_next now (rq i) h of
        (Some a, h') \<Rightarrow> (Some a, h')
      | (None, h') \<Rightarrow> classic_scan now i rq h')"

definition ClassicContext_NextRoutine ::
    "int \<Rightarrow> bool \<Rightarrow> (nat \<Rightarrow> nat list) \<Rightarrow> cr_heap \<Rightarrow> nat option \<times> cr_heap" where
  "ClassicContext_NextRoutine now stop rq h =
     (if stop then (None, h) else classic_scan now MAX_PRIO rq h)"

definition ChoreographyContext_NextRoutine ::
    "int \<Rightarrow> bool \<Rightarrow> (nat \<times> nat) list \<Rightarrow> cr_heap \<Rightarrow> nat option \<times> cr_heap" where
  "ChoreographyContext_NextRoutine now stop queue h =
     (if stop then (None, h) else try_next now (map snd queue) h)"

definition NextRoutine :: "int \<Rightarrow> nat \<Rightarrow> 'z Scheduler_scheme \<Rightarrow> nat option \<times> 'z Scheduler_scheme" where
  "NextRoutine now c sd =
     (case (case sd_pctxs sd ! c of
              ClassicContext stop grp \<Rightarrow> ClassicContext_NextRoutine now stop (sd_cr_group sd grp) (sd_heap sd)
            | ChoreographyContext stop n queue \<Rightarrow> ChoreographyContext_NextRoutine now stop queue (sd_heap sd))
      of (r, h) \<Rightarrow> (r, sd\<lparr>sd_heap := h\<rparr>))"

text \<open>\<open>multimap::emplace\<close> with \<open>std::greater\<close>: behind the last entry with a key at least as great.\<close>

fun multimap_emplace :: "nat \<Rightarrow> 'a \<Rightarrow> (nat \<times> 'a) list \<Rightarrow> (nat \<times> 'a) list" where
  "multimap_emplace k v [] = [(k, v)]"
| "multimap_emplace k v ((k', v') # m) =
     (if k' < k then (k, v) # (k', v') # m else (k', v') # multimap_emplace k v m)"

definition ChoreographyContext_Enqueue :: "nat \<Rightarrow> nat \<Rightarrow> 'z Scheduler_scheme \<Rightarrow> 'z Scheduler_scheme" where
  "ChoreographyContext_Enqueue c a sd =
     (case sd_pctxs sd ! c of
        ChoreographyContext stop n queue \<Rightarrow>
          sd\<lparr>sd_pctxs := (sd_pctxs sd)
               [c := ChoreographyContext stop n (multimap_emplace (cr_priority (sd_heap sd a)) a queue)]\<rparr>
      | ClassicContext stop grp \<Rightarrow> sd)"

definition ClassicContext_Notify :: "string \<Rightarrow> 'z Scheduler_scheme \<Rightarrow> 'z Scheduler_scheme" where
  "ClassicContext_Notify grp sd =
     sd\<lparr>sd_notify_grp := (sd_notify_grp sd)(grp := sd_notify_grp sd grp + 1)\<rparr>"

fun ChoreographyContext_Notify :: "ProcessorContext \<Rightarrow> ProcessorContext" where
  "ChoreographyContext_Notify (ChoreographyContext stop n queue) = ChoreographyContext stop (n + 1) queue"
| "ChoreographyContext_Notify (ClassicContext stop grp) = ClassicContext stop grp"

text \<open>\<open>Wait\<close> returns on a notification or after a second; a counted notification is consumed.\<close>

definition Wait_count :: "int \<Rightarrow> int" where
  "Wait_count n = (if n > 0 then n - 1 else n)"

definition ProcessorContext_Wait :: "nat \<Rightarrow> 'z Scheduler_scheme \<Rightarrow> 'z Scheduler_scheme" where
  "ProcessorContext_Wait c sd =
     (case sd_pctxs sd ! c of
        ClassicContext stop grp \<Rightarrow>
          sd\<lparr>sd_notify_grp := (sd_notify_grp sd)(grp := Wait_count (sd_notify_grp sd grp))\<rparr>
      | ChoreographyContext stop n queue \<Rightarrow>
          sd\<lparr>sd_pctxs := (sd_pctxs sd)[c := ChoreographyContext stop (Wait_count n) queue]\<rparr>)"

definition ProcessorContext_Shutdown :: "nat \<Rightarrow> 'z Scheduler_scheme \<Rightarrow> 'z Scheduler_scheme" where
  "ProcessorContext_Shutdown c sd =
     (case sd_pctxs sd ! c of
        ClassicContext stop grp \<Rightarrow>
          sd\<lparr>sd_pctxs := (sd_pctxs sd)[c := ClassicContext True grp],
             sd_notify_grp := (sd_notify_grp sd)(grp := 255)\<rparr>
      | ChoreographyContext stop n queue \<Rightarrow>
          sd\<lparr>sd_pctxs := (sd_pctxs sd)[c := ChoreographyContext True 255 queue]\<rparr>)"

text \<open>
  Removal from a queue: the first routine with the identifier is stopped, acquired (the loop
  spins while a processor runs it), erased and released.
\<close>

definition find_crid :: "nat \<Rightarrow> cr_heap \<Rightarrow> nat list \<Rightarrow> nat option" where
  "find_crid crid h queue = List.find (\<lambda>b. cr_id (h b) = crid) queue"

definition ClassicContext_RemoveCRoutine ::
    "nat \<Rightarrow> 'z Scheduler_scheme \<Rightarrow> bool outcome \<times> 'z Scheduler_scheme" where
  "ClassicContext_RemoveCRoutine a sd =
     (let cr = sd_heap sd a; grp = cr_group_name cr; prio = cr_priority cr; crid = cr_id cr in
      if \<not> prio < MAX_PRIO then (Threw, sd)
      else
        case find_crid crid (sd_heap sd) (sd_cr_group sd grp prio) of
          None \<Rightarrow> (Returned False, sd)
        | Some b \<Rightarrow>
            let sd = sd_update b CRoutine_Stop sd in
            case CRoutine_Acquire (sd_heap sd b) of
              (False, _) \<Rightarrow> (Spinning, sd)
            | (True, cr') \<Rightarrow>
                (Returned True,
                 (sd_update b (\<lambda>_. CRoutine_Release cr') sd)
                   \<lparr>sd_cr_group := (sd_cr_group sd)
                      (grp := (sd_cr_group sd grp)(prio := remove1 b (sd_cr_group sd grp prio)))\<rparr>))"

definition ChoreographyContext_RemoveCRoutine ::
    "nat \<Rightarrow> nat \<Rightarrow> 'z Scheduler_scheme \<Rightarrow> bool outcome \<times> 'z Scheduler_scheme" where
  "ChoreographyContext_RemoveCRoutine c crid sd =
     (case sd_pctxs sd ! c of
        ClassicContext stop grp \<Rightarrow> (Returned False, sd)
      | ChoreographyContext stop n queue \<Rightarrow>
          (case List.find (\<lambda>e. cr_id (sd_heap sd (snd e)) = crid) queue of
             None \<Rightarrow> (Returned False, sd)
           | Some e \<Rightarrow>
               let b = snd e; sd = sd_update b CRoutine_Stop sd in
               case CRoutine_Acquire (sd_heap sd b) of
                 (False, _) \<Rightarrow> (Spinning, sd)
               | (True, cr') \<Rightarrow>
                   (Returned True,
                    (sd_update b (\<lambda>_. CRoutine_Release cr') sd)
                      \<lparr>sd_pctxs := (sd_pctxs sd)[c := ChoreographyContext stop n (remove1 e queue)]\<rparr>)))"

section \<open>Schedulers\<close>

text \<open>The cast of a processor identifier to \<open>uint32_t\<close>.\<close>

definition to_uint32 :: "int \<Rightarrow> nat" where
  "to_uint32 i = nat (i mod 2 ^ 32)"

text \<open>The scheduling attributes of a task, from the configuration or the first group.\<close>

definition SchedulerClassic_assign :: "SchedulerClassic \<Rightarrow> CRoutine \<Rightarrow> CRoutine option" where
  "SchedulerClassic_assign sd cr =
     (case sc_cr_confs sd (cr_name cr) of
        Some (prio, grp) \<Rightarrow> Some (cr\<lparr>cr_priority := prio, cr_group_name := grp\<rparr>)
      | None \<Rightarrow>
          (case sc_groups sd of [] \<Rightarrow> None | (grp, _) # _ \<Rightarrow> Some (cr\<lparr>cr_group_name := grp\<rparr>)))"

definition clamp_priority :: "CRoutine \<Rightarrow> CRoutine" where
  "clamp_priority cr = (if MAX_PRIO \<le> cr_priority cr then cr\<lparr>cr_priority := MAX_PRIO - 1\<rparr> else cr)"

definition pool_append :: "string \<Rightarrow> nat \<Rightarrow> nat \<Rightarrow> 'z Scheduler_scheme \<Rightarrow> 'z Scheduler_scheme" where
  "pool_append grp prio a sd =
     sd\<lparr>sd_cr_group := (sd_cr_group sd)(grp := (sd_cr_group sd grp)(prio := sd_cr_group sd grp prio @ [a]))\<rparr>"

definition SchedulerClassic_DispatchTask ::
    "nat \<Rightarrow> SchedulerClassic \<Rightarrow> bool outcome \<times> SchedulerClassic" where
  "SchedulerClassic_DispatchTask a sd =
     (let cr = sd_heap sd a in
      if sd_id_cr sd (cr_id cr) \<noteq> None then (Returned False, sd)
      else
        let sd = sd\<lparr>sd_id_cr := (sd_id_cr sd)(cr_id cr \<mapsto> a)\<rparr> in
        case SchedulerClassic_assign sd cr of
          None \<Rightarrow> (Threw, sd)
        | Some cr \<Rightarrow>
            let cr = clamp_priority cr; grp = cr_group_name cr in
            (Returned True,
             ClassicContext_Notify grp
               (pool_append grp (cr_priority cr) a (sd_update a (\<lambda>_. cr) sd))))"

definition SchedulerChoreography_assign :: "SchedulerChoreography \<Rightarrow> CRoutine \<Rightarrow> CRoutine" where
  "SchedulerChoreography_assign sd cr =
     (case sy_cr_confs sd (cr_name cr) of
        Some (prio, Some p) \<Rightarrow> cr\<lparr>cr_priority := prio, cr_processor_id := p\<rparr>
      | Some (prio, None) \<Rightarrow> cr\<lparr>cr_priority := prio\<rparr>
      | None \<Rightarrow> cr)"

definition SchedulerChoreography_DispatchTask ::
    "nat \<Rightarrow> SchedulerChoreography \<Rightarrow> bool outcome \<times> SchedulerChoreography" where
  "SchedulerChoreography_DispatchTask a sd =
     (let cr = sd_heap sd a;
        cr = SchedulerChoreography_assign sd cr;
        sd = sd_update a (\<lambda>_. cr) sd
      in
      if sd_id_cr sd (cr_id cr) \<noteq> None then (Returned False, sd)
      else
        let sd = sd\<lparr>sd_id_cr := (sd_id_cr sd)(cr_id cr \<mapsto> a)\<rparr>; pid = to_uint32 (cr_processor_id cr) in
        if pid < sd_proc_num sd then (Returned True, ChoreographyContext_Enqueue pid a sd)
        else
          let cr = (clamp_priority cr)\<lparr>cr_group_name := DEFAULT_GROUP_NAME\<rparr> in
          (Returned True,
           pool_append DEFAULT_GROUP_NAME (cr_priority cr) a (sd_update a (\<lambda>_. cr) sd)))"

definition flag_waiting :: "CRoutine \<Rightarrow> CRoutine" where
  "flag_waiting cr =
     (if cr_state cr = DATA_WAIT \<or> cr_state cr = IO_WAIT then CRoutine_SetUpdateFlag cr else cr)"

definition SchedulerClassic_NotifyProcessor ::
    "nat \<Rightarrow> 'z Scheduler_scheme \<Rightarrow> bool \<times> 'z Scheduler_scheme" where
  "SchedulerClassic_NotifyProcessor crid sd =
     (if sd_stop sd then (True, sd)
      else
        case sd_id_cr sd crid of
          Some a \<Rightarrow>
            let sd = sd_update a flag_waiting sd
            in (True, ClassicContext_Notify (cr_group_name (sd_heap sd a)) sd)
        | None \<Rightarrow> (False, sd))"

definition SchedulerChoreography_NotifyProcessor ::
    "nat \<Rightarrow> 'z Scheduler_scheme \<Rightarrow> bool \<times> 'z Scheduler_scheme" where
  "SchedulerChoreography_NotifyProcessor crid sd =
     (if sd_stop sd then (True, sd)
      else
        case sd_id_cr sd crid of
          Some a \<Rightarrow>
            let sd = sd_update a flag_waiting sd; pid = to_uint32 (cr_processor_id (sd_heap sd a)) in
            (True,
             if pid < sd_proc_num sd
             then sd\<lparr>sd_pctxs := (sd_pctxs sd)[pid := ChoreographyContext_Notify (sd_pctxs sd ! pid)]\<rparr>
             else ClassicContext_Notify (cr_group_name (sd_heap sd a)) sd)
        | None \<Rightarrow> (False, sd))"

definition SchedulerClassic_RemoveCRoutine ::
    "nat \<Rightarrow> 'z Scheduler_scheme \<Rightarrow> bool outcome \<times> 'z Scheduler_scheme" where
  "SchedulerClassic_RemoveCRoutine crid sd =
     (case sd_id_cr sd crid of
        None \<Rightarrow> (Returned False, sd)
      | Some a \<Rightarrow>
          ClassicContext_RemoveCRoutine a
            ((sd_update a CRoutine_Stop sd)\<lparr>sd_id_cr := (sd_id_cr sd)(crid := None)\<rparr>))"

definition SchedulerChoreography_RemoveCRoutine ::
    "nat \<Rightarrow> 'z Scheduler_scheme \<Rightarrow> bool outcome \<times> 'z Scheduler_scheme" where
  "SchedulerChoreography_RemoveCRoutine crid sd =
     (case sd_id_cr sd crid of
        None \<Rightarrow> (Returned False, sd)
      | Some a \<Rightarrow>
          let pid = to_uint32 (cr_processor_id (sd_heap sd a));
            sd = (sd_update a CRoutine_Stop sd)\<lparr>sd_id_cr := (sd_id_cr sd)(crid := None)\<rparr>
          in
          if pid < sd_proc_num sd then ChoreographyContext_RemoveCRoutine pid crid sd
          else ClassicContext_RemoveCRoutine a sd)"

text \<open>\<open>RemoveTask\<close> of both classes, over the class's \<open>RemoveCRoutine\<close>.\<close>

definition RemoveTask ::
    "(nat \<Rightarrow> 'z Scheduler_scheme \<Rightarrow> bool outcome \<times> 'z Scheduler_scheme) \<Rightarrow> (string \<Rightarrow> nat) \<Rightarrow> string \<Rightarrow>
       'z Scheduler_scheme \<Rightarrow> bool outcome \<times> 'z Scheduler_scheme" where
  "RemoveTask remove hash name sd =
     (if sd_stop sd then (Returned True, sd) else remove (GenerateHashId hash name) sd)"

definition NotifyTask ::
    "(nat \<Rightarrow> 'z Scheduler_scheme \<Rightarrow> bool \<times> 'z Scheduler_scheme) \<Rightarrow> nat \<Rightarrow>
       'z Scheduler_scheme \<Rightarrow> bool \<times> 'z Scheduler_scheme" where
  "NotifyTask notify crid sd = (if sd_stop sd then (True, sd) else notify crid sd)"

text \<open>
  \<open>CreateTask\<close> returns the flag and, when there is a visitor, the identifier its callback
  notifies. It does not return when \<open>RegisterTaskName\<close> does not.
\<close>

definition CreateTask ::
    "(nat \<Rightarrow> 'z Scheduler_scheme \<Rightarrow> bool outcome \<times> 'z Scheduler_scheme) \<Rightarrow> (string \<Rightarrow> nat) \<Rightarrow> int \<Rightarrow>
       string \<Rightarrow> bool \<Rightarrow> 'z Scheduler_scheme \<Rightarrow> ((bool \<times> nat option) outcome \<times> 'z Scheduler_scheme) option" where
  "CreateTask dispatch hash now name visitor sd =
     (if sd_stop sd then Some (Returned (False, None), sd)
      else
        case RegisterTaskName hash name (sd_global sd) of
          None \<Rightarrow> None
        | Some (task_id, g) \<Rightarrow>
            let a = sd_fresh sd;
              cr = (CRoutine_ctor now)\<lparr>cr_id := task_id, cr_name := name\<rparr>;
              sd = sd_update a (\<lambda>_. cr) (sd\<lparr>sd_global := g, sd_fresh := Suc a\<rparr>)
            in Some
              (case dispatch a sd of
                 (Returned True, sd) \<Rightarrow> (Returned (True, if visitor then Some task_id else None), sd)
               | (Returned False, sd) \<Rightarrow> (Returned (False, None), sd)
               | (Spinning, sd) \<Rightarrow> (Spinning, sd)
               | (Threw, sd) \<Rightarrow> (Threw, sd)))"

text \<open>\<open>Shutdown\<close> up to the removal of the routines; \<open>cr_list\<close> is the order in which \<open>id_cr_\<close> is read.\<close>

definition Shutdown_contexts :: "'z Scheduler_scheme \<Rightarrow> 'z Scheduler_scheme" where
  "Shutdown_contexts sd = fold ProcessorContext_Shutdown [0..<length (sd_pctxs sd)] sd"

fun Shutdown_remove ::
    "(nat \<Rightarrow> 'z Scheduler_scheme \<Rightarrow> bool outcome \<times> 'z Scheduler_scheme) \<Rightarrow> nat list \<Rightarrow>
       'z Scheduler_scheme \<Rightarrow> bool outcome \<times> 'z Scheduler_scheme" where
  "Shutdown_remove remove [] sd = (Returned True, sd)"
| "Shutdown_remove remove (crid # cr_list) sd =
     (case remove crid sd of
        (Returned _, sd') \<Rightarrow> Shutdown_remove remove cr_list sd'
      | (Spinning, sd') \<Rightarrow> (Spinning, sd')
      | (Threw, sd') \<Rightarrow> (Threw, sd'))"

definition Scheduler_Shutdown ::
    "(nat \<Rightarrow> 'z Scheduler_scheme \<Rightarrow> bool outcome \<times> 'z Scheduler_scheme) \<Rightarrow> nat list \<Rightarrow>
       'z Scheduler_scheme \<Rightarrow> bool outcome \<times> 'z Scheduler_scheme" where
  "Scheduler_Shutdown remove cr_list sd =
     (if sd_stop sd then (Returned True, sd)
      else
        case Shutdown_remove remove cr_list (Shutdown_contexts (sd\<lparr>sd_stop := True\<rparr>)) of
          (Returned _, sd) \<Rightarrow> (Returned True, sd\<lparr>sd_pctxs := []\<rparr>)
        | r \<Rightarrow> r)"

text \<open>
  The constructors: \<open>conf\<close> is the configuration file when it exists and parses, \<open>default_num\<close> the
  \<open>default_proc_num\<close> of the global configuration when it is set.
\<close>

record SchedGroup =
  sg_name :: string
  sg_processor_num :: nat
  sg_tasks :: "(string \<times> nat) list"

definition Scheduler_base :: "GlobalData \<Rightarrow> Scheduler" where
  "Scheduler_base g =
     \<lparr>sd_stop = False, sd_global = g, sd_id_cr = Map.empty, sd_heap = (\<lambda>_. CRoutine_ctor 0),
      sd_fresh = 0, sd_proc_num = 0, sd_task_pool_size = 0, sd_pctxs = [],
      sd_cr_group = (\<lambda>_ _. []), sd_notify_grp = (\<lambda>_. 0)\<rparr>"

definition ClassicContext_InitGroup :: "string \<Rightarrow> 'z Scheduler_scheme \<Rightarrow> 'z Scheduler_scheme" where
  "ClassicContext_InitGroup grp sd =
     sd\<lparr>sd_pctxs := sd_pctxs sd @ [ClassicContext False grp],
        sd_notify_grp := (sd_notify_grp sd)(grp := 0)\<rparr>"

definition SchedulerClassic_create_group :: "string \<times> nat \<Rightarrow> SchedulerClassic \<Rightarrow> SchedulerClassic" where
  "SchedulerClassic_create_group = (\<lambda>(grp, proc_num) sd.
     (ClassicContext_InitGroup grp ^^ proc_num)
       (if sd_task_pool_size sd = 0 then sd\<lparr>sd_task_pool_size := proc_num\<rparr> else sd))"

definition SchedulerClassic_CreateProcessor :: "SchedulerClassic \<Rightarrow> SchedulerClassic" where
  "SchedulerClassic_CreateProcessor sd = fold SchedulerClassic_create_group (sc_groups sd) sd"

definition SchedulerClassic_ctor ::
    "GlobalData \<Rightarrow> SchedGroup list option \<Rightarrow> nat option \<Rightarrow> SchedulerClassic" where
  "SchedulerClassic_ctor g conf default_num =
     SchedulerClassic_CreateProcessor
       (case conf of
          Some groups \<Rightarrow>
            Scheduler.extend (Scheduler_base g)
              (SchedulerClassic.fields
                 (map_of (rev (concat (map (\<lambda>gr. map (\<lambda>(n, p). (n, p, sg_name gr)) (sg_tasks gr)) groups))))
                 (map (\<lambda>gr. (sg_name gr, sg_processor_num gr)) groups))
        | None \<Rightarrow>
            let proc_num = (case default_num of Some n \<Rightarrow> n | None \<Rightarrow> 2) in
            Scheduler.extend ((Scheduler_base g)\<lparr>sd_task_pool_size := proc_num\<rparr>)
              (SchedulerClassic.fields Map.empty [(DEFAULT_GROUP_NAME, proc_num)]))"

definition SchedulerChoreography_CreateProcessor :: "SchedulerChoreography \<Rightarrow> SchedulerChoreography" where
  "SchedulerChoreography_CreateProcessor sd =
     (ClassicContext_InitGroup DEFAULT_GROUP_NAME ^^ sd_task_pool_size sd)
       (sd\<lparr>sd_pctxs := sd_pctxs sd @ replicate (sd_proc_num sd) (ChoreographyContext False 0 [])\<rparr>)"

record ChoreographyConf =
  cc_choreography_processor_num :: nat
  cc_pool_processor_num :: nat
  cc_tasks :: "(string \<times> nat \<times> int option) list"

definition SchedulerChoreography_ctor ::
    "GlobalData \<Rightarrow> ChoreographyConf option \<Rightarrow> nat option \<Rightarrow> SchedulerChoreography" where
  "SchedulerChoreography_ctor g conf default_num =
     (let
        (proc_num, pool, confs) =
          (case conf of
             Some c \<Rightarrow> (cc_choreography_processor_num c, cc_pool_processor_num c, map_of (rev (cc_tasks c)))
           | None \<Rightarrow> (0, 0, Map.empty));
        (proc_num, pool) =
          (if proc_num = 0
           then let n = (case default_num of Some n \<Rightarrow> n | None \<Rightarrow> 2) in (n, n)
           else (proc_num, pool))
      in SchedulerChoreography_CreateProcessor
           (Scheduler.extend ((Scheduler_base g)\<lparr>sd_proc_num := proc_num, sd_task_pool_size := pool\<rparr>)
              (SchedulerChoreography.fields confs)))"

section \<open>Laws of NextRoutine\<close>

text \<open>A processor may run the routine now: nobody holds it and \<open>UpdateState\<close> makes it ready.\<close>

definition runnable :: "int \<Rightarrow> CRoutine \<Rightarrow> bool" where
  "runnable now cr \<longleftrightarrow> \<not> cr_lock cr \<and> fst (CRoutine_UpdateState now cr) = READY"

text \<open>What a scan may change of a routine it does not take: the update flag.\<close>

definition scanned :: "CRoutine \<Rightarrow> CRoutine \<Rightarrow> bool" where
  "scanned cr cr' \<longleftrightarrow> cr' = cr \<or> cr' = cr\<lparr>cr_updated := True\<rparr>"

definition taken :: "int \<Rightarrow> CRoutine \<Rightarrow> CRoutine" where
  "taken now cr = (snd (CRoutine_UpdateState now cr))\<lparr>cr_lock := True\<rparr>"

lemma taken_frame [simp]:
  "cr_id (taken now cr) = cr_id cr" "cr_name (taken now cr) = cr_name cr"
  "cr_priority (taken now cr) = cr_priority cr" "cr_group_name (taken now cr) = cr_group_name cr"
  "cr_processor_id (taken now cr) = cr_processor_id cr" "cr_lock (taken now cr)"
  "cr_force_stop (taken now cr) = cr_force_stop cr"
  by (simp_all add: taken_def)

lemma taken_READY: "runnable now cr \<Longrightarrow> cr_state (taken now cr) = READY"
  by (simp add: taken_def runnable_def UpdateState_fst)

lemma scanned_frame:
  assumes "scanned cr cr'"
  shows "cr_id cr' = cr_id cr" "cr_priority cr' = cr_priority cr" "cr_group_name cr' = cr_group_name cr"
    "cr_processor_id cr' = cr_processor_id cr" "cr_lock cr' = cr_lock cr" "cr_state cr' = cr_state cr"
    "cr_force_stop cr' = cr_force_stop cr"
  using assms by (auto simp: scanned_def)

lemma UpdateState_lock:
  "CRoutine_UpdateState now (cr\<lparr>cr_lock := l\<rparr>) =
     (fst (CRoutine_UpdateState now cr), (snd (CRoutine_UpdateState now cr))\<lparr>cr_lock := l\<rparr>)"
  by (cases cr) (simp add: CRoutine_UpdateState_def Let_def)

lemma UpdateState_not_ready:
  "fst (CRoutine_UpdateState now cr) \<noteq> READY \<Longrightarrow> snd (CRoutine_UpdateState now cr) = cr\<lparr>cr_updated := True\<rparr>"
  by (auto simp: CRoutine_UpdateState_def Let_def split: if_splits)

lemma set_lock_same: "cr_lock cr = l \<Longrightarrow> cr\<lparr>cr_lock := l\<rparr> = cr"
  by (cases cr) simp

lemma not_runnable_released:
  assumes "\<not> cr_lock cr" and "\<not> runnable now cr"
  shows "scanned cr (CRoutine_Release (snd (CRoutine_UpdateState now (cr\<lparr>cr_lock := True\<rparr>))))"
  using assms set_lock_same [of "cr\<lparr>cr_updated := True\<rparr>" False]
  by (simp add: runnable_def scanned_def UpdateState_lock UpdateState_not_ready CRoutine_Release_def)

text \<open>One step of the scan, by what it finds.\<close>

lemma try_next_Cons:
  "try_next now (a # queue) h =
     (if runnable now (h a) then (Some a, h(a := taken now (h a)))
      else try_next now queue (h(a := if cr_lock (h a) then h a
        else CRoutine_Release (snd (CRoutine_UpdateState now ((h a)\<lparr>cr_lock := True\<rparr>))))))"
  by (auto simp: runnable_def taken_def CRoutine_Acquire_def UpdateState_lock set_lock_same split: prod.split)

declare try_next.simps(2) [simp del]

lemma try_next_result:
  assumes "distinct queue"
  shows "(case try_next now queue h of
       (None, h') \<Rightarrow> (\<forall>b\<in>set queue. \<not> runnable now (h b) \<and> scanned (h b) (h' b)) \<and>
         (\<forall>b. b \<notin> set queue \<longrightarrow> h' b = h b)
     | (Some a, h') \<Rightarrow> (\<exists>xs ys. queue = xs @ a # ys \<and> runnable now (h a) \<and> h' a = taken now (h a) \<and>
         (\<forall>b\<in>set xs. \<not> runnable now (h b) \<and> scanned (h b) (h' b)) \<and>
         (\<forall>b. b \<notin> set (xs @ [a]) \<longrightarrow> h' b = h b)))"
  using assms
proof (induction queue arbitrary: h)
  case (Cons a queue)
  show ?case
  proof (cases "runnable now (h a)")
    case True
    then show ?thesis
      by (simp add: try_next_Cons) (rule exI [of _ "[]"], simp)
  next
    case False
    define h1 where "h1 = h(a := if cr_lock (h a) then h a
        else CRoutine_Release (snd (CRoutine_UpdateState now ((h a)\<lparr>cr_lock := True\<rparr>))))"
    have sc: "scanned (h a) (h1 a)"
      using False not_runnable_released [of "h a" now] by (auto simp: h1_def scanned_def)
    have eq: "h1 b = h b" if "b \<noteq> a" for b using that by (simp add: h1_def)
    have step: "try_next now (a # queue) h = try_next now queue h1"
      using False by (simp add: try_next_Cons h1_def)
    have a: "a \<notin> set queue" using Cons.prems by simp
    have IH: "case try_next now queue h1 of
       (None, h') \<Rightarrow> (\<forall>b\<in>set queue. \<not> runnable now (h1 b) \<and> scanned (h1 b) (h' b)) \<and>
         (\<forall>b. b \<notin> set queue \<longrightarrow> h' b = h1 b)
     | (Some a, h') \<Rightarrow> (\<exists>xs ys. queue = xs @ a # ys \<and> runnable now (h1 a) \<and> h' a = taken now (h1 a) \<and>
         (\<forall>b\<in>set xs. \<not> runnable now (h1 b) \<and> scanned (h1 b) (h' b)) \<and>
         (\<forall>b. b \<notin> set (xs @ [a]) \<longrightarrow> h' b = h1 b))"
      using Cons.IH [of h1] Cons.prems by simp
    obtain r h' where r: "try_next now queue h1 = (r, h')" by fastforce
    show ?thesis
    proof (cases r)
      case None
      with IH r step a sc False eq show ?thesis by (auto, metis+)
    next
      case (Some c)
      with IH r obtain xs ys where q: "queue = xs @ c # ys" "runnable now (h1 c)" "h' c = taken now (h1 c)"
        "\<forall>b\<in>set xs. \<not> runnable now (h1 b) \<and> scanned (h1 b) (h' b)"
        "\<forall>b. b \<notin> set (xs @ [c]) \<longrightarrow> h' b = h1 b" by auto
      have "c \<noteq> a" "a \<notin> set xs" using q(1) a by auto
      then have "\<exists>zs ys. a # queue = zs @ c # ys \<and> runnable now (h c) \<and> h' c = taken now (h c) \<and>
         (\<forall>b\<in>set zs. \<not> runnable now (h b) \<and> scanned (h b) (h' b)) \<and>
         (\<forall>b. b \<notin> set (zs @ [c]) \<longrightarrow> h' b = h b)"
        using q sc False eq by (intro exI [of _ "a # xs"] exI [of _ ys]) (auto, metis+)
      then show ?thesis using r Some step by simp
    qed
  qed
qed simp

lemma try_next_Some:
  assumes "try_next now queue h = (Some a, h')" and "distinct queue"
  obtains xs ys where "queue = xs @ a # ys" "runnable now (h a)" "h' a = taken now (h a)"
    "\<forall>b\<in>set xs. \<not> runnable now (h b)" "\<forall>b. b \<noteq> a \<longrightarrow> scanned (h b) (h' b)"
  using try_next_result [OF assms(2), of now h] assms(1) by (fastforce simp: scanned_def)

lemma try_next_None:
  assumes "try_next now queue h = (None, h')" and "distinct queue"
  shows "(\<forall>b\<in>set queue. \<not> runnable now (h b)) \<and> (\<forall>b. scanned (h b) (h' b))"
  using try_next_result [OF assms(2), of now h] assms(1) by (fastforce simp: scanned_def)

lemma try_next_append:
  "try_next now (xs @ ys) h =
     (case try_next now xs h of (Some a, h') \<Rightarrow> (Some a, h') | (None, h') \<Rightarrow> try_next now ys h')"
  by (induction xs arbitrary: h) (auto simp: try_next_Cons split: prod.split option.split)

section \<open>The contract of a processor context\<close>

text \<open>
  A context scans its members in an order that follows the priorities. Then it returns a
  runnable routine of the greatest priority, held and ready, and nothing only when no member is runnable.
\<close>

locale priority_context =
  fixes members :: "'q \<Rightarrow> nat list"
    and next_routine :: "int \<Rightarrow> 'q \<Rightarrow> cr_heap \<Rightarrow> nat option \<times> cr_heap"
    and ok :: "'q \<Rightarrow> cr_heap \<Rightarrow> bool"
  assumes scans: "next_routine now q h = try_next now (members q) h"
    and by_priority: "ok q h \<Longrightarrow> sorted_wrt (\<lambda>a b. cr_priority (h b) \<le> cr_priority (h a)) (members q)"
    and members_distinct: "ok q h \<Longrightarrow> distinct (members q)"
begin

lemma picks_highest:
  assumes "ok q h" and "next_routine now q h = (Some a, h')"
  shows "a \<in> set (members q) \<and> runnable now (h a) \<and> h' a = taken now (h a) \<and>
    (\<forall>b\<in>set (members q). runnable now (h b) \<longrightarrow> cr_priority (h b) \<le> cr_priority (h a)) \<and>
    (\<forall>b. b \<noteq> a \<longrightarrow> scanned (h b) (h' b))"
proof -
  obtain xs ys where m: "members q = xs @ a # ys" "runnable now (h a)" "h' a = taken now (h a)"
    "\<forall>b\<in>set xs. \<not> runnable now (h b)" "\<forall>b. b \<noteq> a \<longrightarrow> scanned (h b) (h' b)"
    using try_next_Some [OF _ members_distinct [OF assms(1)], of now h a h'] assms(2) by (auto simp: scans)
  then have "\<forall>b\<in>set ys. cr_priority (h b) \<le> cr_priority (h a)"
    using by_priority [OF assms(1)] by (auto simp: sorted_wrt_append)
  with m show ?thesis by auto
qed

lemma none_runnable:
  assumes "ok q h" and "next_routine now q h = (None, h')"
  shows "(\<forall>b\<in>set (members q). \<not> runnable now (h b)) \<and> (\<forall>b. scanned (h b) (h' b))"
  using try_next_None [OF _ members_distinct [OF assms(1)], of now h h'] assms(2) by (simp add: scans)

end

text \<open>The pool: the queues of a group from the highest level down.\<close>

definition classic_members :: "(nat \<Rightarrow> nat list) \<Rightarrow> nat list" where
  "classic_members rq = concat (map rq (rev [0..<MAX_PRIO]))"

definition classic_ok :: "(nat \<Rightarrow> nat list) \<Rightarrow> cr_heap \<Rightarrow> bool" where
  "classic_ok rq h \<longleftrightarrow> (\<forall>i. distinct (rq i) \<and> (\<forall>a\<in>set (rq i). cr_priority (h a) = i))"

definition choreography_ok :: "(nat \<times> nat) list \<Rightarrow> cr_heap \<Rightarrow> bool" where
  "choreography_ok queue h \<longleftrightarrow> distinct (map snd queue) \<and> sorted_wrt (\<ge>) (map fst queue) \<and>
     (\<forall>(k, a)\<in>set queue. cr_priority (h a) = k)"

lemma classic_scan_try_next:
  "classic_scan now n rq h = try_next now (concat (map rq (rev [0..<n]))) h"
  by (induction n arbitrary: h) (auto simp: try_next_append split: prod.split option.split)

lemma levels_ordered:
  assumes "classic_ok rq h"
  shows "sorted_wrt (\<lambda>a b. cr_priority (h b) \<le> cr_priority (h a)) (concat (map rq (rev [0..<n])))"
proof (induction n)
  case (Suc n)
  have "sorted_wrt (\<lambda>a b. cr_priority (h b) \<le> cr_priority (h a)) (rq n)"
    using assms by (auto simp: classic_ok_def sorted_wrt_iff_nth_less dest!: spec [of _ n])
  with Suc assms show ?case by (fastforce simp: sorted_wrt_append classic_ok_def)
qed simp

lemma levels_distinct:
  assumes "classic_ok rq h"
  shows "distinct (concat (map rq (rev [0..<n])))"
proof (induction n)
  case (Suc n)
  have "set (rq n) \<inter> set (concat (map rq (rev [0..<n]))) = {}"
    using assms unfolding classic_ok_def disjoint_iff by (auto, metis less_irrefl)
  with Suc assms show ?case by (simp add: classic_ok_def)
qed simp

interpretation classic_ctx: priority_context classic_members
    "\<lambda>now. ClassicContext_NextRoutine now False" classic_ok
proof unfold_locales
  fix now rq h
  show "ClassicContext_NextRoutine now False rq h = try_next now (classic_members rq) h"
    by (simp add: ClassicContext_NextRoutine_def classic_scan_try_next classic_members_def)
qed (auto simp: classic_members_def intro: levels_ordered levels_distinct)

interpretation choreography_ctx: priority_context "map snd"
    "\<lambda>now. ChoreographyContext_NextRoutine now False" choreography_ok
proof unfold_locales
  fix q h
  assume ok: "choreography_ok q h"
  show "sorted_wrt (\<lambda>a b. cr_priority (h b) \<le> cr_priority (h a)) (map snd q)"
    using ok by (induction q) (fastforce simp: choreography_ok_def)+
qed (auto simp: ChoreographyContext_NextRoutine_def choreography_ok_def)

text \<open>The multimap keeps its order, and equal priorities their order of arrival.\<close>

lemma set_multimap_emplace [simp]: "set (multimap_emplace k v m) = insert (k, v) (set m)"
  by (induction k v m rule: multimap_emplace.induct) auto

lemma mset_emplace_distinct:
  "distinct (map snd (multimap_emplace k v m)) \<longleftrightarrow> distinct (map snd m) \<and> v \<notin> snd ` set m"
  by (induction k v m rule: multimap_emplace.induct) (auto simp: image_iff)

lemma sorted_multimap_emplace:
  "sorted_wrt (\<ge>) (map fst m) \<Longrightarrow> sorted_wrt (\<ge>) (map fst (multimap_emplace k v m))"
  by (induction k v m rule: multimap_emplace.induct) auto

section \<open>Where a routine is queued\<close>

datatype place = Pool string nat | Choreo nat

fun queue_of :: "'z Scheduler_scheme \<Rightarrow> place \<Rightarrow> nat list" where
  "queue_of sd (Pool grp prio) = sd_cr_group sd grp prio"
| "queue_of sd (Choreo c) =
     (if c < sd_proc_num sd
      then case sd_pctxs sd ! c of ChoreographyContext _ _ queue \<Rightarrow> map snd queue | _ \<Rightarrow> []
      else [])"

definition place_of :: "'z Scheduler_scheme \<Rightarrow> nat \<Rightarrow> place" where
  "place_of sd a =
     (let cr = sd_heap sd a; pid = to_uint32 (cr_processor_id cr) in
      if pid < sd_proc_num sd then Choreo pid else Pool (cr_group_name cr) (cr_priority cr))"

text \<open>
  The invariant of a scheduler. \<open>W\<close> are the routines whose removal has begun and still waits for the
  processor that runs them: they are queued, but no longer registered. Every queued routine is where its record
  says, once, and no two queued routines share an identifier.
\<close>

definition queued :: "'z Scheduler_scheme \<Rightarrow> nat \<Rightarrow> bool" where
  "queued sd a \<longleftrightarrow> (\<exists>pl. a \<in> set (queue_of sd pl))"

fun context_ok :: "nat \<Rightarrow> cr_heap \<Rightarrow> nat \<Rightarrow> ProcessorContext \<Rightarrow> bool" where
  "context_ok proc_num h c (ChoreographyContext _ _ queue) \<longleftrightarrow>
     c < proc_num \<and> sorted_wrt (\<ge>) (map fst queue) \<and> (\<forall>e\<in>set queue. cr_priority (h (snd e)) = fst e)"
| "context_ok proc_num h c (ClassicContext _ _) \<longleftrightarrow> proc_num \<le> c"

definition contexts_ok :: "'z Scheduler_scheme \<Rightarrow> bool" where
  "contexts_ok sd \<longleftrightarrow> sd_proc_num sd \<le> length (sd_pctxs sd) \<and>
     (\<forall>c < length (sd_pctxs sd). context_ok (sd_proc_num sd) (sd_heap sd) c (sd_pctxs sd ! c))"

definition sched_inv :: "'z Scheduler_scheme \<Rightarrow> nat set \<Rightarrow> bool" where
  "sched_inv sd W \<longleftrightarrow> contexts_ok sd \<and>
     (\<forall>pl. distinct (queue_of sd pl)) \<and>
     (\<forall>pl a. a \<in> set (queue_of sd pl) \<longrightarrow> place_of sd a = pl \<and> a < sd_fresh sd) \<and>
     (\<forall>grp prio. MAX_PRIO \<le> prio \<longrightarrow> sd_cr_group sd grp prio = []) \<and>
     (\<forall>crid a. sd_id_cr sd crid = Some a \<longleftrightarrow> queued sd a \<and> a \<notin> W \<and> cr_id (sd_heap sd a) = crid) \<and>
     (\<forall>a\<in>W. queued sd a) \<and>
     (\<forall>a b. queued sd a \<longrightarrow> queued sd b \<longrightarrow> cr_id (sd_heap sd a) = cr_id (sd_heap sd b) \<longrightarrow> a = b)"

text \<open>Changes of a routine that leave its place and identity alone.\<close>

definition same_key :: "CRoutine \<Rightarrow> CRoutine \<Rightarrow> bool" where
  "same_key cr cr' \<longleftrightarrow> cr_id cr' = cr_id cr \<and> cr_priority cr' = cr_priority cr \<and>
     cr_group_name cr' = cr_group_name cr \<and> cr_processor_id cr' = cr_processor_id cr"

lemma same_key_refl [simp]: "same_key cr cr"
  by (simp add: same_key_def)

lemma queued_place: "sched_inv sd W \<Longrightarrow> queued sd a \<longleftrightarrow> a \<in> set (queue_of sd (place_of sd a))"
  by (auto simp: sched_inv_def queued_def)

lemma sched_inv_heap:
  assumes inv: "sched_inv sd W" and keys: "\<And>a. same_key (sd_heap sd a) (h a)"
  shows "sched_inv (sd\<lparr>sd_heap := h\<rparr>) W"
proof -
  have q: "queue_of (sd\<lparr>sd_heap := h\<rparr>) pl = queue_of sd pl" for pl by (cases pl) simp_all
  have p: "place_of (sd\<lparr>sd_heap := h\<rparr>) a = place_of sd a" for a
    using keys [of a] by (simp add: place_of_def same_key_def Let_def)
  have "context_ok n h c ctx \<longleftrightarrow> context_ok n (sd_heap sd) c ctx" for n c ctx
    using keys by (cases ctx) (simp_all add: same_key_def)
  then have c: "contexts_ok (sd\<lparr>sd_heap := h\<rparr>)"
    using inv by (simp add: sched_inv_def contexts_ok_def)
  show ?thesis
    using inv keys c by (simp add: sched_inv_def q p queued_def same_key_def)
qed

lemma sched_inv_notify_grp: "sched_inv (sd\<lparr>sd_notify_grp := n\<rparr>) W \<longleftrightarrow> sched_inv sd W"
proof -
  have q: "queue_of (sd\<lparr>sd_notify_grp := n\<rparr>) pl = queue_of sd pl" for pl by (cases pl) simp_all
  have p: "place_of (sd\<lparr>sd_notify_grp := n\<rparr>) a = place_of sd a" for a
    by (simp add: place_of_def)
  show ?thesis by (simp add: sched_inv_def contexts_ok_def queued_def q p)
qed

section \<open>The invariant under the operations\<close>

lemma context_ok_heap:
  "(\<And>a. a \<in> snd ` set (case ctx of ChoreographyContext _ _ q \<Rightarrow> q | _ \<Rightarrow> []) \<Longrightarrow>
      cr_priority (h' a) = cr_priority (h a)) \<Longrightarrow>
    context_ok n h' c ctx \<longleftrightarrow> context_ok n h c ctx"
  by (cases ctx) auto

lemma classic_ok_inv: "sched_inv sd W \<Longrightarrow> classic_ok (sd_cr_group sd grp) (sd_heap sd)"
  unfolding classic_ok_def
proof (intro allI conjI ballI)
  fix i a
  assume inv: "sched_inv sd W"
  show "distinct (sd_cr_group sd grp i)"
    using inv by (auto simp: sched_inv_def dest: spec [of _ "Pool grp i"])
  assume "a \<in> set (sd_cr_group sd grp i)"
  then have "a \<in> set (queue_of sd (Pool grp i))" by simp
  then have "place_of sd a = Pool grp i" using inv unfolding sched_inv_def by blast
  then show "cr_priority (sd_heap sd a) = i" by (simp add: place_of_def Let_def split: if_splits)
qed

lemma choreography_ok_inv:
  assumes inv: "sched_inv sd W" and c: "c < length (sd_pctxs sd)"
    and ctx: "sd_pctxs sd ! c = ChoreographyContext stop n queue"
  shows "c < sd_proc_num sd \<and> choreography_ok queue (sd_heap sd)"
proof -
  have ok: "context_ok (sd_proc_num sd) (sd_heap sd) c (sd_pctxs sd ! c)"
    using inv c by (simp add: sched_inv_def contexts_ok_def)
  then have "distinct (queue_of sd (Choreo c))" "c < sd_proc_num sd"
    using inv ctx unfolding sched_inv_def by (blast, simp)
  with ok ctx show ?thesis by (auto simp: choreography_ok_def)
qed

text \<open>The members of a context, in the order of its scan.\<close>

definition context_members :: "'z Scheduler_scheme \<Rightarrow> nat \<Rightarrow> nat list" where
  "context_members sd c =
     (case sd_pctxs sd ! c of
        ClassicContext _ grp \<Rightarrow> classic_members (sd_cr_group sd grp)
      | ChoreographyContext _ _ queue \<Rightarrow> map snd queue)"

lemma context_members_queued:
  assumes "sched_inv sd W" and "c < length (sd_pctxs sd)" and "a \<in> set (context_members sd c)"
  shows "queued sd a"
proof (cases "sd_pctxs sd ! c")
  case (ClassicContext stop grp)
  then obtain i where "a \<in> set (queue_of sd (Pool grp i))"
    using assms(3) by (auto simp: context_members_def classic_members_def)
  then show ?thesis unfolding queued_def by blast
next
  case (ChoreographyContext stop n queue)
  then have "a \<in> set (queue_of sd (Choreo c))"
    using assms(3) choreography_ok_inv [OF assms(1,2)] by (auto simp: context_members_def)
  then show ?thesis unfolding queued_def by blast
qed

lemma NextRoutine_Some:
  assumes inv: "sched_inv sd W" and c: "c < length (sd_pctxs sd)"
    and n: "NextRoutine now c sd = (Some a, sd')"
  shows "\<exists>h. sd' = sd\<lparr>sd_heap := h\<rparr> \<and> a \<in> set (context_members sd c) \<and> runnable now (sd_heap sd a) \<and>
    h a = taken now (sd_heap sd a) \<and> (\<forall>b. b \<noteq> a \<longrightarrow> scanned (sd_heap sd b) (h b)) \<and>
    (\<forall>b\<in>set (context_members sd c). runnable now (sd_heap sd b) \<longrightarrow>
       cr_priority (sd_heap sd b) \<le> cr_priority (sd_heap sd a))"
proof (cases "sd_pctxs sd ! c")
  case (ClassicContext stop grp)
  with n obtain h where h: "sd' = sd\<lparr>sd_heap := h\<rparr>"
      "ClassicContext_NextRoutine now stop (sd_cr_group sd grp) (sd_heap sd) = (Some a, h)"
    by (auto simp: NextRoutine_def split: prod.splits)
  then have "\<not> stop" by (auto simp: ClassicContext_NextRoutine_def split: if_splits)
  with h ClassicContext show ?thesis
    using classic_ctx.picks_highest [OF classic_ok_inv [OF inv], of now grp a h]
    by (auto simp: context_members_def)
next
  case (ChoreographyContext stop m queue)
  with n obtain h where h: "sd' = sd\<lparr>sd_heap := h\<rparr>"
      "ChoreographyContext_NextRoutine now stop queue (sd_heap sd) = (Some a, h)"
    by (auto simp: NextRoutine_def split: prod.splits)
  then have "\<not> stop" by (auto simp: ChoreographyContext_NextRoutine_def split: if_splits)
  with h ChoreographyContext show ?thesis
    using choreography_ctx.picks_highest [of queue "sd_heap sd" now a h] choreography_ok_inv [OF inv c]
    by (auto simp: context_members_def)
qed

lemma NextRoutine_None:
  assumes inv: "sched_inv sd W" and c: "c < length (sd_pctxs sd)"
    and n: "NextRoutine now c sd = (None, sd')"
  shows "\<exists>h. sd' = sd\<lparr>sd_heap := h\<rparr> \<and> (\<forall>b. scanned (sd_heap sd b) (h b)) \<and>
    (ctx_stop (sd_pctxs sd ! c) \<or> (\<forall>b\<in>set (context_members sd c). \<not> runnable now (sd_heap sd b)))"
proof (cases "sd_pctxs sd ! c")
  case (ClassicContext stop grp)
  with n obtain h where h: "sd' = sd\<lparr>sd_heap := h\<rparr>"
      "ClassicContext_NextRoutine now stop (sd_cr_group sd grp) (sd_heap sd) = (None, h)"
    by (auto simp: NextRoutine_def split: prod.splits)
  show ?thesis
  proof (cases stop)
    case True
    with h ClassicContext show ?thesis by (auto simp: ClassicContext_NextRoutine_def scanned_def)
  next
    case False
    with h ClassicContext show ?thesis
      using classic_ctx.none_runnable [OF classic_ok_inv [OF inv], of now grp h]
      by (auto simp: context_members_def)
  qed
next
  case (ChoreographyContext stop m queue)
  with n obtain h where h: "sd' = sd\<lparr>sd_heap := h\<rparr>"
      "ChoreographyContext_NextRoutine now stop queue (sd_heap sd) = (None, h)"
    by (auto simp: NextRoutine_def split: prod.splits)
  show ?thesis
  proof (cases stop)
    case True
    with h ChoreographyContext show ?thesis by (auto simp: ChoreographyContext_NextRoutine_def scanned_def)
  next
    case False
    with h ChoreographyContext show ?thesis
      using choreography_ctx.none_runnable [of queue "sd_heap sd" now h] choreography_ok_inv [OF inv c]
      by (auto simp: context_members_def)
  qed
qed

lemma sched_inv_ids:
  "sched_inv sd W \<Longrightarrow> queued sd a \<Longrightarrow> queued sd b \<Longrightarrow> cr_id (sd_heap sd a) = cr_id (sd_heap sd b) \<Longrightarrow> a = b"
  unfolding sched_inv_def by blast

lemma sched_inv_enqueue:
  assumes inv: "sched_inv sd W" and a: "a < sd_fresh sd" "\<not> queued sd a"
    and ids: "\<And>b. queued sd b \<Longrightarrow> cr_id (sd_heap sd b) \<noteq> cr_id (sd_heap sd' a)"
    and heap: "\<And>b. b \<noteq> a \<Longrightarrow> sd_heap sd' b = sd_heap sd b"
    and frame: "sd_proc_num sd' = sd_proc_num sd" "sd_fresh sd' = sd_fresh sd" "contexts_ok sd'"
    and id_cr: "sd_id_cr sd' = (sd_id_cr sd)(cr_id (sd_heap sd' a) \<mapsto> a)"
    and queue: "set (queue_of sd' pl) = insert a (set (queue_of sd pl))" "distinct (queue_of sd' pl)"
      "\<And>pl'. pl' \<noteq> pl \<Longrightarrow> queue_of sd' pl' = queue_of sd pl'"
    and place: "place_of sd' a = pl" "\<And>grp prio. pl = Pool grp prio \<Longrightarrow> prio < MAX_PRIO"
  shows "sched_inv sd' W"
proof -
  have q: "queued sd' b \<longleftrightarrow> b = a \<or> queued sd b" for b
    using queue(1,3) unfolding queued_def by (metis insert_iff)
  have p: "place_of sd' b = place_of sd b" if "b \<noteq> a" for b
    using heap [OF that] frame by (simp add: place_of_def)
  have d: "distinct (queue_of sd' pl')" for pl'
    using queue inv by (cases "pl' = pl") (simp_all add: sched_inv_def)
  have m: "b \<in> set (queue_of sd' pl') \<longleftrightarrow> (b = a \<and> pl' = pl) \<or> b \<in> set (queue_of sd pl')" for b pl'
    using queue(1,3) by (cases "pl' = pl") auto
  have i2: "place_of sd' b = pl' \<and> b < sd_fresh sd'" if "b \<in> set (queue_of sd' pl')" for b pl'
  proof (cases "b = a")
    case True
    then have "b \<notin> set (queue_of sd pl')" using a(2) by (auto simp: queued_def)
    with that True m a place frame show ?thesis by auto
  next
    case False
    then have "b \<in> set (queue_of sd pl')" using that m by simp
    with inv False p frame show ?thesis by (simp add: sched_inv_def)
  qed
  have i3: "sd_cr_group sd' grp prio = []" if "MAX_PRIO \<le> prio" for grp prio
  proof -
    have "Pool grp prio \<noteq> pl" using place(2) that by force
    from queue(3) [OF this] show ?thesis using inv that by (simp add: sched_inv_def)
  qed
  have aW: "a \<notin> W" using inv a(2) by (auto simp: sched_inv_def)
  have i4: "sd_id_cr sd' crid = Some b \<longleftrightarrow> queued sd' b \<and> b \<notin> W \<and> cr_id (sd_heap sd' b) = crid" for crid b
    using inv q heap ids aW a(2) unfolding id_cr sched_inv_def by (cases "b = a") auto
  have i6: "b = b'" if "queued sd' b" "queued sd' b'" "cr_id (sd_heap sd' b) = cr_id (sd_heap sd' b')" for b b'
    using that ids heap sched_inv_ids [OF inv] unfolding q by metis
  show ?thesis
    using d i2 i3 i4 i6 inv q frame(3) unfolding sched_inv_def by blast
qed

text \<open>Removal: unregistering hands a routine to \<open>W\<close>, erasing it takes it out.\<close>

lemma sched_inv_unregister:
  assumes inv: "sched_inv sd W" and "sd_id_cr sd crid = Some a"
  shows "sched_inv (sd\<lparr>sd_id_cr := (sd_id_cr sd)(crid := None)\<rparr>) (insert a W) \<and> a \<notin> W \<and> queued sd a"
proof -
  let ?sd = "sd\<lparr>sd_id_cr := (sd_id_cr sd)(crid := None)\<rparr>"
  have q: "queue_of ?sd pl = queue_of sd pl" for pl by (cases pl) simp_all
  have p: "place_of ?sd b = place_of sd b" for b by (simp add: place_of_def)
  have a: "queued sd a" "a \<notin> W" "cr_id (sd_heap sd a) = crid" using assms by (auto simp: sched_inv_def)
  have "sd_id_cr ?sd i = Some b \<longleftrightarrow> queued sd b \<and> b \<notin> insert a W \<and> cr_id (sd_heap sd b) = i" for i b
  proof (cases "i = crid")
    case True
    have "b = a" if "queued sd b" "cr_id (sd_heap sd b) = crid"
      using sched_inv_ids [OF inv that(1) a(1)] that(2) a(3) by simp
    with True show ?thesis by auto
  next
    case False
    then show ?thesis using inv a(3) by (auto simp: sched_inv_def)
  qed
  with inv a show ?thesis
    by (simp add: sched_inv_def contexts_ok_def queued_def q p)
qed

lemma sched_inv_dequeue:
  assumes inv: "sched_inv sd W" and a: "a \<in> W"
    and keys: "\<And>b. same_key (sd_heap sd b) (sd_heap sd' b)"
    and frame: "sd_proc_num sd' = sd_proc_num sd" "sd_fresh sd' = sd_fresh sd" "contexts_ok sd'"
      "sd_id_cr sd' = sd_id_cr sd"
    and queue: "queue_of sd' (place_of sd a) = remove1 a (queue_of sd (place_of sd a))"
      "\<And>pl. pl \<noteq> place_of sd a \<Longrightarrow> queue_of sd' pl = queue_of sd pl"
  shows "sched_inv sd' (W - {a}) \<and> (\<forall>b. queued sd' b \<longleftrightarrow> b \<noteq> a \<and> queued sd b)"
proof -
  have dist: "distinct (queue_of sd pl)" for pl using inv by (simp add: sched_inv_def)
  have own: "b \<in> set (queue_of sd pl) \<Longrightarrow> place_of sd b = pl \<and> b < sd_fresh sd" for b pl
    using inv by (simp add: sched_inv_def)
  have m: "b \<in> set (queue_of sd' pl) \<longleftrightarrow> b \<noteq> a \<and> b \<in> set (queue_of sd pl)" for b pl
    using queue dist own by (cases "pl = place_of sd a") auto
  have q: "queued sd' b \<longleftrightarrow> b \<noteq> a \<and> queued sd b" for b by (auto simp: queued_def m)
  have p: "place_of sd' b = place_of sd b" for b
    using keys [of b] frame by (simp add: place_of_def same_key_def Let_def)
  have i1: "distinct (queue_of sd' pl)" for pl
    using queue dist by (cases "pl = place_of sd a") simp_all
  have i2: "sd_cr_group sd' grp prio = []" if "MAX_PRIO \<le> prio" for grp prio
  proof -
    have "queue_of sd (Pool grp prio) = []" using inv that by (simp add: sched_inv_def)
    then show ?thesis using m [of _ "Pool grp prio"] by simp (metis last_in_set)
  qed
  have ids: "cr_id (sd_heap sd' b) = cr_id (sd_heap sd b)" for b
    using keys [of b] by (simp add: same_key_def)
  have i3: "sd_id_cr sd' crid = Some b \<longleftrightarrow> queued sd' b \<and> b \<notin> W - {a} \<and> cr_id (sd_heap sd' b) = crid"
    for crid b
    using inv a frame(4) ids q by (auto simp: sched_inv_def)
  have i4: "b = b'" if "queued sd' b" "queued sd' b'" "cr_id (sd_heap sd' b) = cr_id (sd_heap sd' b')" for b b'
    using that sched_inv_ids [OF inv] ids q by metis
  have i5: "queued sd' b" if "b \<in> W - {a}" for b using inv that q by (auto simp: sched_inv_def)
  have i6: "place_of sd' b = pl \<and> b < sd_fresh sd'" if "b \<in> set (queue_of sd' pl)" for b pl
    using own [of b pl] that unfolding m p frame(2) by blast
  have "sched_inv sd' (W - {a})"
    using i1 i2 i3 i4 i5 i6 frame(3) unfolding sched_inv_def by blast
  then show ?thesis using q by simp
qed

lemma find_unique:
  assumes "a \<in> set xs" and "P a" and "\<And>b. b \<in> set xs \<Longrightarrow> P b \<Longrightarrow> b = a"
  shows "List.find P xs = Some a"
proof (cases "List.find P xs")
  case None
  with assms(1,2) show ?thesis by (simp add: find_None_iff)
next
  case (Some b)
  then have "b \<in> set xs \<and> P b" by (auto simp: find_Some_iff)
  with Some assms(3) [of b] show ?thesis by simp
qed

lemma sd_update_same_key:
  "same_key (sd_heap sd a) (f (sd_heap sd a)) \<Longrightarrow> same_key (sd_heap sd b) (sd_heap (sd_update a f sd) b)"
  by (simp add: sd_update_def)

lemma sched_inv_update:
  "sched_inv sd W \<Longrightarrow> same_key (sd_heap sd a) (f (sd_heap sd a)) \<Longrightarrow> sched_inv (sd_update a f sd) W"
  unfolding sd_update_def by (rule sched_inv_heap) auto

lemma place_of_update:
  "same_key (sd_heap sd a) (f (sd_heap sd a)) \<Longrightarrow> place_of (sd_update a f sd) b = place_of sd b"
  by (simp add: place_of_def sd_update_def same_key_def Let_def)

lemma queue_of_update [simp]: "queue_of (sd_update a f sd) pl = queue_of sd pl"
  by (cases pl) (simp_all add: sd_update_def)

lemma sd_update_fields [simp]:
  "sd_heap (sd_update a f sd) = (sd_heap sd)(a := f (sd_heap sd a))"
  "sd_id_cr (sd_update a f sd) = sd_id_cr sd" "sd_fresh (sd_update a f sd) = sd_fresh sd"
  "sd_proc_num (sd_update a f sd) = sd_proc_num sd" "sd_pctxs (sd_update a f sd) = sd_pctxs sd"
  "sd_cr_group (sd_update a f sd) = sd_cr_group sd" "sd_stop (sd_update a f sd) = sd_stop sd"
  by (simp_all add: sd_update_def)

end
