(* ===== verification/Scheduler_System.thy ===== *)
theory Scheduler_System
  imports Task_Scheduler
begin

text \<open>
  The schedulers at work: \<open>sched_step\<close> interleaves the operations of client threads (creating,
  notifying and removing tasks, shutting down) with the loop \<open>Processor::Run\<close> of every processor.
  Each operation is one step, as its locks make it, except that a removal may have to wait for the
  processor that runs the routine. The locale \<open>scheduler_policy\<close> collects what both schedulers
  guarantee; mutual exclusion of the processors and the finality of a removal are proved in it and
  hold for \<open>SchedulerClassic\<close> and \<open>SchedulerChoreography\<close> by interpretation.
\<close>

section \<open>Steps\<close>

record 's sched_sys =
  ss_sd :: 's
  ss_proc :: "nat \<Rightarrow> nat option"
  ss_rm :: "nat \<Rightarrow> nat option"

text \<open>
  A removal that waits holds the write lock of its queue: a scan that would reach the queue waits too.
\<close>

definition next_blocked :: "'z Scheduler_scheme \<Rightarrow> nat set \<Rightarrow> nat \<Rightarrow> nat option \<Rightarrow> bool" where
  "next_blocked sd W c r \<longleftrightarrow>
     (\<exists>b\<in>W. case sd_pctxs sd ! c of
        ChoreographyContext _ _ _ \<Rightarrow> place_of sd b = Choreo c
      | ClassicContext _ grp \<Rightarrow>
          (\<exists>p. place_of sd b = Pool grp p \<and> (case r of None \<Rightarrow> True | Some a \<Rightarrow> cr_priority (sd_heap sd a) \<le> p)))"

text \<open>The end of a slice in \<open>Processor::Run\<close>: \<open>Resume\<close> has returned, \<open>Release\<close>.\<close>

definition Processor_Resume ::
    "int \<Rightarrow> RoutineState list \<times> co_switch \<Rightarrow> nat \<Rightarrow> 'z Scheduler_scheme \<Rightarrow> 'z Scheduler_scheme" where
  "Processor_Resume now slice a sd =
     sd_update a (\<lambda>cr. CRoutine_Release (snd (CRoutine_Resume now slice cr))) sd"

inductive sched_step ::
    "(nat \<Rightarrow> 'z Scheduler_scheme \<Rightarrow> bool outcome \<times> 'z Scheduler_scheme) \<Rightarrow>
     (nat \<Rightarrow> 'z Scheduler_scheme \<Rightarrow> bool outcome \<times> 'z Scheduler_scheme) \<Rightarrow>
     (nat \<Rightarrow> 'z Scheduler_scheme \<Rightarrow> bool outcome \<times> 'z Scheduler_scheme) \<Rightarrow>
     (nat \<Rightarrow> 'z Scheduler_scheme \<Rightarrow> bool \<times> 'z Scheduler_scheme) \<Rightarrow> (string \<Rightarrow> nat) \<Rightarrow>
     'z Scheduler_scheme sched_sys \<Rightarrow> 'z Scheduler_scheme sched_sys \<Rightarrow> bool"
  for dispatch remove finish notify hash
where
  create: "CreateTask dispatch hash now name visitor (ss_sd s) = Some (Returned r, sd) \<Longrightarrow>
    (\<forall>b\<in>ran (ss_rm s). \<forall>g. RegisterTaskName hash name (sd_global (ss_sd s)) \<noteq>
       Some (cr_id (sd_heap (ss_sd s) b), g)) \<Longrightarrow>
    sched_step dispatch remove finish notify hash s (s\<lparr>ss_sd := sd\<rparr>)"
| remove: "ss_rm s t = None \<Longrightarrow> (\<forall>b\<in>ran (ss_rm s). cr_id (sd_heap (ss_sd s) b) \<noteq> crid) \<Longrightarrow>
    remove crid (ss_sd s) = (Returned r, sd) \<Longrightarrow>
    sched_step dispatch remove finish notify hash s (s\<lparr>ss_sd := sd\<rparr>)"
| remove_spins: "ss_rm s t = None \<Longrightarrow> (\<forall>b\<in>ran (ss_rm s). cr_id (sd_heap (ss_sd s) b) \<noteq> crid) \<Longrightarrow>
    remove crid (ss_sd s) = (Spinning, sd) \<Longrightarrow> sd_id_cr (ss_sd s) crid = Some a \<Longrightarrow>
    sched_step dispatch remove finish notify hash s (s\<lparr>ss_sd := sd, ss_rm := (ss_rm s)(t \<mapsto> a)\<rparr>)"
| remove_returns: "ss_rm s t = Some a \<Longrightarrow> finish a (ss_sd s) = (Returned r, sd) \<Longrightarrow>
    sched_step dispatch remove finish notify hash s (s\<lparr>ss_sd := sd, ss_rm := (ss_rm s)(t := None)\<rparr>)"
| notify: "NotifyTask notify crid (ss_sd s) = (r, sd) \<Longrightarrow>
    sched_step dispatch remove finish notify hash s (s\<lparr>ss_sd := sd\<rparr>)"
| next_routine: "c < length (sd_pctxs (ss_sd s)) \<Longrightarrow> ss_proc s c = None \<Longrightarrow>
    NextRoutine now c (ss_sd s) = (Some a, sd) \<Longrightarrow> \<not> next_blocked (ss_sd s) (ran (ss_rm s)) c (Some a) \<Longrightarrow>
    sched_step dispatch remove finish notify hash s (s\<lparr>ss_sd := sd, ss_proc := (ss_proc s)(c \<mapsto> a)\<rparr>)"
| wait: "c < length (sd_pctxs (ss_sd s)) \<Longrightarrow> ss_proc s c = None \<Longrightarrow>
    NextRoutine now c (ss_sd s) = (None, sd) \<Longrightarrow> \<not> next_blocked (ss_sd s) (ran (ss_rm s)) c None \<Longrightarrow>
    sched_step dispatch remove finish notify hash s (s\<lparr>ss_sd := ProcessorContext_Wait c sd\<rparr>)"
| resume: "ss_proc s c = Some a \<Longrightarrow>
    sched_step dispatch remove finish notify hash s
      (s\<lparr>ss_sd := Processor_Resume now slice a (ss_sd s), ss_proc := (ss_proc s)(c := None)\<rparr>)"
| shut_down: "\<not> sd_stop (ss_sd s) \<Longrightarrow>
    sched_step dispatch remove finish notify hash s
      (s\<lparr>ss_sd := Shutdown_contexts ((ss_sd s)\<lparr>sd_stop := True\<rparr>)\<rparr>)"

definition sched_start :: "'z Scheduler_scheme \<Rightarrow> 'z Scheduler_scheme sched_sys" where
  "sched_start sd = \<lparr>ss_sd = sd, ss_proc = (\<lambda>_. None), ss_rm = (\<lambda>_. None)\<rparr>"

text \<open>The second part of \<open>RemoveCRoutine\<close> of \<open>SchedulerChoreography\<close>, once the routine is unregistered.\<close>

definition SchedulerChoreography_finish ::
    "nat \<Rightarrow> 'z Scheduler_scheme \<Rightarrow> bool outcome \<times> 'z Scheduler_scheme" where
  "SchedulerChoreography_finish a sd =
     (if to_uint32 (cr_processor_id (sd_heap sd a)) < sd_proc_num sd
      then ChoreographyContext_RemoveCRoutine (to_uint32 (cr_processor_id (sd_heap sd a)))
             (cr_id (sd_heap sd a)) sd
      else ClassicContext_RemoveCRoutine a sd)"

section \<open>Frames\<close>

definition frame :: "'z Scheduler_scheme \<Rightarrow> 'z Scheduler_scheme \<Rightarrow> bool" where
  "frame sd sd' \<longleftrightarrow> sd_proc_num sd' = sd_proc_num sd \<and> sd_fresh sd \<le> sd_fresh sd' \<and>
     (\<forall>b. cr_lock (sd_heap sd' b) = cr_lock (sd_heap sd b))"

lemma frame_refl [simp]: "frame sd sd"
  by (simp add: frame_def)

lemma frame_trans: "frame sd sd' \<Longrightarrow> frame sd' sd'' \<Longrightarrow> frame sd sd''"
  by (simp add: frame_def)

fun same_queue :: "ProcessorContext \<Rightarrow> ProcessorContext \<Rightarrow> bool" where
  "same_queue (ChoreographyContext _ _ q) (ChoreographyContext _ _ q') \<longleftrightarrow> q' = q"
| "same_queue (ClassicContext _ g) (ClassicContext _ g') \<longleftrightarrow> g' = g"
| "same_queue _ _ \<longleftrightarrow> False"

lemma same_queue_refl [simp]: "same_queue c c"
  by (cases c) simp_all

lemma context_ok_same_queue: "same_queue ctx ctx' \<Longrightarrow> context_ok n h c ctx' \<longleftrightarrow> context_ok n h c ctx"
  by (cases ctx; cases ctx') auto

text \<open>Counters and stop flags of the contexts are outside the invariant.\<close>

lemma queue_of_pctxs:
  assumes "list_all2 same_queue (sd_pctxs sd) ps" and "sd_proc_num sd \<le> length (sd_pctxs sd)"
  shows "queue_of (sd\<lparr>sd_pctxs := ps\<rparr>) pl = queue_of sd pl"
proof (cases pl)
  case (Choreo c)
  have "same_queue (sd_pctxs sd ! c) (ps ! c)" if "c < sd_proc_num sd"
    using assms that by (simp add: list_all2_conv_all_nth)
  then show ?thesis
    using Choreo by (cases "sd_pctxs sd ! c"; cases "ps ! c") auto
qed simp

lemma sched_inv_pctxs:
  assumes "list_all2 same_queue (sd_pctxs sd) ps" and inv: "sched_inv sd W"
  shows "sched_inv (sd\<lparr>sd_pctxs := ps\<rparr>) W \<and> (\<forall>a. queued (sd\<lparr>sd_pctxs := ps\<rparr>) a = queued sd a)"
proof -
  let ?sd = "sd\<lparr>sd_pctxs := ps\<rparr>"
  have n: "sd_proc_num sd \<le> length (sd_pctxs sd)" using inv by (simp add: sched_inv_def contexts_ok_def)
  have q: "queue_of ?sd pl = queue_of sd pl" for pl by (rule queue_of_pctxs [OF assms(1) n])
  have p: "place_of ?sd a = place_of sd a" for a by (simp add: place_of_def)
  have ctx: "context_ok (sd_proc_num sd) (sd_heap sd) c (ps ! c)" if "c < length ps" for c
  proof -
    have "c < length (sd_pctxs sd)" "same_queue (sd_pctxs sd ! c) (ps ! c)"
      using assms(1) that by (simp_all add: list_all2_conv_all_nth)
    then show ?thesis
      using inv context_ok_same_queue by (simp add: sched_inv_def contexts_ok_def)
  qed
  then have "contexts_ok ?sd"
    using n list_all2_lengthD [OF assms(1)] by (simp add: contexts_ok_def)
  then show ?thesis using inv by (simp add: sched_inv_def q p queued_def)
qed

lemma list_all2_update_same: "(\<And>x. P x x) \<Longrightarrow> P (xs ! c) y \<Longrightarrow> list_all2 P xs (xs[c := y])"
  by (simp add: list_all2_conv_all_nth nth_update_read)

lemma queued_notify_grp: "queued (sd\<lparr>sd_notify_grp := n\<rparr>) b = queued sd b"
proof -
  have "queue_of (sd\<lparr>sd_notify_grp := n\<rparr>) pl = queue_of sd pl" for pl by (cases pl) simp_all
  then show ?thesis by (simp add: queued_def)
qed

lemma ProcessorContext_Wait_inv:
  assumes "sched_inv sd W"
  shows "sched_inv (ProcessorContext_Wait c sd) W \<and> frame sd (ProcessorContext_Wait c sd) \<and>
    (\<forall>b. queued (ProcessorContext_Wait c sd) b = queued sd b)"
proof (cases "sd_pctxs sd ! c")
  case (ClassicContext stop grp)
  then have w: "ProcessorContext_Wait c sd =
      sd\<lparr>sd_notify_grp := (sd_notify_grp sd)(grp := Wait_count (sd_notify_grp sd grp))\<rparr>"
    by (simp add: ProcessorContext_Wait_def)
  show ?thesis unfolding w
    using assms by (simp add: sched_inv_notify_grp queued_notify_grp frame_def)
next
  case (ChoreographyContext stop n queue)
  then have w: "ProcessorContext_Wait c sd =
      sd\<lparr>sd_pctxs := (sd_pctxs sd)[c := ChoreographyContext stop (Wait_count n) queue]\<rparr>"
    by (simp add: ProcessorContext_Wait_def)
  have "list_all2 same_queue (sd_pctxs sd) ((sd_pctxs sd)[c := ChoreographyContext stop (Wait_count n) queue])"
    by (rule list_all2_update_same) (simp_all add: ChoreographyContext)
  from sched_inv_pctxs [OF this assms] show ?thesis
    unfolding w by (simp add: frame_def)
qed

lemma ProcessorContext_Shutdown_inv:
  assumes "sched_inv sd W"
  shows "sched_inv (ProcessorContext_Shutdown c sd) W \<and> frame sd (ProcessorContext_Shutdown c sd) \<and>
    (\<forall>b. queued (ProcessorContext_Shutdown c sd) b = queued sd b)"
proof (cases "sd_pctxs sd ! c")
  case (ClassicContext stop grp)
  have "list_all2 same_queue (sd_pctxs sd) ((sd_pctxs sd)[c := ClassicContext True grp])"
    by (rule list_all2_update_same) (simp_all add: ClassicContext)
  from sched_inv_pctxs [OF this assms] show ?thesis
    using ClassicContext
    by (simp add: ProcessorContext_Shutdown_def sched_inv_notify_grp queued_notify_grp frame_def)
next
  case (ChoreographyContext stop n queue)
  have "list_all2 same_queue (sd_pctxs sd) ((sd_pctxs sd)[c := ChoreographyContext True 255 queue])"
    by (rule list_all2_update_same) (simp_all add: ChoreographyContext)
  from sched_inv_pctxs [OF this assms] show ?thesis
    using ChoreographyContext by (simp add: ProcessorContext_Shutdown_def frame_def)
qed

lemma Shutdown_contexts_inv:
  assumes "sched_inv sd W"
  shows "sched_inv (Shutdown_contexts (sd\<lparr>sd_stop := True\<rparr>)) W \<and>
    frame sd (Shutdown_contexts (sd\<lparr>sd_stop := True\<rparr>)) \<and>
    (\<forall>b. queued (Shutdown_contexts (sd\<lparr>sd_stop := True\<rparr>)) b = queued sd b)"
proof -
  have step: "sched_inv (fold ProcessorContext_Shutdown cs sd) W \<and>
      frame sd (fold ProcessorContext_Shutdown cs sd) \<and>
      (\<forall>b. queued (fold ProcessorContext_Shutdown cs sd) b = queued sd b)"
    if "sched_inv sd W" for cs and sd :: "'a Scheduler_scheme"
    using that
  proof (induction cs arbitrary: sd)
    case (Cons c cs)
    note c = ProcessorContext_Shutdown_inv [OF Cons.prems, of c]
    with Cons.IH [of "ProcessorContext_Shutdown c sd"] show ?case
      by (auto intro: frame_trans)
  qed simp
  have q: "queue_of (sd\<lparr>sd_stop := True\<rparr>) pl = queue_of sd pl" for pl by (cases pl) simp_all
  have "sched_inv (sd\<lparr>sd_stop := True\<rparr>) W"
    using assms by (simp add: sched_inv_def contexts_ok_def queued_def q place_of_def)
  from step [OF this] show ?thesis
    by (auto simp: Shutdown_contexts_def queued_def q frame_def)
qed

text \<open>A routine in no queue may change at will.\<close>

lemma sched_inv_update_unqueued:
  assumes inv: "sched_inv sd W" and a: "\<not> queued sd a"
  shows "sched_inv (sd_update a f sd) W"
proof -
  let ?sd = "sd_update a f sd"
  have q: "queued ?sd b = queued sd b" for b by (simp add: queued_def)
  have ne: "b \<noteq> a" if "queued sd b" for b using that a by auto
  have p: "place_of ?sd b = place_of sd b" if "b \<noteq> a" for b
    using that by (simp add: place_of_def)
  have ctx: "context_ok (sd_proc_num sd) (sd_heap ?sd) c (sd_pctxs sd ! c)"
    if c: "c < length (sd_pctxs sd)" for c
  proof (cases "sd_pctxs sd ! c")
    case (ChoreographyContext stop n queue)
    have "b \<noteq> a" if "b \<in> snd ` set queue" for b
      using that choreography_ok_inv [OF inv c ChoreographyContext] ChoreographyContext
      by (intro ne) (force simp: queued_def intro!: exI [of _ "Choreo c"])
    then have "context_ok (sd_proc_num sd) (sd_heap ?sd) c (sd_pctxs sd ! c) \<longleftrightarrow>
        context_ok (sd_proc_num sd) (sd_heap sd) c (sd_pctxs sd ! c)"
      by (intro context_ok_heap) (auto simp: ChoreographyContext)
    then show ?thesis using inv c by (simp add: sched_inv_def contexts_ok_def)
  qed (use inv c in \<open>auto simp: sched_inv_def contexts_ok_def\<close>)
  have i1: "contexts_ok ?sd" using ctx inv by (simp add: sched_inv_def contexts_ok_def)
  have i2: "place_of ?sd b = pl \<and> b < sd_fresh sd" if "b \<in> set (queue_of sd pl)" for b pl
    using that inv p [of b] ne [of b] by (auto simp: sched_inv_def queued_def)
  have ids: "cr_id (sd_heap ?sd b) = cr_id (sd_heap sd b)" if "queued sd b" for b
    using ne [OF that] by simp
  have i3: "sd_id_cr sd crid = Some b \<longleftrightarrow> queued sd b \<and> b \<notin> W \<and> cr_id (sd_heap ?sd b) = crid" for crid b
    using inv ids unfolding sched_inv_def by metis
  have i4: "b = b'" if "queued sd b" "queued sd b'" "cr_id (sd_heap ?sd b) = cr_id (sd_heap ?sd b')" for b b'
    using that ids sched_inv_ids [OF inv] by metis
  show ?thesis
    unfolding sched_inv_def queue_of_update q
    using inv i1 i2 i3 i4 by (simp add: sched_inv_def del: sd_update_fields(1))
qed

section \<open>Registration and removal\<close>

lemma queued_fresh: "sched_inv sd W \<Longrightarrow> queued sd a \<Longrightarrow> a < sd_fresh sd"
  by (auto simp: sched_inv_def queued_def)

lemma ids_free:
  assumes inv: "sched_inv sd W" and "sd_id_cr sd crid = None"
    and "\<forall>b\<in>W. cr_id (sd_heap sd b) \<noteq> crid" and "queued sd b"
  shows "cr_id (sd_heap sd b) \<noteq> crid"
proof
  assume id: "cr_id (sd_heap sd b) = crid"
  then have "b \<notin> W" using assms(3) by auto
  then have "sd_id_cr sd crid = Some b" using inv id assms(4) by (simp add: sched_inv_def)
  then show False using assms(2) by simp
qed

text \<open>A routine joins a queue of the pool.\<close>

lemma pool_append_inv:
  assumes inv: "sched_inv sd W" and a: "a < sd_fresh sd" "\<not> queued sd a"
    and free: "sd_id_cr sd (cr_id cr) = None" "\<forall>b\<in>W. cr_id (sd_heap sd b) \<noteq> cr_id cr"
    and cr: "\<not> to_uint32 (cr_processor_id cr) < sd_proc_num sd" "cr_group_name cr = grp" "cr_priority cr = prio"
      "prio < MAX_PRIO" "cr_lock cr = cr_lock (sd_heap sd a)"
    and sd': "sd' = pool_append grp prio a (sd_update a (\<lambda>_. cr) (sd\<lparr>sd_id_cr := (sd_id_cr sd)(cr_id cr \<mapsto> a)\<rparr>))"
  shows "sched_inv sd' W \<and> frame sd sd' \<and> (\<forall>b. queued sd' b \<longleftrightarrow> queued sd b \<or> b = a)"
proof -
  have q: "queue_of sd' pl = (if pl = Pool grp prio then queue_of sd pl @ [a] else queue_of sd pl)" for pl
    by (cases pl) (auto simp: sd' pool_append_def)
  have heap: "sd_heap sd' = (sd_heap sd)(a := cr)" by (simp add: sd' pool_append_def)
  have un: "sched_inv (sd_update a (\<lambda>_. cr) sd) W" by (rule sched_inv_update_unqueued [OF inv a(2)])
  have place: "place_of sd' a = Pool grp prio"
    using cr by (simp add: place_of_def heap) (simp add: sd' pool_append_def)
  have ctx: "contexts_ok sd'"
    using un by (simp add: sched_inv_def contexts_ok_def sd' pool_append_def)
  have "sched_inv sd' W"
  proof (rule sched_inv_enqueue [OF inv a, where pl = "Pool grp prio"])
    show "cr_id (sd_heap sd b) \<noteq> cr_id (sd_heap sd' a)" if "queued sd b" for b
      using ids_free [OF inv free that] by (simp add: heap)
    show "distinct (queue_of sd' (Pool grp prio))"
      using inv a(2) unfolding q by (auto simp: sched_inv_def queued_def simp del: queue_of.simps)
  qed (use ctx place cr(4) in \<open>auto simp: q heap\<close>, simp_all add: sd' pool_append_def)
  moreover have "frame sd sd'" using cr(5) by (simp add: frame_def heap) (simp add: sd' pool_append_def)
  moreover have "b \<in> set (queue_of sd' pl) \<longleftrightarrow> b \<in> set (queue_of sd pl) \<or> (pl = Pool grp prio \<and> b = a)" for b pl
    unfolding q by auto
  then have "queued sd' b \<longleftrightarrow> queued sd b \<or> b = a" for b unfolding queued_def by blast
  ultimately show ?thesis by simp
qed


text \<open>A routine joins the queue of its processor.\<close>

lemma Enqueue_inv:
  assumes inv: "sched_inv sd W" and a: "a < sd_fresh sd" "\<not> queued sd a"
    and free: "sd_id_cr sd (cr_id cr) = None" "\<forall>b\<in>W. cr_id (sd_heap sd b) \<noteq> cr_id cr"
    and cr: "to_uint32 (cr_processor_id cr) = pid" "pid < sd_proc_num sd" "cr_lock cr = cr_lock (sd_heap sd a)"
    and sd': "sd' = ChoreographyContext_Enqueue pid a
      ((sd_update a (\<lambda>_. cr) sd)\<lparr>sd_id_cr := (sd_id_cr sd)(cr_id cr \<mapsto> a)\<rparr>)"
  shows "sched_inv sd' W \<and> frame sd sd' \<and> (\<forall>b. queued sd' b \<longleftrightarrow> queued sd b \<or> b = a)"
proof -
  have pid: "pid < length (sd_pctxs sd)" using inv cr(2) by (simp add: sched_inv_def contexts_ok_def)
  then have "context_ok (sd_proc_num sd) (sd_heap sd) pid (sd_pctxs sd ! pid)"
    using inv by (simp add: sched_inv_def contexts_ok_def)
  then obtain stop n queue where ctx: "sd_pctxs sd ! pid = ChoreographyContext stop n queue"
    using cr(2) by (cases "sd_pctxs sd ! pid") auto
  let ?ctx = "ChoreographyContext stop n (multimap_emplace (cr_priority cr) a queue)"
  have eq: "sd' = ((sd_update a (\<lambda>_. cr) sd)\<lparr>sd_id_cr := (sd_id_cr sd)(cr_id cr \<mapsto> a)\<rparr>)
      \<lparr>sd_pctxs := (sd_pctxs sd)[pid := ?ctx]\<rparr>"
    by (simp add: sd' ChoreographyContext_Enqueue_def ctx)
  have heap: "sd_heap sd' = (sd_heap sd)(a := cr)" by (simp add: eq)
  have q: "queue_of sd' pl = (if pl = Choreo pid then map snd (multimap_emplace (cr_priority cr) a queue)
      else queue_of sd pl)" for pl
    using pid cr(2) by (cases pl) (auto simp: eq)
  have q0: "queue_of sd (Choreo pid) = map snd queue" using cr(2) by (simp add: ctx)
  then have anq: "a \<notin> snd ` set queue" using a(2) unfolding queued_def by (metis set_map)
  have un: "sched_inv (sd_update a (\<lambda>_. cr) sd) W" by (rule sched_inv_update_unqueued [OF inv a(2)])
  have "context_ok (sd_proc_num sd) (sd_heap sd') pid ?ctx"
    using choreography_ok_inv [OF un, of pid stop n queue] pid ctx cr(2) sorted_multimap_emplace
    by (fastforce simp: heap choreography_ok_def)
  then have ctxs: "contexts_ok sd'"
    using un pid by (auto simp: sched_inv_def contexts_ok_def eq heap nth_list_update)
  have "sched_inv sd' W"
  proof (rule sched_inv_enqueue [OF inv a, where pl = "Choreo pid"])
    show "cr_id (sd_heap sd b) \<noteq> cr_id (sd_heap sd' a)" if "queued sd b" for b
      using ids_free [OF inv free that] by (simp add: heap)
    show "set (queue_of sd' (Choreo pid)) = insert a (set (queue_of sd (Choreo pid)))"
      unfolding q q0 by simp
    have "distinct (queue_of sd (Choreo pid))" using inv unfolding sched_inv_def by blast
    then show "distinct (queue_of sd' (Choreo pid))"
      unfolding q q0 using anq by (simp add: mset_emplace_distinct)
    show "queue_of sd' pl' = queue_of sd pl'" if "pl' \<noteq> Choreo pid" for pl'
      using that by (simp only: q if_False)
    show "place_of sd' a = Choreo pid"
      using cr by (simp add: place_of_def heap Let_def) (simp add: eq)
  qed (use ctxs in \<open>auto simp: heap\<close>, simp_all add: eq)
  moreover have "frame sd sd'" using cr(3) by (simp add: frame_def heap) (simp add: eq)
  moreover have "queued sd' b \<longleftrightarrow> queued sd b \<or> b = a" for b
  proof -
    have "b \<in> set (queue_of sd' pl) \<longleftrightarrow> b \<in> set (queue_of sd pl) \<or> (pl = Choreo pid \<and> b = a)" for pl
      using q0 unfolding q by auto
    then show ?thesis unfolding queued_def by blast
  qed
  ultimately show ?thesis by simp
qed

lemma SchedulerChoreography_DispatchTask_inv:
  assumes inv: "sched_inv sd W" and a: "a < sd_fresh sd" "\<not> queued sd a"
    and W: "\<forall>b\<in>W. cr_id (sd_heap sd b) \<noteq> cr_id (sd_heap sd a)"
    and d: "SchedulerChoreography_DispatchTask a sd = (Returned r, sd')"
  shows "sched_inv sd' W \<and> frame sd sd' \<and> (r \<longleftrightarrow> sd_id_cr sd (cr_id (sd_heap sd a)) = None) \<and>
    (\<forall>b. queued sd' b \<longleftrightarrow> queued sd b \<or> (r \<and> b = a))"
proof -
  define cr where "cr = SchedulerChoreography_assign sd (sd_heap sd a)"
  have same: "cr_id cr = cr_id (sd_heap sd a)" "cr_lock cr = cr_lock (sd_heap sd a)"
    by (auto simp: cr_def SchedulerChoreography_assign_def split: option.splits)
  let ?pid = "to_uint32 (cr_processor_id cr)"
  let ?sd1 = "sd_update a (\<lambda>_. cr) sd"
  let ?sd2 = "?sd1\<lparr>sd_id_cr := (sd_id_cr sd)(cr_id cr \<mapsto> a)\<rparr>"
  let ?cr2 = "(clamp_priority cr)\<lparr>cr_group_name := DEFAULT_GROUP_NAME\<rparr>"
  have same2: "cr_id ?cr2 = cr_id cr" "cr_processor_id ?cr2 = cr_processor_id cr" "cr_lock ?cr2 = cr_lock cr"
    "cr_priority ?cr2 < MAX_PRIO"
    by (simp_all add: clamp_priority_def MAX_PRIO_def)
  consider (old) "sd_id_cr sd (cr_id cr) \<noteq> None" "sd' = ?sd1" "\<not> r"
    | (choreo) "sd_id_cr sd (cr_id cr) = None" "?pid < sd_proc_num sd" "r" "sd' = ChoreographyContext_Enqueue ?pid a ?sd2"
    | (pool) "sd_id_cr sd (cr_id cr) = None" "\<not> ?pid < sd_proc_num sd" "r"
      "sd' = pool_append DEFAULT_GROUP_NAME (cr_priority ?cr2) a (sd_update a (\<lambda>_. ?cr2) ?sd2)"
    using d by (auto simp: SchedulerChoreography_DispatchTask_def Let_def cr_def [symmetric] split: if_splits)
  then show ?thesis
  proof cases
    case old
    then show ?thesis
      using sched_inv_update_unqueued [OF inv a(2), of "\<lambda>_. cr"] same
      by (auto simp: frame_def queued_def)
  next
    case choreo
    from Enqueue_inv [OF inv a choreo(1) _ refl choreo(2) same(2) choreo(4)] W same(1) choreo
    show ?thesis by simp
  next
    case pool
    have eq: "sd_update a (\<lambda>_. ?cr2) ?sd2 =
        sd_update a (\<lambda>_. ?cr2) (sd\<lparr>sd_id_cr := (sd_id_cr sd)(cr_id ?cr2 \<mapsto> a)\<rparr>)"
      using same2(1) by (simp add: sd_update_def)
    have "sched_inv sd' W \<and> frame sd sd' \<and> (\<forall>b. queued sd' b \<longleftrightarrow> queued sd b \<or> b = a)"
      by (rule pool_append_inv [OF inv a _ _ _ _ _ _ _ pool(4) [unfolded eq]])
        (use pool(1,2) W same same2 in auto)
    with pool same(1) show ?thesis by simp
  qed
qed

text \<open>Removal from the queue of a routine whose removal has begun.\<close>

definition finished :: "nat \<Rightarrow> 'z Scheduler_scheme \<Rightarrow> nat set \<Rightarrow> bool outcome \<times> 'z Scheduler_scheme \<Rightarrow> bool" where
  "finished a sd W r \<longleftrightarrow>
     (if cr_lock (sd_heap sd a) then r = (Spinning, sd_update a CRoutine_Stop sd)
      else fst r = Returned True \<and> sched_inv (snd r) (W - {a}) \<and> frame sd (snd r) \<and>
        (\<forall>b. queued (snd r) b \<longleftrightarrow> b \<noteq> a \<and> queued sd b))"

lemma CRoutine_Stop_key [simp]: "same_key cr (CRoutine_Stop cr)"
  by (simp add: same_key_def CRoutine_Stop_def)

lemma ClassicContext_RemoveCRoutine_finished:
  assumes inv: "sched_inv sd W" and a: "a \<in> W" and pl: "place_of sd a = Pool grp prio"
  shows "finished a sd W (ClassicContext_RemoveCRoutine a sd)"
proof -
  have qa: "queued sd a" using inv a by (simp add: sched_inv_def)
  then have mem: "a \<in> set (sd_cr_group sd grp prio)" using queued_place [OF inv] pl by simp
  have key: "cr_group_name (sd_heap sd a) = grp" "cr_priority (sd_heap sd a) = prio"
    using pl by (auto simp: place_of_def Let_def split: if_splits)
  have prio: "prio < MAX_PRIO"
  proof (rule ccontr)
    assume "\<not> prio < MAX_PRIO"
    then have "sd_cr_group sd grp prio = []" using inv by (simp add: sched_inv_def)
    with mem show False by simp
  qed
  have qd: "queued sd b" if "b \<in> set (sd_cr_group sd grp prio)" for b
    using that unfolding queued_def by (metis queue_of.simps(1))
  have found: "find_crid (cr_id (sd_heap sd a)) (sd_heap sd) (sd_cr_group sd grp prio) = Some a"
    unfolding find_crid_def
    by (rule find_unique [OF mem]) (auto intro: sched_inv_ids [OF inv] simp: qd qa)
  show ?thesis
  proof (cases "cr_lock (sd_heap sd a)")
    case True
    then show ?thesis
      by (simp add: ClassicContext_RemoveCRoutine_def Let_def key prio found finished_def
          CRoutine_Acquire_def CRoutine_Stop_def)
  next
    case False
    let ?f = "\<lambda>cr. CRoutine_Release (snd (CRoutine_Acquire (CRoutine_Stop cr)))"
    let ?sd = "(sd_update a ?f sd)
        \<lparr>sd_cr_group := (sd_cr_group sd)(grp := (sd_cr_group sd grp)(prio := remove1 a (sd_cr_group sd grp prio)))\<rparr>"
    have r: "ClassicContext_RemoveCRoutine a sd = (Returned True, ?sd)"
      using False
      by (simp add: ClassicContext_RemoveCRoutine_def Let_def key prio found CRoutine_Acquire_def
          CRoutine_Stop_def CRoutine_Release_def sd_update_def)
    have k: "same_key cr (?f cr)" for cr by (simp add: same_key_def cyber_defs)
    have q: "queue_of ?sd pl' = (if pl' = Pool grp prio then remove1 a (queue_of sd pl') else queue_of sd pl')" for pl'
      by (cases pl') auto
    have "sched_inv (sd_update a ?f sd) W" by (rule sched_inv_update [OF inv]) (rule k)
    then have c: "contexts_ok ?sd" by (simp add: sched_inv_def contexts_ok_def)
    have "sched_inv ?sd (W - {a}) \<and> (\<forall>b. queued ?sd b \<longleftrightarrow> b \<noteq> a \<and> queued sd b)"
      by (rule sched_inv_dequeue [OF inv a]) (use c k in \<open>simp_all add: q pl del: queue_of.simps\<close>)
    moreover have "frame sd ?sd" using False by (simp add: frame_def cyber_defs)
    ultimately show ?thesis using False by (simp add: r finished_def)
  qed
qed

lemma sorted_wrt_remove1: "sorted_wrt P (map f xs) \<Longrightarrow> sorted_wrt P (map f (remove1 x xs))"
  by (induction xs) (auto dest: notin_set_remove1)

lemma context_ok_remove1:
  "context_ok m h c (ChoreographyContext stop n queue) \<Longrightarrow>
    context_ok m h c (ChoreographyContext stop n (remove1 e queue))"
  using set_remove1_subset [of e queue] by (auto simp: sorted_wrt_remove1)

lemma ChoreographyContext_RemoveCRoutine_finished:
  assumes inv: "sched_inv sd W" and a: "a \<in> W" and pl: "place_of sd a = Choreo c"
  shows "finished a sd W (ChoreographyContext_RemoveCRoutine c (cr_id (sd_heap sd a)) sd)"
proof -
  have c: "c < sd_proc_num sd" using pl by (auto simp: place_of_def Let_def split: if_splits)
  then have cl: "c < length (sd_pctxs sd)" using inv by (simp add: sched_inv_def contexts_ok_def)
  then have "context_ok (sd_proc_num sd) (sd_heap sd) c (sd_pctxs sd ! c)"
    using inv by (simp add: sched_inv_def contexts_ok_def)
  then obtain stop n queue where ctx: "sd_pctxs sd ! c = ChoreographyContext stop n queue"
    using c by (cases "sd_pctxs sd ! c") auto
  have q0: "queue_of sd (Choreo c) = map snd queue" using c by (simp add: ctx)
  have dist: "distinct (map snd queue)" using inv q0 unfolding sched_inv_def by metis
  have qa: "queued sd a" using inv a by (simp add: sched_inv_def)
  then have "a \<in> set (map snd queue)" using queued_place [OF inv, of a] unfolding pl q0 by simp
  then obtain k where mem: "(k, a) \<in> set queue" by auto
  have qd: "queued sd (snd e)" if "e \<in> set queue" for e
    using that q0 unfolding queued_def by (metis image_eqI set_map)
  have uniq: "e = (k, a)" if "e \<in> set queue" "snd e = a" for e
    using that mem dist by (metis distinct_map inj_on_def snd_conv)
  have found: "List.find (\<lambda>e. cr_id (sd_heap sd (snd e)) = cr_id (sd_heap sd a)) queue = Some (k, a)"
  proof (rule find_unique [OF mem])
    fix e
    assume e: "e \<in> set queue" "cr_id (sd_heap sd (snd e)) = cr_id (sd_heap sd a)"
    show "e = (k, a)" by (rule uniq [OF e(1) sched_inv_ids [OF inv qd [OF e(1)] qa e(2)]])
  qed simp
  have rem: "map snd (remove1 (k, a) queue) = remove1 a (map snd queue)"
    using dist mem by (induction queue) (auto simp: image_iff)
  show ?thesis
  proof (cases "cr_lock (sd_heap sd a)")
    case True
    then show ?thesis
      by (simp add: ChoreographyContext_RemoveCRoutine_def ctx Let_def found finished_def
          CRoutine_Acquire_def CRoutine_Stop_def)
  next
    case False
    let ?f = "\<lambda>cr. CRoutine_Release (snd (CRoutine_Acquire (CRoutine_Stop cr)))"
    let ?ctx = "ChoreographyContext stop n (remove1 (k, a) queue)"
    let ?sd = "(sd_update a ?f sd)\<lparr>sd_pctxs := (sd_pctxs sd)[c := ?ctx]\<rparr>"
    have r: "ChoreographyContext_RemoveCRoutine c (cr_id (sd_heap sd a)) sd = (Returned True, ?sd)"
      using False
      by (simp add: ChoreographyContext_RemoveCRoutine_def ctx Let_def found CRoutine_Acquire_def
          CRoutine_Stop_def CRoutine_Release_def sd_update_def)
    have key: "same_key cr (?f cr)" for cr by (simp add: same_key_def cyber_defs)
    have q: "queue_of ?sd pl' = (if pl' = Choreo c then remove1 a (queue_of sd pl') else queue_of sd pl')" for pl'
      using c cl q0 rem by (cases pl') auto
    have u: "sched_inv (sd_update a ?f sd) W" by (rule sched_inv_update [OF inv]) (rule key)
    have "context_ok (sd_proc_num sd) (sd_heap (sd_update a ?f sd)) c (ChoreographyContext stop n queue)"
      using u cl ctx unfolding sched_inv_def contexts_ok_def by (metis sd_update_fields(4,5))
    then have "context_ok (sd_proc_num sd) (sd_heap (sd_update a ?f sd)) c ?ctx"
      by (rule context_ok_remove1)
    then have ok: "contexts_ok ?sd"
      using u cl by (auto simp: sched_inv_def contexts_ok_def nth_list_update)
    have "sched_inv ?sd (W - {a}) \<and> (\<forall>b. queued ?sd b \<longleftrightarrow> b \<noteq> a \<and> queued sd b)"
      by (rule sched_inv_dequeue [OF inv a]) (use ok key in \<open>simp_all add: q pl del: queue_of.simps\<close>)
    moreover have "frame sd ?sd" using False by (simp add: frame_def cyber_defs)
    ultimately show ?thesis using False by (simp add: r finished_def)
  qed
qed

text \<open>Notifying flags a waiting routine and counts; nothing moves.\<close>

lemma flag_waiting_key [simp]: "same_key cr (flag_waiting cr)" "cr_lock (flag_waiting cr) = cr_lock cr"
  "cr_group_name (flag_waiting cr) = cr_group_name cr" "cr_processor_id (flag_waiting cr) = cr_processor_id cr"
  by (simp_all add: same_key_def flag_waiting_def CRoutine_SetUpdateFlag_def)

lemma flag_inv:
  assumes "sched_inv sd W"
  shows "sched_inv (sd_update a flag_waiting sd) W \<and> frame sd (sd_update a flag_waiting sd) \<and>
    (\<forall>b. queued (sd_update a flag_waiting sd) b = queued sd b)"
  using sched_inv_update [OF assms, of a flag_waiting] by (simp add: frame_def queued_def)


lemma SchedulerChoreography_NotifyProcessor_inv:
  assumes "sched_inv sd W" and "SchedulerChoreography_NotifyProcessor crid sd = (r, sd')"
  shows "sched_inv sd' W \<and> frame sd sd' \<and> (\<forall>b. queued sd' b = queued sd b)"
proof -
  consider "sd' = sd"
    | a where "sd' = ClassicContext_Notify (cr_group_name (sd_heap sd a)) (sd_update a flag_waiting sd)"
    | a pid where "sd' = (sd_update a flag_waiting sd)
        \<lparr>sd_pctxs := (sd_pctxs sd)[pid := ChoreographyContext_Notify (sd_pctxs sd ! pid)]\<rparr>"
    using assms(2)
    by (auto simp: SchedulerChoreography_NotifyProcessor_def Let_def split: if_splits option.splits)
  then show ?thesis
  proof cases
    case 2
    then show ?thesis
      using flag_inv [OF assms(1), of a]
      by (simp add: ClassicContext_Notify_def sched_inv_notify_grp queued_notify_grp frame_def)
  next
    case 3
    have "same_queue ctx (ChoreographyContext_Notify ctx)" for ctx by (cases ctx) simp_all
    then have "list_all2 same_queue (sd_pctxs (sd_update a flag_waiting sd))
        ((sd_pctxs sd)[pid := ChoreographyContext_Notify (sd_pctxs sd ! pid)])"
      by (simp add: list_all2_update_same)
    from sched_inv_pctxs [OF this, of W] show ?thesis
      using flag_inv [OF assms(1), of a] by (simp add: 3 frame_def)
  qed (use assms in simp)
qed

lemma registered_id:
  assumes inv: "sched_inv sd W" and "sd_id_cr sd crid = Some a"
  shows "cr_id (sd_heap sd a) = crid"
  using assms by (simp add: sched_inv_def)

section \<open>The contract of a scheduler\<close>

lemma update_excl:
  assumes excl: "\<And>i j b. m i = Some b \<Longrightarrow> m j = Some b \<Longrightarrow> i = j"
    and i: "(m(c := v)) i = Some b" and j: "(m(c := v)) j = Some b" and v: "\<And>a. v = Some a \<Longrightarrow> a \<notin> ran m"
  shows "i = j"
proof (cases "i = c")
  case True
  then have "b \<notin> ran m" using i v by simp
  then show ?thesis using True j ranI [of m j b] by (cases "j = c") auto
next
  case False
  then have mi: "m i = Some b" using i by simp
  show ?thesis
  proof (cases "j = c")
    case True
    then have "b \<notin> ran m" using j v by simp
    then show ?thesis using ranI [of m i b] mi by simp
  next
    case False
    then have "m j = Some b" using j by simp
    then show ?thesis by (rule excl [OF mi])
  qed
qed

lemma ran_drop:
  assumes "m c = Some a" and "\<And>i. m i = Some a \<Longrightarrow> i = c"
  shows "ran (m(c := None)) = ran m - {a}"
proof (intro set_eqI iffI)
  fix b
  assume "b \<in> ran (m(c := None))"
  then obtain i where "i \<noteq> c" "m i = Some b" by (auto simp: ran_def split: if_splits)
  then show "b \<in> ran m - {a}" using assms(2) [of i] by (auto intro: ranI)
next
  fix b
  assume "b \<in> ran m - {a}"
  then obtain i where "m i = Some b" "b \<noteq> a" by (auto simp: ran_def)
  then have "(m(c := None)) i = Some b" using assms(1) by auto
  then show "b \<in> ran (m(c := None))" by (rule ranI)
qed

locale scheduler_policy =
  fixes dispatch :: "nat \<Rightarrow> 'z Scheduler_scheme \<Rightarrow> bool outcome \<times> 'z Scheduler_scheme"
    and remove :: "nat \<Rightarrow> 'z Scheduler_scheme \<Rightarrow> bool outcome \<times> 'z Scheduler_scheme"
    and finish :: "nat \<Rightarrow> 'z Scheduler_scheme \<Rightarrow> bool outcome \<times> 'z Scheduler_scheme"
    and notify :: "nat \<Rightarrow> 'z Scheduler_scheme \<Rightarrow> bool \<times> 'z Scheduler_scheme"
    and num_ok :: "nat \<Rightarrow> bool"
  assumes dispatch_inv: "sched_inv sd W \<Longrightarrow> num_ok (sd_proc_num sd) \<Longrightarrow> a < sd_fresh sd \<Longrightarrow> \<not> queued sd a \<Longrightarrow>
      \<forall>b\<in>W. cr_id (sd_heap sd b) \<noteq> cr_id (sd_heap sd a) \<Longrightarrow> dispatch a sd = (Returned r, sd') \<Longrightarrow>
      sched_inv sd' W \<and> frame sd sd' \<and> (r \<longleftrightarrow> sd_id_cr sd (cr_id (sd_heap sd a)) = None) \<and>
      (\<forall>b. queued sd' b \<longleftrightarrow> queued sd b \<or> (r \<and> b = a))"
    and finish_inv: "sched_inv sd W \<Longrightarrow> num_ok (sd_proc_num sd) \<Longrightarrow> a \<in> W \<Longrightarrow> finished a sd W (finish a sd)"
    and remove_finish: "sched_inv sd W \<Longrightarrow> remove crid sd = (case sd_id_cr sd crid of None \<Rightarrow> (Returned False, sd)
      | Some a \<Rightarrow> finish a ((sd_update a CRoutine_Stop sd)\<lparr>sd_id_cr := (sd_id_cr sd)(crid := None)\<rparr>))"
    and notify_inv: "sched_inv sd W \<Longrightarrow> notify crid sd = (r, sd') \<Longrightarrow>
      sched_inv sd' W \<and> frame sd sd' \<and> (\<forall>b. queued sd' b = queued sd b)"
begin

text \<open>
  The invariant of the running system: the scheduler's invariant with the routines whose removal
  waits, one waiting removal per routine, and every held routine queued and run by exactly one processor.
\<close>

definition sys_inv :: "'z Scheduler_scheme sched_sys \<Rightarrow> bool" where
  "sys_inv s \<longleftrightarrow> sched_inv (ss_sd s) (ran (ss_rm s)) \<and> num_ok (sd_proc_num (ss_sd s)) \<and>
     (\<forall>t t' a. ss_rm s t = Some a \<longrightarrow> ss_rm s t' = Some a \<longrightarrow> t = t') \<and>
     (\<forall>a. cr_lock (sd_heap (ss_sd s) a) \<longleftrightarrow> a \<in> ran (ss_proc s)) \<and>
     (\<forall>c c' a. ss_proc s c = Some a \<longrightarrow> ss_proc s c' = Some a \<longrightarrow> c = c') \<and>
     (\<forall>a\<in>ran (ss_proc s). queued (ss_sd s) a)"

lemma sys_invI:
  assumes "sched_inv (ss_sd s) (ran (ss_rm s))" and "num_ok (sd_proc_num (ss_sd s))"
    and "\<And>t t' a. ss_rm s t = Some a \<Longrightarrow> ss_rm s t' = Some a \<Longrightarrow> t = t'"
    and "\<And>a. cr_lock (sd_heap (ss_sd s) a) \<longleftrightarrow> a \<in> ran (ss_proc s)"
    and "\<And>c c' a. ss_proc s c = Some a \<Longrightarrow> ss_proc s c' = Some a \<Longrightarrow> c = c'"
    and "\<And>a. a \<in> ran (ss_proc s) \<Longrightarrow> queued (ss_sd s) a"
  shows "sys_inv s"
  unfolding sys_inv_def using assms by blast

lemma sys_invD:
  assumes "sys_inv s"
  shows "sched_inv (ss_sd s) (ran (ss_rm s))" "num_ok (sd_proc_num (ss_sd s))"
    "\<And>t t' a. ss_rm s t = Some a \<Longrightarrow> ss_rm s t' = Some a \<Longrightarrow> t = t'"
    "\<And>a. cr_lock (sd_heap (ss_sd s) a) \<longleftrightarrow> a \<in> ran (ss_proc s)"
    "\<And>c c' a. ss_proc s c = Some a \<Longrightarrow> ss_proc s c' = Some a \<Longrightarrow> c = c'"
    "\<And>a. a \<in> ran (ss_proc s) \<Longrightarrow> queued (ss_sd s) a"
  using assms unfolding sys_inv_def by blast+

lemma sys_inv_frame:
  assumes inv: "sys_inv s" and "sched_inv sd (ran (ss_rm s))" and "frame (ss_sd s) sd"
    and "\<And>b. queued (ss_sd s) b \<Longrightarrow> queued sd b"
  shows "sys_inv (s\<lparr>ss_sd := sd\<rparr>)"
proof (rule sys_invI, goal_cases)
  case (3 t t' a)
  then show ?case using sys_invD(3) [OF inv] by simp
next
  case (5 c c' a)
  then show ?case using sys_invD(5) [OF inv] by simp
qed (use assms sys_invD [OF inv] in \<open>simp_all add: frame_def\<close>)

lemma create_inv:
  assumes inv: "sched_inv sd W" "num_ok (sd_proc_num sd)"
    and c: "CreateTask dispatch hash now name visitor sd = Some (Returned r, sd')"
    and W: "\<forall>b\<in>W. \<forall>g. RegisterTaskName hash name (sd_global sd) \<noteq> Some (cr_id (sd_heap sd b), g)"
    and lock: "\<not> cr_lock (sd_heap sd (sd_fresh sd))"
  shows "sched_inv sd' W \<and> frame sd sd' \<and> (\<forall>b. queued sd b \<longrightarrow> queued sd' b) \<and>
    (\<forall>b. queued sd' b \<longrightarrow> queued sd b \<or> b = sd_fresh sd)"
proof (cases "sd_stop sd")
  case True
  then have "sd' = sd" using c by (simp add: CreateTask_def)
  then show ?thesis using inv by simp
next
  case False
  let ?a = "sd_fresh sd"
  obtain task_id g where reg: "RegisterTaskName hash name (sd_global sd) = Some (task_id, g)"
    using c False by (auto simp: CreateTask_def split: option.splits)
  let ?sd0 = "sd\<lparr>sd_global := g, sd_fresh := Suc ?a\<rparr>"
  let ?sd1 = "sd_update ?a (\<lambda>_. (CRoutine_ctor now)\<lparr>cr_id := task_id, cr_name := name\<rparr>) ?sd0"
  obtain ok where d: "dispatch ?a ?sd1 = (Returned ok, sd')"
    using c False reg
    by (auto simp: CreateTask_def Let_def split: prod.splits outcome.splits bool.splits)
  have q: "queue_of ?sd0 pl = queue_of sd pl" for pl by (cases pl) simp_all
  have q0: "queued ?sd0 b = queued sd b" for b by (simp add: queued_def q)
  have na: "\<not> queued sd ?a" using queued_fresh [OF inv(1), of ?a] by auto
  have "sched_inv ?sd0 W"
    using inv(1) by (auto simp: sched_inv_def contexts_ok_def q q0 place_of_def less_Suc_eq)
  then have s1: "sched_inv ?sd1 W" by (rule sched_inv_update_unqueued) (simp add: q0 na)
  have q1: "queued ?sd1 b = queued sd b" for b by (simp add: queued_def q)
  have Wq: "b \<noteq> ?a" if "b \<in> W" for b using that inv(1) na by (auto simp: sched_inv_def)
  have "sched_inv sd' W \<and> frame ?sd1 sd' \<and> (ok \<longleftrightarrow> sd_id_cr ?sd1 (cr_id (sd_heap ?sd1 ?a)) = None) \<and>
      (\<forall>b. queued sd' b \<longleftrightarrow> queued ?sd1 b \<or> (ok \<and> b = ?a))"
    by (rule dispatch_inv [OF s1 _ _ _ _ d]) (use inv(2) W reg Wq in \<open>auto simp: q1 na\<close>)
  moreover have "frame sd ?sd1" using lock by (simp add: frame_def CRoutine_ctor_def)
  ultimately show ?thesis by (auto simp: q1 intro: frame_trans)
qed

lemma remove_inv:
  assumes inv: "sched_inv sd W" "num_ok (sd_proc_num sd)" and crid: "sd_id_cr sd crid = Some a"
  shows "(if cr_lock (sd_heap sd a)
      then fst (remove crid sd) = Spinning \<and> sched_inv (snd (remove crid sd)) (insert a W) \<and>
        (\<forall>b. queued (snd (remove crid sd)) b = queued sd b)
      else fst (remove crid sd) = Returned True \<and> sched_inv (snd (remove crid sd)) W \<and>
        (\<forall>b. queued (snd (remove crid sd)) b \<longleftrightarrow> b \<noteq> a \<and> queued sd b)) \<and>
    frame sd (snd (remove crid sd)) \<and> a \<notin> W \<and> queued sd a"
proof -
  let ?sd1 = "(sd_update a CRoutine_Stop sd)\<lparr>sd_id_cr := (sd_id_cr sd)(crid := None)\<rparr>"
  have r: "remove crid sd = finish a ?sd1" by (simp add: remove_finish [OF inv(1)] crid)
  have "sched_inv (sd_update a CRoutine_Stop sd) W" by (rule sched_inv_update [OF inv(1)]) simp
  from sched_inv_unregister [OF this, of crid a] crid
  have u: "sched_inv ?sd1 (insert a W)" "a \<notin> W" by simp_all
  have qa: "queued sd a" using inv(1) crid by (simp add: sched_inv_def)
  have q: "queue_of ?sd1 pl = queue_of sd pl" for pl by (cases pl) simp_all
  have fr: "frame sd ?sd1" by (simp add: frame_def CRoutine_Stop_def)
  have fin: "finished a ?sd1 (insert a W) (finish a ?sd1)"
    by (rule finish_inv [OF u(1)]) (use inv(2) in simp_all)
  have l: "cr_lock (sd_heap ?sd1 a) = cr_lock (sd_heap sd a)" by (simp add: CRoutine_Stop_def)
  show ?thesis
  proof (cases "cr_lock (sd_heap sd a)")
    case True
    then have f: "finish a ?sd1 = (Spinning, sd_update a CRoutine_Stop ?sd1)"
      using fin l by (simp add: finished_def)
    have "sched_inv (sd_update a CRoutine_Stop ?sd1) (insert a W)"
      by (rule sched_inv_update [OF u(1)]) simp
    with True f u(2) qa show ?thesis
      unfolding r by (simp add: queued_def q frame_def CRoutine_Stop_def)
  next
    case False
    then show ?thesis
      using fin l u(2) qa fr unfolding r finished_def by (auto simp: queued_def q intro: frame_trans)
  qed
qed

lemma fresh_unlocked: "sys_inv s \<Longrightarrow> \<not> cr_lock (sd_heap (ss_sd s) (sd_fresh (ss_sd s)))"
  using queued_fresh by (fastforce simp: sys_inv_def)

text \<open>The steps that take or give back a routine change its lock; all others keep the frame.\<close>

lemma next_inv:
  assumes inv: "sys_inv s" and c: "c < length (sd_pctxs (ss_sd s))" "ss_proc s c = None"
    and n: "NextRoutine now c (ss_sd s) = (Some a, sd)"
  shows "sys_inv (s\<lparr>ss_sd := sd, ss_proc := (ss_proc s)(c \<mapsto> a)\<rparr>) \<and>
    (\<forall>b. queued sd b = queued (ss_sd s) b) \<and> sd_fresh sd = sd_fresh (ss_sd s)"
proof -
  let ?sd = "ss_sd s"
  have si: "sched_inv ?sd (ran (ss_rm s))" using inv by (simp add: sys_inv_def)
  obtain h where h: "sd = ?sd\<lparr>sd_heap := h\<rparr>" "a \<in> set (context_members ?sd c)" "runnable now (sd_heap ?sd a)"
      "h a = taken now (sd_heap ?sd a)" "\<forall>b. b \<noteq> a \<longrightarrow> scanned (sd_heap ?sd b) (h b)"
    using NextRoutine_Some [OF si c(1) n] by blast
  have k: "same_key (sd_heap ?sd b) (h b)" for b
    using h(4,5) scanned_frame [of "sd_heap ?sd b" "h b"] by (cases "b = a") (auto simp: same_key_def)
  have l: "cr_lock (h b) = (b = a \<or> cr_lock (sd_heap ?sd b))" for b
    using h(4,5) scanned_frame(5) [of "sd_heap ?sd b" "h b"] by (cases "b = a") auto
  have q: "queue_of sd pl = queue_of ?sd pl" for pl by (cases pl) (simp_all add: h(1))
  have na: "a \<notin> ran (ss_proc s)" using inv h(3) by (auto simp: sys_inv_def runnable_def)
  have "sched_inv sd (ran (ss_rm s))" unfolding h(1) by (rule sched_inv_heap [OF si k])
  moreover have "ran ((ss_proc s)(c \<mapsto> a)) = insert a (ran (ss_proc s))"
    using c(2) by (simp add: ran_map_upd)
  moreover have "queued ?sd a" by (rule context_members_queued [OF si c(1) h(2)])
  ultimately have "sys_inv (s\<lparr>ss_sd := sd, ss_proc := (ss_proc s)(c \<mapsto> a)\<rparr>)"
  proof (intro sys_invI, goal_cases)
    case (3 t t' b)
    then show ?case using sys_invD(3) [OF inv] by simp
  next
    case (5 i j b)
    then have p: "((ss_proc s)(c \<mapsto> a)) i = Some b" "((ss_proc s)(c \<mapsto> a)) j = Some b" by simp_all
    show ?case
      by (rule update_excl [OF _ p], erule (1) sys_invD(5) [OF inv]) (use na in simp)
  qed (use sys_invD(2,4,6) [OF inv] in \<open>auto simp: h(1) l queued_def q [unfolded h(1)]\<close>)
  then show ?thesis by (simp add: queued_def q [unfolded h(1)] h(1))
qed

lemma resume_inv:
  assumes inv: "sys_inv s" and c: "ss_proc s c = Some a"
  shows "sys_inv (s\<lparr>ss_sd := Processor_Resume now slice a (ss_sd s), ss_proc := (ss_proc s)(c := None)\<rparr>) \<and>
    (\<forall>b. queued (Processor_Resume now slice a (ss_sd s)) b = queued (ss_sd s) b) \<and>
    sd_fresh (Processor_Resume now slice a (ss_sd s)) = sd_fresh (ss_sd s)"
proof -
  let ?f = "\<lambda>cr. CRoutine_Release (snd (CRoutine_Resume now slice cr))"
  have si: "sched_inv (ss_sd s) (ran (ss_rm s))" using inv by (simp add: sys_inv_def)
  have "sched_inv (sd_update a ?f (ss_sd s)) (ran (ss_rm s))"
    by (rule sched_inv_update [OF si]) (simp add: same_key_def CRoutine_Release_def)
  moreover have "ran ((ss_proc s)(c := None)) = ran (ss_proc s) - {a}"
    by (rule ran_drop) (use c sys_invD(5) [OF inv] in blast)+
  ultimately have "sys_inv (s\<lparr>ss_sd := sd_update a ?f (ss_sd s), ss_proc := (ss_proc s)(c := None)\<rparr>)"
  proof (intro sys_invI, goal_cases)
    case (3 t t' b)
    then show ?case using sys_invD(3) [OF inv] by simp
  next
    case (5 i j b)
    then have p: "((ss_proc s)(c := None)) i = Some b" "((ss_proc s)(c := None)) j = Some b" by simp_all
    show ?case by (rule update_excl [OF _ p], erule (1) sys_invD(5) [OF inv]) simp
  qed (use sys_invD(2,4,6) [OF inv] in \<open>auto simp: queued_def CRoutine_Release_def\<close>)
  then show ?thesis by (simp add: Processor_Resume_def queued_def)
qed

lemma wait_inv:
  assumes inv: "sys_inv s" and c: "c < length (sd_pctxs (ss_sd s))"
    and n: "NextRoutine now c (ss_sd s) = (None, sd)"
  shows "sys_inv (s\<lparr>ss_sd := ProcessorContext_Wait c sd\<rparr>) \<and>
    (\<forall>b. queued (ProcessorContext_Wait c sd) b = queued (ss_sd s) b) \<and>
    frame (ss_sd s) (ProcessorContext_Wait c sd)"
proof -
  let ?sd = "ss_sd s"
  have si: "sched_inv ?sd (ran (ss_rm s))" using inv by (simp add: sys_inv_def)
  obtain h where h: "sd = ?sd\<lparr>sd_heap := h\<rparr>" "\<forall>b. scanned (sd_heap ?sd b) (h b)"
    using NextRoutine_None [OF si c n] by blast
  have k: "same_key (sd_heap ?sd b) (h b) \<and> cr_lock (h b) = cr_lock (sd_heap ?sd b)" for b
    using h(2) scanned_frame [of "sd_heap ?sd b" "h b"] by (simp add: same_key_def)
  have q: "queue_of sd pl = queue_of ?sd pl" for pl by (cases pl) (simp_all add: h(1))
  have s1: "sched_inv sd (ran (ss_rm s))" unfolding h(1) by (rule sched_inv_heap [OF si]) (simp add: k)
  have "frame ?sd sd" using k by (simp add: frame_def h(1))
  moreover note ProcessorContext_Wait_inv [OF s1, of c]
  ultimately have "frame ?sd (ProcessorContext_Wait c sd)"
      "sched_inv (ProcessorContext_Wait c sd) (ran (ss_rm s))"
      "\<And>b. queued (ProcessorContext_Wait c sd) b = queued ?sd b"
    by (auto intro: frame_trans simp: queued_def q)
  with sys_inv_frame [OF inv] show ?thesis by blast
qed

text \<open>Every step keeps the invariant, and only a task just created is new in a queue.\<close>

lemma step_inv:
  assumes "sched_step dispatch remove finish notify hash s s'" and inv: "sys_inv s"
  shows "sys_inv s' \<and> sd_fresh (ss_sd s) \<le> sd_fresh (ss_sd s') \<and>
    (\<forall>b. queued (ss_sd s') b \<longrightarrow> queued (ss_sd s) b \<or> b = sd_fresh (ss_sd s))"
  using assms(1)
proof cases
  case (create now name visitor r sd)
  note c = create_inv [OF sys_invD(1,2) [OF inv] create(2,3) fresh_unlocked [OF inv]]
  then show ?thesis using sys_inv_frame [OF inv, of sd] by (auto simp: create(1) frame_def)
next
  case (remove t crid r sd)
  show ?thesis
  proof (cases "sd_id_cr (ss_sd s) crid")
    case None
    then have "sd = ss_sd s" using remove(4) by (simp add: remove_finish [OF sys_invD(1) [OF inv]])
    then show ?thesis using inv remove(1) by simp
  next
    case (Some a)
    note r = remove_inv [OF sys_invD(1,2) [OF inv] Some]
    then have u: "\<not> cr_lock (sd_heap (ss_sd s) a)" using remove(4) by (auto split: if_splits)
    with r remove(4) have e: "sched_inv sd (ran (ss_rm s))" "frame (ss_sd s) sd"
        "\<forall>b. queued sd b \<longleftrightarrow> b \<noteq> a \<and> queued (ss_sd s) b" by auto
    have "sys_inv s'" unfolding remove(1)
    proof (rule sys_invI, goal_cases)
      case (3 t t' b)
      then show ?case using sys_invD(3) [OF inv] by simp
    next
      case (5 c c' b)
      then show ?case using sys_invD(5) [OF inv] by simp
    next
      case (6 b)
      then have "b \<noteq> a" using u sys_invD(4) [OF inv] by auto
      then show ?case using 6 e(3) sys_invD(6) [OF inv] by simp
    qed (use e sys_invD(2,4) [OF inv] in \<open>auto simp: frame_def\<close>)
    then show ?thesis using e by (simp add: remove(1) frame_def)
  qed
next
  case (remove_spins t crid sd a)
  note r = remove_inv [OF sys_invD(1,2) [OF inv] remove_spins(5)]
  then have e: "sched_inv sd (insert a (ran (ss_rm s)))" "frame (ss_sd s) sd" "a \<notin> ran (ss_rm s)"
      "\<forall>b. queued sd b = queued (ss_sd s) b"
    using remove_spins(4) by (auto split: if_splits)
  have "sys_inv s'" unfolding remove_spins(1)
  proof (rule sys_invI, goal_cases)
    case (3 i j b)
    then have p: "((ss_rm s)(t \<mapsto> a)) i = Some b" "((ss_rm s)(t \<mapsto> a)) j = Some b" by simp_all
    show ?case by (rule update_excl [OF _ p], erule (1) sys_invD(3) [OF inv]) (use e(3) in simp)
  next
    case (5 c c' b)
    then show ?case using sys_invD(5) [OF inv] by simp
  qed (use e remove_spins(2) sys_invD(2,4,6) [OF inv] in \<open>auto simp: frame_def ran_map_upd\<close>)
  then show ?thesis using e by (simp add: remove_spins(1) frame_def)
next
  case (remove_returns t a r sd)
  then have "a \<in> ran (ss_rm s)" by (auto intro: ranI)
  then have f: "finished a (ss_sd s) (ran (ss_rm s)) (finish a (ss_sd s))"
    by (rule finish_inv [OF sys_invD(1,2) [OF inv]])
  then have u: "\<not> cr_lock (sd_heap (ss_sd s) a)" using remove_returns(3) by (auto simp: finished_def)
  with f remove_returns(3) have e: "sched_inv sd (ran (ss_rm s) - {a})" "frame (ss_sd s) sd"
      "\<forall>b. queued sd b \<longleftrightarrow> b \<noteq> a \<and> queued (ss_sd s) b"
    by (auto simp: finished_def)
  have w: "ran ((ss_rm s)(t := None)) = ran (ss_rm s) - {a}"
    by (rule ran_drop) (use remove_returns(2) sys_invD(3) [OF inv] in blast)+
  have "sys_inv s'" unfolding remove_returns(1)
  proof (rule sys_invI, goal_cases)
    case (3 i j b)
    then have p: "((ss_rm s)(t := None)) i = Some b" "((ss_rm s)(t := None)) j = Some b" by simp_all
    show ?case by (rule update_excl [OF _ p], erule (1) sys_invD(3) [OF inv]) simp
  next
    case (5 c c' b)
    then show ?case using sys_invD(5) [OF inv] by simp
  next
    case (6 b)
    then have "b \<noteq> a" using u sys_invD(4) [OF inv] by auto
    then show ?case using 6 e(3) sys_invD(6) [OF inv] by simp
  qed (use e w sys_invD(2,4) [OF inv] in \<open>auto simp: frame_def\<close>)
  then show ?thesis using e by (simp add: remove_returns(1) frame_def)
next
  case (notify crid r sd)
  have "sched_inv sd (ran (ss_rm s)) \<and> frame (ss_sd s) sd \<and> (\<forall>b. queued sd b = queued (ss_sd s) b)"
    using notify(2) notify_inv [OF sys_invD(1) [OF inv]] sys_invD(1) [OF inv]
    by (auto simp: NotifyTask_def split: if_splits)
  then show ?thesis using sys_inv_frame [OF inv, of sd] by (auto simp: notify(1) frame_def)
next
  case (next_routine c now a sd)
  then show ?thesis using next_inv [OF inv next_routine(2,3,4)] by simp
next
  case (wait c now sd)
  then show ?thesis using wait_inv [OF inv wait(2,4)] by (simp add: frame_def)
next
  case (resume c a now slice)
  then show ?thesis using resume_inv [OF inv resume(2)] by simp
next
  case shut_down
  note sh = Shutdown_contexts_inv [OF sys_invD(1) [OF inv]]
  then show ?thesis
    using sys_inv_frame [OF inv, of "Shutdown_contexts ((ss_sd s)\<lparr>sd_stop := True\<rparr>)"]
    by (auto simp: shut_down(1) frame_def)
qed

lemma reach_inv:
  assumes "(sched_step dispatch remove finish notify hash)\<^sup>*\<^sup>* s s'" and "sys_inv s"
  shows "sys_inv s'"
  using assms by (induction rule: rtranclp_induct) (auto dest: step_inv)

lemma gone_forever:
  assumes "(sched_step dispatch remove finish notify hash)\<^sup>*\<^sup>* s s'" and inv: "sys_inv s"
    and a: "a < sd_fresh (ss_sd s)" "\<not> queued (ss_sd s) a"
  shows "a < sd_fresh (ss_sd s') \<and> \<not> queued (ss_sd s') a \<and> (\<forall>c. ss_proc s' c \<noteq> Some a)"
  using assms(1)
proof (induction rule: rtranclp_induct)
  case base
  then show ?case using a sys_invD(6) [OF inv] by (auto intro: ranI)
next
  case (step s1 s2)
  have i1: "sys_inv s1" by (rule reach_inv [OF step(1) inv])
  note st = step_inv [OF step(2) i1]
  then have q: "a < sd_fresh (ss_sd s2)" "\<not> queued (ss_sd s2) a" using step(3) by auto
  then show ?case using st sys_invD(6) [of s2] by (auto intro: ranI)
qed

lemma start_inv:
  assumes "sched_inv sd {}" and "num_ok (sd_proc_num sd)" and "\<And>a. \<not> cr_lock (sd_heap sd a)"
  shows "sys_inv (sched_start sd)"
  using assms by (auto simp: sys_inv_def sched_start_def)

text \<open>What a removal does: it waits exactly for a processor that runs the routine.\<close>

lemma remove_outcome:
  assumes inv: "sys_inv s"
  shows "fst (remove crid (ss_sd s)) =
    (case sd_id_cr (ss_sd s) crid of
       None \<Rightarrow> Returned False
     | Some a \<Rightarrow> if \<exists>c. ss_proc s c = Some a then Spinning else Returned True)"
proof (cases "sd_id_cr (ss_sd s) crid")
  case None
  then show ?thesis by (simp add: remove_finish [OF sys_invD(1) [OF inv]])
next
  case (Some a)
  have "cr_lock (sd_heap (ss_sd s) a) \<longleftrightarrow> (\<exists>c. ss_proc s c = Some a)"
    using sys_invD(4) [OF inv, of a] by (simp add: ran_def)
  then show ?thesis
    using remove_inv [OF sys_invD(1,2) [OF inv] Some] Some by (auto split: if_splits)
qed

lemma removed_never_runs:
  assumes inv: "sys_inv s" and t: "ss_rm s t = None" and id_cr: "sd_id_cr (ss_sd s) crid = Some a"
    and r: "remove crid (ss_sd s) = (Returned r, sd)"
    and run: "(sched_step dispatch remove finish notify hash)\<^sup>*\<^sup>* (s\<lparr>ss_sd := sd\<rparr>) s'"
  shows "r \<and> \<not> queued (ss_sd s') a \<and> (\<forall>c. ss_proc s' c \<noteq> Some a)"
proof -
  note R = remove_inv [OF sys_invD(1,2) [OF inv] id_cr]
  have u: "r" "\<not> queued sd a" "frame (ss_sd s) sd" "a \<notin> ran (ss_rm s)" "queued (ss_sd s) a"
    using R r by (auto split: if_splits)
  have "cr_id (sd_heap (ss_sd s) b) \<noteq> crid" if b: "b \<in> ran (ss_rm s)" for b
  proof
    assume id: "cr_id (sd_heap (ss_sd s) b) = crid"
    have "queued (ss_sd s) b" using sys_invD(1) [OF inv] b by (simp add: sched_inv_def)
    then have "b = a"
      using sched_inv_ids [OF sys_invD(1) [OF inv] _ u(5)] registered_id [OF sys_invD(1) [OF inv] id_cr] id
      by simp
    then show False using u(4) b by simp
  qed
  then have "sched_step dispatch remove finish notify hash s (s\<lparr>ss_sd := sd\<rparr>)"
    using sched_step.remove [of s t crid remove r sd] t r by blast
  then have i1: "sys_inv (s\<lparr>ss_sd := sd\<rparr>)" using step_inv [OF _ inv] by blast
  have "a < sd_fresh sd" using queued_fresh [OF sys_invD(1) [OF inv] u(5)] u(3) by (simp add: frame_def)
  then show ?thesis using gone_forever [OF run i1, of a] u(1,2) by simp
qed

end


interpretation choreography: scheduler_policy SchedulerChoreography_DispatchTask
    SchedulerChoreography_RemoveCRoutine SchedulerChoreography_finish SchedulerChoreography_NotifyProcessor
    "\<lambda>n. True"
proof (unfold_locales, goal_cases)
  case (1 sd W a r sd')
  then show ?case using SchedulerChoreography_DispatchTask_inv by blast
next
  case (2 sd W a)
  show ?case
  proof (cases "to_uint32 (cr_processor_id (sd_heap sd a)) < sd_proc_num sd")
    case True
    with 2 show ?thesis
      by (simp add: SchedulerChoreography_finish_def)
        (rule ChoreographyContext_RemoveCRoutine_finished, simp_all add: place_of_def)
  next
    case False
    with 2 show ?thesis
      by (simp add: SchedulerChoreography_finish_def)
        (rule ClassicContext_RemoveCRoutine_finished, simp_all add: place_of_def Let_def)
  qed
next
  case (3 sd W crid)
  show ?case
  proof (cases "sd_id_cr sd crid")
    case (Some a)
    with registered_id [OF 3 Some] show ?thesis
      by (simp add: SchedulerChoreography_RemoveCRoutine_def SchedulerChoreography_finish_def Let_def CRoutine_Stop_def)
  qed (simp add: SchedulerChoreography_RemoveCRoutine_def)
next
  case (4 sd W crid r sd')
  then show ?case by (rule SchedulerChoreography_NotifyProcessor_inv)
qed

section \<open>Initial states\<close>

text \<open>A scheduler with no task.\<close>

definition sched_empty :: "'z Scheduler_scheme \<Rightarrow> bool" where
  "sched_empty sd \<longleftrightarrow> contexts_ok sd \<and> sd_id_cr sd = Map.empty \<and> sd_cr_group sd = (\<lambda>_ _. []) \<and>
     (\<forall>stop n queue. ChoreographyContext stop n queue \<in> set (sd_pctxs sd) \<longrightarrow> queue = []) \<and>
     (\<forall>a. \<not> cr_lock (sd_heap sd a))"

lemma sched_empty_inv:
  assumes "sched_empty sd"
  shows "sched_inv sd {} \<and> (\<forall>a. \<not> cr_lock (sd_heap sd a))"
proof -
  have "queue_of sd pl = []" for pl
  proof (cases pl)
    case (Choreo c)
    have "sd_pctxs sd ! c \<in> set (sd_pctxs sd)" if "c < sd_proc_num sd"
      using that assms by (simp add: sched_empty_def contexts_ok_def)
    then show ?thesis
      using Choreo assms by (auto simp: sched_empty_def split: ProcessorContext.split)
  qed (use assms in \<open>simp add: sched_empty_def\<close>)
  then show ?thesis using assms by (auto simp: sched_empty_def sched_inv_def queued_def)
qed

lemma InitGroup_empty:
  "sched_empty sd \<Longrightarrow> sched_empty (ClassicContext_InitGroup grp sd)"
  by (auto simp: sched_empty_def ClassicContext_InitGroup_def contexts_ok_def nth_append less_Suc_eq)

lemma InitGroup_num: "sd_proc_num (ClassicContext_InitGroup grp sd) = sd_proc_num sd"
  by (simp add: ClassicContext_InitGroup_def)

lemma InitGroups_empty:
  "sched_empty sd \<Longrightarrow> sched_empty ((ClassicContext_InitGroup grp ^^ n) sd) \<and>
    sd_proc_num ((ClassicContext_InitGroup grp ^^ n) sd) = sd_proc_num sd"
  by (induction n) (simp_all add: InitGroup_empty InitGroup_num)



lemma CreateProcessor_empty:
  "sched_empty (SchedulerChoreography_CreateProcessor
     (Scheduler.extend ((Scheduler_base g)\<lparr>sd_proc_num := n, sd_task_pool_size := m\<rparr>) fs))"
  unfolding SchedulerChoreography_CreateProcessor_def
  by (rule conjunct1 [OF InitGroups_empty])
    (simp add: sched_empty_def contexts_ok_def Scheduler_base_def Scheduler.extend_def CRoutine_ctor_def)

lemma SchedulerChoreography_ctor_empty:
  "sched_empty (SchedulerChoreography_ctor g conf num)"
  by (simp add: SchedulerChoreography_ctor_def Let_def CreateProcessor_empty split: option.split)


lemma choreography_start: "choreography.sys_inv (sched_start (SchedulerChoreography_ctor g conf num))"
  using sched_empty_inv SchedulerChoreography_ctor_empty by (intro choreography.start_inv) blast+

section \<open>Claims\<close>


text \<open>A classic scheduler with one processor, one task created and taken by the processor.\<close>

definition one_proc :: SchedulerClassic where
  "one_proc = SchedulerClassic_ctor (GlobalData_ctor ''10.0.0.1'' ''grp'' MODE_REALITY MODE_CYBER) None (Some 1)"



lemmas classic_run_defs =
  one_proc_def SchedulerClassic_ctor_def SchedulerClassic_CreateProcessor_def SchedulerClassic_create_group_def
  ClassicContext_InitGroup_def Scheduler_base_def Scheduler.extend_def SchedulerClassic.fields_def
  CreateTask_def SchedulerClassic_DispatchTask_def SchedulerClassic_assign_def clamp_priority_def pool_append_def
  ClassicContext_Notify_def sd_update_def RegisterTaskName_def Register_loop.simps colliding_hash_def
  GlobalData_ctor_def CRoutine_ctor_def MAX_PRIO_def DEFAULT_GROUP_NAME_def Let_def



lemma next_blocked_empty [simp]: "\<not> next_blocked sd {} c r"
  by (simp add: next_blocked_def)





text \<open>
  \<open>NextRoutine\<close> of every context of a running choreography scheduler (its own contexts and the pool)
  returns a routine of the context that is runnable and of the greatest priority among the runnable
  ones, now held and \<open>READY\<close>; it returns nothing only when the context is stopped or has no runnable routine.
\<close>

theorem NextRoutine_highest_priority:
  assumes "(sched_step SchedulerChoreography_DispatchTask SchedulerChoreography_RemoveCRoutine
      SchedulerChoreography_finish SchedulerChoreography_NotifyProcessor hash)\<^sup>*\<^sup>*
      (sched_start (SchedulerChoreography_ctor g conf num)) s"
    and "c < length (sd_pctxs (ss_sd s))" and "NextRoutine now c (ss_sd s) = (r, sd)"
  shows "case r of
      None \<Rightarrow> ctx_stop (sd_pctxs (ss_sd s) ! c) \<or>
        (\<forall>b\<in>set (context_members (ss_sd s) c). \<not> runnable now (sd_heap (ss_sd s) b))
    | Some a \<Rightarrow> a \<in> set (context_members (ss_sd s) c) \<and> runnable now (sd_heap (ss_sd s) a) \<and>
        cr_lock (sd_heap sd a) \<and> cr_state (sd_heap sd a) = READY \<and>
        (\<forall>b\<in>set (context_members (ss_sd s) c). runnable now (sd_heap (ss_sd s) b) \<longrightarrow>
           cr_priority (sd_heap (ss_sd s) b) \<le> cr_priority (sd_heap (ss_sd s) a))"
proof -
  have inv: "sched_inv (ss_sd s) (ran (ss_rm s))"
    by (rule choreography.sys_invD(1) [OF choreography.reach_inv [OF assms(1) choreography_start]])
  show ?thesis
  proof (cases r)
    case None
    with NextRoutine_None [OF inv assms(2)] assms(3) show ?thesis by auto
  next
    case (Some a)
    then obtain h where "sd = (ss_sd s)\<lparr>sd_heap := h\<rparr>" "a \<in> set (context_members (ss_sd s) c)"
        "runnable now (sd_heap (ss_sd s) a)" "h a = taken now (sd_heap (ss_sd s) a)"
        "\<forall>b\<in>set (context_members (ss_sd s) c). runnable now (sd_heap (ss_sd s) b) \<longrightarrow>
           cr_priority (sd_heap (ss_sd s) b) \<le> cr_priority (sd_heap (ss_sd s) a)"
      using NextRoutine_Some [OF inv assms(2)] assms(3) by blast
    then show ?thesis by (simp add: Some taken_READY)
  qed
qed

text \<open>A choreography scheduler with one processor and one pool processor.\<close>

definition two_proc :: SchedulerChoreography where
  "two_proc = SchedulerChoreography_ctor (GlobalData_ctor ''10.0.0.1'' ''grp'' MODE_REALITY MODE_CYBER)
     (Some \<lparr>cc_choreography_processor_num = 1, cc_pool_processor_num = 1, cc_tasks = [(''t'', 30, Some 0)]\<rparr>) None"

definition two_task :: SchedulerChoreography where
  "two_task = snd (the (CreateTask SchedulerChoreography_DispatchTask colliding_hash 0 ''t'' False two_proc))"

lemmas choreography_run_defs =
  two_proc_def SchedulerChoreography_ctor_def SchedulerChoreography_CreateProcessor_def
  ClassicContext_InitGroup_def Scheduler_base_def Scheduler.extend_def SchedulerChoreography.fields_def
  CreateTask_def SchedulerChoreography_DispatchTask_def SchedulerChoreography_assign_def
  ChoreographyContext_Enqueue_def to_uint32_def
  sd_update_def RegisterTaskName_def Register_loop.simps colliding_hash_def
  GlobalData_ctor_def CRoutine_ctor_def Let_def

lemma two_task_eq:
  "CreateTask SchedulerChoreography_DispatchTask colliding_hash 0 ''t'' False two_proc =
     Some (Returned (True, None), two_task)"
  by (simp add: two_task_def choreography_run_defs)

lemma two_task_reachable:
  "(sched_step SchedulerChoreography_DispatchTask SchedulerChoreography_RemoveCRoutine
      SchedulerChoreography_finish SchedulerChoreography_NotifyProcessor colliding_hash)\<^sup>*\<^sup>*
     (sched_start two_proc) (sched_start two_task)"
  using sched_step.create [of SchedulerChoreography_DispatchTask colliding_hash 0 "''t''" False "sched_start two_proc"
      "(True, None)" two_task] two_task_eq
  by (intro r_into_rtranclp) (simp add: sched_start_def)

theorem NextRoutine_highest_priority_witness:
  "fst (NextRoutine 1 0 two_task) = Some 0 \<and> cr_state (sd_heap (snd (NextRoutine 1 0 two_task)) 0) = READY"
proof -
  have len: "0 < length (sd_pctxs (ss_sd (sched_start two_task)))"
    by (simp add: sched_start_def two_task_def choreography_run_defs)
  have n: "NextRoutine 1 0 (ss_sd (sched_start two_task)) = (Some 0, snd (NextRoutine 1 0 two_task))"
    by (simp add: sched_start_def two_task_def choreography_run_defs NextRoutine_def
        ChoreographyContext_NextRoutine_def try_next.simps CRoutine_Acquire_def CRoutine_UpdateState_def)
  from NextRoutine_highest_priority [OF two_task_reachable [unfolded two_proc_def] len n]
  show ?thesis using arg_cong [OF n, of fst] by (simp add: sched_start_def)
qed

text \<open>
  \<open>RemoveCRoutine\<close> of a running choreography scheduler never throws. It returns false exactly for an unknown
  identifier, returns true for a known task that no processor runs, and otherwise spins until the processor
  that runs the routine gives it up: for ever if that routine is itself the caller.
\<close>

theorem RemoveCRoutine_outcome:
  assumes "(sched_step SchedulerChoreography_DispatchTask SchedulerChoreography_RemoveCRoutine
      SchedulerChoreography_finish SchedulerChoreography_NotifyProcessor hash)\<^sup>*\<^sup>*
      (sched_start (SchedulerChoreography_ctor g conf num)) s"
  shows "fst (SchedulerChoreography_RemoveCRoutine crid (ss_sd s)) =
    (case sd_id_cr (ss_sd s) crid of
       None \<Rightarrow> Returned False
     | Some a \<Rightarrow> if \<exists>c. ss_proc s c = Some a then Spinning else Returned True)"
  by (rule choreography.remove_outcome [OF choreography.reach_inv [OF assms choreography_start]])

theorem RemoveCRoutine_outcome_witness:
  "fst (SchedulerChoreography_RemoveCRoutine 5 two_task) = Returned True \<and>
   fst (SchedulerChoreography_RemoveCRoutine 6 two_task) = Returned False"
proof -
  have "sd_id_cr two_task = [5 \<mapsto> 0]" by (simp add: two_task_def choreography_run_defs)
  then show ?thesis
    using RemoveCRoutine_outcome [OF two_task_reachable [unfolded two_proc_def], of 5]
      RemoveCRoutine_outcome [OF two_task_reachable [unfolded two_proc_def], of 6]
    by (simp add: sched_start_def)
qed




text \<open>
  \<open>CreateTask\<close> takes the identifier from \<open>RegisterTaskName\<close>, which steps past a hash
  collision, but \<open>RemoveTask\<close> uses the bare hash: with two tasks whose names collide, removing the
  second one removes the first and leaves the second registered.
\<close>

theorem RemoveTask_collision_removes_other:
  "\<exists>sd1 sd2 sd3.
     CreateTask SchedulerClassic_DispatchTask colliding_hash 0 ''first'' False one_proc = Some (Returned (True, None), sd1) \<and>
     CreateTask SchedulerClassic_DispatchTask colliding_hash 0 ''second'' False sd1 = Some (Returned (True, None), sd2) \<and>
     RemoveTask SchedulerClassic_RemoveCRoutine colliding_hash ''second'' sd2 = (Returned True, sd3) \<and>
     sd_id_cr sd3 5 = None \<and> GetTaskNameById 5 (sd_global sd3) = ''first'' \<and>
     sd_id_cr sd3 6 = Some 1 \<and> cr_name (sd_heap sd3 1) = ''second''"
  by (simp add: classic_run_defs RemoveTask_def SchedulerClassic_RemoveCRoutine_def
      ClassicContext_RemoveCRoutine_def find_crid_def CRoutine_Stop_def CRoutine_Acquire_def CRoutine_Release_def
      GenerateHashId_def GetTaskNameById_def u64_add_def two64_def)

end
