(* ===== verification/Object_Pool.thy ===== *)
theory Object_Pool
  imports Prelude
begin

text \<open>
  \<open>cyber/base/object_pool.h\<close> and \<open>cyber/base/concurrent_object_pool.h\<close>: pools that hand out the
  objects of an arena through a free list. An object is its index in the arena, a node's \<open>next\<close>
  an entry of an explicit store. The deleter of a returned \<open>shared_ptr\<close> is a call of \<open>ReleaseObject\<close>,
  made once for each object handed out. The locale \<open>lifo_pool\<close> is the contract of both pools
  used by one thread; the concurrent pool is a step relation of its atomic accesses over any number of
  threads, with the counted head that guards its compare-and-swap against reuse.
\<close>

section \<open>The pool of one thread\<close>

record ObjectPool =
  op_num_objects :: nat
  op_next :: "nat \<Rightarrow> nat option"
  op_free_head :: "nat option"

fun ObjectPool_init :: "nat \<Rightarrow> nat \<Rightarrow> ObjectPool \<Rightarrow> ObjectPool" where
  "ObjectPool_init i 0 p = p"
| "ObjectPool_init i (Suc k) p =
     ObjectPool_init (Suc i) k
       (p\<lparr>op_next := (op_next p)(i := op_free_head p), op_free_head := Some i\<rparr>)"

definition ObjectPool_ctor :: "nat \<Rightarrow> ObjectPool" where
  "ObjectPool_ctor num_objects =
     ObjectPool_init 0 num_objects
       \<lparr>op_num_objects = num_objects, op_next = (\<lambda>_. None), op_free_head = None\<rparr>"

definition ObjectPool_GetObject :: "ObjectPool \<Rightarrow> nat option \<times> ObjectPool" where
  "ObjectPool_GetObject p =
     (case op_free_head p of
        None \<Rightarrow> (None, p)
      | Some n \<Rightarrow> (Some n, p\<lparr>op_free_head := op_next p n\<rparr>))"

definition ObjectPool_ReleaseObject :: "nat \<Rightarrow> ObjectPool \<Rightarrow> ObjectPool" where
  "ObjectPool_ReleaseObject n p =
     p\<lparr>op_next := (op_next p)(n := op_free_head p), op_free_head := Some n\<rparr>"

section \<open>The concurrent pool\<close>

record CCObjectPool =
  cp_capacity :: nat
  cp_next :: "nat \<Rightarrow> nat option"
  cp_free_head :: "nat \<times> nat option"

text \<open>
  The constructor. Its loop runs to \<open>capacity_ - 1\<close> in \<open>uint32_t\<close>; for capacity zero it writes
  outside the arena, which is the result \<open>None\<close>.
\<close>

definition CCObjectPool_ctor :: "nat \<Rightarrow> CCObjectPool option" where
  "CCObjectPool_ctor capacity =
     (if capacity = 0 then None
      else Some
        \<lparr>cp_capacity = capacity,
         cp_next = (\<lambda>i. if i < capacity - 1 then Some (i + 1) else None),
         cp_free_head = (0, Some 0)\<rparr>)"

text \<open>\<open>GetObject\<close> (and \<open>ConstructObject\<close>) and \<open>ReleaseObject\<close> when no other thread interferes.\<close>

definition CCObjectPool_GetObject :: "CCObjectPool \<Rightarrow> nat option \<times> CCObjectPool" where
  "CCObjectPool_GetObject p =
     (case cp_free_head p of
        (_, None) \<Rightarrow> (None, p)
      | (count, Some n) \<Rightarrow> (Some n, p\<lparr>cp_free_head := (count + 1, cp_next p n)\<rparr>))"

definition CCObjectPool_ReleaseObject :: "nat \<Rightarrow> CCObjectPool \<Rightarrow> CCObjectPool" where
  "CCObjectPool_ReleaseObject n p =
     (case cp_free_head p of (count, node) \<Rightarrow>
        p\<lparr>cp_next := (cp_next p)(n := node), cp_free_head := (count + 1, Some n)\<rparr>)"

text \<open>
  The atomic accesses of the threads. \<open>F_loaded\<close>: \<open>FindFreeHead\<close> has loaded \<open>old_head\<close>; \<open>F_cas\<close>: it
  has read the successor; \<open>R_loaded\<close>, \<open>R_cas\<close>: the same for \<open>ReleaseObject\<close> of a node. \<open>cc_out\<close> are the
  objects in the hands of clients. A weak exchange may fail without a reason.
\<close>

datatype pool_pc =
  P_idle
| F_loaded nat "nat option"
| F_cas nat nat "nat option"
| R_loaded nat nat "nat option"
| R_cas nat nat "nat option"

record cc_sys =
  cc_pool :: CCObjectPool
  cc_pc :: "nat \<Rightarrow> pool_pc"
  cc_out :: "nat list"

definition cc_goto :: "nat \<Rightarrow> pool_pc \<Rightarrow> cc_sys \<Rightarrow> cc_sys" where
  "cc_goto t pc s = s\<lparr>cc_pc := (cc_pc s)(t := pc)\<rparr>"

inductive CCObjectPool_step :: "cc_sys \<Rightarrow> cc_sys \<Rightarrow> bool" where
  find_load: "cc_pc s t = P_idle \<Longrightarrow> cp_free_head (cc_pool s) = (c, n) \<Longrightarrow>
    CCObjectPool_step s (cc_goto t (F_loaded c n) s)"
| find_none: "cc_pc s t = F_loaded c None \<Longrightarrow> CCObjectPool_step s (cc_goto t P_idle s)"
| find_next: "cc_pc s t = F_loaded c (Some n) \<Longrightarrow>
    CCObjectPool_step s (cc_goto t (F_cas c n (cp_next (cc_pool s) n)) s)"
| find_cas: "cc_pc s t = F_cas c n nx \<Longrightarrow> cp_free_head (cc_pool s) = (c, Some n) \<Longrightarrow>
    CCObjectPool_step s
      (cc_goto t P_idle (s\<lparr>cc_pool := (cc_pool s)\<lparr>cp_free_head := (c + 1, nx)\<rparr>, cc_out := n # cc_out s\<rparr>))"
| find_retry: "cc_pc s t = F_cas c n nx \<Longrightarrow> cp_free_head (cc_pool s) = (c', n') \<Longrightarrow>
    CCObjectPool_step s (cc_goto t (F_loaded c' n') s)"
| release_load: "cc_pc s t = P_idle \<Longrightarrow> n \<in> set (cc_out s) \<Longrightarrow> cp_free_head (cc_pool s) = (c, h) \<Longrightarrow>
    CCObjectPool_step s (cc_goto t (R_loaded n c h) (s\<lparr>cc_out := remove1 n (cc_out s)\<rparr>))"
| release_link: "cc_pc s t = R_loaded n c h \<Longrightarrow>
    CCObjectPool_step s
      (cc_goto t (R_cas n c h) (s\<lparr>cc_pool := (cc_pool s)\<lparr>cp_next := (cp_next (cc_pool s))(n := h)\<rparr>\<rparr>))"
| release_cas: "cc_pc s t = R_cas n c h \<Longrightarrow> cp_free_head (cc_pool s) = (c, h) \<Longrightarrow>
    CCObjectPool_step s
      (cc_goto t P_idle (s\<lparr>cc_pool := (cc_pool s)\<lparr>cp_free_head := (c + 1, Some n)\<rparr>\<rparr>))"
| release_retry: "cc_pc s t = R_cas n c h \<Longrightarrow> cp_free_head (cc_pool s) = (c', h') \<Longrightarrow>
    CCObjectPool_step s (cc_goto t (R_loaded n c' h') s)"

inductive_cases CCObjectPool_stepE: "CCObjectPool_step s s'"

definition cc_init :: "CCObjectPool \<Rightarrow> cc_sys" where
  "cc_init p = \<lparr>cc_pool = p, cc_pc = (\<lambda>_. P_idle), cc_out = []\<rparr>"

section \<open>Free lists\<close>

fun chain :: "(nat \<Rightarrow> nat option) \<Rightarrow> nat option \<Rightarrow> nat list \<Rightarrow> bool" where
  "chain nx h [] \<longleftrightarrow> h = None"
| "chain nx h (x # xs) \<longleftrightarrow> h = Some x \<and> chain nx (nx x) xs"

lemma chain_update [simp]: "n \<notin> set xs \<Longrightarrow> chain (nx(n := v)) h xs \<longleftrightarrow> chain nx h xs"
  by (induction xs arbitrary: h) auto

lemma chain_None [simp]: "chain nx None xs \<longleftrightarrow> xs = []"
  by (cases xs) auto

lemma chain_Some: "chain nx (Some n) xs \<longleftrightarrow> (\<exists>ys. xs = n # ys \<and> chain nx (nx n) ys)"
  by (cases xs) auto

lemma chain_unique: "chain nx h xs \<Longrightarrow> chain nx h ys \<Longrightarrow> xs = ys"
proof (induction xs arbitrary: h ys)
  case Nil
  then show ?case by simp
next
  case (Cons x xs)
  then show ?case by (auto simp: chain_Some)
qed

section \<open>The contract of a pool\<close>

text \<open>
  A pool represents a list of free objects. Taking an object removes the first, releasing one puts it in
  front. The clients' side follows: objects handed out are distinct and never free, and every object of the
  arena is either free or out.
\<close>

datatype pool_op = Get | Put nat

locale lifo_pool =
  fixes get :: "'p \<Rightarrow> nat option \<times> 'p" and put :: "nat \<Rightarrow> 'p \<Rightarrow> 'p" and free :: "'p \<Rightarrow> nat list \<Rightarrow> bool"
  assumes get_empty: "free p [] \<Longrightarrow> get p = (None, p)"
    and get_first: "free p (x # xs) \<Longrightarrow> \<exists>p'. get p = (Some x, p') \<and> free p' xs"
    and put_front: "free p xs \<Longrightarrow> x \<notin> set xs \<Longrightarrow> free (put x p) (x # xs)"
begin

fun run :: "pool_op list \<Rightarrow> 'p \<times> nat list \<Rightarrow> 'p \<times> nat list" where
  "run [] s = s"
| "run (Get # ops) (p, out) =
     (case get p of (None, p') \<Rightarrow> run ops (p', out) | (Some x, p') \<Rightarrow> run ops (p', x # out))"
| "run (Put x # ops) (p, out) =
     (if x \<in> set out then run ops (put x p, remove1 x out) else run ops (p, out))"

lemma run_partition:
  assumes "free p xs" and "distinct (xs @ out)" and "set (xs @ out) = A"
  shows "\<exists>ys. free (fst (run ops (p, out))) ys \<and> distinct (ys @ snd (run ops (p, out))) \<and>
    set (ys @ snd (run ops (p, out))) = A"
  using assms
proof (induction ops arbitrary: p out xs)
  case Nil
  then show ?case by auto
next
  case (Cons op ops)
  show ?case
  proof (cases op)
    case Get
    show ?thesis
    proof (cases xs)
      case Nil
      then show ?thesis using Cons Get get_empty by simp
    next
      case (Cons x ys)
      then obtain p' where "get p = (Some x, p')" "free p' ys" using get_first Cons.prems(1) by blast
      then show ?thesis using Cons.IH [of p' ys "x # out"] Cons.prems Cons Get by auto
    qed
  next
    case (Put x)
    show ?thesis
    proof (cases "x \<in> set out")
      case True
      then have "free (put x p) (x # xs)" using Cons.prems put_front by auto
      moreover have "distinct ((x # xs) @ remove1 x out)" "set ((x # xs) @ remove1 x out) = A"
        using Cons.prems True by auto
      ultimately show ?thesis using Cons.IH True Put by simp
    qed (use Cons Put in auto)
  qed
qed

lemma get_None_iff:
  assumes "free p xs"
  shows "fst (get p) = None \<longleftrightarrow> xs = []"
  using assms get_empty get_first by (cases xs) fastforce+

lemma put_get:
  assumes "free p xs" and "x \<notin> set xs"
  shows "fst (get (put x p)) = Some x"
  using get_first [OF put_front [OF assms]] by auto

end

definition ObjectPool_free :: "ObjectPool \<Rightarrow> nat list \<Rightarrow> bool" where
  "ObjectPool_free p xs \<longleftrightarrow> chain (op_next p) (op_free_head p) xs"

definition CCObjectPool_free :: "CCObjectPool \<Rightarrow> nat list \<Rightarrow> bool" where
  "CCObjectPool_free p xs \<longleftrightarrow> chain (cp_next p) (snd (cp_free_head p)) xs"

interpretation seq_pool: lifo_pool ObjectPool_GetObject ObjectPool_ReleaseObject ObjectPool_free
  by unfold_locales
    (auto simp: ObjectPool_GetObject_def ObjectPool_ReleaseObject_def ObjectPool_free_def)

interpretation cc_pool: lifo_pool CCObjectPool_GetObject CCObjectPool_ReleaseObject CCObjectPool_free
  by unfold_locales
    (auto simp: CCObjectPool_GetObject_def CCObjectPool_ReleaseObject_def CCObjectPool_free_def
      split: prod.splits)

text \<open>The constructors make every object free.\<close>

lemma ObjectPool_init_free:
  assumes "ObjectPool_free p xs" and "set xs = {..<i}" and "distinct xs"
  shows "ObjectPool_free (ObjectPool_init i k p) (rev [i..<i + k] @ xs)"
  using assms
proof (induction i k p arbitrary: xs rule: ObjectPool_init.induct)
  case (2 i k p)
  let ?p = "p\<lparr>op_next := (op_next p)(i := op_free_head p), op_free_head := Some i\<rparr>"
  have "ObjectPool_free ?p (i # xs)" using "2.prems" by (simp add: ObjectPool_free_def)
  from "2.IH" [OF this] "2.prems" show ?case
    by (simp add: lessThan_Suc upt_conv_Cons del: upt_Suc)
qed simp

lemma ObjectPool_ctor_free: "ObjectPool_free (ObjectPool_ctor n) (rev [0..<n])"
  using ObjectPool_init_free [of "\<lparr>op_num_objects = n, op_next = \<lambda>_. None, op_free_head = None\<rparr>" "[]" 0 n]
  by (simp add: ObjectPool_ctor_def ObjectPool_free_def)

lemma ctor_chain:
  assumes "k \<le> n" and nx: "\<And>i. i < n \<Longrightarrow> nx i = (if Suc i < n then Some (Suc i) else None)"
  shows "chain nx (if k < n then Some k else None) [k..<n]"
  using assms(1)
proof (induction "n - k" arbitrary: k)
  case (Suc d)
  then have k: "k < n" and "chain nx (if Suc k < n then Some (Suc k) else None) [Suc k..<n]" by simp_all
  then have "chain nx (nx k) [Suc k..<n]" by (simp only: nx)
  with k show ?case by (simp add: upt_conv_Cons)
qed simp

lemma CCObjectPool_ctor_free:
  assumes "CCObjectPool_ctor n = Some p"
  shows "CCObjectPool_free p [0..<n]"
proof -
  have n: "0 < n" and p: "p = \<lparr>cp_capacity = n, cp_next = (\<lambda>i. if i < n - 1 then Some (i + 1) else None),
      cp_free_head = (0, Some 0)\<rparr>"
    using assms by (auto simp: CCObjectPool_ctor_def split: if_splits)
  have "cp_next p i = (if Suc i < n then Some (Suc i) else None)" if "i < n" for i
    using that by (auto simp: p)
  from ctor_chain [OF _ this, of 0] n show ?thesis by (simp add: CCObjectPool_free_def p)
qed

section \<open>The invariant of the concurrent pool\<close>

text \<open>
  What a thread knows at its point: a loaded head is current as long as the count is, and then the successor it
  read is the successor of the first free node.
\<close>

fun pc_ok :: "CCObjectPool \<Rightarrow> pool_pc \<Rightarrow> bool" where
  "pc_ok p (F_loaded c n) \<longleftrightarrow> c \<le> fst (cp_free_head p) \<and> (c = fst (cp_free_head p) \<longrightarrow> snd (cp_free_head p) = n)"
| "pc_ok p (F_cas c n nx) \<longleftrightarrow> c \<le> fst (cp_free_head p) \<and>
     (c = fst (cp_free_head p) \<longrightarrow> snd (cp_free_head p) = Some n \<and> cp_next p n = nx)"
| "pc_ok p (R_cas n c h) \<longleftrightarrow> cp_next p n = h"
| "pc_ok p _ \<longleftrightarrow> True"

fun releasing :: "pool_pc \<Rightarrow> nat option" where
  "releasing (R_loaded n c h) = Some n"
| "releasing (R_cas n c h) = Some n"
| "releasing _ = None"

definition pool_inv :: "cc_sys \<Rightarrow> nat list \<Rightarrow> bool" where
  "pool_inv s xs \<longleftrightarrow> CCObjectPool_free (cc_pool s) xs \<and> distinct (xs @ cc_out s) \<and>
     (\<forall>t n. releasing (cc_pc s t) = Some n \<longrightarrow> n \<notin> set (xs @ cc_out s)) \<and>
     (\<forall>t t' n. releasing (cc_pc s t) = Some n \<longrightarrow> releasing (cc_pc s t') = Some n \<longrightarrow> t' = t) \<and>
     (\<forall>t. pc_ok (cc_pool s) (cc_pc s t)) \<and>
     set (xs @ cc_out s) \<union> {n. \<exists>t. releasing (cc_pc s t) = Some n} = {..<cp_capacity (cc_pool s)}"

text \<open>A move of one thread that leaves the pool, the clients and the node it releases alone.\<close>

lemma pool_inv_goto:
  assumes "pool_inv s xs" and "releasing pc = releasing (cc_pc s t)" and "pc_ok (cc_pool s) pc"
  shows "pool_inv (cc_goto t pc s) xs"
proof -
  have "releasing (cc_pc (cc_goto t pc s) t') = releasing (cc_pc s t')" for t'
    using assms(2) by (simp add: cc_goto_def)
  then show ?thesis using assms(1,3) by (simp add: pool_inv_def) (simp add: cc_goto_def)
qed

lemma pc_ok_new_count:
  "pc_ok p pc \<Longrightarrow> fst (cp_free_head p) < c \<Longrightarrow> pc_ok (p\<lparr>cp_free_head := (c, h)\<rparr>) pc"
  by (cases pc) auto

lemma pc_ok_link:
  assumes "pc_ok p pc" and "snd (cp_free_head p) \<noteq> Some n" and "releasing pc \<noteq> Some n"
  shows "pc_ok (p\<lparr>cp_next := (cp_next p)(n := h)\<rparr>) pc"
  using assms by (cases pc) auto

text \<open>The node released by a thread after its point has changed.\<close>

lemma releasing_goto:
  "releasing (cc_pc (cc_goto t pc s) t') = (if t' = t then releasing pc else releasing (cc_pc s t'))"
  by (simp add: cc_goto_def)

lemma find_cas_inv:
  assumes inv: "pool_inv s xs" and step: "cc_pc s t = F_cas c n nx" "cp_free_head (cc_pool s) = (c, Some n)"
    and s': "s' = cc_goto t P_idle (s\<lparr>cc_pool := (cc_pool s)\<lparr>cp_free_head := (c + 1, nx)\<rparr>, cc_out := n # cc_out s\<rparr>)"
  shows "\<exists>ys. pool_inv s' ys"
proof -
  let ?p = "(cc_pool s)\<lparr>cp_free_head := (c + 1, nx)\<rparr>"
  have ok: "pc_ok (cc_pool s) (F_cas c n nx)" using inv step(1) by (metis pool_inv_def)
  then obtain ys where xs: "xs = n # ys" "chain (cp_next (cc_pool s)) nx ys"
    using inv step(2) by (auto simp: pool_inv_def CCObjectPool_free_def chain_Some)
  have rel: "releasing (cc_pc s' t') = releasing (cc_pc s t')" for t'
    by (simp add: s' releasing_goto) (simp add: step(1) cc_goto_def)
  have pcs: "pc_ok ?p (cc_pc s' t')" for t'
  proof -
    have "pc_ok (cc_pool s) (cc_pc s t')" using inv by (simp add: pool_inv_def)
    then show ?thesis
      using pc_ok_new_count [of "cc_pool s" "cc_pc s t'" "c + 1" nx] step(2)
      by (simp add: s' cc_goto_def)
  qed
  have "pool_inv s' ys"
    using inv xs pcs rel unfolding pool_inv_def
    by (simp add: s' CCObjectPool_free_def cc_goto_def)
  then show ?thesis ..
qed

lemma release_load_inv:
  assumes inv: "pool_inv s xs" and step: "cc_pc s t = P_idle" "n \<in> set (cc_out s)"
    and s': "s' = cc_goto t (R_loaded n c h) (s\<lparr>cc_out := remove1 n (cc_out s)\<rparr>)"
  shows "\<exists>ys. pool_inv s' ys"
proof -
  have idle: "releasing (cc_pc s t) = None" by (simp add: step(1))
  have out: "n \<in> set (cc_out s)" "distinct (xs @ cc_out s)" "n \<notin> set xs"
    using inv step(2) by (auto simp: pool_inv_def)
  have nr: "releasing (cc_pc s t') \<noteq> Some n" for t'
    using inv out(1) by (auto simp: pool_inv_def)
  have rel: "releasing (cc_pc s' t') = (if t' = t then Some n else releasing (cc_pc s t'))" for t'
    by (simp add: s' cc_goto_def)
  have pcs: "pc_ok (cc_pool s') (cc_pc s' t')" for t'
    using inv by (simp add: s' cc_goto_def pool_inv_def)
  have un: "{m. \<exists>t'. releasing (cc_pc s' t') = Some m} = insert n {m. \<exists>t'. releasing (cc_pc s t') = Some m}"
    using idle by (auto simp: rel split: if_splits) (metis option.distinct(1))
  have sets: "insert n (set (xs @ remove1 n (cc_out s))) = set (xs @ cc_out s)" using out by auto
  have "pool_inv s' xs" unfolding pool_inv_def
  proof (intro conjI allI impI, goal_cases)
    case 1
    then show ?case using inv by (simp add: pool_inv_def s' cc_goto_def)
  next
    case 2
    then show ?case using out by (auto simp: s' cc_goto_def)
  next
    case (3 t' m)
    then show ?case using inv out by (auto simp: rel pool_inv_def s' cc_goto_def split: if_splits dest: notin_set_remove1)
  next
    case (4 t' t'' m)
    have excl: "t'' = t'" if "releasing (cc_pc s t') = Some m" "releasing (cc_pc s t'') = Some m"
      using inv that unfolding pool_inv_def by blast
    show ?case using 4 nr excl by (cases "t' = t"; cases "t'' = t") (simp_all add: rel)
  next
    case (5 t')
    then show ?case by (rule pcs)
  next
    case 6
    have "set (xs @ cc_out s') = set (xs @ remove1 n (cc_out s))" by (simp add: s' cc_goto_def)
    moreover have "cp_capacity (cc_pool s') = cp_capacity (cc_pool s)" by (simp add: s' cc_goto_def)
    moreover have "set (xs @ remove1 n (cc_out s)) \<union> insert n {m. \<exists>t'. releasing (cc_pc s t') = Some m} =
        set (xs @ cc_out s) \<union> {m. \<exists>t'. releasing (cc_pc s t') = Some m}"
      unfolding sets [symmetric] by simp
    ultimately show ?case using inv unfolding un pool_inv_def by simp
  qed
  then show ?thesis ..
qed

lemma release_link_inv:
  assumes inv: "pool_inv s xs" and step: "cc_pc s t = R_loaded n c h"
    and s': "s' = cc_goto t (R_cas n c h) (s\<lparr>cc_pool := (cc_pool s)\<lparr>cp_next := (cp_next (cc_pool s))(n := h)\<rparr>\<rparr>)"
  shows "\<exists>ys. pool_inv s' ys"
proof -
  let ?p = "(cc_pool s)\<lparr>cp_next := (cp_next (cc_pool s))(n := h)\<rparr>"
  have r: "releasing (cc_pc s t) = Some n" by (simp add: step(1))
  then have n: "n \<notin> set xs" using inv by (auto simp: pool_inv_def)
  have ch: "chain (cp_next (cc_pool s)) (snd (cp_free_head (cc_pool s))) xs"
    using inv by (simp add: pool_inv_def CCObjectPool_free_def)
  then have hd: "snd (cp_free_head (cc_pool s)) \<noteq> Some n" using n by (auto simp: chain_Some)
  have rel: "releasing (cc_pc s' t') = releasing (cc_pc s t')" for t'
    using r by (simp add: s' cc_goto_def)
  have pcs: "pc_ok ?p (cc_pc s' t')" for t'
  proof (cases "t' = t")
    case True
    then show ?thesis by (simp add: s' cc_goto_def)
  next
    case False
    then have "releasing (cc_pc s t') \<noteq> Some n" using inv r unfolding pool_inv_def by blast
    moreover have "pc_ok (cc_pool s) (cc_pc s t')" using inv by (simp add: pool_inv_def)
    ultimately show ?thesis using False hd pc_ok_link by (simp add: s' cc_goto_def)
  qed
  have "pool_inv s' xs"
    using inv ch n pcs rel unfolding pool_inv_def
    by (simp add: s' CCObjectPool_free_def cc_goto_def)
  then show ?thesis ..
qed

lemma release_cas_inv:
  assumes inv: "pool_inv s xs" and step: "cc_pc s t = R_cas n c h" "cp_free_head (cc_pool s) = (c, h)"
    and s': "s' = cc_goto t P_idle (s\<lparr>cc_pool := (cc_pool s)\<lparr>cp_free_head := (c + 1, Some n)\<rparr>\<rparr>)"
  shows "\<exists>ys. pool_inv s' ys"
proof -
  let ?p = "(cc_pool s)\<lparr>cp_free_head := (c + 1, Some n)\<rparr>"
  have r: "releasing (cc_pc s t) = Some n" by (simp add: step(1))
  have "pc_ok (cc_pool s) (R_cas n c h)" using inv step(1) by (metis pool_inv_def)
  then have ch: "chain (cp_next (cc_pool s)) (Some n) (n # xs)"
    using inv step(2) by (simp add: pool_inv_def CCObjectPool_free_def)
  have rel: "releasing (cc_pc s' t') = (if t' = t then None else releasing (cc_pc s t'))" for t'
    by (simp add: s' cc_goto_def)
  have only: "releasing (cc_pc s t') = Some n \<longleftrightarrow> t' = t" for t'
    using inv r unfolding pool_inv_def by blast
  have un: "insert n {m. \<exists>t'. releasing (cc_pc s' t') = Some m} = {m. \<exists>t'. releasing (cc_pc s t') = Some m}"
    using r by (auto simp: rel split: if_splits) (metis option.inject)
  have out: "cc_out s' = cc_out s" "cp_capacity (cc_pool s') = cp_capacity (cc_pool s)"
    by (simp_all add: s' cc_goto_def)
  have "pool_inv s' (n # xs)" unfolding pool_inv_def
  proof (intro conjI allI impI, goal_cases)
    case 1
    then show ?case using ch by (simp add: CCObjectPool_free_def s' cc_goto_def)
  next
    case 2
    then show ?case using inv r by (auto simp: pool_inv_def out)
  next
    case (3 t' m)
    then show ?case using inv only by (auto simp: rel pool_inv_def out split: if_splits)
  next
    case (4 t' t'' m)
    then show ?case using inv by (auto simp: rel pool_inv_def split: if_splits)
  next
    case (5 t')
    have "pc_ok (cc_pool s) (cc_pc s t')" using inv by (simp add: pool_inv_def)
    then show ?case
      using pc_ok_new_count [of "cc_pool s" "cc_pc s t'" "c + 1" "Some n"] step(2)
      by (simp add: s' cc_goto_def)
  next
    case 6
    have "set ((n # xs) @ cc_out s') \<union> {m. \<exists>t'. releasing (cc_pc s' t') = Some m} =
        set (xs @ cc_out s) \<union> {m. \<exists>t'. releasing (cc_pc s t') = Some m}"
      unfolding un [symmetric] out by auto
    then show ?case using inv out unfolding pool_inv_def by simp
  qed
  then show ?thesis ..
qed

text \<open>Every step keeps the invariant for some free list.\<close>

lemma pool_inv_step:
  assumes "CCObjectPool_step s s'" and inv: "pool_inv s xs"
  shows "\<exists>ys. pool_inv s' ys"
  using assms(1)
proof cases
  case (find_load t c n)
  have "pool_inv s' xs" unfolding find_load(1)
    by (rule pool_inv_goto [OF inv]) (simp_all add: find_load)
  then show ?thesis ..
next
  case (find_none t c)
  have "pool_inv s' xs" unfolding find_none(1)
    by (rule pool_inv_goto [OF inv]) (simp_all add: find_none)
  then show ?thesis ..
next
  case (find_next t c n)
  have "pc_ok (cc_pool s) (F_loaded c (Some n))" using inv find_next(2) by (metis pool_inv_def)
  then have "pool_inv s' xs" unfolding find_next(1)
    by (intro pool_inv_goto [OF inv]) (simp_all add: find_next)
  then show ?thesis ..
next
  case (find_cas t c n nx)
  then show ?thesis using find_cas_inv [OF inv] by blast
next
  case (find_retry t c n nx c' n')
  have "pool_inv s' xs" unfolding find_retry(1)
    by (rule pool_inv_goto [OF inv]) (simp_all add: find_retry)
  then show ?thesis ..
next
  case (release_load t n c h)
  then show ?thesis using release_load_inv [OF inv] by blast
next
  case (release_link t n c h)
  then show ?thesis using release_link_inv [OF inv] by blast
next
  case (release_cas t n c h)
  then show ?thesis using release_cas_inv [OF inv] by blast
next
  case (release_retry t n c h c' h')
  have "pool_inv s' xs" unfolding release_retry(1)
    by (rule pool_inv_goto [OF inv]) (simp_all add: release_retry)
  then show ?thesis ..
qed

lemma pool_inv_init:
  assumes "CCObjectPool_ctor n = Some p"
  shows "pool_inv (cc_init p) [0..<n]"
proof -
  have "cp_capacity p = n" using assms by (auto simp: CCObjectPool_ctor_def split: if_splits)
  then show ?thesis
    using CCObjectPool_ctor_free [OF assms] by (auto simp: pool_inv_def cc_init_def lessThan_atLeast0)
qed

lemma pool_inv_reach:
  assumes "CCObjectPool_step\<^sup>*\<^sup>* (cc_init p) s" and "CCObjectPool_ctor n = Some p"
  shows "\<exists>xs. pool_inv s xs"
  using assms
  by (induction rule: rtranclp_induct) (blast intro: pool_inv_init pool_inv_step)+

lemma capacity_reach:
  "CCObjectPool_step\<^sup>*\<^sup>* s s' \<Longrightarrow> cp_capacity (cc_pool s') = cp_capacity (cc_pool s)"
  by (induction rule: rtranclp_induct) (auto elim!: CCObjectPool_stepE simp: cc_goto_def)

section \<open>Claims\<close>

text \<open>
  C26: The concurrent pool never hands an object to two owners and never loses one. In every
  interleaving the objects in the hands of clients are distinct objects of the arena; when no operation is under way, the
  free list holds exactly the others, and \<open>GetObject\<close> fails only if all objects are out.
\<close>

theorem CCObjectPool_no_double_owner:
  assumes "CCObjectPool_ctor n = Some p" and "CCObjectPool_step\<^sup>*\<^sup>* (cc_init p) s"
  shows "distinct (cc_out s) \<and> set (cc_out s) \<subseteq> {..<n} \<and>
    ((\<forall>t. cc_pc s t = P_idle) \<longrightarrow>
      (\<exists>xs. CCObjectPool_free (cc_pool s) xs \<and> distinct xs \<and> set xs = {..<n} - set (cc_out s)) \<and>
      (fst (CCObjectPool_GetObject (cc_pool s)) = None \<longleftrightarrow> length (cc_out s) = n))"
proof -
  obtain xs where inv: "pool_inv s xs" using pool_inv_reach [OF assms(2,1)] by blast
  have cap: "cp_capacity (cc_pool s) = n"
    using capacity_reach [OF assms(2)] assms(1) by (auto simp: cc_init_def CCObjectPool_ctor_def split: if_splits)
  have d: "distinct (xs @ cc_out s)" and sub: "set (cc_out s) \<subseteq> {..<n}"
    using inv cap by (auto simp: pool_inv_def)
  have quiet: "(\<exists>xs. CCObjectPool_free (cc_pool s) xs \<and> distinct xs \<and> set xs = {..<n} - set (cc_out s)) \<and>
      (fst (CCObjectPool_GetObject (cc_pool s)) = None \<longleftrightarrow> length (cc_out s) = n)"
    if idle: "\<forall>t. cc_pc s t = P_idle"
  proof -
    have f: "CCObjectPool_free (cc_pool s) xs" using inv by (simp add: pool_inv_def)
    have u: "set (xs @ cc_out s) = {..<n}" using inv idle cap by (simp add: pool_inv_def)
    then have "set xs = {..<n} - set (cc_out s)" using d by auto
    moreover have "length (xs @ cc_out s) = n"
      using distinct_card [OF d] unfolding u by simp
    then have "xs = [] \<longleftrightarrow> length (cc_out s) = n" by auto
    ultimately show ?thesis using f d cc_pool.get_None_iff [OF f] by auto
  qed
  show ?thesis using d sub quiet by simp
qed

text \<open>A pool of two objects of which one is taken.\<close>

definition pool_two :: CCObjectPool where
  "pool_two = \<lparr>cp_capacity = 2, cp_next = (\<lambda>i. if i < 2 - 1 then Some (i + 1) else None), cp_free_head = (0, Some 0)\<rparr>"

definition pool_taken :: cc_sys where
  "pool_taken = \<lparr>cc_pool = pool_two\<lparr>cp_free_head := (1, Some 1)\<rparr>, cc_pc = (\<lambda>_. P_idle), cc_out = [0]\<rparr>"

lemma pool_taken_reachable: "CCObjectPool_step\<^sup>*\<^sup>* (cc_init pool_two) pool_taken"
proof -
  let ?i = "cc_init pool_two"
  have a1: "CCObjectPool_step ?i (cc_goto 0 (F_loaded 0 (Some 0)) ?i)"
    by (rule find_load) (simp_all add: cc_init_def pool_two_def)
  have a2: "CCObjectPool_step (cc_goto 0 (F_loaded 0 (Some 0)) ?i) (cc_goto 0 (F_cas 0 0 (Some 1)) ?i)"
    using find_next [of "cc_goto 0 (F_loaded 0 (Some 0)) ?i" 0 0 0]
    by (simp add: cc_goto_def cc_init_def pool_two_def)
  have a3: "CCObjectPool_step (cc_goto 0 (F_cas 0 0 (Some 1)) ?i) pool_taken"
    using find_cas [of "cc_goto 0 (F_cas 0 0 (Some 1)) ?i" 0 0 0 "Some 1"]
    by (simp add: cc_goto_def cc_init_def pool_two_def pool_taken_def fun_upd_idem)
  show ?thesis using a1 a2 a3 by (meson converse_rtranclp_into_rtranclp rtranclp.rtrancl_refl)
qed

theorem CCObjectPool_no_double_owner_witness:
  "\<exists>xs. CCObjectPool_free (cc_pool pool_taken) xs \<and> distinct xs \<and> set xs = {..<2} - {0}"
  using CCObjectPool_no_double_owner [OF _ pool_taken_reachable, of 2]
  by (simp add: CCObjectPool_ctor_def pool_two_def pool_taken_def)

text \<open>The pool of one thread keeps the same balance over any sequence of operations.\<close>

lemma ObjectPool_partition:
  "\<exists>ys. ObjectPool_free (fst (seq_pool.run ops (ObjectPool_ctor n, []))) ys \<and>
     distinct (ys @ snd (seq_pool.run ops (ObjectPool_ctor n, []))) \<and>
     set (ys @ snd (seq_pool.run ops (ObjectPool_ctor n, []))) = {..<n}"
  by (rule seq_pool.run_partition [OF ObjectPool_ctor_free]) auto

text \<open>A pool of capacity zero cannot be constructed: the loop bound wraps around.\<close>

lemma CCObjectPool_ctor_zero: "CCObjectPool_ctor 0 = None"
  by (simp add: CCObjectPool_ctor_def)

end
