(* ===== verification/Unbounded_Queue.thy ===== *)
theory Unbounded_Queue
  imports Prelude
begin

text \<open>
  \<open>cyber/base/unbounded_queue.h\<close> on an explicit store of nodes: a deleted node is absent, and an
  access to it is the fault \<open>None\<close>. The operations of one thread implement a first-in first-out queue (locale
  \<open>fifo_queue\<close>), never fault, and keep exactly the nodes of the queue allocated. The accesses of several
  threads are a step relation, in which a node can be used after it was deleted and be deleted twice.
\<close>

section \<open>Nodes\<close>

record 'a uq_node =
  nd_data :: 'a
  nd_ref_count :: nat
  nd_next :: "nat option"

record 'a UnboundedQueue =
  uq_heap :: "nat \<Rightarrow> 'a uq_node option"
  uq_fresh :: nat
  uq_head :: nat
  uq_tail :: nat
  uq_size :: nat

definition uq_new :: "'a \<Rightarrow> 'a UnboundedQueue \<Rightarrow> nat \<times> 'a UnboundedQueue" where
  "uq_new x q =
     (uq_fresh q,
      q\<lparr>uq_heap := (uq_heap q)(uq_fresh q \<mapsto> \<lparr>nd_data = x, nd_ref_count = 2, nd_next = None\<rparr>),
        uq_fresh := Suc (uq_fresh q)\<rparr>)"

definition uq_write :: "nat \<Rightarrow> ('a uq_node \<Rightarrow> 'a uq_node) \<Rightarrow> 'a UnboundedQueue \<Rightarrow> 'a UnboundedQueue option" where
  "uq_write a f q =
     (case uq_heap q a of
        None \<Rightarrow> None
      | Some nd \<Rightarrow> Some (q\<lparr>uq_heap := (uq_heap q)(a \<mapsto> f nd)\<rparr>))"

text \<open>\<open>Node::release\<close> of one thread: \<open>fetch_sub\<close>, then a load, then \<open>delete\<close>.\<close>

definition uq_release :: "nat \<Rightarrow> 'a UnboundedQueue \<Rightarrow> 'a UnboundedQueue option" where
  "uq_release a q =
     (case uq_heap q a of
        None \<Rightarrow> None
      | Some nd \<Rightarrow>
          let nd = nd\<lparr>nd_ref_count := nd_ref_count nd - 1\<rparr> in
          if nd_ref_count nd = 0 then Some (q\<lparr>uq_heap := (uq_heap q)(a := None)\<rparr>)
          else Some (q\<lparr>uq_heap := (uq_heap q)(a \<mapsto> nd)\<rparr>))"

section \<open>Operations of one thread\<close>

definition UnboundedQueue_Reset :: "'a \<Rightarrow> 'a UnboundedQueue \<Rightarrow> 'a UnboundedQueue" where
  "UnboundedQueue_Reset dflt q =
     (case uq_new dflt q of (node, q) \<Rightarrow> q\<lparr>uq_head := node, uq_tail := node, uq_size := 0\<rparr>)"

definition UnboundedQueue_ctor :: "'a \<Rightarrow> 'a UnboundedQueue" where
  "UnboundedQueue_ctor dflt =
     UnboundedQueue_Reset dflt \<lparr>uq_heap = Map.empty, uq_fresh = 0, uq_head = 0, uq_tail = 0, uq_size = 0\<rparr>"

definition UnboundedQueue_Enqueue :: "'a \<Rightarrow> 'a UnboundedQueue \<Rightarrow> 'a UnboundedQueue option" where
  "UnboundedQueue_Enqueue x q =
     (case uq_new x q of (node, q) \<Rightarrow>
        let old_tail = uq_tail q; q = q\<lparr>uq_tail := node\<rparr> in
        case uq_write old_tail (\<lambda>nd. nd\<lparr>nd_next := Some node\<rparr>) q of
          None \<Rightarrow> None
        | Some q \<Rightarrow>
            (case uq_release old_tail q of
               None \<Rightarrow> None
             | Some q \<Rightarrow> Some (q\<lparr>uq_size := u64_add (uq_size q) 1\<rparr>)))"

definition UnboundedQueue_Dequeue :: "'a UnboundedQueue \<Rightarrow> ('a option \<times> 'a UnboundedQueue) option" where
  "UnboundedQueue_Dequeue q =
     (let old_head = uq_head q in
      case uq_heap q old_head of
        None \<Rightarrow> None
      | Some nd \<Rightarrow>
          (case nd_next nd of
             None \<Rightarrow> Some (None, q)
           | Some head_next \<Rightarrow>
               let q = q\<lparr>uq_head := head_next\<rparr> in
               (case uq_heap q head_next of
                  None \<Rightarrow> None
                | Some nx \<Rightarrow>
                    (case uq_release old_head (q\<lparr>uq_size := u64_sub (uq_size q) 1\<rparr>) of
                       None \<Rightarrow> None
                     | Some q \<Rightarrow> Some (Some (nd_data nx), q)))))"

definition UnboundedQueue_Size :: "'a UnboundedQueue \<Rightarrow> nat" where
  "UnboundedQueue_Size q = uq_size q"

definition UnboundedQueue_Empty :: "'a UnboundedQueue \<Rightarrow> bool" where
  "UnboundedQueue_Empty q \<longleftrightarrow> uq_size q = 0"

partial_function (option) Destroy_loop ::
    "nat option \<Rightarrow> (nat \<Rightarrow> 'a uq_node option) \<Rightarrow> (nat \<Rightarrow> 'a uq_node option) option" where
  "Destroy_loop ite h =
     (case ite of
        None \<Rightarrow> Some h
      | Some a \<Rightarrow>
          (case h a of
             None \<Rightarrow> None
           | Some nd \<Rightarrow> Destroy_loop (nd_next nd) (h(a := None))))"

definition UnboundedQueue_Destroy :: "'a UnboundedQueue \<Rightarrow> 'a UnboundedQueue option" where
  "UnboundedQueue_Destroy q =
     (case Destroy_loop (Some (uq_head q)) (uq_heap q) of
        None \<Rightarrow> None
      | Some h \<Rightarrow> Some (q\<lparr>uq_heap := h\<rparr>))"

definition UnboundedQueue_Clear :: "'a \<Rightarrow> 'a UnboundedQueue \<Rightarrow> 'a UnboundedQueue option" where
  "UnboundedQueue_Clear dflt q =
     (case UnboundedQueue_Destroy q of None \<Rightarrow> None | Some q \<Rightarrow> Some (UnboundedQueue_Reset dflt q))"

section \<open>The queue of one thread\<close>

text \<open>
  The nodes from an address on, with the elements behind it. A node with a successor has been released once, the last
  one not at all.
\<close>

fun uq_chain :: "(nat \<Rightarrow> 'a uq_node option) \<Rightarrow> nat \<Rightarrow> nat list \<Rightarrow> 'a list \<Rightarrow> bool" where
  "uq_chain h a [] [] \<longleftrightarrow> (\<exists>d. h a = Some \<lparr>nd_data = d, nd_ref_count = 2, nd_next = None\<rparr>)"
| "uq_chain h a (b # bs) (x # xs) \<longleftrightarrow>
     (\<exists>d. h a = Some \<lparr>nd_data = d, nd_ref_count = 1, nd_next = Some b\<rparr>) \<and>
     map_option nd_data (h b) = Some x \<and> uq_chain h b bs xs"
| "uq_chain h a _ _ \<longleftrightarrow> False"

definition uq_rep :: "'a UnboundedQueue \<Rightarrow> 'a list \<Rightarrow> bool" where
  "uq_rep q xs \<longleftrightarrow>
     (\<exists>bs. uq_chain (uq_heap q) (uq_head q) bs xs \<and> distinct (uq_head q # bs) \<and>
        dom (uq_heap q) = set (uq_head q # bs) \<and> (\<forall>a\<in>set (uq_head q # bs). a < uq_fresh q) \<and>
        uq_tail q = last (uq_head q # bs)) \<and>
     uq_size q = length xs \<and> length xs < two64"

lemma uq_chain_cong:
  "(\<And>b. b \<in> set (a # bs) \<Longrightarrow> h' b = h b) \<Longrightarrow> uq_chain h' a bs xs \<longleftrightarrow> uq_chain h a bs xs"
  by (induction h a bs xs rule: uq_chain.induct) auto

lemma uq_chain_update: "a \<notin> set (b # bs) \<Longrightarrow> uq_chain (h(a := v)) b bs xs \<longleftrightarrow> uq_chain h b bs xs"
  by (rule uq_chain_cong) auto

lemma uq_chain_snoc:
  assumes "uq_chain h a bs xs" and "distinct (a # bs)" and "n \<notin> set (a # bs)"
    and "h' n = Some \<lparr>nd_data = x, nd_ref_count = 2, nd_next = None\<rparr>"
    and "\<And>d. h (last (a # bs)) = Some \<lparr>nd_data = d, nd_ref_count = 2, nd_next = None\<rparr> \<Longrightarrow>
      h' (last (a # bs)) = Some \<lparr>nd_data = d, nd_ref_count = 1, nd_next = Some n\<rparr>"
    and "\<And>b. b \<in> set (a # bs) \<Longrightarrow> b \<noteq> last (a # bs) \<Longrightarrow> h' b = h b"
  shows "uq_chain h' a (bs @ [n]) (xs @ [x])"
  using assms
proof (induction h a bs xs rule: uq_chain.induct)
  case (1 h a)
  then show ?case by auto
next
  case (2 h a b bs y ys)
  have l: "last (a # b # bs) = last (b # bs)" by simp
  have ne: "a \<noteq> last (b # bs)" using "2.prems"(2) last_in_set [of "b # bs"] by auto
  have "uq_chain h' b (bs @ [n]) (ys @ [x])"
    by (rule "2.IH") (use "2.prems" l ne in \<open>auto split: if_splits\<close>)
  moreover have "h' a = h a" using "2.prems"(6) [of a] ne by simp
  moreover have "map_option nd_data (h' b) = map_option nd_data (h b)"
  proof (cases "b = last (b # bs)")
    case True
    then have "bs = []" using "2.prems"(2) by (cases bs) (auto split: if_splits)
    then show ?thesis using "2.prems"(1,5) by (cases ys) auto
  next
    case False
    then show ?thesis using "2.prems"(6) [of b] by simp
  qed
  ultimately show ?case using "2.prems"(1) by auto
qed auto

lemma uq_chain_last:
  "uq_chain h a bs xs \<Longrightarrow> \<exists>d. h (last (a # bs)) = Some \<lparr>nd_data = d, nd_ref_count = 2, nd_next = None\<rparr>"
  by (induction h a bs xs rule: uq_chain.induct) auto

lemma uq_chain_length: "uq_chain h a bs xs \<Longrightarrow> length bs = length xs"
  by (induction h a bs xs rule: uq_chain.induct) auto

lemma Reset_rep: "uq_heap q = Map.empty \<Longrightarrow> uq_rep (UnboundedQueue_Reset dflt q) []"
  by (auto simp: UnboundedQueue_Reset_def uq_new_def uq_rep_def intro!: exI [of _ "[]"])

lemma Enqueue_rep:
  assumes rep: "uq_rep q xs" and len: "length xs + 1 < two64"
  shows "\<exists>q'. UnboundedQueue_Enqueue x q = Some q' \<and> uq_rep q' (xs @ [x])"
proof -
  obtain bs where bs: "uq_chain (uq_heap q) (uq_head q) bs xs" "distinct (uq_head q # bs)"
      "dom (uq_heap q) = set (uq_head q # bs)" "\<forall>a\<in>set (uq_head q # bs). a < uq_fresh q"
      "uq_tail q = last (uq_head q # bs)" and sz: "uq_size q = length xs"
    using rep by (auto simp: uq_rep_def)
  let ?n = "uq_fresh q" and ?t = "uq_tail q"
  obtain d where d: "uq_heap q ?t = Some \<lparr>nd_data = d, nd_ref_count = 2, nd_next = None\<rparr>"
    using uq_chain_last [OF bs(1)] bs(5) by auto
  have tin: "?t \<in> set (uq_head q # bs)" using bs(5) last_in_set by auto
  then have nt: "?n \<noteq> ?t" using bs(4) by auto
  let ?h = "(uq_heap q)(?n \<mapsto> \<lparr>nd_data = x, nd_ref_count = 2, nd_next = None\<rparr>,
      ?t \<mapsto> \<lparr>nd_data = d, nd_ref_count = 1, nd_next = Some ?n\<rparr>)"
  let ?q = "q\<lparr>uq_heap := ?h, uq_fresh := Suc ?n, uq_tail := ?n, uq_size := length xs + 1\<rparr>"
  have e: "UnboundedQueue_Enqueue x q = Some ?q"
    using d nt sz len
    by (simp add: UnboundedQueue_Enqueue_def uq_new_def uq_write_def uq_release_def Let_def wrap_simps)
  have "uq_chain ?h (uq_head q) (bs @ [?n]) (xs @ [x])"
    by (rule uq_chain_snoc [OF bs(1,2)]) (use bs(4,5) d nt in auto)
  moreover have "distinct (uq_head q # bs @ [?n])" using bs(2,4) by auto
  moreover have "dom ?h = set (uq_head q # bs @ [?n])" using bs(3) tin by auto
  moreover have "\<forall>a\<in>set (uq_head q # bs @ [?n]). a < Suc ?n" using bs(4) by auto
  ultimately have "uq_rep ?q (xs @ [x])"
    using len unfolding uq_rep_def by (intro conjI exI [of _ "bs @ [?n]"]) simp_all
  with e show ?thesis by blast
qed

lemma Dequeue_empty_rep: "uq_rep q [] \<Longrightarrow> UnboundedQueue_Dequeue q = Some (None, q)"
proof -
  assume "uq_rep q []"
  then obtain bs where "uq_chain (uq_heap q) (uq_head q) bs []" by (auto simp: uq_rep_def)
  then show ?thesis by (cases bs) (auto simp: UnboundedQueue_Dequeue_def)
qed

lemma Dequeue_rep:
  assumes "uq_rep q (x # xs)"
  shows "\<exists>q'. UnboundedQueue_Dequeue q = Some (Some x, q') \<and> uq_rep q' xs"
proof -
  obtain cs where cs: "uq_chain (uq_heap q) (uq_head q) cs (x # xs)" "distinct (uq_head q # cs)"
      "dom (uq_heap q) = set (uq_head q # cs)" "\<forall>a\<in>set (uq_head q # cs). a < uq_fresh q"
      "uq_tail q = last (uq_head q # cs)"
    and sz: "uq_size q = length (x # xs)" "length (x # xs) < two64"
    using assms by (auto simp: uq_rep_def)
  obtain b bs where b: "cs = b # bs" using cs(1) by (cases cs) auto
  let ?a = "uq_head q"
  obtain d where d: "uq_heap q ?a = Some \<lparr>nd_data = d, nd_ref_count = 1, nd_next = Some b\<rparr>"
      "map_option nd_data (uq_heap q b) = Some x" "uq_chain (uq_heap q) b bs xs"
    using cs(1) b by auto
  then obtain nb where nb: "uq_heap q b = Some nb" "nd_data nb = x" by auto
  have ab: "?a \<noteq> b" "?a \<notin> set (b # bs)" using cs(2) b by auto
  let ?q = "q\<lparr>uq_head := b, uq_size := length xs, uq_heap := (uq_heap q)(?a := None)\<rparr>"
  have "u64_sub (Suc (length xs)) 1 = length xs" using sz(2) by (simp add: u64_sub_ge)
  then have e: "UnboundedQueue_Dequeue q = Some (Some x, ?q)"
    using d(1) nb sz by (simp add: UnboundedQueue_Dequeue_def uq_release_def Let_def)
  have "uq_chain ((uq_heap q)(?a := None)) b bs xs"
    using d(3) uq_chain_update [OF ab(2)] by blast
  then have "uq_rep ?q xs"
    using cs(2-5) b ab sz(2) unfolding uq_rep_def by (intro conjI exI [of _ bs]) auto
  with e show ?thesis by blast
qed

text \<open>\<open>Destroy\<close> deletes every node and ends.\<close>

lemma Destroy_loop_all:
  assumes "uq_chain h a bs xs" and "distinct (a # bs)"
  shows "Destroy_loop (Some a) h = Some (\<lambda>b. if b \<in> set (a # bs) then None else h b)"
  using assms
proof (induction bs arbitrary: h a xs)
  case Nil
  then obtain d where "h a = Some \<lparr>nd_data = d, nd_ref_count = 2, nd_next = None\<rparr>" by (cases xs) auto
  then show ?case by (simp add: Destroy_loop.simps fun_eq_iff)
next
  case (Cons b bs)
  obtain x ys d where c: "xs = x # ys" "h a = Some \<lparr>nd_data = d, nd_ref_count = 1, nd_next = Some b\<rparr>"
      "uq_chain h b bs ys"
    using Cons.prems(1) by (cases xs) auto
  have "uq_chain (h(a := None)) b bs ys"
    using c(3) uq_chain_update [of a b bs h None ys] Cons.prems(2) by simp
  then have "Destroy_loop (Some b) (h(a := None)) = Some (\<lambda>e. if e \<in> set (b # bs) then None else (h(a := None)) e)"
    by (rule Cons.IH) (use Cons.prems(2) in simp)
  then show ?case using c(2) by (subst Destroy_loop.simps) (auto simp: fun_eq_iff)
qed

lemma Clear_rep:
  assumes "uq_rep q xs"
  shows "\<exists>q'. UnboundedQueue_Clear dflt q = Some q' \<and> uq_rep q' []"
proof -
  obtain bs where bs: "uq_chain (uq_heap q) (uq_head q) bs xs" "distinct (uq_head q # bs)"
      "dom (uq_heap q) = set (uq_head q # bs)"
    using assms by (auto simp: uq_rep_def)
  have "(\<lambda>b. if b \<in> set (uq_head q # bs) then None else uq_heap q b) = Map.empty"
    using bs(3) by (auto simp: fun_eq_iff)
  then have "Destroy_loop (Some (uq_head q)) (uq_heap q) = Some Map.empty"
    using Destroy_loop_all [OF bs(1,2)] by simp
  then show ?thesis
    using Reset_rep [of "q\<lparr>uq_heap := Map.empty\<rparr>" dflt]
    by (simp add: UnboundedQueue_Clear_def UnboundedQueue_Destroy_def)
qed

section \<open>The contract of a queue\<close>

datatype 'a queue_op = Enq 'a | Deq | Reset_all

locale fifo_queue =
  fixes enq :: "'a \<Rightarrow> 'q \<Rightarrow> 'q option" and deq :: "'q \<Rightarrow> ('a option \<times> 'q) option" and clear :: "'q \<Rightarrow> 'q option"
    and rep :: "'q \<Rightarrow> 'a list \<Rightarrow> bool" and bound :: nat
  assumes enq_rep: "rep q xs \<Longrightarrow> length xs + 1 < bound \<Longrightarrow> \<exists>q'. enq x q = Some q' \<and> rep q' (xs @ [x])"
    and deq_empty: "rep q [] \<Longrightarrow> deq q = Some (None, q)"
    and deq_rep: "rep q (x # xs) \<Longrightarrow> \<exists>q'. deq q = Some (Some x, q') \<and> rep q' xs"
    and clear_rep: "rep q xs \<Longrightarrow> \<exists>q'. clear q = Some q' \<and> rep q' []"
begin

text \<open>A run with the results of its dequeues, on the queue and on a list.\<close>

fun run :: "'a queue_op list \<Rightarrow> 'q \<Rightarrow> ('a option list \<times> 'q) option" where
  "run [] q = Some ([], q)"
| "run (Enq x # ops) q = (case enq x q of None \<Rightarrow> None | Some q' \<Rightarrow> run ops q')"
| "run (Deq # ops) q =
     (case deq q of
        None \<Rightarrow> None
      | Some (r, q') \<Rightarrow> (case run ops q' of None \<Rightarrow> None | Some (rs, q'') \<Rightarrow> Some (r # rs, q'')))"
| "run (Reset_all # ops) q = (case clear q of None \<Rightarrow> None | Some q' \<Rightarrow> run ops q')"

end

fun list_queue :: "'a queue_op list \<Rightarrow> 'a list \<Rightarrow> 'a option list \<times> 'a list" where
  "list_queue [] xs = ([], xs)"
| "list_queue (Enq x # ops) xs = list_queue ops (xs @ [x])"
| "list_queue (Deq # ops) [] = (case list_queue ops [] of (rs, ys) \<Rightarrow> (None # rs, ys))"
| "list_queue (Deq # ops) (x # xs) = (case list_queue ops xs of (rs, ys) \<Rightarrow> (Some x # rs, ys))"
| "list_queue (Reset_all # ops) xs = list_queue ops []"

context fifo_queue
begin

lemma run_list_queue:
  assumes "rep q xs" and "length xs + length ops < bound"
  shows "\<exists>q'. run ops q = Some (fst (list_queue ops xs), q') \<and> rep q' (snd (list_queue ops xs))"
  using assms
proof (induction ops xs arbitrary: q rule: list_queue.induct)
  case (2 x ops xs)
  then obtain q' where "enq x q = Some q'" "rep q' (xs @ [x])" using enq_rep [of q xs x] by auto
  then show ?case using "2.IH" [of q'] "2.prems" by auto
next
  case (3 ops)
  then obtain q' where "run ops q = Some (fst (list_queue ops []), q')" "rep q' (snd (list_queue ops []))"
    using "3.IH" [of q] by auto
  then show ?case using deq_empty [OF "3.prems"(1)] by (auto split: prod.split)
next
  case (4 ops x xs)
  then obtain q' where "deq q = Some (Some x, q')" "rep q' xs" using deq_rep by blast
  moreover from this obtain q'' where "run ops q' = Some (fst (list_queue ops xs), q'')" "rep q'' (snd (list_queue ops xs))"
    using "4.IH" [of q'] "4.prems" by auto
  ultimately show ?case by (auto split: prod.split)
next
  case (5 ops xs)
  then obtain q' where "clear q = Some q'" "rep q' []" using clear_rep by blast
  then show ?case using "5.IH" [of q'] "5.prems" by auto
qed simp

end

interpretation uq: fifo_queue UnboundedQueue_Enqueue UnboundedQueue_Dequeue "UnboundedQueue_Clear dflt" uq_rep two64
    for dflt
  by unfold_locales (blast intro: Enqueue_rep Dequeue_empty_rep Dequeue_rep Clear_rep)+

section \<open>Several threads\<close>

text \<open>
  One access per step. \<open>release\<close> is its two accesses: \<open>RL_load\<close> is between the \<open>fetch_sub\<close> and the load
  of the count. A thread whose access hits a deleted node sets \<open>us_fault\<close>.
\<close>

datatype uq_pc =
  Q_idle
| E_cas nat nat
| E_link nat nat
| E_release nat
| E_load nat
| E_size
| D_next nat
| D_cas nat nat
| D_data nat nat
| D_size nat
| D_release nat
| D_load nat

record 'a uq_sys =
  us_queue :: "'a UnboundedQueue"
  us_pc :: "nat \<Rightarrow> uq_pc"
  us_got :: "'a list"
  us_fault :: bool

definition us_set :: "nat \<Rightarrow> uq_pc \<Rightarrow> 'a UnboundedQueue \<Rightarrow> 'a uq_sys \<Rightarrow> 'a uq_sys" where
  "us_set t pc q s = s\<lparr>us_pc := (us_pc s)(t := pc), us_queue := q\<rparr>"

definition us_node :: "'a uq_sys \<Rightarrow> nat \<Rightarrow> 'a uq_node option" where
  "us_node s a = uq_heap (us_queue s) a"

inductive UnboundedQueue_step :: "'a uq_sys \<Rightarrow> 'a uq_sys \<Rightarrow> bool" where
  enq_new: "us_pc s t = Q_idle \<Longrightarrow> uq_new x (us_queue s) = (node, q) \<Longrightarrow>
    UnboundedQueue_step s (us_set t (E_cas node (uq_tail q)) q s)"
| enq_cas: "us_pc s t = E_cas node old \<Longrightarrow>
    UnboundedQueue_step s
      (if uq_tail (us_queue s) = old then us_set t (E_link node old) ((us_queue s)\<lparr>uq_tail := node\<rparr>) s
       else us_set t (E_cas node (uq_tail (us_queue s))) (us_queue s) s)"
| enq_link: "us_pc s t = E_link node old \<Longrightarrow>
    uq_write old (\<lambda>nd. nd\<lparr>nd_next := Some node\<rparr>) (us_queue s) = Some q \<Longrightarrow>
    UnboundedQueue_step s (us_set t (E_release old) q s)"
| enq_release: "us_pc s t = E_release old \<Longrightarrow>
    uq_write old (\<lambda>nd. nd\<lparr>nd_ref_count := nd_ref_count nd - 1\<rparr>) (us_queue s) = Some q \<Longrightarrow>
    UnboundedQueue_step s (us_set t (E_load old) q s)"
| enq_load: "us_pc s t = E_load old \<Longrightarrow> us_node s old = Some nd \<Longrightarrow>
    UnboundedQueue_step s
      (us_set t E_size
        (if nd_ref_count nd = 0 then (us_queue s)\<lparr>uq_heap := (uq_heap (us_queue s))(old := None)\<rparr> else us_queue s) s)"
| enq_size: "us_pc s t = E_size \<Longrightarrow>
    UnboundedQueue_step s (us_set t Q_idle ((us_queue s)\<lparr>uq_size := u64_add (uq_size (us_queue s)) 1\<rparr>) s)"
| deq_head: "us_pc s t = Q_idle \<Longrightarrow> UnboundedQueue_step s (us_set t (D_next (uq_head (us_queue s))) (us_queue s) s)"
| deq_next: "us_pc s t = D_next old \<Longrightarrow> us_node s old = Some nd \<Longrightarrow>
    UnboundedQueue_step s
      (us_set t (case nd_next nd of None \<Rightarrow> Q_idle | Some nx \<Rightarrow> D_cas old nx) (us_queue s) s)"
| deq_cas: "us_pc s t = D_cas old nx \<Longrightarrow>
    UnboundedQueue_step s
      (if uq_head (us_queue s) = old then us_set t (D_data old nx) ((us_queue s)\<lparr>uq_head := nx\<rparr>) s
       else us_set t (D_next (uq_head (us_queue s))) (us_queue s) s)"
| deq_data: "us_pc s t = D_data old nx \<Longrightarrow> us_node s nx = Some nd \<Longrightarrow>
    UnboundedQueue_step s (us_set t (D_size old) (us_queue s) (s\<lparr>us_got := us_got s @ [nd_data nd]\<rparr>))"
| deq_size: "us_pc s t = D_size old \<Longrightarrow>
    UnboundedQueue_step s
      (us_set t (D_release old) ((us_queue s)\<lparr>uq_size := u64_sub (uq_size (us_queue s)) 1\<rparr>) s)"
| deq_release: "us_pc s t = D_release old \<Longrightarrow>
    uq_write old (\<lambda>nd. nd\<lparr>nd_ref_count := nd_ref_count nd - 1\<rparr>) (us_queue s) = Some q \<Longrightarrow>
    UnboundedQueue_step s (us_set t (D_load old) q s)"
| deq_load: "us_pc s t = D_load old \<Longrightarrow> us_node s old = Some nd \<Longrightarrow>
    UnboundedQueue_step s
      (us_set t Q_idle
        (if nd_ref_count nd = 0 then (us_queue s)\<lparr>uq_heap := (uq_heap (us_queue s))(old := None)\<rparr> else us_queue s) s)"
| fault: "us_pc s t \<in> {E_link n a, E_release a, E_load a, D_next a, D_data n a, D_release a, D_load a} \<Longrightarrow>
    us_node s a = None \<Longrightarrow> UnboundedQueue_step s (s\<lparr>us_fault := True\<rparr>)"

definition us_init :: "'a UnboundedQueue \<Rightarrow> 'a uq_sys" where
  "us_init q = \<lparr>us_queue = q, us_pc = (\<lambda>_. Q_idle), us_got = [], us_fault = False\<rparr>"

text \<open>Schedules: a thread makes its next access; an idle one starts an enqueue or a dequeue.\<close>

definition us_access :: "nat \<Rightarrow> 'a uq_sys \<Rightarrow> nat \<Rightarrow> ('a uq_node \<Rightarrow> 'a uq_sys) \<Rightarrow> 'a uq_sys" where
  "us_access t s a f = (case us_node s a of None \<Rightarrow> s\<lparr>us_fault := True\<rparr> | Some nd \<Rightarrow> f nd)"

definition us_store :: "nat \<Rightarrow> 'a uq_node \<Rightarrow> 'a uq_sys \<Rightarrow> 'a UnboundedQueue" where
  "us_store a nd s = (us_queue s)\<lparr>uq_heap := (uq_heap (us_queue s))(a \<mapsto> nd)\<rparr>"

definition us_delete :: "nat \<Rightarrow> 'a uq_node \<Rightarrow> 'a uq_sys \<Rightarrow> 'a UnboundedQueue" where
  "us_delete a nd s =
     (if nd_ref_count nd = 0 then (us_queue s)\<lparr>uq_heap := (uq_heap (us_queue s))(a := None)\<rparr> else us_queue s)"

fun us_next :: "nat \<Rightarrow> 'a option \<Rightarrow> uq_pc \<Rightarrow> 'a uq_sys \<Rightarrow> 'a uq_sys" where
  "us_next t (Some x) Q_idle s =
     (case uq_new x (us_queue s) of (node, q) \<Rightarrow> us_set t (E_cas node (uq_tail q)) q s)"
| "us_next t None Q_idle s = us_set t (D_next (uq_head (us_queue s))) (us_queue s) s"
| "us_next t _ (E_cas node old) s =
     (if uq_tail (us_queue s) = old then us_set t (E_link node old) ((us_queue s)\<lparr>uq_tail := node\<rparr>) s
      else us_set t (E_cas node (uq_tail (us_queue s))) (us_queue s) s)"
| "us_next t _ (E_link node old) s =
     us_access t s old (\<lambda>nd. us_set t (E_release old) (us_store old (nd\<lparr>nd_next := Some node\<rparr>) s) s)"
| "us_next t _ (E_release old) s =
     us_access t s old
       (\<lambda>nd. us_set t (E_load old) (us_store old (nd\<lparr>nd_ref_count := nd_ref_count nd - 1\<rparr>) s) s)"
| "us_next t _ (E_load old) s = us_access t s old (\<lambda>nd. us_set t E_size (us_delete old nd s) s)"
| "us_next t _ E_size s = us_set t Q_idle ((us_queue s)\<lparr>uq_size := u64_add (uq_size (us_queue s)) 1\<rparr>) s"
| "us_next t _ (D_next old) s =
     us_access t s old
       (\<lambda>nd. us_set t (case nd_next nd of None \<Rightarrow> Q_idle | Some nx \<Rightarrow> D_cas old nx) (us_queue s) s)"
| "us_next t _ (D_cas old nx) s =
     (if uq_head (us_queue s) = old then us_set t (D_data old nx) ((us_queue s)\<lparr>uq_head := nx\<rparr>) s
      else us_set t (D_next (uq_head (us_queue s))) (us_queue s) s)"
| "us_next t _ (D_data old nx) s =
     us_access t s nx (\<lambda>nd. us_set t (D_size old) (us_queue s) (s\<lparr>us_got := us_got s @ [nd_data nd]\<rparr>))"
| "us_next t _ (D_size old) s =
     us_set t (D_release old) ((us_queue s)\<lparr>uq_size := u64_sub (uq_size (us_queue s)) 1\<rparr>) s"
| "us_next t _ (D_release old) s =
     us_access t s old
       (\<lambda>nd. us_set t (D_load old) (us_store old (nd\<lparr>nd_ref_count := nd_ref_count nd - 1\<rparr>) s) s)"
| "us_next t _ (D_load old) s = us_access t s old (\<lambda>nd. us_set t Q_idle (us_delete old nd s) s)"

fun us_run :: "(nat \<times> 'a option) list \<Rightarrow> 'a uq_sys \<Rightarrow> 'a uq_sys" where
  "us_run [] s = s"
| "us_run ((t, x) # sched) s = us_run sched (us_next t x (us_pc s t) s)"

lemma us_next_sound: "us_pc s t = pc \<Longrightarrow> UnboundedQueue_step s (us_next t x pc s)"
proof (induction t x pc s rule: us_next.induct)
  case (1 t x s)
  then show ?case by (auto intro: enq_new split: prod.split)
next
  case (2 t s)
  then show ?case by (auto intro: deq_head)
next
  case (3 t x node old s)
  then show ?case using enq_cas [of s t node old] by simp
next
  case (4 t x node old s)
  then show ?case
    using fault [of s t node old] enq_link [of s t node old]
    by (auto simp: us_access_def us_store_def us_node_def uq_write_def split: option.split)
next
  case (5 t x old s)
  then show ?case
    using fault [of s t 0 old] enq_release [of s t old]
    by (auto simp: us_access_def us_store_def us_node_def uq_write_def split: option.split)
next
  case (6 t x old s)
  then show ?case
    using fault [of s t 0 old] enq_load [of s t old] by (auto simp: us_access_def us_delete_def split: option.split)
next
  case (7 t x s)
  then show ?case using enq_size [of s t] by simp
next
  case (8 t x old s)
  then show ?case
    using fault [of s t 0 old] deq_next [of s t old] by (auto simp: us_access_def split: option.split)
next
  case (9 t x old nx s)
  then show ?case using deq_cas [of s t old nx] by simp
next
  case (10 t x old nx s)
  then show ?case
    using fault [of s t old nx] deq_data [of s t old nx] by (auto simp: us_access_def split: option.split)
next
  case (11 t x old s)
  then show ?case using deq_size [of s t old] by simp
next
  case (12 t x old s)
  then show ?case
    using fault [of s t 0 old] deq_release [of s t old]
    by (auto simp: us_access_def us_store_def us_node_def uq_write_def split: option.split)
next
  case (13 t x old s)
  then show ?case
    using fault [of s t 0 old] deq_load [of s t old] by (auto simp: us_access_def us_delete_def split: option.split)
qed

lemma us_run_sound: "UnboundedQueue_step\<^sup>*\<^sup>* s (us_run sched s)"
  by (induction sched s rule: us_run.induct)
    (auto intro: converse_rtranclp_into_rtranclp us_next_sound)

lemmas us_run_defs = us_init_def UnboundedQueue_ctor_def UnboundedQueue_Reset_def uq_new_def us_set_def us_node_def
  us_access_def us_store_def us_delete_def u64_add_def u64_sub_def two64_def

section \<open>Claims\<close>

text \<open>
  Used by one thread, the queue never accesses a deleted node and answers every sequence of
  enqueues, dequeues and clears as a first-in first-out list does; afterwards \<open>Size\<close> is the number of elements left and
  exactly one node more than these is allocated.
\<close>

theorem UnboundedQueue_fifo:
  assumes "length ops < two64"
  shows "\<exists>q. uq.run dflt ops (UnboundedQueue_ctor dflt) = Some (fst (list_queue ops []), q) \<and>
    UnboundedQueue_Size q = length (snd (list_queue ops [])) \<and>
    card (dom (uq_heap q)) = Suc (length (snd (list_queue ops [])))"
proof -
  have "uq_rep (UnboundedQueue_ctor dflt) []"
    unfolding UnboundedQueue_ctor_def by (rule Reset_rep) simp
  then obtain q where q: "uq.run dflt ops (UnboundedQueue_ctor dflt) = Some (fst (list_queue ops []), q)"
      "uq_rep q (snd (list_queue ops []))"
    using uq.run_list_queue [of "UnboundedQueue_ctor dflt" "[]" ops dflt] assms by auto
  then obtain bs where bs: "uq_chain (uq_heap q) (uq_head q) bs (snd (list_queue ops []))"
      "distinct (uq_head q # bs)" "dom (uq_heap q) = set (uq_head q # bs)"
    by (auto simp: uq_rep_def)
  have "card (dom (uq_heap q)) = length (uq_head q # bs)"
    unfolding bs(3) by (rule distinct_card [OF bs(2)])
  then show ?thesis
    using q uq_chain_length [OF bs(1)] by (auto simp: UnboundedQueue_Size_def uq_rep_def)
qed

theorem UnboundedQueue_fifo_witness:
  "\<exists>q. uq.run 0 [Enq 1, Enq 2, Deq, Deq, Deq :: nat queue_op] (UnboundedQueue_ctor 0) = Some ([Some 1, Some 2, None], q)"
  using UnboundedQueue_fifo [of "[Enq 1, Enq 2, Deq, Deq, Deq :: nat queue_op]" 0] by (auto simp: two64_def)

text \<open>
  With two consumers a node is used after it was deleted. One thread has loaded \<open>head_\<close>; the other dequeues, and its
  \<open>release\<close> deletes the old head, as the producer has released it before; the first thread then reads \<open>next\<close>
  of the deleted node.
\<close>

theorem Dequeue_use_after_delete:
  "\<exists>s. UnboundedQueue_step\<^sup>*\<^sup>* (us_init (UnboundedQueue_ctor (0::nat))) s \<and> us_fault s"
proof -
  let ?sched = "[(0, Some 5), (0, None), (0, None), (0, None), (0, None), (0, None), (1, None),
      (0, None), (0, None), (0, None), (0, None), (0, None), (0, None), (0, None), (1, None)]"
  have "us_fault (us_run ?sched (us_init (UnboundedQueue_ctor 0)))"
    by (simp add: us_run_defs)
  then show ?thesis using us_run_sound by blast
qed

text \<open>
  \<open>release\<close> decrements and loads in two accesses: a producer and a consumer can both find the count at zero, and the
  second one accesses the node the first has deleted.
\<close>

lemma release_twice_deleted:
  "\<exists>s. UnboundedQueue_step\<^sup>*\<^sup>* (us_init (UnboundedQueue_ctor (0::nat))) s \<and>
     us_pc s 0 = E_load 0 \<and> us_node s 0 = None"
proof -
  let ?s = "us_run [(0, Some 5), (0, None), (0, None), (1, None), (1, None), (1, None), (1, None), (1, None),
      (1, None), (0, None), (1, None)] (us_init (UnboundedQueue_ctor 0))"
  have "us_pc ?s 0 = E_load 0 \<and> us_node ?s 0 = None" by (simp add: us_run_defs)
  then show ?thesis using us_run_sound by blast
qed

text \<open>An element can be taken before its producer has counted it: the size wraps below zero.\<close>

lemma Size_wraps_below_zero:
  "\<exists>s. UnboundedQueue_step\<^sup>*\<^sup>* (us_init (UnboundedQueue_ctor (0::nat))) s \<and> \<not> us_fault s \<and>
     UnboundedQueue_Size (us_queue s) = 2 ^ 64 - 1"
proof -
  let ?s = "us_run [(0, Some 5), (0, None), (0, None), (1, None), (1, None), (1, None), (1, None), (1, None)]
      (us_init (UnboundedQueue_ctor 0))"
  have "\<not> us_fault ?s \<and> UnboundedQueue_Size (us_queue ?s) = 2 ^ 64 - 1"
    by (simp add: us_run_defs UnboundedQueue_Size_def)
  then show ?thesis using us_run_sound by blast
qed

end
