(* ===== verification/Signal_Slot.thy ===== *)
theory Signal_Slot
  imports Prelude
begin

text \<open>
  \<open>cyber/base/signal.h\<close> and \<open>cyber/transport/message/listener_handler.h\<close>. A signal keeps its slots on the heap, because
  a slot is shared between the signal, its connections and the copy an emission works on: a slot is an address in the
  signal's store. The pointer of a connection to its signal is kept as the fact that it is set; the operations of a
  connection take the signal it points to. The locale \<open>signal_like\<close> is what a signal promises; the bookkeeping of a
  \<open>ListenerHandler\<close> is proved correct over it.
\<close>

section \<open>Slots, signals and connections\<close>

record 'c Slot =
  sl_cb :: "'c option"
  sl_connected :: bool

definition Slot_ctor :: "'c option \<Rightarrow> 'c Slot" where
  "Slot_ctor cb = \<lparr>sl_cb = cb, sl_connected = True\<rparr>"

definition Slot_Disconnect :: "'c Slot \<Rightarrow> 'c Slot" where
  "Slot_Disconnect sl = sl\<lparr>sl_connected := False\<rparr>"

record 'c Signal =
  sg_slots :: "nat list"
  sg_store :: "nat \<Rightarrow> 'c Slot option"
  sg_fresh :: nat

record Connection =
  cn_slot :: "nat option"
  cn_signal :: bool

definition Signal_ctor :: "'c Signal" where
  "Signal_ctor = \<lparr>sg_slots = [], sg_store = (\<lambda>_. None), sg_fresh = 0\<rparr>"

definition Connection_ctor :: Connection where
  "Connection_ctor = \<lparr>cn_slot = None, cn_signal = False\<rparr>"

definition slot_connected :: "'c Signal \<Rightarrow> nat \<Rightarrow> bool" where
  "slot_connected sg n = (case sg_store sg n of None \<Rightarrow> False | Some sl \<Rightarrow> sl_connected sl)"

definition slot_disconnect :: "nat \<Rightarrow> 'c Signal \<Rightarrow> 'c Signal" where
  "slot_disconnect n sg = sg\<lparr>sg_store := (sg_store sg)(n := map_option Slot_Disconnect (sg_store sg n))\<rparr>"

definition Connection_HasSlot :: "Connection \<Rightarrow> nat \<Rightarrow> bool" where
  "Connection_HasSlot conn n \<longleftrightarrow> cn_slot conn = Some n"

definition Connection_IsConnected :: "Connection \<Rightarrow> 'c Signal \<Rightarrow> bool" where
  "Connection_IsConnected conn sg = (case cn_slot conn of None \<Rightarrow> False | Some n \<Rightarrow> slot_connected sg n)"

definition ClearDisconnectedSlots :: "'c Signal \<Rightarrow> 'c Signal" where
  "ClearDisconnectedSlots sg = sg\<lparr>sg_slots := filter (slot_connected sg) (sg_slots sg)\<rparr>"

definition Signal_Connect :: "'c option \<Rightarrow> 'c Signal \<Rightarrow> Connection \<times> 'c Signal" where
  "Signal_Connect cb sg =
     (\<lparr>cn_slot = Some (sg_fresh sg), cn_signal = True\<rparr>,
      sg\<lparr>sg_slots := sg_slots sg @ [sg_fresh sg],
         sg_store := (sg_store sg)(sg_fresh sg \<mapsto> Slot_ctor cb), sg_fresh := Suc (sg_fresh sg)\<rparr>)"

definition Signal_Disconnect :: "Connection \<Rightarrow> 'c Signal \<Rightarrow> bool \<times> 'c Signal" where
  "Signal_Disconnect conn sg =
     (let find = list_ex (Connection_HasSlot conn) (sg_slots sg);
          sg' = fold (\<lambda>n g. if Connection_HasSlot conn n then slot_disconnect n g else g) (sg_slots sg) sg
      in if find then (True, ClearDisconnectedSlots sg') else (False, sg'))"

definition DisconnectAllSlots :: "'c Signal \<Rightarrow> 'c Signal" where
  "DisconnectAllSlots sg = (fold slot_disconnect (sg_slots sg) sg)\<lparr>sg_slots := []\<rparr>"

definition Connection_Disconnect :: "Connection \<Rightarrow> 'c Signal \<Rightarrow> bool \<times> 'c Signal" where
  "Connection_Disconnect conn sg =
     (if cn_signal conn \<and> cn_slot conn \<noteq> None then Signal_Disconnect conn sg else (False, sg))"

text \<open>
  An emission. The callbacks are client code: \<open>call\<close> gives their effect on the client's own state and on the signal, which
  they may use again because the mutex is not held. The slots are copied first; whether a slot is connected is read
  when its turn comes.
\<close>

definition Slot_call :: "('c \<Rightarrow> 'c Signal \<times> 'u \<Rightarrow> 'c Signal \<times> 'u) \<Rightarrow> nat \<Rightarrow> 'c Signal \<times> 'u \<Rightarrow> 'c Signal \<times> 'u" where
  "Slot_call call n s =
     (case sg_store (fst s) n of
        None \<Rightarrow> s
      | Some sl \<Rightarrow> if sl_connected sl then (case sl_cb sl of None \<Rightarrow> s | Some cb \<Rightarrow> call cb s) else s)"

definition Signal_emit :: "('c \<Rightarrow> 'c Signal \<times> 'u \<Rightarrow> 'c Signal \<times> 'u) \<Rightarrow> 'c Signal \<times> 'u \<Rightarrow> 'c Signal \<times> 'u" where
  "Signal_emit call s =
     (case fold (Slot_call call) (sg_slots (fst s)) s of (sg, u) \<Rightarrow> (ClearDisconnectedSlots sg, u))"

section \<open>The listener handler\<close>

record 'c ListenerHandler =
  lh_signal :: "'c Signal"
  lh_signal_conns :: "nat \<Rightarrow> Connection option"
  lh_signals :: "nat \<Rightarrow> 'c Signal option"
  lh_signals_conns :: "nat \<Rightarrow> (nat \<Rightarrow> Connection option) option"

definition ListenerHandler_ctor :: "'c ListenerHandler" where
  "ListenerHandler_ctor =
     \<lparr>lh_signal = Signal_ctor, lh_signal_conns = (\<lambda>_. None), lh_signals = (\<lambda>_. None), lh_signals_conns = (\<lambda>_. None)\<rparr>"

definition ListenerHandler_Connect :: "nat \<Rightarrow> 'c option \<Rightarrow> 'c ListenerHandler \<Rightarrow> 'c ListenerHandler" where
  "ListenerHandler_Connect self_id listener h =
     (let (connection, sg) = Signal_Connect listener (lh_signal h); h' = h\<lparr>lh_signal := sg\<rparr>
      in if \<not> Connection_IsConnected connection sg then h'
         else h'\<lparr>lh_signal_conns := (lh_signal_conns h')(self_id \<mapsto> connection)\<rparr>)"

definition ListenerHandler_Connect_oppo ::
    "nat \<Rightarrow> nat \<Rightarrow> 'c option \<Rightarrow> 'c ListenerHandler \<Rightarrow> 'c ListenerHandler" where
  "ListenerHandler_Connect_oppo self_id oppo_id listener h =
     (let signal = (case lh_signals h oppo_id of None \<Rightarrow> Signal_ctor | Some sg \<Rightarrow> sg);
          (connection, sg) = Signal_Connect listener signal;
          h' = h\<lparr>lh_signals := (lh_signals h)(oppo_id \<mapsto> sg)\<rparr>
      in if \<not> Connection_IsConnected connection sg then h'
         else let conns = (case lh_signals_conns h' oppo_id of None \<Rightarrow> (\<lambda>_. None) | Some c \<Rightarrow> c)
              in h'\<lparr>lh_signals_conns := (lh_signals_conns h')(oppo_id \<mapsto> conns(self_id \<mapsto> connection))\<rparr>)"

definition ListenerHandler_Disconnect :: "nat \<Rightarrow> 'c ListenerHandler \<Rightarrow> 'c ListenerHandler" where
  "ListenerHandler_Disconnect self_id h =
     (case lh_signal_conns h self_id of
        None \<Rightarrow> h
      | Some conn \<Rightarrow>
          h\<lparr>lh_signal := snd (Connection_Disconnect conn (lh_signal h)),
            lh_signal_conns := (lh_signal_conns h)(self_id := None)\<rparr>)"

text \<open>
  A connection kept under \<open>oppo_id\<close> points to the signal kept under it: both are made by the same call and
  signals are never replaced.
\<close>

definition ListenerHandler_Disconnect_oppo :: "nat \<Rightarrow> nat \<Rightarrow> 'c ListenerHandler \<Rightarrow> 'c ListenerHandler" where
  "ListenerHandler_Disconnect_oppo self_id oppo_id h =
     (case lh_signals_conns h oppo_id of
        None \<Rightarrow> h
      | Some conns \<Rightarrow>
          (case conns self_id of
             None \<Rightarrow> h
           | Some conn \<Rightarrow>
               h\<lparr>lh_signals := (lh_signals h)
                   (oppo_id := map_option (\<lambda>sg. snd (Connection_Disconnect conn sg)) (lh_signals h oppo_id)),
                 lh_signals_conns := (lh_signals_conns h)(oppo_id \<mapsto> conns(self_id := None))\<rparr>))"

text \<open>
  \<open>Run\<close>, with listeners that leave the handler alone. The result is the listeners called, in order.
  \<open>RunFromString\<close> parses the message first; \<open>parse\<close> is the parser of the handler's message type.
\<close>

definition log_call :: "'c \<Rightarrow> 'c Signal \<times> 'c list \<Rightarrow> 'c Signal \<times> 'c list" where
  "log_call cb s = (fst s, snd s @ [cb])"

definition ListenerHandler_Run :: "nat \<Rightarrow> 'c ListenerHandler \<Rightarrow> 'c ListenerHandler \<times> 'c list" where
  "ListenerHandler_Run sender_hash h =
     (let (sg, calls) = Signal_emit log_call (lh_signal h, []); h' = h\<lparr>lh_signal := sg\<rparr>
      in case lh_signals h' sender_hash of
           None \<Rightarrow> (h', calls)
         | Some sg_oppo \<Rightarrow>
             (let (sg', calls') = Signal_emit log_call (sg_oppo, calls)
              in (h'\<lparr>lh_signals := (lh_signals h')(sender_hash \<mapsto> sg')\<rparr>, calls')))"

definition ListenerHandler_RunFromString ::
    "('b \<Rightarrow> 'm option) \<Rightarrow> 'b \<Rightarrow> nat \<Rightarrow> 'c ListenerHandler \<Rightarrow> 'c ListenerHandler \<times> ('c \<times> 'm) list" where
  "ListenerHandler_RunFromString parse str sender_hash h =
     (case parse str of
        None \<Rightarrow> (h, [])
      | Some msg \<Rightarrow> (let (h', calls) = ListenerHandler_Run sender_hash h in (h', map (\<lambda>c. (c, msg)) calls)))"

lemmas signal_defs = Signal_Connect_def Connection_Disconnect_def Signal_Disconnect_def ClearDisconnectedSlots_def
  Connection_HasSlot_def Slot_ctor_def

section \<open>The signal as a list of subscriptions\<close>

definition signal_inv :: "'c Signal \<Rightarrow> bool" where
  "signal_inv sg \<longleftrightarrow> distinct (sg_slots sg) \<and> (\<forall>n \<in> set (sg_slots sg). slot_connected sg n) \<and>
     (\<forall>n. sg_store sg n \<noteq> None \<longrightarrow> n < sg_fresh sg) \<and>
     (\<forall>n. slot_connected sg n \<longrightarrow> n \<in> set (sg_slots sg))"

definition slot_cb :: "'c Signal \<Rightarrow> nat \<Rightarrow> 'c option" where
  "slot_cb sg n = (case sg_store sg n of None \<Rightarrow> None | Some sl \<Rightarrow> sl_cb sl)"

definition Signal_entries :: "'c Signal \<Rightarrow> (nat \<times> 'c option) list" where
  "Signal_entries sg = map (\<lambda>n. (n, slot_cb sg n)) (sg_slots sg)"

lemma fst_Signal_entries [simp]: "map fst (Signal_entries sg) = sg_slots sg"
  by (simp add: Signal_entries_def o_def)

lemma slot_connected_store: "slot_connected sg n \<Longrightarrow> sg_store sg n \<noteq> None"
  by (auto simp: slot_connected_def split: option.splits)

lemma slot_connected_disconnect [simp]:
  "slot_connected (slot_disconnect n sg) m \<longleftrightarrow> m \<noteq> n \<and> slot_connected sg m"
  by (auto simp: slot_connected_def slot_disconnect_def Slot_Disconnect_def split: option.splits)

lemma slot_cb_disconnect [simp]: "slot_cb (slot_disconnect n sg) m = slot_cb sg m"
  by (auto simp: slot_cb_def slot_disconnect_def Slot_Disconnect_def split: option.splits)

lemma slot_disconnect_frame [simp]:
  "sg_slots (slot_disconnect n sg) = sg_slots sg" "sg_fresh (slot_disconnect n sg) = sg_fresh sg"
  "sg_store (slot_disconnect n sg) m = None \<longleftrightarrow> sg_store sg m = None"
  by (simp_all add: slot_disconnect_def)

lemma slot_disconnect_store_dom: "sg_store (slot_disconnect n sg) m \<noteq> None \<Longrightarrow> sg_store sg m \<noteq> None"
  by simp

text \<open>The loop of \<open>Disconnect\<close> touches one slot.\<close>

lemma disconnect_loop:
  assumes "distinct ns"
  shows "fold (\<lambda>m g. if Connection_HasSlot conn m then slot_disconnect m g else g) ns sg =
    (case cn_slot conn of None \<Rightarrow> sg | Some n \<Rightarrow> if n \<in> set ns then slot_disconnect n sg else sg)"
  using assms
proof (induction ns arbitrary: sg)
  case (Cons a ns)
  then show ?case
    by (cases "cn_slot conn") (auto simp: Connection_HasSlot_def)
qed (simp split: option.split)

lemma Signal_ctor_inv: "signal_inv Signal_ctor"
  by (simp add: signal_inv_def Signal_ctor_def slot_connected_def)

lemma Signal_ctor_entries [simp]: "Signal_entries Signal_ctor = []"
  by (simp add: Signal_entries_def Signal_ctor_def)

lemma ClearDisconnectedSlots_idle: "signal_inv sg \<Longrightarrow> ClearDisconnectedSlots sg = sg"
  by (simp add: ClearDisconnectedSlots_def signal_inv_def)

lemma Signal_fresh:
  assumes "signal_inv sg"
  shows "sg_store sg (sg_fresh sg) = None" "sg_fresh sg \<notin> set (sg_slots sg)"
proof -
  have "sg_store sg n \<noteq> None \<Longrightarrow> n < sg_fresh sg" for n using assms unfolding signal_inv_def by blast
  then show f: "sg_store sg (sg_fresh sg) = None" by blast
  show "sg_fresh sg \<notin> set (sg_slots sg)"
    using assms f unfolding signal_inv_def by (metis option.simps(4) slot_connected_def)
qed

lemma Signal_Connect_inv:
  assumes "signal_inv sg"
  shows "signal_inv (snd (Signal_Connect cb sg))"
proof -
  have conn: "slot_connected (snd (Signal_Connect cb sg)) n \<longleftrightarrow> n = sg_fresh sg \<or> slot_connected sg n" for n
    by (simp add: signal_defs slot_connected_def)
  have store: "n < Suc (sg_fresh sg)" if "sg_store (snd (Signal_Connect cb sg)) n \<noteq> None" for n
    using that assms by (auto simp: signal_inv_def signal_defs less_SucI split: if_splits)
  show ?thesis
    unfolding signal_inv_def conn
    using assms Signal_fresh [OF assms] store by (auto simp: signal_inv_def signal_defs)
qed

lemma Signal_Connect_entries:
  assumes "signal_inv sg"
  shows "Signal_entries (snd (Signal_Connect cb sg)) = Signal_entries sg @ [(sg_fresh sg, cb)]"
  using Signal_fresh [OF assms] by (auto simp: Signal_entries_def signal_defs slot_cb_def)

lemma Signal_Disconnect_eq:
  assumes "signal_inv sg"
  shows "Signal_Disconnect \<lparr>cn_slot = Some n, cn_signal = s\<rparr> sg =
    (if n \<in> set (sg_slots sg) then (True, ClearDisconnectedSlots (slot_disconnect n sg)) else (False, sg))"
proof -
  have "distinct (sg_slots sg)" using assms by (simp add: signal_inv_def)
  note loop = disconnect_loop [OF this, of "\<lparr>cn_slot = Some n, cn_signal = s\<rparr>"]
  show ?thesis unfolding Signal_Disconnect_def loop by (auto simp: list_ex_iff Connection_HasSlot_def)
qed

lemma Clear_disconnected_inv:
  assumes "signal_inv sg"
  shows "signal_inv (ClearDisconnectedSlots (slot_disconnect n sg))"
    and "Signal_entries (ClearDisconnectedSlots (slot_disconnect n sg)) =
      filter (\<lambda>e. fst e \<noteq> n) (Signal_entries sg)"
proof -
  have conn: "slot_connected (ClearDisconnectedSlots g) = slot_connected g"
      "slot_cb (ClearDisconnectedSlots g) = slot_cb g" for g :: "'a Signal"
    by (auto simp: ClearDisconnectedSlots_def slot_connected_def slot_cb_def)
  have slots: "sg_slots (ClearDisconnectedSlots (slot_disconnect n sg)) = filter (\<lambda>m. m \<noteq> n) (sg_slots sg)"
    using assms by (auto simp: ClearDisconnectedSlots_def signal_inv_def intro: filter_cong)
  show "signal_inv (ClearDisconnectedSlots (slot_disconnect n sg))"
    unfolding signal_inv_def conn slots
    using assms by (auto simp: signal_inv_def ClearDisconnectedSlots_def)
  show "Signal_entries (ClearDisconnectedSlots (slot_disconnect n sg)) =
      filter (\<lambda>e. fst e \<noteq> n) (Signal_entries sg)"
    by (simp add: Signal_entries_def slots conn filter_map o_def)
qed

lemma DisconnectAllSlots_inv:
  assumes "signal_inv sg"
  shows "signal_inv (DisconnectAllSlots sg) \<and> Signal_entries (DisconnectAllSlots sg) = []"
proof -
  have loop: "slot_connected (fold slot_disconnect ns g) m \<longleftrightarrow> m \<notin> set ns \<and> slot_connected g m"
      "sg_store (fold slot_disconnect ns g) m = None \<longleftrightarrow> sg_store g m = None"
      "sg_fresh (fold slot_disconnect ns g) = sg_fresh g" for ns m and g :: "'a Signal"
    by (induction ns arbitrary: g) auto
  have conn: "slot_connected (g\<lparr>sg_slots := xs\<rparr>) m = slot_connected g m" for xs m and g :: "'a Signal"
    by (simp add: slot_connected_def)
  show ?thesis
    using assms loop by (auto simp: signal_inv_def DisconnectAllSlots_def conn Signal_entries_def)
qed

section \<open>What a signal promises, and keyed listeners over it\<close>

abbreviation live_conn :: "nat \<Rightarrow> Connection" where
  "live_conn n \<equiv> \<lparr>cn_slot = Some n, cn_signal = True\<rparr>"

text \<open>
  A handler keeps the connection of each listener under the listener's key. The register it maintains is a list of
  callbacks, each under its key; a callback whose key has been taken by a later \<open>Connect\<close> has no key any more.
\<close>

definition reg_connect :: "nat \<Rightarrow> 'c \<Rightarrow> (nat option \<times> 'c) list \<Rightarrow> (nat option \<times> 'c) list" where
  "reg_connect k cb r = map (\<lambda>(x, c). (if x = Some k then None else x, c)) r @ [(Some k, cb)]"

definition reg_disconnect :: "nat \<Rightarrow> (nat option \<times> 'c) list \<Rightarrow> (nat option \<times> 'c) list" where
  "reg_disconnect k r = filter (\<lambda>e. fst e \<noteq> Some k) r"

definition reg_entry :: "(nat \<Rightarrow> Connection option) \<Rightarrow> nat \<times> 'c \<Rightarrow> nat option \<times> 'c \<Rightarrow> bool" where
  "reg_entry conns e r \<longleftrightarrow> snd r = snd e \<and> (\<forall>k. fst r = Some k \<longleftrightarrow> conns k = Some (live_conn (fst e)))"

definition reg_rel :: "(nat \<Rightarrow> Connection option) \<Rightarrow> (nat \<times> 'c) list \<Rightarrow> (nat option \<times> 'c) list \<Rightarrow> bool" where
  "reg_rel conns es r \<longleftrightarrow> distinct (map fst es) \<and> list_all2 (reg_entry conns) es r \<and>
     (\<forall>k conn. conns k = Some conn \<longrightarrow> (\<exists>n \<in> fst ` set es. conn = live_conn n))"

lemma reg_relD:
  assumes "reg_rel conns es r"
  shows "list_all2 (reg_entry conns) es r" and "map snd r = map snd es"
    and "conns k = Some conn \<Longrightarrow> \<exists>n \<in> fst ` set es. conn = live_conn n"
proof -
  show l: "list_all2 (reg_entry conns) es r" using assms by (simp add: reg_rel_def)
  show "map snd r = map snd es"
    using list_all2_mono [OF l, of "\<lambda>e r. snd r = snd e"]
    by (auto simp: list_all2_conv_all_nth reg_entry_def intro!: nth_equalityI)
  show "conns k = Some conn \<Longrightarrow> \<exists>n \<in> fst ` set es. conn = live_conn n"
    using assms by (auto simp: reg_rel_def)
qed

lemma reg_rel_connect:
  assumes rel: "reg_rel conns es r" and fresh: "n \<notin> fst ` set es"
  shows "reg_rel (conns(k \<mapsto> live_conn n)) (es @ [(n, cb)]) (reg_connect k cb r)"
proof -
  let ?c = "conns(k \<mapsto> live_conn n)"
  have old: "reg_entry ?c e (if x = Some k then None else x, c)"
    if "e \<in> set es" "reg_entry conns e (x, c)" for e x c
  proof -
    have "fst e \<noteq> n" using that(1) fresh by auto
    moreover have "x = Some j \<longleftrightarrow> conns j = Some (live_conn (fst e))" for j
      using that(2) by (simp add: reg_entry_def)
    then have "(if x = Some k then None else x) = Some j \<longleftrightarrow> j \<noteq> k \<and> conns j = Some (live_conn (fst e))" for j
      by (metis option.distinct(1) option.inject)
    ultimately show ?thesis using that(2) by (auto simp: reg_entry_def)
  qed
  have nokey: "conns j \<noteq> Some (live_conn n)" for j
    using reg_relD(3) [OF rel, of j "live_conn n"] fresh by auto
  have "list_all2 (reg_entry ?c) es (map (\<lambda>(x, c). (if x = Some k then None else x, c)) r)"
    unfolding list_all2_map2
  proof (rule list.rel_mono_strong [OF reg_relD(1) [OF rel]])
    fix e x assume "e \<in> set es" "reg_entry conns e x"
    then show "reg_entry ?c e (case x of (x, c) \<Rightarrow> (if x = Some k then None else x, c))"
      using old [of e "fst x" "snd x"] by (simp add: case_prod_beta)
  qed
  moreover have "reg_entry ?c (n, cb) (Some k, cb)" using nokey by (auto simp: reg_entry_def)
  moreover have "distinct (map fst (es @ [(n, cb)]))" using rel fresh by (auto simp: reg_rel_def)
  moreover have "\<exists>m \<in> fst ` set (es @ [(n, cb)]). conn = live_conn m" if "?c j = Some conn" for j conn
    using that reg_relD(3) [OF rel, of j conn] by (auto split: if_splits)
  ultimately show ?thesis
    by (simp add: reg_rel_def reg_connect_def list_all2_appendI)
qed

lemma list_all2_filter:
  assumes "list_all2 R xs ys" and "\<And>x y. R x y \<Longrightarrow> P x \<longleftrightarrow> Q y"
  shows "list_all2 R (filter P xs) (filter Q ys)"
  using assms(1) by (induction rule: list_all2_induct) (auto simp: assms(2))

lemma reg_rel_disconnect:
  assumes rel: "reg_rel conns es r" and k: "conns k = Some (live_conn n)"
  shows "reg_rel (conns(k := None)) (filter (\<lambda>e. fst e \<noteq> n) es) (reg_disconnect k r)"
proof -
  have iff: "fst e \<noteq> n \<longleftrightarrow> fst x \<noteq> Some k" if "reg_entry conns e x" for e x
    using that k by (auto simp: reg_entry_def)
  have "list_all2 (reg_entry conns) (filter (\<lambda>e. fst e \<noteq> n) es) (reg_disconnect k r)"
    unfolding reg_disconnect_def by (rule list_all2_filter [OF reg_relD(1) [OF rel] iff])
  then have "list_all2 (reg_entry (conns(k := None))) (filter (\<lambda>e. fst e \<noteq> n) es) (reg_disconnect k r)"
    by (rule list.rel_mono_strong) (auto simp: reg_entry_def reg_disconnect_def k)
  moreover have "\<exists>m \<in> fst ` set (filter (\<lambda>e. fst e \<noteq> n) es). conn = live_conn m"
    if j: "(conns(k := None)) j = Some conn" for j conn
  proof -
    obtain e where e: "e \<in> set es" "conn = live_conn (fst e)" and jk: "j \<noteq> k" "conns j = Some conn"
      using j reg_relD(3) [OF rel, of j conn] by (auto split: if_splits)
    obtain x where "reg_entry conns e x"
      using reg_relD(1) [OF rel] e(1) by (metis in_set_conv_nth list_all2_nthD)
    then have "fst e \<noteq> n" using jk e(2) k unfolding reg_entry_def by (metis option.inject)
    then show ?thesis using e by force
  qed
  moreover have "distinct (map fst (filter (\<lambda>e. fst e \<noteq> n) es))"
    using rel by (auto simp: reg_rel_def distinct_map_filter)
  ultimately show ?thesis by (simp add: reg_rel_def)
qed

locale signal_like =
  fixes connect :: "'c \<Rightarrow> 's \<Rightarrow> Connection \<times> 's" and disconnect :: "Connection \<Rightarrow> 's \<Rightarrow> bool \<times> 's"
    and entries :: "'s \<Rightarrow> (nat \<times> 'c) list" and ok :: "'s \<Rightarrow> bool" and is_connected :: "Connection \<Rightarrow> 's \<Rightarrow> bool"
  assumes connect_entry: "ok s \<Longrightarrow> \<exists>n. fst (connect c s) = live_conn n \<and> n \<notin> fst ` set (entries s) \<and>
      entries (snd (connect c s)) = entries s @ [(n, c)] \<and> ok (snd (connect c s)) \<and>
      is_connected (live_conn n) (snd (connect c s))"
    and disconnect_entry: "ok s \<Longrightarrow> entries (snd (disconnect (live_conn n) s)) = filter (\<lambda>e. fst e \<noteq> n) (entries s) \<and>
      ok (snd (disconnect (live_conn n) s)) \<and> (fst (disconnect (live_conn n) s) \<longleftrightarrow> n \<in> fst ` set (entries s))"
begin

text \<open>A signal with a table of connections by key implements a register.\<close>

definition keyed :: "'s \<Rightarrow> (nat \<Rightarrow> Connection option) \<Rightarrow> (nat option \<times> 'c) list \<Rightarrow> bool" where
  "keyed s conns r \<longleftrightarrow> ok s \<and> reg_rel conns (entries s) r"

lemma keyed_connect:
  assumes "keyed s conns r"
  shows "is_connected (fst (connect cb s)) (snd (connect cb s)) \<and>
    keyed (snd (connect cb s)) (conns(k \<mapsto> fst (connect cb s))) (reg_connect k cb r)"
proof -
  obtain n where n: "fst (connect cb s) = live_conn n" "n \<notin> fst ` set (entries s)"
      "entries (snd (connect cb s)) = entries s @ [(n, cb)]" "ok (snd (connect cb s))"
      "is_connected (live_conn n) (snd (connect cb s))"
    using connect_entry [of s cb] assms by (auto simp: keyed_def)
  then show ?thesis
    using reg_rel_connect [of conns "entries s" r n k cb] assms by (simp add: keyed_def)
qed

lemma keyed_disconnect:
  assumes "keyed s conns r" and "conns k = Some conn"
  shows "keyed (snd (disconnect conn s)) (conns(k := None)) (reg_disconnect k r)"
proof -
  obtain n where n: "conn = live_conn n" using assms reg_relD(3) unfolding keyed_def by blast
  then show ?thesis
    using disconnect_entry [of s n] reg_rel_disconnect [of conns "entries s" r k n] assms by (simp add: keyed_def)
qed

lemma keyed_disconnect_absent:
  assumes "keyed s conns r" and "conns k = None"
  shows "reg_disconnect k r = r"
proof -
  have "fst x \<noteq> Some k" if "x \<in> set r" for x
    using that reg_relD(1) [of conns "entries s" r] assms
    by (auto simp: keyed_def list_all2_conv_all_nth in_set_conv_nth reg_entry_def)
  then show ?thesis by (simp add: reg_disconnect_def)
qed

end

interpretation signal: signal_like Signal_Connect Connection_Disconnect Signal_entries signal_inv Connection_IsConnected
proof
  fix s :: "'c Signal" and c
  assume inv: "signal_inv s"
  have "sg_fresh s \<notin> fst ` set (Signal_entries s)"
    using Signal_fresh(2) [OF inv] by (metis fst_Signal_entries list.set_map)
  moreover have "fst (Signal_Connect c s) = live_conn (sg_fresh s)"
      "Connection_IsConnected (live_conn (sg_fresh s)) (snd (Signal_Connect c s))"
    by (simp_all add: Signal_Connect_def Connection_IsConnected_def slot_connected_def Slot_ctor_def)
  ultimately show "\<exists>n. fst (Signal_Connect c s) = live_conn n \<and> n \<notin> fst ` set (Signal_entries s) \<and>
      Signal_entries (snd (Signal_Connect c s)) = Signal_entries s @ [(n, c)] \<and> signal_inv (snd (Signal_Connect c s)) \<and>
      Connection_IsConnected (live_conn n) (snd (Signal_Connect c s))"
    using Signal_Connect_inv [OF inv] Signal_Connect_entries [OF inv] by blast
next
  fix s :: "'c Signal" and n
  assume inv: "signal_inv s"
  have "filter (\<lambda>e. fst e \<noteq> n) (Signal_entries s) = Signal_entries s" if "n \<notin> set (sg_slots s)"
    using that by (auto simp: Signal_entries_def filter_id_conv)
  moreover have "n \<in> fst ` set (Signal_entries s) \<longleftrightarrow> n \<in> set (sg_slots s)"
    by (metis fst_Signal_entries list.set_map)
  ultimately show "Signal_entries (snd (Connection_Disconnect (live_conn n) s)) =
        filter (\<lambda>e. fst e \<noteq> n) (Signal_entries s) \<and>
      signal_inv (snd (Connection_Disconnect (live_conn n) s)) \<and>
      (fst (Connection_Disconnect (live_conn n) s) \<longleftrightarrow> n \<in> fst ` set (Signal_entries s))"
    using Signal_Disconnect_eq [OF inv, of n True] Clear_disconnected_inv [OF inv, of n] inv
    by (simp add: Connection_Disconnect_def)
qed

section \<open>Emission\<close>

text \<open>The callbacks of a list of entries that are not empty functions.\<close>

definition reg_calls :: "('k \<times> 'c option) list \<Rightarrow> 'c list" where
  "reg_calls r = List.map_filter id (map snd r)"

lemma reg_calls_simps [simp]:
  "reg_calls [] = []" "reg_calls (e # r) = (case snd e of None \<Rightarrow> reg_calls r | Some c \<Rightarrow> c # reg_calls r)"
  by (auto simp: reg_calls_def List.map_filter_def split: option.splits)

lemma reg_calls_snd: "map snd r = map snd r' \<Longrightarrow> reg_calls r = reg_calls r'"
  by (simp add: reg_calls_def)

lemma emit_loop:
  assumes "\<forall>n \<in> set ns. slot_connected sg n"
  shows "fold (Slot_call log_call) ns (sg, u) = (sg, u @ reg_calls (map (\<lambda>n. (n, slot_cb sg n)) ns))"
  using assms
proof (induction ns arbitrary: u)
  case (Cons n ns)
  then obtain sl where sl: "sg_store sg n = Some sl" "sl_connected sl"
    by (auto simp: slot_connected_def split: option.splits)
  show ?case
    using Cons sl by (cases "sl_cb sl") (auto simp: Slot_call_def log_call_def slot_cb_def)
qed simp

lemma Signal_emit_log:
  assumes "signal_inv sg"
  shows "Signal_emit log_call (sg, u) = (sg, u @ reg_calls (Signal_entries sg))"
  using assms emit_loop [of "sg_slots sg" sg u] ClearDisconnectedSlots_idle [OF assms]
  by (simp add: Signal_emit_def signal_inv_def Signal_entries_def)

text \<open>
  Callbacks that use the signal themselves: each callback stands for the operations it performs. The log holds the
  slots whose callback ran.
\<close>

datatype 'c sig_op = SConnect "'c option" | SDisconnect Connection | SDisconnectAll

fun sig_apply :: "'c sig_op \<Rightarrow> 'c Signal \<Rightarrow> 'c Signal" where
  "sig_apply (SConnect cb) sg = snd (Signal_Connect cb sg)"
| "sig_apply (SDisconnect conn) sg = snd (Connection_Disconnect conn sg)"
| "sig_apply SDisconnectAll sg = DisconnectAllSlots sg"

definition prog_call :: "('c \<Rightarrow> 'c sig_op list) \<Rightarrow> 'c \<Rightarrow> 'c Signal \<times> 'c list \<Rightarrow> 'c Signal \<times> 'c list" where
  "prog_call prog cb s = (fold sig_apply (prog cb) (fst s), snd s @ [cb])"

lemma sig_apply_inv: "signal_inv sg \<Longrightarrow> signal_inv (sig_apply op sg)"
proof (induction op)
  case (SDisconnect conn)
  show ?case
  proof (cases "cn_slot conn")
    case (Some n)
    then have "conn = \<lparr>cn_slot = Some n, cn_signal = cn_signal conn\<rparr>" by simp
    then show ?thesis
      using Signal_Disconnect_eq [OF SDisconnect, of n "cn_signal conn"] Clear_disconnected_inv(1) [OF SDisconnect, of n] SDisconnect
      by (auto simp: Connection_Disconnect_def)
  qed (use SDisconnect in \<open>simp add: Connection_Disconnect_def\<close>)
qed (simp_all add: Signal_Connect_inv DisconnectAllSlots_inv)

lemma fold_sig_apply_inv: "signal_inv sg \<Longrightarrow> signal_inv (fold sig_apply ops sg)"
  by (induction ops arbitrary: sg) (simp_all add: sig_apply_inv)

text \<open>A slot keeps its callback, and a disconnected slot stays disconnected.\<close>

definition sig_le :: "'c Signal \<Rightarrow> 'c Signal \<Rightarrow> bool" where
  "sig_le g g' \<longleftrightarrow> (\<forall>n. sg_store g n \<noteq> None \<longrightarrow> sg_store g' n \<noteq> None \<and> slot_cb g' n = slot_cb g n \<and>
     (slot_connected g' n \<longrightarrow> slot_connected g n))"

lemma sig_le_refl [simp]: "sig_le g g"
  by (simp add: sig_le_def)

lemma sig_le_trans: "sig_le g g' \<Longrightarrow> sig_le g' g'' \<Longrightarrow> sig_le g g''"
  unfolding sig_le_def by (metis (no_types))

lemma sig_le_Clear [simp]: "sig_le g (ClearDisconnectedSlots g') \<longleftrightarrow> sig_le g g'"
  by (simp add: sig_le_def ClearDisconnectedSlots_def slot_cb_def slot_connected_def)

lemma sig_le_disconnect: "sig_le g (slot_disconnect n g)"
  by (simp add: sig_le_def)

lemma sig_le_disconnect_all: "sig_le g (fold slot_disconnect ns g)"
proof (induction ns arbitrary: g)
  case (Cons n ns)
  show ?case using sig_le_trans [OF sig_le_disconnect Cons] by simp
qed simp

lemma sig_le_apply: "signal_inv g \<Longrightarrow> sig_le g (sig_apply op g)"
proof (induction op)
  case (SConnect cb)
  then show ?case
    using Signal_fresh(1) [OF SConnect] by (auto simp: sig_le_def Signal_Connect_def slot_cb_def slot_connected_def)
next
  case (SDisconnect conn)
  show ?case
  proof (cases "cn_slot conn")
    case (Some n)
    then have "conn = \<lparr>cn_slot = Some n, cn_signal = cn_signal conn\<rparr>" by simp
    then show ?thesis
      using Signal_Disconnect_eq [OF SDisconnect, of n "cn_signal conn"] sig_le_disconnect [of g n]
      by (auto simp: Connection_Disconnect_def)
  qed (simp add: Connection_Disconnect_def)
next
  case SDisconnectAll
  show ?case using sig_le_disconnect_all [of g "sg_slots g"]
    by (simp add: sig_le_def DisconnectAllSlots_def slot_cb_def slot_connected_def)
qed

lemma sig_le_fold: "signal_inv g \<Longrightarrow> sig_le g (fold sig_apply ops g)"
proof (induction ops arbitrary: g)
  case (Cons op ops)
  show ?case
    using sig_le_trans [OF sig_le_apply [OF Cons.prems] Cons.IH [OF sig_apply_inv [OF Cons.prems]]] by simp
qed simp

lemma emit_prog_loop:
  assumes "signal_inv g" and "\<forall>n \<in> set ns. sg_store g n \<noteq> None" and "sig_le g0 g"
    and "\<forall>n \<in> set ns. sg_store g0 n \<noteq> None" and "distinct ns"
  shows "\<exists>called g'. fold (Slot_call (prog_call prog)) ns (g, u) =
      (g', u @ reg_calls (map (\<lambda>n. (n, slot_cb g0 n)) called)) \<and>
    subseq called ns \<and> sig_le g g' \<and> signal_inv g' \<and> (\<forall>n \<in> set ns. slot_connected g' n \<longrightarrow> n \<in> set called)"
  using assms
proof (induction ns arbitrary: g u)
  case Nil
  then show ?case by (intro exI [of _ "[]"]) simp
next
  case (Cons n ns)
  obtain sl where sl: "sg_store g n = Some sl" using Cons.prems(2) by auto
  have cb: "slot_cb g0 n = sl_cb sl" using Cons.prems(3,4) sl by (auto simp: sig_le_def slot_cb_def)
  let ?g = "if sl_connected sl then (case sl_cb sl of None \<Rightarrow> g | Some c \<Rightarrow> fold sig_apply (prog c) g) else g"
  let ?u = "if sl_connected sl then (case sl_cb sl of None \<Rightarrow> u | Some c \<Rightarrow> u @ [c]) else u"
  have call: "Slot_call (prog_call prog) n (g, u) = (?g, ?u)"
    using sl by (simp add: Slot_call_def prog_call_def split: option.splits)
  have le: "sig_le g ?g" and inv: "signal_inv ?g"
    using Cons.prems(1) by (auto simp: sig_le_fold fold_sig_apply_inv split: option.splits)
  have alive: "\<forall>m \<in> set ns. sg_store ?g m \<noteq> None"
    using Cons.prems(2) le unfolding sig_le_def by (meson list.set_intros(2))
  obtain called g' where rest: "fold (Slot_call (prog_call prog)) ns (?g, ?u) =
        (g', ?u @ reg_calls (map (\<lambda>n. (n, slot_cb g0 n)) called))"
      "subseq called ns" "sig_le ?g g'" "signal_inv g'" "\<forall>m \<in> set ns. slot_connected g' m \<longrightarrow> m \<in> set called"
    using Cons.IH [OF inv alive sig_le_trans [OF Cons.prems(3) le], of ?u] Cons.prems(4,5) by auto
  have le': "sig_le g g'" by (rule sig_le_trans [OF le rest(3)])
  show ?case
  proof (cases "sl_connected sl")
    case True
    then show ?thesis
      using rest le' cb call by (intro exI [of _ "n # called"] exI [of _ g']) (auto split: option.splits)
  next
    case False
    then have "\<not> slot_connected g' n" using le' sl by (auto simp: sig_le_def slot_connected_def)
    then show ?thesis
      using rest le' call False by (intro exI [of _ called] exI [of _ g']) auto
  qed
qed

section \<open>The handler refines its registers\<close>

datatype 'c lh_op =
  LConnect nat "'c option" | LConnect_oppo nat nat "'c option" | LDisconnect nat | LDisconnect_oppo nat nat | LRun nat

fun lh_apply :: "'c lh_op \<Rightarrow> 'c ListenerHandler \<Rightarrow> 'c ListenerHandler \<times> 'c list" where
  "lh_apply (LConnect self cb) h = (ListenerHandler_Connect self cb h, [])"
| "lh_apply (LConnect_oppo self oppo cb) h = (ListenerHandler_Connect_oppo self oppo cb h, [])"
| "lh_apply (LDisconnect self) h = (ListenerHandler_Disconnect self h, [])"
| "lh_apply (LDisconnect_oppo self oppo) h = (ListenerHandler_Disconnect_oppo self oppo h, [])"
| "lh_apply (LRun sender) h = ListenerHandler_Run sender h"

type_synonym 'c register = "(nat option \<times> 'c option) list"

fun spec_apply :: "'c lh_op \<Rightarrow> 'c register \<times> (nat \<Rightarrow> 'c register) \<Rightarrow> ('c register \<times> (nat \<Rightarrow> 'c register)) \<times> 'c list" where
  "spec_apply (LConnect self cb) (r, ro) = ((reg_connect self cb r, ro), [])"
| "spec_apply (LConnect_oppo self oppo cb) (r, ro) = ((r, ro(oppo := reg_connect self cb (ro oppo))), [])"
| "spec_apply (LDisconnect self) (r, ro) = ((reg_disconnect self r, ro), [])"
| "spec_apply (LDisconnect_oppo self oppo) (r, ro) = ((r, ro(oppo := reg_disconnect self (ro oppo))), [])"
| "spec_apply (LRun sender) (r, ro) = ((r, ro), reg_calls r @ reg_calls (ro sender))"

fun run_ops :: "('o \<Rightarrow> 's \<Rightarrow> 's \<times> 'r) \<Rightarrow> 'o list \<Rightarrow> 's \<Rightarrow> 's \<times> 'r list" where
  "run_ops f [] s = (s, [])"
| "run_ops f (op # ops) s = (let (s', r) = f op s; (s'', rs) = run_ops f ops s' in (s'', r # rs))"

lemma run_ops_simulation:
  assumes "\<And>op s a. R s a \<Longrightarrow> R (fst (f op s)) (fst (g op a)) \<and> snd (f op s) = snd (g op a)" and "R s a"
  shows "R (fst (run_ops f ops s)) (fst (run_ops g ops a)) \<and> snd (run_ops f ops s) = snd (run_ops g ops a)"
  using assms(2)
proof (induction ops arbitrary: s a)
  case (Cons op ops)
  show ?case
    using Cons.IH [of "fst (f op s)" "fst (g op a)"] assms(1) [OF Cons.prems, of op]
    by (auto simp: Let_def case_prod_beta)
qed simp

definition signal_of :: "'c ListenerHandler \<Rightarrow> nat \<Rightarrow> 'c Signal" where
  "signal_of h oppo = (case lh_signals h oppo of None \<Rightarrow> Signal_ctor | Some sg \<Rightarrow> sg)"

definition conns_of :: "'c ListenerHandler \<Rightarrow> nat \<Rightarrow> nat \<Rightarrow> Connection option" where
  "conns_of h oppo = (case lh_signals_conns h oppo of None \<Rightarrow> (\<lambda>_. None) | Some c \<Rightarrow> c)"

definition handler_rel :: "'c ListenerHandler \<Rightarrow> 'c register \<times> (nat \<Rightarrow> 'c register) \<Rightarrow> bool" where
  "handler_rel h a \<longleftrightarrow> signal.keyed (lh_signal h) (lh_signal_conns h) (fst a) \<and>
     (\<forall>oppo. signal.keyed (signal_of h oppo) (conns_of h oppo) (snd a oppo))"

lemma keyed_empty: "signal.keyed Signal_ctor conns r \<longleftrightarrow> conns = (\<lambda>_. None) \<and> r = []"
proof
  assume k: "signal.keyed Signal_ctor conns r"
  then have rel: "reg_rel conns [] r" by (simp add: signal.keyed_def)
  then have "conns k = None" for k by (cases "conns k") (auto simp: reg_rel_def)
  with rel show "conns = (\<lambda>_. None) \<and> r = []" by (auto simp: reg_rel_def)
qed (simp add: signal.keyed_def Signal_ctor_inv reg_rel_def)

lemma keyed_emit:
  assumes "signal.keyed sg conns r"
  shows "Signal_emit log_call (sg, u) = (sg, u @ reg_calls r)"
proof -
  have "signal_inv sg" and "map snd r = map snd (Signal_entries sg)"
    using assms reg_relD(2) by (auto simp: signal.keyed_def)
  then show ?thesis using reg_calls_snd [of r "Signal_entries sg"] by (simp only: Signal_emit_log)
qed

lemma Connect_rel:
  assumes "handler_rel h (r, ro)"
  shows "handler_rel (ListenerHandler_Connect self cb h) (reg_connect self cb r, ro)"
  using assms signal.keyed_connect [of "lh_signal h" "lh_signal_conns h" r cb self]
  by (auto simp: handler_rel_def ListenerHandler_Connect_def Let_def case_prod_beta signal_of_def conns_of_def)

lemma Connect_oppo_rel:
  assumes "handler_rel h (r, ro)"
  shows "handler_rel (ListenerHandler_Connect_oppo self oppo cb h) (r, ro(oppo := reg_connect self cb (ro oppo)))"
proof -
  have "signal.keyed (signal_of h oppo) (conns_of h oppo) (ro oppo)" using assms by (simp add: handler_rel_def)
  note k = signal.keyed_connect [OF this, of cb self]
  then show ?thesis
    using assms
    by (auto simp: handler_rel_def ListenerHandler_Connect_oppo_def Let_def case_prod_beta signal_of_def conns_of_def)
qed

lemma Disconnect_rel:
  assumes "handler_rel h (r, ro)"
  shows "handler_rel (ListenerHandler_Disconnect self h) (reg_disconnect self r, ro)"
proof (cases "lh_signal_conns h self")
  case None
  then show ?thesis
    using assms signal.keyed_disconnect_absent [of "lh_signal h" "lh_signal_conns h" r self]
    by (simp add: handler_rel_def ListenerHandler_Disconnect_def)
next
  case (Some conn)
  then show ?thesis
    using assms signal.keyed_disconnect [of "lh_signal h" "lh_signal_conns h" r self conn]
    by (simp add: handler_rel_def ListenerHandler_Disconnect_def signal_of_def conns_of_def)
qed

lemma Disconnect_oppo_rel:
  assumes "handler_rel h (r, ro)"
  shows "handler_rel (ListenerHandler_Disconnect_oppo self oppo h) (r, ro(oppo := reg_disconnect self (ro oppo)))"
proof -
  have k: "signal.keyed (signal_of h oppo) (conns_of h oppo) (ro oppo)" using assms by (simp add: handler_rel_def)
  show ?thesis
  proof (cases "conns_of h oppo self")
    case None
    then have "ListenerHandler_Disconnect_oppo self oppo h = h"
      by (auto simp: ListenerHandler_Disconnect_oppo_def conns_of_def split: option.splits)
    then show ?thesis using assms signal.keyed_disconnect_absent [OF k None] by simp
  next
    case (Some conn)
    have "lh_signals h oppo \<noteq> None"
      using k Some by (auto simp: signal_of_def keyed_empty split: option.splits)
    then obtain sg where sg: "lh_signals h oppo = Some sg" by auto
    obtain conns where conns: "lh_signals_conns h oppo = Some conns" "conns self = Some conn"
      using Some by (auto simp: conns_of_def split: option.splits)
    show ?thesis
      using assms signal.keyed_disconnect [OF k Some] sg conns
      by (auto simp: handler_rel_def ListenerHandler_Disconnect_oppo_def signal_of_def conns_of_def)
  qed
qed

lemma Run_rel:
  assumes "handler_rel h (r, ro)"
  shows "ListenerHandler_Run sender h = (h, reg_calls r @ reg_calls (ro sender))"
proof -
  have k: "signal.keyed (lh_signal h) (lh_signal_conns h) r"
      "signal.keyed (signal_of h sender) (conns_of h sender) (ro sender)"
    using assms by (simp_all add: handler_rel_def)
  show ?thesis
  proof (cases "lh_signals h sender")
    case None
    then have "ro sender = []" using k(2) by (simp add: signal_of_def keyed_empty)
    then show ?thesis using None keyed_emit [OF k(1), of "[]"] by (simp add: ListenerHandler_Run_def)
  next
    case (Some sg)
    then show ?thesis
      using keyed_emit [OF k(1), of "[]"] keyed_emit [OF k(2), of "reg_calls r"]
      by (simp add: ListenerHandler_Run_def signal_of_def fun_upd_idem)
  qed
qed

lemma lh_apply_rel:
  assumes "handler_rel h a"
  shows "handler_rel (fst (lh_apply op h)) (fst (spec_apply op a)) \<and> snd (lh_apply op h) = snd (spec_apply op a)"
proof -
  obtain r ro where a: "a = (r, ro)" by force
  show ?thesis
    using assms unfolding a
    by (cases op) (simp_all add: Connect_rel Connect_oppo_rel Disconnect_rel Disconnect_oppo_rel Run_rel)
qed

lemma ListenerHandler_ctor_rel: "handler_rel ListenerHandler_ctor ([], \<lambda>_. [])"
  by (simp add: handler_rel_def ListenerHandler_ctor_def signal_of_def conns_of_def keyed_empty)

lemma lh_run_simulation:
  "snd (run_ops lh_apply ops ListenerHandler_ctor) = snd (run_ops spec_apply ops ([], \<lambda>_. []))"
  using run_ops_simulation [where R = handler_rel and f = lh_apply and g = spec_apply and ops = ops,
      OF _ ListenerHandler_ctor_rel] lh_apply_rel by blast

section \<open>Claims\<close>

text \<open>
  C35: A listener handler refines its registers of listeners: for every sequence of connections, disconnections and messages,
  each message calls the registered listeners in the order of their registration, first those for every
  sender, then those for its sender, and no others.
\<close>

theorem ListenerHandler_refines:
  "snd (run_ops lh_apply ops ListenerHandler_ctor) = snd (run_ops spec_apply ops ([], \<lambda>_. []))"
  by (rule lh_run_simulation)

text \<open>
  An emission works on the slots present at its start. Whatever the callbacks do to the signal meanwhile, they run
  in the order of connection, each at most once; a slot still connected at the end was called, so only
  a disconnection suppresses a call, and slots connected meanwhile wait for the next emission.
\<close>

theorem Signal_emission_snapshot:
  "\<exists>called sg'. Signal_emit (prog_call prog) (fold sig_apply before Signal_ctor, []) =
      (sg', reg_calls (map (\<lambda>n. (n, slot_cb (fold sig_apply before Signal_ctor) n)) called)) \<and>
    subseq called (sg_slots (fold sig_apply before Signal_ctor)) \<and>
    set (sg_slots (fold sig_apply before Signal_ctor)) \<inter> {n. slot_connected sg' n} \<subseteq> set called \<and>
    set (sg_slots sg') = {n. slot_connected sg' n}"
proof -
  define sg where "sg = fold sig_apply before Signal_ctor"
  have inv: "signal_inv sg" unfolding sg_def by (rule fold_sig_apply_inv [OF Signal_ctor_inv])
  then have alive: "\<forall>n \<in> set (sg_slots sg). sg_store sg n \<noteq> None" and d: "distinct (sg_slots sg)"
    using slot_connected_store by (auto simp only: signal_inv_def)
  obtain called g' where r: "fold (Slot_call (prog_call prog)) (sg_slots sg) (sg, []) =
        (g', reg_calls (map (\<lambda>n. (n, slot_cb sg n)) called))"
      "subseq called (sg_slots sg)" "signal_inv g'" "\<forall>n \<in> set (sg_slots sg). slot_connected g' n \<longrightarrow> n \<in> set called"
    using emit_prog_loop [OF inv alive sig_le_refl alive d, of prog "[]"] by auto
  moreover have "set (sg_slots g') = {n. slot_connected g' n}" using r(3) by (auto simp: signal_inv_def)
  ultimately show ?thesis unfolding sg_def [symmetric] by (auto simp: Signal_emit_def ClearDisconnectedSlots_idle)
qed

text \<open>
  A second \<open>Connect\<close> under the same identifier replaces the kept connection but leaves the first listener
  connected: a message calls both, and \<open>Disconnect\<close> can only remove the second.
\<close>

lemma Connect_twice_leaks_listener:
  "snd (run_ops lh_apply [LConnect k (Some a), LConnect k (Some b), LRun sender, LDisconnect k, LDisconnect k, LRun sender]
     ListenerHandler_ctor) = [[], [], [a, b], [], [], [a]]"
proof -
  have "snd (run_ops spec_apply [LConnect k (Some a), LConnect k (Some b), LRun sender, LDisconnect k, LDisconnect k,
      LRun sender] ([], \<lambda>_. [])) = [[], [], [a, b], [], [], [a]]"
    by (simp add: reg_connect_def reg_disconnect_def)
  then show ?thesis by (simp only: lh_run_simulation)
qed

end
