(* ===== verification/Message_Header.thy ===== *)
theory Message_Header
  imports Prelude "HOL-Library.Word"
begin

unbundle bit_operations_syntax

text \<open>
  \<open>cyber/message/message_header.h\<close> and the framing functions of \<open>message_traits.h\<close>: a serialized message is a header of
  192 bytes, integers in network order, followed by the content. The content is written and parsed by the message class
  (protobuf or a raw message), which is a parameter.
\<close>

section \<open>Integers in network order\<close>

type_synonym byte = "8 word"

text \<open>\<open>htonl\<close> and the copy of the result: the most significant byte comes first.\<close>

definition Convert32ToArray :: "32 word \<Rightarrow> byte list" where
  "Convert32ToArray input =
     [ucast (drop_bit 24 input), ucast (drop_bit 16 input), ucast (drop_bit 8 input), ucast input]"

definition ConvertArrayTo32 :: "byte list \<Rightarrow> 32 word" where
  "ConvertArrayTo32 input =
     push_bit 24 (ucast (input ! 0)) OR push_bit 16 (ucast (input ! 1)) OR push_bit 8 (ucast (input ! 2)) OR
     ucast (input ! 3)"

definition Convert64ToArray :: "64 word \<Rightarrow> byte list" where
  "Convert64ToArray input =
     (let h_high = ucast (drop_bit 32 (input AND 0xffffffff00000000)); h_low = ucast (input AND 0x00000000ffffffff)
      in Convert32ToArray h_high @ Convert32ToArray h_low)"

definition ConvertArrayTo64 :: "byte list \<Rightarrow> 64 word" where
  "ConvertArrayTo64 input =
     (let high = ucast (ConvertArrayTo32 input); low = ucast (ConvertArrayTo32 (drop 4 input))
      in push_bit 32 high OR low)"

lemma length_Convert32ToArray [simp]: "length (Convert32ToArray w) = 4"
  by (simp add: Convert32ToArray_def)

lemma length_Convert64ToArray [simp]: "length (Convert64ToArray w) = 8"
  by (simp add: Convert64ToArray_def Let_def)

lemma Convert32_roundtrip [simp]: "ConvertArrayTo32 (Convert32ToArray w @ rest) = w"
proof (rule bit_word_eqI)
  fix n assume "n < LENGTH(32)"
  then consider "n < 8" | "8 \<le> n" "n < 16" | "16 \<le> n" "n < 24" | "24 \<le> n" "n < 32" by fastforce
  then show "bit (ConvertArrayTo32 (Convert32ToArray w @ rest)) n = bit w n"
    by cases (auto simp: ConvertArrayTo32_def Convert32ToArray_def bit_simps)
qed

lemma Convert32_roundtrip' [simp]: "ConvertArrayTo32 (Convert32ToArray w) = w"
  using Convert32_roundtrip [of w "[]"] by simp

lemma Convert64_roundtrip [simp]: "ConvertArrayTo64 (Convert64ToArray w) = w"
proof -
  have high: "0xffffffff00000000 = push_bit 32 (mask 32 :: 64 word)" and low: "0x00000000ffffffff = (mask 32 :: 64 word)"
    by (simp_all add: mask_eq_exp_minus_1)
  have "ConvertArrayTo64 (Convert64ToArray w) =
      push_bit 32 (ucast (ucast (drop_bit 32 (w AND push_bit 32 (mask 32))) :: 32 word)) OR
      ucast (ucast (w AND mask 32) :: 32 word)"
    unfolding ConvertArrayTo64_def Convert64ToArray_def high low by (simp add: Let_def)
  also have "\<dots> = w" by (rule bit_word_eqI) (auto simp: bit_simps)
  finally show ?thesis .
qed

section \<open>The header\<close>

record MessageHeader =
  mh_magic_num :: "byte list"
  mh_seq :: "byte list"
  mh_timestamp_ns :: "byte list"
  mh_src_id :: "byte list"
  mh_dst_id :: "byte list"
  mh_msg_type :: "byte list"
  mh_res :: "byte list"
  mh_content_size :: "byte list"

text \<open>The characters \<open>BDACBDAC\<close>.\<close>

definition magic_num :: "byte list" where
  "magic_num = [66, 68, 65, 67, 66, 68, 65, 67]"

definition MessageHeader_ctor :: MessageHeader where
  "MessageHeader_ctor =
     \<lparr>mh_magic_num = magic_num, mh_seq = replicate 8 0, mh_timestamp_ns = replicate 8 0, mh_src_id = replicate 8 0,
      mh_dst_id = replicate 8 0, mh_msg_type = replicate 129 0, mh_res = replicate 19 0, mh_content_size = replicate 4 0\<rparr>"

definition is_magic_num_match :: "byte list option \<Rightarrow> MessageHeader \<Rightarrow> bool" where
  "is_magic_num_match other h =
     (case other of None \<Rightarrow> False | Some bs \<Rightarrow> if length bs \<noteq> 8 then False else mh_magic_num h = bs)"

definition mh_get_seq :: "MessageHeader \<Rightarrow> 64 word" where "mh_get_seq h = ConvertArrayTo64 (mh_seq h)"
definition mh_set_seq :: "64 word \<Rightarrow> MessageHeader \<Rightarrow> MessageHeader" where
  "mh_set_seq v h = h\<lparr>mh_seq := Convert64ToArray v\<rparr>"

definition mh_get_timestamp_ns :: "MessageHeader \<Rightarrow> 64 word" where
  "mh_get_timestamp_ns h = ConvertArrayTo64 (mh_timestamp_ns h)"
definition mh_set_timestamp_ns :: "64 word \<Rightarrow> MessageHeader \<Rightarrow> MessageHeader" where
  "mh_set_timestamp_ns v h = h\<lparr>mh_timestamp_ns := Convert64ToArray v\<rparr>"

definition mh_get_src_id :: "MessageHeader \<Rightarrow> 64 word" where "mh_get_src_id h = ConvertArrayTo64 (mh_src_id h)"
definition mh_set_src_id :: "64 word \<Rightarrow> MessageHeader \<Rightarrow> MessageHeader" where
  "mh_set_src_id v h = h\<lparr>mh_src_id := Convert64ToArray v\<rparr>"

definition mh_get_dst_id :: "MessageHeader \<Rightarrow> 64 word" where "mh_get_dst_id h = ConvertArrayTo64 (mh_dst_id h)"
definition mh_set_dst_id :: "64 word \<Rightarrow> MessageHeader \<Rightarrow> MessageHeader" where
  "mh_set_dst_id v h = h\<lparr>mh_dst_id := Convert64ToArray v\<rparr>"

text \<open>\<open>msg_type()\<close> is read as a string that ends at the first zero.\<close>

definition mh_get_msg_type :: "MessageHeader \<Rightarrow> byte list" where
  "mh_get_msg_type h = takeWhile (\<lambda>b. b \<noteq> 0) (mh_msg_type h)"

definition mh_set_msg_type :: "byte list option \<Rightarrow> MessageHeader \<Rightarrow> MessageHeader" where
  "mh_set_msg_type msg_type h =
     (case msg_type of
        None \<Rightarrow> h
      | Some ty \<Rightarrow>
          if length ty = 0 then h
          else let real_len = (if length ty \<ge> 129 then 129 - 1 else length ty)
               in h\<lparr>mh_msg_type := take real_len ty @ replicate (129 - real_len) 0\<rparr>)"

definition mh_get_content_size :: "MessageHeader \<Rightarrow> 32 word" where
  "mh_get_content_size h = ConvertArrayTo32 (mh_content_size h)"
definition mh_set_content_size :: "32 word \<Rightarrow> MessageHeader \<Rightarrow> MessageHeader" where
  "mh_set_content_size v h = h\<lparr>mh_content_size := Convert32ToArray v\<rparr>"

text \<open>The object in memory: its arrays one after the other, and back.\<close>

definition header_bytes :: "MessageHeader \<Rightarrow> byte list" where
  "header_bytes h = mh_magic_num h @ mh_seq h @ mh_timestamp_ns h @ mh_src_id h @ mh_dst_id h @ mh_msg_type h @
     mh_res h @ mh_content_size h"

definition header_of :: "byte list \<Rightarrow> MessageHeader" where
  "header_of bs =
     \<lparr>mh_magic_num = take 8 bs, mh_seq = take 8 (drop 8 bs), mh_timestamp_ns = take 8 (drop 16 bs),
      mh_src_id = take 8 (drop 24 bs), mh_dst_id = take 8 (drop 32 bs), mh_msg_type = take 129 (drop 40 bs),
      mh_res = take 19 (drop 169 bs), mh_content_size = take 4 (drop 188 bs)\<rparr>"

definition header_size :: nat where "header_size = 192"

section \<open>Framing\<close>

text \<open>
  What a message class provides; \<open>ByteSize\<close> of a class without one is \<open>-1\<close>, and its other operations fail.
\<close>

record 'm message_class =
  mc_ByteSize :: "'m \<Rightarrow> int"
  mc_SerializeToArray :: "'m \<Rightarrow> int \<Rightarrow> byte list option"
  mc_ParseFromArray :: "byte list \<Rightarrow> 'm \<Rightarrow> 'm option"
  mc_MessageType :: "'m \<Rightarrow> byte list"
  mc_SetTypeName :: "byte list \<Rightarrow> 'm \<Rightarrow> 'm"

definition FullByteSize :: "'m message_class \<Rightarrow> 'm \<Rightarrow> int" where
  "FullByteSize mc message =
     (let content_size = mc_ByteSize mc message
      in if content_size < 0 then content_size else content_size + int header_size)"

definition SerializeToHC :: "'m message_class \<Rightarrow> 'm \<Rightarrow> int \<Rightarrow> byte list option" where
  "SerializeToHC mc message len =
     (let msg_size = mc_ByteSize mc message
      in if msg_size < 0 then None
         else let header = mh_set_content_size (word_of_int msg_size)
                (mh_set_msg_type (Some (mc_MessageType mc message)) MessageHeader_ctor)
              in if int header_size > len mod 2 ^ 64 then None
                 else case mc_SerializeToArray mc message (len - int header_size) of
                        None \<Rightarrow> None
                      | Some content \<Rightarrow> Some (header_bytes header @ content))"

definition ParseFromHC :: "'m message_class \<Rightarrow> byte list \<Rightarrow> 'm \<Rightarrow> 'm option" where
  "ParseFromHC mc data message =
     (if length data < header_size then None
      else let header = header_of data
           in if length data - header_size < unat (mh_get_content_size header) then None
              else mc_ParseFromArray mc (take (unat (mh_get_content_size header)) (drop header_size data))
                     (mc_SetTypeName mc (mh_get_msg_type header) message))"

section \<open>Lemmas\<close>

text \<open>The arrays keep their lengths.\<close>

definition header_wf :: "MessageHeader \<Rightarrow> bool" where
  "header_wf h \<longleftrightarrow> length (mh_magic_num h) = 8 \<and> length (mh_seq h) = 8 \<and> length (mh_timestamp_ns h) = 8 \<and>
     length (mh_src_id h) = 8 \<and> length (mh_dst_id h) = 8 \<and> length (mh_msg_type h) = 129 \<and> length (mh_res h) = 19 \<and>
     length (mh_content_size h) = 4 \<and> last (mh_msg_type h) = 0"

lemma header_wf_ctor: "header_wf MessageHeader_ctor"
  by (simp add: header_wf_def MessageHeader_ctor_def magic_num_def)

lemma header_wf_set:
  assumes "header_wf h"
  shows "header_wf (mh_set_seq v h)" "header_wf (mh_set_timestamp_ns v h)" "header_wf (mh_set_src_id v h)"
    "header_wf (mh_set_dst_id v h)" "header_wf (mh_set_content_size w h)" "header_wf (mh_set_msg_type ty h)"
  using assms
  by (auto simp: header_wf_def mh_set_seq_def mh_set_timestamp_ns_def mh_set_src_id_def mh_set_dst_id_def
      mh_set_content_size_def mh_set_msg_type_def Let_def split: option.splits)

lemma header_get_set:
  "mh_get_seq (mh_set_seq v h) = v" "mh_get_timestamp_ns (mh_set_timestamp_ns v h) = v"
  "mh_get_src_id (mh_set_src_id v h) = v" "mh_get_dst_id (mh_set_dst_id v h) = v"
  "mh_get_content_size (mh_set_content_size w h) = w"
  by (simp_all add: mh_get_seq_def mh_set_seq_def mh_get_timestamp_ns_def mh_set_timestamp_ns_def mh_get_src_id_def
      mh_set_src_id_def mh_get_dst_id_def mh_set_dst_id_def mh_get_content_size_def mh_set_content_size_def)

lemma length_header_bytes: "header_wf h \<Longrightarrow> length (header_bytes h) = header_size"
  by (simp add: header_wf_def header_bytes_def header_size_def)

lemma header_of_bytes: "header_wf h \<Longrightarrow> header_of (header_bytes h @ rest) = h"
  by (cases h) (simp add: header_wf_def header_bytes_def header_of_def)

lemma get_msg_type_set:
  assumes "0 \<notin> set ty" and "mh_get_msg_type h = []"
  shows "mh_get_msg_type (mh_set_msg_type (Some ty) h) = take 128 ty"
proof -
  have *: "takeWhile (\<lambda>b. b \<noteq> 0) (xs @ replicate (Suc n) 0) = xs" if "0 \<notin> set xs" for xs :: "byte list" and n
    using that by (induction xs) auto
  have n: "129 - length ty = Suc (128 - length ty)" if "length ty < 129" using that by simp
  show ?thesis
    using assms * [of ty "128 - length ty"] * [of "take 128 ty" 0] in_set_takeD [of 0 128 ty]
    by (auto simp: mh_get_msg_type_def mh_set_msg_type_def n not_le)
qed

definition frame_header :: "'m message_class \<Rightarrow> 'm \<Rightarrow> MessageHeader" where
  "frame_header mc m = mh_set_content_size (word_of_int (mc_ByteSize mc m))
     (mh_set_msg_type (Some (mc_MessageType mc m)) MessageHeader_ctor)"

lemma frame_header_wf: "header_wf (frame_header mc m)"
  unfolding frame_header_def by (intro header_wf_set header_wf_ctor)

lemma frame_header_content_size:
  assumes "mc_ByteSize mc m = int n" and "n < 2 ^ 31"
  shows "unat (mh_get_content_size (frame_header mc m)) = n"
proof -
  have "mh_get_content_size (frame_header mc m) = word_of_nat n"
    using assms(1) by (simp add: frame_header_def mh_get_content_size_def mh_set_content_size_def)
  then show ?thesis using assms(2) by (simp add: unat_of_nat take_bit_nat_eq_self)
qed

lemma frame_header_msg_type:
  assumes "0 \<notin> set (mc_MessageType mc m)"
  shows "mh_get_msg_type (frame_header mc m) = take 128 (mc_MessageType mc m)"
proof -
  have "mh_get_msg_type MessageHeader_ctor = []" by (simp add: mh_get_msg_type_def MessageHeader_ctor_def)
  from get_msg_type_set [OF assms this] show ?thesis
    by (simp add: frame_header_def mh_get_msg_type_def mh_set_content_size_def)
qed

lemma ParseFromHC_frame:
  assumes "mc_ByteSize mc m = int (length content)" and "length content < 2 ^ 31"
    and "0 \<notin> set (mc_MessageType mc m)"
  shows "ParseFromHC mc (header_bytes (frame_header mc m) @ take k content) m0 =
    (if length content \<le> k then mc_ParseFromArray mc content (mc_SetTypeName mc (take 128 (mc_MessageType mc m)) m0)
     else None)"
  using frame_header_content_size [OF assms(1,2)] frame_header_msg_type [OF assms(3)]
    length_header_bytes [OF frame_header_wf, of mc m] header_of_bytes [OF frame_header_wf, of mc m]
  by (auto simp: ParseFromHC_def Let_def min_def)

lemma take_frame:
  "header_wf h \<Longrightarrow> header_size \<le> k \<Longrightarrow> take k (header_bytes h @ content) = header_bytes h @ take (k - header_size) content"
  by (simp add: length_header_bytes)

section \<open>Claims\<close>

text \<open>
  C38: A serialized message is read back: for a class (with sizes that fit \<open>int\<close>) whose \<open>SerializeToArray\<close> writes \<open>ByteSize\<close> bytes, \<open>SerializeToHC\<close> fills
  exactly \<open>FullByteSize\<close> bytes, \<open>ParseFromHC\<close> of them hands exactly the content to the class together with the
  type name, cut to 128 bytes, and every proper prefix of them is rejected.
\<close>

theorem HC_roundtrip:
  assumes "mc_ByteSize mc m = int (length content)" and "header_size + length content < 2 ^ 31"
    and "mc_SerializeToArray mc m (int (length content)) = Some content" and "0 \<notin> set (mc_MessageType mc m)"
  shows "\<exists>data. SerializeToHC mc m (FullByteSize mc m) = Some data \<and> int (length data) = FullByteSize mc m \<and>
    ParseFromHC mc data m0 = mc_ParseFromArray mc content (mc_SetTypeName mc (take 128 (mc_MessageType mc m)) m0) \<and>
    (\<forall>k < length data. ParseFromHC mc (take k data) m0 = None)"
proof -
  let ?d = "header_bytes (frame_header mc m) @ content"
  have len: "length ?d = header_size + length content" using length_header_bytes [OF frame_header_wf] by simp
  have small: "length content < 2 ^ 31" using assms(2) by simp
  have "(int (length content) + int header_size) mod 2 ^ 64 = int (length content) + int header_size"
    using assms(2) by (simp add: header_size_def)
  then have ser: "SerializeToHC mc m (FullByteSize mc m) = Some ?d"
    using assms(1,3) by (simp add: SerializeToHC_def FullByteSize_def Let_def frame_header_def)
  have prefix: "ParseFromHC mc (take k ?d) m0 = None" if "k < length ?d" for k
  proof (cases "k < header_size")
    case True
    then show ?thesis using len by (simp add: ParseFromHC_def)
  next
    case False
    then show ?thesis
      using that len ParseFromHC_frame [OF assms(1) small assms(4), of "k - header_size" m0] take_frame [OF frame_header_wf, of k mc m content]
      by auto
  qed
  show ?thesis
    using ser len prefix assms(1) ParseFromHC_frame [OF assms(1) small assms(4), of "length content" m0]
    by (intro exI [of _ ?d]) (auto simp: FullByteSize_def)
qed

text \<open>A class of raw messages: the content is the message itself, and the type name is kept beside it.\<close>

definition raw_class :: "(byte list \<times> byte list) message_class" where
  "raw_class = \<lparr>mc_ByteSize = (\<lambda>m. int (length (snd m))),
     mc_SerializeToArray = (\<lambda>m len. if int (length (snd m)) \<le> len then Some (snd m) else None),
     mc_ParseFromArray = (\<lambda>bs m. Some (fst m, bs)), mc_MessageType = fst, mc_SetTypeName = (\<lambda>ty m. (ty, snd m))\<rparr>"

theorem HC_roundtrip_witness:
  "\<exists>data. SerializeToHC raw_class ([84], [1, 2, 3]) (FullByteSize raw_class ([84], [1, 2, 3])) = Some data \<and>
     ParseFromHC raw_class data ([], []) = Some ([84], [1, 2, 3])"
  using HC_roundtrip [of raw_class "([84], [1, 2, 3])" "[1, 2, 3]" "([], [])"] by (auto simp: raw_class_def header_size_def)

end
