(* ===== verification/Intra_Dispatcher.thy ===== *)
theory Intra_Dispatcher
  imports Signal_Slot Hash_Map Message_Header
begin

text \<open>
  \<open>cyber/transport/dispatcher/dispatcher.{h,cc}\<close> and \<open>intra_dispatcher.{h,cc}\<close>: the listeners of a channel inside one
  process. A handler for message type \<open>T\<close> is a pair of the type and a \<open>ListenerHandler\<close>; a dynamic cast succeeds when the
  types agree. A type is identified with its message name. The maps of the chain (\<open>std::map\<close>) are sorted association lists, over the channel
  and, inside a channel, over the type.
  \<open>RemoveHandler\<close> takes the channel as a signed number and converts it back, which changes nothing. What a message class
  does is a parameter (\<open>Message_Header\<close>), as is the default message of a type.
\<close>

section \<open>The dispatcher\<close>

type_synonym ('t, 'c) typed_handler = "'t \<times> 'c ListenerHandler"

record ('t, 'c) Dispatcher =
  dp_is_shutdown :: bool
  dp_msg_listeners :: "('t, 'c) typed_handler AtomicHashMap"

record role_attr =
  ra_id :: nat
  ra_channel_id :: nat

definition Dispatcher_ctor :: "('t, 'c) Dispatcher" where
  "Dispatcher_ctor = \<lparr>dp_is_shutdown = False, dp_msg_listeners = AtomicHashMap_ctor 128\<rparr>"

definition Dispatcher_Shutdown :: "('t, 'c) Dispatcher \<Rightarrow> ('t, 'c) Dispatcher" where
  "Dispatcher_Shutdown d = d\<lparr>dp_is_shutdown := True\<rparr>"

definition Dispatcher_HasChannel :: "nat \<Rightarrow> ('t, 'c) Dispatcher \<Rightarrow> bool" where
  "Dispatcher_HasChannel channel_id d = AtomicHashMap_Has (dp_msg_listeners d) channel_id"

text \<open>A call on the handler that a pointer from the map refers to.\<close>

definition on_handler :: "nat \<Rightarrow> ('c ListenerHandler \<Rightarrow> 'c ListenerHandler) \<Rightarrow> ('t, 'c) Dispatcher \<Rightarrow> ('t, 'c) Dispatcher" where
  "on_handler channel_id f d =
     d\<lparr>dp_msg_listeners := AtomicHashMap_assign_through channel_id (\<lambda>(t, h). (t, f h)) (dp_msg_listeners d)\<rparr>"

definition Dispatcher_AddListener ::
    "role_attr \<Rightarrow> 't \<Rightarrow> 'c option \<Rightarrow> ('t, 'c) Dispatcher \<Rightarrow> ('t, 'c) Dispatcher" where
  "Dispatcher_AddListener self_attr ty listener d =
     (if dp_is_shutdown d then d
      else let channel_id = ra_channel_id self_attr
           in case AtomicHashMap_Get (dp_msg_listeners d) channel_id of
                Some (t, h) \<Rightarrow>
                  if t \<noteq> ty then d
                  else on_handler channel_id (ListenerHandler_Connect (ra_id self_attr) listener) d
              | None \<Rightarrow>
                  on_handler channel_id (ListenerHandler_Connect (ra_id self_attr) listener)
                    (d\<lparr>dp_msg_listeners := AtomicHashMap_Set channel_id (ty, ListenerHandler_ctor) (dp_msg_listeners d)\<rparr>))"

definition Dispatcher_AddListener_oppo ::
    "role_attr \<Rightarrow> role_attr \<Rightarrow> 't \<Rightarrow> 'c option \<Rightarrow> ('t, 'c) Dispatcher \<Rightarrow> ('t, 'c) Dispatcher" where
  "Dispatcher_AddListener_oppo self_attr opposite_attr ty listener d =
     (if dp_is_shutdown d then d
      else let channel_id = ra_channel_id self_attr;
               connect = ListenerHandler_Connect_oppo (ra_id self_attr) (ra_id opposite_attr) listener
           in case AtomicHashMap_Get (dp_msg_listeners d) channel_id of
                Some (t, h) \<Rightarrow> if t \<noteq> ty then d else on_handler channel_id connect d
              | None \<Rightarrow>
                  on_handler channel_id connect
                    (d\<lparr>dp_msg_listeners := AtomicHashMap_Set channel_id (ty, ListenerHandler_ctor) (dp_msg_listeners d)\<rparr>))"

definition Dispatcher_RemoveListener :: "role_attr \<Rightarrow> ('t, 'c) Dispatcher \<Rightarrow> ('t, 'c) Dispatcher" where
  "Dispatcher_RemoveListener self_attr d =
     (if dp_is_shutdown d then d
      else on_handler (ra_channel_id self_attr) (ListenerHandler_Disconnect (ra_id self_attr)) d)"

definition Dispatcher_RemoveListener_oppo ::
    "role_attr \<Rightarrow> role_attr \<Rightarrow> ('t, 'c) Dispatcher \<Rightarrow> ('t, 'c) Dispatcher" where
  "Dispatcher_RemoveListener_oppo self_attr opposite_attr d =
     (if dp_is_shutdown d then d
      else on_handler (ra_channel_id self_attr)
             (ListenerHandler_Disconnect_oppo (ra_id self_attr) (ra_id opposite_attr)) d)"

section \<open>The chain of a channel\<close>

type_synonym ('t, 'c) type_handlers = "('t, 'c ListenerHandler) chain"
type_synonym ('t, 'c) base_handlers = "(nat, ('t, 'c) type_handlers) chain"

text \<open>Access through an element of a map, and \<open>erase\<close>.\<close>

definition on_key :: "'k \<Rightarrow> ('v \<Rightarrow> 'v) \<Rightarrow> ('k \<times> 'v) list \<Rightarrow> ('k \<times> 'v) list" where
  "on_key key f m = map (\<lambda>(k, v). (k, if k = key then f v else v)) m"

definition erase :: "'k \<Rightarrow> ('k \<times> 'v) list \<Rightarrow> ('k \<times> 'v) list" where
  "erase key m = filter (\<lambda>e. fst e \<noteq> key) m"

record ('t, 'c) ChannelChain =
  cc_handlers :: "('t, 'c) base_handlers"
  cc_oppo_handlers :: "nat \<Rightarrow> ('t, 'c) base_handlers option"

definition ChannelChain_ctor :: "('t, 'c) ChannelChain" where
  "ChannelChain_ctor = \<lparr>cc_handlers = [], cc_oppo_handlers = (\<lambda>_. None)\<rparr>"

definition ChannelChain_GetHandler ::
    "nat \<Rightarrow> 't::linorder \<Rightarrow> ('t, 'c) base_handlers \<Rightarrow> ('t, 'c) base_handlers \<times> bool" where
  "ChannelChain_GetHandler channel_id message_type handlers =
     (let handlers' = (if map_of handlers channel_id = None then upd_chain channel_id [] handlers else handlers);
          hs = the (map_of handlers' channel_id)
      in case map_of hs message_type of
           None \<Rightarrow> (on_key channel_id (upd_chain message_type ListenerHandler_ctor) handlers', True)
         | Some _ \<Rightarrow> (handlers', False))"

text \<open>A call on the handler \<open>GetHandler\<close> returned.\<close>

definition on_type_handler ::
    "nat \<Rightarrow> 't \<Rightarrow> ('c ListenerHandler \<Rightarrow> 'c ListenerHandler) \<Rightarrow> ('t, 'c) base_handlers \<Rightarrow> ('t, 'c) base_handlers" where
  "on_type_handler channel_id message_type f handlers = on_key channel_id (on_key message_type f) handlers"

definition ChannelChain_AddListener ::
    "nat \<Rightarrow> nat \<Rightarrow> 't::linorder \<Rightarrow> 'c option \<Rightarrow> ('t, 'c) ChannelChain \<Rightarrow> bool \<times> ('t, 'c) ChannelChain" where
  "ChannelChain_AddListener self_id channel_id message_type listener cc =
     (let (handlers, created) = ChannelChain_GetHandler channel_id message_type (cc_handlers cc)
      in (created, cc\<lparr>cc_handlers :=
            on_type_handler channel_id message_type (ListenerHandler_Connect self_id listener) handlers\<rparr>))"

definition ChannelChain_AddListener_oppo ::
    "nat \<Rightarrow> nat \<Rightarrow> nat \<Rightarrow> 't::linorder \<Rightarrow> 'c option \<Rightarrow> ('t, 'c) ChannelChain \<Rightarrow> bool \<times> ('t, 'c) ChannelChain" where
  "ChannelChain_AddListener_oppo self_id oppo_id channel_id message_type listener cc =
     (let hs = (case cc_oppo_handlers cc oppo_id of None \<Rightarrow> [] | Some hs \<Rightarrow> hs);
          (handlers, created) = ChannelChain_GetHandler channel_id message_type hs
      in (created, cc\<lparr>cc_oppo_handlers := (cc_oppo_handlers cc)(oppo_id \<mapsto>
            on_type_handler channel_id message_type (ListenerHandler_Connect_oppo self_id oppo_id listener) handlers)\<rparr>))"

definition RemoveHandler ::
    "nat \<Rightarrow> 't \<Rightarrow> ('t, 'c) base_handlers \<Rightarrow> 'c ListenerHandler option \<times> ('t, 'c) base_handlers" where
  "RemoveHandler channel_id message_type handlers =
     (case map_of handlers channel_id of
        None \<Rightarrow> (None, handlers)
      | Some hs \<Rightarrow>
          (let handlers' = (if map_of hs message_type = None then handlers else on_key channel_id (erase message_type) handlers)
           in (map_of hs message_type,
               if map_of handlers' channel_id = Some [] then erase channel_id handlers' else handlers')))"

text \<open>
  \<open>RemoveListener\<close>. The handler taken out of the map is disconnected from the listener and then destroyed with its last
  pointer, so only the maps are left.
\<close>

definition ChannelChain_RemoveListener ::
    "nat \<Rightarrow> nat \<Rightarrow> 't \<Rightarrow> ('t, 'c) ChannelChain \<Rightarrow> 'c ListenerHandler option \<times> ('t, 'c) ChannelChain" where
  "ChannelChain_RemoveListener self_id channel_id message_type cc =
     (let (handler, handlers) = RemoveHandler channel_id message_type (cc_handlers cc)
      in (map_option (ListenerHandler_Disconnect self_id) handler, cc\<lparr>cc_handlers := handlers\<rparr>))"

definition ChannelChain_RemoveListener_oppo ::
    "nat \<Rightarrow> nat \<Rightarrow> nat \<Rightarrow> 't \<Rightarrow> ('t, 'c) ChannelChain \<Rightarrow> 'c ListenerHandler option \<times> ('t, 'c) ChannelChain" where
  "ChannelChain_RemoveListener_oppo self_id oppo_id channel_id message_type cc =
     (case cc_oppo_handlers cc oppo_id of
        None \<Rightarrow> (None, cc)
      | Some hs \<Rightarrow>
          (let (handler, handlers) = RemoveHandler channel_id message_type hs
           in (map_option (ListenerHandler_Disconnect_oppo self_id oppo_id) handler,
               cc\<lparr>cc_oppo_handlers := (cc_oppo_handlers cc)
                  (oppo_id := if handlers = [] then None else Some handlers)\<rparr>)))"

text \<open>
  \<open>Run\<close>: the handler of the message's own type receives the message, every other type a copy that went through its
  serialized form, which is made at the first need and kept. Calls are pairs of a listener and the message it gets.
\<close>

definition chain_serialize :: "'m message_class \<Rightarrow> 'm \<Rightarrow> byte list \<Rightarrow> byte list" where
  "chain_serialize mc message msg =
     (if msg \<noteq> [] then msg
      else if FullByteSize mc message < 0 then msg
      else case SerializeToHC mc message (FullByteSize mc message) of None \<Rightarrow> [] | Some bs \<Rightarrow> bs)"

fun Chain_loop ::
    "('t \<Rightarrow> 'm message_class) \<Rightarrow> ('t \<Rightarrow> 'm) \<Rightarrow> 't \<Rightarrow> 'm \<Rightarrow> nat \<Rightarrow> byte list \<Rightarrow> ('t, 'c) type_handlers \<Rightarrow>
     ('t, 'c) type_handlers \<times> ('c \<times> 'm) list" where
  "Chain_loop mc dflt ty message sender msg [] = ([], [])"
| "Chain_loop mc dflt ty message sender msg ((t, h) # rest) =
     (if t = ty then
        (let (h', calls) = ListenerHandler_Run sender h;
             (rest', calls') = Chain_loop mc dflt ty message sender msg rest
         in ((t, h') # rest', map (\<lambda>c. (c, message)) calls @ calls'))
      else
        (let msg' = chain_serialize (mc ty) message msg;
             (h', calls) = (if msg' = [] then (h, []) else
                ListenerHandler_RunFromString (\<lambda>str. ParseFromHC (mc t) str (dflt t)) msg' sender h);
             (rest', calls') = Chain_loop mc dflt ty message sender msg' rest
         in ((t, h') # rest', calls @ calls')))"

definition ChannelChain_Run_handlers ::
    "('t \<Rightarrow> 'm message_class) \<Rightarrow> ('t \<Rightarrow> 'm) \<Rightarrow> nat \<Rightarrow> 't \<Rightarrow> 'm \<Rightarrow> nat \<Rightarrow> ('t, 'c) base_handlers \<Rightarrow>
     ('t, 'c) base_handlers \<times> ('c \<times> 'm) list" where
  "ChannelChain_Run_handlers mc dflt channel_id ty message sender handlers =
     (case map_of handlers channel_id of
        None \<Rightarrow> (handlers, [])
      | Some hs \<Rightarrow>
          (let (hs', calls) = Chain_loop mc dflt ty message sender [] hs in (on_key channel_id (\<lambda>_. hs') handlers, calls)))"

definition ChannelChain_Run ::
    "('t \<Rightarrow> 'm message_class) \<Rightarrow> ('t \<Rightarrow> 'm) \<Rightarrow> nat \<Rightarrow> 't \<Rightarrow> 'm \<Rightarrow> nat \<Rightarrow> ('t, 'c) ChannelChain \<Rightarrow>
     ('t, 'c) ChannelChain \<times> ('c \<times> 'm) list" where
  "ChannelChain_Run mc dflt channel_id ty message sender cc =
     (let (hs, calls) = ChannelChain_Run_handlers mc dflt channel_id ty message sender (cc_handlers cc)
      in (cc\<lparr>cc_handlers := hs\<rparr>, calls))"

definition ChannelChain_Run_oppo ::
    "('t \<Rightarrow> 'm message_class) \<Rightarrow> ('t \<Rightarrow> 'm) \<Rightarrow> nat \<Rightarrow> nat \<Rightarrow> 't \<Rightarrow> 'm \<Rightarrow> nat \<Rightarrow> ('t, 'c) ChannelChain \<Rightarrow>
     ('t, 'c) ChannelChain \<times> ('c \<times> 'm) list" where
  "ChannelChain_Run_oppo mc dflt oppo_id channel_id ty message sender cc =
     (case cc_oppo_handlers cc oppo_id of
        None \<Rightarrow> (cc, [])
      | Some handlers \<Rightarrow>
          (let (hs, calls) = ChannelChain_Run_handlers mc dflt channel_id ty message sender handlers
           in (cc\<lparr>cc_oppo_handlers := (cc_oppo_handlers cc)(oppo_id \<mapsto> hs)\<rparr>, calls)))"

section \<open>The intra-process dispatcher\<close>

text \<open>
  The listeners that \<open>AddListener\<close> connects to the handlers of the base class are closures that run the chain.
\<close>

datatype 't listener_wrapper = Run_chain nat nat 't | Run_chain_oppo nat nat nat 't

record ('t, 'c) IntraDispatcher =
  id_base :: "('t, 't listener_wrapper) Dispatcher"
  id_chain :: "('t, 'c) ChannelChain"

definition IntraDispatcher_ctor :: "('t, 'c) IntraDispatcher" where
  "IntraDispatcher_ctor = \<lparr>id_base = Dispatcher_ctor, id_chain = ChannelChain_ctor\<rparr>"

text \<open>\<open>GetHandler\<close>: whether the handler of the channel has the type, and the dispatcher with the handler in it.\<close>

definition IntraDispatcher_GetHandler :: "nat \<Rightarrow> 't \<Rightarrow> ('t, 'w) Dispatcher \<Rightarrow> bool \<times> ('t, 'w) Dispatcher" where
  "IntraDispatcher_GetHandler channel_id ty d =
     (case AtomicHashMap_Get (dp_msg_listeners d) channel_id of
        Some (t, h) \<Rightarrow> (t = ty, d)
      | None \<Rightarrow>
          (True, d\<lparr>dp_msg_listeners := AtomicHashMap_Set channel_id (ty, ListenerHandler_ctor) (dp_msg_listeners d)\<rparr>))"

definition IntraDispatcher_AddListener ::
    "role_attr \<Rightarrow> 't::linorder \<Rightarrow> 'c option \<Rightarrow> ('t, 'c) IntraDispatcher \<Rightarrow> ('t, 'c) IntraDispatcher" where
  "IntraDispatcher_AddListener self_attr ty listener s =
     (if dp_is_shutdown (id_base s) then s
      else let channel_id = ra_channel_id self_attr; self_id = ra_id self_attr;
               (created, cc) = ChannelChain_AddListener self_id channel_id ty listener (id_chain s);
               (handler, d) = IntraDispatcher_GetHandler channel_id ty (id_base s)
           in s\<lparr>id_chain := cc,
                id_base := if handler \<and> created
                  then on_handler channel_id (ListenerHandler_Connect self_id (Some (Run_chain self_id channel_id ty))) d
                  else d\<rparr>)"

definition IntraDispatcher_AddListener_oppo ::
    "role_attr \<Rightarrow> role_attr \<Rightarrow> 't::linorder \<Rightarrow> 'c option \<Rightarrow> ('t, 'c) IntraDispatcher \<Rightarrow> ('t, 'c) IntraDispatcher" where
  "IntraDispatcher_AddListener_oppo self_attr opposite_attr ty listener s =
     (if dp_is_shutdown (id_base s) then s
      else let channel_id = ra_channel_id self_attr; self_id = ra_id self_attr; oppo_id = ra_id opposite_attr;
               (created, cc) = ChannelChain_AddListener_oppo self_id oppo_id channel_id ty listener (id_chain s);
               (handler, d) = IntraDispatcher_GetHandler channel_id ty (id_base s)
           in s\<lparr>id_chain := cc,
                id_base := if handler \<and> created
                  then on_handler channel_id
                    (ListenerHandler_Connect_oppo self_id oppo_id (Some (Run_chain_oppo self_id oppo_id channel_id ty))) d
                  else d\<rparr>)"

definition IntraDispatcher_RemoveListener ::
    "role_attr \<Rightarrow> 't \<Rightarrow> ('t, 'c) IntraDispatcher \<Rightarrow> ('t, 'c) IntraDispatcher" where
  "IntraDispatcher_RemoveListener self_attr ty s =
     (if dp_is_shutdown (id_base s) then s
      else s\<lparr>id_base := Dispatcher_RemoveListener self_attr (id_base s),
             id_chain := snd (ChannelChain_RemoveListener (ra_id self_attr) (ra_channel_id self_attr) ty (id_chain s))\<rparr>)"

definition IntraDispatcher_RemoveListener_oppo ::
    "role_attr \<Rightarrow> role_attr \<Rightarrow> 't \<Rightarrow> ('t, 'c) IntraDispatcher \<Rightarrow> ('t, 'c) IntraDispatcher" where
  "IntraDispatcher_RemoveListener_oppo self_attr opposite_attr ty s =
     (if dp_is_shutdown (id_base s) then s
      else s\<lparr>id_base := Dispatcher_RemoveListener_oppo self_attr opposite_attr (id_base s),
             id_chain := snd (ChannelChain_RemoveListener_oppo (ra_id self_attr) (ra_id opposite_attr)
                (ra_channel_id self_attr) ty (id_chain s))\<rparr>)"

fun run_wrapper ::
    "('t \<Rightarrow> 'm message_class) \<Rightarrow> ('t \<Rightarrow> 'm) \<Rightarrow> nat \<Rightarrow> 't listener_wrapper \<times> 'm \<Rightarrow> ('t, 'c) ChannelChain \<times> ('c \<times> 'm) list \<Rightarrow>
     ('t, 'c) ChannelChain \<times> ('c \<times> 'm) list" where
  "run_wrapper mc dflt sender (Run_chain self_id channel_id ty, m) (cc, calls) =
     (let (cc', calls') = ChannelChain_Run mc dflt channel_id ty m sender cc in (cc', calls @ calls'))"
| "run_wrapper mc dflt sender (Run_chain_oppo self_id oppo_id channel_id ty, m) (cc, calls) =
     (let (cc', calls') = ChannelChain_Run_oppo mc dflt oppo_id channel_id ty m sender cc in (cc', calls @ calls'))"

text \<open>
  \<open>OnMessage\<close>. The closures that the handler calls run one after the other; the result is every call of a client's
  listener.
\<close>

definition OnMessage_wrappers ::
    "('t \<Rightarrow> 'm message_class) \<Rightarrow> ('t \<Rightarrow> 'm) \<Rightarrow> 't \<Rightarrow> 'm \<Rightarrow> nat \<Rightarrow> ('t, 'w) typed_handler \<Rightarrow>
     'w ListenerHandler \<times> ('w \<times> 'm) list" where
  "OnMessage_wrappers mc dflt ty message sender th =
     (case th of (t, h) \<Rightarrow>
        if t = ty then (let (h', calls) = ListenerHandler_Run sender h in (h', map (\<lambda>c. (c, message)) calls))
        else let msg_size = FullByteSize (mc ty) message
             in if msg_size < 0 then (h, [])
                else case SerializeToHC (mc ty) message msg_size of
                       None \<Rightarrow> (h, [])
                     | Some msg \<Rightarrow> ListenerHandler_RunFromString (\<lambda>str. ParseFromHC (mc t) str (dflt t)) msg sender h)"

definition IntraDispatcher_OnMessage ::
    "('t \<Rightarrow> 'm message_class) \<Rightarrow> ('t \<Rightarrow> 'm) \<Rightarrow> nat \<Rightarrow> 't \<Rightarrow> 'm \<Rightarrow> nat \<Rightarrow> ('t, 'c) IntraDispatcher \<Rightarrow>
     ('t, 'c) IntraDispatcher \<times> ('c \<times> 'm) list" where
  "IntraDispatcher_OnMessage mc dflt channel_id ty message sender s =
     (if dp_is_shutdown (id_base s) then (s, [])
      else case AtomicHashMap_Get (dp_msg_listeners (id_base s)) channel_id of
             None \<Rightarrow> (s, [])
           | Some th \<Rightarrow>
               (let (h, ws) = OnMessage_wrappers mc dflt ty message sender th;
                    (cc, calls) = fold (run_wrapper mc dflt sender) ws (id_chain s, [])
                in (s\<lparr>id_base := on_handler channel_id (\<lambda>_. h) (id_base s), id_chain := cc\<rparr>, calls)))"

section \<open>Maps\<close>

lemma map_of_on_key [simp]: "map_of (on_key key f m) k = (if k = key then map_option f (map_of m k) else map_of m k)"
  by (induction m) (auto simp: on_key_def)

lemma map_of_erase [simp]: "map_of (erase key m) k = (if k = key then None else map_of m k)"
  by (induction m) (auto simp: erase_def)

lemma on_key_absent: "key \<notin> fst ` set m \<Longrightarrow> on_key key f m = m"
  by (induction m) (auto simp: on_key_def)

lemma on_key_upd_chain:
  "chain_sorted m \<Longrightarrow> on_key key f (upd_chain key v m) = upd_chain key (f v) m"
proof (induction key v m rule: upd_chain.induct)
  case (2 key v k w rest)
  have "on_key key f rest = rest" if "key \<le> k"
    by (rule on_key_absent) (use "2.prems" that in \<open>auto simp: chain_sorted_def\<close>)
  moreover have "chain_sorted rest" using "2.prems" by (simp add: chain_sorted_def)
  ultimately show ?case using 2 by (auto simp: on_key_def)
qed (simp add: on_key_def)

lemma upd_chain_same: "chain_sorted m \<Longrightarrow> map_of m key = Some v \<Longrightarrow> upd_chain key v m = m"
  by (induction key v m rule: upd_chain.induct) (auto split: if_splits dest!: map_of_SomeD)

lemma set_upd_chain:
  "chain_sorted m \<Longrightarrow> set (upd_chain key v m) = insert (key, v) {e \<in> set m. fst e \<noteq> key}"
  by (induction key v m rule: upd_chain.induct) (auto simp: chain_sorted_def)

text \<open>Access through a key that is there, or created first, is an update of the sorted list.\<close>

lemma on_key_upd:
  assumes "chain_sorted m"
  shows "on_key key f (if map_of m key = None then upd_chain key v m else m) =
    upd_chain key (f (case map_of m key of None \<Rightarrow> v | Some w \<Rightarrow> w)) m"
proof (cases "map_of m key")
  case (Some w)
  then show ?thesis using on_key_upd_chain [OF assms, of key f w] upd_chain_same [OF assms Some] by simp
qed (simp add: on_key_upd_chain assms)

section \<open>Listeners that were only added\<close>

text \<open>
  An addition is the listener's identifier, channel, type and callback. The listeners of a channel in the reference are
  those of the additions.
\<close>

type_synonym ('t, 'c) addition = "nat \<times> nat \<times> 't \<times> 'c option"

definition add_one :: "('t::linorder, 'c) addition \<Rightarrow> ('t, 'c) IntraDispatcher \<Rightarrow> ('t, 'c) IntraDispatcher" where
  "add_one a = (case a of (self_id, channel_id, ty, cb) \<Rightarrow>
     IntraDispatcher_AddListener \<lparr>ra_id = self_id, ra_channel_id = channel_id\<rparr> ty cb)"

definition on_channel :: "nat \<Rightarrow> ('t, 'c) addition list \<Rightarrow> ('t, 'c) addition list" where
  "on_channel ch A = filter (\<lambda>a. fst (snd a) = ch) A"

definition add_type :: "('t, 'c) addition \<Rightarrow> 't" where
  "add_type a = fst (snd (snd a))"

definition callbacks_of :: "'t \<Rightarrow> ('t, 'c) addition list \<Rightarrow> 'c option list" where
  "callbacks_of t B = map (\<lambda>a. snd (snd (snd a))) (filter (\<lambda>a. add_type a = t) B)"

definition handler_of :: "'c ListenerHandler \<Rightarrow> 'c option list \<Rightarrow> bool" where
  "handler_of h ls \<longleftrightarrow> (\<exists>r. handler_rel h (r, \<lambda>_. []) \<and> map snd r = ls)"

lemma handler_ofI: "handler_rel h (r, \<lambda>_. []) \<Longrightarrow> map snd r = ls \<Longrightarrow> handler_of h ls"
  by (auto simp: handler_of_def)

lemma handler_of_ctor: "handler_of ListenerHandler_ctor []"
  using ListenerHandler_ctor_rel by (auto simp: handler_of_def)

lemma handler_of_Connect: "handler_of h ls \<Longrightarrow> handler_of (ListenerHandler_Connect self_id cb h) (ls @ [cb])"
proof -
  assume "handler_of h ls"
  then obtain r where r: "handler_rel h (r, \<lambda>_. [])" "map snd r = ls" by (auto simp: handler_of_def)
  have "map snd (reg_connect self_id cb r) = ls @ [cb]"
    using r(2) by (auto simp: reg_connect_def o_def case_prod_beta)
  then show ?thesis using Connect_rel [OF r(1)] unfolding handler_of_def by blast
qed

lemma handler_of_Run: "handler_of h ls \<Longrightarrow> ListenerHandler_Run sender h = (h, List.map_filter id ls)"
  using Run_rel by (fastforce simp: handler_of_def reg_calls_def)

text \<open>What is known of a channel after the additions \<open>B\<close> to it.\<close>

definition chain_ok :: "('t::linorder, 'c) type_handlers option \<Rightarrow> ('t, 'c) addition list \<Rightarrow> bool" where
  "chain_ok entry B \<longleftrightarrow> (if B = [] then entry = None else (\<exists>hs. entry = Some hs \<and> chain_sorted hs \<and>
     fst ` set hs = add_type ` set B \<and> (\<forall>(t, h) \<in> set hs. handler_of h (callbacks_of t B))))"

definition base_ok :: "nat \<Rightarrow> ('t, 't listener_wrapper) typed_handler option \<Rightarrow> ('t, 'c) addition list \<Rightarrow> bool" where
  "base_ok ch entry B \<longleftrightarrow> (if B = [] then entry = None else
     (\<exists>h. entry = Some (add_type (hd B), h) \<and>
        handler_rel h ([(Some (fst (hd B)), Some (Run_chain (fst (hd B)) ch (add_type (hd B))))], \<lambda>_. [])))"

definition intra_inv :: "('t::linorder, 'c) IntraDispatcher \<Rightarrow> ('t, 'c) addition list \<Rightarrow> bool" where
  "intra_inv s A \<longleftrightarrow> \<not> dp_is_shutdown (id_base s) \<and> AtomicHashMap_inv (dp_msg_listeners (id_base s)) \<and>
     (\<forall>ch. chain_ok (map_of (cc_handlers (id_chain s)) ch) (on_channel ch A) \<and>
        base_ok ch (AtomicHashMap_Get (dp_msg_listeners (id_base s)) ch) (on_channel ch A))"

lemma chain_ok_hs:
  "chain_ok entry B \<Longrightarrow> chain_sorted (case entry of None \<Rightarrow> [] | Some hs \<Rightarrow> hs) \<and>
     fst ` set (case entry of None \<Rightarrow> [] | Some hs \<Rightarrow> hs) = add_type ` set B \<and>
     (\<forall>(t, h) \<in> set (case entry of None \<Rightarrow> [] | Some hs \<Rightarrow> hs). handler_of h (callbacks_of t B))"
  by (auto simp: chain_ok_def chain_sorted_def split: if_splits)

text \<open>The chain after an addition.\<close>

lemma AddListener_chain:
  fixes cc :: "('t::linorder, 'c) ChannelChain"
  assumes "chain_sorted (case map_of (cc_handlers cc) ch of None \<Rightarrow> [] | Some hs \<Rightarrow> hs)"
  defines "hs \<equiv> case map_of (cc_handlers cc) ch of None \<Rightarrow> [] | Some hs \<Rightarrow> hs"
  shows "fst (ChannelChain_AddListener self_id ch t cb cc) \<longleftrightarrow> map_of hs t = None"
    and "map_of (cc_handlers (snd (ChannelChain_AddListener self_id ch t cb cc))) ch' =
      (if ch' = ch then
         Some (upd_chain t (ListenerHandler_Connect self_id cb
            (case map_of hs t of None \<Rightarrow> ListenerHandler_ctor | Some h \<Rightarrow> h)) hs)
       else map_of (cc_handlers cc) ch')"
proof -
  let ?H = "if map_of (cc_handlers cc) ch = None then upd_chain ch [] (cc_handlers cc) else cc_handlers cc"
  have H: "map_of ?H c = (if c = ch then Some hs else map_of (cc_handlers cc) c)" for c
    by (auto simp: hs_def map_of_upd_chain split: option.splits)
  have sorted: "chain_sorted hs" using assms(1) by (simp add: hs_def)
  have get: "ChannelChain_GetHandler ch t (cc_handlers cc) =
      (if map_of hs t = None then (on_key ch (upd_chain t ListenerHandler_ctor) ?H, True) else (?H, False))"
    unfolding ChannelChain_GetHandler_def Let_def H by (auto split: option.splits)
  then show "fst (ChannelChain_AddListener self_id ch t cb cc) \<longleftrightarrow> map_of hs t = None"
    by (simp add: ChannelChain_AddListener_def)
  show "map_of (cc_handlers (snd (ChannelChain_AddListener self_id ch t cb cc))) ch' =
      (if ch' = ch then
         Some (upd_chain t (ListenerHandler_Connect self_id cb
            (case map_of hs t of None \<Rightarrow> ListenerHandler_ctor | Some h \<Rightarrow> h)) hs)
       else map_of (cc_handlers cc) ch')"
    using on_key_upd [OF sorted, of t "ListenerHandler_Connect self_id cb" ListenerHandler_ctor]
    by (cases "map_of hs t") (simp_all add: ChannelChain_AddListener_def get on_type_handler_def H)
qed

lemma chain_ok_add:
  assumes "chain_ok entry B" and "t = add_type a"
  defines "hs \<equiv> case entry of None \<Rightarrow> [] | Some hs \<Rightarrow> hs"
  shows "chain_ok (Some (upd_chain t (ListenerHandler_Connect self_id (snd (snd (snd a)))
      (case map_of hs t of None \<Rightarrow> ListenerHandler_ctor | Some h \<Rightarrow> h)) hs)) (B @ [a])"
proof -
  have hs: "chain_sorted hs" "fst ` set hs = add_type ` set B" "\<forall>(t, h) \<in> set hs. handler_of h (callbacks_of t B)"
    using chain_ok_hs [OF assms(1)] by (simp_all add: hs_def)
  let ?h = "case map_of hs t of None \<Rightarrow> ListenerHandler_ctor | Some h \<Rightarrow> h"
  have "handler_of ?h (callbacks_of t B)"
  proof (cases "map_of hs t")
    case None
    then have "t \<notin> add_type ` set B" using hs(2) by (metis map_of_eq_None_iff)
    then have "callbacks_of t B = []" by (auto simp: callbacks_of_def filter_empty_conv)
    then show ?thesis using None handler_of_ctor by simp
  next
    case (Some h)
    then show ?thesis using hs(3) map_of_SomeD [OF Some] by auto
  qed
  then have new: "handler_of (ListenerHandler_Connect self_id (snd (snd (snd a))) ?h) (callbacks_of t (B @ [a]))"
    using handler_of_Connect assms(2) by (simp add: callbacks_of_def)
  have old: "callbacks_of t' (B @ [a]) = callbacks_of t' B" if "t' \<noteq> t" for t'
    using that assms(2) by (simp add: callbacks_of_def)
  let ?hs = "upd_chain t (ListenerHandler_Connect self_id (snd (snd (snd a))) ?h) hs"
  have "fst ` set ?hs = add_type ` set (B @ [a])" using hs(2) assms(2) by simp
  moreover have "handler_of h (callbacks_of t' (B @ [a]))" if "(t', h) \<in> set ?hs" for t' h
    using that new old [of t'] hs(3) unfolding set_upd_chain [OF hs(1)] by auto
  ultimately show ?thesis using upd_chain_sorted [OF hs(1)] by (auto simp: chain_ok_def)
qed

text \<open>The handlers of the base class after an addition.\<close>

lemma get_on_handler:
  assumes "AtomicHashMap_inv (dp_msg_listeners d)"
  shows "AtomicHashMap_inv (dp_msg_listeners (on_handler ch f d))"
    and "AtomicHashMap_Get (dp_msg_listeners (on_handler ch f d)) ch' =
      (if ch' = ch then map_option (\<lambda>(t, h). (t, f h)) (AtomicHashMap_Get (dp_msg_listeners d) ch)
       else AtomicHashMap_Get (dp_msg_listeners d) ch')"
  using assms by (simp_all add: on_handler_def ahm.inv_assign ahm.get_assign)

lemma on_handler_shutdown [simp]: "dp_is_shutdown (on_handler ch f d) = dp_is_shutdown d"
  by (simp add: on_handler_def)

definition AddListener_base ::
    "nat \<Rightarrow> nat \<Rightarrow> 't \<Rightarrow> bool \<Rightarrow> ('t, 't listener_wrapper) Dispatcher \<Rightarrow> ('t, 't listener_wrapper) Dispatcher" where
  "AddListener_base self_id ch t created d = (let (handler, d') = IntraDispatcher_GetHandler ch t d
     in if handler \<and> created then on_handler ch (ListenerHandler_Connect self_id (Some (Run_chain self_id ch t))) d' else d')"

lemma AddListener_split:
  assumes "\<not> dp_is_shutdown (id_base s)"
  shows "add_one (self_id, ch, t, cb) s = s\<lparr>id_chain := snd (ChannelChain_AddListener self_id ch t cb (id_chain s)),
     id_base := AddListener_base self_id ch t (fst (ChannelChain_AddListener self_id ch t cb (id_chain s))) (id_base s)\<rparr>"
  using assms
  by (simp add: add_one_def IntraDispatcher_AddListener_def AddListener_base_def Let_def case_prod_beta)

lemma AddListener_base_first:
  assumes "AtomicHashMap_inv (dp_msg_listeners d)" and "AtomicHashMap_Get (dp_msg_listeners d) ch = None"
  shows "AtomicHashMap_inv (dp_msg_listeners (AddListener_base self_id ch t True d)) \<and>
    AtomicHashMap_Get (dp_msg_listeners (AddListener_base self_id ch t True d)) ch' =
      (if ch' = ch then Some (t, ListenerHandler_Connect self_id (Some (Run_chain self_id ch t)) ListenerHandler_ctor)
       else AtomicHashMap_Get (dp_msg_listeners d) ch') \<and>
    dp_is_shutdown (AddListener_base self_id ch t True d) = dp_is_shutdown d"
  using assms
  by (simp add: AddListener_base_def IntraDispatcher_GetHandler_def get_on_handler ahm.inv_put ahm.get_put)

lemma AddListener_base_later:
  assumes "AtomicHashMap_Get (dp_msg_listeners d) ch = Some (t0, h)" and "created \<Longrightarrow> t \<noteq> t0"
  shows "AddListener_base self_id ch t created d = d"
  using assms by (auto simp: AddListener_base_def IntraDispatcher_GetHandler_def)

lemma intra_inv_add:
  assumes inv: "intra_inv s A"
  shows "intra_inv (add_one a s) (A @ [a])"
proof -
  obtain self_id ch t cb where a: "a = (self_id, ch, t, cb)" by (cases a)
  let ?B = "on_channel ch A" and ?entry = "map_of (cc_handlers (id_chain s)) ch"
  let ?hs = "case ?entry of None \<Rightarrow> [] | Some hs \<Rightarrow> hs"
  let ?created = "fst (ChannelChain_AddListener self_id ch t cb (id_chain s))"
  have I: "\<not> dp_is_shutdown (id_base s)" "AtomicHashMap_inv (dp_msg_listeners (id_base s))"
      "chain_ok (map_of (cc_handlers (id_chain s)) c) (on_channel c A)"
      "base_ok c (AtomicHashMap_Get (dp_msg_listeners (id_base s)) c) (on_channel c A)" for c
    using inv by (simp_all add: intra_inv_def)
  have B: "on_channel c (A @ [a]) = (if c = ch then ?B @ [a] else on_channel c A)" for c
    by (simp add: on_channel_def a)
  have hs: "chain_sorted ?hs" "fst ` set ?hs = add_type ` set ?B" using chain_ok_hs [OF I(3)] by blast+
  have created: "?created \<longleftrightarrow> t \<notin> add_type ` set ?B"
    using AddListener_chain(1) [OF hs(1)] hs(2) by (metis map_of_eq_None_iff)
  have chain: "chain_ok (map_of (cc_handlers (snd (ChannelChain_AddListener self_id ch t cb (id_chain s)))) c)
      (on_channel c (A @ [a]))" for c
  proof (cases "c = ch")
    case True
    then show ?thesis
      using AddListener_chain(2) [OF hs(1), of self_id t cb ch] chain_ok_add [OF I(3) [of ch], of t a self_id]
      unfolding B by (simp add: a add_type_def)
  next
    case False
    then show ?thesis
      using AddListener_chain(2) [OF hs(1), of self_id t cb c] I(3) [of c] unfolding B by simp
  qed
  have base: "dp_is_shutdown (AddListener_base self_id ch t ?created (id_base s)) = False \<and>
      AtomicHashMap_inv (dp_msg_listeners (AddListener_base self_id ch t ?created (id_base s))) \<and>
      base_ok c (AtomicHashMap_Get (dp_msg_listeners (AddListener_base self_id ch t ?created (id_base s))) c)
        (on_channel c (A @ [a]))" for c
  proof (cases "?B = []")
    case True
    then have none: "AtomicHashMap_Get (dp_msg_listeners (id_base s)) ch = None" and c: "?created"
      using I(4) [of ch] created by (simp_all add: base_ok_def)
    have w: "handler_rel (ListenerHandler_Connect self_id (Some (Run_chain self_id ch t)) ListenerHandler_ctor)
        ([(Some self_id, Some (Run_chain self_id ch t))], \<lambda>_. [])"
      using Connect_rel [OF ListenerHandler_ctor_rel] by (simp add: reg_connect_def)
    show ?thesis
      using c AddListener_base_first [OF I(2) none, of self_id t c] I(1) I(4) [of c] True w unfolding B
      by (cases "c = ch") (simp_all add: base_ok_def a add_type_def)
  next
    case False
    then obtain h where h: "AtomicHashMap_Get (dp_msg_listeners (id_base s)) ch = Some (add_type (hd ?B), h)"
      using I(4) [of ch] by (auto simp: base_ok_def)
    have "AddListener_base self_id ch t ?created (id_base s) = id_base s"
      by (rule AddListener_base_later [OF h]) (use created False in auto)
    then show ?thesis using I(1,2) I(4) [of c] False by (auto simp: B base_ok_def)
  qed
  show ?thesis
    unfolding a AddListener_split [OF I(1)] intra_inv_def using chain base by (simp add: a)
qed

lemma intra_inv_ctor: "intra_inv IntraDispatcher_ctor []"
proof -
  have e: "AtomicHashMap_ctor 128 = (AtomicHashMap_ctor (2 ^ 7) :: ('a, 'a listener_wrapper) typed_handler AtomicHashMap)"
    by simp
  have "AtomicHashMap_inv (AtomicHashMap_ctor 128 :: ('a, 'a listener_wrapper) typed_handler AtomicHashMap)"
      "AtomicHashMap_Get (AtomicHashMap_ctor 128 :: ('a, 'a listener_wrapper) typed_handler AtomicHashMap) ch = None" for ch
    unfolding e by (rule AtomicHashMap_inv_ctor AtomicHashMap_Get_ctor)+
  then show ?thesis
    by (simp add: intra_inv_def IntraDispatcher_ctor_def Dispatcher_ctor_def chain_ok_def base_ok_def on_channel_def
        ChannelChain_ctor_def)
qed

lemma intra_inv_adds: "intra_inv (fold add_one A IntraDispatcher_ctor) A"
proof (induction A rule: rev_induct)
  case Nil
  show ?case by (simp add: intra_inv_ctor)
next
  case (snoc a A)
  show ?case using intra_inv_add [OF snoc] by simp
qed

section \<open>Delivery\<close>

text \<open>
  The reference. \<open>transcode\<close> is the way of a message through its serialized form into another type. A channel has the type of
  its first listener; a message of another type is transcoded to it first; then each type of the channel, in the order of
  the names, gets the message, transcoded where the type differs.
\<close>

definition transcode :: "('t \<Rightarrow> 'm message_class) \<Rightarrow> ('t \<Rightarrow> 'm) \<Rightarrow> 't \<Rightarrow> 't \<Rightarrow> 'm \<Rightarrow> 'm option" where
  "transcode mc dflt from into m =
     (if from = into then Some m
      else if FullByteSize (mc from) m < 0 then None
      else case SerializeToHC (mc from) m (FullByteSize (mc from) m) of
             None \<Rightarrow> None
           | Some bs \<Rightarrow> ParseFromHC (mc into) bs (dflt into))"

definition deliver :: "'m option \<Rightarrow> 'c option list \<Rightarrow> ('c \<times> 'm) list" where
  "deliver m cbs = (case m of None \<Rightarrow> [] | Some m' \<Rightarrow> map (\<lambda>c. (c, m')) (List.map_filter id cbs))"

definition deliver_all ::
    "('t::linorder \<Rightarrow> 'm message_class) \<Rightarrow> ('t \<Rightarrow> 'm) \<Rightarrow> 't \<Rightarrow> 'm \<Rightarrow> ('t, 'c) addition list \<Rightarrow> ('c \<times> 'm) list" where
  "deliver_all mc dflt ty m B =
     (if B = [] then []
      else case transcode mc dflt ty (add_type (hd B)) m of
             None \<Rightarrow> []
           | Some m0 \<Rightarrow>
               concat (map (\<lambda>t. deliver (transcode mc dflt (add_type (hd B)) t m0) (callbacks_of t B))
                 (sorted_list_of_set (add_type ` set B))))"

lemma SerializeToHC_nonempty: "SerializeToHC mc m n = Some bs \<Longrightarrow> bs \<noteq> []"
  using length_header_bytes [OF frame_header_wf, of mc m]
  by (auto simp: SerializeToHC_def Let_def frame_header_def header_size_def split: if_splits option.splits)

lemma RunFromString_handler_of:
  "handler_of h ls \<Longrightarrow> ListenerHandler_RunFromString parse str sender h = (h, deliver (parse str) ls)"
  by (auto simp: ListenerHandler_RunFromString_def handler_of_Run deliver_def split: option.splits)

text \<open>One element of the loop over the types.\<close>

lemma chain_serialize_cache:
  "msg = [] \<or> msg = chain_serialize mc m [] \<Longrightarrow> chain_serialize mc m msg = chain_serialize mc m []"
  by (auto simp: chain_serialize_def)

lemma transcode_chain:
  assumes "ty \<noteq> t" and "handler_of h ls"
  shows "(if chain_serialize (mc ty) m [] = [] then (h, [])
      else ListenerHandler_RunFromString (\<lambda>str. ParseFromHC (mc t) str (dflt t)) (chain_serialize (mc ty) m []) sender h) =
    (h, deliver (transcode mc dflt ty t m) ls)"
  using assms SerializeToHC_nonempty [of "mc ty" m]
  by (auto simp: chain_serialize_def transcode_def RunFromString_handler_of split: option.splits) (simp_all add: deliver_def)

lemma Chain_loop_deliver:
  assumes "\<forall>(t, h) \<in> set hs. handler_of h (ls t)" and "msg = [] \<or> msg = chain_serialize (mc ty) m []"
  shows "Chain_loop mc dflt ty m sender msg hs =
    (hs, concat (map (\<lambda>t. deliver (transcode mc dflt ty t m) (ls t)) (map fst hs)))"
  using assms
proof (induction hs arbitrary: msg)
  case (Cons e hs)
  obtain t h where e: "e = (t, h)" by force
  then have h: "handler_of h (ls t)" and hs: "\<forall>(t, h) \<in> set hs. handler_of h (ls t)" using Cons.prems by auto
  show ?case
  proof (cases "t = ty")
    case True
    then show ?thesis
      using Cons.IH [OF hs Cons.prems(2)] handler_of_Run [OF h]
      by (simp add: e transcode_def) (simp add: deliver_def)
  next
    case False
    then show ?thesis
      using Cons.IH [OF hs, of "chain_serialize (mc ty) m []"] chain_serialize_cache [OF Cons.prems(2)]
        transcode_chain [where ty = ty and t = t and mc = mc and m = m and dflt = dflt and sender = sender, OF _ h]
      by (simp add: e)
  qed
qed simp

lemma ChannelChain_Run_deliver:
  assumes "chain_ok (map_of (cc_handlers cc) ch) B" and "B \<noteq> []"
  shows "snd (ChannelChain_Run mc dflt ch ty m sender cc) =
    concat (map (\<lambda>t. deliver (transcode mc dflt ty t m) (callbacks_of t B)) (sorted_list_of_set (add_type ` set B)))"
proof -
  obtain hs where hs: "map_of (cc_handlers cc) ch = Some hs" "chain_sorted hs" "fst ` set hs = add_type ` set B"
      "\<forall>(t, h) \<in> set hs. handler_of h (callbacks_of t B)"
    using assms by (auto simp: chain_ok_def)
  have "sorted (map fst hs)" "distinct (map fst hs)"
    using hs(2) by (auto simp: chain_sorted_def strict_sorted_iff)
  then have "sorted_list_of_set (add_type ` set B) = map fst hs"
    unfolding hs(3) [symmetric] by (metis list.set_map sorted_list_of_set.idem_if_sorted_distinct)
  then show ?thesis
    using Chain_loop_deliver [OF hs(4), of "[]" mc ty m dflt sender] hs(1)
    by (simp add: ChannelChain_Run_def ChannelChain_Run_handlers_def)
qed

lemma OnMessage_wrappers_deliver:
  assumes "handler_of h ls"
  shows "OnMessage_wrappers mc dflt ty m sender (t, h) = (h, deliver (transcode mc dflt ty t m) ls)"
proof (cases "t = ty")
  case True
  then show ?thesis
    using handler_of_Run [OF assms] by (simp add: OnMessage_wrappers_def transcode_def) (simp add: deliver_def)
next
  case False
  then show ?thesis
    by (auto simp: OnMessage_wrappers_def transcode_def RunFromString_handler_of [OF assms] split: option.splits)
      (simp_all add: deliver_def)
qed

lemma OnMessage_adds:
  "snd (IntraDispatcher_OnMessage mc dflt ch ty m sender (fold add_one A IntraDispatcher_ctor)) =
     deliver_all mc dflt ty m (on_channel ch A)"
proof -
  let ?s = "fold add_one A IntraDispatcher_ctor" and ?B = "on_channel ch A"
  have I: "\<not> dp_is_shutdown (id_base ?s)" "chain_ok (map_of (cc_handlers (id_chain ?s)) ch) ?B"
      "base_ok ch (AtomicHashMap_Get (dp_msg_listeners (id_base ?s)) ch) ?B"
    using intra_inv_adds [of A] by (simp_all add: intra_inv_def)
  show ?thesis
  proof (cases "?B = []")
    case True
    then show ?thesis using I by (simp add: base_ok_def IntraDispatcher_OnMessage_def deliver_all_def)
  next
    case False
    let ?t = "add_type (hd ?B)"
    let ?w = "Run_chain (fst (hd ?B)) ch ?t"
    obtain h where h: "AtomicHashMap_Get (dp_msg_listeners (id_base ?s)) ch = Some (?t, h)" "handler_of h [Some ?w]"
      using I(3) False handler_ofI by (fastforce simp: base_ok_def)
    have ws: "deliver (transcode mc dflt ty ?t m) [Some ?w] =
        (case transcode mc dflt ty ?t m of None \<Rightarrow> [] | Some m0 \<Rightarrow> [(?w, m0)])"
      by (simp add: deliver_def List.map_filter_def split: option.split)
    show ?thesis
      using I(1) h(1) OnMessage_wrappers_deliver [OF h(2), of mc dflt ty m sender ?t] False
        ChannelChain_Run_deliver [OF I(2) False, of mc dflt ?t _ sender]
      by (auto simp: IntraDispatcher_OnMessage_def ws deliver_all_def Let_def case_prod_beta split: option.splits)
  qed
qed

section \<open>Claims\<close>


text \<open>Two readers of one channel and type, and what they receive.\<close>

definition two_readers :: "(nat, char) IntraDispatcher" where
  "two_readers = fold add_one [(1, 7, 0, Some (CHR ''a'')), (2, 7, 0, Some (CHR ''b''))] IntraDispatcher_ctor"

lemma handler_of_Disconnect:
  assumes "handler_of h ls"
  shows "\<exists>ls'. handler_of (ListenerHandler_Disconnect self_id h) ls' \<and> set ls' \<subseteq> set ls"
proof -
  obtain r where r: "handler_rel h (r, \<lambda>_. [])" "map snd r = ls" using assms by (auto simp: handler_of_def)
  have "set (map snd (reg_disconnect self_id r)) \<subseteq> set ls" using r(2) by (force simp: reg_disconnect_def)
  then show ?thesis using Disconnect_rel [OF r(1)] unfolding handler_of_def by blast
qed

lemma RemoveHandler_only_type:
  assumes "chain_ok (map_of hss ch) B" and "\<forall>a \<in> set B. add_type a = t"
  shows "map_of (snd (RemoveHandler ch t hss)) ch = None"
proof (cases "map_of hss ch")
  case (Some hs)
  then have keys: "fst ` set hs = add_type ` set B" and "B \<noteq> []" using assms(1) by (auto simp: chain_ok_def split: if_splits)
  then have t: "\<forall>e \<in> set hs. fst e = t" "t \<in> fst ` set hs"
    using assms(2) by (fastforce simp: neq_Nil_conv)+
  then have "map_of hs t \<noteq> None" "erase t hs = []"
    by (auto simp: map_of_eq_None_iff erase_def filter_empty_conv)
  then show ?thesis using Some by (simp add: RemoveHandler_def)
qed (simp add: RemoveHandler_def)

lemma run_wrappers_absent:
  assumes "map_of (cc_handlers cc) ch = None" and "\<forall>(w, m) \<in> set ws. \<exists>self_id t. w = Run_chain self_id ch t"
  shows "fold (run_wrapper mc dflt sender) ws (cc, calls) = (cc, calls)"
  using assms(2)
  by (induction ws) (auto simp: ChannelChain_Run_def ChannelChain_Run_handlers_def assms(1))

text \<open>
  \<open>RemoveListener\<close> takes the whole handler of the message type out of the chain. Once it was called on a channel whose
  listeners have one type, for whichever identifier, a message on the channel reaches none of the remaining listeners.
\<close>

theorem RemoveListener_silences_channel:
  assumes "\<forall>a \<in> set (on_channel ch A). add_type a = t"
  shows "snd (IntraDispatcher_OnMessage mc dflt ch ty m sender
    (IntraDispatcher_RemoveListener \<lparr>ra_id = self_id, ra_channel_id = ch\<rparr> t (fold add_one A IntraDispatcher_ctor))) = []"
proof -
  let ?s = "fold add_one A IntraDispatcher_ctor" and ?B = "on_channel ch A"
  let ?s' = "IntraDispatcher_RemoveListener \<lparr>ra_id = self_id, ra_channel_id = ch\<rparr> t ?s"
  have I: "\<not> dp_is_shutdown (id_base ?s)" "chain_ok (map_of (cc_handlers (id_chain ?s)) ch) ?B"
      "base_ok ch (AtomicHashMap_Get (dp_msg_listeners (id_base ?s)) ch) ?B" "AtomicHashMap_inv (dp_msg_listeners (id_base ?s))"
    using intra_inv_adds [of A] by (simp_all add: intra_inv_def)
  have chain: "map_of (cc_handlers (id_chain ?s')) ch = None"
    using RemoveHandler_only_type [OF I(2) assms] I(1)
    by (simp add: IntraDispatcher_RemoveListener_def ChannelChain_RemoveListener_def case_prod_beta)
  have base: "AtomicHashMap_Get (dp_msg_listeners (id_base ?s')) ch =
      map_option (\<lambda>(t, h). (t, ListenerHandler_Disconnect self_id h)) (AtomicHashMap_Get (dp_msg_listeners (id_base ?s)) ch)"
    using I(1) get_on_handler(2) [OF I(4)]
    by (simp add: IntraDispatcher_RemoveListener_def Dispatcher_RemoveListener_def)
  show ?thesis
  proof (cases "AtomicHashMap_Get (dp_msg_listeners (id_base ?s)) ch")
    case None
    then show ?thesis using base by (simp add: IntraDispatcher_OnMessage_def)
  next
    case (Some th)
    then obtain h where h: "th = (add_type (hd ?B), h)" "handler_of h [Some (Run_chain (fst (hd ?B)) ch (add_type (hd ?B)))]"
      using I(3) handler_ofI by (fastforce simp: base_ok_def split: if_splits)
    obtain ls where ls: "handler_of (ListenerHandler_Disconnect self_id h) ls"
        "set ls \<subseteq> {Some (Run_chain (fst (hd ?B)) ch (add_type (hd ?B)))}"
      using handler_of_Disconnect [OF h(2)] by auto
    let ?ws = "deliver (transcode mc dflt ty (add_type (hd ?B)) m) ls"
    have "\<forall>(w, m) \<in> set ?ws. \<exists>self_id t. w = Run_chain self_id ch t"
      using ls(2) by (auto simp: deliver_def List.map_filter_def split: option.splits)
    from run_wrappers_absent [OF chain this] show ?thesis
      using base Some h OnMessage_wrappers_deliver [OF ls(1), of mc dflt ty m sender]
      by (simp add: IntraDispatcher_OnMessage_def Let_def case_prod_beta)
  qed
qed

theorem RemoveListener_silences_channel_witness:
  "snd (IntraDispatcher_OnMessage (\<lambda>_::nat. raw_class) (\<lambda>_. ([], [])) 7 0 ([84], [1]) 5 two_readers) =
      [(CHR ''a'', ([84], [1])), (CHR ''b'', ([84], [1]))] \<and>
   snd (IntraDispatcher_OnMessage (\<lambda>_. raw_class) (\<lambda>_. ([], [])) 7 0 ([84], [1]) 5
     (IntraDispatcher_RemoveListener \<lparr>ra_id = 1, ra_channel_id = 7\<rparr> 0 two_readers)) = []"
proof
  show "snd (IntraDispatcher_OnMessage (\<lambda>_::nat. raw_class) (\<lambda>_. ([], [])) 7 0 ([84], [1]) 5 two_readers) =
      [(CHR ''a'', ([84], [1])), (CHR ''b'', ([84], [1]))]"
    unfolding two_readers_def OnMessage_adds
    by (simp add: deliver_all_def deliver_def on_channel_def add_type_def callbacks_of_def transcode_def List.map_filter_def)
  show "snd (IntraDispatcher_OnMessage (\<lambda>_. raw_class) (\<lambda>_. ([], [])) 7 0 ([84], [1]) 5
     (IntraDispatcher_RemoveListener \<lparr>ra_id = 1, ra_channel_id = 7\<rparr> 0 two_readers)) = []"
    unfolding two_readers_def
    by (rule RemoveListener_silences_channel) (simp add: on_channel_def add_type_def)
qed

text \<open>
  The closure of a removed listener may stay connected. Then a listener added later gets a second one, and each message
  is delivered to it twice.
\<close>

lemma ChannelChain_Run_frame:
  assumes "chain_ok (map_of (cc_handlers cc) ch) B"
  shows "map_of (cc_handlers (fst (ChannelChain_Run mc dflt ch ty m sender cc))) = map_of (cc_handlers cc)"
proof (cases "map_of (cc_handlers cc) ch")
  case (Some hs)
  then have "\<forall>(t, h) \<in> set hs. handler_of h (callbacks_of t B)" using assms by (auto simp: chain_ok_def split: if_splits)
  from Chain_loop_deliver [OF this, of "[]" mc ty m dflt sender] Some show ?thesis
    by (auto simp: ChannelChain_Run_def ChannelChain_Run_handlers_def)
qed (simp add: ChannelChain_Run_def ChannelChain_Run_handlers_def)

text \<open>The removal of a listener that is not the first of its channel, which has one type.\<close>

lemma RemoveListener_later:
  fixes t :: "'t::linorder" and A :: "('t, 'c) addition list"
  assumes only: "\<forall>a \<in> set (on_channel ch A). add_type a = t" and ne: "on_channel ch A \<noteq> []"
    and other: "self_id \<noteq> fst (hd (on_channel ch A))"
  defines "s \<equiv> IntraDispatcher_RemoveListener \<lparr>ra_id = self_id, ra_channel_id = ch\<rparr> t (fold add_one A IntraDispatcher_ctor)"
  obtains h where "\<not> dp_is_shutdown (id_base s)" and "AtomicHashMap_inv (dp_msg_listeners (id_base s))"
    and "map_of (cc_handlers (id_chain s)) ch = None" and "AtomicHashMap_Get (dp_msg_listeners (id_base s)) ch = Some (t, h)"
    and "handler_rel h ([(Some (fst (hd (on_channel ch A))), Some (Run_chain (fst (hd (on_channel ch A))) ch t))], \<lambda>_. [])"
proof -
  let ?s = "fold add_one A IntraDispatcher_ctor" and ?B = "on_channel ch A"
  have t: "add_type (hd ?B) = t" using only ne by simp
  have I: "\<not> dp_is_shutdown (id_base ?s)" "chain_ok (map_of (cc_handlers (id_chain ?s)) ch) ?B"
      "base_ok ch (AtomicHashMap_Get (dp_msg_listeners (id_base ?s)) ch) ?B" "AtomicHashMap_inv (dp_msg_listeners (id_base ?s))"
    using intra_inv_adds [of A] by (simp_all add: intra_inv_def)
  obtain h where h: "AtomicHashMap_Get (dp_msg_listeners (id_base ?s)) ch = Some (t, h)"
      "handler_rel h ([(Some (fst (hd ?B)), Some (Run_chain (fst (hd ?B)) ch t))], \<lambda>_. [])"
    using I(3) ne t by (auto simp: base_ok_def)
  have base: "id_base s = on_handler ch (ListenerHandler_Disconnect self_id) (id_base ?s)"
    using I(1) by (simp add: s_def IntraDispatcher_RemoveListener_def Dispatcher_RemoveListener_def)
  have none: "map_of (cc_handlers (id_chain s)) ch = None"
    using RemoveHandler_only_type [OF I(2) only] I(1)
    by (simp add: s_def IntraDispatcher_RemoveListener_def ChannelChain_RemoveListener_def case_prod_beta)
  have rel: "handler_rel (ListenerHandler_Disconnect self_id h)
      ([(Some (fst (hd ?B)), Some (Run_chain (fst (hd ?B)) ch t))], \<lambda>_. [])"
    using Disconnect_rel [OF h(2), of self_id] other by (simp add: reg_disconnect_def)
  show thesis
    by (rule that [OF _ _ none _ rel]) (use I(1) h(1) get_on_handler [OF I(4)] in \<open>simp_all add: base\<close>)
qed

lemma RemoveListener_then_add_delivers_twice:
  fixes t :: "'t::linorder" and ch x self_id :: nat and c :: 'c and A :: "('t, 'c) addition list"
  defines "s \<equiv> add_one (x, ch, t, Some c) (IntraDispatcher_RemoveListener \<lparr>ra_id = self_id, ra_channel_id = ch\<rparr> t
     (fold add_one A IntraDispatcher_ctor))"
  assumes only: "\<forall>a \<in> set (on_channel ch A). add_type a = t" and ne: "on_channel ch A \<noteq> []"
    and other: "self_id \<noteq> fst (hd (on_channel ch A))" "x \<noteq> fst (hd (on_channel ch A))"
  shows "snd (IntraDispatcher_OnMessage mc dflt ch t m sender s) = [(c, m), (c, m)]"
proof -
  let ?s = "IntraDispatcher_RemoveListener \<lparr>ra_id = self_id, ra_channel_id = ch\<rparr> t (fold add_one A IntraDispatcher_ctor)"
  let ?a = "(x, ch, t, Some c)" and ?w = "Some (Run_chain (fst (hd (on_channel ch A))) ch t)" and ?wx = "Some (Run_chain x ch t)"
  obtain h where h: "\<not> dp_is_shutdown (id_base ?s)" "AtomicHashMap_inv (dp_msg_listeners (id_base ?s))"
      "map_of (cc_handlers (id_chain ?s)) ch = None" "AtomicHashMap_Get (dp_msg_listeners (id_base ?s)) ch = Some (t, h)"
      "handler_rel h ([(Some (fst (hd (on_channel ch A))), ?w)], \<lambda>_. [])"
    by (rule RemoveListener_later [OF only ne other(1)])
  note add = AddListener_chain [of "id_chain ?s" ch x t "Some c", unfolded h(3), simplified]
  have s: "s = ?s\<lparr>id_chain := snd (ChannelChain_AddListener x ch t (Some c) (id_chain ?s)),
      id_base := AddListener_base x ch t True (id_base ?s)\<rparr>"
    unfolding s_def using AddListener_split [OF h(1), of x ch t "Some c"] add(1) by simp
  have chain: "chain_ok (map_of (cc_handlers (id_chain s)) ch) [?a]"
    using chain_ok_add [of None "[]" t ?a x] add(2) [of ch] by (simp add: s chain_ok_def add_type_def)
  have get: "AtomicHashMap_Get (dp_msg_listeners (id_base s)) ch = Some (t, ListenerHandler_Connect x ?wx h)"
      "\<not> dp_is_shutdown (id_base s)"
    using h(1,4) get_on_handler(2) [OF h(2)] by (simp_all add: s AddListener_base_def IntraDispatcher_GetHandler_def)
  have hx: "handler_of (ListenerHandler_Connect x ?wx h) [?w, ?wx]"
    using Connect_rel [OF h(5), of x ?wx] other(2) by (auto simp: reg_connect_def intro: handler_ofI)
  have run: "snd (ChannelChain_Run mc dflt ch t m sender cc) = [(c, m)]"
    if "map_of (cc_handlers cc) ch = map_of (cc_handlers (id_chain s)) ch" for cc
    using ChannelChain_Run_deliver [of cc ch "[?a]" mc dflt t m sender] chain that
    by (simp add: deliver_def transcode_def callbacks_of_def add_type_def List.map_filter_def)
  obtain cc1 cc2 where "ChannelChain_Run mc dflt ch t m sender (id_chain s) = (cc1, [(c, m)])"
      "ChannelChain_Run mc dflt ch t m sender cc1 = (cc2, [(c, m)])"
    using run [OF refl] run ChannelChain_Run_frame [OF chain, of mc dflt t m sender] by (metis prod.collapse)
  then show ?thesis
    using get OnMessage_wrappers_deliver [OF hx, of mc dflt t m sender t]
    by (simp add: IntraDispatcher_OnMessage_def transcode_def deliver_def List.map_filter_def)
qed

end
