(* ===== verification/Topology_Manager.thy ===== *)
theory Topology_Manager
  imports Warehouse Topology_Graph Signal_Slot
begin

unbundle bit_operations_syntax

text \<open>
  \<open>cyber/service_discovery/specific_manager\<close>: the base class \<open>Manager\<close> and the managers of nodes, channels and services.
  A manager applies each change of the topology to its warehouses (and, for channels, to the graph of nodes), notifies the
  listeners of its signal, and publishes its own changes; changes published by other processes arrive at
  \<open>OnRemoteChange\<close>. The managers extend the record of the base class; its template methods take the virtual
  \<open>Check\<close> and \<open>Dispose\<close> as arguments, and the locale \<open>topo_manager\<close> states what they rely on.

  Fast RTPS and protobuf are parameters: whether the publisher and the subscriber can be made, the result of a write, and
  \<open>serialize\<close> and \<open>parse\<close> of a change. \<open>now\<close> is the clock. What a call does outside the manager is a list of events.
\<close>

section \<open>Changes\<close>

datatype ChangeType = CHANGE_NODE | CHANGE_CHANNEL | CHANGE_SERVICE | CHANGE_PARTICIPANT

datatype OperateType = OPT_JOIN | OPT_LEAVE

datatype RoleType = ROLE_NODE | ROLE_WRITER | ROLE_READER | ROLE_SERVER | ROLE_CLIENT | ROLE_PARTICIPANT

fun role_number :: "RoleType \<Rightarrow> nat" where
  "role_number ROLE_NODE = 1"
| "role_number ROLE_WRITER = 2"
| "role_number ROLE_READER = 3"
| "role_number ROLE_SERVER = 4"
| "role_number ROLE_CLIENT = 5"
| "role_number ROLE_PARTICIPANT = 6"

record ChangeMsg =
  cm_timestamp :: nat
  cm_change_type :: ChangeType
  cm_operate_type :: OperateType
  cm_role_type :: RoleType
  cm_role_attr :: RoleAttributes

datatype ('c, 'w) topo_event =
  Listener_called 'c ChangeMsg
| Published 'w
| Async_shutdown
| Register_message string
| Type_mismatch RoleAttributes

section \<open>The base class\<close>

record 'c Manager =
  mg_is_shutdown :: bool
  mg_is_discovery_started :: bool
  mg_allowed_role :: nat
  mg_change_type :: ChangeType
  mg_host_name :: string
  mg_process_id :: int
  mg_channel_name :: string
  mg_publisher :: bool
  mg_subscriber :: bool
  mg_listener :: bool
  mg_signal :: "'c Signal"

definition Manager_ctor :: "string \<Rightarrow> int \<Rightarrow> 'c Manager" where
  "Manager_ctor host_name process_id =
     \<lparr>mg_is_shutdown = False, mg_is_discovery_started = False, mg_allowed_role = 0, mg_change_type = CHANGE_PARTICIPANT,
      mg_host_name = host_name, mg_process_id = process_id, mg_channel_name = [], mg_publisher = False,
      mg_subscriber = False, mg_listener = False, mg_signal = Signal_ctor\<rparr>"

text \<open>\<open>filled\<close>: the attributes could be filled in; \<open>made\<close>: Fast RTPS returned an object.\<close>

definition CreatePublisher :: "bool \<Rightarrow> bool \<Rightarrow> ('c, 'z) Manager_scheme \<Rightarrow> bool \<times> ('c, 'z) Manager_scheme" where
  "CreatePublisher filled made m = (if \<not> filled then (False, m) else (made, m\<lparr>mg_publisher := made\<rparr>))"

definition CreateSubscriber :: "bool \<Rightarrow> bool \<Rightarrow> ('c, 'z) Manager_scheme \<Rightarrow> bool \<times> ('c, 'z) Manager_scheme" where
  "CreateSubscriber filled made m =
     (if \<not> filled then (False, m) else (made, m\<lparr>mg_listener := True, mg_subscriber := made\<rparr>))"

definition StopDiscovery :: "('c, 'z) Manager_scheme \<Rightarrow> ('c, 'z) Manager_scheme" where
  "StopDiscovery m =
     (if \<not> mg_is_discovery_started m then m
      else m\<lparr>mg_is_discovery_started := False, mg_publisher := False, mg_subscriber := False, mg_listener := False\<rparr>)"

definition StartDiscovery ::
    "bool \<Rightarrow> bool \<times> bool \<Rightarrow> bool \<times> bool \<Rightarrow> ('c, 'z) Manager_scheme \<Rightarrow> bool \<times> ('c, 'z) Manager_scheme" where
  "StartDiscovery participant pub sub m =
     (if \<not> participant then (False, m)
      else if mg_is_discovery_started m then (True, m)
      else let m1 = m\<lparr>mg_is_discovery_started := True\<rparr>;
               (ok_pub, m2) = CreatePublisher (fst pub) (snd pub) m1;
               (ok_sub, m3) = (if ok_pub then CreateSubscriber (fst sub) (snd sub) m2 else (False, m2))
           in if \<not> ok_pub \<or> \<not> ok_sub then (False, StopDiscovery m3) else (True, m3))"

definition Manager_Shutdown :: "('c, 'z) Manager_scheme \<Rightarrow> ('c, 'z) Manager_scheme" where
  "Manager_Shutdown m =
     (if mg_is_shutdown m then m
      else let m1 = StopDiscovery (m\<lparr>mg_is_shutdown := True\<rparr>) in m1\<lparr>mg_signal := DisconnectAllSlots (mg_signal m1)\<rparr>)"

definition AddChangeListener :: "'c option \<Rightarrow> ('c, 'z) Manager_scheme \<Rightarrow> Connection \<times> ('c, 'z) Manager_scheme" where
  "AddChangeListener func m =
     (let (conn, sg) = Signal_Connect func (mg_signal m) in (conn, m\<lparr>mg_signal := sg\<rparr>))"

definition RemoveChangeListener :: "Connection \<Rightarrow> ('c, 'z) Manager_scheme \<Rightarrow> ('c, 'z) Manager_scheme" where
  "RemoveChangeListener conn m = m\<lparr>mg_signal := snd (Connection_Disconnect conn (mg_signal m))\<rparr>"

definition NeedPublish :: "ChangeMsg \<Rightarrow> bool" where
  "NeedPublish msg \<longleftrightarrow> True"

definition Manager_Convert ::
    "nat \<Rightarrow> RoleAttributes \<Rightarrow> RoleType \<Rightarrow> OperateType \<Rightarrow> ('c, 'z) Manager_scheme \<Rightarrow> ChangeMsg" where
  "Manager_Convert now attr role opt m =
     (let attr1 = (if ra_host_name attr = None then attr\<lparr>ra_host_name := Some (mg_host_name m)\<rparr> else attr);
          attr2 = (if ra_process_id attr1 = None then attr1\<lparr>ra_process_id := Some (mg_process_id m)\<rparr> else attr1)
      in \<lparr>cm_timestamp = now, cm_change_type = mg_change_type m, cm_operate_type = opt, cm_role_type = role,
          cm_role_attr = attr2\<rparr>)"

definition Manager_Notify ::
    "ChangeMsg \<Rightarrow> ('c, 'z) Manager_scheme \<Rightarrow> ('c, 'z) Manager_scheme \<times> ('c, 'w) topo_event list" where
  "Manager_Notify msg m =
     (let (sg, calls) = Signal_emit log_call (mg_signal m, [])
      in (m\<lparr>mg_signal := sg\<rparr>, map (\<lambda>c. Listener_called c msg) calls))"

definition Manager_Publish ::
    "(ChangeMsg \<Rightarrow> 'w option) \<Rightarrow> ('w \<Rightarrow> bool) \<Rightarrow> ChangeMsg \<Rightarrow> ('c, 'z) Manager_scheme \<Rightarrow> bool \<times> ('c, 'w) topo_event list" where
  "Manager_Publish serialize write_ok msg m =
     (if \<not> mg_is_discovery_started m then (False, [])
      else case serialize msg of
             None \<Rightarrow> (False, [])
           | Some data \<Rightarrow> if mg_publisher m then (write_ok data, [Published data]) else (True, []))"

definition IsFromSameProcess :: "ChangeMsg \<Rightarrow> ('c, 'z) Manager_scheme \<Rightarrow> bool" where
  "IsFromSameProcess msg m =
     (let host_name = pb_get [] (ra_host_name (cm_role_attr msg)); process_id = pb_get 0 (ra_process_id (cm_role_attr msg))
      in if process_id \<noteq> mg_process_id m \<or> host_name \<noteq> mg_host_name m then False else True)"

text \<open>The template methods over the virtual \<open>Check\<close> and \<open>Dispose\<close>.\<close>

type_synonym ('c, 'w, 'm) disposer = "ChangeMsg \<Rightarrow> 'm \<Rightarrow> 'm \<times> ('c, 'w) topo_event list"

definition role_allowed :: "RoleType \<Rightarrow> ('c, 'z) Manager_scheme \<Rightarrow> bool" where
  "role_allowed role m \<longleftrightarrow> bit (mg_allowed_role m) (role_number role)"

definition Manager_Join ::
    "(RoleAttributes \<Rightarrow> bool) \<Rightarrow> ('c, 'w, ('c, 'z) Manager_scheme) disposer \<Rightarrow> (ChangeMsg \<Rightarrow> 'w option) \<Rightarrow> ('w \<Rightarrow> bool) \<Rightarrow>
     nat \<Rightarrow> RoleAttributes \<Rightarrow> RoleType \<Rightarrow> bool \<Rightarrow> ('c, 'z) Manager_scheme \<Rightarrow>
     bool \<times> ('c, 'z) Manager_scheme \<times> ('c, 'w) topo_event list" where
  "Manager_Join check dispose serialize write_ok now attr role need_publish m =
     (if mg_is_shutdown m then (False, m, [])
      else if \<not> role_allowed role m then (False, m, [])
      else if \<not> check attr then (False, m, [])
      else let msg = Manager_Convert now attr role OPT_JOIN m; (m', evs) = dispose msg m
           in if need_publish
              then (let (ok, evs') = Manager_Publish serialize write_ok msg m' in (ok, m', evs @ evs'))
              else (True, m', evs))"

definition Manager_Leave ::
    "(RoleAttributes \<Rightarrow> bool) \<Rightarrow> ('c, 'w, ('c, 'z) Manager_scheme) disposer \<Rightarrow> (ChangeMsg \<Rightarrow> 'w option) \<Rightarrow> ('w \<Rightarrow> bool) \<Rightarrow>
     nat \<Rightarrow> RoleAttributes \<Rightarrow> RoleType \<Rightarrow> ('c, 'z) Manager_scheme \<Rightarrow>
     bool \<times> ('c, 'z) Manager_scheme \<times> ('c, 'w) topo_event list" where
  "Manager_Leave check dispose serialize write_ok now attr role m =
     (if mg_is_shutdown m then (False, m, [])
      else if \<not> role_allowed role m then (False, m, [])
      else if \<not> check attr then (False, m, [])
      else let msg = Manager_Convert now attr role OPT_LEAVE m; (m', evs) = dispose msg m
           in if NeedPublish msg
              then (let (ok, evs') = Manager_Publish serialize write_ok msg m' in (ok, m', evs @ evs'))
              else (True, m', evs))"

definition OnRemoteChange ::
    "(RoleAttributes \<Rightarrow> bool) \<Rightarrow> ('c, 'w, ('c, 'z) Manager_scheme) disposer \<Rightarrow> ('w \<Rightarrow> ChangeMsg option) \<Rightarrow> 'w \<Rightarrow>
     ('c, 'z) Manager_scheme \<Rightarrow> ('c, 'z) Manager_scheme \<times> ('c, 'w) topo_event list" where
  "OnRemoteChange check dispose parse msg_str m =
     (if mg_is_shutdown m then (m, [])
      else case parse msg_str of
             None \<Rightarrow> (m, [])
           | Some msg \<Rightarrow>
               if IsFromSameProcess msg m then (m, [])
               else if \<not> check (cm_role_attr msg) then (m, [])
               else dispose msg m)"

text \<open>\<open>Dispose\<close> has the same shape in all three managers.\<close>

definition Manager_Dispose ::
    "('c, 'w, ('c, 'z) Manager_scheme) disposer \<Rightarrow> ('c, 'w, ('c, 'z) Manager_scheme) disposer \<Rightarrow>
     ('c, 'w, ('c, 'z) Manager_scheme) disposer" where
  "Manager_Dispose join leave msg m =
     (let (m1, evs) = (if cm_operate_type msg = OPT_JOIN then join msg m else leave msg m);
          (m2, evs') = Manager_Notify msg m1
      in (m2, evs @ evs'))"

text \<open>The loop that converts and announces the departure of several roles.\<close>

fun notify_leaves ::
    "nat \<Rightarrow> RoleType \<Rightarrow> Role list \<Rightarrow> ('c, 'z) Manager_scheme \<Rightarrow> ('c, 'z) Manager_scheme \<times> ('c, 'w) topo_event list" where
  "notify_leaves now role [] m = (m, [])"
| "notify_leaves now role (r # rs) m =
     (let (m1, evs) = Manager_Notify (Manager_Convert now (ro_attributes r) role OPT_LEAVE m) m;
          (m2, evs') = notify_leaves now role rs m1
      in (m2, evs @ evs'))"

definition process_attr :: "string \<Rightarrow> int \<Rightarrow> RoleAttributes" where
  "process_attr host_name process_id =
     \<lparr>ra_host_name = Some host_name, ra_process_id = Some process_id, ra_node_id = None, ra_channel_id = None,
      ra_service_id = None, ra_id = None, ra_node_name = None, ra_channel_name = None, ra_message_type = None,
      ra_proto_desc = None, ra_service_name = None\<rparr>"

section \<open>The manager of nodes\<close>

record 'c NodeManager = "'c Manager" +
  nm_nodes :: role_map

definition NodeManager_ctor :: "string \<Rightarrow> int \<Rightarrow> 'c NodeManager" where
  "NodeManager_ctor host_name process_id =
     Manager.extend
       ((Manager_ctor host_name process_id)\<lparr>mg_allowed_role := 0 OR 2 ^ role_number ROLE_NODE,
          mg_change_type := CHANGE_NODE, mg_channel_name := ''node_change_broadcast''\<rparr>)
       (NodeManager.fields [])"

definition HasNode :: "(string \<Rightarrow> nat) \<Rightarrow> string \<Rightarrow> 'c NodeManager \<Rightarrow> bool" where
  "HasNode register_node node_name m = Single_Search_key (register_node node_name) (nm_nodes m)"

definition GetNodes :: "'c NodeManager \<Rightarrow> RoleAttributes list \<Rightarrow> RoleAttributes list" where
  "GetNodes m out = Single_GetAllRoles_attrs (nm_nodes m) out"

definition NodeManager_Check :: "RoleAttributes \<Rightarrow> bool" where
  "NodeManager_Check attr =
     (if ra_node_name attr = None then False else if ra_node_id attr = None then False else True)"

definition role_of :: "RoleKind \<Rightarrow> ChangeMsg \<Rightarrow> Role" where
  "role_of kind msg = \<lparr>ro_kind = kind, ro_attributes = cm_role_attr msg, ro_timestamp_ns = cm_timestamp msg\<rparr>"

definition NodeManager_DisposeJoin :: "('c, 'w, 'c NodeManager) disposer" where
  "NodeManager_DisposeJoin msg m =
     (let node = role_of RoleNode msg; key = pb_get 0 (ra_node_id (ro_attributes node));
          (ok, nodes) = Single_Add key node False (nm_nodes m)
      in if ok then (m\<lparr>nm_nodes := nodes\<rparr>, [])
         else case Single_Search_key_role key (nm_nodes m) of
                None \<Rightarrow> (m\<lparr>nm_nodes := snd (Single_Add key node True (nm_nodes m))\<rparr>, [])
              | Some existing_node \<Rightarrow>
                  (let (newer_node, nodes') =
                         (if Role_IsEarlierThan node existing_node
                          then (existing_node, snd (Single_Add key node True (nm_nodes m)))
                          else (node, nm_nodes m))
                   in (m\<lparr>nm_nodes := nodes'\<rparr>,
                       if pb_get 0 (ra_process_id (ro_attributes newer_node)) = mg_process_id m \<and>
                          pb_get [] (ra_host_name (ro_attributes newer_node)) = mg_host_name m
                       then [Async_shutdown] else [])))"

definition NodeManager_DisposeLeave :: "('c, 'w, 'c NodeManager) disposer" where
  "NodeManager_DisposeLeave msg m =
     (m\<lparr>nm_nodes := Single_Remove_key (pb_get 0 (ra_node_id (cm_role_attr msg))) (nm_nodes m)\<rparr>, [])"

definition NodeManager_Dispose :: "('c, 'w, 'c NodeManager) disposer" where
  "NodeManager_Dispose = Manager_Dispose NodeManager_DisposeJoin NodeManager_DisposeLeave"

definition NodeManager_OnTopoModuleLeave ::
    "nat \<Rightarrow> string \<Rightarrow> int \<Rightarrow> 'c NodeManager \<Rightarrow> 'c NodeManager \<times> ('c, 'w) topo_event list" where
  "NodeManager_OnTopoModuleLeave now host_name process_id m =
     (if \<not> mg_is_discovery_started m then (m, [])
      else let nodes_to_remove = snd (Single_Search_target_roles (process_attr host_name process_id) (nm_nodes m) []);
               m1 = m\<lparr>nm_nodes :=
                 fold (\<lambda>node. Single_Remove_key (pb_get 0 (ra_node_id (ro_attributes node)))) nodes_to_remove (nm_nodes m)\<rparr>
           in notify_leaves now ROLE_NODE nodes_to_remove m1)"

section \<open>The manager of services\<close>

record 'c ServiceManager = "'c Manager" +
  sm_servers :: role_map
  sm_clients :: role_map

definition ServiceManager_ctor :: "string \<Rightarrow> int \<Rightarrow> 'c ServiceManager" where
  "ServiceManager_ctor host_name process_id =
     Manager.extend
       ((Manager_ctor host_name process_id)\<lparr>
          mg_allowed_role := (0 OR 2 ^ role_number ROLE_SERVER) OR 2 ^ role_number ROLE_CLIENT,
          mg_change_type := CHANGE_SERVICE, mg_channel_name := ''service_change_broadcast''\<rparr>)
       (ServiceManager.fields [] [])"

definition HasService :: "(string \<Rightarrow> nat) \<Rightarrow> string \<Rightarrow> 'c ServiceManager \<Rightarrow> bool" where
  "HasService hash service_name m = Single_Search_key (hash service_name) (sm_servers m)"

definition GetServers :: "'c ServiceManager \<Rightarrow> RoleAttributes list \<Rightarrow> RoleAttributes list" where
  "GetServers m out = Single_GetAllRoles_attrs (sm_servers m) out"

definition GetClients ::
    "(string \<Rightarrow> nat) \<Rightarrow> string \<Rightarrow> 'c ServiceManager \<Rightarrow> RoleAttributes list \<Rightarrow> RoleAttributes list" where
  "GetClients hash service_name m out = snd (Multi_Search_key_attrs (hash service_name) (sm_clients m) out)"

definition ServiceManager_Check :: "RoleAttributes \<Rightarrow> bool" where
  "ServiceManager_Check attr =
     (if ra_service_name attr = None then False else if ra_service_id attr = None then False else True)"

definition server_role :: "RoleAttributes \<Rightarrow> Role" where
  "server_role attr = \<lparr>ro_kind = RoleServer, ro_attributes = attr, ro_timestamp_ns = 0\<rparr>"

definition service_key :: "Role \<Rightarrow> nat" where
  "service_key r = pb_get 0 (ra_service_id (ro_attributes r))"

definition ServiceManager_DisposeJoin :: "('c, 'w, 'c ServiceManager) disposer" where
  "ServiceManager_DisposeJoin msg m =
     (let role = server_role (cm_role_attr msg)
      in if cm_role_type msg = ROLE_SERVER
         then (m\<lparr>sm_servers := snd (Single_Add (service_key role) role True (sm_servers m))\<rparr>, [])
         else (m\<lparr>sm_clients := snd (Multi_Add (service_key role) role True (sm_clients m))\<rparr>, []))"

definition ServiceManager_DisposeLeave :: "('c, 'w, 'c ServiceManager) disposer" where
  "ServiceManager_DisposeLeave msg m =
     (let role = server_role (cm_role_attr msg)
      in if cm_role_type msg = ROLE_SERVER
         then (m\<lparr>sm_servers := Single_Remove_key (service_key role) (sm_servers m)\<rparr>, [])
         else (m\<lparr>sm_clients := Multi_Remove_role (service_key role) role (sm_clients m)\<rparr>, []))"

definition ServiceManager_Dispose :: "('c, 'w, 'c ServiceManager) disposer" where
  "ServiceManager_Dispose = Manager_Dispose ServiceManager_DisposeJoin ServiceManager_DisposeLeave"

definition ServiceManager_OnTopoModuleLeave ::
    "nat \<Rightarrow> string \<Rightarrow> int \<Rightarrow> 'c ServiceManager \<Rightarrow> 'c ServiceManager \<times> ('c, 'w) topo_event list" where
  "ServiceManager_OnTopoModuleLeave now host_name process_id m =
     (if \<not> mg_is_discovery_started m then (m, [])
      else let attr = process_attr host_name process_id;
               servers_to_remove = snd (Single_Search_target_roles attr (sm_servers m) []);
               m1 = m\<lparr>sm_servers := fold (\<lambda>s. Single_Remove_key (service_key s)) servers_to_remove (sm_servers m)\<rparr>;
               clients_to_remove = snd (Multi_Search_target_roles attr (sm_clients m1) []);
               m2 = m1\<lparr>sm_clients := fold (\<lambda>c. Multi_Remove_role (service_key c) c) clients_to_remove (sm_clients m1)\<rparr>;
               (m3, evs) = notify_leaves now ROLE_SERVER servers_to_remove m2;
               (m4, evs') = notify_leaves now ROLE_CLIENT clients_to_remove m3
           in (m4, evs @ evs'))"

section \<open>The manager of channels\<close>

record 'c ChannelManager = "'c Manager" +
  chm_exempted_msg_types :: "string list"
  chm_node_graph :: Graph
  chm_node_writers :: role_map
  chm_node_readers :: role_map
  chm_channel_writers :: role_map
  chm_channel_readers :: role_map

definition ChannelManager_ctor :: "string \<Rightarrow> int \<Rightarrow> string list \<Rightarrow> 'c ChannelManager" where
  "ChannelManager_ctor host_name process_id exempted =
     Manager.extend
       ((Manager_ctor host_name process_id)\<lparr>
          mg_allowed_role := (0 OR 2 ^ role_number ROLE_WRITER) OR 2 ^ role_number ROLE_READER,
          mg_change_type := CHANGE_CHANNEL, mg_channel_name := ''channel_change_broadcast''\<rparr>)
       (ChannelManager.fields exempted Graph_ctor [] [] [] [])"

text \<open>
  Queries. \<open>register_channel\<close> and \<open>register_node\<close> are the identifiers of \<open>GlobalData\<close>, which stay the same once a name is
  registered. The sets of names built on the way (\<open>std::unordered_set\<close>, \<open>std::unordered_map\<close>) are lists without
  duplicates.
\<close>

definition GetChannelNames :: "'c ChannelManager \<Rightarrow> string list" where
  "GetChannelNames m =
     (let roles = Multi_GetAllRoles (chm_channel_readers m) (Multi_GetAllRoles (chm_channel_writers m) [])
      in remdups (map (\<lambda>role. pb_get [] (ra_channel_name (ro_attributes role))) roles))"

definition GetProtoDesc :: "(string \<Rightarrow> nat) \<Rightarrow> string \<Rightarrow> 'c ChannelManager \<Rightarrow> string \<Rightarrow> string" where
  "GetProtoDesc register_channel channel_name m proto_desc =
     (case Multi_Search_key_role (register_channel channel_name) (chm_channel_writers m) of
        None \<Rightarrow> proto_desc
      | Some writer \<Rightarrow> (case ra_proto_desc (ro_attributes writer) of None \<Rightarrow> proto_desc | Some d \<Rightarrow> d))"

definition GetMsgType :: "(string \<Rightarrow> nat) \<Rightarrow> string \<Rightarrow> 'c ChannelManager \<Rightarrow> string \<Rightarrow> string" where
  "GetMsgType register_channel channel_name m msg_type =
     (case Multi_Search_key_role (register_channel channel_name) (chm_channel_writers m) of
        None \<Rightarrow> msg_type
      | Some writer \<Rightarrow> (case ra_message_type (ro_attributes writer) of None \<Rightarrow> msg_type | Some t \<Rightarrow> t))"

definition HasWriter :: "(string \<Rightarrow> nat) \<Rightarrow> string \<Rightarrow> 'c ChannelManager \<Rightarrow> bool" where
  "HasWriter register_channel channel_name m = Multi_Search_key (register_channel channel_name) (chm_channel_writers m)"

definition GetWriters :: "'c ChannelManager \<Rightarrow> RoleAttributes list \<Rightarrow> RoleAttributes list" where
  "GetWriters m out = Multi_GetAllRoles_attrs (chm_channel_writers m) out"

definition GetWritersOfNode ::
    "(string \<Rightarrow> nat) \<Rightarrow> string \<Rightarrow> 'c ChannelManager \<Rightarrow> RoleAttributes list \<Rightarrow> RoleAttributes list" where
  "GetWritersOfNode register_node node_name m out =
     snd (Multi_Search_key_attrs (register_node node_name) (chm_node_writers m) out)"

definition GetWritersOfChannel ::
    "(string \<Rightarrow> nat) \<Rightarrow> string \<Rightarrow> 'c ChannelManager \<Rightarrow> RoleAttributes list \<Rightarrow> RoleAttributes list" where
  "GetWritersOfChannel register_channel channel_name m out =
     snd (Multi_Search_key_attrs (register_channel channel_name) (chm_channel_writers m) out)"

definition HasReader :: "(string \<Rightarrow> nat) \<Rightarrow> string \<Rightarrow> 'c ChannelManager \<Rightarrow> bool" where
  "HasReader register_channel channel_name m = Multi_Search_key (register_channel channel_name) (chm_channel_readers m)"

definition GetReaders :: "'c ChannelManager \<Rightarrow> RoleAttributes list \<Rightarrow> RoleAttributes list" where
  "GetReaders m out = Multi_GetAllRoles_attrs (chm_channel_readers m) out"

definition GetReadersOfNode ::
    "(string \<Rightarrow> nat) \<Rightarrow> string \<Rightarrow> 'c ChannelManager \<Rightarrow> RoleAttributes list \<Rightarrow> RoleAttributes list" where
  "GetReadersOfNode register_node node_name m out =
     snd (Multi_Search_key_attrs (register_node node_name) (chm_node_readers m) out)"

definition GetReadersOfChannel ::
    "(string \<Rightarrow> nat) \<Rightarrow> string \<Rightarrow> 'c ChannelManager \<Rightarrow> RoleAttributes list \<Rightarrow> RoleAttributes list" where
  "GetReadersOfChannel register_channel channel_name m out =
     snd (Multi_Search_key_attrs (register_channel channel_name) (chm_channel_readers m) out)"

text \<open>The map from node names to the attributes of the node, where a later entry replaces an earlier one.\<close>

definition node_attr :: "RoleAttributes \<Rightarrow> RoleAttributes" where
  "node_attr a =
     (process_attr (pb_get [] (ra_host_name a)) (pb_get 0 (ra_process_id a)))\<lparr>
       ra_node_name := Some (pb_get [] (ra_node_name a)), ra_node_id := Some (pb_get 0 (ra_node_id a))\<rparr>"

definition nodes_of :: "RoleAttributes list \<Rightarrow> (string \<times> RoleAttributes) list" where
  "nodes_of roles =
     fold (\<lambda>a nodes. AList.update (pb_get [] (ra_node_name (node_attr a))) (node_attr a) nodes) roles []"

definition GetUpstreamOfNode ::
    "(string \<Rightarrow> nat) \<Rightarrow> (string \<Rightarrow> nat) \<Rightarrow> string \<Rightarrow> 'c ChannelManager \<Rightarrow> RoleAttributes list \<Rightarrow> RoleAttributes list" where
  "GetUpstreamOfNode register_node register_channel node_name m upstream_nodes =
     (let readers = GetReadersOfNode register_node node_name m []
      in if readers = [] then upstream_nodes
         else let channels = remdups (map (\<lambda>reader. pb_get [] (ra_channel_name reader)) readers);
                  writers = fold (\<lambda>channel. GetWritersOfChannel register_channel channel m) channels []
              in upstream_nodes @ map snd (nodes_of writers))"

definition GetDownstreamOfNode ::
    "(string \<Rightarrow> nat) \<Rightarrow> (string \<Rightarrow> nat) \<Rightarrow> string \<Rightarrow> 'c ChannelManager \<Rightarrow> RoleAttributes list \<Rightarrow> RoleAttributes list" where
  "GetDownstreamOfNode register_node register_channel node_name m downstream_nodes =
     (let writers = GetWritersOfNode register_node node_name m []
      in if writers = [] then downstream_nodes
         else let channels = remdups (map (\<lambda>writer. pb_get [] (ra_channel_name writer)) writers);
                  readers = fold (\<lambda>channel. GetReadersOfChannel register_channel channel m) channels []
              in downstream_nodes @ map snd (nodes_of readers))"

definition GetFlowDirection :: "string \<Rightarrow> string \<Rightarrow> 'c ChannelManager \<Rightarrow> FlowDirection" where
  "GetFlowDirection lhs_node_name rhs_node_name m = Graph_GetDirectionOf lhs_node_name rhs_node_name (chm_node_graph m)"

definition IsMessageTypeMatching :: "string \<Rightarrow> string \<Rightarrow> 'c ChannelManager \<Rightarrow> bool" where
  "IsMessageTypeMatching lhs rhs m =
     (if lhs = rhs then True
      else if lhs \<in> set (chm_exempted_msg_types m) then True
      else if rhs \<in> set (chm_exempted_msg_types m) then True
      else False)"

definition ChannelManager_Check :: "RoleAttributes \<Rightarrow> bool" where
  "ChannelManager_Check attr =
     (if ra_channel_name attr = None then False
      else if ra_channel_id attr = None then False
      else if ra_id attr = None then False
      else True)"

text \<open>\<open>ScanMessageType\<close> only reports; its events are the roles whose type does not match.\<close>

definition ScanMessageType :: "ChangeMsg \<Rightarrow> 'c ChannelManager \<Rightarrow> ('c, 'w) topo_event list" where
  "ScanMessageType msg m =
     (let key = pb_get 0 (ra_channel_id (cm_role_attr msg)); ty = pb_get [] (ra_message_type (cm_role_attr msg));
          existed_writers = snd (Multi_Search_key_attrs key (chm_channel_writers m) []);
          existed_readers = snd (Multi_Search_key_attrs key (chm_channel_readers m) []);
          report = (\<lambda>as. map Type_mismatch
            (filter (\<lambda>a. \<not> IsMessageTypeMatching ty (pb_get [] (ra_message_type a)) m) as))
      in report existed_writers @ report existed_readers)"

definition node_key :: "Role \<Rightarrow> nat" where
  "node_key r = pb_get 0 (ra_node_id (ro_attributes r))"

definition channel_key :: "Role \<Rightarrow> nat" where
  "channel_key r = pb_get 0 (ra_channel_id (ro_attributes r))"

definition change_edge :: "ChangeMsg \<Rightarrow> Edge" where
  "change_edge msg =
     (let v = pb_get [] (ra_node_name (cm_role_attr msg)); e_v = pb_get [] (ra_channel_name (cm_role_attr msg))
      in if cm_role_type msg = ROLE_WRITER then \<lparr>e_src = v, e_dst = [], e_value = e_v\<rparr>
         else \<lparr>e_src = [], e_dst = v, e_value = e_v\<rparr>)"

definition ChannelManager_DisposeJoin :: "('c, 'w, 'c ChannelManager) disposer" where
  "ChannelManager_DisposeJoin msg m =
     (let scan = ScanMessageType msg m; role = role_of RoleWriter msg
      in if cm_role_type msg = ROLE_WRITER
         then (let desc = pb_get [] (ra_proto_desc (cm_role_attr msg));
                   reg = (if ra_proto_desc (cm_role_attr msg) \<noteq> None \<and> desc \<noteq> [] then [Register_message desc] else [])
               in (m\<lparr>chm_node_writers := snd (Multi_Add (node_key role) role True (chm_node_writers m)),
                    chm_channel_writers := snd (Multi_Add (channel_key role) role True (chm_channel_writers m)),
                    chm_node_graph := Graph_Insert (change_edge msg) (chm_node_graph m)\<rparr>, scan @ reg))
         else (m\<lparr>chm_node_readers := snd (Multi_Add (node_key role) role True (chm_node_readers m)),
                 chm_channel_readers := snd (Multi_Add (channel_key role) role True (chm_channel_readers m)),
                 chm_node_graph := Graph_Insert (change_edge msg) (chm_node_graph m)\<rparr>, scan))"

definition ChannelManager_DisposeLeave :: "('c, 'w, 'c ChannelManager) disposer" where
  "ChannelManager_DisposeLeave msg m =
     (let role = \<lparr>ro_kind = RoleWriter, ro_attributes = cm_role_attr msg, ro_timestamp_ns = 0\<rparr>
      in if cm_role_type msg = ROLE_WRITER
         then (m\<lparr>chm_node_writers := Multi_Remove_role (node_key role) role (chm_node_writers m),
                 chm_channel_writers := Multi_Remove_role (channel_key role) role (chm_channel_writers m),
                 chm_node_graph := Graph_Delete (change_edge msg) (chm_node_graph m)\<rparr>, [])
         else (m\<lparr>chm_node_readers := Multi_Remove_role (node_key role) role (chm_node_readers m),
                 chm_channel_readers := Multi_Remove_role (channel_key role) role (chm_channel_readers m),
                 chm_node_graph := Graph_Delete (change_edge msg) (chm_node_graph m)\<rparr>, []))"

definition ChannelManager_Dispose :: "('c, 'w, 'c ChannelManager) disposer" where
  "ChannelManager_Dispose = Manager_Dispose ChannelManager_DisposeJoin ChannelManager_DisposeLeave"

fun channel_leaves ::
    "nat \<Rightarrow> RoleType \<Rightarrow> Role list \<Rightarrow> 'c ChannelManager \<Rightarrow> 'c ChannelManager \<times> ('c, 'w) topo_event list" where
  "channel_leaves now role [] m = (m, [])"
| "channel_leaves now role (r # rs) m =
     (let msg = Manager_Convert now (ro_attributes r) role OPT_LEAVE m;
          (m1, evs1) = ChannelManager_DisposeLeave msg m;
          (m2, evs2) = Manager_Notify msg m1;
          (m3, evs3) = channel_leaves now role rs m2
      in (m3, evs1 @ evs2 @ evs3))"

definition ChannelManager_OnTopoModuleLeave ::
    "nat \<Rightarrow> string \<Rightarrow> int \<Rightarrow> 'c ChannelManager \<Rightarrow> 'c ChannelManager \<times> ('c, 'w) topo_event list" where
  "ChannelManager_OnTopoModuleLeave now host_name process_id m =
     (if \<not> mg_is_discovery_started m then (m, [])
      else let attr = process_attr host_name process_id;
               writers_to_remove = snd (Multi_Search_target_roles attr (chm_channel_writers m) []);
               readers_to_remove = snd (Multi_Search_target_roles attr (chm_channel_readers m) []);
               (m1, evs) = channel_leaves now ROLE_WRITER writers_to_remove m;
               (m2, evs') = channel_leaves now ROLE_READER readers_to_remove m1
           in (m2, evs @ evs'))"

end
