(* ===== verification/Topology_System.thy ===== *)
theory Topology_System
  imports Topology_Manager "HOL-Library.Multiset"
begin

text \<open>
  What the topology managers promise. The locale \<open>topo_manager\<close> says that the tables of a manager depend on the changes
  alone; it is interpreted on the managers of nodes, services and channels and gives the replication of the tables by
  another process. Then: duplicated nodes, the agreement of the channel graph with the warehouses, and the departure of
  a process.
\<close>

section \<open>Changes that travel between two processes\<close>

datatype local_op = Join_op nat RoleAttributes RoleType | Leave_op nat RoleAttributes RoleType

fun local_step ::
    "(RoleAttributes \<Rightarrow> bool) \<Rightarrow> ('c, 'w, ('c, 'z) Manager_scheme) disposer \<Rightarrow> (ChangeMsg \<Rightarrow> 'w option) \<Rightarrow> ('w \<Rightarrow> bool) \<Rightarrow>
     local_op \<Rightarrow> ('c, 'z) Manager_scheme \<Rightarrow> ('c, 'z) Manager_scheme \<times> ('c, 'w) topo_event list" where
  "local_step check dispose serialize write_ok (Join_op now attr role) m =
     snd (Manager_Join check dispose serialize write_ok now attr role True m)"
| "local_step check dispose serialize write_ok (Leave_op now attr role) m =
     snd (Manager_Leave check dispose serialize write_ok now attr role m)"

fun local_run ::
    "(RoleAttributes \<Rightarrow> bool) \<Rightarrow> ('c, 'w, ('c, 'z) Manager_scheme) disposer \<Rightarrow> (ChangeMsg \<Rightarrow> 'w option) \<Rightarrow> ('w \<Rightarrow> bool) \<Rightarrow>
     local_op list \<Rightarrow> ('c, 'z) Manager_scheme \<Rightarrow> ('c, 'z) Manager_scheme \<times> ('c, 'w) topo_event list" where
  "local_run check dispose serialize write_ok [] m = (m, [])"
| "local_run check dispose serialize write_ok (op # ops) m =
     (let (m1, evs) = local_step check dispose serialize write_ok op m;
          (m2, evs') = local_run check dispose serialize write_ok ops m1
      in (m2, evs @ evs'))"

fun published :: "('c, 'w) topo_event list \<Rightarrow> 'w list" where
  "published [] = []"
| "published (Published w # evs) = w # published evs"
| "published (_ # evs) = published evs"

definition receive_all ::
    "(RoleAttributes \<Rightarrow> bool) \<Rightarrow> ('c, 'w, ('c, 'z) Manager_scheme) disposer \<Rightarrow> ('w \<Rightarrow> ChangeMsg option) \<Rightarrow> 'w list \<Rightarrow>
     ('c, 'z) Manager_scheme \<Rightarrow> ('c, 'z) Manager_scheme" where
  "receive_all check dispose parse ws m = fold (\<lambda>w m. fst (OnRemoteChange check dispose parse w m)) ws m"

lemma published_append [simp]: "published (evs @ evs') = published evs @ published evs'"
  by (induction evs rule: published.induct) simp_all

text \<open>The role belongs to the process of the manager.\<close>

fun own_op :: "('c, 'z) Manager_scheme \<Rightarrow> local_op \<Rightarrow> bool" where
  "own_op m (Join_op now attr role) \<longleftrightarrow>
     ra_host_name attr \<in> {None, Some (mg_host_name m)} \<and> ra_process_id attr \<in> {None, Some (mg_process_id m)}"
| "own_op m (Leave_op now attr role) \<longleftrightarrow>
     ra_host_name attr \<in> {None, Some (mg_host_name m)} \<and> ra_process_id attr \<in> {None, Some (mg_process_id m)}"

text \<open>The part of the base class that \<open>Dispose\<close> leaves alone.\<close>

definition base_of :: "('c, 'z) Manager_scheme \<Rightarrow> bool \<times> bool \<times> nat \<times> ChangeType \<times> string \<times> int \<times> bool" where
  "base_of m = (mg_is_shutdown m, mg_is_discovery_started m, mg_allowed_role m, mg_change_type m, mg_host_name m,
     mg_process_id m, mg_publisher m)"

lemma base_of_eqD:
  assumes "base_of m = base_of m'"
  shows "mg_is_shutdown m = mg_is_shutdown m'" "mg_is_discovery_started m = mg_is_discovery_started m'"
    "mg_allowed_role m = mg_allowed_role m'" "mg_host_name m = mg_host_name m'" "mg_process_id m = mg_process_id m'"
    "mg_publisher m = mg_publisher m'"
  using assms by (simp_all add: base_of_def)

definition speaking :: "('c, 'z) Manager_scheme \<Rightarrow> bool" where
  "speaking m \<longleftrightarrow> \<not> mg_is_shutdown m \<and> mg_is_discovery_started m \<and> mg_publisher m"

locale topo_manager =
  fixes check :: "RoleAttributes \<Rightarrow> bool"
    and dispose :: "ChangeMsg \<Rightarrow> ('c, 'z) Manager_scheme \<Rightarrow> ('c, 'z) Manager_scheme \<times> ('c, 'w) topo_event list"
    and tables :: "('c, 'z) Manager_scheme \<Rightarrow> 's" and step :: "ChangeMsg \<Rightarrow> 's \<Rightarrow> 's"
  assumes dispose_tables: "tables (fst (dispose msg m)) = step msg (tables m)"
    and dispose_base: "base_of (fst (dispose msg m)) = base_of m"
    and dispose_silent: "published (snd (dispose msg m)) = []"
    and check_process: "check (attr\<lparr>ra_host_name := h, ra_process_id := p\<rparr>) = check attr"
begin

lemma check_Convert: "check (cm_role_attr (Manager_Convert now attr role opt m)) = check attr"
proof -
  have "cm_role_attr (Manager_Convert now attr role opt m) =
      attr\<lparr>ra_host_name := Some (pb_get (mg_host_name m) (ra_host_name attr)),
        ra_process_id := Some (pb_get (mg_process_id m) (ra_process_id attr))\<rparr>"
    by (cases attr) (auto simp: Manager_Convert_def pb_get_def Let_def split: option.splits)
  then show ?thesis using check_process by simp
qed

text \<open>A local change is refused without effect, or applied and published.\<close>

lemma Join_effect:
  assumes "speaking m"
  shows "(tables (fst (snd (Manager_Join check dispose serialize write_ok now attr role True m))) =
      (if role_allowed role m \<and> check attr then step (Manager_Convert now attr role OPT_JOIN m) (tables m) else tables m)) \<and>
    base_of (fst (snd (Manager_Join check dispose serialize write_ok now attr role True m))) = base_of m \<and>
    published (snd (snd (Manager_Join check dispose serialize write_ok now attr role True m))) =
      (if role_allowed role m \<and> check attr then
         (case serialize (Manager_Convert now attr role OPT_JOIN m) of None \<Rightarrow> [] | Some w \<Rightarrow> [w]) else [])"
proof -
  have "mg_is_discovery_started (fst (dispose msg m))" "mg_publisher (fst (dispose msg m))" for msg
    using base_of_eqD [OF dispose_base, of msg m] assms by (simp_all add: speaking_def)
  then show ?thesis
    using assms dispose_silent dispose_tables dispose_base
    by (auto simp: Manager_Join_def speaking_def Let_def case_prod_beta Manager_Publish_def split: option.splits)
qed

lemma Leave_effect:
  assumes "speaking m"
  shows "(tables (fst (snd (Manager_Leave check dispose serialize write_ok now attr role m))) =
      (if role_allowed role m \<and> check attr then step (Manager_Convert now attr role OPT_LEAVE m) (tables m) else tables m)) \<and>
    base_of (fst (snd (Manager_Leave check dispose serialize write_ok now attr role m))) = base_of m \<and>
    published (snd (snd (Manager_Leave check dispose serialize write_ok now attr role m))) =
      (if role_allowed role m \<and> check attr then
         (case serialize (Manager_Convert now attr role OPT_LEAVE m) of None \<Rightarrow> [] | Some w \<Rightarrow> [w]) else [])"
proof -
  have "mg_is_discovery_started (fst (dispose msg m))" "mg_publisher (fst (dispose msg m))" for msg
    using base_of_eqD [OF dispose_base, of msg m] assms by (simp_all add: speaking_def)
  then show ?thesis
    using assms dispose_silent dispose_tables dispose_base
    by (auto simp: Manager_Leave_def NeedPublish_def speaking_def Let_def case_prod_beta Manager_Publish_def split: option.splits)
qed

lemma remote_effect:
  assumes "parse w = Some msg" and "\<not> mg_is_shutdown r" and "\<not> IsFromSameProcess msg r" and "check (cm_role_attr msg)"
  shows "tables (fst (OnRemoteChange check dispose parse w r)) = step msg (tables r) \<and>
    base_of (fst (OnRemoteChange check dispose parse w r)) = base_of r"
  using assms dispose_tables dispose_base by (simp add: OnRemoteChange_def)

end

lemma Convert_other_process:
  assumes "ra_host_name attr \<in> {None, Some (mg_host_name s)}" "ra_process_id attr \<in> {None, Some (mg_process_id s)}"
    and "(mg_host_name s, mg_process_id s) \<noteq> (mg_host_name r, mg_process_id r)"
  shows "\<not> IsFromSameProcess (Manager_Convert now attr role opt s) r"
  using assms by (auto simp: IsFromSameProcess_def Manager_Convert_def pb_get_def Let_def)

lemma own_op_base: "base_of m = base_of m' \<Longrightarrow> own_op m op = own_op m' op"
  by (cases op) (auto simp: base_of_def)

lemma role_allowed_base: "base_of m = base_of m' \<Longrightarrow> role_allowed role m = role_allowed role m'"
  by (simp add: base_of_def role_allowed_def)

lemma speaking_base: "base_of m = base_of m' \<Longrightarrow> speaking m = speaking m'"
  by (simp add: base_of_def speaking_def)

context topo_manager
begin

lemma step_replicated:
  assumes "tables s = tables r" and "speaking s" and "\<not> mg_is_shutdown r" and "own_op s op"
    and other: "(mg_host_name s, mg_process_id s) \<noteq> (mg_host_name r, mg_process_id r)"
    and codec: "\<And>msg. \<exists>w. serialize msg = Some w \<and> parse w = Some msg"
  shows "let (s', evs) = local_step check dispose serialize write_ok op s; r' = receive_all check dispose parse (published evs) r
    in tables s' = tables r' \<and> base_of s' = base_of s \<and> base_of r' = base_of r"
proof -
  have remote: "tables (receive_all check dispose parse (case serialize msg of None \<Rightarrow> [] | Some w \<Rightarrow> [w]) r) = step msg (tables r) \<and>
      base_of (receive_all check dispose parse (case serialize msg of None \<Rightarrow> [] | Some w \<Rightarrow> [w]) r) = base_of r"
    if "\<not> IsFromSameProcess msg r" "check (cm_role_attr msg)" for msg
  proof -
    obtain w where w: "serialize msg = Some w" "parse w = Some msg" using codec by blast
    show ?thesis using remote_effect [where parse = parse and w = w, OF w(2) assms(3) that] w(1) by (simp add: receive_all_def)
  qed
  show ?thesis
  proof (cases op)
    case (Join_op now attr role)
    let ?msg = "Manager_Convert now attr role OPT_JOIN s"
    have "\<not> IsFromSameProcess ?msg r"
      using assms(4) Join_op by (intro Convert_other_process [OF _ _ other]) simp_all
    then show ?thesis
      using remote [of ?msg] Join_effect [OF assms(2), of serialize write_ok now attr role] assms(1) Join_op
      by (auto simp: Let_def case_prod_beta check_Convert receive_all_def)
  next
    case (Leave_op now attr role)
    let ?msg = "Manager_Convert now attr role OPT_LEAVE s"
    have "\<not> IsFromSameProcess ?msg r"
      using assms(4) Leave_op by (intro Convert_other_process [OF _ _ other]) simp_all
    then show ?thesis
      using remote [of ?msg] Leave_effect [OF assms(2), of serialize write_ok now attr role] assms(1) Leave_op
      by (auto simp: Let_def case_prod_beta check_Convert receive_all_def)
  qed
qed

lemma run_replicated:
  assumes "tables s = tables r" and "speaking s" and "\<not> mg_is_shutdown r" and "\<forall>op \<in> set ops. own_op s op"
    and "(mg_host_name s, mg_process_id s) \<noteq> (mg_host_name r, mg_process_id r)"
    and "\<And>msg. \<exists>w. serialize msg = Some w \<and> parse w = Some msg"
  shows "tables (receive_all check dispose parse (published (snd (local_run check dispose serialize write_ok ops s))) r) =
    tables (fst (local_run check dispose serialize write_ok ops s))"
  using assms
proof (induction ops arbitrary: s r)
  case (Cons op ops)
  obtain s' evs where step: "local_step check dispose serialize write_ok op s = (s', evs)" by force
  let ?r = "receive_all check dispose parse (published evs) r"
  have "own_op s op" using Cons.prems(4) by simp
  note one = step_replicated [OF Cons.prems(1-3) this Cons.prems(5,6), of write_ok, unfolded step Let_def prod.case]
  have s: "base_of s' = base_of s" and r: "base_of ?r = base_of r" using one by simp_all
  have "tables (receive_all check dispose parse (published (snd (local_run check dispose serialize write_ok ops s'))) ?r) =
      tables (fst (local_run check dispose serialize write_ok ops s'))"
    using one Cons.prems(2-5) speaking_base [OF s] own_op_base [OF s] base_of_eqD [OF s] base_of_eqD [OF r]
    by (intro Cons.IH Cons.prems(6)) auto
  then show ?case using step by (simp add: case_prod_beta receive_all_def)
qed (simp add: receive_all_def)

end

section \<open>The three managers\<close>

lemma published_map [simp]:
  "published (map (\<lambda>c. Listener_called c msg) cs) = []" "published (map Type_mismatch as) = []"
  by (induction cs, simp_all) (induction as, simp_all)

lemma Notify_fst: "fst (Manager_Notify msg m) = m\<lparr>mg_signal := fst (Signal_emit log_call (mg_signal m, []))\<rparr>"
  by (simp add: Manager_Notify_def case_prod_beta)

lemma Notify_published [simp]: "published (snd (Manager_Notify msg m)) = []"
  by (simp add: Manager_Notify_def case_prod_beta)

lemma Dispose_fst:
  "fst (Manager_Dispose join leave msg m) =
     (let m' = fst (if cm_operate_type msg = OPT_JOIN then join msg m else leave msg m)
      in m'\<lparr>mg_signal := fst (Signal_emit log_call (mg_signal m', []))\<rparr>)"
  by (simp add: Manager_Dispose_def case_prod_beta Let_def Notify_fst)

lemma Dispose_published:
  "published (snd (Manager_Dispose join leave msg m)) =
     published (snd (if cm_operate_type msg = OPT_JOIN then join msg m else leave msg m))"
  by (simp add: Manager_Dispose_def case_prod_beta Let_def)

lemma base_of_signal [simp]: "base_of (m\<lparr>mg_signal := sg\<rparr>) = base_of m"
  by (simp add: base_of_def)

text \<open>The effect of a change on the tables.\<close>

definition node_step :: "ChangeMsg \<Rightarrow> role_map \<Rightarrow> role_map" where
  "node_step msg nodes =
     (let node = role_of RoleNode msg; key = pb_get 0 (ra_node_id (cm_role_attr msg))
      in if cm_operate_type msg = OPT_JOIN
         then (case map_of nodes key of
                 None \<Rightarrow> AList.update key node nodes
               | Some e \<Rightarrow> if Role_IsEarlierThan node e then AList.update key node nodes else nodes)
         else AList.delete key nodes)"

lemma DisposeJoin_nodes:
  "nm_nodes (fst (NodeManager_DisposeJoin msg m)) =
     (let node = role_of RoleNode msg; key = pb_get 0 (ra_node_id (cm_role_attr msg))
      in case map_of (nm_nodes m) key of
           None \<Rightarrow> AList.update key node (nm_nodes m)
         | Some e \<Rightarrow> if Role_IsEarlierThan node e then AList.update key node (nm_nodes m) else nm_nodes m)"
  by (auto simp: NodeManager_DisposeJoin_def Single_Add_def Single_Search_key_role_def Let_def role_of_def case_prod_beta
      split: option.splits)

lemma DisposeJoin_base:
  "base_of (fst (NodeManager_DisposeJoin msg m)) = base_of m" "published (snd (NodeManager_DisposeJoin msg m)) = []"
  by (auto simp: NodeManager_DisposeJoin_def base_of_def Let_def case_prod_beta split: option.splits)

interpretation node: topo_manager NodeManager_Check NodeManager_Dispose nm_nodes node_step
proof (unfold_locales, goal_cases)
  case (1 msg m)
  show ?case
    by (simp add: NodeManager_Dispose_def Dispose_fst DisposeJoin_nodes node_step_def NodeManager_DisposeLeave_def
        Single_Remove_key_def Let_def)
next
  case (2 msg m)
  show ?case
    by (simp add: NodeManager_Dispose_def Dispose_fst DisposeJoin_base NodeManager_DisposeLeave_def Let_def)
      (simp add: base_of_def)
next
  case (3 msg m)
  show ?case
    by (simp add: NodeManager_Dispose_def Dispose_published DisposeJoin_base NodeManager_DisposeLeave_def)
next
  case (4 attr h p)
  show ?case by (simp add: NodeManager_Check_def)
qed

definition service_step :: "ChangeMsg \<Rightarrow> role_map \<times> role_map \<Rightarrow> role_map \<times> role_map" where
  "service_step msg t =
     (let role = server_role (cm_role_attr msg); key = service_key role
      in if cm_role_type msg = ROLE_SERVER
         then (if cm_operate_type msg = OPT_JOIN then AList.update key role (fst t) else AList.delete key (fst t), snd t)
         else (fst t, if cm_operate_type msg = OPT_JOIN then snd t @ [(key, role)] else Multi_Remove_role key role (snd t)))"

lemmas service_dispose_defs = ServiceManager_Dispose_def Dispose_fst ServiceManager_DisposeJoin_def
  ServiceManager_DisposeLeave_def

interpretation service: topo_manager ServiceManager_Check ServiceManager_Dispose "\<lambda>m. (sm_servers m, sm_clients m)" service_step
proof (unfold_locales, goal_cases)
  case (1 msg m)
  show ?case
    by (simp add: service_dispose_defs service_step_def Let_def Single_Add_def Multi_Add_def Single_Remove_key_def)
next
  case (2 msg m)
  show ?case by (simp add: service_dispose_defs Let_def) (simp add: base_of_def)
next
  case (3 msg m)
  show ?case by (simp add: service_dispose_defs Dispose_published Let_def)
next
  case (4 attr h p)
  show ?case by (simp add: ServiceManager_Check_def)
qed

record channel_tables =
  ct_graph :: Graph
  ct_node_writers :: role_map
  ct_node_readers :: role_map
  ct_channel_writers :: role_map
  ct_channel_readers :: role_map

definition tables_of :: "'c ChannelManager \<Rightarrow> channel_tables" where
  "tables_of m = \<lparr>ct_graph = chm_node_graph m, ct_node_writers = chm_node_writers m, ct_node_readers = chm_node_readers m,
     ct_channel_writers = chm_channel_writers m, ct_channel_readers = chm_channel_readers m\<rparr>"

definition channel_step :: "ChangeMsg \<Rightarrow> channel_tables \<Rightarrow> channel_tables" where
  "channel_step msg t =
     (if cm_operate_type msg = OPT_JOIN
      then (let role = role_of RoleWriter msg; g = Graph_Insert (change_edge msg) (ct_graph t)
            in if cm_role_type msg = ROLE_WRITER
               then t\<lparr>ct_graph := g, ct_node_writers := ct_node_writers t @ [(node_key role, role)],
                      ct_channel_writers := ct_channel_writers t @ [(channel_key role, role)]\<rparr>
               else t\<lparr>ct_graph := g, ct_node_readers := ct_node_readers t @ [(node_key role, role)],
                      ct_channel_readers := ct_channel_readers t @ [(channel_key role, role)]\<rparr>)
      else (let role = \<lparr>ro_kind = RoleWriter, ro_attributes = cm_role_attr msg, ro_timestamp_ns = 0\<rparr>;
                g = Graph_Delete (change_edge msg) (ct_graph t)
            in if cm_role_type msg = ROLE_WRITER
               then t\<lparr>ct_graph := g, ct_node_writers := Multi_Remove_role (node_key role) role (ct_node_writers t),
                      ct_channel_writers := Multi_Remove_role (channel_key role) role (ct_channel_writers t)\<rparr>
               else t\<lparr>ct_graph := g, ct_node_readers := Multi_Remove_role (node_key role) role (ct_node_readers t),
                      ct_channel_readers := Multi_Remove_role (channel_key role) role (ct_channel_readers t)\<rparr>))"

lemmas channel_dispose_defs = ChannelManager_Dispose_def Dispose_fst ChannelManager_DisposeJoin_def
  ChannelManager_DisposeLeave_def

lemma ScanMessageType_silent: "published (ScanMessageType msg m) = []"
  by (simp add: ScanMessageType_def Let_def)

interpretation channel: topo_manager ChannelManager_Check ChannelManager_Dispose tables_of channel_step
proof (unfold_locales, goal_cases)
  case (1 msg m)
  show ?case by (simp add: channel_dispose_defs channel_step_def tables_of_def Let_def Multi_Add_def)
next
  case (2 msg m)
  show ?case by (simp add: channel_dispose_defs Let_def) (simp add: base_of_def)
next
  case (3 msg m)
  show ?case by (simp add: channel_dispose_defs Dispose_published Let_def ScanMessageType_silent)
next
  case (4 attr h p)
  show ?case by (simp add: ChannelManager_Check_def)
qed

section \<open>Duplicated nodes\<close>

definition nodes_after :: "ChangeMsg list \<Rightarrow> 'c NodeManager \<Rightarrow> 'c NodeManager" where
  "nodes_after msgs m = fold (\<lambda>msg m. fst (NodeManager_DisposeJoin msg m :: _ \<times> ('c, unit) topo_event list)) msgs m"

definition node_id_of :: "ChangeMsg \<Rightarrow> nat" where
  "node_id_of msg = pb_get 0 (ra_node_id (cm_role_attr msg))"

text \<open>The table of the manager as a map: a join keeps the earlier of the roles with its identifier.\<close>

definition keep_earlier :: "ChangeMsg \<Rightarrow> (nat \<Rightarrow> Role option) \<Rightarrow> nat \<Rightarrow> Role option" where
  "keep_earlier msg t = t(node_id_of msg \<mapsto>
     (case t (node_id_of msg) of
        None \<Rightarrow> role_of RoleNode msg
      | Some e \<Rightarrow> if cm_timestamp msg < ro_timestamp_ns e then role_of RoleNode msg else e))"

lemma keep_earlier_apply:
  "keep_earlier msg t k = (if k = node_id_of msg then
     Some (case t k of None \<Rightarrow> role_of RoleNode msg
           | Some e \<Rightarrow> if cm_timestamp msg < ro_timestamp_ns e then role_of RoleNode msg else e) else t k)"
  by (simp add: keep_earlier_def)

lemma DisposeJoin_keep_earlier:
  "map_of (nm_nodes (fst (NodeManager_DisposeJoin msg m))) = keep_earlier msg (map_of (nm_nodes m))"
  by (auto simp: DisposeJoin_nodes keep_earlier_def node_id_of_def Role_IsEarlierThan_def role_of_def Let_def update_conv'
      split: option.splits)

lemma nodes_after_map: "map_of (nm_nodes (nodes_after msgs m)) = fold keep_earlier msgs (map_of (nm_nodes m))"
  unfolding nodes_after_def by (induction msgs arbitrary: m) (simp_all add: DisposeJoin_keep_earlier)

lemma role_timestamp [simp]: "ro_timestamp_ns (role_of k msg) = cm_timestamp msg"
  by (simp add: role_of_def)

lemma keep_earlier_commute:
  assumes "cm_timestamp a \<noteq> cm_timestamp b"
  shows "keep_earlier a \<circ> keep_earlier b = keep_earlier b \<circ> keep_earlier a"
proof (rule ext)
  fix t
  show "(keep_earlier a \<circ> keep_earlier b) t = (keep_earlier b \<circ> keep_earlier a) t"
  proof (cases "node_id_of a = node_id_of b")
    case True
    then show ?thesis
      using assms by (cases "t (node_id_of b)") (auto simp: keep_earlier_def)
  next
    case False
    then show ?thesis by (auto simp: keep_earlier_def fun_upd_twist)
  qed
qed

lemma keep_earlier_fold_permute:
  assumes "mset xs = mset ys" and "distinct (map cm_timestamp xs)"
  shows "fold keep_earlier xs = fold keep_earlier ys"
proof (rule fold_multiset_equiv [OF _ assms(1)])
  fix a b assume ab: "a \<in> set xs" "b \<in> set xs"
  show "keep_earlier a \<circ> keep_earlier b = keep_earlier b \<circ> keep_earlier a"
  proof (cases "a = b")
    case False
    then have "cm_timestamp a \<noteq> cm_timestamp b" using ab assms(2) by (auto simp: distinct_map inj_on_def)
    then show ?thesis by (rule keep_earlier_commute)
  qed simp
qed

lemma keep_earlier_fold:
  assumes "t k = None"
  shows "case fold keep_earlier msgs t k of
      None \<Rightarrow> \<forall>msg \<in> set msgs. node_id_of msg \<noteq> k
    | Some r \<Rightarrow> \<exists>msg \<in> set msgs. r = role_of RoleNode msg \<and> node_id_of msg = k \<and>
        (\<forall>msg' \<in> set msgs. node_id_of msg' = k \<longrightarrow> cm_timestamp msg \<le> cm_timestamp msg')"
proof (induction msgs rule: rev_induct)
  case Nil
  show ?case using assms by simp
next
  case (snoc a msgs)
  define T where "T = fold keep_earlier msgs t"
  have fold_eq: "fold keep_earlier (msgs @ [a]) t = keep_earlier a T" by (simp add: T_def)
  note IH = snoc [folded T_def]
  show ?case
  proof (cases "node_id_of a = k")
    case True
    show ?thesis
    proof (cases "T k")
      case None
      then have "\<forall>msg \<in> set msgs. node_id_of msg \<noteq> k" using IH by simp
      then show ?thesis using True None unfolding fold_eq by (auto simp: keep_earlier_apply)
    next
      case (Some r)
      then obtain msg where msg: "msg \<in> set msgs" "r = role_of RoleNode msg" "node_id_of msg = k"
          "\<forall>msg' \<in> set msgs. node_id_of msg' = k \<longrightarrow> cm_timestamp msg \<le> cm_timestamp msg'"
        using IH by auto
      let ?new = "if cm_timestamp a < cm_timestamp msg then a else msg"
      have "keep_earlier a T k = Some (role_of RoleNode ?new)"
        using True Some msg(2) by (simp add: keep_earlier_apply)
      moreover have "?new \<in> set (msgs @ [a])" "node_id_of ?new = k" using msg True by simp_all
      moreover have "\<forall>msg' \<in> set (msgs @ [a]). node_id_of msg' = k \<longrightarrow> cm_timestamp ?new \<le> cm_timestamp msg'"
        using msg(4) by fastforce
      ultimately show ?thesis unfolding fold_eq by auto
    qed
  next
    case False
    then show ?thesis
      using IH unfolding fold_eq by (cases "T k") (auto simp: keep_earlier_apply)
  qed
qed

section \<open>Claims on replication and duplicates\<close>

text \<open>
  C22: Another process replicates the channel tables: whatever roles a process lets join and leave, once another process has received
  everything the first one published, in order, its graph and its four warehouses are those of the first. Serialization must
  be faithful; refused operations change nothing on either side.
\<close>

theorem ChannelManager_replicated:
  fixes s r :: "'c ChannelManager"
  assumes "tables_of s = tables_of r" and "speaking s" and "\<not> mg_is_shutdown r" and "\<forall>op \<in> set ops. own_op s op"
    and "(mg_host_name s, mg_process_id s) \<noteq> (mg_host_name r, mg_process_id r)"
    and "\<And>msg. \<exists>w. serialize msg = Some w \<and> parse w = Some msg"
  shows "tables_of (receive_all ChannelManager_Check ChannelManager_Dispose parse
      (published (snd (local_run ChannelManager_Check ChannelManager_Dispose serialize write_ok ops s))) r) =
    tables_of (fst (local_run ChannelManager_Check ChannelManager_Dispose serialize write_ok ops s))"
  by (rule channel.run_replicated [OF assms(1-5)]) (rule assms(6))

text \<open>A process with discovery running.\<close>

definition started_channels :: "int \<Rightarrow> unit ChannelManager" where
  "started_channels pid = (ChannelManager_ctor ''host'' pid [])\<lparr>mg_is_discovery_started := True, mg_publisher := True\<rparr>"

definition writer_attr :: "string \<Rightarrow> string \<Rightarrow> nat \<Rightarrow> RoleAttributes" where
  "writer_attr node channel ident =
     \<lparr>ra_host_name = None, ra_process_id = None, ra_node_id = Some (length node), ra_channel_id = Some (length channel),
      ra_service_id = None, ra_id = Some ident, ra_node_name = Some node, ra_channel_name = Some channel,
      ra_message_type = None, ra_proto_desc = None, ra_service_name = None\<rparr>"

theorem ChannelManager_replicated_witness:
  "tables_of (receive_all ChannelManager_Check ChannelManager_Dispose Some
      (published (snd (local_run ChannelManager_Check ChannelManager_Dispose Some (\<lambda>_. True)
        [Join_op 5 (writer_attr ''a'' ''ch'' 1) ROLE_WRITER] (started_channels 1)))) (started_channels 2)) =
    tables_of (fst (local_run ChannelManager_Check ChannelManager_Dispose Some (\<lambda>_. True)
        [Join_op 5 (writer_attr ''a'' ''ch'' 1) ROLE_WRITER] (started_channels 1)))"
  by (rule ChannelManager_replicated)
    (simp_all add: started_channels_def ChannelManager_ctor_def Manager_ctor_def ChannelManager.defs tables_of_def
      speaking_def writer_attr_def Manager.defs)

text \<open>
  Managers that see the same joining nodes in different orders agree, if no two of them carry the same time stamp: each
  keeps, for every identifier, the role that joined first, whichever message came first.
\<close>

theorem duplicate_nodes_agree:
  assumes "mset msgs = mset msgs'" and "distinct (map cm_timestamp msgs)" and "nm_nodes m = []" and "nm_nodes m' = []"
  shows "Single_Search_key_role k (nm_nodes (nodes_after msgs m)) = Single_Search_key_role k (nm_nodes (nodes_after msgs' m')) \<and>
    (case Single_Search_key_role k (nm_nodes (nodes_after msgs m)) of
       None \<Rightarrow> \<forall>msg \<in> set msgs. node_id_of msg \<noteq> k
     | Some r \<Rightarrow> \<exists>msg \<in> set msgs. r = role_of RoleNode msg \<and> node_id_of msg = k \<and>
         (\<forall>msg' \<in> set msgs. node_id_of msg' = k \<longrightarrow> cm_timestamp msg \<le> cm_timestamp msg'))"
  using keep_earlier_fold [of "map_of []" k msgs] keep_earlier_fold_permute [OF assms(1,2)] assms(3,4)
  by (simp add: Single_Search_key_role_def nodes_after_map)

definition node_msg :: "nat \<Rightarrow> int \<Rightarrow> nat \<Rightarrow> ChangeMsg" where
  "node_msg now pid ident =
     \<lparr>cm_timestamp = now, cm_change_type = CHANGE_NODE, cm_operate_type = OPT_JOIN, cm_role_type = ROLE_NODE,
      cm_role_attr = (process_attr ''host'' pid)\<lparr>ra_node_id := Some ident, ra_node_name := Some ''n''\<rparr>\<rparr>"

theorem duplicate_nodes_agree_witness:
  "Single_Search_key_role 7 (nm_nodes (nodes_after [node_msg 10 1 7, node_msg 20 2 7] (NodeManager_ctor ''host'' 1 :: unit NodeManager))) =
   Single_Search_key_role 7 (nm_nodes (nodes_after [node_msg 20 2 7, node_msg 10 1 7] (NodeManager_ctor ''host'' 2 :: unit NodeManager)))"
  using duplicate_nodes_agree [of "[node_msg 10 1 7, node_msg 20 2 7]" "[node_msg 20 2 7, node_msg 10 1 7]"
      "NodeManager_ctor ''host'' 1 :: unit NodeManager" "NodeManager_ctor ''host'' 2 :: unit NodeManager" 7]
  by (simp add: node_msg_def NodeManager_ctor_def NodeManager.defs Manager.defs add_mset_commute)

text \<open>
  Of two processes that start a node with the same identifier, each hearing of the other's after its own, exactly the one whose
  node joined later shuts down; with equal time stamps neither does, and each keeps its own node.
\<close>

theorem duplicate_node_later_process_leaves:
  fixes ma mb :: "'c NodeManager"
  assumes "nm_nodes ma = []" and "nm_nodes mb = []" and "node_id_of a = node_id_of b"
    and "ra_host_name (cm_role_attr a) = Some (mg_host_name ma)" "ra_process_id (cm_role_attr a) = Some (mg_process_id ma)"
    and "ra_host_name (cm_role_attr b) = Some (mg_host_name mb)" "ra_process_id (cm_role_attr b) = Some (mg_process_id mb)"
    and "(mg_host_name ma, mg_process_id ma) \<noteq> (mg_host_name mb, mg_process_id mb)"
  shows "(Async_shutdown \<in> set (snd (NodeManager_DisposeJoin b (nodes_after [a] ma) :: _ \<times> ('c, 'w) topo_event list)) \<longleftrightarrow>
      cm_timestamp b < cm_timestamp a) \<and>
    (Async_shutdown \<in> set (snd (NodeManager_DisposeJoin a (nodes_after [b] mb) :: _ \<times> ('c, 'w) topo_event list)) \<longleftrightarrow>
      cm_timestamp a < cm_timestamp b) \<and>
    (Single_Search_key_role (node_id_of a) (nm_nodes (nodes_after [a, b] ma)) =
       Single_Search_key_role (node_id_of a) (nm_nodes (nodes_after [b, a] mb)) \<longleftrightarrow>
     cm_timestamp a \<noteq> cm_timestamp b)"
proof -
  have one: "nodes_after [x] m = m\<lparr>nm_nodes := [(node_id_of x, role_of RoleNode x)]\<rparr>" if "nm_nodes m = []" for x and m :: "'c NodeManager"
    using that
    by (simp add: nodes_after_def NodeManager_DisposeJoin_def Single_Add_def node_id_of_def role_of_def Let_def)
  have down: "Async_shutdown \<in> set (snd (NodeManager_DisposeJoin y (nodes_after [x] m) :: _ \<times> ('c, 'w) topo_event list)) \<longleftrightarrow>
      cm_timestamp y < cm_timestamp x"
    if "nm_nodes m = []" "node_id_of x = node_id_of y"
      "ra_host_name (cm_role_attr x) = Some (mg_host_name m)" "ra_process_id (cm_role_attr x) = Some (mg_process_id m)"
      "pb_get [] (ra_host_name (cm_role_attr y)) \<noteq> mg_host_name m \<or> pb_get 0 (ra_process_id (cm_role_attr y)) \<noteq> mg_process_id m"
    for x y and m :: "'c NodeManager"
    using that unfolding one [OF that(1)]
    by (auto simp: NodeManager_DisposeJoin_def Single_Add_def Single_Search_key_role_def node_id_of_def role_of_def
        Role_IsEarlierThan_def pb_get_def Let_def)
  have kept: "Single_Search_key_role (node_id_of x) (nm_nodes (nodes_after [x, y] m)) =
      Some (role_of RoleNode (if cm_timestamp y < cm_timestamp x then y else x))"
    if "nm_nodes m = []" "node_id_of x = node_id_of y" for x y and m :: "'c NodeManager"
    using that by (simp add: Single_Search_key_role_def nodes_after_map keep_earlier_def)
  have "a \<noteq> b" using assms(4-8) by auto
  then have "cm_timestamp a = cm_timestamp b \<Longrightarrow> role_of RoleNode a \<noteq> role_of RoleNode b"
    using assms(4-8) by (auto simp: role_of_def)
  then show ?thesis
    using down [of ma a b] down [of mb b a] kept [of ma a b] kept [of mb b a] assms
    by (auto simp: pb_get_def)
qed

theorem duplicate_node_later_process_leaves_witness:
  "Async_shutdown \<in> set (snd (NodeManager_DisposeJoin (node_msg 10 1 7)
     (nodes_after [node_msg 20 2 7] (NodeManager_ctor ''host'' 2)) :: unit NodeManager \<times> (unit, unit) topo_event list))"
proof -
  let ?a = "node_msg 10 1 7" and ?b = "node_msg 20 2 7"
  have "(Async_shutdown \<in> set (snd (NodeManager_DisposeJoin ?a
     (nodes_after [?b] (NodeManager_ctor ''host'' 2)) :: unit NodeManager \<times> (unit, unit) topo_event list))) =
     (cm_timestamp ?a < cm_timestamp ?b)"
    by (rule duplicate_node_later_process_leaves [where ma = "NodeManager_ctor ''host'' 1", THEN conjunct2, THEN conjunct1])
      (simp_all add: node_msg_def process_attr_def node_id_of_def NodeManager_ctor_def Manager_ctor_def NodeManager.defs Manager.defs)
  then show ?thesis by (simp add: node_msg_def)
qed

section \<open>The roles behind the channel tables\<close>

text \<open>
  The four warehouses hold the same writers and readers under two keys, as long as the attributes that identify a role are set.
\<close>

definition full_attr :: "RoleAttributes \<Rightarrow> bool" where
  "full_attr a \<longleftrightarrow> ra_host_name a \<noteq> None \<and> ra_process_id a \<noteq> None \<and> ra_node_id a \<noteq> None \<and> ra_channel_id a \<noteq> None \<and>
     ra_id a \<noteq> None \<and> ra_node_name a \<noteq> None \<and> ra_channel_name a \<noteq> None"

definition channel_role :: "Role \<Rightarrow> bool" where
  "channel_role r \<longleftrightarrow> ro_kind r = RoleWriter \<and> full_attr (ro_attributes r)"

definition keyed_by :: "(Role \<Rightarrow> nat) \<Rightarrow> Role list \<Rightarrow> role_map" where
  "keyed_by key L = map (\<lambda>r. (key r, r)) L"

definition roles_rep :: "channel_tables \<Rightarrow> Role list \<times> Role list \<Rightarrow> bool" where
  "roles_rep t L \<longleftrightarrow> ct_node_writers t = keyed_by node_key (fst L) \<and> ct_channel_writers t = keyed_by channel_key (fst L) \<and>
     ct_node_readers t = keyed_by node_key (snd L) \<and> ct_channel_readers t = keyed_by channel_key (snd L) \<and>
     (\<forall>r \<in> set (fst L @ snd L). channel_role r)"

definition roles_change :: "ChangeMsg \<Rightarrow> Role list \<Rightarrow> Role list" where
  "roles_change msg L = (if cm_operate_type msg = OPT_JOIN then L @ [role_of RoleWriter msg]
     else filter (\<lambda>r. \<not> Role_Match (cm_role_attr msg) r) L)"

definition roles_step :: "ChangeMsg \<Rightarrow> Role list \<times> Role list \<Rightarrow> Role list \<times> Role list" where
  "roles_step msg L = (if cm_role_type msg = ROLE_WRITER then (roles_change msg (fst L), snd L)
     else (fst L, roles_change msg (snd L)))"

lemma Match_iff:
  assumes "full_attr a" and "ro_kind r = RoleWriter"
  shows "Role_Match a r \<longleftrightarrow> channel_key r = the (ra_channel_id a) \<and> pb_get 0 (ra_id (ro_attributes r)) = the (ra_id a) \<and>
    node_key r = the (ra_node_id a) \<and> pb_get 0 (ra_process_id (ro_attributes r)) = the (ra_process_id a) \<and>
    pb_get [] (ra_host_name (ro_attributes r)) = the (ra_host_name a)"
  using assms
  by (auto simp: Role_Match_def RoleWriter_Match_def RoleBase_Match_def pb_matches_def full_attr_def channel_key_def
      node_key_def pb_get_def)

lemma Remove_keyed:
  assumes "full_attr (ro_attributes role)" and "\<forall>r \<in> set L. ro_kind r = RoleWriter"
    and key: "key = node_key \<or> key = channel_key"
  shows "Multi_Remove_role (key role) role (keyed_by key L) = keyed_by key (filter (\<lambda>r. \<not> Role_Match (ro_attributes role) r) L)"
proof -
  have "key r = key role" if "r \<in> set L" "Role_Match (ro_attributes role) r" for r
    using that assms Match_iff [of "ro_attributes role" r] by (auto simp: full_attr_def node_key_def channel_key_def pb_get_def)
  then have "filter (\<lambda>r. \<not> (key r = key role \<and> Role_Match (ro_attributes role) r)) L =
      filter (\<lambda>r. \<not> Role_Match (ro_attributes role) r) L"
    by (intro filter_cong) auto
  then show ?thesis
    by (simp add: Multi_Remove_role_def erase_loop_filter keyed_by_def filter_map o_def)
qed

lemma roles_rep_step:
  assumes "roles_rep t L" and "full_attr (cm_role_attr msg)"
  shows "roles_rep (channel_step msg t) (roles_step msg L)"
proof -
  let ?role = "\<lparr>ro_kind = RoleWriter, ro_attributes = cm_role_attr msg, ro_timestamp_ns = 0\<rparr>"
  have k: "\<forall>r \<in> set (fst L). ro_kind r = RoleWriter" "\<forall>r \<in> set (snd L). ro_kind r = RoleWriter"
    using assms(1) by (auto simp: roles_rep_def channel_role_def)
  have new: "channel_role (role_of RoleWriter msg)" using assms(2) by (simp add: channel_role_def role_of_def)
  have remove: "Multi_Remove_role (key ?role) ?role (keyed_by key l) =
      keyed_by key (filter (\<lambda>r. \<not> Role_Match (cm_role_attr msg) r) l)"
    if "key = node_key \<or> key = channel_key" "l = fst L \<or> l = snd L" for key l
    using Remove_keyed [of ?role l key] assms(2) k that by auto
  have add: "keyed_by key (l @ [r]) = keyed_by key l @ [(key r, r)]" for key l r by (simp add: keyed_by_def)
  show ?thesis
    using assms(1) new
    by (auto simp: roles_rep_def channel_step_def roles_step_def roles_change_def add remove Let_def)
qed

section \<open>The graph and the warehouses\<close>

abbreviation node_name_of :: "RoleAttributes \<Rightarrow> string" where
  "node_name_of a \<equiv> pb_get [] (ra_node_name a)"

abbreviation channel_name_of :: "RoleAttributes \<Rightarrow> string" where
  "channel_name_of a \<equiv> pb_get [] (ra_channel_name a)"

text \<open>
  An orderly history: names and identifiers belong together, a node has at most one writer and one reader of a channel at a time,
  a role leaves with the attributes it joined with, and the name of a reading node has no underscore.
\<close>

definition same_place :: "RoleAttributes \<Rightarrow> Role \<Rightarrow> bool" where
  "same_place a r \<longleftrightarrow> node_name_of (ro_attributes r) = node_name_of a \<and> channel_name_of (ro_attributes r) = channel_name_of a"

definition ids_agree :: "RoleAttributes \<Rightarrow> Role list \<Rightarrow> bool" where
  "ids_agree a L \<longleftrightarrow> (\<forall>r \<in> set L.
     (channel_key r = the (ra_channel_id a) \<longrightarrow> channel_name_of (ro_attributes r) = channel_name_of a) \<and>
     (node_key r = the (ra_node_id a) \<longrightarrow> node_name_of (ro_attributes r) = node_name_of a))"

definition change_orderly :: "ChangeMsg \<Rightarrow> Role list \<Rightarrow> bool" where
  "change_orderly msg L \<longleftrightarrow> (let a = cm_role_attr msg in
     full_attr a \<and> node_name_of a \<noteq> [] \<and> channel_name_of a \<noteq> [] \<and>
     (cm_role_type msg \<noteq> ROLE_WRITER \<longrightarrow> CHR ''_'' \<notin> set (node_name_of a)) \<and> ids_agree a L \<and>
     (if cm_operate_type msg = OPT_JOIN then (\<forall>r \<in> set L. \<not> same_place a r) else (\<exists>r \<in> set L. ro_attributes r = a)))"

fun orderly :: "ChangeMsg list \<Rightarrow> Role list \<times> Role list \<Rightarrow> bool" where
  "orderly [] L = True"
| "orderly (msg # msgs) L =
     (change_orderly msg (if cm_role_type msg = ROLE_WRITER then fst L else snd L) \<and> orderly msgs (roles_step msg L))"

definition change_op :: "ChangeMsg \<Rightarrow> graph_op" where
  "change_op msg = (if cm_operate_type msg = OPT_JOIN then Ins (change_edge msg) else Del (change_edge msg))"

definition nodes_on :: "Role list \<Rightarrow> string \<Rightarrow> string set" where
  "nodes_on L ch = {node_name_of (ro_attributes r) | r. r \<in> set L \<and> channel_name_of (ro_attributes r) = ch}"

definition places_distinct :: "Role list \<Rightarrow> bool" where
  "places_distinct L \<longleftrightarrow> (\<forall>r \<in> set L. \<forall>r' \<in> set L. same_place (ro_attributes r) r' \<longrightarrow> r' = r) \<and>
     (\<forall>r \<in> set L. channel_role r \<and> node_name_of (ro_attributes r) \<noteq> [])"

lemma nodes_on_change:
  assumes "change_orderly msg L" and "places_distinct L"
  shows "nodes_on (roles_change msg L) = (nodes_on L)(channel_name_of (cm_role_attr msg) :=
      (if cm_operate_type msg = OPT_JOIN
       then nodes_on L (channel_name_of (cm_role_attr msg)) \<union> {node_name_of (cm_role_attr msg)}
       else nodes_on L (channel_name_of (cm_role_attr msg)) - {node_name_of (cm_role_attr msg)}))"
    and "places_distinct (roles_change msg L)"
proof -
  let ?a = "cm_role_attr msg"
  have full: "full_attr ?a" and ids: "ids_agree ?a L" using assms(1) by (simp_all add: change_orderly_def Let_def)
  have leave: "Role_Match ?a r \<longleftrightarrow> same_place ?a r" if op: "cm_operate_type msg \<noteq> OPT_JOIN" and r: "r \<in> set L" for r
  proof
    assume "Role_Match ?a r"
    moreover have "ro_kind r = RoleWriter" using assms(2) r by (simp add: places_distinct_def channel_role_def)
    ultimately have "channel_key r = the (ra_channel_id ?a)" "node_key r = the (ra_node_id ?a)"
      using Match_iff [OF full] by auto
    then show "same_place ?a r" using ids r by (simp add: ids_agree_def same_place_def)
  next
    assume s: "same_place ?a r"
    obtain r0 where r0: "r0 \<in> set L" "ro_attributes r0 = ?a"
      using assms(1) op by (auto simp: change_orderly_def Let_def)
    then have "r = r0" using s r assms(2) unfolding places_distinct_def by metis
    then show "Role_Match ?a r" using r0(2) Role_Match_self [of r] by simp
  qed
  have eq: "roles_change msg L = (if cm_operate_type msg = OPT_JOIN then L @ [role_of RoleWriter msg]
      else filter (\<lambda>r. \<not> same_place ?a r) L)"
    using leave by (auto simp: roles_change_def intro: filter_cong)
  show "nodes_on (roles_change msg L) = (nodes_on L)(channel_name_of ?a :=
      (if cm_operate_type msg = OPT_JOIN then nodes_on L (channel_name_of ?a) \<union> {node_name_of ?a}
       else nodes_on L (channel_name_of ?a) - {node_name_of ?a}))"
    unfolding eq by (auto simp: nodes_on_def same_place_def role_of_def fun_eq_iff intro: exI [of _ "role_of RoleWriter msg"])
  show "places_distinct (roles_change msg L)"
  proof (cases "cm_operate_type msg = OPT_JOIN")
    case True
    then have "\<forall>r \<in> set L. \<not> same_place ?a r" using assms(1) by (simp add: change_orderly_def Let_def)
    moreover have "node_name_of ?a \<noteq> []" using assms(1) by (simp add: change_orderly_def Let_def)
    ultimately show ?thesis
      using True assms(2) full unfolding eq
      by (auto simp: places_distinct_def same_place_def channel_role_def role_of_def)
  next
    case False
    then show ?thesis using assms(2) unfolding eq by (auto simp: places_distinct_def)
  qed
qed

lemma change_op_channels:
  assumes "change_orderly msg (if cm_role_type msg = ROLE_WRITER then fst L else snd L)"
    and "places_distinct (fst L)" and "places_distinct (snd L)"
  shows "ch_run [change_op msg] (nodes_on (fst L), nodes_on (snd L)) =
      (nodes_on (fst (roles_step msg L)), nodes_on (snd (roles_step msg L)))"
    and "plain_ops [change_op msg]"
proof -
  let ?a = "cm_role_attr msg"
  have ne: "node_name_of ?a \<noteq> []" "channel_name_of ?a \<noteq> []"
    and plain: "cm_role_type msg \<noteq> ROLE_WRITER \<Longrightarrow> CHR ''_'' \<notin> set (node_name_of ?a)"
    using assms(1) by (simp_all add: change_orderly_def Let_def)
  have nonempty: "nodes_on M ch - {[]} = nodes_on M ch" if "places_distinct M" for M ch
    using that by (auto simp: places_distinct_def nodes_on_def)
  show "plain_ops [change_op msg]"
    using plain by (auto simp: change_op_def change_edge_def Let_def)
  show "ch_run [change_op msg] (nodes_on (fst L), nodes_on (snd L)) =
      (nodes_on (fst (roles_step msg L)), nodes_on (snd (roles_step msg L)))"
  proof (cases "cm_role_type msg = ROLE_WRITER")
    case True
    then show ?thesis
      using ne assms nodes_on_change(1) [of msg "fst L"] nonempty [OF assms(3)]
      by (auto simp: change_op_def change_edge_def ch_insert_def ch_delete_def Edge_IsValid_def roles_step_def Let_def)
  next
    case False
    then show ?thesis
      using ne assms nodes_on_change(1) [of msg "snd L"] nonempty [OF assms(2)]
      by (auto simp: change_op_def change_edge_def ch_insert_def ch_delete_def Edge_IsValid_def roles_step_def Let_def)
  qed
qed

lemma orderly_run:
  assumes "orderly msgs L" and "places_distinct (fst L)" and "places_distinct (snd L)" and "roles_rep t L"
  shows "let L' = fold roles_step msgs L; t' = fold channel_step msgs t in
    roles_rep t' L' \<and> ct_graph t' = graph_run (map change_op msgs) (ct_graph t) \<and> plain_ops (map change_op msgs) \<and>
    ch_run (map change_op msgs) (nodes_on (fst L), nodes_on (snd L)) = (nodes_on (fst L'), nodes_on (snd L'))"
  using assms
proof (induction msgs arbitrary: L t)
  case (Cons msg msgs)
  let ?L = "roles_step msg L" and ?t = "channel_step msg t"
  have o: "change_orderly msg (if cm_role_type msg = ROLE_WRITER then fst L else snd L)" and o': "orderly msgs ?L"
    using Cons.prems(1) by simp_all
  have p: "places_distinct (fst ?L)" "places_distinct (snd ?L)"
    using o Cons.prems(2,3) nodes_on_change(2) [of msg "fst L"] nodes_on_change(2) [of msg "snd L"]
    by (auto simp: roles_step_def split: if_splits)
  have "full_attr (cm_role_attr msg)" using o by (simp add: change_orderly_def Let_def)
  note IH = Cons.IH [OF o' p roles_rep_step [OF Cons.prems(4) this]]
  have g: "ct_graph ?t = graph_run [change_op msg] (ct_graph t)"
    by (auto simp: channel_step_def change_op_def Let_def)
  have run: "ch_run (change_op msg # map change_op msgs) c = ch_run (map change_op msgs) (ch_run [change_op msg] c)"
      "graph_run (change_op msg # map change_op msgs) gr = graph_run (map change_op msgs) (graph_run [change_op msg] gr)"
      "plain_ops (change_op msg # map change_op msgs) \<longleftrightarrow> plain_ops [change_op msg] \<and> plain_ops (map change_op msgs)" for c gr
    by (cases "change_op msg"; simp)+
  show ?case
    using IH change_op_channels [OF o Cons.prems(2,3)] unfolding g by (simp only: Let_def list.map fold_simps run)
qed simp

definition channels_after :: "ChangeMsg list \<Rightarrow> 'c ChannelManager \<Rightarrow> 'c ChannelManager" where
  "channels_after msgs m = fold (\<lambda>msg m. fst (ChannelManager_Dispose msg m :: _ \<times> ('c, unit) topo_event list)) msgs m"

lemma tables_after: "tables_of (channels_after msgs m) = fold channel_step msgs (tables_of m)"
  unfolding channels_after_def by (induction msgs arbitrary: m) (simp_all add: channel.dispose_tables)

lemmas chm_tables = tables_of_def [THEN arg_cong [of _ _ ct_graph], simplified, symmetric]
  tables_of_def [THEN arg_cong [of _ _ ct_node_writers], simplified, symmetric]
  tables_of_def [THEN arg_cong [of _ _ ct_node_readers], simplified, symmetric]
  tables_of_def [THEN arg_cong [of _ _ ct_channel_writers], simplified, symmetric]
  tables_of_def [THEN arg_cong [of _ _ ct_channel_readers], simplified, symmetric]

lemma tables_ctor: "tables_of (ChannelManager_ctor host pid exempted) =
    \<lparr>ct_graph = Graph_ctor, ct_node_writers = [], ct_node_readers = [], ct_channel_writers = [], ct_channel_readers = []\<rparr>"
  by (simp add: tables_of_def ChannelManager_ctor_def ChannelManager.defs Manager.defs)

text \<open>The flow between nodes that a set of writers and readers implies.\<close>

definition flow :: "RoleAttributes list \<Rightarrow> RoleAttributes list \<Rightarrow> (string \<times> string) set" where
  "flow ws rs = {(node_name_of w, node_name_of r) | w r. w \<in> set ws \<and> r \<in> set rs \<and> channel_name_of w = channel_name_of r}"

lemma flow_iff: "(a, b) \<in> flow ws rs \<longleftrightarrow>
    (\<exists>w \<in> set ws. \<exists>r \<in> set rs. node_name_of w = a \<and> node_name_of r = b \<and> channel_name_of w = channel_name_of r)"
  by (auto simp: flow_def)

lemma leads_to_flow:
  "leads_to (nodes_on W, nodes_on R) = flow (map ro_attributes W) (map ro_attributes R)"
  by (auto simp: leads_to_def nodes_on_def flow_def) (metis imageI)

section \<open>Claims on channels\<close>

text \<open>
  C30: In an orderly history the graph and the warehouses of the channel manager agree: the direction between two different nodes
  is UPSTREAM exactly when a chain of present writers and readers of common channels leads from the first to the second,
  DOWNSTREAM when there is only a chain back, UNREACHABLE otherwise.
\<close>

theorem GetFlowDirection_matches_roles:
  fixes m :: "'c ChannelManager"
  assumes "orderly msgs ([], [])" and "lhs \<noteq> []" and "rhs \<noteq> []" and "lhs \<noteq> rhs"
    and m_def: "m = channels_after msgs (ChannelManager_ctor host pid exempted)"
  shows "GetFlowDirection lhs rhs m =
    (let r = flow (GetWriters m []) (GetReaders m []) in
     if (lhs, rhs) \<in> r\<^sup>+ then UPSTREAM else if (rhs, lhs) \<in> r\<^sup>+ then DOWNSTREAM else UNREACHABLE)"
proof -
  let ?t = "tables_of (ChannelManager_ctor host pid exempted :: 'c ChannelManager)" and ?L = "fold roles_step msgs ([], [])"
  note t = tables_ctor [where 'a = 'c, of host pid exempted]
  have "roles_rep ?t ([], [])" "places_distinct []" by (simp_all add: roles_rep_def keyed_by_def places_distinct_def t)
  then have run: "roles_rep (tables_of m) ?L" "ct_graph (tables_of m) = graph_run (map change_op msgs) Graph_ctor"
      "plain_ops (map change_op msgs)"
      "ch_run (map change_op msgs) (nodes_on [], nodes_on []) = (nodes_on (fst ?L), nodes_on (snd ?L))"
    using orderly_run [OF assms(1), of ?t] by (simp_all add: Let_def m_def tables_after t)
  have empty: "nodes_on [] = (\<lambda>_. {})" by (auto simp: nodes_on_def)
  have "GetWriters m [] = map ro_attributes (fst ?L)" "GetReaders m [] = map ro_attributes (snd ?L)"
    using run(1)
    by (simp_all add: GetWriters_def GetReaders_def Multi_GetAllRoles_attrs_def roles_rep_def tables_of_def keyed_by_def o_def)
  then have "leads_to (ch_run (map change_op msgs) (\<lambda>_. {}, \<lambda>_. {})) = flow (GetWriters m []) (GetReaders m [])"
    using run(4) by (simp add: empty leads_to_flow)
  moreover have "GetFlowDirection lhs rhs m = Graph_GetDirectionOf lhs rhs (graph_run (map change_op msgs) Graph_ctor)"
    using run(2) by (simp add: GetFlowDirection_def tables_of_def)
  ultimately show ?thesis using GetDirectionOf_run [OF run(3) assms(2-4)] by simp
qed

definition channel_msg :: "OperateType \<Rightarrow> RoleType \<Rightarrow> string \<Rightarrow> string \<Rightarrow> nat \<Rightarrow> ChangeMsg" where
  "channel_msg opt role node channel ident =
     \<lparr>cm_timestamp = 0, cm_change_type = CHANGE_CHANNEL, cm_operate_type = opt, cm_role_type = role,
      cm_role_attr = (writer_attr node channel ident)\<lparr>ra_host_name := Some ''host'', ra_process_id := Some 1\<rparr>\<rparr>"

theorem GetFlowDirection_matches_roles_witness:
  "\<exists>msgs. GetFlowDirection ''a'' ''bc'' (channels_after msgs (ChannelManager_ctor ''host'' 1 [] :: unit ChannelManager)) = UPSTREAM"
proof -
  let ?msgs = "[channel_msg OPT_JOIN ROLE_WRITER ''a'' ''ch'' 1, channel_msg OPT_JOIN ROLE_READER ''bc'' ''ch'' 2]"
  let ?m = "channels_after ?msgs (ChannelManager_ctor ''host'' 1 [] :: unit ChannelManager)"
  have "orderly ?msgs ([], [])"
    by (simp add: change_orderly_def channel_msg_def writer_attr_def full_attr_def ids_agree_def pb_get_def roles_step_def)
  note dir = GetFlowDirection_matches_roles [OF this, of "''a''" "''bc''" ?m "''host''" 1 "[]"]
  have "(''a'', ''bc'') \<in> flow (GetWriters ?m []) (GetReaders ?m [])"
    unfolding GetWriters_def GetReaders_def chm_tables tables_after tables_ctor
    by (simp add: channel_step_def channel_msg_def writer_attr_def role_of_def Multi_GetAllRoles_attrs_def flow_iff pb_get_def Let_def)
  then have "(''a'', ''bc'') \<in> (flow (GetWriters ?m []) (GetReaders ?m []))\<^sup>+" by (rule r_into_trancl)
  then have "GetFlowDirection ''a'' ''bc'' ?m = UPSTREAM" using dir by (simp add: Let_def)
  then show ?thesis by blast
qed

text \<open>
  The graph forgets a node that still writes. When a node has two writers of one channel and one of them leaves, the remaining
  writer is still in the warehouse and the reader's node still lists the node upstream, but the direction between them is
  UNREACHABLE.
\<close>

theorem second_writer_leaves_graph:
  "\<exists>msgs. let m = channels_after msgs (ChannelManager_ctor ''host'' 1 [] :: unit ChannelManager) in
    (''a'', ''bc'') \<in> flow (GetWriters m []) (GetReaders m []) \<and>
    map node_name_of (GetUpstreamOfNode length length ''bc'' m []) = [''a''] \<and>
    GetFlowDirection ''a'' ''bc'' m = UNREACHABLE"
proof -
  let ?msgs = "[channel_msg OPT_JOIN ROLE_WRITER ''a'' ''ch'' 1, channel_msg OPT_JOIN ROLE_READER ''bc'' ''ch'' 2,
    channel_msg OPT_JOIN ROLE_WRITER ''a'' ''ch'' 3, channel_msg OPT_LEAVE ROLE_WRITER ''a'' ''ch'' 1]"
  let ?m = "channels_after ?msgs (ChannelManager_ctor ''host'' 1 [] :: unit ChannelManager)"
  let ?ops = "map change_op ?msgs"
  note eval = channel_step_def channel_msg_def writer_attr_def role_of_def Multi_GetAllRoles_attrs_def pb_get_def
    Multi_Remove_role_def node_key_def channel_key_def Role_Match_def RoleWriter_Match_def RoleBase_Match_def pb_matches_def Let_def
  have "(''a'', ''bc'') \<in> flow (GetWriters ?m []) (GetReaders ?m [])"
    unfolding GetWriters_def GetReaders_def chm_tables tables_after tables_ctor by (simp add: eval flow_iff)
  moreover have "map node_name_of (GetUpstreamOfNode length length ''bc'' ?m []) = [''a'']"
    unfolding GetUpstreamOfNode_def GetReadersOfNode_def GetWritersOfChannel_def chm_tables tables_after tables_ctor
    by (simp add: eval Multi_Search_key_attrs_def nodes_of_def node_attr_def process_attr_def)
  moreover have "GetFlowDirection ''a'' ''bc'' ?m = UNREACHABLE"
  proof -
    have "ch_run ?ops (\<lambda>_. {}, \<lambda>_. {}) = ((\<lambda>_. {}), (\<lambda>_. {})(''ch'' := {''bc''}))"
      by (auto simp: change_op_def change_edge_def channel_msg_def writer_attr_def pb_get_def ch_insert_def ch_delete_def
          Edge_IsValid_def)
    then have "leads_to (ch_run ?ops (\<lambda>_. {}, \<lambda>_. {})) = {}" by (simp add: leads_to_def)
    moreover have "plain_ops ?ops"
      by (simp add: change_op_def change_edge_def channel_msg_def writer_attr_def pb_get_def)
    moreover have "GetFlowDirection ''a'' ''bc'' ?m = Graph_GetDirectionOf ''a'' ''bc'' (graph_run ?ops Graph_ctor)"
      unfolding GetFlowDirection_def chm_tables tables_after tables_ctor
      by (simp add: channel_step_def channel_msg_def change_op_def Let_def)
    ultimately show ?thesis using GetDirectionOf_run [of ?ops "''a''" "''bc''"] by simp
  qed
  ultimately show ?thesis by (auto simp: Let_def)
qed

section \<open>The departure of a process\<close>

definition from_process :: "string \<Rightarrow> int \<Rightarrow> RoleAttributes \<Rightarrow> bool" where
  "from_process host pid a \<longleftrightarrow> pb_get [] (ra_host_name a) = host \<and> pb_get 0 (ra_process_id a) = pid"

lemma Match_process: "ro_kind r \<noteq> RoleServer \<or> ro_kind r = RoleServer \<Longrightarrow>
    Role_Match (process_attr host pid) r \<longleftrightarrow> from_process host pid (ro_attributes r)"
  by (cases "ro_kind r")
    (auto simp: Role_Match_def RoleBase_Match_def RoleWriter_Match_def RoleServer_Match_def pb_matches_def process_attr_def
      pb_get_def from_process_def)

lemma Convert_full:
  "full_attr a \<Longrightarrow> cm_role_attr (Manager_Convert now a role opt m) = a"
  by (auto simp: Manager_Convert_def full_attr_def Let_def)

lemma Convert_fields [simp]:
  "cm_operate_type (Manager_Convert now a role opt m) = opt" "cm_role_type (Manager_Convert now a role opt m) = role"
  by (simp_all add: Manager_Convert_def Let_def)

lemma DisposeLeave_tables:
  "cm_operate_type msg = OPT_LEAVE \<Longrightarrow>
     tables_of (fst (ChannelManager_DisposeLeave msg m)) = channel_step msg (tables_of m)"
  by (simp add: channel_dispose_defs channel_step_def tables_of_def Let_def)

lemma tables_of_signal [simp]: "tables_of (m\<lparr>mg_signal := sg\<rparr>) = tables_of m"
  by (simp add: tables_of_def)

lemma channel_leaves_rep:
  fixes m :: "'c ChannelManager"
  assumes "roles_rep (tables_of m) L" and "\<forall>r \<in> set rs. full_attr (ro_attributes r)"
  shows "roles_rep (tables_of (fst (channel_leaves now role rs m :: 'c ChannelManager \<times> ('c, 'w) topo_event list)))
    (if role = ROLE_WRITER then (filter (\<lambda>r. \<forall>x \<in> set rs. \<not> Role_Match (ro_attributes x) r) (fst L), snd L)
     else (fst L, filter (\<lambda>r. \<forall>x \<in> set rs. \<not> Role_Match (ro_attributes x) r) (snd L)))"
  using assms
proof (induction rs arbitrary: m L)
  case Nil
  then show ?case by simp
next
  case (Cons r rs)
  let ?msg = "Manager_Convert now (ro_attributes r) role OPT_LEAVE m"
  let ?m1 = "fst (ChannelManager_DisposeLeave ?msg m :: 'c ChannelManager \<times> ('c, 'w) topo_event list)"
  let ?m2 = "fst (Manager_Notify ?msg ?m1 :: 'c ChannelManager \<times> ('c, 'w) topo_event list)"
  have a: "cm_role_attr ?msg = ro_attributes r" using Cons.prems(2) by (simp add: Convert_full)
  have "roles_rep (tables_of ?m1) (roles_step ?msg L)"
    using roles_rep_step [OF Cons.prems(1), of ?msg] Cons.prems(2) a by (simp add: DisposeLeave_tables)
  then have "roles_rep (tables_of ?m2) (roles_step ?msg L)" by (simp add: Notify_fst)
  from Cons.IH [OF this] Cons.prems(2) a show ?case
    by (simp add: Let_def case_prod_beta roles_step_def roles_change_def conj_commute split: if_splits)
qed

lemma leaving_filter:
  assumes "\<forall>r \<in> set L. channel_role r"
  shows "filter (\<lambda>r. \<forall>x \<in> set (filter (\<lambda>r. from_process host pid (ro_attributes r)) L). \<not> Role_Match (ro_attributes x) r) L =
    filter (\<lambda>r. \<not> from_process host pid (ro_attributes r)) L"
proof (rule filter_cong [OF refl])
  fix r assume r: "r \<in> set L"
  have "from_process host pid (ro_attributes r)"
    if "x \<in> set L" "from_process host pid (ro_attributes x)" "Role_Match (ro_attributes x) r" for x
    using that assms r Match_iff [of "ro_attributes x" r]
    by (auto simp: channel_role_def from_process_def pb_get_def full_attr_def)
  then show "(\<forall>x \<in> set (filter (\<lambda>r. from_process host pid (ro_attributes r)) L). \<not> Role_Match (ro_attributes x) r) \<longleftrightarrow>
      \<not> from_process host pid (ro_attributes r)"
    using r Role_Match_self [of r] by auto
qed

lemma OnTopoModuleLeave_rep:
  fixes m :: "'c ChannelManager"
  assumes "roles_rep (tables_of m) L" and "mg_is_discovery_started m"
  shows "roles_rep (tables_of (fst (ChannelManager_OnTopoModuleLeave now host pid m :: 'c ChannelManager \<times> ('c, 'w) topo_event list)))
    (filter (\<lambda>r. \<not> from_process host pid (ro_attributes r)) (fst L), filter (\<lambda>r. \<not> from_process host pid (ro_attributes r)) (snd L))"
proof -
  let ?from = "\<lambda>r. from_process host pid (ro_attributes r)"
  have roles: "\<forall>r \<in> set (fst L). channel_role r" "\<forall>r \<in> set (snd L). channel_role r"
    using assms(1) by (auto simp: roles_rep_def)
  have search: "snd (Multi_Search_target_roles (process_attr host pid) (keyed_by key l) []) = filter ?from l" for key l
    by (simp add: Multi_Search_target_roles_def collect_loop_filter keyed_by_def filter_map o_def Match_process)
  let ?m1 = "fst (channel_leaves now ROLE_WRITER (filter ?from (fst L)) m :: 'c ChannelManager \<times> ('c, 'w) topo_event list)"
  have "roles_rep (tables_of ?m1) (filter (\<lambda>r. \<not> ?from r) (fst L), snd L)"
    using channel_leaves_rep [OF assms(1), of "filter ?from (fst L)" now ROLE_WRITER] roles leaving_filter [OF roles(1), of host pid]
    by (simp add: channel_role_def)
  then have "roles_rep (tables_of (fst (channel_leaves now ROLE_READER (filter ?from (snd L)) ?m1 :: 'c ChannelManager \<times> ('c, 'w) topo_event list)))
      (filter (\<lambda>r. \<not> ?from r) (fst L), filter (\<lambda>r. \<not> ?from r) (snd L))"
    using channel_leaves_rep [of ?m1 _ "filter ?from (snd L)" now ROLE_READER] roles leaving_filter [OF roles(2), of host pid]
    by (fastforce simp: channel_role_def)
  moreover have "chm_channel_writers m = keyed_by channel_key (fst L)" "chm_channel_readers m = keyed_by channel_key (snd L)"
    using assms(1) by (simp_all add: roles_rep_def tables_of_def)
  ultimately show ?thesis
    using assms(2) by (simp add: ChannelManager_OnTopoModuleLeave_def search Let_def case_prod_beta)
qed

lemma roles_rep_run:
  assumes "roles_rep t L" and "\<forall>msg \<in> set msgs. full_attr (cm_role_attr msg)"
  shows "roles_rep (fold channel_step msgs t) (fold roles_step msgs L)"
  using assms by (induction msgs arbitrary: t L) (simp_all add: roles_rep_step)

lemma base_after: "base_of (channels_after msgs m) = base_of m"
  unfolding channels_after_def by (induction msgs arbitrary: m) (simp_all add: channel.dispose_base)

text \<open>The queries over the roles.\<close>

lemma queries_rep:
  assumes "roles_rep (tables_of m) L"
  shows "GetWriters m [] = map ro_attributes (fst L)" "GetReaders m [] = map ro_attributes (snd L)"
    "GetWritersOfNode reg n m [] = map ro_attributes (filter (\<lambda>r. node_key r = reg n) (fst L))"
    "GetReadersOfNode reg n m [] = map ro_attributes (filter (\<lambda>r. node_key r = reg n) (snd L))"
    "GetWritersOfChannel reg n m [] = map ro_attributes (filter (\<lambda>r. channel_key r = reg n) (fst L))"
    "GetReadersOfChannel reg n m [] = map ro_attributes (filter (\<lambda>r. channel_key r = reg n) (snd L))"
  using assms
  by (simp_all add: roles_rep_def tables_of_def keyed_by_def o_def GetWriters_def GetReaders_def Multi_GetAllRoles_attrs_def
      GetWritersOfNode_def GetReadersOfNode_def GetWritersOfChannel_def GetReadersOfChannel_def Multi_Search_key_attrs_def
      collect_loop_filter filter_map)

text \<open>
  When a process leaves, its writers and readers disappear from the channel manager and nothing else does: every query afterwards
  gives exactly the roles it gave before that belong to other processes, in the same order. The identifying attributes of
  all roles that have joined must be set.
\<close>

theorem ChannelManager_process_leaves:
  fixes m :: "'c ChannelManager"
  assumes "\<forall>msg \<in> set msgs. full_attr (cm_role_attr msg)" and "mg_is_discovery_started m0"
    and "tables_of m0 = tables_of (ChannelManager_ctor host0 pid0 exempted :: 'c ChannelManager)"
    and "m = channels_after msgs m0" and "m' = fst (ChannelManager_OnTopoModuleLeave now host pid m :: 'c ChannelManager \<times> ('c, 'w) topo_event list)"
  shows "GetWriters m' [] = filter (\<lambda>a. \<not> from_process host pid a) (GetWriters m []) \<and>
    GetReaders m' [] = filter (\<lambda>a. \<not> from_process host pid a) (GetReaders m []) \<and>
    GetWritersOfNode reg n m' [] = filter (\<lambda>a. \<not> from_process host pid a) (GetWritersOfNode reg n m []) \<and>
    GetReadersOfNode reg n m' [] = filter (\<lambda>a. \<not> from_process host pid a) (GetReadersOfNode reg n m []) \<and>
    GetWritersOfChannel reg n m' [] = filter (\<lambda>a. \<not> from_process host pid a) (GetWritersOfChannel reg n m []) \<and>
    GetReadersOfChannel reg n m' [] = filter (\<lambda>a. \<not> from_process host pid a) (GetReadersOfChannel reg n m [])"
proof -
  have "roles_rep (tables_of m0) ([], [])" by (simp add: assms(3) tables_ctor roles_rep_def keyed_by_def)
  from roles_rep_run [OF this assms(1)] have rep: "roles_rep (tables_of m) (fold roles_step msgs ([], []))"
    by (simp add: assms(4) tables_after)
  have "mg_is_discovery_started m" using base_of_eqD(2) [OF base_after, of msgs m0] assms(2,4) by simp
  then have rep': "roles_rep (tables_of m')
      (filter (\<lambda>r. \<not> from_process host pid (ro_attributes r)) (fst (fold roles_step msgs ([], []))),
       filter (\<lambda>r. \<not> from_process host pid (ro_attributes r)) (snd (fold roles_step msgs ([], []))))"
    unfolding assms(5) by (rule OnTopoModuleLeave_rep [OF rep])
  show ?thesis
    unfolding queries_rep [OF rep] queries_rep [OF rep'] by (simp add: filter_map o_def conj_commute)
qed

theorem ChannelManager_process_leaves_witness:
  "GetWriters (fst (ChannelManager_OnTopoModuleLeave 9 ''host'' 1
     (channels_after [channel_msg OPT_JOIN ROLE_WRITER ''a'' ''ch'' 1] (started_channels 2))
      :: unit ChannelManager \<times> (unit, unit) topo_event list)) [] = []"
proof -
  let ?m = "channels_after [channel_msg OPT_JOIN ROLE_WRITER ''a'' ''ch'' 1] (started_channels 2) :: unit ChannelManager"
  let ?m' = "fst (ChannelManager_OnTopoModuleLeave 9 ''host'' 1 ?m :: unit ChannelManager \<times> (unit, unit) topo_event list)"
  have "GetWriters ?m' [] = filter (\<lambda>a. \<not> from_process ''host'' 1 a) (GetWriters ?m [])"
    by (rule ChannelManager_process_leaves [where msgs = "[channel_msg OPT_JOIN ROLE_WRITER ''a'' ''ch'' 1]" and
          ?m0.0 = "started_channels 2" and ?host0.0 = "''host''" and ?pid0.0 = 2 and exempted = "[]",
          OF _ _ _ refl refl, THEN conjunct1])
      (simp_all add: channel_msg_def writer_attr_def full_attr_def started_channels_def tables_of_def)
  also have "\<dots> = []"
    unfolding GetWriters_def chm_tables tables_after started_channels_def
    by (simp add: tables_of_def ChannelManager_ctor_def ChannelManager.defs Manager.defs channel_step_def channel_msg_def
        writer_attr_def role_of_def Multi_GetAllRoles_attrs_def from_process_def pb_get_def Let_def)
  finally show ?thesis .
qed

end
