(* ===== verification/Std_Text.thy ===== *)
theory Std_Text
  imports Prelude
begin

text \<open>
  The parts of the C++ string library the components parse and print with: \<open>std::to_string\<close> and \<open>std::stoi\<close> on
  decimal integers, \<open>std::string::find\<close> of a character and \<open>substr\<close>. \<open>std::stoi\<close> skips leading white space,
  takes an optional sign and the longest run of digits, ignores what follows, and throws \<open>std::invalid_argument\<close>
  when there is no digit and \<open>std::out_of_range\<close> when the value does not fit an \<open>int\<close>.
\<close>

section \<open>Digits\<close>

definition digit_char :: "nat \<Rightarrow> char" where
  "digit_char d = char_of (48 + d)"

definition is_digit :: "char \<Rightarrow> bool" where
  "is_digit c \<longleftrightarrow> 48 \<le> (of_char c :: nat) \<and> (of_char c :: nat) \<le> 57"

definition digit_value :: "char \<Rightarrow> nat" where
  "digit_value c = of_char c - 48"

definition is_space :: "char \<Rightarrow> bool" where
  "is_space c \<longleftrightarrow> (of_char c :: nat) = 32 \<or> 9 \<le> (of_char c :: nat) \<and> (of_char c :: nat) \<le> 13"

fun nat_to_string :: "nat \<Rightarrow> string" where
  "nat_to_string n = (if n < 10 then [digit_char n] else nat_to_string (n div 10) @ [digit_char (n mod 10)])"

declare nat_to_string.simps [simp del]

definition to_string :: "int \<Rightarrow> string" where
  "to_string i = (if i < 0 then CHR ''-'' # nat_to_string (nat (- i)) else nat_to_string (nat i))"

definition digits_value :: "string \<Rightarrow> nat" where
  "digits_value ds = foldl (\<lambda>v c. 10 * v + digit_value c) 0 ds"

datatype stoi_error = Invalid_argument | Out_of_range

definition stoi_digits :: "bool \<Rightarrow> string \<Rightarrow> stoi_error + int" where
  "stoi_digits negative s =
     (let ds = takeWhile is_digit s; v = (if negative then - int (digits_value ds) else int (digits_value ds))
      in if ds = [] then Inl Invalid_argument else if v < - (2 ^ 31) \<or> 2 ^ 31 \<le> v then Inl Out_of_range else Inr v)"

definition stoi :: "string \<Rightarrow> stoi_error + int" where
  "stoi str =
     (case dropWhile is_space str of
        [] \<Rightarrow> Inl Invalid_argument
      | c # cs \<Rightarrow> if c = CHR ''-'' then stoi_digits True cs else if c = CHR ''+'' then stoi_digits False cs
                  else stoi_digits False (c # cs))"

section \<open>Searching and cutting\<close>

text \<open>\<open>find\<close>: the position of the first occurrence, or \<open>npos\<close>.\<close>

definition str_find :: "char \<Rightarrow> string \<Rightarrow> nat option" where
  "str_find c s = (let n = length (takeWhile (\<lambda>x. x \<noteq> c) s) in if n < length s then Some n else None)"

definition str_rfind :: "char \<Rightarrow> string \<Rightarrow> nat option" where
  "str_rfind c s = map_option (\<lambda>n. length s - Suc n) (str_find c (rev s))"

lemma str_find_None [simp]: "str_find c s = None \<longleftrightarrow> c \<notin> set s"
  by (induction s) (auto simp: str_find_def Let_def)

lemma str_find_append [simp]: "c \<notin> set s \<Longrightarrow> str_find c (s @ c # t) = Some (length s)"
proof -
  assume "c \<notin> set s"
  then have "takeWhile (\<lambda>x. x \<noteq> c) s = s" by (auto simp: takeWhile_eq_all_conv)
  then show ?thesis by (simp add: str_find_def Let_def takeWhile_tail)
qed

lemma str_rfind_append [simp]: "c \<notin> set t \<Longrightarrow> str_rfind c (s @ c # t) = Some (length s)"
  by (simp add: str_rfind_def)

section \<open>Printing and parsing\<close>

lemma of_digit_char [simp]: "d < 10 \<Longrightarrow> (of_char (digit_char d) :: nat) = 48 + d"
  by (simp add: digit_char_def of_char_of)

lemma digit_char_props [simp]:
  "d < 10 \<Longrightarrow> is_digit (digit_char d)" "d < 10 \<Longrightarrow> digit_value (digit_char d) = d"
  by (simp_all add: is_digit_def digit_value_def)

lemma not_digit [simp]: "\<not> is_digit CHR ''-''" "\<not> is_digit CHR ''+''" "\<not> is_digit CHR '' ''" "\<not> is_digit CHR ''.''"
  by (simp_all add: is_digit_def)

lemma digit_not_space: "is_digit c \<Longrightarrow> \<not> is_space c"
  by (auto simp: is_digit_def is_space_def)

lemma digits_value_snoc: "digits_value (ds @ [c]) = 10 * digits_value ds + digit_value c"
  by (simp add: digits_value_def)

lemma nat_to_string_digits: "\<forall>c \<in> set (nat_to_string n). is_digit c"
  by (induction n rule: nat_to_string.induct) (subst nat_to_string.simps, auto)

lemma nat_to_string_nonempty [simp]: "nat_to_string n \<noteq> []"
  by (subst nat_to_string.simps) simp

lemma digits_value_to_string [simp]: "digits_value (nat_to_string n) = n"
proof (induction n rule: nat_to_string.induct)
  case (1 n)
  then show ?case
    by (subst nat_to_string.simps) (auto simp: digits_value_snoc, simp add: digits_value_def)
qed

lemma stoi_digits_to_string:
  assumes "rest = [] \<or> \<not> is_digit (hd rest)"
  shows "stoi_digits negative (nat_to_string n @ rest) =
    (let v = if negative then - int n else int n in if v < - (2 ^ 31) \<or> 2 ^ 31 \<le> v then Inl Out_of_range else Inr v)"
proof -
  have "takeWhile is_digit (nat_to_string n @ rest) = nat_to_string n"
    using assms nat_to_string_digits by (cases rest) (simp_all add: takeWhile_append2)
  then show ?thesis by (simp add: stoi_digits_def Let_def)
qed

text \<open>\<open>std::stoi\<close> reads back what \<open>std::to_string\<close> prints, whatever non-digit text follows.\<close>

lemma stoi_to_string:
  assumes "- (2 ^ 31) \<le> i" and "i < 2 ^ 31" and "rest = [] \<or> \<not> is_digit (hd rest)"
  shows "stoi (to_string i @ rest) = Inr i"
proof (cases "i < 0")
  case True
  then show ?thesis
    using assms by (simp add: to_string_def stoi_def is_space_def stoi_digits_to_string Let_def)
next
  case False
  obtain c cs where s: "nat_to_string (nat i) = c # cs" using nat_to_string_nonempty by (metis list.exhaust)
  then have c: "is_digit c" using nat_to_string_digits by (metis list.set_intros(1))
  then have "c \<noteq> CHR ''-''" "c \<noteq> CHR ''+''" by auto
  then have "stoi (to_string i @ rest) = stoi_digits False (nat_to_string (nat i) @ rest)"
    using False s digit_not_space [OF c] by (simp add: to_string_def stoi_def)
  then show ?thesis using assms False by (simp add: stoi_digits_to_string Let_def)
qed

lemma to_string_no_plus [simp]: "CHR ''+'' \<notin> set (to_string i)"
  using nat_to_string_digits [of "nat i"] nat_to_string_digits [of "nat (- i)"] not_digit(2) by (auto simp: to_string_def)

lemma stoi_range: "stoi s = Inr v \<Longrightarrow> - (2 ^ 31) \<le> v \<and> v < 2 ^ 31"
  by (auto simp: stoi_def stoi_digits_def Let_def split: list.splits if_splits)

end
