(* ===== verification/Topology_Participant.thy ===== *)
theory Topology_Participant
  imports Topology_System Std_Text "HOL-Library.Word"
begin

text \<open>
  \<open>cyber/service_discovery/topology_manager.cc\<close> and \<open>cyber/transport/rtps/participant.cc\<close>: the manager that owns the three
  topology managers, announces its process as an RTPS participant named \<open>host+pid\<close>, and turns the discovery and the
  loss of other participants into changes of the topology. Fast RTPS is a parameter: which participants it can create,
  whether it accepts an address, and the results of making the publishers and subscribers of the managers. The
  environment variables and the configuration are arguments.
\<close>

section \<open>The participant\<close>

record RtpsParticipantAttr =
  lease_duration :: int
  announcement_period :: int
  domain_id_gain :: nat
  port_base :: nat

record ParticipantAttributes =
  pa_defaultSendPort :: int
  pa_domainIDGain :: "16 word"
  pa_portBase :: "16 word"
  pa_domainId :: "32 word"
  pa_leaseDuration :: int
  pa_announcementperiod :: int
  pa_name :: string
  pa_ip :: string

record Participant =
  pt_shutdown :: bool
  pt_name :: string
  pt_send_port :: int
  pt_listener :: bool
  pt_fastrtps :: "ParticipantAttributes option"

definition Participant_ctor :: "string \<Rightarrow> int \<Rightarrow> bool \<Rightarrow> Participant" where
  "Participant_ctor name send_port listener =
     \<lparr>pt_shutdown = False, pt_name = name, pt_send_port = send_port, pt_listener = listener, pt_fastrtps = None\<rparr>"

definition Participant_Shutdown :: "Participant \<Rightarrow> Participant" where
  "Participant_Shutdown p =
     (if pt_shutdown p then p
      else let p1 = p\<lparr>pt_shutdown := True\<rparr>
           in if pt_fastrtps p1 \<noteq> None then p1\<lparr>pt_fastrtps := None, pt_listener := False\<rparr> else p1)"

text \<open>What the creation reads from the outside.\<close>

record rtps_env =
  env_domain_id :: "string option"
  env_ip :: "string option"
  env_conf :: RtpsParticipantAttr
  env_set_ip :: "string \<Rightarrow> bool"
  env_create :: "ParticipantAttributes \<Rightarrow> bool"

definition CreateFastRtpsParticipant :: "rtps_env \<Rightarrow> Participant \<Rightarrow> Participant" where
  "CreateFastRtpsParticipant env p =
     (case (case env_domain_id env of None \<Rightarrow> Inr 80 | Some val \<Rightarrow> stoi val) of
        Inl e \<Rightarrow> p
      | Inr domain_id \<Rightarrow>
          (let ip = (case env_ip env of None \<Rightarrow> ''127.0.0.1'' | Some val \<Rightarrow> val);
               attr = \<lparr>pa_defaultSendPort = pt_send_port p, pa_domainIDGain = of_nat (domain_id_gain (env_conf env)),
                       pa_portBase = of_nat (port_base (env_conf env)), pa_domainId = of_int domain_id,
                       pa_leaseDuration = lease_duration (env_conf env),
                       pa_announcementperiod = announcement_period (env_conf env), pa_name = pt_name p, pa_ip = ip\<rparr>
           in if env_ip env \<noteq> None \<and> ip = [] then p
              else if \<not> env_set_ip env ip then p
              else if env_create env attr then p\<lparr>pt_fastrtps := Some attr\<rparr> else p\<lparr>pt_fastrtps := None\<rparr>))"

definition fastrtps_participant :: "rtps_env \<Rightarrow> Participant \<Rightarrow> ParticipantAttributes option \<times> Participant" where
  "fastrtps_participant env p =
     (if pt_shutdown p then (None, p)
      else if pt_fastrtps p \<noteq> None then (pt_fastrtps p, p)
      else let p' = CreateFastRtpsParticipant env p in (pt_fastrtps p', p'))"

section \<open>The topology manager\<close>

datatype discovery_status =
  DISCOVERED_RTPSPARTICIPANT | CHANGED_QOS_RTPSPARTICIPANT | REMOVED_RTPSPARTICIPANT | DROPPED_RTPSPARTICIPANT

record 'g PartInfo =
  pi_guid :: 'g
  pi_status :: discovery_status
  pi_name :: string

record ('c, 'g) TopologyManager =
  tm_init :: bool
  tm_node_manager :: "'c NodeManager option"
  tm_channel_manager :: "'c ChannelManager option"
  tm_service_manager :: "'c ServiceManager option"
  tm_participant :: "Participant option"
  tm_participant_listener :: bool
  tm_change_signal :: "'c Signal"
  tm_participant_names :: "'g \<Rightarrow> string option"

definition TM_empty :: "('c, 'g) TopologyManager" where
  "TM_empty =
     \<lparr>tm_init = False, tm_node_manager = None, tm_channel_manager = None, tm_service_manager = None, tm_participant = None,
      tm_participant_listener = False, tm_change_signal = Signal_ctor, tm_participant_names = (\<lambda>_. None)\<rparr>"

definition participant_name :: "string \<Rightarrow> int \<Rightarrow> string" where
  "participant_name host pid = host @ CHR ''+'' # to_string pid"

definition CreateParticipant :: "string \<Rightarrow> int \<Rightarrow> ('c, 'g) TopologyManager \<Rightarrow> ('c, 'g) TopologyManager" where
  "CreateParticipant host pid t =
     t\<lparr>tm_participant_listener := True, tm_participant := Some (Participant_ctor (participant_name host pid) 11511 True)\<rparr>"

text \<open>
  \<open>Init\<close>: the three managers are started in turn, each with the participant that \<open>fastrtps_participant\<close> creates at the
  first call; \<open>endpoints\<close> gives for each manager whether its publisher and subscriber could be made.
\<close>

record endpoint_results =
  er_node :: "(bool \<times> bool) \<times> (bool \<times> bool)"
  er_channel :: "(bool \<times> bool) \<times> (bool \<times> bool)"
  er_service :: "(bool \<times> bool) \<times> (bool \<times> bool)"

definition TM_Init ::
    "rtps_env \<Rightarrow> endpoint_results \<Rightarrow> string \<Rightarrow> int \<Rightarrow> string list \<Rightarrow> ('c, 'g) TopologyManager \<Rightarrow> bool \<times> ('c, 'g) TopologyManager" where
  "TM_Init env er host pid exempted t =
     (if tm_init t then (True, t)
      else let t0 = CreateParticipant host pid (t\<lparr>tm_init := True\<rparr>);
               p0 = Participant_ctor (participant_name host pid) 11511 True;
               (h1, p1) = fastrtps_participant env p0;
               (ok1, nm) = StartDiscovery (h1 \<noteq> None) (fst (er_node er)) (snd (er_node er)) (NodeManager_ctor host pid);
               (h2, p2) = (if ok1 then fastrtps_participant env p1 else (None, p1));
               (ok2, cm) = (if ok1 then StartDiscovery (h2 \<noteq> None) (fst (er_channel er)) (snd (er_channel er))
                              (ChannelManager_ctor host pid exempted)
                            else (False, ChannelManager_ctor host pid exempted));
               (h3, p3) = (if ok2 then fastrtps_participant env p2 else (None, p2));
               (ok3, sm) = (if ok2 then StartDiscovery (h3 \<noteq> None) (fst (er_service er)) (snd (er_service er))
                              (ServiceManager_ctor host pid)
                            else (False, ServiceManager_ctor host pid))
           in if \<not> ok3
              then (False, t0\<lparr>tm_participant := None, tm_participant_listener := False, tm_node_manager := None,
                     tm_channel_manager := None, tm_service_manager := None, tm_init := False\<rparr>)
              else (True, t0\<lparr>tm_participant := Some p3, tm_node_manager := Some nm, tm_channel_manager := Some cm,
                     tm_service_manager := Some sm\<rparr>))"

definition TM_Shutdown :: "('c, 'g) TopologyManager \<Rightarrow> ('c, 'g) TopologyManager" where
  "TM_Shutdown t =
     (if \<not> tm_init t then t
      else t\<lparr>tm_init := False,
             tm_node_manager := map_option Manager_Shutdown (tm_node_manager t),
             tm_channel_manager := map_option Manager_Shutdown (tm_channel_manager t),
             tm_service_manager := map_option Manager_Shutdown (tm_service_manager t),
             tm_participant := map_option Participant_Shutdown (tm_participant t),
             tm_participant_listener := False,
             tm_change_signal := DisconnectAllSlots (tm_change_signal t)\<rparr>)"

definition TM_AddChangeListener ::
    "'c option \<Rightarrow> ('c, 'g) TopologyManager \<Rightarrow> Connection \<times> ('c, 'g) TopologyManager" where
  "TM_AddChangeListener func t =
     (let (conn, sg) = Signal_Connect func (tm_change_signal t) in (conn, t\<lparr>tm_change_signal := sg\<rparr>))"

definition TM_RemoveChangeListener :: "Connection \<Rightarrow> ('c, 'g) TopologyManager \<Rightarrow> ('c, 'g) TopologyManager" where
  "TM_RemoveChangeListener conn t = t\<lparr>tm_change_signal := snd (Connection_Disconnect conn (tm_change_signal t))\<rparr>"

definition ParseParticipantName :: "string \<Rightarrow> (string \<times> int) option" where
  "ParseParticipantName name =
     (case str_find CHR ''+'' name of
        None \<Rightarrow> None
      | Some pos \<Rightarrow>
          (case stoi (drop (pos + 1) name) of
             Inl e \<Rightarrow> None
           | Inr process_id \<Rightarrow> Some (take pos name, process_id)))"

definition TM_Convert :: "nat \<Rightarrow> 'g PartInfo \<Rightarrow> ('c, 'g) TopologyManager \<Rightarrow> ChangeMsg option \<times> ('c, 'g) TopologyManager" where
  "TM_Convert now info t =
     (let (name, opt_type, t1) =
            (case pi_status info of
               DISCOVERED_RTPSPARTICIPANT \<Rightarrow>
                 (pi_name info, OPT_JOIN, t\<lparr>tm_participant_names := (tm_participant_names t)(pi_guid info \<mapsto> pi_name info)\<rparr>)
             | CHANGED_QOS_RTPSPARTICIPANT \<Rightarrow> ([], OPT_JOIN, t)
             | _ \<Rightarrow>
                 (case tm_participant_names t (pi_guid info) of
                    None \<Rightarrow> ([], OPT_LEAVE, t)
                  | Some n \<Rightarrow> (n, OPT_LEAVE, t\<lparr>tm_participant_names := (tm_participant_names t)(pi_guid info := None)\<rparr>)))
      in case ParseParticipantName name of
           None \<Rightarrow> (None, t1)
         | Some (host_name, process_id) \<Rightarrow>
             (Some \<lparr>cm_timestamp = now, cm_change_type = CHANGE_PARTICIPANT, cm_operate_type = opt_type,
                    cm_role_type = ROLE_PARTICIPANT, cm_role_attr = process_attr host_name process_id\<rparr>, t1))"

text \<open>The call of a method of a manager through its pointer.\<close>

definition on_manager :: "('m \<Rightarrow> 'm \<times> ('c, 'w) topo_event list) \<Rightarrow> 'm option \<Rightarrow> 'm option \<times> ('c, 'w) topo_event list" where
  "on_manager f p = (case p of None \<Rightarrow> (None, []) | Some m \<Rightarrow> (let (m', evs) = f m in (Some m', evs)))"

definition OnParticipantChange ::
    "nat \<Rightarrow> 'g PartInfo \<Rightarrow> ('c, 'g) TopologyManager \<Rightarrow> ('c, 'g) TopologyManager \<times> ('c, 'w) topo_event list" where
  "OnParticipantChange now info t =
     (case TM_Convert now info t of
        (None, t1) \<Rightarrow> (t1, [])
      | (Some msg, t1) \<Rightarrow>
          if \<not> tm_init t1 then (t1, [])
          else (let host_name = pb_get [] (ra_host_name (cm_role_attr msg));
                    process_id = pb_get 0 (ra_process_id (cm_role_attr msg));
                    (t2, evs) =
                      (if cm_operate_type msg = OPT_LEAVE
                       then (let (nm, evs1) = on_manager (NodeManager_OnTopoModuleLeave now host_name process_id) (tm_node_manager t1);
                                 (cm, evs2) = on_manager (ChannelManager_OnTopoModuleLeave now host_name process_id) (tm_channel_manager t1);
                                 (sm, evs3) = on_manager (ServiceManager_OnTopoModuleLeave now host_name process_id) (tm_service_manager t1)
                             in (t1\<lparr>tm_node_manager := nm, tm_channel_manager := cm, tm_service_manager := sm\<rparr>, evs1 @ evs2 @ evs3))
                       else (t1, []));
                    (sg, calls) = Signal_emit log_call (tm_change_signal t2, [])
                in (t2\<lparr>tm_change_signal := sg\<rparr>, evs @ map (\<lambda>c. Listener_called c msg) calls)))"

section \<open>The departure of a process from the tables of nodes and services\<close>

text \<open>A table whose entries are filed under the key of their role, at most one per key.\<close>

definition filed :: "(Role \<Rightarrow> nat) \<Rightarrow> role_map \<Rightarrow> bool" where
  "filed key rs \<longleftrightarrow> distinct (map fst rs) \<and> (\<forall>it \<in> set rs. fst it = key (snd it))"

definition node_role_key :: "Role \<Rightarrow> nat" where
  "node_role_key r = pb_get 0 (ra_node_id (ro_attributes r))"

lemma filed_Nil [simp]: "filed key []"
  by (simp add: filed_def)

lemma set_alist_update: "set (AList.update k v al) \<subseteq> insert (k, v) (set al)"
  by (induction al) auto

lemma filed_update: "filed key rs \<Longrightarrow> k = key r \<Longrightarrow> filed key (AList.update k r rs)"
  using set_alist_update [of k r rs] by (force simp: filed_def distinct_update)

lemma filed_delete: "filed key rs \<Longrightarrow> filed key (AList.delete k rs)"
  using distinct_delete [of rs k] by (auto simp: filed_def AList.delete_eq)

lemma node_step_filed: "filed node_role_key nodes \<Longrightarrow> filed node_role_key (node_step msg nodes)"
  by (auto simp: node_step_def filed_update filed_delete node_role_key_def role_of_def Let_def split: option.splits)

lemma service_step_filed: "filed service_key (fst t) \<Longrightarrow> filed service_key (fst (service_step msg t))"
  by (auto simp: service_step_def filed_update filed_delete Let_def)

lemma fold_delete: "fold (\<lambda>r. AList.delete (key r)) rs m = filter (\<lambda>it. fst it \<notin> key ` set rs) m"
  by (induction rs arbitrary: m) (auto simp: AList.delete_eq intro!: filter_cong)

lemma fold_remove_role:
  "fold (\<lambda>c. Multi_Remove_role (service_key c) c) cs m =
     filter (\<lambda>it. \<forall>c \<in> set cs. \<not> (fst it = service_key c \<and> Role_Match (ro_attributes c) (snd it))) m"
  by (induction cs arbitrary: m) (auto simp: Multi_Remove_role_def erase_loop_filter intro!: filter_cong)

lemma filed_remove:
  assumes "filed key rs"
  shows "fold (\<lambda>r. AList.delete (key r)) (map snd (filter (\<lambda>it. P (snd it)) rs)) rs = filter (\<lambda>it. \<not> P (snd it)) rs"
proof -
  have "fst it \<in> key ` set (map snd (filter (\<lambda>it. P (snd it)) rs)) \<longleftrightarrow> P (snd it)" if "it \<in> set rs" for it
  proof
    assume "fst it \<in> key ` set (map snd (filter (\<lambda>it. P (snd it)) rs))"
    then obtain it' where it': "it' \<in> set rs" "P (snd it')" "fst it = fst it'" using assms by (auto simp: filed_def)
    then have "it = it'" using that assms eq_key_imp_eq_value [of rs "fst it" "snd it" "snd it'"] by (metis filed_def prod.collapse)
    then show "P (snd it)" using it' by simp
  next
    assume "P (snd it)"
    then show "fst it \<in> key ` set (map snd (filter (\<lambda>it. P (snd it)) rs))" using that assms by (auto simp: filed_def)
  qed
  then show ?thesis unfolding fold_delete by (intro filter_cong [OF refl]) simp
qed

lemma notify_leaves_tables [simp]:
  "nm_nodes (fst (notify_leaves now role rs nm)) = nm_nodes nm"
  "sm_servers (fst (notify_leaves now role rs sm)) = sm_servers sm"
  "sm_clients (fst (notify_leaves now role rs sm)) = sm_clients sm"
  by (induction rs arbitrary: nm sm) (simp_all add: Let_def case_prod_beta Notify_fst)

lemma Single_Remove_key_delete: "Single_Remove_key = AList.delete"
  by (simp add: fun_eq_iff Single_Remove_key_def)

lemma Node_leave_filter:
  assumes "filed node_role_key (nm_nodes m)" and "mg_is_discovery_started m"
  shows "nm_nodes (fst (NodeManager_OnTopoModuleLeave now host pid m)) =
    filter (\<lambda>it. \<not> from_process host pid (ro_attributes (snd it))) (nm_nodes m)"
  using assms(2) filed_remove [OF assms(1), of "\<lambda>r. from_process host pid (ro_attributes r)"]
  by (simp add: NodeManager_OnTopoModuleLeave_def Single_Search_target_roles_def collect_loop_filter Match_process Let_def
      Single_Remove_key_delete node_role_key_def)

text \<open>The clients: a client that leaves takes along the clients of the same process only, once its attributes are set.\<close>

definition placed :: "RoleAttributes \<Rightarrow> bool" where
  "placed a \<longleftrightarrow> ra_host_name a \<noteq> None \<and> ra_process_id a \<noteq> None"

definition clients_ok :: "role_map \<Rightarrow> bool" where
  "clients_ok rs \<longleftrightarrow> (\<forall>it \<in> set rs. fst it = service_key (snd it) \<and> placed (ro_attributes (snd it)))"

lemma Match_placed: "placed a \<Longrightarrow> Role_Match a r \<Longrightarrow> from_process host pid a \<longleftrightarrow> from_process host pid (ro_attributes r)"
  by (cases "ro_kind r")
    (auto simp: Role_Match_def RoleBase_Match_def RoleWriter_Match_def RoleServer_Match_def pb_matches_def pb_get_def
      placed_def from_process_def split: if_splits option.splits)

lemma service_step_clients:
  "clients_ok (snd t) \<Longrightarrow> placed (cm_role_attr msg) \<Longrightarrow> clients_ok (snd (service_step msg t))"
  by (auto simp: service_step_def clients_ok_def Multi_Remove_role_def erase_loop_filter server_role_def Let_def)

lemma clients_remove:
  assumes "clients_ok rs"
  shows "fold (\<lambda>c. Multi_Remove_role (service_key c) c) (map snd (filter (\<lambda>it. from_process host pid (ro_attributes (snd it))) rs)) rs =
    filter (\<lambda>it. \<not> from_process host pid (ro_attributes (snd it))) rs"
proof -
  let ?P = "\<lambda>r. from_process host pid (ro_attributes r)"
  let ?gone = "set (map snd (filter (\<lambda>it. ?P (snd it)) rs))"
  have "(\<forall>c \<in> ?gone. \<not> (fst it = service_key c \<and> Role_Match (ro_attributes c) (snd it))) \<longleftrightarrow> \<not> ?P (snd it)"
    if it: "it \<in> set rs" for it
  proof
    assume kept: "\<forall>c \<in> ?gone. \<not> (fst it = service_key c \<and> Role_Match (ro_attributes c) (snd it))"
    have "snd it \<in> ?gone" if "?P (snd it)" using it that by auto
    moreover have "fst it = service_key (snd it)" using it assms by (simp add: clients_ok_def)
    ultimately show "\<not> ?P (snd it)" using kept Role_Match_self [of "snd it"] by blast
  next
    assume "\<not> ?P (snd it)"
    moreover have "?P c" "placed (ro_attributes c)" if "c \<in> ?gone" for c using that assms by (auto simp: clients_ok_def)
    ultimately show "\<forall>c \<in> ?gone. \<not> (fst it = service_key c \<and> Role_Match (ro_attributes c) (snd it))"
      using Match_placed by blast
  qed
  then show ?thesis unfolding fold_remove_role by (intro filter_cong [OF refl]) simp
qed

lemma Service_leave_filter:
  assumes "filed service_key (sm_servers m)" and "clients_ok (sm_clients m)" and "mg_is_discovery_started m"
  shows "sm_servers (fst (ServiceManager_OnTopoModuleLeave now host pid m)) =
      filter (\<lambda>it. \<not> from_process host pid (ro_attributes (snd it))) (sm_servers m)"
    and "sm_clients (fst (ServiceManager_OnTopoModuleLeave now host pid m)) =
      filter (\<lambda>it. \<not> from_process host pid (ro_attributes (snd it))) (sm_clients m)"
  using assms(3) filed_remove [OF assms(1), of "\<lambda>r. from_process host pid (ro_attributes r)"] clients_remove [OF assms(2), of host pid]
  by (simp_all add: ServiceManager_OnTopoModuleLeave_def Single_Search_target_roles_def Multi_Search_target_roles_def collect_loop_filter
      Match_process Let_def Single_Remove_key_delete case_prod_beta)

section \<open>The topology of a running process\<close>

text \<open>
  The changes a running process sees: every join, leave and remote change of a manager ends in its \<open>Dispose\<close>; the
  participants are reported by Fast RTPS.
\<close>

datatype 'g topo_op =
  Node_change ChangeMsg
| Channel_change ChangeMsg
| Service_change ChangeMsg
| Participant_change nat "'g PartInfo"

fun topo_step :: "'g topo_op \<Rightarrow> ('c, 'g) TopologyManager \<Rightarrow> ('c, 'g) TopologyManager" where
  "topo_step (Node_change msg) t =
     t\<lparr>tm_node_manager := fst (on_manager (NodeManager_Dispose msg) (tm_node_manager t) :: _ \<times> ('c, unit) topo_event list)\<rparr>"
| "topo_step (Channel_change msg) t =
     t\<lparr>tm_channel_manager := fst (on_manager (ChannelManager_Dispose msg) (tm_channel_manager t) :: _ \<times> ('c, unit) topo_event list)\<rparr>"
| "topo_step (Service_change msg) t =
     t\<lparr>tm_service_manager := fst (on_manager (ServiceManager_Dispose msg) (tm_service_manager t) :: _ \<times> ('c, unit) topo_event list)\<rparr>"
| "topo_step (Participant_change now info) t = fst (OnParticipantChange now info t :: _ \<times> ('c, unit) topo_event list)"

fun good_op :: "'g topo_op \<Rightarrow> bool" where
  "good_op (Channel_change msg) \<longleftrightarrow> full_attr (cm_role_attr msg)"
| "good_op (Service_change msg) \<longleftrightarrow> placed (cm_role_attr msg)"
| "good_op _ \<longleftrightarrow> True"

fun about_participant :: "'g \<Rightarrow> 'g topo_op \<Rightarrow> bool" where
  "about_participant g (Participant_change now info) \<longleftrightarrow> pi_guid info = g"
| "about_participant g _ \<longleftrightarrow> False"

definition node_ok :: "'c NodeManager option \<Rightarrow> bool" where
  "node_ok p = (case p of None \<Rightarrow> False | Some m \<Rightarrow> mg_is_discovery_started m \<and> filed node_role_key (nm_nodes m))"

definition channel_ok :: "'c ChannelManager option \<Rightarrow> bool" where
  "channel_ok p = (case p of None \<Rightarrow> False | Some m \<Rightarrow> mg_is_discovery_started m \<and> (\<exists>L. roles_rep (tables_of m) L))"

definition service_ok :: "'c ServiceManager option \<Rightarrow> bool" where
  "service_ok p = (case p of None \<Rightarrow> False | Some m \<Rightarrow>
     mg_is_discovery_started m \<and> filed service_key (sm_servers m) \<and> clients_ok (sm_clients m))"

definition topo_inv :: "('c, 'g) TopologyManager \<Rightarrow> bool" where
  "topo_inv t \<longleftrightarrow> tm_init t \<and> node_ok (tm_node_manager t) \<and> channel_ok (tm_channel_manager t) \<and> service_ok (tm_service_manager t)"

lemma fst_on_manager: "fst (on_manager f p) = map_option (\<lambda>m. fst (f m)) p"
  by (cases p) (simp_all add: on_manager_def case_prod_beta)

lemma filed_filter: "filed key rs \<Longrightarrow> filed key (filter P rs)"
  by (auto simp: filed_def distinct_map_filter)

lemma notify_leaves_base [simp]: "base_of (fst (notify_leaves now role rs m)) = base_of m"
  by (induction rs arbitrary: m) (simp_all add: Let_def case_prod_beta Notify_fst)

lemma DisposeLeave_base [simp]: "base_of (fst (ChannelManager_DisposeLeave msg m)) = base_of m"
  by (simp add: ChannelManager_DisposeLeave_def base_of_def Let_def)

lemma channel_leaves_base [simp]: "base_of (fst (channel_leaves now role rs m)) = base_of m"
  by (induction rs arbitrary: m) (simp_all add: Let_def case_prod_beta Notify_fst)

lemma base_of_tables [simp]:
  "base_of (nm\<lparr>nm_nodes := x\<rparr>) = base_of nm" "base_of (sm\<lparr>sm_servers := y\<rparr>) = base_of sm"
  "base_of (sm\<lparr>sm_clients := y\<rparr>) = base_of sm"
  by (simp_all add: base_of_def)

lemma leave_base:
  "base_of (fst (NodeManager_OnTopoModuleLeave now host pid nm)) = base_of nm"
  "base_of (fst (ChannelManager_OnTopoModuleLeave now host pid cm)) = base_of cm"
  "base_of (fst (ServiceManager_OnTopoModuleLeave now host pid sm)) = base_of sm"
  by (simp_all add: NodeManager_OnTopoModuleLeave_def ChannelManager_OnTopoModuleLeave_def ServiceManager_OnTopoModuleLeave_def
      Let_def case_prod_beta)

lemmas leave_started [simp] = leave_base [THEN base_of_eqD(2)]

lemma node_ok_dispose: "node_ok p \<Longrightarrow> node_ok (fst (on_manager (NodeManager_Dispose msg) p))"
  using base_of_eqD(2) [OF node.dispose_base]
  by (auto simp: node_ok_def fst_on_manager node.dispose_tables node_step_filed split: option.splits)

lemma channel_ok_dispose:
  assumes "channel_ok p" and "full_attr (cm_role_attr msg)"
  shows "channel_ok (fst (on_manager (ChannelManager_Dispose msg) p))"
proof -
  obtain m L where m: "p = Some m" "mg_is_discovery_started m" "roles_rep (tables_of m) L"
    using assms(1) by (auto simp: channel_ok_def split: option.splits)
  then show ?thesis
    using roles_rep_step [OF m(3) assms(2)]
    by (auto simp: channel_ok_def fst_on_manager channel.dispose_tables base_of_eqD(2) [OF channel.dispose_base] simp del: split_paired_Ex)
qed

lemma service_ok_dispose:
  assumes "service_ok p" and "placed (cm_role_attr msg)"
  shows "service_ok (fst (on_manager (ServiceManager_Dispose msg) p :: _ \<times> ('c, 'w) topo_event list))"
proof -
  obtain m where m: "p = Some m" "mg_is_discovery_started m" "filed service_key (sm_servers m)" "clients_ok (sm_clients m)"
    using assms(1) by (auto simp: service_ok_def split: option.splits)
  let ?m' = "fst (ServiceManager_Dispose msg m :: _ \<times> ('c, 'w) topo_event list)"
  have "(sm_servers ?m', sm_clients ?m') = service_step msg (sm_servers m, sm_clients m)"
    by (rule service.dispose_tables)
  then show ?thesis
    using m assms(2) service_step_filed [of "(sm_servers m, sm_clients m)" msg] service_step_clients [of "(sm_servers m, sm_clients m)" msg]
    by (simp add: service_ok_def fst_on_manager base_of_eqD(2) [OF service.dispose_base]) (metis fst_conv snd_conv)
qed

text \<open>The leave of a process keeps the three tables in order.\<close>

lemma ok_leave:
  "node_ok np \<Longrightarrow> node_ok (fst (on_manager (NodeManager_OnTopoModuleLeave now host pid) np))"
  "channel_ok cp \<Longrightarrow> channel_ok (fst (on_manager (ChannelManager_OnTopoModuleLeave now host pid) cp))"
  "service_ok sp \<Longrightarrow> service_ok (fst (on_manager (ServiceManager_OnTopoModuleLeave now host pid) sp))"
proof (goal_cases)
  case 1
  then show ?case by (auto simp: node_ok_def fst_on_manager Node_leave_filter filed_filter split: option.splits)
next
  case 2
  then show ?case
    by (auto simp: channel_ok_def fst_on_manager simp del: split_paired_Ex split: option.splits intro: OnTopoModuleLeave_rep)
next
  case 3
  then show ?case
    by (auto simp: service_ok_def fst_on_manager Service_leave_filter filed_filter clients_ok_def split: option.splits)
qed

lemma Convert_keeps:
  "tm_init (snd (TM_Convert now info t)) = tm_init t" "tm_node_manager (snd (TM_Convert now info t)) = tm_node_manager t"
  "tm_channel_manager (snd (TM_Convert now info t)) = tm_channel_manager t"
  "tm_service_manager (snd (TM_Convert now info t)) = tm_service_manager t"
  by (auto simp: TM_Convert_def Let_def case_prod_beta split: discovery_status.split option.splits)

lemma TM_Convert_names:
  "g \<noteq> pi_guid info \<Longrightarrow> tm_participant_names (snd (TM_Convert now info t)) g = tm_participant_names t g"
  by (auto simp: TM_Convert_def Let_def case_prod_beta split: discovery_status.split option.splits)

text \<open>What a change of a participant does to the three managers: nothing, or the leave of one process.\<close>

lemma OnParticipantChange_managers:
  fixes t :: "('c, 'g) TopologyManager" and info :: "'g PartInfo" and now :: nat
  defines "t' \<equiv> fst (OnParticipantChange now info t :: _ \<times> ('c, 'w) topo_event list)"
  shows "tm_init t' = tm_init t" and "tm_participant_names t' = tm_participant_names (snd (TM_Convert now info t))"
    and "(tm_node_manager t', tm_channel_manager t', tm_service_manager t') =
      (case fst (TM_Convert now info t) of
         None \<Rightarrow> (tm_node_manager t, tm_channel_manager t, tm_service_manager t)
       | Some msg \<Rightarrow>
           (let host = pb_get [] (ra_host_name (cm_role_attr msg)); pid = pb_get 0 (ra_process_id (cm_role_attr msg))
            in if tm_init t \<and> cm_operate_type msg = OPT_LEAVE
               then (fst (on_manager (NodeManager_OnTopoModuleLeave now host pid) (tm_node_manager t) :: _ \<times> ('c, 'w) topo_event list),
                     fst (on_manager (ChannelManager_OnTopoModuleLeave now host pid) (tm_channel_manager t) :: _ \<times> ('c, 'w) topo_event list),
                     fst (on_manager (ServiceManager_OnTopoModuleLeave now host pid) (tm_service_manager t) :: _ \<times> ('c, 'w) topo_event list))
               else (tm_node_manager t, tm_channel_manager t, tm_service_manager t)))"
  using Convert_keeps [of now info t]
  by (auto simp: t'_def OnParticipantChange_def Let_def case_prod_beta split: option.splits prod.splits)

lemma topo_step_inv: "topo_inv t \<Longrightarrow> good_op op \<Longrightarrow> topo_inv (topo_step op t)"
proof (cases op)
  case (Participant_change now info)
  assume "topo_inv t"
  then show ?thesis
    using OnParticipantChange_managers [of now info t, where ?'w = unit] Participant_change ok_leave
    by (auto simp: topo_inv_def Let_def split: option.splits if_splits)
qed (auto simp: topo_inv_def node_ok_dispose channel_ok_dispose service_ok_dispose)

lemma topo_run_inv: "topo_inv t \<Longrightarrow> \<forall>op \<in> set ops. good_op op \<Longrightarrow> topo_inv (fold topo_step ops t)"
  by (induction ops arbitrary: t) (simp_all add: topo_step_inv)

lemma topo_step_names:
  "\<not> about_participant g op \<Longrightarrow> tm_participant_names (topo_step op t) g = tm_participant_names t g"
  by (cases op) (simp_all add: OnParticipantChange_managers TM_Convert_names)

lemma topo_run_names:
  "\<forall>op \<in> set ops. \<not> about_participant g op \<Longrightarrow> tm_participant_names (fold topo_step ops t) g = tm_participant_names t g"
  by (induction ops arbitrary: t) (simp_all add: topo_step_names)

lemma StartDiscovery_ok: "StartDiscovery h pub sub m = (True, m') \<Longrightarrow> mg_is_discovery_started m'"
  by (auto simp: StartDiscovery_def CreatePublisher_def CreateSubscriber_def Let_def split: if_splits)

lemma StartDiscovery_tables:
  "StartDiscovery h pub sub nm = (ok, nm') \<Longrightarrow> nm_nodes nm' = nm_nodes nm"
  "StartDiscovery h pub sub cm = (ok, cm') \<Longrightarrow> tables_of cm' = tables_of cm"
  "StartDiscovery h pub sub sm = (ok, sm') \<Longrightarrow> sm_servers sm' = sm_servers sm"
  "StartDiscovery h pub sub sm = (ok, sm') \<Longrightarrow> sm_clients sm' = sm_clients sm"
  by (auto simp: StartDiscovery_def CreatePublisher_def CreateSubscriber_def StopDiscovery_def tables_of_def Let_def split: if_splits)

lemma ctor_tables:
  "nm_nodes (NodeManager_ctor host pid) = []" "sm_servers (ServiceManager_ctor host pid) = []"
  "sm_clients (ServiceManager_ctor host pid) = []"
  by (simp_all add: NodeManager_ctor_def ServiceManager_ctor_def NodeManager.defs ServiceManager.defs Manager.defs)

lemma Init_inv:
  assumes "TM_Init env er host pid exempted TM_empty = (True, t)"
  shows "topo_inv t" and "\<exists>nm. tm_node_manager t = Some nm \<and> nm_nodes nm = []"
proof -
  obtain h1 h2 h3 nm cm sm where started:
    "StartDiscovery h1 (fst (er_node er)) (snd (er_node er)) (NodeManager_ctor host pid) = (True, nm)"
    "StartDiscovery h2 (fst (er_channel er)) (snd (er_channel er)) (ChannelManager_ctor host pid exempted) = (True, cm)"
    "StartDiscovery h3 (fst (er_service er)) (snd (er_service er)) (ServiceManager_ctor host pid) = (True, sm)"
    and t: "tm_init t" "tm_node_manager t = Some nm" "tm_channel_manager t = Some cm" "tm_service_manager t = Some sm"
    using assms
    by (auto simp: TM_Init_def TM_empty_def CreateParticipant_def Let_def case_prod_beta prod_eq_iff split: if_splits)
  note tables = StartDiscovery_tables(1) [OF started(1)] StartDiscovery_tables(2) [OF started(2)] StartDiscovery_tables(3,4) [OF started(3)]
  have "roles_rep (tables_of cm) ([], [])" by (simp add: tables tables_ctor roles_rep_def keyed_by_def)
  then show "topo_inv t"
    using t started [THEN StartDiscovery_ok] tables
    by (auto simp: topo_inv_def node_ok_def channel_ok_def service_ok_def clients_ok_def ctor_tables)
  show "\<exists>nm. tm_node_manager t = Some nm \<and> nm_nodes nm = []" using t tables(1) by (simp add: ctor_tables)
qed

text \<open>
  A process is announced as \<open>host+pid\<close> and \<open>ParseParticipantName\<close> gives back the host and the process identifier, whatever
  the sign of the latter, as long as the host name has no plus sign.
\<close>

theorem ParseParticipantName_roundtrip:
  assumes "CHR ''+'' \<notin> set host" and "- (2 ^ 31) \<le> pid" and "pid < 2 ^ 31"
  shows "ParseParticipantName (participant_name host pid) = Some (host, pid)"
  using stoi_to_string [of pid "[]"] assms by (simp add: ParseParticipantName_def participant_name_def)

theorem ParseParticipantName_roundtrip_witness:
  "ParseParticipantName (participant_name ''robot'' 4711) = Some (''robot'', 4711)"
  using ParseParticipantName_roundtrip [of "''robot''" 4711] by simp

definition known_nodes :: "('c, 'g) TopologyManager \<Rightarrow> RoleAttributes list" where
  "known_nodes t = (case tm_node_manager t of None \<Rightarrow> [] | Some m \<Rightarrow> GetNodes m [])"

definition known_writers :: "('c, 'g) TopologyManager \<Rightarrow> RoleAttributes list" where
  "known_writers t = (case tm_channel_manager t of None \<Rightarrow> [] | Some m \<Rightarrow> GetWriters m [])"

definition known_readers :: "('c, 'g) TopologyManager \<Rightarrow> RoleAttributes list" where
  "known_readers t = (case tm_channel_manager t of None \<Rightarrow> [] | Some m \<Rightarrow> GetReaders m [])"

definition known_servers :: "('c, 'g) TopologyManager \<Rightarrow> RoleAttributes list" where
  "known_servers t = (case tm_service_manager t of None \<Rightarrow> [] | Some m \<Rightarrow> GetServers m [])"

definition known_clients :: "(string \<Rightarrow> nat) \<Rightarrow> string \<Rightarrow> ('c, 'g) TopologyManager \<Rightarrow> RoleAttributes list" where
  "known_clients hash service t = (case tm_service_manager t of None \<Rightarrow> [] | Some m \<Rightarrow> GetClients hash service m [])"

lemmas known_defs = known_nodes_def known_writers_def known_readers_def known_servers_def known_clients_def

lemma leave_known:
  fixes t :: "('c, 'g) TopologyManager"
  assumes "topo_inv t" and "\<And>a. keep a \<longleftrightarrow> \<not> from_process host pid a"
    and "tm_node_manager t' = fst (on_manager (NodeManager_OnTopoModuleLeave now host pid) (tm_node_manager t) :: _ \<times> ('c, 'w) topo_event list)"
    and "tm_channel_manager t' = fst (on_manager (ChannelManager_OnTopoModuleLeave now host pid) (tm_channel_manager t) :: _ \<times> ('c, 'w) topo_event list)"
    and "tm_service_manager t' = fst (on_manager (ServiceManager_OnTopoModuleLeave now host pid) (tm_service_manager t) :: _ \<times> ('c, 'w) topo_event list)"
  shows "known_nodes t' = filter keep (known_nodes t)" "known_writers t' = filter keep (known_writers t)"
    "known_readers t' = filter keep (known_readers t)" "known_servers t' = filter keep (known_servers t)"
    "known_clients hash service t' = filter keep (known_clients hash service t)"
proof -
  obtain nm cm sm L where m: "tm_node_manager t = Some nm" "tm_channel_manager t = Some cm" "tm_service_manager t = Some sm"
    and ok: "filed node_role_key (nm_nodes nm)" "mg_is_discovery_started nm" "roles_rep (tables_of cm) L" "mg_is_discovery_started cm"
      "filed service_key (sm_servers sm)" "clients_ok (sm_clients sm)" "mg_is_discovery_started sm"
    using assms(1)
    by (auto simp: topo_inv_def node_ok_def channel_ok_def service_ok_def simp del: split_paired_Ex split: option.splits)
  note rep = OnTopoModuleLeave_rep [OF ok(3,4), of now host pid, where ?'w = 'w]
  show "known_nodes t' = filter keep (known_nodes t)"
    by (simp add: known_defs m assms(2,3) fst_on_manager GetNodes_def Single_GetAllRoles_attrs_def Node_leave_filter [OF ok(1,2)]
        filter_map o_def)
  show "known_writers t' = filter keep (known_writers t)" "known_readers t' = filter keep (known_readers t)"
    by (simp_all add: known_defs m assms(2,4) fst_on_manager queries_rep [OF ok(3)] queries_rep [OF rep] filter_map o_def)
  show "known_servers t' = filter keep (known_servers t)" "known_clients hash service t' = filter keep (known_clients hash service t)"
    by (simp_all add: known_defs m assms(2,5) fst_on_manager GetServers_def GetClients_def Single_GetAllRoles_attrs_def
        Multi_Search_key_attrs_def collect_loop_filter Service_leave_filter [OF ok(5-7)] filter_map o_def conj_commute)
qed

lemma DISCOVERED_names:
  "tm_participant_names (topo_step (Participant_change n \<lparr>pi_guid = g, pi_status = DISCOVERED_RTPSPARTICIPANT, pi_name = name\<rparr>) t) g = Some name"
  by (simp add: OnParticipantChange_managers TM_Convert_def Let_def split: option.splits)

lemma DISCOVERED_node_manager:
  "pi_status info = DISCOVERED_RTPSPARTICIPANT \<Longrightarrow>
     tm_node_manager (fst (OnParticipantChange n info t :: _ \<times> ('c, 'w) topo_event list)) = tm_node_manager t"
  using OnParticipantChange_managers(3) [of n info t, where ?'w = 'w]
  by (auto simp: TM_Convert_def Let_def split: option.splits)

lemma TM_Convert_lost:
  assumes "tm_participant_names t g = Some name" and "ParseParticipantName name = Some (host, pid)"
    and "status \<in> {REMOVED_RTPSPARTICIPANT, DROPPED_RTPSPARTICIPANT}"
  shows "fst (TM_Convert now \<lparr>pi_guid = g, pi_status = status, pi_name = n\<rparr> t) =
    Some \<lparr>cm_timestamp = now, cm_change_type = CHANGE_PARTICIPANT, cm_operate_type = OPT_LEAVE, cm_role_type = ROLE_PARTICIPANT,
      cm_role_attr = process_attr host pid\<rparr>"
  using assms by (auto simp: TM_Convert_def Let_def)

text \<open>
  C18: When Fast RTPS reports that a participant is gone, the process forgets exactly the nodes, writers, readers, servers and clients of
  the process that announced itself by that participant, and keeps all others in order. This holds in every run of
  changes after a successful \<open>Init\<close>, for a participant discovered under the name \<open>host+pid\<close> and not reported since. The identifying
  attributes of channel roles, and the host and process of services, must be set in the changes.
\<close>

theorem lost_participant_forgotten:
  fixes t0 :: "('c, 'g) TopologyManager"
  assumes "TM_Init env er host0 pid0 exempted TM_empty = (True, t0)"
    and "\<forall>op \<in> set (ops1 @ ops2). good_op op" and "\<forall>op \<in> set ops2. \<not> about_participant g op"
    and "CHR ''+'' \<notin> set host" and "- (2 ^ 31) \<le> pid" and "pid < 2 ^ 31"
    and "status \<in> {REMOVED_RTPSPARTICIPANT, DROPPED_RTPSPARTICIPANT}"
    and "t = fold topo_step (ops1 @ [Participant_change n1
        \<lparr>pi_guid = g, pi_status = DISCOVERED_RTPSPARTICIPANT, pi_name = participant_name host pid\<rparr>] @ ops2) t0"
    and "t' = topo_step (Participant_change n2 \<lparr>pi_guid = g, pi_status = status, pi_name = name\<rparr>) t"
  shows "known_nodes t' = filter (\<lambda>a. \<not> from_process host pid a) (known_nodes t) \<and>
    known_writers t' = filter (\<lambda>a. \<not> from_process host pid a) (known_writers t) \<and>
    known_readers t' = filter (\<lambda>a. \<not> from_process host pid a) (known_readers t) \<and>
    known_servers t' = filter (\<lambda>a. \<not> from_process host pid a) (known_servers t) \<and>
    known_clients hash service t' = filter (\<lambda>a. \<not> from_process host pid a) (known_clients hash service t) \<and>
    tm_participant_names t' g = None"
proof -
  have inv: "topo_inv t" unfolding assms(8) using assms(2) by (intro topo_run_inv Init_inv(1) [OF assms(1)]) auto
  have known: "tm_participant_names t g = Some (participant_name host pid)"
    unfolding assms(8) by (simp add: topo_run_names [OF assms(3)] DISCOVERED_names del: topo_step.simps)
  have parse: "ParseParticipantName (participant_name host pid) = Some (host, pid)"
    using stoi_to_string [of pid "[]"] assms(4-6) by (simp add: ParseParticipantName_def participant_name_def)
  let ?info = "\<lparr>pi_guid = g, pi_status = status, pi_name = name\<rparr>"
  note change = OnParticipantChange_managers [of n2 ?info t, where ?'w = unit]
  have leave: "tm_node_manager t' = fst (on_manager (NodeManager_OnTopoModuleLeave n2 host pid) (tm_node_manager t) :: _ \<times> ('c, unit) topo_event list)"
    "tm_channel_manager t' = fst (on_manager (ChannelManager_OnTopoModuleLeave n2 host pid) (tm_channel_manager t) :: _ \<times> ('c, unit) topo_event list)"
    "tm_service_manager t' = fst (on_manager (ServiceManager_OnTopoModuleLeave n2 host pid) (tm_service_manager t) :: _ \<times> ('c, unit) topo_event list)"
    using change(3) inv TM_Convert_lost [OF known parse assms(7), of n2 name]
    by (simp_all add: assms(9) topo_inv_def process_attr_def pb_get_def)
  have "tm_participant_names t' g = None"
    using change(2) known assms(7) by (auto simp: assms(9) TM_Convert_def Let_def split: option.splits)
  then show ?thesis using leave_known(1-4) [OF inv refl leave] leave_known(5) [OF inv refl leave, of hash service] by simp
qed

definition ready_env :: rtps_env where
  "ready_env = \<lparr>env_domain_id = None, env_ip = None,
     env_conf = \<lparr>lease_duration = 12, announcement_period = 3, domain_id_gain = 200, port_base = 10000\<rparr>,
     env_set_ip = (\<lambda>_. True), env_create = (\<lambda>_. True)\<rparr>"

definition ready_endpoints :: endpoint_results where
  "ready_endpoints = \<lparr>er_node = ((True, True), (True, True)), er_channel = ((True, True), (True, True)),
     er_service = ((True, True), (True, True))\<rparr>"

definition ready_topology :: "(unit, nat) TopologyManager" where
  "ready_topology = snd (TM_Init ready_env ready_endpoints ''host'' 1 [] TM_empty)"

lemma ready_Init: "TM_Init ready_env ready_endpoints ''host'' 1 [] TM_empty = (True, ready_topology)"
  by (simp add: ready_topology_def TM_Init_def TM_empty_def ready_env_def ready_endpoints_def fastrtps_participant_def Participant_ctor_def
      CreateFastRtpsParticipant_def StartDiscovery_def CreatePublisher_def CreateSubscriber_def NodeManager_ctor_def
      ServiceManager_ctor_def ChannelManager_ctor_def NodeManager.defs ServiceManager.defs ChannelManager.defs Manager.defs Let_def)

theorem lost_participant_forgotten_witness:
  "known_nodes (topo_step (Participant_change 9 \<lparr>pi_guid = 5, pi_status = DROPPED_RTPSPARTICIPANT, pi_name = []\<rparr>)
     (fold topo_step [Node_change (node_msg 10 2 7), Participant_change 8
        \<lparr>pi_guid = 5, pi_status = DISCOVERED_RTPSPARTICIPANT, pi_name = participant_name ''host'' 2\<rparr>] ready_topology)) = []"
proof -
  let ?t = "fold topo_step ([Node_change (node_msg 10 2 7)] @ [Participant_change 8
        \<lparr>pi_guid = 5, pi_status = DISCOVERED_RTPSPARTICIPANT, pi_name = participant_name ''host'' 2\<rparr>] @ []) ready_topology"
  have "known_nodes (topo_step (Participant_change 9 \<lparr>pi_guid = 5, pi_status = DROPPED_RTPSPARTICIPANT, pi_name = []\<rparr>) ?t) =
      filter (\<lambda>a. \<not> from_process ''host'' 2 a) (known_nodes ?t)"
    by (rule lost_participant_forgotten [OF ready_Init _ _ _ _ _ _ refl refl, THEN conjunct1]) simp_all
  also have "known_nodes ?t = [cm_role_attr (node_msg 10 2 7)]"
  proof -
    obtain nm where nm: "tm_node_manager ready_topology = Some nm" "nm_nodes nm = []"
      using Init_inv(2) [OF ready_Init] by blast
    have "tm_node_manager ?t = Some (fst (NodeManager_Dispose (node_msg 10 2 7) nm :: _ \<times> (unit, unit) topo_event list))"
      by (simp add: DISCOVERED_node_manager fst_on_manager nm)
    then show ?thesis
      by (simp add: known_nodes_def GetNodes_def Single_GetAllRoles_attrs_def node.dispose_tables nm node_step_def node_msg_def role_of_def)
  qed
  finally show ?thesis by (simp add: node_msg_def process_attr_def from_process_def pb_get_def)
qed

section \<open>Starting and stopping\<close>

datatype 'g life_op =
  Life_Init rtps_env endpoint_results string int "string list"
| Life_Shutdown
| Life_change "'g topo_op"

fun life_step :: "'g life_op \<Rightarrow> ('c, 'g) TopologyManager \<Rightarrow> ('c, 'g) TopologyManager" where
  "life_step (Life_Init env er host pid exempted) t = snd (TM_Init env er host pid exempted t)"
| "life_step Life_Shutdown t = TM_Shutdown t"
| "life_step (Life_change op) t = topo_step op t"

text \<open>A manager in use, and one that is gone or shut down.\<close>

definition manager_live :: "('c, 'z) Manager_scheme option \<Rightarrow> bool" where
  "manager_live p = (case p of None \<Rightarrow> False | Some m \<Rightarrow> \<not> mg_is_shutdown m \<and> mg_is_discovery_started m)"

definition manager_down :: "('c, 'z) Manager_scheme option \<Rightarrow> bool" where
  "manager_down p = (case p of None \<Rightarrow> True | Some m \<Rightarrow> mg_is_shutdown m \<and> \<not> mg_is_discovery_started m)"

definition tm_wf :: "('c, 'g) TopologyManager \<Rightarrow> bool" where
  "tm_wf t =
     (if tm_init t
      then manager_live (tm_node_manager t) \<and> manager_live (tm_channel_manager t) \<and> manager_live (tm_service_manager t) \<and>
           tm_participant_listener t \<and> (case tm_participant t of None \<Rightarrow> False | Some p \<Rightarrow> \<not> pt_shutdown p)
      else manager_down (tm_node_manager t) \<and> manager_down (tm_channel_manager t) \<and> manager_down (tm_service_manager t) \<and>
           \<not> tm_participant_listener t \<and> (case tm_participant t of None \<Rightarrow> True | Some p \<Rightarrow> pt_shutdown p))"

lemma manager_base:
  assumes "\<And>m. base_of (fst (f m)) = base_of m"
  shows "manager_live (fst (on_manager f p)) = manager_live p" "manager_down (fst (on_manager f p)) = manager_down p"
  using base_of_eqD(1,2) [OF assms] by (cases p; simp add: manager_live_def manager_down_def fst_on_manager)+

lemmas manager_base_simps [simp] =
  manager_base [of "NodeManager_Dispose msg" for msg, OF node.dispose_base] manager_base [of "ChannelManager_Dispose msg" for msg, OF channel.dispose_base]
  manager_base [of "ServiceManager_Dispose msg" for msg, OF service.dispose_base]
  manager_base [of "NodeManager_OnTopoModuleLeave now host pid" for now host pid, OF leave_base(1)]
  manager_base [of "ChannelManager_OnTopoModuleLeave now host pid" for now host pid, OF leave_base(2)]
  manager_base [of "ServiceManager_OnTopoModuleLeave now host pid" for now host pid, OF leave_base(3)]

lemma Manager_Shutdown_down [simp]: "manager_live p \<Longrightarrow> manager_down (map_option Manager_Shutdown p)"
  by (auto simp: manager_live_def manager_down_def Manager_Shutdown_def StopDiscovery_def Let_def split: option.splits)

lemma Shutdown_wf: "tm_wf t \<Longrightarrow> tm_wf (TM_Shutdown t)"
  by (auto simp: tm_wf_def TM_Shutdown_def Participant_Shutdown_def Let_def split: option.splits)

lemma TM_Convert_rest:
  "tm_participant_listener (snd (TM_Convert now info t)) = tm_participant_listener t"
  "tm_participant (snd (TM_Convert now info t)) = tm_participant t"
  by (auto simp: TM_Convert_def Let_def case_prod_beta split: discovery_status.split option.splits)

lemma OnParticipantChange_wf: "tm_wf t \<Longrightarrow> tm_wf (fst (OnParticipantChange now info t))"
  using Convert_keeps [of now info t] TM_Convert_rest [of now info t]
  by (auto simp: OnParticipantChange_def tm_wf_def Let_def case_prod_beta split: option.splits prod.splits if_splits)

lemma fastrtps_participant_up: "\<not> pt_shutdown p \<Longrightarrow> \<not> pt_shutdown (snd (fastrtps_participant env p))"
  by (auto simp: fastrtps_participant_def CreateFastRtpsParticipant_def Let_def split: sum.splits)

lemma StartDiscovery_live:
  "fst (StartDiscovery h pub sub m) \<Longrightarrow> \<not> mg_is_shutdown m \<Longrightarrow> manager_live (Some (snd (StartDiscovery h pub sub m)))"
  by (auto simp: StartDiscovery_def CreatePublisher_def CreateSubscriber_def manager_live_def Let_def split: if_splits)

lemma ctor_not_shutdown [simp]:
  "\<not> mg_is_shutdown (NodeManager_ctor host pid)" "\<not> mg_is_shutdown (ChannelManager_ctor host pid ex)"
  "\<not> mg_is_shutdown (ServiceManager_ctor host pid)"
  by (simp_all add: NodeManager_ctor_def ServiceManager_ctor_def ChannelManager_ctor_def NodeManager.defs ServiceManager.defs
      ChannelManager.defs Manager.defs Manager_ctor_def)

lemma Init_wf: "tm_wf t \<Longrightarrow> tm_wf (snd (TM_Init env er host pid ex t))"
  by (auto simp: TM_Init_def tm_wf_def CreateParticipant_def manager_down_def Let_def case_prod_beta StartDiscovery_live
      fastrtps_participant_up Participant_ctor_def)

lemma life_step_wf: "tm_wf t \<Longrightarrow> tm_wf (life_step op t)"
proof (cases op)
  case (Life_change c)
  assume "tm_wf t"
  then show ?thesis using Life_change by (cases c) (simp_all add: OnParticipantChange_wf, auto simp: tm_wf_def)
qed (simp_all add: Init_wf Shutdown_wf)

text \<open>
  C37: In every history of starts, failed starts, shutdowns and changes, the topology manager is either fully up or fully down. Up:
  the three managers exist, are started and not shut down, and the participant and its listener are alive, so that no
  handler follows a null pointer. Down: nothing of it is left running.
\<close>

theorem TopologyManager_all_or_nothing: "tm_wf (fold life_step ops (TM_empty :: ('c, 'g) TopologyManager))"
proof -
  have "tm_wf (fold life_step ops t)" if "tm_wf t" for t :: "('c, 'g) TopologyManager"
    using that by (induction ops arbitrary: t) (simp_all add: life_step_wf)
  moreover have "tm_wf (TM_empty :: ('c, 'g) TopologyManager)" by (simp add: tm_wf_def TM_empty_def manager_down_def)
  ultimately show ?thesis by blast
qed

end
