(* ===== verification/Time_Rate.thy ===== *)
theory Time_Rate
  imports Global_Data "HOL-Library.Word"
begin

text \<open>
  \<open>cyber/time\<close>: time stamps (\<open>uint64_t\<close> nanoseconds), durations (\<open>int64_t\<close> nanoseconds), the process clock and \<open>Rate\<close>, which paces
  a loop. Both classes hold a 64-bit word; a duration is compared as a signed number, a time stamp as an unsigned one. The
  sums and differences wrap around; for durations the C++ result is defined only without overflow, which is when the word
  result is exact (\<open>Duration_plus_exact\<close>). A conversion from \<open>double\<close> is the parameter \<open>cast\<close>; the reading of the
  system clocks is an argument.
\<close>

section \<open>Duration and Time\<close>

record Duration =
  du_nanoseconds :: "64 word"

record Time =
  ti_nanoseconds :: "64 word"

definition Duration_int64 :: "64 word \<Rightarrow> Duration" where
  "Duration_int64 nanoseconds = \<lparr>du_nanoseconds = nanoseconds\<rparr>"

definition Duration_int :: "32 word \<Rightarrow> Duration" where
  "Duration_int nanoseconds = \<lparr>du_nanoseconds = scast nanoseconds\<rparr>"

definition Duration_double :: "('d \<Rightarrow> 64 word) \<Rightarrow> 'd \<Rightarrow> Duration" where
  "Duration_double cast seconds = \<lparr>du_nanoseconds = cast seconds\<rparr>"

definition Duration_sec_nsec :: "32 word \<Rightarrow> 32 word \<Rightarrow> Duration" where
  "Duration_sec_nsec seconds nanoseconds = \<lparr>du_nanoseconds = ucast seconds * 1000000000 + ucast nanoseconds\<rparr>"

definition Duration_IsZero :: "Duration \<Rightarrow> bool" where
  "Duration_IsZero d \<longleftrightarrow> du_nanoseconds d = 0"

definition Duration_plus :: "Duration \<Rightarrow> Duration \<Rightarrow> Duration" where
  "Duration_plus d rhs = Duration_int64 (du_nanoseconds d + du_nanoseconds rhs)"

definition Duration_minus :: "Duration \<Rightarrow> Duration \<Rightarrow> Duration" where
  "Duration_minus d rhs = Duration_int64 (du_nanoseconds d - du_nanoseconds rhs)"

definition Duration_uminus :: "Duration \<Rightarrow> Duration" where
  "Duration_uminus d = Duration_int64 (- du_nanoseconds d)"

definition Duration_less :: "Duration \<Rightarrow> Duration \<Rightarrow> bool" where
  "Duration_less d rhs \<longleftrightarrow> du_nanoseconds d <s du_nanoseconds rhs"

definition Duration_le :: "Duration \<Rightarrow> Duration \<Rightarrow> bool" where
  "Duration_le d rhs \<longleftrightarrow> du_nanoseconds d \<le>s du_nanoseconds rhs"

definition Time_uint64 :: "64 word \<Rightarrow> Time" where
  "Time_uint64 nanoseconds = \<lparr>ti_nanoseconds = nanoseconds\<rparr>"

definition Time_int :: "32 word \<Rightarrow> Time" where
  "Time_int nanoseconds = \<lparr>ti_nanoseconds = scast nanoseconds\<rparr>"

definition Time_double :: "('d \<Rightarrow> 64 word) \<Rightarrow> 'd \<Rightarrow> Time" where
  "Time_double cast seconds = \<lparr>ti_nanoseconds = cast seconds\<rparr>"

definition Time_sec_nsec :: "32 word \<Rightarrow> 32 word \<Rightarrow> Time" where
  "Time_sec_nsec seconds nanoseconds = \<lparr>ti_nanoseconds = ucast seconds * 1000000000 + ucast nanoseconds\<rparr>"

definition Time_MAX :: Time where
  "Time_MAX = Time_uint64 (- 1)"

definition Time_MIN :: Time where
  "Time_MIN = Time_uint64 0"

definition Time_IsZero :: "Time \<Rightarrow> bool" where
  "Time_IsZero t \<longleftrightarrow> ti_nanoseconds t = 0"

definition Time_diff :: "Time \<Rightarrow> Time \<Rightarrow> Duration" where
  "Time_diff t rhs = Duration_int64 (ti_nanoseconds t - ti_nanoseconds rhs)"

definition Time_plus :: "Time \<Rightarrow> Duration \<Rightarrow> Time" where
  "Time_plus t rhs = Time_uint64 (ti_nanoseconds t + du_nanoseconds rhs)"

definition Time_minus :: "Time \<Rightarrow> Duration \<Rightarrow> Time" where
  "Time_minus t rhs = Time_uint64 (ti_nanoseconds t - du_nanoseconds rhs)"

definition Time_less :: "Time \<Rightarrow> Time \<Rightarrow> bool" where
  "Time_less t rhs \<longleftrightarrow> ti_nanoseconds t < ti_nanoseconds rhs"

definition Time_le :: "Time \<Rightarrow> Time \<Rightarrow> bool" where
  "Time_le t rhs \<longleftrightarrow> ti_nanoseconds t \<le> ti_nanoseconds rhs"

section \<open>Clock\<close>

record Clock =
  ck_mode :: ClockMode
  ck_mock_now :: Time

definition Clock_ctor :: "ClockMode \<Rightarrow> Clock" where
  "Clock_ctor clock_mode = \<lparr>ck_mode = clock_mode, ck_mock_now = Time_int 0\<rparr>"

definition Clock_Now :: "Time \<Rightarrow> Clock \<Rightarrow> Time" where
  "Clock_Now system_now c = (case ck_mode c of MODE_CYBER \<Rightarrow> system_now | MODE_MOCK \<Rightarrow> ck_mock_now c)"

definition SetMode :: "ClockMode \<Rightarrow> Clock \<Rightarrow> Clock" where
  "SetMode mode c = c\<lparr>ck_mode := mode, ck_mock_now := Time_int 0\<rparr>"

definition SetNow :: "Time \<Rightarrow> Clock \<Rightarrow> Clock" where
  "SetNow now c = (if ck_mode c \<noteq> MODE_MOCK then c else c\<lparr>ck_mock_now := now\<rparr>)"

section \<open>Rate\<close>

record Rate =
  rt_start :: Time
  rt_expected_cycle_time :: Duration
  rt_actual_cycle_time :: Duration

definition Rate_double :: "('d \<Rightarrow> 'd) \<Rightarrow> ('d \<Rightarrow> 64 word) \<Rightarrow> Time \<Rightarrow> 'd \<Rightarrow> Rate" where
  "Rate_double inverse_of cast now frequency =
     \<lparr>rt_start = now, rt_expected_cycle_time = Duration_double cast (inverse_of frequency), rt_actual_cycle_time = Duration_int64 0\<rparr>"

definition Rate_uint64 :: "Time \<Rightarrow> 64 word \<Rightarrow> Rate" where
  "Rate_uint64 now nanoseconds =
     \<lparr>rt_start = now, rt_expected_cycle_time = Duration_int64 nanoseconds, rt_actual_cycle_time = Duration_int64 0\<rparr>"

definition Rate_Duration :: "Time \<Rightarrow> Duration \<Rightarrow> Rate" where
  "Rate_Duration now d = \<lparr>rt_start = now, rt_expected_cycle_time = d, rt_actual_cycle_time = Duration_int64 0\<rparr>"

text \<open>\<open>Sleep\<close> reads the clock once; the second result is the time it sleeps until, if it sleeps.\<close>

definition Rate_Sleep :: "Time \<Rightarrow> Rate \<Rightarrow> Rate \<times> Time option" where
  "Rate_Sleep actual_end r =
     (let expected_end0 = Time_plus (rt_start r) (rt_expected_cycle_time r);
          expected_end = (if Time_less actual_end (rt_start r) then Time_plus actual_end (rt_expected_cycle_time r) else expected_end0);
          sleep_time = Time_diff expected_end actual_end;
          r1 = r\<lparr>rt_actual_cycle_time := Time_diff actual_end (rt_start r), rt_start := expected_end\<rparr>
      in if Duration_less sleep_time (Duration_int64 0)
         then (if Time_less (Time_plus expected_end (rt_expected_cycle_time r1)) actual_end
               then (r1\<lparr>rt_start := actual_end\<rparr>, None) else (r1, None))
         else (r1, Some expected_end))"

definition Rate_Reset :: "Time \<Rightarrow> Rate \<Rightarrow> Rate" where
  "Rate_Reset now r = r\<lparr>rt_start := now\<rparr>"

definition CycleTime :: "Rate \<Rightarrow> Duration" where
  "CycleTime r = rt_actual_cycle_time r"

definition ExpectedCycleTime :: "Rate \<Rightarrow> Duration" where
  "ExpectedCycleTime r = rt_expected_cycle_time r"

section \<open>The words as numbers\<close>

definition time_val :: "Time \<Rightarrow> int" where
  "time_val t = uint (ti_nanoseconds t)"

definition dur_val :: "Duration \<Rightarrow> int" where
  "dur_val d = sint (du_nanoseconds d)"

lemma time_val_range: "0 \<le> time_val t" "time_val t < 2 ^ 64"
  using uint_bounded [of "ti_nanoseconds t"] by (simp_all add: time_val_def)

lemma Time_less_val: "Time_less a b \<longleftrightarrow> time_val a < time_val b"
  by (simp add: Time_less_def time_val_def word_less_def)

lemma Duration_less_val: "Duration_less a b \<longleftrightarrow> dur_val a < dur_val b"
  by (simp add: Duration_less_def dur_val_def word_sless_alt)

text \<open>Without overflow the operations are those of the integers.\<close>

lemma uint_of_int64: "0 \<le> i \<Longrightarrow> i < 2 ^ 64 \<Longrightarrow> uint (of_int i :: 64 word) = i"
  by (simp add: unsigned_of_int take_bit_int_eq_self)

lemma sint_of_int64: "- (2 ^ 63) \<le> i \<Longrightarrow> i < 2 ^ 63 \<Longrightarrow> sint (of_int i :: 64 word) = i"
  by (simp add: signed_of_int signed_take_bit_int_eq_self)

lemma Time_plus_exact:
  assumes "0 \<le> time_val t + dur_val d" and "time_val t + dur_val d < 2 ^ 64"
  shows "time_val (Time_plus t d) = time_val t + dur_val d"
proof -
  have "ti_nanoseconds (Time_plus t d) = of_int (time_val t + dur_val d)"
    by (simp add: Time_plus_def Time_uint64_def time_val_def dur_val_def)
  then show ?thesis using uint_of_int64 [OF assms] by (simp add: time_val_def)
qed

lemma Time_diff_exact:
  assumes "- (2 ^ 63) \<le> time_val a - time_val b" and "time_val a - time_val b < 2 ^ 63"
  shows "dur_val (Time_diff a b) = time_val a - time_val b"
proof -
  have "du_nanoseconds (Time_diff a b) = of_int (time_val a - time_val b)"
    by (simp add: Time_diff_def Duration_int64_def time_val_def)
  then show ?thesis using sint_of_int64 [OF assms] by (simp add: dur_val_def)
qed

lemma Duration_plus_exact:
  assumes "- (2 ^ 63) \<le> dur_val a + dur_val b" and "dur_val a + dur_val b < 2 ^ 63"
  shows "dur_val (Duration_plus a b) = dur_val a + dur_val b"
proof -
  have "du_nanoseconds (Duration_plus a b) = of_int (dur_val a + dur_val b)"
    by (simp add: Duration_plus_def Duration_int64_def dur_val_def)
  then show ?thesis using sint_of_int64 [OF assms] by (simp add: dur_val_def)
qed

lemma dur_val_0 [simp]: "dur_val (Duration_int64 0) = 0"
  by (simp add: dur_val_def Duration_int64_def)

text \<open>The group laws hold with wrap-around, for all values.\<close>

lemma Time_plus_diff: "Time_plus b (Time_diff a b) = a"
  by (simp add: Time_plus_def Time_diff_def Time_uint64_def Duration_int64_def)

lemma Time_minus_plus: "Time_minus (Time_plus t d) d = t" "Time_diff (Time_plus t d) t = d"
  by (simp_all add: Time_plus_def Time_minus_def Time_diff_def Time_uint64_def Duration_int64_def)

section \<open>The pace of a loop\<close>

text \<open>
  Times far from the ends of the 64-bit range: up to half of it, with a cycle of up to an eighth. The year 2262 is the bound of the
  first.
\<close>

definition rate_ok :: "Rate \<Rightarrow> bool" where
  "rate_ok r \<longleftrightarrow> 0 \<le> dur_val (rt_expected_cycle_time r) \<and> dur_val (rt_expected_cycle_time r) < 2 ^ 61"

definition early :: "Time \<Rightarrow> bool" where
  "early t \<longleftrightarrow> time_val t < 2 ^ 62"

text \<open>\<open>Sleep\<close> over the integers.\<close>

definition sleep_start :: "int \<Rightarrow> int \<Rightarrow> int \<Rightarrow> int" where
  "sleep_start cycle start now =
     (if now < start then now + cycle else if now > start + 2 * cycle \<and> now > start + cycle then now else start + cycle)"

lemma Rate_Sleep_val:
  assumes "rate_ok r" and "time_val (rt_start r) < 2 ^ 62 + 2 ^ 61" and "early now" and "Rate_Sleep now r = (r', until)"
  shows "time_val (rt_start r') = sleep_start (dur_val (rt_expected_cycle_time r)) (time_val (rt_start r)) (time_val now)"
    and "rt_expected_cycle_time r' = rt_expected_cycle_time r"
    and "until = (if time_val now < time_val (rt_start r) \<or> time_val now \<le> time_val (rt_start r) + dur_val (rt_expected_cycle_time r)
      then Some (rt_start r') else None)"
proof -
  let ?c = "dur_val (rt_expected_cycle_time r)" and ?s = "time_val (rt_start r)" and ?n = "time_val now"
  have range: "0 \<le> ?c" "?c < 2 ^ 61" "0 \<le> ?s" "?s < 2 ^ 62 + 2 ^ 61" "0 \<le> ?n" "?n < 2 ^ 62"
    using assms(1-3) time_val_range(1) by (simp_all add: rate_ok_def early_def)
  have plus: "time_val (Time_plus (rt_start r) (rt_expected_cycle_time r)) = ?s + ?c"
      "time_val (Time_plus now (rt_expected_cycle_time r)) = ?n + ?c"
    using range by (simp_all add: Time_plus_exact)
  have plus2: "time_val (Time_plus (Time_plus (rt_start r) (rt_expected_cycle_time r)) (rt_expected_cycle_time r)) = ?s + ?c + ?c"
      "time_val (Time_plus (Time_plus now (rt_expected_cycle_time r)) (rt_expected_cycle_time r)) = ?n + ?c + ?c"
    using range plus by (simp_all add: Time_plus_exact)
  have diff: "dur_val (Time_diff (Time_plus (rt_start r) (rt_expected_cycle_time r)) now) = ?s + ?c - ?n"
      "dur_val (Time_diff (Time_plus now (rt_expected_cycle_time r)) now) = ?c"
    using range plus by (simp_all add: Time_diff_exact)
  show "rt_expected_cycle_time r' = rt_expected_cycle_time r"
    using assms(4) by (auto simp: Rate_Sleep_def Let_def split: if_splits)
  show "time_val (rt_start r') = sleep_start ?c ?s ?n"
    using assms(4) range
    by (auto simp: Rate_Sleep_def Let_def Time_less_val Duration_less_val plus plus2 diff sleep_start_def split: if_splits)
  show "until = (if ?n < ?s \<or> ?n \<le> ?s + ?c then Some (rt_start r') else None)"
    using assms(4) range
    by (auto simp: Rate_Sleep_def Let_def Time_less_val Duration_less_val plus plus2 diff split: if_splits)
qed

text \<open>
  A loop paced by \<open>Sleep\<close>: the body of each turn takes the time given by the list, \<open>Sleep\<close> returns at once or at the time it sleeps until.
  The result is the list of times at which the turns end.
\<close>

fun rate_loop :: "int list \<Rightarrow> int \<Rightarrow> Rate \<Rightarrow> int list" where
  "rate_loop [] t r = []"
| "rate_loop (d # ds) t r =
     (let (r', until) = Rate_Sleep (Time_uint64 (of_int (t + d))) r;
          t' = (case until of None \<Rightarrow> t + d | Some u \<Rightarrow> time_val u)
      in t' # rate_loop ds t' r')"

lemma Time_of_int [simp]: "0 \<le> i \<Longrightarrow> i < 2 ^ 64 \<Longrightarrow> time_val (Time_uint64 (of_int i)) = i"
  by (simp add: time_val_def Time_uint64_def uint_of_int64)

text \<open>One turn that starts in time: when it ends, and the start of the next cycle.\<close>

lemma rate_turn:
  assumes "rate_ok r" and "time_val (rt_start r) \<le> t" and "0 \<le> d" and "t + d < 2 ^ 62"
  defines "c \<equiv> dur_val (rt_expected_cycle_time r)"
  obtains r' t' where "\<And>ds. rate_loop (d # ds) t r = t' # rate_loop ds t' r'" and "rate_ok r'"
    and "rt_expected_cycle_time r' = rt_expected_cycle_time r"
    and "time_val (rt_start r') = sleep_start c (time_val (rt_start r)) (t + d)"
    and "t' = max (t + d) (time_val (rt_start r) + c)" and "time_val (rt_start r') \<le> t'"
proof -
  let ?now = "Time_uint64 (of_int (t + d))" and ?s = "time_val (rt_start r)"
  obtain r' until where step: "Rate_Sleep ?now r = (r', until)" by force
  have bounds: "0 \<le> ?s" "?s < 2 ^ 62 + 2 ^ 61" "0 \<le> c" using assms time_val_range(1) [of "rt_start r"] by (simp_all add: rate_ok_def)
  then have now: "time_val ?now = t + d" using assms(2-4) by (intro Time_of_int) simp_all
  then have "early ?now" using assms(4) by (simp only: early_def)
  note val = Rate_Sleep_val [OF assms(1) bounds(2) this step, unfolded now, folded c_def]
  let ?t' = "case until of None \<Rightarrow> t + d | Some u \<Rightarrow> time_val u"
  have t': "?t' = max (t + d) (?s + c)" "time_val (rt_start r') \<le> ?t'"
    using val(1,3) assms(2,3) bounds by (auto simp: sleep_start_def)
  have loop: "rate_loop (d # ds) t r = ?t' # rate_loop ds ?t' r'" for ds
    by (simp only: rate_loop.simps step Let_def prod.case)
  have "rate_ok r'" using assms(1) val(2) by (simp add: rate_ok_def)
  then show thesis using that [OF loop _ val(2,1) t'] by blast
qed

lemma sleep_start_ge: "start \<le> now \<Longrightarrow> 0 \<le> c \<Longrightarrow> start + c \<le> sleep_start c start now"
  by (simp add: sleep_start_def)

lemma sum_list_nonneg_int: "\<forall>d \<in> set ds. (0::int) \<le> d \<Longrightarrow> 0 \<le> sum_list ds"
  by (induction ds) auto

lemma rate_loop_ge:
  assumes "rate_ok r" and "time_val (rt_start r) \<le> t" and "\<forall>d \<in> set ds. 0 \<le> d"
    and "t + sum_list ds + int (length ds) * dur_val (rt_expected_cycle_time r) < 2 ^ 62" and "k < length ds"
  shows "time_val (rt_start r) + (int k + 1) * dur_val (rt_expected_cycle_time r) \<le> rate_loop ds t r ! k"
  using assms
proof (induction ds arbitrary: t r k)
  case (Cons d ds)
  let ?c = "dur_val (rt_expected_cycle_time r)" and ?s = "time_val (rt_start r)"
  have c: "0 \<le> ?c" "0 \<le> int (length ds) * ?c" "0 \<le> sum_list ds"
    using Cons.prems(1,3) sum_list_nonneg_int [of ds] by (simp_all add: rate_ok_def)
  have sum: "t + d + sum_list ds + (?c + int (length ds) * ?c) < 2 ^ 62" using Cons.prems(4) by (simp add: algebra_simps)
  then have "t + d < 2 ^ 62" using c by linarith
  then obtain r' t' where turn: "rate_loop (d # ds) t r = t' # rate_loop ds t' r'" "rate_ok r'"
      "rt_expected_cycle_time r' = rt_expected_cycle_time r" "time_val (rt_start r') = sleep_start ?c ?s (t + d)"
      "t' = max (t + d) (?s + ?c)" "time_val (rt_start r') \<le> t'"
    using rate_turn [OF Cons.prems(1,2)] Cons.prems(3) by (metis list.set_intros(1))
  have later: "?s + ?c \<le> time_val (rt_start r')" using turn(4) Cons.prems(2,3) c sleep_start_ge [of ?s "t + d" ?c] by simp
  show ?case
  proof (cases k)
    case 0
    then show ?thesis using turn(1,5) by simp
  next
    case (Suc j)
    have "t' + sum_list ds + int (length ds) * ?c < 2 ^ 62"
      using Cons.prems(2,3) c sum turn(5) by (auto simp: max_def)
    then have "time_val (rt_start r') + (int j + 1) * ?c \<le> rate_loop ds t' r' ! j"
      using Cons.IH [OF turn(2,6), of j] Cons.prems(3,5) Suc turn(3) by simp
    then show ?thesis using later Suc turn(1) by (simp add: algebra_simps)
  qed
qed simp

text \<open>
  A loop paced by \<open>Rate\<close> never runs faster than its rate: however long the bodies of its turns take, turn number \<open>k\<close> ends no
  earlier than \<open>k + 1\<close> cycles after the start.
\<close>

theorem Rate_never_faster:
  assumes "rate_ok r" and "\<forall>d \<in> set ds. 0 \<le> d" and "k < length ds"
    and "time_val (rt_start r) + sum_list ds + int (length ds) * dur_val (rt_expected_cycle_time r) < 2 ^ 62"
  shows "time_val (rt_start r) + (int k + 1) * dur_val (rt_expected_cycle_time r) \<le> rate_loop ds (time_val (rt_start r)) r ! k"
  by (rule rate_loop_ge [OF assms(1) order.refl assms(2,4,3)])

theorem Rate_never_faster_witness: "20 \<le> rate_loop [3, 25] 0 (Rate_uint64 (Time_uint64 0) 10) ! 1"
proof -
  let ?r = "Rate_uint64 (Time_uint64 0) 10"
  have r: "time_val (rt_start ?r) = 0" "dur_val (rt_expected_cycle_time ?r) = 10"
    by (simp_all add: Rate_uint64_def Duration_int64_def Time_uint64_def time_val_def dur_val_def)
  show ?thesis using Rate_never_faster [of ?r "[3, 25]" 1] by (simp add: r rate_ok_def)
qed

lemma rate_loop_grid:
  assumes "rate_ok r" and "\<forall>d \<in> set ds. 0 \<le> d \<and> d \<le> dur_val (rt_expected_cycle_time r)"
    and "time_val (rt_start r) + int (length ds) * dur_val (rt_expected_cycle_time r) < 2 ^ 62"
  shows "rate_loop ds (time_val (rt_start r)) r =
    map (\<lambda>k. time_val (rt_start r) + (int k + 1) * dur_val (rt_expected_cycle_time r)) [0..<length ds]"
  using assms
proof (induction ds arbitrary: r)
  case (Cons d ds)
  let ?c = "dur_val (rt_expected_cycle_time r)" and ?s = "time_val (rt_start r)"
  have c: "0 \<le> ?c" "0 \<le> int (length ds) * ?c" using Cons.prems(1) by (simp_all add: rate_ok_def)
  have sum: "?s + ?c + int (length ds) * ?c < 2 ^ 62" using Cons.prems(3) by (simp add: algebra_simps)
  have d: "0 \<le> d" "d \<le> ?c" using Cons.prems(2) by simp_all
  then have "?s + d < 2 ^ 62" using sum c by linarith
  then obtain r' t' where turn: "rate_loop (d # ds) ?s r = t' # rate_loop ds t' r'" "rate_ok r'"
      "rt_expected_cycle_time r' = rt_expected_cycle_time r" "time_val (rt_start r') = sleep_start ?c ?s (?s + d)"
      "t' = max (?s + d) (?s + ?c)"
    using rate_turn [OF Cons.prems(1) order.refl d(1)] by metis
  have t': "t' = ?s + ?c" "time_val (rt_start r') = ?s + ?c" using turn(4,5) d c(1) by (simp_all add: sleep_start_def)
  have "rate_loop ds (time_val (rt_start r')) r' = map (\<lambda>k. time_val (rt_start r') + (int k + 1) * ?c) [0..<length ds]"
    using Cons.IH [OF turn(2)] Cons.prems(2) turn(3) t'(2) sum by simp
  then show ?case
    using turn(1) t' by (simp add: upt_conv_Cons map_Suc_upt [symmetric] algebra_simps del: upt_Suc)
qed simp

text \<open>
  A loop paced by \<open>Rate\<close> does not drift: as long as no body takes longer than the cycle, turn number \<open>k\<close> ends exactly \<open>k + 1\<close>
  cycles after the start, whatever the bodies take. The times must stay in the lower quarter of the 64-bit range.
\<close>

theorem Rate_no_drift:
  assumes "rate_ok r" and "\<forall>d \<in> set ds. 0 \<le> d \<and> d \<le> dur_val (rt_expected_cycle_time r)"
    and "time_val (rt_start r) + int (length ds) * dur_val (rt_expected_cycle_time r) < 2 ^ 62"
  shows "rate_loop ds (time_val (rt_start r)) r =
    map (\<lambda>k. time_val (rt_start r) + (int k + 1) * dur_val (rt_expected_cycle_time r)) [0..<length ds]"
  by (rule rate_loop_grid [OF assms])

theorem Rate_no_drift_witness: "rate_loop [3, 9, 0] 0 (Rate_uint64 (Time_uint64 0) 10) = [10, 20, 30]"
proof -
  let ?r = "Rate_uint64 (Time_uint64 0) 10"
  have r: "time_val (rt_start ?r) = 0" "dur_val (rt_expected_cycle_time ?r) = 10"
    by (simp_all add: Rate_uint64_def Duration_int64_def Time_uint64_def time_val_def dur_val_def)
  show ?thesis using Rate_no_drift [of ?r "[3, 9, 0]"] by (simp add: r rate_ok_def upt_conv_Cons)
qed

text \<open>The mock clock: it shows the time last set since the mode was chosen, and zero before; setting it is ignored in the other mode.\<close>

lemma Clock_mock:
  "Clock_Now now (fold SetNow ts (SetMode MODE_MOCK c)) = (if ts = [] then Time_int 0 else last ts)"
  "Clock_Now now (fold SetNow ts (SetMode MODE_CYBER c)) = now"
proof -
  have "Clock_Now now (fold SetNow ts c) = (if ck_mode c = MODE_MOCK then (if ts = [] then ck_mock_now c else last ts) else now)" for c
    by (induction ts arbitrary: c) (auto simp: SetNow_def Clock_Now_def split: ClockMode.splits)
  then show "Clock_Now now (fold SetNow ts (SetMode MODE_MOCK c)) = (if ts = [] then Time_int 0 else last ts)"
    "Clock_Now now (fold SetNow ts (SetMode MODE_CYBER c)) = now" by (simp_all add: SetMode_def)
qed

end
