(* ===== verification/Record_File.thy ===== *)
theory Record_File
  imports Message_Header
begin

text \<open>
  \<open>cyber/record/file\<close>: the writer and the reader of record files, down to the bytes. A file is a header block of fixed length
  followed by sections; a section is a structure of 16 bytes (type and size, little endian, padded) and a protobuf message.
  The serialization of the messages is the parameter \<open>section_codec\<close>. The operating system's file is a list of bytes with a
  position and, for a full disk, a limit. The flush thread of the writer is the operation \<open>Flush_once\<close>, one turn of its loop.
\<close>

section \<open>Messages of a record file\<close>

datatype SectionType = SECTION_HEADER | SECTION_CHUNK_HEADER | SECTION_CHUNK_BODY | SECTION_INDEX | SECTION_CHANNEL

datatype CompressType = COMPRESS_NONE | COMPRESS_BZ2 | COMPRESS_LZ4

record SingleMessage =
  rm_channel_name :: string
  rm_time :: "64 word"
  rm_content :: "byte list"

record Header =
  hd_major_version :: "32 word"
  hd_minor_version :: "32 word"
  hd_compress :: CompressType
  hd_chunk_interval :: "64 word"
  hd_segment_interval :: "64 word"
  hd_index_position :: "64 word"
  hd_chunk_number :: "64 word"
  hd_channel_number :: "64 word"
  hd_begin_time :: "64 word"
  hd_end_time :: "64 word"
  hd_message_number :: "64 word"
  hd_size :: "64 word"
  hd_is_complete :: bool
  hd_chunk_raw_size :: "64 word"
  hd_segment_raw_size :: "64 word"

record Channel =
  chn_name :: string
  chn_message_type :: string
  chn_proto_desc :: string

record ChunkHeader =
  chh_begin_time :: "64 word"
  chh_end_time :: "64 word"
  chh_message_number :: "64 word"
  chh_raw_size :: "64 word"

record ChannelCache =
  chc_message_number :: "64 word"
  chc_name :: string
  chc_message_type :: string
  chc_proto_desc :: string

text \<open>\<open>ChunkHeaderCache\<close> has the fields of \<open>ChunkHeader\<close>.\<close>

datatype IndexCache =
  Channel_cache ChannelCache
| Chunk_header_cache ChunkHeader
| Chunk_body_cache "64 word"

record SingleIndex =
  si_type :: SectionType
  si_position :: "64 word"
  si_cache :: IndexCache

datatype section_msg =
  Sec_Header Header
| Sec_ChunkHeader ChunkHeader
| Sec_ChunkBody "SingleMessage list"
| Sec_Index "SingleIndex list"
| Sec_Channel Channel

fun section_type :: "section_msg \<Rightarrow> SectionType" where
  "section_type (Sec_Header h) = SECTION_HEADER"
| "section_type (Sec_ChunkHeader h) = SECTION_CHUNK_HEADER"
| "section_type (Sec_ChunkBody ms) = SECTION_CHUNK_BODY"
| "section_type (Sec_Index is) = SECTION_INDEX"
| "section_type (Sec_Channel c) = SECTION_CHANNEL"

record section_codec =
  sc_ser :: "section_msg \<Rightarrow> byte list"
  sc_parse :: "SectionType \<Rightarrow> byte list \<Rightarrow> section_msg option"
  sc_expect_at_end :: "byte list \<Rightarrow> bool"

section \<open>Files\<close>

record rfile =
  fl_bytes :: "byte list"
  fl_pos :: nat
  fl_limit :: "nat option"

text \<open>\<open>write\<close>: the number of bytes written, or -1 when the disk is full; a gap after the end is filled with zeros.\<close>

definition fd_write :: "byte list \<Rightarrow> rfile \<Rightarrow> int \<times> rfile" where
  "fd_write bs f =
     (let n = (case fl_limit f of None \<Rightarrow> length bs | Some l \<Rightarrow> min (length bs) (l - fl_pos f))
      in if n = 0 \<and> bs \<noteq> [] then (-1, f)
         else (int n, f\<lparr>fl_bytes := take (fl_pos f) (fl_bytes f) @ replicate (fl_pos f - length (fl_bytes f)) 0 @ take n bs @
                          drop (fl_pos f + n) (fl_bytes f),
                        fl_pos := fl_pos f + n\<rparr>))"

definition fd_read :: "nat \<Rightarrow> rfile \<Rightarrow> byte list \<times> rfile" where
  "fd_read n f = (let bs = take n (drop (fl_pos f) (fl_bytes f)) in (bs, f\<lparr>fl_pos := fl_pos f + length bs\<rparr>))"

definition CurrentPosition :: "rfile \<Rightarrow> 64 word" where
  "CurrentPosition f = of_nat (fl_pos f)"

definition SetPosition :: "64 word \<Rightarrow> rfile \<Rightarrow> bool \<times> rfile" where
  "SetPosition position f = (if sint position < 0 then (False, f) else (True, f\<lparr>fl_pos := unat position\<rparr>))"

definition HEADER_LENGTH :: nat where
  "HEADER_LENGTH = 2048"

section \<open>Sections\<close>

fun type_code :: "SectionType \<Rightarrow> 32 word" where
  "type_code SECTION_HEADER = 0"
| "type_code SECTION_CHUNK_HEADER = 1"
| "type_code SECTION_CHUNK_BODY = 2"
| "type_code SECTION_INDEX = 3"
| "type_code SECTION_CHANNEL = 4"

record Section =
  se_type :: "32 word"
  se_size :: "64 word"

definition section_bytes :: "Section \<Rightarrow> byte list" where
  "section_bytes s = rev (Convert32ToArray (se_type s)) @ [0, 0, 0, 0] @ rev (Convert64ToArray (se_size s))"

definition section_of :: "byte list \<Rightarrow> Section" where
  "section_of bs = \<lparr>se_type = ConvertArrayTo32 (rev (take 4 bs)), se_size = ConvertArrayTo64 (rev (drop 8 bs))\<rparr>"

definition sizeof_Section :: nat where
  "sizeof_Section = 16"

section \<open>The writer\<close>

record Chunk =
  chk_header :: ChunkHeader
  chk_body :: "SingleMessage list"

definition Chunk_clear :: "Chunk \<Rightarrow> Chunk" where
  "Chunk_clear c = \<lparr>chk_header = \<lparr>chh_begin_time = 0, chh_end_time = 0, chh_message_number = 0, chh_raw_size = 0\<rparr>, chk_body = []\<rparr>"

definition Chunk_ctor :: Chunk where
  "Chunk_ctor = \<lparr>chk_header = \<lparr>chh_begin_time = 0, chh_end_time = 0, chh_message_number = 0, chh_raw_size = 0\<rparr>, chk_body = []\<rparr>"

definition Chunk_add :: "SingleMessage \<Rightarrow> Chunk \<Rightarrow> Chunk" where
  "Chunk_add message c =
     (let h0 = chk_header c;
          h1 = (if chh_begin_time h0 = 0 then h0\<lparr>chh_begin_time := rm_time message\<rparr> else h0);
          h2 = (if chh_begin_time h1 > rm_time message then h1\<lparr>chh_begin_time := rm_time message\<rparr> else h1);
          h3 = (if chh_end_time h2 < rm_time message then h2\<lparr>chh_end_time := rm_time message\<rparr> else h2)
      in \<lparr>chk_header = h3\<lparr>chh_message_number := chh_message_number h3 + 1,
                           chh_raw_size := chh_raw_size h3 + of_nat (length (rm_content message))\<rparr>,
          chk_body = chk_body c @ [message]\<rparr>)"

definition Chunk_empty :: "Chunk \<Rightarrow> bool" where
  "Chunk_empty c \<longleftrightarrow> chh_message_number (chk_header c) = 0"

record RecordFileWriter =
  fw_file :: rfile
  fw_header :: Header
  fw_index :: "SingleIndex list"
  fw_is_writing :: bool
  fw_chunk_active :: Chunk
  fw_chunk_flush :: Chunk
  fw_numbers :: "string \<Rightarrow> 64 word option"

text \<open>
  A new writer; the file stands for the descriptor -1 and the chunks for null pointers, which nothing uses before \<open>Open\<close>. \<open>h0\<close> is the
  default protobuf header.
\<close>

definition RecordFileWriter_ctor :: "Header \<Rightarrow> RecordFileWriter" where
  "RecordFileWriter_ctor h0 =
     \<lparr>fw_file = \<lparr>fl_bytes = [], fl_pos = 0, fl_limit = None\<rparr>, fw_header = h0, fw_index = [], fw_is_writing = False,
      fw_chunk_active = Chunk_ctor, fw_chunk_flush = Chunk_ctor, fw_numbers = (\<lambda>_. None)\<rparr>"

text \<open>A protobuf output stream writes as much as fits; the result of the serialization is ignored by the code.\<close>

definition WriteSection :: "section_codec \<Rightarrow> section_msg \<Rightarrow> RecordFileWriter \<Rightarrow> bool \<times> RecordFileWriter" where
  "WriteSection c msg w =
     (let header = (section_type msg = SECTION_HEADER);
          f0 = (if header then snd (SetPosition 0 (fw_file w)) else fw_file w);
          data = sc_ser c msg;
          (count, f1) = fd_write (section_bytes \<lparr>se_type = type_code (section_type msg), se_size = of_nat (length data)\<rparr>) f0
      in if count \<noteq> int sizeof_Section then (False, w\<lparr>fw_file := f1\<rparr>)
         else let f2 = snd (fd_write data f1);
                  blank = HEADER_LENGTH - length data;
                  (count', f3) = (if header then fd_write (take blank (48 # replicate (HEADER_LENGTH - 1) 0)) f2 else (int blank, f2))
              in if header \<and> count' \<noteq> int blank then (False, w\<lparr>fw_file := f3\<rparr>)
                 else (True, w\<lparr>fw_file := f3, fw_header := (fw_header w)\<lparr>hd_size := CurrentPosition f3\<rparr>\<rparr>))"

definition RecordFileWriter_Open :: "rfile option \<Rightarrow> RecordFileWriter \<Rightarrow> bool \<times> RecordFileWriter" where
  "RecordFileWriter_Open opened w =
     (case opened of
        None \<Rightarrow> (False, w)
      | Some f \<Rightarrow> (True, w\<lparr>fw_file := f\<lparr>fl_pos := 0\<rparr>, fw_chunk_active := Chunk_ctor, fw_chunk_flush := Chunk_ctor, fw_is_writing := True\<rparr>))"

definition WriteHeader :: "section_codec \<Rightarrow> Header \<Rightarrow> RecordFileWriter \<Rightarrow> bool \<times> RecordFileWriter" where
  "WriteHeader c header w = (let w1 = w\<lparr>fw_header := header\<rparr> in WriteSection c (Sec_Header header) w1)"

definition index_numbers :: "(string \<Rightarrow> 64 word option) \<Rightarrow> SingleIndex \<Rightarrow> SingleIndex" where
  "index_numbers numbers i =
     (case si_cache i of
        Channel_cache cc \<Rightarrow>
          (if si_type i = SECTION_CHANNEL
           then (case numbers (chc_name cc) of None \<Rightarrow> i | Some n \<Rightarrow> i\<lparr>si_cache := Channel_cache (cc\<lparr>chc_message_number := n\<rparr>)\<rparr>)
           else i)
      | _ \<Rightarrow> i)"

definition WriteIndex :: "section_codec \<Rightarrow> RecordFileWriter \<Rightarrow> bool \<times> RecordFileWriter" where
  "WriteIndex c w =
     (let w1 = w\<lparr>fw_index := map (index_numbers (fw_numbers w)) (fw_index w)\<rparr>;
          w2 = w1\<lparr>fw_header := (fw_header w1)\<lparr>hd_index_position := CurrentPosition (fw_file w1)\<rparr>\<rparr>
      in WriteSection c (Sec_Index (fw_index w2)) w2)"

definition FileWriter_WriteChannel :: "section_codec \<Rightarrow> Channel \<Rightarrow> RecordFileWriter \<Rightarrow> bool \<times> RecordFileWriter" where
  "FileWriter_WriteChannel c channel w =
     (let pos = CurrentPosition (fw_file w); (ok, w1) = WriteSection c (Sec_Channel channel) w
      in if \<not> ok then (False, w1)
         else (True, w1\<lparr>fw_header := (fw_header w1)\<lparr>hd_channel_number := hd_channel_number (fw_header w1) + 1\<rparr>,
           fw_index := fw_index w1 @ [\<lparr>si_type = SECTION_CHANNEL, si_position = pos, si_cache = Channel_cache
             \<lparr>chc_message_number = 0, chc_name = chn_name channel, chc_message_type = chn_message_type channel,
              chc_proto_desc = chn_proto_desc channel\<rparr>\<rparr>]\<rparr>))"

definition WriteChunk :: "section_codec \<Rightarrow> ChunkHeader \<Rightarrow> SingleMessage list \<Rightarrow> RecordFileWriter \<Rightarrow> bool \<times> RecordFileWriter" where
  "WriteChunk c chunk_header chunk_body w =
     (let pos = CurrentPosition (fw_file w); (ok, w1) = WriteSection c (Sec_ChunkHeader chunk_header) w
      in if \<not> ok then (False, w1)
         else let w2 = w1\<lparr>fw_index := fw_index w1 @
                    [\<lparr>si_type = SECTION_CHUNK_HEADER, si_position = pos, si_cache = Chunk_header_cache chunk_header\<rparr>]\<rparr>;
                  pos' = CurrentPosition (fw_file w2); (ok', w3) = WriteSection c (Sec_ChunkBody chunk_body) w2
              in if \<not> ok' then (False, w3)
                 else let h0 = (fw_header w3)\<lparr>hd_chunk_number := hd_chunk_number (fw_header w3) + 1\<rparr>;
                          h1 = (if hd_begin_time h0 = 0 then h0\<lparr>hd_begin_time := chh_begin_time chunk_header\<rparr> else h0);
                          h2 = h1\<lparr>hd_end_time := chh_end_time chunk_header,
                                  hd_message_number := hd_message_number h1 + chh_message_number chunk_header\<rparr>
                      in (True, w3\<lparr>fw_header := h2, fw_index := fw_index w3 @
                           [\<lparr>si_type = SECTION_CHUNK_BODY, si_position = pos',
                             si_cache = Chunk_body_cache (of_nat (length chunk_body))\<rparr>]\<rparr>))"

definition need_flush :: "SingleMessage \<Rightarrow> RecordFileWriter \<Rightarrow> bool" where
  "need_flush message w \<longleftrightarrow>
     hd_chunk_interval (fw_header w) > 0 \<and>
       rm_time message - chh_begin_time (chk_header (fw_chunk_active w)) > hd_chunk_interval (fw_header w) \<or>
     hd_chunk_raw_size (fw_header w) > 0 \<and> chh_raw_size (chk_header (fw_chunk_active w)) > hd_chunk_raw_size (fw_header w)"

definition swap_chunks :: "RecordFileWriter \<Rightarrow> RecordFileWriter" where
  "swap_chunks w = w\<lparr>fw_chunk_flush := fw_chunk_active w, fw_chunk_active := fw_chunk_flush w\<rparr>"

definition FileWriter_WriteMessage :: "SingleMessage \<Rightarrow> RecordFileWriter \<Rightarrow> bool \<times> RecordFileWriter" where
  "FileWriter_WriteMessage message w =
     (let w1 = w\<lparr>fw_chunk_active := Chunk_add message (fw_chunk_active w)\<rparr>;
          n = (case fw_numbers w1 (rm_channel_name message) of None \<Rightarrow> 1 | Some n \<Rightarrow> n + 1);
          w2 = w1\<lparr>fw_numbers := (fw_numbers w1)(rm_channel_name message \<mapsto> n)\<rparr>
      in if need_flush message w2 then (True, swap_chunks w2) else (True, w2))"

definition Flush_once :: "section_codec \<Rightarrow> RecordFileWriter \<Rightarrow> RecordFileWriter" where
  "Flush_once c w =
     (if \<not> fw_is_writing w \<or> Chunk_empty (fw_chunk_flush w) then w
      else let w1 = snd (WriteChunk c (chk_header (fw_chunk_flush w)) (chk_body (fw_chunk_flush w)) w)
           in w1\<lparr>fw_chunk_flush := Chunk_clear (fw_chunk_flush w1)\<rparr>)"

text \<open>\<open>Close\<close> waits until the flush thread has emptied the chunk, twice.\<close>

definition RecordFileWriter_Close :: "section_codec \<Rightarrow> RecordFileWriter \<Rightarrow> RecordFileWriter" where
  "RecordFileWriter_Close c w =
     (if \<not> fw_is_writing w then w
      else let w1 = Flush_once c (swap_chunks (Flush_once c w));
               w2 = snd (WriteIndex c (w1\<lparr>fw_is_writing := False\<rparr>));
               w3 = w2\<lparr>fw_header := (fw_header w2)\<lparr>hd_is_complete := True\<rparr>\<rparr>
           in snd (WriteHeader c (fw_header w3) w3))"

definition FileWriter_GetMessageNumber :: "string \<Rightarrow> RecordFileWriter \<Rightarrow> 64 word" where
  "FileWriter_GetMessageNumber channel_name w = (case fw_numbers w channel_name of None \<Rightarrow> 0 | Some n \<Rightarrow> n)"

section \<open>The reader\<close>

record RecordFileReader =
  fr_file :: rfile
  fr_header :: Header
  fr_index :: "SingleIndex list"
  fr_end_of_file :: bool

definition ReadSection :: "RecordFileReader \<Rightarrow> Section option \<times> RecordFileReader" where
  "ReadSection r =
     (let (bs, f) = fd_read sizeof_Section (fr_file r); r1 = r\<lparr>fr_file := f\<rparr>
      in if bs = [] then (None, r1\<lparr>fr_end_of_file := True\<rparr>)
         else if length bs \<noteq> sizeof_Section then (None, r1)
         else (Some (section_of bs), r1))"

text \<open>
  The template \<open>ReadSection\<close>: the input stream takes a block of the given size from the file. The size of the parsed message must be the
  one announced.
\<close>

definition ReadSection_msg ::
    "section_codec \<Rightarrow> SectionType \<Rightarrow> 64 word \<Rightarrow> RecordFileReader \<Rightarrow> section_msg option \<times> RecordFileReader" where
  "ReadSection_msg c ty sz r =
     (if sint sz < - (2 ^ 31) \<or> sint sz > 2 ^ 31 - 1 then (None, r)
      else let (bs, f) = fd_read (nat (sint sz)) (fr_file r); r1 = r\<lparr>fr_file := f\<rparr>
           in case sc_parse c ty bs of
                None \<Rightarrow> (None, r1\<lparr>fr_end_of_file := sc_expect_at_end c bs\<rparr>)
              | Some msg \<Rightarrow> if int (length (sc_ser c msg)) \<noteq> sint sz then (None, r1) else (Some msg, r1))"

definition SkipSection :: "64 word \<Rightarrow> RecordFileReader \<Rightarrow> bool \<times> RecordFileReader" where
  "SkipSection sz r =
     (let pos = CurrentPosition (fr_file r)
      in if sint sz > 2 ^ 63 - 1 - sint pos then (False, r)
         else let (ok, f) = SetPosition (pos + sz) (fr_file r) in (ok, r\<lparr>fr_file := f\<rparr>))"

definition Reader_SetPosition :: "64 word \<Rightarrow> RecordFileReader \<Rightarrow> bool \<times> RecordFileReader" where
  "Reader_SetPosition pos r = (let (ok, f) = SetPosition pos (fr_file r) in (ok, r\<lparr>fr_file := f\<rparr>))"

definition FileReader_Reset :: "RecordFileReader \<Rightarrow> bool \<times> RecordFileReader" where
  "FileReader_Reset r =
     (let (ok, r1) = Reader_SetPosition (of_nat (sizeof_Section + HEADER_LENGTH)) r
      in if \<not> ok then (False, r1) else (True, r1\<lparr>fr_end_of_file := False\<rparr>))"

definition ReadHeader :: "section_codec \<Rightarrow> RecordFileReader \<Rightarrow> bool \<times> RecordFileReader" where
  "ReadHeader c r =
     (case ReadSection r of
        (None, r1) \<Rightarrow> (False, r1)
      | (Some section, r1) \<Rightarrow>
          if se_type section \<noteq> type_code SECTION_HEADER then (False, r1)
          else case ReadSection_msg c SECTION_HEADER (se_size section) r1 of
                 (Some (Sec_Header h), r2) \<Rightarrow> Reader_SetPosition (of_nat (sizeof_Section + HEADER_LENGTH)) (r2\<lparr>fr_header := h\<rparr>)
               | (_, r2) \<Rightarrow> (False, r2))"

definition RecordFileReader_Open :: "section_codec \<Rightarrow> rfile option \<Rightarrow> RecordFileReader \<Rightarrow> bool \<times> RecordFileReader" where
  "RecordFileReader_Open c opened r =
     (case opened of
        None \<Rightarrow> (False, r)
      | Some f \<Rightarrow> ReadHeader c (r\<lparr>fr_file := f\<lparr>fl_pos := 0\<rparr>, fr_end_of_file := False\<rparr>))"

definition ReadIndex :: "section_codec \<Rightarrow> RecordFileReader \<Rightarrow> bool \<times> RecordFileReader" where
  "ReadIndex c r =
     (if \<not> hd_is_complete (fr_header r) then (False, r)
      else case Reader_SetPosition (hd_index_position (fr_header r)) r of
             (False, r1) \<Rightarrow> (False, r1)
           | (True, r1) \<Rightarrow>
               (case ReadSection r1 of
                  (None, r2) \<Rightarrow> (False, r2)
                | (Some section, r2) \<Rightarrow>
                    if se_type section \<noteq> type_code SECTION_INDEX then (False, r2)
                    else case ReadSection_msg c SECTION_INDEX (se_size section) r2 of
                           (Some (Sec_Index is), r3) \<Rightarrow> (True, snd (FileReader_Reset (r3\<lparr>fr_index := is\<rparr>)))
                         | (_, r3) \<Rightarrow> (False, r3)))"

end
