(* ===== verification/Record_Reader.thy ===== *)
theory Record_Reader
  imports Record_File
begin

text \<open>
  \<open>cyber/record/record_reader.cc\<close>: reading the messages of a record file within a window of time. The loop over the sections is a
  partial function, since a damaged file can send it back (\<open>SkipSection\<close> accepts a negative size). On a good file
  the reader is proved to return always, with the next message of the file in the window.
\<close>

section \<open>The reader\<close>

record RecordReader =
  rr_is_valid :: bool
  rr_reach_end :: bool
  rr_chunk :: "SingleMessage list"
  rr_header :: Header
  rr_index :: "SingleIndex list"
  rr_message_index :: nat
  rr_channel_info :: "(string \<times> ChannelCache) list"
  rr_file_reader :: RecordFileReader

definition channel_entries :: "SingleIndex list \<Rightarrow> (string \<times> ChannelCache) list" where
  "channel_entries is =
     fold (\<lambda>i info. if si_type i \<noteq> SECTION_CHANNEL then info
                     else case si_cache i of
                            Channel_cache cc \<Rightarrow> if map_of info (chc_name cc) = None then info @ [(chc_name cc, cc)] else info
                          | _ \<Rightarrow> info) is []"

definition RecordReader_ctor :: "section_codec \<Rightarrow> rfile option \<Rightarrow> RecordFileReader \<Rightarrow> RecordReader" where
  "RecordReader_ctor c opened r0 =
     (let (ok, r1) = RecordFileReader_Open c opened r0;
          rr = \<lparr>rr_is_valid = False, rr_reach_end = False, rr_chunk = [], rr_header = fr_header r0, rr_index = [],
                rr_message_index = 0, rr_channel_info = [], rr_file_reader = r1\<rparr>
      in if \<not> ok then rr
         else let (ok', r2) = ReadIndex c r1;
                  rr1 = rr\<lparr>rr_is_valid := True, rr_header := fr_header r1\<rparr>;
                  rr2 = (if ok' then rr1\<lparr>rr_index := fr_index r2, rr_channel_info := channel_entries (fr_index r2)\<rparr> else rr1)
              in rr2\<lparr>rr_file_reader := snd (FileReader_Reset r2)\<rparr>)"

definition RecordReader_Reset :: "RecordReader \<Rightarrow> RecordReader" where
  "RecordReader_Reset rr =
     rr\<lparr>rr_file_reader := snd (FileReader_Reset (rr_file_reader rr)), rr_reach_end := False, rr_message_index := 0, rr_chunk := []\<rparr>"

definition Reader_GetChannelList :: "RecordReader \<Rightarrow> string set" where
  "Reader_GetChannelList rr = set (map fst (rr_channel_info rr))"

definition Reader_GetMessageNumber :: "string \<Rightarrow> RecordReader \<Rightarrow> 64 word" where
  "Reader_GetMessageNumber channel_name rr =
     (case map_of (rr_channel_info rr) channel_name of None \<Rightarrow> 0 | Some cc \<Rightarrow> chc_message_number cc)"

definition Reader_GetMessageType :: "string \<Rightarrow> RecordReader \<Rightarrow> string" where
  "Reader_GetMessageType channel_name rr =
     (case map_of (rr_channel_info rr) channel_name of None \<Rightarrow> [] | Some cc \<Rightarrow> chc_message_type cc)"

definition Reader_GetProtoDesc :: "string \<Rightarrow> RecordReader \<Rightarrow> string" where
  "Reader_GetProtoDesc channel_name rr =
     (case map_of (rr_channel_info rr) channel_name of None \<Rightarrow> [] | Some cc \<Rightarrow> chc_proto_desc cc)"

text \<open>The loop of \<open>ReadNextChunk\<close>. A chunk whose parsing fails is left empty.\<close>

partial_function (option) ReadNextChunk_loop ::
    "section_codec \<Rightarrow> 64 word \<Rightarrow> 64 word \<Rightarrow> bool \<Rightarrow> RecordReader \<Rightarrow> (bool \<times> RecordReader) option" where
  "ReadNextChunk_loop c begin_time end_time skip_next_chunk_body rr =
     (if rr_reach_end rr then Some (False, rr)
      else case ReadSection (rr_file_reader rr) of
             (None, r1) \<Rightarrow> Some (False, rr\<lparr>rr_file_reader := r1\<rparr>)
           | (Some section, r1) \<Rightarrow>
               if se_type section = type_code SECTION_INDEX
               then ReadNextChunk_loop c begin_time end_time skip_next_chunk_body
                      (rr\<lparr>rr_file_reader := snd (SkipSection (se_size section) r1), rr_reach_end := True\<rparr>)
               else if se_type section = type_code SECTION_CHANNEL
               then (case ReadSection_msg c SECTION_CHANNEL (se_size section) r1 of
                       (None, r2) \<Rightarrow> Some (False, rr\<lparr>rr_file_reader := r2\<rparr>)
                     | (Some _, r2) \<Rightarrow> ReadNextChunk_loop c begin_time end_time skip_next_chunk_body (rr\<lparr>rr_file_reader := r2\<rparr>))
               else if se_type section = type_code SECTION_CHUNK_HEADER
               then (case ReadSection_msg c SECTION_CHUNK_HEADER (se_size section) r1 of
                       (Some (Sec_ChunkHeader h), r2) \<Rightarrow>
                         (if chh_begin_time h > end_time then Some (False, rr\<lparr>rr_file_reader := r2\<rparr>)
                          else ReadNextChunk_loop c begin_time end_time
                                 (if chh_end_time h < begin_time then True else skip_next_chunk_body) (rr\<lparr>rr_file_reader := r2\<rparr>))
                     | (_, r2) \<Rightarrow> Some (False, rr\<lparr>rr_file_reader := r2\<rparr>))
               else if se_type section = type_code SECTION_CHUNK_BODY
               then (if skip_next_chunk_body
                     then ReadNextChunk_loop c begin_time end_time False
                            (rr\<lparr>rr_file_reader := snd (SkipSection (se_size section) r1)\<rparr>)
                     else (case ReadSection_msg c SECTION_CHUNK_BODY (se_size section) r1 of
                             (Some (Sec_ChunkBody ms), r2) \<Rightarrow> Some (True, rr\<lparr>rr_chunk := ms, rr_file_reader := r2\<rparr>)
                           | (_, r2) \<Rightarrow> Some (False, rr\<lparr>rr_chunk := [], rr_file_reader := r2\<rparr>)))
               else Some (False, rr\<lparr>rr_file_reader := r1\<rparr>))"

definition ReadNextChunk :: "section_codec \<Rightarrow> 64 word \<Rightarrow> 64 word \<Rightarrow> RecordReader \<Rightarrow> (bool \<times> RecordReader) option" where
  "ReadNextChunk c begin_time end_time rr = ReadNextChunk_loop c begin_time end_time False rr"

text \<open>The loop over the messages of the chunk: how it ends, and the new message index.\<close>

datatype scan_result = Scan_late nat | Scan_found SingleMessage nat | Scan_exhausted nat

fun scan_chunk :: "64 word \<Rightarrow> 64 word \<Rightarrow> SingleMessage list \<Rightarrow> nat \<Rightarrow> scan_result" where
  "scan_chunk begin_time end_time [] i = Scan_exhausted i"
| "scan_chunk begin_time end_time (next_message # ms) i =
     (if rm_time next_message > end_time then Scan_late i
      else if rm_time next_message < begin_time then scan_chunk begin_time end_time ms (i + 1)
      else Scan_found next_message (i + 1))"

partial_function (option) ReadMessage ::
    "section_codec \<Rightarrow> 64 word \<Rightarrow> 64 word \<Rightarrow> RecordReader \<Rightarrow> (SingleMessage option \<times> RecordReader) option" where
  "ReadMessage c begin_time end_time rr =
     (if \<not> rr_is_valid rr then Some (None, rr)
      else if begin_time > hd_end_time (rr_header rr) \<or> end_time < hd_begin_time (rr_header rr) then Some (None, rr)
      else case scan_chunk begin_time end_time (drop (rr_message_index rr) (rr_chunk rr)) (rr_message_index rr) of
             Scan_late i \<Rightarrow> Some (None, rr\<lparr>rr_message_index := i\<rparr>)
           | Scan_found m i \<Rightarrow> Some (Some m, rr\<lparr>rr_message_index := i\<rparr>)
           | Scan_exhausted i \<Rightarrow>
               (case ReadNextChunk c begin_time end_time (rr\<lparr>rr_message_index := i\<rparr>) of
                  None \<Rightarrow> None
                | Some (ok, rr1) \<Rightarrow>
                    if ok then ReadMessage c begin_time end_time (rr1\<lparr>rr_message_index := 0\<rparr>) else Some (None, rr1)))"

section \<open>Sections in a file\<close>

definition sec_bytes :: "section_codec \<Rightarrow> section_msg \<Rightarrow> byte list" where
  "sec_bytes c m = section_bytes \<lparr>se_type = type_code (section_type m), se_size = of_nat (length (sc_ser c m))\<rparr> @ sc_ser c m"

definition codec_ok :: "section_codec \<Rightarrow> bool" where
  "codec_ok c \<longleftrightarrow> (\<forall>m. sc_parse c (section_type m) (sc_ser c m) = Some m) \<and> (\<forall>h. length (sc_ser c (Sec_Header h)) \<le> HEADER_LENGTH)"

lemma length_section_bytes [simp]: "length (section_bytes s) = 16"
  by (simp add: section_bytes_def)

lemma section_of_bytes [simp]: "section_of (section_bytes s) = s"
  by (simp add: section_of_def section_bytes_def)

text \<open>The file reader stands before the given bytes, in a file of moderate length.\<close>

definition reads_on :: "RecordFileReader \<Rightarrow> byte list \<Rightarrow> bool" where
  "reads_on r bs \<longleftrightarrow> drop (fl_pos (fr_file r)) (fl_bytes (fr_file r)) = bs \<and> fl_pos (fr_file r) \<le> length (fl_bytes (fr_file r)) \<and>
     length (fl_bytes (fr_file r)) < 2 ^ 31"

text \<open>What the reader of a file keeps while it reads.\<close>

definition same_file :: "RecordFileReader \<Rightarrow> RecordFileReader \<Rightarrow> bool" where
  "same_file r r' \<longleftrightarrow> fl_bytes (fr_file r) = fl_bytes (fr_file r') \<and> fr_header r = fr_header r' \<and> fr_index r = fr_index r'"

lemma same_file_trans: "same_file a b \<Longrightarrow> same_file b c \<Longrightarrow> same_file a c"
  by (simp add: same_file_def)

lemma reads_on_skip:
  assumes "reads_on r (bs @ rest)" and "fr_file r' = (fr_file r)\<lparr>fl_pos := fl_pos (fr_file r) + length bs\<rparr>"
  shows "reads_on r' rest"
proof -
  have "drop (length bs) (drop (fl_pos (fr_file r)) (fl_bytes (fr_file r))) = rest"
    using assms(1) by (simp add: reads_on_def)
  moreover have "length (fl_bytes (fr_file r)) - fl_pos (fr_file r) = length bs + length rest"
    using assms(1) by (metis reads_on_def length_append length_drop)
  then have "fl_pos (fr_file r) + length bs \<le> length (fl_bytes (fr_file r))" using assms(1) unfolding reads_on_def by linarith
  ultimately show ?thesis using assms by (simp add: reads_on_def add.commute)
qed

lemma reads_on_len: "reads_on r (bs @ rest) \<Longrightarrow> length bs < 2 ^ 31"
proof -
  assume "reads_on r (bs @ rest)"
  then have "length (bs @ rest) \<le> length (fl_bytes (fr_file r))" by (metis reads_on_def length_drop diff_le_self)
  then show ?thesis using \<open>reads_on r (bs @ rest)\<close> by (simp add: reads_on_def)
qed

lemma ReadSection_at:
  assumes "reads_on r (sec_bytes c m @ rest)"
  obtains r' where "ReadSection r = (Some \<lparr>se_type = type_code (section_type m), se_size = of_nat (length (sc_ser c m))\<rparr>, r')"
    and "reads_on r' (sc_ser c m @ rest)" and "same_file r r'"
proof -
  let ?s = "\<lparr>se_type = type_code (section_type m), se_size = of_nat (length (sc_ser c m))\<rparr>"
  have on: "reads_on r (section_bytes ?s @ sc_ser c m @ rest)" using assms by (simp add: sec_bytes_def)
  let ?r = "r\<lparr>fr_file := (fr_file r)\<lparr>fl_pos := fl_pos (fr_file r) + 16\<rparr>\<rparr>"
  have "ReadSection r = (Some ?s, ?r)"
    using on by (simp add: ReadSection_def reads_on_def fd_read_def sizeof_Section_def Let_def)
      (metis length_section_bytes list.size(3) zero_neq_numeral)
  moreover have "reads_on ?r (sc_ser c m @ rest)" by (rule reads_on_skip [OF on]) simp
  ultimately show ?thesis using that by (simp add: same_file_def)
qed

lemma sint_small: "n < 2 ^ 31 \<Longrightarrow> sint (of_nat n :: 64 word) = int n"
  by (simp add: signed_of_nat signed_take_bit_int_eq_self)

lemma ReadSection_msg_at:
  assumes "reads_on r (sc_ser c m @ rest)" and "codec_ok c"
  obtains r' where "ReadSection_msg c (section_type m) (of_nat (length (sc_ser c m))) r = (Some m, r')"
    and "reads_on r' rest" and "same_file r r'"
proof -
  let ?r = "r\<lparr>fr_file := (fr_file r)\<lparr>fl_pos := fl_pos (fr_file r) + length (sc_ser c m)\<rparr>\<rparr>"
  have len: "length (sc_ser c m) < 2 ^ 31" using reads_on_len [OF assms(1)] .
  then have "ReadSection_msg c (section_type m) (of_nat (length (sc_ser c m))) r = (Some m, ?r)"
    using assms by (simp add: ReadSection_msg_def sint_small fd_read_def Let_def reads_on_def codec_ok_def)
  moreover have "reads_on ?r rest" by (rule reads_on_skip [OF assms(1)]) simp
  ultimately show ?thesis using that by (simp add: same_file_def)
qed

lemma SkipSection_at:
  assumes "reads_on r (sc_ser c m @ rest)"
  shows "reads_on (snd (SkipSection (of_nat (length (sc_ser c m))) r)) rest"
    and "same_file r (snd (SkipSection (of_nat (length (sc_ser c m))) r))"
proof -
  let ?n = "length (sc_ser c m)" and ?p = "fl_pos (fr_file r)"
  have n: "?n < 2 ^ 31" using reads_on_len [OF assms] .
  have p: "?p < 2 ^ 31" using assms by (simp add: reads_on_def)
  have sum: "sint (of_nat ?p + of_nat ?n :: 64 word) = int (?p + ?n)" "unat (of_nat ?p + of_nat ?n :: 64 word) = ?p + ?n"
    using n p by (simp_all flip: of_nat_add add: signed_of_nat signed_take_bit_int_eq_self unsigned_of_nat take_bit_nat_eq_self)
  have "SkipSection (of_nat ?n) r = (True, r\<lparr>fr_file := (fr_file r)\<lparr>fl_pos := ?p + ?n\<rparr>\<rparr>)"
    using n p by (simp add: SkipSection_def SetPosition_def CurrentPosition_def sint_small sum Let_def)
  then show "reads_on (snd (SkipSection (of_nat ?n) r)) rest" "same_file r (snd (SkipSection (of_nat ?n) r))"
    using reads_on_skip [OF assms] by (simp_all add: same_file_def)
qed

section \<open>What a reader still has to deliver\<close>

fun body_messages :: "section_msg list \<Rightarrow> SingleMessage list" where
  "body_messages [] = []"
| "body_messages (Sec_ChunkBody ms # secs) = ms @ body_messages secs"
| "body_messages (_ # secs) = body_messages secs"

definition chunk_covers :: "ChunkHeader \<Rightarrow> SingleMessage list \<Rightarrow> bool" where
  "chunk_covers h ms \<longleftrightarrow> (\<forall>m \<in> set ms. chh_begin_time h \<le> rm_time m \<and> rm_time m \<le> chh_end_time h)"

text \<open>The sections of a complete file: channels and chunks, then the index.\<close>

fun good_sections :: "section_msg list \<Rightarrow> bool" where
  "good_sections [Sec_Index is] \<longleftrightarrow> True"
| "good_sections (Sec_Channel ch # secs) \<longleftrightarrow> good_sections secs"
| "good_sections (Sec_ChunkHeader h # Sec_ChunkBody ms # secs) \<longleftrightarrow> ms \<noteq> [] \<and> chunk_covers h ms \<and> good_sections secs"
| "good_sections _ \<longleftrightarrow> False"

definition secs_bytes :: "section_codec \<Rightarrow> section_msg list \<Rightarrow> byte list" where
  "secs_bytes c secs = concat (map (sec_bytes c) secs)"

lemma secs_bytes_simps [simp]:
  "secs_bytes c [] = []" "secs_bytes c (m # secs) = sec_bytes c m @ secs_bytes c secs" "secs_bytes c (xs @ ys) = secs_bytes c xs @ secs_bytes c ys"
  by (simp_all add: secs_bytes_def)

text \<open>
  The reader stands before the sections \<open>secs\<close>, of which the first may be the body of a chunk whose header has been read; \<open>ahead\<close> are
  the messages of the chunk in memory that it has not passed yet.
\<close>

definition body_next :: "section_msg list \<Rightarrow> bool" where
  "body_next secs \<longleftrightarrow> good_sections secs \<or> (\<exists>ms rest. secs = Sec_ChunkBody ms # rest \<and> good_sections rest)"

definition reader_at :: "section_codec \<Rightarrow> RecordReader \<Rightarrow> section_msg list \<Rightarrow> bool" where
  "reader_at c rr secs \<longleftrightarrow>
     (if rr_reach_end rr then secs = []
      else body_next secs \<and> (\<exists>rest. reads_on (rr_file_reader rr) (secs_bytes c secs @ rest)))"

definition same_reader :: "RecordReader \<Rightarrow> RecordReader \<Rightarrow> bool" where
  "same_reader rr rr' \<longleftrightarrow> rr_is_valid rr = rr_is_valid rr' \<and> rr_header rr = rr_header rr' \<and> rr_index rr = rr_index rr' \<and>
     rr_channel_info rr = rr_channel_info rr' \<and> same_file (rr_file_reader rr) (rr_file_reader rr')"

lemma same_reader_refl [simp]: "same_reader rr rr"
  by (simp add: same_reader_def same_file_def)

lemma same_reader_trans: "same_reader a b \<Longrightarrow> same_reader b c \<Longrightarrow> same_reader a c"
  by (auto simp: same_reader_def same_file_def)

lemma type_code_inj [simp]: "type_code a = type_code b \<longleftrightarrow> a = b"
  by (cases a; cases b) simp_all

text \<open>The messages that may be passed over before a window.\<close>

definition stale :: "64 word \<Rightarrow> SingleMessage list \<Rightarrow> bool" where
  "stale b ms \<longleftrightarrow> (\<forall>m \<in> set ms. rm_time m < b)"

definition late :: "64 word \<Rightarrow> SingleMessage list \<Rightarrow> bool" where
  "late e ms \<longleftrightarrow> (\<forall>m \<in> set ms. e < rm_time m)"

lemma next_section:
  assumes "reader_at c rr (m # secs)" and "codec_ok c"
  obtains r1 r2 rest where "\<not> rr_reach_end rr"
    and "ReadSection (rr_file_reader rr) = (Some \<lparr>se_type = type_code (section_type m), se_size = of_nat (length (sc_ser c m))\<rparr>, r1)"
    and "ReadSection_msg c (section_type m) (of_nat (length (sc_ser c m))) r1 = (Some m, r2)"
    and "reads_on r2 (secs_bytes c secs @ rest)" and "same_file (rr_file_reader rr) r2"
    and "reads_on (snd (SkipSection (of_nat (length (sc_ser c m))) r1)) (secs_bytes c secs @ rest)"
    and "same_file (rr_file_reader rr) (snd (SkipSection (of_nat (length (sc_ser c m))) r1))"
proof -
  obtain rest where at_end: "\<not> rr_reach_end rr" and on: "reads_on (rr_file_reader rr) (sec_bytes c m @ secs_bytes c secs @ rest)"
    using assms(1) by (auto simp: reader_at_def split: if_splits)
  obtain r1 where r1: "ReadSection (rr_file_reader rr) = (Some \<lparr>se_type = type_code (section_type m), se_size = of_nat (length (sc_ser c m))\<rparr>, r1)"
      "reads_on r1 (sc_ser c m @ secs_bytes c secs @ rest)" "same_file (rr_file_reader rr) r1"
    using ReadSection_at [OF on] by blast
  obtain r2 where r2: "ReadSection_msg c (section_type m) (of_nat (length (sc_ser c m))) r1 = (Some m, r2)"
      "reads_on r2 (secs_bytes c secs @ rest)" "same_file r1 r2"
    using ReadSection_msg_at [OF r1(2) assms(2)] by blast
  show ?thesis
    using that [OF at_end r1(1) r2(1,2) same_file_trans [OF r1(3) r2(3)] SkipSection_at(1) [OF r1(2)]
        same_file_trans [OF r1(3) SkipSection_at(2) [OF r1(2)]]] .
qed

text \<open>Where a run of \<open>ReadNextChunk\<close> ends: with a chunk in memory, or before sections that are all too late.\<close>

definition next_outcome ::
    "section_codec \<Rightarrow> 64 word \<Rightarrow> 64 word \<Rightarrow> RecordReader \<Rightarrow> section_msg list \<Rightarrow> bool \<Rightarrow> RecordReader \<Rightarrow> bool" where
  "next_outcome c b e rr secs ok rr' \<longleftrightarrow>
     same_reader rr rr' \<and> rr_message_index rr' = rr_message_index rr \<and>
     (\<exists>pre secs'. stale b pre \<and> reader_at c rr' secs' \<and>
        (if ok then body_messages secs = pre @ rr_chunk rr' @ body_messages secs' \<and> length secs' < length secs
         else body_messages secs = pre @ body_messages secs' \<and> rr_chunk rr' = rr_chunk rr \<and> late e (body_messages secs')))"

lemma next_outcome_step:
  assumes "next_outcome c b e rr1 secs1 ok rr'" and "same_reader rr rr1" and "rr_message_index rr1 = rr_message_index rr"
    and "rr_chunk rr1 = rr_chunk rr" and "body_messages secs = pre1 @ body_messages secs1" and "stale b pre1"
    and "length secs1 \<le> length secs"
  shows "next_outcome c b e rr secs ok rr'"
proof -
  obtain pre secs' where out: "stale b pre" "reader_at c rr' secs'"
      "if ok then body_messages secs1 = pre @ rr_chunk rr' @ body_messages secs' \<and> length secs' < length secs1
       else body_messages secs1 = pre @ body_messages secs' \<and> rr_chunk rr' = rr_chunk rr1 \<and> late e (body_messages secs')"
    using assms(1) unfolding next_outcome_def by blast
  have "stale b (pre1 @ pre)" using out(1) assms(6) by (auto simp: stale_def)
  moreover have "if ok then body_messages secs = (pre1 @ pre) @ rr_chunk rr' @ body_messages secs' \<and> length secs' < length secs
       else body_messages secs = (pre1 @ pre) @ body_messages secs' \<and> rr_chunk rr' = rr_chunk rr \<and> late e (body_messages secs')"
    using out(3) assms(4,5,7) by (auto split: if_splits)
  moreover have "same_reader rr rr'" "rr_message_index rr' = rr_message_index rr"
    using assms(1-3) same_reader_trans by (auto simp: next_outcome_def)
  ultimately show ?thesis using out(2) unfolding next_outcome_def by blast
qed

lemma next_outcome_stop:
  assumes "same_reader rr rr'" and "rr_message_index rr' = rr_message_index rr" and "rr_chunk rr' = rr_chunk rr"
    and "reader_at c rr' secs'" and "body_messages secs' = body_messages secs" and "late e (body_messages secs')"
  shows "next_outcome c b e rr secs False rr'"
  unfolding next_outcome_def using assms
  by (intro conjI exI [of _ "[]"] exI [of _ secs']) (auto simp: stale_def)

lemma late_from_header:
  assumes "e < chh_begin_time h" and "ms \<noteq> []" and "chunk_covers h ms" and "sorted (map rm_time (ms @ ms'))"
  shows "late e (ms @ ms')"
proof -
  have "e < rm_time m" if "m \<in> set ms" for m using that assms(1,3) by (auto simp: chunk_covers_def)
  moreover have "e < rm_time m" if "m \<in> set ms'" for m
  proof -
    have "rm_time (hd ms) \<le> rm_time m" using that assms(2,4) by (auto simp: sorted_append)
    moreover have "chh_begin_time h \<le> rm_time (hd ms)" using assms(2,3) by (simp add: chunk_covers_def)
    ultimately show ?thesis using assms(1) by (meson less_le_trans)
  qed
  ultimately show ?thesis by (auto simp: late_def)
qed

lemma body_next_tail: "body_next (Sec_ChunkBody ms # secs) \<longleftrightarrow> good_sections secs"
  by (auto simp: body_next_def)

lemma reader_atI: "\<not> rr_reach_end rr \<Longrightarrow> body_next secs \<Longrightarrow> reads_on (rr_file_reader rr) (secs_bytes c secs @ rest) \<Longrightarrow> reader_at c rr secs"
  by (auto simp: reader_at_def)

lemma same_reader_file:
  "same_file (rr_file_reader rr) r \<Longrightarrow> same_reader rr (rr\<lparr>rr_file_reader := r\<rparr>)"
  "same_file (rr_file_reader rr) r \<Longrightarrow> same_reader rr (rr\<lparr>rr_file_reader := r, rr_reach_end := x\<rparr>)"
  "same_file (rr_file_reader rr) r \<Longrightarrow> same_reader rr (rr\<lparr>rr_chunk := ms, rr_file_reader := r\<rparr>)"
  by (simp_all add: same_reader_def)

text \<open>The loop returns and ends as described, from every reader before the given sections.\<close>

definition loop_ok :: "section_codec \<Rightarrow> 64 word \<Rightarrow> 64 word \<Rightarrow> section_msg list \<Rightarrow> bool" where
  "loop_ok c b e secs \<longleftrightarrow>
     (\<forall>rr skip. reader_at c rr secs \<longrightarrow> \<not> rr_reach_end rr \<longrightarrow> sorted (map rm_time (body_messages secs)) \<longrightarrow>
        (skip \<longrightarrow> (\<exists>ms rest. secs = Sec_ChunkBody ms # rest \<and> stale b ms)) \<longrightarrow>
        (\<exists>ok rr'. ReadNextChunk_loop c b e skip rr = Some (ok, rr') \<and> next_outcome c b e rr secs ok rr'))"

lemma loop_okI:
  assumes "\<And>rr skip. reader_at c rr secs \<Longrightarrow> \<not> rr_reach_end rr \<Longrightarrow> sorted (map rm_time (body_messages secs)) \<Longrightarrow>
      (skip \<Longrightarrow> \<exists>ms rest. secs = Sec_ChunkBody ms # rest \<and> stale b ms) \<Longrightarrow>
      \<exists>ok rr'. ReadNextChunk_loop c b e skip rr = Some (ok, rr') \<and> next_outcome c b e rr secs ok rr'"
  shows "loop_ok c b e secs"
  unfolding loop_ok_def using assms by blast

lemma loop_okD:
  assumes "loop_ok c b e secs" and "reader_at c rr secs" and "\<not> rr_reach_end rr" and "sorted (map rm_time (body_messages secs))"
    and "skip \<Longrightarrow> \<exists>ms rest. secs = Sec_ChunkBody ms # rest \<and> stale b ms"
  obtains ok rr' where "ReadNextChunk_loop c b e skip rr = Some (ok, rr')" and "next_outcome c b e rr secs ok rr'"
  using assms unfolding loop_ok_def by blast

text \<open>A turn of the loop that goes on with a smaller list of sections.\<close>

lemma loop_continue:
  assumes "loop_ok c b e secs1" and "ReadNextChunk_loop c b e skip rr = ReadNextChunk_loop c b e skip1 (rr\<lparr>rr_file_reader := r\<rparr>)"
    and "same_file (rr_file_reader rr) r" and "\<not> rr_reach_end rr" and "body_next secs1" and "reads_on r (secs_bytes c secs1 @ rest)"
    and "body_messages secs = pre @ body_messages secs1" and "stale b pre" and "length secs1 \<le> length secs"
    and "sorted (map rm_time (body_messages secs))" and "skip1 \<Longrightarrow> \<exists>ms rest. secs1 = Sec_ChunkBody ms # rest \<and> stale b ms"
  shows "\<exists>ok rr'. ReadNextChunk_loop c b e skip rr = Some (ok, rr') \<and> next_outcome c b e rr secs ok rr'"
proof -
  let ?rr = "rr\<lparr>rr_file_reader := r\<rparr>"
  have at: "reader_at c ?rr secs1" using assms(4-6) by (intro reader_atI) auto
  have open': "\<not> rr_reach_end ?rr" using assms(4) by simp
  have "sorted (map rm_time (body_messages secs1))" using assms(7,10) by (simp add: sorted_append)
  from loop_okD [OF assms(1) at open' this assms(11)] obtain ok rr' where "ReadNextChunk_loop c b e skip1 ?rr = Some (ok, rr')" "next_outcome c b e ?rr secs1 ok rr'"
    by blast
  moreover from \<open>next_outcome c b e ?rr secs1 ok rr'\<close> have "next_outcome c b e rr secs ok rr'"
    by (rule next_outcome_step [OF _ same_reader_file(1) [OF assms(3)] _ _ assms(7-9)]) simp_all
  ultimately show ?thesis using assms(2) by simp
qed

lemma loop_index: "codec_ok c \<Longrightarrow> loop_ok c b e [Sec_Index ids]"
proof (rule loop_okI)
  fix rr skip assume c: "codec_ok c" and rr: "reader_at c rr [Sec_Index ids]" "\<not> rr_reach_end rr"
  let ?n = "of_nat (length (sc_ser c (Sec_Index ids)))"
  obtain r1 where r1: "ReadSection (rr_file_reader rr) = (Some \<lparr>se_type = type_code SECTION_INDEX, se_size = ?n\<rparr>, r1)"
      "same_file (rr_file_reader rr) (snd (SkipSection ?n r1))"
    using next_section [OF rr(1) c] by (metis section_type.simps(4))
  let ?rr = "rr\<lparr>rr_file_reader := snd (SkipSection ?n r1), rr_reach_end := True\<rparr>"
  have "ReadNextChunk_loop c b e skip rr = ReadNextChunk_loop c b e skip ?rr"
    by (subst ReadNextChunk_loop.simps) (simp add: rr(2) r1(1))
  also have "\<dots> = Some (False, ?rr)" by (subst ReadNextChunk_loop.simps) simp
  finally show "\<exists>ok rr'. ReadNextChunk_loop c b e skip rr = Some (ok, rr') \<and> next_outcome c b e rr [Sec_Index ids] ok rr'"
    using same_reader_file(2) [OF r1(2)] by (auto intro!: next_outcome_stop [where secs' = "[]"] simp: late_def reader_at_def)
qed

lemma loop_channel:
  assumes "codec_ok c" and "good_sections secs" and "loop_ok c b e secs"
  shows "loop_ok c b e (Sec_Channel ch # secs)"
proof (rule loop_okI)
  fix rr skip assume rr: "reader_at c rr (Sec_Channel ch # secs)" "\<not> rr_reach_end rr"
    "sorted (map rm_time (body_messages (Sec_Channel ch # secs)))" "skip \<Longrightarrow> \<exists>ms rest. Sec_Channel ch # secs = Sec_ChunkBody ms # rest \<and> stale b ms"
  let ?n = "of_nat (length (sc_ser c (Sec_Channel ch)))"
  obtain r1 r2 rest where r: "ReadSection (rr_file_reader rr) = (Some \<lparr>se_type = type_code SECTION_CHANNEL, se_size = ?n\<rparr>, r1)"
      "ReadSection_msg c SECTION_CHANNEL ?n r1 = (Some (Sec_Channel ch), r2)" "reads_on r2 (secs_bytes c secs @ rest)"
      "same_file (rr_file_reader rr) r2"
    using next_section [OF rr(1) assms(1)] by (metis section_type.simps(5))
  have "\<not> skip" using rr(4) by auto
  then have step: "ReadNextChunk_loop c b e skip rr = ReadNextChunk_loop c b e False (rr\<lparr>rr_file_reader := r2\<rparr>)"
    by (subst ReadNextChunk_loop.simps) (simp add: rr(2) r(1,2))
  show "\<exists>ok rr'. ReadNextChunk_loop c b e skip rr = Some (ok, rr') \<and> next_outcome c b e rr (Sec_Channel ch # secs) ok rr'"
    by (rule loop_continue [OF assms(3) step r(4) rr(2) _ r(3), where pre = "[]"])
      (use assms(2) rr(3) in \<open>auto simp: body_next_def stale_def\<close>)
qed

lemma loop_body:
  assumes "codec_ok c" and "good_sections secs" and "loop_ok c b e secs"
  shows "loop_ok c b e (Sec_ChunkBody ms # secs)"
proof (rule loop_okI)
  fix rr skip assume rr: "reader_at c rr (Sec_ChunkBody ms # secs)" "\<not> rr_reach_end rr"
    "sorted (map rm_time (body_messages (Sec_ChunkBody ms # secs)))" "skip \<Longrightarrow> \<exists>ms' rest. Sec_ChunkBody ms # secs = Sec_ChunkBody ms' # rest \<and> stale b ms'"
  let ?n = "of_nat (length (sc_ser c (Sec_ChunkBody ms)))"
  obtain r1 r2 rest where r: "ReadSection (rr_file_reader rr) = (Some \<lparr>se_type = type_code SECTION_CHUNK_BODY, se_size = ?n\<rparr>, r1)"
      "ReadSection_msg c SECTION_CHUNK_BODY ?n r1 = (Some (Sec_ChunkBody ms), r2)" "reads_on r2 (secs_bytes c secs @ rest)"
      "same_file (rr_file_reader rr) r2" "reads_on (snd (SkipSection ?n r1)) (secs_bytes c secs @ rest)"
      "same_file (rr_file_reader rr) (snd (SkipSection ?n r1))"
    using next_section [OF rr(1) assms(1)] by (metis section_type.simps(3))
  show "\<exists>ok rr'. ReadNextChunk_loop c b e skip rr = Some (ok, rr') \<and> next_outcome c b e rr (Sec_ChunkBody ms # secs) ok rr'"
  proof (cases skip)
    case True
    have step: "ReadNextChunk_loop c b e skip rr = ReadNextChunk_loop c b e False (rr\<lparr>rr_file_reader := snd (SkipSection ?n r1)\<rparr>)"
      by (subst ReadNextChunk_loop.simps) (simp add: rr(2) True r(1))
    have pre: "stale b ms" using rr(4) [OF True] by auto
    show ?thesis
      by (rule loop_continue [OF assms(3) step r(6) rr(2) _ r(5), where pre = ms])
        (use assms(2) rr(3) pre in \<open>simp_all add: body_next_def\<close>)
  next
    case False
    let ?rr = "rr\<lparr>rr_chunk := ms, rr_file_reader := r2\<rparr>"
    have "ReadNextChunk_loop c b e skip rr = Some (True, ?rr)"
      by (subst ReadNextChunk_loop.simps) (simp add: rr(2) False r(1,2))
    moreover have "reader_at c ?rr secs" using rr(2) assms(2) r(3) by (intro reader_atI) (auto simp: body_next_def)
    moreover have "next_outcome c b e rr (Sec_ChunkBody ms # secs) True ?rr"
      unfolding next_outcome_def using same_reader_file(3) [OF r(4)] \<open>reader_at c ?rr secs\<close>
      by (intro conjI exI [of _ "[]"] exI [of _ secs]) (simp_all add: stale_def)
    ultimately show ?thesis by blast
  qed
qed

lemma loop_header:
  assumes "codec_ok c" and "good_sections secs" and "loop_ok c b e (Sec_ChunkBody ms # secs)" and "ms \<noteq> []" and "chunk_covers h ms"
  shows "loop_ok c b e (Sec_ChunkHeader h # Sec_ChunkBody ms # secs)"
proof (rule loop_okI)
  let ?secs = "Sec_ChunkBody ms # secs" and ?all = "Sec_ChunkHeader h # Sec_ChunkBody ms # secs"
  fix rr skip assume rr: "reader_at c rr ?all" "\<not> rr_reach_end rr" "sorted (map rm_time (body_messages ?all))"
    "skip \<Longrightarrow> \<exists>ms' rest. ?all = Sec_ChunkBody ms' # rest \<and> stale b ms'"
  let ?n = "of_nat (length (sc_ser c (Sec_ChunkHeader h)))"
  obtain r1 r2 rest where r: "ReadSection (rr_file_reader rr) = (Some \<lparr>se_type = type_code SECTION_CHUNK_HEADER, se_size = ?n\<rparr>, r1)"
      "ReadSection_msg c SECTION_CHUNK_HEADER ?n r1 = (Some (Sec_ChunkHeader h), r2)" "reads_on r2 (secs_bytes c ?secs @ rest)"
      "same_file (rr_file_reader rr) r2"
    using next_section [OF rr(1) assms(1)] by (metis section_type.simps(2))
  have skip: "\<not> skip" using rr(4) by auto
  show "\<exists>ok rr'. ReadNextChunk_loop c b e skip rr = Some (ok, rr') \<and> next_outcome c b e rr ?all ok rr'"
  proof (cases "chh_begin_time h > e")
    case True
    let ?rr = "rr\<lparr>rr_file_reader := r2\<rparr>"
    have "ReadNextChunk_loop c b e skip rr = Some (False, ?rr)"
      by (subst ReadNextChunk_loop.simps) (simp add: rr(2) r(1,2) True)
    moreover have "late e (body_messages ?secs)" using late_from_header [OF True assms(4,5)] rr(3) by simp
    moreover have "reader_at c ?rr ?secs" using rr(2) assms(2) r(3) by (intro reader_atI) (auto simp: body_next_def)
    ultimately show ?thesis
      using next_outcome_stop [OF same_reader_file(1) [OF r(4)], where secs' = ?secs and secs = ?all] by auto
  next
    case False
    have step: "ReadNextChunk_loop c b e skip rr = ReadNextChunk_loop c b e (chh_end_time h < b) (rr\<lparr>rr_file_reader := r2\<rparr>)"
      using skip False by (subst ReadNextChunk_loop.simps) (simp add: rr(2) r(1,2))
    have "stale b ms" if "chh_end_time h < b" using that assms(5) by (auto simp: chunk_covers_def stale_def)
    then show ?thesis
      by (intro loop_continue [OF assms(3) step r(4) rr(2) _ r(3), where pre = "[]"])
        (use assms(2) rr(3) in \<open>auto simp: body_next_def stale_def\<close>)
  qed
qed

lemma loop_ok_good: "codec_ok c \<Longrightarrow> good_sections secs \<Longrightarrow> loop_ok c b e secs"
  by (induction secs rule: good_sections.induct) (simp_all add: loop_index loop_channel loop_header loop_body)

lemma ReadNextChunk_outcome:
  assumes "codec_ok c" and "reader_at c rr secs" and "sorted (map rm_time (body_messages secs))"
  shows "\<exists>ok rr'. ReadNextChunk c b e rr = Some (ok, rr') \<and> next_outcome c b e rr secs ok rr'"
proof (cases "rr_reach_end rr")
  case True
  then have "ReadNextChunk c b e rr = Some (False, rr)" by (simp add: ReadNextChunk_def ReadNextChunk_loop.simps)
  then show ?thesis using assms(2) True by (auto intro!: next_outcome_stop simp: late_def reader_at_def)
next
  case False
  then have "body_next secs" using assms(2) by (simp add: reader_at_def)
  then have "loop_ok c b e secs" using loop_ok_good [OF assms(1)] loop_body [OF assms(1)] by (auto simp: body_next_def)
  then show ?thesis using assms(2,3) False by (auto simp: loop_ok_def ReadNextChunk_def)
qed

section \<open>Reading within a window\<close>

text \<open>
  One read from a source that still holds the messages \<open>L\<close>: it gives the first message of the window and passes over messages before the
  window only; or there is none, and what is passed over lies before the window.
\<close>

definition window_step :: "64 word \<Rightarrow> 64 word \<Rightarrow> SingleMessage list \<Rightarrow> SingleMessage option \<Rightarrow> SingleMessage list \<Rightarrow> bool" where
  "window_step b e L res L' \<longleftrightarrow>
     (case res of
        Some m \<Rightarrow> \<exists>pre. L = pre @ m # L' \<and> stale b pre \<and> b \<le> rm_time m \<and> rm_time m \<le> e
      | None \<Rightarrow> \<exists>pre. L = pre @ L' \<and> stale b pre \<and> (\<forall>m \<in> set L. rm_time m < b \<or> e < rm_time m))"

definition reader_holds :: "section_codec \<Rightarrow> RecordReader \<Rightarrow> SingleMessage list \<Rightarrow> bool" where
  "reader_holds c rr L \<longleftrightarrow> rr_is_valid rr \<and> sorted (map rm_time L) \<and>
     (\<forall>m \<in> set L. hd_begin_time (rr_header rr) \<le> rm_time m \<and> rm_time m \<le> hd_end_time (rr_header rr)) \<and>
     (\<exists>secs. reader_at c rr secs \<and> L = drop (rr_message_index rr) (rr_chunk rr) @ body_messages secs)"

lemma stale_append [simp]: "stale b (xs @ ys) \<longleftrightarrow> stale b xs \<and> stale b ys" "stale b []" "stale b (x # xs) \<longleftrightarrow> rm_time x < b \<and> stale b xs"
  by (auto simp: stale_def)

lemma scan_chunk_late:
  "scan_chunk b e ms i = Scan_late j \<Longrightarrow> \<exists>pre m rest. ms = pre @ m # rest \<and> stale b pre \<and> e < rm_time m \<and> j = i + length pre"
proof (induction ms arbitrary: i)
  case (Cons x ms)
  show ?case
  proof (cases "rm_time x > e")
    case True
    then show ?thesis using Cons.prems by (intro exI [of _ "[]"]) simp
  next
    case False
    then have "rm_time x < b" "scan_chunk b e ms (i + 1) = Scan_late j" using Cons.prems by (simp_all split: if_splits)
    with Cons.IH [OF this(2)] obtain pre m rest where "ms = pre @ m # rest" "stale b pre" "e < rm_time m" "j = i + 1 + length pre" by blast
    then show ?thesis using \<open>rm_time x < b\<close> by (intro exI [of _ "x # pre"] exI [of _ m] exI [of _ rest]) simp
  qed
qed simp

lemma scan_chunk_found:
  "scan_chunk b e ms i = Scan_found m j \<Longrightarrow>
     \<exists>pre rest. ms = pre @ m # rest \<and> stale b pre \<and> b \<le> rm_time m \<and> rm_time m \<le> e \<and> j = i + Suc (length pre)"
proof (induction ms arbitrary: i)
  case (Cons x ms)
  show ?case
  proof (cases "rm_time x < b")
    case False
    then show ?thesis using Cons.prems by (intro exI [of _ "[]"] exI [of _ ms]) (auto split: if_splits)
  next
    case True
    then have "scan_chunk b e ms (i + 1) = Scan_found m j" using Cons.prems by (simp split: if_splits)
    with Cons.IH [OF this] obtain pre rest where "ms = pre @ m # rest" "stale b pre" "b \<le> rm_time m" "rm_time m \<le> e"
        "j = i + 1 + Suc (length pre)" by blast
    then show ?thesis using True by (intro exI [of _ "x # pre"] exI [of _ rest]) simp
  qed
qed simp

lemma scan_chunk_exhausted: "scan_chunk b e ms i = Scan_exhausted j \<Longrightarrow> stale b ms \<and> j = i + length ms"
  by (induction ms arbitrary: i) (fastforce split: if_splits)+

text \<open>After the chunk in memory.\<close>

lemma reader_at_index [simp]: "reader_at c (rr\<lparr>rr_message_index := i\<rparr>) secs = reader_at c rr secs"
  by (simp add: reader_at_def)

lemma same_reader_index [simp]: "same_reader rr (rr'\<lparr>rr_message_index := i\<rparr>) = same_reader rr rr'" "same_reader (rr\<lparr>rr_message_index := i\<rparr>) rr' = same_reader rr rr'"
  by (simp_all add: same_reader_def)

lemma window_none: "late e L' \<Longrightarrow> stale b pre \<Longrightarrow> window_step b e (pre @ L') None L'"
  by (auto simp: window_step_def late_def stale_def)

lemma window_prefix: "window_step b e L res L' \<Longrightarrow> stale b pre \<Longrightarrow> window_step b e (pre @ L) res L'"
proof (cases res)
  case None
  assume "window_step b e L res L'" "stale b pre"
  then obtain pre' where "L = pre' @ L'" "stale b pre'" "\<forall>m \<in> set L. rm_time m < b \<or> e < rm_time m"
    using None by (auto simp: window_step_def)
  then show ?thesis
    using None \<open>stale b pre\<close> by (auto simp: window_step_def stale_def intro!: exI [of _ "pre @ pre'"])
next
  case (Some m)
  assume "window_step b e L res L'" "stale b pre"
  then obtain pre' where "L = pre' @ m # L'" "stale b pre'" "b \<le> rm_time m" "rm_time m \<le> e"
    using Some by (auto simp: window_step_def)
  then show ?thesis using Some \<open>stale b pre\<close> by (auto simp: window_step_def intro!: exI [of _ "pre @ pre'"])
qed

lemma late_from: "sorted (map rm_time (m # ms)) \<Longrightarrow> e < rm_time m \<Longrightarrow> late e (m # ms)"
  by (auto simp: late_def)

lemma holds_rest:
  assumes "reader_holds c rr L" and "L = pre @ L'" and "same_reader rr rr'" and "reader_at c rr' secs"
    and "L' = drop (rr_message_index rr') (rr_chunk rr') @ body_messages secs"
  shows "reader_holds c rr' L'"
  using assms unfolding reader_holds_def same_reader_def by (auto simp: sorted_append)

definition read_ok :: "section_codec \<Rightarrow> 64 word \<Rightarrow> 64 word \<Rightarrow> RecordReader \<Rightarrow> SingleMessage list \<Rightarrow> bool" where
  "read_ok c b e rr L \<longleftrightarrow>
     (\<exists>res rr' L'. ReadMessage c b e rr = Some (res, rr') \<and> window_step b e L res L' \<and> reader_holds c rr' L' \<and> same_reader rr rr')"

lemma read_okI:
  "ReadMessage c b e rr = Some (res, rr') \<Longrightarrow> window_step b e L res L' \<Longrightarrow> reader_holds c rr' L' \<Longrightarrow> same_reader rr rr' \<Longrightarrow> read_ok c b e rr L"
  by (auto simp: read_ok_def)

text \<open>A read that ends within the chunk in memory.\<close>

lemma read_in_chunk:
  assumes "reader_holds c rr L" and "reader_at c rr secs" and "L = drop (rr_message_index rr) (rr_chunk rr) @ body_messages secs"
    and "\<not> (b > hd_end_time (rr_header rr) \<or> e < hd_begin_time (rr_header rr))"
    and scan: "\<And>j. scan_chunk b e (drop (rr_message_index rr) (rr_chunk rr)) (rr_message_index rr) \<noteq> Scan_exhausted j"
  shows "read_ok c b e rr L"
proof -
  let ?i = "rr_message_index rr" and ?ms = "drop (rr_message_index rr) (rr_chunk rr)"
  have valid: "rr_is_valid rr" using assms(1) by (simp add: reader_holds_def)
  note unf = ReadMessage.simps [of c b e rr]
  have skip: "drop (?i + length pre) (rr_chunk rr) = ms'" if "?ms = pre @ ms'" for pre ms'
    using that by (metis add.commute append_eq_conv_conj drop_drop)
  show ?thesis
  proof (cases "scan_chunk b e ?ms ?i")
    case (Scan_late j)
    then obtain pre m rest where pre: "?ms = pre @ m # rest" "stale b pre" "e < rm_time m" "j = ?i + length pre"
      using scan_chunk_late by blast
    let ?rr = "rr\<lparr>rr_message_index := j\<rparr>" and ?L = "m # rest @ body_messages secs"
    have L: "L = pre @ ?L" using assms(3) pre(1) by simp
    then have "late e ?L" using assms(1) pre(3) by (intro late_from) (auto simp: reader_holds_def sorted_append)
    then have "window_step b e L None ?L" unfolding L by (rule window_none [OF _ pre(2)])
    moreover have "reader_holds c ?rr ?L"
      using skip [OF pre(1)] pre(4) assms(2) by (intro holds_rest [OF assms(1) L, where secs = secs]) simp_all
    ultimately show ?thesis
      using unf Scan_late valid assms(4) by (intro read_okI [where rr' = ?rr and L' = ?L and res = None]) simp_all
  next
    case (Scan_found m j)
    then obtain pre rest where pre: "?ms = pre @ m # rest" "stale b pre" "b \<le> rm_time m" "rm_time m \<le> e" "j = ?i + Suc (length pre)"
      using scan_chunk_found by blast
    let ?rr = "rr\<lparr>rr_message_index := j\<rparr>" and ?L = "rest @ body_messages secs"
    have L: "L = (pre @ [m]) @ ?L" using assms(3) pre(1) by simp
    then have "window_step b e L (Some m) ?L" using pre by (auto simp: window_step_def)
    moreover have "reader_holds c ?rr ?L"
      using skip [of "pre @ [m]" rest] pre assms(2) by (intro holds_rest [OF assms(1) L, where secs = secs]) simp_all
    ultimately show ?thesis
      using unf Scan_found valid assms(4) by (intro read_okI [where rr' = ?rr and L' = ?L and res = "Some m"]) simp_all
  next
    case (Scan_exhausted j)
    then show ?thesis using scan by blast
  qed
qed

lemma read_outside:
  assumes "reader_holds c rr L" and "b > hd_end_time (rr_header rr) \<or> e < hd_begin_time (rr_header rr)"
  shows "read_ok c b e rr L"
proof -
  have "rm_time m < b \<or> e < rm_time m" if "m \<in> set L" for m
    using that assms by (meson le_less_trans less_le_trans reader_holds_def)
  then have "window_step b e L None L" by (auto simp: window_step_def)
  moreover have "ReadMessage c b e rr = Some (None, rr)"
    using assms by (subst ReadMessage.simps) (simp add: reader_holds_def)
  ultimately show ?thesis using read_okI [OF _ _ assms(1) same_reader_refl] by blast
qed

text \<open>A read that needs the next chunk.\<close>

lemma read_next_chunk:
  assumes "codec_ok c" and "reader_holds c rr L" and "reader_at c rr secs"
    and "L = drop (rr_message_index rr) (rr_chunk rr) @ body_messages secs"
    and "\<not> (b > hd_end_time (rr_header rr) \<or> e < hd_begin_time (rr_header rr))"
    and scan: "scan_chunk b e (drop (rr_message_index rr) (rr_chunk rr)) (rr_message_index rr) = Scan_exhausted j"
    and IH: "\<And>secs1 rr1 L1. length secs1 < length secs \<Longrightarrow> reader_holds c rr1 L1 \<Longrightarrow> reader_at c rr1 secs1 \<Longrightarrow>
      L1 = drop (rr_message_index rr1) (rr_chunk rr1) @ body_messages secs1 \<Longrightarrow> read_ok c b e rr1 L1"
  shows "read_ok c b e rr L"
proof -
  let ?ms = "drop (rr_message_index rr) (rr_chunk rr)" and ?rr = "rr\<lparr>rr_message_index := j\<rparr>"
  have valid: "rr_is_valid rr" using assms(2) by (simp add: reader_holds_def)
  have chunk: "stale b ?ms" "drop j (rr_chunk rr) = []" using scan_chunk_exhausted [OF scan] by auto
  have "sorted (map rm_time (body_messages secs))" using assms(2,4) by (simp add: reader_holds_def sorted_append)
  then obtain ok rr1 where nxt: "ReadNextChunk c b e ?rr = Some (ok, rr1)" and out: "next_outcome c b e ?rr secs ok rr1"
    using ReadNextChunk_outcome [OF assms(1), of ?rr secs b e] assms(3) by auto
  have same: "same_reader rr rr1" "rr_message_index rr1 = j" using out by (auto simp: next_outcome_def)
  obtain pre secs' where pre: "stale b pre" "reader_at c rr1 secs'"
      "if ok then body_messages secs = pre @ rr_chunk rr1 @ body_messages secs' \<and> length secs' < length secs
       else body_messages secs = pre @ body_messages secs' \<and> rr_chunk rr1 = rr_chunk rr \<and> late e (body_messages secs')"
    using out unfolding next_outcome_def by auto
  have stale: "stale b (?ms @ pre)" using chunk(1) pre(1) by simp
  show ?thesis
  proof (cases ok)
    case True
    let ?rr1 = "rr1\<lparr>rr_message_index := 0\<rparr>" and ?L = "rr_chunk rr1 @ body_messages secs'"
    have L: "L = (?ms @ pre) @ ?L" using pre(3) True assms(4) by simp
    have holds: "reader_holds c ?rr1 ?L" using pre(2) same(1) by (intro holds_rest [OF assms(2) L, where secs = secs']) simp_all
    have "length secs' < length secs" using pre(3) True by simp
    then have "read_ok c b e ?rr1 ?L" by (rule IH [OF _ holds]) (use pre(2) in simp_all)
    then obtain res rr' L' where read: "ReadMessage c b e ?rr1 = Some (res, rr')" "window_step b e ?L res L'" "reader_holds c rr' L'"
        "same_reader ?rr1 rr'"
      unfolding read_ok_def by blast
    have "ReadMessage c b e rr = ReadMessage c b e ?rr1"
      by (subst ReadMessage.simps) (use valid assms(5) scan nxt True in simp)
    moreover have "window_step b e L res L'" unfolding L by (rule window_prefix [OF read(2) stale])
    moreover have "same_reader rr rr'" using read(4) same(1) same_reader_trans by (simp only: same_reader_index)
    ultimately show ?thesis using read(1,3) by (intro read_okI) simp_all
  next
    case False
    have L: "L = (?ms @ pre) @ body_messages secs'" using pre(3) False assms(4) by simp
    have "reader_holds c rr1 (body_messages secs')"
      using pre(2,3) same False chunk(2) by (intro holds_rest [OF assms(2) L, where secs = secs']) simp_all
    moreover have "window_step b e L None (body_messages secs')" unfolding L using pre(3) False stale by (intro window_none) simp_all
    moreover have "ReadMessage c b e rr = Some (None, rr1)"
      by (subst ReadMessage.simps) (use valid assms(5) scan nxt False in simp)
    ultimately show ?thesis using same(1) by (intro read_okI) simp_all
  qed
qed

lemma ReadMessage_window:
  assumes "codec_ok c" and "reader_holds c rr L"
  shows "read_ok c b e rr L"
proof -
  have "read_ok c b e rr L" if "reader_holds c rr L" "reader_at c rr secs" "L = drop (rr_message_index rr) (rr_chunk rr) @ body_messages secs"
    for rr L secs
    using that
  proof (induction "length secs" arbitrary: secs rr L rule: less_induct)
    case less
    show ?case
    proof (cases "b > hd_end_time (rr_header rr) \<or> e < hd_begin_time (rr_header rr)")
      case True
      then show ?thesis by (rule read_outside [OF less.prems(1)])
    next
      case False
      show ?thesis
      proof (cases "\<exists>j. scan_chunk b e (drop (rr_message_index rr) (rr_chunk rr)) (rr_message_index rr) = Scan_exhausted j")
        case True
        then obtain j where "scan_chunk b e (drop (rr_message_index rr) (rr_chunk rr)) (rr_message_index rr) = Scan_exhausted j" ..
        then show ?thesis by (rule read_next_chunk [OF assms(1) less.prems False]) (rule less.hyps)
      next
        case no_chunk: False
        then show ?thesis by (intro read_in_chunk [OF less.prems False]) blast
      qed
    qed
  qed
  then show ?thesis using assms(2) unfolding reader_holds_def by blast
qed

end
