(* ===== verification/Record_Roundtrip.thy ===== *)
theory Record_Roundtrip
  imports Record_Reader "HOL-Library.Multiset"
begin

text \<open>
  What a record file holds. The writer keeps its file in the form: header block, sections of channels and chunks; \<open>Close\<close> adds
  the index and the final header. If the flush thread keeps up, the reader delivers exactly the messages written, in order,
  within any window of time; if it does not, no message is lost, but the chunks change places and the times in the header are wrong.
\<close>

section \<open>Headers\<close>

definition base_header :: Header where
  "base_header = \<lparr>hd_major_version = 1, hd_minor_version = 0, hd_compress = COMPRESS_NONE, hd_chunk_interval = 20000000000,
     hd_segment_interval = 60000000000, hd_index_position = 0, hd_chunk_number = 0, hd_channel_number = 0, hd_begin_time = 0,
     hd_end_time = 0, hd_message_number = 0, hd_size = 0, hd_is_complete = False, hd_chunk_raw_size = 209715200,
     hd_segment_raw_size = 2147483648\<rparr>"

definition HeaderBuilder_GetHeader :: Header where
  "HeaderBuilder_GetHeader = base_header"

definition GetHeaderWithSegmentParams :: "64 word \<Rightarrow> 64 word \<Rightarrow> Header" where
  "GetHeaderWithSegmentParams segment_interval segment_raw_size =
     base_header\<lparr>hd_segment_interval := segment_interval, hd_segment_raw_size := segment_raw_size\<rparr>"

definition GetHeaderWithChunkParams :: "64 word \<Rightarrow> 64 word \<Rightarrow> Header" where
  "GetHeaderWithChunkParams chunk_interval chunk_raw_size =
     base_header\<lparr>hd_chunk_interval := chunk_interval, hd_chunk_raw_size := chunk_raw_size\<rparr>"

section \<open>The file of a writer\<close>

definition header_block :: "section_codec \<Rightarrow> Header \<Rightarrow> byte list" where
  "header_block c h = sec_bytes c (Sec_Header h) @ take (HEADER_LENGTH - length (sc_ser c (Sec_Header h))) (48 # replicate (HEADER_LENGTH - 1) 0)"

lemma length_header_block: "codec_ok c \<Longrightarrow> length (header_block c h) = 2064"
  by (simp add: header_block_def sec_bytes_def HEADER_LENGTH_def codec_ok_def)

definition writer_at :: "section_codec \<Rightarrow> RecordFileWriter \<Rightarrow> section_msg list \<Rightarrow> bool" where
  "writer_at c w secs \<longleftrightarrow> fl_limit (fw_file w) = None \<and> fl_pos (fw_file w) = length (fl_bytes (fw_file w)) \<and>
     (\<exists>h. fl_bytes (fw_file w) = header_block c h @ secs_bytes c secs)"

text \<open>A write at a position inside or at the end of the file.\<close>

lemma fd_write_at:
  assumes "fl_limit f = None" and "fl_bytes f = pre @ post" and "fl_pos f = length pre"
  shows "fd_write bs f = (int (length bs), f\<lparr>fl_bytes := pre @ bs @ drop (length bs) post, fl_pos := length pre + length bs\<rparr>)"
  using assms by (simp add: fd_write_def Let_def)

lemma fd_write_end:
  assumes "fl_limit f = None" and "fl_pos f = length (fl_bytes f)"
  shows "fd_write bs f = (int (length bs), f\<lparr>fl_bytes := fl_bytes f @ bs, fl_pos := length (fl_bytes f) + length bs\<rparr>)"
  using fd_write_at [of f "fl_bytes f" "[]"] assms by simp

text \<open>A section other than the header is appended.\<close>

lemma WriteSection_end:
  assumes "fl_limit (fw_file w) = None" and "fl_pos (fw_file w) = length (fl_bytes (fw_file w))" and "section_type m \<noteq> SECTION_HEADER"
  shows "WriteSection c m w =
    (True, w\<lparr>fw_file := (fw_file w)\<lparr>fl_bytes := fl_bytes (fw_file w) @ sec_bytes c m,
                fl_pos := length (fl_bytes (fw_file w)) + length (sec_bytes c m)\<rparr>,
             fw_header := (fw_header w)\<lparr>hd_size := of_nat (length (fl_bytes (fw_file w)) + length (sec_bytes c m))\<rparr>\<rparr>)"
  using assms by (simp add: WriteSection_def fd_write_end sizeof_Section_def sec_bytes_def CurrentPosition_def Let_def add.assoc)

lemma WriteSection_appends:
  assumes "writer_at c w secs" and "section_type m \<noteq> SECTION_HEADER"
  obtains f z where "WriteSection c m w = (True, w\<lparr>fw_file := f, fw_header := (fw_header w)\<lparr>hd_size := z\<rparr>\<rparr>)"
    and "writer_at c (w\<lparr>fw_file := f, fw_header := (fw_header w)\<lparr>hd_size := z\<rparr>\<rparr>) (secs @ [m])"
    and "fl_bytes f = fl_bytes (fw_file w) @ sec_bytes c m"
proof -
  have w: "fl_limit (fw_file w) = None" "fl_pos (fw_file w) = length (fl_bytes (fw_file w))" using assms(1) by (simp_all add: writer_at_def)
  show ?thesis by (rule that [OF WriteSection_end [OF w assms(2)]]) (use assms(1) in \<open>auto simp: writer_at_def\<close>)
qed

lemma writer_at_fields [simp]:
  "writer_at c (w\<lparr>fw_header := h\<rparr>) secs = writer_at c w secs" "writer_at c (w\<lparr>fw_index := ids\<rparr>) secs = writer_at c w secs"
  "writer_at c (w\<lparr>fw_chunk_active := ch\<rparr>) secs = writer_at c w secs" "writer_at c (w\<lparr>fw_chunk_flush := ch\<rparr>) secs = writer_at c w secs"
  "writer_at c (w\<lparr>fw_numbers := ns\<rparr>) secs = writer_at c w secs" "writer_at c (w\<lparr>fw_is_writing := x\<rparr>) secs = writer_at c w secs"
  by (simp_all add: writer_at_def)

text \<open>The header is written over the old one.\<close>

lemma WriteHeader_eval:
  assumes "fl_limit (fw_file w) = None" and "codec_ok c"
  shows "WriteHeader c h w =
    (True, w\<lparr>fw_file := (fw_file w)\<lparr>fl_bytes := header_block c h @ drop 2064 (fl_bytes (fw_file w)), fl_pos := 2064\<rparr>,
             fw_header := h\<lparr>hd_size := 2064\<rparr>\<rparr>)"
proof -
  let ?data = "sc_ser c (Sec_Header h)" and ?bytes = "fl_bytes (fw_file w)"
  let ?a = "section_bytes \<lparr>se_type = type_code SECTION_HEADER, se_size = of_nat (length ?data)\<rparr>"
  let ?n = "HEADER_LENGTH - length ?data"
  let ?blank = "take ?n (48 # replicate (HEADER_LENGTH - 1) 0)"
  have n: "length ?data \<le> HEADER_LENGTH" "length ?blank = ?n" using assms(2) by (simp_all add: codec_ok_def HEADER_LENGTH_def)
  define f0 where "f0 = (fw_file w)\<lparr>fl_pos := 0\<rparr>"
  define f1 where "f1 = f0\<lparr>fl_bytes := ?a @ drop 16 ?bytes, fl_pos := 16\<rparr>"
  define f2 where "f2 = f1\<lparr>fl_bytes := (?a @ ?data) @ drop (16 + length ?data) ?bytes, fl_pos := 16 + length ?data\<rparr>"
  define f3 where "f3 = f2\<lparr>fl_bytes := (?a @ ?data) @ ?blank @ drop 2064 ?bytes, fl_pos := 2064\<rparr>"
  have w1: "fd_write ?a f0 = (16, f1)"
    using assms(1) fd_write_at [of f0 "[]" ?bytes ?a] by (simp add: f0_def f1_def)
  have w2: "fd_write ?data f1 = (int (length ?data), f2)"
    using assms(1) fd_write_at [of f1 ?a "drop 16 ?bytes" ?data] by (simp add: f0_def f1_def f2_def add.commute)
  have w3: "fd_write ?blank f2 = (int ?n, f3)"
    using assms(1) n fd_write_at [of f2 "?a @ ?data" "drop (16 + length ?data) ?bytes" ?blank]
    by (simp add: f0_def f1_def f2_def f3_def HEADER_LENGTH_def)
  have f3: "f3 = (fw_file w)\<lparr>fl_bytes := header_block c h @ drop 2064 ?bytes, fl_pos := 2064\<rparr>"
    by (simp add: f0_def f1_def f2_def f3_def header_block_def sec_bytes_def)
  have "WriteHeader c h w = (True, w\<lparr>fw_file := f3, fw_header := h\<lparr>hd_size := CurrentPosition f3\<rparr>\<rparr>)"
    using w1 w2 w3 by (simp add: WriteHeader_def WriteSection_def SetPosition_def sizeof_Section_def f0_def Let_def)
  then show ?thesis by (simp add: f3 CurrentPosition_def)
qed

lemma WriteHeader_overwrites:
  assumes "fl_limit (fw_file w) = None" and "codec_ok c"
  obtains w' where "WriteHeader c h w = (True, w')" and "fl_bytes (fw_file w') = header_block c h @ drop 2064 (fl_bytes (fw_file w))"
    and "fl_limit (fw_file w') = None" and "fl_pos (fw_file w') = 2064"
    and "\<exists>f z. w' = w\<lparr>fw_file := f, fw_header := h\<lparr>hd_size := z\<rparr>\<rparr>"
  by (rule that [OF WriteHeader_eval [OF assms]]) (use assms(1) in auto)

section \<open>Chunks\<close>

definition empty_chunk_header :: ChunkHeader where
  "empty_chunk_header = \<lparr>chh_begin_time = 0, chh_end_time = 0, chh_message_number = 0, chh_raw_size = 0\<rparr>"

text \<open>The times of messages a recorder writes: not zero, and in order.\<close>

definition in_order :: "SingleMessage list \<Rightarrow> bool" where
  "in_order ms \<longleftrightarrow> sorted (map rm_time ms) \<and> (\<forall>m \<in> set ms. 0 < rm_time m)"

definition chunk_ok :: "Chunk \<Rightarrow> bool" where
  "chunk_ok ch \<longleftrightarrow> chh_message_number (chk_header ch) = of_nat (length (chk_body ch)) \<and> length (chk_body ch) < 2 ^ 64 \<and>
     (if chk_body ch = [] then chh_begin_time (chk_header ch) = 0 \<and> chh_end_time (chk_header ch) = 0
      else chh_begin_time (chk_header ch) = rm_time (hd (chk_body ch)) \<and> chh_end_time (chk_header ch) = rm_time (last (chk_body ch)))"

lemma in_order_append: "in_order (xs @ ys) \<Longrightarrow> in_order xs \<and> in_order ys"
  by (auto simp: in_order_def sorted_append)

lemma of_nat_64_eq_0: "n < 2 ^ 64 \<Longrightarrow> (of_nat n :: 64 word) = 0 \<longleftrightarrow> n = 0"
proof -
  assume "n < 2 ^ 64"
  then have n: "unat (of_nat n :: 64 word) = n" by (simp add: unsigned_of_nat take_bit_nat_eq_self)
  show ?thesis
  proof
    assume "(of_nat n :: 64 word) = 0"
    then show "n = 0" using n by (simp only: unsigned_0)
  qed simp
qed

lemma Chunk_empty_iff: "chunk_ok ch \<Longrightarrow> Chunk_empty ch \<longleftrightarrow> chk_body ch = []"
  by (auto simp: chunk_ok_def Chunk_empty_def of_nat_64_eq_0)

lemma Chunk_clear_ok [simp]: "chunk_ok (Chunk_clear ch)" "chk_body (Chunk_clear ch) = []" "chunk_ok Chunk_ctor" "chk_body Chunk_ctor = []"
  by (simp_all add: chunk_ok_def Chunk_clear_def Chunk_ctor_def)

lemma Chunk_add_ok:
  assumes "chunk_ok ch" and "in_order (chk_body ch @ [m])" and "Suc (length (chk_body ch)) < 2 ^ 64"
  shows "chunk_ok (Chunk_add m ch)" and "chk_body (Chunk_add m ch) = chk_body ch @ [m]"
proof -
  show body: "chk_body (Chunk_add m ch) = chk_body ch @ [m]" by (simp add: Chunk_add_def Let_def)
  show "chunk_ok (Chunk_add m ch)"
  proof (cases "chk_body ch = []")
    case True
    then show ?thesis using assms by (simp add: chunk_ok_def Chunk_add_def Let_def in_order_def)
  next
    case False
    then have "rm_time (hd (chk_body ch)) \<le> rm_time m" "rm_time (last (chk_body ch)) \<le> rm_time m" "0 < rm_time (hd (chk_body ch))"
      using assms(2) by (auto simp: in_order_def sorted_append)
    then show ?thesis
      using assms(1,3) False by (auto simp: chunk_ok_def Chunk_add_def Let_def hd_append add.commute)
  qed
qed

lemma sorted_ends:
  assumes "sorted (map rm_time ms)" and "m \<in> set ms"
  shows "rm_time (hd ms) \<le> rm_time m" and "rm_time m \<le> rm_time (last ms)"
proof -
  obtain i where i: "i < length ms" "ms ! i = m" using assms(2) unfolding in_set_conv_nth by blast
  have "ms \<noteq> []" using assms(2) by auto
  then show "rm_time (hd ms) \<le> rm_time m" "rm_time m \<le> rm_time (last ms)"
    using sorted_nth_mono [OF assms(1), of 0 i] sorted_nth_mono [OF assms(1), of i "length ms - 1"] i
    by (simp_all add: hd_conv_nth last_conv_nth)
qed

lemma chunk_ok_covers:
  assumes "chunk_ok ch" and "in_order (chk_body ch)"
  shows "chunk_covers (chk_header ch) (chk_body ch)"
  using assms sorted_ends [of "chk_body ch"] unfolding chunk_covers_def chunk_ok_def in_order_def
  by (cases "chk_body ch = []") simp_all

section \<open>The sections a writer produces\<close>

text \<open>The sections before the index, and the times the header of the file keeps of them.\<close>

definition sections_ok :: "section_msg list \<Rightarrow> bool" where
  "sections_ok secs \<longleftrightarrow> good_sections (secs @ [Sec_Index []])"

definition times_ok :: "Header \<Rightarrow> SingleMessage list \<Rightarrow> bool" where
  "times_ok h ms \<longleftrightarrow> (if ms = [] then hd_begin_time h = 0 \<and> hd_end_time h = 0
     else hd_begin_time h = rm_time (hd ms) \<and> hd_end_time h = rm_time (last ms))"

lemma good_sections_append: "sections_ok secs \<Longrightarrow> good_sections (secs @ rest) = good_sections rest"
  by (induction secs rule: good_sections.induct) (simp_all add: sections_ok_def)

lemma body_messages_append [simp]: "body_messages (xs @ ys) = body_messages xs @ body_messages ys"
  by (induction xs rule: body_messages.induct) simp_all

lemma sections_ok_channel: "sections_ok secs \<Longrightarrow> sections_ok (secs @ [Sec_Channel ch])"
  using good_sections_append [of secs "[Sec_Channel ch, Sec_Index []]"] by (simp add: sections_ok_def)

lemma sections_ok_chunk:
  "sections_ok secs \<Longrightarrow> ms \<noteq> [] \<Longrightarrow> chunk_covers h ms \<Longrightarrow> sections_ok (secs @ [Sec_ChunkHeader h, Sec_ChunkBody ms])"
  using good_sections_append [of secs "[Sec_ChunkHeader h, Sec_ChunkBody ms, Sec_Index []]"] by (simp add: sections_ok_def)

lemma WriteChunk_appends:
  assumes "writer_at c w secs"
  obtains w' where "WriteChunk c ch ms w = (True, w')" and "writer_at c w' (secs @ [Sec_ChunkHeader ch, Sec_ChunkBody ms])"
    and "hd_begin_time (fw_header w') = (if hd_begin_time (fw_header w) = 0 then chh_begin_time ch else hd_begin_time (fw_header w))"
    and "hd_end_time (fw_header w') = chh_end_time ch"
    and "hd_message_number (fw_header w') = hd_message_number (fw_header w) + chh_message_number ch"
    and "fw_chunk_active w' = fw_chunk_active w" "fw_chunk_flush w' = fw_chunk_flush w" "fw_numbers w' = fw_numbers w"
      "fw_is_writing w' = fw_is_writing w"
    and "filter (\<lambda>i. si_type i = SECTION_CHANNEL) (fw_index w') = filter (\<lambda>i. si_type i = SECTION_CHANNEL) (fw_index w)"
proof -
  obtain f1 z1 where w1: "WriteSection c (Sec_ChunkHeader ch) w = (True, w\<lparr>fw_file := f1, fw_header := (fw_header w)\<lparr>hd_size := z1\<rparr>\<rparr>)"
      "writer_at c (w\<lparr>fw_file := f1, fw_header := (fw_header w)\<lparr>hd_size := z1\<rparr>\<rparr>) (secs @ [Sec_ChunkHeader ch])"
    using WriteSection_appends [OF assms, of "Sec_ChunkHeader ch", unfolded section_type.simps, OF SectionType.distinct(2)] by blast
  let ?w2 = "w\<lparr>fw_file := f1, fw_header := (fw_header w)\<lparr>hd_size := z1\<rparr>, fw_index := fw_index w @
      [\<lparr>si_type = SECTION_CHUNK_HEADER, si_position = CurrentPosition (fw_file w), si_cache = Chunk_header_cache ch\<rparr>]\<rparr>"
  have "writer_at c ?w2 (secs @ [Sec_ChunkHeader ch])" using w1(2) by (simp add: writer_at_def)
  then obtain f2 z2 where w2: "WriteSection c (Sec_ChunkBody ms) ?w2 = (True, ?w2\<lparr>fw_file := f2, fw_header := (fw_header ?w2)\<lparr>hd_size := z2\<rparr>\<rparr>)"
      "writer_at c (?w2\<lparr>fw_file := f2, fw_header := (fw_header ?w2)\<lparr>hd_size := z2\<rparr>\<rparr>) ((secs @ [Sec_ChunkHeader ch]) @ [Sec_ChunkBody ms])"
    using WriteSection_appends [of c ?w2 "secs @ [Sec_ChunkHeader ch]" "Sec_ChunkBody ms", unfolded section_type.simps, OF _ SectionType.distinct(4)] by blast
  show ?thesis
    by (rule that [of "snd (WriteChunk c ch ms w)"])
      (use w1(1) w2 in \<open>simp_all add: WriteChunk_def Let_def writer_at_def\<close>)
qed

section \<open>A flush thread that keeps up\<close>

text \<open>What the writer has been given, where it is, and what its header says.\<close>

definition writer_holds :: "section_codec \<Rightarrow> RecordFileWriter \<Rightarrow> SingleMessage list \<Rightarrow> bool" where
  "writer_holds c w ms \<longleftrightarrow> fw_is_writing w \<and> in_order ms \<and> length ms < 2 ^ 64 \<and> chunk_ok (fw_chunk_active w) \<and>
     chunk_ok (fw_chunk_flush w) \<and> chk_body (fw_chunk_flush w) = [] \<and>
     (\<exists>secs. writer_at c w secs \<and> sections_ok secs \<and> ms = body_messages secs @ chk_body (fw_chunk_active w) \<and>
        times_ok (fw_header w) (body_messages secs))"

lemma times_ok_extend:
  assumes "times_ok h ms" and "in_order (ms @ ms')" and "ms' \<noteq> []"
    and "hd_begin_time h' = (if hd_begin_time h = 0 then rm_time (hd ms') else hd_begin_time h)" and "hd_end_time h' = rm_time (last ms')"
  shows "times_ok h' (ms @ ms')"
proof (cases "ms = []")
  case False
  then have "0 < rm_time (hd ms)" using assms(2) by (simp add: in_order_def)
  then have "hd_begin_time h \<noteq> 0" using assms(1) False by (simp add: times_ok_def)
  then show ?thesis using assms False by (simp add: times_ok_def)
qed (use assms in \<open>simp add: times_ok_def\<close>)

text \<open>Flushing the waiting chunk.\<close>

lemma Flush_once_writes:
  assumes "writer_at c w secs" and "sections_ok secs" and "times_ok (fw_header w) (body_messages secs)" and "chunk_ok (fw_chunk_flush w)"
    and "in_order (body_messages secs @ chk_body (fw_chunk_flush w))" and "fw_is_writing w"
  obtains secs' where "writer_at c (Flush_once c w) secs'" and "sections_ok secs'"
    and "body_messages secs' = body_messages secs @ chk_body (fw_chunk_flush w)"
    and "times_ok (fw_header (Flush_once c w)) (body_messages secs')"
    and "chk_body (fw_chunk_flush (Flush_once c w)) = []" and "chunk_ok (fw_chunk_flush (Flush_once c w))"
    and "fw_chunk_active (Flush_once c w) = fw_chunk_active w" and "fw_is_writing (Flush_once c w)"
    and "fw_numbers (Flush_once c w) = fw_numbers w"
    and "filter (\<lambda>i. si_type i = SECTION_CHANNEL) (fw_index (Flush_once c w)) = filter (\<lambda>i. si_type i = SECTION_CHANNEL) (fw_index w)"
proof (cases "chk_body (fw_chunk_flush w) = []")
  case True
  then have "Flush_once c w = w" using Chunk_empty_iff [OF assms(4)] by (simp add: Flush_once_def)
  then show ?thesis by (intro that [of secs]) (use assms True in simp_all)
next
  case False
  let ?ch = "chk_header (fw_chunk_flush w)" and ?ms = "chk_body (fw_chunk_flush w)"
  obtain w' where w': "WriteChunk c ?ch ?ms w = (True, w')" "writer_at c w' (secs @ [Sec_ChunkHeader ?ch, Sec_ChunkBody ?ms])"
      "hd_begin_time (fw_header w') = (if hd_begin_time (fw_header w) = 0 then chh_begin_time ?ch else hd_begin_time (fw_header w))"
      "hd_end_time (fw_header w') = chh_end_time ?ch" "fw_chunk_active w' = fw_chunk_active w" "fw_numbers w' = fw_numbers w"
      "fw_is_writing w' = fw_is_writing w"
      "filter (\<lambda>i. si_type i = SECTION_CHANNEL) (fw_index w') = filter (\<lambda>i. si_type i = SECTION_CHANNEL) (fw_index w)"
    using WriteChunk_appends [OF assms(1), of ?ch ?ms] by metis
  have flush: "Flush_once c w = w'\<lparr>fw_chunk_flush := Chunk_clear (fw_chunk_flush w')\<rparr>"
    using w'(1) False Chunk_empty_iff [OF assms(4)] assms(6) by (simp add: Flush_once_def)
  have covers: "chunk_covers ?ch ?ms" using in_order_append [OF assms(5)] by (intro chunk_ok_covers [OF assms(4)]) blast
  have "times_ok (fw_header w') (body_messages secs @ ?ms)"
    using assms(4) False w'(3,4) by (intro times_ok_extend [OF assms(3,5)]) (simp_all add: chunk_ok_def)
  then show ?thesis
    by (intro that [of "secs @ [Sec_ChunkHeader ?ch, Sec_ChunkBody ?ms]"])
      (use w' flush assms(2,6) False covers in \<open>simp_all add: sections_ok_chunk\<close>)
qed

datatype record_op = Op_channel Channel | Op_message SingleMessage

fun op_messages :: "record_op list \<Rightarrow> SingleMessage list" where
  "op_messages [] = []"
| "op_messages (Op_channel ch # ops) = op_messages ops"
| "op_messages (Op_message m # ops) = m # op_messages ops"

fun op_channels :: "record_op list \<Rightarrow> Channel list" where
  "op_channels [] = []"
| "op_channels (Op_channel ch # ops) = ch # op_channels ops"
| "op_channels (Op_message m # ops) = op_channels ops"

text \<open>An operation of the recorder; the flush thread has its turn before the next one.\<close>

fun record_step :: "section_codec \<Rightarrow> record_op \<Rightarrow> RecordFileWriter \<Rightarrow> RecordFileWriter" where
  "record_step c (Op_channel ch) w = Flush_once c (snd (FileWriter_WriteChannel c ch w))"
| "record_step c (Op_message m) w = Flush_once c (snd (FileWriter_WriteMessage m w))"

lemma WriteMessage_holds:
  assumes "writer_holds c w ms" and "in_order (ms @ [m])" and "Suc (length ms) < 2 ^ 64"
  shows "writer_holds c (Flush_once c (snd (FileWriter_WriteMessage m w))) (ms @ [m])"
proof -
  obtain secs where w: "fw_is_writing w" "chunk_ok (fw_chunk_active w)" "chunk_ok (fw_chunk_flush w)" "chk_body (fw_chunk_flush w) = []"
      "writer_at c w secs" "sections_ok secs" "ms = body_messages secs @ chk_body (fw_chunk_active w)" "times_ok (fw_header w) (body_messages secs)"
    using assms(1) unfolding writer_holds_def by blast
  let ?ch = "Chunk_add m (fw_chunk_active w)" and ?w = "snd (FileWriter_WriteMessage m w)"
  have ch: "chunk_ok ?ch" "chk_body ?ch = chk_body (fw_chunk_active w) @ [m]"
    using Chunk_add_ok [OF w(2), of m] assms(2,3) w(7) in_order_append [of "body_messages secs" "chk_body (fw_chunk_active w) @ [m]"] by auto
  have chunks: "chunk_ok (fw_chunk_active ?w)" "chunk_ok (fw_chunk_flush ?w)"
      "chk_body (fw_chunk_flush ?w) @ chk_body (fw_chunk_active ?w) = chk_body ?ch"
    using ch(1) w(3,4) by (auto simp: FileWriter_WriteMessage_def swap_chunks_def Let_def)
  have rest: "writer_at c ?w secs" "fw_header ?w = fw_header w" "fw_is_writing ?w"
    using w(1,5) by (auto simp: FileWriter_WriteMessage_def swap_chunks_def Let_def writer_at_def)
  have all: "body_messages secs @ chk_body (fw_chunk_flush ?w) @ chk_body (fw_chunk_active ?w) = ms @ [m]"
    using chunks(3) ch(2) w(7) by simp
  then have ord: "in_order (body_messages secs @ chk_body (fw_chunk_flush ?w))"
    using assms(2) in_order_append by (metis append.assoc)
  obtain secs' where f: "writer_at c (Flush_once c ?w) secs'" "sections_ok secs'"
      "body_messages secs' = body_messages secs @ chk_body (fw_chunk_flush ?w)" "times_ok (fw_header (Flush_once c ?w)) (body_messages secs')"
      "chk_body (fw_chunk_flush (Flush_once c ?w)) = []" "chunk_ok (fw_chunk_flush (Flush_once c ?w))"
      "fw_chunk_active (Flush_once c ?w) = fw_chunk_active ?w" "fw_is_writing (Flush_once c ?w)"
    using Flush_once_writes [OF rest(1) w(6) _ chunks(2) ord rest(3)] w(8) rest(2) by metis
  have "ms @ [m] = body_messages secs' @ chk_body (fw_chunk_active (Flush_once c ?w))" using all f(3,7) by simp
  moreover have "length (ms @ [m]) < 2 ^ 64" "chunk_ok (fw_chunk_active (Flush_once c ?w))" using assms(3) chunks(1) f(7) by simp_all
  ultimately show ?thesis using f(1,2,4-6,8) assms(2) unfolding writer_holds_def by blast
qed

lemma WriteChannel_holds:
  assumes "writer_holds c w ms"
  shows "writer_holds c (Flush_once c (snd (FileWriter_WriteChannel c ch w))) ms"
proof -
  obtain secs where w: "fw_is_writing w" "chunk_ok (fw_chunk_active w)" "chunk_ok (fw_chunk_flush w)" "chk_body (fw_chunk_flush w) = []"
      "writer_at c w secs" "sections_ok secs" "ms = body_messages secs @ chk_body (fw_chunk_active w)" "times_ok (fw_header w) (body_messages secs)"
    using assms unfolding writer_holds_def by blast
  obtain f z where s: "WriteSection c (Sec_Channel ch) w = (True, w\<lparr>fw_file := f, fw_header := (fw_header w)\<lparr>hd_size := z\<rparr>\<rparr>)"
      "writer_at c (w\<lparr>fw_file := f, fw_header := (fw_header w)\<lparr>hd_size := z\<rparr>\<rparr>) (secs @ [Sec_Channel ch])"
    using WriteSection_appends [OF w(5), of "Sec_Channel ch", unfolded section_type.simps, OF SectionType.distinct(8)] by blast
  let ?w = "snd (FileWriter_WriteChannel c ch w)"
  have "chk_body (fw_chunk_flush ?w) = []" "chunk_ok (fw_chunk_flush ?w)" using w(3,4) s(1) by (simp_all add: FileWriter_WriteChannel_def Let_def)
  then have "Flush_once c ?w = ?w" using Chunk_empty_iff by (simp add: Flush_once_def)
  moreover have "writer_at c ?w (secs @ [Sec_Channel ch])" "times_ok (fw_header ?w) (body_messages (secs @ [Sec_Channel ch]))"
    using s w(8) by (simp_all add: FileWriter_WriteChannel_def Let_def writer_at_def times_ok_def)
  moreover have "fw_chunk_active ?w = fw_chunk_active w" "fw_chunk_flush ?w = fw_chunk_flush w" "fw_is_writing ?w"
    using s(1) w(1) by (simp_all add: FileWriter_WriteChannel_def Let_def)
  ultimately show ?thesis
    using assms w sections_ok_channel [OF w(6), of ch] unfolding writer_holds_def
    by (intro conjI exI [of _ "secs @ [Sec_Channel ch]"]) simp_all
qed

lemma record_run_holds:
  assumes "writer_holds c w ms" and "in_order (ms @ op_messages ops)" and "length ms + length (op_messages ops) < 2 ^ 64"
  shows "writer_holds c (fold (record_step c) ops w) (ms @ op_messages ops)"
  using assms
proof (induction ops arbitrary: w ms rule: op_messages.induct)
  case (2 ch ops)
  then show ?case using WriteChannel_holds by simp
next
  case (3 m ops)
  have "in_order ((ms @ [m]) @ op_messages ops)" using 3(3) by simp
  then have "writer_holds c (record_step c (Op_message m) w) (ms @ [m])"
    using WriteMessage_holds [OF 3(2), of m] 3(4) in_order_append [of "ms @ [m]"] by simp
  then show ?case using 3(1) [of "record_step c (Op_message m) w" "ms @ [m]"] 3(3,4) by simp
qed simp

section \<open>Closing the file\<close>

text \<open>A closed file: what it consists of.\<close>

definition file_holds :: "section_codec \<Rightarrow> rfile \<Rightarrow> Header \<Rightarrow> section_msg list \<Rightarrow> SingleIndex list \<Rightarrow> bool" where
  "file_holds c f h secs ids \<longleftrightarrow> fl_bytes f = header_block c h @ secs_bytes c (secs @ [Sec_Index ids]) \<and> hd_is_complete h \<and>
     hd_index_position h = of_nat (2064 + length (secs_bytes c secs)) \<and> sections_ok secs"

lemma swap_holds:
  assumes "writer_holds c w ms"
  obtains secs where "writer_at c (Flush_once c (swap_chunks (Flush_once c w))) secs" and "sections_ok secs" and "body_messages secs = ms"
    and "times_ok (fw_header (Flush_once c (swap_chunks (Flush_once c w)))) ms"
    and "fw_numbers (Flush_once c (swap_chunks (Flush_once c w))) = fw_numbers w"
    and "filter (\<lambda>i. si_type i = SECTION_CHANNEL) (fw_index (Flush_once c (swap_chunks (Flush_once c w)))) =
      filter (\<lambda>i. si_type i = SECTION_CHANNEL) (fw_index w)"
proof -
  obtain secs where w: "fw_is_writing w" "chunk_ok (fw_chunk_active w)" "chunk_ok (fw_chunk_flush w)" "chk_body (fw_chunk_flush w) = []"
      "writer_at c w secs" "sections_ok secs" "ms = body_messages secs @ chk_body (fw_chunk_active w)" "times_ok (fw_header w) (body_messages secs)"
      "in_order ms"
    using assms unfolding writer_holds_def by blast
  have first: "Flush_once c w = w" using w(3,4) Chunk_empty_iff by (simp add: Flush_once_def)
  let ?w = "swap_chunks w"
  have sw: "writer_at c ?w secs" "times_ok (fw_header ?w) (body_messages secs)" "chunk_ok (fw_chunk_flush ?w)" "fw_is_writing ?w"
      "in_order (body_messages secs @ chk_body (fw_chunk_flush ?w))" "body_messages secs @ chk_body (fw_chunk_flush ?w) = ms"
      "fw_numbers ?w = fw_numbers w" "fw_index ?w = fw_index w"
    using w by (simp_all add: swap_chunks_def writer_at_def)
  show ?thesis
    by (rule Flush_once_writes [OF sw(1) w(6) sw(2,3,5,4)]) (rule that, use first sw(6-8) in simp_all)
qed

lemma Close_layout:
  assumes "fw_is_writing w" and "writer_at c (Flush_once c (swap_chunks (Flush_once c w))) secs" and "codec_ok c"
  defines "w1 \<equiv> Flush_once c (swap_chunks (Flush_once c w))"
  obtains z where
    "fl_bytes (fw_file (RecordFileWriter_Close c w)) =
       header_block c ((fw_header w1)\<lparr>hd_index_position := of_nat (2064 + length (secs_bytes c secs)), hd_size := z, hd_is_complete := True\<rparr>) @
       secs_bytes c (secs @ [Sec_Index (fw_index (RecordFileWriter_Close c w))])"
    and "fw_index (RecordFileWriter_Close c w) = map (index_numbers (fw_numbers w1)) (fw_index w1)"
    and "hd_begin_time (fw_header (RecordFileWriter_Close c w)) = hd_begin_time (fw_header w1)"
    and "hd_end_time (fw_header (RecordFileWriter_Close c w)) = hd_end_time (fw_header w1)"
proof -
  let ?ids = "map (index_numbers (fw_numbers w1)) (fw_index w1)"
  let ?w2 = "w1\<lparr>fw_is_writing := False, fw_index := ?ids, fw_header := (fw_header w1)\<lparr>hd_index_position := CurrentPosition (fw_file w1)\<rparr>\<rparr>"
  have at: "writer_at c w1 secs" using assms(2) by (simp add: w1_def)
  then have "writer_at c ?w2 secs" by (simp add: writer_at_def)
  then obtain f z where i: "WriteSection c (Sec_Index ?ids) ?w2 = (True, ?w2\<lparr>fw_file := f, fw_header := (fw_header ?w2)\<lparr>hd_size := z\<rparr>\<rparr>)"
      "writer_at c (?w2\<lparr>fw_file := f, fw_header := (fw_header ?w2)\<lparr>hd_size := z\<rparr>\<rparr>) (secs @ [Sec_Index ?ids])"
    using WriteSection_appends [of c ?w2 secs "Sec_Index ?ids", unfolded section_type.simps, OF _ SectionType.distinct(6)] by blast
  let ?h = "(fw_header ?w2)\<lparr>hd_size := z, hd_is_complete := True\<rparr>"
  let ?w3 = "?w2\<lparr>fw_file := f, fw_header := ?h\<rparr>"
  obtain h' where bytes: "fl_limit f = None" "fl_bytes f = header_block c h' @ secs_bytes c (secs @ [Sec_Index ?ids])"
    using i(2) by (auto simp: writer_at_def)
  have "fl_limit (fw_file ?w3) = None" using bytes(1) by simp
  from WriteHeader_eval [OF this assms(3), of ?h]
  have close: "RecordFileWriter_Close c w = ?w3\<lparr>fw_file := f\<lparr>fl_bytes := header_block c ?h @ drop 2064 (fl_bytes f), fl_pos := 2064\<rparr>,
      fw_header := ?h\<lparr>hd_size := 2064\<rparr>\<rparr>"
    using i(1) assms(1) unfolding w1_def by (simp add: RecordFileWriter_Close_def WriteIndex_def Let_def)
  have pos: "CurrentPosition (fw_file w1) = of_nat (2064 + length (secs_bytes c secs))"
    using at length_header_block [OF assms(3)] by (auto simp: writer_at_def CurrentPosition_def)
  show ?thesis
    by (rule that [of z]) (use close bytes(2) length_header_block [OF assms(3), of h'] pos in simp_all)
qed

lemma Close_file_holds:
  assumes "writer_holds c w ms" and "codec_ok c"
  obtains h secs where "file_holds c (fw_file (RecordFileWriter_Close c w)) h secs (fw_index (RecordFileWriter_Close c w))"
    and "body_messages secs = ms" and "times_ok h ms"
    and "filter (\<lambda>i. si_type i = SECTION_CHANNEL) (fw_index (RecordFileWriter_Close c w)) =
      map (index_numbers (fw_numbers w)) (filter (\<lambda>i. si_type i = SECTION_CHANNEL) (fw_index w))"
proof -
  let ?w1 = "Flush_once c (swap_chunks (Flush_once c w))"
  obtain secs where s: "writer_at c ?w1 secs" "sections_ok secs" "body_messages secs = ms" "times_ok (fw_header ?w1) ms"
      "fw_numbers ?w1 = fw_numbers w"
      "filter (\<lambda>i. si_type i = SECTION_CHANNEL) (fw_index ?w1) = filter (\<lambda>i. si_type i = SECTION_CHANNEL) (fw_index w)"
    using swap_holds [OF assms(1)] by blast
  have "fw_is_writing w" using assms(1) by (simp add: writer_holds_def)
  from Close_layout [OF this s(1) assms(2)] obtain z where l: "fl_bytes (fw_file (RecordFileWriter_Close c w)) =
       header_block c ((fw_header ?w1)\<lparr>hd_index_position := of_nat (2064 + length (secs_bytes c secs)), hd_size := z, hd_is_complete := True\<rparr>) @
       secs_bytes c (secs @ [Sec_Index (fw_index (RecordFileWriter_Close c w))])"
      "fw_index (RecordFileWriter_Close c w) = map (index_numbers (fw_numbers ?w1)) (fw_index ?w1)" by metis
  let ?h = "(fw_header ?w1)\<lparr>hd_index_position := of_nat (2064 + length (secs_bytes c secs)), hd_size := z, hd_is_complete := True\<rparr>"
  show ?thesis
  proof (rule that [of ?h secs])
    show "file_holds c (fw_file (RecordFileWriter_Close c w)) ?h secs (fw_index (RecordFileWriter_Close c w))"
      unfolding file_holds_def using l(1) s(2) by simp
    show "times_ok ?h ms" using s(4) by (simp add: times_ok_def)
    have "si_type (index_numbers ns i) = si_type i" for ns i
      by (simp add: index_numbers_def split: IndexCache.splits option.splits)
    then show "filter (\<lambda>i. si_type i = SECTION_CHANNEL) (fw_index (RecordFileWriter_Close c w)) =
        map (index_numbers (fw_numbers w)) (filter (\<lambda>i. si_type i = SECTION_CHANNEL) (fw_index w))"
      unfolding l(2) s(5) by (simp add: filter_map o_def flip: s(6))
  qed (rule s(3))
qed

section \<open>Opening a new file\<close>

definition new_file :: rfile where
  "new_file = \<lparr>fl_bytes = [], fl_pos = 0, fl_limit = None\<rparr>"

definition start_recording :: "section_codec \<Rightarrow> rfile \<Rightarrow> Header \<Rightarrow> RecordFileWriter" where
  "start_recording c f h = snd (WriteHeader c h (snd (RecordFileWriter_Open (Some f) (RecordFileWriter_ctor base_header))))"

lemma start_recording_holds:
  assumes "codec_ok c" and "hd_begin_time h = 0" and "hd_end_time h = 0"
  shows "writer_holds c (start_recording c new_file h) []" and "fw_index (start_recording c new_file h) = []"
    and "fw_numbers (start_recording c new_file h) = (\<lambda>_. None)"
proof -
  let ?w = "snd (RecordFileWriter_Open (Some new_file) (RecordFileWriter_ctor base_header))"
  have "fl_limit (fw_file ?w) = None" by (simp add: RecordFileWriter_Open_def new_file_def)
  then obtain w' where w': "WriteHeader c h ?w = (True, w')" "fl_bytes (fw_file w') = header_block c h @ drop 2064 (fl_bytes (fw_file ?w))"
      "fl_limit (fw_file w') = None" "fl_pos (fw_file w') = 2064" "\<exists>f z. w' = ?w\<lparr>fw_file := f, fw_header := h\<lparr>hd_size := z\<rparr>\<rparr>"
    using WriteHeader_overwrites [OF _ assms(1), of ?w h] by metis
  have at: "writer_at c w' []"
    using w'(2-4) length_header_block [OF assms(1)] by (auto simp: writer_at_def RecordFileWriter_Open_def new_file_def)
  have "times_ok (fw_header w') []" using w'(5) assms(2,3) by (auto simp: times_ok_def)
  then show "writer_holds c (start_recording c new_file h) []" "fw_index (start_recording c new_file h) = []"
    "fw_numbers (start_recording c new_file h) = (\<lambda>_. None)"
    using at w'(1,5) unfolding writer_holds_def start_recording_def
    by (auto simp: RecordFileWriter_Open_def RecordFileWriter_ctor_def sections_ok_def in_order_def intro!: exI [of _ "[]"])
qed

section \<open>Reading a closed file\<close>

lemma Reset_at:
  assumes "fl_bytes (fr_file r) = header_block c h @ bs" and "codec_ok c" and "length (fl_bytes (fr_file r)) < 2 ^ 31"
  shows "reads_on (snd (FileReader_Reset r)) bs" and "same_file r (snd (FileReader_Reset r))"
proof -
  have "FileReader_Reset r = (True, r\<lparr>fr_file := (fr_file r)\<lparr>fl_pos := 2064\<rparr>, fr_end_of_file := False\<rparr>)"
    by (simp add: FileReader_Reset_def Reader_SetPosition_def SetPosition_def sizeof_Section_def HEADER_LENGTH_def)
  then show "reads_on (snd (FileReader_Reset r)) bs" "same_file r (snd (FileReader_Reset r))"
    using assms length_header_block [OF assms(2), of h] by (simp_all add: reads_on_def same_file_def)
qed

lemma Open_reads_header:
  assumes "fl_bytes f = header_block c h @ bs" and "codec_ok c" and "length (fl_bytes f) < 2 ^ 31"
  obtains r where "RecordFileReader_Open c (Some f) r0 = (True, r)" and "fr_header r = h" and "fl_bytes (fr_file r) = fl_bytes f"
proof -
  let ?r = "r0\<lparr>fr_file := f\<lparr>fl_pos := 0\<rparr>, fr_end_of_file := False\<rparr>"
  let ?blank = "take (HEADER_LENGTH - length (sc_ser c (Sec_Header h))) (48 # replicate (HEADER_LENGTH - 1) 0)"
  have on: "reads_on ?r (sec_bytes c (Sec_Header h) @ ?blank @ bs)" using assms by (simp add: reads_on_def header_block_def)
  obtain r1 where r1: "ReadSection ?r = (Some \<lparr>se_type = type_code SECTION_HEADER, se_size = of_nat (length (sc_ser c (Sec_Header h)))\<rparr>, r1)"
      "reads_on r1 (sc_ser c (Sec_Header h) @ ?blank @ bs)" "same_file ?r r1"
    using ReadSection_at [OF on] by (metis section_type.simps(1))
  obtain r2 where r2: "ReadSection_msg c SECTION_HEADER (of_nat (length (sc_ser c (Sec_Header h)))) r1 = (Some (Sec_Header h), r2)"
      "same_file r1 r2"
    using ReadSection_msg_at [OF r1(2) assms(2)] by (metis section_type.simps(1))
  let ?r3 = "r2\<lparr>fr_header := h, fr_file := (fr_file r2)\<lparr>fl_pos := 2064\<rparr>\<rparr>"
  have "RecordFileReader_Open c (Some f) r0 = (True, ?r3)"
    using r1(1) r2(1)
    by (simp add: RecordFileReader_Open_def ReadHeader_def Reader_SetPosition_def SetPosition_def sizeof_Section_def HEADER_LENGTH_def)
  moreover have "fl_bytes (fr_file ?r3) = fl_bytes f" using r1(3) r2(2) by (simp add: same_file_def)
  ultimately show ?thesis using that by simp
qed

lemma ReadIndex_at:
  assumes "fl_bytes (fr_file r) = header_block c h @ secs_bytes c secs @ sec_bytes c (Sec_Index ids)" and "codec_ok c"
    and "length (fl_bytes (fr_file r)) < 2 ^ 31" and "fr_header r = h" and "hd_is_complete h"
    and "hd_index_position h = of_nat (2064 + length (secs_bytes c secs))"
  obtains r' where "ReadIndex c r = (True, r')" and "fl_bytes (fr_file r') = fl_bytes (fr_file r)" and "fr_index r' = ids" and "fr_header r' = h"
proof -
  let ?n = "2064 + length (secs_bytes c secs)"
  have n: "?n < 2 ^ 31" using assms(3) length_header_block [OF assms(2), of h] by (simp add: assms(1))
  let ?r = "r\<lparr>fr_file := (fr_file r)\<lparr>fl_pos := ?n\<rparr>\<rparr>"
  have set: "Reader_SetPosition (hd_index_position h) r = (True, ?r)"
    using sint_small [OF n] n
    by (simp only: assms(6) Reader_SetPosition_def SetPosition_def) (simp add: unsigned_of_nat take_bit_nat_eq_self del: of_nat_add)
  have on: "reads_on ?r (sec_bytes c (Sec_Index ids) @ [])"
    using assms(1,3) length_header_block [OF assms(2), of h] by (simp add: reads_on_def)
  obtain r1 where r1: "ReadSection ?r = (Some \<lparr>se_type = type_code SECTION_INDEX, se_size = of_nat (length (sc_ser c (Sec_Index ids)))\<rparr>, r1)"
      "reads_on r1 (sc_ser c (Sec_Index ids) @ [])" "same_file ?r r1"
    using ReadSection_at [OF on] by (metis section_type.simps(4))
  obtain r2 where r2: "ReadSection_msg c SECTION_INDEX (of_nat (length (sc_ser c (Sec_Index ids)))) r1 = (Some (Sec_Index ids), r2)"
      "same_file r1 r2"
    using ReadSection_msg_at [OF r1(2) assms(2)] by (metis section_type.simps(4))
  let ?r3 = "snd (FileReader_Reset (r2\<lparr>fr_index := ids\<rparr>))"
  have "fl_bytes (fr_file (r2\<lparr>fr_index := ids\<rparr>)) = fl_bytes (fr_file r)" using r1(3) r2(2) by (simp add: same_file_def)
  then have "same_file (r2\<lparr>fr_index := ids\<rparr>) ?r3" using assms(1-3) by (intro Reset_at(2) [where h = h and c = c]) auto
  moreover have "ReadIndex c r = (True, ?r3)"
    using set r1(1) r2(1) assms(4,5) by (simp add: ReadIndex_def)
  ultimately show ?thesis using that r1(3) r2(2) assms(4) by (simp add: same_file_def)
qed

lemma RecordReader_ctor_holds:
  assumes "file_holds c f h secs ids" and "codec_ok c" and "length (fl_bytes f) < 2 ^ 31" and "in_order (body_messages secs)"
    and "times_ok h (body_messages secs)"
  shows "reader_holds c (RecordReader_ctor c (Some f) r0) (body_messages secs)"
    and "rr_channel_info (RecordReader_ctor c (Some f) r0) = channel_entries ids"
    and "rr_header (RecordReader_ctor c (Some f) r0) = h"
proof -
  let ?bs = "secs_bytes c secs @ sec_bytes c (Sec_Index ids)"
  have f: "fl_bytes f = header_block c h @ ?bs" "hd_is_complete h" "hd_index_position h = of_nat (2064 + length (secs_bytes c secs))"
      "sections_ok secs"
    using assms(1) by (simp_all add: file_holds_def)
  obtain r1 where r1: "RecordFileReader_Open c (Some f) r0 = (True, r1)" "fr_header r1 = h" "fl_bytes (fr_file r1) = fl_bytes f"
    using Open_reads_header [OF f(1) assms(2,3)] by blast
  have "fl_bytes (fr_file r1) = header_block c h @ ?bs" "length (fl_bytes (fr_file r1)) < 2 ^ 31" using f(1) r1(3) assms(3) by simp_all
  from ReadIndex_at [OF this(1) assms(2) this(2) r1(2) f(2,3)] obtain r2 where
    r2: "ReadIndex c r1 = (True, r2)" "fl_bytes (fr_file r2) = fl_bytes (fr_file r1)" "fr_index r2 = ids" by blast
  let ?r3 = "snd (FileReader_Reset r2)"
  have "reads_on ?r3 ?bs" using f(1) r1(3) r2(2) assms(2,3) by (intro Reset_at(1) [where h = h]) auto
  then have on: "reads_on ?r3 (secs_bytes c (secs @ [Sec_Index ids]) @ [])" by simp
  let ?rr = "RecordReader_ctor c (Some f) r0"
  have ctor: "?rr = \<lparr>rr_is_valid = True, rr_reach_end = False, rr_chunk = [], rr_header = h, rr_index = ids, rr_message_index = 0,
      rr_channel_info = channel_entries ids, rr_file_reader = ?r3\<rparr>"
    using r1(1,2) r2(1,3) by (simp add: RecordReader_ctor_def)
  have "good_sections (secs @ [Sec_Index ids])" using good_sections_append [OF f(4)] by simp
  then have at: "reader_at c ?rr (secs @ [Sec_Index ids])" using on by (intro reader_atI [where rest = "[]"]) (simp_all add: ctor body_next_def)
  have "hd_begin_time h \<le> rm_time m \<and> rm_time m \<le> hd_end_time h" if "m \<in> set (body_messages secs)" for m
    using that assms(4,5) sorted_ends [of "body_messages secs" m] unfolding times_ok_def in_order_def
    by (cases "body_messages secs = []") simp_all
  then show "reader_holds c ?rr (body_messages secs)"
    using at assms(4) unfolding reader_holds_def in_order_def ctor by (auto intro!: exI [of _ "secs @ [Sec_Index ids]"])
  show "rr_channel_info ?rr = channel_entries ids" "rr_header ?rr = h" by (simp_all add: ctor)
qed

text \<open>Reading a window to its end: the results of \<open>n\<close> calls.\<close>

fun read_window :: "section_codec \<Rightarrow> 64 word \<Rightarrow> 64 word \<Rightarrow> nat \<Rightarrow> RecordReader \<Rightarrow> SingleMessage option list" where
  "read_window c b e 0 rr = []"
| "read_window c b e (Suc n) rr =
     (case ReadMessage c b e rr of None \<Rightarrow> [] | Some (res, rr') \<Rightarrow> res # read_window c b e n rr')"

definition in_window :: "64 word \<Rightarrow> 64 word \<Rightarrow> SingleMessage \<Rightarrow> bool" where
  "in_window b e m \<longleftrightarrow> b \<le> rm_time m \<and> rm_time m \<le> e"

lemma stale_filter: "stale b ms \<Longrightarrow> filter (in_window b e) ms = []"
  by (auto simp: stale_def in_window_def filter_empty_conv)

lemma read_window_all:
  assumes "codec_ok c" and "reader_holds c rr L"
  shows "read_window c b e (Suc (length (filter (in_window b e) L))) rr = map Some (filter (in_window b e) L) @ [None]"
  using assms(2)
proof (induction "length (filter (in_window b e) L)" arbitrary: rr L)
  case 0
  obtain res rr' L' where r: "ReadMessage c b e rr = Some (res, rr')" "window_step b e L res L'"
    using ReadMessage_window [OF assms(1) 0(2), of b e] unfolding read_ok_def by blast
  have "res = None" using r(2) 0(1) by (cases res) (auto simp: window_step_def in_window_def)
  then show ?case using r(1) 0(1) by simp
next
  case (Suc n)
  obtain res rr' L' where r: "ReadMessage c b e rr = Some (res, rr')" "window_step b e L res L'" "reader_holds c rr' L'"
    using ReadMessage_window [OF assms(1) Suc(3), of b e] unfolding read_ok_def by blast
  have "filter (in_window b e) L \<noteq> []" using Suc(2) by auto
  then obtain m where m: "res = Some m"
    using r(2) by (cases res) (auto simp: window_step_def in_window_def filter_empty_conv)
  then obtain pre where "L = pre @ m # L'" "stale b pre" "in_window b e m" using r(2) by (auto simp: window_step_def in_window_def)
  then have L: "filter (in_window b e) L = m # filter (in_window b e) L'" by (simp add: stale_filter)
  then have "n = length (filter (in_window b e) L')" using Suc(2) by simp
  from Suc(1) [OF this r(3)] show ?case using r(1) m L by simp
qed

section \<open>The numbers of messages\<close>

definition number_of :: "string \<Rightarrow> SingleMessage list \<Rightarrow> nat" where
  "number_of x ms = length (filter (\<lambda>m. rm_channel_name m = x) ms)"

definition channel_caches :: "SingleIndex list \<Rightarrow> IndexCache list" where
  "channel_caches ids = map si_cache (filter (\<lambda>i. si_type i = SECTION_CHANNEL) ids)"

definition fresh_cache :: "Channel \<Rightarrow> IndexCache" where
  "fresh_cache ch = Channel_cache \<lparr>chc_message_number = 0, chc_name = chn_name ch, chc_message_type = chn_message_type ch,
     chc_proto_desc = chn_proto_desc ch\<rparr>"

lemma WriteSection_keeps [simp]:
  "fw_numbers (snd (WriteSection c m w)) = fw_numbers w" "fw_index (snd (WriteSection c m w)) = fw_index w"
  by (simp_all add: WriteSection_def Let_def case_prod_beta)

lemma WriteChunk_keeps [simp]:
  "fw_numbers (snd (WriteChunk c h ms w)) = fw_numbers w" "channel_caches (fw_index (snd (WriteChunk c h ms w))) = channel_caches (fw_index w)"
  using WriteSection_keeps [of c "Sec_ChunkHeader h" w]
  by (simp_all add: WriteChunk_def Let_def case_prod_beta channel_caches_def)

lemma Flush_once_keeps [simp]:
  "fw_numbers (Flush_once c w) = fw_numbers w" "channel_caches (fw_index (Flush_once c w)) = channel_caches (fw_index w)"
  by (simp_all add: Flush_once_def Let_def)

definition counts_ok :: "RecordFileWriter \<Rightarrow> SingleMessage list \<Rightarrow> Channel list \<Rightarrow> bool" where
  "counts_ok w ms chs \<longleftrightarrow> channel_caches (fw_index w) = map fresh_cache chs \<and>
     fw_numbers w = (\<lambda>x. if number_of x ms = 0 then None else Some (of_nat (number_of x ms)))"

lemma counts_message: "counts_ok w ms chs \<Longrightarrow> counts_ok (record_step c (Op_message m) w) (ms @ [m]) chs"
  by (auto simp: counts_ok_def FileWriter_WriteMessage_def swap_chunks_def Let_def number_of_def fun_eq_iff add.commute)

lemma counts_channel:
  assumes "counts_ok w ms chs" and "writer_holds c w ms"
  shows "counts_ok (record_step c (Op_channel ch) w) ms (chs @ [ch])"
proof -
  obtain secs where "writer_at c w secs" using assms(2) by (auto simp: writer_holds_def)
  then obtain f z where "WriteSection c (Sec_Channel ch) w = (True, w\<lparr>fw_file := f, fw_header := (fw_header w)\<lparr>hd_size := z\<rparr>\<rparr>)"
    using WriteSection_appends [of c w secs "Sec_Channel ch", unfolded section_type.simps, OF _ SectionType.distinct(8)] by blast
  then show ?thesis
    using assms(1) by (simp add: counts_ok_def FileWriter_WriteChannel_def Let_def) (simp add: channel_caches_def fresh_cache_def)
qed

lemma record_run_counts:
  assumes "writer_holds c w ms" and "in_order (ms @ op_messages ops)" and "length ms + length (op_messages ops) < 2 ^ 64" and "counts_ok w ms chs"
  shows "counts_ok (fold (record_step c) ops w) (ms @ op_messages ops) (chs @ op_channels ops)"
  using assms
proof (induction ops arbitrary: w ms chs rule: op_messages.induct)
  case (2 ch ops)
  have "writer_holds c (record_step c (Op_channel ch) w) ms" using WriteChannel_holds [OF 2(2)] by simp
  from 2(1) [OF this _ _ counts_channel [OF 2(5,2)]] show ?case using 2(3,4) by simp
next
  case (3 m ops)
  have "in_order ((ms @ [m]) @ op_messages ops)" using 3(3) by simp
  then have "writer_holds c (record_step c (Op_message m) w) (ms @ [m])"
    using WriteMessage_holds [OF 3(2), of m] 3(4) in_order_append [of "ms @ [m]"] by simp
  from 3(1) [OF this _ _ counts_message [OF 3(5)]] show ?case using 3(3,4) by simp
qed simp

text \<open>The map of channels that the reader makes of the index.\<close>

lemma channel_entries_lookup:
  assumes "\<forall>i \<in> set ids. si_type i = SECTION_CHANNEL \<longrightarrow> (\<forall>cc. si_cache i = Channel_cache cc \<longrightarrow> chc_name cc = x \<longrightarrow> chc_message_number cc = n)"
    and "\<exists>i \<in> set ids. \<exists>cc. si_type i = SECTION_CHANNEL \<and> si_cache i = Channel_cache cc \<and> chc_name cc = x"
  shows "\<exists>cc. map_of (channel_entries ids) x = Some cc \<and> chc_message_number cc = n"
proof -
  define step where "step = (\<lambda>(i :: SingleIndex) info. if si_type i \<noteq> SECTION_CHANNEL then info
      else case si_cache i of Channel_cache cc \<Rightarrow> if map_of info (chc_name cc) = None then info @ [(chc_name cc, cc)] else info | _ \<Rightarrow> info)"
  have keep: "map_of (fold step js info) x = Some cc" if "map_of info x = Some cc" for js info cc
    using that by (induction js arbitrary: info) (auto simp: step_def map_add_def split: IndexCache.splits option.splits)
  have "\<exists>cc. map_of (fold step ids info) x = Some cc \<and> chc_message_number cc = n" if "map_of info x = None" for info
    using that assms
  proof (induction ids arbitrary: info)
    case (Cons i ids)
    show ?case
    proof (cases "map_of (step i info) x")
      case None
      then have "\<not> (\<exists>cc. si_type i = SECTION_CHANNEL \<and> si_cache i = Channel_cache cc \<and> chc_name cc = x)"
        using Cons.prems(1) by (auto simp: step_def map_add_def)
      then show ?thesis using Cons.IH [OF None] Cons.prems(2,3) by auto
    next
      case (Some cc)
      then have "chc_message_number cc = n"
        using Cons.prems(1,2) by (auto simp: step_def map_add_def split: if_splits IndexCache.splits option.splits)
      then show ?thesis using keep [OF Some, of ids] by simp
    qed
  qed simp
  from this [of "[]"] show ?thesis by (simp add: channel_entries_def step_def)
qed

end
