(* ===== verification/Record_Codec.thy ===== *)
theory Record_Codec
  imports Record_Roundtrip
begin

text \<open>
  A concrete serialization of the messages of a record file, for the closed instances of the theorems about records. Protobuf itself
  is outside the sources; this encoding has the two properties the theorems ask of it.
\<close>

type_synonym 'a decoder = "byte list \<Rightarrow> 'a \<times> byte list"

definition dec64 :: "64 word decoder" where
  "dec64 bs = (ConvertArrayTo64 (take 8 bs), drop 8 bs)"

definition dec32 :: "32 word decoder" where
  "dec32 bs = (ConvertArrayTo32 (take 4 bs), drop 4 bs)"

definition decodes :: "('a \<Rightarrow> byte list) \<Rightarrow> 'a decoder \<Rightarrow> bool" where
  "decodes enc dec \<longleftrightarrow> (\<forall>x rest. dec (enc x @ rest) = (x, rest))"

lemma decodesD: "decodes enc dec \<Longrightarrow> dec (enc x @ rest) = (x, rest)"
  by (simp add: decodes_def)

lemma dec64_enc [simp]: "dec64 (Convert64ToArray w @ rest) = (w, rest)" "dec64 (Convert64ToArray w) = (w, [])"
  by (simp_all add: dec64_def)

lemma dec32_enc [simp]: "dec32 (Convert32ToArray w @ rest) = (w, rest)" "dec32 (Convert32ToArray w) = (w, [])"
  by (simp_all add: dec32_def)

section \<open>Lists\<close>

definition enc_list :: "('a \<Rightarrow> byte list) \<Rightarrow> 'a list \<Rightarrow> byte list" where
  "enc_list enc xs = concat (map (\<lambda>x. 1 # enc x) xs) @ [0]"

fun dec_loop :: "'a decoder \<Rightarrow> nat \<Rightarrow> 'a list decoder" where
  "dec_loop dec 0 bs = ([], bs)"
| "dec_loop dec (Suc n) bs =
     (if hd bs = 0 then ([], tl bs)
      else let (x, bs1) = dec (tl bs); (xs, bs2) = dec_loop dec n bs1 in (x # xs, bs2))"

definition dec_list :: "'a decoder \<Rightarrow> 'a list decoder" where
  "dec_list dec bs = dec_loop dec (length bs) bs"

lemma dec_loop_enc:
  assumes "decodes enc dec"
  shows "length xs < n \<Longrightarrow> dec_loop dec n (enc_list enc xs @ rest) = (xs, rest)"
proof (induction xs arbitrary: n)
  case Nil
  then show ?case by (cases n) (simp_all add: enc_list_def)
next
  case (Cons x xs)
  then obtain k where "n = Suc k" "length xs < k" by (cases n) auto
  then show ?case using Cons.IH [of k] decodesD [OF assms, of x "enc_list enc xs @ rest"] by (simp add: enc_list_def)
qed

lemma length_enc_list: "length xs < length (enc_list enc xs)"
  by (induction xs) (simp_all add: enc_list_def)

lemma decodes_list: "decodes enc dec \<Longrightarrow> decodes (enc_list enc) (dec_list dec)"
proof -
  assume d: "decodes enc dec"
  have "length xs < length (enc_list enc xs @ rest)" for xs rest using length_enc_list [of xs enc] by simp
  then show ?thesis unfolding decodes_def dec_list_def by (simp add: dec_loop_enc [OF d])
qed

definition dec_byte :: "byte decoder" where
  "dec_byte bs = (hd bs, tl bs)"

lemma decodes_byte: "decodes (\<lambda>b. [b]) dec_byte"
  by (simp add: decodes_def dec_byte_def)

definition enc_char :: "char \<Rightarrow> byte list" where
  "enc_char c = [of_nat (of_char c)]"

definition dec_char :: "char decoder" where
  "dec_char bs = (char_of (unat (hd bs)), tl bs)"

lemma decodes_char: "decodes enc_char dec_char"
proof -
  have "unat (of_nat (of_char c) :: 8 word) = of_char c" for c
  proof -
    have "(of_char c :: nat) < 256" using of_char_mod_256 [of c, where ?'a = nat] by (metis mod_less_divisor zero_less_numeral)
    then show ?thesis by (simp add: unsigned_of_nat take_bit_nat_eq_self)
  qed
  then show ?thesis by (simp add: decodes_def enc_char_def dec_char_def)
qed

abbreviation enc_string :: "string \<Rightarrow> byte list" where "enc_string \<equiv> enc_list enc_char"
abbreviation dec_string :: "string decoder" where "dec_string \<equiv> dec_list dec_char"

lemma dec_string_enc [simp]: "dec_string (enc_string x @ rest) = (x, rest)" "dec_string (enc_string x) = (x, [])"
  using decodesD [OF decodes_list [OF decodes_char], of x rest] decodesD [OF decodes_list [OF decodes_char], of x "[]"] by simp_all

lemma dec_bytes_enc [simp]: "dec_list dec_byte (enc_list (\<lambda>b. [b]) x @ rest) = (x, rest)" "dec_list dec_byte (enc_list (\<lambda>b. [b]) x) = (x, [])"
  using decodesD [OF decodes_list [OF decodes_byte], of x rest] decodesD [OF decodes_list [OF decodes_byte], of x "[]"] by simp_all

section \<open>The messages\<close>

definition enc_message :: "SingleMessage \<Rightarrow> byte list" where
  "enc_message m = enc_string (rm_channel_name m) @ Convert64ToArray (rm_time m) @ enc_list (\<lambda>b. [b]) (rm_content m)"

definition dec_message :: "SingleMessage decoder" where
  "dec_message bs =
     (let (n, bs1) = dec_string bs; (t, bs2) = dec64 bs1; (x, bs3) = dec_list dec_byte bs2
      in (\<lparr>rm_channel_name = n, rm_time = t, rm_content = x\<rparr>, bs3))"

lemma decodes_message: "decodes enc_message dec_message"
  by (simp add: decodes_def enc_message_def dec_message_def)

definition enc_chunk_header :: "ChunkHeader \<Rightarrow> byte list" where
  "enc_chunk_header h = concat (map Convert64ToArray [chh_begin_time h, chh_end_time h, chh_message_number h, chh_raw_size h])"

definition dec_chunk_header :: "ChunkHeader decoder" where
  "dec_chunk_header bs =
     (let (a, bs1) = dec64 bs; (b, bs2) = dec64 bs1; (n, bs3) = dec64 bs2; (r, bs4) = dec64 bs3
      in (\<lparr>chh_begin_time = a, chh_end_time = b, chh_message_number = n, chh_raw_size = r\<rparr>, bs4))"

lemma dec_chunk_header_enc [simp]: "dec_chunk_header (enc_chunk_header h @ rest) = (h, rest)" "dec_chunk_header (enc_chunk_header h) = (h, [])"
  by (simp_all add: dec_chunk_header_def enc_chunk_header_def)

definition enc_channel :: "Channel \<Rightarrow> byte list" where
  "enc_channel ch = enc_string (chn_name ch) @ enc_string (chn_message_type ch) @ enc_string (chn_proto_desc ch)"

definition dec_channel :: "Channel decoder" where
  "dec_channel bs =
     (let (n, bs1) = dec_string bs; (t, bs2) = dec_string bs1; (d, bs3) = dec_string bs2
      in (\<lparr>chn_name = n, chn_message_type = t, chn_proto_desc = d\<rparr>, bs3))"

lemma dec_channel_enc [simp]: "dec_channel (enc_channel ch @ rest) = (ch, rest)" "dec_channel (enc_channel ch) = (ch, [])"
  by (simp_all add: dec_channel_def enc_channel_def)

fun enc_cache :: "IndexCache \<Rightarrow> byte list" where
  "enc_cache (Channel_cache cc) =
     1 # Convert64ToArray (chc_message_number cc) @ enc_channel \<lparr>chn_name = chc_name cc, chn_message_type = chc_message_type cc, chn_proto_desc = chc_proto_desc cc\<rparr>"
| "enc_cache (Chunk_header_cache h) = 2 # enc_chunk_header h"
| "enc_cache (Chunk_body_cache n) = 3 # Convert64ToArray n"

definition dec_cache :: "IndexCache decoder" where
  "dec_cache bs =
     (if hd bs = 1 then (let (n, bs1) = dec64 (tl bs); (ch, bs2) = dec_channel bs1
        in (Channel_cache \<lparr>chc_message_number = n, chc_name = chn_name ch, chc_message_type = chn_message_type ch, chc_proto_desc = chn_proto_desc ch\<rparr>, bs2))
      else if hd bs = 2 then (let (h, bs1) = dec_chunk_header (tl bs) in (Chunk_header_cache h, bs1))
      else (let (n, bs1) = dec64 (tl bs) in (Chunk_body_cache n, bs1)))"

lemma dec_cache_enc [simp]: "dec_cache (enc_cache x @ rest) = (x, rest)"
  by (cases x) (simp_all add: dec_cache_def)

fun type_of_code :: "32 word \<Rightarrow> SectionType" where
  "type_of_code n = (if n = 0 then SECTION_HEADER else if n = 1 then SECTION_CHUNK_HEADER else if n = 2 then SECTION_CHUNK_BODY
     else if n = 3 then SECTION_INDEX else SECTION_CHANNEL)"

lemma type_of_code [simp]: "type_of_code (type_code t) = t"
  by (cases t) simp_all

definition enc_index :: "SingleIndex \<Rightarrow> byte list" where
  "enc_index i = Convert32ToArray (type_code (si_type i)) @ Convert64ToArray (si_position i) @ enc_cache (si_cache i)"

definition dec_index :: "SingleIndex decoder" where
  "dec_index bs =
     (let (t, bs1) = dec32 bs; (p, bs2) = dec64 bs1; (x, bs3) = dec_cache bs2
      in (\<lparr>si_type = type_of_code t, si_position = p, si_cache = x\<rparr>, bs3))"

lemma decodes_index: "decodes enc_index dec_index"
  by (simp add: decodes_def enc_index_def dec_index_def del: type_of_code.simps)

fun enc_compress :: "CompressType \<Rightarrow> byte" where
  "enc_compress COMPRESS_NONE = 0"
| "enc_compress COMPRESS_BZ2 = 1"
| "enc_compress COMPRESS_LZ4 = 2"

definition dec_compress :: "byte \<Rightarrow> CompressType" where
  "dec_compress b = (if b = 0 then COMPRESS_NONE else if b = 1 then COMPRESS_BZ2 else COMPRESS_LZ4)"

lemma dec_compress_enc [simp]: "dec_compress (enc_compress x) = x"
  by (cases x) (simp_all add: dec_compress_def)

definition enc_header :: "Header \<Rightarrow> byte list" where
  "enc_header h = [enc_compress (hd_compress h), if hd_is_complete h then 1 else 0] @ Convert32ToArray (hd_major_version h) @
     Convert32ToArray (hd_minor_version h) @ concat (map Convert64ToArray [hd_chunk_interval h, hd_segment_interval h,
     hd_index_position h, hd_chunk_number h, hd_channel_number h, hd_begin_time h, hd_end_time h, hd_message_number h, hd_size h,
     hd_chunk_raw_size h, hd_segment_raw_size h])"

definition dec_header :: "byte list \<Rightarrow> Header" where
  "dec_header bs =
     (let w = (\<lambda>k. ConvertArrayTo64 (take 8 (drop (10 + 8 * k) bs)))
      in \<lparr>hd_major_version = ConvertArrayTo32 (take 4 (drop 2 bs)), hd_minor_version = ConvertArrayTo32 (take 4 (drop 6 bs)),
          hd_compress = dec_compress (bs ! 0), hd_chunk_interval = w 0, hd_segment_interval = w 1, hd_index_position = w 2,
          hd_chunk_number = w 3, hd_channel_number = w 4, hd_begin_time = w 5, hd_end_time = w 6, hd_message_number = w 7,
          hd_size = w 8, hd_is_complete = (bs ! 1 = 1), hd_chunk_raw_size = w 9, hd_segment_raw_size = w 10\<rparr>)"

lemma dec_header_enc [simp]: "dec_header (enc_header h) = h"
  by (simp add: dec_header_def enc_header_def Let_def)

section \<open>The codec\<close>

fun plain_ser :: "section_msg \<Rightarrow> byte list" where
  "plain_ser (Sec_Header h) = enc_header h"
| "plain_ser (Sec_ChunkHeader h) = enc_chunk_header h"
| "plain_ser (Sec_ChunkBody ms) = enc_list enc_message ms"
| "plain_ser (Sec_Index ids) = enc_list enc_index ids"
| "plain_ser (Sec_Channel ch) = enc_channel ch"

fun plain_parse :: "SectionType \<Rightarrow> byte list \<Rightarrow> section_msg option" where
  "plain_parse SECTION_HEADER bs = Some (Sec_Header (dec_header bs))"
| "plain_parse SECTION_CHUNK_HEADER bs = Some (Sec_ChunkHeader (fst (dec_chunk_header bs)))"
| "plain_parse SECTION_CHUNK_BODY bs = Some (Sec_ChunkBody (fst (dec_list dec_message bs)))"
| "plain_parse SECTION_INDEX bs = Some (Sec_Index (fst (dec_list dec_index bs)))"
| "plain_parse SECTION_CHANNEL bs = Some (Sec_Channel (fst (dec_channel bs)))"

definition plain_codec :: section_codec where
  "plain_codec = \<lparr>sc_ser = plain_ser, sc_parse = plain_parse, sc_expect_at_end = (\<lambda>_. True)\<rparr>"

lemma plain_codec_ok: "codec_ok plain_codec"
proof -
  have "plain_parse (section_type m) (plain_ser m) = Some m" for m
  proof (cases m)
    case (Sec_ChunkBody ms)
    then show ?thesis using decodesD [OF decodes_list [OF decodes_message], of ms "[]"] by simp
  next
    case (Sec_Index ids)
    then show ?thesis using decodesD [OF decodes_list [OF decodes_index], of ids "[]"] by simp
  qed simp_all
  moreover have "length (enc_header h) \<le> HEADER_LENGTH" for h by (simp add: enc_header_def HEADER_LENGTH_def)
  ultimately show ?thesis by (simp add: codec_ok_def plain_codec_def)
qed

end
