(* ===== verification/Record_Viewer.thy ===== *)
theory Record_Viewer
  imports Record_Roundtrip
begin

text \<open>
  \<open>cyber/record/record_viewer.cc\<close>: reading the messages of several record files in one order of time. The viewer steps through time in
  windows of a second; the messages of a window are read from every reader into a multimap. It is proved that a loop over the viewer
  ends and visits the stable sort, by time, of all messages in the window that are on a chosen channel.
\<close>

section \<open>The viewer\<close>

record RecordViewer =
  vw_begin_time :: "64 word"
  vw_end_time :: "64 word"
  vw_channels :: "string set"
  vw_channel_list :: "string set"
  vw_readers :: "RecordReader list"
  vw_readers_finished :: "bool list"
  vw_curr_begin_time :: "64 word"
  vw_msg_buffer :: "SingleMessage list"

definition kStepTimeNanoSec :: "64 word" where "kStepTimeNanoSec = 1000000000"
definition kBufferMinSize :: nat where "kBufferMinSize = 128"

definition RecordViewer_IsValid :: "RecordViewer \<Rightarrow> bool" where
  "RecordViewer_IsValid v \<longleftrightarrow> \<not> vw_begin_time v > vw_end_time v"

definition reader_before :: "RecordReader \<Rightarrow> RecordReader \<Rightarrow> bool" where
  "reader_before lhs rhs \<longleftrightarrow>
     (if hd_begin_time (rr_header lhs) = hd_begin_time (rr_header rhs)
      then hd_end_time (rr_header lhs) < hd_end_time (rr_header rhs)
      else hd_begin_time (rr_header lhs) < hd_begin_time (rr_header rhs))"

text \<open>\<open>std_sort\<close> is the sorting function of the library, which takes the comparison; the order of equivalent readers is its choice.\<close>

definition RecordViewer_Init ::
    "((RecordReader \<Rightarrow> RecordReader \<Rightarrow> bool) \<Rightarrow> RecordReader list \<Rightarrow> RecordReader list) \<Rightarrow> RecordViewer \<Rightarrow> RecordViewer" where
  "RecordViewer_Init std_sort v =
     v\<lparr>vw_channel_list := vw_channel_list v \<union> (\<Union>reader \<in> set (vw_readers v). Reader_GetChannelList reader \<inter> vw_channels v),
       vw_readers_finished := replicate (length (vw_readers v)) False,
       vw_readers := std_sort reader_before (vw_readers v)\<rparr>"

definition UpdateTime_step :: "RecordReader \<Rightarrow> 64 word \<times> 64 word \<Rightarrow> 64 word \<times> 64 word" where
  "UpdateTime_step reader acc =
     (case acc of (min_begin_time, max_end_time) \<Rightarrow>
        if \<not> rr_is_valid reader then acc
        else (if min_begin_time > hd_begin_time (rr_header reader) then hd_begin_time (rr_header reader) else min_begin_time,
              if max_end_time < hd_end_time (rr_header reader) then hd_end_time (rr_header reader) else max_end_time))"

definition RecordViewer_UpdateTime :: "RecordViewer \<Rightarrow> RecordViewer" where
  "RecordViewer_UpdateTime v =
     (let (min_begin_time, max_end_time) = fold UpdateTime_step (vw_readers v) (- 1, 0);
          v1 = (if vw_begin_time v < min_begin_time then v\<lparr>vw_begin_time := min_begin_time\<rparr> else v);
          v2 = (if vw_end_time v1 > max_end_time then v1\<lparr>vw_end_time := max_end_time\<rparr> else v1)
      in v2\<lparr>vw_curr_begin_time := vw_begin_time v2\<rparr>)"

definition RecordViewer_ctor ::
    "((RecordReader \<Rightarrow> RecordReader \<Rightarrow> bool) \<Rightarrow> RecordReader list \<Rightarrow> RecordReader list) \<Rightarrow> RecordReader list \<Rightarrow> 64 word \<Rightarrow> 64 word \<Rightarrow> string set \<Rightarrow> RecordViewer" where
  "RecordViewer_ctor std_sort readers begin_time end_time channels =
     RecordViewer_UpdateTime (RecordViewer_Init std_sort
       \<lparr>vw_begin_time = begin_time, vw_end_time = end_time, vw_channels = channels, vw_channel_list = {}, vw_readers = readers,
        vw_readers_finished = [], vw_curr_begin_time = 0, vw_msg_buffer = []\<rparr>)"

definition RecordViewer_Reset :: "RecordViewer \<Rightarrow> RecordViewer" where
  "RecordViewer_Reset v =
     v\<lparr>vw_readers := map RecordReader_Reset (vw_readers v),
       vw_readers_finished := map (\<lambda>_. False) (vw_readers_finished v),
       vw_curr_begin_time := vw_begin_time v, vw_msg_buffer := []\<rparr>"

text \<open>The multimap inserts behind the entries with the same key.\<close>

fun buffer_emplace :: "SingleMessage \<Rightarrow> SingleMessage list \<Rightarrow> SingleMessage list" where
  "buffer_emplace m [] = [m]"
| "buffer_emplace m (x # xs) = (if rm_time m < rm_time x then m # x # xs else x # buffer_emplace m xs)"

text \<open>The three loops of \<open>FillBuffer\<close> over the readers: which are finished, one reader, and all readers.\<close>

fun mark_finished :: "64 word \<Rightarrow> (bool \<times> RecordReader) list \<Rightarrow> (bool \<times> RecordReader) list" where
  "mark_finished this_begin_time [] = []"
| "mark_finished this_begin_time ((fin, rr) # rs) =
     (if \<not> fin \<and> hd_end_time (rr_header rr) < this_begin_time then (True, RecordReader_Reset rr) else (fin, rr)) #
     mark_finished this_begin_time rs"

partial_function (option) drain_reader ::
    "section_codec \<Rightarrow> 64 word \<Rightarrow> 64 word \<Rightarrow> RecordReader \<Rightarrow> SingleMessage list \<Rightarrow> (RecordReader \<times> SingleMessage list) option" where
  "drain_reader c this_begin_time this_end_time rr buf =
     (case ReadMessage c this_begin_time this_end_time rr of
        None \<Rightarrow> None
      | Some (None, rr1) \<Rightarrow> Some (rr1, buf)
      | Some (Some m, rr1) \<Rightarrow> drain_reader c this_begin_time this_end_time rr1 (buffer_emplace m buf))"

fun fill_readers ::
    "section_codec \<Rightarrow> 64 word \<Rightarrow> 64 word \<Rightarrow> (bool \<times> RecordReader) list \<Rightarrow> SingleMessage list \<Rightarrow>
     ((bool \<times> RecordReader) list \<times> SingleMessage list) option" where
  "fill_readers c b e [] buf = Some ([], buf)"
| "fill_readers c b e ((fin, rr) # rs) buf =
     (case (if fin then Some (rr, buf) else drain_reader c b e rr buf) of
        None \<Rightarrow> None
      | Some (rr1, buf1) \<Rightarrow>
          (case fill_readers c b e rs buf1 of
             None \<Rightarrow> None
           | Some (rs1, buf2) \<Rightarrow> Some ((fin, rr1) # rs1, buf2)))"

partial_function (option) FillBuffer :: "section_codec \<Rightarrow> RecordViewer \<Rightarrow> (bool \<times> RecordViewer) option" where
  "FillBuffer c v =
     (if vw_curr_begin_time v \<le> vw_end_time v \<and> length (vw_msg_buffer v) < kBufferMinSize
      then let this_begin_time = vw_curr_begin_time v;
               this_end_time = (if this_begin_time + kStepTimeNanoSec > vw_end_time v then vw_end_time v
                                else this_begin_time + kStepTimeNanoSec)
           in case fill_readers c this_begin_time this_end_time
                     (mark_finished this_begin_time (zip (vw_readers_finished v) (vw_readers v))) (vw_msg_buffer v) of
                None \<Rightarrow> None
              | Some (rs, buf) \<Rightarrow>
                  FillBuffer c (v\<lparr>vw_readers_finished := map fst rs, vw_readers := map snd rs, vw_msg_buffer := buf,
                                   vw_curr_begin_time := this_end_time + 1\<rparr>)
      else Some (vw_msg_buffer v \<noteq> [], v))"

definition wanted :: "RecordViewer \<Rightarrow> SingleMessage \<Rightarrow> bool" where
  "wanted v msg \<longleftrightarrow> vw_channels v = {} \<or> rm_channel_name msg \<in> vw_channels v"

partial_function (option) RecordViewer_Update ::
    "section_codec \<Rightarrow> RecordViewer \<Rightarrow> (SingleMessage option \<times> RecordViewer) option" where
  "RecordViewer_Update c v =
     (case (if vw_msg_buffer v = [] then FillBuffer c v else Some (True, v)) of
        None \<Rightarrow> None
      | Some (ok, v1) \<Rightarrow>
          if \<not> ok then Some (None, v1)
          else let msg = hd (vw_msg_buffer v1); v2 = v1\<lparr>vw_msg_buffer := tl (vw_msg_buffer v1)\<rparr>
               in if wanted v1 msg then Some (Some msg, v2) else RecordViewer_Update c v2)"

section \<open>Iterators\<close>

text \<open>An iterator; \<open>it_viewer\<close> is the address of the viewer, whose state the operations take and return.\<close>

record ViewerIterator =
  it_end :: bool
  it_index :: "64 word"
  it_viewer :: nat
  it_message :: "SingleMessage option"

definition Iterator_update :: "section_codec \<Rightarrow> ViewerIterator \<Rightarrow> RecordViewer \<Rightarrow> (ViewerIterator \<times> RecordViewer) option" where
  "Iterator_update c it v =
     (case RecordViewer_Update c v of
        None \<Rightarrow> None
      | Some (None, v1) \<Rightarrow> Some (it\<lparr>it_end := True\<rparr>, v1)
      | Some (Some m, v1) \<Rightarrow> Some (it\<lparr>it_message := Some m\<rparr>, v1))"

definition Iterator_ctor :: "section_codec \<Rightarrow> nat \<Rightarrow> bool \<Rightarrow> RecordViewer \<Rightarrow> (ViewerIterator \<times> RecordViewer) option" where
  "Iterator_ctor c addr at_end v =
     (let it = \<lparr>it_end = at_end, it_index = 0, it_viewer = addr, it_message = None\<rparr>
      in if at_end then Some (it, v)
         else let v1 = RecordViewer_Reset v
              in if \<not> RecordViewer_IsValid v1 then Some (it\<lparr>it_end := True\<rparr>, v1) else Iterator_update c it v1)"

definition Iterator_equal :: "ViewerIterator \<Rightarrow> ViewerIterator \<Rightarrow> bool" where
  "Iterator_equal it other \<longleftrightarrow>
     (if it_end other then it_end it else it_index it = it_index other \<and> it_viewer it = it_viewer other)"

definition Iterator_next :: "section_codec \<Rightarrow> ViewerIterator \<Rightarrow> RecordViewer \<Rightarrow> (ViewerIterator \<times> RecordViewer) option" where
  "Iterator_next c it v = Iterator_update c (it\<lparr>it_index := it_index it + 1\<rparr>) v"

text \<open>A loop over the viewer, from \<open>begin()\<close> until the iterator equals \<open>end()\<close>: the messages it visits.\<close>

partial_function (option) viewer_loop ::
    "section_codec \<Rightarrow> ViewerIterator \<Rightarrow> ViewerIterator \<Rightarrow> RecordViewer \<Rightarrow> SingleMessage list option" where
  "viewer_loop c it stop v =
     (if Iterator_equal it stop then Some []
      else case Iterator_next c it v of
             None \<Rightarrow> None
           | Some (it1, v1) \<Rightarrow>
               Option.bind (viewer_loop c it1 stop v1) (\<lambda>ms. Some (the (it_message it) # ms)))"

definition viewer_messages :: "section_codec \<Rightarrow> RecordViewer \<Rightarrow> SingleMessage list option" where
  "viewer_messages c v =
     (case Iterator_ctor c 0 False v of
        None \<Rightarrow> None
      | Some (it, v1) \<Rightarrow>
          (case Iterator_ctor c 0 True v1 of
             None \<Rightarrow> None
           | Some (stop, v2) \<Rightarrow> viewer_loop c it stop v2))"

section \<open>The buffer\<close>

lemma mset_buffer_emplace [simp]: "mset (buffer_emplace m xs) = add_mset m (mset xs)"
  by (induction xs) (simp_all add: add_mset_commute)

lemma set_buffer_emplace [simp]: "set (buffer_emplace m xs) = insert m (set xs)"
  by (induction xs) auto

lemma sorted_buffer_emplace: "sorted (map rm_time xs) \<Longrightarrow> sorted (map rm_time (buffer_emplace m xs))"
  by (induction xs) (fastforce simp: not_less)+

lemma stable_buffer_emplace:
  "sorted (map rm_time xs) \<Longrightarrow> filter (\<lambda>x. k = rm_time x) (buffer_emplace m xs) = filter (\<lambda>x. k = rm_time x) (xs @ [m])"
proof (induction xs)
  case (Cons x xs)
  show ?case
  proof (cases "rm_time m < rm_time x")
    case True
    then have "rm_time m < rm_time y" if "y \<in> set (x # xs)" for y using that Cons.prems by (auto intro: less_le_trans)
    then have "filter (\<lambda>x. k = rm_time x) (x # xs) = []" if "k = rm_time m" unfolding that filter_empty_conv by fastforce
    then show ?thesis using True by (cases "k = rm_time m") (auto split: if_splits)
  qed (use Cons in auto)
qed simp

text \<open>A buffer that has received messages in some order is their stable sort.\<close>

lemma fold_buffer_emplace:
  assumes "sorted (map rm_time buf)"
  shows "fold buffer_emplace ms buf = sort_key rm_time (buf @ ms)"
proof -
  have "sorted (map rm_time (fold buffer_emplace ms buf)) \<and> mset (fold buffer_emplace ms buf) = mset (buf @ ms) \<and>
      (\<forall>k. filter (\<lambda>x. k = rm_time x) (fold buffer_emplace ms buf) = filter (\<lambda>x. k = rm_time x) (buf @ ms))"
    using assms
  proof (induction ms arbitrary: buf)
    case (Cons m ms)
    from Cons.IH [OF sorted_buffer_emplace [OF Cons.prems]] show ?case using stable_buffer_emplace [OF Cons.prems] by simp
  qed simp
  then show ?thesis by (intro sym [OF properties_for_sort_key]) auto
qed

lemma filter_sort_key: "filter (\<lambda>x. k = f x) (sort_key f xs) = filter (\<lambda>x. k = f x) xs"
  using sort_key_stable [of f k xs] by (simp add: eq_commute)

lemma sort_split:
  assumes "mset xs = mset (as @ bs)" and "\<And>k. filter (\<lambda>x. k = f x) (as @ bs) = filter (\<lambda>x. k = f x) xs"
    and "\<forall>x \<in> set as. \<forall>y \<in> set bs. f x < f y"
  shows "sort_key f xs = sort_key f as @ sort_key f bs"
proof (rule properties_for_sort_key)
  show "filter (\<lambda>x. f k = f x) (sort_key f as @ sort_key f bs) = filter (\<lambda>x. f k = f x) xs" for k
    using assms(2) [of "f k"] by (simp add: filter_sort_key)
qed (use assms in \<open>auto simp: sorted_append less_imp_le\<close>)

lemma word_less_Suc: "(e1 :: 64 word) < e2 \<Longrightarrow> e1 + 1 \<le> t \<longleftrightarrow> e1 < t"
proof -
  assume "e1 < e2"
  then have "unat (e1 + 1) = Suc (unat e1)"
    using unsigned_less [of e2, where ?'a = nat] by (simp add: word_less_nat_alt unat_word_ariths)
  then show ?thesis by (simp add: word_le_nat_alt word_less_nat_alt Suc_le_eq)
qed

lemma sort_window_split:
  assumes "e1 < e2" and "b \<le> e1"
  shows "sort_key rm_time (filter (in_window b e2) xs) =
    sort_key rm_time (filter (in_window b e1) xs) @ sort_key rm_time (filter (in_window (e1 + 1) e2) xs)"
proof -
  have w: "in_window (e1 + 1) e2 m \<longleftrightarrow> in_window b e2 m \<and> \<not> in_window b e1 m" "in_window b e1 m \<Longrightarrow> in_window b e2 m" for m
    using assms word_less_Suc [OF assms(1), of "rm_time m"] by (auto simp: in_window_def)
  show ?thesis
  proof (rule sort_split)
    show "\<forall>x \<in> set (filter (in_window b e1) xs). \<forall>y \<in> set (filter (in_window (e1 + 1) e2) xs). rm_time x < rm_time y"
      unfolding in_window_def set_filter word_less_Suc [OF assms(1)] by (blast intro: le_less_trans)
    show "mset (filter (in_window b e2) xs) = mset (filter (in_window b e1) xs @ filter (in_window (e1 + 1) e2) xs)"
    proof (induction xs)
      case (Cons m xs)
      then show ?case using w(1) [of m] w(2) [of m] by (cases "in_window b e1 m"; cases "in_window b e2 m") simp_all
    qed simp
    show "filter (\<lambda>x. k = rm_time x) (filter (in_window b e1) xs @ filter (in_window (e1 + 1) e2) xs) =
        filter (\<lambda>x. k = rm_time x) (filter (in_window b e2) xs)" for k
    proof (cases "b \<le> k \<and> k \<le> e1")
      case True
      then have "filter (\<lambda>x. k = rm_time x) (filter (in_window (e1 + 1) e2) xs) = []" 
        using word_less_Suc [OF assms(1), of k] by (auto simp: filter_empty_conv in_window_def)
      moreover have "(in_window b e1 m \<and> k = rm_time m) = (in_window b e2 m \<and> k = rm_time m)" for m
        using True assms by (auto simp: in_window_def)
      ultimately show ?thesis by simp
    next
      case False
      then have "filter (\<lambda>x. k = rm_time x) (filter (in_window b e1) xs) = []" by (auto simp: filter_empty_conv in_window_def)
      moreover have "(in_window (e1 + 1) e2 m \<and> k = rm_time m) = (in_window b e2 m \<and> k = rm_time m)" for m
        using False w(1) [of m] by (auto simp: in_window_def)
      ultimately show ?thesis by simp
    qed
  qed
qed

section \<open>The readers of a viewer\<close>

text \<open>What a reader still has to deliver, and that a reader that could not be opened delivers nothing.\<close>

definition holds :: "section_codec \<Rightarrow> RecordReader \<Rightarrow> SingleMessage list \<Rightarrow> bool" where
  "holds c rr L \<longleftrightarrow> (if rr_is_valid rr then reader_holds c rr L else L = [])"

lemma holds_read:
  assumes "codec_ok c" and "holds c rr L"
  obtains res rr' L' where "ReadMessage c b e rr = Some (res, rr')" and "window_step b e L res L'" and "holds c rr' L'"
    and "rr_header rr' = rr_header rr"
proof (cases "rr_is_valid rr")
  case True
  then have "read_ok c b e rr L" using ReadMessage_window [OF assms(1)] assms(2) by (simp add: holds_def)
  then obtain res rr' L' where "ReadMessage c b e rr = Some (res, rr')" "window_step b e L res L'" "reader_holds c rr' L'" "same_reader rr rr'"
    unfolding read_ok_def by blast
  then show ?thesis using that by (auto simp: holds_def same_reader_def reader_holds_def)
next
  case False
  then have "ReadMessage c b e rr = Some (None, rr)" by (subst ReadMessage.simps) simp
  then show ?thesis using that [of None rr "[]"] False assms(2) by (simp add: holds_def window_step_def)
qed

lemma drain_reader_all:
  assumes "codec_ok c" and "holds c rr L"
  shows "\<exists>rr' pre L'. drain_reader c b e rr buf = Some (rr', fold buffer_emplace (filter (in_window b e) L) buf) \<and> L = pre @ L' \<and>
    (\<forall>m \<in> set pre. rm_time m < b \<or> rm_time m \<le> e) \<and> holds c rr' L' \<and> rr_header rr' = rr_header rr"
  using assms(2)
proof (induction "length L" arbitrary: rr L buf rule: less_induct)
  case less
  obtain res rr1 L1 where r: "ReadMessage c b e rr = Some (res, rr1)" "window_step b e L res L1" "holds c rr1 L1" "rr_header rr1 = rr_header rr"
    using holds_read [OF assms(1) less.prems] by blast
  show ?case
  proof (cases res)
    case None
    then obtain pre where pre: "L = pre @ L1" "stale b pre" "\<forall>m \<in> set L. rm_time m < b \<or> e < rm_time m"
      using r(2) by (auto simp: window_step_def)
    then have "filter (in_window b e) L = []" unfolding filter_empty_conv in_window_def by (meson not_less)
    moreover have "drain_reader c b e rr buf = Some (rr1, buf)" by (subst drain_reader.simps) (simp add: r(1) None)
    ultimately show ?thesis using pre(1,2) r(3,4) by (auto simp: stale_def)
  next
    case (Some m)
    then obtain pre where pre: "L = pre @ m # L1" "stale b pre" "in_window b e m" using r(2) by (auto simp: window_step_def in_window_def)
    have step: "drain_reader c b e rr buf = drain_reader c b e rr1 (buffer_emplace m buf)"
      by (subst drain_reader.simps) (simp add: r(1) Some)
    have "length L1 < length L" using pre(1) by simp
    then obtain rr' pre1 L' where IH: "drain_reader c b e rr1 (buffer_emplace m buf) =
        Some (rr', fold buffer_emplace (filter (in_window b e) L1) (buffer_emplace m buf))" "L1 = pre1 @ L'"
        "\<forall>m \<in> set pre1. rm_time m < b \<or> rm_time m \<le> e" "holds c rr' L'" "rr_header rr' = rr_header rr1"
      using less.hyps [OF _ r(3)] by blast
    have "filter (in_window b e) L = m # filter (in_window b e) L1" using pre by (simp add: stale_filter)
    then show ?thesis
      using step IH pre r(4) by (intro exI [of _ rr'] exI [of _ "pre @ m # pre1"] exI [of _ L']) (auto simp: stale_def in_window_def)
  qed
qed

text \<open>A reader of the viewer at time \<open>t\<close>: it has passed only messages before \<open>t\<close>; a finished one has none from \<open>t\<close> on.\<close>

definition source :: "section_codec \<Rightarrow> 64 word \<Rightarrow> bool \<times> RecordReader \<Rightarrow> SingleMessage list \<Rightarrow> bool" where
  "source c t r ms \<longleftrightarrow>
     (case r of (fin, rr) \<Rightarrow>
        (\<forall>m \<in> set ms. rm_time m \<le> hd_end_time (rr_header rr)) \<and>
        (if fin then stale t ms else \<exists>pre L. ms = pre @ L \<and> stale t pre \<and> holds c rr L))"

lemma mark_finished_source:
  "list_all2 (source c t) rs mss \<Longrightarrow> list_all2 (source c t) (mark_finished t rs) mss"
proof (induction rs mss rule: list_all2_induct)
  case (Cons r rs ms mss)
  obtain fin rr where r: "r = (fin, rr)" by (cases r)
  have "source c t (True, RecordReader_Reset rr) ms" if "hd_end_time (rr_header rr) < t"
    using that Cons(1) unfolding r source_def stale_def RecordReader_Reset_def by (auto intro: le_less_trans)
  then show ?case using Cons r by simp
qed simp

lemma fill_readers_all:
  assumes "codec_ok c" and "e < - 1"
  shows "list_all2 (source c b) rs mss \<Longrightarrow> b \<le> e \<Longrightarrow>
    \<exists>rs'. fill_readers c b e rs buf = Some (rs', fold buffer_emplace (filter (in_window b e) (concat mss)) buf) \<and>
      list_all2 (source c (e + 1)) rs' mss"
proof (induction rs mss arbitrary: buf rule: list_all2_induct)
  case (Cons r rs ms mss)
  obtain fin rr where r: "r = (fin, rr)" by (cases r)
  have later: "stale (e + 1) pre" if "\<forall>m \<in> set pre. rm_time m < b \<or> rm_time m \<le> e" for pre
    using that Cons(4) word_less_Suc [OF assms(2)] by (fastforce simp: stale_def not_less not_le)
  have bounded: "\<forall>m \<in> set ms. rm_time m \<le> hd_end_time (rr_header rr)" using Cons(1) by (simp add: source_def r)
  have "\<exists>rr1. (if fin then Some (rr, buf) else drain_reader c b e rr buf) = Some (rr1, fold buffer_emplace (filter (in_window b e) ms) buf) \<and>
      source c (e + 1) (fin, rr1) ms"
  proof (cases fin)
    case True
    then have "stale b ms" using Cons(1) by (simp add: source_def r)
    then show ?thesis using True bounded later [of ms] by (auto simp: stale_filter source_def) (simp add: stale_def)
  next
    case False
    then obtain pre L where L: "ms = pre @ L" "stale b pre" "holds c rr L" using Cons(1) by (auto simp: source_def r)
    obtain rr1 pre1 L1 where d: "drain_reader c b e rr buf = Some (rr1, fold buffer_emplace (filter (in_window b e) L) buf)" "L = pre1 @ L1"
        "\<forall>m \<in> set pre1. rm_time m < b \<or> rm_time m \<le> e" "holds c rr1 L1" "rr_header rr1 = rr_header rr"
      using drain_reader_all [OF assms(1) L(3)] by blast
    have "stale (e + 1) (pre @ pre1)" using L(2) d(3) by (intro later) (auto simp: stale_def)
    then have "\<exists>pre L. ms = pre @ L \<and> stale (e + 1) pre \<and> holds c rr1 L"
      using L(1) d(2,4) by (intro exI [of _ "pre @ pre1"] exI [of _ L1]) simp
    then have "source c (e + 1) (fin, rr1) ms" using False d(5) bounded by (simp add: source_def)
    then show ?thesis using False d(1) L(1,2) by (simp add: stale_filter)
  qed
  then obtain rr1 where rr1: "(if fin then Some (rr, buf) else drain_reader c b e rr buf) =
      Some (rr1, fold buffer_emplace (filter (in_window b e) ms) buf)" "source c (e + 1) (fin, rr1) ms" by blast
  obtain rs1 where "fill_readers c b e rs (fold buffer_emplace (filter (in_window b e) ms) buf) =
      Some (rs1, fold buffer_emplace (filter (in_window b e) (concat mss)) (fold buffer_emplace (filter (in_window b e) ms) buf))"
      "list_all2 (source c (e + 1)) rs1 mss"
    using Cons(3) [OF Cons(4)] by blast
  then show ?case using rr1 by (simp add: r)
qed simp

section \<open>What a viewer still has to visit\<close>

definition viewer_ok :: "section_codec \<Rightarrow> RecordViewer \<Rightarrow> SingleMessage list list \<Rightarrow> bool" where
  "viewer_ok c v mss \<longleftrightarrow> length (vw_readers_finished v) = length (vw_readers v) \<and>
     list_all2 (source c (vw_curr_begin_time v)) (zip (vw_readers_finished v) (vw_readers v)) mss \<and>
     sorted (map rm_time (vw_msg_buffer v)) \<and> (\<forall>m \<in> set (vw_msg_buffer v). rm_time m < vw_curr_begin_time v) \<and>
     vw_end_time v < 2 ^ 63"

definition pending :: "RecordViewer \<Rightarrow> SingleMessage list list \<Rightarrow> SingleMessage list" where
  "pending v mss = vw_msg_buffer v @ sort_key rm_time (filter (in_window (vw_curr_begin_time v) (vw_end_time v)) (concat mss))"

lemma window_empty: "e < b \<Longrightarrow> filter (in_window b e) ms = []"
  unfolding filter_empty_conv in_window_def by (meson le_less_trans not_less)

text \<open>The end of the next window.\<close>

definition step_end :: "RecordViewer \<Rightarrow> 64 word" where
  "step_end v = (if vw_curr_begin_time v + kStepTimeNanoSec > vw_end_time v then vw_end_time v else vw_curr_begin_time v + kStepTimeNanoSec)"

lemma step_end_bounds:
  assumes "vw_curr_begin_time v \<le> vw_end_time v" and "vw_end_time v < 2 ^ 63"
  shows "vw_curr_begin_time v \<le> step_end v" and "step_end v \<le> vw_end_time v" and "unat (step_end v + 1) = Suc (unat (step_end v))"
proof -
  have "unat (vw_end_time v) < 2 ^ 63" using assms(2) by (simp add: word_less_nat_alt)
  moreover have "unat (vw_curr_begin_time v) \<le> unat (vw_end_time v)" using assms(1) by (simp add: word_le_nat_alt)
  ultimately have sum: "unat (vw_curr_begin_time v + kStepTimeNanoSec) = unat (vw_curr_begin_time v) + 1000000000"
    by (simp add: unat_word_ariths kStepTimeNanoSec_def)
  show "vw_curr_begin_time v \<le> step_end v" "step_end v \<le> vw_end_time v"
    using assms(1) sum by (simp_all add: step_end_def word_le_nat_alt word_less_nat_alt)
  then show "unat (step_end v + 1) = Suc (unat (step_end v))"
    using \<open>unat (vw_end_time v) < 2 ^ 63\<close> by (simp add: unat_word_ariths word_le_nat_alt)
qed

text \<open>One window.\<close>

lemma fill_step:
  assumes "codec_ok c" and "viewer_ok c v mss" and "vw_curr_begin_time v \<le> vw_end_time v" and "length (vw_msg_buffer v) < kBufferMinSize"
  obtains v1 where "FillBuffer c v = FillBuffer c v1" and "viewer_ok c v1 mss" and "pending v1 mss = pending v mss"
    and "vw_channels v1 = vw_channels v" and "vw_end_time v1 = vw_end_time v"
    and "unat (vw_curr_begin_time v1) = Suc (unat (step_end v))"
proof -
  let ?b = "vw_curr_begin_time v" and ?e = "step_end v" and ?stop = "vw_end_time v"
  note v = assms(2) [unfolded viewer_ok_def]
  note e = step_end_bounds [OF assms(3)]
  have less: "?e < ?e + 1" using e(3) v by (simp add: word_less_nat_alt)
  let ?ms = "filter (in_window ?b ?e) (concat mss)"
  have last: "?e < - 1" using less by (metis add.left_inverse linorder_not_less max_word_max order.order_iff_strict word_zero_le)
  obtain rs where rs: "fill_readers c ?b ?e (mark_finished ?b (zip (vw_readers_finished v) (vw_readers v))) (vw_msg_buffer v) =
      Some (rs, fold buffer_emplace ?ms (vw_msg_buffer v))" "list_all2 (source c (?e + 1)) rs mss"
    using fill_readers_all [OF assms(1) last mark_finished_source e(1)] v by blast
  let ?v1 = "v\<lparr>vw_readers_finished := map fst rs, vw_readers := map snd rs, vw_msg_buffer := fold buffer_emplace ?ms (vw_msg_buffer v),
      vw_curr_begin_time := ?e + 1\<rparr>"
  have step: "FillBuffer c v = FillBuffer c ?v1"
    using assms(3,4) rs(1) by (subst FillBuffer.simps) (simp add: step_end_def Let_def)
  have buf: "fold buffer_emplace ?ms (vw_msg_buffer v) = vw_msg_buffer v @ sort_key rm_time ?ms"
  proof -
    have "sort_key rm_time (vw_msg_buffer v @ ?ms) = sort_key rm_time (vw_msg_buffer v) @ sort_key rm_time ?ms"
      by (rule sort_split) (use v in \<open>auto simp: in_window_def intro: less_le_trans\<close>)
    then show ?thesis using v by (simp add: fold_buffer_emplace sort_key_id_if_sorted)
  qed
  have "rm_time m < ?e + 1" if "m \<in> set (vw_msg_buffer v) \<or> m \<in> set ?ms" for m
    using that v e(1,2) less unfolding in_window_def by (auto intro: less_le_trans le_less_trans)
  then have ok: "viewer_ok c ?v1 mss"
    using v rs(2) unfolding viewer_ok_def buf by (auto simp: zip_map_fst_snd sorted_append in_window_def intro: less_imp_le less_le_trans)
  have "sort_key rm_time (filter (in_window ?b ?stop) (concat mss)) =
      sort_key rm_time ?ms @ sort_key rm_time (filter (in_window (?e + 1) ?stop) (concat mss))"
  proof (cases "?e < ?stop")
    case True
    then show ?thesis by (rule sort_window_split [OF _ e(1)]) (use v in simp)
  next
    case False
    then show ?thesis using e(2) v less window_empty [of ?stop "?e + 1"] by simp
  qed
  then have "pending ?v1 mss = pending v mss" by (simp add: pending_def buf)
  then show ?thesis using that [OF step ok] e(3) v by simp
qed

lemma FillBuffer_all:
  assumes "codec_ok c" and "viewer_ok c v mss"
  shows "\<exists>v'. FillBuffer c v = Some (vw_msg_buffer v' \<noteq> [], v') \<and> viewer_ok c v' mss \<and> pending v' mss = pending v mss \<and>
    vw_channels v' = vw_channels v \<and> (vw_msg_buffer v' = [] \<longrightarrow> pending v' mss = [])"
  using assms(2)
proof (induction "Suc (unat (vw_end_time v)) - unat (vw_curr_begin_time v)" arbitrary: v rule: less_induct)
  case less
  show ?case
  proof (cases "vw_curr_begin_time v \<le> vw_end_time v \<and> length (vw_msg_buffer v) < kBufferMinSize")
    case True
    obtain v1 where v1: "FillBuffer c v = FillBuffer c v1" "viewer_ok c v1 mss" "pending v1 mss = pending v mss" "vw_channels v1 = vw_channels v"
        "vw_end_time v1 = vw_end_time v" "unat (vw_curr_begin_time v1) = Suc (unat (step_end v))"
      using fill_step [OF assms(1) less.prems] True by metis
    have "unat (vw_curr_begin_time v) \<le> unat (step_end v)" "unat (vw_curr_begin_time v) \<le> unat (vw_end_time v)"
      using step_end_bounds(1) True less.prems by (simp_all add: viewer_ok_def word_le_nat_alt)
    then have "Suc (unat (vw_end_time v1)) - unat (vw_curr_begin_time v1) < Suc (unat (vw_end_time v)) - unat (vw_curr_begin_time v)"
      using v1(5,6) by simp
    from less.hyps [OF this v1(2)] show ?thesis using v1(1,3,4) by simp
  next
    case False
    then have "FillBuffer c v = Some (vw_msg_buffer v \<noteq> [], v)" by (subst FillBuffer.simps) auto
    moreover have "pending v mss = []" if "vw_msg_buffer v = []"
      using that False window_empty [of "vw_end_time v" "vw_curr_begin_time v"] by (auto simp: pending_def kBufferMinSize_def not_le)
    ultimately show ?thesis using less.prems by blast
  qed
qed

text \<open>One call of \<open>Update\<close>: the next pending message on a chosen channel.\<close>

lemma Update_all:
  assumes "codec_ok c" and "viewer_ok c v mss"
  shows "\<exists>res v'. RecordViewer_Update c v = Some (res, v') \<and> viewer_ok c v' mss \<and> vw_channels v' = vw_channels v \<and>
    filter (wanted v) (pending v mss) = (case res of None \<Rightarrow> [] | Some m \<Rightarrow> m # filter (wanted v) (pending v' mss))"
  using assms(2)
proof (induction "length (pending v mss)" arbitrary: v rule: less_induct)
  case less
  have "\<exists>v1. (if vw_msg_buffer v = [] then FillBuffer c v else Some (True, v)) = Some (vw_msg_buffer v1 \<noteq> [], v1) \<and> viewer_ok c v1 mss \<and>
      pending v1 mss = pending v mss \<and> vw_channels v1 = vw_channels v \<and> (vw_msg_buffer v1 = [] \<longrightarrow> pending v1 mss = [])"
    using FillBuffer_all [OF assms(1) less.prems] less.prems by (cases "vw_msg_buffer v = []") auto
  then obtain v1 where fill: "(if vw_msg_buffer v = [] then FillBuffer c v else Some (True, v)) = Some (vw_msg_buffer v1 \<noteq> [], v1)"
      and v1: "viewer_ok c v1 mss" "pending v1 mss = pending v mss" "vw_channels v1 = vw_channels v" "vw_msg_buffer v1 = [] \<longrightarrow> pending v1 mss = []"
    by blast
  have same: "wanted v' = wanted v" if "vw_channels v' = vw_channels v" for v' using that by (simp add: wanted_def fun_eq_iff)
  show ?case
  proof (cases "vw_msg_buffer v1")
    case Nil
    then have "RecordViewer_Update c v = Some (None, v1)" by (subst RecordViewer_Update.simps) (simp add: fill)
    then show ?thesis using v1 Nil by auto
  next
    case (Cons m buf)
    let ?v2 = "v1\<lparr>vw_msg_buffer := buf\<rparr>"
    have v2: "viewer_ok c ?v2 mss" "pending v mss = m # pending ?v2 mss" "vw_channels ?v2 = vw_channels v"
      using v1 Cons by (simp_all add: viewer_ok_def pending_def)
    have run: "RecordViewer_Update c v = (if wanted v m then Some (Some m, ?v2) else RecordViewer_Update c ?v2)"
      using same [OF v1(3)] by (subst RecordViewer_Update.simps) (simp add: fill Cons Let_def)
    show ?thesis
    proof (cases "wanted v m")
      case True
      then show ?thesis using run v2 by simp
    next
      case False
      have "length (pending ?v2 mss) < length (pending v mss)" using v2(2) by simp
      from less.hyps [OF this v2(1)] show ?thesis unfolding same [OF v2(3)] v2(3) using run False v2(2) by simp
    qed
  qed
qed

lemma viewer_loop_all:
  assumes "codec_ok c" and "viewer_ok c v mss" and "\<not> it_end it" and "it_message it = Some m" and "it_end stop"
  shows "viewer_loop c it stop v = Some (m # filter (wanted v) (pending v mss))"
  using assms(2-4)
proof (induction "length (filter (wanted v) (pending v mss))" arbitrary: it m v rule: less_induct)
  case less
  obtain res v' where u: "RecordViewer_Update c v = Some (res, v')" "viewer_ok c v' mss" "vw_channels v' = vw_channels v"
      "filter (wanted v) (pending v mss) = (case res of None \<Rightarrow> [] | Some m \<Rightarrow> m # filter (wanted v) (pending v' mss))"
    using Update_all [OF assms(1) less.prems(1)] by blast
  have same: "wanted v' = wanted v" using u(3) by (simp add: wanted_def fun_eq_iff)
  let ?it = "it\<lparr>it_index := it_index it + 1\<rparr>"
  have go: "\<not> Iterator_equal it stop" using less.prems(2) assms(5) by (simp add: Iterator_equal_def)
  show ?case
  proof (cases res)
    case None
    have "viewer_loop c (?it\<lparr>it_end := True\<rparr>) stop v' = Some []"
      using assms(5) by (subst viewer_loop.simps) (simp add: Iterator_equal_def)
    then show ?thesis
      using go u(1,4) less.prems(3) None by (subst viewer_loop.simps) (simp add: Iterator_next_def Iterator_update_def)
  next
    case (Some m')
    have "length (filter (wanted v') (pending v' mss)) < length (filter (wanted v) (pending v mss))" using u(4) Some same by simp
    from less.hyps [OF this u(2), of "?it\<lparr>it_message := Some m'\<rparr>" m'] less.prems(2)
    have "viewer_loop c (?it\<lparr>it_message := Some m'\<rparr>) stop v' = Some (m' # filter (wanted v) (pending v' mss))" by (simp add: same)
    then show ?thesis
      using go u(1,4) less.prems(3) Some by (subst viewer_loop.simps) (simp add: Iterator_next_def Iterator_update_def)
  qed
qed

section \<open>A whole loop over a viewer\<close>

text \<open>A reader of a file with the messages \<open>ms\<close>, wherever it stands.\<close>

definition reader_of :: "section_codec \<Rightarrow> RecordReader \<Rightarrow> SingleMessage list \<Rightarrow> bool" where
  "reader_of c rr ms \<longleftrightarrow> holds c (RecordReader_Reset rr) ms \<and>
     (\<forall>m \<in> set ms. rr_is_valid rr \<and> hd_begin_time (rr_header rr) \<le> rm_time m \<and> rm_time m \<le> hd_end_time (rr_header rr))"

lemma Reset_viewer_ok:
  assumes "list_all2 (reader_of c) (vw_readers v) mss" and "length (vw_readers_finished v) = length (vw_readers v)" and "vw_end_time v < 2 ^ 63"
  shows "viewer_ok c (RecordViewer_Reset v) mss"
proof -
  have "source c t (False, RecordReader_Reset rr) ms" if "reader_of c rr ms" for t rr ms
  proof -
    have "\<exists>pre L. ms = pre @ L \<and> stale t pre \<and> holds c (RecordReader_Reset rr) L"
      using that by (intro exI [of _ "[]"] exI [of _ ms]) (simp add: reader_of_def)
    then show ?thesis using that by (simp add: source_def reader_of_def RecordReader_Reset_def)
  qed
  then have "list_all2 (source c t) (map (\<lambda>rr. (False, RecordReader_Reset rr)) (vw_readers v)) mss" for t
    using assms(1) by (simp add: list.rel_map) (rule list.rel_mono_strong)
  moreover have "zip (map (\<lambda>_. False) (vw_readers_finished v)) (map RecordReader_Reset (vw_readers v)) =
      map (\<lambda>rr. (False, RecordReader_Reset rr)) (vw_readers v)"
    using assms(2) by (intro nth_equalityI) simp_all
  ultimately show ?thesis using assms(2,3) by (simp add: viewer_ok_def RecordViewer_Reset_def)
qed

lemma viewer_messages_all:
  assumes "codec_ok c" and "list_all2 (reader_of c) (vw_readers v) mss" and "length (vw_readers_finished v) = length (vw_readers v)"
    and "vw_end_time v < 2 ^ 63"
  shows "viewer_messages c v =
    Some (filter (wanted v) (sort_key rm_time (filter (in_window (vw_begin_time v) (vw_end_time v)) (concat mss))))"
proof -
  let ?v = "RecordViewer_Reset v" and ?stop = "\<lparr>it_end = True, it_index = 0, it_viewer = 0, it_message = None\<rparr>"
  let ?it = "\<lparr>it_end = False, it_index = 0, it_viewer = 0, it_message = None\<rparr>"
  have ok: "viewer_ok c ?v mss" by (rule Reset_viewer_ok [OF assms(2-4)])
  have pending: "pending ?v mss = sort_key rm_time (filter (in_window (vw_begin_time v) (vw_end_time v)) (concat mss))"
    by (simp add: pending_def RecordViewer_Reset_def)
  have same: "wanted ?v = wanted v" by (simp add: wanted_def RecordViewer_Reset_def fun_eq_iff)
  have ended: "viewer_loop c (it\<lparr>it_end := True\<rparr>) ?stop v' = Some []" for it v'
    by (subst viewer_loop.simps) (simp add: Iterator_equal_def)
  show ?thesis
  proof (cases "RecordViewer_IsValid ?v")
    case False
    then have "viewer_messages c v = Some []"
      using ended [of ?it ?v] by (simp add: viewer_messages_def Iterator_ctor_def Let_def)
    moreover have "filter (in_window (vw_begin_time v) (vw_end_time v)) (concat mss) = []"
      using False by (intro window_empty) (simp add: RecordViewer_IsValid_def RecordViewer_Reset_def)
    ultimately show ?thesis by simp
  next
    case True
    obtain res v' where u: "RecordViewer_Update c ?v = Some (res, v')" "viewer_ok c v' mss" "vw_channels v' = vw_channels ?v"
        "filter (wanted ?v) (pending ?v mss) = (case res of None \<Rightarrow> [] | Some m \<Rightarrow> m # filter (wanted ?v) (pending v' mss))"
      using Update_all [OF assms(1) ok] by blast
    have same': "wanted v' = wanted ?v" using u(3) by (simp add: wanted_def fun_eq_iff)
    show ?thesis
    proof (cases res)
      case None
      then have "viewer_messages c v = Some []"
        using True u(1) ended [of ?it v'] by (simp add: viewer_messages_def Iterator_ctor_def Iterator_update_def Let_def)
      then show ?thesis using u(4) None by (simp add: pending same)
    next
      case (Some m)
      have "viewer_loop c (?it\<lparr>it_message := Some m\<rparr>) ?stop v' = Some (m # filter (wanted v') (pending v' mss))"
        by (rule viewer_loop_all [OF assms(1) u(2)]) simp_all
      then have "viewer_messages c v = Some (filter (wanted ?v) (pending ?v mss))"
        using True u(1,4) Some same' by (simp add: viewer_messages_def Iterator_ctor_def Iterator_update_def Let_def)
      then show ?thesis by (simp add: pending same)
    qed
  qed
qed

text \<open>The constructor narrows the window to the times of the files, which changes nothing for their messages.\<close>

lemma UpdateTime_bounds:
  assumes "fold UpdateTime_step rs (lo, hi) = (lo', hi')"
  shows "lo' \<le> lo" and "hi \<le> hi'"
    and "\<forall>rr \<in> set rs. rr_is_valid rr \<longrightarrow> lo' \<le> hd_begin_time (rr_header rr) \<and> hd_end_time (rr_header rr) \<le> hi'"
    and "hi < t \<Longrightarrow> \<forall>rr \<in> set rs. hd_end_time (rr_header rr) < t \<Longrightarrow> hi' < t"
proof -
  have "lo' \<le> lo \<and> hi \<le> hi' \<and>
      (\<forall>rr \<in> set rs. rr_is_valid rr \<longrightarrow> lo' \<le> hd_begin_time (rr_header rr) \<and> hd_end_time (rr_header rr) \<le> hi') \<and>
      (hi < t \<longrightarrow> (\<forall>rr \<in> set rs. hd_end_time (rr_header rr) < t) \<longrightarrow> hi' < t)"
    using assms
  proof (induction rs arbitrary: lo hi)
    case (Cons rr rs)
    obtain lo1 hi1 where one: "UpdateTime_step rr (lo, hi) = (lo1, hi1)" by fastforce
    then have "lo1 \<le> lo" "hi \<le> hi1" "rr_is_valid rr \<longrightarrow> lo1 \<le> hd_begin_time (rr_header rr) \<and> hd_end_time (rr_header rr) \<le> hi1"
        "hi < t \<longrightarrow> hd_end_time (rr_header rr) < t \<longrightarrow> hi1 < t"
      by (auto simp: UpdateTime_step_def not_less split: if_splits)
    moreover have "fold UpdateTime_step rs (lo1, hi1) = (lo', hi')" using Cons.prems one by simp
    from Cons.IH [OF this] have "lo' \<le> lo1 \<and> hi1 \<le> hi' \<and>
      (\<forall>rr \<in> set rs. rr_is_valid rr \<longrightarrow> lo' \<le> hd_begin_time (rr_header rr) \<and> hd_end_time (rr_header rr) \<le> hi') \<and>
      (hi1 < t \<longrightarrow> (\<forall>rr \<in> set rs. hd_end_time (rr_header rr) < t) \<longrightarrow> hi' < t)" .
    ultimately show ?case by (auto intro: order.trans)
  qed simp
  then show "lo' \<le> lo" "hi \<le> hi'"
    "\<forall>rr \<in> set rs. rr_is_valid rr \<longrightarrow> lo' \<le> hd_begin_time (rr_header rr) \<and> hd_end_time (rr_header rr) \<le> hi'"
    "hi < t \<Longrightarrow> \<forall>rr \<in> set rs. hd_end_time (rr_header rr) < t \<Longrightarrow> hi' < t" by blast+
qed

lemma ctor_viewer_messages:
  assumes "codec_ok c" and "list_all2 (reader_of c) (std_sort reader_before readers) mss" and "length (std_sort reader_before readers) = length readers"
    and "\<forall>rr \<in> set (std_sort reader_before readers). hd_end_time (rr_header rr) < 2 ^ 63"
  shows "viewer_messages c (RecordViewer_ctor std_sort readers b e channels) =
    Some (filter (\<lambda>m. channels = {} \<or> rm_channel_name m \<in> channels) (sort_key rm_time (filter (in_window b e) (concat mss))))"
proof -
  obtain lo hi where bounds: "fold UpdateTime_step (std_sort reader_before readers) (- 1, 0) = (lo, hi)" by fastforce
  note u = UpdateTime_bounds [OF bounds]
  let ?v = "RecordViewer_ctor std_sort readers b e channels"
  have v: "vw_readers ?v = std_sort reader_before readers" "vw_readers_finished ?v = replicate (length readers) False" "vw_channels ?v = channels"
      "vw_begin_time ?v = (if b < lo then lo else b)" "vw_end_time ?v = (if e > hi then hi else e)"
    using bounds by (simp_all add: RecordViewer_ctor_def RecordViewer_Init_def RecordViewer_UpdateTime_def Let_def)
  have "hi < 2 ^ 63" using u(4) [OF _ assms(4)] by simp
  then have small: "vw_end_time ?v < 2 ^ 63" using v(5) by auto
  have inside: "lo \<le> rm_time m \<and> rm_time m \<le> hi" if m: "m \<in> set (concat mss)" for m
  proof -
    obtain ms where "ms \<in> set mss" "m \<in> set ms" using m by auto
    then obtain rr where "rr \<in> set (std_sort reader_before readers)" "reader_of c rr ms"
      using assms(2) unfolding list_all2_conv_all_nth in_set_conv_nth by metis
    then show ?thesis using u(3) \<open>m \<in> set ms\<close> unfolding reader_of_def by (meson order.trans)
  qed
  have "filter (in_window (vw_begin_time ?v) (vw_end_time ?v)) (concat mss) = filter (in_window b e) (concat mss)"
  proof (intro filter_cong refl)
    fix m assume "m \<in> set (concat mss)"
    from inside [OF this] show "in_window (vw_begin_time ?v) (vw_end_time ?v) m = in_window b e m"
      unfolding v(4,5) in_window_def by (auto simp: not_less)
  qed
  moreover have "viewer_messages c ?v = Some (filter (wanted ?v)
      (sort_key rm_time (filter (in_window (vw_begin_time ?v) (vw_end_time ?v)) (concat mss))))"
    by (rule viewer_messages_all [OF assms(1) _ _ small]) (simp_all add: v assms(2,3))
  moreover have "wanted ?v = (\<lambda>m. channels = {} \<or> rm_channel_name m \<in> channels)" by (simp add: wanted_def v(3) fun_eq_iff)
  ultimately show ?thesis by simp
qed

end
