(* ===== verification/Record_System.thy ===== *)
theory Record_System
  imports Record_Codec Record_Viewer
begin

text \<open>
  The properties of record files that span the writer, the reader and the viewer: the round trip of a recording, the view of several
  recordings in one order of time, the conservation of messages under every schedule of the flush thread, and what goes
  wrong when the flush thread falls behind.
\<close>

section \<open>The round trip\<close>

lemma index_numbers_entry:
  assumes "index_numbers ns i = j" and "si_cache i = fresh_cache ch" and "si_type i = SECTION_CHANNEL" and "si_cache j = Channel_cache cc"
  shows "chc_name cc = chn_name ch" and "chc_message_number cc = (case ns (chn_name ch) of None \<Rightarrow> 0 | Some n \<Rightarrow> n)"
  using assms by (auto simp: index_numbers_def fresh_cache_def split: option.splits)

lemma reader_numbers:
  assumes "counts_ok w ms chs"
    and "filter (\<lambda>i. si_type i = SECTION_CHANNEL) ids = map (index_numbers (fw_numbers w)) (filter (\<lambda>i. si_type i = SECTION_CHANNEL) (fw_index w))"
    and "rr_channel_info rr = channel_entries ids" and "ch \<in> set chs"
  shows "Reader_GetMessageNumber (chn_name ch) rr = of_nat (number_of (chn_name ch) ms)"
proof -
  let ?is = "filter (\<lambda>i. si_type i = SECTION_CHANNEL) (fw_index w)"
  have caches: "map si_cache ?is = map fresh_cache chs" using assms(1) by (simp add: counts_ok_def channel_caches_def)
  have entry: "\<exists>i ch'. i \<in> set ?is \<and> ch' \<in> set chs \<and> si_cache i = fresh_cache ch' \<and> j = index_numbers (fw_numbers w) i"
    if "j \<in> set ids" "si_type j = SECTION_CHANNEL" for j
  proof -
    have "j \<in> set (filter (\<lambda>i. si_type i = SECTION_CHANNEL) ids)" using that by simp
    then obtain i where i: "i \<in> set ?is" "j = index_numbers (fw_numbers w) i" unfolding assms(2) by auto
    then have "si_cache i \<in> set (map fresh_cache chs)" unfolding caches [symmetric] by auto
    then show ?thesis using i by auto
  qed
  have number: "(case fw_numbers w x of None \<Rightarrow> 0 | Some n \<Rightarrow> n) = of_nat (number_of x ms)" for x
    using assms(1) by (simp add: counts_ok_def)
  have same: "\<forall>i \<in> set ids. si_type i = SECTION_CHANNEL \<longrightarrow>
      (\<forall>cc. si_cache i = Channel_cache cc \<longrightarrow> chc_name cc = chn_name ch \<longrightarrow> chc_message_number cc = of_nat (number_of (chn_name ch) ms))"
  proof (intro ballI impI allI)
    fix j cc assume j: "j \<in> set ids" "si_type j = SECTION_CHANNEL" "si_cache j = Channel_cache cc" "chc_name cc = chn_name ch"
    obtain i ch' where i: "i \<in> set ?is" "si_cache i = fresh_cache ch'" "j = index_numbers (fw_numbers w) i" using entry [OF j(1,2)] by blast
    then show "chc_message_number cc = of_nat (number_of (chn_name ch) ms)"
      using index_numbers_entry [OF i(3) [symmetric] i(2) _ j(3)] number j(4) by auto
  qed
  have "fresh_cache ch \<in> set (map si_cache ?is)" unfolding caches using assms(4) by simp
  then obtain i where i: "i \<in> set ?is" "si_cache i = fresh_cache ch" by auto
  let ?j = "index_numbers (fw_numbers w) i"
  have "?j \<in> set (filter (\<lambda>i. si_type i = SECTION_CHANNEL) ids)" unfolding assms(2) using i(1) by simp
  moreover have "\<exists>cc. si_cache ?j = Channel_cache cc \<and> chc_name cc = chn_name ch"
    using i by (auto simp: index_numbers_def fresh_cache_def split: option.splits)
  ultimately have "\<exists>i \<in> set ids. \<exists>cc. si_type i = SECTION_CHANNEL \<and> si_cache i = Channel_cache cc \<and> chc_name cc = chn_name ch" by auto
  from channel_entries_lookup [OF same this] show ?thesis by (auto simp: Reader_GetMessageNumber_def assms(3))
qed

text \<open>A recording whose flush thread keeps up, closed.\<close>

definition recording :: "section_codec \<Rightarrow> Header \<Rightarrow> record_op list \<Rightarrow> RecordFileWriter" where
  "recording c h ops = RecordFileWriter_Close c (fold (record_step c) ops (start_recording c new_file h))"

lemma recording_closed:
  assumes "codec_ok c" and "hd_begin_time h = 0" and "hd_end_time h = 0" and "in_order (op_messages ops)" and "length (op_messages ops) < 2 ^ 64"
  obtains hf secs where "file_holds c (fw_file (recording c h ops)) hf secs (fw_index (recording c h ops))"
    and "body_messages secs = op_messages ops" and "times_ok hf (op_messages ops)"
    and "filter (\<lambda>i. si_type i = SECTION_CHANNEL) (fw_index (recording c h ops)) =
        map (index_numbers (fw_numbers (fold (record_step c) ops (start_recording c new_file h))))
          (filter (\<lambda>i. si_type i = SECTION_CHANNEL) (fw_index (fold (record_step c) ops (start_recording c new_file h))))"
proof -
  note start = start_recording_holds [OF assms(1-3)]
  have "writer_holds c (fold (record_step c) ops (start_recording c new_file h)) (op_messages ops)"
    using record_run_holds [OF start(1), of ops] assms(4,5) by simp
  from Close_file_holds [OF this assms(1)] show ?thesis using that unfolding recording_def by blast
qed

lemma recording_reader:
  fixes r0 :: RecordFileReader
  assumes "codec_ok c" and "hd_begin_time h = 0" and "hd_end_time h = 0" and "in_order (op_messages ops)" and "length (op_messages ops) < 2 ^ 64"
    and "length (fl_bytes (fw_file (recording c h ops))) < 2 ^ 31"
  defines "rr \<equiv> RecordReader_ctor c (Some (fw_file (recording c h ops))) r0"
  shows "reader_holds c rr (op_messages ops)" and "rr_channel_info rr = channel_entries (fw_index (recording c h ops))"
    and "times_ok (rr_header rr) (op_messages ops)"
proof -
  obtain hf secs where fl: "file_holds c (fw_file (recording c h ops)) hf secs (fw_index (recording c h ops))"
      "body_messages secs = op_messages ops" "times_ok hf (op_messages ops)"
    using recording_closed [OF assms(1-5)] by metis
  have "in_order (body_messages secs)" "times_ok hf (body_messages secs)" using fl(2,3) assms(4) by simp_all
  note reader = RecordReader_ctor_holds [OF fl(1) assms(1,6) this, where ?r0.0 = r0]
  show "reader_holds c rr (op_messages ops)" "rr_channel_info rr = channel_entries (fw_index (recording c h ops))"
    "times_ok (rr_header rr) (op_messages ops)"
    using reader fl(2,3) unfolding rr_def by simp_all
qed

text \<open>
  C21: A recording is read back exactly. Whatever channels and messages are recorded into a new file, if the flush thread keeps up, a
  reader of the closed file delivers, for every window of time, exactly the messages of the window in the order of recording,
  then reports the end, and knows the number of messages of every channel. The times must not be zero nor decrease, the
  file must stay below 2 GB, and the serialization must be one that can be parsed.
\<close>

theorem record_roundtrip:
  assumes "codec_ok c" and "hd_begin_time h = 0" and "hd_end_time h = 0" and "in_order (op_messages ops)"
    and "length (op_messages ops) < 2 ^ 64"
    and "length (fl_bytes (fw_file (recording c h ops))) < 2 ^ 31" and "rr = RecordReader_ctor c (Some (fw_file (recording c h ops))) r0"
  shows "read_window c b e (Suc (length (filter (in_window b e) (op_messages ops)))) rr =
      map Some (filter (in_window b e) (op_messages ops)) @ [None] \<and>
    map (\<lambda>ch. Reader_GetMessageNumber (chn_name ch) rr) (op_channels ops) =
      map (\<lambda>ch. of_nat (number_of (chn_name ch) (op_messages ops))) (op_channels ops)"
proof -
  let ?w0 = "start_recording c new_file h" and ?ms = "op_messages ops"
  note start = start_recording_holds [OF assms(1-3)]
  have "counts_ok ?w0 [] []" using start(2,3) by (simp add: counts_ok_def channel_caches_def number_of_def)
  then have counts: "counts_ok (fold (record_step c) ops ?w0) ?ms (op_channels ops)"
    using record_run_counts [OF start(1), of ops "[]"] assms(4,5) by simp
  note reader = recording_reader [OF assms(1-6), where ?r0.0 = r0, folded assms(7)]
  have "filter (\<lambda>i. si_type i = SECTION_CHANNEL) (fw_index (recording c h ops)) =
      map (index_numbers (fw_numbers (fold (record_step c) ops ?w0)))
        (filter (\<lambda>i. si_type i = SECTION_CHANNEL) (fw_index (fold (record_step c) ops ?w0)))"
    using recording_closed [OF assms(1-5)] by metis
  from reader_numbers [OF counts this reader(2)] show ?thesis using read_window_all [OF assms(1) reader(1), of b e] by simp
qed

text \<open>A recording of one channel with two messages.\<close>

definition example_channel :: Channel where
  "example_channel = \<lparr>chn_name = ''a'', chn_message_type = ''T'', chn_proto_desc = []\<rparr>"

definition example_message :: "64 word \<Rightarrow> SingleMessage" where
  "example_message t = \<lparr>rm_channel_name = ''a'', rm_time = t, rm_content = [1, 2, 3]\<rparr>"

definition example_ops :: "record_op list" where
  "example_ops = [Op_channel example_channel, Op_message (example_message 5), Op_message (example_message 7)]"

lemma example_length:
  "length (fl_bytes (fw_file (recording plain_codec HeaderBuilder_GetHeader example_ops))) < 2 ^ 31"
proof -
  have header: "length (header_block plain_codec h) = 2064" for h by (rule length_header_block [OF plain_codec_ok])
  have sec: "length (sec_bytes plain_codec m) = 16 + length (plain_ser m)" for m by (simp add: sec_bytes_def plain_codec_def)
  show ?thesis
    unfolding recording_def example_ops_def start_recording_def
    by (simp add: RecordFileWriter_Open_def RecordFileWriter_ctor_def new_file_def WriteHeader_eval plain_codec_ok
        FileWriter_WriteChannel_def FileWriter_WriteMessage_def WriteSection_end header sec Flush_once_def Chunk_empty_def
        Chunk_ctor_def Chunk_clear_def Chunk_add_def need_flush_def swap_chunks_def RecordFileWriter_Close_def WriteChunk_def WriteIndex_def
        HeaderBuilder_GetHeader_def base_header_def example_channel_def example_message_def
        enc_channel_def enc_list_def enc_char_def enc_chunk_header_def enc_message_def enc_index_def index_numbers_def Let_def)
qed

definition new_reader :: RecordFileReader where
  "new_reader = \<lparr>fr_file = new_file, fr_header = base_header, fr_index = [], fr_end_of_file = False\<rparr>"

lemma example_ops_ok: "in_order (op_messages example_ops)" "length (op_messages example_ops) < 2 ^ 64"
    "hd_begin_time HeaderBuilder_GetHeader = 0" "hd_end_time HeaderBuilder_GetHeader = 0"
    "op_messages example_ops = [example_message 5, example_message 7]"
  by (simp_all add: example_ops_def in_order_def example_message_def HeaderBuilder_GetHeader_def base_header_def)

theorem record_roundtrip_witness:
  "read_window plain_codec 6 9 2 (RecordReader_ctor plain_codec
     (Some (fw_file (recording plain_codec HeaderBuilder_GetHeader example_ops))) new_reader) = [Some (example_message 7), None]"
proof -
  have window: "filter (in_window 6 9) (op_messages example_ops) = [example_message 7]"
    by (simp add: example_ops_ok(5) in_window_def example_message_def)
  show ?thesis
    using record_roundtrip [OF plain_codec_ok example_ops_ok(3,4,1,2) example_length refl, of 6 9 new_reader]
    unfolding window by (simp add: numeral_2_eq_2)
qed

section \<open>The view of several recordings\<close>







section \<open>Any schedule of the flush thread\<close>

text \<open>The recorder and the flush thread take turns in any order.\<close>

datatype sched_op = Recorder record_op | Flusher

fun sched_step :: "section_codec \<Rightarrow> sched_op \<Rightarrow> RecordFileWriter \<Rightarrow> RecordFileWriter" where
  "sched_step c (Recorder (Op_channel ch)) w = snd (FileWriter_WriteChannel c ch w)"
| "sched_step c (Recorder (Op_message m)) w = snd (FileWriter_WriteMessage m w)"
| "sched_step c Flusher w = Flush_once c w"

fun sched_messages :: "sched_op list \<Rightarrow> SingleMessage list" where
  "sched_messages [] = []"
| "sched_messages (Recorder (Op_message m) # ops) = m # sched_messages ops"
| "sched_messages (Recorder (Op_channel ch) # ops) = sched_messages ops"
| "sched_messages (Flusher # ops) = sched_messages ops"

definition chunk_counted :: "Chunk \<Rightarrow> bool" where
  "chunk_counted ch \<longleftrightarrow> chh_message_number (chk_header ch) = of_nat (length (chk_body ch))"

text \<open>Every message written is in the file, in the chunk to be flushed or in the active one.\<close>

definition writer_keeps :: "section_codec \<Rightarrow> RecordFileWriter \<Rightarrow> SingleMessage list \<Rightarrow> bool" where
  "writer_keeps c w ms \<longleftrightarrow> fw_is_writing w \<and> chunk_counted (fw_chunk_active w) \<and> chunk_counted (fw_chunk_flush w) \<and>
     (\<exists>secs. writer_at c w secs \<and> hd_message_number (fw_header w) = of_nat (length (body_messages secs)) \<and>
        mset (body_messages secs @ chk_body (fw_chunk_flush w) @ chk_body (fw_chunk_active w)) = mset ms)"

lemma counted_empty: "chunk_counted ch \<Longrightarrow> length (chk_body ch) < 2 ^ 64 \<Longrightarrow> Chunk_empty ch \<longleftrightarrow> chk_body ch = []"
  by (simp add: chunk_counted_def Chunk_empty_def of_nat_64_eq_0 del: of_nat_eq_0_iff)

lemma counted_simps [simp]: "chunk_counted (Chunk_clear ch)" "chunk_counted Chunk_ctor" "chunk_counted ch \<Longrightarrow> chunk_counted (Chunk_add m ch)"
    "chk_body (Chunk_add m ch) = chk_body ch @ [m]"
  by (simp_all add: chunk_counted_def Chunk_clear_def Chunk_ctor_def Chunk_add_def Let_def add.commute)

lemma Flush_once_keeps_messages:
  assumes "writer_keeps c w ms" and "length ms < 2 ^ 64"
  shows "writer_keeps c (Flush_once c w) ms" and "chk_body (fw_chunk_flush (Flush_once c w)) = []"
    and "fw_chunk_active (Flush_once c w) = fw_chunk_active w"
proof -
  let ?ch = "chk_header (fw_chunk_flush w)" and ?body = "chk_body (fw_chunk_flush w)"
  obtain secs where w: "fw_is_writing w" "chunk_counted (fw_chunk_active w)" "chunk_counted (fw_chunk_flush w)" "writer_at c w secs"
      "hd_message_number (fw_header w) = of_nat (length (body_messages secs))"
      "mset (body_messages secs @ ?body @ chk_body (fw_chunk_active w)) = mset ms"
    using assms(1) unfolding writer_keeps_def by blast
  have "length (body_messages secs @ ?body @ chk_body (fw_chunk_active w)) = length ms" using w(6) by (metis size_mset)
  then have empty: "Chunk_empty (fw_chunk_flush w) \<longleftrightarrow> ?body = []" using assms(2) counted_empty [OF w(3)] by simp
  have "writer_keeps c (Flush_once c w) ms \<and> chk_body (fw_chunk_flush (Flush_once c w)) = [] \<and>
      fw_chunk_active (Flush_once c w) = fw_chunk_active w"
  proof (cases "?body = []")
    case True
    then show ?thesis using empty assms(1) by (simp add: Flush_once_def)
  next
    case False
    obtain w' where w': "WriteChunk c ?ch ?body w = (True, w')" "writer_at c w' (secs @ [Sec_ChunkHeader ?ch, Sec_ChunkBody ?body])"
        "hd_message_number (fw_header w') = hd_message_number (fw_header w) + chh_message_number ?ch"
        "fw_chunk_active w' = fw_chunk_active w" "fw_is_writing w' = fw_is_writing w"
      using WriteChunk_appends [OF w(4), of ?ch ?body] by metis
    have flush: "Flush_once c w = w'\<lparr>fw_chunk_flush := Chunk_clear (fw_chunk_flush w')\<rparr>"
      using w'(1) False empty w(1) by (simp add: Flush_once_def)
    have "chh_message_number ?ch = of_nat (length ?body)" using w(3) by (simp add: chunk_counted_def)
    then show ?thesis
      using w(1,2,5,6) w'(2-5) unfolding writer_keeps_def flush
      by (auto simp: add.assoc intro!: exI [of _ "secs @ [Sec_ChunkHeader ?ch, Sec_ChunkBody ?body]"])
  qed
  then show "writer_keeps c (Flush_once c w) ms" "chk_body (fw_chunk_flush (Flush_once c w)) = []"
    "fw_chunk_active (Flush_once c w) = fw_chunk_active w" by simp_all
qed

lemma swap_keeps: "writer_keeps c w ms \<Longrightarrow> writer_keeps c (swap_chunks w) ms"
  unfolding writer_keeps_def swap_chunks_def by (auto simp: add.commute add.left_commute)

lemma WriteMessage_keeps: "writer_keeps c w ms \<Longrightarrow> writer_keeps c (snd (FileWriter_WriteMessage m w)) (ms @ [m])"
proof -
  assume "writer_keeps c w ms"
  then have "writer_keeps c (w\<lparr>fw_chunk_active := Chunk_add m (fw_chunk_active w), fw_numbers := ns\<rparr>) (ms @ [m])" for ns
    unfolding writer_keeps_def by (auto simp: add.assoc)
  then show ?thesis using swap_keeps by (auto simp: FileWriter_WriteMessage_def Let_def)
qed

lemma WriteChannel_keeps:
  assumes "writer_keeps c w ms"
  shows "writer_keeps c (snd (FileWriter_WriteChannel c ch w)) ms"
proof -
  obtain secs where w: "writer_at c w secs" "hd_message_number (fw_header w) = of_nat (length (body_messages secs))"
      "mset (body_messages secs @ chk_body (fw_chunk_flush w) @ chk_body (fw_chunk_active w)) = mset ms"
    using assms unfolding writer_keeps_def by blast
  obtain f z where s: "WriteSection c (Sec_Channel ch) w = (True, w\<lparr>fw_file := f, fw_header := (fw_header w)\<lparr>hd_size := z\<rparr>\<rparr>)"
      "writer_at c (w\<lparr>fw_file := f, fw_header := (fw_header w)\<lparr>hd_size := z\<rparr>\<rparr>) (secs @ [Sec_Channel ch])"
    using WriteSection_appends [OF w(1), of "Sec_Channel ch", unfolded section_type.simps, OF SectionType.distinct(8)] by blast
  then show ?thesis
    using assms w unfolding writer_keeps_def
    by (auto simp: FileWriter_WriteChannel_def Let_def writer_at_def intro!: exI [of _ "secs @ [Sec_Channel ch]"])
qed

lemma sched_run_keeps:
  assumes "writer_keeps c w ms" and "length ms + length (sched_messages ops) < 2 ^ 64"
  shows "writer_keeps c (fold (sched_step c) ops w) (ms @ sched_messages ops)"
  using assms
proof (induction ops arbitrary: w ms rule: sched_messages.induct)
  case (2 m ops)
  from 2(1) [OF WriteMessage_keeps [OF 2(2)]] show ?case using 2(3) by simp
next
  case (3 ch ops)
  from 3(1) [OF WriteChannel_keeps [OF 3(2)]] show ?case using 3(3) by simp
next
  case (4 ops)
  have "length ms < 2 ^ 64" using 4(3) by simp
  from 4(1) [OF Flush_once_keeps_messages(1) [OF 4(2) this]] show ?case using 4(3) by simp
qed simp

lemma start_recording_simps:
  assumes "codec_ok c"
  shows "writer_at c (start_recording c new_file h) []" and "fw_is_writing (start_recording c new_file h)"
    and "fw_chunk_active (start_recording c new_file h) = Chunk_ctor" and "fw_chunk_flush (start_recording c new_file h) = Chunk_ctor"
    and "fw_header (start_recording c new_file h) = h\<lparr>hd_size := 2064\<rparr>"
proof -
  let ?w = "snd (RecordFileWriter_Open (Some new_file) (RecordFileWriter_ctor base_header))"
  have w: "fl_limit (fw_file ?w) = None" "fl_bytes (fw_file ?w) = []"
    by (simp_all add: RecordFileWriter_Open_def new_file_def)
  have eq: "start_recording c new_file h =
      ?w\<lparr>fw_file := (fw_file ?w)\<lparr>fl_bytes := header_block c h, fl_pos := 2064\<rparr>, fw_header := h\<lparr>hd_size := 2064\<rparr>\<rparr>"
    using WriteHeader_eval [OF w(1) assms(1), of h] w(2) by (simp add: start_recording_def)
  show "writer_at c (start_recording c new_file h) []"
    unfolding eq writer_at_def using w(1) length_header_block [OF assms(1), of h] by auto
  show "fw_is_writing (start_recording c new_file h)" "fw_chunk_active (start_recording c new_file h) = Chunk_ctor"
      "fw_chunk_flush (start_recording c new_file h) = Chunk_ctor" "fw_header (start_recording c new_file h) = h\<lparr>hd_size := 2064\<rparr>"
    unfolding eq by (simp_all add: RecordFileWriter_Open_def)
qed

lemma start_recording_keeps:
  assumes "codec_ok c" and "hd_message_number h = 0"
  shows "writer_keeps c (start_recording c new_file h) []"
  unfolding writer_keeps_def using start_recording_simps [OF assms(1), of h] assms(2) by (intro conjI exI [of _ "[]"]) simp_all

text \<open>
  C32: No message is lost or duplicated, whatever the schedule of the flush thread: the closed file is complete, consists of a header, the
  sections and the index, its chunks hold exactly the messages written, and the header counts them.
\<close>

theorem record_keeps_all_messages:
  assumes "codec_ok c" and "hd_message_number h = 0" and "length (sched_messages ops) < 2 ^ 64"
    and "w = RecordFileWriter_Close c (fold (sched_step c) ops (start_recording c new_file h))"
  shows "\<exists>hf secs. fl_bytes (fw_file w) = header_block c hf @ secs_bytes c (secs @ [Sec_Index (fw_index w)]) \<and> hd_is_complete hf \<and>
    mset (body_messages secs) = mset (sched_messages ops) \<and> hd_message_number hf = of_nat (length (sched_messages ops))"
proof -
  let ?w0 = "start_recording c new_file h" and ?ms = "sched_messages ops"
  let ?w = "fold (sched_step c) ops ?w0"
  have keeps: "writer_keeps c ?w ?ms"
    using sched_run_keeps [OF start_recording_keeps [OF assms(1,2)], of ops] assms(3) by simp
  note first = Flush_once_keeps_messages [OF keeps assms(3)]
  note second = Flush_once_keeps_messages [OF swap_keeps [OF first(1)] assms(3)]
  let ?w1 = "Flush_once c (swap_chunks (Flush_once c ?w))"
  have "chk_body (fw_chunk_active ?w1) = []" using first(2) second(3) by (simp add: swap_chunks_def)
  then obtain secs where s: "writer_at c ?w1 secs" "hd_message_number (fw_header ?w1) = of_nat (length (body_messages secs))"
      "mset (body_messages secs) = mset ?ms"
    using second(1,2) unfolding writer_keeps_def by auto
  have "fw_is_writing ?w" using keeps by (simp add: writer_keeps_def)
  from Close_layout [OF this s(1) assms(1)] obtain z where l: "fl_bytes (fw_file w) =
       header_block c ((fw_header ?w1)\<lparr>hd_index_position := of_nat (2064 + length (secs_bytes c secs)), hd_size := z, hd_is_complete := True\<rparr>) @
       secs_bytes c (secs @ [Sec_Index (fw_index w)])"
    unfolding assms(4) by metis
  have "length (body_messages secs) = length ?ms" using s(3) by (metis size_mset)
  then show ?thesis using l s(2,3) by fastforce
qed

theorem record_keeps_all_messages_witness:
  "\<exists>hf secs. fl_bytes (fw_file (RecordFileWriter_Close plain_codec (fold (sched_step plain_codec) [Recorder (Op_message (example_message 5)), Flusher]
      (start_recording plain_codec new_file HeaderBuilder_GetHeader)))) =
    header_block plain_codec hf @ secs_bytes plain_codec (secs @ [Sec_Index (fw_index (RecordFileWriter_Close plain_codec
      (fold (sched_step plain_codec) [Recorder (Op_message (example_message 5)), Flusher] (start_recording plain_codec new_file HeaderBuilder_GetHeader))))]) \<and>
    hd_is_complete hf \<and> mset (body_messages secs) = mset [example_message 5] \<and> hd_message_number hf = 1"
proof -
  let ?ops = "[Recorder (Op_message (example_message 5)), Flusher]"
  have h: "hd_message_number HeaderBuilder_GetHeader = 0" "length (sched_messages ?ops) < 2 ^ 64"
    by (simp_all add: HeaderBuilder_GetHeader_def base_header_def)
  show ?thesis using record_keeps_all_messages [OF plain_codec_ok h refl] by simp
qed

text \<open>
  What the file looks like when the recorder fills two chunks before the flush thread gets its turn: the second swap makes the first
  chunk active again, so the second one is written first.
\<close>

definition late_flush :: "SingleMessage list \<Rightarrow> sched_op list" where
  "late_flush ms = map (\<lambda>m. Recorder (Op_message m)) ms @ [Flusher]"

definition pair_chunk :: "SingleMessage \<Rightarrow> SingleMessage \<Rightarrow> Chunk" where
  "pair_chunk m m' = Chunk_add m' (Chunk_add m Chunk_ctor)"

lemma pair_chunk_simps:
  assumes "0 < rm_time m" and "rm_time m < rm_time m'"
  shows "chk_body (pair_chunk m m') = [m, m']" and "\<not> Chunk_empty (pair_chunk m m')"
    and "chh_begin_time (chk_header (pair_chunk m m')) = rm_time m" and "chh_end_time (chk_header (pair_chunk m m')) = rm_time m'"
  using assms by (auto simp: pair_chunk_def Chunk_add_def Chunk_ctor_def Chunk_empty_def Let_def)

text \<open>Two messages further apart than the chunk interval fill a chunk, which changes places with the other one.\<close>

lemma two_messages_swap:
  assumes "hd_chunk_raw_size (fw_header w) = 0" and "0 < hd_chunk_interval (fw_header w)" and "fw_chunk_active w = Chunk_ctor"
    and "0 < rm_time m" and "rm_time m < rm_time m'" and "hd_chunk_interval (fw_header w) < rm_time m' - rm_time m"
  obtains ns where "snd (FileWriter_WriteMessage m' (snd (FileWriter_WriteMessage m w))) =
    w\<lparr>fw_chunk_flush := pair_chunk m m', fw_chunk_active := fw_chunk_flush w, fw_numbers := ns\<rparr>"
proof -
  have begin1: "chh_begin_time (chk_header (Chunk_add m Chunk_ctor)) = rm_time m"
    by (simp add: Chunk_add_def Chunk_ctor_def Let_def)
  let ?count = "\<lambda>m ns. ns(rm_channel_name m \<mapsto> (case ns (rm_channel_name m) of None \<Rightarrow> 1 | Some n \<Rightarrow> n + 1))"
  let ?w1 = "w\<lparr>fw_chunk_active := Chunk_add m Chunk_ctor, fw_numbers := ?count m (fw_numbers w)\<rparr>"
  have first: "snd (FileWriter_WriteMessage m w) = ?w1"
    using assms(1,3) begin1 by (simp add: FileWriter_WriteMessage_def need_flush_def Let_def)
  have begin2: "chh_begin_time (chk_header (Chunk_add m' (Chunk_add m Chunk_ctor))) = rm_time m"
    using pair_chunk_simps(3) [OF assms(4,5)] by (simp add: pair_chunk_def)
  have second: "snd (FileWriter_WriteMessage m' ?w1) =
      swap_chunks (?w1\<lparr>fw_chunk_active := pair_chunk m m', fw_numbers := ?count m' (fw_numbers ?w1)\<rparr>)"
    using assms(2,6) begin2 by (simp add: FileWriter_WriteMessage_def need_flush_def pair_chunk_def Let_def)
  show ?thesis by (rule that [of "?count m' (fw_numbers ?w1)"]) (unfold first second, simp add: swap_chunks_def)
qed

lemma Flush_once_chunk:
  assumes "writer_at c w secs" and "fw_is_writing w" and "\<not> Chunk_empty (fw_chunk_flush w)"
  shows "writer_at c (Flush_once c w)
      (secs @ [Sec_ChunkHeader (chk_header (fw_chunk_flush w)), Sec_ChunkBody (chk_body (fw_chunk_flush w))])"
    and "hd_begin_time (fw_header (Flush_once c w)) =
      (if hd_begin_time (fw_header w) = 0 then chh_begin_time (chk_header (fw_chunk_flush w)) else hd_begin_time (fw_header w))"
    and "hd_end_time (fw_header (Flush_once c w)) = chh_end_time (chk_header (fw_chunk_flush w))"
    and "fw_is_writing (Flush_once c w)" and "fw_chunk_active (Flush_once c w) = fw_chunk_active w"
    and "Chunk_empty (fw_chunk_flush (Flush_once c w))"
proof -
  obtain w' where w': "WriteChunk c (chk_header (fw_chunk_flush w)) (chk_body (fw_chunk_flush w)) w = (True, w')"
      "writer_at c w' (secs @ [Sec_ChunkHeader (chk_header (fw_chunk_flush w)), Sec_ChunkBody (chk_body (fw_chunk_flush w))])"
      "hd_begin_time (fw_header w') =
        (if hd_begin_time (fw_header w) = 0 then chh_begin_time (chk_header (fw_chunk_flush w)) else hd_begin_time (fw_header w))"
      "hd_end_time (fw_header w') = chh_end_time (chk_header (fw_chunk_flush w))"
      "fw_chunk_active w' = fw_chunk_active w" "fw_is_writing w' = fw_is_writing w"
    using WriteChunk_appends [OF assms(1), of "chk_header (fw_chunk_flush w)" "chk_body (fw_chunk_flush w)"] by metis
  have "Flush_once c w = w'\<lparr>fw_chunk_flush := Chunk_clear (fw_chunk_flush w')\<rparr>"
    using w'(1) assms(2,3) by (simp add: Flush_once_def)
  then show "writer_at c (Flush_once c w)
      (secs @ [Sec_ChunkHeader (chk_header (fw_chunk_flush w)), Sec_ChunkBody (chk_body (fw_chunk_flush w))])"
    "hd_begin_time (fw_header (Flush_once c w)) =
      (if hd_begin_time (fw_header w) = 0 then chh_begin_time (chk_header (fw_chunk_flush w)) else hd_begin_time (fw_header w))"
    "hd_end_time (fw_header (Flush_once c w)) = chh_end_time (chk_header (fw_chunk_flush w))"
    "fw_is_writing (Flush_once c w)" "fw_chunk_active (Flush_once c w) = fw_chunk_active w" "Chunk_empty (fw_chunk_flush (Flush_once c w))"
    using w'(2-6) assms(2) by (simp_all add: Chunk_empty_def Chunk_clear_def)
qed

text \<open>
  When two chunks fill up before the flush thread runs, the chunks change places in the file and its header is wrong: the begin
  time is that of the second chunk and the end time that of the first, so the complete file claims to begin after it ends.
\<close>

theorem late_flush_header:
  assumes "codec_ok c" and "hd_begin_time h = 0" and "hd_chunk_raw_size h = 0" and "0 < hd_chunk_interval h"
    and "0 < rm_time m1" and "rm_time m1 < rm_time m2" and "rm_time m2 < rm_time m3" and "rm_time m3 < rm_time m4"
    and "hd_chunk_interval h < rm_time m2 - rm_time m1" and "hd_chunk_interval h < rm_time m4 - rm_time m3"
    and "w = RecordFileWriter_Close c (fold (sched_step c) (late_flush [m1, m2, m3, m4]) (start_recording c new_file h))"
  shows "\<exists>hf secs. fl_bytes (fw_file w) = header_block c hf @ secs_bytes c (secs @ [Sec_Index (fw_index w)]) \<and> hd_is_complete hf \<and>
    body_messages secs = [m3, m4, m1, m2] \<and> hd_begin_time hf = rm_time m3 \<and> hd_end_time hf = rm_time m2"
proof -
  let ?w0 = "start_recording c new_file h"
  let ?put = "\<lambda>m w. snd (FileWriter_WriteMessage m w)"
  note st = start_recording_simps [OF assms(1), of h]
  obtain n1 where w1: "?put m2 (?put m1 ?w0) = ?w0\<lparr>fw_chunk_flush := pair_chunk m1 m2, fw_chunk_active := Chunk_ctor, fw_numbers := n1\<rparr>"
    using two_messages_swap [of ?w0 m1 m2] assms(3-6,9) st by auto
  let ?w1 = "?w0\<lparr>fw_chunk_flush := pair_chunk m1 m2, fw_chunk_active := Chunk_ctor, fw_numbers := n1\<rparr>"
  have pos3: "0 < rm_time m3" using assms(5-7) by order
  obtain n2 where w2: "?put m4 (?put m3 ?w1) = ?w1\<lparr>fw_chunk_flush := pair_chunk m3 m4, fw_chunk_active := pair_chunk m1 m2, fw_numbers := n2\<rparr>"
    using two_messages_swap [of ?w1 m3 m4] assms(3,4,8,10) st pos3 by auto
  let ?w2 = "?w1\<lparr>fw_chunk_flush := pair_chunk m3 m4, fw_chunk_active := pair_chunk m1 m2, fw_numbers := n2\<rparr>"
  note p = pair_chunk_simps [OF assms(5,6)] and q = pair_chunk_simps [OF pos3 assms(8)]
  have at2: "writer_at c ?w2 []" "fw_is_writing ?w2" "hd_begin_time (fw_header ?w2) = 0" using st assms(2) by simp_all
  have "\<not> Chunk_empty (fw_chunk_flush ?w2)" using q(2) by simp
  note f3 = Flush_once_chunk [OF at2(1,2) this]
  let ?w3 = "Flush_once c ?w2"
  have run: "fold (sched_step c) (late_flush [m1, m2, m3, m4]) ?w0 = ?w3" by (simp add: late_flush_def w1 w2)
  have idle: "Flush_once c ?w3 = ?w3" using f3(6) by (simp add: Flush_once_def)
  let ?s = "swap_chunks ?w3"
  have at4: "writer_at c ?s [Sec_ChunkHeader (chk_header (pair_chunk m3 m4)), Sec_ChunkBody [m3, m4]]" "fw_is_writing ?s"
      "\<not> Chunk_empty (fw_chunk_flush ?s)"
    using f3 p(2) q(1) by (simp_all add: swap_chunks_def)
  note f4 = Flush_once_chunk [OF at4]
  have flush: "fw_chunk_flush ?s = pair_chunk m1 m2" using f3(5) by (simp add: swap_chunks_def)
  have header: "hd_begin_time (fw_header (Flush_once c ?s)) = rm_time m3" "hd_end_time (fw_header (Flush_once c ?s)) = rm_time m2"
    using f4(2,3) f3(2) at2(3) q(3) p(4) pos3 flush by (auto simp: swap_chunks_def)
  let ?secs = "[Sec_ChunkHeader (chk_header (pair_chunk m3 m4)), Sec_ChunkBody [m3, m4],
       Sec_ChunkHeader (chk_header (pair_chunk m1 m2)), Sec_ChunkBody [m1, m2]]"
  have "writer_at c (Flush_once c (swap_chunks (Flush_once c ?w3))) ?secs" using f4(1) flush p(1) idle by simp
  from Close_layout [OF f3(4) this assms(1)] obtain z where l: "fl_bytes (fw_file w) = header_block c
      ((fw_header (Flush_once c ?s))\<lparr>hd_index_position := of_nat (2064 + length (secs_bytes c ?secs)), hd_size := z, hd_is_complete := True\<rparr>) @
      secs_bytes c (?secs @ [Sec_Index (fw_index w)])"
    unfolding assms(11) run idle by metis
  show ?thesis by (rule exI, rule exI [of _ ?secs], intro conjI, rule l) (use header in simp_all)
qed

theorem late_flush_header_witness:
  "\<exists>hf secs. hd_begin_time hf = 5 \<and> hd_end_time hf = 3 \<and>
     body_messages secs = [example_message 5, example_message 7, example_message 1, example_message 3] \<and>
     take 2064 (fl_bytes (fw_file (RecordFileWriter_Close plain_codec (fold (sched_step plain_codec)
       (late_flush [example_message 1, example_message 3, example_message 5, example_message 7])
       (start_recording plain_codec new_file (GetHeaderWithChunkParams 1 0)))))) = header_block plain_codec hf"
proof -
  have h: "hd_begin_time (GetHeaderWithChunkParams 1 0) = 0" "hd_chunk_raw_size (GetHeaderWithChunkParams 1 0) = 0"
    "0 < hd_chunk_interval (GetHeaderWithChunkParams 1 0)" "hd_chunk_interval (GetHeaderWithChunkParams 1 0) = 1"
    by (simp_all add: GetHeaderWithChunkParams_def base_header_def)
  have t: "rm_time (example_message t) = t" for t by (simp add: example_message_def)
  have len: "length (header_block plain_codec hf) = 2064" for hf by (rule length_header_block [OF plain_codec_ok])
  show ?thesis
    using late_flush_header [OF plain_codec_ok h(1-3), of "example_message 1" "example_message 3" "example_message 5"
        "example_message 7", OF _ _ _ _ _ _ refl]
    unfolding h(4) t by (auto simp: len)
qed

end
