(* ===== verification/Frame_Parser.thy ===== *)
theory Frame_Parser
  imports Circular_Buffer Message_Header
begin

unbundle bit_operations_syntax

text \<open>
  \<open>modules/chassis/parser/parser_base_itf.h\<close>, the base class of the device parsers. The driver hands over blocks of bytes of any size;
  they go into the circular buffer, and the parser of the device looks for frames in it. The locale \<open>framing\<close> says how frames are found in a
  stream; \<open>frame_device\<close> adds what one call of a parser does with the bytes in the buffer. The device parsers are its interpretations; the
  locale gives that the frames they deliver do not depend on how the driver cuts the stream.

  An aborted process (\<open>ACHECK\<close>, \<open>AFATAL\<close>, an empty function object, a null pointer, an access outside an array) is \<open>None\<close>.
\<close>

section \<open>The base class\<close>

datatype EE_COMM_PORT_TYPE = E_COMM_PORT_SENTINEL | E_COMM_PORT_SERIAL | E_COMM_PORT_485 | E_COMM_PORT_232 | E_COMM_PORT_CAN
  | E_COMM_PORT_I2C | E_COMM_PORT_SPI | E_COMM_PORT_USB | E_COMM_PORT_MIPI | E_COMM_PORT_GPIO | E_COMM_PORT_I2S
  | E_COMM_PORT_SDIO | E_COMM_PORT_24G

text \<open>The operations of a managed device.\<close>

datatype EE_SUBDEV_OPTS = E_SUBDEV_OPTS_SENTINEL | E_SUBDEV_OPTS_INIT | E_SUBDEV_OPTS_START | E_SUBDEV_OPTS_ENABLE | E_SUBDEV_OPTS_RAW
  | E_SUBDEV_OPTS_PAUSE | E_SUBDEV_OPTS_RESUME | E_SUBDEV_OPTS_STOP | E_SUBDEV_OPTS_DISABLE | E_SUBDEV_OPTS_CLOSE | E_SUBDEV_OPTS_STORE

text \<open>\<open>pb_frame_processor_sp\<close>: is a function set; \<open>pb_published\<close>: what was handed to it; \<open>pb_state\<close>: the members of the derived class.\<close>

record ('s, 'm) ParserBaseItf =
  pb_cbuf_raw :: "byte CircularBuffer option"
  pb_is_parsing_busy :: bool
  pb_frame_processor_sp :: bool
  pb_published :: "'m list"
  pb_state :: 's

definition ParserBaseItf_ctor :: "'s \<Rightarrow> ('s, 'm) ParserBaseItf" where
  "ParserBaseItf_ctor s = \<lparr>pb_cbuf_raw = None, pb_is_parsing_busy = False, pb_frame_processor_sp = False, pb_published = [], pb_state = s\<rparr>"

text \<open>\<open>cbs\<close> is the setting of the circular buffer in the configuration of the device, if it has one.\<close>

definition ParserBaseItf_Init :: "EE_COMM_PORT_TYPE \<Rightarrow> nat option \<Rightarrow> ('s, 'm) ParserBaseItf \<Rightarrow> int \<times> ('s, 'm) ParserBaseItf" where
  "ParserBaseItf_Init port cbs p =
     (case port of
        E_COMM_PORT_I2C \<Rightarrow> (0, p)
      | E_COMM_PORT_SERIAL \<Rightarrow> (0, case cbs of Some sz \<Rightarrow> p\<lparr>pb_cbuf_raw := Some (CircularBuffer_ctor 0 sz)\<rparr> | None \<Rightarrow> p)
      | E_COMM_PORT_CAN \<Rightarrow> (0, case cbs of Some sz \<Rightarrow> p\<lparr>pb_cbuf_raw := Some (CircularBuffer_ctor 0 sz)\<rparr> | None \<Rightarrow> p)
      | E_COMM_PORT_USB \<Rightarrow> (0, p) | E_COMM_PORT_GPIO \<Rightarrow> (0, p) | E_COMM_PORT_I2S \<Rightarrow> (0, p) | E_COMM_PORT_24G \<Rightarrow> (0, p)
      | E_COMM_PORT_SDIO \<Rightarrow> (0, p)
      | _ \<Rightarrow> (- 1, p))"

definition ParserBaseItf_Start :: "('s, 'm) ParserBaseItf \<Rightarrow> int \<times> ('s, 'm) ParserBaseItf" where
  "ParserBaseItf_Start p = (0, p\<lparr>pb_cbuf_raw := map_option CircularBuffer_Open (pb_cbuf_raw p)\<rparr>)"

definition ParserBaseItf_Stop :: "('s, 'm) ParserBaseItf \<Rightarrow> int \<times> ('s, 'm) ParserBaseItf" where
  "ParserBaseItf_Stop p = (0, p)"

definition ParserBaseItf_Resume :: "('s, 'm) ParserBaseItf \<Rightarrow> int \<times> ('s, 'm) ParserBaseItf" where
  "ParserBaseItf_Resume p = (0, p\<lparr>pb_cbuf_raw := map_option CircularBuffer_Open (pb_cbuf_raw p)\<rparr>)"

definition ParserBaseItf_Close :: "('s, 'm) ParserBaseItf \<Rightarrow> int \<times> ('s, 'm) ParserBaseItf" where
  "ParserBaseItf_Close p = (0, p\<lparr>pb_cbuf_raw := map_option CircularBuffer_Close (pb_cbuf_raw p)\<rparr>)"

definition SetProtobufHandleSp :: "('s, 'm) ParserBaseItf \<Rightarrow> ('s, 'm) ParserBaseItf" where
  "SetProtobufHandleSp p = p\<lparr>pb_frame_processor_sp := True\<rparr>"

text \<open>
  The receive callbacks; \<open>parse\<close> is the virtual method of the derived class. Both push the bytes and parse unless a parse is
  under way. For the port I2C \<open>Init\<close> makes no buffer, and the callback does not test for one.
\<close>

definition OnOriginalData ::
    "(byte CircularBuffer \<Rightarrow> byte CircularBuffer) \<Rightarrow> (('s, 'm) ParserBaseItf \<Rightarrow> (int \<times> ('s, 'm) ParserBaseItf) option) \<Rightarrow> byte list \<Rightarrow>
     ('s, 'm) ParserBaseItf \<Rightarrow> ('s, 'm) ParserBaseItf option" where
  "OnOriginalData env parse buf p =
     (case pb_cbuf_raw p of
        None \<Rightarrow> None
      | Some cbuf \<Rightarrow>
          (case CircularBuffer_Push env buf cbuf of
             None \<Rightarrow> None
           | Some (_, cbuf1) \<Rightarrow>
               let p1 = p\<lparr>pb_cbuf_raw := Some cbuf1\<rparr>
               in if pb_is_parsing_busy p1 then Some p1
                  else case parse (p1\<lparr>pb_is_parsing_busy := True\<rparr>) of
                         None \<Rightarrow> None
                       | Some (_, p2) \<Rightarrow> Some (p2\<lparr>pb_is_parsing_busy := False\<rparr>)))"

definition OnOriginalDataUart ::
    "(byte CircularBuffer \<Rightarrow> byte CircularBuffer) \<Rightarrow> (('s, 'm) ParserBaseItf \<Rightarrow> (int \<times> ('s, 'm) ParserBaseItf) option) \<Rightarrow> byte list \<Rightarrow>
     ('s, 'm) ParserBaseItf \<Rightarrow> ('s, 'm) ParserBaseItf option" where
  "OnOriginalDataUart env ParseUartBuffer buf p = OnOriginalData env ParseUartBuffer buf p"

definition OnOriginalDataI2c ::
    "(byte CircularBuffer \<Rightarrow> byte CircularBuffer) \<Rightarrow> (('s, 'm) ParserBaseItf \<Rightarrow> (int \<times> ('s, 'm) ParserBaseItf) option) \<Rightarrow> byte list \<Rightarrow>
     ('s, 'm) ParserBaseItf \<Rightarrow> ('s, 'm) ParserBaseItf option" where
  "OnOriginalDataI2c env ParseI2cBuffer buf p = OnOriginalData env ParseI2cBuffer buf p"

text \<open>Giving bytes back to the buffer, and publishing.\<close>

definition pb_restore :: "nat \<Rightarrow> ('s, 'm) ParserBaseItf \<Rightarrow> ('s, 'm) ParserBaseItf" where
  "pb_restore len p = p\<lparr>pb_cbuf_raw := map_option (\<lambda>c. snd (CircularBuffer_Restore (int len) c)) (pb_cbuf_raw p)\<rparr>"

definition pb_publish :: "'m \<Rightarrow> ('s, 'm) ParserBaseItf \<Rightarrow> ('s, 'm) ParserBaseItf option" where
  "pb_publish msg p = (if pb_frame_processor_sp p then Some (p\<lparr>pb_published := pb_published p @ [msg]\<rparr>) else None)"

text \<open>The common beginning of the parsers: the number of bytes and a copy of them; \<open>None\<close> in the copy if there are too few.\<close>

definition read_cbuf :: "nat \<Rightarrow> ('s, 'm) ParserBaseItf \<Rightarrow> byte list option option" where
  "read_cbuf min_len p =
     (case pb_cbuf_raw p of
        None \<Rightarrow> None
      | Some cbuf \<Rightarrow>
          let cbuf_len = CircularBuffer_CbufSize cbuf
          in if cbuf_len < int min_len then Some None
             else case CircularBuffer_ReadSafely (replicate (nat cbuf_len) 0) cbuf of
                    None \<Rightarrow> None
                  | Some (ok, raw_data, _) \<Rightarrow> if ok then Some (Some raw_data) else None)"

text \<open>A 16-bit integer in the order of the host.\<close>

definition le16 :: "byte \<Rightarrow> byte \<Rightarrow> 16 word" where
  "le16 lo hi = push_bit 8 (ucast hi) OR ucast lo"

section \<open>Framing\<close>

text \<open>
  The frames in a stream of bytes: where at least \<open>minl\<close> bytes are left, either they carry the marks of a frame, whose size they tell, or one
  byte is skipped. The result is the frames and the bytes left over.
\<close>

function scan_frames :: "nat \<Rightarrow> (byte list \<Rightarrow> bool) \<Rightarrow> (byte list \<Rightarrow> nat) \<Rightarrow> byte list \<Rightarrow> byte list list \<times> byte list" where
  "scan_frames minl marks sz raw =
     (if length raw < minl \<or> raw = [] then ([], raw)
      else if \<not> marks raw then scan_frames minl marks sz (drop 1 raw)
      else if length raw < sz raw then ([], raw)
      else (case scan_frames minl marks sz (drop (max 1 (sz raw)) raw) of (fs, rest) \<Rightarrow> (take (sz raw) raw # fs, rest)))"
  by pat_completeness auto
termination
  by (relation "measure (\<lambda>(minl, marks, sz, raw). length raw)") (auto simp: max_def)

declare scan_frames.simps [simp del]

fun run_frames :: "(byte list \<Rightarrow> 'p \<Rightarrow> 'p option) \<Rightarrow> byte list list \<Rightarrow> 'p \<Rightarrow> 'p option" where
  "run_frames h [] p = Some p"
| "run_frames h (f # fs) p = (case h f p of None \<Rightarrow> None | Some q \<Rightarrow> run_frames h fs q)"

lemma run_frames_append: "run_frames h (fs @ gs) p = (case run_frames h fs p of None \<Rightarrow> None | Some q \<Rightarrow> run_frames h gs q)"
  by (induction fs arbitrary: p) (simp_all split: option.splits)

locale framing =
  fixes minl :: nat and marks :: "byte list \<Rightarrow> bool" and sz :: "byte list \<Rightarrow> nat"
  assumes minl_pos: "0 < minl"
    and sz_ge: "minl \<le> sz raw"
    and marks_local: "minl \<le> length raw \<Longrightarrow> marks (raw @ cs) = marks raw"
    and sz_local: "minl \<le> length raw \<Longrightarrow> sz (raw @ cs) = sz raw"
begin

abbreviation "scan \<equiv> scan_frames minl marks sz"

lemma scan_short: "length raw < minl \<Longrightarrow> scan raw = ([], raw)"
  by (subst scan_frames.simps) simp

lemma scan_skip: "minl \<le> length raw \<Longrightarrow> \<not> marks raw \<Longrightarrow> scan raw = scan (drop 1 raw)"
  using minl_pos by (subst scan_frames.simps) auto

lemma scan_wait: "minl \<le> length raw \<Longrightarrow> marks raw \<Longrightarrow> length raw < sz raw \<Longrightarrow> scan raw = ([], raw)"
  using minl_pos by (subst scan_frames.simps) auto

lemma scan_frame:
  assumes "minl \<le> length raw" and "marks raw" and "sz raw \<le> length raw"
  shows "scan raw = (take (sz raw) raw # fst (scan (drop (sz raw) raw)), snd (scan (drop (sz raw) raw)))"
proof -
  have "max 1 (sz raw) = sz raw" using sz_ge [of raw] minl_pos by simp
  then show ?thesis using assms minl_pos by (subst scan_frames.simps) (auto split: prod.splits)
qed

text \<open>The bytes that come later do not change what was found before.\<close>

lemma scan_append: "scan (bs @ cs) = (fst (scan bs) @ fst (scan (snd (scan bs) @ cs)), snd (scan (snd (scan bs) @ cs)))"
proof (induction "length bs" arbitrary: bs rule: less_induct)
  case less
  consider "length bs < minl" | "minl \<le> length bs" "\<not> marks bs" | "minl \<le> length bs" "marks bs" "length bs < sz bs"
    | "minl \<le> length bs" "marks bs" "sz bs \<le> length bs" by linarith
  then show ?case
  proof cases
    case 2
    then have "length (drop 1 bs) < length bs" "drop 1 (bs @ cs) = drop 1 bs @ cs" using minl_pos by (cases bs; simp)+
    then have "scan (bs @ cs) = scan (drop 1 bs @ cs)" using 2 scan_skip [of "bs @ cs"] by (simp add: marks_local)
    then show ?thesis using less [OF \<open>length (drop 1 bs) < length bs\<close>] scan_skip [OF 2] by simp
  next
    case 4
    have pos: "0 < sz bs" using sz_ge [of bs] minl_pos by simp
    then have "length (drop (sz bs) bs) < length bs" using 4 minl_pos by simp
    moreover have "scan (bs @ cs) = (take (sz bs) bs # fst (scan (drop (sz bs) bs @ cs)), snd (scan (drop (sz bs) bs @ cs)))"
      using scan_frame [of "bs @ cs"] 4 by (simp add: marks_local sz_local)
    ultimately show ?thesis using less [of "drop (sz bs) bs"] scan_frame [OF 4] by simp
  qed (simp_all add: scan_short scan_wait)
qed

lemma scan_rest_done: "fst (scan (snd (scan bs))) = []" "snd (scan (snd (scan bs))) = snd (scan bs)"
  using scan_append [of bs "[]"] by (simp_all add: prod_eq_iff)

lemma scan_suffix: "\<exists>k \<le> length bs. snd (scan bs) = drop k bs"
proof (induction "length bs" arbitrary: bs rule: less_induct)
  case less
  consider "scan bs = ([], bs)" | "minl \<le> length bs" "\<not> marks bs" | "minl \<le> length bs" "marks bs" "sz bs \<le> length bs"
    using scan_short scan_wait by (meson not_le)
  then show ?case
  proof cases
    case 2
    then have "length (drop 1 bs) < length bs" using minl_pos by simp
    with less [of "drop 1 bs"] obtain k where "k \<le> length (drop 1 bs)" "snd (scan (drop 1 bs)) = drop k (drop 1 bs)" by blast
    then show ?thesis using scan_skip [OF 2] 2 minl_pos by (intro exI [of _ "k + 1"]) simp
  next
    case 3
    then have "length (drop (sz bs) bs) < length bs" using sz_ge [of bs] minl_pos by simp
    with less [of "drop (sz bs) bs"] obtain k where "k \<le> length (drop (sz bs) bs)" "snd (scan (drop (sz bs) bs)) = drop k (drop (sz bs) bs)" by blast
    then show ?thesis using scan_frame [OF 3] 3 by (intro exI [of _ "k + sz bs"]) simp
  qed auto
qed

lemma scan_rest_cases: "length (snd (scan bs)) < minl \<or> length (snd (scan bs)) < sz (snd (scan bs))"
proof (rule ccontr)
  let ?r = "snd (scan bs)"
  assume long: "\<not> ?thesis"
  then have "\<not> marks ?r" using scan_frame [of ?r] scan_rest_done(1) [of bs] by auto
  then have "scan ?r = scan (drop 1 ?r)" using long scan_skip [of ?r] by simp
  moreover obtain k where "snd (scan (drop 1 ?r)) = drop k (drop 1 ?r)" using scan_suffix by blast
  ultimately have "length ?r \<le> length ?r - 1" using scan_rest_done(2) [of bs] by (metis length_drop diff_le_self)
  then show False using long minl_pos by linarith
qed

lemma scan_total: "length (concat (fst (scan bs))) + length (snd (scan bs)) \<le> length bs"
proof (induction "length bs" arbitrary: bs rule: less_induct)
  case less
  consider "scan bs = ([], bs)" | "minl \<le> length bs" "\<not> marks bs" | "minl \<le> length bs" "marks bs" "sz bs \<le> length bs"
    using scan_short scan_wait by (meson not_le)
  then show ?case
  proof cases
    case 2
    then have shorter: "length (drop 1 bs) < length bs" using minl_pos by simp
    show ?thesis unfolding scan_skip [OF 2] using less [OF shorter] shorter by linarith
  next
    case 3
    then have shorter: "length (drop (sz bs) bs) < length bs" using sz_ge [of bs] minl_pos by simp
    have "length (concat (fst (scan bs))) = sz bs + length (concat (fst (scan (drop (sz bs) bs))))" using scan_frame [OF 3] 3 by simp
    moreover have "length (snd (scan bs)) = length (snd (scan (drop (sz bs) bs)))" using scan_frame [OF 3] by simp
    moreover have "length (drop (sz bs) bs) + sz bs = length bs" using 3 by simp
    ultimately show ?thesis using less [OF shorter] by linarith
  qed simp
qed

text \<open>What is left over stays below a bound while the bytes of \<open>s\<close> arrive after \<open>r\<close>.\<close>

definition rest_below :: "nat \<Rightarrow> byte list \<Rightarrow> byte list \<Rightarrow> bool" where
  "rest_below lim r s \<longleftrightarrow> (\<forall>x. prefix x s \<longrightarrow> length (snd (scan (r @ x))) < lim)"

lemma scan_rest_cong: "snd (scan r) = snd (scan r') \<Longrightarrow> snd (scan (r @ x)) = snd (scan (r' @ x))"
  using scan_append [of r x] scan_append [of r' x] by simp

lemma rest_below_step:
  assumes "rest_below lim r (b @ s)" and "snd (scan (r @ b)) = snd (scan r1)"
  shows "rest_below lim r1 s"
  unfolding rest_below_def
proof (intro allI impI)
  fix x assume "prefix x s"
  then have "prefix (b @ x) (b @ s)" by simp
  then have "length (snd (scan (r @ b @ x))) < lim" using assms(1) unfolding rest_below_def by blast
  then show "length (snd (scan (r1 @ x))) < lim" using scan_rest_cong [OF assms(2), of x] by simp
qed

text \<open>A stream of whole frames.\<close>

definition is_frame :: "byte list \<Rightarrow> bool" where
  "is_frame f \<longleftrightarrow> minl \<le> length f \<and> marks f \<and> sz f = length f"

lemma scan_frames_aligned: "\<forall>f \<in> set fs. is_frame f \<Longrightarrow> scan (concat fs) = (fs, [])"
proof (induction fs)
  case (Cons f fs)
  then have f: "minl \<le> length f" "marks f" "sz f = length f" by (simp_all add: is_frame_def)
  then show ?case
    using Cons scan_frame [of "f @ concat fs"] by (simp add: marks_local sz_local)
qed (simp add: scan_short minl_pos)

lemma rest_below_aligned: "0 < lim \<Longrightarrow> \<forall>f \<in> set fs. is_frame f \<and> length f \<le> lim \<Longrightarrow> rest_below lim [] (concat fs)"
proof (induction fs)
  case (Cons f fs)
  then have f: "minl \<le> length f" "marks f" "sz f = length f" "length f \<le> lim" by (simp_all add: is_frame_def)
  show ?case unfolding rest_below_def
  proof (intro allI impI)
    fix x assume "prefix x (concat (f # fs))"
    then consider (part) y where "f = x @ y" "y \<noteq> []" | (whole) x' where "x = f @ x'" "prefix x' (concat fs)"
      unfolding concat.simps prefix_append by (metis append_Nil2 prefixE Nil_prefix)
    then show "length (snd (scan ([] @ x))) < lim"
    proof cases
      case part
      then have "length x < length f" "minl \<le> length x \<Longrightarrow> marks x \<and> sz x = length f"
        using f(2,3) marks_local [of x y] sz_local [of x y] by simp_all
      then have "scan x = ([], x)" using scan_short [of x] scan_wait [of x] by (cases "minl \<le> length x") simp_all
      then show ?thesis using part f(4) by (cases y) simp_all
    next
      case whole
      then have "snd (scan x) = snd (scan x')" using f scan_frame [of x] by (simp add: marks_local sz_local)
      then show ?thesis using Cons whole(2) by (simp add: rest_below_def)
    qed
  qed
qed (simp add: rest_below_def scan_short minl_pos)

end

section \<open>Devices\<close>

text \<open>A handler of frames does not look at the buffer and the busy flag.\<close>

definition handler :: "(byte list \<Rightarrow> ('s, 'm) ParserBaseItf \<Rightarrow> ('s, 'm) ParserBaseItf option) \<Rightarrow> bool" where
  "handler h \<longleftrightarrow> (\<forall>f p x y. h f (p\<lparr>pb_cbuf_raw := x, pb_is_parsing_busy := y\<rparr>) =
     map_option (\<lambda>q. q\<lparr>pb_cbuf_raw := x, pb_is_parsing_busy := y\<rparr>) (h f p))"

lemma handlerD: "handler h \<Longrightarrow> h f (p\<lparr>pb_cbuf_raw := x, pb_is_parsing_busy := y\<rparr>) =
    map_option (\<lambda>q. q\<lparr>pb_cbuf_raw := x, pb_is_parsing_busy := y\<rparr>) (h f p)"
  by (simp add: handler_def)

lemma run_frames_handler:
  "handler h \<Longrightarrow> run_frames h fs (p\<lparr>pb_cbuf_raw := x, pb_is_parsing_busy := y\<rparr>) =
     map_option (\<lambda>q. q\<lparr>pb_cbuf_raw := x, pb_is_parsing_busy := y\<rparr>) (run_frames h fs p)"
  by (induction fs arbitrary: p) (auto simp: handlerD split: option.splits)

text \<open>A buffer with the given contents.\<close>

definition holds_bytes :: "nat \<Rightarrow> byte list \<Rightarrow> byte CircularBuffer \<Rightarrow> bool" where
  "holds_bytes n bs c \<longleftrightarrow> cbuf_inv c \<and> \<not> cf_is_closed c \<and> cf_capacity_cbuf c = n \<and> cbuf_contents c = bs"

text \<open>The driver hands over blocks one after the other.\<close>

fun device_run ::
    "(byte CircularBuffer \<Rightarrow> byte CircularBuffer) \<Rightarrow> (('s, 'm) ParserBaseItf \<Rightarrow> (int \<times> ('s, 'm) ParserBaseItf) option) \<Rightarrow> byte list list \<Rightarrow>
     ('s, 'm) ParserBaseItf \<Rightarrow> ('s, 'm) ParserBaseItf option" where
  "device_run env parse [] p = Some p"
| "device_run env parse (b # bs) p = (case OnOriginalDataUart env parse b p of None \<Rightarrow> None | Some q \<Rightarrow> device_run env parse bs q)"

locale frame_device = framing minl marks sz
  for minl :: nat and marks :: "byte list \<Rightarrow> bool" and sz :: "byte list \<Rightarrow> nat" +
  fixes thr :: nat and h :: "byte list \<Rightarrow> ('s, 'm) ParserBaseItf \<Rightarrow> ('s, 'm) ParserBaseItf option"
    and parse :: "('s, 'm) ParserBaseItf \<Rightarrow> (int \<times> ('s, 'm) ParserBaseItf) option"
  assumes h: "handler h"
    and parse_few: "pb_cbuf_raw p = Some c \<Longrightarrow> holds_bytes n bs c \<Longrightarrow> length bs < thr \<Longrightarrow> parse p = Some (0, p)"
    and parse_enough: "pb_cbuf_raw p = Some c \<Longrightarrow> holds_bytes n bs c \<Longrightarrow> thr \<le> length bs \<Longrightarrow>
      \<exists>c'. holds_bytes n (snd (scan_frames minl marks sz bs)) c' \<and>
        parse p = map_option (\<lambda>q. (0, q\<lparr>pb_cbuf_raw := Some c'\<rparr>)) (run_frames h (fst (scan_frames minl marks sz bs)) p)"
begin

lemma OnOriginalData_step:
  assumes "pb_cbuf_raw p = Some c" and "holds_bytes n r c" and "\<not> pb_is_parsing_busy p" and "b \<noteq> []" and "length r + length b \<le> n"
    and "thr \<le> lim" and "length (snd (scan (r @ b))) < lim"
  obtains fs r' c' where "fst (scan (r @ b)) = fs @ fst (scan r')" and "snd (scan (r @ b)) = snd (scan r')" and "length r' < lim"
    and "thr \<le> minl \<Longrightarrow> scan r' = ([], r')" and "holds_bytes n r' c'"
    and "OnOriginalDataUart env parse b p =
      map_option (\<lambda>q. q\<lparr>pb_cbuf_raw := Some c', pb_is_parsing_busy := False\<rparr>) (run_frames h fs p)"
proof -
  have c: "cbuf_inv c" "\<not> cf_is_closed c" "cf_capacity_cbuf c = n" "cbuf_contents c = r" using assms(2) by (simp_all add: holds_bytes_def)
  then have "cbuf_have c + length b \<le> cf_capacity_cbuf c" using assms(5) by (metis length_cbuf_contents)
  then obtain c1 where c1: "CircularBuffer_Push env b c = Some (True, c1)" "holds_bytes n (r @ b) c1"
    using Push_fits [OF c(1,2) assms(4), of env] c(3,4) by (metis holds_bytes_def)
  let ?p1 = "p\<lparr>pb_cbuf_raw := Some c1, pb_is_parsing_busy := True\<rparr>"
  have run: "OnOriginalDataUart env parse b p = (case parse ?p1 of None \<Rightarrow> None | Some (_, p2) \<Rightarrow> Some (p2\<lparr>pb_is_parsing_busy := False\<rparr>))"
    using assms(1,3) c1(1) by (simp add: OnOriginalDataUart_def OnOriginalData_def)
  show ?thesis
  proof (cases "length (r @ b) < thr")
    case True
    then have "parse ?p1 = Some (0, ?p1)" by (intro parse_few [OF _ c1(2)]) simp_all
    then have "OnOriginalDataUart env parse b p = map_option (\<lambda>q. q\<lparr>pb_cbuf_raw := Some c1, pb_is_parsing_busy := False\<rparr>) (run_frames h [] p)"
      using run by simp
    moreover have "scan (r @ b) = ([], r @ b)" if "thr \<le> minl" using True that scan_short [of "r @ b"] by simp
    ultimately show ?thesis using that [of "[]" "r @ b" c1] True assms(6) c1(2) by simp
  next
    case False
    then obtain c' where c': "holds_bytes n (snd (scan (r @ b))) c'"
        "parse ?p1 = map_option (\<lambda>q. (0, q\<lparr>pb_cbuf_raw := Some c'\<rparr>)) (run_frames h (fst (scan (r @ b))) ?p1)"
      using parse_enough [OF _ c1(2), of ?p1] by auto
    have "OnOriginalDataUart env parse b p =
        map_option (\<lambda>q. q\<lparr>pb_cbuf_raw := Some c', pb_is_parsing_busy := False\<rparr>) (run_frames h (fst (scan (r @ b))) p)"
      unfolding run c'(2) run_frames_handler [OF h] by (cases "run_frames h (fst (scan (r @ b))) p") simp_all
    then show ?thesis using that [of "fst (scan (r @ b))" "snd (scan (r @ b))" c'] c'(1) assms(7) by (simp add: scan_rest_done prod_eq_iff)
  qed
qed

text \<open>What the device delivers depends on the stream, not on its blocks.\<close>

lemma device_run_frames:
  assumes "pb_cbuf_raw p = Some c" and "holds_bytes n r c" and "\<not> pb_is_parsing_busy p" and "length r < lim"
    and "\<forall>b \<in> set bs. b \<noteq> [] \<and> lim + length b \<le> Suc n" and "thr \<le> minl \<Longrightarrow> scan r = ([], r)"
    and "thr \<le> lim" and "rest_below lim r (concat bs)"
  shows "\<exists>fs r' c'. fst (scan (r @ concat bs)) = fs @ fst (scan r') \<and> snd (scan (r @ concat bs)) = snd (scan r') \<and>
    length r' < lim \<and> (thr \<le> minl \<longrightarrow> scan r' = ([], r')) \<and>
    holds_bytes n r' c' \<and> device_run env parse bs p =
      map_option (\<lambda>q. q\<lparr>pb_cbuf_raw := Some c', pb_is_parsing_busy := False\<rparr>) (run_frames h fs p)"
  using assms
proof (induction bs arbitrary: p c r)
  case Nil
  have "p = p\<lparr>pb_cbuf_raw := Some c, pb_is_parsing_busy := False\<rparr>" using Nil by simp
  then show ?case using Nil by (intro exI [of _ "[]"] exI [of _ r] exI [of _ c]) auto
next
  case (Cons b bs)
  have "b \<noteq> []" "length r + length b \<le> n" using Cons.prems(4,5) by auto
  moreover have "length (snd (scan (r @ b))) < lim" using Cons.prems(8) by (auto simp: rest_below_def prefix_def)
  ultimately obtain fs r1 c1 where
    one: "fst (scan (r @ b)) = fs @ fst (scan r1)" "snd (scan (r @ b)) = snd (scan r1)" "length r1 < lim"
      "thr \<le> minl \<Longrightarrow> scan r1 = ([], r1)" "holds_bytes n r1 c1"
      "OnOriginalDataUart env parse b p = map_option (\<lambda>q. q\<lparr>pb_cbuf_raw := Some c1, pb_is_parsing_busy := False\<rparr>) (run_frames h fs p)"
    using OnOriginalData_step [OF Cons.prems(1-3) _ _ Cons.prems(7), of b env] by metis
  have below: "rest_below lim r1 (concat bs)" using rest_below_step [OF _ one(2)] Cons.prems(8) by simp
  have all: "fst (scan (r @ concat (b # bs))) = fs @ fst (scan (r1 @ concat bs))" "snd (scan (r @ concat (b # bs))) = snd (scan (r1 @ concat bs))"
    using scan_append [of "r @ b" "concat bs"] scan_append [of r1 "concat bs"] one(1,2) by simp_all
  have blocks: "\<forall>b \<in> set bs. b \<noteq> [] \<and> lim + length b \<le> Suc n" using Cons.prems(5) by simp
  define q where "q = (case run_frames h fs p of None \<Rightarrow> p | Some q \<Rightarrow> q)"
  let ?q = "q\<lparr>pb_cbuf_raw := Some c1, pb_is_parsing_busy := False\<rparr>"
  have "pb_cbuf_raw ?q = Some c1" "\<not> pb_is_parsing_busy ?q" by simp_all
  from Cons.IH [OF this(1) one(5) this(2) one(3) blocks one(4) Cons.prems(7) below] obtain gs r' c' where
    rest: "fst (scan (r1 @ concat bs)) = gs @ fst (scan r')" "snd (scan (r1 @ concat bs)) = snd (scan r')" "length r' < lim"
      "thr \<le> minl \<longrightarrow> scan r' = ([], r')" "holds_bytes n r' c'"
      "device_run env parse bs ?q = map_option (\<lambda>q. q\<lparr>pb_cbuf_raw := Some c', pb_is_parsing_busy := False\<rparr>) (run_frames h gs ?q)"
    by blast
  have "device_run env parse (b # bs) p =
      map_option (\<lambda>q. q\<lparr>pb_cbuf_raw := Some c', pb_is_parsing_busy := False\<rparr>) (run_frames h (fs @ gs) p)"
  proof (cases "run_frames h fs p")
    case (Some q')
    then have "run_frames h (fs @ gs) p = run_frames h gs q" "device_run env parse (b # bs) p = device_run env parse bs ?q"
      using one(6) by (simp_all add: q_def run_frames_append)
    then show ?thesis unfolding rest(6) run_frames_handler [OF h] by (cases "run_frames h gs q") simp_all
  qed (simp add: one(6) run_frames_append)
  then show ?case using all rest(1-5) by (intro exI [of _ "fs @ gs"] exI [of _ r'] exI [of _ c']) simp
qed

end

lemma handler_cbuf:
  assumes "handler h"
  shows "h f (p\<lparr>pb_cbuf_raw := x\<rparr>) = map_option (\<lambda>q. q\<lparr>pb_cbuf_raw := x\<rparr>) (h f p)"
proof (cases "h f p")
  case (Some q)
  have "pb_is_parsing_busy q = pb_is_parsing_busy p"
    using handlerD [OF assms, where f = f and p = p and x = "pb_cbuf_raw p" and y = "pb_is_parsing_busy p"] Some by (auto dest: arg_cong [of _ _ pb_is_parsing_busy])
  then show ?thesis using handlerD [OF assms, where f = f and p = p and x = x and y = "pb_is_parsing_busy p"] Some by simp
qed (use handlerD [OF assms, where f = f and p = p and x = x and y = "pb_is_parsing_busy p"] in simp)

lemma run_frames_cbuf: "handler h \<Longrightarrow> run_frames h fs (p\<lparr>pb_cbuf_raw := x\<rparr>) = map_option (\<lambda>q. q\<lparr>pb_cbuf_raw := x\<rparr>) (run_frames h fs p)"
  by (induction fs arbitrary: p) (auto simp: handler_cbuf split: option.splits)

lemma run_frames_same_cbuf:
  assumes "handler h" and "run_frames h fs p = Some q"
  shows "pb_cbuf_raw q = pb_cbuf_raw p"
  using run_frames_cbuf [OF assms(1), where fs = fs and p = p and x = "pb_cbuf_raw p"] assms(2) by (auto dest: arg_cong [of _ _ pb_cbuf_raw])

lemma handlerI: "(\<And>f p x y. h f (p\<lparr>pb_cbuf_raw := x, pb_is_parsing_busy := y\<rparr>) =
    map_option (\<lambda>q. q\<lparr>pb_cbuf_raw := x, pb_is_parsing_busy := y\<rparr>) (h f p)) \<Longrightarrow> handler h"
  by (simp add: handler_def)

lemma holds_bytes_length: "holds_bytes n bs c \<Longrightarrow> cbuf_have c = length bs"
  by (metis holds_bytes_def length_cbuf_contents)

lemma read_cbuf_few: "pb_cbuf_raw p = Some c \<Longrightarrow> holds_bytes n bs c \<Longrightarrow> length bs < k \<Longrightarrow> read_cbuf k p = Some None"
  using holds_bytes_length [of n bs c] cbuf_have_int [of c] by (simp add: read_cbuf_def holds_bytes_def CircularBuffer_CbufSize_def)

lemma read_cbuf_enough:
  assumes "pb_cbuf_raw p = Some c" and "holds_bytes n bs c" and "k \<le> length bs"
  shows "read_cbuf k p = Some (Some bs)"
proof -
  have c: "cbuf_inv c" "\<not> cf_is_closed c" "cbuf_contents c = bs" using assms(2) by (simp_all add: holds_bytes_def)
  have "CircularBuffer_CbufSize c = int (length bs)"
    using holds_bytes_length [OF assms(2)] cbuf_have_int [OF c(1)] by (simp add: CircularBuffer_CbufSize_def)
  then show ?thesis
    using assms(1,3) c(3) ReadSafely_contents [OF c(1,2), of "replicate (length bs) 0"] holds_bytes_length [OF assms(2)] by (simp add: read_cbuf_def)
qed

lemma pb_restore_holds:
  assumes "pb_cbuf_raw p = Some c" and "holds_bytes n bs c" and "k \<le> length bs"
  obtains c' where "pb_restore k p = p\<lparr>pb_cbuf_raw := Some c'\<rparr>" and "holds_bytes n (drop k bs) c'"
  using Restore_contents [of c k] assms holds_bytes_length [OF assms(2)] that [of "snd (CircularBuffer_Restore (int k) c)"]
  by (simp add: pb_restore_def holds_bytes_def)

section \<open>Devices that have been started\<close>

text \<open>A device that has been started: its buffer is open and holds the bytes \<open>r\<close> not parsed yet.\<close>

definition device_ready :: "nat \<Rightarrow> byte list \<Rightarrow> ('s, 'm) ParserBaseItf \<Rightarrow> bool" where
  "device_ready n r p \<longleftrightarrow> (\<exists>c. pb_cbuf_raw p = Some c \<and> holds_bytes n r c) \<and> \<not> pb_is_parsing_busy p"

lemma device_ready_Start:
  assumes "0 < sz" and "ParserBaseItf_Init E_COMM_PORT_SERIAL (Some sz) p = (0, p1)" and "\<not> pb_is_parsing_busy p"
  shows "device_ready sz [] (snd (ParserBaseItf_Start p1))"
proof -
  let ?c = "CircularBuffer_Open (CircularBuffer_ctor 0 sz) :: byte CircularBuffer"
  have "cbuf_inv ?c" "cbuf_contents ?c = []" "\<not> cf_is_closed ?c" "cf_capacity_cbuf ?c = sz"
    using cbuf_inv_ctor [OF assms(1), of 0]
    by (simp_all add: CircularBuffer_Open_def CircularBuffer_ctor_def cbuf_inv_def cbuf_contents_def cbuf_have_def CircularBuffer_CbufSize_def)
  then have "holds_bytes sz [] ?c" by (simp add: holds_bytes_def)
  moreover have "p1 = p\<lparr>pb_cbuf_raw := Some (CircularBuffer_ctor 0 sz)\<rparr>" using assms(2) by (simp add: ParserBaseItf_Init_def)
  ultimately show ?thesis using assms(3) by (simp add: device_ready_def ParserBaseItf_Start_def)
qed

text \<open>A device as the chassis sets it up, for the examples.\<close>

definition started_device :: "nat \<Rightarrow> 's \<Rightarrow> ('s, 'm) ParserBaseItf" where
  "started_device sz s = snd (ParserBaseItf_Start (snd (ParserBaseItf_Init E_COMM_PORT_SERIAL (Some sz) (SetProtobufHandleSp (ParserBaseItf_ctor s)))))"

lemma started_device: "0 < sz \<Longrightarrow> device_ready sz [] (started_device sz s)" "pb_frame_processor_sp (started_device sz s)"
    "pb_state (started_device sz s) = s" "pb_published (started_device sz s) = []"
proof -
  let ?p = "SetProtobufHandleSp (ParserBaseItf_ctor s)"
  have "\<not> pb_is_parsing_busy ?p" by (simp add: SetProtobufHandleSp_def ParserBaseItf_ctor_def)
  then show "0 < sz \<Longrightarrow> device_ready sz [] (started_device sz s)"
    unfolding started_device_def by (intro device_ready_Start [of _ ?p]) (simp_all add: ParserBaseItf_Init_def)
qed (simp_all add: started_device_def ParserBaseItf_Start_def ParserBaseItf_Init_def SetProtobufHandleSp_def ParserBaseItf_ctor_def)

lemma run_frames_None: "f \<in> set fs \<Longrightarrow> (\<And>p. h f p = None) \<Longrightarrow> run_frames h fs p = None"
  by (induction fs arbitrary: p) (auto split: option.splits)

text \<open>A device at the port I2C has no buffer, and the first block it delivers is pushed through a null pointer.\<close>

lemma I2c_without_buffer: "OnOriginalDataI2c env parse buf (snd (ParserBaseItf_Init E_COMM_PORT_I2C cbs (ParserBaseItf_ctor s))) = None"
  by (simp add: OnOriginalDataI2c_def OnOriginalData_def ParserBaseItf_Init_def ParserBaseItf_ctor_def)

end
