(* ===== verification/Line_Laser.thy ===== *)
theory Line_Laser
  imports Frame_Parser
begin

unbundle bit_operations_syntax

text \<open>
  \<open>modules/chassis/parser/parse_libs/linelaser_parser.cc\<close>, the parser of the line laser, and \<open>pack_libs/llaser_packer.cc\<close>, the packer of its
  commands. The conversion of distances to angles and coordinates in floating point (\<open>AngTransform\<close>) is not modelled: a published cloud
  carries the raw distances.
\<close>

section \<open>The line laser\<close>

record gs_device_para =
  gp_k0 :: "16 word"
  gp_b0 :: "16 word"
  gp_k1 :: "16 word"
  gp_b1 :: "16 word"
  gp_bias :: byte

record GSHeaderInfo =
  gs_address :: byte
  gs_cmd_type :: byte
  gs_data_len :: "16 word"

text \<open>A published cloud: the sequence number, and for each point its index and the raw distance in mm.\<close>

record PointCloud =
  pc_seq :: nat
  pc_points :: "(nat \<times> 16 word) list"

definition PackageMaxModuleNums :: nat where "PackageMaxModuleNums = 3"
definition LIDAR_CMD_SYNC_BYTE :: byte where "LIDAR_CMD_SYNC_BYTE = 0xA5"

definition GS_LIDAR_CMD_GET_ADDRESS :: byte where "GS_LIDAR_CMD_GET_ADDRESS = 0x60"
definition GS_LIDAR_CMD_GET_PARAMETER :: byte where "GS_LIDAR_CMD_GET_PARAMETER = 0x61"
definition GS_LIDAR_CMD_GET_VERSION :: byte where "GS_LIDAR_CMD_GET_VERSION = 0x62"
definition GS_LIDAR_ANS_SCAN :: byte where "GS_LIDAR_ANS_SCAN = 0x63"
definition GS_LIDAR_CMD_SCAN :: byte where "GS_LIDAR_CMD_SCAN = 0x63"
definition GS_LIDAR_CMD_STOP :: byte where "GS_LIDAR_CMD_STOP = 0x64"
definition LIDAR_CMD_FORCE_SCAN :: byte where "LIDAR_CMD_FORCE_SCAN = 0x61"

text \<open>The parameters of the modules are kept as the device sent them; the code keeps them divided by 10000 and 10.\<close>

record LineLaserParser =
  ll_params :: "gs_device_para list"
  ll_have_params :: bool
  ll_frame_seq :: nat

type_synonym laser = "(LineLaserParser, PointCloud) ParserBaseItf"

definition LineLaserParser_ctor :: "gs_device_para \<Rightarrow> laser" where
  "LineLaserParser_ctor garbage =
     ParserBaseItf_ctor \<lparr>ll_params = replicate PackageMaxModuleNums garbage, ll_have_params = False, ll_frame_seq = 0\<rparr>"

definition CheckCrc :: "byte list \<Rightarrow> bool" where
  "CheckCrc data = (foldl (\<lambda>sum i. sum + data ! i) 0 [4..<length data - 1] = data ! (length data - 1))"

text \<open>The loop over the points; the argument is what follows the header and the environment data, with the checksum.\<close>

fun laser_points :: "nat \<Rightarrow> byte list \<Rightarrow> (nat \<times> 16 word) list" where
  "laser_points point_idx (lo # hi # rest) = (point_idx, le16 lo hi AND 0x01FF) # laser_points (point_idx + 1) rest"
| "laser_points point_idx _ = []"

definition Laser_ParseSigleFrame :: "byte list \<Rightarrow> laser \<Rightarrow> (int \<times> laser) option" where
  "Laser_ParseSigleFrame data p =
     (if \<not> ll_have_params (pb_state p) then Some (- 1, p)
      else if \<not> CheckCrc data then Some (- 1, p)
      else let points = laser_points 0 (drop 10 data)
           in if points = [] then Some (0, p)
              else case pb_publish \<lparr>pc_seq = ll_frame_seq (pb_state p), pc_points = points\<rparr> p of
                     Some p1 \<Rightarrow> Some (0, p1)
                   | None \<Rightarrow> None)"

definition ParseAddress :: "byte list \<Rightarrow> laser \<Rightarrow> laser" where
  "ParseAddress param p = (if \<not> CheckCrc param then p else if length param \<noteq> 9 then p else p)"

definition gs_device_para_of :: "byte list \<Rightarrow> gs_device_para" where
  "gs_device_para_of bs = \<lparr>gp_k0 = le16 (bs ! 0) (bs ! 1), gp_b0 = le16 (bs ! 2) (bs ! 3), gp_k1 = le16 (bs ! 4) (bs ! 5),
     gp_b1 = le16 (bs ! 6) (bs ! 7), gp_bias = bs ! 8\<rparr>"

definition ParseCameraParam :: "byte list \<Rightarrow> laser \<Rightarrow> laser option" where
  "ParseCameraParam param p =
     (if \<not> CheckCrc param then Some p
      else if length param \<noteq> 18 then Some p
      else let mdNum = unat (drop_bit 1 (param ! 4)); st = pb_state p
           in if mdNum < PackageMaxModuleNums
              then Some (p\<lparr>pb_state := st\<lparr>ll_params := (ll_params st)[mdNum := gs_device_para_of (drop 8 param)], ll_have_params := True\<rparr>\<rparr>)
              else None)"

definition gs_header_of :: "byte list \<Rightarrow> GSHeaderInfo" where
  "gs_header_of bs = \<lparr>gs_address = bs ! 0, gs_cmd_type = bs ! 1, gs_data_len = le16 (bs ! 2) (bs ! 3)\<rparr>"

definition laser_total_len :: "byte list \<Rightarrow> nat" where
  "laser_total_len bs = 4 + 4 + unat (gs_data_len (gs_header_of (drop 4 bs))) + 1"

definition laser_dispatch :: "byte list \<Rightarrow> laser \<Rightarrow> laser option" where
  "laser_dispatch single_buf p =
     (let cmd = gs_cmd_type (gs_header_of (drop 4 single_buf))
      in if cmd = GS_LIDAR_CMD_GET_ADDRESS then Some (ParseAddress single_buf p)
         else if cmd = GS_LIDAR_CMD_STOP then Some p
         else if cmd = GS_LIDAR_CMD_GET_PARAMETER then ParseCameraParam single_buf p
         else if cmd = GS_LIDAR_CMD_GET_VERSION then Some p
         else if cmd = GS_LIDAR_ANS_SCAN then map_option snd (Laser_ParseSigleFrame single_buf p)
         else Some p)"

text \<open>The loop of \<open>ParseUartBuffer\<close>, on the bytes from \<open>head\<close> on.\<close>

definition laser_sync :: "byte list \<Rightarrow> bool" where
  "laser_sync bs \<longleftrightarrow> bs ! 0 = LIDAR_CMD_SYNC_BYTE \<and> bs ! 1 = LIDAR_CMD_SYNC_BYTE \<and> bs ! 2 = LIDAR_CMD_SYNC_BYTE \<and> bs ! 3 = LIDAR_CMD_SYNC_BYTE"

function laser_loop :: "byte list \<Rightarrow> laser \<Rightarrow> laser option" where
  "laser_loop raw p =
     (if length raw \<ge> 9
      then if laser_sync raw
           then if length raw < laser_total_len raw then Some p
                else (case laser_dispatch (take (laser_total_len raw) raw) (pb_restore (laser_total_len raw) p) of
                        None \<Rightarrow> None
                      | Some p1 \<Rightarrow> laser_loop (drop (laser_total_len raw) raw) p1)
           else laser_loop (drop 1 raw) (pb_restore 1 p)
      else Some p)"
  by pat_completeness auto
termination
  by (relation "measure (\<lambda>(raw, p). length raw)") (auto simp: laser_total_len_def)

declare laser_loop.simps [simp del]

definition Laser_ParseUartBuffer :: "laser \<Rightarrow> (int \<times> laser) option" where
  "Laser_ParseUartBuffer p =
     (case read_cbuf 9 p of
        None \<Rightarrow> None
      | Some None \<Rightarrow> Some (0, p)
      | Some (Some raw_data) \<Rightarrow> map_option (\<lambda>p1. (0, p1)) (laser_loop raw_data p))"

text \<open>The packer of commands to the line laser.\<close>

definition PackLlaserRawSetting :: "EE_SUBDEV_OPTS \<Rightarrow> 32 word \<Rightarrow> byte list" where
  "PackLlaserRawSetting opts dev_cmd =
     (let pack = (\<lambda>cmd. [LIDAR_CMD_SYNC_BYTE, LIDAR_CMD_SYNC_BYTE, LIDAR_CMD_SYNC_BYTE, LIDAR_CMD_SYNC_BYTE, 0, cmd, 0, 0, cmd])
      in case opts of
           E_SUBDEV_OPTS_START \<Rightarrow> pack GS_LIDAR_CMD_SCAN
         | E_SUBDEV_OPTS_STORE \<Rightarrow> pack LIDAR_CMD_FORCE_SCAN
         | E_SUBDEV_OPTS_STOP \<Rightarrow> pack GS_LIDAR_CMD_STOP
         | E_SUBDEV_OPTS_RAW \<Rightarrow> pack (ucast dev_cmd)
         | _ \<Rightarrow> [])"

section \<open>The parser as a device\<close>

lemma handler_laser_dispatch: "handler laser_dispatch"
  by (rule handlerI) (simp add: laser_dispatch_def ParseAddress_def ParseCameraParam_def Laser_ParseSigleFrame_def pb_publish_def Let_def)

interpretation laser_framing: framing 9 laser_sync laser_total_len
  by unfold_locales (auto simp: laser_total_len_def laser_sync_def gs_header_of_def nth_append)

lemma laser_loop_scan:
  assumes "pb_cbuf_raw p = Some c" and "holds_bytes n raw c"
  shows "\<exists>c'. holds_bytes n (snd (scan_frames 9 laser_sync laser_total_len raw)) c' \<and> laser_loop raw p =
    map_option (\<lambda>q. q\<lparr>pb_cbuf_raw := Some c'\<rparr>) (run_frames laser_dispatch (fst (scan_frames 9 laser_sync laser_total_len raw)) p)"
  using assms
proof (induction raw p arbitrary: c rule: laser_loop.induct)
  case (1 raw p)
  let ?n = "laser_total_len raw"
  note stop = laser_framing.scan_short laser_framing.scan_wait
  have same: "p\<lparr>pb_cbuf_raw := Some c\<rparr> = p" using 1(3) by simp
  consider "length raw < 9" | "9 \<le> length raw" "\<not> laser_sync raw" | "9 \<le> length raw" "laser_sync raw" "length raw < ?n"
    | "9 \<le> length raw" "laser_sync raw" "?n \<le> length raw" by linarith
  then show ?case
  proof cases
    case 2
    obtain c1 where c1: "pb_restore 1 p = p\<lparr>pb_cbuf_raw := Some c1\<rparr>" "holds_bytes n (drop 1 raw) c1"
      using pb_restore_holds [OF 1(3,4), of 1] 2 by auto
    have "laser_loop raw p = laser_loop (drop 1 raw) (pb_restore 1 p)" using 2 by (subst laser_loop.simps) simp
    then show ?thesis
      using 1(2) [OF 2, of c1] c1 laser_framing.scan_skip [OF 2] by (auto simp: run_frames_cbuf [OF handler_laser_dispatch] option.map_comp comp_def)
  next
    case 4
    obtain c1 where c1: "pb_restore ?n p = p\<lparr>pb_cbuf_raw := Some c1\<rparr>" "holds_bytes n (drop ?n raw) c1"
      using pb_restore_holds [OF 1(3,4) 4(3)] by auto
    have loop: "laser_loop raw p = (case laser_dispatch (take ?n raw) (pb_restore ?n p) of None \<Rightarrow> None | Some p1 \<Rightarrow> laser_loop (drop ?n raw) p1)"
      using 4 by (subst laser_loop.simps) simp
    have scan: "scan_frames 9 laser_sync laser_total_len raw = (take ?n raw # fst (scan_frames 9 laser_sync laser_total_len (drop ?n raw)),
        snd (scan_frames 9 laser_sync laser_total_len (drop ?n raw)))" by (rule laser_framing.scan_frame [OF 4])
    show ?thesis
    proof (cases "laser_dispatch (take ?n raw) p")
      case None
      obtain c' where "holds_bytes n (snd (scan_frames 9 laser_sync laser_total_len raw)) c'"
        using laser_framing.scan_suffix [of raw] pb_restore_holds [OF 1(3,4)] by metis
      then show ?thesis using None loop scan c1(1) by (auto simp: handler_cbuf [OF handler_laser_dispatch])
    next
      case (Some q)
      then have q: "laser_dispatch (take ?n raw) (pb_restore ?n p) = Some (q\<lparr>pb_cbuf_raw := Some c1\<rparr>)"
        using c1(1) by (simp add: handler_cbuf [OF handler_laser_dispatch])
      show ?thesis
        using 1(1) [OF 4(1,2) _ q, of c1] 4(3) c1(2) loop q scan Some
        by (auto simp: run_frames_cbuf [OF handler_laser_dispatch] option.map_comp comp_def)
    qed
  qed (use 1(3,4) same in \<open>auto simp: stop laser_loop.simps [of raw p] intro!: exI [of _ c]\<close>)
qed

lemma Laser_device:
  "frame_device 9 laser_sync laser_total_len 9 laser_dispatch Laser_ParseUartBuffer"
proof (unfold_locales, rule handler_laser_dispatch)
  fix p :: laser and c n bs assume p: "pb_cbuf_raw p = Some c" "holds_bytes n bs c"
  show "length bs < 9 \<Longrightarrow> Laser_ParseUartBuffer p = Some (0, p)"
    using read_cbuf_few [OF p] by (simp add: Laser_ParseUartBuffer_def)
  show "\<exists>c'. holds_bytes n (snd (scan_frames 9 laser_sync laser_total_len bs)) c' \<and> Laser_ParseUartBuffer p =
      map_option (\<lambda>q. (0, q\<lparr>pb_cbuf_raw := Some c'\<rparr>)) (run_frames laser_dispatch (fst (scan_frames 9 laser_sync laser_total_len bs)) p)"
    if "9 \<le> length bs"
    using laser_loop_scan [OF p] read_cbuf_enough [OF p that] by (auto simp: Laser_ParseUartBuffer_def option.map_comp comp_def)
qed

interpretation laser_device: frame_device 9 laser_sync laser_total_len 9 laser_dispatch Laser_ParseUartBuffer
  by (rule Laser_device)

section \<open>Properties\<close>

lemma laser_run:
  assumes "device_ready n [] p"
    and "\<forall>f \<in> set frames. 9 \<le> length f \<and> laser_sync f \<and> laser_total_len f = length f \<and> length f \<le> lim" and "9 \<le> lim"
    and "concat blocks = concat frames" and "\<forall>b \<in> set blocks. b \<noteq> [] \<and> lim + length b \<le> Suc n"
  shows "\<exists>c. holds_bytes n [] c \<and> device_run env Laser_ParseUartBuffer blocks p =
    map_option (\<lambda>q. q\<lparr>pb_cbuf_raw := Some c, pb_is_parsing_busy := False\<rparr>) (run_frames laser_dispatch frames p)"
proof -
  obtain c where c: "pb_cbuf_raw p = Some c" "holds_bytes n [] c" "\<not> pb_is_parsing_busy p" using assms(1) by (auto simp: device_ready_def)
  have frames: "\<forall>f \<in> set frames. laser_framing.is_frame f" "\<forall>f \<in> set frames. laser_framing.is_frame f \<and> length f \<le> lim"
    using assms(2) by (simp_all add: laser_framing.is_frame_def)
  have scan: "scan_frames 9 laser_sync laser_total_len (concat frames) = (frames, [])" by (rule laser_framing.scan_frames_aligned [OF frames(1)])
  have below: "laser_framing.rest_below lim [] (concat blocks)"
    using laser_framing.rest_below_aligned [OF _ frames(2)] assms(3,4) by simp
  have nil: "scan_frames 9 laser_sync laser_total_len [] = ([], [])" by (simp add: laser_framing.scan_short)
  have "length ([] :: byte list) < lim" using assms(3) by simp
  from laser_device.device_run_frames [OF c this assms(5) nil assms(3) below, of env] show ?thesis
    using scan assms(4) by auto
qed

text \<open>
  C28: A started line laser whose stream is a sequence of frames of at most \<open>lim\<close> bytes dispatches every frame, once and in order, however the
  driver cuts the stream into blocks, as long as the buffer has room for a block beside an incomplete frame; no byte is left in the buffer.
\<close>

theorem laser_frames_dispatched:
  assumes "device_ready n [] p"
    and "\<forall>f \<in> set frames. 9 \<le> length f \<and> laser_sync f \<and> laser_total_len f = length f \<and> length f \<le> lim" and "9 \<le> lim"
    and "concat blocks = concat frames" and "\<forall>b \<in> set blocks. b \<noteq> [] \<and> lim + length b \<le> Suc n"
  shows "\<exists>c. holds_bytes n [] c \<and> device_run env Laser_ParseUartBuffer blocks p =
    map_option (\<lambda>q. q\<lparr>pb_cbuf_raw := Some c, pb_is_parsing_busy := False\<rparr>) (run_frames laser_dispatch frames p)"
  by (rule laser_run [OF assms])

text \<open>
  C36: For any bytes, noise and broken frames included, the clouds the line laser publishes and the parameters it keeps depend on the stream
  only, not on how the driver cuts it into blocks, as long as what waits for the rest of a frame stays below \<open>lim\<close> bytes.
\<close>

theorem laser_blocks_irrelevant:
  assumes "device_ready n [] p" and "concat bs1 = concat bs2" and "9 \<le> lim"
    and "\<forall>x. prefix x (concat bs1) \<longrightarrow> length (snd (scan_frames 9 laser_sync laser_total_len x)) < lim"
    and "\<forall>b \<in> set bs1 \<union> set bs2. b \<noteq> [] \<and> lim + length b \<le> Suc n"
  shows "map_option (\<lambda>q. (pb_state q, pb_published q)) (device_run env Laser_ParseUartBuffer bs1 p) =
    map_option (\<lambda>q. (pb_state q, pb_published q)) (device_run env Laser_ParseUartBuffer bs2 p)"
proof -
  obtain c where c: "pb_cbuf_raw p = Some c" "holds_bytes n [] c" "\<not> pb_is_parsing_busy p" using assms(1) by (auto simp: device_ready_def)
  have nil: "scan_frames 9 laser_sync laser_total_len [] = ([], [])" by (simp add: laser_framing.scan_short)
  have one: "map_option (\<lambda>q. (pb_state q, pb_published q)) (device_run env Laser_ParseUartBuffer bs p) =
      map_option (\<lambda>q. (pb_state q, pb_published q)) (run_frames laser_dispatch (fst (scan_frames 9 laser_sync laser_total_len (concat bs))) p)"
    if "bs \<in> {bs1, bs2}" for bs
  proof -
    have below: "laser_framing.rest_below lim [] (concat bs)" using that assms(2,4) by (auto simp: laser_framing.rest_below_def)
    have blocks: "\<forall>b \<in> set bs. b \<noteq> [] \<and> lim + length b \<le> Suc n" using that assms(5) by auto
    have "length ([] :: byte list) < lim" using assms(3) by simp
    from laser_device.device_run_frames [OF c this blocks nil assms(3) below, of env] show ?thesis by (auto simp: option.map_comp comp_def)
  qed
  show ?thesis using one [of bs1] one [of bs2] assms(2) by simp
qed

lemma ParseCameraParam_address:
  "CheckCrc param \<Longrightarrow> length param = 18 \<Longrightarrow> ParseCameraParam param p = None \<longleftrightarrow> 6 \<le> unat (param ! 4)"
  by (auto simp: ParseCameraParam_def PackageMaxModuleNums_def Let_def drop_bit_eq_div unat_div)

text \<open>
  A well-formed parameter frame with an address of 6 or more anywhere in the stream makes the parser store parameters outside its arrays.
\<close>

theorem laser_foreign_address_aborts:
  assumes "device_ready n [] p"
    and "\<forall>f \<in> set frames. 9 \<le> length f \<and> laser_sync f \<and> laser_total_len f = length f \<and> length f \<le> lim" and "9 \<le> lim"
    and "concat blocks = concat frames" and "\<forall>b \<in> set blocks. b \<noteq> [] \<and> lim + length b \<le> Suc n"
    and "f \<in> set frames" and "length f = 18" and "CheckCrc f" and "f ! 5 = GS_LIDAR_CMD_GET_PARAMETER" and "6 \<le> unat (f ! 4)"
  shows "device_run env Laser_ParseUartBuffer blocks p = None"
proof -
  have "laser_dispatch f q = None" for q
    using assms(7-10) ParseCameraParam_address [of f q]
    by (simp add: laser_dispatch_def gs_header_of_def GS_LIDAR_CMD_GET_ADDRESS_def GS_LIDAR_CMD_STOP_def GS_LIDAR_CMD_GET_PARAMETER_def)
  then have "run_frames laser_dispatch frames p = None" by (rule run_frames_None [OF assms(6)])
  then show ?thesis using laser_run [OF assms(1-5), of env] by auto
qed

text \<open>The sequence number of the clouds is never advanced: with a publisher the code returns before it, without one it aborts.\<close>

lemma laser_dispatch_seq:
  "laser_dispatch f p = Some q \<Longrightarrow> ll_frame_seq (pb_state q) = ll_frame_seq (pb_state p) \<and>
     (\<exists>ms. pb_published q = pb_published p @ ms \<and> (\<forall>m \<in> set ms. pc_seq m = ll_frame_seq (pb_state p)))"
  by (auto simp: laser_dispatch_def ParseAddress_def ParseCameraParam_def Laser_ParseSigleFrame_def pb_publish_def Let_def
      split: if_splits option.splits)

lemma laser_seq_never_advances:
  "run_frames laser_dispatch fs p = Some q \<Longrightarrow> ll_frame_seq (pb_state q) = ll_frame_seq (pb_state p) \<and>
     (\<exists>ms. pb_published q = pb_published p @ ms \<and> (\<forall>m \<in> set ms. pc_seq m = ll_frame_seq (pb_state p)))"
proof (induction fs arbitrary: p)
  case (Cons f fs)
  then obtain p1 where p1: "laser_dispatch f p = Some p1" "run_frames laser_dispatch fs p1 = Some q" by (auto split: option.splits)
  obtain ms1 ms2 where "pb_published p1 = pb_published p @ ms1" "\<forall>m \<in> set ms1. pc_seq m = ll_frame_seq (pb_state p)"
      "pb_published q = pb_published p1 @ ms2" "\<forall>m \<in> set ms2. pc_seq m = ll_frame_seq (pb_state p1)"
    using laser_dispatch_seq [OF p1(1)] Cons.IH [OF p1(2)] by blast
  then show ?case
    using laser_dispatch_seq [OF p1(1)] Cons.IH [OF p1(2)] by (intro conjI exI [of _ "ms1 @ ms2"]) auto
qed simp

text \<open>A command packed for the device is a frame of the protocol with a good checksum.\<close>

lemma PackLlaserRawSetting_frame:
  assumes "opts \<in> {E_SUBDEV_OPTS_START, E_SUBDEV_OPTS_STORE, E_SUBDEV_OPTS_STOP, E_SUBDEV_OPTS_RAW}"
  shows "laser_framing.is_frame (PackLlaserRawSetting opts cmd)" and "CheckCrc (PackLlaserRawSetting opts cmd)"
proof -
  have up: "[4..<8] = [4, 5, 6, 7]" by (simp add: upt_rec)
  obtain c where "PackLlaserRawSetting opts cmd = [LIDAR_CMD_SYNC_BYTE, LIDAR_CMD_SYNC_BYTE, LIDAR_CMD_SYNC_BYTE, LIDAR_CMD_SYNC_BYTE, 0, c, 0, 0, c]"
    using assms by (auto simp: PackLlaserRawSetting_def)
  then show "laser_framing.is_frame (PackLlaserRawSetting opts cmd)" "CheckCrc (PackLlaserRawSetting opts cmd)"
    by (simp_all add: laser_framing.is_frame_def laser_sync_def laser_total_len_def gs_header_of_def le16_def CheckCrc_def up)
qed

section \<open>Witnesses\<close>

abbreviation laser_fresh :: LineLaserParser where
  "laser_fresh \<equiv> \<lparr>ll_params = replicate 3 \<lparr>gp_k0 = 0, gp_b0 = 0, gp_k1 = 0, gp_b1 = 0, gp_bias = 0\<rparr>, ll_have_params = False, ll_frame_seq = 0\<rparr>"

abbreviation laser_param_frame :: "byte \<Rightarrow> byte list" where
  "laser_param_frame addr \<equiv> [0xA5, 0xA5, 0xA5, 0xA5, addr, 0x61, 9, 0, 1, 0, 2, 0, 3, 0, 4, 0, 5, addr + 0x79]"

abbreviation laser_scan_frame :: "byte list" where
  "laser_scan_frame \<equiv> [0xA5, 0xA5, 0xA5, 0xA5, 0, 0x63, 6, 0, 0, 0, 5, 0, 7, 0, 0x75]"

lemmas laser_eval = laser_sync_def laser_total_len_def gs_header_of_def le16_def CheckCrc_def LIDAR_CMD_SYNC_BYTE_def upt_rec

lemma laser_example_wellformed:
  "\<forall>f \<in> set [laser_param_frame 2, laser_scan_frame]. 9 \<le> length f \<and> laser_sync f \<and> laser_total_len f = length f \<and> length f \<le> 18"
  by (simp add: laser_eval)

lemma laser_example_run:
  "map_option pb_published (run_frames laser_dispatch [laser_param_frame 2, laser_scan_frame] (started_device 64 laser_fresh)) =
     Some [\<lparr>pc_seq = 0, pc_points = [(0, 5), (1, 7)]\<rparr>]"
  by code_simp

lemma laser_frames_dispatched_witness:
  "map_option pb_published (device_run (\<lambda>c. c) Laser_ParseUartBuffer [take 7 (laser_param_frame 2), drop 7 (laser_param_frame 2) @ [0xA5],
     drop 1 laser_scan_frame] (started_device 64 laser_fresh)) = Some [\<lparr>pc_seq = 0, pc_points = [(0, 5), (1, 7)]\<rparr>]"
proof -
  let ?blocks = "[take 7 (laser_param_frame 2), drop 7 (laser_param_frame 2) @ [0xA5], drop 1 laser_scan_frame]"
  have "\<exists>c. holds_bytes 64 [] c \<and> device_run (\<lambda>c. c) Laser_ParseUartBuffer ?blocks (started_device 64 laser_fresh) =
      map_option (\<lambda>q. q\<lparr>pb_cbuf_raw := Some c, pb_is_parsing_busy := False\<rparr>)
        (run_frames laser_dispatch [laser_param_frame 2, laser_scan_frame] (started_device 64 laser_fresh))"
    by (rule laser_frames_dispatched [OF started_device(1) laser_example_wellformed]) simp_all
  then obtain c where run: "device_run (\<lambda>c. c) Laser_ParseUartBuffer ?blocks (started_device 64 laser_fresh) =
      map_option (\<lambda>q. q\<lparr>pb_cbuf_raw := Some c, pb_is_parsing_busy := False\<rparr>)
        (run_frames laser_dispatch [laser_param_frame 2, laser_scan_frame] (started_device 64 laser_fresh))" by blast
  have published: "pb_published (q\<lparr>pb_cbuf_raw := x, pb_is_parsing_busy := y\<rparr>) = pb_published q" for q :: laser and x y by simp
  show ?thesis unfolding run option.map_comp comp_def published by (rule laser_example_run)
qed

abbreviation laser_junk :: "byte list" where "laser_junk \<equiv> 0xA5 # 1 # [0xA5, 0xA5, 0xA5, 0xA5, 0, 0x64, 0, 0, 0x64]"

lemma laser_junk_rest:
  "\<forall>x. prefix x (concat [laser_junk]) \<longrightarrow> length (snd (scan_frames 9 laser_sync laser_total_len x)) < 18"
proof -
  have "\<forall>x \<in> set (prefixes laser_junk). length (snd (scan_frames 9 laser_sync laser_total_len x)) < 18"
    unfolding list_all_iff [symmetric] by code_simp
  then show ?thesis by (simp only: Ball_def in_set_prefixes concat.simps append_Nil2)
qed

lemma laser_blocks_irrelevant_witness:
  "map_option (\<lambda>q. (pb_state q, pb_published q)) (device_run (\<lambda>c. c) Laser_ParseUartBuffer [laser_junk] (started_device 64 laser_fresh)) =
   map_option (\<lambda>q. (pb_state q, pb_published q)) (device_run (\<lambda>c. c) Laser_ParseUartBuffer [take 3 laser_junk, drop 3 laser_junk]
     (started_device 64 laser_fresh))"
  by (rule laser_blocks_irrelevant [OF started_device(1) _ _ laser_junk_rest]) auto

lemma laser_foreign_address_aborts_witness:
  "device_run (\<lambda>c. c) Laser_ParseUartBuffer [take 7 (laser_param_frame 6), drop 7 (laser_param_frame 6)] (started_device 64 laser_fresh :: laser) = None"
  by (rule laser_foreign_address_aborts [OF started_device(1), where frames = "[laser_param_frame 6]" and lim = 18 and f = "laser_param_frame 6"])
    (auto simp: laser_eval GS_LIDAR_CMD_GET_PARAMETER_def)

end
