(* ===== verification/Inertial_Unit.thy ===== *)
theory Inertial_Unit
  imports Frame_Parser
begin

unbundle bit_operations_syntax

text \<open>
  \<open>modules/chassis/parser/parse_libs/imu_parser.cc\<close>, the parsers of the two inertial units. A published message carries the raw values of the
  frame; their conversion to floating point is not modelled.
\<close>

section \<open>The inertial units\<close>

record R6082VIMUData =
  r6_index :: byte
  r6_yaw_angle :: "16 word"
  r6_yaw_rate :: "16 word"
  r6_roll_angle :: "16 word"
  r6_pitch_angle :: "16 word"
  r6_acc_x :: "16 word"

record Zyf143IMUData =
  zy_acc :: "16 word \<times> 16 word \<times> 16 word"
  zy_ang :: "16 word \<times> 16 word \<times> 16 word"
  zy_yaw :: "16 word"
  zy_pitch :: "16 word"
  zy_roll :: "16 word"

datatype imu_message = Imu_R6082V R6082VIMUData | Imu_Zyf143 Zyf143IMUData

text \<open>The derived class keeps the number of frames.\<close>

type_synonym imu = "(int, imu_message) ParserBaseItf"

definition imu_publish :: "imu_message \<Rightarrow> imu \<Rightarrow> imu option" where
  "imu_publish m p =
     (let p1 = p\<lparr>pb_state := pb_state p + 1\<rparr>
      in if pb_state p1 mod 3 \<noteq> 0 then Some p1 else pb_publish m p1)"

definition R6082V_of :: "byte list \<Rightarrow> R6082VIMUData" where
  "R6082V_of bs = \<lparr>r6_index = bs ! 2, r6_yaw_angle = le16 (bs ! 3) (bs ! 4), r6_yaw_rate = le16 (bs ! 5) (bs ! 6),
     r6_roll_angle = le16 (bs ! 7) (bs ! 8), r6_pitch_angle = le16 (bs ! 9) (bs ! 10), r6_acc_x = le16 (bs ! 11) (bs ! 12)\<rparr>"

definition R6082V_calc_sum :: "byte list \<Rightarrow> byte" where
  "R6082V_calc_sum bs = bs ! 2 + bs ! 3 + bs ! 4 + bs ! 5 + bs ! 6 + bs ! 7 + bs ! 8 + bs ! 9 + bs ! 10 + bs ! 11 + bs ! 12 + bs ! 13"

definition ParseR6082VFrame :: "R6082VIMUData \<Rightarrow> imu \<Rightarrow> imu option" where
  "ParseR6082VFrame imu_msg p = imu_publish (Imu_R6082V imu_msg) p"

text \<open>The scan loop of both parsers on the bytes from \<open>head\<close> on: the frame size, the test of its marks, and what is done with a frame.\<close>

function imu_loop ::
    "nat \<Rightarrow> (byte list \<Rightarrow> bool) \<Rightarrow> (byte list \<Rightarrow> imu \<Rightarrow> imu option) \<Rightarrow> byte list \<Rightarrow> nat \<Rightarrow> imu \<Rightarrow> (nat \<times> imu) option" where
  "imu_loop sz marks on_frame raw head p =
     (if length raw \<ge> sz \<and> 0 < sz
      then if marks raw
           then (case on_frame (take sz raw) p of
                   None \<Rightarrow> None
                 | Some p1 \<Rightarrow> imu_loop sz marks on_frame (drop sz raw) (head + sz) p1)
           else imu_loop sz marks on_frame (drop 1 raw) (head + 1) p
      else Some (head, p))"
  by pat_completeness auto
termination
  by (relation "measure (\<lambda>(sz, marks, on_frame, raw, head, p). length raw)") auto

declare imu_loop.simps [simp del]

definition imu_parse ::
    "nat \<Rightarrow> nat \<Rightarrow> (byte list \<Rightarrow> bool) \<Rightarrow> (byte list \<Rightarrow> imu \<Rightarrow> imu option) \<Rightarrow> imu \<Rightarrow> (int \<times> imu) option" where
  "imu_parse min_len sz marks on_frame p =
     (case read_cbuf min_len p of
        None \<Rightarrow> None
      | Some None \<Rightarrow> Some (0, p)
      | Some (Some raw_data) \<Rightarrow>
          (case imu_loop sz marks on_frame raw_data 0 p of
             None \<Rightarrow> None
           | Some (head, p1) \<Rightarrow> Some (0, if head > 0 then pb_restore head p1 else p1)))"

definition R6082V_marks :: "byte list \<Rightarrow> bool" where
  "R6082V_marks raw \<longleftrightarrow> raw ! 0 = 0xAA \<and> raw ! 1 = 0x00 \<and> raw ! 13 = 0x55"

definition R6082V_on_frame :: "byte list \<Rightarrow> imu \<Rightarrow> imu option" where
  "R6082V_on_frame frame p = (if frame ! 14 = R6082V_calc_sum frame then ParseR6082VFrame (R6082V_of frame) p else Some p)"

definition DevR6082VParse :: "imu \<Rightarrow> (int \<times> imu) option" where
  "DevR6082VParse p = imu_parse 45 15 R6082V_marks R6082V_on_frame p"

definition IMU_ParseI2cBuffer :: "imu \<Rightarrow> (int \<times> imu) option" where
  "IMU_ParseI2cBuffer p = imu_parse 72 15 R6082V_marks R6082V_on_frame p"

text \<open>The fields of the second unit: 12 integers, the first is the mark, the last two the time stamp and the checksum.\<close>

definition zyf_field :: "byte list \<Rightarrow> nat \<Rightarrow> 16 word" where
  "zyf_field bs k = le16 (bs ! (2 * k)) (bs ! (2 * k + 1))"

definition Zyf143_of :: "byte list \<Rightarrow> Zyf143IMUData" where
  "Zyf143_of bs = \<lparr>zy_acc = (zyf_field bs 1, zyf_field bs 2, zyf_field bs 3), zy_ang = (zyf_field bs 4, zyf_field bs 5, zyf_field bs 6),
     zy_yaw = zyf_field bs 7, zy_pitch = zyf_field bs 8, zy_roll = zyf_field bs 9\<rparr>"

definition ParseZYF143Frame :: "Zyf143IMUData \<Rightarrow> imu \<Rightarrow> imu option" where
  "ParseZYF143Frame imu_msg p = imu_publish (Imu_Zyf143 imu_msg) p"

definition Zyf143_marks :: "byte list \<Rightarrow> bool" where
  "Zyf143_marks raw \<longleftrightarrow> raw ! 0 = 0xA5 \<and> raw ! 1 = 0xA5"

definition Zyf143_on_frame :: "byte list \<Rightarrow> imu \<Rightarrow> imu option" where
  "Zyf143_on_frame frame p =
     (if zyf_field frame 11 = zyf_field frame 6 + zyf_field frame 7 + zyf_field frame 8 + zyf_field frame 9
      then ParseZYF143Frame (Zyf143_of frame) p else Some p)"

definition DevZyf143Parse :: "imu \<Rightarrow> (int \<times> imu) option" where
  "DevZyf143Parse p = imu_parse 27 24 Zyf143_marks Zyf143_on_frame p"

text \<open>The parser is chosen by the type of the device in the configuration; for another type the function object stays empty.\<close>

datatype imu_device = Dev_R6082V | Dev_ZYF143


definition IMU_ParseUartBuffer :: "imu_device option \<Rightarrow> imu \<Rightarrow> (int \<times> imu) option" where
  "IMU_ParseUartBuffer dev_parse p =
     (case dev_parse of None \<Rightarrow> None | Some Dev_R6082V \<Rightarrow> DevR6082VParse p | Some Dev_ZYF143 \<Rightarrow> DevZyf143Parse p)"

section \<open>The parsers as devices\<close>

lemma handler_R6082V: "handler R6082V_on_frame"
  by (rule handlerI) (simp add: R6082V_on_frame_def ParseR6082VFrame_def imu_publish_def pb_publish_def Let_def)

lemma handler_Zyf143: "handler Zyf143_on_frame"
  by (rule handlerI) (simp add: Zyf143_on_frame_def ParseZYF143Frame_def imu_publish_def pb_publish_def Let_def)

text \<open>The inertial units: both parsers are the scan for frames of a fixed size.\<close>

context framing
begin

lemma imu_loop_scan:
  assumes "\<And>bs. sz bs = minl"
  shows "imu_loop minl marks h raw head p =
    map_option (\<lambda>q. (head + (length raw - length (snd (scan raw))), q)) (run_frames h (fst (scan raw)) p)"
proof (induction "length raw" arbitrary: raw head p rule: less_induct)
  case less
  have rest: "length (snd (scan bs)) \<le> length bs" for bs using scan_suffix [of bs] by auto
  consider "length raw < minl" | "minl \<le> length raw" "\<not> marks raw" | "minl \<le> length raw" "marks raw" by linarith
  then show ?case
  proof cases
    case 1
    then show ?thesis using scan_short [OF 1] by (subst imu_loop.simps) simp
  next
    case 2
    then have shorter: "length (drop 1 raw) < length raw" using minl_pos by simp
    have loop: "imu_loop minl marks h raw head p = imu_loop minl marks h (drop 1 raw) (head + 1) p"
      using 2 minl_pos by (subst imu_loop.simps) simp
    have count: "head + 1 + (length (drop 1 raw) - length (snd (scan (drop 1 raw)))) = head + (length raw - length (snd (scan (drop 1 raw))))"
      using rest [of "drop 1 raw"] shorter by simp
    show ?thesis by (simp only: loop less [OF shorter] scan_skip [OF 2] count)
  next
    case 3
    then have shorter: "length (drop minl raw) < length raw" using minl_pos by simp
    have "imu_loop minl marks h raw head p =
        (case h (take minl raw) p of None \<Rightarrow> None | Some p1 \<Rightarrow> imu_loop minl marks h (drop minl raw) (head + minl) p1)"
      using 3 minl_pos by (subst imu_loop.simps) simp
    moreover have "scan raw = (take minl raw # fst (scan (drop minl raw)), snd (scan (drop minl raw)))"
      using scan_frame [of raw] 3 assms by simp
    ultimately show ?thesis
      using less [OF shorter, of "head + minl"] rest [of "drop minl raw"] 3(1)
      by (cases "h (take minl raw) p") (simp_all add: option.map_comp comp_def)
  qed
qed

lemma imu_parse_few:
  "pb_cbuf_raw p = Some c \<Longrightarrow> holds_bytes n bs c \<Longrightarrow> length bs < thr \<Longrightarrow> imu_parse thr minl marks h p = Some (0, p)"
  by (simp add: imu_parse_def read_cbuf_few)

lemma imu_parse_enough:
  assumes "\<And>bs. sz bs = minl" and "handler h" and "pb_cbuf_raw p = Some c" and "holds_bytes n bs c" and "thr \<le> length bs"
  shows "\<exists>c'. holds_bytes n (snd (scan bs)) c' \<and>
    imu_parse thr minl marks h p = map_option (\<lambda>q. (0, q\<lparr>pb_cbuf_raw := Some c'\<rparr>)) (run_frames h (fst (scan bs)) p)"
proof -
  let ?k = "length bs - length (snd (scan bs))"
  obtain k where k: "k \<le> length bs" "snd (scan bs) = drop k bs" using scan_suffix by blast
  then have kk: "k = ?k" by simp
  obtain c' where c': "pb_restore k p = p\<lparr>pb_cbuf_raw := Some c'\<rparr>" "holds_bytes n (drop k bs) c'"
    using pb_restore_holds [OF assms(3,4) k(1)] by blast
  have parse: "imu_parse thr minl marks h p =
      map_option (\<lambda>q. (0, if k > 0 then pb_restore k q else q)) (run_frames h (fst (scan bs)) p)"
    using read_cbuf_enough [OF assms(3-5)] imu_loop_scan [OF assms(1), of h bs 0 p] kk
    by (cases "run_frames h (fst (scan bs)) p") (simp_all add: imu_parse_def)
  have same: "q\<lparr>pb_cbuf_raw := Some c\<rparr> = q \<and> pb_restore k q = q\<lparr>pb_cbuf_raw := Some (snd (CircularBuffer_Restore (int k) c))\<rparr>"
    if "run_frames h (fst (scan bs)) p = Some q" for q
    using run_frames_same_cbuf [OF assms(2) that] assms(3) by (simp add: pb_restore_def)
  show ?thesis
  proof (cases "k = 0")
    case True
    then show ?thesis using parse assms(4) k same
      by (intro exI [of _ c]) (cases "run_frames h (fst (scan bs)) p"; simp)
  next
    case False
    have "c' = snd (CircularBuffer_Restore (int k) c)" using c'(1) assms(3) by (auto simp: pb_restore_def dest: arg_cong [of _ _ pb_cbuf_raw])
    then show ?thesis using parse False c'(2) k same
      by (intro exI [of _ c']) (cases "run_frames h (fst (scan bs)) p"; simp)
  qed
qed

end

interpretation R6082V_framing: framing 15 R6082V_marks "\<lambda>_. 15"
  by unfold_locales (auto simp: R6082V_marks_def nth_append)


interpretation R6082V_i2c_device: frame_device 15 R6082V_marks "\<lambda>_. 15" 72 R6082V_on_frame IMU_ParseI2cBuffer
  by unfold_locales (simp_all add: IMU_ParseI2cBuffer_def handler_R6082V R6082V_framing.imu_parse_few R6082V_framing.imu_parse_enough)

interpretation Zyf143_framing: framing 24 Zyf143_marks "\<lambda>_. 24"
  by unfold_locales (auto simp: Zyf143_marks_def nth_append)

interpretation Zyf143_device: frame_device 24 Zyf143_marks "\<lambda>_. 24" 27 Zyf143_on_frame "IMU_ParseUartBuffer (Some Dev_ZYF143)"
  by unfold_locales (simp_all add: IMU_ParseUartBuffer_def DevZyf143Parse_def handler_Zyf143 Zyf143_framing.imu_parse_few Zyf143_framing.imu_parse_enough)

section \<open>Properties\<close>






end
