(* ===== verification/Servo_Registers.thy ===== *)
theory Servo_Registers
  imports Frame_Parser
begin

unbundle bit_operations_syntax

text \<open>
  \<open>modules/chassis/parser/parse_libs/ds20270da_driver.{h,c}\<close>, the registers of the servo drive: the tables of registers with their addresses,
  the arrays of pointers into them, the decoding of the frames of the drive, and the lists of registers that configure it. The texts that
  describe the registers are left out. A pointer to a register is the name of its structure; the values the drive reported are kept by that name.

  Addresses (\<open>int16_t\<close>) are integers. A null pointer that is followed and an access outside the buffer are \<open>None\<close>.
\<close>

section \<open>The tables\<close>

text \<open>The names \<open>f_c_p\<close>, \<open>d_p\<close> and \<open>p_c_p\<close> of the structures.\<close>

datatype des_ref = FN int int | DN int | PN int int

record ServoMotorBriefDes =
  axle_num :: int
  func_addr :: int

record ServoMotorDes =
  sm_seq :: int
  sm_code_m :: int
  sm_param_xyz :: int
  sm_lower_limit :: int
  sm_upper_limit :: int
  sm_ax0 :: ServoMotorBriefDes
  sm_ax1 :: ServoMotorBriefDes
  sm_des_last :: des_ref

definition GEN_SERVO_MOTOR_FN_DES :: "int \<Rightarrow> int \<Rightarrow> int \<Rightarrow> int \<Rightarrow> int \<Rightarrow> int \<Rightarrow> int \<Rightarrow> des_ref \<times> ServoMotorDes" where
  "GEN_SERVO_MOTOR_FN_DES seq code_m param_xyz last_code_m last_param_xyz lower_limit upper_limit =
     (FN code_m param_xyz,
      \<lparr>sm_seq = seq, sm_code_m = code_m, sm_param_xyz = param_xyz, sm_lower_limit = lower_limit, sm_upper_limit = upper_limit,
       sm_ax0 = \<lparr>axle_num = 0, func_addr = 0x2000 + code_m * 0x100 + param_xyz\<rparr>,
       sm_ax1 = \<lparr>axle_num = 1, func_addr = 0x3000 + code_m * 0x100 + param_xyz\<rparr>, sm_des_last = FN last_code_m last_param_xyz\<rparr>)"

definition GEN_SERVO_MOTOR_DN_DES :: "int \<Rightarrow> int \<Rightarrow> int \<Rightarrow> int \<Rightarrow> int \<Rightarrow> des_ref \<times> ServoMotorDes" where
  "GEN_SERVO_MOTOR_DN_DES seq param_xyz last_param_xyz lower_limit upper_limit =
     (DN param_xyz,
      \<lparr>sm_seq = seq, sm_code_m = - 11, sm_param_xyz = param_xyz, sm_lower_limit = lower_limit, sm_upper_limit = upper_limit,
       sm_ax0 = \<lparr>axle_num = 0, func_addr = 0x5000 + param_xyz\<rparr>,
       sm_ax1 = \<lparr>axle_num = 1, func_addr = 0x5100 + param_xyz\<rparr>, sm_des_last = DN last_param_xyz\<rparr>)"

definition GEN_SERVO_MOTOR_PN_DES :: "int \<Rightarrow> int \<Rightarrow> int \<Rightarrow> int \<Rightarrow> int \<Rightarrow> int \<Rightarrow> int \<Rightarrow> des_ref \<times> ServoMotorDes" where
  "GEN_SERVO_MOTOR_PN_DES seq code_m param_xyz last_code_m last_param_xyz lower_limit upper_limit =
     (PN code_m param_xyz,
      \<lparr>sm_seq = seq, sm_code_m = code_m, sm_param_xyz = param_xyz, sm_lower_limit = lower_limit, sm_upper_limit = upper_limit,
       sm_ax0 = \<lparr>axle_num = 0, func_addr = 0x4000 + code_m * 0x100 + param_xyz\<rparr>,
       sm_ax1 = \<lparr>axle_num = - 11, func_addr = - 11\<rparr>, sm_des_last = PN last_code_m last_param_xyz\<rparr>)"

definition servo_fn_des :: "(des_ref \<times> ServoMotorDes) list" where
  "servo_fn_des =
    [GEN_SERVO_MOTOR_FN_DES 0 0 0x0 0 0x0 100 800, GEN_SERVO_MOTOR_FN_DES 1 0 0x1 0 0x0 1 10000, GEN_SERVO_MOTOR_FN_DES 2 0 0x2 0 0x1 1 10000,
     GEN_SERVO_MOTOR_FN_DES 3 0 0x3 0 0x2 1 50, GEN_SERVO_MOTOR_FN_DES 4 0 0x4 0 0x3 1 10000, GEN_SERVO_MOTOR_FN_DES 5 0 0x5 0 0x4 1 10000,
     GEN_SERVO_MOTOR_FN_DES 6 0 0x6 0 0x5 1 10, GEN_SERVO_MOTOR_FN_DES 7 0 0x7 0 0x6 1 10000, GEN_SERVO_MOTOR_FN_DES 8 0 0x8 0 0x7 (- 1024) 1024,
     GEN_SERVO_MOTOR_FN_DES 9 1 0x0 0 0x8 0x8 1, GEN_SERVO_MOTOR_FN_DES 10 1 0x1 1 0x0 0 1, GEN_SERVO_MOTOR_FN_DES 11 1 0x2 1 0x1 0 20,
     GEN_SERVO_MOTOR_FN_DES 12 1 0x6 1 0x2 0 1, GEN_SERVO_MOTOR_FN_DES 13 1 0x7 1 0x6 0 1, GEN_SERVO_MOTOR_FN_DES 14 1 0x8 1 0x7 0 1,
     GEN_SERVO_MOTOR_FN_DES 15 1 0x9 1 0x8 0 1, GEN_SERVO_MOTOR_FN_DES 16 1 0xa 1 0x9 0 17, GEN_SERVO_MOTOR_FN_DES 17 1 0x10 1 0xa 0 10000,
     GEN_SERVO_MOTOR_FN_DES 18 1 0x11 1 0x10 0 10000, GEN_SERVO_MOTOR_FN_DES 19 1 0x12 1 0x11 0 300, GEN_SERVO_MOTOR_FN_DES 20 1 0x13 1 0x12 0 300,
     GEN_SERVO_MOTOR_FN_DES 21 1 0x14 1 0x13 0 11111, GEN_SERVO_MOTOR_FN_DES 22 1 0x15 1 0x14 0 11111,
     GEN_SERVO_MOTOR_FN_DES 23 1 0x16 1 0x15 0 11111, GEN_SERVO_MOTOR_FN_DES 24 1 0x17 1 0x16 0 1, GEN_SERVO_MOTOR_FN_DES 25 1 0x18 1 0x17 0 2000,
     GEN_SERVO_MOTOR_FN_DES 26 1 0x19 1 0x18 100 9999, GEN_SERVO_MOTOR_FN_DES 27 1 0x1a 1 0x19 0 20, GEN_SERVO_MOTOR_FN_DES 28 1 0x1b 1 0x1a 1 10000,
     GEN_SERVO_MOTOR_FN_DES 29 1 0x1c 1 0x1b 0 1000, GEN_SERVO_MOTOR_FN_DES 30 2 0x0 1 0x1c 1 8000, GEN_SERVO_MOTOR_FN_DES 31 2 0x1 2 0x0 1 8000,
     GEN_SERVO_MOTOR_FN_DES 32 2 0x4 2 0x1 1 9999, GEN_SERVO_MOTOR_FN_DES 33 2 0x5 2 0x4 1 9999, GEN_SERVO_MOTOR_FN_DES 34 2 0x6 2 0x5 1 9999,
     GEN_SERVO_MOTOR_FN_DES 35 2 0x7 2 0x6 1 9999, GEN_SERVO_MOTOR_FN_DES 36 2 0x8 2 0x7 1 9999, GEN_SERVO_MOTOR_FN_DES 37 2 0xb 2 0x8 0 17,
     GEN_SERVO_MOTOR_FN_DES 38 2 0xc 2 0xb 8 8192, GEN_SERVO_MOTOR_FN_DES 39 2 0xe 2 0xc 0 3000, GEN_SERVO_MOTOR_FN_DES 40 2 0xf 2 0xe 0 30000,
     GEN_SERVO_MOTOR_FN_DES 41 2 0x10 2 0xf 0 1, GEN_SERVO_MOTOR_FN_DES 42 3 0x0 2 0x10 1 10000, GEN_SERVO_MOTOR_FN_DES 43 3 0x1 3 0x0 1 5000,
     GEN_SERVO_MOTOR_FN_DES 44 3 0x2 3 0x1 0 1000, GEN_SERVO_MOTOR_FN_DES 45 3 0x3 3 0x2 0 1000, GEN_SERVO_MOTOR_FN_DES 46 3 0x4 3 0x3 0 1000,
     GEN_SERVO_MOTOR_FN_DES 47 3 0x5 3 0x4 0 1000, GEN_SERVO_MOTOR_FN_DES 48 3 0x6 3 0x5 1 1000, GEN_SERVO_MOTOR_FN_DES 49 3 0x7 3 0x6 0 1000,
     GEN_SERVO_MOTOR_FN_DES 50 3 0x8 3 0x7 0 1000, GEN_SERVO_MOTOR_FN_DES 51 3 0x9 3 0x8 1 1000, GEN_SERVO_MOTOR_FN_DES 52 3 0xa 3 0x9 0 1000,
     GEN_SERVO_MOTOR_FN_DES 53 3 0xb 3 0xa 0 1000, GEN_SERVO_MOTOR_FN_DES 54 3 0xd 3 0xb 0 3000, GEN_SERVO_MOTOR_FN_DES 55 3 0xe 3 0xd 0 3000,
     GEN_SERVO_MOTOR_FN_DES 56 3 0x10 3 0xe 100 5000, GEN_SERVO_MOTOR_FN_DES 57 3 0x11 3 0x10 0 4, GEN_SERVO_MOTOR_FN_DES 58 3 0x14 3 0x11 0 1000,
     GEN_SERVO_MOTOR_FN_DES 59 3 0x15 3 0x14 (- 2000) 2000, GEN_SERVO_MOTOR_FN_DES 60 3 0x16 3 0x15 32 1024,
     GEN_SERVO_MOTOR_FN_DES 61 3 0x17 3 0x16 (- 3000) 3000, GEN_SERVO_MOTOR_FN_DES 62 3 0x18 3 0x17 (- 6000) 6000,
     GEN_SERVO_MOTOR_FN_DES 63 3 0x19 3 0x18 (- 6000) 6000, GEN_SERVO_MOTOR_FN_DES 64 3 0x1a 3 0x19 (- 6000) 6000,
     GEN_SERVO_MOTOR_FN_DES 65 3 0x1b 3 0x1a (- 6000) 6000, GEN_SERVO_MOTOR_FN_DES 66 3 0x1c 3 0x1b (- 6000) 6000,
     GEN_SERVO_MOTOR_FN_DES 67 3 0x1d 3 0x1c (- 6000) 6000, GEN_SERVO_MOTOR_FN_DES 68 3 0x1e 3 0x1d (- 6000) 6000,
     GEN_SERVO_MOTOR_FN_DES 69 3 0x1f 3 0x1e (- 6000) 6000, GEN_SERVO_MOTOR_FN_DES 70 3 0x20 3 0x1f 0 5000,
     GEN_SERVO_MOTOR_FN_DES 71 3 0x21 3 0x20 0 5000, GEN_SERVO_MOTOR_FN_DES 72 3 0x23 3 0x21 0 5000, GEN_SERVO_MOTOR_FN_DES 73 3 0x24 3 0x23 8 8192,
     GEN_SERVO_MOTOR_FN_DES 74 3 0x25 3 0x24 0 3000, GEN_SERVO_MOTOR_FN_DES 75 3 0x26 3 0x25 0 3000, GEN_SERVO_MOTOR_FN_DES 76 3 0x27 3 0x26 0 300,
     GEN_SERVO_MOTOR_FN_DES 77 3 0x28 3 0x27 0 1, GEN_SERVO_MOTOR_FN_DES 78 3 0x29 3 0x28 0 2000, GEN_SERVO_MOTOR_FN_DES 79 4 0x0 3 0x29 1 5000,
     GEN_SERVO_MOTOR_FN_DES 80 4 0x1 4 0x0 1 5000, GEN_SERVO_MOTOR_FN_DES 81 4 0x2 4 0x1 1 5000, GEN_SERVO_MOTOR_FN_DES 82 4 0x3 4 0x2 1 5000,
     GEN_SERVO_MOTOR_FN_DES 83 4 0x4 4 0x3 1 5000, GEN_SERVO_MOTOR_FN_DES 84 4 0x5 4 0x4 0 1000, GEN_SERVO_MOTOR_FN_DES 85 4 0x8 4 0x5 (- 1000) 1000,
     GEN_SERVO_MOTOR_FN_DES 86 4 0x9 4 0x8 10 100, GEN_SERVO_MOTOR_FN_DES 87 4 0xa 4 0x9 0 1, GEN_SERVO_MOTOR_FN_DES 88 4 0xb 4 0xa 0 300,
     GEN_SERVO_MOTOR_FN_DES 89 4 0xc 4 0xb 32 1024, GEN_SERVO_MOTOR_FN_DES 90 4 0x15 4 0xc 32 2048, GEN_SERVO_MOTOR_FN_DES 91 4 0x22 4 0x15 0 1,
     GEN_SERVO_MOTOR_FN_DES 92 4 0x24 4 0x22 0 300, GEN_SERVO_MOTOR_FN_DES 93 4 0x25 4 0x24 0 300,
     GEN_SERVO_MOTOR_FN_DES 94 4 0x26 4 0x25 (- 6000) 6000, GEN_SERVO_MOTOR_FN_DES 95 4 0x2a 4 0x26 0 10000,
     GEN_SERVO_MOTOR_FN_DES 96 4 0x2d 4 0x2a 0 300, GEN_SERVO_MOTOR_FN_DES 97 4 0x2e 4 0x2d 10 2000]"

definition servo_dn_des :: "(des_ref \<times> ServoMotorDes) list" where
  "servo_dn_des =
    [GEN_SERVO_MOTOR_DN_DES 0 0x0 0x0 (- 1) (- 1), GEN_SERVO_MOTOR_DN_DES 1 0x1 0x0 (- 1) (- 1), GEN_SERVO_MOTOR_DN_DES 2 0x2 0x1 (- 1) (- 1),
     GEN_SERVO_MOTOR_DN_DES 3 0x3 0x2 (- 1) (- 1), GEN_SERVO_MOTOR_DN_DES 4 0x4 0x3 (- 1) (- 1), GEN_SERVO_MOTOR_DN_DES 5 0x5 0x4 (- 1) (- 1),
     GEN_SERVO_MOTOR_DN_DES 6 0x7 0x5 (- 1) (- 1), GEN_SERVO_MOTOR_DN_DES 7 0x9 0x7 (- 1) (- 1), GEN_SERVO_MOTOR_DN_DES 8 0xa 0x9 (- 1) (- 1),
     GEN_SERVO_MOTOR_DN_DES 9 0xb 0xa (- 1) (- 1), GEN_SERVO_MOTOR_DN_DES 10 0xc 0xb (- 1) (- 1), GEN_SERVO_MOTOR_DN_DES 11 0xd 0xc (- 1) (- 1),
     GEN_SERVO_MOTOR_DN_DES 12 0x12 0xd (- 1) (- 1), GEN_SERVO_MOTOR_DN_DES 13 0x13 0x12 (- 1) (- 1),
     GEN_SERVO_MOTOR_DN_DES 14 0x14 0x13 (- 1) (- 1), GEN_SERVO_MOTOR_DN_DES 15 0x15 0x14 (- 1) (- 1),
     GEN_SERVO_MOTOR_DN_DES 16 0x16 0x15 (- 1) (- 1), GEN_SERVO_MOTOR_DN_DES 17 0x17 0x16 (- 1) (- 1),
     GEN_SERVO_MOTOR_DN_DES 18 0x18 0x17 (- 1) (- 1), GEN_SERVO_MOTOR_DN_DES 19 0x19 0x18 (- 1) (- 1),
     GEN_SERVO_MOTOR_DN_DES 20 0x1a 0x19 (- 1) (- 1), GEN_SERVO_MOTOR_DN_DES 21 0x1b 0x1a (- 1) (- 1)]"

definition servo_pn_des :: "(des_ref \<times> ServoMotorDes) list" where
  "servo_pn_des =
    [GEN_SERVO_MOTOR_PN_DES 0 0 0x0 0 0x0 0 2199, GEN_SERVO_MOTOR_PN_DES 1 0 0x1 0 0x0 0 2199, GEN_SERVO_MOTOR_PN_DES 2 0 0x2 0 0x1 0 2199,
     GEN_SERVO_MOTOR_PN_DES 3 0 0x3 0 0x2 0 2199, GEN_SERVO_MOTOR_PN_DES 4 1 0x0 0 0x3 0 3199, GEN_SERVO_MOTOR_PN_DES 5 1 0x1 1 0x0 0 3199,
     GEN_SERVO_MOTOR_PN_DES 6 1 0x2 1 0x1 0 3199, GEN_SERVO_MOTOR_PN_DES 7 1 0x3 1 0x2 0 3199, GEN_SERVO_MOTOR_PN_DES 8 1 0x4 1 0x3 0 3199,
     GEN_SERVO_MOTOR_PN_DES 9 1 0x5 1 0x4 0 3199, GEN_SERVO_MOTOR_PN_DES 10 1 0x6 1 0x5 0 3199, GEN_SERVO_MOTOR_PN_DES 11 1 0x7 1 0x6 0 3199,
     GEN_SERVO_MOTOR_PN_DES 12 4 0x0 1 0x7 0 8192, GEN_SERVO_MOTOR_PN_DES 13 4 0x3 4 0x0 0 1200, GEN_SERVO_MOTOR_PN_DES 14 4 0x4 4 0x3 0 1200,
     GEN_SERVO_MOTOR_PN_DES 15 4 0x5 4 0x4 0 1200, GEN_SERVO_MOTOR_PN_DES 16 4 0x6 4 0x5 0 1200, GEN_SERVO_MOTOR_PN_DES 17 4 0x7 4 0x6 (- 1) 1000,
     GEN_SERVO_MOTOR_PN_DES 18 4 0x8 4 0x7 (- 1) 1000, GEN_SERVO_MOTOR_PN_DES 19 4 0x9 4 0x8 1 2000, GEN_SERVO_MOTOR_PN_DES 20 4 0xa 4 0x9 1 2000,
     GEN_SERVO_MOTOR_PN_DES 21 5 0x0 4 0xa 0 255, GEN_SERVO_MOTOR_PN_DES 22 5 0x1 5 0x0 0 6, GEN_SERVO_MOTOR_PN_DES 23 5 0x2 5 0x1 0 6,
     GEN_SERVO_MOTOR_PN_DES 24 5 0x3 5 0x2 0 255, GEN_SERVO_MOTOR_PN_DES 25 5 0x4 5 0x3 0 6, GEN_SERVO_MOTOR_PN_DES 26 5 0x5 5 0x4 0 6,
     GEN_SERVO_MOTOR_PN_DES 27 5 0x6 5 0x5 0 9999, GEN_SERVO_MOTOR_PN_DES 28 5 0x7 5 0x6 0 1000, GEN_SERVO_MOTOR_PN_DES 29 5 0x8 5 0x7 0 6,
     GEN_SERVO_MOTOR_PN_DES 30 5 0x9 5 0x8 0 1111, GEN_SERVO_MOTOR_PN_DES 31 5 0xa 5 0x9 0 1, GEN_SERVO_MOTOR_PN_DES 32 5 0xb 5 0xa 0 9999,
     GEN_SERVO_MOTOR_PN_DES 33 5 0xc 5 0xb 0 2, GEN_SERVO_MOTOR_PN_DES 34 5 0xd 5 0xc 0 1, GEN_SERVO_MOTOR_PN_DES 35 5 0xe 5 0xd 0 9999,
     GEN_SERVO_MOTOR_PN_DES 36 5 0xf 5 0xe 0 9999, GEN_SERVO_MOTOR_PN_DES 37 6 0x0 5 0xf 0 9999, GEN_SERVO_MOTOR_PN_DES 38 6 0x2 6 0x0 0 1,
     GEN_SERVO_MOTOR_PN_DES 39 6 0x3 6 0x2 0 9999, GEN_SERVO_MOTOR_PN_DES 40 6 0x4 6 0x3 0 1, GEN_SERVO_MOTOR_PN_DES 41 6 0xa 6 0x4 0 9999,
     GEN_SERVO_MOTOR_PN_DES 42 6 0xb 6 0xa 0 20000, GEN_SERVO_MOTOR_PN_DES 43 6 0xc 6 0xb 0 1, GEN_SERVO_MOTOR_PN_DES 44 6 0xd 6 0xc 0 9999,
     GEN_SERVO_MOTOR_PN_DES 45 6 0xe 6 0xd 0 9999]"

definition servo_des :: "des_ref \<Rightarrow> ServoMotorDes" where
  "servo_des r = the (map_of (servo_fn_des @ servo_dn_des @ servo_pn_des) r)"

definition ax0_addr :: "des_ref \<Rightarrow> int" where "ax0_addr r = func_addr (sm_ax0 (servo_des r))"
definition ax1_addr :: "des_ref \<Rightarrow> int" where "ax1_addr r = func_addr (sm_ax1 (servo_des r))"

section \<open>The arrays of pointers\<close>

text \<open>The static variables of the driver. \<open>sv_reg r is_ax0\<close> is \<open>reg_value\<close> of an axle of the structure \<open>r\<close>.\<close>

record ServoDriver =
  sv_fn :: "des_ref option list"
  sv_dn :: "des_ref option list"
  sv_pn :: "des_ref option list"
  sv_reg :: "des_ref \<Rightarrow> bool \<Rightarrow> 16 word"
  l_wheel_diameter_mm :: "32 word"
  l_wheel_distance_mm :: "32 word"
  l_accelerate_time_ms :: "32 word"
  l_decelerate_time_ms :: "32 word"
  l_speed_report_period_ms :: "32 word"
  l_status_report_period_ms :: "32 word"

definition ServoDriver_static :: ServoDriver where
  "ServoDriver_static = \<lparr>sv_fn = replicate 98 None, sv_dn = replicate 22 None, sv_pn = replicate 46 None, sv_reg = (\<lambda>_ _. - 11),
     l_wheel_diameter_mm = - 1, l_wheel_distance_mm = - 1, l_accelerate_time_ms = - 1, l_decelerate_time_ms = - 1,
     l_speed_report_period_ms = - 1, l_status_report_period_ms = - 1\<rparr>"

text \<open>The loops fill an array from its last element to the first, following \<open>des_last\<close>.\<close>

primrec des_chain :: "nat \<Rightarrow> des_ref \<Rightarrow> des_ref list \<Rightarrow> des_ref list" where
  "des_chain 0 x acc = acc"
| "des_chain (Suc n) x acc = des_chain n (sm_des_last (servo_des x)) (x # acc)"

definition init_servo_motor_fn_des :: "ServoDriver \<Rightarrow> ServoDriver" where
  "init_servo_motor_fn_des d = d\<lparr>sv_fn := map Some (des_chain 98 (FN 4 0x2e) [])\<rparr>"

definition init_servo_motor_dn_des :: "ServoDriver \<Rightarrow> ServoDriver" where
  "init_servo_motor_dn_des d = d\<lparr>sv_dn := map Some (des_chain 22 (DN 0x1b) [])\<rparr>"

definition init_servo_motor_pn_des :: "ServoDriver \<Rightarrow> ServoDriver" where
  "init_servo_motor_pn_des d = d\<lparr>sv_pn := map Some (des_chain 46 (PN 6 0xc) [])\<rparr>"

text \<open>The search for an address: \<open>None\<close> if it follows a null pointer, otherwise the structure found and the axle.\<close>

definition addr_is :: "int \<Rightarrow> byte \<Rightarrow> byte \<Rightarrow> bool" where
  "addr_is addr addr_l addr_h \<longleftrightarrow> addr mod 0x100 = uint addr_l \<and> addr div 0x100 mod 0x100 = uint addr_h"

fun find_des_by_addr :: "des_ref option list \<Rightarrow> byte \<Rightarrow> byte \<Rightarrow> (des_ref \<times> bool) option option" where
  "find_des_by_addr [] addr_l addr_h = Some None"
| "find_des_by_addr (None # ptrs) addr_l addr_h = None"
| "find_des_by_addr (Some r # ptrs) addr_l addr_h =
     (if addr_is (ax0_addr r) addr_l addr_h then Some (Some (r, True))
      else if addr_is (ax1_addr r) addr_l addr_h then Some (Some (r, False))
      else find_des_by_addr ptrs addr_l addr_h)"

definition find_servo_motor_fn_des_by_addr :: "ServoDriver \<Rightarrow> byte \<Rightarrow> byte \<Rightarrow> (des_ref \<times> bool) option option" where
  "find_servo_motor_fn_des_by_addr d = find_des_by_addr (sv_fn d)"

definition find_servo_motor_dn_des_by_addr :: "ServoDriver \<Rightarrow> byte \<Rightarrow> byte \<Rightarrow> (des_ref \<times> bool) option option" where
  "find_servo_motor_dn_des_by_addr d = find_des_by_addr (sv_dn d)"

definition find_servo_motor_pn_des_by_addr :: "ServoDriver \<Rightarrow> byte \<Rightarrow> byte \<Rightarrow> (des_ref \<times> bool) option option" where
  "find_servo_motor_pn_des_by_addr d = find_des_by_addr (sv_pn d)"

text \<open>The addresses of all registers, for a query.\<close>

definition table_refs :: "des_ref option list \<Rightarrow> des_ref list option" where
  "table_refs ptrs = (if None \<in> set ptrs then None else Some (map the ptrs))"

definition get_servo_motor_all_fn_addrs :: "ServoDriver \<Rightarrow> int list option" where
  "get_servo_motor_all_fn_addrs d = map_option (\<lambda>rs. concat (map (\<lambda>r. [ax0_addr r, ax1_addr r]) rs)) (table_refs (sv_fn d))"

definition get_servo_motor_all_dn_addrs :: "ServoDriver \<Rightarrow> int list option" where
  "get_servo_motor_all_dn_addrs d = map_option (\<lambda>rs. concat (map (\<lambda>r. [ax0_addr r, ax1_addr r]) rs)) (table_refs (sv_dn d))"

definition get_servo_motor_all_pn_addrs :: "ServoDriver \<Rightarrow> int list option" where
  "get_servo_motor_all_pn_addrs d = map_option (map ax0_addr) (table_refs (sv_pn d))"

definition config_servo_motor_parameters :: "32 word \<Rightarrow> 32 word \<Rightarrow> 32 word \<Rightarrow> 32 word \<Rightarrow> 32 word \<Rightarrow> 32 word \<Rightarrow> ServoDriver \<Rightarrow> ServoDriver" where
  "config_servo_motor_parameters wheel_diameter_mm wheel_distance_mm accelerate_time_ms decelerate_time_ms speed_report_period_ms status_report_period_ms d =
     d\<lparr>l_wheel_diameter_mm := wheel_diameter_mm, l_wheel_distance_mm := wheel_distance_mm, l_accelerate_time_ms := accelerate_time_ms,
       l_decelerate_time_ms := decelerate_time_ms, l_speed_report_period_ms := speed_report_period_ms,
       l_status_report_period_ms := status_report_period_ms\<rparr>"

section \<open>Frames of the drive\<close>

definition DS_MOTOR_DRIVE_MOTOR_AXLE_1 :: nat where "DS_MOTOR_DRIVE_MOTOR_AXLE_1 = 0x0601"
definition DS_MOTOR_DRIVE_MOTOR_AXLE_2 :: nat where "DS_MOTOR_DRIVE_MOTOR_AXLE_2 = 0x0602"
definition DS_MOTOR_READ_BOTH_CMD :: byte where "DS_MOTOR_READ_BOTH_CMD = 0xe8"
definition DS_MOTOR_WRITE_BOTH_CMD :: byte where "DS_MOTOR_WRITE_BOTH_CMD = 0xe9"
definition DS_MOTOR_WRITE_DIFF_SPEED :: byte where "DS_MOTOR_WRITE_DIFF_SPEED = 0xea"
definition DS_MOTOR_WRITE_CANOPEN_1 :: byte where "DS_MOTOR_WRITE_CANOPEN_1 = 0x2f"
definition DS_MOTOR_WRITE_CANOPEN_2 :: byte where "DS_MOTOR_WRITE_CANOPEN_2 = 0x24"
definition DS_MOTOR_WRITE_CANOPEN_4 :: byte where "DS_MOTOR_WRITE_CANOPEN_4 = 0x23"
definition DS_MOTOR_ACK_READ_CMD :: byte where "DS_MOTOR_ACK_READ_CMD = 0x4b"
definition DS_MOTOR_ACK_WRITE_CMD :: byte where "DS_MOTOR_ACK_WRITE_CMD = 0x60"

lemmas DS_MOTOR_defs = DS_MOTOR_READ_BOTH_CMD_def DS_MOTOR_WRITE_BOTH_CMD_def DS_MOTOR_WRITE_DIFF_SPEED_def DS_MOTOR_WRITE_CANOPEN_1_def
  DS_MOTOR_WRITE_CANOPEN_2_def DS_MOTOR_WRITE_CANOPEN_4_def DS_MOTOR_ACK_READ_CMD_def DS_MOTOR_ACK_WRITE_CMD_def

definition le32 :: "byte \<Rightarrow> byte \<Rightarrow> byte \<Rightarrow> byte \<Rightarrow> 32 word" where
  "le32 b0 b1 b2 b3 = ucast b0 OR push_bit 8 (ucast b1) OR push_bit 16 (ucast b2) OR push_bit 24 (ucast b3)"

text \<open>What a frame reports; \<open>-1\<close> where it does not.\<close>

record servo_info =
  si_speed_left :: "32 word"
  si_speed_right :: "32 word"
  si_encoder_left :: "32 word"
  si_encoder_right :: "32 word"
  si_status_left :: "32 word"
  si_status_right :: "32 word"

definition servo_info_none :: servo_info where
  "servo_info_none = \<lparr>si_speed_left = - 1, si_speed_right = - 1, si_encoder_left = - 1, si_encoder_right = - 1, si_status_left = - 1, si_status_right = - 1\<rparr>"

text \<open>The answer to a query: the value is stored in the structure with the address.\<close>

definition store_reg :: "byte list \<Rightarrow> (des_ref \<times> bool) \<Rightarrow> ServoDriver \<Rightarrow> ServoDriver" where
  "store_reg buf at d = (case at of (r, is_ax0) \<Rightarrow> d\<lparr>sv_reg := (sv_reg d)(r := (sv_reg d r)(is_ax0 := le16 (buf ! 6) (buf ! 7)))\<rparr>)"

definition parse_read_ack :: "byte list \<Rightarrow> ServoDriver \<Rightarrow> ServoDriver option" where
  "parse_read_ack buf d =
     (if length buf < 10 then None
      else case find_servo_motor_fn_des_by_addr d (buf ! 3) (buf ! 4) of
             None \<Rightarrow> None
           | Some (Some at) \<Rightarrow> Some (store_reg buf at d)
           | Some None \<Rightarrow>
               (case find_servo_motor_dn_des_by_addr d (buf ! 3) (buf ! 4) of
                  None \<Rightarrow> None
                | Some (Some at) \<Rightarrow> Some (store_reg buf at d)
                | Some None \<Rightarrow>
                    (case find_servo_motor_pn_des_by_addr d (buf ! 3) (buf ! 4) of
                       None \<Rightarrow> None
                     | Some (Some at) \<Rightarrow> Some (store_reg buf at d)
                     | Some None \<Rightarrow> Some d)))"

text \<open>The buffer is at least as long as the ten bytes of a frame; \<open>len\<close> is what the driver says of it.\<close>

definition parse_servo_motor_info :: "byte list \<Rightarrow> nat \<Rightarrow> servo_info \<Rightarrow> ServoDriver \<Rightarrow> (servo_info \<times> ServoDriver) option" where
  "parse_servo_motor_info buf len si d =
     (if length buf < 10 then None
      else if buf ! 2 \<in> {DS_MOTOR_READ_BOTH_CMD, DS_MOTOR_WRITE_BOTH_CMD, DS_MOTOR_WRITE_CANOPEN_1, DS_MOTOR_WRITE_CANOPEN_2, DS_MOTOR_WRITE_CANOPEN_4}
      then Some (si, d)
      else if len \<noteq> 10 \<and> len \<noteq> 6 \<and> len \<noteq> 5 then (if len \<le> length buf then Some (si, d) else None)
      else let id = le16 (buf ! 0) (buf ! 1); v = le32 (buf ! 2) (buf ! 3) (buf ! 4) (buf ! 5); w = le32 (buf ! 6) (buf ! 7) (buf ! 8) (buf ! 9)
           in if id = 0x1081 then Some (si\<lparr>si_speed_right := v, si_encoder_right := w\<rparr>, d)
              else if id = 0x1082 then Some (si\<lparr>si_speed_left := v, si_encoder_left := w\<rparr>, d)
              else if id = 0x2081 then Some (si\<lparr>si_status_right := v\<rparr>, d)
              else if id = 0x2082 then Some (si\<lparr>si_status_left := v\<rparr>, d)
              else if id = 0x4001 \<or> id = 0x4002 then Some (si, d)
              else if buf ! 2 = DS_MOTOR_ACK_READ_CMD then map_option (Pair si) (parse_read_ack buf d)
              else Some (si, d))"

section \<open>Lists of registers\<close>

text \<open>An address in a frame.\<close>

definition addr_bytes :: "int \<Rightarrow> byte list" where
  "addr_bytes addr = [word_of_int addr, word_of_int (addr div 0x100)]"

text \<open>The arrays of addresses and values are filled from index \<open>*size\<close> on: the lists hold the entries filled so far.\<close>

type_synonym reg_values = "(int \<times> 32 word) list"

definition config_servo_motor_init :: "ServoDriver \<Rightarrow> reg_values \<Rightarrow> reg_values" where
  "config_servo_motor_init d av = av @
     [(ax0_addr (FN 3 0x18), 0),
      (ax0_addr (PN 5 0xd), 0x00010000),
      (ax0_addr (PN 6 0xa), l_wheel_diameter_mm d OR push_bit 16 (l_wheel_diameter_mm d)),
      (ax0_addr (PN 6 0xb), l_wheel_distance_mm d OR push_bit 16 (l_wheel_distance_mm d)),
      (ax0_addr (PN 6 0xc), 0x00000000),
      (ax0_addr (FN 3 0x18), 0)]"

definition config_servo_motor_disable :: "reg_values \<Rightarrow> reg_values" where
  "config_servo_motor_disable av = av @ [(ax0_addr (FN 3 0x18), 0), (ax0_addr (FN 1 0x0), 0)]"

definition config_servo_motor_stop :: "reg_values \<Rightarrow> reg_values" where
  "config_servo_motor_stop av = av @ [(ax0_addr (FN 3 0x18), 0)]"

definition config_servo_motor_canopen_enable :: "reg_values \<Rightarrow> reg_values" where
  "config_servo_motor_canopen_enable av = av @ [(ax0_addr (FN 1 0x2), 0x00140014)]"

record can_config =
  cg_cmd :: byte
  cg_addr :: int
  cg_sub_id :: byte
  cg_value :: "32 word"

definition canopen_1 :: "int \<Rightarrow> byte \<Rightarrow> 32 word \<Rightarrow> can_config" where
  "canopen_1 addr sub_id value = \<lparr>cg_cmd = DS_MOTOR_WRITE_CANOPEN_1, cg_addr = addr, cg_sub_id = sub_id, cg_value = value\<rparr>"

definition canopen_4 :: "int \<Rightarrow> byte \<Rightarrow> 32 word \<Rightarrow> can_config" where
  "canopen_4 addr sub_id value = \<lparr>cg_cmd = DS_MOTOR_WRITE_CANOPEN_4, cg_addr = addr, cg_sub_id = sub_id, cg_value = value\<rparr>"

definition config_servo_motor_canopen_mode :: "can_config list \<Rightarrow> can_config list" where
  "config_servo_motor_canopen_mode cs = cs @ [canopen_1 0x6060 0x00 0x00030000]"

definition config_servo_motor_acc_moderate_time :: "ServoDriver \<Rightarrow> can_config list \<Rightarrow> can_config list" where
  "config_servo_motor_acc_moderate_time d cs = cs @
     [canopen_4 0x6083 0x00 (push_bit 16 (l_accelerate_time_ms d)), canopen_4 0x6084 0x00 (push_bit 16 (l_decelerate_time_ms d))]"

definition config_servo_motor_tpdo_rpdo :: "ServoDriver \<Rightarrow> can_config list \<Rightarrow> can_config list" where
  "config_servo_motor_tpdo_rpdo d cs = cs @
     [canopen_1 0x1a00 0x00 0x00000000, canopen_4 0x1a00 0x01 0x00206069, canopen_4 0x1a00 0x02 0x00206063,
      canopen_1 0x1800 0x02 0x00fe0000,
      canopen_1 0x1800 0x03 (push_bit 16 (l_speed_report_period_ms d)), canopen_1 0x1800 0x05 (push_bit 16 (l_speed_report_period_ms d)),
      canopen_1 0x1a01 0x00 0x00000000, canopen_4 0x1a01 0x01 0x00106041, canopen_1 0x1a01 0x00 0x00020000,
      canopen_1 0x1801 0x02 0x00fe0000,
      canopen_1 0x1801 0x03 (push_bit 16 (l_status_report_period_ms d)), canopen_1 0x1801 0x05 (push_bit 16 (l_status_report_period_ms d)),
      canopen_1 0x1602 0x00 0x00000000, canopen_4 0x1602 0x01 0x001060ff, canopen_1 0x1602 0x00 0x00010000]"

section \<open>The tables are consistent\<close>

text \<open>The addresses follow from the names.\<close>

fun des_addr :: "des_ref \<Rightarrow> bool \<Rightarrow> int" where
  "des_addr (FN c p) is_ax0 = (if is_ax0 then 0x2000 else 0x3000) + c * 0x100 + p"
| "des_addr (DN p) is_ax0 = (if is_ax0 then 0x5000 else 0x5100) + p"
| "des_addr (PN c p) is_ax0 = (if is_ax0 then 0x4000 + c * 0x100 + p else - 11)"

fun des_valid :: "des_ref \<Rightarrow> bool" where
  "des_valid (FN c p) \<longleftrightarrow> 0 \<le> c \<and> c < 5 \<and> 0 \<le> p \<and> p < 0x100"
| "des_valid (DN p) \<longleftrightarrow> 0 \<le> p \<and> p < 0x100"
| "des_valid (PN c p) \<longleftrightarrow> 0 \<le> c \<and> c < 7 \<and> 0 \<le> p \<and> p < 0x100"

text \<open>A table in order: the keys increase, every structure points to the one before it, and the addresses are those of the names.\<close>

fun table_ok :: "des_ref \<Rightarrow> (des_ref \<times> ServoMotorDes) list \<Rightarrow> bool" where
  "table_ok x [] \<longleftrightarrow> True"
| "table_ok x ((r, v) # t) \<longleftrightarrow> sm_des_last v = x \<and> des_addr x True < des_addr r True \<and> des_valid r \<and>
     func_addr (sm_ax0 v) = des_addr r True \<and> func_addr (sm_ax1 v) = des_addr r False \<and> table_ok r t"

lemma table_ok_above: "table_ok x t \<Longrightarrow> rv \<in> set t \<Longrightarrow> des_addr x True < des_addr (fst rv) True"
  by (induction x t rule: table_ok.induct) auto

lemma table_ok_lookup:
  "table_ok x t \<Longrightarrow> (r, v) \<in> set t \<Longrightarrow> map_of t r = Some v \<and> des_valid r \<and> func_addr (sm_ax0 v) = des_addr r True \<and>
     func_addr (sm_ax1 v) = des_addr r False"
proof (induction x t rule: table_ok.induct)
  case (2 x r' v' t)
  show ?case
  proof (cases "(r, v) \<in> set t")
    case True
    then have "r \<noteq> r'" using 2(2) table_ok_above [of r' t "(r, v)"] by auto
    then show ?thesis using 2 True by simp
  next
    case False
    then show ?thesis using 2 by auto
  qed
qed simp

text \<open>The first structure of a table points to itself.\<close>

definition full_table_ok :: "(des_ref \<times> ServoMotorDes) list \<Rightarrow> bool" where
  "full_table_ok t \<longleftrightarrow> t \<noteq> [] \<and> table_ok (fst (hd t)) (tl t) \<and> sm_des_last (snd (hd t)) = fst (hd t) \<and> des_valid (fst (hd t)) \<and>
     func_addr (sm_ax0 (snd (hd t))) = des_addr (fst (hd t)) True \<and> func_addr (sm_ax1 (snd (hd t))) = des_addr (fst (hd t)) False"

lemma full_table_lookup:
  assumes "full_table_ok t" and "(r, v) \<in> set t"
  shows "map_of t r = Some v \<and> des_valid r \<and> func_addr (sm_ax0 v) = des_addr r True \<and> func_addr (sm_ax1 v) = des_addr r False"
proof -
  obtain r0 v0 t' where t: "t = (r0, v0) # t'" "table_ok r0 t'" using assms(1) by (cases t) (auto simp: full_table_ok_def)
  show ?thesis
  proof (cases "(r, v) \<in> set t'")
    case True
    then have "r \<noteq> r0" using table_ok_above [OF t(2) True] by auto
    then show ?thesis using table_ok_lookup [OF t(2) True] t(1) by simp
  next
    case False
    then show ?thesis using assms t(1) by (auto simp: full_table_ok_def)
  qed
qed

lemma fn_ok: "full_table_ok servo_fn_des" and fn_names: "\<forall>rv \<in> set servo_fn_des. \<exists>c p. fst rv = FN c p"
  unfolding full_table_ok_def servo_fn_des_def GEN_SERVO_MOTOR_FN_DES_def by simp_all

lemma dn_ok: "full_table_ok servo_dn_des" and dn_names: "\<forall>rv \<in> set servo_dn_des. \<exists>p. fst rv = DN p"
  unfolding full_table_ok_def servo_dn_des_def GEN_SERVO_MOTOR_DN_DES_def by simp_all

lemma pn_ok: "full_table_ok servo_pn_des" and pn_names: "\<forall>rv \<in> set servo_pn_des. \<exists>c p. fst rv = PN c p"
  unfolding full_table_ok_def servo_pn_des_def GEN_SERVO_MOTOR_PN_DES_def by simp_all

lemma servo_des_table:
  assumes "(r, v) \<in> set (servo_fn_des @ servo_dn_des @ servo_pn_des)"
  shows "servo_des r = v" and "des_valid r" and "ax0_addr r = des_addr r True" and "ax1_addr r = des_addr r False"
proof -
  have none: "map_of servo_dn_des (FN c p) = None" "map_of servo_pn_des (FN c p) = None" "map_of servo_pn_des (DN p) = None"
      "map_of servo_fn_des (DN p) = None" "map_of servo_fn_des (PN c p) = None" "map_of servo_dn_des (PN c p) = None" for c p
    using fn_names dn_names pn_names by (auto simp: map_of_eq_None_iff)
  have "map_of (servo_fn_des @ servo_dn_des @ servo_pn_des) r = Some v \<and> des_valid r \<and> func_addr (sm_ax0 v) = des_addr r True \<and>
      func_addr (sm_ax1 v) = des_addr r False"
    using assms full_table_lookup [OF fn_ok, of r v] full_table_lookup [OF dn_ok, of r v] full_table_lookup [OF pn_ok, of r v]
      fn_names dn_names pn_names none by (cases r) (auto simp: map_add_def split: option.splits)
  then show "servo_des r = v" "des_valid r" "ax0_addr r = des_addr r True" "ax1_addr r = des_addr r False"
    by (simp_all add: servo_des_def ax0_addr_def ax1_addr_def)
qed

text \<open>Following the pointers from the last structure gives the table.\<close>

lemma table_ok_snoc: "table_ok x (t @ [(r, v)]) \<Longrightarrow> table_ok x t \<and> sm_des_last v = last (x # map fst t)"
  by (induction x t rule: table_ok.induct) auto

lemma des_chain_table:
  assumes "table_ok x t" and "\<forall>(r, v) \<in> set t. servo_des r = v"
  shows "des_chain (length t + n) (last (x # map fst t)) acc = des_chain n x (map fst t @ acc)"
  using assms
proof (induction t arbitrary: acc rule: rev_induct)
  case (snoc rv t)
  obtain r v where rv: "rv = (r, v)" by force
  then show ?case using snoc table_ok_snoc [of x t r v] by simp
qed simp

lemma des_chain_full:
  assumes "full_table_ok tab" and "set tab \<subseteq> set (servo_fn_des @ servo_dn_des @ servo_pn_des)"
  shows "des_chain (length tab + n) (fst (last tab)) [] = replicate n (fst (hd tab)) @ map fst tab"
proof -
  obtain r v t where tab: "tab = (r, v) # t" using assms(1) by (cases tab) (auto simp: full_table_ok_def)
  have servo: "\<forall>(r, v) \<in> set tab. servo_des r = v" using assms(2) servo_des_table(1) by auto
  have "fst (last tab) = last (r # map fst t)" using tab by (simp add: last_map)
  moreover have "table_ok r t" "\<forall>(r, v) \<in> set t. servo_des r = v" using assms(1) servo tab by (auto simp: full_table_ok_def)
  ultimately have "des_chain (length t + Suc n) (fst (last tab)) [] = des_chain (Suc n) r (map fst t)"
    using des_chain_table [of r t "Suc n" "[]"] by (simp only: append_Nil2)
  moreover have "des_chain k r acc = replicate k r @ acc" for k acc
  proof (induction k arbitrary: acc)
    case (Suc k)
    have "sm_des_last (servo_des r) = r" using assms(1) servo tab by (simp add: full_table_ok_def)
    then show ?case using Suc by (simp add: replicate_app_Cons_same)
  qed simp
  ultimately show ?thesis using tab by (simp add: replicate_app_Cons_same)
qed

lemma table_sizes: "length servo_fn_des = 98" "length servo_dn_des = 22" "length servo_pn_des = 46"
  by (simp_all add: servo_fn_des_def servo_dn_des_def servo_pn_des_def)

lemma table_lasts: "fst (last servo_fn_des) = FN 4 0x2e" "fst (last servo_dn_des) = DN 0x1b" "fst (last (take 44 servo_pn_des)) = PN 6 0xc"
    "fst (hd servo_pn_des) = PN 0 0"
  by (simp_all add: servo_fn_des_def servo_dn_des_def servo_pn_des_def GEN_SERVO_MOTOR_FN_DES_def GEN_SERVO_MOTOR_DN_DES_def GEN_SERVO_MOTOR_PN_DES_def)

lemma init_fn: "sv_fn (init_servo_motor_fn_des d) = map Some (map fst servo_fn_des)"
  using des_chain_full [OF fn_ok, of 0] by (simp add: init_servo_motor_fn_des_def table_sizes table_lasts)

lemma init_dn: "sv_dn (init_servo_motor_dn_des d) = map Some (map fst servo_dn_des)"
proof -
  have "set servo_dn_des \<subseteq> set (servo_fn_des @ servo_dn_des @ servo_pn_des)" by auto
  then show ?thesis using des_chain_full [OF dn_ok, of 0] by (simp add: init_servo_motor_dn_des_def table_sizes table_lasts)
qed

text \<open>The array of the PN registers begins at the last but two register of the table and runs twice past its first.\<close>

lemma pn_front_ok: "full_table_ok (take 44 servo_pn_des)"
  unfolding full_table_ok_def servo_pn_des_def GEN_SERVO_MOTOR_PN_DES_def by simp

lemma init_pn: "sv_pn (init_servo_motor_pn_des d) = map Some (PN 0 0 # PN 0 0 # map fst (take 44 servo_pn_des))"
proof -
  have "des_chain 46 (PN 6 0xc) [] = PN 0 0 # PN 0 0 # map fst (take 44 servo_pn_des)"
    using des_chain_full [OF pn_front_ok, of 2] set_take_subset [of 44 servo_pn_des]
    by (auto simp: table_sizes table_lasts numeral_2_eq_2)
  then show ?thesis by (simp add: init_servo_motor_pn_des_def)
qed

section \<open>Answers reach their registers\<close>

text \<open>An address in a frame is compared modulo the 16 bits of an address.\<close>

lemma digits_inj:
  fixes a b c d :: int
  assumes "a * 0x100 + b = c * 0x100 + d" and "0 \<le> b" and "b < 0x100" and "0 \<le> d" and "d < 0x100"
  shows "a = c \<and> b = d"
proof -
  have "a \<le> c" "c \<le> a" using assms by linarith+
  then show ?thesis using assms(1) by simp
qed

lemma addr_is_bytes: "addr_is a (word_of_int b) (word_of_int (b div 0x100)) \<longleftrightarrow> a mod 0x10000 = b mod 0x10000"
proof -
  have split: "x mod 0x10000 = x div 0x100 mod 0x100 * 0x100 + x mod 0x100" for x :: int
    using zmod_zmult2_eq [of "0x100" x "0x100"] by simp
  have "a mod 0x10000 = b mod 0x10000 \<longleftrightarrow> a div 0x100 mod 0x100 = b div 0x100 mod 0x100 \<and> a mod 0x100 = b mod 0x100"
    unfolding split using digits_inj by (metis pos_mod_bound pos_mod_sign zero_less_numeral)
  then show ?thesis by (auto simp: addr_is_def uint_word_of_int take_bit_eq_mod)
qed

lemma des_addr_inj:
  assumes "des_valid r" and "des_valid r'" and "a \<or> (\<forall>c p. r \<noteq> PN c p)" and "des_addr r a mod 0x10000 = des_addr r' a' mod 0x10000"
  shows "r = r' \<and> a = a'"
  using assms by (cases r; cases r'; cases a; cases a') (auto dest: digits_inj)

definition named_reg :: "des_ref \<Rightarrow> bool" where
  "named_reg r \<longleftrightarrow> des_valid r \<and> ax0_addr r = des_addr r True \<and> ax1_addr r = des_addr r False"

lemma named_reg_table: "r \<in> fst ` set (servo_fn_des @ servo_dn_des @ servo_pn_des) \<Longrightarrow> named_reg r"
  using servo_des_table by (fastforce simp: named_reg_def)

text \<open>A register is one of the axle \<open>is_ax0\<close>: the PN registers are not doubled.\<close>

definition reg_of_axle :: "des_ref \<Rightarrow> bool \<Rightarrow> bool" where
  "reg_of_axle r is_ax0 \<longleftrightarrow> is_ax0 \<or> (\<forall>c p. r \<noteq> PN c p)"

lemma addr_is_reg:
  assumes "named_reg x" and "named_reg r" and "reg_of_axle r a"
  shows "addr_is (des_addr x b) (word_of_int (des_addr r a)) (word_of_int (des_addr r a div 0x100)) \<longleftrightarrow> x = r \<and> b = a"
  unfolding addr_is_bytes using des_addr_inj [of r x a b] assms by (auto simp: named_reg_def reg_of_axle_def)

lemma find_register:
  assumes "named_reg r" and "reg_of_axle r a" and "\<forall>x \<in> set rs. named_reg x"
  shows "find_des_by_addr (map Some rs) (word_of_int (des_addr r a)) (word_of_int (des_addr r a div 0x100)) =
    Some (if r \<in> set rs then Some (r, a) else None)"
  using assms(3)
proof (induction rs)
  case (Cons x rs)
  have "ax0_addr x = des_addr x True" "ax1_addr x = des_addr x False" using Cons.prems by (simp_all add: named_reg_def)
  then show ?case using Cons addr_is_reg [OF _ assms(1,2), of x] by (cases a) auto
qed simp

text \<open>The driver after the tables were set up.\<close>

definition tables_up :: "ServoDriver \<Rightarrow> bool" where
  "tables_up d \<longleftrightarrow> sv_fn d = map Some (map fst servo_fn_des) \<and> sv_dn d = map Some (map fst servo_dn_des) \<and>
     sv_pn d = map Some (PN 0 0 # PN 0 0 # map fst (take 44 servo_pn_des))"

lemma tables_up_init: "tables_up (init_servo_motor_pn_des (init_servo_motor_dn_des (init_servo_motor_fn_des d)))"
proof -
  have "sv_fn (init_servo_motor_pn_des (init_servo_motor_dn_des (init_servo_motor_fn_des d))) = sv_fn (init_servo_motor_fn_des d)"
      "sv_dn (init_servo_motor_pn_des (init_servo_motor_dn_des (init_servo_motor_fn_des d))) = sv_dn (init_servo_motor_dn_des (init_servo_motor_fn_des d))"
    by (simp_all add: init_servo_motor_pn_des_def init_servo_motor_dn_des_def)
  then show ?thesis by (simp add: tables_up_def init_fn init_dn init_pn)
qed

lemma PN00_front: "PN 0 0 \<in> fst ` set (take 44 servo_pn_des)"
proof -
  have "take 44 servo_pn_des \<noteq> []" using table_sizes(3) by (auto simp del: length_0_conv simp flip: length_0_conv)
  then have "hd servo_pn_des \<in> set (take 44 servo_pn_des)" using hd_in_set [of "take 44 servo_pn_des"] by (simp add: hd_take)
  then show ?thesis using table_lasts(4) by (metis imageI)
qed

lemma find_tables:
  assumes "tables_up d" and "named_reg r" and "reg_of_axle r a"
  defines "l \<equiv> word_of_int (des_addr r a)" and "h \<equiv> word_of_int (des_addr r a div 0x100)"
  shows "find_servo_motor_fn_des_by_addr d l h = Some (if r \<in> fst ` set servo_fn_des then Some (r, a) else None)"
    and "find_servo_motor_dn_des_by_addr d l h = Some (if r \<in> fst ` set servo_dn_des then Some (r, a) else None)"
    and "find_servo_motor_pn_des_by_addr d l h = Some (if r \<in> fst ` set (take 44 servo_pn_des) then Some (r, a) else None)"
proof -
  have named: "\<forall>x \<in> set (map fst servo_fn_des). named_reg x" "\<forall>x \<in> set (map fst servo_dn_des). named_reg x"
      "\<forall>x \<in> set (PN 0 0 # PN 0 0 # map fst (take 44 servo_pn_des)). named_reg x"
    using named_reg_table PN00_front set_take_subset [of 44 servo_pn_des] by fastforce+
  show "find_servo_motor_fn_des_by_addr d l h = Some (if r \<in> fst ` set servo_fn_des then Some (r, a) else None)"
    using find_register [OF assms(2,3) named(1)] assms(1) by (simp add: find_servo_motor_fn_des_by_addr_def tables_up_def l_def h_def)
  show "find_servo_motor_dn_des_by_addr d l h = Some (if r \<in> fst ` set servo_dn_des then Some (r, a) else None)"
    using find_register [OF assms(2,3) named(2)] assms(1) by (simp add: find_servo_motor_dn_des_by_addr_def tables_up_def l_def h_def)
  have "set (PN 0 0 # PN 0 0 # map fst (take 44 servo_pn_des)) = fst ` set (take 44 servo_pn_des)" using PN00_front by auto
  then show "find_servo_motor_pn_des_by_addr d l h = Some (if r \<in> fst ` set (take 44 servo_pn_des) then Some (r, a) else None)"
    using find_register [OF assms(2,3) named(3)] assms(1)
    by (simp only: find_servo_motor_pn_des_by_addr_def tables_up_def l_def h_def)
qed

text \<open>The answer of the drive to a query of a register.\<close>

definition read_ack :: "des_ref \<Rightarrow> bool \<Rightarrow> byte \<Rightarrow> byte \<Rightarrow> byte list" where
  "read_ack r is_ax0 lo hi = [0x81, 0x50, DS_MOTOR_ACK_READ_CMD] @ addr_bytes (if is_ax0 then ax0_addr r else ax1_addr r) @ [0, lo, hi, 0, 0]"

lemma parse_read_ack_frame:
  assumes "tables_up d" and "named_reg r" and "reg_of_axle r a"
  shows "parse_servo_motor_info (read_ack r a lo hi @ rest) 10 si d =
    Some (si, if r \<in> fst ` set (servo_fn_des @ servo_dn_des @ take 44 servo_pn_des)
      then d\<lparr>sv_reg := (sv_reg d)(r := (sv_reg d r)(a := le16 lo hi))\<rparr> else d)"
proof -
  have addr: "(if a then ax0_addr r else ax1_addr r) = des_addr r a" using assms(2) by (simp add: named_reg_def)
  have nths: "(x # y # z # u # v # w # k # q # xs) ! 2 = z" "(x # y # z # u # v # w # k # q # xs) ! 3 = u" "(x # y # z # u # v # w # k # q # xs) ! 4 = v"
      "(x # y # z # u # v # w # k # q # xs) ! 6 = k" "(x # y # z # u # v # w # k # q # xs) ! 7 = q" for x y z u v w k q :: byte and xs by simp_all
  have "parse_read_ack (read_ack r a lo hi @ rest) d = Some (if r \<in> fst ` set (servo_fn_des @ servo_dn_des @ take 44 servo_pn_des)
      then d\<lparr>sv_reg := (sv_reg d)(r := (sv_reg d r)(a := le16 lo hi))\<rparr> else d)"
    unfolding parse_read_ack_def read_ack_def addr addr_bytes_def append.simps nths using find_tables [OF assms]
    by (auto simp: store_reg_def)
  moreover have "le16 0x81 0x50 = 0x5081" by code_simp
  ultimately show ?thesis
    by (simp add: parse_servo_motor_info_def read_ack_def addr_bytes_def DS_MOTOR_defs)
qed

lemma table_members:
  "FN 3 0x18 \<in> fst ` set servo_fn_des" "PN 6 0xd \<in> fst ` set servo_pn_des" "PN 6 0xd \<notin> fst ` set (servo_fn_des @ servo_dn_des @ take 44 servo_pn_des)"
  by (simp_all add: servo_fn_des_def servo_dn_des_def servo_pn_des_def GEN_SERVO_MOTOR_FN_DES_def GEN_SERVO_MOTOR_DN_DES_def GEN_SERVO_MOTOR_PN_DES_def)

section \<open>Properties\<close>

text \<open>
  After the tables are set up, the answer of the drive to a query of any FN or DN register of an axle, or of a PN register up to number
  43, stores the value in that register of that axle and changes nothing else.
\<close>

theorem read_ack_stores_register:
  assumes "r \<in> fst ` set (servo_fn_des @ servo_dn_des @ take 44 servo_pn_des)" and "a \<or> (\<forall>c p. r \<noteq> PN c p)"
  shows "parse_servo_motor_info (read_ack r a lo hi @ rest) 10 si (init_servo_motor_pn_des (init_servo_motor_dn_des (init_servo_motor_fn_des d))) =
    Some (si, (init_servo_motor_pn_des (init_servo_motor_dn_des (init_servo_motor_fn_des d)))\<lparr>sv_reg :=
      (sv_reg d)(r := (sv_reg d r)(a := le16 lo hi))\<rparr>)"
proof -
  have "named_reg r" using assms(1) set_take_subset [of 44 servo_pn_des] by (intro named_reg_table) auto
  moreover have "sv_reg (init_servo_motor_pn_des (init_servo_motor_dn_des (init_servo_motor_fn_des d))) = sv_reg d"
    by (simp add: init_servo_motor_pn_des_def init_servo_motor_dn_des_def init_servo_motor_fn_des_def)
  ultimately show ?thesis using parse_read_ack_frame [OF tables_up_init, of r a lo hi rest si d] assms by (simp only: reg_of_axle_def if_True)
qed

lemma read_ack_stores_register_witness:
  "parse_servo_motor_info (read_ack (FN 3 0x18) False 5 1 @ []) 10 servo_info_none
     (init_servo_motor_pn_des (init_servo_motor_dn_des (init_servo_motor_fn_des ServoDriver_static))) =
   Some (servo_info_none, (init_servo_motor_pn_des (init_servo_motor_dn_des (init_servo_motor_fn_des ServoDriver_static)))\<lparr>sv_reg :=
     (sv_reg ServoDriver_static)(FN 3 0x18 := (sv_reg ServoDriver_static (FN 3 0x18))(False := le16 5 1))\<rparr>)"
  by (rule read_ack_stores_register) (use table_members(1) in auto)

text \<open>
  The answers for the last two PN registers are dropped: the array of pointers was filled from the wrong structure.
\<close>

lemma last_PN_registers_lost:
  "parse_servo_motor_info (read_ack (PN 6 0xd) True lo hi @ rest) 10 si (init_servo_motor_pn_des (init_servo_motor_dn_des (init_servo_motor_fn_des d))) =
     Some (si, init_servo_motor_pn_des (init_servo_motor_dn_des (init_servo_motor_fn_des d)))"
proof -
  have "named_reg (PN 6 0xd)" using table_members(2) by (intro named_reg_table) auto
  then show ?thesis using parse_read_ack_frame [OF tables_up_init, of "PN 6 0xd" True lo hi rest si d] table_members(3) by (simp only: reg_of_axle_def if_False) simp
qed

end
