(* ===== verification/Servo_Can.thy ===== *)
theory Servo_Can
  imports Servo_Registers
begin

unbundle bit_operations_syntax

text \<open>
  \<open>modules/chassis/parser/pack_libs/servo_packer.cc\<close> and \<open>parse_libs/servo_parser.cc\<close>: the frames on the CAN bus that drive the two wheels, and
  the reports of the drive, from which the odometry is made. Arithmetic in floating point is not modelled: the conversion of a speed in m/s
  to revolutions per minute is a parameter, and an odometry message carries the integers it is computed from.
\<close>

section \<open>The packer\<close>

type_synonym can_msg = "nat \<times> byte list"

definition byte_at :: "nat \<Rightarrow> 32 word \<Rightarrow> byte" where
  "byte_at k w = ucast (drop_bit k w)"

definition le32_bytes :: "32 word \<Rightarrow> byte list" where
  "le32_bytes w = [byte_at 0 w, byte_at 8 w, byte_at 16 w, byte_at 24 w]"

text \<open>The half words exchanged, as the drive takes the values of its two axles.\<close>

definition swapped_bytes :: "32 word \<Rightarrow> byte list" where
  "swapped_bytes w = [byte_at 16 w, byte_at 24 w, byte_at 0 w, byte_at 8 w]"

definition FillDataContainerFreeRead :: "reg_values \<Rightarrow> can_msg list \<Rightarrow> bool \<times> can_msg list" where
  "FillDataContainerFreeRead av td =
     (if av = [] then (False, td)
      else (True, td @ map (\<lambda>(addr, value). (DS_MOTOR_DRIVE_MOTOR_AXLE_1,
              DS_MOTOR_READ_BOTH_CMD # addr_bytes addr @ 0x00 # le32_bytes value)) av))"

definition FillDataContainerFreeWrite :: "reg_values \<Rightarrow> can_msg list \<Rightarrow> bool \<times> can_msg list" where
  "FillDataContainerFreeWrite av td =
     (if av = [] then (False, td)
      else (True, td @ map (\<lambda>(addr, value). (DS_MOTOR_DRIVE_MOTOR_AXLE_1,
              DS_MOTOR_WRITE_BOTH_CMD # addr_bytes addr @ 0x00 # swapped_bytes value)) av))"

definition config_data :: "can_config \<Rightarrow> byte list" where
  "config_data c = cg_cmd c # addr_bytes (cg_addr c) @ cg_sub_id c # swapped_bytes (cg_value c)"

definition FillDataContainerCanOpenConfig :: "can_config list \<Rightarrow> can_msg list \<Rightarrow> bool \<times> can_msg list" where
  "FillDataContainerCanOpenConfig cs td =
     (if cs = [] then (False, td)
      else (True, td @ concat (map (\<lambda>c. [(DS_MOTOR_DRIVE_MOTOR_AXLE_1, config_data c), (DS_MOTOR_DRIVE_MOTOR_AXLE_2, config_data c)]) cs)))"

text \<open>The same data to both axles.\<close>

definition both_axles :: "byte list \<Rightarrow> can_msg list" where
  "both_axles data = [(DS_MOTOR_DRIVE_MOTOR_AXLE_1, data), (DS_MOTOR_DRIVE_MOTOR_AXLE_2, data)]"

definition FillDataContainerCanOpenActivate :: "can_msg list \<Rightarrow> can_msg list" where
  "FillDataContainerCanOpenActivate td = td @ [(0, [1, 1]), (0, [1, 2])]"

definition FillDataContainerCanOpenStartReporting :: "can_msg list \<Rightarrow> can_msg list" where
  "FillDataContainerCanOpenStartReporting td = td @
     both_axles [0x2f, 0x00, 0x1a, 0x00, 0x02, 0x00, 0x00, 0x00] @ both_axles [0x2f, 0x01, 0x1a, 0x00, 0x02, 0x00, 0x00, 0x00]"

definition FillDataContainerCanOpenStopReporting :: "can_msg list \<Rightarrow> can_msg list" where
  "FillDataContainerCanOpenStopReporting td = td @
     both_axles [0x2f, 0x00, 0x1a, 0x00, 0x00, 0x00, 0x00, 0x00] @ both_axles [0x2f, 0x01, 0x1a, 0x00, 0x00, 0x00, 0x00, 0x00]"

definition FillDataContainerCanOpenSync :: "can_msg list \<Rightarrow> can_msg list" where
  "FillDataContainerCanOpenSync td = td @ [(0x80, [])]"

definition FillDataContainerCanOpenResetStatus :: "can_msg list \<Rightarrow> can_msg list" where
  "FillDataContainerCanOpenResetStatus td = td @
     both_axles [0x23, 0x69, 0x60, 0x00, 0x00, 0x00, 0x00, 0x00] @ both_axles [0x23, 0x63, 0x60, 0x00, 0x00, 0x00, 0x00, 0x00]"

definition FillDataContainerCanOpenAxleSpeed :: "32 word \<Rightarrow> 32 word \<Rightarrow> can_msg list \<Rightarrow> can_msg list" where
  "FillDataContainerCanOpenAxleSpeed left right td = td @ [(0x401, le32_bytes (NOT right + 1)), (0x402, le32_bytes left)]"

definition FillDataContainerCanOpenAxleEnable :: "can_msg list \<Rightarrow> can_msg list" where
  "FillDataContainerCanOpenAxleEnable td = td @ both_axles [0x2B, 0x40, 0x60, 0x00, 0x0f, 0x00, 0x00, 0x00]"

definition FillDataContainerCanOpenAxleDisable :: "can_msg list \<Rightarrow> can_msg list" where
  "FillDataContainerCanOpenAxleDisable td = td @
     both_axles [0x2B, 0x40, 0x60, 0x00, 0x06, 0x00, 0x00, 0x00] @ both_axles [0x2B, 0x40, 0x60, 0x00, 0x07, 0x00, 0x00, 0x00]"

text \<open>The control message: the choice of the speed and the other requests, of which the packer has none yet.\<close>

record WheelRpm =
  left_rpm :: "32 word"
  right_rpm :: "32 word"

datatype ('d, 'w) MoveCtrl = Move_whl_rpm WheelRpm | Move_whl_spd 'w | Move_diff_spd 'd

record ('d, 'w) ChsMovementCtrl =
  mc_move :: "('d, 'w) MoveCtrl option"
  mc_emergency_stop :: "bool option"
  mc_wheel_reverse :: "bool option"
  mc_wheel_release :: "bool option"
  mc_encoder_reset :: "bool option"

definition PackServoMtrControl ::
    "('d \<Rightarrow> WheelRpm) \<Rightarrow> ('w \<Rightarrow> WheelRpm) \<Rightarrow> ('d, 'w) ChsMovementCtrl \<Rightarrow> can_msg list" where
  "PackServoMtrControl ConvertDiffSpeed2Rpm ConvertWheelSpeed2Rpm ctrl =
     (case mc_move ctrl of
        Some (Move_diff_spd ds) \<Rightarrow> let rpm = ConvertDiffSpeed2Rpm ds in FillDataContainerCanOpenAxleSpeed (left_rpm rpm * 10) (right_rpm rpm * 10) []
      | Some (Move_whl_spd ws) \<Rightarrow> let rpm = ConvertWheelSpeed2Rpm ws in FillDataContainerCanOpenAxleSpeed (left_rpm rpm * 10) (right_rpm rpm * 10) []
      | Some (Move_whl_rpm rpm) \<Rightarrow> FillDataContainerCanOpenAxleSpeed (left_rpm rpm * 10) (right_rpm rpm * 10) []
      | None \<Rightarrow> [])"

text \<open>The settings; \<open>None\<close> if the tables are read before they were set up.\<close>

definition pack_start :: "ServoDriver \<Rightarrow> can_msg list" where
  "pack_start d =
     (let tds = snd (FillDataContainerFreeWrite (config_servo_motor_init d []) []);
          tds = FillDataContainerCanOpenActivate tds;
          cs = config_servo_motor_tpdo_rpdo d (config_servo_motor_acc_moderate_time d (config_servo_motor_canopen_mode []));
          tds = snd (FillDataContainerCanOpenConfig cs tds);
          tds = FillDataContainerCanOpenSync tds;
          tds = FillDataContainerCanOpenResetStatus tds;
          tds = FillDataContainerCanOpenAxleSpeed 0 0 tds
      in FillDataContainerCanOpenAxleDisable tds)"

definition pack_enable :: "can_msg list" where
  "pack_enable =
     FillDataContainerCanOpenStartReporting (FillDataContainerCanOpenAxleEnable
       (FillDataContainerCanOpenAxleSpeed 0 0 (FillDataContainerCanOpenResetStatus [])))"

definition pack_disable :: "can_msg list" where
  "pack_disable =
     FillDataContainerCanOpenStopReporting (FillDataContainerCanOpenResetStatus
       (FillDataContainerCanOpenAxleDisable (FillDataContainerCanOpenAxleSpeed 0 0 [])))"

definition pack_store :: "ServoDriver \<Rightarrow> can_msg list option" where
  "pack_store d =
     (let query = (\<lambda>addrs tds. snd (FillDataContainerFreeRead (map (\<lambda>a. (a, 0)) addrs) tds))
      in case get_servo_motor_all_fn_addrs d of None \<Rightarrow> None | Some fn \<Rightarrow>
        (case get_servo_motor_all_dn_addrs d of None \<Rightarrow> None | Some dn \<Rightarrow>
        (case get_servo_motor_all_pn_addrs d of None \<Rightarrow> None | Some pn \<Rightarrow> Some (query pn (query dn (query fn []))))))"

definition PackServoMtrSetting :: "EE_SUBDEV_OPTS \<Rightarrow> ServoDriver \<Rightarrow> (can_msg list \<times> ServoDriver) option" where
  "PackServoMtrSetting sub_opts d =
     (case sub_opts of
        E_SUBDEV_OPTS_INIT \<Rightarrow> Some ([], init_servo_motor_pn_des (init_servo_motor_dn_des (init_servo_motor_fn_des d)))
      | E_SUBDEV_OPTS_START \<Rightarrow> Some (pack_start d, d)
      | E_SUBDEV_OPTS_ENABLE \<Rightarrow> Some (pack_enable, d)
      | E_SUBDEV_OPTS_DISABLE \<Rightarrow> Some (pack_disable, d)
      | E_SUBDEV_OPTS_STOP \<Rightarrow> Some (FillDataContainerCanOpenAxleSpeed 0 0 [], d)
      | E_SUBDEV_OPTS_CLOSE \<Rightarrow> Some (FillDataContainerCanOpenStopReporting [], d)
      | E_SUBDEV_OPTS_STORE \<Rightarrow> map_option (\<lambda>tds. (tds, d)) (pack_store d)
      | _ \<Rightarrow> Some ([], d))"

section \<open>The parser\<close>

text \<open>An odometry message: its sequence number, how far the encoders moved since the last one, and the speeds.\<close>

record Odometry =
  od_seq :: "32 word"
  od_d_left :: "32 word"
  od_d_right :: "32 word"
  od_rpm_left :: "32 word"
  od_rpm_right :: "32 word"

record ServoParser =
  sp_left_rpm :: "32 word"
  sp_last_left_rpm :: "32 word"
  sp_right_rpm :: "32 word"
  sp_last_right_rpm :: "32 word"
  sp_left_encoder :: "32 word"
  sp_last_left_encoder :: "32 word"
  sp_right_encoder :: "32 word"
  sp_last_right_encoder :: "32 word"
  sp_left_status :: "32 word"
  sp_right_status :: "32 word"
  sp_odom_seq :: "32 word"
  sp_driver :: ServoDriver

type_synonym servo = "(ServoParser, Odometry) ParserBaseItf"

definition ServoParser_ctor :: servo where
  "ServoParser_ctor = ParserBaseItf_ctor
     \<lparr>sp_left_rpm = 0, sp_last_left_rpm = 0, sp_right_rpm = 0, sp_last_right_rpm = 0, sp_left_encoder = 0, sp_last_left_encoder = 0,
      sp_right_encoder = 0, sp_last_right_encoder = 0, sp_left_status = 0, sp_right_status = 0, sp_odom_seq = 0, sp_driver = ServoDriver_static\<rparr>"

definition Servo_ParseSigleFrame :: "servo \<Rightarrow> servo option" where
  "Servo_ParseSigleFrame p =
     (let st = pb_state p;
          odom = \<lparr>od_seq = sp_odom_seq st, od_d_left = sp_left_encoder st - sp_last_left_encoder st,
            od_d_right = sp_right_encoder st - sp_last_right_encoder st, od_rpm_left = sp_left_rpm st, od_rpm_right = sp_right_rpm st\<rparr>
      in pb_publish odom (p\<lparr>pb_state := st\<lparr>sp_odom_seq := sp_odom_seq st + 1\<rparr>\<rparr>))"

definition left_report :: "servo_info \<Rightarrow> ServoParser \<Rightarrow> ServoParser" where
  "left_report si st =
     (if si_speed_left si \<noteq> - 1 \<or> si_encoder_left si \<noteq> - 1
      then st\<lparr>sp_left_rpm := si_speed_left si, sp_left_encoder := si_encoder_left si\<rparr> else st)"

definition right_report :: "servo_info \<Rightarrow> servo \<Rightarrow> servo option" where
  "right_report si p =
     (if si_speed_right si \<noteq> - 1 \<or> si_encoder_right si \<noteq> - 1
      then case Servo_ParseSigleFrame (p\<lparr>pb_state := (pb_state p)\<lparr>sp_right_rpm := - si_speed_right si, sp_right_encoder := - si_encoder_right si\<rparr>\<rparr>) of
             None \<Rightarrow> None
           | Some p1 \<Rightarrow>
               let st = pb_state p1
               in Some (p1\<lparr>pb_state := st\<lparr>sp_last_left_encoder := sp_left_encoder st, sp_last_right_encoder := sp_right_encoder st,
                    sp_last_left_rpm := sp_left_rpm st, sp_last_right_rpm := sp_right_rpm st\<rparr>\<rparr>)
      else Some p)"

definition status_report :: "servo_info \<Rightarrow> ServoParser \<Rightarrow> ServoParser" where
  "status_report si st =
     (let st = (if si_status_left si \<noteq> - 1 \<and> si_status_left si \<noteq> 0x37 then st\<lparr>sp_left_status := si_status_left si\<rparr> else st)
      in if si_status_right si \<noteq> - 1 \<and> si_status_right si \<noteq> 0x37 then st\<lparr>sp_right_status := si_status_right si\<rparr> else st)"

definition ParseCanBuffer :: "byte list \<Rightarrow> nat \<Rightarrow> servo \<Rightarrow> (int \<times> servo) option" where
  "ParseCanBuffer buf len p =
     (case parse_servo_motor_info buf len servo_info_none (sp_driver (pb_state p)) of
        None \<Rightarrow> None
      | Some (si, d) \<Rightarrow>
          (case right_report si (p\<lparr>pb_state := left_report si ((pb_state p)\<lparr>sp_driver := d\<rparr>)\<rparr>) of
             None \<Rightarrow> None
           | Some p1 \<Rightarrow> Some (0, p1\<lparr>pb_state := status_report si (pb_state p1)\<rparr>)))"

definition OnOriginalDataCan :: "byte list \<Rightarrow> nat \<Rightarrow> servo \<Rightarrow> servo option" where
  "OnOriginalDataCan buf len p =
     (if pb_is_parsing_busy p then Some p
      else case ParseCanBuffer buf len (p\<lparr>pb_is_parsing_busy := True\<rparr>) of
             None \<Rightarrow> None
           | Some (_, p1) \<Rightarrow> Some (p1\<lparr>pb_is_parsing_busy := False\<rparr>))"

text \<open>What the CAN driver makes of a frame with the identifier \<open>can_id\<close>: a zeroed buffer of 512 bytes; it copies two bytes more than the frame has.\<close>

definition can_recv_buf :: "32 word \<Rightarrow> byte list \<Rightarrow> nat \<Rightarrow> (byte list \<times> nat) option" where
  "can_recv_buf can_id frame_data frame_len =
     (let len = frame_len + 2
      in if len \<le> length frame_data
         then let buf = ucast (can_id AND 0xff) # ucast (drop_bit 4 (can_id AND 0xff00)) # take len frame_data
              in Some (buf @ replicate (512 - length buf) 0, len)
         else None)"

section \<open>The wheels\<close>

text \<open>
  What the drive does with the frames, as far as the packer relies on it: an axle has a target speed and is enabled or not. Frames with the
  identifiers 0x401 and 0x402 set the speed of axle 1 and 2, the control word 0x6040 enables and disables.
\<close>

record motor =
  mt_speed1 :: "32 word"
  mt_speed2 :: "32 word"
  mt_on1 :: bool
  mt_on2 :: bool

definition control_word :: "byte list \<Rightarrow> bool" where
  "control_word data \<longleftrightarrow> length data = 8 \<and> take 4 data = [0x2B, 0x40, 0x60, 0x00]"

definition motor_step :: "motor \<Rightarrow> can_msg \<Rightarrow> motor" where
  "motor_step m msg =
     (case msg of (can_id, data) \<Rightarrow>
        if can_id = 0x401 \<and> length data = 4 then m\<lparr>mt_speed1 := le32 (data ! 0) (data ! 1) (data ! 2) (data ! 3)\<rparr>
        else if can_id = 0x402 \<and> length data = 4 then m\<lparr>mt_speed2 := le32 (data ! 0) (data ! 1) (data ! 2) (data ! 3)\<rparr>
        else if can_id = DS_MOTOR_DRIVE_MOTOR_AXLE_1 \<and> control_word data then m\<lparr>mt_on1 := (data ! 4 = 0x0f)\<rparr>
        else if can_id = DS_MOTOR_DRIVE_MOTOR_AXLE_2 \<and> control_word data then m\<lparr>mt_on2 := (data ! 4 = 0x0f)\<rparr>
        else m)"

abbreviation motor_run :: "can_msg list \<Rightarrow> motor \<Rightarrow> motor" where
  "motor_run msgs m \<equiv> foldl motor_step m msgs"

lemma le32_le32_bytes: "le32 (byte_at 0 w) (byte_at 8 w) (byte_at 16 w) (byte_at 24 w) = w"
proof (rule bit_word_eqI)
  fix n assume "n < LENGTH(32)"
  then show "bit (le32 (byte_at 0 w) (byte_at 8 w) (byte_at 16 w) (byte_at 24 w)) n \<longleftrightarrow> bit w n"
    unfolding le32_def byte_at_def by (cases "n < 8"; cases "n < 16"; cases "n < 24") (auto simp: bit_simps)
qed

lemma motor_speed:
  "motor_step m (0x401, le32_bytes w) = m\<lparr>mt_speed1 := w\<rparr>" "motor_step m (0x402, le32_bytes w) = m\<lparr>mt_speed2 := w\<rparr>"
  using le32_le32_bytes [of w] by (simp_all add: motor_step_def le32_bytes_def)

lemma motor_control:
  "motor_step m (DS_MOTOR_DRIVE_MOTOR_AXLE_1, [0x2B, 0x40, 0x60, 0x00, c, 0x00, 0x00, 0x00]) = m\<lparr>mt_on1 := (c = 0x0f)\<rparr>"
  "motor_step m (DS_MOTOR_DRIVE_MOTOR_AXLE_2, [0x2B, 0x40, 0x60, 0x00, c, 0x00, 0x00, 0x00]) = m\<lparr>mt_on2 := (c = 0x0f)\<rparr>"
  by (simp_all add: motor_step_def control_word_def DS_MOTOR_DRIVE_MOTOR_AXLE_1_def DS_MOTOR_DRIVE_MOTOR_AXLE_2_def)

text \<open>Frames that the wheels do not notice.\<close>

definition inert :: "can_msg \<Rightarrow> bool" where
  "inert msg \<longleftrightarrow> fst msg \<noteq> 0x401 \<and> fst msg \<noteq> 0x402 \<and> (snd msg = [] \<or> hd (snd msg) \<noteq> 0x2B)"

lemma motor_inert: "inert msg \<Longrightarrow> motor_step m msg = m"
  by (cases msg; cases "snd msg") (auto simp: inert_def motor_step_def control_word_def)

lemma motor_run_inert: "\<forall>msg \<in> set msgs. inert msg \<Longrightarrow> motor_run msgs m = m"
  by (induction msgs arbitrary: m) (simp_all add: motor_inert)

lemma inert_both [simp]: "c \<noteq> 0x2B \<Longrightarrow> msg \<in> set (both_axles (c # data)) \<Longrightarrow> inert msg"
  by (auto simp: both_axles_def inert_def DS_MOTOR_DRIVE_MOTOR_AXLE_1_def DS_MOTOR_DRIVE_MOTOR_AXLE_2_def)

lemma inert_read: "msg \<in> set (snd (FillDataContainerFreeRead av td)) \<Longrightarrow> msg \<in> set td \<or> inert msg"
  by (auto simp: FillDataContainerFreeRead_def inert_def DS_MOTOR_defs DS_MOTOR_DRIVE_MOTOR_AXLE_1_def split: if_splits)

lemma inert_start:
  "msg \<in> set (snd (FillDataContainerCanOpenConfig (config_servo_motor_tpdo_rpdo d (config_servo_motor_acc_moderate_time d
     (config_servo_motor_canopen_mode []))) (FillDataContainerCanOpenActivate (snd (FillDataContainerFreeWrite (config_servo_motor_init d []) []))))) \<Longrightarrow> inert msg"
  by (auto simp: FillDataContainerCanOpenConfig_def FillDataContainerCanOpenActivate_def FillDataContainerFreeWrite_def config_servo_motor_init_def
      config_servo_motor_tpdo_rpdo_def config_servo_motor_acc_moderate_time_def config_servo_motor_canopen_mode_def config_data_def canopen_1_def
      canopen_4_def inert_def DS_MOTOR_defs DS_MOTOR_DRIVE_MOTOR_AXLE_1_def DS_MOTOR_DRIVE_MOTOR_AXLE_2_def)

lemma inert_store: "pack_store d = Some tds \<Longrightarrow> msg \<in> set tds \<Longrightarrow> inert msg"
  by (auto simp: pack_store_def Let_def split: option.splits dest!: inert_read)

section \<open>Every setting is safe\<close>

text \<open>Frames that enable no axle and set no speed but zero.\<close>

definition calm :: "can_msg \<Rightarrow> bool" where
  "calm msg \<longleftrightarrow> (\<forall>m. (mt_on1 (motor_step m msg) \<longrightarrow> mt_on1 m) \<and> (mt_on2 (motor_step m msg) \<longrightarrow> mt_on2 m))"

text \<open>Frames that leave stopped wheels stopped.\<close>

definition still :: "can_msg \<Rightarrow> bool" where
  "still msg \<longleftrightarrow> (\<forall>m. mt_speed1 m = 0 \<and> mt_speed2 m = 0 \<longrightarrow> mt_speed1 (motor_step m msg) = 0 \<and> mt_speed2 (motor_step m msg) = 0)"

lemma calm_run: "\<forall>msg \<in> set msgs. calm msg \<Longrightarrow> (mt_on1 (motor_run msgs m) \<longrightarrow> mt_on1 m) \<and> (mt_on2 (motor_run msgs m) \<longrightarrow> mt_on2 m)"
proof (induction msgs arbitrary: m)
  case (Cons msg msgs)
  then have "calm msg" by simp
  then have "(mt_on1 (motor_step m msg) \<longrightarrow> mt_on1 m) \<and> (mt_on2 (motor_step m msg) \<longrightarrow> mt_on2 m)" unfolding calm_def by blast
  then show ?case using Cons.IH [of "motor_step m msg"] Cons.prems by auto
qed simp

lemma still_run: "\<forall>msg \<in> set msgs. still msg \<Longrightarrow> mt_speed1 m = 0 \<Longrightarrow> mt_speed2 m = 0 \<Longrightarrow>
    mt_speed1 (motor_run msgs m) = 0 \<and> mt_speed2 (motor_run msgs m) = 0"
proof (induction msgs arbitrary: m)
  case (Cons msg msgs)
  then have "still msg" by simp
  then have "mt_speed1 (motor_step m msg) = 0 \<and> mt_speed2 (motor_step m msg) = 0" using Cons.prems unfolding still_def by blast
  then show ?case using Cons.IH [of "motor_step m msg"] Cons.prems by simp
qed simp

lemma calm_inert: "inert msg \<Longrightarrow> calm msg" and still_inert: "inert msg \<Longrightarrow> still msg"
  by (simp_all add: calm_def still_def motor_inert)

lemma calm_stop: "msg \<in> set (FillDataContainerCanOpenAxleSpeed 0 0 []) \<Longrightarrow> calm msg"
  by (auto simp: FillDataContainerCanOpenAxleSpeed_def calm_def motor_speed)

lemma calm_disable: "msg \<in> set (FillDataContainerCanOpenAxleDisable []) \<Longrightarrow> calm msg"
  by (auto simp: FillDataContainerCanOpenAxleDisable_def both_axles_def calm_def motor_control)

lemma still_enable: "msg \<in> set (FillDataContainerCanOpenAxleEnable []) \<Longrightarrow> still msg"
  by (auto simp: FillDataContainerCanOpenAxleEnable_def both_axles_def still_def motor_control)

lemma inert_reports:
  "msg \<in> set (FillDataContainerCanOpenStartReporting []) \<Longrightarrow> inert msg"
  "msg \<in> set (FillDataContainerCanOpenStopReporting []) \<Longrightarrow> inert msg"
  "msg \<in> set (FillDataContainerCanOpenResetStatus []) \<Longrightarrow> inert msg"
  "msg \<in> set (FillDataContainerCanOpenSync []) \<Longrightarrow> inert msg"
  by (auto simp: FillDataContainerCanOpenStartReporting_def FillDataContainerCanOpenStopReporting_def FillDataContainerCanOpenResetStatus_def
      FillDataContainerCanOpenSync_def inert_def DS_MOTOR_DRIVE_MOTOR_AXLE_1_def DS_MOTOR_DRIVE_MOTOR_AXLE_2_def both_axles_def)

lemmas calm_reports = inert_reports [THEN calm_inert]

lemma Fill_append:
  "FillDataContainerCanOpenStartReporting td = td @ FillDataContainerCanOpenStartReporting []"
  "FillDataContainerCanOpenStopReporting td = td @ FillDataContainerCanOpenStopReporting []"
  "FillDataContainerCanOpenResetStatus td = td @ FillDataContainerCanOpenResetStatus []"
  "FillDataContainerCanOpenSync td = td @ FillDataContainerCanOpenSync []"
  "FillDataContainerCanOpenAxleSpeed l r td = td @ FillDataContainerCanOpenAxleSpeed l r []"
  "FillDataContainerCanOpenAxleEnable td = td @ FillDataContainerCanOpenAxleEnable []"
  "FillDataContainerCanOpenAxleDisable td = td @ FillDataContainerCanOpenAxleDisable []"
  by (simp_all add: FillDataContainerCanOpenStartReporting_def FillDataContainerCanOpenStopReporting_def FillDataContainerCanOpenResetStatus_def
      FillDataContainerCanOpenSync_def FillDataContainerCanOpenAxleSpeed_def FillDataContainerCanOpenAxleEnable_def FillDataContainerCanOpenAxleDisable_def)

lemma motor_stop: "motor_run (FillDataContainerCanOpenAxleSpeed l r []) m = m\<lparr>mt_speed1 := - r, mt_speed2 := l\<rparr>"
  by (simp add: FillDataContainerCanOpenAxleSpeed_def motor_speed minus_eq_not_plus_1)

lemma motor_enable: "motor_run (FillDataContainerCanOpenAxleEnable []) m = m\<lparr>mt_on1 := True, mt_on2 := True\<rparr>"
  by (simp add: FillDataContainerCanOpenAxleEnable_def both_axles_def motor_control)

lemma motor_disable: "motor_run (FillDataContainerCanOpenAxleDisable []) m = m\<lparr>mt_on1 := False, mt_on2 := False\<rparr>"
  by (simp add: FillDataContainerCanOpenAxleDisable_def both_axles_def motor_control)

lemma pack_enable_parts:
  "pack_enable = (FillDataContainerCanOpenResetStatus [] @ FillDataContainerCanOpenAxleSpeed 0 0 []) @
     FillDataContainerCanOpenAxleEnable [] @ FillDataContainerCanOpenStartReporting []"
  by (simp add: pack_enable_def Fill_append [where td = "_ @ _"] Fill_append [where td = "FillDataContainerCanOpenResetStatus []"])

lemma pack_disable_parts:
  "pack_disable = FillDataContainerCanOpenAxleSpeed 0 0 [] @ FillDataContainerCanOpenAxleDisable [] @
     FillDataContainerCanOpenResetStatus [] @ FillDataContainerCanOpenStopReporting []"
  by (simp add: pack_disable_def Fill_append [where td = "_ @ _"] Fill_append [where td = "FillDataContainerCanOpenAxleSpeed _ _ []"])

lemma pack_start_parts:
  obtains pre where "pack_start d = pre @ FillDataContainerCanOpenAxleSpeed 0 0 [] @ FillDataContainerCanOpenAxleDisable []" and "\<forall>msg \<in> set pre. inert msg"
proof -
  define cfg where "cfg = snd (FillDataContainerCanOpenConfig (config_servo_motor_tpdo_rpdo d (config_servo_motor_acc_moderate_time d
     (config_servo_motor_canopen_mode []))) (FillDataContainerCanOpenActivate (snd (FillDataContainerFreeWrite (config_servo_motor_init d []) []))))"
  let ?pre = "cfg @ FillDataContainerCanOpenSync [] @ FillDataContainerCanOpenResetStatus []"
  have "pack_start d = ?pre @ FillDataContainerCanOpenAxleSpeed 0 0 [] @ FillDataContainerCanOpenAxleDisable []"
    unfolding pack_start_def Let_def cfg_def [symmetric]
    by (simp add: Fill_append [where td = "_ @ _"] Fill_append [where td = cfg])
  moreover have "\<forall>msg \<in> set ?pre. inert msg" using inert_start [of _ d] inert_reports by (auto simp: cfg_def)
  ultimately show ?thesis by (rule that)
qed

lemma setting_calm:
  assumes "PackServoMtrSetting opts d = Some (tds, d')" and "opts \<noteq> E_SUBDEV_OPTS_ENABLE" and "msg \<in> set tds"
  shows "calm msg"
proof (cases opts)
  case E_SUBDEV_OPTS_START
  obtain pre where pre: "pack_start d = pre @ FillDataContainerCanOpenAxleSpeed 0 0 [] @ FillDataContainerCanOpenAxleDisable []"
      "\<forall>msg \<in> set pre. inert msg" by (rule pack_start_parts)
  have "pack_start d = tds" using assms(1) E_SUBDEV_OPTS_START by (auto simp: PackServoMtrSetting_def)
  then have "msg \<in> set (pack_start d)" using assms(3) by simp
  then show ?thesis using pre(2) unfolding pre(1) by (auto dest: calm_stop calm_disable intro: calm_inert)
next
  case E_SUBDEV_OPTS_DISABLE
  then show ?thesis using assms
    by (auto simp: PackServoMtrSetting_def pack_disable_parts dest: calm_stop calm_disable calm_reports)
next
  case E_SUBDEV_OPTS_STORE
  then show ?thesis using assms by (auto simp: PackServoMtrSetting_def intro: calm_inert dest: inert_store)
qed (use assms in \<open>auto simp: PackServoMtrSetting_def dest: calm_stop calm_reports\<close>)

text \<open>
  While the frames of any setting of the servo are sent, at every moment, an axle that was not enabled before is enabled only with a target
  speed of zero.
\<close>

theorem servo_settings_safe:
  assumes "PackServoMtrSetting opts d = Some (tds, d')" and "prefix msgs tds"
  shows "(mt_on1 (motor_run msgs m) \<and> \<not> mt_on1 m \<longrightarrow> mt_speed1 (motor_run msgs m) = 0) \<and>
    (mt_on2 (motor_run msgs m) \<and> \<not> mt_on2 m \<longrightarrow> mt_speed2 (motor_run msgs m) = 0)"
proof -
  have quiet: ?thesis if "\<forall>msg \<in> set msgs. calm msg" using calm_run [OF that, of m] by blast
  show ?thesis
  proof (cases "opts = E_SUBDEV_OPTS_ENABLE")
    case False
    then show ?thesis using setting_calm [OF assms(1)] set_mono_prefix [OF assms(2)] by (intro quiet) blast
  next
    case True
    let ?stop = "FillDataContainerCanOpenResetStatus [] @ FillDataContainerCanOpenAxleSpeed 0 0 []"
    let ?go = "FillDataContainerCanOpenAxleEnable [] @ FillDataContainerCanOpenStartReporting []"
    have "prefix msgs (?stop @ ?go)" using assms True by (simp add: PackServoMtrSetting_def pack_enable_parts)
    then consider (before) "prefix msgs ?stop" | (after) go where "msgs = ?stop @ go" "prefix go ?go" unfolding prefix_append [of msgs ?stop] by blast
    then show ?thesis
    proof cases
      case before
      have "\<forall>msg \<in> set ?stop. calm msg" using inert_reports(3) calm_stop calm_inert by auto
      then show ?thesis using set_mono_prefix [OF before] by (intro quiet) blast
    next
      case after
      have "motor_run (FillDataContainerCanOpenResetStatus []) m = m" using inert_reports(3) by (intro motor_run_inert) blast
      then have "motor_run msgs m = motor_run go (m\<lparr>mt_speed1 := 0, mt_speed2 := 0\<rparr>)" using after(1) by (simp add: motor_stop)
      moreover have "\<forall>msg \<in> set ?go. still msg" using still_enable still_inert inert_reports(1) by auto
      then have "\<forall>msg \<in> set go. still msg" using set_mono_prefix [OF after(2)] by blast
      ultimately show ?thesis using still_run [of go "m\<lparr>mt_speed1 := 0, mt_speed2 := 0\<rparr>"] by simp
    qed
  qed
qed

lemma servo_settings_safe_witness:
  "(mt_on1 (motor_run (take 7 pack_enable) \<lparr>mt_speed1 = 5, mt_speed2 = 6, mt_on1 = False, mt_on2 = False\<rparr>) \<and> \<not> False \<longrightarrow>
      mt_speed1 (motor_run (take 7 pack_enable) \<lparr>mt_speed1 = 5, mt_speed2 = 6, mt_on1 = False, mt_on2 = False\<rparr>) = 0) \<and>
   (mt_on2 (motor_run (take 7 pack_enable) \<lparr>mt_speed1 = 5, mt_speed2 = 6, mt_on1 = False, mt_on2 = False\<rparr>) \<and> \<not> False \<longrightarrow>
      mt_speed2 (motor_run (take 7 pack_enable) \<lparr>mt_speed1 = 5, mt_speed2 = 6, mt_on1 = False, mt_on2 = False\<rparr>) = 0)"
  using servo_settings_safe [of E_SUBDEV_OPTS_ENABLE ServoDriver_static pack_enable ServoDriver_static "take 7 pack_enable"
      "\<lparr>mt_speed1 = 5, mt_speed2 = 6, mt_on1 = False, mt_on2 = False\<rparr>"] take_is_prefix [of 7 pack_enable]
  by (simp add: PackServoMtrSetting_def)

text \<open>After the settings.\<close>

lemma motor_after_settings:
  "motor_run pack_enable m = \<lparr>mt_speed1 = 0, mt_speed2 = 0, mt_on1 = True, mt_on2 = True\<rparr>"
  "motor_run pack_disable m = \<lparr>mt_speed1 = 0, mt_speed2 = 0, mt_on1 = False, mt_on2 = False\<rparr>"
  "motor_run (pack_start d) m = \<lparr>mt_speed1 = 0, mt_speed2 = 0, mt_on1 = False, mt_on2 = False\<rparr>"
  "pack_store d = Some tds \<Longrightarrow> motor_run tds m = m"
proof -
  have inert: "motor_run (FillDataContainerCanOpenResetStatus []) n = n" "motor_run (FillDataContainerCanOpenStartReporting []) n = n"
      "motor_run (FillDataContainerCanOpenStopReporting []) n = n" for n
    using inert_reports by (intro motor_run_inert; blast)+
  show "motor_run pack_enable m = \<lparr>mt_speed1 = 0, mt_speed2 = 0, mt_on1 = True, mt_on2 = True\<rparr>"
    by (cases m) (simp add: pack_enable_parts inert motor_stop motor_enable)
  show "motor_run pack_disable m = \<lparr>mt_speed1 = 0, mt_speed2 = 0, mt_on1 = False, mt_on2 = False\<rparr>"
    by (cases m) (simp add: pack_disable_parts inert motor_stop motor_disable)
  obtain pre where "pack_start d = pre @ FillDataContainerCanOpenAxleSpeed 0 0 [] @ FillDataContainerCanOpenAxleDisable []"
      "\<forall>msg \<in> set pre. inert msg" by (rule pack_start_parts)
  then show "motor_run (pack_start d) m = \<lparr>mt_speed1 = 0, mt_speed2 = 0, mt_on1 = False, mt_on2 = False\<rparr>"
    by (cases m) (simp add: motor_run_inert motor_stop motor_disable)
  show "pack_store d = Some tds \<Longrightarrow> motor_run tds m = m" using inert_store by (intro motor_run_inert) blast
qed

lemma PackServoMtrControl_motor:
  "mc_move ctrl = Some (Move_whl_rpm rpm) \<Longrightarrow>
     motor_run (PackServoMtrControl f g ctrl) m = m\<lparr>mt_speed1 := - (right_rpm rpm * 10), mt_speed2 := left_rpm rpm * 10\<rparr>"
  "mc_move ctrl = Some (Move_diff_spd ds) \<Longrightarrow>
     motor_run (PackServoMtrControl f g ctrl) m = m\<lparr>mt_speed1 := - (right_rpm (f ds) * 10), mt_speed2 := left_rpm (f ds) * 10\<rparr>"
  "mc_move ctrl = Some (Move_whl_spd ws) \<Longrightarrow>
     motor_run (PackServoMtrControl f g ctrl) m = m\<lparr>mt_speed1 := - (right_rpm (g ws) * 10), mt_speed2 := left_rpm (g ws) * 10\<rparr>"
  by (simp_all add: PackServoMtrControl_def motor_stop Let_def)

text \<open>A request to stop in an emergency sends nothing to the wheels.\<close>

lemma emergency_stop_ignored: "mc_move ctrl = None \<Longrightarrow> PackServoMtrControl f g (ctrl\<lparr>mc_emergency_stop := Some True\<rparr>) = []"
  by (simp add: PackServoMtrControl_def)

section \<open>Odometry\<close>

text \<open>The reports of the drive: speed and encoder of the left (axle 2) and the right (axle 1) wheel.\<close>

datatype report = Left_report "32 word" "32 word" | Right_report "32 word" "32 word"

fun report_frame :: "report \<Rightarrow> byte list" where
  "report_frame (Left_report v e) = [0x82, 0x10] @ le32_bytes v @ le32_bytes e"
| "report_frame (Right_report v e) = [0x81, 0x10] @ le32_bytes v @ le32_bytes e"

fun report_speed :: "report \<Rightarrow> 32 word" where
  "report_speed (Left_report v e) = v"
| "report_speed (Right_report v e) = v"

definition looks_like_echo :: "report \<Rightarrow> bool" where
  "looks_like_echo r \<longleftrightarrow> byte_at 0 (report_speed r) \<in>
     {DS_MOTOR_READ_BOTH_CMD, DS_MOTOR_WRITE_BOTH_CMD, DS_MOTOR_WRITE_CANOPEN_1, DS_MOTOR_WRITE_CANOPEN_2, DS_MOTOR_WRITE_CANOPEN_4}"

lemma parse_report:
  "parse_servo_motor_info (report_frame (Left_report v e) @ rest) 10 si d =
     Some (if looks_like_echo (Left_report v e) then si else si\<lparr>si_speed_left := v, si_encoder_left := e\<rparr>, d)"
  "parse_servo_motor_info (report_frame (Right_report v e) @ rest) 10 si d =
     Some (if looks_like_echo (Right_report v e) then si else si\<lparr>si_speed_right := v, si_encoder_right := e\<rparr>, d)"
proof -
  have "le16 0x82 0x10 = 0x1082" "le16 0x81 0x10 = 0x1081" by code_simp+
  then show "parse_servo_motor_info (report_frame (Left_report v e) @ rest) 10 si d =
     Some (if looks_like_echo (Left_report v e) then si else si\<lparr>si_speed_left := v, si_encoder_left := e\<rparr>, d)"
    "parse_servo_motor_info (report_frame (Right_report v e) @ rest) 10 si d =
     Some (if looks_like_echo (Right_report v e) then si else si\<lparr>si_speed_right := v, si_encoder_right := e\<rparr>, d)"
    by (simp_all add: parse_servo_motor_info_def looks_like_echo_def le32_bytes_def le32_le32_bytes)
qed

definition servo_live :: "servo \<Rightarrow> bool" where
  "servo_live p \<longleftrightarrow> \<not> pb_is_parsing_busy p \<and> pb_frame_processor_sp p"

text \<open>
  C39: A report of the speed and encoder of a wheel whose speed ends in one of five bytes is taken for the echo of a command and
  changes nothing.
\<close>

theorem report_taken_for_echo:
  assumes "byte_at 0 (report_speed r) \<in>
      {DS_MOTOR_READ_BOTH_CMD, DS_MOTOR_WRITE_BOTH_CMD, DS_MOTOR_WRITE_CANOPEN_1, DS_MOTOR_WRITE_CANOPEN_2, DS_MOTOR_WRITE_CANOPEN_4}"
    and "\<not> pb_is_parsing_busy p"
  shows "OnOriginalDataCan (report_frame r @ rest) 10 p = Some p"
proof -
  have "looks_like_echo r" using assms(1) by (simp add: looks_like_echo_def)
  then have "parse_servo_motor_info (report_frame r @ rest) 10 si d = Some (si, d)" for si d by (cases r) (simp_all add: parse_report del: report_frame.simps)
  then show ?thesis using assms(2)
    by (simp add: OnOriginalDataCan_def ParseCanBuffer_def servo_info_none_def left_report_def right_report_def status_report_def)
qed

lemma report_taken_for_echo_witness:
  "OnOriginalDataCan (report_frame (Right_report 0x123 77) @ []) 10 (SetProtobufHandleSp ServoParser_ctor) = Some (SetProtobufHandleSp ServoParser_ctor)"
proof (rule report_taken_for_echo)
  have "byte_at 0 (0x123 :: 32 word) = 0x23" by code_simp
  then show "byte_at 0 (report_speed (Right_report 0x123 77)) \<in>
      {DS_MOTOR_READ_BOTH_CMD, DS_MOTOR_WRITE_BOTH_CMD, DS_MOTOR_WRITE_CANOPEN_1, DS_MOTOR_WRITE_CANOPEN_2, DS_MOTOR_WRITE_CANOPEN_4}"
    by (simp add: DS_MOTOR_WRITE_CANOPEN_4_def)
qed (simp add: SetProtobufHandleSp_def ServoParser_ctor_def ParserBaseItf_ctor_def)

text \<open>The other reports are used, unless both of their values are \<open>-1\<close>, the mark of a report that is missing.\<close>

definition usable :: "report \<Rightarrow> bool" where
  "usable r \<longleftrightarrow> \<not> looks_like_echo r \<and> r \<noteq> Left_report (- 1) (- 1) \<and> r \<noteq> Right_report (- 1) (- 1)"

lemma left_report_step:
  assumes "usable (Left_report v e)" and "servo_live p"
  shows "OnOriginalDataCan (report_frame (Left_report v e)) 10 p =
    Some (p\<lparr>pb_state := (pb_state p)\<lparr>sp_left_rpm := v, sp_left_encoder := e\<rparr>\<rparr>)"
  using parse_report(1) [of v e "[]"] assms
  by (auto simp: OnOriginalDataCan_def ParseCanBuffer_def servo_info_none_def left_report_def right_report_def status_report_def usable_def
      servo_live_def simp del: report_frame.simps)

lemma right_report_step:
  fixes p :: servo
  assumes "usable (Right_report v e)" and "servo_live p"
  defines "st \<equiv> pb_state p"
  shows "OnOriginalDataCan (report_frame (Right_report v e)) 10 p =
    Some (p\<lparr>pb_state := st\<lparr>sp_right_rpm := - v, sp_right_encoder := - e, sp_odom_seq := sp_odom_seq st + 1,
        sp_last_left_encoder := sp_left_encoder st, sp_last_right_encoder := - e, sp_last_left_rpm := sp_left_rpm st, sp_last_right_rpm := - v\<rparr>,
      pb_published := pb_published p @ [\<lparr>od_seq = sp_odom_seq st, od_d_left = sp_left_encoder st - sp_last_left_encoder st,
        od_d_right = - e - sp_last_right_encoder st, od_rpm_left = sp_left_rpm st, od_rpm_right = - v\<rparr>]\<rparr>)"
  using parse_report(2) [of v e "[]"] assms
  by (auto simp: OnOriginalDataCan_def ParseCanBuffer_def servo_info_none_def left_report_def right_report_def status_report_def usable_def
      servo_live_def Servo_ParseSigleFrame_def pb_publish_def Let_def simp del: report_frame.simps)

fun servo_run :: "report list \<Rightarrow> servo \<Rightarrow> servo option" where
  "servo_run [] p = Some p"
| "servo_run (r # rs) p = (case OnOriginalDataCan (report_frame r) 10 p of None \<Rightarrow> None | Some q \<Rightarrow> servo_run rs q)"

fun left_encoders :: "report list \<Rightarrow> 32 word list" where
  "left_encoders [] = []"
| "left_encoders (Left_report v e # rs) = e # left_encoders rs"
| "left_encoders (Right_report v e # rs) = left_encoders rs"

fun right_encoders :: "report list \<Rightarrow> 32 word list" where
  "right_encoders [] = []"
| "right_encoders (Left_report v e # rs) = right_encoders rs"
| "right_encoders (Right_report v e # rs) = e # right_encoders rs"

text \<open>What the messages published while the reports arrive say of the encoders.\<close>

definition adds_up :: "servo \<Rightarrow> report list \<Rightarrow> servo \<Rightarrow> Odometry list \<Rightarrow> bool" where
  "adds_up p rs q ms \<longleftrightarrow> pb_published q = pb_published p @ ms \<and> length ms = length (right_encoders rs) \<and>
     sp_left_encoder (pb_state q) = last (sp_left_encoder (pb_state p) # left_encoders rs) \<and>
     sp_last_right_encoder (pb_state q) = last (sp_last_right_encoder (pb_state p) # map uminus (right_encoders rs)) \<and>
     sum_list (map od_d_left ms) = sp_last_left_encoder (pb_state q) - sp_last_left_encoder (pb_state p) \<and>
     sum_list (map od_d_right ms) = sp_last_right_encoder (pb_state q) - sp_last_right_encoder (pb_state p) \<and>
     sp_odom_seq (pb_state q) = sp_odom_seq (pb_state p) + of_nat (length ms) \<and>
     map od_seq ms = map (\<lambda>i. sp_odom_seq (pb_state p) + of_nat i) [0..<length ms]"

lemma seq_shift: "a # map (\<lambda>i. a + 1 + of_nat i) [0..<n] = map (\<lambda>i. a + of_nat i) [0..<Suc n]" for a :: "32 word"
  by (simp only: upt_conv_Cons [of 0 "Suc n"] zero_less_Suc map_Suc_upt [symmetric] list.map map_map) (simp add: comp_def add.assoc)

lemma right_report_adds:
  assumes "usable (Right_report v e)" and "servo_live p"
  obtains q m where "OnOriginalDataCan (report_frame (Right_report v e)) 10 p = Some q" and "servo_live q" and "adds_up p [Right_report v e] q [m]"
    and "sp_odom_seq (pb_state q) = sp_odom_seq (pb_state p) + 1" and "sp_last_left_encoder (pb_state q) = sp_left_encoder (pb_state p)"
proof
  let ?q = "the (OnOriginalDataCan (report_frame (Right_report v e)) 10 p)"
  note step = right_report_step [OF assms]
  show "OnOriginalDataCan (report_frame (Right_report v e)) 10 p = Some ?q" unfolding step by simp
  show "servo_live ?q" "adds_up p [Right_report v e] ?q [last (pb_published ?q)]" "sp_odom_seq (pb_state ?q) = sp_odom_seq (pb_state p) + 1"
      "sp_last_left_encoder (pb_state ?q) = sp_left_encoder (pb_state p)"
    using assms(2) unfolding step by (simp_all add: servo_live_def adds_up_def)
qed

lemma servo_run_odometry:
  "\<forall>r \<in> set rs. usable r \<Longrightarrow> servo_live p \<Longrightarrow> \<exists>q ms. servo_run rs p = Some q \<and> servo_live q \<and> adds_up p rs q ms"
proof (induction rs arbitrary: p)
  case Nil
  then show ?case by (intro exI [of _ p] exI [of _ "[]"]) (simp add: adds_up_def)
next
  case (Cons r rs)
  show ?case
  proof (cases r)
    case (Left_report v e)
    let ?p1 = "p\<lparr>pb_state := (pb_state p)\<lparr>sp_left_rpm := v, sp_left_encoder := e\<rparr>\<rparr>"
    have run: "servo_run (r # rs) p = servo_run rs ?p1" using left_report_step [of v e p] Cons.prems Left_report by simp
    have "servo_live ?p1" using Cons.prems(2) by (simp add: servo_live_def)
    then obtain q ms where q: "servo_run rs ?p1 = Some q" "servo_live q" "adds_up ?p1 rs q ms" using Cons.IH [of ?p1] Cons.prems(1) by auto
    have "adds_up p (r # rs) q ms" using q(3) Left_report by (simp add: adds_up_def)
    then show ?thesis using run q(1,2) by auto
  next
    case (Right_report v e)
    have "usable (Right_report v e)" using Cons.prems(1) Right_report by simp
    then obtain p1 m where p1: "OnOriginalDataCan (report_frame r) 10 p = Some p1" "servo_live p1" "adds_up p [r] p1 [m]"
        "sp_odom_seq (pb_state p1) = sp_odom_seq (pb_state p) + 1"
      using right_report_adds [OF _ Cons.prems(2)] unfolding Right_report by metis
    obtain q ms where q: "servo_run rs p1 = Some q" "servo_live q" "adds_up p1 rs q ms" using Cons.IH [OF _ p1(2)] Cons.prems(1) by auto
    have "adds_up p (r # rs) q (m # ms)"
      using p1(3,4) q(3) Right_report seq_shift [of "sp_odom_seq (pb_state p)" "length ms"] by (auto simp: adds_up_def)
    then show ?thesis using p1(1) q(1,2) by auto
  qed
qed

text \<open>
  C10: However the reports of the two wheels are interleaved, every report of the right wheel makes one odometry message, with the next sequence
  number, and at a report of the right wheel the distances of all messages add up to what the encoders report: the movements are neither
  lost nor counted twice, also when an encoder wraps around.
\<close>

theorem odometry_adds_up:
  assumes "\<not> pb_is_parsing_busy p" and "pb_frame_processor_sp p"
    and "\<forall>r \<in> set (rs @ [Right_report v e]). \<not> looks_like_echo r \<and> r \<noteq> Left_report (- 1) (- 1) \<and> r \<noteq> Right_report (- 1) (- 1)"
  shows "\<exists>q ms. servo_run (rs @ [Right_report v e]) p = Some q \<and> pb_published q = pb_published p @ ms \<and>
    length ms = Suc (length (right_encoders rs)) \<and>
    map od_seq ms = map (\<lambda>i. sp_odom_seq (pb_state p) + of_nat i) [0..<length ms] \<and>
    sum_list (map od_d_left ms) = last (sp_left_encoder (pb_state p) # left_encoders rs) - sp_last_left_encoder (pb_state p) \<and>
    sum_list (map od_d_right ms) = - e - sp_last_right_encoder (pb_state p)"
proof -
  have live: "servo_live p" using assms(1,2) by (simp add: servo_live_def)
  have "\<forall>r \<in> set rs. usable r" and last: "usable (Right_report v e)" using assms(3) by (auto simp: usable_def)
  then obtain p1 ms where p1: "servo_run rs p = Some p1" "servo_live p1" "adds_up p rs p1 ms" using servo_run_odometry [OF _ live] by blast
  have append: "servo_run (as @ bs) a = (case servo_run as a of None \<Rightarrow> None | Some b \<Rightarrow> servo_run bs b)" for as bs a
    by (induction as arbitrary: a) (simp_all split: option.splits)
  obtain q m where q: "OnOriginalDataCan (report_frame (Right_report v e)) 10 p1 = Some q" "adds_up p1 [Right_report v e] q [m]"
      "sp_last_left_encoder (pb_state q) = sp_left_encoder (pb_state p1)"
    using right_report_adds [OF last p1(2)] by metis
  have seq: "sp_odom_seq (pb_state p1) = sp_odom_seq (pb_state p) + of_nat (length ms)"
    using p1(3) by (simp add: adds_up_def)
  have "servo_run (rs @ [Right_report v e]) p = Some q" unfolding append p1(1) option.case using q(1) by (simp del: report_frame.simps)
  moreover have "pb_published q = pb_published p @ ms @ [m]" "length (ms @ [m]) = Suc (length (right_encoders rs))"
    using p1(3) q(2) by (simp_all add: adds_up_def)
  moreover have "map od_seq (ms @ [m]) = map (\<lambda>i. sp_odom_seq (pb_state p) + of_nat i) [0..<length (ms @ [m])]"
    using p1(3) q(2) seq by (simp add: adds_up_def)
  moreover have "sum_list (map od_d_left (ms @ [m])) = List.last (sp_left_encoder (pb_state p) # left_encoders rs) - sp_last_left_encoder (pb_state p)"
    "sum_list (map od_d_right (ms @ [m])) = - e - sp_last_right_encoder (pb_state p)"
    using p1(3) q(2,3) by (simp_all add: adds_up_def)
  ultimately show ?thesis by blast
qed

lemma odometry_adds_up_witness:
  "\<exists>q ms. servo_run ([Left_report 0x100 10, Right_report 0x200 5, Left_report 0x100 40] @ [Right_report 0x300 12]) (SetProtobufHandleSp ServoParser_ctor) = Some q \<and>
     pb_published q = ms \<and> length ms = 2 \<and> sum_list (map od_d_left ms) = 40 \<and> sum_list (map od_d_right ms) = - 12"
proof -
  let ?p = "SetProtobufHandleSp ServoParser_ctor"
  let ?rs = "[Left_report 0x100 10, Right_report 0x200 5, Left_report 0x100 40]"
  have p: "\<not> pb_is_parsing_busy ?p" "pb_frame_processor_sp ?p" by (simp_all add: SetProtobufHandleSp_def ServoParser_ctor_def ParserBaseItf_ctor_def)
  have "byte_at 0 0x100 = 0" "byte_at 0 0x200 = 0" "byte_at 0 0x300 = 0" by code_simp+
  then have "\<forall>r \<in> set (?rs @ [Right_report 0x300 12]). \<not> looks_like_echo r \<and> r \<noteq> Left_report (- 1) (- 1) \<and> r \<noteq> Right_report (- 1) (- 1)"
    by (simp add: looks_like_echo_def DS_MOTOR_defs)
  from odometry_adds_up [OF p this] obtain q ms where run: "servo_run (?rs @ [Right_report 0x300 12]) ?p = Some q" "pb_published q = pb_published ?p @ ms"
      "length ms = Suc (length (right_encoders ?rs))"
      "sum_list (map od_d_left ms) = last (sp_left_encoder (pb_state ?p) # left_encoders ?rs) - sp_last_left_encoder (pb_state ?p)"
      "sum_list (map od_d_right ms) = - 12 - sp_last_right_encoder (pb_state ?p)" by blast
  show ?thesis using run(2-5) by (intro exI [of _ q] exI [of _ ms] conjI run(1))
    (simp_all add: SetProtobufHandleSp_def ServoParser_ctor_def ParserBaseItf_ctor_def)
qed

section \<open>The driver of the bus\<close>

text \<open>A report on the bus arrives as the frame the parser expects, followed by two bytes the bus did not send.\<close>

lemma can_recv_report:
  assumes "length (le32_bytes v @ le32_bytes e @ stale) = 64"
  shows "can_recv_buf 0x181 (le32_bytes v @ le32_bytes e @ stale) 8 = Some (report_frame (Right_report v e) @ take 2 stale @ replicate 500 0, 10)"
    and "can_recv_buf 0x182 (le32_bytes v @ le32_bytes e @ stale) 8 = Some (report_frame (Left_report v e) @ take 2 stale @ replicate 500 0, 10)"
proof -
  have "(0x181 :: 32 word) AND 0xff = 0x81" "drop_bit 4 ((0x181 :: 32 word) AND 0xff00) = 0x10"
      "(0x182 :: 32 word) AND 0xff = 0x82" "drop_bit 4 ((0x182 :: 32 word) AND 0xff00) = 0x10" by code_simp+
  moreover have "length stale = 56" "length (le32_bytes w) = 4" for w using assms by (simp_all add: le32_bytes_def)
  ultimately show "can_recv_buf 0x181 (le32_bytes v @ le32_bytes e @ stale) 8 = Some (report_frame (Right_report v e) @ take 2 stale @ replicate 500 0, 10)"
    "can_recv_buf 0x182 (le32_bytes v @ le32_bytes e @ stale) 8 = Some (report_frame (Left_report v e) @ take 2 stale @ replicate 500 0, 10)"
    by (simp_all add: can_recv_buf_def)
qed

text \<open>For the longest frames the driver reads beyond the data of the frame.\<close>

lemma can_recv_overrun: "length frame_data = 64 \<Longrightarrow> can_recv_buf can_id frame_data 64 = None"
  by (simp add: can_recv_buf_def)

end
