(* ===== verification/Device_Base.thy ===== *)
theory Device_Base
  imports Servo_Can
begin

text \<open>
  \<open>modules/chassis/devices/device_base_itf.h\<close>, the life cycle every device of the chassis goes through, and \<open>devices/dev_libs/dev_servo.cc\<close>,
  the wheels. The base class calls the virtual methods of the device only in a status that allows it; the locale \<open>device_impl\<close> says what
  these methods need and promise, and gives that no order of calls from outside breaks the device. It is interpreted on the wheels, whose
  methods follow null pointers unless the tables of registers were set up.
\<close>

section \<open>The base class\<close>

datatype EE_DEVICE_STATUS = E_STATUS_SENTINEL | E_STATUS_UNINITIALIZED | E_STATUS_INITIALIZED | E_STATUS_WORKING | E_STATUS_IDLE
  | E_STATUS_FAULT | E_STATUS_SHUTDOWN | E_STATUS_NOTEXIST

text \<open>\<open>db_power\<close>: the last command to the switch of the device. \<open>db_dev\<close>: the members of the derived class.\<close>

record 'd DeviceBaseItf =
  db_status :: EE_DEVICE_STATUS
  db_inited :: bool
  db_working :: bool
  db_stoped :: bool
  db_has_switch :: bool
  db_power :: bool
  db_dev :: 'd

definition DeviceBaseItf_ctor :: "'d \<Rightarrow> 'd DeviceBaseItf" where
  "DeviceBaseItf_ctor d = \<lparr>db_status = E_STATUS_UNINITIALIZED, db_inited = False, db_working = False, db_stoped = True,
     db_has_switch = False, db_power = False, db_dev = d\<rparr>"

definition RegisterGpioSwitch :: "'d DeviceBaseItf \<Rightarrow> 'd DeviceBaseItf" where
  "RegisterGpioSwitch b = b\<lparr>db_has_switch := True\<rparr>"

definition CtrlSwitch :: "bool \<Rightarrow> 'd DeviceBaseItf \<Rightarrow> 'd DeviceBaseItf" where
  "CtrlSwitch sw b = (if db_has_switch b then b\<lparr>db_power := sw\<rparr> else b)"

text \<open>The virtual methods take the state of the device and return a code and the new state, or \<open>None\<close> if the process ends.\<close>

type_synonym 'd dev_method = "'d \<Rightarrow> (int \<times> 'd) option"

definition InitSensor :: "'d dev_method \<Rightarrow> bool \<Rightarrow> 'd DeviceBaseItf \<Rightarrow> (int \<times> 'd DeviceBaseItf) option" where
  "InitSensor Init si_is_own b =
     (if \<not> si_is_own then Some (- 1, b)
      else case Init (db_dev b) of
             None \<Rightarrow> None
           | Some (ret, d) \<Rightarrow>
               let b1 = b\<lparr>db_dev := d\<rparr>
               in Some (ret, if ret = 0 then b1\<lparr>db_inited := True, db_working := False, db_stoped := True, db_status := E_STATUS_INITIALIZED\<rparr> else b1))"

definition StartSensor :: "'d dev_method \<Rightarrow> 'd DeviceBaseItf \<Rightarrow> (int \<times> 'd DeviceBaseItf) option" where
  "StartSensor Start b =
     (let b = CtrlSwitch True b
      in if db_status b = E_STATUS_UNINITIALIZED then Some (- 1, b)
         else if db_status b = E_STATUS_WORKING then Some (0, b)
         else case Start (db_dev b) of
                None \<Rightarrow> None
              | Some (ret, d) \<Rightarrow>
                  let b1 = b\<lparr>db_dev := d\<rparr>
                  in Some (ret, if ret = 0 then b1\<lparr>db_working := True, db_stoped := False, db_status := E_STATUS_WORKING\<rparr> else b1))"

definition StopSensor :: "'d dev_method \<Rightarrow> 'd DeviceBaseItf \<Rightarrow> (int \<times> 'd DeviceBaseItf) option" where
  "StopSensor Stop b =
     (if db_status b = E_STATUS_UNINITIALIZED then Some (- 1, b)
      else if db_status b = E_STATUS_IDLE then Some (0, b)
      else case Stop (db_dev b) of
             None \<Rightarrow> None
           | Some (ret, d) \<Rightarrow>
               let b1 = b\<lparr>db_dev := d\<rparr>;
                   b2 = (if ret = 0 then b1\<lparr>db_working := False, db_stoped := True, db_status := E_STATUS_IDLE\<rparr> else b1)
               in Some (ret, CtrlSwitch False b2))"

definition ResumeSensor :: "'d dev_method \<Rightarrow> 'd DeviceBaseItf \<Rightarrow> (int \<times> 'd DeviceBaseItf) option" where
  "ResumeSensor Resume b =
     (if db_status b = E_STATUS_UNINITIALIZED then Some (- 1, b)
      else if db_status b = E_STATUS_WORKING then Some (0, b)
      else case Resume (db_dev b) of
             None \<Rightarrow> None
           | Some (ret, d) \<Rightarrow>
               let b1 = b\<lparr>db_dev := d\<rparr>;
                   b2 = (if ret = 0 then b1\<lparr>db_working := True, db_stoped := False, db_status := E_STATUS_WORKING\<rparr> else b1)
               in Some (ret, CtrlSwitch True b2))"

definition CloseSensor :: "'d dev_method \<Rightarrow> 'd DeviceBaseItf \<Rightarrow> (int \<times> 'd DeviceBaseItf) option" where
  "CloseSensor Close b =
     (if db_status b = E_STATUS_UNINITIALIZED then Some (- 1, b)
      else if db_status b = E_STATUS_SHUTDOWN then Some (- 1, b)
      else case Close (db_dev b) of
             None \<Rightarrow> None
           | Some (ret, d) \<Rightarrow>
               let b1 = b\<lparr>db_dev := d\<rparr>;
                   b2 = (if ret = 0 then b1\<lparr>db_working := False, db_stoped := True, db_status := E_STATUS_SHUTDOWN\<rparr> else b1)
               in Some (ret, CtrlSwitch False b2))"

section \<open>The wheels\<close>

text \<open>The configuration of the device and what the driver below answers.\<close>

record servo_conf =
  wheel_diameter_10th1_mm :: "32 word"
  wheel_distance_10th1_mm :: "32 word"
  accelerate_time_ms :: "32 word"
  decelerate_time_ms :: "32 word"
  speed_report_period_ms :: "32 word"
  status_report_period_ms :: "32 word"
  servo_circle_buf :: "nat option"

record servo_env =
  link_start :: int
  link_stop :: int
  link_resume :: int
  link_close :: int
  link_writes :: "can_msg \<Rightarrow> bool"

record DevServo =
  dv_conf :: servo_conf
  dv_parser :: servo
  dv_sent :: "can_msg list"

definition DevServo_ctor :: "servo_conf \<Rightarrow> DevServo" where
  "DevServo_ctor c = \<lparr>dv_conf = c, dv_parser = ServoParser_ctor, dv_sent = []\<rparr>"

definition on_driver :: "(ServoDriver \<Rightarrow> ServoDriver) \<Rightarrow> servo \<Rightarrow> servo" where
  "on_driver f p = p\<lparr>pb_state := (pb_state p)\<lparr>sp_driver := f (sp_driver (pb_state p))\<rparr>\<rparr>"

definition dv_driver :: "DevServo \<Rightarrow> ServoDriver" where
  "dv_driver s = sp_driver (pb_state (dv_parser s))"

definition ServoParser_Init :: "servo_conf \<Rightarrow> servo \<Rightarrow> int \<times> servo" where
  "ServoParser_Init c p =
     ParserBaseItf_Init E_COMM_PORT_CAN (servo_circle_buf c)
       (on_driver (config_servo_motor_parameters (wheel_diameter_10th1_mm c) (wheel_distance_10th1_mm c) (accelerate_time_ms c)
          (decelerate_time_ms c) (speed_report_period_ms c) (status_report_period_ms c)) p)"

definition ServoParser_Start :: "servo_env \<Rightarrow> servo \<Rightarrow> int \<times> servo" where
  "ServoParser_Start env p = (case ParserBaseItf_Start p of (ret, p1) \<Rightarrow> if ret \<noteq> 0 then (- 1, p1) else (link_start env, p1))"

definition ServoParser_Stop :: "servo_env \<Rightarrow> servo \<Rightarrow> int \<times> servo" where
  "ServoParser_Stop env p = (case ParserBaseItf_Stop p of (ret, p1) \<Rightarrow> if ret \<noteq> 0 then (- 1, p1) else (link_stop env, p1))"

definition ServoParser_Resume :: "servo_env \<Rightarrow> servo \<Rightarrow> int \<times> servo" where
  "ServoParser_Resume env p = (case ParserBaseItf_Resume p of (ret, p1) \<Rightarrow> if ret \<noteq> 0 then (- 1, p1) else (link_resume env, p1))"

definition ServoParser_Close :: "servo_env \<Rightarrow> servo \<Rightarrow> int \<times> servo" where
  "ServoParser_Close env p = (case ParserBaseItf_Close p of (ret, p1) \<Rightarrow> if ret \<noteq> 0 then (- 1, p1) else (link_close env, p1))"

text \<open>
  The link writes no frame without data, and says that it wrote all its bytes; frames that the driver does not take are only logged.
\<close>

definition link_takes :: "servo_env \<Rightarrow> can_msg \<Rightarrow> bool" where
  "link_takes env msg \<longleftrightarrow> snd msg \<noteq> [] \<and> link_writes env msg"

definition WriteServoMessage :: "servo_env \<Rightarrow> can_msg list \<Rightarrow> DevServo \<Rightarrow> int \<times> DevServo" where
  "WriteServoMessage env data s = (0, s\<lparr>dv_sent := dv_sent s @ filter (link_takes env) data\<rparr>)"

definition send_setting :: "servo_env \<Rightarrow> EE_SUBDEV_OPTS \<Rightarrow> DevServo dev_method" where
  "send_setting env opts s =
     (case PackServoMtrSetting opts (dv_driver s) of
        None \<Rightarrow> None
      | Some (data, d) \<Rightarrow> Some (WriteServoMessage env data (s\<lparr>dv_parser := on_driver (\<lambda>_. d) (dv_parser s)\<rparr>)))"

definition DevServo_Init :: "servo_env \<Rightarrow> DevServo dev_method" where
  "DevServo_Init env s =
     (case ServoParser_Init (dv_conf s) (dv_parser s) of
        (ret, p) \<Rightarrow> if ret \<noteq> 0 then Some (- 1, s\<lparr>dv_parser := p\<rparr>) else send_setting env E_SUBDEV_OPTS_INIT (s\<lparr>dv_parser := p\<rparr>))"

definition DevServo_Start :: "servo_env \<Rightarrow> DevServo dev_method" where
  "DevServo_Start env s =
     (case ServoParser_Start env (dv_parser s) of
        (ret, p) \<Rightarrow>
          if ret \<noteq> 0 then Some (- 1, s\<lparr>dv_parser := p\<rparr>)
          else Option.bind (send_setting env E_SUBDEV_OPTS_STORE (s\<lparr>dv_parser := p\<rparr>)) (\<lambda>(_, s1).
               Option.bind (send_setting env E_SUBDEV_OPTS_START s1) (\<lambda>(_, s2). send_setting env E_SUBDEV_OPTS_ENABLE s2)))"

definition DevServo_Stop :: "servo_env \<Rightarrow> DevServo dev_method" where
  "DevServo_Stop env s =
     (case ServoParser_Stop env (dv_parser s) of
        (ret, p) \<Rightarrow> if ret \<noteq> 0 then Some (- 1, s\<lparr>dv_parser := p\<rparr>) else send_setting env E_SUBDEV_OPTS_STOP (s\<lparr>dv_parser := p\<rparr>))"

definition DevServo_Resume :: "servo_env \<Rightarrow> DevServo dev_method" where
  "DevServo_Resume env s =
     (case ServoParser_Resume env (dv_parser s) of (ret, p) \<Rightarrow> Some (if ret \<noteq> 0 then - 1 else 0, s\<lparr>dv_parser := p\<rparr>))"

definition DevServo_Close :: "servo_env \<Rightarrow> DevServo dev_method" where
  "DevServo_Close env s =
     Option.bind (DevServo_Stop env s) (\<lambda>(_, s1).
     Option.bind (send_setting env E_SUBDEV_OPTS_DISABLE s1) (\<lambda>(_, s2).
     Option.bind (send_setting env E_SUBDEV_OPTS_DISABLE s2) (\<lambda>(_, s3).
       Some (0, s3\<lparr>dv_parser := snd (ServoParser_Close env (dv_parser s3))\<rparr>))))"

definition DevServo_SetSpeed ::
    "('d \<Rightarrow> WheelRpm) \<Rightarrow> ('w \<Rightarrow> WheelRpm) \<Rightarrow> servo_env \<Rightarrow> ('d, 'w) ChsMovementCtrl \<Rightarrow> DevServo \<Rightarrow> int \<times> DevServo" where
  "DevServo_SetSpeed conv_diff conv_wheel env cc s = WriteServoMessage env (PackServoMtrControl conv_diff conv_wheel cc) s"

section \<open>Calls from outside\<close>

text \<open>The five methods of a device, for every answer of its environment.\<close>

record ('e, 'd) device_methods =
  dm_Init :: "'e \<Rightarrow> 'd dev_method"
  dm_Start :: "'e \<Rightarrow> 'd dev_method"
  dm_Stop :: "'e \<Rightarrow> 'd dev_method"
  dm_Resume :: "'e \<Rightarrow> 'd dev_method"
  dm_Close :: "'e \<Rightarrow> 'd dev_method"

datatype 'e life_call = Call_Switch | Call_Init bool 'e | Call_Start 'e | Call_Stop 'e | Call_Resume 'e | Call_Close 'e

fun device_call :: "('e, 'd) device_methods \<Rightarrow> 'e life_call \<Rightarrow> 'd DeviceBaseItf \<Rightarrow> (int \<times> 'd DeviceBaseItf) option" where
  "device_call ms Call_Switch b = Some (0, RegisterGpioSwitch b)"
| "device_call ms (Call_Init own e) b = InitSensor (dm_Init ms e) own b"
| "device_call ms (Call_Start e) b = StartSensor (dm_Start ms e) b"
| "device_call ms (Call_Stop e) b = StopSensor (dm_Stop ms e) b"
| "device_call ms (Call_Resume e) b = ResumeSensor (dm_Resume ms e) b"
| "device_call ms (Call_Close e) b = CloseSensor (dm_Close ms e) b"

fun device_calls :: "('e, 'd) device_methods \<Rightarrow> 'e life_call list \<Rightarrow> 'd DeviceBaseItf \<Rightarrow> 'd DeviceBaseItf option" where
  "device_calls ms [] b = Some b"
| "device_calls ms (c # cs) b = (case device_call ms c b of None \<Rightarrow> None | Some (_, b1) \<Rightarrow> device_calls ms cs b1)"

text \<open>The members of the base class agree with the status.\<close>

definition life_ok :: "'d DeviceBaseItf \<Rightarrow> bool" where
  "life_ok b \<longleftrightarrow> (db_inited b \<longleftrightarrow> db_status b \<noteq> E_STATUS_UNINITIALIZED) \<and> (db_working b \<longleftrightarrow> db_status b = E_STATUS_WORKING) \<and>
     (db_stoped b \<longleftrightarrow> \<not> db_working b)"

locale device_impl =
  fixes ready :: "'d \<Rightarrow> bool" and ms :: "('e, 'd) device_methods"
  assumes Init_ok: "\<exists>ret d'. dm_Init ms e d = Some (ret, d') \<and> (ret = 0 \<or> ready d \<longrightarrow> ready d')"
    and Start_ok: "ready d \<Longrightarrow> \<exists>ret d'. dm_Start ms e d = Some (ret, d') \<and> ready d'"
    and Stop_ok: "ready d \<Longrightarrow> \<exists>ret d'. dm_Stop ms e d = Some (ret, d') \<and> ready d'"
    and Resume_ok: "ready d \<Longrightarrow> \<exists>ret d'. dm_Resume ms e d = Some (ret, d') \<and> ready d'"
    and Close_ok: "ready d \<Longrightarrow> \<exists>ret d'. dm_Close ms e d = Some (ret, d') \<and> ready d'"
begin

definition alive :: "'d DeviceBaseItf \<Rightarrow> bool" where
  "alive b \<longleftrightarrow> life_ok b \<and> (db_status b \<noteq> E_STATUS_UNINITIALIZED \<longrightarrow> ready (db_dev b))"

lemma alive_ctor: "alive (DeviceBaseItf_ctor d)"
  by (simp add: alive_def life_ok_def DeviceBaseItf_ctor_def)

lemma alive_switch: "alive (CtrlSwitch sw b) \<longleftrightarrow> alive b" "db_status (CtrlSwitch sw b) = db_status b" "db_dev (CtrlSwitch sw b) = db_dev b"
  by (simp_all add: alive_def life_ok_def CtrlSwitch_def)

lemma alive_call: "alive b \<Longrightarrow> \<exists>ret b'. device_call ms c b = Some (ret, b') \<and> alive b'"
proof (induction c)
  case (Call_Init own e)
  obtain ret d' where "dm_Init ms e (db_dev b) = Some (ret, d')" "ret = 0 \<or> ready (db_dev b) \<longrightarrow> ready d'" using Init_ok by blast
  then show ?case using Call_Init by (simp add: InitSensor_def alive_def life_ok_def Let_def)
next
  case (Call_Start e)
  show ?case
  proof (cases "db_status b \<in> {E_STATUS_UNINITIALIZED, E_STATUS_WORKING}")
    case False
    then obtain ret d' where "dm_Start ms e (db_dev b) = Some (ret, d')" "ready d'"
      using Call_Start Start_ok [of "db_dev b" e] by (auto simp: alive_def)
    then show ?thesis using Call_Start False by (simp add: StartSensor_def Let_def alive_def life_ok_def CtrlSwitch_def)
  qed (use Call_Start in \<open>auto simp: StartSensor_def alive_switch\<close>)
next
  case (Call_Stop e)
  show ?case
  proof (cases "db_status b \<in> {E_STATUS_UNINITIALIZED, E_STATUS_IDLE}")
    case False
    then obtain ret d' where "dm_Stop ms e (db_dev b) = Some (ret, d')" "ready d'"
      using Call_Stop Stop_ok [of "db_dev b" e] by (auto simp: alive_def)
    then show ?thesis using Call_Stop False by (simp add: StopSensor_def Let_def alive_def life_ok_def CtrlSwitch_def)
  qed (use Call_Stop in \<open>auto simp: StopSensor_def alive_switch\<close>)
next
  case (Call_Resume e)
  show ?case
  proof (cases "db_status b \<in> {E_STATUS_UNINITIALIZED, E_STATUS_WORKING}")
    case False
    then obtain ret d' where "dm_Resume ms e (db_dev b) = Some (ret, d')" "ready d'"
      using Call_Resume Resume_ok [of "db_dev b" e] by (auto simp: alive_def)
    then show ?thesis using Call_Resume False by (simp add: ResumeSensor_def Let_def alive_def life_ok_def CtrlSwitch_def)
  qed (use Call_Resume in \<open>auto simp: ResumeSensor_def alive_switch\<close>)
next
  case (Call_Close e)
  show ?case
  proof (cases "db_status b \<in> {E_STATUS_UNINITIALIZED, E_STATUS_SHUTDOWN}")
    case False
    then obtain ret d' where "dm_Close ms e (db_dev b) = Some (ret, d')" "ready d'"
      using Call_Close Close_ok [of "db_dev b" e] by (auto simp: alive_def)
    then show ?thesis using Call_Close False by (simp add: CloseSensor_def Let_def alive_def life_ok_def CtrlSwitch_def)
  qed (use Call_Close in \<open>auto simp: CloseSensor_def alive_switch\<close>)
qed (simp add: RegisterGpioSwitch_def alive_def life_ok_def)

lemma alive_calls: "alive b \<Longrightarrow> \<exists>b'. device_calls ms cs b = Some b' \<and> alive b'"
proof (induction cs arbitrary: b)
  case (Cons c cs)
  then show ?case using alive_call [OF Cons.prems, of c] by auto
qed simp

lemma calls_from_ctor: "device_calls ms cs (DeviceBaseItf_ctor d) = Some b \<Longrightarrow> alive b"
  using alive_calls [of "DeviceBaseItf_ctor d" cs] alive_ctor [of d] by auto

end

section \<open>The wheels as a device\<close>

definition servo_methods :: "(servo_env, DevServo) device_methods" where
  "servo_methods = \<lparr>dm_Init = DevServo_Init, dm_Start = DevServo_Start, dm_Stop = DevServo_Stop, dm_Resume = DevServo_Resume, dm_Close = DevServo_Close\<rparr>"

definition servo_ready :: "DevServo \<Rightarrow> bool" where
  "servo_ready s \<longleftrightarrow> tables_up (dv_driver s)"

lemma dv_driver_simps [simp]:
  "dv_driver (s\<lparr>dv_sent := x\<rparr>) = dv_driver s" "sp_driver (pb_state (on_driver f p)) = f (sp_driver (pb_state p))"
  by (simp_all add: dv_driver_def on_driver_def)

lemma base_keeps_state [simp]:
  "pb_state (snd (ParserBaseItf_Start p)) = pb_state p" "pb_state (snd (ParserBaseItf_Stop p)) = pb_state p"
  "pb_state (snd (ParserBaseItf_Resume p)) = pb_state p" "pb_state (snd (ParserBaseItf_Close p)) = pb_state p"
  "pb_state (snd (ParserBaseItf_Init port cbs p)) = pb_state p"
  by (simp_all add: ParserBaseItf_Start_def ParserBaseItf_Stop_def ParserBaseItf_Resume_def ParserBaseItf_Close_def ParserBaseItf_Init_def
      split: EE_COMM_PORT_TYPE.split option.split)

lemma tables_up_no_null:
  assumes "tables_up d"
  shows "\<exists>tds. pack_store d = Some tds"
proof -
  have "None \<notin> set (sv_fn d)" "None \<notin> set (sv_dn d)" "None \<notin> set (sv_pn d)" using assms by (auto simp: tables_up_def)
  then show ?thesis by (simp add: pack_store_def Let_def get_servo_motor_all_fn_addrs_def get_servo_motor_all_dn_addrs_def
      get_servo_motor_all_pn_addrs_def table_refs_def)
qed

lemma setting_ready:
  assumes "tables_up d"
  obtains tds d' where "PackServoMtrSetting opts d = Some (tds, d')" and "tables_up d'" and "opts \<noteq> E_SUBDEV_OPTS_INIT \<Longrightarrow> d' = d"
  using that tables_up_no_null [OF assms] tables_up_init assms by (cases opts) (auto simp: PackServoMtrSetting_def)

lemma dv_driver_set: "dv_driver (s\<lparr>dv_parser := on_driver f (dv_parser s)\<rparr>) = f (dv_driver s)"
  by (simp add: dv_driver_def on_driver_def)

lemma send_setting_eq:
  "PackServoMtrSetting opts (dv_driver s) = Some (tds, d') \<Longrightarrow> \<exists>s'. send_setting env opts s = Some (0, s') \<and> dv_driver s' = d' \<and>
     dv_sent s' = dv_sent s @ filter (link_takes env) tds"
  by (simp add: send_setting_def WriteServoMessage_def dv_driver_set)

lemma send_setting_ready:
  assumes "servo_ready s"
  obtains s' where "send_setting env opts s = Some (0, s')" and "servo_ready s'"
  using assms setting_ready [of "dv_driver s" opts] send_setting_eq [of opts s] unfolding servo_ready_def by metis

lemma ready_parser: "pb_state p = pb_state (dv_parser s) \<Longrightarrow> servo_ready (s\<lparr>dv_parser := p\<rparr>) \<longleftrightarrow> servo_ready s"
  by (simp add: servo_ready_def dv_driver_def)

lemma ServoParser_state:
  "ServoParser_Start env p = (r, q) \<Longrightarrow> pb_state q = pb_state p" "ServoParser_Stop env p = (r, q) \<Longrightarrow> pb_state q = pb_state p"
  "ServoParser_Resume env p = (r, q) \<Longrightarrow> pb_state q = pb_state p" "pb_state (snd (ServoParser_Close env p)) = pb_state p"
  by (auto simp: ServoParser_Start_def ServoParser_Stop_def ServoParser_Resume_def ServoParser_Close_def ParserBaseItf_Start_def
      ParserBaseItf_Stop_def ParserBaseItf_Resume_def ParserBaseItf_Close_def)

lemma ServoParser_Init_0: "\<exists>p. ServoParser_Init c q = (0, p) \<and> sv_fn (sp_driver (pb_state p)) = sv_fn (sp_driver (pb_state q))"
  by (simp add: ServoParser_Init_def ParserBaseItf_Init_def config_servo_motor_parameters_def split: option.split)

lemma DevServo_Stop_ready:
  assumes "servo_ready s"
  shows "\<exists>ret s'. DevServo_Stop env s = Some (ret, s') \<and> servo_ready s'"
proof -
  obtain r p where p: "ServoParser_Stop env (dv_parser s) = (r, p)" by force
  then have "servo_ready (s\<lparr>dv_parser := p\<rparr>)" using assms ready_parser ServoParser_state(2) by blast
  moreover from this obtain s' where "send_setting env E_SUBDEV_OPTS_STOP (s\<lparr>dv_parser := p\<rparr>) = Some (0, s')" "servo_ready s'"
    by (rule send_setting_ready)
  ultimately show ?thesis using p by (cases "r = 0") (simp_all add: DevServo_Stop_def)
qed

interpretation wheels: device_impl servo_ready servo_methods
proof unfold_locales
  fix e d
  show "\<exists>ret d'. dm_Init servo_methods e d = Some (ret, d') \<and> (ret = 0 \<or> servo_ready d \<longrightarrow> servo_ready d')"
  proof -
    obtain p where p: "ServoParser_Init (dv_conf d) (dv_parser d) = (0, p)" using ServoParser_Init_0 by blast
    obtain tds d' where "PackServoMtrSetting E_SUBDEV_OPTS_INIT (dv_driver (d\<lparr>dv_parser := p\<rparr>)) = Some (tds, d')" "tables_up d'"
      using tables_up_init by (simp add: PackServoMtrSetting_def)
    then show ?thesis using send_setting_eq [of _ "d\<lparr>dv_parser := p\<rparr>" tds d' e] p
      by (fastforce simp: servo_methods_def DevServo_Init_def servo_ready_def)
  qed
next
  fix e d assume ready: "servo_ready d"
  show "\<exists>ret d'. dm_Start servo_methods e d = Some (ret, d') \<and> servo_ready d'"
  proof -
    obtain r p where p: "ServoParser_Start e (dv_parser d) = (r, p)" by force
    then have "servo_ready (d\<lparr>dv_parser := p\<rparr>)" using ready ready_parser ServoParser_state(1) by blast
    then obtain s1 s2 s3 where "send_setting e E_SUBDEV_OPTS_STORE (d\<lparr>dv_parser := p\<rparr>) = Some (0, s1)"
        "send_setting e E_SUBDEV_OPTS_START s1 = Some (0, s2)" "send_setting e E_SUBDEV_OPTS_ENABLE s2 = Some (0, s3)" "servo_ready s3"
        "servo_ready (d\<lparr>dv_parser := p\<rparr>)"
      using send_setting_ready by metis
    then show ?thesis using p by (cases "r = 0") (simp_all add: servo_methods_def DevServo_Start_def)
  qed
  show "\<exists>ret d'. dm_Stop servo_methods e d = Some (ret, d') \<and> servo_ready d'"
    using DevServo_Stop_ready [OF ready, of e] by (simp add: servo_methods_def)
  show "\<exists>ret d'. dm_Resume servo_methods e d = Some (ret, d') \<and> servo_ready d'"
  proof -
    obtain r p where p: "ServoParser_Resume e (dv_parser d) = (r, p)" by force
    then have "servo_ready (d\<lparr>dv_parser := p\<rparr>)" using ready ready_parser ServoParser_state(3) by blast
    then show ?thesis using p by (simp add: servo_methods_def DevServo_Resume_def)
  qed
  show "\<exists>ret d'. dm_Close servo_methods e d = Some (ret, d') \<and> servo_ready d'"
  proof -
    obtain ret s1 s2 s3 where "DevServo_Stop e d = Some (ret, s1)" "send_setting e E_SUBDEV_OPTS_DISABLE s1 = Some (0, s2)"
        "send_setting e E_SUBDEV_OPTS_DISABLE s2 = Some (0, s3)" "servo_ready s3"
      using DevServo_Stop_ready [OF ready, of e] send_setting_ready by metis
    then show ?thesis using ready_parser [OF ServoParser_state(4)] by (simp add: servo_methods_def DevServo_Close_def)
  qed
qed

section \<open>Properties\<close>

text \<open>
  C9: Whatever calls the device of the wheels gets from outside, in whatever order and whatever the driver below answers, no method follows
  a null pointer, and the three flags of the base class agree with the status.
\<close>

theorem wheels_survive_all_calls:
  "\<exists>b. device_calls servo_methods cs (DeviceBaseItf_ctor (DevServo_ctor c)) = Some b \<and>
     (db_inited b \<longleftrightarrow> db_status b \<noteq> E_STATUS_UNINITIALIZED) \<and> (db_working b \<longleftrightarrow> db_status b = E_STATUS_WORKING) \<and>
     (db_stoped b \<longleftrightarrow> db_status b \<noteq> E_STATUS_WORKING)"
  using wheels.alive_calls [OF wheels.alive_ctor, of cs "DevServo_ctor c"] by (auto simp: wheels.alive_def life_ok_def)

lemma motor_run_filter: "motor_run (filter (\<lambda>msg. snd msg \<noteq> []) msgs) m = motor_run msgs m"
proof (induction msgs arbitrary: m)
  case (Cons msg msgs)
  have "snd msg = [] \<Longrightarrow> motor_step m msg = m" by (cases msg) (simp add: motor_step_def control_word_def)
  then show ?case using Cons.IH by simp
qed simp

lemma send_setting_motor:
  assumes "servo_ready s" and "\<forall>msg. link_writes e msg" and "opts \<noteq> E_SUBDEV_OPTS_INIT"
  obtains tds s' where "PackServoMtrSetting opts (dv_driver s) = Some (tds, dv_driver s)" and "send_setting e opts s = Some (0, s')"
    and "servo_ready s'" and "dv_sent s' = dv_sent s @ filter (\<lambda>msg. snd msg \<noteq> []) tds" and "dv_driver s' = dv_driver s"
proof -
  obtain tds d' where "PackServoMtrSetting opts (dv_driver s) = Some (tds, d')" "d' = dv_driver s"
    using setting_ready [of "dv_driver s" opts] assms(1,3) unfolding servo_ready_def by metis
  moreover have "link_takes e = (\<lambda>msg. snd msg \<noteq> [])" using assms(2) by (auto simp: link_takes_def)
  ultimately show ?thesis using send_setting_eq [of opts s tds d' e] that assms(1) by (auto simp: servo_ready_def)
qed

lemma wheels_ready:
  "device_calls servo_methods cs (DeviceBaseItf_ctor (DevServo_ctor c)) = Some b \<Longrightarrow> db_status b \<noteq> E_STATUS_UNINITIALIZED \<Longrightarrow>
     servo_ready (db_dev b)"
  using wheels.calls_from_ctor [of cs "DevServo_ctor c" b] by (simp add: wheels.alive_def)

lemma sent_simps [simp]: "dv_sent (s\<lparr>dv_parser := p\<rparr>) = dv_sent s" "db_dev (CtrlSwitch sw b) = db_dev b" "db_status (CtrlSwitch sw b) = db_status b"
  by (simp_all add: CtrlSwitch_def)

lemma DevServo_Stop_sent:
  assumes "servo_ready s" and "\<forall>msg. link_writes e msg"
  shows "\<exists>r s1 t1. DevServo_Stop e s = Some (r, s1) \<and> servo_ready s1 \<and> dv_sent s1 = dv_sent s @ t1"
proof -
  obtain r p where p: "ServoParser_Stop e (dv_parser s) = (r, p)" by force
  define s0 where "s0 = s\<lparr>dv_parser := p\<rparr>"
  have s0: "servo_ready s0" using assms(1) ready_parser ServoParser_state(2) [OF p] unfolding s0_def by blast
  show ?thesis
  proof (cases "r = 0")
    case True
    obtain t1 s1 where "send_setting e E_SUBDEV_OPTS_STOP s0 = Some (0, s1)" "servo_ready s1" "dv_sent s1 = dv_sent s0 @ t1"
      using send_setting_motor [OF s0 assms(2), of E_SUBDEV_OPTS_STOP] by blast
    then show ?thesis using True p by (simp add: DevServo_Stop_def s0_def)
  next
    case False
    then show ?thesis using s0 p by (simp add: DevServo_Stop_def s0_def)
  qed
qed

lemma wheels_after_init:
  obtains b where "device_calls servo_methods [Call_Init True e] (DeviceBaseItf_ctor (DevServo_ctor c)) = Some b"
    and "db_status b = E_STATUS_INITIALIZED"
proof -
  let ?d = "DevServo_ctor c"
  obtain p where p: "ServoParser_Init (dv_conf ?d) (dv_parser ?d) = (0, p)" using ServoParser_Init_0 by blast
  obtain tds d' where "PackServoMtrSetting E_SUBDEV_OPTS_INIT (dv_driver (?d\<lparr>dv_parser := p\<rparr>)) = Some (tds, d')"
    by (simp add: PackServoMtrSetting_def)
  then obtain s where "send_setting e E_SUBDEV_OPTS_INIT (?d\<lparr>dv_parser := p\<rparr>) = Some (0, s)" using send_setting_eq by blast
  then have "dm_Init servo_methods e ?d = Some (0, s)" using p by (simp add: servo_methods_def DevServo_Init_def)
  then show ?thesis using that by (simp add: InitSensor_def DeviceBaseItf_ctor_def)
qed

text \<open>
  After any history of calls, starting the wheels when the driver starts and takes the frames ends in the working status with both axles
  enabled and standing still, wherever the drive was before.
\<close>

theorem wheels_start_standing:
  assumes "device_calls servo_methods cs (DeviceBaseItf_ctor (DevServo_ctor c)) = Some b"
    and "db_status b \<noteq> E_STATUS_UNINITIALIZED" and "db_status b \<noteq> E_STATUS_WORKING"
    and "link_start e = 0" and "\<forall>msg. link_writes e msg"
  shows "\<exists>b1 msgs. StartSensor (DevServo_Start e) b = Some (0, b1) \<and> db_status b1 = E_STATUS_WORKING \<and>
    dv_sent (db_dev b1) = dv_sent (db_dev b) @ msgs \<and> motor_run msgs m = \<lparr>mt_speed1 = 0, mt_speed2 = 0, mt_on1 = True, mt_on2 = True\<rparr>"
proof -
  define s where "s = db_dev b"
  obtain p where p: "ServoParser_Start e (dv_parser s) = (0, p)" using assms(4) by (simp add: ServoParser_Start_def ParserBaseItf_Start_def)
  define s0 where "s0 = s\<lparr>dv_parser := p\<rparr>"
  have "servo_ready s0" using wheels_ready [OF assms(1,2)] ready_parser ServoParser_state(1) [OF p] unfolding s0_def s_def by blast
  then obtain t1 s1 where 1: "send_setting e E_SUBDEV_OPTS_STORE s0 = Some (0, s1)" "servo_ready s1" "dv_sent s1 = dv_sent s0 @ t1"
    using send_setting_motor [OF _ assms(5), of s0 E_SUBDEV_OPTS_STORE] by blast
  obtain t2 s2 where 2: "send_setting e E_SUBDEV_OPTS_START s1 = Some (0, s2)" "servo_ready s2" "dv_sent s2 = dv_sent s1 @ t2"
    using send_setting_motor [OF 1(2) assms(5), of E_SUBDEV_OPTS_START] by blast
  obtain t3 s3 where 3: "PackServoMtrSetting E_SUBDEV_OPTS_ENABLE (dv_driver s2) = Some (t3, dv_driver s2)"
      "send_setting e E_SUBDEV_OPTS_ENABLE s2 = Some (0, s3)" "dv_sent s3 = dv_sent s2 @ filter (\<lambda>msg. snd msg \<noteq> []) t3"
    using send_setting_motor [OF 2(2) assms(5), of E_SUBDEV_OPTS_ENABLE] by blast
  have start: "DevServo_Start e s = Some (0, s3)" unfolding DevServo_Start_def p prod.case s0_def [symmetric] using 1(1) 2(1) 3(2) by simp
  have "t3 = pack_enable" using 3(1) by (simp add: PackServoMtrSetting_def)
  then have motor: "motor_run (t1 @ t2 @ filter (\<lambda>msg. snd msg \<noteq> []) t3) m = \<lparr>mt_speed1 = 0, mt_speed2 = 0, mt_on1 = True, mt_on2 = True\<rparr>" by (simp add: motor_run_filter motor_after_settings(1))
  have "dv_sent s3 = dv_sent s @ t1 @ t2 @ filter (\<lambda>msg. snd msg \<noteq> []) t3" using 1(3) 2(3) 3(3) by (simp add: s0_def)
  then show ?thesis using assms(2,3) start motor by (simp add: StartSensor_def Let_def s_def)
qed

definition quiet_env :: servo_env where
  "quiet_env = \<lparr>link_start = 0, link_stop = 0, link_resume = 0, link_close = 0, link_writes = (\<lambda>_. True)\<rparr>"

definition sample_conf :: servo_conf where
  "sample_conf = \<lparr>wheel_diameter_10th1_mm = 1405, wheel_distance_10th1_mm = 4000, accelerate_time_ms = 500, decelerate_time_ms = 500,
     speed_report_period_ms = 20, status_report_period_ms = 100, servo_circle_buf = None\<rparr>"

theorem wheels_start_standing_witness:
  "\<exists>b b1 msgs. device_calls servo_methods [Call_Init True quiet_env] (DeviceBaseItf_ctor (DevServo_ctor sample_conf)) = Some b \<and>
    StartSensor (DevServo_Start quiet_env) b = Some (0, b1) \<and> db_status b1 = E_STATUS_WORKING \<and>
    dv_sent (db_dev b1) = dv_sent (db_dev b) @ msgs \<and>
    motor_run msgs \<lparr>mt_speed1 = 7, mt_speed2 = 9, mt_on1 = False, mt_on2 = True\<rparr> = \<lparr>mt_speed1 = 0, mt_speed2 = 0, mt_on1 = True, mt_on2 = True\<rparr>"
proof -
  obtain b where b: "device_calls servo_methods [Call_Init True quiet_env] (DeviceBaseItf_ctor (DevServo_ctor sample_conf)) = Some b"
      "db_status b = E_STATUS_INITIALIZED" by (rule wheels_after_init)
  have "db_status b \<noteq> E_STATUS_UNINITIALIZED" "db_status b \<noteq> E_STATUS_WORKING" "link_start quiet_env = 0" "\<forall>msg. link_writes quiet_env msg"
    using b(2) by (simp_all add: quiet_env_def)
  from wheels_start_standing [OF b(1) this] b(1) show ?thesis by blast
qed

lemma ready_close_disabled:
  assumes "servo_ready (db_dev b)" and "db_status b \<noteq> E_STATUS_UNINITIALIZED" and "db_status b \<noteq> E_STATUS_SHUTDOWN" and "\<forall>msg. link_writes e msg"
  shows "\<exists>b1 msgs. CloseSensor (DevServo_Close e) b = Some (0, b1) \<and> db_status b1 = E_STATUS_SHUTDOWN \<and>
    dv_sent (db_dev b1) = dv_sent (db_dev b) @ msgs \<and> motor_run msgs m = \<lparr>mt_speed1 = 0, mt_speed2 = 0, mt_on1 = False, mt_on2 = False\<rparr>"
proof -
  let ?s = "db_dev b"
  note ready = assms(1)
  obtain r s1 t1 where 1: "DevServo_Stop e ?s = Some (r, s1)" "servo_ready s1" "dv_sent s1 = dv_sent ?s @ t1"
    using DevServo_Stop_sent [OF ready assms(4)] by blast
  obtain t2 s2 where 2: "send_setting e E_SUBDEV_OPTS_DISABLE s1 = Some (0, s2)" "servo_ready s2" "dv_sent s2 = dv_sent s1 @ t2"
    using send_setting_motor [OF 1(2) assms(4), of E_SUBDEV_OPTS_DISABLE] by blast
  obtain t3 s3 where 3: "PackServoMtrSetting E_SUBDEV_OPTS_DISABLE (dv_driver s2) = Some (t3, dv_driver s2)"
      "send_setting e E_SUBDEV_OPTS_DISABLE s2 = Some (0, s3)" "dv_sent s3 = dv_sent s2 @ filter (\<lambda>msg. snd msg \<noteq> []) t3"
    using send_setting_motor [OF 2(2) assms(4), of E_SUBDEV_OPTS_DISABLE] by blast
  let ?s4 = "s3\<lparr>dv_parser := snd (ServoParser_Close e (dv_parser s3))\<rparr>"
  have "DevServo_Close e ?s = Some (0, ?s4)" using 1(1) 2(1) 3(2) by (simp add: DevServo_Close_def)
  moreover have "t3 = pack_disable" using 3(1) by (simp add: PackServoMtrSetting_def)
  then have "motor_run (t1 @ t2 @ filter (\<lambda>msg. snd msg \<noteq> []) t3) m = \<lparr>mt_speed1 = 0, mt_speed2 = 0, mt_on1 = False, mt_on2 = False\<rparr>" by (simp add: motor_run_filter motor_after_settings(2))
  moreover have "dv_sent ?s4 = dv_sent ?s @ t1 @ t2 @ filter (\<lambda>msg. snd msg \<noteq> []) t3" using 1(3) 2(3) 3(3) by simp
  ultimately show ?thesis using assms(2,3) by (simp add: CloseSensor_def Let_def)
qed

text \<open>
  After any history of calls, closing the wheels when the driver takes the frames ends with both axles disabled and their speed
  at zero, also if the driver below refuses to stop.
\<close>

theorem wheels_close_disabled:
  assumes "device_calls servo_methods cs (DeviceBaseItf_ctor (DevServo_ctor c)) = Some b"
    and "db_status b \<noteq> E_STATUS_UNINITIALIZED" and "db_status b \<noteq> E_STATUS_SHUTDOWN" and "\<forall>msg. link_writes e msg"
  shows "\<exists>b1 msgs. CloseSensor (DevServo_Close e) b = Some (0, b1) \<and> db_status b1 = E_STATUS_SHUTDOWN \<and>
    dv_sent (db_dev b1) = dv_sent (db_dev b) @ msgs \<and> motor_run msgs m = \<lparr>mt_speed1 = 0, mt_speed2 = 0, mt_on1 = False, mt_on2 = False\<rparr>"
  by (rule ready_close_disabled [OF wheels_ready [OF assms(1,2)] assms(2,3,4)])

theorem wheels_close_disabled_witness:
  "\<exists>b b1 msgs. device_calls servo_methods [Call_Init True quiet_env] (DeviceBaseItf_ctor (DevServo_ctor sample_conf)) = Some b \<and>
    CloseSensor (DevServo_Close (quiet_env\<lparr>link_stop := - 1\<rparr>)) b = Some (0, b1) \<and> db_status b1 = E_STATUS_SHUTDOWN \<and>
    dv_sent (db_dev b1) = dv_sent (db_dev b) @ msgs \<and>
    motor_run msgs \<lparr>mt_speed1 = 7, mt_speed2 = 9, mt_on1 = False, mt_on2 = True\<rparr> = \<lparr>mt_speed1 = 0, mt_speed2 = 0, mt_on1 = False, mt_on2 = False\<rparr>"
proof -
  obtain b where b: "device_calls servo_methods [Call_Init True quiet_env] (DeviceBaseItf_ctor (DevServo_ctor sample_conf)) = Some b"
      "db_status b = E_STATUS_INITIALIZED" by (rule wheels_after_init)
  have "db_status b \<noteq> E_STATUS_UNINITIALIZED" "db_status b \<noteq> E_STATUS_SHUTDOWN" "\<forall>msg. link_writes (quiet_env\<lparr>link_stop := - 1\<rparr>) msg"
    using b(2) by (simp_all add: quiet_env_def)
  from wheels_close_disabled [OF b(1) this] b(1) show ?thesis by blast
qed

text \<open>Starting a device that was never initialised fails, but leaves its power on.\<close>

lemma failed_start_powers:
  "db_status b = E_STATUS_UNINITIALIZED \<Longrightarrow> db_has_switch b \<Longrightarrow> StartSensor Start b = Some (- 1, b\<lparr>db_power := True\<rparr>)"
  by (simp add: StartSensor_def CtrlSwitch_def)

text \<open>Resuming closed wheels is accepted: the device counts as working, but no frame enables the axles that closing disabled.\<close>

lemma resume_after_close:
  assumes "db_status b = E_STATUS_SHUTDOWN" and "link_resume e = 0"
  shows "\<exists>b1. ResumeSensor (DevServo_Resume e) b = Some (0, b1) \<and> db_status b1 = E_STATUS_WORKING \<and> db_working b1 \<and>
    dv_sent (db_dev b1) = dv_sent (db_dev b)"
  using assms by (simp add: ResumeSensor_def DevServo_Resume_def ServoParser_Resume_def ParserBaseItf_Resume_def CtrlSwitch_def Let_def)

text \<open>The synchronisation frame of the starting sequence has no data, so it is never sent, and nobody notices.\<close>

lemma sync_never_sent:
  "WriteServoMessage env (FillDataContainerCanOpenSync []) s = (0, s)"
  by (simp add: WriteServoMessage_def FillDataContainerCanOpenSync_def link_takes_def)

end
