(* ===== verification/Parse_Link.thy ===== *)
theory Parse_Link
  imports Frame_Parser
begin

text \<open>
  \<open>modules/chassis/parser/common_inf.{h,cc}\<close>, the look-up of a device in the configuration, and \<open>parse_drv_link.{h,cc}\<close>, which binds every device
  to its driver and routes the data between drivers and parsers. A device is known by the address of its indicator. The drivers are a parameter
  of the link: their constructors and operations.
\<close>

section \<open>The configuration\<close>

datatype EE_DEV_MAIN = EE_DEV_MAIN_SENTINEL | EE_DEV_MAIN_MOTOR | EE_DEV_MAIN_MCU | EE_DEV_MAIN_SOC

datatype EE_DEVICE_TYPE = E_DEVICE_SENTINEL | E_DEVICE_GPIO | E_DEVICE_PWM | E_DEVICE_IMU | E_DEVICE_LIDAR | E_DEVICE_CAMERA | E_DEVICE_MCU
  | E_DEVICE_DTOF | E_DEVICE_TTY | E_DEVICE_AUDIO | E_DEVICE_MOTOR | E_DEVICE_ADC | E_DEVICE_WIRELESS | E_DEVICE_LINELASER | E_DEVICE_SERVO
  | E_DEVICE_JOYSTICK

text \<open>An indicator; \<open>si_addr\<close> is its address, which the code compares.\<close>

record SensorIndicator =
  si_addr :: nat
  si_dev_main :: EE_DEV_MAIN
  si_type :: EE_DEVICE_TYPE
  si_port :: EE_COMM_PORT_TYPE
  si_name :: string

text \<open>
  The configuration of a port: its settings and the size of the circular buffer. The configuration of a device has the parts its kind has in
  the protocol, the others are \<open>None\<close>; \<open>dc_own_configs\<close> is the part for GPIO, ADC, PWM, joystick or audio.
\<close>

record 'c comm_conf =
  cn_dev_setting :: 'c
  cn_buf_setting :: nat

record 'c dev_conf =
  dc_sn_ind :: SensorIndicator
  dc_used :: bool
  dc_uart_configs :: "'c comm_conf option"
  dc_i2c_configs :: "'c comm_conf option"
  dc_can_configs :: "'c comm_conf option"
  dc_own_configs :: "'c option"

record 'c ChassisConfig =
  gpio_dev :: "'c dev_conf list"
  adc_dev :: "'c dev_conf list"
  pwm_dev :: "'c dev_conf list"
  lidar_dev :: "'c dev_conf list"
  imu_dev :: "'c dev_conf list"
  dtof_dev :: "'c dev_conf list"
  camera_dev :: "'c dev_conf list"
  mcu_dev :: "'c dev_conf list"
  aud_dev :: "'c dev_conf list"
  servo_dev :: "'c dev_conf list"
  wireless_dev :: "'c dev_conf list"
  linelaser_dev :: "'c dev_conf list"
  joystick_dev :: "'c dev_conf list"

text \<open>The loops of the look-ups: the first device with the indicator, or the first that also has a part, and then it or that part.\<close>

definition of_dev :: "SensorIndicator \<Rightarrow> 'c dev_conf \<Rightarrow> bool" where
  "of_dev sidc d \<longleftrightarrow> si_addr (dc_sn_ind d) = si_addr sidc"

definition dev_by :: "SensorIndicator \<Rightarrow> 'c dev_conf list \<Rightarrow> 'c dev_conf option \<Rightarrow> 'c dev_conf option" where
  "dev_by sidc ds k = (case find (of_dev sidc) ds of Some d \<Rightarrow> Some d | None \<Rightarrow> k)"

definition part_by :: "('c dev_conf \<Rightarrow> 'p option) \<Rightarrow> SensorIndicator \<Rightarrow> 'c dev_conf list \<Rightarrow> 'p option \<Rightarrow> 'p option" where
  "part_by part sidc ds k = (case find (\<lambda>d. of_dev sidc d \<and> part d \<noteq> None) ds of Some d \<Rightarrow> part d | None \<Rightarrow> k)"

definition null_by :: "SensorIndicator \<Rightarrow> 'c dev_conf list \<Rightarrow> 'p option \<Rightarrow> 'p option" where
  "null_by sidc ds k = (if \<exists>d\<in>set ds. of_dev sidc d then None else k)"

definition GetDeviceConfig :: "'c ChassisConfig option \<Rightarrow> SensorIndicator \<Rightarrow> 'c dev_conf option" where
  "GetDeviceConfig cc sidc =
     Option.bind cc (\<lambda>c.
       dev_by sidc (gpio_dev c) (dev_by sidc (adc_dev c) (dev_by sidc (pwm_dev c) (dev_by sidc (lidar_dev c) (dev_by sidc (imu_dev c)
       (dev_by sidc (dtof_dev c) (dev_by sidc (camera_dev c) (dev_by sidc (mcu_dev c) (dev_by sidc (aud_dev c) (dev_by sidc (servo_dev c)
       (dev_by sidc (wireless_dev c) (dev_by sidc (linelaser_dev c) (dev_by sidc (joystick_dev c) None)))))))))))))"

definition uart_or_i2c :: "'c dev_conf \<Rightarrow> 'c comm_conf option" where
  "uart_or_i2c d = (case dc_uart_configs d of Some u \<Rightarrow> Some u | None \<Rightarrow> dc_i2c_configs d)"

definition GetCircleBuff :: "'c ChassisConfig option \<Rightarrow> SensorIndicator \<Rightarrow> nat option" where
  "GetCircleBuff cc sidc =
     map_option cn_buf_setting (Option.bind cc (\<lambda>c.
       null_by sidc (gpio_dev c) (null_by sidc (adc_dev c) (null_by sidc (pwm_dev c) (part_by dc_uart_configs sidc (lidar_dev c)
       (part_by uart_or_i2c sidc (imu_dev c) (null_by sidc (dtof_dev c) (null_by sidc (camera_dev c) (part_by dc_uart_configs sidc (mcu_dev c)
       (null_by sidc (aud_dev c) (part_by dc_can_configs sidc (servo_dev c) (null_by sidc (wireless_dev c)
       (part_by dc_uart_configs sidc (linelaser_dev c) (null_by sidc (joystick_dev c) None))))))))))))))"

definition GetDevGpioConf :: "'c ChassisConfig option \<Rightarrow> SensorIndicator \<Rightarrow> 'c option" where
  "GetDevGpioConf cc sidc = Option.bind cc (\<lambda>c. part_by dc_own_configs sidc (gpio_dev c) None)"

definition GetDevAdcConf :: "'c ChassisConfig option \<Rightarrow> SensorIndicator \<Rightarrow> 'c option" where
  "GetDevAdcConf cc sidc = Option.bind cc (\<lambda>c. part_by dc_own_configs sidc (adc_dev c) None)"

definition GetDevPwmConf :: "'c ChassisConfig option \<Rightarrow> SensorIndicator \<Rightarrow> 'c option" where
  "GetDevPwmConf cc sidc = Option.bind cc (\<lambda>c. part_by dc_own_configs sidc (pwm_dev c) None)"

definition GetDevUartConf :: "'c ChassisConfig option \<Rightarrow> SensorIndicator \<Rightarrow> 'c comm_conf option" where
  "GetDevUartConf cc sidc =
     Option.bind cc (\<lambda>c. part_by dc_uart_configs sidc (lidar_dev c) (part_by dc_uart_configs sidc (imu_dev c)
       (part_by dc_uart_configs sidc (mcu_dev c) (part_by dc_uart_configs sidc (linelaser_dev c) None))))"

definition GetDevI2cConf :: "'c ChassisConfig option \<Rightarrow> SensorIndicator \<Rightarrow> 'c comm_conf option" where
  "GetDevI2cConf cc sidc = Option.bind cc (\<lambda>c. part_by dc_i2c_configs sidc (imu_dev c) None)"

definition GetDevCanConf :: "'c ChassisConfig option \<Rightarrow> SensorIndicator \<Rightarrow> 'c comm_conf option" where
  "GetDevCanConf cc sidc = Option.bind cc (\<lambda>c. part_by dc_can_configs sidc (servo_dev c) None)"

definition GetDevJsConf :: "'c ChassisConfig option \<Rightarrow> SensorIndicator \<Rightarrow> 'c option" where
  "GetDevJsConf cc sidc = Option.bind cc (\<lambda>c. part_by dc_own_configs sidc (joystick_dev c) None)"

definition GetDevAudConf :: "'c ChassisConfig option \<Rightarrow> SensorIndicator \<Rightarrow> 'c option" where
  "GetDevAudConf cc sidc = Option.bind cc (\<lambda>c. part_by dc_own_configs sidc (aud_dev c) None)"

definition GetCommPort :: "'c ChassisConfig option \<Rightarrow> SensorIndicator \<Rightarrow> string" where
  "GetCommPort cc sidc =
     (if cc = None then ''''
      else case si_port sidc of
        E_COMM_PORT_SERIAL \<Rightarrow> ''serial'' | E_COMM_PORT_485 \<Rightarrow> ''485'' | E_COMM_PORT_232 \<Rightarrow> ''232'' | E_COMM_PORT_CAN \<Rightarrow> ''can''
      | E_COMM_PORT_I2C \<Rightarrow> ''i2c'' | E_COMM_PORT_SPI \<Rightarrow> ''spi'' | E_COMM_PORT_USB \<Rightarrow> ''usb'' | E_COMM_PORT_MIPI \<Rightarrow> ''mipi''
      | E_COMM_PORT_GPIO \<Rightarrow> ''gpio'' | E_COMM_PORT_I2S \<Rightarrow> ''i2s'' | E_COMM_PORT_SDIO \<Rightarrow> ''sdio'' | E_COMM_PORT_24G \<Rightarrow> ''2.4G''
      | _ \<Rightarrow> ''ERROR'')"

definition soc_used :: "'c dev_conf \<Rightarrow> bool" where
  "soc_used d \<longleftrightarrow> si_dev_main (dc_sn_ind d) = EE_DEV_MAIN_SOC \<and> dc_used d"

definition HasSocDevice :: "'c ChassisConfig option \<Rightarrow> bool" where
  "HasSocDevice cc =
     (case cc of None \<Rightarrow> False
      | Some c \<Rightarrow> list_ex soc_used (gpio_dev c) \<or> list_ex soc_used (camera_dev c) \<or> list_ex soc_used (aud_dev c) \<or>
          list_ex soc_used (wireless_dev c) \<or> list_ex soc_used (joystick_dev c))"

definition IsLacateSoc :: "SensorIndicator \<Rightarrow> bool" where
  "IsLacateSoc sidc \<longleftrightarrow> si_dev_main sidc = EE_DEV_MAIN_SOC"

section \<open>The link\<close>

datatype drv_kind = Drv_Can | Drv_Uart | Drv_I2c

text \<open>
  The constructors and the virtual methods of the drivers. Starting can end the process (\<open>None\<close>); \<open>do_WritePort\<close> takes the identifier of
  a CAN frame and the bytes.
\<close>

record ('c, 'v) drv_class =
  mk_drv :: "drv_kind \<Rightarrow> 'c comm_conf \<Rightarrow> 'v"
  do_Init :: "'v \<Rightarrow> int \<times> 'v"
  do_soc_Init :: "SensorIndicator \<Rightarrow> 'v \<Rightarrow> int \<times> 'v"
  do_Start :: "SensorIndicator \<Rightarrow> 'v \<Rightarrow> (int \<times> 'v) option"
  do_Stop :: "SensorIndicator \<Rightarrow> 'v \<Rightarrow> (int \<times> 'v) option"
  do_Resume :: "SensorIndicator \<Rightarrow> 'v \<Rightarrow> (int \<times> 'v) option"
  do_Close :: "SensorIndicator \<Rightarrow> 'v \<Rightarrow> (int \<times> 'v) option"
  do_WritePort :: "int \<Rightarrow> byte list \<Rightarrow> 'v \<Rightarrow> int \<times> 'v"

text \<open>
  The members of the link: maps from the address of an indicator to a driver or to a handler. Drivers are shared between the maps, so they are
  references to objects in \<open>dl_objs\<close>. A driver that is replaced is destroyed; its object stays in \<open>dl_objs\<close>, where nothing refers to it.
\<close>

record ('v, 'h) ParseDrvLink =
  dl_objs :: "nat \<Rightarrow> 'v"
  dl_fresh :: nat
  dev_can_data :: "nat \<rightharpoonup> nat"
  dev_serial_data :: "nat \<rightharpoonup> nat"
  dev_iic_data :: "nat \<rightharpoonup> nat"
  soc_data :: "nat option"
  dev_drivers :: "nat \<rightharpoonup> nat"
  dev_can_hdls :: "nat \<rightharpoonup> 'h"
  dev_serial_hdls :: "nat \<rightharpoonup> 'h"
  dev_i2c_hdls :: "nat \<rightharpoonup> 'h"
  soc_hdls :: "nat \<rightharpoonup> 'h"

definition ParseDrvLink_ctor :: "'c ChassisConfig option \<Rightarrow> 'v \<Rightarrow> ('v, 'h) ParseDrvLink" where
  "ParseDrvLink_ctor cc soc =
     \<lparr>dl_objs = (\<lambda>_. soc), dl_fresh = 1, dev_can_data = Map.empty, dev_serial_data = Map.empty, dev_iic_data = Map.empty,
      soc_data = (if HasSocDevice cc then Some 0 else None), dev_drivers = Map.empty,
      dev_can_hdls = Map.empty, dev_serial_hdls = Map.empty, dev_i2c_hdls = Map.empty, soc_hdls = Map.empty\<rparr>"

text \<open>A new driver of a device: it is made, entered into the map of its port and into \<open>dev_drivers\<close>, and initialised.\<close>

definition bind_driver ::
    "('c, 'v) drv_class \<Rightarrow> drv_kind \<Rightarrow> 'c comm_conf \<Rightarrow> SensorIndicator \<Rightarrow> ('v, 'h) ParseDrvLink \<Rightarrow> int \<times> ('v, 'h) ParseDrvLink" where
  "bind_driver cl kind cn si dl =
     (let r = dl_fresh dl; a = si_addr si;
          dl1 = (case kind of
              Drv_Can \<Rightarrow> dl\<lparr>dev_can_data := (dev_can_data dl)(a \<mapsto> r)\<rparr>
            | Drv_Uart \<Rightarrow> dl\<lparr>dev_serial_data := (dev_serial_data dl)(a \<mapsto> r)\<rparr>
            | Drv_I2c \<Rightarrow> dl\<lparr>dev_iic_data := (dev_iic_data dl)(a \<mapsto> r)\<rparr>)
      in case do_Init cl (mk_drv cl kind cn) of
           (ret, v) \<Rightarrow> (ret, dl1\<lparr>dl_fresh := r + 1, dev_drivers := (dev_drivers dl)(a \<mapsto> r), dl_objs := (dl_objs dl)(r := v)\<rparr>))"

text \<open>A device on the board itself without the driver for it follows a null pointer: \<open>None\<close>.\<close>

definition ParseDrvLink_Init ::
    "('c, 'v) drv_class \<Rightarrow> 'c ChassisConfig option \<Rightarrow> SensorIndicator \<Rightarrow> ('v, 'h) ParseDrvLink \<Rightarrow> (int \<times> ('v, 'h) ParseDrvLink) option" where
  "ParseDrvLink_Init cl cc si dl =
     (case GetDevCanConf cc si of Some cn \<Rightarrow> Some (bind_driver cl Drv_Can cn si dl) | None \<Rightarrow>
     (case GetDevUartConf cc si of Some cn \<Rightarrow> Some (bind_driver cl Drv_Uart cn si dl) | None \<Rightarrow>
     (case GetDevI2cConf cc si of Some cn \<Rightarrow> Some (bind_driver cl Drv_I2c cn si dl) | None \<Rightarrow>
      if IsLacateSoc si
      then (case soc_data dl of
              None \<Rightarrow> None
            | Some r \<Rightarrow>
                (case do_soc_Init cl si (dl_objs dl r) of
                   (ret, v) \<Rightarrow> Some (ret, dl\<lparr>dev_drivers := (dev_drivers dl)(si_addr si \<mapsto> r), dl_objs := (dl_objs dl)(r := v)\<rparr>)))
      else Some (- 1, dl))))"

definition on_driver_base ::
    "('v \<Rightarrow> (int \<times> 'v) option) \<Rightarrow> SensorIndicator \<Rightarrow> ('v, 'h) ParseDrvLink \<Rightarrow> (int \<times> ('v, 'h) ParseDrvLink) option" where
  "on_driver_base f si dl =
     (case dev_drivers dl (si_addr si) of
        None \<Rightarrow> Some (- 1, dl)
      | Some r \<Rightarrow> map_option (\<lambda>(ret, v). (ret, dl\<lparr>dl_objs := (dl_objs dl)(r := v)\<rparr>)) (f (dl_objs dl r)))"

definition ParseDrvLink_Start :: "('c, 'v) drv_class \<Rightarrow> SensorIndicator \<Rightarrow> ('v, 'h) ParseDrvLink \<Rightarrow> (int \<times> ('v, 'h) ParseDrvLink) option" where
  "ParseDrvLink_Start cl si = on_driver_base (do_Start cl si) si"

definition ParseDrvLink_Stop :: "('c, 'v) drv_class \<Rightarrow> SensorIndicator \<Rightarrow> ('v, 'h) ParseDrvLink \<Rightarrow> (int \<times> ('v, 'h) ParseDrvLink) option" where
  "ParseDrvLink_Stop cl si = on_driver_base (do_Stop cl si) si"

definition ParseDrvLink_Resume :: "('c, 'v) drv_class \<Rightarrow> SensorIndicator \<Rightarrow> ('v, 'h) ParseDrvLink \<Rightarrow> (int \<times> ('v, 'h) ParseDrvLink) option" where
  "ParseDrvLink_Resume cl si = on_driver_base (do_Resume cl si) si"

definition ParseDrvLink_Close :: "('c, 'v) drv_class \<Rightarrow> SensorIndicator \<Rightarrow> ('v, 'h) ParseDrvLink \<Rightarrow> (int \<times> ('v, 'h) ParseDrvLink) option" where
  "ParseDrvLink_Close cl si = on_driver_base (do_Close cl si) si"

text \<open>The result of a write, an \<open>int\<close>, is returned as a \<open>size_t\<close>.\<close>

definition write_to :: "('c, 'v) drv_class \<Rightarrow> int \<Rightarrow> byte list \<Rightarrow> nat \<Rightarrow> ('v, 'h) ParseDrvLink \<Rightarrow> 64 word \<times> ('v, 'h) ParseDrvLink" where
  "write_to cl can_id info r dl = (case do_WritePort cl can_id info (dl_objs dl r) of (n, v) \<Rightarrow> (word_of_int n, dl\<lparr>dl_objs := (dl_objs dl)(r := v)\<rparr>))"

definition WriteUart :: "('c, 'v) drv_class \<Rightarrow> SensorIndicator \<Rightarrow> byte list \<Rightarrow> ('v, 'h) ParseDrvLink \<Rightarrow> 64 word \<times> ('v, 'h) ParseDrvLink" where
  "WriteUart cl si info dl =
     (if info = [] then (0, dl)
      else case dev_serial_data dl (si_addr si) of Some r \<Rightarrow> write_to cl 0 info r dl | None \<Rightarrow> (0, dl))"

definition WriteCan :: "('c, 'v) drv_class \<Rightarrow> SensorIndicator \<Rightarrow> int \<Rightarrow> byte list \<Rightarrow> ('v, 'h) ParseDrvLink \<Rightarrow> 64 word \<times> ('v, 'h) ParseDrvLink" where
  "WriteCan cl si can_id info dl =
     (if info = [] then (0, dl)
      else case dev_can_data dl (si_addr si) of Some r \<Rightarrow> write_to cl can_id info r dl | None \<Rightarrow> (- 1, dl))"

definition WriteI2c :: "('c, 'v) drv_class \<Rightarrow> SensorIndicator \<Rightarrow> byte list \<Rightarrow> ('v, 'h) ParseDrvLink \<Rightarrow> 64 word \<times> ('v, 'h) ParseDrvLink" where
  "WriteI2c cl si info dl =
     (if info = [] then (0, dl)
      else case dev_iic_data dl (si_addr si) of Some r \<Rightarrow> write_to cl 0 info r dl | None \<Rightarrow> (- 1, dl))"

definition RegisterCanListener :: "'h \<Rightarrow> SensorIndicator \<Rightarrow> ('v, 'h) ParseDrvLink \<Rightarrow> ('v, 'h) ParseDrvLink" where
  "RegisterCanListener l si dl = dl\<lparr>dev_can_hdls := (dev_can_hdls dl)(si_addr si \<mapsto> l)\<rparr>"

definition RegisterI2cListener :: "'h \<Rightarrow> SensorIndicator \<Rightarrow> ('v, 'h) ParseDrvLink \<Rightarrow> ('v, 'h) ParseDrvLink" where
  "RegisterI2cListener l si dl = dl\<lparr>dev_i2c_hdls := (dev_i2c_hdls dl)(si_addr si \<mapsto> l)\<rparr>"

definition RegisterUartListener :: "'h \<Rightarrow> SensorIndicator \<Rightarrow> ('v, 'h) ParseDrvLink \<Rightarrow> ('v, 'h) ParseDrvLink" where
  "RegisterUartListener l si dl = dl\<lparr>dev_serial_hdls := (dev_serial_hdls dl)(si_addr si \<mapsto> l)\<rparr>"

definition RegisterSocListener :: "'h \<Rightarrow> SensorIndicator \<Rightarrow> ('v, 'h) ParseDrvLink \<Rightarrow> ('v, 'h) ParseDrvLink" where
  "RegisterSocListener l si dl = dl\<lparr>soc_hdls := (soc_hdls dl)(si_addr si \<mapsto> l)\<rparr>"

text \<open>The handler that a driver's data go to, if there is one.\<close>

definition OnRecvCan :: "SensorIndicator \<Rightarrow> ('v, 'h) ParseDrvLink \<Rightarrow> 'h option" where
  "OnRecvCan si dl = dev_can_hdls dl (si_addr si)"

definition OnRecvUart :: "SensorIndicator \<Rightarrow> ('v, 'h) ParseDrvLink \<Rightarrow> 'h option" where
  "OnRecvUart si dl = dev_serial_hdls dl (si_addr si)"

definition OnRecvIIc :: "SensorIndicator \<Rightarrow> ('v, 'h) ParseDrvLink \<Rightarrow> 'h option" where
  "OnRecvIIc si dl = dev_i2c_hdls dl (si_addr si)"

definition OnRecvSoc :: "SensorIndicator \<Rightarrow> ('v, 'h) ParseDrvLink \<Rightarrow> 'h option" where
  "OnRecvSoc si dl = soc_hdls dl (si_addr si)"

section \<open>Look-ups\<close>

definition dev_lists :: "'c ChassisConfig \<Rightarrow> 'c dev_conf list list" where
  "dev_lists c = [gpio_dev c, adc_dev c, pwm_dev c, lidar_dev c, imu_dev c, dtof_dev c, camera_dev c, mcu_dev c, aud_dev c, servo_dev c,
     wireless_dev c, linelaser_dev c, joystick_dev c]"

text \<open>No two devices share the address of their indicator.\<close>

definition conf_ok :: "'c ChassisConfig \<Rightarrow> bool" where
  "conf_ok c \<longleftrightarrow> distinct (map (\<lambda>d. si_addr (dc_sn_ind d)) (concat (dev_lists c)))"

definition foreign :: "SensorIndicator \<Rightarrow> 'c dev_conf list \<Rightarrow> bool" where
  "foreign sidc ds \<longleftrightarrow> (\<forall>d\<in>set ds. \<not> of_dev sidc d)"

lemma foreign_simps [simp]:
  assumes "foreign sidc ds"
  shows "dev_by sidc ds k = k" "part_by part sidc ds k' = k'" "null_by sidc ds k' = k'"
proof -
  have "find (of_dev sidc) ds = None" "find (\<lambda>d. of_dev sidc d \<and> part d \<noteq> None) ds = None"
    using assms by (auto simp: foreign_def find_None_iff)
  then show "dev_by sidc ds k = k" "part_by part sidc ds k' = k'" by (simp_all add: dev_by_def part_by_def)
  show "null_by sidc ds k' = k'" using assms by (auto simp: null_by_def foreign_def)
qed

definition unique_in :: "'c dev_conf \<Rightarrow> SensorIndicator \<Rightarrow> 'c dev_conf list \<Rightarrow> bool" where
  "unique_in d sidc ds \<longleftrightarrow> d \<in> set ds \<and> (\<forall>x\<in>set ds. of_dev sidc x \<longleftrightarrow> x = d)"

lemma find_the_one:
  "d \<in> set ds \<Longrightarrow> (\<And>x. x \<in> set ds \<Longrightarrow> P x \<longleftrightarrow> x = d) \<Longrightarrow> find P ds = Some d"
proof (induction ds)
  case (Cons a ds)
  show ?case
  proof (cases "a = d")
    case False
    then show ?thesis using Cons.prems Cons.IH by simp
  qed (use Cons.prems in simp)
qed simp

lemma unique_simps [simp]:
  assumes "unique_in d sidc ds"
  shows "dev_by sidc ds k = Some d" "part_by part sidc ds k' = (case part d of Some p \<Rightarrow> Some p | None \<Rightarrow> k')" "null_by sidc ds k' = None"
proof -
  have d: "d \<in> set ds" "\<And>x. x \<in> set ds \<Longrightarrow> of_dev sidc x \<longleftrightarrow> x = d" using assms by (auto simp: unique_in_def)
  then show "dev_by sidc ds k = Some d" "null_by sidc ds k' = None" using find_the_one [of d ds "of_dev sidc"] by (auto simp: dev_by_def null_by_def)
  show "part_by part sidc ds k' = (case part d of Some p \<Rightarrow> Some p | None \<Rightarrow> k')"
  proof (cases "part d")
    case None
    then have "find (\<lambda>x. of_dev sidc x \<and> part x \<noteq> None) ds = None" using d(2) by (auto simp: find_None_iff)
    then show ?thesis using None by (simp add: part_by_def)
  next
    case (Some p)
    then have "find (\<lambda>x. of_dev sidc x \<and> part x \<noteq> None) ds = Some d" using d by (intro find_the_one) auto
    then show ?thesis using Some by (simp add: part_by_def)
  qed
qed

lemma distinct_concat_disjoint:
  "distinct (concat ls) \<Longrightarrow> i < j \<Longrightarrow> j < length ls \<Longrightarrow> set (ls ! i) \<inter> set (ls ! j) = {}"
proof (induction ls arbitrary: i j)
  case (Cons l ls)
  then obtain j' where j: "j = Suc j'" "j' < length ls" by (cases j) auto
  show ?case
  proof (cases i)
    case 0
    have "set (ls ! j') \<subseteq> set (concat ls)" using nth_mem [OF j(2)] by auto
    then show ?thesis using 0 Cons.prems(1) j by auto
  next
    case (Suc i')
    then show ?thesis using Cons j by simp
  qed
qed simp

lemma conf_split:
  assumes "conf_ok c" and "d \<in> set (concat (dev_lists c))"
  shows "\<exists>k<13. unique_in d (dc_sn_ind d) (dev_lists c ! k) \<and> (\<forall>j<13. j \<noteq> k \<longrightarrow> foreign (dc_sn_ind d) (dev_lists c ! j))"
proof -
  let ?f = "\<lambda>d. si_addr (dc_sn_ind d)" and ?ls = "dev_lists c"
  have len: "length ?ls = 13" by (simp add: dev_lists_def)
  obtain l where "l \<in> set ?ls" "d \<in> set l" using assms(2) by auto
  then obtain k where k: "k < 13" "d \<in> set (?ls ! k)" using len by (metis in_set_conv_nth)
  have inj: "inj_on ?f (set (concat ?ls))" using assms(1) by (simp add: conf_ok_def distinct_map)
  have member: "x \<in> set (concat ?ls)" if "x \<in> set (?ls ! j)" "j < 13" for x j using that len nth_mem [of j ?ls] by auto
  have same: "x = d" if "x \<in> set (?ls ! j)" "j < 13" "of_dev (dc_sn_ind d) x" for x j
    using inj_onD [OF inj _ member [OF that(1,2)] assms(2)] that(3) by (simp add: of_dev_def)
  have "unique_in d (dc_sn_ind d) (?ls ! k)" using k same [of _ k] by (auto simp: unique_in_def of_dev_def)
  moreover have "foreign (dc_sn_ind d) (?ls ! j)" if "j < 13" "j \<noteq> k" for j
  proof -
    have "distinct (concat ?ls)" using assms(1) by (simp add: conf_ok_def distinct_map)
    then have "set (?ls ! j) \<inter> set (?ls ! k) = {}" using that k(1) len distinct_concat_disjoint [of ?ls] by (metis inf_commute linorder_neqE_nat)
    then show ?thesis using same [of _ j] that(1) k(2) by (auto simp: foreign_def)
  qed
  ultimately show ?thesis using k(1) by blast
qed

section \<open>Properties\<close>

text \<open>
  In a configuration without two devices at one indicator every device is found, and the circular buffer its parser gets has the size that
  is configured for the very port the link binds its driver to; a device without such a port gets no buffer.
\<close>

theorem buffer_of_driver:
  assumes "conf_ok c" and "d \<in> set (concat (dev_lists c))"
  shows "GetDeviceConfig (Some c) (dc_sn_ind d) = Some d \<and>
    ((\<exists>kind cn. ParseDrvLink_Init cl (Some c) (dc_sn_ind d) dl = Some (bind_driver cl kind cn (dc_sn_ind d) dl) \<and>
        GetCircleBuff (Some c) (dc_sn_ind d) = Some (cn_buf_setting cn)) \<or>
     GetDevCanConf (Some c) (dc_sn_ind d) = None \<and> GetDevUartConf (Some c) (dc_sn_ind d) = None \<and>
     GetDevI2cConf (Some c) (dc_sn_ind d) = None \<and> GetCircleBuff (Some c) (dc_sn_ind d) = None)"
proof -
  let ?si = "dc_sn_ind d"
  obtain k where k: "k < 13" and u: "unique_in d ?si (dev_lists c ! k)" and fr: "\<And>j. j < 13 \<Longrightarrow> j \<noteq> k \<Longrightarrow> foreign ?si (dev_lists c ! j)"
    using conf_split [OF assms] by blast
  define port where "port = (case GetDevCanConf (Some c) ?si of Some cn \<Rightarrow> Some cn | None \<Rightarrow>
    (case GetDevUartConf (Some c) ?si of Some cn \<Rightarrow> Some cn | None \<Rightarrow> GetDevI2cConf (Some c) ?si))"
  have bound: "port = Some cn \<Longrightarrow> \<exists>kind. ParseDrvLink_Init cl (Some c) ?si dl = Some (bind_driver cl kind cn ?si dl)" for cn
    by (auto simp: port_def ParseDrvLink_Init_def split: option.splits)
  have none: "port = None \<longleftrightarrow> GetDevCanConf (Some c) ?si = None \<and> GetDevUartConf (Some c) ?si = None \<and> GetDevI2cConf (Some c) ?si = None"
    by (simp add: port_def split: option.split)
  note frs = fr [of 0] fr [of 1] fr [of 2] fr [of 3] fr [of 4] fr [of 5] fr [of 6] fr [of 7] fr [of 8] fr [of 9] fr [of 10] fr [of 11] fr [of 12]
  have "k = 0 \<or> k = 1 \<or> k = 2 \<or> k = 3 \<or> k = 4 \<or> k = 5 \<or> k = 6 \<or> k = 7 \<or> k = 8 \<or> k = 9 \<or> k = 10 \<or> k = 11 \<or> k = 12"
    using k by presburger
  then have "GetDeviceConfig (Some c) ?si = Some d \<and> GetCircleBuff (Some c) ?si = map_option cn_buf_setting port"
    using u frs
    by (elim disjE)
      (simp_all add: dev_lists_def port_def GetDeviceConfig_def GetCircleBuff_def GetDevCanConf_def GetDevUartConf_def GetDevI2cConf_def
        uart_or_i2c_def split: option.split)
  then show ?thesis using bound none by (cases port) auto
qed

text \<open>A configuration with the wheels on CAN, an inertial unit on a serial port and a joystick on the board, for the examples.\<close>

definition ind :: "nat \<Rightarrow> EE_DEV_MAIN \<Rightarrow> EE_DEVICE_TYPE \<Rightarrow> EE_COMM_PORT_TYPE \<Rightarrow> SensorIndicator" where
  "ind a m ty p = \<lparr>si_addr = a, si_dev_main = m, si_type = ty, si_port = p, si_name = ''dev''\<rparr>"

definition servo_conf_dev :: "nat dev_conf" where
  "servo_conf_dev = \<lparr>dc_sn_ind = ind 1 EE_DEV_MAIN_MOTOR E_DEVICE_SERVO E_COMM_PORT_CAN, dc_used = True, dc_uart_configs = None,
     dc_i2c_configs = None, dc_can_configs = Some \<lparr>cn_dev_setting = 0, cn_buf_setting = 256\<rparr>, dc_own_configs = None\<rparr>"

definition imu_conf_dev :: "nat dev_conf" where
  "imu_conf_dev = \<lparr>dc_sn_ind = ind 2 EE_DEV_MAIN_SENTINEL E_DEVICE_IMU E_COMM_PORT_SERIAL, dc_used = True,
     dc_uart_configs = Some \<lparr>cn_dev_setting = 1, cn_buf_setting = 512\<rparr>, dc_i2c_configs = None, dc_can_configs = None, dc_own_configs = None\<rparr>"

definition joy_conf_dev :: "bool \<Rightarrow> nat dev_conf" where
  "joy_conf_dev used = \<lparr>dc_sn_ind = ind 3 EE_DEV_MAIN_SOC E_DEVICE_JOYSTICK E_COMM_PORT_USB, dc_used = used, dc_uart_configs = None,
     dc_i2c_configs = None, dc_can_configs = None, dc_own_configs = Some 2\<rparr>"

definition robot_conf :: "bool \<Rightarrow> nat ChassisConfig" where
  "robot_conf joystick_used = \<lparr>gpio_dev = [], adc_dev = [], pwm_dev = [], lidar_dev = [], imu_dev = [imu_conf_dev], dtof_dev = [], camera_dev = [],
     mcu_dev = [], aud_dev = [], servo_dev = [servo_conf_dev], wireless_dev = [], linelaser_dev = [], joystick_dev = [joy_conf_dev joystick_used]\<rparr>"

lemma robot_conf_ok: "conf_ok (robot_conf u)" "imu_conf_dev \<in> set (concat (dev_lists (robot_conf u)))"
  by (simp_all add: conf_ok_def dev_lists_def robot_conf_def servo_conf_dev_def imu_conf_dev_def joy_conf_dev_def ind_def)

theorem buffer_of_driver_witness:
  "GetDeviceConfig (Some (robot_conf True)) (dc_sn_ind imu_conf_dev) = Some imu_conf_dev \<and>
   GetCircleBuff (Some (robot_conf True)) (dc_sn_ind imu_conf_dev) = Some 512"
proof -
  have "GetCircleBuff (Some (robot_conf True)) (dc_sn_ind imu_conf_dev) = Some 512"
    by (simp add: GetCircleBuff_def robot_conf_def null_by_def part_by_def of_dev_def servo_conf_dev_def imu_conf_dev_def joy_conf_dev_def
        ind_def uart_or_i2c_def)
  then show ?thesis using buffer_of_driver [OF robot_conf_ok] by blast
qed

text \<open>
  A board device that is marked unused while no other one is used has no driver to be bound to, and binding it follows a null pointer.
\<close>

lemma unused_board_device_crashes:
  "ParseDrvLink_Init cl (Some (robot_conf False)) (dc_sn_ind (joy_conf_dev False)) (ParseDrvLink_ctor (Some (robot_conf False)) soc) = None"
  by (simp add: ParseDrvLink_Init_def ParseDrvLink_ctor_def HasSocDevice_def soc_used_def IsLacateSoc_def GetDevCanConf_def GetDevUartConf_def
      GetDevI2cConf_def robot_conf_def part_by_def of_dev_def servo_conf_dev_def imu_conf_dev_def joy_conf_dev_def ind_def)

text \<open>A frame without data is never written, and this is reported as a success to the caller, who compares with the length.\<close>

lemma empty_frame_not_written: "WriteCan cl si can_id [] dl = (word_of_nat (length ([] :: byte list)), dl)"
  by (simp add: WriteCan_def)

section \<open>Devices do not disturb each other\<close>

datatype link_call = LC_Init SensorIndicator | LC_Start SensorIndicator | LC_Stop SensorIndicator | LC_Resume SensorIndicator
  | LC_Close SensorIndicator | LC_WriteCan SensorIndicator int "byte list" | LC_WriteUart SensorIndicator "byte list"
  | LC_WriteI2c SensorIndicator "byte list"

fun call_ind :: "link_call \<Rightarrow> SensorIndicator" where
  "call_ind (LC_Init si) = si" | "call_ind (LC_Start si) = si" | "call_ind (LC_Stop si) = si" | "call_ind (LC_Resume si) = si"
| "call_ind (LC_Close si) = si" | "call_ind (LC_WriteCan si _ _) = si" | "call_ind (LC_WriteUart si _) = si" | "call_ind (LC_WriteI2c si _) = si"

fun do_call :: "('c, 'v) drv_class \<Rightarrow> 'c ChassisConfig option \<Rightarrow> link_call \<Rightarrow> ('v, 'h) ParseDrvLink \<Rightarrow> ('v, 'h) ParseDrvLink option" where
  "do_call cl cc (LC_Init si) dl = map_option snd (ParseDrvLink_Init cl cc si dl)"
| "do_call cl cc (LC_Start si) dl = map_option snd (ParseDrvLink_Start cl si dl)"
| "do_call cl cc (LC_Stop si) dl = map_option snd (ParseDrvLink_Stop cl si dl)"
| "do_call cl cc (LC_Resume si) dl = map_option snd (ParseDrvLink_Resume cl si dl)"
| "do_call cl cc (LC_Close si) dl = map_option snd (ParseDrvLink_Close cl si dl)"
| "do_call cl cc (LC_WriteCan si can_id info) dl = Some (snd (WriteCan cl si can_id info dl))"
| "do_call cl cc (LC_WriteUart si info) dl = Some (snd (WriteUart cl si info dl))"
| "do_call cl cc (LC_WriteI2c si info) dl = Some (snd (WriteI2c cl si info dl))"


text \<open>Every reference belongs to one device, except that of the board's driver.\<close>

definition owns :: "('v, 'h) ParseDrvLink \<Rightarrow> nat \<Rightarrow> nat \<Rightarrow> bool" where
  "owns dl a r \<longleftrightarrow> dev_drivers dl a = Some r \<or> dev_can_data dl a = Some r \<or> dev_serial_data dl a = Some r \<or> dev_iic_data dl a = Some r"

definition link_ok :: "('v, 'h) ParseDrvLink \<Rightarrow> bool" where
  "link_ok dl \<longleftrightarrow> (\<forall>a r. owns dl a r \<longrightarrow> r < dl_fresh dl \<and> (\<forall>b. owns dl b r \<and> r \<noteq> 0 \<longrightarrow> b = a)) \<and> 0 < dl_fresh dl \<and>
     (\<forall>r. soc_data dl = Some r \<longrightarrow> r = 0)"

text \<open>What a call changes: nothing, an object its device owns, a new driver for it, or its link to the driver of the board.\<close>

definition call_shape :: "('c, 'v) drv_class \<Rightarrow> SensorIndicator \<Rightarrow> ('v, 'h) ParseDrvLink \<Rightarrow> ('v, 'h) ParseDrvLink \<Rightarrow> bool" where
  "call_shape cl si dl dl' \<longleftrightarrow> dl' = dl \<or> (\<exists>r v. owns dl (si_addr si) r \<and> dl' = dl\<lparr>dl_objs := (dl_objs dl)(r := v)\<rparr>) \<or>
     (\<exists>kind cn. dl' = snd (bind_driver cl kind cn si dl)) \<or>
     (\<exists>v. dl' = dl\<lparr>dev_drivers := (dev_drivers dl)(si_addr si \<mapsto> 0), dl_objs := (dl_objs dl)(0 := v)\<rparr>)"

lemma shape_base: "on_driver_base f si dl = Some (ret, dl') \<Longrightarrow> call_shape cl si dl dl'"
  by (auto simp: on_driver_base_def call_shape_def owns_def split: option.splits)

lemma shape_write: "owns dl (si_addr si) r \<Longrightarrow> call_shape cl si dl (snd (write_to cl can_id info r dl))"
  by (auto simp: write_to_def call_shape_def split: prod.split)

lemma shape_Init:
  assumes "link_ok dl" and "ParseDrvLink_Init cl cc si dl = Some (ret, dl')"
  shows "call_shape cl si dl dl'"
proof -
  have board: "soc_data dl = Some r \<Longrightarrow> r = 0" for r using assms(1) by (simp add: link_ok_def)
  consider kind cn where "bind_driver cl kind cn si dl = (ret, dl')" | "dl' = dl" |
    v where "dl' = dl\<lparr>dev_drivers := (dev_drivers dl)(si_addr si \<mapsto> 0), dl_objs := (dl_objs dl)(0 := v)\<rparr>"
    using assms(2) board by (auto simp: ParseDrvLink_Init_def split: option.splits if_splits prod.splits)
  then show ?thesis
  proof cases
    case (1 kind cn)
    then have "dl' = snd (bind_driver cl kind cn si dl)" by simp
    then show ?thesis unfolding call_shape_def by blast
  qed (auto simp: call_shape_def)
qed

lemma shape_id: "call_shape cl si dl dl"
  by (simp add: call_shape_def)

lemma owned:
  "dev_can_data dl a = Some r \<Longrightarrow> owns dl a r" "dev_serial_data dl a = Some r \<Longrightarrow> owns dl a r" "dev_iic_data dl a = Some r \<Longrightarrow> owns dl a r"
  by (simp_all add: owns_def)

lemma shape_WriteCan: "call_shape cl si dl (snd (WriteCan cl si can_id info dl))"
  by (auto simp: WriteCan_def intro: shape_id shape_write owned split: option.split)

lemma shape_WriteUart: "call_shape cl si dl (snd (WriteUart cl si info dl))"
  by (auto simp: WriteUart_def intro: shape_id shape_write owned split: option.split)

lemma shape_WriteI2c: "call_shape cl si dl (snd (WriteI2c cl si info dl))"
  by (auto simp: WriteI2c_def intro: shape_id shape_write owned split: option.split)

lemma call_shape:
  assumes "link_ok dl" and "do_call cl cc c dl = Some dl'"
  shows "call_shape cl (call_ind c) dl dl'"
proof (cases c)
  case (LC_Init si)
  then obtain ret where "ParseDrvLink_Init cl cc si dl = Some (ret, dl')" using assms(2) by auto
  then show ?thesis using LC_Init shape_Init [OF assms(1)] by simp
qed (use assms(2) shape_WriteCan shape_WriteUart shape_WriteI2c in
  \<open>auto simp: ParseDrvLink_Start_def ParseDrvLink_Stop_def ParseDrvLink_Resume_def ParseDrvLink_Close_def intro: shape_base\<close>)












end
