(* ===== verification/Chassis_Link.thy ===== *)
theory Chassis_Link
  imports Device_Base Parse_Link "HOL-Library.Multiset" "HOL-Library.Sublist"
begin

text \<open>
  \<open>modules/chassis/devices/dev_parse_link.{h,cc}\<close>, the register of all devices, \<open>transactor.{h,cc}\<close>, which takes the commands for the chassis and
  hands out its messages, and the writers of \<open>msgs_send_tmpl.h\<close> and \<open>dispatcher.h\<close>.

  The tables of the code are unordered maps: the library does not say in which order their loops run. Here a table is a list in that order, and
  the claims hold for every order.
\<close>

section \<open>The register of devices\<close>

type_synonym 'd registry = "(SensorIndicator \<times> 'd DeviceBaseItf) list"

text \<open>A new device enters the table, or replaces the one at its indicator; its parser gets the function that publishes.\<close>

fun registry_set :: "SensorIndicator \<Rightarrow> 'd DeviceBaseItf \<Rightarrow> 'd registry \<Rightarrow> 'd registry" where
  "registry_set si b [] = [(si, b)]"
| "registry_set si b ((si', b') # ds) = (if si_addr si' = si_addr si then (si', b) # ds else (si', b') # registry_set si b ds)"

definition RegisterDevice :: "('d \<Rightarrow> 'd) \<Rightarrow> SensorIndicator \<Rightarrow> 'd DeviceBaseItf \<Rightarrow> 'd registry \<Rightarrow> 'd registry" where
  "RegisterDevice set_handle si b = registry_set si (b\<lparr>db_dev := set_handle (db_dev b)\<rparr>)"

text \<open>The loops over all devices: \<open>ret\<close> is the local variable, which every device overwrites.\<close>

fun device_loop ::
    "(SensorIndicator \<Rightarrow> 'd DeviceBaseItf \<Rightarrow> (int \<times> 'd DeviceBaseItf) option) \<Rightarrow> 'd registry \<Rightarrow> int \<Rightarrow> (int \<times> 'd registry) option" where
  "device_loop f [] ret = Some (ret, [])"
| "device_loop f ((si, b) # ds) ret =
     (case f si b of
        None \<Rightarrow> None
      | Some (ret1, b1) \<Rightarrow> map_option (\<lambda>(r, ds1). (r, (si, b1) # ds1)) (device_loop f ds ret1))"

definition DeviceInit :: "('e, 'd) device_methods \<Rightarrow> (SensorIndicator \<Rightarrow> 'e) \<Rightarrow> 'd registry \<Rightarrow> (int \<times> 'd registry) option" where
  "DeviceInit ms env ds = device_loop (\<lambda>si. InitSensor (dm_Init ms (env si)) True) ds 0"

definition DeviceStart :: "('e, 'd) device_methods \<Rightarrow> (SensorIndicator \<Rightarrow> 'e) \<Rightarrow> 'd registry \<Rightarrow> (int \<times> 'd registry) option" where
  "DeviceStart ms env ds =
     device_loop (\<lambda>si b. map_option (\<lambda>(ret, b1). (if ret \<noteq> 0 then - 1 else ret, b1)) (StartSensor (dm_Start ms (env si)) b)) ds 0"

definition DeviceStop :: "('e, 'd) device_methods \<Rightarrow> (SensorIndicator \<Rightarrow> 'e) \<Rightarrow> 'd registry \<Rightarrow> (int \<times> 'd registry) option" where
  "DeviceStop ms env ds = device_loop (\<lambda>si. StopSensor (dm_Stop ms (env si))) ds 0"

definition DeviceResume :: "'d registry \<Rightarrow> int \<times> 'd registry" where
  "DeviceResume ds = (0, ds)"

definition DeviceClose :: "('e, 'd) device_methods \<Rightarrow> (SensorIndicator \<Rightarrow> 'e) \<Rightarrow> 'd registry \<Rightarrow> (int \<times> 'd registry) option" where
  "DeviceClose ms env ds = map_option (\<lambda>(_, ds1). (0, ds1)) (device_loop (\<lambda>si. CloseSensor (dm_Close ms (env si))) ds 0)"

text \<open>The same for the device at one indicator.\<close>

fun device_at ::
    "('d DeviceBaseItf \<Rightarrow> (int \<times> 'd DeviceBaseItf) option) \<Rightarrow> SensorIndicator \<Rightarrow> int \<Rightarrow> 'd registry \<Rightarrow> (int \<times> 'd registry) option" where
  "device_at f si none [] = Some (none, [])"
| "device_at f si none ((si', b) # ds) =
     (if si_addr si' = si_addr si then map_option (\<lambda>(ret, b1). (ret, (si', b1) # ds)) (f b)
      else map_option (\<lambda>(ret, ds1). (ret, (si', b) # ds1)) (device_at f si none ds))"

definition DeviceInit_one :: "('e, 'd) device_methods \<Rightarrow> 'e \<Rightarrow> SensorIndicator \<Rightarrow> 'd registry \<Rightarrow> (int \<times> 'd registry) option" where
  "DeviceInit_one ms e si = device_at (InitSensor (dm_Init ms e) True) si (- 1)"

definition DeviceStart_one :: "('e, 'd) device_methods \<Rightarrow> 'e \<Rightarrow> SensorIndicator \<Rightarrow> 'd registry \<Rightarrow> (int \<times> 'd registry) option" where
  "DeviceStart_one ms e si = device_at (StartSensor (dm_Start ms e)) si (- 1)"

definition DeviceStop_one :: "('e, 'd) device_methods \<Rightarrow> 'e \<Rightarrow> SensorIndicator \<Rightarrow> 'd registry \<Rightarrow> (int \<times> 'd registry) option" where
  "DeviceStop_one ms e si = device_at (StopSensor (dm_Stop ms e)) si (- 1)"

definition DeviceClose_one :: "('e, 'd) device_methods \<Rightarrow> 'e \<Rightarrow> SensorIndicator \<Rightarrow> 'd registry \<Rightarrow> (int \<times> 'd registry) option" where
  "DeviceClose_one ms e si = device_at (\<lambda>b. map_option (\<lambda>(_, b1). (0, b1)) (CloseSensor (dm_Close ms e) b)) si 0"

section \<open>Commands for the chassis\<close>

text \<open>The virtual methods for commands; a device that does not override them answers -1.\<close>

record ('mv, 'p, 'd) device_commands =
  dc_SetSpeed :: "'mv \<Rightarrow> 'd \<Rightarrow> int \<times> 'd"
  dc_SetMisc :: "'p \<Rightarrow> 'd \<Rightarrow> int \<times> 'd"

text \<open>\<open>_GetDevBaseByType\<close>: the first device of a type, and a call for it.\<close>

fun has_type :: "EE_DEVICE_TYPE \<Rightarrow> 'd registry \<Rightarrow> bool" where
  "has_type ty ds \<longleftrightarrow> list_ex (\<lambda>(si, _). si_type si = ty) ds"

fun at_type :: "EE_DEVICE_TYPE \<Rightarrow> ('d \<Rightarrow> int \<times> 'd) \<Rightarrow> 'd registry \<Rightarrow> int \<times> 'd registry" where
  "at_type ty f [] = (- 1, [])"
| "at_type ty f ((si, b) # ds) =
     (if si_type si = ty then (case f (db_dev b) of (ret, d) \<Rightarrow> (ret, (si, b\<lparr>db_dev := d\<rparr>) # ds))
      else case at_type ty f ds of (ret, ds1) \<Rightarrow> (ret, (si, b) # ds1))"

definition HandleChsMovement :: "('mv, 'p, 'd) device_commands \<Rightarrow> 'mv \<Rightarrow> 'd registry \<Rightarrow> int \<times> 'd registry" where
  "HandleChsMovement cs data ds = (if has_type E_DEVICE_SERVO ds then at_type E_DEVICE_SERVO (dc_SetSpeed cs data) ds else (- 1, ds))"

text \<open>The handlers for ADC, PWM, GPIO, infrared and updates do nothing.\<close>

definition HandleChsNothing :: "'p \<Rightarrow> 'd registry \<Rightarrow> int \<times> 'd registry" where
  "HandleChsNothing data ds = (0, ds)"

definition HandleChsSocMisc :: "('mv, 'p, 'd) device_commands \<Rightarrow> 'p \<Rightarrow> 'd registry \<Rightarrow> int \<times> 'd registry" where
  "HandleChsSocMisc cs data ds =
     (if has_type E_DEVICE_AUDIO ds then at_type E_DEVICE_AUDIO (dc_SetMisc cs data) ds
      else if has_type E_DEVICE_WIRELESS ds then at_type E_DEVICE_WIRELESS (dc_SetMisc cs data) ds else (- 1, ds))"

text \<open>The executors of the transactor, and the parts a command can have.\<close>

record ('mv, 'p, 's) executors =
  ctrl_move :: "('mv \<Rightarrow> 's \<Rightarrow> int \<times> 's) option"
  ctrl_adc :: "('p \<Rightarrow> 's \<Rightarrow> int \<times> 's) option"
  ctrl_pwm :: "('p \<Rightarrow> 's \<Rightarrow> int \<times> 's) option"
  ctrl_gpio :: "('p \<Rightarrow> 's \<Rightarrow> int \<times> 's) option"
  ctrl_infra :: "('p \<Rightarrow> 's \<Rightarrow> int \<times> 's) option"
  ctrl_soc :: "('p \<Rightarrow> 's \<Rightarrow> int \<times> 's) option"
  ctrl_update :: "('p \<Rightarrow> 's \<Rightarrow> int \<times> 's) option"

record ('mv, 'p) MiscChassisCtrl =
  mc_move_ctrl :: "'mv option"
  mc_adc_ctrl :: "'p option"
  mc_pwm_ctrl :: "'p option"
  mc_gpio_ctrl :: "'p option"
  mc_infra_ctrl :: "'p option"
  mc_misc_ctrl :: "'p option"
  mc_firmware_update :: "'p option"

definition DevParseLink_ctor :: "('mv, 'p, 'd) device_commands \<Rightarrow> ('mv, 'p, 'd registry) executors" where
  "DevParseLink_ctor cs =
     \<lparr>ctrl_move = Some (HandleChsMovement cs), ctrl_adc = Some HandleChsNothing, ctrl_pwm = Some HandleChsNothing,
      ctrl_gpio = Some HandleChsNothing, ctrl_infra = Some HandleChsNothing, ctrl_soc = Some (HandleChsSocMisc cs),
      ctrl_update = Some HandleChsNothing\<rparr>"

definition run_exec :: "('x \<Rightarrow> 's \<Rightarrow> int \<times> 's) option \<Rightarrow> 'x \<Rightarrow> 's \<Rightarrow> int \<times> 's" where
  "run_exec c x s = (case c of Some f \<Rightarrow> f x s | None \<Rightarrow> (- 1, s))"

definition exec_part :: "('x \<Rightarrow> 's \<Rightarrow> int \<times> 's) option \<Rightarrow> 'x option \<Rightarrow> int \<times> 's \<Rightarrow> int \<times> 's" where
  "exec_part c x rs = (case x of None \<Rightarrow> rs | Some p \<Rightarrow> run_exec c p (snd rs))"

definition RecvChassCtrl :: "('mv, 'p, 's) executors \<Rightarrow> ('mv, 'p) MiscChassisCtrl \<Rightarrow> 's \<Rightarrow> int \<times> 's" where
  "RecvChassCtrl ex ctrl s =
     (case mc_move_ctrl ctrl of
        Some mv \<Rightarrow> run_exec (ctrl_move ex) mv s
      | None \<Rightarrow>
          exec_part (ctrl_update ex) (mc_firmware_update ctrl) (exec_part (ctrl_soc ex) (mc_misc_ctrl ctrl)
            (exec_part (ctrl_infra ex) (mc_infra_ctrl ctrl) (exec_part (ctrl_gpio ex) (mc_gpio_ctrl ctrl)
            (exec_part (ctrl_pwm ex) (mc_pwm_ctrl ctrl) (exec_part (ctrl_adc ex) (mc_adc_ctrl ctrl) (- 1, s)))))))"

text \<open>A speed from outside; \<open>diff_spd\<close> makes the movement. The result is that of a comparison.\<close>

definition RecvChassMove :: "('mv, 'p, 's) executors \<Rightarrow> ('tw \<Rightarrow> 'mv) \<Rightarrow> 'tw \<Rightarrow> 's \<Rightarrow> int \<times> 's" where
  "RecvChassMove ex diff_spd move s = (case run_exec (ctrl_move ex) (diff_spd move) s of (ret, s1) \<Rightarrow> (if ret \<noteq> 0 then 1 else 0, s1))"

section \<open>Messages of the chassis\<close>

text \<open>A message with the name of its type. A writer of another type gets a null pointer (\<open>None\<close>) for it.\<close>

record 'm typed_msg =
  tm_type :: string
  tm_body :: 'm

record 'm MsgsSendTmpl =
  sn_type :: string
  sn_topic :: string
  sn_writable :: bool
  sn_written :: "'m option list"

text \<open>\<open>wrote\<close> is the answer of the writer.\<close>

definition MessagePublish :: "bool \<Rightarrow> 'm typed_msg \<Rightarrow> 'm MsgsSendTmpl \<Rightarrow> int \<times> 'm MsgsSendTmpl" where
  "MessagePublish wrote msg sn =
     (if sn_writable sn
      then (if wrote then 1 else 0,
            sn\<lparr>sn_written := sn_written sn @ [if tm_type msg = sn_type sn then Some (tm_body msg) else None]\<rparr>)
      else (- 1, sn))"

definition MsgsFlowoutControl :: "bool \<Rightarrow> 'm MsgsSendTmpl \<Rightarrow> 'm MsgsSendTmpl" where
  "MsgsFlowoutControl sw sn = sn\<lparr>sn_writable := sw\<rparr>"

text \<open>The publishers, keyed by the topic followed by the name of the type; the dispatcher holds the same writers under the same keys.\<close>

type_synonym 'm publishers = "(string \<times> 'm MsgsSendTmpl) list"

fun key_set :: "string \<Rightarrow> 'x \<Rightarrow> (string \<times> 'x) list \<Rightarrow> (string \<times> 'x) list" where
  "key_set k x [] = [(k, x)]"
| "key_set k x ((k', x') # xs) = (if k' = k then (k, x) # xs else (k', x') # key_set k x xs)"

definition RegisterPublishers :: "'m MsgsSendTmpl \<Rightarrow> string \<Rightarrow> string \<Rightarrow> 'm publishers \<Rightarrow> 'm publishers" where
  "RegisterPublishers sn ty tpk = key_set (tpk @ ty) sn"

definition DispatchChannelBuild :: "string \<Rightarrow> string \<Rightarrow> 'm publishers \<Rightarrow> 'm publishers" where
  "DispatchChannelBuild ty msg_topic = map (\<lambda>(k, sn). (k, if k = msg_topic @ ty then MsgsFlowoutControl True sn else sn))"

definition DispatchChannelDestroy_all :: "'m publishers \<Rightarrow> 'm publishers" where
  "DispatchChannelDestroy_all = map (\<lambda>(k, sn). (k, MsgsFlowoutControl False sn))"

definition DispatcherGenerate :: "string \<Rightarrow> string \<Rightarrow> 'm publishers \<Rightarrow> 'm publishers" where
  "DispatcherGenerate ty msg_topic ps =
     DispatchChannelBuild ty msg_topic
       (RegisterPublishers \<lparr>sn_type = ty, sn_topic = msg_topic, sn_writable = False, sn_written = []\<rparr> ty msg_topic ps)"

text \<open>A message goes to the first publisher whose key contains the topic, or the name of the type when there is no topic.\<close>

definition key_fits :: "string \<Rightarrow> string \<Rightarrow> string \<Rightarrow> bool" where
  "key_fits tpk ty k \<longleftrightarrow> sublist (if tpk \<noteq> [] then tpk else ty) k"

fun OnTransferMessageOut :: "bool \<Rightarrow> 'm typed_msg \<Rightarrow> string \<Rightarrow> 'm publishers \<Rightarrow> int \<times> 'm publishers" where
  "OnTransferMessageOut wrote msg tpk [] = (- 1, [])"
| "OnTransferMessageOut wrote msg tpk ((k, sn) # ps) =
     (if key_fits tpk (tm_type msg) k then (case MessagePublish wrote msg sn of (ret, sn1) \<Rightarrow> (ret, (k, sn1) # ps))
      else case OnTransferMessageOut wrote msg tpk ps of (ret, ps1) \<Rightarrow> (ret, (k, sn) # ps1))"

text \<open>Receivers, keyed by the name of the type: only commands and speeds are received.\<close>

datatype ('mv, 'p, 'tw) chassis_input = In_Ctrl "('mv, 'p) MiscChassisCtrl" | In_Move 'tw | In_Other

datatype receiver = Rcv_Ctrl | Rcv_Move

definition RegisterReceiver :: "string \<Rightarrow> (string \<times> receiver) list \<Rightarrow> (string \<times> receiver) list" where
  "RegisterReceiver ty rs =
     (if sublist ''MiscChassisCtrl'' ty then key_set ty Rcv_Ctrl rs else if sublist ''Twist'' ty then key_set ty Rcv_Move rs else rs)"

text \<open>The receiver casts the message to its type; a message of another type is a null pointer that is followed: \<open>None\<close>.\<close>

definition OnTransferMessageIn ::
    "('mv, 'p, 's) executors \<Rightarrow> ('tw \<Rightarrow> 'mv) \<Rightarrow> (string \<times> receiver) list \<Rightarrow> ('mv, 'p, 'tw) chassis_input typed_msg \<Rightarrow> 's \<Rightarrow> (int \<times> 's) option" where
  "OnTransferMessageIn ex diff_spd rs msg s =
     (case map_of rs (tm_type msg) of
        None \<Rightarrow> Some (- 1, s)
      | Some Rcv_Ctrl \<Rightarrow> (case tm_body msg of In_Ctrl c \<Rightarrow> Some (RecvChassCtrl ex c s) | _ \<Rightarrow> None)
      | Some Rcv_Move \<Rightarrow> (case tm_body msg of In_Move tw \<Rightarrow> Some (RecvChassMove ex diff_spd tw s) | _ \<Rightarrow> None))"

section \<open>Loops over the devices\<close>

definition after_call :: "(SensorIndicator \<Rightarrow> 'd DeviceBaseItf \<Rightarrow> (int \<times> 'd DeviceBaseItf) option) \<Rightarrow>
    SensorIndicator \<times> 'd DeviceBaseItf \<Rightarrow> SensorIndicator \<times> 'd DeviceBaseItf" where
  "after_call f sb = (fst sb, snd (the (f (fst sb) (snd sb))))"

lemma device_loop_total:
  "\<forall>sb \<in> set ds. f (fst sb) (snd sb) \<noteq> None \<Longrightarrow> \<exists>r1. device_loop f ds r = Some (r1, map (after_call f) ds)"
proof (induction ds arbitrary: r)
  case (Cons sb ds)
  obtain si b where sb: "sb = (si, b)" by force
  obtain ret b1 where "f si b = Some (ret, b1)" using Cons.prems sb by fastforce
  then show ?case using Cons.IH [of ret] Cons.prems sb by (auto simp: after_call_def)
qed simp

lemma device_loop_Some:
  "device_loop f ds r = Some (r1, ds1) \<Longrightarrow> (\<forall>sb \<in> set ds. f (fst sb) (snd sb) \<noteq> None) \<and> ds1 = map (after_call f) ds"
proof (induction ds arbitrary: r r1 ds1)
  case (Cons sb ds)
  obtain si b where sb: "sb = (si, b)" by force
  then show ?case using Cons by (fastforce simp: after_call_def split: option.splits)
qed simp

lemma device_loop_perm:
  assumes "mset ds = mset es" and "device_loop f ds r = Some (r1, ds1)"
  shows "\<exists>r2 es1. device_loop f es r = Some (r2, es1) \<and> mset es1 = mset ds1"
proof -
  have "set es = set ds" using assms(1) by (metis set_mset_mset)
  then obtain r2 where "device_loop f es r = Some (r2, map (after_call f) es)"
    using device_loop_total [of es f r] device_loop_Some [OF assms(2)] by auto
  moreover have "mset (map (after_call f) es) = mset ds1" using device_loop_Some [OF assms(2)] assms(1) by simp
  ultimately show ?thesis by blast
qed

lemma device_loop_last: "device_loop f (ds @ [(si, b)]) r = Some (r1, ds1) \<Longrightarrow> \<exists>b1. f si b = Some (r1, b1)"
proof (induction ds arbitrary: r r1 ds1)
  case (Cons sb ds)
  then show ?case by (cases sb) (auto split: option.splits)
qed (auto split: option.splits)

section \<open>Properties\<close>

text \<open>
  The order in which the table of devices is traversed does not matter for the devices: whatever initialising, starting, stopping or closing
  all devices does in one order, it does in every other.
\<close>

theorem device_order_irrelevant:
  assumes "op \<in> {DeviceInit ms env, DeviceStart ms env, DeviceStop ms env, DeviceClose ms env}"
    and "mset ds = mset es" and "op ds = Some (r, ds1)"
  shows "\<exists>r' es1. op es = Some (r', es1) \<and> mset es1 = mset ds1"
  using assms(1,3) device_loop_perm [OF assms(2)]
  by (elim insertE emptyE) (force simp: DeviceInit_def DeviceStart_def DeviceStop_def DeviceClose_def)+

text \<open>Its answer does: it is that of the device that happens to come last, so that a failure of any other one is hidden.\<close>

definition answering :: "(int, unit) device_methods" where
  "answering = \<lparr>dm_Init = (\<lambda>e d. Some (e, d)), dm_Start = (\<lambda>e d. Some (e, d)), dm_Stop = (\<lambda>e d. Some (e, d)), dm_Resume = (\<lambda>e d. Some (e, d)),
     dm_Close = (\<lambda>e d. Some (e, d))\<rparr>"

definition two_devices :: "unit registry" where
  "two_devices = [(ind 1 EE_DEV_MAIN_MOTOR E_DEVICE_SERVO E_COMM_PORT_CAN, DeviceBaseItf_ctor ()),
     (ind 2 EE_DEV_MAIN_SENTINEL E_DEVICE_IMU E_COMM_PORT_SERIAL, DeviceBaseItf_ctor ())]"

lemma Init_hides_failure:
  defines "env \<equiv> (\<lambda>si. if si_addr si = 1 then - 1 else 0)"
  shows "\<exists>ds. DeviceInit answering env two_devices = Some (0, ds) \<and> db_status (snd (hd ds)) = E_STATUS_UNINITIALIZED"
    and "\<exists>ds. DeviceInit answering env (rev two_devices) = Some (- 1, ds)"
  by (simp_all add: env_def DeviceInit_def two_devices_def answering_def InitSensor_def DeviceBaseItf_ctor_def ind_def Let_def)

theorem device_order_irrelevant_witness:
  "\<exists>r es. DeviceInit answering (\<lambda>_. 0) (rev two_devices) = Some (r, es) \<and> size (mset es) = 2"
proof -
  obtain ds1 where "DeviceInit answering (\<lambda>_. 0) two_devices = Some (0, ds1)" "size (mset ds1) = 2"
    by (simp add: DeviceInit_def two_devices_def answering_def InitSensor_def DeviceBaseItf_ctor_def ind_def Let_def)
  then show ?thesis
    using device_order_irrelevant [of "DeviceInit answering (\<lambda>_. 0)" answering "\<lambda>_. 0" two_devices "rev two_devices" 0 ds1]
    by (auto dest: mset_eq_length)
qed

text \<open>What closing does to one pair of wheels, and to all of them.\<close>

definition closed_wheels :: "motor \<Rightarrow> SensorIndicator \<times> DevServo DeviceBaseItf \<Rightarrow> SensorIndicator \<times> DevServo DeviceBaseItf \<Rightarrow> bool" where
  "closed_wheels m sb sb1 \<longleftrightarrow> fst sb1 = fst sb \<and>
     (db_status (snd sb) \<in> {E_STATUS_UNINITIALIZED, E_STATUS_SHUTDOWN} \<and> snd sb1 = snd sb \<or>
      db_status (snd sb1) = E_STATUS_SHUTDOWN \<and>
      (\<exists>msgs. dv_sent (db_dev (snd sb1)) = dv_sent (db_dev (snd sb)) @ msgs \<and>
         motor_run msgs m = \<lparr>mt_speed1 = 0, mt_speed2 = 0, mt_on1 = False, mt_on2 = False\<rparr>))"

lemma close_one_wheels:
  assumes "db_status b \<noteq> E_STATUS_UNINITIALIZED \<Longrightarrow> servo_ready (db_dev b)" and "\<forall>msg. link_writes e msg"
  shows "\<exists>ret b1. CloseSensor (DevServo_Close e) b = Some (ret, b1) \<and> closed_wheels m (si, b) (si, b1)"
proof (cases "db_status b \<in> {E_STATUS_UNINITIALIZED, E_STATUS_SHUTDOWN}")
  case True
  then show ?thesis by (auto simp: CloseSensor_def closed_wheels_def)
next
  case False
  then show ?thesis using ready_close_disabled [OF _ _ _ assms(2), of b m] assms(1) by (auto simp: closed_wheels_def)
qed

text \<open>
  C11: Closing all devices of a chassis with any number of wheels, each after any history of its own, returns success, and every one of them
  that was in use ends shut down with both axles stopped and disabled, if the driver takes the frames.
\<close>

theorem chassis_close_stops_all:
  assumes "\<forall>sb \<in> set ds. \<exists>cs c. device_calls servo_methods cs (DeviceBaseItf_ctor (DevServo_ctor c)) = Some (snd sb)"
    and "\<forall>si msg. link_writes (env si) msg"
  shows "\<exists>ds1. DeviceClose servo_methods env ds = Some (0, ds1) \<and> list_all2 (closed_wheels m) ds ds1"
proof -
  let ?f = "\<lambda>si. CloseSensor (dm_Close servo_methods (env si))"
  have one: "\<exists>ret b1. ?f si b = Some (ret, b1) \<and> closed_wheels m (si, b) (si, b1)" if mem: "(si, b) \<in> set ds" for si b
  proof -
    obtain cs c where "device_calls servo_methods cs (DeviceBaseItf_ctor (DevServo_ctor c)) = Some b"
      using bspec [OF assms(1) mem] by auto
    then show ?thesis using close_one_wheels [of b "env si" m si] wheels_ready assms(2) by (simp add: servo_methods_def)
  qed
  then have "\<forall>sb \<in> set ds. ?f (fst sb) (snd sb) \<noteq> None" by fastforce
  then obtain r1 where "device_loop ?f ds 0 = Some (r1, map (after_call ?f) ds)"
    using device_loop_total [of ds ?f 0] by auto
  moreover have "closed_wheels m sb (after_call ?f sb)" if "sb \<in> set ds" for sb
    using one [of "fst sb" "snd sb"] that by (auto simp: after_call_def)
  then have "list_all2 (closed_wheels m) ds (map (after_call ?f) ds)" by (simp add: list_all2_conv_all_nth)
  ultimately show ?thesis by (simp add: DeviceClose_def)
qed

theorem chassis_close_stops_all_witness:
  "\<exists>b ds1. device_calls servo_methods [Call_Init True quiet_env] (DeviceBaseItf_ctor (DevServo_ctor sample_conf)) = Some b \<and>
     DeviceClose servo_methods (\<lambda>_. quiet_env) [(dc_sn_ind servo_conf_dev, b)] = Some (0, ds1) \<and>
     list_all2 (closed_wheels \<lparr>mt_speed1 = 5, mt_speed2 = 6, mt_on1 = True, mt_on2 = True\<rparr>) [(dc_sn_ind servo_conf_dev, b)] ds1"
proof -
  obtain b where b: "device_calls servo_methods [Call_Init True quiet_env] (DeviceBaseItf_ctor (DevServo_ctor sample_conf)) = Some b"
    by (rule wheels_after_init)
  then have "\<forall>sb \<in> set [(dc_sn_ind servo_conf_dev, b)]. \<exists>cs c. device_calls servo_methods cs (DeviceBaseItf_ctor (DevServo_ctor c)) = Some (snd sb)"
    unfolding list.set ball_simps snd_conv by blast
  from chassis_close_stops_all [OF this, of "\<lambda>_. quiet_env" "\<lparr>mt_speed1 = 5, mt_speed2 = 6, mt_on1 = True, mt_on2 = True\<rparr>"] b
  show ?thesis by (auto simp: quiet_env_def)
qed

section \<open>Speeds\<close>

definition wheel_commands ::
    "('s \<Rightarrow> WheelRpm) \<Rightarrow> ('w \<Rightarrow> WheelRpm) \<Rightarrow> servo_env \<Rightarrow> (('s, 'w) ChsMovementCtrl, 'p, DevServo) device_commands" where
  "wheel_commands conv_diff conv_wheel env =
     \<lparr>dc_SetSpeed = DevServo_SetSpeed conv_diff conv_wheel env, dc_SetMisc = (\<lambda>_ d. (- 1, d))\<rparr>"

lemma at_type_first:
  "has_type ty ds \<Longrightarrow> \<exists>pre si b post. ds = pre @ (si, b) # post \<and> \<not> has_type ty pre \<and> si_type si = ty \<and>
     at_type ty f ds = (fst (f (db_dev b)), pre @ (si, b\<lparr>db_dev := snd (f (db_dev b))\<rparr>) # post)"
proof (induction ds)
  case (Cons sb ds)
  obtain si b where sb: "sb = (si, b)" by force
  show ?case
  proof (cases "si_type si = ty")
    case True
    then show ?thesis using sb by (intro exI [of _ "[]"] exI [of _ si] exI [of _ b] exI [of _ ds]) (simp split: prod.split)
  next
    case False
    then obtain pre si' b' post where "ds = pre @ (si', b') # post" "\<not> has_type ty pre" "si_type si' = ty"
        "at_type ty f ds = (fst (f (db_dev b')), pre @ (si', b'\<lparr>db_dev := snd (f (db_dev b'))\<rparr>) # post)"
      using Cons sb by auto
    then show ?thesis using False sb
      by (intro exI [of _ "(si, b) # pre"] exI [of _ si'] exI [of _ b'] exI [of _ post]) simp
  qed
qed simp

text \<open>
  C12: A command that sets the revolutions of both wheels reaches exactly one pair of wheels, the first in the table: the frames sent there turn
  its axles at ten times these revolutions, the right one reversed, and leave everything else as it is, if the driver takes the frames.
\<close>

theorem speed_command_moves_wheels:
  assumes "has_type E_DEVICE_SERVO ds" and "\<forall>msg. link_writes env msg"
    and "mc_move_ctrl ctrl = Some cc" and "mc_move cc = Some (Move_whl_rpm rpm)"
  shows "\<exists>pre si b post msgs. ds = pre @ (si, b) # post \<and> \<not> has_type E_DEVICE_SERVO pre \<and>
    RecvChassCtrl (DevParseLink_ctor (wheel_commands conv_diff conv_wheel env)) ctrl ds =
      (0, pre @ (si, b\<lparr>db_dev := (db_dev b)\<lparr>dv_sent := dv_sent (db_dev b) @ msgs\<rparr>\<rparr>) # post) \<and>
    motor_run msgs m = m\<lparr>mt_speed1 := - (right_rpm rpm * 10), mt_speed2 := left_rpm rpm * 10\<rparr>"
proof -
  let ?f = "DevServo_SetSpeed conv_diff conv_wheel env cc" and ?msgs = "filter (link_takes env) (PackServoMtrControl conv_diff conv_wheel cc)"
  obtain pre si b post where d: "ds = pre @ (si, b) # post" "\<not> has_type E_DEVICE_SERVO pre"
      "at_type E_DEVICE_SERVO ?f ds = (fst (?f (db_dev b)), pre @ (si, b\<lparr>db_dev := snd (?f (db_dev b))\<rparr>) # post)"
    using at_type_first [OF assms(1)] by blast
  have takes: "link_takes env = (\<lambda>msg. snd msg \<noteq> [])" using assms(2) by (auto simp: link_takes_def)
  have "?f (db_dev b) = (0, (db_dev b)\<lparr>dv_sent := dv_sent (db_dev b) @ ?msgs\<rparr>)" by (simp add: DevServo_SetSpeed_def WriteServoMessage_def)
  then have "RecvChassCtrl (DevParseLink_ctor (wheel_commands conv_diff conv_wheel env)) ctrl ds =
      (0, pre @ (si, b\<lparr>db_dev := (db_dev b)\<lparr>dv_sent := dv_sent (db_dev b) @ ?msgs\<rparr>\<rparr>) # post)"
    using assms(1,3) d(3) by (simp add: RecvChassCtrl_def DevParseLink_ctor_def run_exec_def HandleChsMovement_def wheel_commands_def)
  moreover have "motor_run ?msgs m = m\<lparr>mt_speed1 := - (right_rpm rpm * 10), mt_speed2 := left_rpm rpm * 10\<rparr>"
    unfolding takes motor_run_filter by (rule PackServoMtrControl_motor(1) [OF assms(4)])
  ultimately show ?thesis using d(1,2) by blast
qed

theorem speed_command_moves_wheels_witness:
  "\<exists>ds msgs. RecvChassCtrl (DevParseLink_ctor (wheel_commands (\<lambda>_ :: unit. \<lparr>left_rpm = 0, right_rpm = 0\<rparr>) (\<lambda>_ :: unit. \<lparr>left_rpm = 0, right_rpm = 0\<rparr>) quiet_env))
     \<lparr>mc_move_ctrl = Some \<lparr>mc_move = Some (Move_whl_rpm \<lparr>left_rpm = 12, right_rpm = 7\<rparr>), mc_emergency_stop = None, mc_wheel_reverse = None,
        mc_wheel_release = None, mc_encoder_reset = None\<rparr>, mc_adc_ctrl = None :: unit option, mc_pwm_ctrl = None, mc_gpio_ctrl = None,
        mc_infra_ctrl = None, mc_misc_ctrl = None, mc_firmware_update = None\<rparr>
     [(dc_sn_ind servo_conf_dev, DeviceBaseItf_ctor (DevServo_ctor sample_conf))] = (0, ds) \<and>
     motor_run msgs \<lparr>mt_speed1 = 0, mt_speed2 = 0, mt_on1 = True, mt_on2 = True\<rparr> =
       \<lparr>mt_speed1 = - 70, mt_speed2 = 120, mt_on1 = True, mt_on2 = True\<rparr>"
proof -
  let ?cc = "\<lparr>mc_move = Some (Move_whl_rpm \<lparr>left_rpm = 12, right_rpm = 7\<rparr>), mc_emergency_stop = None, mc_wheel_reverse = None,
        mc_wheel_release = None, mc_encoder_reset = None\<rparr> :: (unit, unit) ChsMovementCtrl"
  have w: "has_type E_DEVICE_SERVO [(dc_sn_ind servo_conf_dev, DeviceBaseItf_ctor (DevServo_ctor sample_conf))]" "\<forall>msg. link_writes quiet_env msg"
      "mc_move ?cc = Some (Move_whl_rpm \<lparr>left_rpm = 12, right_rpm = 7\<rparr>)"
    by (simp_all add: servo_conf_dev_def ind_def quiet_env_def)
  show ?thesis
    using speed_command_moves_wheels [OF w(1,2) _ w(3),
        of "\<lparr>mc_move_ctrl = Some ?cc, mc_adc_ctrl = None, mc_pwm_ctrl = None, mc_gpio_ctrl = None, mc_infra_ctrl = None, mc_misc_ctrl = None, mc_firmware_update = None\<rparr>"
          "\<lambda>_. \<lparr>left_rpm = 0, right_rpm = 0\<rparr>" "\<lambda>_. \<lparr>left_rpm = 0, right_rpm = 0\<rparr>" "\<lparr>mt_speed1 = 0, mt_speed2 = 0, mt_on1 = True, mt_on2 = True\<rparr>"]
    by auto
qed

text \<open>Whatever else such a command asks for is ignored.\<close>

lemma move_hides_rest:
  "mc_move_ctrl ctrl \<noteq> None \<Longrightarrow>
     RecvChassCtrl ex (ctrl\<lparr>mc_adc_ctrl := x, mc_pwm_ctrl := y, mc_gpio_ctrl := z, mc_misc_ctrl := v, mc_firmware_update := w\<rparr>) s = RecvChassCtrl ex ctrl s"
  by (auto simp: RecvChassCtrl_def)

text \<open>With an audio device no setting reaches a wireless device.\<close>

lemma wireless_unreachable:
  assumes "has_type E_DEVICE_AUDIO ds"
  shows "filter (\<lambda>sb. si_type (fst sb) = E_DEVICE_WIRELESS) (snd (HandleChsSocMisc cs data ds)) =
    filter (\<lambda>sb. si_type (fst sb) = E_DEVICE_WIRELESS) ds"
proof -
  obtain pre si b post where "ds = pre @ (si, b) # post" "si_type si = E_DEVICE_AUDIO"
      "at_type E_DEVICE_AUDIO (dc_SetMisc cs data) ds = (fst (dc_SetMisc cs data (db_dev b)), pre @ (si, b\<lparr>db_dev := snd (dc_SetMisc cs data (db_dev b))\<rparr>) # post)"
    using at_type_first [OF assms] by blast
  then show ?thesis using assms by (simp add: HandleChsSocMisc_def)
qed


section \<open>Where messages go\<close>

text \<open>The topics of the configuration, and the constructor of the dispatcher, which makes nine writers.\<close>

record chs_topic_conf =
  output_imu_topic_name :: string
  output_odom_topic_name :: string
  output_lpa_topic_name :: string
  output_lla_topic_name :: string
  output_irgb_topic_name :: string
  output_idep_topic_name :: string
  output_ipa_topic_name :: string
  output_imonol_topic_name :: string
  output_imonor_topic_name :: string

definition nav_type :: "string \<Rightarrow> string" where
  "nav_type name = ''ventura.common_msgs.nav_msgs.'' @ name"

definition sensor_type :: "string \<Rightarrow> string" where
  "sensor_type name = ''ventura.common_msgs.sensor_msgs.'' @ name"

definition DispatchMsg_ctor :: "chs_topic_conf \<Rightarrow> 'm publishers" where
  "DispatchMsg_ctor c =
     fold (\<lambda>(ty, msg_topic). DispatcherGenerate ty msg_topic)
       [(nav_type ''Odometry'', output_odom_topic_name c), (sensor_type ''PointCloud'', output_lpa_topic_name c),
        (sensor_type ''PointCloud2'', output_lla_topic_name c), (sensor_type ''Imu'', output_imu_topic_name c),
        (sensor_type ''Image'', output_irgb_topic_name c), (sensor_type ''Image'', output_idep_topic_name c),
        (sensor_type ''PointCloud2'', output_ipa_topic_name c), (sensor_type ''Image'', output_imonol_topic_name c),
        (sensor_type ''Image'', output_imonor_topic_name c)] []"

text \<open>The configuration of \<open>ChassisConfigRK3588.pb.txt\<close>.\<close>

definition shipped_topics :: chs_topic_conf where
  "shipped_topics =
     \<lparr>output_imu_topic_name = ''imu'', output_odom_topic_name = ''odometry'', output_lpa_topic_name = ''point_cloud'',
      output_lla_topic_name = ''tof_pcl'', output_irgb_topic_name = ''rgbd_rgb'', output_idep_topic_name = ''rgbd_depth'',
      output_ipa_topic_name = ''rgbd_pcl'', output_imonol_topic_name = ''rgbd_monol'', output_imonor_topic_name = ''rgbd_monor''\<rparr>"

text \<open>What does not change of a publisher.\<close>

fun publisher_head :: "string \<times> 'm MsgsSendTmpl \<Rightarrow> string \<times> string \<times> bool" where
  "publisher_head (k, sn) = (k, sn_type sn, sn_writable sn)"


lemma transfer_none:
  "\<forall>(k, sn) \<in> set ps. \<not> key_fits tpk (tm_type msg) k \<Longrightarrow> OnTransferMessageOut wrote msg tpk ps = (- 1, ps)"
  by (induction ps) auto


definition shipped_heads :: "(string \<times> string \<times> bool) list" where
  "shipped_heads =
     [(''odometry'' @ nav_type ''Odometry'', nav_type ''Odometry'', True),
      (''point_cloud'' @ sensor_type ''PointCloud'', sensor_type ''PointCloud'', True),
      (''tof_pcl'' @ sensor_type ''PointCloud2'', sensor_type ''PointCloud2'', True),
      (''imu'' @ sensor_type ''Imu'', sensor_type ''Imu'', True),
      (''rgbd_rgb'' @ sensor_type ''Image'', sensor_type ''Image'', True),
      (''rgbd_depth'' @ sensor_type ''Image'', sensor_type ''Image'', True),
      (''rgbd_pcl'' @ sensor_type ''PointCloud2'', sensor_type ''PointCloud2'', True),
      (''rgbd_monol'' @ sensor_type ''Image'', sensor_type ''Image'', True),
      (''rgbd_monor'' @ sensor_type ''Image'', sensor_type ''Image'', True)]"


lemma line_laser_unrouted: "filter (key_fits ''point_cloud_tof'' (sensor_type ''PointCloud2'') \<circ> fst) shipped_heads = []"
  by code_simp

lemma shipped_heads_eq: "map publisher_head (DispatchMsg_ctor shipped_topics) = shipped_heads"
  by code_simp



text \<open>The topic the line lasers are configured with is that of no writer: their points are lost.\<close>

lemma line_laser_lost:
  "mset (map publisher_head ps) = mset (map publisher_head (DispatchMsg_ctor shipped_topics :: 'm publishers)) \<Longrightarrow>
     tm_type msg = sensor_type ''PointCloud2'' \<Longrightarrow> OnTransferMessageOut wrote msg ''point_cloud_tof'' ps = (- 1, ps)"
proof (rule transfer_none)
  assume a: "mset (map publisher_head ps) = mset (map publisher_head (DispatchMsg_ctor shipped_topics :: 'm publishers))"
    and ty: "tm_type msg = sensor_type ''PointCloud2''"
  have heads: "set (map publisher_head ps) = set shipped_heads" using a unfolding shipped_heads_eq by (metis set_mset_mset)
  have "\<not> key_fits ''point_cloud_tof'' (sensor_type ''PointCloud2'') k" if "(k, sn) \<in> set ps" for k sn
  proof -
    have "publisher_head (k, sn) \<in> set shipped_heads" unfolding heads [symmetric] set_map using that by (rule imageI)
    from bspec [OF line_laser_unrouted [unfolded filter_empty_conv] this] show ?thesis unfolding publisher_head.simps comp_apply fst_conv .
  qed
  then show "\<forall>(k, sn) \<in> set ps. \<not> key_fits ''point_cloud_tof'' (tm_type msg) k" unfolding ty by blast
qed

end
