(* ===== verification/Drive_Data.thy ===== *)
theory Drive_Data
  imports Prelude
begin

text \<open>
  \<open>modules/chassis/drivers/driver_data_itf.h\<close>, the base class of the drivers, and the three that read from a port: \<open>can/can_data.cc\<close> with the
  descriptors of \<open>can/comm/can_ops.c\<close>, \<open>uart/serial_data.cc\<close> and \<open>i2c/i2c_data.cc\<close>. A controlling thread calls the operations, a capture
  thread polls the port. The calls of the operating system are parameters: their answers, and the descriptors they return. The locale
  \<open>capture_driver\<close> is what a driver must respect of its base class for its threads to be safe; all three are instances.

  The steps of the two threads interleave; \<open>Close\<close> waits for the capture thread. The flags are plain booleans in the code, here every access
  is atomic. The sleeps of the capture thread between two turns of its loop are left out: they do not change the state.
\<close>

section \<open>The state\<close>

text \<open>Where the capture thread is: at the test of its loop, inside \<open>PollingDriveRutine\<close>, or at its end.\<close>

datatype capture_pc = C_loop | C_polling | C_done

text \<open>The controlling thread: free for the next call, or in the join of \<open>Close\<close>.\<close>

datatype control_pc = K_free | K_joining

text \<open>
  \<open>dd_thread\<close> is \<open>None\<close> while the thread object is not joinable. \<open>can_socket\<close> and \<open>fd_epoll\<close> are the static variables of \<open>can_ops.c\<close>;
  \<open>os_open\<close> holds the descriptors the process has open.
\<close>

record drive =
  dd_is_inited :: bool
  dd_running :: bool
  dd_terminate :: bool
  dd_thread :: "capture_pc option"
  dd_control :: control_pc
  dd_dev_fd :: int
  can_socket :: int
  fd_epoll :: int
  os_open :: "int set"

definition CanData_ctor :: drive where
  "CanData_ctor = \<lparr>dd_is_inited = False, dd_running = False, dd_terminate = False, dd_thread = None, dd_control = K_free,
     dd_dev_fd = - 1, can_socket = - 1, fd_epoll = - 1, os_open = {0, 1, 2}\<rparr>"

text \<open>Only a negative cycle sets the pause of the loop; otherwise it stays 0 whatever the configuration says.\<close>

definition DriveDataItf_Init :: "int \<Rightarrow> nat \<Rightarrow> nat" where
  "DriveDataItf_Init loop_cycle_ms loop_moderate_cycle_ms = (if loop_cycle_ms < 0 then 101 else loop_moderate_cycle_ms)"

definition CanData_Init :: "int \<Rightarrow> int \<Rightarrow> nat \<Rightarrow> int \<times> nat" where
  "CanData_Init can_read_freq cycle loop_moderate_cycle_ms =
     (0, DriveDataItf_Init (if cycle \<le> 0 then can_read_freq else cycle) loop_moderate_cycle_ms)"

section \<open>The base class\<close>

text \<open>Assigning to a thread object that is joinable ends the process: \<open>None\<close>.\<close>

definition DriveDataItf_Start :: "drive \<Rightarrow> (int \<times> drive) option" where
  "DriveDataItf_Start s =
     (if dd_is_inited s then Some (- 1, s)
      else if dd_thread s \<noteq> None then None
      else Some (0, s\<lparr>dd_running := True, dd_terminate := False, dd_is_inited := True, dd_thread := Some C_loop\<rparr>))"

definition DriveDataItf_Stop :: "drive \<Rightarrow> int \<times> drive" where
  "DriveDataItf_Stop s = (0, s\<lparr>dd_running := False\<rparr>)"

definition DriveDataItf_Resume :: "drive \<Rightarrow> int \<times> drive" where
  "DriveDataItf_Resume s = (0, s\<lparr>dd_running := True\<rparr>)"

text \<open>\<open>Close\<close> up to the join, and what follows the join.\<close>

definition DriveDataItf_Close_begin :: "drive \<Rightarrow> drive" where
  "DriveDataItf_Close_begin s =
     (let s = s\<lparr>dd_running := False, dd_terminate := True\<rparr>
      in if dd_is_inited s then s\<lparr>dd_control := K_joining\<rparr> else s)"

definition DriveDataItf_Close_joined :: "drive \<Rightarrow> drive" where
  "DriveDataItf_Close_joined s = s\<lparr>dd_thread := None, dd_is_inited := False, dd_control := K_free\<rparr>"

section \<open>The CAN device\<close>

text \<open>What the system answers: the socket and the descriptor for polling (negative on failure), whether it is added, the configuration.\<close>

record os_env =
  os_socket :: int
  os_epoll :: int
  os_epoll_ctl :: bool
  os_config :: int

text \<open>The descriptors a system call returns are not open before.\<close>

definition os_fresh :: "os_env \<Rightarrow> int set \<Rightarrow> bool" where
  "os_fresh e fds \<longleftrightarrow> (0 \<le> os_socket e \<longrightarrow> os_socket e \<notin> fds) \<and> (0 \<le> os_epoll e \<longrightarrow> os_epoll e \<notin> fds) \<and>
     (0 \<le> os_socket e \<longrightarrow> os_socket e \<noteq> os_epoll e)"

definition can_open :: "os_env \<Rightarrow> drive \<Rightarrow> int \<times> drive" where
  "can_open e s =
     (if os_socket e < 0 then (- 1, s)
      else let s1 = s\<lparr>can_socket := os_socket e, os_open := insert (os_socket e) (os_open s), fd_epoll := os_epoll e\<rparr>
           in if os_epoll e < 0 then (1, s1)
              else let s2 = s1\<lparr>os_open := insert (os_epoll e) (os_open s1)\<rparr>
                   in (if os_epoll_ctl e then os_socket e else 1, s2))"

definition CanData_Start :: "os_env \<Rightarrow> drive \<Rightarrow> (int \<times> drive) option" where
  "CanData_Start e s =
     (case can_open e s of
        (fd, s1) \<Rightarrow>
          let s2 = s1\<lparr>dd_dev_fd := fd\<rparr>
          in if fd < 0 then Some (- 1, s2) else if os_config e \<noteq> 0 then Some (- 1, s2) else DriveDataItf_Start s2)"

definition CanData_Stop :: "drive \<Rightarrow> int \<times> drive" where
  "CanData_Stop s = DriveDataItf_Stop s"

definition CanData_Resume :: "drive \<Rightarrow> int \<times> drive" where
  "CanData_Resume s = DriveDataItf_Resume s"

text \<open>\<open>link_down\<close>: whether the interface could be taken down.\<close>

definition can_close :: "bool \<Rightarrow> drive \<Rightarrow> drive" where
  "can_close link_down s =
     (let s1 = s\<lparr>os_open := os_open s - {fd_epoll s} - {dd_dev_fd s}\<rparr>
      in if link_down then s1\<lparr>fd_epoll := - 1, can_socket := - 1\<rparr> else s1)"

definition CanData_Close_begin :: "bool \<Rightarrow> drive \<Rightarrow> drive" where
  "CanData_Close_begin link_down s =
     (let s1 = snd (CanData_Stop s);
          s2 = (if dd_dev_fd s1 > 0 then (can_close link_down s1)\<lparr>dd_dev_fd := - 1\<rparr> else s1)
      in DriveDataItf_Close_begin s2)"

text \<open>Writing goes to the static socket; \<open>sent\<close> is the answer of the system.\<close>

definition can_send_raw :: "(int \<Rightarrow> bool) \<Rightarrow> drive \<Rightarrow> int" where
  "can_send_raw sent s = (if sent (can_socket s) then 0 else - 1)"

definition CanData_WritePort :: "(int \<Rightarrow> bool) \<Rightarrow> drive \<Rightarrow> nat \<Rightarrow> int" where
  "CanData_WritePort sent s len = (if dd_dev_fd s \<le> 0 then - 1 else if can_send_raw sent s \<noteq> 0 then - 1 else int len)"

section \<open>The serial and the I2C device\<close>

text \<open>Whether the device can be read, and the descriptors of the two times it is opened. A failure is fatal and ends the process: \<open>None\<close>.\<close>

record uart_env =
  uart_access :: bool
  uart_first :: int
  uart_second :: int

definition uart_fresh :: "uart_env \<Rightarrow> int set \<Rightarrow> bool" where
  "uart_fresh e fds \<longleftrightarrow> uart_first e \<notin> fds \<and> uart_second e \<notin> fds"

definition open_uart :: "int \<Rightarrow> drive \<Rightarrow> drive" where
  "open_uart fd s = s\<lparr>dd_dev_fd := fd, os_open := (if 0 \<le> fd then insert fd (os_open s) else os_open s)\<rparr>"

definition close_uart :: "drive \<Rightarrow> drive" where
  "close_uart s = s\<lparr>dd_dev_fd := - 1, os_open := os_open s - {dd_dev_fd s}\<rparr>"

definition SerialData_Init :: "int \<Rightarrow> drive \<Rightarrow> drive" where
  "SerialData_Init serial_read_freq s = s\<lparr>dd_dev_fd := - 1\<rparr>"

definition SerialData_Start :: "uart_env \<Rightarrow> drive \<Rightarrow> (int \<times> drive) option" where
  "SerialData_Start e s =
     (if \<not> uart_access e then None
      else if dd_dev_fd s > 0 then DriveDataItf_Start s
      else if uart_first e \<le> 0 then None
      else let s1 = close_uart (open_uart (uart_first e) s)
           in if uart_second e \<le> 0 then None else DriveDataItf_Start (open_uart (uart_second e) s1))"

definition SerialData_Close_begin :: "unit \<Rightarrow> drive \<Rightarrow> drive" where
  "SerialData_Close_begin _ s =
     (let s1 = (if dd_dev_fd s > 0 then close_uart s else s) in DriveDataItf_Close_begin (snd (DriveDataItf_Stop s1)))"

text \<open>The result of the write; a negative one is fatal.\<close>

definition SerialData_WritePort :: "int \<Rightarrow> drive \<Rightarrow> int option" where
  "SerialData_WritePort count s = (if dd_dev_fd s \<le> 0 then Some 0 else if count < 0 then None else Some count)"

text \<open>The calls of the I2C device are commented out: its descriptor is a number, and it neither reads nor writes.\<close>

definition IIcData_Start :: "bool \<Rightarrow> drive \<Rightarrow> (int \<times> drive) option" where
  "IIcData_Start i2c_access s =
     (if \<not> i2c_access then None
      else if dd_dev_fd s > 0 then DriveDataItf_Start s else DriveDataItf_Start (s\<lparr>dd_dev_fd := 100000000\<rparr>))"

definition IIcData_Close_begin :: "unit \<Rightarrow> drive \<Rightarrow> drive" where
  "IIcData_Close_begin _ s =
     (let s1 = (if dd_dev_fd s > 0 then s\<lparr>dd_dev_fd := - 1\<rparr> else s) in DriveDataItf_Close_begin (snd (DriveDataItf_Stop s1)))"

definition IIcData_WritePort :: "drive \<Rightarrow> nat \<Rightarrow> int" where
  "IIcData_WritePort s len = 0"

section \<open>The two threads\<close>

text \<open>One step of the capture thread.\<close>

inductive capture_step :: "drive \<Rightarrow> drive \<Rightarrow> bool" where
  cap_exit: "dd_thread s = Some C_loop \<Longrightarrow> dd_terminate s \<Longrightarrow> capture_step s (s\<lparr>dd_thread := Some C_done\<rparr>)"
| cap_idle: "dd_thread s = Some C_loop \<Longrightarrow> \<not> dd_terminate s \<Longrightarrow> \<not> dd_running s \<Longrightarrow> capture_step s s"
| cap_poll: "dd_thread s = Some C_loop \<Longrightarrow> \<not> dd_terminate s \<Longrightarrow> dd_running s \<Longrightarrow> capture_step s (s\<lparr>dd_thread := Some C_polling\<rparr>)"
| cap_return: "dd_thread s = Some C_polling \<Longrightarrow> capture_step s (s\<lparr>dd_thread := Some C_loop\<rparr>)"

text \<open>Both threads, for a driver with the operations \<open>Start\<close> and \<open>Close_begin\<close>; \<open>fresh\<close> says which answers the system can give.\<close>

inductive drive_step ::
    "('e \<Rightarrow> int set \<Rightarrow> bool) \<Rightarrow> ('e \<Rightarrow> drive \<Rightarrow> (int \<times> drive) option) \<Rightarrow> ('c \<Rightarrow> drive \<Rightarrow> drive) \<Rightarrow> drive \<Rightarrow> drive \<Rightarrow> bool"
  for fresh Start Close_begin where
  st_start: "dd_control s = K_free \<Longrightarrow> fresh e (os_open s) \<Longrightarrow> Start e s = Some (r, s') \<Longrightarrow> drive_step fresh Start Close_begin s s'"
| st_stop: "dd_control s = K_free \<Longrightarrow> DriveDataItf_Stop s = (r, s') \<Longrightarrow> drive_step fresh Start Close_begin s s'"
| st_resume: "dd_control s = K_free \<Longrightarrow> DriveDataItf_Resume s = (r, s') \<Longrightarrow> drive_step fresh Start Close_begin s s'"
| st_close: "dd_control s = K_free \<Longrightarrow> drive_step fresh Start Close_begin s (Close_begin c s)"
| st_join: "dd_control s = K_joining \<Longrightarrow> dd_thread s = Some C_done \<Longrightarrow> drive_step fresh Start Close_begin s (DriveDataItf_Close_joined s)"
| st_capture: "capture_step s s' \<Longrightarrow> drive_step fresh Start Close_begin s s'"

text \<open>The thread object is joinable exactly while the driver is initialised, and the loop ends only after \<open>Close\<close> asked for it.\<close>

definition drive_ok :: "drive \<Rightarrow> bool" where
  "drive_ok s \<longleftrightarrow> (dd_thread s \<noteq> None \<longleftrightarrow> dd_is_inited s) \<and>
     (dd_control s = K_joining \<longrightarrow> dd_is_inited s \<and> dd_terminate s \<and> \<not> dd_running s) \<and>
     (dd_is_inited s \<and> dd_terminate s \<longrightarrow> dd_control s = K_joining) \<and>
     (dd_thread s = Some C_done \<longrightarrow> dd_terminate s)"

text \<open>How many steps the capture thread is from the end of its loop once \<open>terminate_\<close> is set.\<close>

fun steps_to_done :: "capture_pc option \<Rightarrow> nat" where
  "steps_to_done (Some C_polling) = 2"
| "steps_to_done (Some C_loop) = 1"
| "steps_to_done _ = 0"

definition same_threads :: "drive \<Rightarrow> drive \<Rightarrow> bool" where
  "same_threads s s1 \<longleftrightarrow> dd_thread s1 = dd_thread s \<and> dd_is_inited s1 = dd_is_inited s \<and> dd_control s1 = dd_control s \<and>
     dd_terminate s1 = dd_terminate s"

lemma ok_same: "drive_ok s \<Longrightarrow> dd_control s = K_free \<Longrightarrow> same_threads s s1 \<Longrightarrow> drive_ok s1 \<and> dd_control s1 = K_free"
  by (simp add: drive_ok_def same_threads_def)

lemma base_Start_ok:
  assumes "drive_ok s" and "dd_control s = K_free"
  shows "\<exists>r s'. DriveDataItf_Start s = Some (r, s') \<and> drive_ok s'"
proof (cases "dd_is_inited s")
  case False
  then have "dd_thread s = None" using assms(1) by (auto simp: drive_ok_def)
  then show ?thesis using False assms(2) by (simp add: DriveDataItf_Start_def drive_ok_def)
qed (use assms in \<open>simp add: DriveDataItf_Start_def\<close>)

lemma base_Close_ok: "drive_ok s \<Longrightarrow> dd_control s = K_free \<Longrightarrow> drive_ok (DriveDataItf_Close_begin s)"
  by (auto simp: DriveDataItf_Close_begin_def drive_ok_def Let_def)

locale capture_driver =
  fixes fresh :: "'e \<Rightarrow> int set \<Rightarrow> bool" and Start :: "'e \<Rightarrow> drive \<Rightarrow> (int \<times> drive) option" and Close_begin :: "'c \<Rightarrow> drive \<Rightarrow> drive"
    and fatal :: "'e \<Rightarrow> drive \<Rightarrow> bool"
  assumes Start_None: "Start e s = None \<Longrightarrow> \<not> fatal e s \<Longrightarrow> \<exists>s1. same_threads s s1 \<and> DriveDataItf_Start s1 = None"
    and Start_Some: "Start e s = Some (r, s') \<Longrightarrow> same_threads s s' \<or> (\<exists>s1. same_threads s s1 \<and> DriveDataItf_Start s1 = Some (r, s'))"
    and Close_base: "\<exists>s1. same_threads s s1 \<and> Close_begin c s = DriveDataItf_Close_begin s1"
begin

abbreviation reachable :: "drive \<Rightarrow> bool" where
  "reachable s \<equiv> (drive_step fresh Start Close_begin)\<^sup>*\<^sup>* CanData_ctor s"

lemma Start_ok: "drive_ok s \<Longrightarrow> dd_control s = K_free \<Longrightarrow> Start e s = Some (r, s') \<Longrightarrow> drive_ok s'"
  using Start_Some [of e s r s'] ok_same [of s] base_Start_ok by fastforce

lemma step_ok: "drive_step fresh Start Close_begin s s' \<Longrightarrow> drive_ok s \<Longrightarrow> drive_ok s'"
proof (induction rule: drive_step.induct)
  case (st_start s e r s')
  then show ?case using Start_ok by blast
next
  case (st_close s c)
  then show ?case using Close_base [of s c] ok_same base_Close_ok by metis
next
  case (st_capture s s')
  then show ?case by (cases rule: capture_step.cases) (auto simp: drive_ok_def)
qed (auto simp: drive_ok_def DriveDataItf_Stop_def DriveDataItf_Resume_def DriveDataItf_Close_joined_def)

lemma reachable_ok: "reachable s \<Longrightarrow> drive_ok s"
proof (induction rule: rtranclp_induct)
  case base
  show ?case by (simp add: drive_ok_def CanData_ctor_def)
next
  case (step s s')
  then show ?case using step_ok by blast
qed

lemma Start_returns: "reachable s \<Longrightarrow> dd_control s = K_free \<Longrightarrow> \<not> fatal e s \<Longrightarrow> \<exists>r s'. Start e s = Some (r, s')"
proof -
  assume a: "reachable s" "dd_control s = K_free" "\<not> fatal e s"
  have "\<exists>r s'. DriveDataItf_Start s1 = Some (r, s')" if "same_threads s s1" for s1
    using base_Start_ok ok_same [OF reachable_ok [OF a(1)] a(2) that] by blast
  then have "Start e s \<noteq> None" using Start_None [OF _ a(3)] by force
  then show ?thesis by force
qed

lemma joining_progress:
  assumes "reachable s" and "dd_control s = K_joining"
  shows "\<exists>s'. drive_step fresh Start Close_begin s s'"
proof -
  have ok: "drive_ok s" using assms(1) by (rule reachable_ok)
  then obtain pc where "dd_thread s = Some pc" "dd_terminate s" using assms(2) by (auto simp: drive_ok_def)
  then show ?thesis using assms(2) cap_exit cap_return st_capture st_join by (cases pc) blast+
qed

lemma joining_step:
  assumes "reachable s" and "dd_control s = K_joining" and "drive_step fresh Start Close_begin s s'"
  shows "dd_control s' = K_free \<and> dd_thread s' = None \<and> \<not> dd_is_inited s' \<or>
    dd_control s' = K_joining \<and> steps_to_done (dd_thread s') < steps_to_done (dd_thread s)"
proof -
  have asked: "dd_terminate s" using reachable_ok [OF assms(1)] assms(2) by (simp add: drive_ok_def)
  show ?thesis
    using assms(3)
  proof (cases rule: drive_step.cases)
    case st_capture
    then show ?thesis using asked assms(2) by (cases rule: capture_step.cases) auto
  qed (use assms(2) in \<open>auto simp: DriveDataItf_Close_joined_def\<close>)
qed

end

section \<open>The drivers\<close>

lemma can_open_same: "can_open e s = (fd, s1) \<Longrightarrow> same_threads s (s1\<lparr>dd_dev_fd := fd\<rparr>)"
  by (auto simp: can_open_def Let_def same_threads_def split: if_splits)

interpretation can: capture_driver os_fresh CanData_Start CanData_Close_begin "\<lambda>_ _. False"
proof unfold_locales
  fix e s assume a: "CanData_Start e s = None"
  obtain fd s1 where o: "can_open e s = (fd, s1)" by force
  then have "DriveDataItf_Start (s1\<lparr>dd_dev_fd := fd\<rparr>) = None" using a by (simp add: CanData_Start_def Let_def split: if_splits)
  then show "\<exists>s1. same_threads s s1 \<and> DriveDataItf_Start s1 = None" using can_open_same [OF o] by blast
next
  fix e s r s' assume a: "CanData_Start e s = Some (r, s')"
  obtain fd s1 where o: "can_open e s = (fd, s1)" by force
  then have "s' = s1\<lparr>dd_dev_fd := fd\<rparr> \<or> DriveDataItf_Start (s1\<lparr>dd_dev_fd := fd\<rparr>) = Some (r, s')"
    using a by (auto simp: CanData_Start_def Let_def split: if_splits)
  then show "same_threads s s' \<or> (\<exists>s1. same_threads s s1 \<and> DriveDataItf_Start s1 = Some (r, s'))" using can_open_same [OF o] by blast
next
  fix s link_down
  let ?s1 = "snd (CanData_Stop s)"
  let ?s2 = "if dd_dev_fd ?s1 > 0 then (can_close link_down ?s1)\<lparr>dd_dev_fd := - 1\<rparr> else ?s1"
  have "same_threads s ?s2" by (simp add: same_threads_def CanData_Stop_def DriveDataItf_Stop_def can_close_def Let_def)
  then show "\<exists>s1. same_threads s s1 \<and> CanData_Close_begin link_down s = DriveDataItf_Close_begin s1"
    unfolding CanData_Close_begin_def Let_def by blast
qed

lemma uart_same: "same_threads s (open_uart fd s)" "same_threads s (close_uart s)"
  by (simp_all add: same_threads_def open_uart_def close_uart_def)

lemma same_trans: "same_threads s s1 \<Longrightarrow> same_threads s1 s2 \<Longrightarrow> same_threads s s2"
  by (simp add: same_threads_def)

definition uart_fatal :: "uart_env \<Rightarrow> drive \<Rightarrow> bool" where
  "uart_fatal e s \<longleftrightarrow> \<not> uart_access e \<or> (dd_dev_fd s \<le> 0 \<and> (uart_first e \<le> 0 \<or> uart_second e \<le> 0))"

lemma SerialData_Start_base:
  "\<not> uart_fatal e s \<Longrightarrow> \<exists>s1. same_threads s s1 \<and> SerialData_Start e s = DriveDataItf_Start s1"
  "uart_fatal e s \<Longrightarrow> SerialData_Start e s = None"
proof -
  have "same_threads s (open_uart (uart_second e) (close_uart (open_uart (uart_first e) s)))" "same_threads s s"
    using uart_same same_trans by (blast, simp add: same_threads_def)
  then show "\<not> uart_fatal e s \<Longrightarrow> \<exists>s1. same_threads s s1 \<and> SerialData_Start e s = DriveDataItf_Start s1"
    unfolding SerialData_Start_def uart_fatal_def Let_def by (auto simp: not_less)
qed (auto simp: SerialData_Start_def uart_fatal_def Let_def)

interpretation serial: capture_driver uart_fresh SerialData_Start SerialData_Close_begin uart_fatal
proof unfold_locales
  fix e s assume "SerialData_Start e s = None" "\<not> uart_fatal e s"
  then show "\<exists>s1. same_threads s s1 \<and> DriveDataItf_Start s1 = None" using SerialData_Start_base(1) by metis
next
  fix e s r s' assume "SerialData_Start e s = Some (r, s')"
  then show "same_threads s s' \<or> (\<exists>s1. same_threads s s1 \<and> DriveDataItf_Start s1 = Some (r, s'))"
    using SerialData_Start_base [of e s] by (metis option.distinct(1))
next
  fix s :: drive and c :: unit
  have "same_threads s (snd (DriveDataItf_Stop (if dd_dev_fd s > 0 then close_uart s else s)))"
    by (simp add: same_threads_def DriveDataItf_Stop_def close_uart_def)
  then show "\<exists>s1. same_threads s s1 \<and> SerialData_Close_begin c s = DriveDataItf_Close_begin s1"
    unfolding SerialData_Close_begin_def Let_def by blast
qed

interpretation iic: capture_driver "\<lambda>_ _. True" IIcData_Start IIcData_Close_begin "\<lambda>i2c_access _. \<not> i2c_access"
proof unfold_locales
  have same: "same_threads s s" "same_threads s (s\<lparr>dd_dev_fd := fd\<rparr>)" for s fd by (simp_all add: same_threads_def)
  then show "\<exists>s1. same_threads s s1 \<and> DriveDataItf_Start s1 = None" if "IIcData_Start e s = None" "\<not> \<not> e" for e s
    using that by (auto simp: IIcData_Start_def split: if_splits)
  show "same_threads s s' \<or> (\<exists>s1. same_threads s s1 \<and> DriveDataItf_Start s1 = Some (r, s'))" if "IIcData_Start e s = Some (r, s')" for e s r s'
    using that same by (auto simp: IIcData_Start_def split: if_splits)
  show "\<exists>s1. same_threads s s1 \<and> IIcData_Close_begin c s = DriveDataItf_Close_begin s1" for s c
  proof -
    have "same_threads s (snd (DriveDataItf_Stop (if dd_dev_fd s > 0 then s\<lparr>dd_dev_fd := - 1\<rparr> else s)))"
      by (simp add: same_threads_def DriveDataItf_Stop_def)
    then show ?thesis unfolding IIcData_Close_begin_def Let_def by blast
  qed
qed

section \<open>Properties\<close>

abbreviation can_reachable :: "drive \<Rightarrow> bool" where
  "can_reachable s \<equiv> (drive_step os_fresh CanData_Start CanData_Close_begin)\<^sup>*\<^sup>* CanData_ctor s"

abbreviation serial_reachable :: "drive \<Rightarrow> bool" where
  "serial_reachable s \<equiv> (drive_step uart_fresh SerialData_Start SerialData_Close_begin)\<^sup>*\<^sup>* CanData_ctor s"

text \<open>
  C15: In every interleaving of the controlling and the capture thread, starting the CAN driver returns: it never assigns to a thread object that
  is still joinable. The thread exists exactly while the driver is initialised.
\<close>

theorem driver_thread_safe:
  assumes "can_reachable s" and "dd_control s = K_free"
  shows "(\<exists>r s'. CanData_Start e s = Some (r, s')) \<and> (dd_thread s \<noteq> None \<longleftrightarrow> dd_is_inited s)"
  using can.Start_returns [OF assms] can.reachable_ok [OF assms(1)] unfolding drive_ok_def by blast

definition good_os :: os_env where
  "good_os = \<lparr>os_socket = 5, os_epoll = 6, os_epoll_ctl = True, os_config = 0\<rparr>"

definition started :: drive where
  "started = \<lparr>dd_is_inited = True, dd_running = True, dd_terminate = False, dd_thread = Some C_loop, dd_control = K_free,
     dd_dev_fd = 5, can_socket = 5, fd_epoll = 6, os_open = {0, 1, 2, 5, 6}\<rparr>"

lemma start_started: "CanData_Start good_os CanData_ctor = Some (0, started)"
  by (auto simp: CanData_Start_def can_open_def good_os_def CanData_ctor_def DriveDataItf_Start_def started_def Let_def)

lemma started_reachable: "can_reachable started"
proof -
  have "os_fresh good_os (os_open CanData_ctor)" by (simp add: os_fresh_def good_os_def CanData_ctor_def)
  then have "drive_step os_fresh CanData_Start CanData_Close_begin CanData_ctor started" using start_started by (intro st_start) (auto simp: CanData_ctor_def)
  then show ?thesis by blast
qed

theorem driver_thread_safe_witness: "\<exists>r s'. CanData_Start good_os started = Some (r, s')"
  using driver_thread_safe [OF started_reachable] by (simp add: started_def)

text \<open>So does starting a serial driver, unless the device is missing, which is fatal.\<close>

lemma serial_thread_safe:
  "serial_reachable s \<Longrightarrow> dd_control s = K_free \<Longrightarrow> uart_access e \<Longrightarrow> 0 < uart_first e \<Longrightarrow> 0 < uart_second e \<Longrightarrow>
     \<exists>r s'. SerialData_Start e s = Some (r, s')"
  using serial.Start_returns [of s e] by (simp add: uart_fatal_def)

lemma serial_missing_is_fatal: "\<not> uart_access e \<Longrightarrow> SerialData_Start e s = None"
  by (simp add: SerialData_Start_def)


definition closing :: drive where "closing = CanData_Close_begin True (started\<lparr>dd_thread := Some C_polling\<rparr>)"

lemma closing_eq:
  "closing = \<lparr>dd_is_inited = True, dd_running = False, dd_terminate = True, dd_thread = Some C_polling, dd_control = K_joining,
     dd_dev_fd = - 1, can_socket = - 1, fd_epoll = - 1, os_open = {0, 1, 2}\<rparr>"
  by (auto simp: closing_def started_def CanData_Close_begin_def CanData_Stop_def DriveDataItf_Stop_def DriveDataItf_Close_begin_def
      can_close_def Let_def)

lemma closing_reachable: "can_reachable closing"
proof -
  have "capture_step started (started\<lparr>dd_thread := Some C_polling\<rparr>)" by (rule cap_poll) (simp_all add: started_def)
  then have "drive_step os_fresh CanData_Start CanData_Close_begin started (started\<lparr>dd_thread := Some C_polling\<rparr>)" by (rule st_capture)
  moreover have "drive_step os_fresh CanData_Start CanData_Close_begin (started\<lparr>dd_thread := Some C_polling\<rparr>) closing"
    unfolding closing_def by (rule st_close) (simp add: started_def)
  ultimately show ?thesis using started_reachable by (meson rtranclp.rtrancl_into_rtrancl)
qed



text \<open>
  \<open>Close\<close> closes the descriptors before it waits for the capture thread: the thread can be inside a poll of a descriptor that is closed,
  and that another open may get meanwhile.
\<close>

lemma Close_races_poll: "\<exists>s. can_reachable s \<and> dd_thread s = Some C_polling \<and> dd_dev_fd s = - 1 \<and> os_open s = os_open CanData_ctor"
  using closing_reachable by (intro exI [of _ closing]) (simp add: closing_eq CanData_ctor_def)

text \<open>Starting a driver that is started fails, but has replaced its socket: the old descriptors stay open and are lost.\<close>

lemma second_start_leaks:
  "\<exists>s. CanData_Start (good_os\<lparr>os_socket := 7, os_epoll := 8\<rparr>) started = Some (- 1, s) \<and> dd_dev_fd s = 7 \<and> fd_epoll s = 8 \<and>
     {5, 6} \<subseteq> os_open (CanData_Close_begin True s)"
  by (simp add: CanData_Start_def can_open_def good_os_def started_def DriveDataItf_Start_def Let_def CanData_Close_begin_def CanData_Stop_def
      DriveDataItf_Stop_def DriveDataItf_Close_begin_def can_close_def)

text \<open>
  A failure to set up the polling is answered by 1, which \<open>Start\<close> takes for a descriptor: it reports success, and \<open>Close\<close> closes
  the standard output.
\<close>

lemma epoll_failure_closes_stdout:
  "\<exists>s. CanData_Start (good_os\<lparr>os_epoll := - 1\<rparr>) CanData_ctor = Some (0, s) \<and> 1 \<in> os_open s \<and> 1 \<notin> os_open (CanData_Close_begin True s)"
  by (simp add: CanData_Start_def can_open_def good_os_def CanData_ctor_def DriveDataItf_Start_def Let_def CanData_Close_begin_def
      CanData_Stop_def DriveDataItf_Stop_def DriveDataItf_Close_begin_def can_close_def)

text \<open>Otherwise a start and a close give back every descriptor, and a closed driver writes nothing.\<close>

lemma start_close_descriptors:
  assumes "os_fresh e (os_open s)" and "0 < os_socket e" and "0 \<le> os_epoll e" and "os_epoll_ctl e"
    and "CanData_Start e s = Some (r, s')"
  shows "os_open (CanData_Close_begin link_down s') = os_open s \<and> CanData_WritePort sent (CanData_Close_begin link_down s') len = - 1"
  using assms
  by (auto simp: CanData_Start_def can_open_def os_fresh_def DriveDataItf_Start_def Let_def CanData_Close_begin_def CanData_Stop_def
      DriveDataItf_Stop_def DriveDataItf_Close_begin_def can_close_def CanData_WritePort_def split: if_splits)

text \<open>The pause between two polls never is the configured one.\<close>

lemma cycle_ignored: "0 \<le> can_read_freq \<Longrightarrow> CanData_Init can_read_freq cycle loop_ms = (0, loop_ms)"
  by (simp add: CanData_Init_def DriveDataItf_Init_def)

end
