(* ===== verification/Spec2Isabelle.thy ===== *)
theory Spec2Isabelle
  imports Data_Visitor Timing_Wheel Infer_Machine Topology_Graph Circular_Buffer Warehouse RW_Locks
    Bounded_Queue Blocker Shm_Segment Scheduler_System Object_Pool Unbounded_Queue
    Intra_Dispatcher Topology_Participant Time_Rate Record_System
    Line_Laser Inertial_Unit Chassis_Link Drive_Data
begin

text \<open>
  A verification development for the robot software in this repository: the Cyber RT
  communication framework (\<open>src/cyber\<close>) and the robot modules on top of it (\<open>src/modules\<close>). Nodes
  exchange messages over named channels. A transport delivers a message to the process; from
  there \<open>DataDispatcher\<close> puts it into the buffer of every reader of the channel, \<open>DataNotifier\<close>
  wakes the readers, and each reader's \<open>DataVisitor\<close> fetches from its buffer, alone or fused with
  other channels. Readers run as coroutines that a scheduler assigns to processors by priority. Timers run on a timing wheel. Service discovery keeps the roles of all nodes in
  warehouses and their connections in a graph. The \<open>cambrian\<close> module turns keys and commands into
  jobs of the cleaning robot by a table-driven state machine, and the \<open>chassis\<close> module feeds bytes of
  the devices through a ring buffer to its parsers.

  \<^bold>\<open>Conventions.\<close> A class is a record, an enumeration a datatype, an operation a function on the
  record that returns the new state and its result, every early return a branch. Definitions
  carry the class name first where a method name is ambiguous. Operations under a lock are one
  atomic function; lock-free code is a step relation whose steps are single atomic accesses of one
  thread, with the program counter and local variables of each thread in the state, and its
  invariants are proved by rule induction over all interleavings. Unsigned counters are naturals
  with the wrap-around written out where a wrap is possible (\<open>u64_add\<close>, \<open>u64_sub\<close> in \<open>Prelude\<close>).

  \<^bold>\<open>Theories.\<close>
  \<^item> \<open>Prelude\<close>: wrap-around arithmetic, windows of a ring, bounded queues as last elements of a
    history, association-list lemmas.
  \<^item> \<open>Cache_Buffer\<close>: \<open>cyber/data/cache_buffer.h\<close> and \<open>channel_buffer.h\<close>. The ring holds the last
    elements of its fill history; fetching with a reader index. The locale \<open>stream_source\<close> is the
    contract of a buffer towards its readers, interpreted on the ring with its \<open>push\<close>.
  \<^item> \<open>Hash_Map\<close>: \<open>cyber/base/atomic_hash_map.h\<close>. The bucket lists as a step relation of
    compare-and-swap attempts with a linearization proof, and the sequential map under the
    locale \<open>kv_map\<close>.
  \<^item> \<open>Data_Visitor\<close>: \<open>data_notifier.h\<close>, \<open>data_dispatcher.h\<close>, \<open>fusion/all_latest.h\<close>, \<open>data_visitor.h\<close>. A
    visitor delivers a subsequence of the channel in order, a fused visitor pairs each message of its
    first channel with the latest of the others, dispatch reaches every buffer and notifier.
  \<^item> \<open>Timing_Wheel\<close>: \<open>cyber/timer\<close>. Work wheel, assistant wheel, cascading, timers with their
    accumulated error. A task fires exactly at its tick, a stopped timer never, a periodic task is
    rescheduled by at least the resolution.
  \<^item> \<open>Time_Rate\<close>: \<open>cyber/time\<close> on 64-bit words. A loop paced by \<open>Rate\<close> does not drift and never runs faster than its rate.
  \<^item> \<open>Topology_Graph\<close>: \<open>service_discovery/container/graph.{h,cc}\<close>. The graph is a function of the
    inserted and deleted edges, \<open>GetDirectionOf\<close> answers reachability; the string key of an edge
    is not injective.
  \<^item> \<open>Warehouse\<close>: \<open>service_discovery/role\<close> and both warehouse containers, under the locale
    \<open>warehouse\<close> that the single- and multi-value containers interpret.
  \<^item> \<open>Topology_Manager\<close>: \<open>service_discovery/specific_manager\<close>, the base class of the managers of nodes, services and
    channels, and the three managers with their tables, signals and publications.
  \<^item> \<open>Topology_System\<close>: the locale \<open>topo_manager\<close>, interpreted on the three managers, gives the replication of their tables by
    the processes that receive the publications; duplicated nodes; the graph against the warehouses; the departure of a process.
  \<^item> \<open>Std_Text\<close>: \<open>std::to_string\<close>, \<open>std::stoi\<close> and searching in strings.
  \<^item> \<open>Topology_Participant\<close>: \<open>topology_manager.cc\<close> and \<open>rtps/participant.cc\<close>. A lost participant takes exactly the roles of its process
    with it; the manager is fully up or fully down in every history of starts and shutdowns.
  \<^item> \<open>Record_File\<close>: \<open>cyber/record/file\<close>. Files of bytes with a position; sections, chunks, the writer and the reader of a file. The
    encoding of a section is a parameter with the round trip as its law.
  \<^item> \<open>Record_Reader\<close>, \<open>Record_Viewer\<close>: \<open>record_reader.cc\<close> and \<open>record_viewer.cc\<close>. Reading within a window of time; the merged view of several files.
  \<^item> \<open>Record_Roundtrip\<close>, \<open>Record_Codec\<close>, \<open>Record_System\<close>: what the writer leaves in the file, a concrete encoding for closed
    instances, and the properties: the round trip, the view of several recordings in one order of time, the conservation
    of messages under every schedule of the flush thread, and the header that is wrong when that thread falls behind.
  \<^item> \<open>RW_Locks\<close>: \<open>atomic_rw_lock.h\<close>, \<open>reentrant_rw_lock.h\<close>, \<open>rw_lock_guard.h\<close> and the try-lock of
    \<open>transport/shm/block.cc\<close>. The locale \<open>rw_lock\<close> states that a lock refines the counting protocol
    and gives mutual exclusion, \<open>rw_lock_exact\<close> that its counter is exact; all three locks are
    instances. The reentrant lock is shown to leak.
  \<^item> \<open>Bounded_Queue\<close>: \<open>bounded_queue.h\<close>, \<open>wait_strategy.h\<close>. First-in first-out in every interleaving,
    capacity, exactness of the full and empty tests and the case where the full test errs.
  \<^item> \<open>Object_Pool\<close>: \<open>object_pool.h\<close>, \<open>concurrent_object_pool.h\<close>, both instances of the locale \<open>lifo_pool\<close>; the
    concurrent pool as a step relation: no object has two owners and none is lost.
  \<^item> \<open>Unbounded_Queue\<close>: \<open>unbounded_queue.h\<close> on a store of nodes. First-in first-out and free of leaks for one thread
    (locale \<open>fifo_queue\<close>); with two threads a node can be used after its deletion.
  \<^item> \<open>Blocker\<close>: \<open>cyber/blocker\<close> (the in-process channel of the simulation mode) and
    \<open>transport/message/history.h\<close>, both instances of the locale \<open>depth_queue\<close>. A written message
    reaches every callback and the newest messages are observed; two defects of the subscription.
  \<^item> \<open>Shm_Wire\<close>: identities, message info, readable info with their byte encodings, and the notification ring
    of \<open>condition_notifier.cc\<close>. Round trips; what a listener receives as a function of the history.
  \<^item> \<open>Shm_Segment\<close>: size classes, \<open>State\<close>, \<open>Segment\<close> over the System V calls (a parameter), the
    write path of \<open>ShmTransmitter\<close> and the read path of \<open>ShmDispatcher\<close>. A transmitted message is read
    back; the search for a free block returns when there is one; defects of remapping and of the largest class.
  \<^item> \<open>Signal_Slot\<close>: \<open>base/signal.h\<close> and \<open>transport/message/listener_handler.h\<close>. The locale \<open>signal_like\<close> is what a signal
    promises; the handler is proved over it to refine its registers of listeners. An emission works on a snapshot, whatever
    the callbacks do to the signal.
  \<^item> \<open>Message_Header\<close>: \<open>message/message_header.h\<close> and the framing functions of \<open>message_traits.h\<close>, on machine words. Round trip
    and rejection of prefixes.
  \<^item> \<open>Intra_Dispatcher\<close>: \<open>transport/dispatcher/dispatcher\<close> and \<open>intra_dispatcher\<close>. A message reaches every listener of its
    channel once, transcoded where the type differs; removing one listener silences the others.
  \<^item> \<open>Global_Data\<close>: \<open>common/global_data.{h,cc}\<close>. The four identifier registries as instances of the locale
    \<open>name_registry\<close>: a name keeps its identifier and an identifier its name.
  \<^item> \<open>Routine\<close>: \<open>croutine/croutine.{h,cc}\<close>, the loops of \<open>routine_factory.h\<close> and \<open>task_manager.cc\<close>, and the
    interleaving of notifying threads with the processor. The message loop loses no wake-up and handles every
    notified message; the task loop can lose one.
  \<^item> \<open>Task_Scheduler\<close>: \<open>cyber/scheduler\<close>, the contexts (locale \<open>priority_context\<close>, interpreted on both) and the
    operations of both schedulers with their invariant.
  \<^item> \<open>Scheduler_System\<close>: clients and processors as a step relation over either scheduler (locale
    \<open>scheduler_policy\<close>, interpreted on both). Mutual exclusion of the processors, the index of tasks, highest priority
    first, finality and outcome of a removal; removal under a name collision hits the wrong task.
  \<^item> \<open>Infer_Machine\<close>: \<open>modules/cambrian/brain/infer_machine.{h,cc}\<close> and the job side of
    \<open>implement_hub.cc\<close>. Each key or command follows the transition table, drives one job, and keeps
    the machine's invariant.
  \<^item> \<open>Circular_Buffer\<close>: \<open>modules/chassis/parser/circular_buffer.h\<close>. Pushing keeps the newest bytes,
    reading returns the oldest; two of its overloads are shown to break this.
  \<^item> \<open>Frame_Parser\<close>: \<open>modules/chassis/parser/parser_base_itf.h\<close>. The locale \<open>framing\<close> says how frames are found in a stream of bytes,
    \<open>frame_device\<close> what one call of a device parser does; it gives that the frames delivered do not depend on the blocks of the driver.
  \<^item> \<open>Line_Laser\<close>, \<open>Inertial_Unit\<close>: \<open>linelaser_parser.cc\<close>, \<open>llaser_packer.cc\<close> and \<open>imu_parser.cc\<close>, whose three parsers are interpretations
    of \<open>frame_device\<close>. Streams are delivered completely and in order; a foreign address writes outside the arrays.
  \<^item> \<open>Servo_Registers\<close>: \<open>ds20270da_driver.{c,h}\<close>, the registers of the motor drive, its frames and the lists of registers to set. The tables
    are consistent, and the answer to a query is stored in the register that was asked for.
  \<^item> \<open>Servo_Can\<close>: \<open>servo_packer.cc\<close>, \<open>servo_parser.cc\<close> and the copy of a frame in \<open>can_ops.c\<close>. Every setting leaves the wheels standing; the
    encoder differences that are published add up; some reports are taken for echoes.
  \<^item> \<open>Device_Base\<close>: \<open>device_base_itf.h\<close> and \<open>dev_servo.cc\<close>, the life cycle of a device. The locale \<open>device_impl\<close> is its contract with the
    methods of a device, interpreted on the wheels: no order of calls breaks them, and closing disables both axles.
  \<^item> \<open>Drive_Data\<close>: \<open>driver_data_itf.h\<close> and the drivers \<open>can_data.cc\<close>, \<open>serial_data.cc\<close>, \<open>i2c_data.cc\<close>, with a controlling and a capture thread. The
    locale \<open>capture_driver\<close>, interpreted on all three, gives that no second thread is started and that closing returns.
  \<^item> \<open>Parse_Link\<close>: \<open>common_inf.cc\<close> and \<open>parse_drv_link.{h,cc}\<close>. Every device finds its configuration and buffer; calls for one device leave the
    drivers of the others alone.
  \<^item> \<open>Chassis_Link\<close>: \<open>dev_parse_link.{h,cc}\<close>, \<open>transactor.{h,cc}\<close>, \<open>msgs_send_tmpl.h\<close>, \<open>dispatcher.h\<close>: the loops over all devices, commands and
    messages. Closing the chassis stops all wheels, a speed command moves exactly one pair, messages reach their writer in every order
    of the unordered tables.

  \<^bold>\<open>Bounds and fuel.\<close> No model is cut off by fuel: loops over containers are structural recursions
  or functions with a termination proof (the traversal of the graph, by the finitely many vertices not yet
  visited; the cascading of the wheel). Retry loops of lock-free code are steps that may repeat; for
  \<open>TryLockForRead\<close>, the one retry loop the code bounds, the bound is proved. The reader and writer
  counts of the locks and the positions of the bounded queue are unbounded numbers. The search for a free identifier is a
  partial function; it is proved to return while an identifier is free. So are the loops of the record reader and viewer, proved to
  return on the files a writer leaves.

  \<^bold>\<open>Not modelled.\<close> Memory orders weaker than sequential consistency, allocation failure, logging, time spent in sleeps. The
  RTPS transport with the wrappers around it (nodes, readers, writers, services), protobuf reflection, class loading and the SLAM code rest on
  third-party libraries. System calls, terminal settings, sockets, vendor libraries of cameras, and the storage and visualisation of
  \<open>cambrian\<close> are input and output: where a modelled part uses them they are parameters. Conversions of points, images, poses and
  joystick axes are floating-point code, for which there is no model here. The Python bindings and the command-line tools only hand calls on.
\<close>

end
